(* ===== verification/Prelude.thy ===== *)
theory Prelude
  imports "HOL-Library.Word" "HOL-Library.Monad_Syntax"
begin

text \<open>
  What every component of the development shares: the widths of the C types, the error codes of
  \<^verbatim>\<open>rtdef.h\<close>, the treatment of \<^verbatim>\<open>RT_ASSERT\<close>, and generic lemmas on option values, lists and words.

  A kernel function that may stop the system returns an option: \<open>None\<close> means that the call never
  returns, because an \<^verbatim>\<open>RT_ASSERT\<close> failed (\<^verbatim>\<open>rt_assert_handler\<close> in \<^verbatim>\<open>kservice.c\<close> then spins for
  ever) or because the code followed a pointer to no object.  \<open>Some\<close> is a call that returns.
\<close>

unbundle bit_operations_syntax

section \<open>Machine types\<close>

type_synonym u8 = "8 word"
type_synonym u16 = "16 word"
type_synonym u32 = "32 word"

section \<open>Error codes (rtdef.h)\<close>

text \<open>\<^verbatim>\<open>rt_err_t\<close> is a \<^verbatim>\<open>long\<close>; the functions return 0 or a negated code.\<close>

abbreviation RT_EOK :: int where "RT_EOK \<equiv> 0"
abbreviation RT_ERROR :: int where "RT_ERROR \<equiv> 1"
abbreviation RT_ETIMEOUT :: int where "RT_ETIMEOUT \<equiv> 2"
abbreviation RT_EFULL :: int where "RT_EFULL \<equiv> 3"
abbreviation RT_EEMPTY :: int where "RT_EEMPTY \<equiv> 4"
abbreviation RT_ENOMEM :: int where "RT_ENOMEM \<equiv> 5"
abbreviation RT_ENOSYS :: int where "RT_ENOSYS \<equiv> 6"
abbreviation RT_EBUSY :: int where "RT_EBUSY \<equiv> 7"
abbreviation RT_EIO :: int where "RT_EIO \<equiv> 8"
abbreviation RT_EINTR :: int where "RT_EINTR \<equiv> 9"
abbreviation RT_EINVAL :: int where "RT_EINVAL \<equiv> 10"

abbreviation RT_TICK_MAX :: u32 where "RT_TICK_MAX \<equiv> 0xffffffff"
abbreviation RT_TICK_MAX_HALF :: u32 where "RT_TICK_MAX_HALF \<equiv> 0x7fffffff"

section \<open>Assertions and the option monad\<close>

definition rt_assert :: "bool \<Rightarrow> unit option" where
  "rt_assert ex = (if ex then Some () else None)"

named_theorems kstep \<open>rewrite rules that run the body of a kernel function\<close>

lemma bind_rt_assert [kstep, simp]: "Option.bind (rt_assert b) f = (if b then f () else None)"
  by (simp add: rt_assert_def)

lemma bind_if [kstep]: "Option.bind (if b then x else y) f = (if b then Option.bind x f else Option.bind y f)"
  by simp

lemma bind_SomeD: "Option.bind m f = Some y \<Longrightarrow> \<exists>x. m = Some x \<and> f x = Some y"
  by (cases m) auto

lemma bind_SomeE [elim?]:
  assumes "Option.bind m f = Some y"
  obtains x where "m = Some x" and "f x = Some y"
  using assms by (cases m) auto

text \<open>\<open>returns m Q\<close>: the call \<open>m\<close> returns, and its result satisfies \<open>Q\<close> (total correctness).\<close>

definition returns :: "'a option \<Rightarrow> ('a \<Rightarrow> bool) \<Rightarrow> bool" where
  "returns m Q \<longleftrightarrow> (\<exists>x. m = Some x \<and> Q x)"

lemma returns_simps [simp]:
  "returns (Some x) Q \<longleftrightarrow> Q x"
  "\<not> returns None Q"
  "returns (Option.bind m f) Q \<longleftrightarrow> returns m (\<lambda>x. returns (f x) Q)"
  by (auto simp: returns_def bind_eq_Some_conv)

lemma returns_mono: "returns m P \<Longrightarrow> (\<And>x. P x \<Longrightarrow> Q x) \<Longrightarrow> returns m Q"
  by (auto simp: returns_def)

lemma returns_mono_pair:
  "returns q (\<lambda>(r, k). P r k) \<Longrightarrow> (\<And>r k. P r k \<Longrightarrow> Q r k) \<Longrightarrow> returns q (\<lambda>(r, k). Q r k)"
  by (auto simp: returns_def)

lemma returns_bind_pair:
  "returns q (\<lambda>(r, k). P r k) \<Longrightarrow> (\<And>r k. P r k \<Longrightarrow> returns (f r k) Q) \<Longrightarrow> returns (Option.bind q (\<lambda>(r, k). f r k)) Q"
  by (auto simp: returns_def)

lemma returns_bindI: "returns m P \<Longrightarrow> (\<And>x. P x \<Longrightarrow> returns (f x) Q) \<Longrightarrow> returns (Option.bind m f) Q"
  by (auto simp: returns_def)

lemma returns_if: "returns (if b then x else y) Q \<longleftrightarrow> (b \<longrightarrow> returns x Q) \<and> (\<not> b \<longrightarrow> returns y Q)"
  by simp

lemma returnsD: "returns m Q \<Longrightarrow> m = Some x \<Longrightarrow> Q x"
  by (simp add: returns_def)

lemma returns_conj: "returns m P \<Longrightarrow> returns m Q \<Longrightarrow> returns m (\<lambda>x. P x \<and> Q x)"
  by (auto simp: returns_def)

section \<open>Lists\<close>

lemma set_take_subset_drop: "set xs = set (take n xs) \<union> set (drop n xs)"
  by (metis append_take_drop_id set_append)

lemma in_set_tlD: "x \<in> set (tl xs) \<Longrightarrow> x \<in> set xs"
  by (cases xs) auto

lemma removeAll_notin: "x \<notin> set xs \<Longrightarrow> removeAll x xs = xs"
  by (rule removeAll_id)

lemma distinct_hd_tl: "xs \<noteq> [] \<Longrightarrow> distinct xs \<Longrightarrow> removeAll (hd xs) xs = tl xs"
  by (cases xs) (auto simp: removeAll_id)

lemma removeAll_distinct_append:
  "distinct (xs @ x # ys) \<Longrightarrow> removeAll x (xs @ x # ys) = xs @ ys"
  by (simp add: removeAll_id)

section \<open>Words\<close>

text \<open>Replacing the bits selected by a mask, as in \<^verbatim>\<open>new | (old & ~MASK)\<close>.\<close>

lemma mask_replace_and: "((a::'a::len word) OR (b AND NOT m)) AND m = a AND m"
  by (rule bit_word_eqI) (auto simp: bit_simps)

lemma mask_replace_and_not:
  "(a::'a::len word) AND NOT m = 0 \<Longrightarrow> (a OR (b AND NOT m)) AND NOT m = b AND NOT m"
  by (rule bit_word_eqI) (auto simp: bit_simps bit_eq_iff)

lemma and_not_idem: "((a::'a::len word) AND NOT m) AND NOT m = a AND NOT m"
  by (rule bit_word_eqI) (auto simp: bit_simps)

lemma and_not_and_zero: "((a::'a::len word) AND NOT m) AND m = 0"
  by (rule bit_word_eqI) (auto simp: bit_simps)

lemma or_and_self: "((a::'a::len word) OR m) AND m = m"
  by (rule bit_word_eqI) (auto simp: bit_simps)

lemma bit_shifted_one: "bit (push_bit p (1::'a::len word)) q \<longleftrightarrow> p < LENGTH('a) \<and> q = p"
  by (auto simp: bit_simps bit_1_iff)

lemma shifted_one_nonzero: "p < LENGTH('a) \<Longrightarrow> push_bit p (1::'a::len word) \<noteq> 0"
  by (metis bit_0_eq bit_shifted_one bot_apply bot_bool_def)

lemma word_eq_0_iff_bits: "(w::'a::len word) = 0 \<longleftrightarrow> (\<forall>n < LENGTH('a). \<not> bit w n)"
  by (auto simp: bit_eq_iff intro: bit_imp_le_length dest: bit_imp_le_length)

text \<open>Unsigned differences and the half range, the comparison the tick counters use.\<close>

lemma unat_minus_eq:
  fixes a b :: "'a::len word"
  shows "unat (a - b) = (if b \<le> a then unat a - unat b else 2 ^ LENGTH('a) + unat a - unat b)"
  by (auto simp: unat_sub_if_size word_le_nat_alt word_size)

end
