(* ===== verification/RtList.thy ===== *)
theory RtList
  imports Prelude "HOL-Library.While_Combinator"
begin

text \<open>
  The intrusive lists of \<^verbatim>\<open>rtservice.h\<close>: the circular doubly linked \<^verbatim>\<open>rt_list_t\<close>, on an explicit
  pointer store.  The store maps a node to the nodes its \<open>next\<close>
  and \<open>prev\<close> fields point to; the updates are made in the order of the C assignments.

  \<open>dlist s l xs\<close> says that the list headed by \<open>l\<close> holds the nodes \<open>xs\<close>.  The lemmas show that each
  pointer operation acts on \<open>xs\<close> as the obvious list operation and leaves every other list alone,
  and \<open>reps_remove\<close>, \<open>reps_insert_before\<close> and \<open>reps_insert_after\<close> lift that to a whole family of lists that share one
  node field, which is how the kernel components below use lists (\<open>KState\<close>).
\<close>

section \<open>The pointer store and the operations of rt_list_t\<close>

record 'a store =
  next_of :: "'a \<Rightarrow> 'a"
  prev_of :: "'a \<Rightarrow> 'a"

definition set_next :: "'a \<Rightarrow> 'a \<Rightarrow> 'a store \<Rightarrow> 'a store" where
  "set_next p v s = s\<lparr>next_of := (next_of s)(p := v)\<rparr>"

definition set_prev :: "'a \<Rightarrow> 'a \<Rightarrow> 'a store \<Rightarrow> 'a store" where
  "set_prev p v s = s\<lparr>prev_of := (prev_of s)(p := v)\<rparr>"

definition rt_list_init :: "'a \<Rightarrow> 'a store \<Rightarrow> 'a store" where
  "rt_list_init l s = set_next l l (set_prev l l s)"

definition rt_list_insert_after :: "'a \<Rightarrow> 'a \<Rightarrow> 'a store \<Rightarrow> 'a store" where
  "rt_list_insert_after l n s =
     (let s = set_prev (next_of s l) n s;
          s = set_next n (next_of s l) s;
          s = set_next l n s
      in set_prev n l s)"

definition rt_list_insert_before :: "'a \<Rightarrow> 'a \<Rightarrow> 'a store \<Rightarrow> 'a store" where
  "rt_list_insert_before l n s =
     (let s = set_next (prev_of s l) n s;
          s = set_prev n (prev_of s l) s;
          s = set_prev l n s
      in set_next n l s)"

definition rt_list_remove :: "'a \<Rightarrow> 'a store \<Rightarrow> 'a store" where
  "rt_list_remove n s =
     (let s = set_prev (next_of s n) (prev_of s n) s;
          s = set_next (prev_of s n) (next_of s n) s;
          s = set_prev n n s
      in set_next n n s)"

definition rt_list_isempty :: "'a \<Rightarrow> 'a store \<Rightarrow> bool" where
  "rt_list_isempty l s \<longleftrightarrow> next_of s l = l"

text \<open>The loop of \<^verbatim>\<open>rt_list_len\<close> ends only when it comes back to the head: \<open>None\<close> is not returning.\<close>

partial_function (option) rt_list_len_loop :: "'a \<Rightarrow> 'a store \<Rightarrow> 'a \<Rightarrow> u32 \<Rightarrow> u32 option" where
  "rt_list_len_loop l s p len =
     (if next_of s p = l then Some len else rt_list_len_loop l s (next_of s p) (len + 1))"

definition rt_list_len :: "'a \<Rightarrow> 'a store \<Rightarrow> u32 option" where
  "rt_list_len l s = rt_list_len_loop l s l 0"

lemmas rt_list_defs = rt_list_init_def rt_list_insert_after_def rt_list_insert_before_def
  rt_list_remove_def set_next_def set_prev_def Let_def

text \<open>What removal writes, in one update per field.\<close>

lemma rt_list_remove_fields:
  "next_of (rt_list_remove n s) = (next_of s)(prev_of s n := next_of s n, n := n)"
  "prev_of (rt_list_remove n s) = (prev_of s)(next_of s n := prev_of s n, n := n)"
  by (auto simp: rt_list_defs)

section \<open>The abstraction relation\<close>

fun links :: "'a store \<Rightarrow> 'a list \<Rightarrow> bool" where
  "links s (a # b # r) = (next_of s a = b \<and> prev_of s b = a \<and> links s (b # r))"
| "links s _ = True"

definition dlist :: "'a store \<Rightarrow> 'a \<Rightarrow> 'a list \<Rightarrow> bool" where
  "dlist s l xs \<longleftrightarrow> distinct (l # xs) \<and> links s (l # xs @ [l])"

lemma links_append: "links s (xs @ a # ys) \<longleftrightarrow> links s (xs @ [a]) \<and> links s (a # ys)"
  by (induction s xs rule: links.induct) (auto simp: neq_Nil_conv)

lemma links_append2: "links s (xs @ a # b # ys) \<longleftrightarrow>
  links s (xs @ [a]) \<and> next_of s a = b \<and> prev_of s b = a \<and> links s (b # ys)"
  by (subst links_append) simp

lemma links_frame:
  assumes "\<And>x. x \<in> set (butlast zs) \<Longrightarrow> next_of s' x = next_of s x"
    and "\<And>x. x \<in> set (tl zs) \<Longrightarrow> prev_of s' x = prev_of s x"
  shows "links s' zs = links s zs"
  using assms by (induction s zs rule: links.induct) auto

lemma butlast_snoc_Cons: "butlast (l # xs @ [l]) = l # xs"
  by (metis append_Cons butlast_snoc)

lemma dlist_frame:
  assumes "\<And>x. x \<in> set (l # xs) \<Longrightarrow> next_of s' x = next_of s x \<and> prev_of s' x = prev_of s x"
  shows "dlist s' l xs = dlist s l xs"
proof -
  have "links s' (l # xs @ [l]) = links s (l # xs @ [l])"
    by (rule links_frame) (use assms in \<open>auto simp: butlast_snoc_Cons\<close>)
  then show ?thesis by (simp add: dlist_def)
qed

lemma dlist_head_next: "dlist s l xs \<Longrightarrow> next_of s l = hd (xs @ [l])"
  by (cases xs) (auto simp: dlist_def)

lemma dlist_head_prev: "dlist s l xs \<Longrightarrow> prev_of s l = last (l # xs)"
proof (cases xs rule: rev_cases)
  case (snoc ys y)
  assume "dlist s l xs"
  with snoc have "links s ((l # ys) @ y # [l])" by (simp add: dlist_def)
  then show ?thesis using snoc by (subst (asm) links_append) simp
qed (simp add: dlist_def)

lemma dlist_isempty: "dlist s l xs \<Longrightarrow> rt_list_isempty l s \<longleftrightarrow> xs = []"
  by (cases xs) (auto simp: rt_list_isempty_def dlist_def)

lemma dlist_init: "dlist (rt_list_init l s) l []"
  by (simp add: dlist_def rt_list_defs)

lemma dlist_single: "dlist s n [] \<longleftrightarrow> next_of s n = n \<and> prev_of s n = n"
  by (auto simp: dlist_def)

text \<open>Both insertions put the new node between two neighbours \<open>a\<close> and \<open>b\<close> of the ring.\<close>

lemma links_insert:
  assumes "links s (us @ a # b # vs)" and "distinct (us @ a # butlast (b # vs))"
    and "distinct (tl (us @ [a]) @ b # vs)" and "n \<notin> set (us @ a # b # vs)"
    and "next_of s' = (next_of s)(a := n, n := b)" and "prev_of s' = (prev_of s)(b := n, n := a)"
  shows "links s' (us @ a # n # b # vs)"
proof -
  have "links s' (us @ [a]) = links s (us @ [a])"
    by (rule links_frame) (use assms in \<open>auto dest: in_set_tlD in_set_butlastD\<close>)
  moreover have "links s' (b # vs) = links s (b # vs)"
    by (rule links_frame) (use assms in \<open>auto dest: in_set_butlastD split: if_splits\<close>)
  ultimately show ?thesis
    using assms by (auto simp: links_append2)
qed

lemma links_delete:
  assumes "links s (us @ a # n # b # vs)" and "distinct (us @ a # n # butlast (b # vs))"
    and "distinct (tl (us @ [a]) @ n # b # vs)"
    and "next_of s' = (next_of s)(a := b, n := n)" and "prev_of s' = (prev_of s)(b := a, n := n)"
    and "n \<noteq> a" and "n \<noteq> b" and "n \<notin> set us" and "n \<notin> set vs"
  shows "links s' (us @ a # b # vs)"
proof -
  have "links s' (us @ [a]) = links s (us @ [a])"
    by (rule links_frame) (use assms in \<open>auto dest: in_set_tlD in_set_butlastD\<close>)
  moreover have "links s' (b # vs) = links s (b # vs)"
    by (rule links_frame) (use assms in \<open>auto dest: in_set_butlastD split: if_splits\<close>)
  ultimately show ?thesis
    using assms by (auto simp: links_append2)
qed

section \<open>What each operation does to the list\<close>

text \<open>\<open>rt_list_insert_before\<close> on a node of the ring: the new node goes in front of it (at the end, when
  the node is the head).\<close>

lemma dlist_insert_before_head:
  assumes "dlist s l xs" and "n \<notin> set (l # xs)"
  shows "dlist (rt_list_insert_before l n s) l (xs @ [n])"
proof (cases xs rule: rev_cases)
  case Nil
  with assms show ?thesis by (auto simp: dlist_def rt_list_defs)
next
  case (snoc ys y)
  have "prev_of s l = y" using dlist_head_prev [OF assms(1)] snoc by simp
  moreover have "links s ((l # ys) @ y # l # [])" using assms(1) snoc by (simp add: dlist_def)
  ultimately have "links (rt_list_insert_before l n s) ((l # ys) @ y # n # l # [])"
    by (rule_tac links_insert) (use assms snoc in \<open>auto simp: dlist_def rt_list_defs\<close>)
  with assms snoc show ?thesis by (auto simp: dlist_def)
qed

lemma dlist_insert_before_node:
  assumes "dlist s l (ys @ m # zs)" and "n \<notin> set (l # ys @ m # zs)"
  shows "dlist (rt_list_insert_before m n s) l (ys @ n # m # zs)"
proof -
  let ?a = "last (l # ys)" and ?us = "butlast (l # ys)"
  have eq: "?us @ ?a # m # zs @ [l] = l # ys @ m # zs @ [l]"
    by (metis append_Cons append_Nil append_assoc append_butlast_last_id list.distinct(1))
  have us: "?us @ [?a] = l # ys" by (simp only: append_butlast_last_id [OF list.distinct(2)])
  have lk: "links s (?us @ ?a # m # zs @ [l])"
    using assms(1) unfolding dlist_def by (simp only: eq append_assoc append_Cons)
  then have pm: "prev_of s m = ?a" by (simp only: links_append2)
  have d: "distinct (l # ys @ m # zs)" using assms(1) by (simp add: dlist_def)
  then have d': "distinct (?us @ ?a # m # zs)"
    by (metis append.assoc append_Cons append_Nil us)
  have "m \<noteq> l" "m \<noteq> ?a" using d by (auto split: if_splits)
  have "links (rt_list_insert_before m n s) (?us @ ?a # n # m # zs @ [l])"
    by (rule links_insert [OF lk])
      (use assms(2) d d' pm us \<open>m \<noteq> ?a\<close> in \<open>auto simp: rt_list_defs butlast_append split: if_splits dest: in_set_butlastD\<close>)
  moreover have "?us @ ?a # n # m # zs @ [l] = l # (ys @ n # m # zs) @ [l]"
    by (metis append_Cons append_Nil append_assoc us)
  ultimately have "links (rt_list_insert_before m n s) (l # (ys @ n # m # zs) @ [l])"
    by (simp only:)
  then show ?thesis using d assms(2) unfolding dlist_def by auto
qed

lemma dlist_insert_after_head:
  assumes "dlist s l xs" and "n \<notin> set (l # xs)"
  shows "dlist (rt_list_insert_after l n s) l (n # xs)"
proof (cases xs)
  case Nil
  with assms show ?thesis by (auto simp: dlist_def rt_list_defs)
next
  case (Cons y ys)
  have "next_of s l = y" using dlist_head_next [OF assms(1)] Cons by simp
  moreover have "links s ([] @ l # y # ys @ [l])" using assms(1) Cons by (simp add: dlist_def)
  ultimately have "links (rt_list_insert_after l n s) ([] @ l # n # y # ys @ [l])"
    by (rule_tac links_insert) (use assms Cons in \<open>auto simp: dlist_def rt_list_defs\<close>)
  with assms Cons show ?thesis by (auto simp: dlist_def)
qed

lemma dlist_remove:
  assumes "dlist s l (ys @ n # zs)"
  shows "dlist (rt_list_remove n s) l (ys @ zs)" and "dlist (rt_list_remove n s) n []"
proof -
  let ?a = "last (l # ys)" and ?us = "butlast (l # ys)"
  let ?b = "hd (zs @ [l])" and ?vs = "tl (zs @ [l])"
  have us: "?us @ [?a] = l # ys" by (simp only: append_butlast_last_id [OF list.distinct(2)])
  have vs: "?b # ?vs = zs @ [l]" by (cases zs) auto
  have eq: "?us @ ?a # n # ?b # ?vs = l # ys @ n # zs @ [l]"
    by (metis append_Cons append_Nil append_assoc us vs)
  have lk: "links s (?us @ ?a # n # ?b # ?vs)"
    using assms unfolding dlist_def by (simp only: eq append_assoc append_Cons)
  have d: "distinct (l # ys @ n # zs)" using assms by (simp add: dlist_def)
  have pn: "prev_of s n = ?a" using lk by (simp only: links_append2)
  have nn: "next_of s n = ?b" using lk by (simp only: links_append2 links.simps)
  have ne: "n \<noteq> ?a" "n \<noteq> ?b" using d by (auto simp: hd_append split: if_splits)
  have bl: "butlast (?b # ?vs) = zs" by (simp only: vs butlast_snoc)
  have d1: "distinct (?us @ ?a # n # butlast (?b # ?vs))"
    using d us unfolding bl by (metis append.assoc append_Cons append_Nil)
  have d2: "distinct (tl (?us @ [?a]) @ n # ?b # ?vs)" using d unfolding us vs by auto
  have notin: "n \<notin> set ?us" "n \<notin> set ?vs"
    using d by (auto dest!: in_set_butlastD in_set_tlD split: if_splits)
  have nx: "next_of (rt_list_remove n s) = (next_of s)(?a := ?b, n := n)"
    and pv: "prev_of (rt_list_remove n s) = (prev_of s)(?b := ?a, n := n)"
    using pn nn ne by (auto simp: rt_list_defs)
  have "links (rt_list_remove n s) (?us @ ?a # ?b # ?vs)"
    by (rule links_delete [OF lk d1 d2 nx pv ne notin])
  moreover have "?us @ ?a # ?b # ?vs = l # (ys @ zs) @ [l]"
    by (metis append_Cons append_Nil append_assoc us vs)
  ultimately have "links (rt_list_remove n s) (l # (ys @ zs) @ [l])" by (simp only:)
  then show "dlist (rt_list_remove n s) l (ys @ zs)" using d unfolding dlist_def by auto
  show "dlist (rt_list_remove n s) n []" using nx pv by (simp add: dlist_single)
qed

section \<open>The other lists of the store\<close>

text \<open>An operation writes only the node, its neighbours and the list it works on.\<close>

lemma dlist_neighbours:
  assumes "dlist s l xs" and "n \<in> set (l # xs)"
  shows "next_of s n \<in> set (l # xs)" and "prev_of s n \<in> set (l # xs)"
proof -
  have "links s (l # xs @ [l])" using assms(1) by (simp add: dlist_def)
  moreover from assms(2) obtain us vs where uv: "l # xs = us @ n # vs" by (meson split_list)
  ultimately have "links s (us @ n # vs @ [l])" by (metis append_Cons append_assoc)
  then have nx: "next_of s n = hd (vs @ [l])" by (cases vs) (simp_all add: links_append2)
  show "next_of s n \<in> set (l # xs)"
  proof (cases vs)
    case Nil
    then show ?thesis using nx by simp
  next
    case (Cons v ws)
    then show ?thesis unfolding nx uv by simp
  qed
  show "prev_of s n \<in> set (l # xs)"
  proof (cases us rule: rev_cases)
    case Nil
    then have "n = l" using uv by simp
    with dlist_head_prev [OF assms(1)] show ?thesis by simp
  next
    case (snoc ws w)
    with \<open>links s (us @ n # vs @ [l])\<close> have "prev_of s n = w" by (simp add: links_append2)
    then show ?thesis unfolding uv snoc by simp
  qed
qed

lemma dlist_frame_insert_before:
  assumes "dlist s l xs" and "m \<in> set (l # xs)" and "dlist s l' xs'"
    and "set (l # xs) \<inter> set (l' # xs') = {}" and "n \<notin> set (l' # xs')"
  shows "dlist (rt_list_insert_before m n s) l' xs'"
proof -
  have "prev_of s m \<in> set (l # xs)" by (rule dlist_neighbours [OF assms(1,2)])
  then have "dlist (rt_list_insert_before m n s) l' xs' = dlist s l' xs'"
    by (intro dlist_frame) (use assms(2,4,5) in \<open>auto simp: rt_list_defs\<close>)
  with assms(3) show ?thesis by simp
qed

lemma dlist_frame_insert_after:
  assumes "dlist s l xs" and "dlist s l' xs'"
    and "set (l # xs) \<inter> set (l' # xs') = {}" and "n \<notin> set (l' # xs')"
  shows "dlist (rt_list_insert_after l n s) l' xs'"
proof -
  have "next_of s l \<in> set (l # xs)" by (rule dlist_neighbours [OF assms(1)]) simp
  then have "dlist (rt_list_insert_after l n s) l' xs' = dlist s l' xs'"
    by (intro dlist_frame) (use assms(3,4) in \<open>auto simp: rt_list_defs\<close>)
  with assms(2) show ?thesis by simp
qed

lemma dlist_frame_remove:
  assumes "dlist s l xs" and "n \<in> set (l # xs)" and "dlist s l' xs'"
    and "set (l # xs) \<inter> set (l' # xs') = {}"
  shows "dlist (rt_list_remove n s) l' xs'"
proof -
  note nb = dlist_neighbours [OF assms(1,2)]
  have "dlist (rt_list_remove n s) l' xs' = dlist s l' xs'"
  proof (rule dlist_frame)
    fix x assume "x \<in> set (l' # xs')"
    then have "x \<noteq> n" "x \<noteq> next_of s n" "x \<noteq> prev_of s n"
      using assms(2,4) nb by blast+
    then show "next_of (rt_list_remove n s) x = next_of s x \<and> prev_of (rt_list_remove n s) x = prev_of s x"
      by (simp add: rt_list_remove_fields)
  qed
  with assms(3) show ?thesis by simp
qed

section \<open>A family of lists over one node field\<close>

text \<open>
  A thread has one node \<open>tlist\<close> and is on at most one list by it: a ready queue, the waiting list of an
  IPC object, or the list of dead threads.  The kernel components keep these lists as one function
  from list heads to lists of nodes and change it by the three operations below; \<open>reps\<close> relates that
  function to the pointers.
\<close>

definition lists_remove :: "'n \<Rightarrow> ('h \<Rightarrow> 'n list) \<Rightarrow> 'h \<Rightarrow> 'n list" where
  "lists_remove n L = (\<lambda>h. removeAll n (L h))"

definition lists_insert_before :: "'h \<Rightarrow> 'n \<Rightarrow> ('h \<Rightarrow> 'n list) \<Rightarrow> 'h \<Rightarrow> 'n list" where
  "lists_insert_before h n L = L(h := L h @ [n])"

definition lists_insert_after :: "'h \<Rightarrow> 'n \<Rightarrow> ('h \<Rightarrow> 'n list) \<Rightarrow> 'h \<Rightarrow> 'n list" where
  "lists_insert_after h n L = L(h := n # L h)"

definition reps :: "'a store \<Rightarrow> ('h \<Rightarrow> 'a) \<Rightarrow> ('h \<Rightarrow> 'a list) \<Rightarrow> 'a set \<Rightarrow> bool" where
  "reps s hd_of L N \<longleftrightarrow> inj hd_of \<and> range hd_of \<inter> N = {} \<and>
     (\<forall>h. dlist s (hd_of h) (L h) \<and> set (L h) \<subseteq> N) \<and>
     (\<forall>h h' x. x \<in> set (L h) \<and> x \<in> set (L h') \<longrightarrow> h = h') \<and>
     (\<forall>n \<in> N. (\<forall>h. n \<notin> set (L h)) \<longrightarrow> dlist s n [])"

lemma repsI:
  assumes "inj hd_of" and "range hd_of \<inter> N = {}" and "\<And>h. dlist s (hd_of h) (L h)"
    and "\<And>h. set (L h) \<subseteq> N" and "\<And>h h' x. x \<in> set (L h) \<Longrightarrow> x \<in> set (L h') \<Longrightarrow> h = h'"
    and "\<And>n. n \<in> N \<Longrightarrow> (\<And>h. n \<notin> set (L h)) \<Longrightarrow> dlist s n []"
  shows "reps s hd_of L N"
  unfolding reps_def
proof (intro conjI allI ballI impI assms(1-4))
  show "h = h'" if "x \<in> set (L h) \<and> x \<in> set (L h')" for h h' x
    using that by (elim conjE) (rule assms(5))
  show "dlist s n []" if "n \<in> N" "\<forall>h. n \<notin> set (L h)" for n
    by (rule assms(6) [OF that(1)]) (rule that(2) [THEN spec])
qed

lemma repsD:
  assumes "reps s hd_of L N"
  shows "inj hd_of" and "range hd_of \<inter> N = {}" and "dlist s (hd_of h) (L h)"
    and "set (L h) \<subseteq> N" and "x \<in> set (L h) \<Longrightarrow> x \<in> set (L h') \<Longrightarrow> h = h'"
    and "n \<in> N \<Longrightarrow> (\<And>h. n \<notin> set (L h)) \<Longrightarrow> dlist s n []"
  using assms unfolding reps_def by blast+

lemma reps_disjoint:
  assumes "reps s hd_of L N" and "h \<noteq> h'"
  shows "set (hd_of h # L h) \<inter> set (hd_of h' # L h') = {}"
proof -
  have "hd_of h \<noteq> hd_of h'" using repsD(1) [OF assms(1)] assms(2) by (auto dest: injD)
  moreover have "hd_of h \<notin> N" "hd_of h' \<notin> N" using repsD(2) [OF assms(1)] by blast+
  moreover have "set (L h) \<subseteq> N" "set (L h') \<subseteq> N" by (rule repsD(4) [OF assms(1)])+
  moreover have "set (L h) \<inter> set (L h') = {}" using repsD(5) [OF assms(1)] assms(2) by blast
  ultimately show ?thesis by auto
qed

lemma reps_loose:
  assumes "reps s hd_of L N" and "n \<in> N" and "\<And>h. n \<notin> set (L h)"
  shows "dlist s n []" and "set (hd_of h # L h) \<inter> set [n] = {}"
proof -
  show "dlist s n []" by (rule repsD(6) [OF assms])
  show "set (hd_of h # L h) \<inter> set [n] = {}" using repsD(2) [OF assms(1)] assms(2,3) by auto
qed

lemma reps_remove:
  assumes R: "reps s hd_of L N" and n: "n \<in> N"
  shows "reps (rt_list_remove n s) hd_of (lists_remove n L) N"
proof (cases "\<exists>h. n \<in> set (L h)")
  case False
  then have "dlist s n []" using R n unfolding reps_def by blast
  then have "rt_list_remove n s = s"
    by (intro store.equality) (auto simp: rt_list_remove_fields dlist_single fun_eq_iff)
  moreover have "lists_remove n L = L" using False by (auto simp: lists_remove_def removeAll_id)
  ultimately show ?thesis using R by simp
next
  case True
  then obtain h where h: "n \<in> set (L h)" by blast
  then obtain ys zs where yz: "L h = ys @ n # zs" by (meson split_list)
  have D: "dlist s (hd_of h) (L h)" using R unfolding reps_def by blast
  have nh: "n \<in> set (hd_of h # L h)" using h by simp
  have rh: "removeAll n (L h) = ys @ zs"
    using D unfolding yz dlist_def by (auto simp: removeAll_id)
  have own: "dlist (rt_list_remove n s) (hd_of h) (removeAll n (L h))"
    and loose: "dlist (rt_list_remove n s) n []"
    using dlist_remove [OF D [unfolded yz]] unfolding rh by blast+
  have other: "dlist (rt_list_remove n s) (hd_of h') (removeAll n (L h'))" if "h' \<noteq> h" for h'
  proof -
    have "n \<notin> set (L h')" using R h that unfolding reps_def by blast
    moreover have "dlist s (hd_of h') (L h')" using R unfolding reps_def by blast
    ultimately show ?thesis
      using dlist_frame_remove [OF D nh _ reps_disjoint [OF R that [symmetric]]] by (simp add: removeAll_id)
  qed
  have free: "dlist (rt_list_remove n s) m []"
    if m: "m \<in> N" and out: "\<forall>h. m \<notin> set (removeAll n (L h))" for m
  proof (cases "m = n")
    case True
    then show ?thesis using loose by simp
  next
    case False
    with out have out': "\<And>h. m \<notin> set (L h)" by auto
    show ?thesis
      by (rule dlist_frame_remove [OF D nh reps_loose(1) [OF R m out'] reps_loose(2) [OF R m out']])
  qed
  show ?thesis unfolding lists_remove_def
  proof (rule repsI)
    show "dlist (rt_list_remove n s) (hd_of h') (removeAll n (L h'))" for h'
      using own other by (cases "h' = h") auto
    show "x \<in> set (removeAll n (L h1)) \<Longrightarrow> x \<in> set (removeAll n (L h2)) \<Longrightarrow> h1 = h2" for x h1 h2
      using repsD(5) [OF R] by auto
    show "set (removeAll n (L h')) \<subseteq> N" for h' using repsD(4) [OF R] by auto
  qed (use repsD(1,2) [OF R] free in blast)+
qed

lemma reps_insert_before:
  assumes R: "reps s hd_of L N" and n: "n \<in> N" and out: "\<And>h. n \<notin> set (L h)"
  shows "reps (rt_list_insert_before (hd_of h) n s) hd_of (lists_insert_before h n L) N"
proof -
  have D: "dlist s (hd_of h') (L h')" and hN: "hd_of h' \<notin> N" for h'
    using R unfolding reps_def by blast+
  have own: "dlist (rt_list_insert_before (hd_of h) n s) (hd_of h) (L h @ [n])"
    by (rule dlist_insert_before_head [OF D]) (use n hN out in auto)
  have other: "dlist (rt_list_insert_before (hd_of h) n s) (hd_of h') (L h')" if "h' \<noteq> h" for h'
    by (rule dlist_frame_insert_before [OF D [of h] _ D reps_disjoint [OF R that [symmetric]]])
      (use n hN out in auto)
  have free: "dlist (rt_list_insert_before (hd_of h) n s) m []"
    if m: "m \<in> N" "m \<noteq> n" and out': "\<And>h. m \<notin> set (L h)" for m
    by (rule dlist_frame_insert_before [OF D [of h] _ reps_loose(1) [OF R m(1) out'] reps_loose(2) [OF R m(1) out']])
      (use m in auto)
  show ?thesis unfolding lists_insert_before_def
  proof (rule repsI)
    show "dlist (rt_list_insert_before (hd_of h) n s) (hd_of h') ((L(h := L h @ [n])) h')" for h'
      using own other by (cases "h' = h") auto
    show "set ((L(h := L h @ [n])) h') \<subseteq> N" for h' using repsD(4) [OF R] n by (auto split: if_splits)
    show "h1 = h2" if "x \<in> set ((L(h := L h @ [n])) h1)" "x \<in> set ((L(h := L h @ [n])) h2)" for x h1 h2
      using that out repsD(5) [OF R, of x h1 h2] by (auto split: if_splits)
    show "dlist (rt_list_insert_before (hd_of h) n s) m []"
      if m: "m \<in> N" "\<And>h'. m \<notin> set ((L(h := L h @ [n])) h')" for m
    proof (rule free [OF m(1)])
      show "m \<noteq> n" using m(2) [of h] by simp
      show "m \<notin> set (L h')" for h' using m(2) [of h'] by (cases "h' = h") auto
    qed
  qed (use repsD(1,2) [OF R] in blast)+
qed

lemma reps_insert_after:
  assumes R: "reps s hd_of L N" and n: "n \<in> N" and out: "\<And>h. n \<notin> set (L h)"
  shows "reps (rt_list_insert_after (hd_of h) n s) hd_of (lists_insert_after h n L) N"
proof -
  have D: "dlist s (hd_of h') (L h')" and hN: "hd_of h' \<notin> N" for h'
    using R unfolding reps_def by blast+
  have own: "dlist (rt_list_insert_after (hd_of h) n s) (hd_of h) (n # L h)"
    by (rule dlist_insert_after_head [OF D]) (use n hN out in auto)
  have other: "dlist (rt_list_insert_after (hd_of h) n s) (hd_of h') (L h')" if "h' \<noteq> h" for h'
    by (rule dlist_frame_insert_after [OF D [of h] D reps_disjoint [OF R that [symmetric]]])
      (use n hN out in auto)
  have free: "dlist (rt_list_insert_after (hd_of h) n s) m []"
    if m: "m \<in> N" "m \<noteq> n" and out': "\<And>h. m \<notin> set (L h)" for m
    by (rule dlist_frame_insert_after [OF D [of h] reps_loose(1) [OF R m(1) out'] reps_loose(2) [OF R m(1) out']])
      (use m in auto)
  show ?thesis unfolding lists_insert_after_def
  proof (rule repsI)
    show "dlist (rt_list_insert_after (hd_of h) n s) (hd_of h') ((L(h := n # L h)) h')" for h'
      using own other by (cases "h' = h") auto
    show "set ((L(h := n # L h)) h') \<subseteq> N" for h' using repsD(4) [OF R] n by (auto split: if_splits)
    show "h1 = h2" if "x \<in> set ((L(h := n # L h)) h1)" "x \<in> set ((L(h := n # L h)) h2)" for x h1 h2
      using that out repsD(5) [OF R, of x h1 h2] by (auto split: if_splits)
    show "dlist (rt_list_insert_after (hd_of h) n s) m []"
      if m: "m \<in> N" "\<And>h'. m \<notin> set ((L(h := n # L h)) h')" for m
    proof (rule free [OF m(1)])
      show "m \<noteq> n" using m(2) [of h] by simp
      show "m \<notin> set (L h')" for h' using m(2) [of h'] by (cases "h' = h") auto
    qed
  qed (use repsD(1,2) [OF R] in blast)+
qed

section \<open>The length of a list\<close>

lemma rt_list_len_loop_suffix:
  assumes "links s (p # ys @ [l])" and "l \<notin> set ys" and "p = l \<longrightarrow> ys = [] \<or> next_of s p \<noteq> l"
  shows "rt_list_len_loop l s p n = Some (n + of_nat (length ys))"
  using assms
proof (induction ys arbitrary: p n)
  case Nil
  then show ?case by (subst rt_list_len_loop.simps) simp
next
  case (Cons y ys)
  have y: "next_of s p = y" "y \<noteq> l" "l \<notin> set ys" using Cons.prems by auto
  have "rt_list_len_loop l s y (n + 1) = Some (n + 1 + of_nat (length ys))"
    using Cons.prems y by (intro Cons.IH) auto
  then show ?case using y by (subst rt_list_len_loop.simps) (simp add: add_ac)
qed

lemma rt_list_len_dlist:
  assumes "dlist s l xs"
  shows "rt_list_len l s = Some (of_nat (length xs))"
  using rt_list_len_loop_suffix [of s l xs l 0] assms by (cases xs) (auto simp: dlist_def rt_list_len_def)

section \<open>Programs over intrusive lists\<close>

text \<open>
  The operations of the kernel on its lists, as the components use them: take a node off whatever list it is on,
  or put a node that is on no list at the end (\<^verbatim>\<open>rt_list_insert_before\<close> of the head) or at the front
  (\<^verbatim>\<open>rt_list_insert_after\<close> of the head) of a list.
\<close>

datatype ('h, 'n) lop = Remove 'n | Append 'h 'n | Prepend 'h 'n

fun lop_spec :: "('h, 'n) lop \<Rightarrow> ('h \<Rightarrow> 'n list) \<Rightarrow> 'h \<Rightarrow> 'n list" where
  "lop_spec (Remove n) L = lists_remove n L"
| "lop_spec (Append h n) L = lists_insert_before h n L"
| "lop_spec (Prepend h n) L = lists_insert_after h n L"

fun lop_ok :: "'n set \<Rightarrow> ('h, 'n) lop \<Rightarrow> ('h \<Rightarrow> 'n list) \<Rightarrow> bool" where
  "lop_ok N (Remove n) L \<longleftrightarrow> n \<in> N"
| "lop_ok N (Append h n) L \<longleftrightarrow> n \<in> N \<and> (\<forall>h. n \<notin> set (L h))"
| "lop_ok N (Prepend h n) L \<longleftrightarrow> n \<in> N \<and> (\<forall>h. n \<notin> set (L h))"

fun lops_ok :: "'n set \<Rightarrow> ('h, 'n) lop list \<Rightarrow> ('h \<Rightarrow> 'n list) \<Rightarrow> bool" where
  "lops_ok N [] L \<longleftrightarrow> True"
| "lops_ok N (p # ps) L \<longleftrightarrow> lop_ok N p L \<and> lops_ok N ps (lop_spec p L)"

locale intrusive_lists =
  fixes rep :: "'s \<Rightarrow> ('h \<Rightarrow> 'n list) \<Rightarrow> 'n set \<Rightarrow> bool"
    and remove :: "'n \<Rightarrow> 's \<Rightarrow> 's" and append_to :: "'h \<Rightarrow> 'n \<Rightarrow> 's \<Rightarrow> 's" and prepend_to :: "'h \<Rightarrow> 'n \<Rightarrow> 's \<Rightarrow> 's"
  assumes remove_rep: "rep s L N \<Longrightarrow> n \<in> N \<Longrightarrow> rep (remove n s) (lists_remove n L) N"
    and append_rep: "rep s L N \<Longrightarrow> n \<in> N \<Longrightarrow> (\<And>h. n \<notin> set (L h)) \<Longrightarrow> rep (append_to h n s) (lists_insert_before h n L) N"
    and prepend_rep: "rep s L N \<Longrightarrow> n \<in> N \<Longrightarrow> (\<And>h. n \<notin> set (L h)) \<Longrightarrow> rep (prepend_to h n s) (lists_insert_after h n L) N"
begin

fun lop_run :: "('h, 'n) lop \<Rightarrow> 's \<Rightarrow> 's" where
  "lop_run (Remove n) s = remove n s"
| "lop_run (Append h n) s = append_to h n s"
| "lop_run (Prepend h n) s = prepend_to h n s"

lemma lop_step: "rep s L N \<Longrightarrow> lop_ok N p L \<Longrightarrow> rep (lop_run p s) (lop_spec p L) N"
  by (cases p) (auto intro: remove_rep append_rep prepend_rep)

lemma program_refines: "rep s L N \<Longrightarrow> lops_ok N ps L \<Longrightarrow> rep (fold lop_run ps s) (fold lop_spec ps L) N"
  by (induction ps arbitrary: s L) (auto intro: lop_step)

end

interpretation rtl: intrusive_lists "\<lambda>s L N. reps s hd_of L N" rt_list_remove
  "\<lambda>h. rt_list_insert_before (hd_of h)" "\<lambda>h. rt_list_insert_after (hd_of h)" for hd_of :: "'h \<Rightarrow> 'n"
  by unfold_locales (auto intro: reps_remove reps_insert_before reps_insert_after)

section \<open>Correctness of the lists\<close>

text \<open>
  C31. Refinement: any sequence of removals and insertions of nodes, run on the next and prev pointers by
  \<^verbatim>\<open>rt_list_remove\<close>, \<^verbatim>\<open>rt_list_insert_before\<close> and \<^verbatim>\<open>rt_list_insert_after\<close>, leaves pointers that represent the
  lists of nodes obtained by running the same sequence on lists; and then \<^verbatim>\<open>rt_list_len\<close> and \<^verbatim>\<open>rt_list_isempty\<close>
  report the length of each list (modulo \<^verbatim>\<open>2^32\<close>) and whether it is empty.
\<close>

theorem rt_list_program_refines:
  assumes "reps s hd_of L N" and "lops_ok N ps L"
  shows "let s' = fold (rtl.lop_run hd_of) ps s; L' = fold lop_spec ps L in
    reps s' hd_of L' N \<and>
    (\<forall>h. rt_list_len (hd_of h) s' = Some (of_nat (length (L' h))) \<and> (rt_list_isempty (hd_of h) s' \<longleftrightarrow> L' h = []))"
proof -
  have r: "reps (fold (rtl.lop_run hd_of) ps s) hd_of (fold lop_spec ps L) N"
    by (rule rtl.program_refines [OF assms])
  show ?thesis
    by (simp add: Let_def r rt_list_len_dlist [OF repsD(3) [OF r]] dlist_isempty [OF repsD(3) [OF r]])
qed

theorem rt_list_program_refines_witness:
  "let s' = fold (rtl.lop_run (\<lambda>b. if b then 0 else 1)) [Append True 2, Prepend False 3, Append True (4::nat), Remove 2]
       \<lparr>next_of = (\<lambda>n. n), prev_of = (\<lambda>n. n)\<rparr>
   in rt_list_len 0 s' = Some 1 \<and> \<not> rt_list_isempty 1 s'"
proof -
  let ?hd = "\<lambda>b. if b then 0 else (1::nat)" and ?s = "\<lparr>next_of = (\<lambda>n. n), prev_of = (\<lambda>n. n)\<rparr>"
  let ?ps = "[Append True 2, Prepend False 3, Append True (4::nat), Remove 2]"
  have "reps ?s ?hd (\<lambda>_. []) {2, 3, 4}" by (rule repsI) (auto simp: dlist_single inj_def)
  moreover have "lops_ok {2, 3, 4} ?ps (\<lambda>_. [])"
    by (simp add: lists_insert_before_def lists_insert_after_def lists_remove_def)
  ultimately have t: "let s' = fold (rtl.lop_run ?hd) ?ps ?s; L' = fold lop_spec ?ps (\<lambda>_. []) in
    reps s' ?hd L' {2, 3, 4} \<and>
    (\<forall>h. rt_list_len (?hd h) s' = Some (of_nat (length (L' h))) \<and> (rt_list_isempty (?hd h) s' \<longleftrightarrow> L' h = []))"
    by (rule rt_list_program_refines)
  have L: "fold lop_spec ?ps (\<lambda>_. []) True = [4]" "fold lop_spec ?ps (\<lambda>_. []) False = [3]"
    by (simp_all add: lists_insert_before_def lists_insert_after_def lists_remove_def)
  have "rt_list_len (?hd True) (fold (rtl.lop_run ?hd) ?ps ?s) = Some (of_nat (length (fold lop_spec ?ps (\<lambda>_. []) True)))"
    and "rt_list_isempty (?hd False) (fold (rtl.lop_run ?hd) ?ps ?s) \<longleftrightarrow> fold lop_spec ?ps (\<lambda>_. []) False = []"
    using t unfolding Let_def by blast+
  then show ?thesis unfolding L Let_def by simp
qed

end
