(* ===== verification/Ffs.thy ===== *)
theory Ffs
  imports Prelude
begin

text \<open>
  The find-first-set routine of \<^verbatim>\<open>kservice.c\<close> with its byte table, which the scheduler uses to find
  the highest ready priority: the table holds the index of the lowest set bit of every byte, and
  \<open>rt_ffs\<close> is one more than the least set bit of the word (0 for the word 0).
\<close>

section \<open>The routine\<close>

definition lowest_bit_bitmap :: "nat list" where
  "lowest_bit_bitmap =
    [0, 0, 1, 0, 2, 0, 1, 0, 3, 0, 1, 0, 2, 0, 1, 0,
     4, 0, 1, 0, 2, 0, 1, 0, 3, 0, 1, 0, 2, 0, 1, 0,
     5, 0, 1, 0, 2, 0, 1, 0, 3, 0, 1, 0, 2, 0, 1, 0,
     4, 0, 1, 0, 2, 0, 1, 0, 3, 0, 1, 0, 2, 0, 1, 0,
     6, 0, 1, 0, 2, 0, 1, 0, 3, 0, 1, 0, 2, 0, 1, 0,
     4, 0, 1, 0, 2, 0, 1, 0, 3, 0, 1, 0, 2, 0, 1, 0,
     5, 0, 1, 0, 2, 0, 1, 0, 3, 0, 1, 0, 2, 0, 1, 0,
     4, 0, 1, 0, 2, 0, 1, 0, 3, 0, 1, 0, 2, 0, 1, 0,
     7, 0, 1, 0, 2, 0, 1, 0, 3, 0, 1, 0, 2, 0, 1, 0,
     4, 0, 1, 0, 2, 0, 1, 0, 3, 0, 1, 0, 2, 0, 1, 0,
     5, 0, 1, 0, 2, 0, 1, 0, 3, 0, 1, 0, 2, 0, 1, 0,
     4, 0, 1, 0, 2, 0, 1, 0, 3, 0, 1, 0, 2, 0, 1, 0,
     6, 0, 1, 0, 2, 0, 1, 0, 3, 0, 1, 0, 2, 0, 1, 0,
     4, 0, 1, 0, 2, 0, 1, 0, 3, 0, 1, 0, 2, 0, 1, 0,
     5, 0, 1, 0, 2, 0, 1, 0, 3, 0, 1, 0, 2, 0, 1, 0,
     4, 0, 1, 0, 2, 0, 1, 0, 3, 0, 1, 0, 2, 0, 1, 0]"

definition rt_ffs :: "u32 \<Rightarrow> nat" where
  "rt_ffs value =
     (if value = 0 then 0
      else if value AND 0xff \<noteq> 0 then lowest_bit_bitmap ! unat (value AND 0xff) + 1
      else if value AND 0xff00 \<noteq> 0 then lowest_bit_bitmap ! unat (drop_bit 8 (value AND 0xff00)) + 9
      else if value AND 0xff0000 \<noteq> 0 then lowest_bit_bitmap ! unat (drop_bit 16 (value AND 0xff0000)) + 17
      else lowest_bit_bitmap ! unat (drop_bit 24 (value AND 0xff000000)) + 25)"

section \<open>The table holds the least set bit of each byte\<close>

definition least_bit :: "nat \<Rightarrow> nat \<Rightarrow> bool" where
  "least_bit n i \<longleftrightarrow> bit n i \<and> (\<forall>j < i. \<not> bit n j)"

definition entry_ok :: "nat \<Rightarrow> nat \<Rightarrow> bool" where
  "entry_ok n i \<longleftrightarrow> n mod 2 ^ Suc i = 2 ^ i"

lemma least_bit_of_entry:
  assumes "entry_ok n i"
  shows "least_bit n i"
proof -
  have n: "take_bit (Suc i) n = push_bit i 1"
    using assms by (simp add: entry_ok_def take_bit_eq_mod push_bit_eq_mult)
  have "bit n j \<longleftrightarrow> j = i" if "j \<le> i" for j
  proof -
    have "bit n j = bit (take_bit (Suc i) n) j" using that by (simp add: bit_take_bit_iff)
    then show ?thesis unfolding n by (simp add: bit_simps)
  qed
  then show ?thesis by (simp add: least_bit_def)
qed

lemma table_checked: "list_all2 entry_ok (map nat [1..255]) (tl lowest_bit_bitmap)"
  by code_simp

lemma bitmap_least_bit:
  assumes "0 < n" and "n < 256"
  shows "least_bit n (lowest_bit_bitmap ! n)"
proof -
  have "entry_ok (map nat [1..255] ! (n - 1)) (tl lowest_bit_bitmap ! (n - 1))"
    using assms by (intro list_all2_nthD [OF table_checked]) simp
  moreover have "map nat [1..255] ! (n - 1) = n" using assms by (simp add: nth_upto)
  moreover have "tl lowest_bit_bitmap ! (n - 1) = lowest_bit_bitmap ! n"
    using assms by (subst nth_tl) (simp_all add: lowest_bit_bitmap_def)
  ultimately show ?thesis by (simp add: least_bit_of_entry)
qed

section \<open>The routine finds the least set bit\<close>

text \<open>Each byte of the word is tested in turn: byte \<open>k\<close> starts at bit \<open>k\<close>.\<close>

definition byte_at :: "nat \<Rightarrow> u32 \<Rightarrow> nat" where
  "byte_at k w = unat (take_bit 8 (drop_bit k w))"

lemma bit_byte_at: "bit (byte_at k w) j \<longleftrightarrow> j < 8 \<and> bit w (k + j)"
  by (auto simp: byte_at_def bit_unsigned_iff bit_simps dest: bit_imp_le_length)

lemma byte_at_less: "byte_at k w < 256"
proof -
  have "byte_at k w = take_bit 8 (byte_at k w)"
    by (rule bit_eqI) (auto simp: bit_byte_at bit_simps)
  then show ?thesis using take_bit_nat_less_exp [of 8 "byte_at k w"] by simp
qed

lemma shifted_masks:
  "(0xff :: u32) = push_bit 0 (mask 8)" "(0xff00 :: u32) = push_bit 8 (mask 8)"
  "(0xff0000 :: u32) = push_bit 16 (mask 8)" "(0xff000000 :: u32) = push_bit 24 (mask 8)"
  by (simp_all add: mask_eq_exp_minus_1 push_bit_eq_mult)

lemma masked_bytes:
  "unat (w AND 0xff) = byte_at 0 w"
  "unat (drop_bit 8 (w AND 0xff00)) = byte_at 8 w"
  "unat (drop_bit 16 (w AND 0xff0000)) = byte_at 16 w"
  "unat (drop_bit 24 (w AND 0xff000000)) = byte_at 24 w"
proof -
  have m: "(0xff :: u32) = mask 8" by (simp add: mask_eq_exp_minus_1)
  show "unat (w AND 0xff) = byte_at 0 w" by (simp add: byte_at_def m take_bit_eq_mask)
  have d: "drop_bit 8 (w AND 0xff00) = drop_bit 8 w AND mask 8"
    "drop_bit 16 (w AND 0xff0000) = drop_bit 16 w AND mask 8"
    "drop_bit 24 (w AND 0xff000000) = drop_bit 24 w AND mask 8"
    unfolding shifted_masks by (rule bit_word_eqI, auto simp: bit_simps)+
  show "unat (drop_bit 8 (w AND 0xff00)) = byte_at 8 w"
    "unat (drop_bit 16 (w AND 0xff0000)) = byte_at 16 w"
    "unat (drop_bit 24 (w AND 0xff000000)) = byte_at 24 w"
    by (simp_all only: d byte_at_def take_bit_eq_mask)
qed

lemma masked_zero:
  "w AND 0xff = 0 \<longleftrightarrow> byte_at 0 w = 0"
  "w AND 0xff00 = 0 \<longleftrightarrow> byte_at 8 w = 0"
  "w AND 0xff0000 = 0 \<longleftrightarrow> byte_at 16 w = 0"
proof -
  have z: "w AND push_bit k (mask 8) = 0 \<longleftrightarrow> byte_at k w = 0" if "k + 8 \<le> 32" for k
  proof -
    have "w AND push_bit k (mask 8) = 0 \<longleftrightarrow> (\<forall>n < 32. \<not> (bit w n \<and> k \<le> n \<and> n - k < 8))"
      by (auto simp: word_eq_0_iff_bits bit_simps)
    also have "\<dots> \<longleftrightarrow> (\<forall>j < 8. \<not> bit w (k + j))"
    proof
      assume l: "\<forall>n < 32. \<not> (bit w n \<and> k \<le> n \<and> n - k < 8)"
      show "\<forall>j < 8. \<not> bit w (k + j)"
      proof (intro allI impI)
        fix j :: nat assume "j < 8"
        then show "\<not> bit w (k + j)" using l [rule_format, of "k + j"] that by simp
      qed
    next
      assume r: "\<forall>j < 8. \<not> bit w (k + j)"
      show "\<forall>n < 32. \<not> (bit w n \<and> k \<le> n \<and> n - k < 8)"
        using r by (metis le_add_diff_inverse)
    qed
    also have "\<dots> \<longleftrightarrow> byte_at k w = 0" by (auto simp: bit_eq_iff bit_byte_at)
    finally show ?thesis .
  qed
  show "w AND 0xff = 0 \<longleftrightarrow> byte_at 0 w = 0" "w AND 0xff00 = 0 \<longleftrightarrow> byte_at 8 w = 0"
    "w AND 0xff0000 = 0 \<longleftrightarrow> byte_at 16 w = 0"
    unfolding shifted_masks by (rule z, simp)+
qed

lemma byte_at_zero: "byte_at k w = 0 \<Longrightarrow> j < 8 \<Longrightarrow> \<not> bit w (k + j)"
  by (metis bit_0_eq bit_byte_at bot_apply bot_bool_def)

lemma byte_least_bit:
  assumes "byte_at k w \<noteq> 0" and "\<And>j. j < k \<Longrightarrow> \<not> bit w j"
  shows "bit w (k + lowest_bit_bitmap ! byte_at k w) \<and> (\<forall>j < k + lowest_bit_bitmap ! byte_at k w. \<not> bit w j)"
proof -
  let ?i = "lowest_bit_bitmap ! byte_at k w"
  have "least_bit (byte_at k w) ?i"
    using assms(1) byte_at_less by (intro bitmap_least_bit) auto
  then have i: "?i < 8" "bit w (k + ?i)" and l: "\<And>j. j < ?i \<Longrightarrow> \<not> bit w (k + j)"
    by (auto simp: least_bit_def bit_byte_at)
  have "\<not> bit w j" if "j < k + ?i" for j
  proof (cases "j < k")
    case True
    then show ?thesis by (rule assms(2))
  next
    case False
    then show ?thesis using l [of "j - k"] that by simp
  qed
  with i show ?thesis by blast
qed

lemma rt_ffs_bytes:
  "rt_ffs w = (if w = 0 then 0
     else if byte_at 0 w \<noteq> 0 then lowest_bit_bitmap ! byte_at 0 w + 1
     else if byte_at 8 w \<noteq> 0 then lowest_bit_bitmap ! byte_at 8 w + 9
     else if byte_at 16 w \<noteq> 0 then lowest_bit_bitmap ! byte_at 16 w + 17
     else lowest_bit_bitmap ! byte_at 24 w + 25)"
  by (simp only: rt_ffs_def masked_bytes masked_zero)

lemma rt_ffs_least:
  assumes "w \<noteq> 0"
  shows "0 < rt_ffs w" and "bit w (rt_ffs w - 1)" and "j < rt_ffs w - 1 \<Longrightarrow> \<not> bit w j"
proof -
  have z: "\<not> bit w j" if "byte_at k w = 0" "k \<le> j" "j < k + 8" for k j
    using byte_at_zero [OF that(1), of "j - k"] that(2,3) by simp
  have top: "byte_at 24 w \<noteq> 0" if "byte_at 0 w = 0" "byte_at 8 w = 0" "byte_at 16 w = 0"
  proof
    assume "byte_at 24 w = 0"
    then have "\<not> bit w j" if "j < 32" for j
      using z [of 0 j] z [of 8 j] z [of 16 j] z [of 24 j] \<open>byte_at 0 w = 0\<close> \<open>byte_at 8 w = 0\<close>
        \<open>byte_at 16 w = 0\<close> that by linarith
    with assms show False by (simp add: word_eq_0_iff_bits)
  qed
  have "bit w (rt_ffs w - 1) \<and> (\<forall>j < rt_ffs w - 1. \<not> bit w j) \<and> 0 < rt_ffs w"
  proof (cases "byte_at 0 w = 0")
    case False
    then show ?thesis using byte_least_bit [of 0 w] assms by (simp add: rt_ffs_bytes)
  next
    case b0: True
    then have l8: "\<not> bit w j" if "j < 8" for j using z [of 0 j] that by simp
    show ?thesis
    proof (cases "byte_at 8 w = 0")
      case False
      then show ?thesis using byte_least_bit [of 8 w] l8 assms b0 by (simp add: rt_ffs_bytes add.commute)
    next
      case b8: True
      then have l16: "\<not> bit w j" if "j < 16" for j using l8 z [of 8 j] that by (cases "j < 8") simp_all
      show ?thesis
      proof (cases "byte_at 16 w = 0")
        case False
        then show ?thesis
          using byte_least_bit [of 16 w] l16 assms b0 b8 by (simp add: rt_ffs_bytes add.commute)
      next
        case b16: True
        then have l24: "\<not> bit w j" if "j < 24" for j using l16 z [of 16 j] that by (cases "j < 16") simp_all
        show ?thesis
          using byte_least_bit [OF top [OF b0 b8 b16]] l24 assms b0 b8 b16
          by (simp add: rt_ffs_bytes add.commute)
      qed
    qed
  qed
  then show "0 < rt_ffs w" "bit w (rt_ffs w - 1)" "j < rt_ffs w - 1 \<Longrightarrow> \<not> bit w j" by blast+
qed

lemma rt_ffs_bound: "w \<noteq> 0 \<Longrightarrow> rt_ffs w - 1 < 32"
  using rt_ffs_least(2) [of w] bit_imp_le_length [of w "rt_ffs w - 1"] by simp

section \<open>Correctness of the search\<close>

text \<open>
  \<^verbatim>\<open>__rt_ffs\<close> is 0 exactly for 0, and else one more than the position of the least significant bit that is
  set, hence at most 32; so the scheduler's \<^verbatim>\<open>__rt_ffs(group) - 1\<close> is the smallest priority number in the group.
\<close>

theorem rt_ffs_correct:
  "(rt_ffs w = 0 \<longleftrightarrow> w = 0) \<and> rt_ffs w \<le> 32 \<and> (w \<noteq> 0 \<longrightarrow> bit w (rt_ffs w - 1) \<and> (\<forall>j < rt_ffs w - 1. \<not> bit w j))"
proof (cases "w = 0")
  case True
  then show ?thesis by (simp add: rt_ffs_def)
next
  case False
  then show ?thesis using rt_ffs_least [OF False] rt_ffs_bound [OF False] by auto
qed

theorem rt_ffs_correct_witness: "rt_ffs 0x80100400 = 11 \<and> bit (0x80100400 :: u32) (rt_ffs 0x80100400 - 1)"
  using rt_ffs_correct [of "0x80100400"] by (simp add: rt_ffs_def lowest_bit_bitmap_def)

end
