(* ===== verification/Mem.thy ===== *)
theory Mem
  imports Prelude
begin

text \<open>
  The small-memory heap of \<^verbatim>\<open>mem.c\<close>.  The heap is the block headers \<^verbatim>\<open>struct heap_mem\<close>, keyed by their
  offset from \<^verbatim>\<open>heap_ptr\<close>, with the variables \<^verbatim>\<open>heap_end\<close>, \<^verbatim>\<open>lfree\<close>, \<^verbatim>\<open>mem_size_aligned\<close> and the statistics.
  Sizes are 32-bit: a subtraction that could wrap is written \<open>sub32\<close>, the rounding of a size to the
  alignment is done on \<open>u32\<close>.  Following an offset that holds no header is \<open>None\<close>.  The semaphore
  \<^verbatim>\<open>heap_sem\<close> only serialises these operations, which are atomic here.
\<close>

section \<open>State\<close>

record heap_mem =
  hm_magic :: u16
  hm_used :: u16
  hm_next :: nat
  hm_prev :: nat

record rt_heap =
  hp_ptr :: nat
  hp_items :: "nat \<rightharpoonup> heap_mem"
  hp_size_aligned :: nat
  hp_end :: nat
  hp_lfree :: nat
  hp_used_mem :: nat
  hp_max_mem :: nat

abbreviation HEAP_MAGIC :: u16 where "HEAP_MAGIC \<equiv> 0x1ea0"
abbreviation SIZEOF_STRUCT_MEM :: nat where "SIZEOF_STRUCT_MEM \<equiv> 12"
abbreviation MIN_SIZE_ALIGNED :: nat where "MIN_SIZE_ALIGNED \<equiv> 12"

definition sub32 :: "nat \<Rightarrow> nat \<Rightarrow> nat" where
  "sub32 a b = (a + 2 ^ 32 - b) mod 2 ^ 32"

definition rt_align :: "u32 \<Rightarrow> u32" where
  "rt_align sz = (sz + 3) AND NOT 3"

definition set_item :: "nat \<Rightarrow> (heap_mem \<Rightarrow> heap_mem) \<Rightarrow> rt_heap \<Rightarrow> rt_heap option" where
  "set_item p f h = do {
     m \<leftarrow> hp_items h p;
     Some (h\<lparr>hp_items := (hp_items h)(p \<mapsto> f m)\<rparr>)
   }"

section \<open>Operations\<close>

definition plug_holes :: "nat \<Rightarrow> rt_heap \<Rightarrow> rt_heap option" where
  "plug_holes mem h = do {
     m \<leftarrow> hp_items h mem;
     rt_assert (mem < hp_end h);
     rt_assert (hm_used m = 0);
     nm \<leftarrow> hp_items h (hm_next m);
     h \<leftarrow> (if mem \<noteq> hm_next m \<and> hm_used nm = 0 \<and> hm_next m \<noteq> hp_end h then do {
             h \<leftarrow> Some (if hp_lfree h = hm_next m then h\<lparr>hp_lfree := mem\<rparr> else h);
             h \<leftarrow> set_item mem (\<lambda>m. m\<lparr>hm_next := hm_next nm\<rparr>) h;
             set_item (hm_next nm) (\<lambda>x. x\<lparr>hm_prev := mem\<rparr>) h
           }
           else Some h);
     m \<leftarrow> hp_items h mem;
     pm \<leftarrow> hp_items h (hm_prev m);
     if hm_prev m \<noteq> mem \<and> hm_used pm = 0 then do {
       h \<leftarrow> Some (if hp_lfree h = mem then h\<lparr>hp_lfree := hm_prev m\<rparr> else h);
       h \<leftarrow> set_item (hm_prev m) (\<lambda>x. x\<lparr>hm_next := hm_next m\<rparr>) h;
       set_item (hm_next m) (\<lambda>x. x\<lparr>hm_prev := hm_prev m\<rparr>) h
     }
     else Some h
   }"

definition rt_system_heap_init :: "nat \<Rightarrow> nat \<Rightarrow> rt_heap \<Rightarrow> rt_heap" where
  "rt_system_heap_init begin_addr end_addr h =
     (let begin_align = (begin_addr + 3) div 4 * 4;
          end_align = end_addr div 4 * 4
      in if end_align > 2 * SIZEOF_STRUCT_MEM \<and> end_align - 2 * SIZEOF_STRUCT_MEM \<ge> begin_align then
           (let sz = end_align - begin_align - 2 * SIZEOF_STRUCT_MEM;
                e = sz + SIZEOF_STRUCT_MEM
            in h\<lparr>hp_ptr := begin_align,
                 hp_size_aligned := sz,
                 hp_items := (hp_items h)
                   (0 \<mapsto> \<lparr>hm_magic = HEAP_MAGIC, hm_used = 0, hm_next = e, hm_prev = 0\<rparr>,
                    e \<mapsto> \<lparr>hm_magic = HEAP_MAGIC, hm_used = 1, hm_next = e, hm_prev = e\<rparr>),
                 hp_end := e,
                 hp_lfree := 0\<rparr>)
         else h)"

text \<open>The search for the first block that is large enough, from \<^verbatim>\<open>lfree\<close>.\<close>

partial_function (option) malloc_find :: "rt_heap \<Rightarrow> nat \<Rightarrow> nat \<Rightarrow> nat option option" where
  "malloc_find h sz ptr =
     (if ptr < sub32 (hp_size_aligned h) sz then
        Option.bind (hp_items h ptr) (\<lambda>mem.
          if hm_used mem = 0 \<and> sz \<le> sub32 (hm_next mem) (ptr + SIZEOF_STRUCT_MEM) then Some (Some ptr)
          else malloc_find h sz (hm_next mem))
      else Some None)"

text \<open>Moving \<^verbatim>\<open>lfree\<close> to the next free block.\<close>

partial_function (option) next_free :: "rt_heap \<Rightarrow> nat \<Rightarrow> nat option" where
  "next_free h p =
     Option.bind (hp_items h p) (\<lambda>m.
       if hm_used m \<noteq> 0 \<and> p \<noteq> hp_end h then next_free h (hm_next m) else Some p)"

definition add_used :: "nat \<Rightarrow> rt_heap \<Rightarrow> rt_heap" where
  "add_used n h = h\<lparr>hp_used_mem := hp_used_mem h + n,
                    hp_max_mem := max (hp_max_mem h) (hp_used_mem h + n)\<rparr>"

definition malloc_take :: "nat \<Rightarrow> nat \<Rightarrow> rt_heap \<Rightarrow> rt_heap option" where
  "malloc_take ptr sz h = do {
     mem \<leftarrow> hp_items h ptr;
     if sz + SIZEOF_STRUCT_MEM + MIN_SIZE_ALIGNED \<le> sub32 (hm_next mem) (ptr + SIZEOF_STRUCT_MEM) then do {
       ptr2 \<leftarrow> Some (ptr + SIZEOF_STRUCT_MEM + sz);
       h \<leftarrow> Some (h\<lparr>hp_items := (hp_items h)(ptr2 \<mapsto>
              \<lparr>hm_magic = HEAP_MAGIC, hm_used = 0, hm_next = hm_next mem, hm_prev = ptr\<rparr>)\<rparr>);
       h \<leftarrow> set_item ptr (\<lambda>m. m\<lparr>hm_next := ptr2, hm_used := 1\<rparr>) h;
       h \<leftarrow> (if hm_next mem \<noteq> hp_size_aligned h + SIZEOF_STRUCT_MEM
             then set_item (hm_next mem) (\<lambda>x. x\<lparr>hm_prev := ptr2\<rparr>) h else Some h);
       Some (add_used (sz + SIZEOF_STRUCT_MEM) h)
     }
     else do {
       h \<leftarrow> set_item ptr (\<lambda>m. m\<lparr>hm_used := 1\<rparr>) h;
       Some (add_used (hm_next mem - ptr) h)
     }
   }"

definition rt_malloc :: "u32 \<Rightarrow> u8 \<Rightarrow> rt_heap \<Rightarrow> (nat option \<times> rt_heap) option" where
  "rt_malloc sz0 irq_nest h =
     (if sz0 = 0 then Some (None, h)
      else do {
        rt_assert (irq_nest = 0);
        sz \<leftarrow> Some (unat (rt_align sz0));
        if sz > hp_size_aligned h then Some (None, h)
        else do {
          sz \<leftarrow> Some (if sz < MIN_SIZE_ALIGNED then MIN_SIZE_ALIGNED else sz);
          r \<leftarrow> malloc_find h sz (hp_lfree h);
          case r of
            None \<Rightarrow> Some (None, h)
          | Some ptr \<Rightarrow> do {
              h \<leftarrow> malloc_take ptr sz h;
              h \<leftarrow> set_item ptr (\<lambda>m. m\<lparr>hm_magic := HEAP_MAGIC\<rparr>) h;
              h \<leftarrow> (if ptr = hp_lfree h then do {
                      p \<leftarrow> next_free h (hp_lfree h);
                      m \<leftarrow> hp_items h p;
                      rt_assert (p = hp_end h \<or> hm_used m = 0);
                      Some (h\<lparr>hp_lfree := p\<rparr>)
                    }
                    else Some h);
              rt_assert (ptr + SIZEOF_STRUCT_MEM + sz \<le> hp_end h);
              rt_assert ((hp_ptr h + ptr + SIZEOF_STRUCT_MEM) mod 4 = 0);
              rt_assert ((hp_ptr h + ptr) mod 4 = 0);
              Some (Some (hp_ptr h + ptr + SIZEOF_STRUCT_MEM), h)
            }
        }
      })"

definition rt_free :: "nat option \<Rightarrow> u8 \<Rightarrow> rt_heap \<Rightarrow> rt_heap option" where
  "rt_free rmem irq_nest h =
     (case rmem of
        None \<Rightarrow> Some h
      | Some r \<Rightarrow> do {
          rt_assert (irq_nest = 0);
          rt_assert (r mod 4 = 0);
          rt_assert (hp_ptr h \<le> r \<and> r < hp_ptr h + hp_end h);
          rt_assert (hp_ptr h + SIZEOF_STRUCT_MEM \<le> r);
          mem \<leftarrow> Some (r - SIZEOF_STRUCT_MEM - hp_ptr h);
          m \<leftarrow> hp_items h mem;
          rt_assert (hm_used m \<noteq> 0);
          rt_assert (hm_magic m = HEAP_MAGIC);
          h \<leftarrow> set_item mem (\<lambda>m. m\<lparr>hm_used := 0, hm_magic := HEAP_MAGIC\<rparr>) h;
          h \<leftarrow> Some (if mem < hp_lfree h then h\<lparr>hp_lfree := mem\<rparr> else h);
          h \<leftarrow> Some (h\<lparr>hp_used_mem := hp_used_mem h - (hm_next m - mem)\<rparr>);
          plug_holes mem h
        })"

text \<open>
  The branch of \<^verbatim>\<open>rt_realloc\<close> that splits the block at \<open>ptr\<close>, of \<open>sz\<close> bytes, after \<open>newsz\<close> bytes.  The whole routine, which
  also copies the contents of the block, is in \<open>Realloc\<close>.
\<close>

definition realloc_split :: "nat \<Rightarrow> nat \<Rightarrow> nat \<Rightarrow> heap_mem \<Rightarrow> rt_heap \<Rightarrow> rt_heap option" where
  "realloc_split ptr sz newsz mem h = do {
     h \<leftarrow> Some (h\<lparr>hp_used_mem := hp_used_mem h - (sz - newsz)\<rparr>);
     ptr2 \<leftarrow> Some (ptr + SIZEOF_STRUCT_MEM + newsz);
     h \<leftarrow> Some (h\<lparr>hp_items := (hp_items h)(ptr2 \<mapsto>
            \<lparr>hm_magic = HEAP_MAGIC, hm_used = 0, hm_next = hm_next mem, hm_prev = ptr\<rparr>)\<rparr>);
     h \<leftarrow> set_item ptr (\<lambda>m. m\<lparr>hm_next := ptr2\<rparr>) h;
     h \<leftarrow> (if hm_next mem \<noteq> hp_size_aligned h + SIZEOF_STRUCT_MEM
           then set_item (hm_next mem) (\<lambda>x. x\<lparr>hm_prev := ptr2\<rparr>) h else Some h);
     h \<leftarrow> Some (if ptr2 < hp_lfree h then h\<lparr>hp_lfree := ptr2\<rparr> else h);
     plug_holes ptr2 h
   }"

text \<open>\<^verbatim>\<open>rt_calloc\<close>: the block it clears is not part of the state here, which is the headers.\<close>

definition rt_calloc :: "u32 \<Rightarrow> u32 \<Rightarrow> u8 \<Rightarrow> rt_heap \<Rightarrow> (nat option \<times> rt_heap) option" where
  "rt_calloc count sz irq_nest h = rt_malloc (count * sz) irq_nest h"

definition rt_memory_info :: "rt_heap \<Rightarrow> nat \<times> nat \<times> nat" where
  "rt_memory_info h = (hp_size_aligned h, hp_used_mem h, hp_max_mem h)"

end
