(* ===== verification/KState.thy ===== *)
theory KState
  imports RtList Ffs Mem
begin

text \<open>
  The state of the kernel: the structures of \<^verbatim>\<open>rtdef.h\<close> as records, the global variables of the kernel's
  files as one record \<open>kernel\<close>, and the access functions the components share.

  A pointer to an object is its address, a natural number; each kind of object has its own map from
  addresses to contents.  A thread's node \<open>tlist\<close> is on at most one list; the lists are kept as one
  family \<open>k_lists\<close> from list heads to thread lists, changed by the operations of \<open>RtList\<close>.  The built-in
  timer of thread \<open>t\<close> is the timer \<open>Thread_timer t\<close>.
\<close>

section \<open>Kernel objects\<close>

datatype lhead = Ready nat | Defunct | SemQ nat | MutexQ nat | EventQ nat | MbQ nat | MbSendQ nat
  | MqQ nat | MqSendQ nat | CompletionQ nat | DqPushQ nat | DqPopQ nat

datatype timer_ref = Thread_timer nat | Timer nat

datatype timer_fn = Rt_thread_timeout | Timeout_fn nat

record rt_object =
  ob_name :: "u8 list"
  ob_type :: u8
  ob_flag :: u8

record rt_timer =
  tm_parent :: rt_object
  tm_timeout_func :: timer_fn
  tm_parameter :: nat
  tm_init_tick :: u32
  tm_timeout_tick :: u32

record rt_thread =
  th_parent :: rt_object
  th_entry :: nat
  th_parameter :: nat
  th_stack_addr :: nat
  th_stack_size :: u32
  th_error :: int
  th_stat :: u8
  th_current_priority :: u8
  th_init_priority :: u8
  th_number_mask :: u32
  th_event_set :: u32
  th_event_info :: u8
  th_init_tick :: u32
  th_remaining_tick :: u32
  th_cleanup :: "nat option"
  th_user_data :: u32

record rt_semaphore =
  sem_parent :: rt_object
  sem_value :: u16

record rt_mutex =
  mu_parent :: rt_object
  mu_value :: u16
  mu_original_priority :: u8
  mu_hold :: u8
  mu_owner :: "nat option"

record rt_event =
  ev_parent :: rt_object
  ev_set :: u32

record rt_mailbox =
  mb_parent :: rt_object
  mb_msg_pool :: "u32 list"
  mb_pool_addr :: nat
  mb_size :: u16
  mb_entry :: u16
  mb_in_offset :: u16
  mb_out_offset :: u16

record rt_mq_message =
  mm_next :: "nat option"
  mm_data :: "u8 list"

record rt_messagequeue =
  mq_parent :: rt_object
  mq_msg_pool :: "nat \<rightharpoonup> rt_mq_message"
  mq_pool_addr :: nat
  mq_msg_size :: u16
  mq_max_msgs :: u16
  mq_entry :: u16
  mq_msg_queue_head :: "nat option"
  mq_msg_queue_tail :: "nat option"
  mq_msg_queue_free :: "nat option"

text \<open>
  The callbacks and the driver functions of a device are named by numbers, \<open>None\<close> is \<^verbatim>\<open>RT_NULL\<close>.
\<close>

record rt_device =
  dv_parent :: rt_object
  dv_type :: u8
  dv_flag :: u16
  dv_open_flag :: u16
  dv_ref_count :: u8
  dv_rx_indicate :: "nat option"
  dv_tx_complete :: "nat option"
  dv_init :: "nat option"
  dv_open :: "nat option"
  dv_close :: "nat option"
  dv_read :: "nat option"
  dv_write :: "nat option"
  dv_control :: "nat option"
  dv_user_data :: nat

record rt_completion =
  cp_flag :: u32

record rt_data_item =
  di_data_ptr :: nat
  di_data_size :: u32

record rt_data_queue =
  dq_magic :: u32
  dq_size :: u16
  dq_lwm :: u16
  dq_get_index :: "15 word"
  dq_is_empty :: bool
  dq_put_index :: "15 word"
  dq_is_full :: bool
  dq_queue :: "rt_data_item list"
  dq_addr :: "nat option"
  dq_evt_notify :: "nat option"

section \<open>Flags and states (rtdef.h)\<close>

abbreviation RT_THREAD_INIT :: u8 where "RT_THREAD_INIT \<equiv> 0x00"
abbreviation RT_THREAD_READY :: u8 where "RT_THREAD_READY \<equiv> 0x01"
abbreviation RT_THREAD_SUSPEND :: u8 where "RT_THREAD_SUSPEND \<equiv> 0x02"
abbreviation RT_THREAD_RUNNING :: u8 where "RT_THREAD_RUNNING \<equiv> 0x03"
abbreviation RT_THREAD_CLOSE :: u8 where "RT_THREAD_CLOSE \<equiv> 0x04"
abbreviation RT_THREAD_STAT_MASK :: u8 where "RT_THREAD_STAT_MASK \<equiv> 0x07"
abbreviation RT_THREAD_STAT_YIELD :: u8 where "RT_THREAD_STAT_YIELD \<equiv> 0x08"

abbreviation RT_Object_Class_Null :: u8 where "RT_Object_Class_Null \<equiv> 0x00"
abbreviation RT_Object_Class_Thread :: u8 where "RT_Object_Class_Thread \<equiv> 0x01"
abbreviation RT_Object_Class_Semaphore :: u8 where "RT_Object_Class_Semaphore \<equiv> 0x02"
abbreviation RT_Object_Class_Mutex :: u8 where "RT_Object_Class_Mutex \<equiv> 0x03"
abbreviation RT_Object_Class_Event :: u8 where "RT_Object_Class_Event \<equiv> 0x04"
abbreviation RT_Object_Class_MailBox :: u8 where "RT_Object_Class_MailBox \<equiv> 0x05"
abbreviation RT_Object_Class_MessageQueue :: u8 where "RT_Object_Class_MessageQueue \<equiv> 0x06"
abbreviation RT_Object_Class_Device :: u8 where "RT_Object_Class_Device \<equiv> 0x09"
abbreviation RT_Object_Class_Timer :: u8 where "RT_Object_Class_Timer \<equiv> 0x0a"
abbreviation RT_Object_Class_Static :: u8 where "RT_Object_Class_Static \<equiv> 0x80"

abbreviation RT_TIMER_FLAG_ACTIVATED :: u8 where "RT_TIMER_FLAG_ACTIVATED \<equiv> 0x1"
abbreviation RT_TIMER_FLAG_ONE_SHOT :: u8 where "RT_TIMER_FLAG_ONE_SHOT \<equiv> 0x0"
abbreviation RT_TIMER_FLAG_PERIODIC :: u8 where "RT_TIMER_FLAG_PERIODIC \<equiv> 0x2"

abbreviation RT_THREAD_PRIORITY_MAX :: nat where "RT_THREAD_PRIORITY_MAX \<equiv> 32"
abbreviation RT_NAME_MAX :: nat where "RT_NAME_MAX \<equiv> 8"

section \<open>The kernel's global variables\<close>

datatype oid = OThread nat | OSem nat | OMutex nat | OEvent nat | OMailbox nat | OMq nat
  | OTimer timer_ref | ODevice nat

record kernel =
  k_threads :: "nat \<rightharpoonup> rt_thread"
  k_lists :: "lhead \<Rightarrow> nat list"
  k_ready_group :: u32
  k_current :: "nat option"
  k_current_priority :: u8
  k_lock_nest :: u16
  k_irq_nest :: u8
  k_tick :: u32
  k_timers :: "timer_ref \<rightharpoonup> rt_timer"
  k_timer_list :: "timer_ref list"
  k_timer_tmp :: "timer_ref list"
  k_objects :: "u8 \<Rightarrow> oid list"
  k_sems :: "nat \<rightharpoonup> rt_semaphore"
  k_mutexes :: "nat \<rightharpoonup> rt_mutex"
  k_events :: "nat \<rightharpoonup> rt_event"
  k_mbs :: "nat \<rightharpoonup> rt_mailbox"
  k_mqs :: "nat \<rightharpoonup> rt_messagequeue"
  k_heap :: rt_heap
  k_idle_hooks :: "nat option list"
  k_devices :: "nat \<rightharpoonup> rt_device"
  k_errno :: int
  k_completions :: "nat \<rightharpoonup> rt_completion"
  k_data_queues :: "nat \<rightharpoonup> rt_data_queue"

text \<open>
  A call that may block: \<open>Done r\<close> is returning \<open>r\<close>; \<open>Wait c\<close> is having reached \<^verbatim>\<open>rt_schedule()\<close> in the
  middle of the function, with \<open>c\<close> the local variables the rest of the function uses when the calling
  thread runs again.
\<close>

datatype ('r, 'c) outcome = Done 'r | Wait 'c

section \<open>Access to threads, timers and lists\<close>

definition get_thread :: "nat \<Rightarrow> kernel \<Rightarrow> rt_thread option" where
  "get_thread t k = k_threads k t"

definition mod_thread :: "nat \<Rightarrow> (rt_thread \<Rightarrow> rt_thread) \<Rightarrow> kernel \<Rightarrow> kernel option" where
  "mod_thread t f k = do {
     th \<leftarrow> k_threads k t;
     Some (k\<lparr>k_threads := (k_threads k)(t \<mapsto> f th)\<rparr>)
   }"

definition mod_timer :: "timer_ref \<Rightarrow> (rt_timer \<Rightarrow> rt_timer) \<Rightarrow> kernel \<Rightarrow> kernel option" where
  "mod_timer r f k = do {
     tm \<leftarrow> k_timers k r;
     Some (k\<lparr>k_timers := (k_timers k)(r \<mapsto> f tm)\<rparr>)
   }"

text \<open>The list operations on the nodes \<^verbatim>\<open>thread->tlist\<close>.\<close>

definition tlist_remove :: "nat \<Rightarrow> kernel \<Rightarrow> kernel" where
  "tlist_remove t k = k\<lparr>k_lists := lists_remove t (k_lists k)\<rparr>"

definition tlist_insert_before :: "lhead \<Rightarrow> nat \<Rightarrow> kernel \<Rightarrow> kernel" where
  "tlist_insert_before h t k = k\<lparr>k_lists := lists_insert_before h t (k_lists k)\<rparr>"

definition tlist_insert_after :: "lhead \<Rightarrow> nat \<Rightarrow> kernel \<Rightarrow> kernel" where
  "tlist_insert_after h t k = k\<lparr>k_lists := lists_insert_after h t (k_lists k)\<rparr>"

definition tlist_isempty :: "lhead \<Rightarrow> kernel \<Rightarrow> bool" where
  "tlist_isempty h k \<longleftrightarrow> k_lists k h = []"

definition thread_stat :: "rt_thread \<Rightarrow> u8" where
  "thread_stat th = th_stat th AND RT_THREAD_STAT_MASK"

definition set_stat :: "u8 \<Rightarrow> rt_thread \<Rightarrow> rt_thread" where
  "set_stat st th = th\<lparr>th_stat := st OR (th_stat th AND NOT RT_THREAD_STAT_MASK)\<rparr>"

lemma thread_stat_set_stat [simp]: "thread_stat (set_stat st th) = st AND RT_THREAD_STAT_MASK"
  using mask_replace_and [of st "th_stat th" RT_THREAD_STAT_MASK]
  by (simp add: thread_stat_def set_stat_def)

lemma set_stat_fields [simp]:
  "th_parent (set_stat st th) = th_parent th"
  "th_error (set_stat st th) = th_error th"
  "th_current_priority (set_stat st th) = th_current_priority th"
  "th_init_priority (set_stat st th) = th_init_priority th"
  "th_number_mask (set_stat st th) = th_number_mask th"
  "th_event_set (set_stat st th) = th_event_set th"
  "th_event_info (set_stat st th) = th_event_info th"
  "th_init_tick (set_stat st th) = th_init_tick th"
  "th_remaining_tick (set_stat st th) = th_remaining_tick th"
  by (simp_all add: set_stat_def)

definition prio :: "rt_thread \<Rightarrow> nat" where
  "prio th = unat (th_current_priority th)"

definition is_thread_object :: "rt_thread \<Rightarrow> bool" where
  "is_thread_object th \<longleftrightarrow> ob_type (th_parent th) AND NOT RT_Object_Class_Static = RT_Object_Class_Thread"

definition is_timer_object :: "rt_timer \<Rightarrow> bool" where
  "is_timer_object tm \<longleftrightarrow> ob_type (tm_parent tm) AND NOT RT_Object_Class_Static = RT_Object_Class_Timer"

definition timer_activated :: "rt_timer \<Rightarrow> bool" where
  "timer_activated tm \<longleftrightarrow> ob_flag (tm_parent tm) AND RT_TIMER_FLAG_ACTIVATED \<noteq> 0"

definition timer_periodic :: "rt_timer \<Rightarrow> bool" where
  "timer_periodic tm \<longleftrightarrow> ob_flag (tm_parent tm) AND RT_TIMER_FLAG_PERIODIC \<noteq> 0"

definition timer_static :: "rt_timer \<Rightarrow> bool" where
  "timer_static tm \<longleftrightarrow> ob_type (tm_parent tm) AND RT_Object_Class_Static \<noteq> 0"

section \<open>The invariant of the kernel\<close>

text \<open>
  \<open>X\<close> is the set of threads an operation is in the middle of moving: they are on no list and nothing is
  said about them.  Between operations it is empty.

  \<open>thread_wf\<close>: the fields of a live thread.  \<open>ready_ok\<close>: a bit of the ready group is set exactly when
  the ready queue of that priority is not empty.  \<open>member_ok\<close>: what a thread on a list is.
\<close>

definition thread_wf :: "rt_thread \<Rightarrow> bool" where
  "thread_wf th \<longleftrightarrow> prio th < 32 \<and> unat (th_init_priority th) < 32 \<and>
     (thread_stat th \<noteq> RT_THREAD_CLOSE \<longrightarrow> is_thread_object th) \<and>
     (thread_stat th \<noteq> RT_THREAD_INIT \<longrightarrow> thread_stat th \<noteq> RT_THREAD_CLOSE \<longrightarrow>
        th_number_mask th = push_bit (prio th) 1)"

definition ready_ok :: "(lhead \<Rightarrow> nat list) \<Rightarrow> u32 \<Rightarrow> bool" where
  "ready_ok L g \<longleftrightarrow> (\<forall>p. bit g p \<longleftrightarrow> L (Ready p) \<noteq> [])"

definition member_ok :: "lhead \<Rightarrow> rt_thread \<Rightarrow> bool" where
  "member_ok h th \<longleftrightarrow> (case h of
     Ready p \<Rightarrow> thread_stat th = RT_THREAD_READY \<and> prio th = p
   | Defunct \<Rightarrow> thread_stat th = RT_THREAD_CLOSE
   | _ \<Rightarrow> thread_stat th = RT_THREAD_SUSPEND)"

definition lists_wf :: "(lhead \<Rightarrow> nat list) \<Rightarrow> bool" where
  "lists_wf L \<longleftrightarrow> (\<forall>h. distinct (L h)) \<and> (\<forall>h h' t. t \<in> set (L h) \<longrightarrow> t \<in> set (L h') \<longrightarrow> h = h')"

definition linv :: "nat set \<Rightarrow> (lhead \<Rightarrow> nat list) \<Rightarrow> u32 \<Rightarrow> (nat \<rightharpoonup> rt_thread) \<Rightarrow> bool" where
  "linv X L g T \<longleftrightarrow> lists_wf L \<and> ready_ok L g \<and>
     (\<forall>h. \<forall>t \<in> set (L h). t \<notin> X \<and> (\<exists>th. T t = Some th \<and> member_ok h th)) \<and>
     (\<forall>t th. T t = Some th \<longrightarrow> t \<notin> X \<longrightarrow> thread_wf th \<and>
        (thread_stat th = RT_THREAD_READY \<longrightarrow> t \<in> set (L (Ready (prio th)))))"

text \<open>The current thread: the only one that may be running; a ready thread is never current.\<close>

definition cinv :: "nat set \<Rightarrow> nat option \<Rightarrow> (nat \<rightharpoonup> rt_thread) \<Rightarrow> bool" where
  "cinv X cur T \<longleftrightarrow>
     (\<forall>c. cur = Some c \<longrightarrow> (\<exists>th. T c = Some th \<and> (c \<notin> X \<longrightarrow> thread_stat th \<noteq> RT_THREAD_READY))) \<and>
     (\<forall>t th. T t = Some th \<longrightarrow> t \<notin> X \<longrightarrow> thread_stat th = RT_THREAD_RUNNING \<longrightarrow> cur = Some t)"

text \<open>
  The timers: a timer on the list is an activated timer object; the built-in timer of a live thread is
  one-shot, calls \<^verbatim>\<open>rt_thread_timeout\<close> on its thread, and runs only while the thread is suspended.
\<close>

definition thread_timer_wf :: "nat \<Rightarrow> rt_timer \<Rightarrow> bool" where
  "thread_timer_wf t tm \<longleftrightarrow> tm_timeout_func tm = Rt_thread_timeout \<and> tm_parameter tm = t \<and>
     \<not> timer_periodic tm \<and> timer_static tm"

definition listed_ok :: "rt_timer \<Rightarrow> bool" where
  "listed_ok tm \<longleftrightarrow> is_timer_object tm \<and> timer_activated tm \<and>
     (timer_periodic tm \<longrightarrow> tm_init_tick tm < RT_TICK_MAX_HALF)"

definition tinv :: "nat set \<Rightarrow> (timer_ref \<rightharpoonup> rt_timer) \<Rightarrow> timer_ref list \<Rightarrow> timer_ref list \<Rightarrow>
    (nat \<rightharpoonup> rt_thread) \<Rightarrow> bool" where
  "tinv X M TL tmp T \<longleftrightarrow> distinct TL \<and>
     (\<forall>r \<in> set TL. r \<notin> set tmp \<and> (\<exists>tm. M r = Some tm \<and> listed_ok tm)) \<and>
     (\<forall>t. Thread_timer t \<in> set TL \<longrightarrow> t \<notin> X \<longrightarrow> (\<exists>th. T t = Some th \<and> thread_stat th = RT_THREAD_SUSPEND)) \<and>
     (\<forall>t th. T t = Some th \<longrightarrow> t \<notin> X \<longrightarrow> thread_stat th \<noteq> RT_THREAD_CLOSE \<longrightarrow>
        (\<exists>tm. M (Thread_timer t) = Some tm \<and> is_timer_object tm \<and> thread_timer_wf t tm)) \<and>
     (\<forall>r tm. M r = Some tm \<longrightarrow> timer_activated tm \<longrightarrow> \<not> timer_periodic tm \<longrightarrow> r \<in> set TL) \<and>
     (\<forall>n tm. M (Timer n) = Some tm \<longrightarrow> tm_timeout_func tm \<noteq> Rt_thread_timeout)"

definition kinvx :: "nat set \<Rightarrow> kernel \<Rightarrow> bool" where
  "kinvx X k \<longleftrightarrow> linv X (k_lists k) (k_ready_group k) (k_threads k) \<and> cinv X (k_current k) (k_threads k) \<and>
     tinv X (k_timers k) (k_timer_list k) (k_timer_tmp k) (k_threads k)"

abbreviation kinv :: "kernel \<Rightarrow> bool" where
  "kinv k \<equiv> kinvx {} k"

section \<open>Rules for the pieces of an operation\<close>

lemma linvD:
  assumes "linv X L g T"
  shows "lists_wf L" and "ready_ok L g" and "t \<in> set (L h) \<Longrightarrow> t \<notin> X"
    and "t \<in> set (L h) \<Longrightarrow> \<exists>th. T t = Some th \<and> member_ok h th"
    and "T t = Some th \<Longrightarrow> t \<notin> X \<Longrightarrow> thread_wf th"
    and "T t = Some th \<Longrightarrow> t \<notin> X \<Longrightarrow> thread_stat th = RT_THREAD_READY \<Longrightarrow> t \<in> set (L (Ready (prio th)))"
proof -
  note a = assms [unfolded linv_def]
  show "lists_wf L" "ready_ok L g" using a by simp_all
  show "t \<notin> X" "\<exists>th. T t = Some th \<and> member_ok h th" if "t \<in> set (L h)" using a that by auto
  show "thread_wf th" if "T t = Some th" "t \<notin> X" using a that by auto
  show "t \<in> set (L (Ready (prio th)))" if "T t = Some th" "t \<notin> X" "thread_stat th = RT_THREAD_READY"
    using a that by auto
qed

lemma linvI:
  assumes "lists_wf L" and "ready_ok L g"
    and "\<And>h t. t \<in> set (L h) \<Longrightarrow> t \<notin> X" and "\<And>h t. t \<in> set (L h) \<Longrightarrow> \<exists>th. T t = Some th \<and> member_ok h th"
    and "\<And>t th. T t = Some th \<Longrightarrow> t \<notin> X \<Longrightarrow> thread_wf th"
    and "\<And>t th. T t = Some th \<Longrightarrow> t \<notin> X \<Longrightarrow> thread_stat th = RT_THREAD_READY \<Longrightarrow> t \<in> set (L (Ready (prio th)))"
  shows "linv X L g T"
  using assms unfolding linv_def by blast

lemma tinvD:
  assumes "tinv X M TL tmp T"
  shows "distinct TL" and "r \<in> set TL \<Longrightarrow> r \<notin> set tmp"
    and "r \<in> set TL \<Longrightarrow> \<exists>tm. M r = Some tm \<and> listed_ok tm"
    and "Thread_timer t \<in> set TL \<Longrightarrow> t \<notin> X \<Longrightarrow> \<exists>th. T t = Some th \<and> thread_stat th = RT_THREAD_SUSPEND"
    and "T t = Some th \<Longrightarrow> t \<notin> X \<Longrightarrow> thread_stat th \<noteq> RT_THREAD_CLOSE \<Longrightarrow>
      \<exists>tm. M (Thread_timer t) = Some tm \<and> is_timer_object tm \<and> thread_timer_wf t tm"
    and "M r = Some tm \<Longrightarrow> timer_activated tm \<Longrightarrow> \<not> timer_periodic tm \<Longrightarrow> r \<in> set TL"
    and "M (Timer n) = Some tm \<Longrightarrow> tm_timeout_func tm \<noteq> Rt_thread_timeout"
proof -
  note a = assms [unfolded tinv_def]
  show "distinct TL" using a by simp
  show "r \<notin> set tmp" "\<exists>tm. M r = Some tm \<and> listed_ok tm" if "r \<in> set TL" using a that by auto
  show "\<exists>th. T t = Some th \<and> thread_stat th = RT_THREAD_SUSPEND"
    if "Thread_timer t \<in> set TL" "t \<notin> X" using a that by auto
  show "\<exists>tm. M (Thread_timer t) = Some tm \<and> is_timer_object tm \<and> thread_timer_wf t tm"
    if "T t = Some th" "t \<notin> X" "thread_stat th \<noteq> RT_THREAD_CLOSE" using a that by auto
  show "r \<in> set TL" if "M r = Some tm" "timer_activated tm" "\<not> timer_periodic tm" using a that by auto
  show "tm_timeout_func tm \<noteq> Rt_thread_timeout" if "M (Timer n) = Some tm" using a that by auto
qed

lemma tinvI:
  assumes "distinct TL" and "\<And>r. r \<in> set TL \<Longrightarrow> r \<notin> set tmp"
    and "\<And>r. r \<in> set TL \<Longrightarrow> \<exists>tm. M r = Some tm \<and> listed_ok tm"
    and "\<And>t. Thread_timer t \<in> set TL \<Longrightarrow> t \<notin> X \<Longrightarrow> \<exists>th. T t = Some th \<and> thread_stat th = RT_THREAD_SUSPEND"
    and "\<And>t th. T t = Some th \<Longrightarrow> t \<notin> X \<Longrightarrow> thread_stat th \<noteq> RT_THREAD_CLOSE \<Longrightarrow>
      \<exists>tm. M (Thread_timer t) = Some tm \<and> is_timer_object tm \<and> thread_timer_wf t tm"
    and "\<And>r tm. M r = Some tm \<Longrightarrow> timer_activated tm \<Longrightarrow> \<not> timer_periodic tm \<Longrightarrow> r \<in> set TL"
    and "\<And>n tm. M (Timer n) = Some tm \<Longrightarrow> tm_timeout_func tm \<noteq> Rt_thread_timeout"
  shows "tinv X M TL tmp T"
  unfolding tinv_def using assms by simp

lemma cinvD:
  assumes "cinv X cur T"
  shows "cur = Some c \<Longrightarrow> \<exists>th. T c = Some th"
    and "cur = Some c \<Longrightarrow> T c = Some th \<Longrightarrow> c \<notin> X \<Longrightarrow> thread_stat th \<noteq> RT_THREAD_READY"
    and "T t = Some th \<Longrightarrow> t \<notin> X \<Longrightarrow> thread_stat th = RT_THREAD_RUNNING \<Longrightarrow> cur = Some t"
  using assms unfolding cinv_def by auto

lemma cinvI:
  assumes "\<And>c. cur = Some c \<Longrightarrow> \<exists>th. T c = Some th"
    and "\<And>c th. cur = Some c \<Longrightarrow> T c = Some th \<Longrightarrow> c \<notin> X \<Longrightarrow> thread_stat th \<noteq> RT_THREAD_READY"
    and "\<And>t th. T t = Some th \<Longrightarrow> t \<notin> X \<Longrightarrow> thread_stat th = RT_THREAD_RUNNING \<Longrightarrow> cur = Some t"
  shows "cinv X cur T"
  unfolding cinv_def
proof (intro conjI allI impI)
  show "\<exists>th. T c = Some th \<and> (c \<notin> X \<longrightarrow> thread_stat th \<noteq> RT_THREAD_READY)" if "cur = Some c" for c
    using assms(1) [OF that] assms(2) [OF that] by blast
qed (rule assms(3))

lemma member_stat:
  "member_ok (Ready p) th \<longleftrightarrow> thread_stat th = RT_THREAD_READY \<and> prio th = p"
  "member_ok Defunct th \<longleftrightarrow> thread_stat th = RT_THREAD_CLOSE"
  by (simp_all add: member_ok_def)

definition wait_head :: "lhead \<Rightarrow> bool" where
  "wait_head h \<longleftrightarrow> (case h of Ready p \<Rightarrow> False | Defunct \<Rightarrow> False | _ \<Rightarrow> True)"

lemma wait_head_simps [simp]:
  "\<not> wait_head (Ready p)" "\<not> wait_head Defunct" "wait_head (SemQ n)" "wait_head (MutexQ n)"
  "wait_head (EventQ n)" "wait_head (MbQ n)" "wait_head (MbSendQ n)" "wait_head (MqQ n)" "wait_head (MqSendQ n)"
  "wait_head (CompletionQ n)" "wait_head (DqPushQ n)" "wait_head (DqPopQ n)"
  by (simp_all add: wait_head_def)

lemma member_wait: "wait_head h \<Longrightarrow> member_ok h th \<longleftrightarrow> thread_stat th = RT_THREAD_SUSPEND"
  by (cases h) (simp_all add: member_ok_def)

text \<open>Which lists a thread can be on follows from its state.\<close>

lemma linv_on_list:
  assumes k: "linv X L g T" and t: "T t = Some th" and m: "t \<in> set (L h)"
  shows "member_ok h th"
  using linvD(4) [OF k m] t by simp

lemma linv_not_on_list:
  assumes k: "linv X L g T" and t: "T t = Some th"
    and n: "thread_stat th \<noteq> RT_THREAD_READY" "thread_stat th \<noteq> RT_THREAD_CLOSE" "thread_stat th \<noteq> RT_THREAD_SUSPEND"
  shows "t \<notin> set (L h)"
proof
  assume "t \<in> set (L h)"
  then have "member_ok h th" by (rule linv_on_list [OF k t])
  then show False using n by (cases h) (simp_all add: member_ok_def)
qed

lemma linv_X_not_on_list: "linv X L g T \<Longrightarrow> t \<in> X \<Longrightarrow> t \<notin> set (L h)"
  using linvD(3) by blast

text \<open>Lists.\<close>

lemma lists_wf_remove: "lists_wf L \<Longrightarrow> lists_wf (lists_remove t L)"
  by (auto simp: lists_wf_def lists_remove_def distinct_removeAll)

lemma set_lists_remove [simp]: "set (lists_remove t L h) = set (L h) - {t}"
  by (simp add: lists_remove_def)

lemma lists_remove_notin: "(\<And>h. t \<notin> set (L h)) \<Longrightarrow> lists_remove t L = L"
  by (auto simp: lists_remove_def removeAll_id)

lemma lists_wf_insert:
  assumes w: "lists_wf L" and out: "\<And>h. t \<notin> set (L h)" and h: "L h = xs @ ys"
  shows "lists_wf (L(h := xs @ t # ys))"
proof -
  have d: "distinct (L h')" and e: "u \<in> set (L h') \<Longrightarrow> u \<in> set (L h'') \<Longrightarrow> h' = h''" for h' h'' u
    using w by (simp_all add: lists_wf_def)
  have "distinct (xs @ t # ys)" using d [of h] out [of h] h by simp
  moreover have "u = t \<and> h1 = h \<or> u \<noteq> t \<and> u \<in> set (L h1)" if "u \<in> set ((L(h := xs @ t # ys)) h1)" for u h1
    using that out h by (cases "h1 = h") auto
  ultimately show ?thesis unfolding lists_wf_def using d e by (metis fun_upd_apply)
qed

text \<open>A thread that is being moved may be rewritten freely.\<close>

lemma linv_upd_X:
  assumes "linv X L g T" and "t \<in> X"
  shows "linv X L g (T(t := v))"
proof (rule linvI)
  show "\<exists>th. (T(t := v)) u = Some th \<and> member_ok h th" if "u \<in> set (L h)" for u h
    using linvD(3,4) [OF assms(1) that] assms(2) by auto
qed (use assms linvD [OF assms(1)] in \<open>auto split: if_splits\<close>)

lemma cinv_upd_X: "cinv X cur T \<Longrightarrow> t \<in> X \<Longrightarrow> cinv X cur (T(t \<mapsto> th))"
  by (auto simp: cinv_def)

lemma tinv_upd_X:
  assumes "tinv X M TL tmp T" and "t \<in> X"
  shows "tinv X M TL tmp (T(t := v))"
proof (rule tinvI)
  show "\<exists>th. (T(t := v)) u = Some th \<and> thread_stat th = RT_THREAD_SUSPEND"
    if "Thread_timer u \<in> set TL" "u \<notin> X" for u
    using tinvD(4) [OF assms(1) that] that(2) assms(2) by auto
  show "\<exists>tm. M (Thread_timer u) = Some tm \<and> is_timer_object tm \<and> thread_timer_wf u tm"
    if "(T(t := v)) u = Some th" "u \<notin> X" "thread_stat th \<noteq> RT_THREAD_CLOSE" for u th
    by (rule tinvD(5) [OF assms(1) _ that(2,3)]) (use that(1,2) assms(2) in \<open>auto split: if_splits\<close>)
qed (fact tinvD [OF assms(1)])+

text \<open>Fields the scheduler does not look at.\<close>

definition same_sched :: "rt_thread \<Rightarrow> rt_thread \<Rightarrow> bool" where
  "same_sched th th' \<longleftrightarrow> thread_stat th' = thread_stat th \<and> prio th' = prio th \<and>
     th_init_priority th' = th_init_priority th \<and> th_number_mask th' = th_number_mask th \<and>
     ob_type (th_parent th') = ob_type (th_parent th)"

lemma same_sched_wf: "same_sched th th' \<Longrightarrow> thread_wf th' = thread_wf th"
  by (simp add: same_sched_def thread_wf_def is_thread_object_def)

lemma same_sched_member: "same_sched th th' \<Longrightarrow> member_ok h th' = member_ok h th"
  by (cases h) (simp_all add: same_sched_def member_ok_def)

lemma linv_upd_same:
  assumes k: "linv X L g T" and t: "T t = Some th" and s: "same_sched th th'"
  shows "linv X L g (T(t \<mapsto> th'))"
proof (rule linvI)
  show "\<exists>th''. (T(t \<mapsto> th')) u = Some th'' \<and> member_ok h th''" if u: "u \<in> set (L h)" for u h
    using linvD(4) [OF k u] t same_sched_member [OF s] by (cases "u = t") auto
next
  fix u th'' assume eq: "(T(t \<mapsto> th')) u = Some th''" and u: "u \<notin> X"
  show "thread_wf th''"
    using linvD(5) [OF k t] linvD(5) [OF k _ u] eq u same_sched_wf [OF s] by (auto split: if_splits)
  assume "thread_stat th'' = RT_THREAD_READY"
  then show "u \<in> set (L (Ready (prio th'')))"
    using linvD(6) [OF k t] linvD(6) [OF k _ u] eq u s by (auto simp: same_sched_def split: if_splits)
qed (use linvD [OF k] in simp_all)

lemma cinv_upd_same:
  assumes i: "cinv X cur T" and t: "T t = Some th" and "same_sched th th'"
  shows "cinv X cur (T(t \<mapsto> th'))"
proof (rule cinvI)
  have st: "thread_stat th' = thread_stat th" using assms(3) by (simp add: same_sched_def)
  show "\<exists>th. (T(t \<mapsto> th')) c = Some th" if "cur = Some c" for c using cinvD(1) [OF i that] by simp
  show "thread_stat th'' \<noteq> RT_THREAD_READY" if "cur = Some c" "(T(t \<mapsto> th')) c = Some th''" "c \<notin> X" for c th''
    using cinvD(2) [OF i that(1) _ that(3)] that(2) t st by (cases "c = t") auto
  show "cur = Some u" if "(T(t \<mapsto> th')) u = Some th''" "u \<notin> X" "thread_stat th'' = RT_THREAD_RUNNING" for u th''
    using cinvD(3) [OF i _ that(2)] that(1,3) t st by (cases "u = t") auto
qed

lemma tinv_upd_same:
  assumes i: "tinv X M TL tmp T" and t: "T t = Some th" and "same_sched th th'"
  shows "tinv X M TL tmp (T(t \<mapsto> th'))"
proof (rule tinvI)
  have st: "thread_stat th' = thread_stat th" using assms(3) by (simp add: same_sched_def)
  show "\<exists>th''. (T(t \<mapsto> th')) u = Some th'' \<and> thread_stat th'' = RT_THREAD_SUSPEND"
    if "Thread_timer u \<in> set TL" "u \<notin> X" for u
    using tinvD(4) [OF i that] t st by auto
  show "\<exists>tm. M (Thread_timer u) = Some tm \<and> is_timer_object tm \<and> thread_timer_wf u tm"
    if "(T(t \<mapsto> th')) u = Some th''" "u \<notin> X" "thread_stat th'' \<noteq> RT_THREAD_CLOSE" for u th''
    using tinvD(5) [OF i t] tinvD(5) [OF i _ that(2)] that st by (auto split: if_splits)
qed (fact tinvD [OF i])+

lemma kinvx_upd_same:
  assumes "kinvx X k" and "k_threads k t = Some th" and "same_sched th th'"
  shows "kinvx X (k\<lparr>k_threads := (k_threads k)(t \<mapsto> th')\<rparr>)"
  using assms linv_upd_same cinv_upd_same tinv_upd_same unfolding kinvx_def by simp

text \<open>A thread leaves its list, and is on the move afterwards.\<close>

lemma ready_okD: "ready_ok L g \<Longrightarrow> bit g p \<longleftrightarrow> L (Ready p) \<noteq> []"
  by (simp add: ready_ok_def)

lemma ready_ok_nonready:
  assumes "ready_ok L g" and "\<And>p. L' (Ready p) = [] \<longleftrightarrow> L (Ready p) = []"
  shows "ready_ok L' g"
  using assms by (simp add: ready_ok_def)

lemma linv_leave:
  assumes k: "linv X L g T" and t: "T t = Some th" and s: "thread_stat th \<noteq> RT_THREAD_READY"
  shows "linv (insert t X) (lists_remove t L) g T"
proof (rule linvI)
  have "t \<notin> set (L (Ready p))" for p
    using linv_on_list [OF k t, of "Ready p"] s by (auto simp: member_stat)
  then show "ready_ok (lists_remove t L) g"
    by (intro ready_ok_nonready [OF linvD(2) [OF k]]) (simp add: lists_remove_def removeAll_id)
  show "\<exists>th. T u = Some th \<and> member_ok h th" if "u \<in> set (lists_remove t L h)" for h u
    by (rule linvD(4) [OF k]) (use that in simp)
  show "u \<notin> insert t X" if "u \<in> set (lists_remove t L h)" for h u
    using linvD(3) [OF k, of u h] that by simp
  show "thread_wf th'" if "T u = Some th'" "u \<notin> insert t X" for u th'
    by (rule linvD(5) [OF k that(1)]) (use that(2) in simp)
  show "u \<in> set (lists_remove t L (Ready (prio th')))"
    if "T u = Some th'" "u \<notin> insert t X" "thread_stat th' = RT_THREAD_READY" for u th'
    using linvD(6) [OF k that(1) _ that(3)] that(2) by simp
qed (rule lists_wf_remove [OF linvD(1) [OF k]])

lemma linv_unready:
  assumes k: "linv X L g T" and t: "T t = Some th"
    and m: "th_number_mask th = push_bit (prio th) 1"
  defines "L' \<equiv> lists_remove t L"
  shows "linv (insert t X) L' (if L' (Ready (prio th)) = [] then g AND NOT (th_number_mask th) else g) T"
proof (rule linvI)
  have other: "t \<notin> set (L (Ready p))" if "p \<noteq> prio th" for p
    using linv_on_list [OF k t, of "Ready p"] that by (auto simp: member_stat)
  then have L': "L' (Ready p) = L (Ready p)" if "p \<noteq> prio th" for p
    using that by (simp add: L'_def lists_remove_def removeAll_id)
  show "ready_ok L' (if L' (Ready (prio th)) = [] then g AND NOT (th_number_mask th) else g)"
    unfolding ready_ok_def
  proof
    fix p
    have b: "bit g p \<longleftrightarrow> L (Ready p) \<noteq> []" by (rule ready_okD [OF linvD(2) [OF k]])
    have "bit (g AND NOT (th_number_mask th)) p \<longleftrightarrow> bit g p \<and> p \<noteq> prio th"
      using m by (auto simp: bit_simps dest: bit_imp_le_length)
    moreover have "L' (Ready p) \<noteq> [] \<Longrightarrow> L (Ready p) \<noteq> []" by (auto simp: L'_def lists_remove_def)
    ultimately show "bit (if L' (Ready (prio th)) = [] then g AND NOT (th_number_mask th) else g) p \<longleftrightarrow>
        L' (Ready p) \<noteq> []"
      using b L' [of p] by (cases "p = prio th") auto
  qed
  show "\<exists>th. T u = Some th \<and> member_ok h th" if "u \<in> set (L' h)" for h u
    by (rule linvD(4) [OF k]) (use that in \<open>simp add: L'_def\<close>)
  show "u \<notin> insert t X" if "u \<in> set (L' h)" for h u
    using linvD(3) [OF k, of u h] that by (simp add: L'_def)
  show "thread_wf th'" if "T u = Some th'" "u \<notin> insert t X" for u th'
    by (rule linvD(5) [OF k that(1)]) (use that(2) in simp)
  show "u \<in> set (L' (Ready (prio th')))"
    if "T u = Some th'" "u \<notin> insert t X" "thread_stat th' = RT_THREAD_READY" for u th'
    using linvD(6) [OF k that(1) _ that(3)] that(2) by (simp add: L'_def)
  show "lists_wf L'" unfolding L'_def by (rule lists_wf_remove [OF linvD(1) [OF k]])
qed

text \<open>A thread on the move comes to rest: in no list, in its ready queue, or in a waiting list.\<close>

lemma linv_settle:
  assumes k: "linv (insert t X) L g T" and t: "T t = Some th" and w: "thread_wf th"
    and s: "thread_stat th \<noteq> RT_THREAD_READY"
  shows "linv (X - {t}) L g T"
proof (rule linvI)
  show "u \<notin> X - {t}" if "u \<in> set (L h)" for h u using linvD(3) [OF k that] by simp
  show "thread_wf th'" if "T u = Some th'" "u \<notin> X - {t}" for u th'
    using linvD(5) [OF k that(1)] that t w by (cases "u = t") auto
  show "u \<in> set (L (Ready (prio th')))"
    if "T u = Some th'" "u \<notin> X - {t}" "thread_stat th' = RT_THREAD_READY" for u th'
    using linvD(6) [OF k that(1) _ that(3)] that t s by (cases "u = t") auto
qed (fact linvD [OF k])+

lemma linv_ready:
  assumes k: "linv (insert t X) L g T" and t: "T t = Some th" and w: "thread_wf th"
    and s: "thread_stat th = RT_THREAD_READY"
  shows "linv (X - {t}) (lists_insert_before (Ready (prio th)) t L) (g OR th_number_mask th) T"
    (is "linv _ ?L _ _")
proof (rule linvI)
  have out: "t \<notin> set (L h)" for h using linvD(3) [OF k, of t h] by blast
  have L: "?L = L(Ready (prio th) := L (Ready (prio th)) @ t # [])" by (simp add: lists_insert_before_def)
  show "lists_wf ?L" unfolding L by (rule lists_wf_insert [OF linvD(1) [OF k] out]) simp
  have p: "prio th < 32" and m: "th_number_mask th = push_bit (prio th) 1"
    using w s by (auto simp: thread_wf_def)
  show "ready_ok ?L (g OR th_number_mask th)"
    unfolding ready_ok_def
  proof
    fix q
    have "bit g q \<longleftrightarrow> L (Ready q) \<noteq> []" by (rule ready_okD [OF linvD(2) [OF k]])
    moreover have "bit (th_number_mask th) q \<longleftrightarrow> q = prio th" 
      unfolding m bit_shifted_one using p by auto
    ultimately show "bit (g OR th_number_mask th) q \<longleftrightarrow> ?L (Ready q) \<noteq> []"
      by (simp add: L bit_or_iff)
  qed
  have mem: "u \<in> set (?L h) \<longleftrightarrow> u = t \<and> h = Ready (prio th) \<or> u \<in> set (L h)" for u h
    by (auto simp: L)
  show "u \<notin> X - {t}" if "u \<in> set (?L h)" for h u
    using that linvD(3) [OF k, of u h] by (auto simp: mem)
  show "\<exists>th. T u = Some th \<and> member_ok h th" if "u \<in> set (?L h)" for h u
    using that linvD(4) [OF k, of u h] t s by (auto simp: mem member_stat)
  show "thread_wf th'" if "T u = Some th'" "u \<notin> X - {t}" for u th'
    using linvD(5) [OF k that(1)] that t w by (cases "u = t") auto
  show "u \<in> set (?L (Ready (prio th')))"
    if "T u = Some th'" "u \<notin> X - {t}" "thread_stat th' = RT_THREAD_READY" for u th'
    unfolding mem using linvD(6) [OF k that(1) _ that(3)] that t by (cases "u = t") auto
qed

lemma linv_enqueue:
  assumes k: "linv X L g T" and t: "T t = Some th" "t \<notin> X" and out: "\<And>h. t \<notin> set (L h)"
    and h: "\<And>p. h \<noteq> Ready p" "member_ok h th" and L: "L h = xs @ ys"
  shows "linv X (L(h := xs @ t # ys)) g T"
proof (rule linvI)
  show "lists_wf (L(h := xs @ t # ys))" by (rule lists_wf_insert [OF linvD(1) [OF k] out L])
  show "ready_ok (L(h := xs @ t # ys)) g"
    by (rule ready_ok_nonready [OF linvD(2) [OF k]]) (use h(1) in auto)
  have mem: "u \<in> set ((L(h := xs @ t # ys)) h') \<longleftrightarrow> u = t \<and> h' = h \<or> u \<in> set (L h')" for u h'
    using L by auto
  show "u \<notin> X" if "u \<in> set ((L(h := xs @ t # ys)) h')" for h' u
    using that [unfolded mem] linvD(3) [OF k, of u h'] t(2) by blast
  show "\<exists>th. T u = Some th \<and> member_ok h' th" if "u \<in> set ((L(h := xs @ t # ys)) h')" for h' u
    using that [unfolded mem] linvD(4) [OF k, of u h'] t(1) h(2) by blast
  show "u \<in> set ((L(h := xs @ t # ys)) (Ready (prio th')))"
    if "T u = Some th'" "u \<notin> X" "thread_stat th' = RT_THREAD_READY" for u th'
    unfolding mem using linvD(6) [OF k that] by blast
qed (use linvD(5) [OF k] in blast)

text \<open>The current thread and the timers, when a thread starts or ends moving.\<close>

lemma cinv_leave: "cinv X cur T \<Longrightarrow> cinv (insert t X) cur T"
  by (rule cinvI) (auto dest: cinvD)

lemma cinv_settle:
  assumes i: "cinv (insert t X) cur T" and t: "T t = Some th"
    and r: "thread_stat th = RT_THREAD_READY \<Longrightarrow> cur \<noteq> Some t"
    and u: "thread_stat th = RT_THREAD_RUNNING \<Longrightarrow> cur = Some t"
  shows "cinv (X - {t}) cur T"
proof (rule cinvI)
  show "\<exists>th. T c = Some th" if "cur = Some c" for c by (rule cinvD(1) [OF i that])
  show "thread_stat th' \<noteq> RT_THREAD_READY" if "cur = Some c" "T c = Some th'" "c \<notin> X - {t}" for c th'
    using cinvD(2) [OF i that(1,2)] that t r by (cases "c = t") auto
  show "cur = Some v" if "T v = Some th'" "v \<notin> X - {t}" "thread_stat th' = RT_THREAD_RUNNING" for v th'
    using cinvD(3) [OF i that(1) _ that(3)] that t u by (cases "v = t") auto
qed

lemma tinv_leave: "tinv X M TL tmp T \<Longrightarrow> tinv (insert t X) M TL tmp T"
  by (rule tinvI) (simp_all add: tinvD)

definition own_timer :: "(timer_ref \<rightharpoonup> rt_timer) \<Rightarrow> nat \<Rightarrow> bool" where
  "own_timer M t \<longleftrightarrow> (\<exists>tm. M (Thread_timer t) = Some tm \<and> is_timer_object tm \<and> thread_timer_wf t tm)"

lemma tinv_own_timer:
  "tinv X M TL tmp T \<Longrightarrow> T t = Some th \<Longrightarrow> t \<notin> X \<Longrightarrow> thread_stat th \<noteq> RT_THREAD_CLOSE \<Longrightarrow> own_timer M t"
  unfolding own_timer_def by (rule tinvD(5))

lemma tinv_settle:
  assumes i: "tinv (insert t X) M TL tmp T" and t: "T t = Some th"
    and s: "Thread_timer t \<in> set TL \<Longrightarrow> thread_stat th = RT_THREAD_SUSPEND"
    and o: "thread_stat th \<noteq> RT_THREAD_CLOSE \<Longrightarrow> own_timer M t"
  shows "tinv (X - {t}) M TL tmp T"
proof (rule tinvI)
  show "\<exists>th. T u = Some th \<and> thread_stat th = RT_THREAD_SUSPEND"
    if "Thread_timer u \<in> set TL" "u \<notin> X - {t}" for u
    using tinvD(4) [OF i that(1)] that s t by (cases "u = t") auto
  show "\<exists>tm. M (Thread_timer u) = Some tm \<and> is_timer_object tm \<and> thread_timer_wf u tm"
    if "T u = Some th'" "u \<notin> X - {t}" "thread_stat th' \<noteq> RT_THREAD_CLOSE" for u th'
    using tinvD(5) [OF i that(1) _ that(3)] that t o by (cases "u = t") (auto simp: own_timer_def)
qed (fact tinvD [OF i])+

text \<open>A live thread: everything \<open>thread_wf\<close> says of a started, not closed, thread.\<close>

definition live :: "rt_thread \<Rightarrow> bool" where
  "live th \<longleftrightarrow> prio th < 32 \<and> unat (th_init_priority th) < 32 \<and> is_thread_object th \<and>
     th_number_mask th = push_bit (prio th) 1"

lemma thread_wf_live:
  "thread_wf th \<Longrightarrow> thread_stat th \<noteq> RT_THREAD_INIT \<Longrightarrow> thread_stat th \<noteq> RT_THREAD_CLOSE \<Longrightarrow> live th"
  by (simp add: thread_wf_def live_def)

lemma live_wf: "live th \<Longrightarrow> thread_wf th"
  by (simp add: thread_wf_def live_def)

lemma prio_set_stat [simp]: "prio (set_stat st th) = prio th"
  by (simp add: prio_def)

lemma live_set_stat [simp]: "live (set_stat st th) = live th"
  by (simp add: live_def is_thread_object_def)

lemma same_sched_live: "same_sched th th' \<Longrightarrow> live th' = live th"
  by (simp add: same_sched_def live_def is_thread_object_def)

lemma kinvx_live:
  assumes "kinvx X k" and "k_threads k t = Some th" and "t \<notin> X"
    and "thread_stat th \<noteq> RT_THREAD_INIT" and "thread_stat th \<noteq> RT_THREAD_CLOSE"
  shows "live th" and "own_timer (k_timers k) t"
  using assms linvD(5) tinv_own_timer by (auto simp: kinvx_def intro!: thread_wf_live)

lemma kinvx_upd_X:
  assumes "kinvx X k" and "t \<in> X"
  shows "kinvx X (k\<lparr>k_threads := (k_threads k)(t \<mapsto> th)\<rparr>)"
  using assms by (simp add: kinvx_def linv_upd_X cinv_upd_X tinv_upd_X)

lemma kinvx_leave:
  assumes "kinvx X k" and "k_threads k t = Some th" and "thread_stat th \<noteq> RT_THREAD_READY"
  shows "kinvx (insert t X) (tlist_remove t k)"
  using assms by (simp add: kinvx_def tlist_remove_def linv_leave cinv_leave tinv_leave)

lemma kinvx_settle:
  assumes i: "kinvx (insert t X) k" and t: "k_threads k t = Some th" and w: "thread_wf th"
    and s: "thread_stat th \<noteq> RT_THREAD_READY" "thread_stat th = RT_THREAD_RUNNING \<Longrightarrow> k_current k = Some t"
    and o: "Thread_timer t \<in> set (k_timer_list k) \<Longrightarrow> thread_stat th = RT_THREAD_SUSPEND"
      "thread_stat th \<noteq> RT_THREAD_CLOSE \<Longrightarrow> own_timer (k_timers k) t"
  shows "kinvx (X - {t}) k"
proof -
  note p = i [unfolded kinvx_def]
  show ?thesis unfolding kinvx_def
  proof (intro conjI)
    show "linv (X - {t}) (k_lists k) (k_ready_group k) (k_threads k)"
      by (rule linv_settle [where th = th]) (use p t w s in simp_all)
    show "cinv (X - {t}) (k_current k) (k_threads k)"
      by (rule cinv_settle [where th = th]) (use p t s in simp_all)
    show "tinv (X - {t}) (k_timers k) (k_timer_list k) (k_timer_tmp k) (k_threads k)"
      by (rule tinv_settle [where th = th]) (use p t o in simp_all)
  qed
qed

section \<open>What the scheduling and timer functions leave alone\<close>

text \<open>
  The functions of the scheduler, the timers and the threads do not write the IPC objects, the object
  containers, the heap or the tick; and a waiting list only ever loses threads through them.
\<close>

definition core_frame :: "kernel \<Rightarrow> kernel \<Rightarrow> bool" where
  "core_frame k k' \<longleftrightarrow> k_sems k' = k_sems k \<and> k_mutexes k' = k_mutexes k \<and> k_events k' = k_events k \<and>
     k_mbs k' = k_mbs k \<and> k_mqs k' = k_mqs k \<and> k_objects k' = k_objects k \<and> k_heap k' = k_heap k \<and>
     k_idle_hooks k' = k_idle_hooks k \<and> k_irq_nest k' = k_irq_nest k \<and> k_lock_nest k' = k_lock_nest k \<and>
     k_tick k' = k_tick k \<and> k_devices k' = k_devices k \<and> k_errno k' = k_errno k \<and>
     k_completions k' = k_completions k \<and> k_data_queues k' = k_data_queues k \<and>
     (\<forall>h. wait_head h \<longrightarrow> (\<exists>P. k_lists k' h = filter P (k_lists k h)))"

lemma core_frame_refl [simp]: "core_frame k k"
  by (auto simp: core_frame_def intro!: exI [of _ "\<lambda>_. True"])

lemma core_frame_trans: "core_frame k1 k2 \<Longrightarrow> core_frame k2 k3 \<Longrightarrow> core_frame k1 k3"
  unfolding core_frame_def by (force simp: filter_filter)

lemma core_frameD:
  assumes "core_frame k k'"
  shows "k_sems k' = k_sems k" "k_mutexes k' = k_mutexes k" "k_events k' = k_events k"
    "k_mbs k' = k_mbs k" "k_mqs k' = k_mqs k" "k_objects k' = k_objects k" "k_heap k' = k_heap k"
    "k_idle_hooks k' = k_idle_hooks k" "k_irq_nest k' = k_irq_nest k" "k_lock_nest k' = k_lock_nest k"
    "k_tick k' = k_tick k" "k_devices k' = k_devices k" "k_errno k' = k_errno k"
    "k_completions k' = k_completions k" "k_data_queues k' = k_data_queues k"
  using assms by (simp_all add: core_frame_def)

lemma core_frame_wait:
  "core_frame k k' \<Longrightarrow> wait_head h \<Longrightarrow> \<exists>P. k_lists k' h = filter P (k_lists k h)"
  by (simp add: core_frame_def)

lemma core_frame_empty: "core_frame k k' \<Longrightarrow> wait_head h \<Longrightarrow> k_lists k h = [] \<Longrightarrow> k_lists k' h = []"
  using core_frame_wait by fastforce

lemma core_frame_mod_thread: "mod_thread t f k = Some k' \<Longrightarrow> core_frame k k'"
  by (auto simp: mod_thread_def core_frame_def bind_eq_Some_conv intro!: exI [of _ "\<lambda>_. True"])

lemma core_frame_tlist_remove: "core_frame k (tlist_remove t k)"
  by (auto simp: core_frame_def tlist_remove_def lists_remove_def removeAll_filter_not_eq)

lemma core_frame_ready: "core_frame k (tlist_insert_before (Ready p) t k)"
  by (auto simp: core_frame_def tlist_insert_before_def lists_insert_before_def intro!: exI [of _ "\<lambda>_. True"])

lemma core_frame_fields:
  "core_frame k (k\<lparr>k_ready_group := g\<rparr>)" "core_frame k (k\<lparr>k_current := c\<rparr>)"
  "core_frame k (k\<lparr>k_current_priority := p\<rparr>)" "core_frame k (k\<lparr>k_current_priority := p, k_current := c\<rparr>)"
  "core_frame k (k\<lparr>k_timers := M\<rparr>)" "core_frame k (k\<lparr>k_timer_list := TL\<rparr>)"
  "core_frame k (k\<lparr>k_timer_list := TL, k_timer_tmp := tmp\<rparr>)"
  "core_frame k (k\<lparr>k_timer_tmp := tmp\<rparr>)" "core_frame k (k\<lparr>k_threads := T\<rparr>)"
  by (auto simp: core_frame_def intro!: exI [of _ "\<lambda>_. True"])

lemma core_frame_mod_timer: "mod_timer r f k = Some k' \<Longrightarrow> core_frame k k'"
  by (auto simp: mod_timer_def bind_eq_Some_conv core_frame_fields)

text \<open>\<open>frames k m\<close>: if the call \<open>m\<close>, made on the way from state \<open>k\<close>, returns a state, it is framed by \<open>k\<close>.\<close>

definition frames :: "kernel \<Rightarrow> kernel option \<Rightarrow> bool" where
  "frames k m \<longleftrightarrow> (\<forall>k'. m = Some k' \<longrightarrow> core_frame k k')"

definition framesr :: "kernel \<Rightarrow> ('a \<times> kernel) option \<Rightarrow> bool" where
  "framesr k m \<longleftrightarrow> (\<forall>r k'. m = Some (r, k') \<longrightarrow> core_frame k k')"

named_theorems frame \<open>introduction rules for \<open>frames\<close>\<close>

lemma framesD: "frames k m \<Longrightarrow> m = Some k' \<Longrightarrow> core_frame k k'"
  by (simp add: frames_def)

lemma framesrD: "framesr k m \<Longrightarrow> m = Some (r, k') \<Longrightarrow> core_frame k k'"
  by (simp add: framesr_def)

lemma returns_frame: "returns m P \<Longrightarrow> frames k m \<Longrightarrow> returns m (\<lambda>x. P x \<and> core_frame k x)"
  and returns_framer: "returns q R \<Longrightarrow> framesr k q \<Longrightarrow> returns q (\<lambda>(r, k'). R (r, k') \<and> core_frame k k')"
  by (auto simp: returns_def frames_def framesr_def)

lemma frames_Some [frame]: "core_frame k k' \<Longrightarrow> frames k (Some k')"
  and frames_None [frame]: "frames k None"
  and framesr_Some [frame]: "core_frame k k' \<Longrightarrow> framesr k (Some (r, k'))"
  and framesr_None [frame]: "framesr k None"
  by (simp_all add: frames_def framesr_def)

lemma frames_if [frame]: "(b \<Longrightarrow> frames k m) \<Longrightarrow> (\<not> b \<Longrightarrow> frames k m') \<Longrightarrow> frames k (if b then m else m')"
  and framesr_if [frame]: "(b \<Longrightarrow> framesr k q) \<Longrightarrow> (\<not> b \<Longrightarrow> framesr k q') \<Longrightarrow> framesr k (if b then q else q')"
  by simp_all

lemma frames_bind_any: "(\<And>x. m = Some x \<Longrightarrow> frames k (f x)) \<Longrightarrow> frames k (Option.bind m f)"
  and framesr_bind_any: "(\<And>x. m = Some x \<Longrightarrow> framesr k (g x)) \<Longrightarrow> framesr k (Option.bind m g)"
  by (auto simp: frames_def framesr_def bind_eq_Some_conv)

text \<open>The second case is for the calls whose result is not a state.\<close>

lemmas [frame] =
  frames_bind_any [where 'a = rt_thread] framesr_bind_any [where 'a = rt_thread]
  frames_bind_any [where 'a = rt_timer] framesr_bind_any [where 'a = rt_timer]
  frames_bind_any [where 'a = nat] framesr_bind_any [where 'a = nat]
  frames_bind_any [where 'a = "nat \<times> nat"] framesr_bind_any [where 'a = "nat \<times> nat"]
  frames_bind_any [where 'a = bool] framesr_bind_any [where 'a = bool]
  frames_bind_any [where 'a = u8] framesr_bind_any [where 'a = u8]
  frames_bind_any [where 'a = u32] framesr_bind_any [where 'a = u32]
  frames_bind_any [where 'a = "timer_ref list"] framesr_bind_any [where 'a = "timer_ref list"]

lemma frames_bind [frame]:
  "frames k m \<Longrightarrow> (\<And>k1. core_frame k k1 \<Longrightarrow> frames k (f k1)) \<Longrightarrow> frames k (Option.bind m f)"
  and framesr_bindk [frame]:
  "frames k m \<Longrightarrow> (\<And>k1. core_frame k k1 \<Longrightarrow> framesr k (g k1)) \<Longrightarrow> framesr k (Option.bind m g)"
  by (auto simp: frames_def framesr_def bind_eq_Some_conv)

lemma framesr_bind [frame]:
  "framesr k q \<Longrightarrow> (\<And>r k1. core_frame k k1 \<Longrightarrow> framesr k (g r k1)) \<Longrightarrow> framesr k (Option.bind q (\<lambda>(r, k1). g r k1))"
  and frames_bindr [frame]:
  "framesr k q \<Longrightarrow> (\<And>r k1. core_frame k k1 \<Longrightarrow> frames k (f r k1)) \<Longrightarrow> frames k (Option.bind q (\<lambda>(r, k1). f r k1))"
  by (auto simp: frames_def framesr_def bind_eq_Some_conv)

lemma frames_assert [frame]:
  "(b \<Longrightarrow> frames k (f ())) \<Longrightarrow> frames k (Option.bind (rt_assert b) f)"
  "(b \<Longrightarrow> framesr k (g ())) \<Longrightarrow> framesr k (Option.bind (rt_assert b) g)"
  by (simp_all add: frames_None framesr_None)

lemma frames_trans: "core_frame k k1 \<Longrightarrow> frames k1 m \<Longrightarrow> frames k m"
  and framesr_trans: "core_frame k k1 \<Longrightarrow> framesr k1 q \<Longrightarrow> framesr k q"
  by (auto simp: frames_def framesr_def intro: core_frame_trans)

lemma frames_mod_thread [frame]: "core_frame k k1 \<Longrightarrow> frames k (mod_thread t f k1)"
  and frames_mod_timer [frame]: "core_frame k k1 \<Longrightarrow> frames k (mod_timer r g k1)"
  by (auto simp: frames_def intro: core_frame_trans core_frame_mod_thread core_frame_mod_timer)

lemma core_frame_upd [frame]:
  "core_frame k k1 \<Longrightarrow> core_frame k (k1\<lparr>k_ready_group := g\<rparr>)"
  "core_frame k k1 \<Longrightarrow> core_frame k (k1\<lparr>k_current := c\<rparr>)"
  "core_frame k k1 \<Longrightarrow> core_frame k (k1\<lparr>k_current_priority := p, k_current := c\<rparr>)"
  "core_frame k k1 \<Longrightarrow> core_frame k (k1\<lparr>k_timer_list := TL, k_timer_tmp := tmp\<rparr>)"
  "core_frame k k1 \<Longrightarrow> core_frame k (k1\<lparr>k_timer_list := TL\<rparr>)"
  "core_frame k k1 \<Longrightarrow> core_frame k (k1\<lparr>k_timer_tmp := tmp\<rparr>)"
  "core_frame k k1 \<Longrightarrow> core_frame k (tlist_remove t k1)"
  "core_frame k k1 \<Longrightarrow> core_frame k (tlist_insert_before (Ready q) t k1)"
  by (erule core_frame_trans, rule core_frame_fields core_frame_tlist_remove core_frame_ready)+

lemma core_frame_if [frame]:
  "(b \<Longrightarrow> core_frame k k1) \<Longrightarrow> (\<not> b \<Longrightarrow> core_frame k k2) \<Longrightarrow> core_frame k (if b then k1 else k2)"
  by simp

lemma frames_case_prod [frame]:
  "(\<And>a b. p = (a, b) \<Longrightarrow> frames k (f a b)) \<Longrightarrow> frames k (case p of (a, b) \<Rightarrow> f a b)"
  "(\<And>a b. p = (a, b) \<Longrightarrow> framesr k (g a b)) \<Longrightarrow> framesr k (case p of (a, b) \<Rightarrow> g a b)"
  by (simp_all split: prod.split)

lemma frames_case_option [frame]:
  "frames k m \<Longrightarrow> (\<And>a. p = Some a \<Longrightarrow> frames k (f a)) \<Longrightarrow> frames k (case p of None \<Rightarrow> m | Some a \<Rightarrow> f a)"
  "framesr k q \<Longrightarrow> (\<And>a. p = Some a \<Longrightarrow> framesr k (g a)) \<Longrightarrow> framesr k (case p of None \<Rightarrow> q | Some a \<Rightarrow> g a)"
  by (simp_all split: option.split)

declare core_frame_refl [frame]

end
