(* ===== verification/SampleKernel.thy ===== *)
theory SampleKernel
  imports KState
begin

text \<open>
  A concrete state of the kernel, in which every kind of wait occurs, and the proof that it satisfies the
  invariant.  The theorems about kernel operations are applied to it.

  Thread 10 runs at priority 10 and holds mutex 201; thread 2 is ready at the same priority, thread 8 is ready at
  priority 20 and holds mutex 202, thread 9 is the idle thread.  Thread 3 waits for semaphore 100 with a timeout
  at tick 105, thread 4 for mutex 201, thread 5 for the flags 2 and 4 of event 300, thread 6 for a mail of
  mailbox 400, thread 7 for a message of queue 500, and thread 11 has not been started.
\<close>

definition sample_object :: "u8 \<Rightarrow> u8 \<Rightarrow> rt_object" where
  "sample_object type flag = \<lparr>ob_name = [97, 0, 0, 0, 0, 0, 0, 0], ob_type = type, ob_flag = flag\<rparr>"

definition sample_thread :: "u8 \<Rightarrow> nat \<Rightarrow> rt_thread" where
  "sample_thread st p = \<lparr>th_parent = sample_object 0x81 0, th_entry = 0, th_parameter = 0, th_stack_addr = 0,
     th_stack_size = 1024, th_error = 0, th_stat = st, th_current_priority = of_nat p, th_init_priority = of_nat p,
     th_number_mask = push_bit p 1, th_event_set = 6, th_event_info = 5, th_init_tick = 10, th_remaining_tick = 3,
     th_cleanup = None, th_user_data = 0\<rparr>"

definition sample_timer :: "u8 \<Rightarrow> nat \<Rightarrow> rt_timer" where
  "sample_timer flag t = \<lparr>tm_parent = sample_object 0x8a flag, tm_timeout_func = Rt_thread_timeout, tm_parameter = t,
     tm_init_tick = 50, tm_timeout_tick = 105\<rparr>"

definition sample_table :: "(nat \<times> u8 \<times> nat) list" where
  "sample_table =
     [(10, RT_THREAD_RUNNING, 10), (2, RT_THREAD_READY, 10), (3, RT_THREAD_SUSPEND, 5), (4, RT_THREAD_SUSPEND, 12),
      (5, RT_THREAD_SUSPEND, 8), (6, RT_THREAD_SUSPEND, 9), (7, RT_THREAD_SUSPEND, 7), (8, RT_THREAD_READY, 20),
      (9, RT_THREAD_READY, 31), (11, RT_THREAD_INIT, 20)]"

definition sample_threads :: "nat \<rightharpoonup> rt_thread" where
  "sample_threads t = map_option (\<lambda>(st, p). sample_thread st p) (map_of sample_table t)"

definition sample_lists :: "lhead \<Rightarrow> nat list" where
  "sample_lists h = (case h of
     Ready p \<Rightarrow> if p = 10 then [2] else if p = 20 then [8] else if p = 31 then [9] else []
   | SemQ s \<Rightarrow> if s = 100 then [3] else []
   | MutexQ m \<Rightarrow> if m = 201 then [4] else []
   | EventQ e \<Rightarrow> if e = 300 then [5] else []
   | MbQ b \<Rightarrow> if b = 400 then [6] else []
   | MqQ q \<Rightarrow> if q = 500 then [7] else []
   | _ \<Rightarrow> [])"

definition sample_timers :: "timer_ref \<rightharpoonup> rt_timer" where
  "sample_timers r = (case r of
     Thread_timer t \<Rightarrow> if sample_threads t = None then None else Some (sample_timer (if t = 3 then 1 else 0) t)
   | Timer n \<Rightarrow> None)"

definition sample_mutex :: "nat option \<Rightarrow> nat \<Rightarrow> rt_mutex" where
  "sample_mutex owner p = \<lparr>mu_parent = sample_object 0x83 1, mu_value = (if owner = None then 1 else 0),
     mu_original_priority = of_nat p, mu_hold = (if owner = None then 0 else 1), mu_owner = owner\<rparr>"

definition sample_mailbox :: "u32 list \<Rightarrow> rt_mailbox" where
  "sample_mailbox vs = \<lparr>mb_parent = sample_object 0x85 0, mb_msg_pool = vs @ replicate (4 - length vs) 0,
     mb_pool_addr = 0, mb_size = 4, mb_entry = of_nat (length vs), mb_in_offset = of_nat (length vs) mod 4,
     mb_out_offset = 0\<rparr>"

definition sample_kernel :: kernel where
  "sample_kernel = \<lparr>k_threads = sample_threads, k_lists = sample_lists,
     k_ready_group = push_bit 10 1 OR push_bit 20 1 OR push_bit 31 1, k_current = Some 10, k_current_priority = 10,
     k_lock_nest = 0, k_irq_nest = 0, k_tick = 100, k_timers = sample_timers, k_timer_list = [Thread_timer 3],
     k_timer_tmp = [], k_objects = (\<lambda>_. []),
     k_sems = [100 \<mapsto> \<lparr>sem_parent = sample_object 0x82 0, sem_value = 0\<rparr>,
               101 \<mapsto> \<lparr>sem_parent = sample_object 0x82 1, sem_value = 5\<rparr>],
     k_mutexes = [200 \<mapsto> sample_mutex None 255, 201 \<mapsto> sample_mutex (Some 10) 10, 202 \<mapsto> sample_mutex (Some 8) 20],
     k_events = [300 \<mapsto> \<lparr>ev_parent = sample_object 0x84 0, ev_set = 1\<rparr>],
     k_mbs = [400 \<mapsto> sample_mailbox [], 401 \<mapsto> sample_mailbox [7, 8], 402 \<mapsto> sample_mailbox [1, 2, 3, 4]],
     k_mqs = Map.empty,
     k_heap = \<lparr>hp_ptr = 0, hp_items = Map.empty, hp_size_aligned = 0, hp_end = 0, hp_lfree = 0, hp_used_mem = 0, hp_max_mem = 0\<rparr>,
     k_idle_hooks = replicate 4 None,
     k_devices = Map.empty, k_errno = 0, k_completions = Map.empty, k_data_queues = Map.empty\<rparr>"

section \<open>The sample satisfies the invariant\<close>

lemma sample_threadsD:
  assumes "sample_threads t = Some th"
  obtains st p where "(t, st, p) \<in> set sample_table" and "th = sample_thread st p"
  using assms by (auto simp: sample_threads_def dest: map_of_SomeD)

lemma sample_threads_eq [simp]:
  "sample_threads 10 = Some (sample_thread RT_THREAD_RUNNING 10)" "sample_threads 2 = Some (sample_thread RT_THREAD_READY 10)"
  "sample_threads 3 = Some (sample_thread RT_THREAD_SUSPEND 5)" "sample_threads 4 = Some (sample_thread RT_THREAD_SUSPEND 12)"
  "sample_threads 5 = Some (sample_thread RT_THREAD_SUSPEND 8)" "sample_threads 6 = Some (sample_thread RT_THREAD_SUSPEND 9)"
  "sample_threads 7 = Some (sample_thread RT_THREAD_SUSPEND 7)" "sample_threads 8 = Some (sample_thread RT_THREAD_READY 20)"
  "sample_threads 9 = Some (sample_thread RT_THREAD_READY 31)" "sample_threads 11 = Some (sample_thread RT_THREAD_INIT 20)"
  by (simp_all add: sample_threads_def sample_table_def)

lemma sample_thread_fields [simp]:
  "th_number_mask (sample_thread st p) = push_bit p 1" "thread_stat (sample_thread st p) = st AND RT_THREAD_STAT_MASK"
  "p < 32 \<Longrightarrow> prio (sample_thread st p) = p" "th_init_priority (sample_thread st p) = of_nat p"
  "th_current_priority (sample_thread st p) = of_nat p" "th_parent (sample_thread st p) = sample_object 0x81 0"
  "th_error (sample_thread st p) = 0" "th_event_set (sample_thread st p) = 6" "th_event_info (sample_thread st p) = 5"
  "th_init_tick (sample_thread st p) = 10" "th_remaining_tick (sample_thread st p) = 3"
  "th_cleanup (sample_thread st p) = None" "is_thread_object (sample_thread st p)" "th_stat (sample_thread st p) = st"
  by (simp_all add: sample_thread_def thread_stat_def prio_def is_thread_object_def sample_object_def
      unat_of_nat take_bit_nat_eq_self)

lemma sample_timer_fields [simp]:
  "is_timer_object (sample_timer f t)" "thread_timer_wf t (sample_timer 0 t)" "thread_timer_wf t (sample_timer 1 t)"
  "timer_activated (sample_timer 1 t)" "\<not> timer_activated (sample_timer 0 t)" "\<not> timer_periodic (sample_timer 1 t)"
  "\<not> timer_periodic (sample_timer 0 t)" "tm_timeout_tick (sample_timer f t) = 105" "tm_init_tick (sample_timer f t) = 50"
  by (simp_all add: sample_timer_def sample_object_def is_timer_object_def thread_timer_wf_def timer_activated_def
      timer_periodic_def timer_static_def)

lemma sample_thread_wf: "sample_threads t = Some th \<Longrightarrow> thread_wf th"
  by (erule sample_threadsD) (auto simp: sample_table_def thread_wf_def)

lemma sample_lists_Ready: "sample_lists (Ready p) \<noteq> [] \<longleftrightarrow> p = 10 \<or> p = 20 \<or> p = 31"
  by (simp add: sample_lists_def)

lemma sample_linv: "linv {} sample_lists (push_bit 10 1 OR push_bit 20 1 OR push_bit 31 1) sample_threads"
  unfolding linv_def
proof (intro conjI allI ballI impI)
  show "lists_wf sample_lists" by (auto simp: lists_wf_def sample_lists_def split: lhead.splits if_splits)
  have "bit (push_bit 10 1 OR push_bit 20 1 OR push_bit 31 1 :: u32) p \<longleftrightarrow> p = 10 \<or> p = 20 \<or> p = 31" for p
    by (auto simp: bit_or_iff bit_shifted_one simp del: push_bit_of_1)
  then show "ready_ok sample_lists (push_bit 10 1 OR push_bit 20 1 OR push_bit 31 1)"
    by (simp only: ready_ok_def sample_lists_Ready) simp
next
  fix h t assume "t \<in> set (sample_lists h)"
  then show "\<exists>th. sample_threads t = Some th \<and> member_ok h th"
    by (auto simp: sample_lists_def member_ok_def split: lhead.splits if_splits)
next
  fix t th assume t: "sample_threads t = Some th"
  show "thread_wf th" using t by (rule sample_thread_wf)
  show "t \<in> set (sample_lists (Ready (prio th)))" if "thread_stat th = RT_THREAD_READY"
    using t that by (elim sample_threadsD) (auto simp: sample_table_def sample_lists_def)
qed simp

lemma sample_cinv: "cinv {} (Some 10) sample_threads"
  unfolding cinv_def by (auto elim!: sample_threadsD simp: sample_table_def)

lemma sample_tinv: "tinv {} sample_timers [Thread_timer 3] [] sample_threads"
  unfolding tinv_def
  by (auto simp: sample_timers_def listed_ok_def split: timer_ref.splits if_splits)

lemma sample_kinv [simp]: "kinv sample_kernel"
  by (simp only: kinvx_def sample_kernel_def kernel.select_convs sample_linv sample_cinv sample_tinv simp_thms)

lemma sample_kernel_fields [simp]:
  "k_threads sample_kernel = sample_threads" "k_lists sample_kernel = sample_lists" "k_current sample_kernel = Some 10"
  "k_lock_nest sample_kernel = 0" "k_irq_nest sample_kernel = 0" "k_tick sample_kernel = 100"
  "k_timers sample_kernel = sample_timers" "k_timer_list sample_kernel = [Thread_timer 3]" "k_timer_tmp sample_kernel = []"
  "k_ready_group sample_kernel = push_bit 10 1 OR push_bit 20 1 OR push_bit 31 1"
  by (simp_all add: sample_kernel_def)

text \<open>The same state after thread 10 has asked for a switch to its equals.\<close>

definition sample_yield :: kernel where
  "sample_yield = sample_kernel\<lparr>k_threads := sample_threads(10 \<mapsto> sample_thread (RT_THREAD_RUNNING OR RT_THREAD_STAT_YIELD) 10)\<rparr>"

lemma sample_yield_kinv [simp]: "kinv sample_yield"
  using kinvx_upd_same [OF sample_kinv, of 10 "sample_thread RT_THREAD_RUNNING 10"
      "sample_thread (RT_THREAD_RUNNING OR RT_THREAD_STAT_YIELD) 10"]
  by (simp add: sample_yield_def same_sched_def)

lemma sample_yield_fields [simp]:
  "k_threads sample_yield = sample_threads(10 \<mapsto> sample_thread (RT_THREAD_RUNNING OR RT_THREAD_STAT_YIELD) 10)"
  "k_lists sample_yield = sample_lists" "k_current sample_yield = Some 10" "k_lock_nest sample_yield = 0"
  by (simp_all add: sample_yield_def)

end
