(* ===== verification/Scheduler.thy ===== *)
theory Scheduler
  imports SampleKernel
begin

text \<open>
  The scheduler of \<^verbatim>\<open>scheduler.c\<close> (one core): the choice of the highest ready priority, insertion into and
  removal from the ready queues, \<^verbatim>\<open>rt_schedule\<close> and the scheduler lock.  \<open>k_current\<close> is
  \<^verbatim>\<open>rt_current_thread\<close> (\<open>None\<close> before the scheduler is started), \<open>k_lock_nest\<close> is the signed 16-bit
  \<^verbatim>\<open>rt_scheduler_lock_nest\<close>.  Switching the machine context has no effect on this state: after
  \<^verbatim>\<open>rt_schedule\<close> the thread in \<open>k_current\<close> is the one that continues.
\<close>

section \<open>The operations\<close>

definition get_highest_priority_thread :: "kernel \<Rightarrow> (nat \<times> nat) option" where
  "get_highest_priority_thread k =
     (let highest_ready_priority = rt_ffs (k_ready_group k) - 1
      in case k_lists k (Ready highest_ready_priority) of
           t # _ \<Rightarrow> Some (t, highest_ready_priority)
         | [] \<Rightarrow> None)"

definition rt_system_scheduler_init :: "kernel \<Rightarrow> kernel" where
  "rt_system_scheduler_init k =
     k\<lparr>k_lock_nest := 0,
       k_lists := (\<lambda>h. case h of Ready p \<Rightarrow> if p < RT_THREAD_PRIORITY_MAX then [] else k_lists k h
                              | _ \<Rightarrow> k_lists k h),
       k_ready_group := 0\<rparr>"

definition rt_schedule_insert_thread :: "nat \<Rightarrow> kernel \<Rightarrow> kernel option" where
  "rt_schedule_insert_thread t k =
     (if k_current k = Some t then mod_thread t (set_stat RT_THREAD_RUNNING) k
      else do {
        k \<leftarrow> mod_thread t (set_stat RT_THREAD_READY) k;
        th \<leftarrow> get_thread t k;
        rt_assert (prio th < RT_THREAD_PRIORITY_MAX);
        k \<leftarrow> Some (tlist_insert_before (Ready (prio th)) t k);
        Some (k\<lparr>k_ready_group := k_ready_group k OR th_number_mask th\<rparr>)
      })"

definition rt_schedule_remove_thread :: "nat \<Rightarrow> kernel \<Rightarrow> kernel option" where
  "rt_schedule_remove_thread t k = do {
     th \<leftarrow> get_thread t k;
     k \<leftarrow> Some (tlist_remove t k);
     rt_assert (prio th < RT_THREAD_PRIORITY_MAX);
     Some (if tlist_isempty (Ready (prio th)) k
           then k\<lparr>k_ready_group := k_ready_group k AND NOT (th_number_mask th)\<rparr> else k)
   }"

definition rt_system_scheduler_start :: "kernel \<Rightarrow> kernel option" where
  "rt_system_scheduler_start k = do {
     (to_thread, _) \<leftarrow> get_highest_priority_thread k;
     k \<leftarrow> Some (k\<lparr>k_current := Some to_thread\<rparr>);
     k \<leftarrow> rt_schedule_remove_thread to_thread k;
     mod_thread to_thread (\<lambda>th. th\<lparr>th_stat := RT_THREAD_RUNNING\<rparr>) k
   }"

text \<open>The decision of \<^verbatim>\<open>rt_schedule\<close> for a running thread: keep it, or put it back into the ready queue.\<close>

definition keeps_running :: "rt_thread \<Rightarrow> nat \<Rightarrow> bool" where
  "keeps_running cur highest_ready_priority \<longleftrightarrow>
     prio cur < highest_ready_priority \<or>
     prio cur = highest_ready_priority \<and> th_stat cur AND RT_THREAD_STAT_YIELD = 0"

definition clear_yield :: "rt_thread \<Rightarrow> rt_thread" where
  "clear_yield th = th\<lparr>th_stat := th_stat th AND NOT RT_THREAD_STAT_YIELD\<rparr>"

definition rt_schedule :: "kernel \<Rightarrow> kernel option" where
  "rt_schedule k =
     (if k_lock_nest k = 0 \<and> k_ready_group k \<noteq> 0 then do {
        (first, highest) \<leftarrow> get_highest_priority_thread k;
        cur \<leftarrow> k_current k;
        cth \<leftarrow> get_thread cur k;
        running \<leftarrow> Some (thread_stat cth = RT_THREAD_RUNNING);
        to_thread \<leftarrow> Some (if running \<and> keeps_running cth highest then cur else first);
        need_insert_from_thread \<leftarrow> Some (running \<and> \<not> keeps_running cth highest);
        k \<leftarrow> (if running then mod_thread cur clear_yield k else Some k);
        if to_thread \<noteq> cur then do {
          k \<leftarrow> Some (k\<lparr>k_current_priority := of_nat highest, k_current := Some to_thread\<rparr>);
          k \<leftarrow> (if need_insert_from_thread then rt_schedule_insert_thread cur k else Some k);
          k \<leftarrow> rt_schedule_remove_thread to_thread k;
          mod_thread to_thread (set_stat RT_THREAD_RUNNING) k
        }
        else do {
          k \<leftarrow> rt_schedule_remove_thread cur k;
          mod_thread cur (set_stat RT_THREAD_RUNNING) k
        }
      }
      else Some k)"

definition rt_enter_critical :: "kernel \<Rightarrow> kernel" where
  "rt_enter_critical k = k\<lparr>k_lock_nest := k_lock_nest k + 1\<rparr>"

definition rt_exit_critical :: "kernel \<Rightarrow> kernel option" where
  "rt_exit_critical k =
     (let k = k\<lparr>k_lock_nest := k_lock_nest k - 1\<rparr>
      in if sint (k_lock_nest k) \<le> 0 then
           (let k = k\<lparr>k_lock_nest := 0\<rparr>
            in if k_current k \<noteq> None then rt_schedule k else Some k)
         else Some k)"

definition rt_critical_level :: "kernel \<Rightarrow> u16" where
  "rt_critical_level k = k_lock_nest k"

section \<open>Rules for the elementary operations\<close>

lemma mod_thread_eq [kstep]:
  "k_threads k t = Some th \<Longrightarrow> mod_thread t f k = Some (k\<lparr>k_threads := (k_threads k)(t \<mapsto> f th)\<rparr>)"
  by (simp add: mod_thread_def)

lemma insert_thread_ready:
  assumes i: "kinvx (insert t X) k" and t: "k_threads k t = Some th" and l: "live th"
    and c: "k_current k \<noteq> Some t" and o: "own_timer (k_timers k) t"
    and n: "Thread_timer t \<notin> set (k_timer_list k)"
  defines "k' \<equiv> k\<lparr>k_threads := (k_threads k)(t \<mapsto> set_stat RT_THREAD_READY th),
                  k_lists := lists_insert_before (Ready (prio th)) t (k_lists k),
                  k_ready_group := k_ready_group k OR th_number_mask th\<rparr>"
  shows "rt_schedule_insert_thread t k = Some k'" and "kinvx (X - {t}) k'"
proof -
  let ?th = "set_stat RT_THREAD_READY th"
  have "prio th < 32" using l by (simp add: live_def)
  then show "rt_schedule_insert_thread t k = Some k'"
    using t c by (simp add: rt_schedule_insert_thread_def mod_thread_def get_thread_def tlist_insert_before_def k'_def)
  have u: "linv (insert t X) (k_lists k) (k_ready_group k) ((k_threads k)(t \<mapsto> ?th))"
    "cinv (insert t X) (k_current k) ((k_threads k)(t \<mapsto> ?th))"
    "tinv (insert t X) (k_timers k) (k_timer_list k) (k_timer_tmp k) ((k_threads k)(t \<mapsto> ?th))"
    using i by (simp_all add: kinvx_def linv_upd_X cinv_upd_X tinv_upd_X)
  have "linv (X - {t}) (lists_insert_before (Ready (prio ?th)) t (k_lists k))
      (k_ready_group k OR th_number_mask ?th) ((k_threads k)(t \<mapsto> ?th))"
    by (rule linv_ready [OF u(1)]) (use l in \<open>simp_all add: live_wf\<close>)
  moreover have "cinv (X - {t}) (k_current k) ((k_threads k)(t \<mapsto> ?th))"
    by (rule cinv_settle [OF u(2), where th = ?th]) (use c in simp_all)
  moreover have "tinv (X - {t}) (k_timers k) (k_timer_list k) (k_timer_tmp k) ((k_threads k)(t \<mapsto> ?th))"
    by (rule tinv_settle [OF u(3), where th = ?th]) (use n o in simp_all)
  ultimately show "kinvx (X - {t}) k'" by (simp add: kinvx_def k'_def)
qed

lemma insert_thread_current:
  assumes i: "kinvx (insert t X) k" and t: "k_threads k t = Some th" and l: "live th"
    and c: "k_current k = Some t" and o: "own_timer (k_timers k) t"
    and n: "Thread_timer t \<notin> set (k_timer_list k)"
  defines "k' \<equiv> k\<lparr>k_threads := (k_threads k)(t \<mapsto> set_stat RT_THREAD_RUNNING th)\<rparr>"
  shows "rt_schedule_insert_thread t k = Some k'" and "kinvx (X - {t}) k'"
proof -
  show "rt_schedule_insert_thread t k = Some k'"
    using t c by (simp add: rt_schedule_insert_thread_def mod_thread_def k'_def)
  have "kinvx (insert t X) k'" unfolding k'_def by (rule kinvx_upd_X [OF i]) simp
  then show "kinvx (X - {t}) k'"
    by (rule kinvx_settle [where th = "set_stat RT_THREAD_RUNNING th"])
      (use l c o n in \<open>simp_all add: k'_def live_wf\<close>)
qed

definition removed_group :: "nat \<Rightarrow> rt_thread \<Rightarrow> kernel \<Rightarrow> u32" where
  "removed_group t th k =
     (if lists_remove t (k_lists k) (Ready (prio th)) = []
      then k_ready_group k AND NOT (th_number_mask th) else k_ready_group k)"

lemma remove_thread:
  assumes i: "kinvx X k" and t: "k_threads k t = Some th" and l: "prio th < 32" "th_number_mask th = push_bit (prio th) 1"
  defines "k' \<equiv> k\<lparr>k_lists := lists_remove t (k_lists k), k_ready_group := removed_group t th k\<rparr>"
  shows "rt_schedule_remove_thread t k = Some k'" and "kinvx (insert t X) k'"
proof -
  show "rt_schedule_remove_thread t k = Some k'"
    using t l by (simp add: rt_schedule_remove_thread_def get_thread_def tlist_remove_def tlist_isempty_def
        removed_group_def k'_def)
  have "linv (insert t X) (lists_remove t (k_lists k)) (removed_group t th k) (k_threads k)"
    unfolding removed_group_def by (rule linv_unready) (use i t l in \<open>simp_all add: kinvx_def\<close>)
  then show "kinvx (insert t X) k'"
    using i by (simp add: kinvx_def k'_def cinv_leave tinv_leave)
qed

text \<open>The highest ready priority, as the bit scan finds it.\<close>

definition highest_ready :: "kernel \<Rightarrow> nat \<Rightarrow> bool" where
  "highest_ready k p \<longleftrightarrow> k_lists k (Ready p) \<noteq> [] \<and> (\<forall>q < p. k_lists k (Ready q) = [])"

lemma get_highest_priority_thread_eq:
  assumes "kinvx X k" and "k_ready_group k \<noteq> 0"
  obtains p where "highest_ready k p" and "p < 32"
    and "get_highest_priority_thread k = Some (hd (k_lists k (Ready p)), p)"
proof -
  let ?p = "rt_ffs (k_ready_group k) - 1"
  have b: "bit (k_ready_group k) q \<longleftrightarrow> k_lists k (Ready q) \<noteq> []" for q
    using assms(1) ready_okD linvD(2) unfolding kinvx_def by blast
  have "highest_ready k ?p"
    unfolding highest_ready_def using rt_ffs_least(2,3) [OF assms(2)] b by blast
  then have "get_highest_priority_thread k = Some (hd (k_lists k (Ready ?p)), ?p)"
    by (auto simp: get_highest_priority_thread_def highest_ready_def Let_def split: list.splits)
  with \<open>highest_ready k ?p\<close> rt_ffs_bound [OF assms(2)] that show ?thesis by blast
qed

lemma ready_group_nonzero:
  assumes "kinvx X k" and "t \<in> set (k_lists k (Ready p))"
  shows "k_ready_group k \<noteq> 0"
proof -
  have "bit (k_ready_group k) p"
    using assms ready_okD linvD(2) unfolding kinvx_def by fastforce
  then show ?thesis by auto
qed

section \<open>rt_schedule\<close>

lemma thread_stat_clear_yield [simp]: "thread_stat (clear_yield th) = thread_stat th"
proof -
  have "(x AND NOT 0x08) AND 0x07 = x AND (0x07 :: u8)" for x
    by (simp only: and.assoc) simp
  then show ?thesis by (simp add: thread_stat_def clear_yield_def)
qed

lemma clear_yield_sched: "same_sched th (clear_yield th)"
  by (simp add: same_sched_def prio_def) (simp add: clear_yield_def)

lemma prio_clear_yield [simp]: "prio (clear_yield th) = prio th"
  by (simp add: prio_def clear_yield_def)

lemma live_clear_yield [simp]: "live (clear_yield th) = live th"
  by (rule same_sched_live [OF clear_yield_sched])

lemma number_mask_clear_yield [simp]: "th_number_mask (clear_yield th) = th_number_mask th"
  by (simp add: clear_yield_def)

text \<open>The thread that is switched to leaves its queue and runs.\<close>

definition dispatch :: "nat \<Rightarrow> rt_thread \<Rightarrow> kernel \<Rightarrow> kernel" where
  "dispatch t th k = k\<lparr>k_lists := lists_remove t (k_lists k), k_ready_group := removed_group t th k,
     k_threads := (k_threads k)(t \<mapsto> set_stat RT_THREAD_RUNNING th)\<rparr>"

lemma dispatch_eq:
  assumes "kinvx X k" and "k_threads k t = Some th" and "live th"
  shows "Option.bind (rt_schedule_remove_thread t k) (mod_thread t (set_stat RT_THREAD_RUNNING))
    = Some (dispatch t th k)"
  using remove_thread(1) [OF assms(1,2)] assms(2,3) by (simp add: live_def dispatch_def mod_thread_def)

lemma dispatch_kinvx:
  assumes i: "kinvx X k" and t: "k_threads k t = Some th" and l: "live th"
    and c: "k_current k = Some t" and o: "own_timer (k_timers k) t"
    and n: "Thread_timer t \<notin> set (k_timer_list k)"
  shows "kinvx (X - {t}) (dispatch t th k)"
proof -
  have "kinvx (insert t X) (k\<lparr>k_lists := lists_remove t (k_lists k), k_ready_group := removed_group t th k\<rparr>)"
    by (rule remove_thread(2) [OF i t]) (use l in \<open>simp_all add: live_def\<close>)
  then have "kinvx (insert t X) (dispatch t th k)"
    unfolding dispatch_def using kinvx_upd_X [of "insert t X" _ t "set_stat RT_THREAD_RUNNING th"] by fastforce
  then show ?thesis
    by (rule kinvx_settle [where th = "set_stat RT_THREAD_RUNNING th"])
      (use l c o n in \<open>simp_all add: dispatch_def live_wf\<close>)
qed

lemma dispatch_switch:
  assumes L: "linv X L g T" and C: "cinv X cur T0" and M: "tinv X M TL tmp T"
    and t: "T t = Some tth" "thread_stat tth = RT_THREAD_READY"
    and o: "\<And>u. u \<noteq> t \<Longrightarrow> T u = T0 u \<or> (\<exists>v. T u = Some v \<and> thread_stat v \<noteq> RT_THREAD_RUNNING)"
    and c: "cur = Some c" "\<exists>v. T c = Some v \<and> thread_stat v \<noteq> RT_THREAD_RUNNING"
    and tX: "t \<notin> X" and cX: "c \<notin> X"
  defines "L' \<equiv> lists_remove t L" and "T' \<equiv> T(t \<mapsto> set_stat RT_THREAD_RUNNING tth)"
  shows "linv X L' (if L' (Ready (prio tth)) = [] then g AND NOT (th_number_mask tth) else g) T'"
    and "cinv X (Some t) T'" and "tinv X M TL tmp T'"
proof -
  let ?r = "set_stat RT_THREAD_RUNNING tth"
  have l: "live tth" using thread_wf_live [OF linvD(5) [OF L t(1) tX]] t by simp
  have ot: "own_timer M t" by (rule tinv_own_timer [OF M t(1)]) (use t tX in simp_all)
  have nt: "Thread_timer t \<notin> set TL" using tinvD(4) [OF M _ tX] t by auto
  have "linv (insert t X) L' (if L' (Ready (prio tth)) = [] then g AND NOT (th_number_mask tth) else g) T"
    unfolding L'_def by (rule linv_unready [OF L t(1)]) (use l in \<open>simp_all add: live_def\<close>)
  then have "linv (insert t X) L' (if L' (Ready (prio tth)) = [] then g AND NOT (th_number_mask tth) else g) T'"
    unfolding T'_def by (rule linv_upd_X) simp
  then have "linv (X - {t}) L' (if L' (Ready (prio tth)) = [] then g AND NOT (th_number_mask tth) else g) T'"
    by (rule linv_settle [where th = ?r]) (use l in \<open>simp_all add: T'_def live_wf\<close>)
  then show "linv X L' (if L' (Ready (prio tth)) = [] then g AND NOT (th_number_mask tth) else g) T'"
    using tX by (simp split: if_splits)
  have "tinv (insert t X) M TL tmp T'"
    unfolding T'_def by (rule tinv_upd_X [OF tinv_leave [OF M]]) simp
  then have "tinv (X - {t}) M TL tmp T'"
    by (rule tinv_settle [where th = ?r]) (use ot nt in \<open>simp_all add: T'_def\<close>)
  then show "tinv X M TL tmp T'" using tX by simp
  show "cinv X (Some t) T'"
  proof (rule cinvI)
    show "Some t = Some u" if "T' u = Some v" "u \<notin> X" "thread_stat v = RT_THREAD_RUNNING" for u v
    proof (rule ccontr)
      assume "Some t \<noteq> Some u"
      then have "u \<noteq> t" by simp
      then have "T u = Some v" using that by (simp add: T'_def)
      then have "T0 u = Some v" using o [OF \<open>u \<noteq> t\<close>] that(3) by auto
      then have "u = c" using cinvD(3) [OF C _ that(2,3)] c(1) by simp
      then show False using c(2) \<open>T u = Some v\<close> that(3) by simp
    qed
  qed (auto simp: T'_def)
qed

text \<open>What \<open>rt_schedule\<close> does when it keeps the current thread, and when it switches.\<close>

lemma rt_schedule_idle: "k_lock_nest k \<noteq> 0 \<or> k_ready_group k = 0 \<Longrightarrow> rt_schedule k = Some k"
  by (auto simp: rt_schedule_def)

lemma rt_schedule_keep:
  assumes i: "kinvx X k" and c: "k_current k = Some c" "k_threads k c = Some th" and cX: "c \<notin> X"
    and g: "k_lock_nest k = 0" "k_ready_group k \<noteq> 0"
    and p: "highest_ready k p" "get_highest_priority_thread k = Some (t, p)"
    and r: "thread_stat th = RT_THREAD_RUNNING" "keeps_running th p"
  defines "k' \<equiv> dispatch c (clear_yield th) (k\<lparr>k_threads := (k_threads k)(c \<mapsto> clear_yield th)\<rparr>)"
  shows "rt_schedule k = Some k'" and "kinvx X k'" and "k_current k' = Some c" and "k_lists k' = k_lists k"
proof -
  let ?k = "k\<lparr>k_threads := (k_threads k)(c \<mapsto> clear_yield th)\<rparr>"
  have l: "live th" "own_timer (k_timers k) c" using kinvx_live [OF i c(2) cX] r by simp_all
  have i': "kinvx X ?k" by (rule kinvx_upd_same [OF i c(2) clear_yield_sched])
  have n: "Thread_timer c \<notin> set (k_timer_list k)"
    using tinvD(4) [of X "k_timers k" "k_timer_list k" "k_timer_tmp k" "k_threads k" c] i c r cX
    by (auto simp: kinvx_def)
  have "rt_schedule k = Option.bind (rt_schedule_remove_thread c ?k) (mod_thread c (set_stat RT_THREAD_RUNNING))"
    using c g p r by (simp add: rt_schedule_def get_thread_def mod_thread_def)
  also have "\<dots> = Some k'" unfolding k'_def by (rule dispatch_eq [OF i']) (use l in simp_all)
  finally show "rt_schedule k = Some k'" .
  have "kinvx (X - {c}) k'" unfolding k'_def by (rule dispatch_kinvx [OF i']) (use l n c in simp_all)
  then show "kinvx X k'" using cX by simp
  show "k_current k' = Some c" using c by (simp add: k'_def dispatch_def)
  have "\<And>h. c \<notin> set (k_lists k h)"
    using linv_not_on_list [of X "k_lists k" "k_ready_group k" "k_threads k", OF _ c(2)] i r
    by (simp add: kinvx_def)
  then show "k_lists k' = k_lists k" by (simp add: k'_def dispatch_def lists_remove_notin)
qed

lemma rt_schedule_switch:
  assumes i: "kinvx X k" and c: "k_current k = Some c" "k_threads k c = Some th" and cX: "c \<notin> X"
    and g: "k_lock_nest k = 0" "k_ready_group k \<noteq> 0"
    and p: "highest_ready k p" "get_highest_priority_thread k = Some (t, p)"
    and r: "\<not> (thread_stat th = RT_THREAD_RUNNING \<and> keeps_running th p)"
  obtains k1 k' tth where "rt_schedule k = Some k'" and "kinvx X k'" and "k_current k' = Some t"
    and "k_threads k t = Some tth" and "thread_stat tth = RT_THREAD_READY" and "prio tth = p" and "t \<noteq> c"
    and "k_lists k1 = (if thread_stat th = RT_THREAD_RUNNING
           then lists_insert_before (Ready (prio th)) c (k_lists k) else k_lists k)"
    and "k_threads k1 = (if thread_stat th = RT_THREAD_RUNNING
           then (k_threads k)(c \<mapsto> set_stat RT_THREAD_READY (clear_yield th)) else k_threads k)"
    and "k_timers k1 = k_timers k" and "k_timer_list k1 = k_timer_list k" and "k_timer_tmp k1 = k_timer_tmp k"
    and "k' = dispatch t tth k1"
proof -
  have ki: "linv X (k_lists k) (k_ready_group k) (k_threads k)" "cinv X (k_current k) (k_threads k)"
    "tinv X (k_timers k) (k_timer_list k) (k_timer_tmp k) (k_threads k)"
    using i by (simp_all add: kinvx_def)
  have t: "t \<in> set (k_lists k (Ready p))"
    using get_highest_priority_thread_eq [OF i g(2)] p(2) by (metis highest_ready_def list.set_sel(1) option.inject prod.inject)
  then obtain tth where tth: "k_threads k t = Some tth" "thread_stat tth = RT_THREAD_READY" "prio tth = p"
    using linvD(4) [OF ki(1) t] by (auto simp: member_stat)
  have tX: "t \<notin> X" by (rule linvD(3) [OF ki(1) t])
  have tc: "t \<noteq> c" using cinvD(2) [OF ki(2)] c tth cX by auto
  have lt: "live tth" "own_timer (k_timers k) t" using kinvx_live [OF i tth(1) tX] tth by simp_all
  have nt: "Thread_timer t \<notin> set (k_timer_list k)" using tinvD(4) [OF ki(3) _ tX] tth by auto
  let ?cur = "\<lambda>k. k\<lparr>k_current_priority := of_nat p, k_current := Some t\<rparr>"
  note sw = dispatch_switch [where cur = "k_current k" and ?T0.0 = "k_threads k" and tth = tth and t = t and c = c]
  show thesis
  proof (cases "thread_stat th = RT_THREAD_RUNNING")
    case False
    let ?k = "?cur k"
    have "kinvx X (dispatch t tth ?k)"
      using sw [OF ki tth(1,2)] c False tX cX unfolding kinvx_def dispatch_def removed_group_def
      by (simp split: if_splits)
    moreover have "rt_schedule k = Some (dispatch t tth ?k)"
      using c g p False tth tc lt
      by (simp add: rt_schedule_def get_thread_def mod_thread_def rt_schedule_remove_thread_def live_def
          tlist_remove_def tlist_isempty_def dispatch_def removed_group_def)
    ultimately show thesis
      by (intro that [of "dispatch t tth ?k" tth ?k]) (use tth tc False in \<open>simp_all add: dispatch_def\<close>)
  next
    case True
    let ?T1 = "(k_threads k)(c \<mapsto> set_stat RT_THREAD_READY (clear_yield th))"
    let ?k = "(?cur k)\<lparr>k_threads := ?T1, k_lists := lists_insert_before (Ready (prio th)) c (k_lists k),
       k_ready_group := k_ready_group k OR th_number_mask th\<rparr>"
    have lc: "live th" "own_timer (k_timers k) c" using kinvx_live [OF i c(2) cX] True by simp_all
    have nc: "Thread_timer c \<notin> set (k_timer_list k)" using tinvD(4) [OF ki(3) _ cX] c True by auto
    have out: "\<And>h. c \<notin> set (k_lists k h)"
      using linv_not_on_list [OF ki(1) c(2)] True by simp
    have "linv (insert c X) (k_lists k) (k_ready_group k) (k_threads k)"
      using linv_leave [OF ki(1) c(2)] out True by (simp add: lists_remove_notin)
    then have "linv (insert c X) (k_lists k) (k_ready_group k) ?T1" by (rule linv_upd_X) simp
    then have "linv (X - {c}) (k_lists ?k) (k_ready_group ?k) ?T1"
      using linv_ready [where th = "set_stat RT_THREAD_READY (clear_yield th)" and t = c and X = X] lc
      by (simp add: live_wf)
    moreover have "tinv (insert c X) (k_timers k) (k_timer_list k) (k_timer_tmp k) ?T1"
      by (rule tinv_upd_X [OF tinv_leave [OF ki(3)]]) simp
    then have "tinv (X - {c}) (k_timers k) (k_timer_list k) (k_timer_tmp k) ?T1"
      by (rule tinv_settle [where th = "set_stat RT_THREAD_READY (clear_yield th)"]) (use lc nc in simp_all)
    ultimately have "kinvx X (dispatch t tth ?k)"
      using sw [where X = X and T = ?T1] ki(2) c(1) tth(1,2) tc tX cX
      unfolding kinvx_def dispatch_def removed_group_def by (simp split: if_splits)
    moreover have "rt_schedule k = Some (dispatch t tth ?k)"
      using c g p True r tth tc lt lc
      by (simp add: rt_schedule_def get_thread_def mod_thread_def rt_schedule_remove_thread_def live_def
          rt_schedule_insert_thread_def tlist_insert_before_def tlist_remove_def tlist_isempty_def dispatch_def removed_group_def)
    ultimately show thesis
      by (intro that [of "dispatch t tth ?k" tth ?k]) (use tth tc True in \<open>simp_all add: dispatch_def\<close>)
  qed
qed

text \<open>\<open>restat th th'\<close>: the thread is the same but for its state.\<close>

definition restat :: "rt_thread \<Rightarrow> rt_thread \<Rightarrow> bool" where
  "restat th th' \<longleftrightarrow> (\<exists>s. th' = th\<lparr>th_stat := s\<rparr>)"

lemma restat_refl [simp]: "restat th th"
  unfolding restat_def by (rule exI [of _ "th_stat th"]) simp

lemma restat_set_stat [simp]: "restat th (set_stat s th)" "restat th (clear_yield th)"
  "restat th (set_stat s (clear_yield th))"
  unfolding restat_def set_stat_def clear_yield_def by (rule exI, simp)+

lemma restat_trans: "restat a b \<Longrightarrow> restat b c \<Longrightarrow> restat a c"
  by (auto simp: restat_def)

lemma restatD:
  assumes "restat th th'"
  shows "th_parent th' = th_parent th" "th_error th' = th_error th"
    "th_current_priority th' = th_current_priority th" "th_init_priority th' = th_init_priority th"
    "th_number_mask th' = th_number_mask th" "th_event_set th' = th_event_set th"
    "th_event_info th' = th_event_info th" "th_init_tick th' = th_init_tick th"
    "th_remaining_tick th' = th_remaining_tick th" "prio th' = prio th"
  using assms by (auto simp: restat_def prio_def)

text \<open>
  In every case \<open>rt_schedule\<close> returns and keeps the invariant; it changes only the states of ready and
  running threads, and no list but the ready queues.
\<close>

definition sched_rel :: "kernel \<Rightarrow> kernel \<Rightarrow> bool" where
  "sched_rel k k' \<longleftrightarrow> k_timers k' = k_timers k \<and> k_timer_list k' = k_timer_list k \<and>
     k_timer_tmp k' = k_timer_tmp k \<and> (k_current k' = None \<longleftrightarrow> k_current k = None) \<and>
     (\<forall>h. (\<forall>p. h \<noteq> Ready p) \<longrightarrow> k_lists k' h = k_lists k h) \<and>
     (\<forall>t. (k_threads k' t = k_threads k t) \<or>
        (\<exists>th th'. k_threads k t = Some th \<and> k_threads k' t = Some th' \<and> restat th th' \<and>
           thread_stat th \<in> {RT_THREAD_READY, RT_THREAD_RUNNING} \<and>
           thread_stat th' \<in> {RT_THREAD_READY, RT_THREAD_RUNNING}))"

lemma sched_relD:
  assumes "sched_rel k k'"
  shows "k_timers k' = k_timers k" "k_timer_list k' = k_timer_list k" "k_timer_tmp k' = k_timer_tmp k"
    "k_current k' = None \<longleftrightarrow> k_current k = None" "wait_head h \<Longrightarrow> k_lists k' h = k_lists k h"
    "k_lists k' Defunct = k_lists k Defunct"
    "k_threads k t = Some th \<Longrightarrow> thread_stat th \<notin> {RT_THREAD_READY, RT_THREAD_RUNNING} \<Longrightarrow> k_threads k' t = Some th"
    "k_threads k t = None \<Longrightarrow> k_threads k' t = None"
    "k_threads k t = Some th \<Longrightarrow> \<exists>th'. k_threads k' t = Some th' \<and> restat th th'"
proof -
  note a = assms [unfolded sched_rel_def]
  have l: "\<forall>h. (\<forall>p. h \<noteq> Ready p) \<longrightarrow> k_lists k' h = k_lists k h" using a by (elim conjE)
  show "k_timers k' = k_timers k" "k_timer_list k' = k_timer_list k" "k_timer_tmp k' = k_timer_tmp k"
    "k_current k' = None \<longleftrightarrow> k_current k = None"
    by (insert a, (elim conjE, assumption)+)
  show "k_lists k' Defunct = k_lists k Defunct" using l by simp
  show "k_lists k' h = k_lists k h" if "wait_head h"
  proof -
    have "\<forall>p. h \<noteq> Ready p" using that by (cases h) simp_all
    then show ?thesis using l by blast
  qed
  have t: "k_threads k' t = k_threads k t \<or>
      (\<exists>th th'. k_threads k t = Some th \<and> k_threads k' t = Some th' \<and> restat th th' \<and>
         thread_stat th \<in> {RT_THREAD_READY, RT_THREAD_RUNNING})" for t
    using a by blast
  show "k_threads k' t = Some th"
    if "k_threads k t = Some th" "thread_stat th \<notin> {RT_THREAD_READY, RT_THREAD_RUNNING}"
    using t [of t] that by auto
  show "k_threads k' t = None" if "k_threads k t = None" using t [of t] that by auto
  show "\<exists>th'. k_threads k' t = Some th' \<and> restat th th'" if "k_threads k t = Some th"
    using t [of t] that by auto
qed

lemma sched_rel_cases:
  assumes "sched_rel k k'" and "k_threads k t = Some th"
  obtains (same) "k_threads k' t = Some th"
  | (switched) th' where "k_threads k' t = Some th'" and "restat th th'"
      and "thread_stat th' \<in> {RT_THREAD_READY, RT_THREAD_RUNNING}"
proof -
  have "k_threads k' t = k_threads k t \<or> (\<exists>th th'. k_threads k t = Some th \<and> k_threads k' t = Some th' \<and>
      restat th th' \<and> thread_stat th' \<in> {RT_THREAD_READY, RT_THREAD_RUNNING})"
    using assms(1) unfolding sched_rel_def by blast
  then show thesis using assms(2) same switched by auto
qed

lemma sched_rel_refl [simp]: "sched_rel k k"
  by (simp add: sched_rel_def)

lemma rt_schedule_keep_rel:
  assumes i: "kinvx X k" and c: "k_current k = Some c" and cX: "c \<notin> X" and th: "k_threads k c = Some th"
    and u: "k_lock_nest k = 0" "k_ready_group k \<noteq> 0"
    and p: "highest_ready k p" "get_highest_priority_thread k = Some (hd (k_lists k (Ready p)), p)"
    and r: "thread_stat th = RT_THREAD_RUNNING \<and> keeps_running th p"
  shows "returns (rt_schedule k) (\<lambda>k'. kinvx X k' \<and> sched_rel k k' \<and> (\<forall>t \<in> X. k_threads k' t = k_threads k t) \<and>
    (\<exists>c'. k_current k' = Some c' \<and> c' \<notin> X))"
proof -
  let ?k = "dispatch c (clear_yield th) (k\<lparr>k_threads := (k_threads k)(c \<mapsto> clear_yield th)\<rparr>)"
  have k: "rt_schedule k = Some ?k" "kinvx X ?k" "k_current ?k = Some c" "k_lists ?k = k_lists k"
    using rt_schedule_keep [OF i c th cX _ _ p] r u by blast+
  have "k_threads ?k = (k_threads k)(c \<mapsto> set_stat RT_THREAD_RUNNING (clear_yield th))"
    by (simp add: dispatch_def)
  moreover have "k_timers ?k = k_timers k" "k_timer_list ?k = k_timer_list k" "k_timer_tmp ?k = k_timer_tmp k"
    by (simp_all add: dispatch_def)
  ultimately have "sched_rel k ?k \<and> (\<forall>t \<in> X. k_threads ?k t = k_threads k t)"
    using th r c k cX unfolding sched_rel_def by auto
  then show ?thesis using k cX by simp
qed

text \<open>A switch changes the states of two threads only: the one that was running, if it still was, and the new one.\<close>

lemma switched_thread:
  assumes T: "T' = (if thread_stat th = RT_THREAD_RUNNING
      then T(c \<mapsto> set_stat RT_THREAD_READY (clear_yield th), t \<mapsto> set_stat RT_THREAD_RUNNING tth)
      else T(t \<mapsto> set_stat RT_THREAD_RUNNING tth))"
    and th: "T c = Some th" and t: "T t = Some tth" "thread_stat tth = RT_THREAD_READY" "t \<noteq> c"
  shows "T' u = T u \<or> (\<exists>th th'. T u = Some th \<and> T' u = Some th' \<and> restat th th' \<and>
    thread_stat th \<in> {RT_THREAD_READY, RT_THREAD_RUNNING} \<and> thread_stat th' \<in> {RT_THREAD_READY, RT_THREAD_RUNNING})"
proof -
  consider "u = t" | "u = c" "thread_stat th = RT_THREAD_RUNNING" | "T' u = T u"
    by (cases "u = t \<or> u = c \<and> thread_stat th = RT_THREAD_RUNNING") (blast, auto simp: T)
  then show ?thesis
  proof cases
    case 1
    then have "T' u = Some (set_stat RT_THREAD_RUNNING tth)" by (simp add: T)
    with 1 t show ?thesis by simp
  next
    case 2
    then have "T' u = Some (set_stat RT_THREAD_READY (clear_yield th))" using t(3) by (simp add: T)
    with 2 th show ?thesis by simp
  qed simp
qed

lemma rt_schedule_switch_rel:
  assumes i: "kinvx X k" and c: "k_current k = Some c" and cX: "c \<notin> X" and th: "k_threads k c = Some th"
    and u: "k_lock_nest k = 0" "k_ready_group k \<noteq> 0"
    and p: "highest_ready k p" "get_highest_priority_thread k = Some (hd (k_lists k (Ready p)), p)"
    and r: "\<not> (thread_stat th = RT_THREAD_RUNNING \<and> keeps_running th p)"
  shows "returns (rt_schedule k) (\<lambda>k'. kinvx X k' \<and> sched_rel k k' \<and> (\<forall>t \<in> X. k_threads k' t = k_threads k t) \<and>
    (\<exists>c'. k_current k' = Some c' \<and> c' \<notin> X))"
proof -
  let ?t = "hd (k_lists k (Ready p))"
  obtain k1 k' tth where k: "rt_schedule k = Some k'" "kinvx X k'" "k_current k' = Some ?t"
    and t: "k_threads k ?t = Some tth" "thread_stat tth = RT_THREAD_READY" "?t \<noteq> c" "prio tth = p"
    and l: "k_lists k1 = (if thread_stat th = RT_THREAD_RUNNING
         then lists_insert_before (Ready (prio th)) c (k_lists k) else k_lists k)"
    and T: "k_threads k1 = (if thread_stat th = RT_THREAD_RUNNING
         then (k_threads k)(c \<mapsto> set_stat RT_THREAD_READY (clear_yield th)) else k_threads k)"
    and M: "k_timers k1 = k_timers k" "k_timer_list k1 = k_timer_list k" "k_timer_tmp k1 = k_timer_tmp k"
    and k': "k' = dispatch ?t tth k1"
    by (rule rt_schedule_switch [OF i c th cX u p r]) (rule that, assumption+)
  have L: "linv X (k_lists k) (k_ready_group k) (k_threads k)" using i by (simp add: kinvx_def)
  have tX: "?t \<notin> X" by (rule linvD(3) [OF L, of _ "Ready p"]) (use p(1) in \<open>auto simp: highest_ready_def\<close>)
  have w: "?t \<notin> set (k_lists k h)" if "\<forall>p. h \<noteq> Ready p" for h
    using linv_on_list [OF L t(1), of h] that t(2) by (cases h) (auto simp: member_ok_def)
  have lw: "k_lists k' h = k_lists k h" if "\<forall>p. h \<noteq> Ready p" for h
    using that w [OF that] l by (auto simp: k' dispatch_def lists_remove_def lists_insert_before_def removeAll_id)
  have T': "k_threads k' = (if thread_stat th = RT_THREAD_RUNNING
      then (k_threads k)(c \<mapsto> set_stat RT_THREAD_READY (clear_yield th), ?t \<mapsto> set_stat RT_THREAD_RUNNING tth)
      else (k_threads k)(?t \<mapsto> set_stat RT_THREAD_RUNNING tth))"
    using T by (simp add: k' dispatch_def)
  have "k_timers k' = k_timers k" "k_timer_list k' = k_timer_list k" "k_timer_tmp k' = k_timer_tmp k"
    using M by (simp_all add: k' dispatch_def)
  then have "sched_rel k k'" unfolding sched_rel_def using switched_thread [OF T' th t(1-3)] lw k(3) c by simp
  moreover have "\<forall>t \<in> X. k_threads k' t = k_threads k t" using T' tX cX by auto
  ultimately show ?thesis using k tX by simp
qed

lemma rt_schedule_returns:
  assumes i: "kinvx X k" and c: "k_current k = Some c" and cX: "c \<notin> X"
  shows "returns (rt_schedule k) (\<lambda>k'. kinvx X k' \<and> sched_rel k k' \<and> (\<forall>t \<in> X. k_threads k' t = k_threads k t) \<and>
    (\<exists>c'. k_current k' = Some c' \<and> c' \<notin> X))"
proof (cases "k_lock_nest k = 0 \<and> k_ready_group k \<noteq> 0")
  case False
  then show ?thesis using i c cX by (auto simp: rt_schedule_idle)
next
  case True
  then have u: "k_lock_nest k = 0" "k_ready_group k \<noteq> 0" by simp_all
  obtain p where p: "highest_ready k p" "get_highest_priority_thread k = Some (hd (k_lists k (Ready p)), p)"
    using get_highest_priority_thread_eq [OF i] True by metis
  obtain th where th: "k_threads k c = Some th"
    using i c cinvD(1) unfolding kinvx_def by blast
  show ?thesis
    using rt_schedule_keep_rel [OF i c cX th u p] rt_schedule_switch_rel [OF i c cX th u p] by blast
qed

lemma schedule_after:
  assumes "kinvx X k" and "k_current k = Some c" and "c \<notin> X"
    and "\<And>k' c'. kinvx X k' \<Longrightarrow> sched_rel k k' \<Longrightarrow> k_current k' = Some c' \<Longrightarrow> c' \<notin> X \<Longrightarrow> Q k'"
  shows "returns (rt_schedule k) Q"
  by (rule returns_mono [OF rt_schedule_returns [OF assms(1-3)]]) (use assms(4) in blast)

lemma frames_insert_thread [frame]: "core_frame k k1 \<Longrightarrow> frames k (rt_schedule_insert_thread t k1)"
  unfolding rt_schedule_insert_thread_def by (intro frame)

lemma frames_remove_thread [frame]: "core_frame k k1 \<Longrightarrow> frames k (rt_schedule_remove_thread t k1)"
  unfolding rt_schedule_remove_thread_def by (intro frame)

lemma frames_schedule [frame]: "core_frame k k1 \<Longrightarrow> frames k (rt_schedule k1)"
  unfolding rt_schedule_def by (intro frame)

section \<open>The scheduler lock\<close>

lemma kinvx_lock [simp]: "kinvx X (k\<lparr>k_lock_nest := n\<rparr>) = kinvx X k"
  by (simp add: kinvx_def)

lemma sched_rel_lock [simp]:
  "sched_rel (k\<lparr>k_lock_nest := n\<rparr>) k' = sched_rel k k'" "sched_rel k (k'\<lparr>k_lock_nest := n\<rparr>) = sched_rel k k'"
  by (simp_all add: sched_rel_def)

lemma rt_exit_critical_returns:
  assumes "kinvx X k" and "\<And>c. k_current k = Some c \<Longrightarrow> c \<notin> X"
  shows "returns (rt_exit_critical k) (\<lambda>k'. kinvx X k' \<and> sched_rel k k' \<and> (\<forall>t \<in> X. k_threads k' t = k_threads k t) \<and>
    (\<forall>c. k_current k' = Some c \<longrightarrow> c \<notin> X))"
proof -
  have "returns (rt_schedule (k\<lparr>k_lock_nest := n\<rparr>))
     (\<lambda>k'. kinvx X k' \<and> sched_rel k k' \<and> (\<forall>t \<in> X. k_threads k' t = k_threads k t) \<and>
        (\<forall>c. k_current k' = Some c \<longrightarrow> c \<notin> X))" if "k_current k = Some c" for n c
    using rt_schedule_returns [of X "k\<lparr>k_lock_nest := n\<rparr>" c] assms that
    by (auto elim: returns_mono)
  then show ?thesis
    using assms by (auto simp: rt_exit_critical_def Let_def)
qed

text \<open>Entering and leaving with the scheduler unlocked is one call of \<open>rt_schedule\<close>.\<close>

lemma critical_pair_unlocked:
  assumes "k_lock_nest k = 0"
  shows "rt_exit_critical (rt_enter_critical k) = (if k_current k \<noteq> None then rt_schedule k else Some k)"
proof -
  have e: "k\<lparr>k_lock_nest := 0\<rparr> = k" using assms by (cases k) simp
  have "rt_schedule (k\<lparr>k_lock_nest := 0\<rparr>) = rt_schedule k" "Some (k\<lparr>k_lock_nest := 0\<rparr>) = Some k"
    by (simp_all only: e)
  then show ?thesis using assms by (simp add: rt_exit_critical_def rt_enter_critical_def Let_def)
qed

lemma sint_small_pos: "0 < n \<Longrightarrow> n \<le> 0x7fff \<Longrightarrow> sint (n :: u16) > 0"
proof -
  assume n: "0 < n" "n \<le> 0x7fff"
  have "uint n \<le> 0x7fff" "0 < uint n" using n by (simp_all add: word_le_def word_less_def)
  then have "signed_take_bit 15 (uint n) = uint n" by (intro signed_take_bit_int_eq_self) simp_all
  then show ?thesis using \<open>0 < uint n\<close> by (simp add: sint_uint)
qed

section \<open>What the scheduler promises\<close>

text \<open>
  What one call does to the ready queues \<open>Q\<close>, close to the code: with the least priority number \<open>p\<close> that has a ready
  thread, the current thread \<open>c\<close> goes on if it runs and \<open>keeps_running\<close>; otherwise it goes to the end of the queue of its
  priority if it was running, and the first thread of queue \<open>p\<close> leaves its queue and becomes current.
\<close>

definition sched_decision :: "nat \<Rightarrow> rt_thread \<Rightarrow> (nat \<Rightarrow> nat list) \<Rightarrow> nat \<times> (nat \<Rightarrow> nat list)" where
  "sched_decision c th Q =
     (case find (\<lambda>p. Q p \<noteq> []) [0..<RT_THREAD_PRIORITY_MAX] of
        None \<Rightarrow> (c, Q)
      | Some p \<Rightarrow>
          if thread_stat th = RT_THREAD_RUNNING \<and> keeps_running th p then (c, Q)
          else let Q' = (if thread_stat th = RT_THREAD_RUNNING then Q(prio th := Q (prio th) @ [c]) else Q)
               in (hd (Q p), Q'(p := tl (Q' p))))"

abbreviation ready_queues :: "kernel \<Rightarrow> nat \<Rightarrow> nat list" where
  "ready_queues k \<equiv> \<lambda>p. k_lists k (Ready p)"

lemma find_least:
  assumes "P p" and "p < n" and "\<forall>q < p. \<not> P q"
  shows "find P [0..<n] = Some p"
proof -
  have "[0..<n] ! p = p \<and> p < length [0..<n] \<and> P ([0..<n] ! p) \<and> (\<forall>q < p. \<not> P ([0..<n] ! q))"
    using assms by simp
  then show ?thesis unfolding find_Some_iff by metis
qed

lemma find_ready:
  assumes "highest_ready k p" and "p < 32"
  shows "find (\<lambda>p. ready_queues k p \<noteq> []) [0..<32] = Some p"
  by (rule find_least) (use assms in \<open>simp_all add: highest_ready_def\<close>)

lemma find_ready_none:
  assumes "kinvx X k" and "k_ready_group k = 0"
  shows "find (\<lambda>p. ready_queues k p \<noteq> []) [0..<32] = None"
proof -
  have "k_lists k (Ready p) = []" for p
    using assms linvD(2) [of X "k_lists k" "k_ready_group k" "k_threads k"]
    unfolding kinvx_def ready_ok_def by auto
  then show ?thesis by (simp add: find_None_iff)
qed

text \<open>In the current thread, the ready queues and the state of the chosen thread, \<open>rt_schedule\<close> does what is specified.\<close>

lemma rt_schedule_spec:
  assumes i: "kinv k" and c: "k_current k = Some c" "k_threads k c = Some th" and n: "k_lock_nest k = 0"
  defines "r \<equiv> sched_decision c th (ready_queues k)"
  shows "returns (rt_schedule k) (\<lambda>k'. kinv k' \<and> k_current k' = Some (fst r) \<and> ready_queues k' = snd r \<and>
    (\<exists>th'. k_threads k' (fst r) = Some th' \<and>
       (k_ready_group k \<noteq> 0 \<longrightarrow> thread_stat th' = RT_THREAD_RUNNING \<and> (\<forall>p. \<forall>t \<in> set (k_lists k' (Ready p)). prio th' \<le> p))))"
proof (cases "k_ready_group k = 0")
  case True
  then show ?thesis using i c find_ready_none [OF i True] by (simp add: rt_schedule_def r_def sched_decision_def)
next
  case g: False
  obtain p where p: "highest_ready k p" "p < 32" "get_highest_priority_thread k = Some (hd (k_lists k (Ready p)), p)"
    using get_highest_priority_thread_eq [OF i g] by blast
  note f = find_ready [OF p(1,2)]
  have low: "p \<le> q" if "k_lists k (Ready q) \<noteq> []" for q
    using p(1) that unfolding highest_ready_def by (meson not_le_imp_less)
  show ?thesis
  proof (cases "thread_stat th = RT_THREAD_RUNNING \<and> keeps_running th p")
    case True
    have r: "r = (c, ready_queues k)" using True f by (simp add: r_def sched_decision_def)
    have pr: "prio th \<le> p" using True by (auto simp: keeps_running_def)
    have "k_lists k (Ready q) \<noteq> [] \<Longrightarrow> prio th \<le> q" for q using low [of q] pr by simp
    then have "t \<in> set (k_lists k (Ready q)) \<Longrightarrow> prio th \<le> q" for t q by (metis empty_iff list.set(1))
    moreover note rt_schedule_keep [OF i c _ n g p(1,3)]
    ultimately show ?thesis using True by (auto simp: r dispatch_def prio_def clear_yield_def)
  next
    case False
    obtain k1 k' tth where k': "rt_schedule k = Some k'" "kinv k'" "k_current k' = Some (hd (k_lists k (Ready p)))"
      "k_threads k (hd (k_lists k (Ready p))) = Some tth" "thread_stat tth = RT_THREAD_READY" "prio tth = p"
      "hd (k_lists k (Ready p)) \<noteq> c"
      "k_lists k1 = (if thread_stat th = RT_THREAD_RUNNING then lists_insert_before (Ready (prio th)) c (k_lists k) else k_lists k)"
      "k' = dispatch (hd (k_lists k (Ready p))) tth k1"
      by (rule rt_schedule_switch [OF i c _ n g p(1,3) False]) simp_all
    let ?t = "hd (k_lists k (Ready p))"
    let ?Q = "if thread_stat th = RT_THREAD_RUNNING then (ready_queues k)(prio th := k_lists k (Ready (prio th)) @ [c]) else ready_queues k"
    have ne: "k_lists k (Ready p) \<noteq> []" using p(1) by (simp add: highest_ready_def)
    have wf: "lists_wf (k_lists k)" using i by (simp add: kinvx_def linv_def)
    have d: "distinct (k_lists k (Ready q))" for q using wf by (simp add: lists_wf_def)
    have only: "?t \<notin> set (k_lists k (Ready q))" if "q \<noteq> p" for q
      using wf ne that unfolding lists_wf_def by (metis lhead.inject(1) list.set_sel(1))
    have r: "r = (?t, ?Q(p := tl (?Q p)))" using False f unfolding r_def sched_decision_def by (auto simp: Let_def)
    have "k_lists k' (Ready q) = removeAll ?t (?Q q)" for q
      using k'(8,9) by (simp add: dispatch_def lists_remove_def lists_insert_before_def)
    moreover have "removeAll ?t (?Q q) = (?Q(p := tl (?Q p))) q" for q
      using only [of q] ne d [of p] k'(7) by (cases "q = p") (auto simp: removeAll_id distinct_hd_tl)
    ultimately have q: "ready_queues k' = snd r" unfolding r by auto
    have st: "k_threads k' ?t = Some (set_stat RT_THREAD_RUNNING tth)" by (simp add: k'(9) dispatch_def)
    have pr: "thread_stat th = RT_THREAD_RUNNING \<Longrightarrow> p \<le> prio th" using False by (auto simp: keeps_running_def)
    have low': "t \<in> set (k_lists k (Ready q)) \<Longrightarrow> p \<le> q" for t q by (rule low) auto
    have "p \<le> q" if "t \<in> set (k_lists k' (Ready q))" for t q
      using that pr low' unfolding fun_cong [OF q] r by (auto split: if_splits dest: in_set_tlD)
    then have "\<forall>q. \<forall>t \<in> set (k_lists k' (Ready q)). p \<le> q" by blast
    then show ?thesis using k'(1-3,6) q st unfolding r by (simp add: prio_def)
  qed
qed

text \<open>
  The specification of the scheduler, as an election.  The contenders are the ready threads and the current one if it is running: it
  stands before the ready threads of its own priority, or behind them when it yields (bit 3 of its state).  The first contender of the
  most urgent priority wins, and with none of them at all the current thread stays.  Everyone else stays or is queued behind the
  threads of its priority, so a running thread that loses goes to the end.
\<close>

definition contenders :: "nat \<Rightarrow> rt_thread \<Rightarrow> (nat \<Rightarrow> nat list) \<Rightarrow> nat \<Rightarrow> nat list" where
  "contenders c th Q p = (if thread_stat th = RT_THREAD_RUNNING \<and> p = prio th then (if bit (th_stat th) 3 then Q p @ [c] else c # Q p) else Q p)"

definition waiting_line :: "nat \<Rightarrow> rt_thread \<Rightarrow> (nat \<Rightarrow> nat list) \<Rightarrow> nat \<Rightarrow> nat list" where
  "waiting_line c th Q p = (if thread_stat th = RT_THREAD_RUNNING \<and> p = prio th then Q p @ [c] else Q p)"

definition sched_spec :: "nat \<Rightarrow> rt_thread \<Rightarrow> (nat \<Rightarrow> nat list) \<Rightarrow> nat \<times> (nat \<Rightarrow> nat list)" where
  "sched_spec c th Q =
     (let winner = (case concat (map (contenders c th Q) [0..<RT_THREAD_PRIORITY_MAX]) of [] \<Rightarrow> c | w # _ \<Rightarrow> w)
      in (winner, \<lambda>p. remove1 winner (waiting_line c th Q p)))"

lemma yield_bit: "x AND RT_THREAD_STAT_YIELD = 0 \<longleftrightarrow> \<not> bit (x :: u8) 3"
proof -
  have "x AND 8 = 0 \<longleftrightarrow> \<not> bit x 3" using and_exp_eq_0_iff_not_bit [of x 3] by simp
  then show ?thesis by simp
qed

lemma hd_concat_find:
  "(case concat (map f xs) of [] \<Rightarrow> c | w # _ \<Rightarrow> w) = (case find (\<lambda>p. f p \<noteq> []) xs of None \<Rightarrow> c | Some p \<Rightarrow> hd (f p))"
proof (induction xs)
  case (Cons x xs)
  then show ?case by (cases "f x") simp_all
qed simp

lemma sched_decision_spec:
  assumes i: "kinv k" and t: "k_threads k c = Some th"
  shows "sched_decision c th (ready_queues k) = sched_spec c th (ready_queues k)"
proof -
  let ?Q = "ready_queues k" and ?run = "thread_stat th = RT_THREAD_RUNNING"
  have L: "linv {} (k_lists k) (k_ready_group k) (k_threads k)" using i by (simp add: kinvx_def)
  note wf = linvD(1) [OF L, unfolded lists_wf_def]
  have nc: "c \<notin> set (?Q p)" if "?run" for p using linvD(4) [OF L, of c "Ready p"] t that by (auto simp: member_stat)
  have pl: "prio th < 32" if "?run" using kinvx_live(1) [OF i t] that by (simp add: live_def)
  have small: "p < 32" if q: "?Q p \<noteq> []" for p
  proof -
    obtain u where "u \<in> set (?Q p)" using last_in_set [OF q] by blast
    then show ?thesis using linvD(4) [OF L] kinvx_live(1) [OF i] by (fastforce simp: member_stat live_def)
  qed
  have only: "w \<notin> set (?Q q)" if "w \<in> set (?Q p)" "q \<noteq> p" for w p q using wf that by blast
  let ?f = "contenders c th ?Q"
  have ne: "?f q \<noteq> [] \<longleftrightarrow> ?Q q \<noteq> [] \<or> ?run \<and> q = prio th" for q by (auto simp: contenders_def)
  have sp: "sched_spec c th ?Q = (case find (\<lambda>p. ?f p \<noteq> []) [0..<32] of None \<Rightarrow> (c, \<lambda>p. remove1 c (waiting_line c th ?Q p))
      | Some p \<Rightarrow> (hd (?f p), \<lambda>q. remove1 (hd (?f p)) (waiting_line c th ?Q q)))"
    by (simp add: sched_spec_def hd_concat_find Let_def split: option.split)
  have stay: "(\<lambda>p. remove1 c (waiting_line c th ?Q p)) = ?Q" if "?run \<or> ?Q = (\<lambda>_. [])"
    using nc that by (auto simp: waiting_line_def remove1_append remove1_idem fun_eq_iff)
  have find_f: "find (\<lambda>p. ?f p \<noteq> []) [0..<32] = Some p" if "?f p \<noteq> []" "p < 32" "\<forall>q < p. ?f q = []" for p
    by (rule find_least) (use that in simp_all)
  show ?thesis
  proof (cases "find (\<lambda>p. ?Q p \<noteq> []) [0..<32]")
    case None
    then have none: "?Q q = []" for q using small by (auto simp: find_None_iff)
    have "sched_spec c th ?Q = (c, ?Q)"
    proof (cases ?run)
      case True
      have "find (\<lambda>p. ?f p \<noteq> []) [0..<32] = Some (prio th)" by (rule find_f) (use True pl none in \<open>auto simp: contenders_def\<close>)
      moreover have "hd (?f (prio th)) = c" using none True by (simp add: contenders_def)
      ultimately show ?thesis using stay [OF disjI1 [OF True]] by (simp add: sp)
    next
      case False
      then have "find (\<lambda>p. ?f p \<noteq> []) [0..<32] = None" using none by (simp add: find_None_iff contenders_def)
      then show ?thesis using stay [OF disjI2, OF ext [OF none]] by (simp add: sp)
    qed
    then show ?thesis using None by (simp add: sched_decision_def)
  next
    case (Some p)
    then have p: "?Q p \<noteq> []" "p < 32" "\<forall>q < p. ?Q q = []" unfolding find_Some_iff by auto
    have D: "sched_decision c th ?Q = (if ?run \<and> keeps_running th p then (c, ?Q)
        else (hd (?Q p), (if ?run then ?Q(prio th := ?Q (prio th) @ [c]) else ?Q)(p := tl ((if ?run then ?Q(prio th := ?Q (prio th) @ [c]) else ?Q) p))))"
      using Some by (simp add: sched_decision_def Let_def)
    show ?thesis
    proof (cases "?run \<and> keeps_running th p")
      case True
      have "find (\<lambda>p. ?f p \<noteq> []) [0..<32] = Some (prio th)"
        by (rule find_f) (use True pl p in \<open>auto simp: contenders_def keeps_running_def\<close>)
      moreover have "hd (?f (prio th)) = c" using True p(3) yield_bit [of "th_stat th"] by (auto simp: contenders_def keeps_running_def)
      ultimately show ?thesis using stay [OF disjI1 [OF conjunct1 [OF True]]] D True by (simp add: sp)
    next
      case False
      then have low: "?run \<Longrightarrow> p \<le> prio th" by (auto simp: keeps_running_def)
      have "find (\<lambda>p. ?f p \<noteq> []) [0..<32] = Some p" by (rule find_f) (use low p in \<open>auto simp: contenders_def\<close>)
      moreover have w: "hd (?f p) = hd (?Q p)"
        using False p(1) yield_bit [of "th_stat th"] by (auto simp: contenders_def keeps_running_def)
      moreover have "remove1 (hd (?Q p)) (waiting_line c th ?Q q) =
          ((if ?run then ?Q(prio th := ?Q (prio th) @ [c]) else ?Q)(p := tl ((if ?run then ?Q(prio th := ?Q (prio th) @ [c]) else ?Q) p))) q" for q
      proof (cases "q = p")
        case True
        then show ?thesis using p(1) by (cases "?Q p") (auto simp: waiting_line_def)
      next
        case q: False
        then have "hd (?Q p) \<notin> set (?Q q)" by (intro only [of _ p]) (use p(1) in simp_all)
        moreover have "?run \<Longrightarrow> hd (?Q p) \<noteq> c" using nc [of p] p(1) by (metis list.set_sel(1))
        ultimately show ?thesis using q by (auto simp: waiting_line_def remove1_idem)
      qed
      ultimately show ?thesis using D False by (simp add: sp fun_eq_iff)
    qed
  qed
qed

text \<open>
  C17. With the scheduler unlocked, \<^verbatim>\<open>rt_schedule\<close> returns, keeps the kernel invariant and implements the election of
  \<open>sched_spec\<close>: the winner becomes current, and the others stand in the ready queues as specified.  So a thread is preempted by
  every ready thread of a more urgent priority, and by one of its own priority just when it yields.
\<close>

theorem rt_schedule_refines:
  assumes "kinv k" and "k_current k = Some c" and "k_threads k c = Some th" and "k_lock_nest k = 0"
  shows "returns (rt_schedule k) (\<lambda>k'. kinv k' \<and>
    (the (k_current k'), ready_queues k') = sched_spec c th (ready_queues k))"
  unfolding sched_decision_spec [OF assms(1,3), symmetric]
  by (rule returns_mono [OF rt_schedule_spec [OF assms]]) (auto simp: prod_eq_iff)

theorem rt_schedule_refines_witness:
  "returns (rt_schedule sample_yield) (\<lambda>k'. the (k_current k') = 2 \<and> k_lists k' (Ready 10) = [10])"
proof -
  let ?th = "sample_thread (RT_THREAD_RUNNING OR RT_THREAD_STAT_YIELD) 10"
  have p: "prio ?th = 10" by simp
  have "find (\<lambda>p. contenders 10 ?th (ready_queues sample_yield) p \<noteq> []) [0..<32] = Some 10"
    by (rule find_least) (simp_all add: contenders_def sample_lists_def)
  then have s: "fst (sched_spec 10 ?th (ready_queues sample_yield)) = 2" "snd (sched_spec 10 ?th (ready_queues sample_yield)) 10 = [10]"
    by (simp_all add: sched_spec_def hd_concat_find contenders_def waiting_line_def sample_lists_def Let_def)
  have "returns (rt_schedule sample_yield) (\<lambda>k'. kinv k' \<and>
    (the (k_current k'), ready_queues k') = sched_spec 10 ?th (ready_queues sample_yield))"
    by (rule rt_schedule_refines) simp_all
  then show ?thesis by (rule returns_mono) (metis s fst_conv snd_conv)
qed

text \<open>
  Priority preemption: after \<^verbatim>\<open>rt_schedule\<close> with the scheduler unlocked and some thread ready, the current thread
  is in the running state, and no ready thread has a higher priority (a smaller number).
\<close>

theorem rt_schedule_highest_priority:
  assumes "kinv k" and "k_current k = Some c" and "k_lock_nest k = 0" and "k_ready_group k \<noteq> 0"
  shows "returns (rt_schedule k) (\<lambda>k'. \<exists>c' th'. k_current k' = Some c' \<and> k_threads k' c' = Some th' \<and>
    thread_stat th' = RT_THREAD_RUNNING \<and>
    (\<forall>t u. k_threads k' t = Some u \<longrightarrow> thread_stat u = RT_THREAD_READY \<longrightarrow> prio th' \<le> prio u))"
proof -
  obtain th where th: "k_threads k c = Some th" using assms cinvD(1) by (fastforce simp: kinvx_def)
  show ?thesis
  proof (rule returns_mono [OF rt_schedule_spec [OF assms(1,2) th assms(3)]], elim conjE exE)
    fix k' th'
    let ?c = "fst (sched_decision c th (ready_queues k))"
    assume k': "kinv k'" "k_current k' = Some ?c" "k_threads k' ?c = Some th'"
      and r: "k_ready_group k \<noteq> 0 \<longrightarrow> thread_stat th' = RT_THREAD_RUNNING \<and> (\<forall>p. \<forall>t\<in>set (ready_queues k' p). prio th' \<le> p)"
    have "t \<in> set (k_lists k' (Ready (prio u)))" if "k_threads k' t = Some u" "thread_stat u = RT_THREAD_READY" for t u
      using k'(1) that linvD(6) [of "{}" "k_lists k'" "k_ready_group k'" "k_threads k'" t u] by (simp add: kinvx_def)
    then show "\<exists>c' th'. k_current k' = Some c' \<and> k_threads k' c' = Some th' \<and> thread_stat th' = RT_THREAD_RUNNING \<and>
      (\<forall>t u. k_threads k' t = Some u \<longrightarrow> thread_stat u = RT_THREAD_READY \<longrightarrow> prio th' \<le> prio u)"
      using k'(2,3) r assms(4) by blast
  qed
qed

theorem rt_schedule_highest_priority_witness:
  "returns (rt_schedule sample_kernel) (\<lambda>k'. \<exists>c' th'. k_current k' = Some c' \<and> k_threads k' c' = Some th' \<and>
    thread_stat th' = RT_THREAD_RUNNING)"
proof -
  have "returns (rt_schedule sample_kernel) (\<lambda>k'. \<exists>c' th'. k_current k' = Some c' \<and> k_threads k' c' = Some th' \<and>
    thread_stat th' = RT_THREAD_RUNNING \<and>
    (\<forall>t u. k_threads k' t = Some u \<longrightarrow> thread_stat u = RT_THREAD_READY \<longrightarrow> prio th' \<le> prio u))"
    by (rule rt_schedule_highest_priority) simp_all
  then show ?thesis by (rule returns_mono) blast
qed

lemma critical_pair:
  assumes "k_lock_nest k < 0x7fff"
  shows "rt_exit_critical (rt_enter_critical k) =
    (if k_lock_nest k = 0 \<and> k_current k \<noteq> None then rt_schedule k else Some k)"
proof (cases "k_lock_nest k = 0")
  case True
  then show ?thesis using critical_pair_unlocked [OF True] by simp
next
  case False
  then have "sint (k_lock_nest k) > 0" using assms by (intro sint_small_pos) (simp_all add: word_neq_0_conv)
  then show ?thesis using False by (simp add: rt_enter_critical_def rt_exit_critical_def Let_def)
qed

lemma critical_pair_returns:
  assumes "kinv k" and "k_lock_nest k < 0x7fff"
  shows "returns (rt_exit_critical (rt_enter_critical k)) (\<lambda>k'. kinv k' \<and> sched_rel k k' \<and> core_frame k k')"
proof (cases "k_lock_nest k = 0 \<and> k_current k \<noteq> None")
  case True
  then obtain c where c: "k_current k = Some c" by auto
  have "returns (rt_schedule k) (\<lambda>k'. kinv k' \<and> sched_rel k k')" by (rule schedule_after [OF assms(1) c]) simp_all
  from returns_frame [OF this frames_schedule [OF core_frame_refl]] True show ?thesis
    unfolding critical_pair [OF assms(2)] by (auto elim: returns_mono)
next
  case False
  then show ?thesis using assms(1) unfolding critical_pair [OF assms(2)] by auto
qed

text \<open>
  Critical sections nest: between \<^verbatim>\<open>rt_enter_critical\<close> and \<^verbatim>\<open>rt_exit_critical\<close> the scheduler switches to no other
  thread, leaving an inner section changes nothing, and leaving the outermost one is a call of \<^verbatim>\<open>rt_schedule\<close>, as long
  as the nesting stays below the \<^verbatim>\<open>32767\<close> the signed counter can hold.
\<close>

theorem rt_critical_nesting:
  assumes "k_lock_nest k < 0x7fff"
  shows "rt_schedule (rt_enter_critical k) = Some (rt_enter_critical k) \<and>
    rt_exit_critical (rt_enter_critical k) =
      (if k_lock_nest k = 0 \<and> k_current k \<noteq> None then rt_schedule k else Some k)"
proof -
  have "k_lock_nest k + 1 \<noteq> 0"
  proof
    assume "k_lock_nest k + 1 = 0"
    then have "k_lock_nest k = - 1" by (simp add: eq_neg_iff_add_eq_0)
    then show False using assms by simp
  qed
  then show ?thesis using critical_pair [OF assms] by (simp add: rt_schedule_def rt_enter_critical_def)
qed

theorem rt_critical_nesting_witness:
  "rt_exit_critical (rt_enter_critical (sample_kernel\<lparr>k_lock_nest := 2\<rparr>)) = Some (sample_kernel\<lparr>k_lock_nest := 2\<rparr>)"
  using rt_critical_nesting [of "sample_kernel\<lparr>k_lock_nest := 2\<rparr>"] by simp

end
