(* ===== verification/Object.thy ===== *)
theory Object
  imports Scheduler
begin

text \<open>
  The object containers of \<^verbatim>\<open>object.c\<close> and the two string routines of \<^verbatim>\<open>kservice.c\<close> they use.  A C string is
  the list of its characters without the final 0; the name field of an object is the list of its eight bytes.
  Each class has the list of its objects, newest first.  Storage that was never initialised holds zeros, as
  static storage does at start-up (\<open>storage\<close>); \<^verbatim>\<open>rt_object_allocate\<close> zeroes what it takes from the heap.
\<close>

section \<open>Strings (kservice.c)\<close>

fun rt_strncpy :: "nat \<Rightarrow> u8 list \<Rightarrow> u8 list" where
  "rt_strncpy 0 s = []"
| "rt_strncpy (Suc n) [] = 0 # replicate n 0"
| "rt_strncpy (Suc n) (c # s) = (if c = 0 then 0 # replicate n 0 else c # rt_strncpy n s)"

definition char_at :: "u8 list \<Rightarrow> u8" where
  "char_at s = (case s of [] \<Rightarrow> 0 | c # _ \<Rightarrow> c)"

fun rt_strncmp :: "u8 list \<Rightarrow> u8 list \<Rightarrow> nat \<Rightarrow> int" where
  "rt_strncmp cs ct 0 = 0"
| "rt_strncmp cs ct (Suc count) =
     (let res = char_at cs - char_at ct
      in if res \<noteq> 0 \<or> char_at cs = 0 then sint res else rt_strncmp (tl cs) (tl ct) count)"

section \<open>Object headers\<close>

definition zero_object :: rt_object where
  "zero_object = \<lparr>ob_name = replicate RT_NAME_MAX 0, ob_type = 0, ob_flag = 0\<rparr>"

definition zero_timer :: rt_timer where
  "zero_timer = \<lparr>tm_parent = zero_object, tm_timeout_func = Timeout_fn 0, tm_parameter = 0,
     tm_init_tick = 0, tm_timeout_tick = 0\<rparr>"

definition zero_thread :: rt_thread where
  "zero_thread = \<lparr>th_parent = zero_object, th_entry = 0, th_parameter = 0, th_stack_addr = 0, th_stack_size = 0,
     th_error = 0, th_stat = 0, th_current_priority = 0, th_init_priority = 0, th_number_mask = 0,
     th_event_set = 0, th_event_info = 0, th_init_tick = 0, th_remaining_tick = 0, th_cleanup = None,
     th_user_data = 0\<rparr>"

definition zero_sem :: rt_semaphore where
  "zero_sem = \<lparr>sem_parent = zero_object, sem_value = 0\<rparr>"

definition zero_mutex :: rt_mutex where
  "zero_mutex = \<lparr>mu_parent = zero_object, mu_value = 0, mu_original_priority = 0, mu_hold = 0, mu_owner = None\<rparr>"

definition zero_event :: rt_event where
  "zero_event = \<lparr>ev_parent = zero_object, ev_set = 0\<rparr>"

definition zero_mailbox :: rt_mailbox where
  "zero_mailbox = \<lparr>mb_parent = zero_object, mb_msg_pool = [], mb_pool_addr = 0, mb_size = 0, mb_entry = 0,
     mb_in_offset = 0, mb_out_offset = 0\<rparr>"

definition zero_mq :: rt_messagequeue where
  "zero_mq = \<lparr>mq_parent = zero_object, mq_msg_pool = Map.empty, mq_pool_addr = 0, mq_msg_size = 0, mq_max_msgs = 0,
     mq_entry = 0, mq_msg_queue_head = None, mq_msg_queue_tail = None, mq_msg_queue_free = None\<rparr>"

definition zero_device :: rt_device where
  "zero_device = \<lparr>dv_parent = zero_object, dv_type = 0, dv_flag = 0, dv_open_flag = 0, dv_ref_count = 0,
     dv_rx_indicate = None, dv_tx_complete = None, dv_init = None, dv_open = None, dv_close = None, dv_read = None,
     dv_write = None, dv_control = None, dv_user_data = 0\<rparr>"

definition storage :: "'a \<Rightarrow> 'a option \<Rightarrow> 'a" where
  "storage z m = (case m of None \<Rightarrow> z | Some x \<Rightarrow> x)"

text \<open>Writing the header of an object; \<open>obj_header\<close> reads it.\<close>

fun upd_header :: "oid \<Rightarrow> (rt_object \<Rightarrow> rt_object) \<Rightarrow> kernel \<Rightarrow> kernel" where
  "upd_header (OThread t) f k = k\<lparr>k_threads := (k_threads k)(t \<mapsto>
     (storage zero_thread (k_threads k t))\<lparr>th_parent := f (th_parent (storage zero_thread (k_threads k t)))\<rparr>)\<rparr>"
| "upd_header (OSem s) f k = k\<lparr>k_sems := (k_sems k)(s \<mapsto>
     (storage zero_sem (k_sems k s))\<lparr>sem_parent := f (sem_parent (storage zero_sem (k_sems k s)))\<rparr>)\<rparr>"
| "upd_header (OMutex m) f k = k\<lparr>k_mutexes := (k_mutexes k)(m \<mapsto>
     (storage zero_mutex (k_mutexes k m))\<lparr>mu_parent := f (mu_parent (storage zero_mutex (k_mutexes k m)))\<rparr>)\<rparr>"
| "upd_header (OEvent e) f k = k\<lparr>k_events := (k_events k)(e \<mapsto>
     (storage zero_event (k_events k e))\<lparr>ev_parent := f (ev_parent (storage zero_event (k_events k e)))\<rparr>)\<rparr>"
| "upd_header (OMailbox b) f k = k\<lparr>k_mbs := (k_mbs k)(b \<mapsto>
     (storage zero_mailbox (k_mbs k b))\<lparr>mb_parent := f (mb_parent (storage zero_mailbox (k_mbs k b)))\<rparr>)\<rparr>"
| "upd_header (OMq q) f k = k\<lparr>k_mqs := (k_mqs k)(q \<mapsto>
     (storage zero_mq (k_mqs k q))\<lparr>mq_parent := f (mq_parent (storage zero_mq (k_mqs k q)))\<rparr>)\<rparr>"
| "upd_header (OTimer r) f k = k\<lparr>k_timers := (k_timers k)(r \<mapsto>
     (storage zero_timer (k_timers k r))\<lparr>tm_parent := f (tm_parent (storage zero_timer (k_timers k r)))\<rparr>)\<rparr>"
| "upd_header (ODevice d) f k = k\<lparr>k_devices := (k_devices k)(d \<mapsto>
     (storage zero_device (k_devices k d))\<lparr>dv_parent := f (dv_parent (storage zero_device (k_devices k d)))\<rparr>)\<rparr>"

fun obj_header :: "oid \<Rightarrow> kernel \<Rightarrow> rt_object option" where
  "obj_header (OThread t) k = map_option th_parent (k_threads k t)"
| "obj_header (OSem s) k = map_option sem_parent (k_sems k s)"
| "obj_header (OMutex m) k = map_option mu_parent (k_mutexes k m)"
| "obj_header (OEvent e) k = map_option ev_parent (k_events k e)"
| "obj_header (OMailbox b) k = map_option mb_parent (k_mbs k b)"
| "obj_header (OMq q) k = map_option mq_parent (k_mqs k q)"
| "obj_header (OTimer r) k = map_option tm_parent (k_timers k r)"
| "obj_header (ODevice d) k = map_option dv_parent (k_devices k d)"

text \<open>The memory of a deleted object is gone.\<close>

fun drop_object :: "oid \<Rightarrow> kernel \<Rightarrow> kernel" where
  "drop_object (OThread t) k = k\<lparr>k_threads := (k_threads k)(t := None)\<rparr>"
| "drop_object (OSem s) k = k\<lparr>k_sems := (k_sems k)(s := None)\<rparr>"
| "drop_object (OMutex m) k = k\<lparr>k_mutexes := (k_mutexes k)(m := None)\<rparr>"
| "drop_object (OEvent e) k = k\<lparr>k_events := (k_events k)(e := None)\<rparr>"
| "drop_object (OMailbox b) k = k\<lparr>k_mbs := (k_mbs k)(b := None)\<rparr>"
| "drop_object (OMq q) k = k\<lparr>k_mqs := (k_mqs k)(q := None)\<rparr>"
| "drop_object (OTimer r) k = k\<lparr>k_timers := (k_timers k)(r := None)\<rparr>"
| "drop_object (ODevice d) k = k\<lparr>k_devices := (k_devices k)(d := None)\<rparr>"

fun obj_addr :: "oid \<Rightarrow> nat" where
  "obj_addr (OThread t) = t"
| "obj_addr (OSem s) = s"
| "obj_addr (OMutex m) = m"
| "obj_addr (OEvent e) = e"
| "obj_addr (OMailbox b) = b"
| "obj_addr (OMq q) = q"
| "obj_addr (OTimer (Timer n)) = n"
| "obj_addr (OTimer (Thread_timer t)) = t"
| "obj_addr (ODevice d) = d"

definition obj_at :: "u8 \<Rightarrow> nat \<Rightarrow> oid option" where
  "obj_at type p =
     (if type = RT_Object_Class_Thread then Some (OThread p)
      else if type = RT_Object_Class_Semaphore then Some (OSem p)
      else if type = RT_Object_Class_Mutex then Some (OMutex p)
      else if type = RT_Object_Class_Event then Some (OEvent p)
      else if type = RT_Object_Class_MailBox then Some (OMailbox p)
      else if type = RT_Object_Class_MessageQueue then Some (OMq p)
      else if type = RT_Object_Class_Timer then Some (OTimer (Timer p))
      else if type = RT_Object_Class_Device then Some (ODevice p)
      else None)"

section \<open>The operations of object.c\<close>

text \<open>The container table: the class and the size of its structures (ILP32).\<close>

definition rt_object_container :: "(u8 \<times> u32) list" where
  "rt_object_container =
     [(RT_Object_Class_Thread, 128), (RT_Object_Class_Semaphore, 32), (RT_Object_Class_Mutex, 36),
      (RT_Object_Class_Event, 32), (RT_Object_Class_MailBox, 48), (RT_Object_Class_MessageQueue, 60),
      (RT_Object_Class_Device, 68), (RT_Object_Class_Timer, 44)]"

definition rt_object_get_information :: "u8 \<Rightarrow> u32 option" where
  "rt_object_get_information type = map_of rt_object_container type"

definition rt_object_get_length :: "u8 \<Rightarrow> kernel \<Rightarrow> nat" where
  "rt_object_get_length type k =
     (case rt_object_get_information type of None \<Rightarrow> 0 | Some _ \<Rightarrow> length (k_objects k type))"

definition rt_object_get_pointers :: "u8 \<Rightarrow> int \<Rightarrow> kernel \<Rightarrow> oid list" where
  "rt_object_get_pointers type maxlen k =
     (if maxlen \<le> 0 then []
      else case rt_object_get_information type of
             None \<Rightarrow> []
           | Some _ \<Rightarrow> take (nat maxlen) (k_objects k type))"

definition rt_object_init :: "oid \<Rightarrow> u8 \<Rightarrow> u8 list \<Rightarrow> kernel \<Rightarrow> kernel option" where
  "rt_object_init obj type name k = do {
     rt_assert (rt_object_get_information type \<noteq> None);
     k \<leftarrow> Some (rt_enter_critical k);
     rt_assert (obj \<notin> set (k_objects k type));
     k \<leftarrow> rt_exit_critical k;
     k \<leftarrow> Some (upd_header obj (\<lambda>ob. ob\<lparr>ob_type := type OR RT_Object_Class_Static,
                                   ob_name := rt_strncpy RT_NAME_MAX name\<rparr>) k);
     Some (k\<lparr>k_objects := (k_objects k)(type := obj # k_objects k type)\<rparr>)
   }"

definition rt_object_detach :: "oid \<Rightarrow> kernel \<Rightarrow> kernel option" where
  "rt_object_detach obj k = do {
     ob \<leftarrow> obj_header obj k;
     k \<leftarrow> Some (upd_header obj (\<lambda>ob. ob\<lparr>ob_type := 0\<rparr>) k);
     Some (k\<lparr>k_objects := (\<lambda>c. removeAll obj (k_objects k c))\<rparr>)
   }"

definition rt_object_allocate :: "u8 \<Rightarrow> u8 list \<Rightarrow> kernel \<Rightarrow> (oid option \<times> kernel) option" where
  "rt_object_allocate type name k = do {
     rt_assert (k_irq_nest k = 0);
     object_size \<leftarrow> rt_object_get_information type;
     (p, h) \<leftarrow> rt_malloc object_size (k_irq_nest k) (k_heap k);
     k \<leftarrow> Some (k\<lparr>k_heap := h\<rparr>);
     case p of
       None \<Rightarrow> Some (None, k)
     | Some a \<Rightarrow> do {
         obj \<leftarrow> obj_at type a;
         k \<leftarrow> Some (upd_header obj (\<lambda>_. \<lparr>ob_name = rt_strncpy RT_NAME_MAX name, ob_type = type, ob_flag = 0\<rparr>)
                (drop_object obj k));
         Some (Some obj, k\<lparr>k_objects := (k_objects k)(type := obj # k_objects k type)\<rparr>)
       }
   }"

definition rt_object_delete :: "oid \<Rightarrow> kernel \<Rightarrow> kernel option" where
  "rt_object_delete obj k = do {
     ob \<leftarrow> obj_header obj k;
     rt_assert (ob_type ob AND RT_Object_Class_Static = 0);
     k \<leftarrow> Some (k\<lparr>k_objects := (\<lambda>c. removeAll obj (k_objects k c))\<rparr>);
     h \<leftarrow> rt_free (Some (obj_addr obj)) (k_irq_nest k) (k_heap k);
     Some (drop_object obj (k\<lparr>k_heap := h\<rparr>))
   }"

definition rt_object_is_systemobject :: "rt_object \<Rightarrow> bool" where
  "rt_object_is_systemobject ob \<longleftrightarrow> ob_type ob AND RT_Object_Class_Static \<noteq> 0"

definition rt_object_get_type :: "rt_object \<Rightarrow> u8" where
  "rt_object_get_type ob = ob_type ob AND NOT RT_Object_Class_Static"

definition rt_object_find :: "u8 list \<Rightarrow> u8 \<Rightarrow> kernel \<Rightarrow> (oid option \<times> kernel) option" where
  "rt_object_find name type k =
     (case rt_object_get_information type of
        None \<Rightarrow> Some (None, k)
      | Some _ \<Rightarrow> do {
          rt_assert (k_irq_nest k = 0);
          k \<leftarrow> Some (rt_enter_critical k);
          found \<leftarrow> Some (find (\<lambda>obj. case obj_header obj k of
                               Some ob \<Rightarrow> rt_strncmp (ob_name ob) name RT_NAME_MAX = 0
                             | None \<Rightarrow> False) (k_objects k type));
          k \<leftarrow> rt_exit_critical k;
          Some (found, k)
        })"

section \<open>Names\<close>

lemma length_rt_strncpy [simp]: "length (rt_strncpy n s) = n"
  by (induction n s rule: rt_strncpy.induct) auto

text \<open>
  Two names compare equal in \<open>n\<close> characters exactly when their fields of \<open>n\<close> bytes are the same; comparing
  a field with a string is comparing the strings.
\<close>

lemma sint_zero: "sint (a :: u8) = 0 \<longleftrightarrow> a = 0"
  by (metis signed_0 signed_word_eqI)

lemma sint_sub_zero: "sint (a - b :: u8) = 0 \<longleftrightarrow> a = b"
  by (simp add: sint_zero)

lemma rt_strncmp_eq: "rt_strncmp s t n = 0 \<longleftrightarrow> rt_strncpy n s = rt_strncpy n t"
proof (induction n arbitrary: s t)
  case (Suc n)
  show ?case
    by (cases s; cases t) (use Suc.IH in \<open>auto simp: char_at_def Let_def sint_sub_zero sint_zero\<close>)
qed simp

lemma rt_strncpy_idem: "rt_strncpy n (rt_strncpy n s) = rt_strncpy n s"
proof (induction n s rule: rt_strncpy.induct)
  case (3 n c s)
  then show ?case by (cases "c = 0") auto
qed auto

lemma rt_strncmp_field: "rt_strncmp (rt_strncpy n s) t n = 0 \<longleftrightarrow> rt_strncpy n s = rt_strncpy n t"
  by (simp add: rt_strncmp_eq rt_strncpy_idem)

section \<open>Registering and finding\<close>

text \<open>The objects whose headers the kernel invariant does not speak of.\<close>

fun ipc_object :: "oid \<Rightarrow> bool" where
  "ipc_object (OThread _) = False"
| "ipc_object (OTimer _) = False"
| "ipc_object _ = True"

lemma upd_header_frame [simp]:
  assumes "ipc_object obj"
  shows "kinvx X (upd_header obj f k) = kinvx X k" "k_irq_nest (upd_header obj f k) = k_irq_nest k"
    "k_lock_nest (upd_header obj f k) = k_lock_nest k" "k_objects (upd_header obj f k) = k_objects k"
    "k_current (upd_header obj f k) = k_current k"
  using assms by (cases obj; simp add: kinvx_def)+

lemma obj_header_upd_header: "\<exists>ob. obj_header obj (upd_header obj f k) = Some (f ob)"
  by (cases obj) auto

lemma obj_header_frame: "core_frame k k' \<Longrightarrow> ipc_object obj \<Longrightarrow> obj_header obj k' = obj_header obj k"
  by (cases obj) (simp_all add: core_frameD)

lemma obj_header_lock [simp]:
  "obj_header obj (k\<lparr>k_lock_nest := n\<rparr>) = obj_header obj k" "obj_header obj (k\<lparr>k_objects := C\<rparr>) = obj_header obj k"
  by (cases obj; simp)+

lemma kinvx_objects [simp]: "kinvx X (k\<lparr>k_objects := C\<rparr>) = kinvx X k"
  by (simp add: kinvx_def)

definition named :: "u8 list \<Rightarrow> kernel \<Rightarrow> oid \<Rightarrow> bool" where
  "named name k obj \<longleftrightarrow> (\<exists>ob. obj_header obj k = Some ob \<and> rt_strncpy RT_NAME_MAX (ob_name ob) = rt_strncpy RT_NAME_MAX name)"

lemma rt_object_find_returns:
  assumes "kinv k" and "k_irq_nest k = 0" and "k_lock_nest k < 0x7fff" and "rt_object_get_information type \<noteq> None"
  shows "returns (rt_object_find name type k) (\<lambda>(r, k'). r = find (named name k) (k_objects k type) \<and>
    kinv k' \<and> core_frame k k' \<and> sched_rel k k')"
proof -
  have "(\<lambda>obj. case obj_header obj (rt_enter_critical k) of None \<Rightarrow> False
      | Some ob \<Rightarrow> rt_strncmp (ob_name ob) name RT_NAME_MAX = 0) = named name k"
    by (auto simp: fun_eq_iff named_def rt_strncmp_eq rt_enter_critical_def split: option.splits)
  moreover have "k_objects (rt_enter_critical k) = k_objects k" by (simp add: rt_enter_critical_def)
  ultimately show ?thesis
    using assms(2,4) critical_pair_returns [OF assms(1,3)]
    by (auto simp: rt_object_find_def elim!: returns_mono)
qed

lemma rt_object_init_returns:
  assumes "kinv k" and "k_lock_nest k < 0x7fff" and "rt_object_get_information type \<noteq> None"
    and "ipc_object obj" and "obj \<notin> set (k_objects k type)"
  shows "returns (rt_object_init obj type name k) (\<lambda>k'. kinv k' \<and> k_irq_nest k' = k_irq_nest k \<and>
    k_lock_nest k' = k_lock_nest k \<and> k_objects k' = (k_objects k)(type := obj # k_objects k type) \<and>
    (\<exists>ob. obj_header obj k' = Some ob \<and> ob_name ob = rt_strncpy RT_NAME_MAX name \<and>
       ob_type ob = type OR RT_Object_Class_Static))"
proof -
  have o: "\<exists>ob'. obj_header obj (upd_header obj (\<lambda>ob. ob\<lparr>ob_type := ty, ob_name := nm\<rparr>) k1) = Some ob' \<and>
      ob_name ob' = nm \<and> ob_type ob' = ty" for k1 ty nm
    using obj_header_upd_header [of obj "\<lambda>ob. ob\<lparr>ob_type := ty, ob_name := nm\<rparr>" k1] by auto
  have "obj \<notin> set (k_objects (rt_enter_critical k) type)" using assms(5) by (simp add: rt_enter_critical_def)
  then show ?thesis
    using critical_pair_returns [OF assms(1,2)] assms(3,4) o
    by (auto simp: rt_object_init_def core_frameD elim!: returns_mono)
qed

text \<open>
  Round trip of names: after an IPC object is initialised with a name, \<^verbatim>\<open>rt_object_find\<close> for any string
  that agrees with the name in its first eight characters finds that object, whatever other objects of the
  class bear the same name; both calls return and keep the kernel invariant.
\<close>

theorem rt_object_init_find:
  assumes "kinv k" and "k_irq_nest k = 0" and "k_lock_nest k < 0x7fff" and "rt_object_get_information type \<noteq> None"
    and "ipc_object obj" and "obj \<notin> set (k_objects k type)"
    and "rt_strncpy RT_NAME_MAX other = rt_strncpy RT_NAME_MAX name"
  shows "returns (Option.bind (rt_object_init obj type name k) (rt_object_find other type))
    (\<lambda>(r, k'). r = Some obj \<and> kinv k')"
proof (rule returns_bindI [OF rt_object_init_returns [OF assms(1,3-6), of name]], elim conjE exE)
  fix k' ob
  assume k': "kinv k'" "k_irq_nest k' = k_irq_nest k" "k_lock_nest k' = k_lock_nest k"
    and o: "k_objects k' = (k_objects k)(type := obj # k_objects k type)" "obj_header obj k' = Some ob"
      "ob_name ob = rt_strncpy RT_NAME_MAX name"
  have "named other k' obj" using o assms(7) by (simp add: named_def rt_strncpy_idem)
  then have "find (named other k') (k_objects k' type) = Some obj" using o by simp
  then show "returns (rt_object_find other type k') (\<lambda>(r, k'). r = Some obj \<and> kinv k')"
    using rt_object_find_returns [of k' type other] k' assms(2-4) by (auto elim!: returns_mono)
qed

theorem rt_object_init_find_witness:
  "returns (Option.bind (rt_object_init (OSem 102) RT_Object_Class_Semaphore [104, 101, 97, 112, 95, 115, 101, 109, 49] sample_kernel)
      (rt_object_find [104, 101, 97, 112, 95, 115, 101, 109] RT_Object_Class_Semaphore)) (\<lambda>(r, k'). r = Some (OSem 102) \<and> kinv k')"
proof (rule rt_object_init_find)
  show "rt_object_get_information RT_Object_Class_Semaphore \<noteq> None"
    by (simp add: rt_object_get_information_def rt_object_container_def)
  show "OSem 102 \<notin> set (k_objects sample_kernel RT_Object_Class_Semaphore)" by (simp add: sample_kernel_def)
  show "rt_strncpy RT_NAME_MAX [104, 101, 97, 112, 95, 115, 101, 109] = rt_strncpy RT_NAME_MAX [104, 101, 97, 112, 95, 115, 101, 109, 49]"
    by (simp add: numeral_eq_Suc)
qed simp_all

end
