(* ===== verification/Timer.thy ===== *)
theory Timer
  imports Object
begin

text \<open>
  The timers of \<^verbatim>\<open>timer.c\<close>: initialisation, start, stop, control, detach, creation and deletion.  (The check
  that runs the expired timers is in \<open>Clock\<close>, because it calls \<^verbatim>\<open>rt_thread_timeout\<close>.)  The skip list has one
  level, so the timer list is one list; \<open>k_timer_tmp\<close> is the local list of \<^verbatim>\<open>rt_timer_check\<close>, from which
  removing a timer's node also takes it.

  The list is kept in the order of the timeouts, compared modulo the wrap-around of the tick: \<open>timer_order\<close>.
\<close>

section \<open>The operations\<close>

definition set_flags :: "(u8 \<Rightarrow> u8) \<Rightarrow> rt_timer \<Rightarrow> rt_timer" where
  "set_flags f tm = tm\<lparr>tm_parent := (tm_parent tm)\<lparr>ob_flag := f (ob_flag (tm_parent tm))\<rparr>\<rparr>"

definition deactivate :: "rt_timer \<Rightarrow> rt_timer" where
  "deactivate = set_flags (\<lambda>f. f AND NOT RT_TIMER_FLAG_ACTIVATED)"

definition activate :: "rt_timer \<Rightarrow> rt_timer" where
  "activate = set_flags (\<lambda>f. f OR RT_TIMER_FLAG_ACTIVATED)"

definition rt_timer_init' :: "timer_ref \<Rightarrow> timer_fn \<Rightarrow> nat \<Rightarrow> u32 \<Rightarrow> u8 \<Rightarrow> kernel \<Rightarrow> kernel option" where
  "rt_timer_init' timer timeout parameter time flag k = do {
     k \<leftarrow> mod_timer timer (set_flags (\<lambda>_. flag)) k;
     k \<leftarrow> mod_timer timer deactivate k;
     mod_timer timer (\<lambda>tm. tm\<lparr>tm_timeout_func := timeout, tm_parameter := parameter,
                              tm_timeout_tick := 0, tm_init_tick := time\<rparr>) k
   }"

definition rt_timer_list_next_timeout :: "kernel \<Rightarrow> u32 option" where
  "rt_timer_list_next_timeout k =
     (case k_timer_list k of
        [] \<Rightarrow> Some RT_TICK_MAX
      | r # _ \<Rightarrow> do { tm \<leftarrow> k_timers k r; Some (tm_timeout_tick tm) })"

definition rt_timer_next_timeout_tick :: "kernel \<Rightarrow> u32 option" where
  "rt_timer_next_timeout_tick k = rt_timer_list_next_timeout k"

definition rt_timer_remove :: "timer_ref \<Rightarrow> kernel \<Rightarrow> kernel" where
  "rt_timer_remove r k = k\<lparr>k_timer_list := removeAll r (k_timer_list k),
                          k_timer_tmp := removeAll r (k_timer_tmp k)\<rparr>"

definition rt_timer_init :: "timer_ref \<Rightarrow> u8 list \<Rightarrow> timer_fn \<Rightarrow> nat \<Rightarrow> u32 \<Rightarrow> u8 \<Rightarrow> kernel \<Rightarrow> kernel option" where
  "rt_timer_init timer name timeout parameter time flag k = do {
     k \<leftarrow> rt_object_init (OTimer timer) RT_Object_Class_Timer name k;
     rt_timer_init' timer timeout parameter time flag k
   }"

definition rt_timer_detach :: "timer_ref \<Rightarrow> kernel \<Rightarrow> kernel option" where
  "rt_timer_detach timer k = do {
     tm \<leftarrow> k_timers k timer;
     rt_assert (is_timer_object tm);
     rt_assert (rt_object_is_systemobject (tm_parent tm));
     k \<leftarrow> Some (rt_timer_remove timer k);
     k \<leftarrow> mod_timer timer deactivate k;
     rt_object_detach (OTimer timer) k
   }"

definition rt_timer_create :: "u8 list \<Rightarrow> timer_fn \<Rightarrow> nat \<Rightarrow> u32 \<Rightarrow> u8 \<Rightarrow> kernel \<Rightarrow> (nat option \<times> kernel) option" where
  "rt_timer_create name timeout parameter time flag k = do {
     (obj, k) \<leftarrow> rt_object_allocate RT_Object_Class_Timer name k;
     case obj of
       None \<Rightarrow> Some (None, k)
     | Some ob \<Rightarrow> do {
         k \<leftarrow> rt_timer_init' (Timer (obj_addr ob)) timeout parameter time flag k;
         Some (Some (obj_addr ob), k)
       }
   }"

definition rt_timer_delete :: "nat \<Rightarrow> kernel \<Rightarrow> kernel option" where
  "rt_timer_delete n k = do {
     tm \<leftarrow> k_timers k (Timer n);
     rt_assert (is_timer_object tm);
     rt_assert (\<not> rt_object_is_systemobject (tm_parent tm));
     k \<leftarrow> Some (rt_timer_remove (Timer n) k);
     k \<leftarrow> mod_timer (Timer n) deactivate k;
     rt_object_delete (OTimer (Timer n)) k
   }"

text \<open>The search for the place of a timer that expires at \<open>to\<close>, and its insertion there.\<close>

fun timer_insert :: "(timer_ref \<rightharpoonup> rt_timer) \<Rightarrow> u32 \<Rightarrow> timer_ref \<Rightarrow> timer_ref list \<Rightarrow> timer_ref list option" where
  "timer_insert M to r [] = Some [r]"
| "timer_insert M to r (t # ts) = do {
     tm \<leftarrow> M t;
     if tm_timeout_tick tm - to = 0 then map_option (Cons t) (timer_insert M to r ts)
     else if tm_timeout_tick tm - to < RT_TICK_MAX_HALF then Some (r # t # ts)
     else map_option (Cons t) (timer_insert M to r ts)
   }"

definition rt_timer_start :: "timer_ref \<Rightarrow> kernel \<Rightarrow> kernel option" where
  "rt_timer_start timer k = do {
     tm \<leftarrow> k_timers k timer;
     rt_assert (is_timer_object tm);
     k \<leftarrow> Some (rt_timer_remove timer k);
     k \<leftarrow> mod_timer timer deactivate k;
     rt_assert (tm_init_tick tm < RT_TICK_MAX_HALF);
     to \<leftarrow> Some (k_tick k + tm_init_tick tm);
     k \<leftarrow> mod_timer timer (\<lambda>tm. tm\<lparr>tm_timeout_tick := to\<rparr>) k;
     TL \<leftarrow> timer_insert (k_timers k) to timer (k_timer_list k);
     k \<leftarrow> Some (k\<lparr>k_timer_list := TL\<rparr>);
     mod_timer timer activate k
   }"

definition rt_timer_stop :: "timer_ref \<Rightarrow> kernel \<Rightarrow> (int \<times> kernel) option" where
  "rt_timer_stop timer k = do {
     tm \<leftarrow> k_timers k timer;
     rt_assert (is_timer_object tm);
     if \<not> timer_activated tm then Some (- RT_ERROR, k)
     else do {
       k \<leftarrow> Some (rt_timer_remove timer k);
       k \<leftarrow> mod_timer timer deactivate k;
       Some (RT_EOK, k)
     }
   }"

text \<open>\<^verbatim>\<open>rt_timer_control\<close> returns \<^verbatim>\<open>RT_EOK\<close>; the model returns what \<^verbatim>\<open>*arg\<close> holds afterwards.\<close>

definition rt_timer_control :: "timer_ref \<Rightarrow> nat \<Rightarrow> u32 \<Rightarrow> kernel \<Rightarrow> (u32 \<times> kernel) option" where
  "rt_timer_control timer cmd arg k = do {
     tm \<leftarrow> k_timers k timer;
     rt_assert (is_timer_object tm);
     if cmd = 0x1 then Some (tm_init_tick tm, k)
     else if cmd = 0x0 then do {
       k \<leftarrow> mod_timer timer (\<lambda>tm. tm\<lparr>tm_init_tick := arg\<rparr>) k;
       Some (arg, k)
     }
     else if cmd = 0x2 then do {
       k \<leftarrow> mod_timer timer (set_flags (\<lambda>f. f AND NOT RT_TIMER_FLAG_PERIODIC)) k;
       Some (arg, k)
     }
     else if cmd = 0x3 then do {
       k \<leftarrow> mod_timer timer (set_flags (\<lambda>f. f OR RT_TIMER_FLAG_PERIODIC)) k;
       Some (arg, k)
     }
     else if cmd = 0x4 then Some (if timer_activated tm then 1 else 0, k)
     else Some (arg, k)
   }"

definition rt_system_timer_init :: "kernel \<Rightarrow> kernel" where
  "rt_system_timer_init k = k\<lparr>k_timer_list := []\<rparr>"

abbreviation RT_TIMER_CTRL_SET_TIME :: nat where "RT_TIMER_CTRL_SET_TIME \<equiv> 0x0"
abbreviation RT_TIMER_CTRL_GET_TIME :: nat where "RT_TIMER_CTRL_GET_TIME \<equiv> 0x1"
abbreviation RT_TIMER_CTRL_SET_ONESHOT :: nat where "RT_TIMER_CTRL_SET_ONESHOT \<equiv> 0x2"
abbreviation RT_TIMER_CTRL_SET_PERIODIC :: nat where "RT_TIMER_CTRL_SET_PERIODIC \<equiv> 0x3"
abbreviation RT_TIMER_CTRL_GET_STATE :: nat where "RT_TIMER_CTRL_GET_STATE \<equiv> 0x4"

section \<open>Flags\<close>

lemma flag_words:
  "((f :: u8) AND NOT 1) AND 1 = 0" "((f :: u8) AND NOT 1) AND 2 = f AND 2"
  "((f :: u8) OR 1) AND 1 = 1" "((f :: u8) OR 1) AND 2 = f AND 2"
  "((f :: u8) AND NOT 2) AND 2 = 0" "((f :: u8) AND NOT 2) AND 1 = f AND 1"
  by (rule and_not_and_zero or_and_self | simp only: and.assoc bit.conj_disj_distrib2, simp)+

lemma set_flags_fields [simp]:
  "tm_timeout_func (set_flags f tm) = tm_timeout_func tm" "tm_parameter (set_flags f tm) = tm_parameter tm"
  "tm_init_tick (set_flags f tm) = tm_init_tick tm" "tm_timeout_tick (set_flags f tm) = tm_timeout_tick tm"
  "is_timer_object (set_flags f tm) = is_timer_object tm"
  "ob_flag (tm_parent (set_flags f tm)) = f (ob_flag (tm_parent tm))"
  "ob_type (tm_parent (set_flags f tm)) = ob_type (tm_parent tm)"
  by (simp_all add: set_flags_def is_timer_object_def)

lemma deactivate_fields [simp]:
  "tm_timeout_func (deactivate tm) = tm_timeout_func tm" "tm_parameter (deactivate tm) = tm_parameter tm"
  "tm_init_tick (deactivate tm) = tm_init_tick tm" "tm_timeout_tick (deactivate tm) = tm_timeout_tick tm"
  "is_timer_object (deactivate tm) = is_timer_object tm" "\<not> timer_activated (deactivate tm)"
  "timer_periodic (deactivate tm) = timer_periodic tm"
  "ob_type (tm_parent (deactivate tm)) = ob_type (tm_parent tm)"
  by (simp_all only: deactivate_def set_flags_fields timer_activated_def timer_periodic_def flag_words, simp?)

lemma activate_fields [simp]:
  "tm_timeout_func (activate tm) = tm_timeout_func tm" "tm_parameter (activate tm) = tm_parameter tm"
  "tm_init_tick (activate tm) = tm_init_tick tm" "tm_timeout_tick (activate tm) = tm_timeout_tick tm"
  "is_timer_object (activate tm) = is_timer_object tm" "timer_activated (activate tm)"
  "timer_periodic (activate tm) = timer_periodic tm"
  "ob_type (tm_parent (activate tm)) = ob_type (tm_parent tm)"
  by (simp_all only: activate_def set_flags_fields timer_activated_def timer_periodic_def flag_words, simp?)

section \<open>The invariant of the timers\<close>

lemma mod_timer_eq [kstep]:
  "k_timers k r = Some tm \<Longrightarrow> mod_timer r f k = Some (k\<lparr>k_timers := (k_timers k)(r \<mapsto> f tm)\<rparr>)"
  by (simp add: mod_timer_def)

lemma thread_timer_wf_fields [simp]:
  "thread_timer_wf t (deactivate tm) = thread_timer_wf t tm" "thread_timer_wf t (activate tm) = thread_timer_wf t tm"
  "thread_timer_wf t (tm\<lparr>tm_timeout_tick := n\<rparr>) = thread_timer_wf t tm"
  "thread_timer_wf t (tm\<lparr>tm_init_tick := n\<rparr>) = thread_timer_wf t tm"
  by (simp_all add: thread_timer_wf_def timer_static_def) (simp_all add: timer_periodic_def)

lemma is_timer_object_fields [simp]:
  "is_timer_object (tm\<lparr>tm_timeout_tick := n\<rparr>) = is_timer_object tm"
  "is_timer_object (tm\<lparr>tm_init_tick := n\<rparr>) = is_timer_object tm"
  "timer_activated (tm\<lparr>tm_timeout_tick := n\<rparr>) = timer_activated tm"
  "timer_activated (tm\<lparr>tm_init_tick := n\<rparr>) = timer_activated tm"
  "timer_periodic (tm\<lparr>tm_timeout_tick := n\<rparr>) = timer_periodic tm"
  "timer_periodic (tm\<lparr>tm_init_tick := n\<rparr>) = timer_periodic tm"
  by (simp_all add: is_timer_object_def timer_activated_def timer_periodic_def)

text \<open>A timer that is off the list may be rewritten, as long as it stays the same kind of timer.\<close>

definition same_kind :: "rt_timer \<Rightarrow> rt_timer \<Rightarrow> bool" where
  "same_kind tm tm' \<longleftrightarrow> is_timer_object tm' = is_timer_object tm \<and> tm_timeout_func tm' = tm_timeout_func tm \<and>
     tm_parameter tm' = tm_parameter tm \<and> timer_periodic tm' = timer_periodic tm \<and> timer_static tm' = timer_static tm"

lemma same_kind_func: "same_kind tm tm' \<Longrightarrow> tm_timeout_func tm' = tm_timeout_func tm"
  by (simp add: same_kind_def)

lemma timer_static_fields [simp]:
  "timer_static (deactivate tm) = timer_static tm" "timer_static (activate tm) = timer_static tm"
  "timer_static (tm\<lparr>tm_timeout_tick := n\<rparr>) = timer_static tm" "timer_static (tm\<lparr>tm_init_tick := n\<rparr>) = timer_static tm"
  by (simp_all add: timer_static_def)

lemma same_kind_thread: "same_kind tm tm' \<Longrightarrow> thread_timer_wf t tm' = thread_timer_wf t tm"
  by (simp add: same_kind_def thread_timer_wf_def)

lemma same_kind_own:
  assumes "M r = Some tm" and "same_kind tm tm'"
    and "\<exists>x. M (Thread_timer t) = Some x \<and> is_timer_object x \<and> thread_timer_wf t x"
  shows "\<exists>x. (M(r \<mapsto> tm')) (Thread_timer t) = Some x \<and> is_timer_object x \<and> thread_timer_wf t x"
proof (cases "r = Thread_timer t")
  case True
  then have "is_timer_object tm \<and> thread_timer_wf t tm" using assms(1,3) by simp
  moreover have "is_timer_object tm' = is_timer_object tm" using assms(2) by (simp add: same_kind_def)
  ultimately show ?thesis using same_kind_thread [OF assms(2)] True by simp
qed (use assms(3) in simp)

lemma tinv_stop:
  assumes i: "tinv X M TL tmp T" and r: "M r = Some tm" and k: "same_kind tm tm'" "\<not> timer_activated tm'"
  shows "tinv X (M(r \<mapsto> tm')) (removeAll r TL) (removeAll r tmp) T"
proof (rule tinvI)
  show "distinct (removeAll r TL)" using tinvD(1) [OF i] by (rule distinct_removeAll)
  show "q \<notin> set (removeAll r tmp)" if "q \<in> set (removeAll r TL)" for q
    using tinvD(2) [OF i, of q] that by simp
  show "\<exists>tm. (M(r \<mapsto> tm')) q = Some tm \<and> listed_ok tm" if "q \<in> set (removeAll r TL)" for q
    using tinvD(3) [OF i, of q] that by simp
  show "\<exists>th. T t = Some th \<and> thread_stat th = RT_THREAD_SUSPEND"
    if "Thread_timer t \<in> set (removeAll r TL)" "t \<notin> X" for t
    using tinvD(4) [OF i _ that(2)] that(1) by simp
  show "\<exists>tm. (M(r \<mapsto> tm')) (Thread_timer t) = Some tm \<and> is_timer_object tm \<and> thread_timer_wf t tm"
    if "T t = Some th" "t \<notin> X" "thread_stat th \<noteq> RT_THREAD_CLOSE" for t th
    by (rule same_kind_own [OF r _ tinvD(5) [OF i that]]) (rule k)
  show "q \<in> set (removeAll r TL)"
    if "(M(r \<mapsto> tm')) q = Some tm0" "timer_activated tm0" "\<not> timer_periodic tm0" for q tm0
    using tinvD(6) [OF i, of q tm0] that k(2) by (auto split: if_splits)
  show "tm_timeout_func tm0 \<noteq> Rt_thread_timeout" if "(M(r \<mapsto> tm')) (Timer n) = Some tm0" for n tm0
    using tinvD(7) [OF i, of n] r same_kind_func [OF k(1)] that by (cases "Timer n = r") simp_all
qed

lemma tinv_start:
  assumes i: "tinv X M TL tmp T" and r: "M r = Some tm" and k: "same_kind tm tm'" "listed_ok tm'"
    and out: "r \<notin> set TL" "r \<notin> set tmp" and ins: "set TL' = insert r (set TL)" "distinct TL'"
    and s: "\<And>t. r = Thread_timer t \<Longrightarrow> t \<notin> X \<Longrightarrow> \<exists>th. T t = Some th \<and> thread_stat th = RT_THREAD_SUSPEND"
  shows "tinv X (M(r \<mapsto> tm')) TL' tmp T"
proof (rule tinvI)
  show "q \<notin> set tmp" if "q \<in> set TL'" for q
    using tinvD(2) [OF i, of q] that out ins by auto
  show "\<exists>tm. (M(r \<mapsto> tm')) q = Some tm \<and> listed_ok tm" if "q \<in> set TL'" for q
    using tinvD(3) [OF i, of q] that k ins by auto
  show "\<exists>th. T t = Some th \<and> thread_stat th = RT_THREAD_SUSPEND" if "Thread_timer t \<in> set TL'" "t \<notin> X" for t
    using tinvD(4) [OF i _ that(2)] that(1) s [OF _ that(2)] ins by auto
  show "\<exists>tm. (M(r \<mapsto> tm')) (Thread_timer t) = Some tm \<and> is_timer_object tm \<and> thread_timer_wf t tm"
    if "T t = Some th" "t \<notin> X" "thread_stat th \<noteq> RT_THREAD_CLOSE" for t th
    by (rule same_kind_own [OF r _ tinvD(5) [OF i that]]) (rule k)
  show "q \<in> set TL'"
    if "(M(r \<mapsto> tm')) q = Some tm0" "timer_activated tm0" "\<not> timer_periodic tm0" for q tm0
    using tinvD(6) [OF i, of q tm0] that ins by (auto split: if_splits)
  show "tm_timeout_func tm0 \<noteq> Rt_thread_timeout" if "(M(r \<mapsto> tm')) (Timer n) = Some tm0" for n tm0
    using tinvD(7) [OF i, of n] r same_kind_func [OF k(1)] that by (cases "Timer n = r") simp_all
qed (fact ins)

text \<open>Rewriting a timer that is not activated, or is on the list and stays fit for it.\<close>

lemma tinv_upd_timer:
  assumes i: "tinv X M TL tmp T" and r: "M r = Some tm" and k: "same_kind tm tm'"
    and a: "timer_activated tm' \<longrightarrow> timer_activated tm" "r \<in> set TL \<Longrightarrow> listed_ok tm'"
  shows "tinv X (M(r \<mapsto> tm')) TL tmp T"
proof (rule tinvI)
  show "\<exists>tm. (M(r \<mapsto> tm')) q = Some tm \<and> listed_ok tm" if "q \<in> set TL" for q
    using tinvD(3) [OF i, of q] that a by auto
  show "\<exists>tm. (M(r \<mapsto> tm')) (Thread_timer t) = Some tm \<and> is_timer_object tm \<and> thread_timer_wf t tm"
    if "T t = Some th" "t \<notin> X" "thread_stat th \<noteq> RT_THREAD_CLOSE" for t th
    by (rule same_kind_own [OF r _ tinvD(5) [OF i that]]) (rule k)
  show "q \<in> set TL"
    if "(M(r \<mapsto> tm')) q = Some tm0" "timer_activated tm0" "\<not> timer_periodic tm0" for q tm0
    using tinvD(6) [OF i, of q tm0] tinvD(6) [OF i r] that k a by (auto simp: same_kind_def split: if_splits)
  show "tm_timeout_func tm0 \<noteq> Rt_thread_timeout" if "(M(r \<mapsto> tm')) (Timer n) = Some tm0" for n tm0
    using tinvD(7) [OF i, of n] r same_kind_func [OF k(1)] that by (cases "Timer n = r") simp_all
qed (fact tinvD [OF i])+

lemma same_kind_deactivate [simp]: "same_kind tm (deactivate tm)"
  and same_kind_activate [simp]: "same_kind tm (activate tm)"
  by (simp_all add: same_kind_def)

section \<open>Stopping a timer\<close>

definition stopped :: "timer_ref \<Rightarrow> rt_timer \<Rightarrow> kernel \<Rightarrow> kernel" where
  "stopped r tm k = (rt_timer_remove r k)\<lparr>k_timers := (k_timers k)(r \<mapsto> deactivate tm)\<rparr>"

lemma stopped_fields [simp]:
  "k_threads (stopped r tm k) = k_threads k" "k_lists (stopped r tm k) = k_lists k"
  "k_ready_group (stopped r tm k) = k_ready_group k" "k_current (stopped r tm k) = k_current k"
  "k_timers (stopped r tm k) = (k_timers k)(r \<mapsto> deactivate tm)"
  "k_timer_list (stopped r tm k) = removeAll r (k_timer_list k)"
  "k_timer_tmp (stopped r tm k) = removeAll r (k_timer_tmp k)"
  "k_tick (stopped r tm k) = k_tick k" "k_lock_nest (stopped r tm k) = k_lock_nest k"
  "k_irq_nest (stopped r tm k) = k_irq_nest k" "k_objects (stopped r tm k) = k_objects k"
  "k_heap (stopped r tm k) = k_heap k"
  by (simp_all add: stopped_def rt_timer_remove_def)

lemma kinvx_stopped: "kinvx X k \<Longrightarrow> k_timers k r = Some tm \<Longrightarrow> kinvx X (stopped r tm k)"
  by (simp add: kinvx_def tinv_stop)

lemma rt_timer_stop_cases:
  assumes "k_timers k r = Some tm" and "is_timer_object tm"
  shows "rt_timer_stop r k =
    Some (if timer_activated tm then (RT_EOK, stopped r tm k) else (- RT_ERROR, k))"
  using assms by (simp add: rt_timer_stop_def stopped_def mod_timer_def rt_timer_remove_def)

lemma rt_timer_stop_kinvx:
  assumes i: "kinvx X k" and r: "k_timers k r = Some tm" "is_timer_object tm"
  shows "returns (rt_timer_stop r k) (\<lambda>(_, k'). kinvx X k' \<and> r \<notin> set (k_timer_list k') \<and>
    (k' = k \<or> k' = stopped r tm k))"
proof (cases "timer_activated tm")
  case True
  then show ?thesis using kinvx_stopped [OF i r(1)] by (simp add: rt_timer_stop_cases [OF r])
next
  case False
  then have "r \<notin> set (k_timer_list k)"
    using tinvD(3) [of X "k_timers k" "k_timer_list k" "k_timer_tmp k" "k_threads k" r] i r
    by (auto simp: kinvx_def listed_ok_def)
  with False i show ?thesis by (simp add: rt_timer_stop_cases [OF r])
qed

lemma frames_timer_stop [frame]: "core_frame k k1 \<Longrightarrow> framesr k (rt_timer_stop r k1)"
  unfolding rt_timer_stop_def rt_timer_remove_def by (intro frame)

section \<open>Starting a timer\<close>

lemma timer_insert_splits:
  assumes "\<And>q. q \<in> set TL \<Longrightarrow> M q \<noteq> None"
  shows "\<exists>xs ys. TL = xs @ ys \<and> timer_insert M to r TL = Some (xs @ r # ys)"
  using assms
proof (induction TL)
  case Nil
  then show ?case by simp
next
  case (Cons t ts)
  then obtain tm where tm: "M t = Some tm" by fastforce
  obtain xs ys where IH: "ts = xs @ ys" "timer_insert M to r ts = Some (xs @ r # ys)"
    using Cons by auto
  have "t # ts = (t # xs) @ ys" using IH by simp
  moreover have "t # ts = [] @ (t # ts)" by simp
  ultimately show ?case using IH tm by (auto split: if_splits; metis append_Cons append_Nil)
qed

definition started :: "timer_ref \<Rightarrow> rt_timer \<Rightarrow> timer_ref list \<Rightarrow> kernel \<Rightarrow> kernel" where
  "started r tm TL k = (stopped r tm k)
     \<lparr>k_timers := (k_timers k)(r \<mapsto> activate ((deactivate tm)\<lparr>tm_timeout_tick := k_tick k + tm_init_tick tm\<rparr>)),
      k_timer_list := TL\<rparr>"

lemma started_fields [simp]:
  "k_threads (started r tm TL k) = k_threads k" "k_lists (started r tm TL k) = k_lists k"
  "k_ready_group (started r tm TL k) = k_ready_group k" "k_current (started r tm TL k) = k_current k"
  "k_timers (started r tm TL k) =
     (k_timers k)(r \<mapsto> activate ((deactivate tm)\<lparr>tm_timeout_tick := k_tick k + tm_init_tick tm\<rparr>))"
  "k_timer_list (started r tm TL k) = TL"
  "k_timer_tmp (started r tm TL k) = removeAll r (k_timer_tmp k)"
  "k_tick (started r tm TL k) = k_tick k" "k_lock_nest (started r tm TL k) = k_lock_nest k"
  "k_irq_nest (started r tm TL k) = k_irq_nest k"
  by (simp_all add: started_def)

lemma rt_timer_start_eq:
  assumes "k_timers k r = Some tm" and "is_timer_object tm" and "tm_init_tick tm < RT_TICK_MAX_HALF"
    and "timer_insert ((k_timers k)(r \<mapsto> (deactivate tm)\<lparr>tm_timeout_tick := k_tick k + tm_init_tick tm\<rparr>))
           (k_tick k + tm_init_tick tm) r (removeAll r (k_timer_list k)) = Some TL"
  shows "rt_timer_start r k = Some (started r tm TL k)"
  using assms by (simp add: rt_timer_start_def started_def stopped_def rt_timer_remove_def mod_timer_def)

lemma rt_timer_start_kinvx:
  assumes i: "kinvx X k" and r: "k_timers k r = Some tm" "is_timer_object tm"
    and n: "tm_init_tick tm < RT_TICK_MAX_HALF"
    and s: "\<And>t. r = Thread_timer t \<Longrightarrow> t \<notin> X \<Longrightarrow> \<exists>th. k_threads k t = Some th \<and> thread_stat th = RT_THREAD_SUSPEND"
  shows "returns (rt_timer_start r k) (\<lambda>k'. kinvx X k' \<and>
    (\<exists>xs ys. removeAll r (k_timer_list k) = xs @ ys \<and> k' = started r tm (xs @ r # ys) k))"
proof -
  let ?tm = "(deactivate tm)\<lparr>tm_timeout_tick := k_tick k + tm_init_tick tm\<rparr>"
  let ?TL = "removeAll r (k_timer_list k)"
  have t: "tinv X (k_timers k) (k_timer_list k) (k_timer_tmp k) (k_threads k)"
    using i by (simp add: kinvx_def)
  have d: "((k_timers k)(r \<mapsto> ?tm)) q \<noteq> None" if "q \<in> set ?TL" for q
    using tinvD(3) [OF t, of q] that by auto
  have "\<exists>xs ys. ?TL = xs @ ys \<and>
    timer_insert ((k_timers k)(r \<mapsto> ?tm)) (k_tick k + tm_init_tick tm) r ?TL = Some (xs @ r # ys)"
    by (rule timer_insert_splits) (rule d)
  then obtain xs ys where xy: "?TL = xs @ ys"
    "timer_insert ((k_timers k)(r \<mapsto> ?tm)) (k_tick k + tm_init_tick tm) r ?TL = Some (xs @ r # ys)"
    by (elim exE conjE) (rule that)
  have out: "r \<notin> set xs" "r \<notin> set ys" and dist: "distinct (xs @ ys)"
  proof -
    have "r \<notin> set (xs @ ys)" by (simp flip: xy(1))
    then show "r \<notin> set xs" "r \<notin> set ys" by simp_all
    show "distinct (xs @ ys)" using tinvD(1) [OF t] by (simp flip: xy(1) add: distinct_removeAll)
  qed
  have "tinv X ((k_timers k)(r \<mapsto> ?tm)) ?TL (removeAll r (k_timer_tmp k)) (k_threads k)"
    by (rule tinv_stop [OF t r(1)]) (simp_all add: same_kind_def)
  then have "tinv X ((k_timers k)(r \<mapsto> ?tm, r \<mapsto> activate ?tm)) (xs @ r # ys) (removeAll r (k_timer_tmp k)) (k_threads k)"
  proof (rule tinv_start [where tm = ?tm])
    show "\<exists>th. k_threads k t = Some th \<and> thread_stat th = RT_THREAD_SUSPEND"
      if "r = Thread_timer t" "t \<notin> X" for t
      by (rule s [OF that])
    show "listed_ok (activate ?tm)" using r n by (simp add: listed_ok_def)
    show "r \<notin> set ?TL" "r \<notin> set (removeAll r (k_timer_tmp k))" by simp_all
    show "set (xs @ r # ys) = insert r (set ?TL)" by (simp add: xy(1) del: set_removeAll)
    show "distinct (xs @ r # ys)" using out dist by auto
  qed simp_all
  then have "kinvx X (started r tm (xs @ r # ys) k)" using i by (simp add: kinvx_def)
  then show ?thesis using rt_timer_start_eq [OF r n xy(2)] xy(1) by auto
qed

lemma frames_timer_start [frame]: "core_frame k k1 \<Longrightarrow> frames k (rt_timer_start r k1)"
  unfolding rt_timer_start_def rt_timer_remove_def by (intro frame)

lemma frames_timer_control [frame]: "core_frame k k1 \<Longrightarrow> framesr k (rt_timer_control r c a k1)"
  unfolding rt_timer_control_def by (intro frame)

lemma rt_timer_set_time:
  assumes "k_timers k r = Some tm" and "is_timer_object tm"
  shows "rt_timer_control r RT_TIMER_CTRL_SET_TIME n k =
    Some (n, k\<lparr>k_timers := (k_timers k)(r \<mapsto> tm\<lparr>tm_init_tick := n\<rparr>)\<rparr>)"
  using assms by (simp add: rt_timer_control_def mod_timer_def)

section \<open>The order of the timer list\<close>

text \<open>
  With the tick at \<open>now\<close>, the key of a timer is the number of ticks from \<open>now\<close> to its timeout, modulo \<^verbatim>\<open>2^32\<close>.
  The list is in order when the keys are in the half range and ascending.
\<close>

definition timer_key :: "u32 \<Rightarrow> (timer_ref \<rightharpoonup> rt_timer) \<Rightarrow> timer_ref \<Rightarrow> nat" where
  "timer_key now M r = unat (tm_timeout_tick (the (M r)) - now)"

definition timer_order :: "u32 \<Rightarrow> (timer_ref \<rightharpoonup> rt_timer) \<Rightarrow> timer_ref list \<Rightarrow> bool" where
  "timer_order now M TL \<longleftrightarrow> (\<forall>r \<in> set TL. timer_key now M r < 2 ^ 31 - 1) \<and> sorted (map (timer_key now M) TL)"

lemma later_timeout:
  fixes a b now :: u32
  assumes "unat (a - now) < 2 ^ 31 - 1" and "unat (b - now) < 2 ^ 31 - 1"
  shows "a - b = 0 \<longleftrightarrow> unat (a - now) = unat (b - now)"
    and "a - b < RT_TICK_MAX_HALF \<longleftrightarrow> unat (b - now) \<le> unat (a - now)"
proof -
  have e: "a - b = (a - now) - (b - now)" by simp
  have "a - b = 0 \<longleftrightarrow> a - now = b - now" by simp
  then show "a - b = 0 \<longleftrightarrow> unat (a - now) = unat (b - now)" by (simp only: word_unat_eq_iff)
  have "unat (a - b) = (if b - now \<le> a - now then unat (a - now) - unat (b - now)
      else 2 ^ 32 + unat (a - now) - unat (b - now))"
    using unat_minus_eq [of "a - now" "b - now"] by (simp add: e [symmetric])
  then show "a - b < RT_TICK_MAX_HALF \<longleftrightarrow> unat (b - now) \<le> unat (a - now)"
    using assms by (auto simp: word_less_nat_alt word_le_nat_alt split: if_splits)
qed

lemma timer_insert_ordered:
  assumes "timer_order now M TL" and "\<And>q. q \<in> set TL \<Longrightarrow> M q \<noteq> None" and "unat (to - now) < 2 ^ 31 - 1"
  shows "\<exists>xs ys. TL = xs @ ys \<and> timer_insert M to r TL = Some (xs @ r # ys) \<and>
    (\<forall>x \<in> set xs. timer_key now M x \<le> unat (to - now)) \<and> (\<forall>y \<in> set ys. unat (to - now) < timer_key now M y)"
  using assms
proof (induction TL)
  case Nil
  then show ?case by simp
next
  case (Cons t ts)
  obtain tm where tm: "M t = Some tm" using Cons.prems(2) [of t] by auto
  have key: "timer_key now M t = unat (tm_timeout_tick tm - now)" using tm by (simp add: timer_key_def)
  have "unat (tm_timeout_tick tm - now) < 2 ^ 31 - 1"
    using Cons.prems(1) by (simp add: timer_order_def key)
  note cmp = later_timeout [OF this Cons.prems(3)]
  show ?case
  proof (cases "timer_key now M t \<le> unat (to - now)")
    case True
    have "timer_order now M ts" using Cons.prems(1) by (simp add: timer_order_def)
    then obtain xs ys where IH: "ts = xs @ ys" "timer_insert M to r ts = Some (xs @ r # ys)"
      "\<forall>x \<in> set xs. timer_key now M x \<le> unat (to - now)" "\<forall>y \<in> set ys. unat (to - now) < timer_key now M y"
      using Cons.IH Cons.prems(2,3) by auto
    have "timer_insert M to r (t # ts) = Some ((t # xs) @ r # ys)"
      using True IH(2) tm cmp by (auto simp: key)
    moreover have "t # ts = (t # xs) @ ys" using IH(1) by simp
    moreover have "\<forall>x \<in> set (t # xs). timer_key now M x \<le> unat (to - now)" using IH(3) True by simp
    ultimately show ?thesis using IH(4) by blast
  next
    case False
    have "timer_insert M to r (t # ts) = Some ([] @ r # t # ts)"
      using False tm cmp by (auto simp: key)
    moreover have "\<forall>y \<in> set (t # ts). unat (to - now) < timer_key now M y"
      using False Cons.prems(1) by (auto simp: timer_order_def)
    ultimately show ?thesis by (metis append_Nil empty_iff list.set(1))
  qed
qed

text \<open>Adding to an ordered list a timer whose timeout is in the half range gives an ordered list.\<close>

lemma timer_order_insert:
  assumes o: "timer_order now M TL" and r: "r \<notin> set TL" and d: "\<And>q. q \<in> set TL \<Longrightarrow> M q \<noteq> None"
    and n: "unat (to - now) < 2 ^ 31 - 1" and tm: "tm_timeout_tick tm = to"
  shows "\<exists>xs ys. TL = xs @ ys \<and> timer_insert M to r TL = Some (xs @ r # ys) \<and> timer_order now (M(r \<mapsto> tm)) (xs @ r # ys)"
proof -
  obtain xs ys where xy: "TL = xs @ ys" "timer_insert M to r TL = Some (xs @ r # ys)"
    "\<forall>x \<in> set xs. timer_key now M x \<le> unat (to - now)" "\<forall>y \<in> set ys. unat (to - now) < timer_key now M y"
    using timer_insert_ordered [OF o d n] by blast
  have k: "timer_key now (M(r \<mapsto> tm)) q = timer_key now M q" if "q \<in> set TL" for q
    using that r by (auto simp: timer_key_def)
  have kr: "timer_key now (M(r \<mapsto> tm)) r = unat (to - now)" by (simp add: timer_key_def tm)
  have m: "map (timer_key now (M(r \<mapsto> tm))) (xs @ r # ys) =
      map (timer_key now M) xs @ unat (to - now) # map (timer_key now M) ys"
    using k xy(1) kr by simp
  have "sorted (map (timer_key now (M(r \<mapsto> tm))) (xs @ r # ys))"
    unfolding m using o xy(1,3,4) by (auto simp: timer_order_def sorted_append)
  moreover have "timer_key now (M(r \<mapsto> tm)) q < 2 ^ 31 - 1" if "q \<in> set (xs @ r # ys)" for q
    using that o n k kr xy(1) by (cases "q = r") (auto simp: timer_order_def)
  ultimately show ?thesis using xy(1,2) by (auto simp: timer_order_def)
qed

lemma timer_order_subseq:
  "timer_order now M TL \<Longrightarrow> timer_order now M (removeAll r TL)"
  by (auto simp: timer_order_def removeAll_filter_not_eq intro: sorted_filter)

lemma timer_order_cong:
  assumes "\<And>q. q \<in> set TL \<Longrightarrow> M' q = M q"
  shows "timer_order now M' TL = timer_order now M TL"
  using assms by (auto simp: timer_order_def timer_key_def cong: map_cong)

lemma rt_timer_start_ordered:
  assumes i: "kinvx X k" and r: "k_timers k r = Some tm" "is_timer_object tm" and n: "tm_init_tick tm < RT_TICK_MAX_HALF"
    and o: "timer_order (k_tick k) (k_timers k) (k_timer_list k)"
  shows "returns (rt_timer_start r k) (\<lambda>k'. timer_order (k_tick k) (k_timers k') (k_timer_list k') \<and>
    (\<exists>xs ys. removeAll r (k_timer_list k) = xs @ ys \<and> k' = started r tm (xs @ r # ys) k))"
proof -
  let ?tm = "(deactivate tm)\<lparr>tm_timeout_tick := k_tick k + tm_init_tick tm\<rparr>"
  let ?TL = "removeAll r (k_timer_list k)" and ?M = "(k_timers k)(r \<mapsto> ?tm)"
  have t: "tinv X (k_timers k) (k_timer_list k) (k_timer_tmp k) (k_threads k)" using i by (simp add: kinvx_def)
  have "timer_order (k_tick k) ?M ?TL = timer_order (k_tick k) (k_timers k) ?TL" by (rule timer_order_cong) auto
  then have "timer_order (k_tick k) ?M ?TL" using timer_order_subseq [OF o] by simp
  moreover have "?M q \<noteq> None" if "q \<in> set ?TL" for q using tinvD(3) [OF t, of q] that by auto
  moreover have "unat (k_tick k + tm_init_tick tm - k_tick k) < 2 ^ 31 - 1" using n by (simp add: word_less_nat_alt)
  ultimately have "\<exists>xs ys. ?TL = xs @ ys \<and> timer_insert ?M (k_tick k + tm_init_tick tm) r ?TL = Some (xs @ r # ys) \<and>
      timer_order (k_tick k) (?M(r \<mapsto> activate ?tm)) (xs @ r # ys)"
    by (intro timer_order_insert) simp_all
  then obtain xs ys where xy: "?TL = xs @ ys"
      "timer_insert ?M (k_tick k + tm_init_tick tm) r ?TL = Some (xs @ r # ys)"
      "timer_order (k_tick k) (?M(r \<mapsto> activate ?tm)) (xs @ r # ys)"
    by (elim exE conjE) (rule that)
  show ?thesis using rt_timer_start_eq [OF r n xy(2)] xy(1,3) by auto
qed

text \<open>
  C32. Starting a timer keeps the timer list in the order of the timeouts, across the wrap-around of the 32-bit
  tick: if the list was ordered by the ticks left, it is ordered after \<^verbatim>\<open>rt_timer_start\<close>, holds the timer once in
  addition to the others, and the timer is active with its timeout \<open>init_tick\<close> ticks from now.
\<close>

theorem rt_timer_start_keeps_order:
  assumes "kinv k" and "k_timers k r = Some tm" and "is_timer_object tm" and "tm_init_tick tm < RT_TICK_MAX_HALF"
    and "timer_order (k_tick k) (k_timers k) (k_timer_list k)"
  shows "returns (rt_timer_start r k) (\<lambda>k'. timer_order (k_tick k) (k_timers k') (k_timer_list k') \<and>
    removeAll r (k_timer_list k') = removeAll r (k_timer_list k) \<and> count_list (k_timer_list k') r = 1 \<and>
    (\<exists>tm'. k_timers k' r = Some tm' \<and> timer_activated tm' \<and> tm_timeout_tick tm' = k_tick k + tm_init_tick tm))"
proof (rule returns_mono [OF rt_timer_start_ordered [OF assms]], elim conjE exE)
  fix k' xs ys
  assume k': "timer_order (k_tick k) (k_timers k') (k_timer_list k')" "k' = started r tm (xs @ r # ys) k"
    and xy: "removeAll r (k_timer_list k) = xs @ ys"
  have "r \<notin> set (xs @ ys)" by (simp flip: xy)
  then have "removeAll r (k_timer_list k') = removeAll r (k_timer_list k)" "count_list (k_timer_list k') r = 1"
    using k'(2) xy by (simp_all add: removeAll_id)
  then show "timer_order (k_tick k) (k_timers k') (k_timer_list k') \<and>
    removeAll r (k_timer_list k') = removeAll r (k_timer_list k) \<and> count_list (k_timer_list k') r = 1 \<and>
    (\<exists>tm'. k_timers k' r = Some tm' \<and> timer_activated tm' \<and> tm_timeout_tick tm' = k_tick k + tm_init_tick tm)"
    using k' by simp
qed

theorem rt_timer_start_keeps_order_witness:
  "returns (rt_timer_start (Thread_timer 4) sample_kernel) (\<lambda>k'. timer_order 100 (k_timers k') (k_timer_list k') \<and>
    removeAll (Thread_timer 4) (k_timer_list k') = [Thread_timer 3])"
proof -
  have "returns (rt_timer_start (Thread_timer 4) sample_kernel) (\<lambda>k'. timer_order (k_tick sample_kernel) (k_timers k') (k_timer_list k') \<and>
    removeAll (Thread_timer 4) (k_timer_list k') = removeAll (Thread_timer 4) (k_timer_list sample_kernel) \<and>
    count_list (k_timer_list k') (Thread_timer 4) = 1 \<and>
    (\<exists>tm'. k_timers k' (Thread_timer 4) = Some tm' \<and> timer_activated tm' \<and>
       tm_timeout_tick tm' = k_tick sample_kernel + tm_init_tick (sample_timer 0 4)))"
    by (rule rt_timer_start_keeps_order)
      (simp_all add: sample_timers_def timer_order_def timer_key_def)
  then show ?thesis by (rule returns_mono) simp
qed

end
