(* ===== verification/Thread.thy ===== *)
theory Thread
  imports Timer
begin

text \<open>
  The threads of \<^verbatim>\<open>thread.c\<close>: creation, start, suspension, resumption, sleeping, the timeout of a waiting
  thread, control and the end of a thread.  The contents of the stack and the initial stack frame are not
  part of the state.  The functions a thread or a timer is given by its user are the parameter \<open>env\<close>.

  A function that blocks is split at its call of \<^verbatim>\<open>rt_schedule()\<close>: \<open>rt_thread_sleep\<close> is the part before the
  thread is switched away, \<open>rt_thread_sleep_end\<close> the part it runs when it is switched back.
\<close>

record env =
  env_timeout :: "nat \<Rightarrow> nat \<Rightarrow> kernel \<Rightarrow> kernel option"
  env_cleanup :: "nat \<Rightarrow> nat \<Rightarrow> kernel \<Rightarrow> kernel option"

section \<open>The operations\<close>

definition rt_thread_self :: "kernel \<Rightarrow> nat option" where
  "rt_thread_self k = k_current k"

definition rt_thread_cleanup_execute :: "env \<Rightarrow> nat \<Rightarrow> kernel \<Rightarrow> kernel option" where
  "rt_thread_cleanup_execute env t k = do {
     th \<leftarrow> get_thread t k;
     (case th_cleanup th of None \<Rightarrow> Some k | Some f \<Rightarrow> env_cleanup env f t k)
   }"

definition rt_thread_defunct_enqueue :: "nat \<Rightarrow> kernel \<Rightarrow> kernel" where
  "rt_thread_defunct_enqueue t k = tlist_insert_after Defunct t k"

definition rt_thread_exit :: "env \<Rightarrow> kernel \<Rightarrow> kernel option" where
  "rt_thread_exit env k = do {
     t \<leftarrow> rt_thread_self k;
     k \<leftarrow> rt_thread_cleanup_execute env t k;
     k \<leftarrow> rt_schedule_remove_thread t k;
     k \<leftarrow> mod_thread t (\<lambda>th. th\<lparr>th_stat := RT_THREAD_CLOSE\<rparr>) k;
     k \<leftarrow> rt_timer_detach (Thread_timer t) k;
     th \<leftarrow> get_thread t k;
     k \<leftarrow> (if rt_object_is_systemobject (th_parent th) then rt_object_detach (OThread t) k
           else Some (rt_thread_defunct_enqueue t k));
     rt_schedule k
   }"

definition rt_thread_init' :: "nat \<Rightarrow> nat \<Rightarrow> nat \<Rightarrow> nat \<Rightarrow> u32 \<Rightarrow> u8 \<Rightarrow> u32 \<Rightarrow> kernel \<Rightarrow> (int \<times> kernel) option" where
  "rt_thread_init' t entry parameter stack_start stack_size priority tick k = do {
     rt_assert (unat priority < RT_THREAD_PRIORITY_MAX);
     k \<leftarrow> mod_thread t (\<lambda>th. th\<lparr>th_entry := entry, th_parameter := parameter,
            th_stack_addr := stack_start, th_stack_size := stack_size,
            th_init_priority := priority, th_current_priority := priority, th_number_mask := 0,
            th_init_tick := tick, th_remaining_tick := tick,
            th_error := RT_EOK, th_stat := RT_THREAD_INIT, th_cleanup := None, th_user_data := 0\<rparr>) k;
     th \<leftarrow> get_thread t k;
     k \<leftarrow> rt_timer_init (Thread_timer t) (ob_name (th_parent th)) Rt_thread_timeout t 0 RT_TIMER_FLAG_ONE_SHOT k;
     Some (RT_EOK, k)
   }"

definition rt_thread_init ::
    "nat \<Rightarrow> u8 list \<Rightarrow> nat \<Rightarrow> nat \<Rightarrow> nat \<Rightarrow> u32 \<Rightarrow> u8 \<Rightarrow> u32 \<Rightarrow> kernel \<Rightarrow> (int \<times> kernel) option" where
  "rt_thread_init t name entry parameter stack_start stack_size priority tick k = do {
     k \<leftarrow> rt_object_init (OThread t) RT_Object_Class_Thread name k;
     rt_thread_init' t entry parameter stack_start stack_size priority tick k
   }"

definition rt_thread_suspend :: "nat \<Rightarrow> kernel \<Rightarrow> (int \<times> kernel) option" where
  "rt_thread_suspend t k = do {
     th \<leftarrow> get_thread t k;
     rt_assert (is_thread_object th);
     stat \<leftarrow> Some (thread_stat th);
     if stat \<noteq> RT_THREAD_READY \<and> stat \<noteq> RT_THREAD_RUNNING then Some (- RT_ERROR, k)
     else do {
       rt_assert (stat = RT_THREAD_RUNNING \<longrightarrow> k_current k = Some t);
       k \<leftarrow> rt_schedule_remove_thread t k;
       k \<leftarrow> mod_thread t (set_stat RT_THREAD_SUSPEND) k;
       (_, k) \<leftarrow> rt_timer_stop (Thread_timer t) k;
       Some (RT_EOK, k)
     }
   }"

definition rt_thread_resume :: "nat \<Rightarrow> kernel \<Rightarrow> (int \<times> kernel) option" where
  "rt_thread_resume t k = do {
     th \<leftarrow> get_thread t k;
     rt_assert (is_thread_object th);
     if thread_stat th \<noteq> RT_THREAD_SUSPEND then Some (- RT_ERROR, k)
     else do {
       k \<leftarrow> Some (tlist_remove t k);
       (_, k) \<leftarrow> rt_timer_stop (Thread_timer t) k;
       k \<leftarrow> rt_schedule_insert_thread t k;
       Some (RT_EOK, k)
     }
   }"

definition rt_thread_startup :: "nat \<Rightarrow> kernel \<Rightarrow> (int \<times> kernel) option" where
  "rt_thread_startup t k = do {
     th \<leftarrow> get_thread t k;
     rt_assert (thread_stat th = RT_THREAD_INIT);
     rt_assert (is_thread_object th);
     k \<leftarrow> mod_thread t (\<lambda>th. th\<lparr>th_current_priority := th_init_priority th\<rparr>) k;
     k \<leftarrow> mod_thread t (\<lambda>th. th\<lparr>th_number_mask := push_bit (prio th) 1\<rparr>) k;
     k \<leftarrow> mod_thread t (\<lambda>th. th\<lparr>th_stat := RT_THREAD_SUSPEND\<rparr>) k;
     (_, k) \<leftarrow> rt_thread_resume t k;
     k \<leftarrow> (if rt_thread_self k \<noteq> None then rt_schedule k else Some k);
     Some (RT_EOK, k)
   }"

definition rt_thread_detach :: "env \<Rightarrow> nat \<Rightarrow> kernel \<Rightarrow> (int \<times> kernel) option" where
  "rt_thread_detach env t k = do {
     th \<leftarrow> get_thread t k;
     rt_assert (is_thread_object th);
     rt_assert (rt_object_is_systemobject (th_parent th));
     if thread_stat th = RT_THREAD_CLOSE then Some (RT_EOK, k)
     else do {
       k \<leftarrow> (if thread_stat th \<noteq> RT_THREAD_INIT then rt_schedule_remove_thread t k else Some k);
       k \<leftarrow> rt_thread_cleanup_execute env t k;
       k \<leftarrow> rt_timer_detach (Thread_timer t) k;
       k \<leftarrow> mod_thread t (\<lambda>th. th\<lparr>th_stat := RT_THREAD_CLOSE\<rparr>) k;
       th \<leftarrow> get_thread t k;
       k \<leftarrow> (if rt_object_is_systemobject (th_parent th) then rt_object_detach (OThread t) k
             else Some (rt_thread_defunct_enqueue t k));
       Some (RT_EOK, k)
     }
   }"

definition rt_thread_create ::
    "u8 list \<Rightarrow> nat \<Rightarrow> nat \<Rightarrow> u32 \<Rightarrow> u8 \<Rightarrow> u32 \<Rightarrow> kernel \<Rightarrow> (nat option \<times> kernel) option" where
  "rt_thread_create name entry parameter stack_size priority tick k = do {
     (obj, k) \<leftarrow> rt_object_allocate RT_Object_Class_Thread name k;
     case obj of
       None \<Rightarrow> Some (None, k)
     | Some ob \<Rightarrow> do {
         (stack_start, h) \<leftarrow> rt_malloc stack_size (k_irq_nest k) (k_heap k);
         k \<leftarrow> Some (k\<lparr>k_heap := h\<rparr>);
         case stack_start of
           None \<Rightarrow> do {
             k \<leftarrow> rt_object_delete ob k;
             Some (None, k)
           }
         | Some stack \<Rightarrow> do {
             (_, k) \<leftarrow> rt_thread_init' (obj_addr ob) entry parameter stack stack_size priority tick k;
             Some (Some (obj_addr ob), k)
           }
       }
   }"

definition rt_thread_delete :: "env \<Rightarrow> nat \<Rightarrow> kernel \<Rightarrow> (int \<times> kernel) option" where
  "rt_thread_delete env t k = do {
     th \<leftarrow> get_thread t k;
     rt_assert (is_thread_object th);
     rt_assert (\<not> rt_object_is_systemobject (th_parent th));
     if thread_stat th = RT_THREAD_CLOSE then Some (RT_EOK, k)
     else do {
       k \<leftarrow> (if thread_stat th \<noteq> RT_THREAD_INIT then rt_schedule_remove_thread t k else Some k);
       k \<leftarrow> rt_thread_cleanup_execute env t k;
       k \<leftarrow> rt_timer_detach (Thread_timer t) k;
       k \<leftarrow> mod_thread t (\<lambda>th. th\<lparr>th_stat := RT_THREAD_CLOSE\<rparr>) k;
       Some (RT_EOK, rt_thread_defunct_enqueue t k)
     }
   }"

definition rt_thread_yield :: "kernel \<Rightarrow> (int \<times> kernel) option" where
  "rt_thread_yield k = do {
     t \<leftarrow> rt_thread_self k;
     k \<leftarrow> mod_thread t (\<lambda>th. th\<lparr>th_remaining_tick := th_init_tick th\<rparr>) k;
     k \<leftarrow> mod_thread t (\<lambda>th. th\<lparr>th_stat := th_stat th OR RT_THREAD_STAT_YIELD\<rparr>) k;
     k \<leftarrow> rt_schedule k;
     Some (RT_EOK, k)
   }"

definition rt_thread_sleep :: "u32 \<Rightarrow> kernel \<Rightarrow> ((int, nat) outcome \<times> kernel) option" where
  "rt_thread_sleep tick k = do {
     t \<leftarrow> rt_thread_self k;
     th \<leftarrow> get_thread t k;
     rt_assert (is_thread_object th);
     (_, k) \<leftarrow> rt_thread_suspend t k;
     (_, k) \<leftarrow> rt_timer_control (Thread_timer t) RT_TIMER_CTRL_SET_TIME tick k;
     k \<leftarrow> rt_timer_start (Thread_timer t) k;
     k \<leftarrow> rt_schedule k;
     Some (Wait t, k)
   }"

definition rt_thread_sleep_end :: "nat \<Rightarrow> kernel \<Rightarrow> (int \<times> kernel) option" where
  "rt_thread_sleep_end t k = do {
     th \<leftarrow> get_thread t k;
     k \<leftarrow> (if th_error th = - RT_ETIMEOUT then mod_thread t (\<lambda>th. th\<lparr>th_error := RT_EOK\<rparr>) k else Some k);
     Some (RT_EOK, k)
   }"

definition rt_thread_delay :: "u32 \<Rightarrow> kernel \<Rightarrow> ((int, nat) outcome \<times> kernel) option" where
  "rt_thread_delay tick k = rt_thread_sleep tick k"

text \<open>\<^verbatim>\<open>rt_thread_delay_until\<close> also returns the new value of \<^verbatim>\<open>*tick\<close>; its second part is \<open>rt_thread_sleep_end\<close>.\<close>

definition rt_thread_delay_until :: "u32 \<Rightarrow> u32 \<Rightarrow> kernel \<Rightarrow> ((u32 \<times> (int, nat) outcome) \<times> kernel) option" where
  "rt_thread_delay_until tick inc_tick k = do {
     t \<leftarrow> rt_thread_self k;
     th \<leftarrow> get_thread t k;
     rt_assert (is_thread_object th);
     cur_tick \<leftarrow> Some (k_tick k);
     if cur_tick - tick < inc_tick then do {
       tick \<leftarrow> Some (tick + inc_tick);
       left_tick \<leftarrow> Some (tick - cur_tick);
       (_, k) \<leftarrow> rt_thread_suspend t k;
       (_, k) \<leftarrow> rt_timer_control (Thread_timer t) RT_TIMER_CTRL_SET_TIME left_tick k;
       k \<leftarrow> rt_timer_start (Thread_timer t) k;
       k \<leftarrow> rt_schedule k;
       Some ((tick, Wait t), k)
     }
     else Some ((cur_tick, Done RT_EOK), k)
   }"

abbreviation RT_THREAD_CTRL_STARTUP :: nat where "RT_THREAD_CTRL_STARTUP \<equiv> 0x00"
abbreviation RT_THREAD_CTRL_CLOSE :: nat where "RT_THREAD_CTRL_CLOSE \<equiv> 0x01"
abbreviation RT_THREAD_CTRL_CHANGE_PRIORITY :: nat where "RT_THREAD_CTRL_CHANGE_PRIORITY \<equiv> 0x02"

definition set_priority :: "u8 \<Rightarrow> rt_thread \<Rightarrow> rt_thread" where
  "set_priority p th = th\<lparr>th_current_priority := p, th_number_mask := push_bit (unat p) 1\<rparr>"

definition rt_thread_change_priority :: "nat \<Rightarrow> u8 \<Rightarrow> kernel \<Rightarrow> kernel option" where
  "rt_thread_change_priority t p k = do {
     th \<leftarrow> get_thread t k;
     if thread_stat th = RT_THREAD_READY then do {
       k \<leftarrow> rt_schedule_remove_thread t k;
       k \<leftarrow> mod_thread t (set_priority p) k;
       rt_schedule_insert_thread t k
     }
     else mod_thread t (set_priority p) k
   }"

definition rt_thread_control :: "env \<Rightarrow> nat \<Rightarrow> nat \<Rightarrow> u8 \<Rightarrow> kernel \<Rightarrow> (int \<times> kernel) option" where
  "rt_thread_control env t cmd arg k = do {
     th \<leftarrow> get_thread t k;
     rt_assert (is_thread_object th);
     if cmd = RT_THREAD_CTRL_CHANGE_PRIORITY then do {
       k \<leftarrow> rt_thread_change_priority t arg k;
       Some (RT_EOK, k)
     }
     else if cmd = RT_THREAD_CTRL_STARTUP then rt_thread_startup t k
     else if cmd = RT_THREAD_CTRL_CLOSE then do {
       (rt_err, k) \<leftarrow> (if rt_object_is_systemobject (th_parent th) then rt_thread_detach env t k
                      else rt_thread_delete env t k);
       k \<leftarrow> rt_schedule k;
       Some (rt_err, k)
     }
     else Some (RT_EOK, k)
   }"

definition rt_thread_timeout :: "nat \<Rightarrow> kernel \<Rightarrow> kernel option" where
  "rt_thread_timeout t k = do {
     th \<leftarrow> get_thread t k;
     rt_assert (thread_stat th = RT_THREAD_SUSPEND);
     rt_assert (is_thread_object th);
     k \<leftarrow> mod_thread t (\<lambda>th. th\<lparr>th_error := - RT_ETIMEOUT\<rparr>) k;
     k \<leftarrow> Some (tlist_remove t k);
     k \<leftarrow> rt_schedule_insert_thread t k;
     rt_schedule k
   }"

definition rt_thread_find :: "u8 list \<Rightarrow> kernel \<Rightarrow> (oid option \<times> kernel) option" where
  "rt_thread_find name k = rt_object_find name RT_Object_Class_Thread k"

section \<open>Frames\<close>

lemma frames_thread_suspend [frame]: "core_frame k k1 \<Longrightarrow> framesr k (rt_thread_suspend t k1)"
  unfolding rt_thread_suspend_def by (intro frame)

lemma frames_thread_resume [frame]: "core_frame k k1 \<Longrightarrow> framesr k (rt_thread_resume t k1)"
  unfolding rt_thread_resume_def by (intro frame)

lemma frames_thread_timeout [frame]: "core_frame k k1 \<Longrightarrow> frames k (rt_thread_timeout t k1)"
  unfolding rt_thread_timeout_def by (intro frame)

lemma frames_change_priority [frame]: "core_frame k k1 \<Longrightarrow> frames k (rt_thread_change_priority t p k1)"
  unfolding rt_thread_change_priority_def by (intro frame)

lemma frames_thread_startup [frame]: "core_frame k k1 \<Longrightarrow> framesr k (rt_thread_startup t k1)"
  unfolding rt_thread_startup_def by (intro frame)

lemma frames_thread_yield [frame]: "core_frame k k1 \<Longrightarrow> framesr k (rt_thread_yield k1)"
  unfolding rt_thread_yield_def by (intro frame)

lemma frames_thread_sleep [frame]: "core_frame k k1 \<Longrightarrow> framesr k (rt_thread_sleep n k1)"
  unfolding rt_thread_sleep_def by (intro frame)

lemma frames_thread_sleep_end [frame]: "core_frame k k1 \<Longrightarrow> framesr k (rt_thread_sleep_end n k1)"
  unfolding rt_thread_sleep_end_def by (intro frame)

section \<open>Suspending a thread\<close>

lemma own_timerE:
  assumes "own_timer M t"
  obtains tm where "M (Thread_timer t) = Some tm" and "is_timer_object tm" and "thread_timer_wf t tm"
  using assms by (auto simp: own_timer_def)

lemma is_thread_object_set_stat [simp]: "is_thread_object (set_stat s th) = is_thread_object th"
  by (simp add: is_thread_object_def)

text \<open>What a suspension leaves: the thread is suspended, on no list, and its timer is off.\<close>

definition suspended :: "nat \<Rightarrow> rt_thread \<Rightarrow> kernel \<Rightarrow> kernel \<Rightarrow> bool" where
  "suspended t th k k' \<longleftrightarrow> k_threads k' = (k_threads k)(t \<mapsto> set_stat RT_THREAD_SUSPEND th) \<and>
     k_lists k' = lists_remove t (k_lists k) \<and> k_current k' = k_current k \<and>
     k_timer_list k' = removeAll (Thread_timer t) (k_timer_list k) \<and>
     (\<forall>r. r \<noteq> Thread_timer t \<longrightarrow> k_timers k' r = k_timers k r) \<and> own_timer (k_timers k') t"

lemma rt_thread_suspend_kinvx:
  assumes i: "kinvx X k" and t: "k_threads k t = Some th" and tX: "t \<notin> X"
    and s: "thread_stat th = RT_THREAD_READY \<or> thread_stat th = RT_THREAD_RUNNING"
  shows "returns (rt_thread_suspend t k) (\<lambda>(r, k'). r = RT_EOK \<and> kinvx X k' \<and> suspended t th k k')"
proof -
  have l: "live th" "own_timer (k_timers k) t" using kinvx_live [OF i t tX] s by auto
  obtain tm where tm: "k_timers k (Thread_timer t) = Some tm" "is_timer_object tm" "thread_timer_wf t tm"
    using l(2) by (rule own_timerE)
  have cur: "thread_stat th = RT_THREAD_RUNNING \<longrightarrow> k_current k = Some t"
    using i cinvD(3) [of X "k_current k" "k_threads k" t th] t tX by (simp add: kinvx_def)
  let ?k1 = "k\<lparr>k_lists := lists_remove t (k_lists k), k_ready_group := removed_group t th k\<rparr>"
  let ?k2 = "?k1\<lparr>k_threads := (k_threads k)(t \<mapsto> set_stat RT_THREAD_SUSPEND th)\<rparr>"
  have p: "prio th < 32" "th_number_mask th = push_bit (prio th) 1" using l by (simp_all add: live_def)
  note rm = remove_thread [OF i t p]
  have "kinvx (insert t X) ?k2" using kinvx_upd_X [OF rm(2), of t] by simp
  then have "kinvx (X - {t}) ?k2"
    by (rule kinvx_settle [where th = "set_stat RT_THREAD_SUSPEND th"]) (use l in \<open>simp_all add: live_wf\<close>)
  then have k2: "kinvx X ?k2" using tX by simp
  have "k_timers ?k2 (Thread_timer t) = Some tm" using tm by simp
  note stop = rt_timer_stop_kinvx [OF k2 this tm(2)]
  have "rt_thread_suspend t k =
      Option.bind (rt_timer_stop (Thread_timer t) ?k2) (\<lambda>(_, k). Some (RT_EOK, k))"
    using t s cur rm(1) l(1)
    by (cases "thread_stat th = RT_THREAD_READY")
      (simp_all add: rt_thread_suspend_def get_thread_def mod_thread_def live_def)
  then show ?thesis
  proof (simp, intro returns_mono [OF stop])
    fix x assume x: "case x of (_, k') \<Rightarrow> kinvx X k' \<and> Thread_timer t \<notin> set (k_timer_list k') \<and>
        (k' = ?k2 \<or> k' = stopped (Thread_timer t) tm ?k2)"
    have o: "own_timer ((k_timers k)(Thread_timer t \<mapsto> deactivate tm)) t" using tm by (simp add: own_timer_def)
    show "returns (case x of (_, k) \<Rightarrow> Some (RT_EOK, k))
        (\<lambda>(r, k'). r = RT_EOK \<and> kinvx X k' \<and> suspended t th k k')"
      using x l(2) o by (cases x) (auto simp: suspended_def removeAll_id)
  qed
qed

section \<open>Making a suspended thread ready\<close>

text \<open>
  \<open>woken\<close>: the thread is off its waiting list and at the end of its ready queue (or running again, when it
  is the current thread, whose context has not been switched away yet).
\<close>

definition woken :: "nat \<Rightarrow> rt_thread \<Rightarrow> kernel \<Rightarrow> kernel \<Rightarrow> bool" where
  "woken t th k k' \<longleftrightarrow> k_current k' = k_current k \<and>
     k_timer_list k' = removeAll (Thread_timer t) (k_timer_list k) \<and>
     (\<forall>r. r \<noteq> Thread_timer t \<longrightarrow> k_timers k' r = k_timers k r) \<and> own_timer (k_timers k') t \<and>
     (if k_current k = Some t
      then k_threads k' = (k_threads k)(t \<mapsto> set_stat RT_THREAD_RUNNING th) \<and>
           k_lists k' = lists_remove t (k_lists k)
      else k_threads k' = (k_threads k)(t \<mapsto> set_stat RT_THREAD_READY th) \<and>
           k_lists k' = lists_insert_before (Ready (prio th)) t (lists_remove t (k_lists k)))"

lemma insert_thread_returns:
  assumes i: "kinvx (insert t X) k" and t: "k_threads k t = Some th" and l: "live th"
    and o: "own_timer (k_timers k) t" and n: "Thread_timer t \<notin> set (k_timer_list k)" and tX: "t \<notin> X"
  shows "returns (rt_schedule_insert_thread t k) (\<lambda>k'. kinvx X k' \<and> k_current k' = k_current k \<and>
    k_timers k' = k_timers k \<and> k_timer_list k' = k_timer_list k \<and> k_timer_tmp k' = k_timer_tmp k \<and>
    (if k_current k = Some t
     then k_threads k' = (k_threads k)(t \<mapsto> set_stat RT_THREAD_RUNNING th) \<and> k_lists k' = k_lists k
     else k_threads k' = (k_threads k)(t \<mapsto> set_stat RT_THREAD_READY th) \<and>
          k_lists k' = lists_insert_before (Ready (prio th)) t (k_lists k)))"
proof (cases "k_current k = Some t")
  case True
  then show ?thesis using insert_thread_current [OF i t l True o n] tX by simp
next
  case False
  then show ?thesis using insert_thread_ready [OF i t l False o n] tX by simp
qed

lemma rt_thread_resume_kinvx:
  assumes i: "kinvx X k" and t: "k_threads k t = Some th" and tX: "t \<notin> X"
    and s: "thread_stat th = RT_THREAD_SUSPEND"
  shows "returns (rt_thread_resume t k) (\<lambda>(r, k'). r = RT_EOK \<and> kinvx X k' \<and> woken t th k k')"
proof -
  have l: "live th" "own_timer (k_timers k) t" using kinvx_live [OF i t tX] s by auto
  obtain tm where tm: "k_timers k (Thread_timer t) = Some tm" "is_timer_object tm" "thread_timer_wf t tm"
    using l(2) by (rule own_timerE)
  have k1: "kinvx (insert t X) (tlist_remove t k)" by (rule kinvx_leave [OF i t]) (use s in simp)
  have "k_timers (tlist_remove t k) (Thread_timer t) = Some tm" using tm by (simp add: tlist_remove_def)
  note stop = rt_timer_stop_kinvx [OF k1 this tm(2)]
  have "rt_thread_resume t k = Option.bind (rt_timer_stop (Thread_timer t) (tlist_remove t k))
      (\<lambda>(_, k). Option.bind (rt_schedule_insert_thread t k) (\<lambda>k. Some (RT_EOK, k)))"
    using t s l(1) by (simp add: rt_thread_resume_def get_thread_def live_def)
  then show ?thesis
  proof (simp, intro returns_mono [OF stop])
    fix x assume x: "case x of (_, k') \<Rightarrow> kinvx (insert t X) k' \<and> Thread_timer t \<notin> set (k_timer_list k') \<and>
        (k' = tlist_remove t k \<or> k' = stopped (Thread_timer t) tm (tlist_remove t k))"
    obtain k' where k': "snd x = k'" by simp
    have o: "own_timer ((k_timers k)(Thread_timer t \<mapsto> deactivate tm)) t" using tm by (simp add: own_timer_def)
    have f: "kinvx (insert t X) k'" "Thread_timer t \<notin> set (k_timer_list k')" "k_threads k' = k_threads k"
      "k_lists k' = lists_remove t (k_lists k)" "k_current k' = k_current k" "own_timer (k_timers k') t"
      "k_timer_list k' = removeAll (Thread_timer t) (k_timer_list k)"
      "\<forall>r. r \<noteq> Thread_timer t \<longrightarrow> k_timers k' r = k_timers k r"
      using x k' l(2) o by (auto simp: tlist_remove_def removeAll_id split: prod.splits)
    have th: "k_threads k' t = Some th" using t f(3) by simp
    have "returns (rt_schedule_insert_thread t k') (\<lambda>k''. kinvx X k'' \<and> woken t th k k'')"
      by (rule returns_mono [OF insert_thread_returns [OF f(1) th l(1) f(6) f(2) tX]])
        (use f in \<open>auto simp: woken_def split: if_splits\<close>)
    then show "returns (case x of (_, k) \<Rightarrow>
         Option.bind (rt_schedule_insert_thread t k) (\<lambda>k. Some (RT_EOK, k)))
        (\<lambda>(r, k'). r = RT_EOK \<and> kinvx X k' \<and> woken t th k k')"
      using k' by (cases x) simp
  qed
qed

lemma rt_thread_resume_error:
  assumes "k_threads k t = Some th" and "is_thread_object th" and "thread_stat th \<noteq> RT_THREAD_SUSPEND"
  shows "rt_thread_resume t k = Some (- RT_ERROR, k)"
  using assms by (simp add: rt_thread_resume_def get_thread_def)

lemma rt_thread_suspend_error:
  assumes "k_threads k t = Some th" and "is_thread_object th"
    and "thread_stat th \<noteq> RT_THREAD_READY" and "thread_stat th \<noteq> RT_THREAD_RUNNING"
  shows "rt_thread_suspend t k = Some (- RT_ERROR, k)"
  using assms by (simp add: rt_thread_suspend_def get_thread_def)

section \<open>Arming the timer of a suspended thread\<close>

definition arm_timer :: "nat \<Rightarrow> u32 \<Rightarrow> kernel \<Rightarrow> kernel option" where
  "arm_timer t n k = do {
     (_, k) \<leftarrow> rt_timer_control (Thread_timer t) RT_TIMER_CTRL_SET_TIME n k;
     rt_timer_start (Thread_timer t) k
   }"

text \<open>The thread part of the state is untouched, and the thread's timer is due in \<open>n\<close> ticks.\<close>

definition armed :: "nat \<Rightarrow> u32 \<Rightarrow> kernel \<Rightarrow> kernel \<Rightarrow> bool" where
  "armed t n k k' \<longleftrightarrow> k_threads k' = k_threads k \<and> k_lists k' = k_lists k \<and> k_ready_group k' = k_ready_group k \<and>
     k_current k' = k_current k \<and> (\<forall>r. r \<noteq> Thread_timer t \<longrightarrow> k_timers k' r = k_timers k r) \<and>
     (\<exists>tm. k_timers k' (Thread_timer t) = Some tm \<and> tm_timeout_tick tm = k_tick k + n \<and> timer_activated tm) \<and>
     own_timer (k_timers k') t \<and> Thread_timer t \<in> set (k_timer_list k')"

lemma arm_timer_kinvx:
  assumes i: "kinvx X k" and o: "own_timer (k_timers k) t" and n: "n < RT_TICK_MAX_HALF"
    and s: "t \<notin> X \<Longrightarrow> \<exists>th. k_threads k t = Some th \<and> thread_stat th = RT_THREAD_SUSPEND"
  shows "returns (arm_timer t n k) (\<lambda>k'. kinvx X k' \<and> armed t n k k')"
proof -
  obtain tm where tm: "k_timers k (Thread_timer t) = Some tm" "is_timer_object tm" "thread_timer_wf t tm"
    using o by (rule own_timerE)
  let ?tm = "tm\<lparr>tm_init_tick := n\<rparr>"
  let ?k = "k\<lparr>k_timers := (k_timers k)(Thread_timer t \<mapsto> ?tm)\<rparr>"
  have np: "\<not> timer_periodic tm" using tm by (simp add: thread_timer_wf_def)
  have ti: "tinv X (k_timers k) (k_timer_list k) (k_timer_tmp k) (k_threads k)" using i by (simp add: kinvx_def)
  have "tinv X ((k_timers k)(Thread_timer t \<mapsto> ?tm)) (k_timer_list k) (k_timer_tmp k) (k_threads k)"
  proof (rule tinv_upd_timer [OF ti tm(1)])
    show "same_kind tm ?tm" by (simp add: same_kind_def)
    show "listed_ok ?tm" if "Thread_timer t \<in> set (k_timer_list k)"
      using tinvD(3) [OF ti that] tm np by (simp add: listed_ok_def)
  qed simp
  then have k: "kinvx X ?k" using i by (simp add: kinvx_def)
  have start: "returns (rt_timer_start (Thread_timer t) ?k) (\<lambda>k'. kinvx X k' \<and>
    (\<exists>xs ys. removeAll (Thread_timer t) (k_timer_list ?k) = xs @ ys \<and>
       k' = started (Thread_timer t) ?tm (xs @ Thread_timer t # ys) ?k))"
    by (rule rt_timer_start_kinvx [OF k]) (use tm n s in auto)
  have e: "arm_timer t n k = rt_timer_start (Thread_timer t) ?k"
    by (simp add: arm_timer_def rt_timer_set_time [OF tm(1,2)])
  show ?thesis unfolding e
    by (rule returns_mono [OF start]) (use tm in \<open>auto simp: armed_def own_timer_def\<close>)
qed

lemma frames_arm_timer [frame]: "core_frame k k1 \<Longrightarrow> frames k (arm_timer t n k1)"
  unfolding arm_timer_def by (intro frame)

lemma bind_arm_timer: "Option.bind (rt_timer_control (Thread_timer t) RT_TIMER_CTRL_SET_TIME n k)
    (\<lambda>(_, k). Option.bind (rt_timer_start (Thread_timer t) k) f) = Option.bind (arm_timer t n k) f"
  by (cases "rt_timer_control (Thread_timer t) RT_TIMER_CTRL_SET_TIME n k") (auto simp: arm_timer_def)

section \<open>Sleeping and timing out\<close>

lemma k_tick_suspend: "rt_thread_suspend t k = Some (r, k') \<Longrightarrow> k_tick k' = k_tick k"
  using framesrD [OF frames_thread_suspend [OF core_frame_refl]] by (rule core_frameD(11))

text \<open>
  A running thread that goes to sleep for \<open>n\<close> ticks is suspended with its timer due in \<open>n\<close> ticks, and the
  scheduler is run; \<open>k1\<close> is the state before that.
\<close>

definition asleep :: "nat \<Rightarrow> u32 \<Rightarrow> rt_thread \<Rightarrow> kernel \<Rightarrow> kernel \<Rightarrow> bool" where
  "asleep t n th k k1 \<longleftrightarrow> k_threads k1 = (k_threads k)(t \<mapsto> set_stat RT_THREAD_SUSPEND th) \<and>
     k_lists k1 = lists_remove t (k_lists k) \<and> k_current k1 = k_current k \<and>
     (\<forall>r. r \<noteq> Thread_timer t \<longrightarrow> k_timers k1 r = k_timers k r) \<and>
     (\<exists>tm. k_timers k1 (Thread_timer t) = Some tm \<and> tm_timeout_tick tm = k_tick k + n \<and> timer_activated tm)"

lemma rt_thread_sleep_kinvx:
  assumes i: "kinvx X k" and c: "k_current k = Some t" "t \<notin> X" and t: "k_threads k t = Some th"
    and s: "thread_stat th = RT_THREAD_RUNNING" and n: "n < RT_TICK_MAX_HALF"
  shows "returns (rt_thread_sleep n k) (\<lambda>(r, k'). r = Wait t \<and> kinvx X k' \<and>
    (\<exists>k1. kinvx X k1 \<and> asleep t n th k k1 \<and> sched_rel k1 k'))"
proof -
  have l: "live th" using kinvx_live(1) [OF i t c(2)] s by simp
  have "rt_thread_sleep n k = Option.bind (rt_thread_suspend t k) (\<lambda>(_, k).
      Option.bind (arm_timer t n k) (\<lambda>k. Option.bind (rt_schedule k) (\<lambda>k. Some (Wait t, k))))"
    using c t l by (simp add: rt_thread_sleep_def rt_thread_self_def get_thread_def live_def bind_arm_timer)
  moreover have "returns (rt_thread_suspend t k) (\<lambda>x. (case x of (r, k') \<Rightarrow> r = RT_EOK \<and> kinvx X k' \<and> suspended t th k k') \<and>
      rt_thread_suspend t k = Some x)"
    using rt_thread_suspend_kinvx [OF i t c(2)] s by (auto simp: returns_def)
  moreover have "returns (case x of (_, k) \<Rightarrow>
        Option.bind (arm_timer t n k) (\<lambda>k. Option.bind (rt_schedule k) (\<lambda>k. Some (Wait t, k))))
      (\<lambda>(r, k'). r = Wait t \<and> kinvx X k' \<and> (\<exists>k1. kinvx X k1 \<and> asleep t n th k k1 \<and> sched_rel k1 k'))"
    if x: "(case x of (r, k') \<Rightarrow> r = RT_EOK \<and> kinvx X k' \<and> suspended t th k k') \<and> rt_thread_suspend t k = Some x" for x
  proof -
    obtain r k' where xk: "x = (r, k')" by (cases x)
    have k': "kinvx X k'" "suspended t th k k'" "k_tick k' = k_tick k"
      using x k_tick_suspend unfolding xk by auto
    have "returns (arm_timer t n k') (\<lambda>k1. kinvx X k1 \<and> armed t n k' k1)"
      by (rule arm_timer_kinvx [OF k'(1)]) (use k' n in \<open>simp_all add: suspended_def\<close>)
    then have "returns (arm_timer t n k') (\<lambda>k1. kinvx X k1 \<and> asleep t n th k k1 \<and> k_current k1 = Some t)"
      by (rule returns_mono) (use k'(2,3) c in \<open>auto simp: armed_def suspended_def asleep_def\<close>)
    then show ?thesis unfolding xk
      by (simp, elim returns_mono conjE) (rule schedule_after [OF _ _ c(2)], auto)
  qed
  ultimately show ?thesis by (simp, elim returns_mono)
qed

lemma rt_thread_sleep_end_kinvx:
  assumes "kinvx X k" and "k_threads k t = Some th"
  shows "returns (rt_thread_sleep_end t k) (\<lambda>(r, k'). r = RT_EOK \<and> kinvx X k')"
proof -
  have "same_sched th (th\<lparr>th_error := RT_EOK\<rparr>)" by (simp add: same_sched_def thread_stat_def prio_def)
  from kinvx_upd_same [OF assms this] assms show ?thesis
    by (simp add: rt_thread_sleep_end_def get_thread_def mod_thread_def)
qed

lemma rt_thread_timeout_kinvx:
  assumes i: "kinvx X k" and t: "k_threads k t = Some th" "t \<notin> X" and s: "thread_stat th = RT_THREAD_SUSPEND"
    and n: "Thread_timer t \<notin> set (k_timer_list k)" and c: "k_current k = Some c" "c \<notin> X"
  shows "returns (rt_thread_timeout t k) (\<lambda>k'. kinvx X k' \<and>
    (\<exists>k1. kinvx X k1 \<and> woken t (th\<lparr>th_error := - RT_ETIMEOUT\<rparr>) k k1 \<and> k_timer_tmp k1 = k_timer_tmp k \<and>
       sched_rel k1 k' \<and> (\<exists>c'. k_current k' = Some c' \<and> c' \<notin> X)))"
proof -
  let ?th = "th\<lparr>th_error := - RT_ETIMEOUT\<rparr>"
  let ?k = "k\<lparr>k_threads := (k_threads k)(t \<mapsto> ?th)\<rparr>"
  have l: "live th" "own_timer (k_timers k) t" using kinvx_live [OF i t] s by auto
  have ss: "same_sched th ?th" by (simp add: same_sched_def thread_stat_def prio_def)
  have k: "kinvx X ?k" by (rule kinvx_upd_same [OF i t(1) ss])
  have k1: "kinvx (insert t X) (tlist_remove t ?k)"
    by (rule kinvx_leave [OF k, where th = ?th]) (use s ss in \<open>simp_all add: same_sched_def\<close>)
  have "returns (rt_schedule_insert_thread t (tlist_remove t ?k)) (\<lambda>k'. kinvx X k' \<and>
      woken t ?th k k' \<and> k_timer_tmp k' = k_timer_tmp k \<and> k_current k' = Some c)"
    by (rule returns_mono [OF insert_thread_returns [OF k1, where th = ?th]])
      (use l n t c same_sched_live [OF ss] in \<open>auto simp: tlist_remove_def woken_def removeAll_id prio_def\<close>)
  moreover have "rt_thread_timeout t k = Option.bind (rt_schedule_insert_thread t (tlist_remove t ?k)) rt_schedule"
    using t s l by (simp add: rt_thread_timeout_def get_thread_def mod_thread_def live_def)
  ultimately show ?thesis
    by (simp, elim returns_mono conjE) (rule schedule_after [OF _ _ c(2)], auto)
qed

section \<open>Yield, start and priority\<close>

lemma rt_thread_yield_kinvx:
  assumes i: "kinvx X k" and c: "k_current k = Some t" "t \<notin> X"
  shows "returns (rt_thread_yield k) (\<lambda>(r, k'). r = RT_EOK \<and> kinvx X k')"
proof -
  obtain th where th: "k_threads k t = Some th" using i c cinvD(1) unfolding kinvx_def by blast
  let ?th = "th\<lparr>th_remaining_tick := th_init_tick th, th_stat := th_stat th OR RT_THREAD_STAT_YIELD\<rparr>"
  have "(x OR 0x08) AND 0x07 = x AND (0x07 :: u8)" for x by (simp add: bit.conj_disj_distrib2)
  then have "same_sched th ?th" by (simp add: same_sched_def thread_stat_def prio_def)
  then have k: "kinvx X (k\<lparr>k_threads := (k_threads k)(t \<mapsto> ?th)\<rparr>)" by (rule kinvx_upd_same [OF i th])
  have "rt_thread_yield k = Option.bind (rt_schedule (k\<lparr>k_threads := (k_threads k)(t \<mapsto> ?th)\<rparr>)) (\<lambda>k. Some (RT_EOK, k))"
    using c th by (simp add: rt_thread_yield_def rt_thread_self_def mod_thread_def)
  then show ?thesis using c by (simp, intro schedule_after [OF k]) auto
qed

lemma kinvx_upd_settled:
  assumes i: "kinvx X k" and t: "k_threads k t = Some th" and s: "thread_stat th' = thread_stat th"
    and w: "t \<notin> X \<Longrightarrow> thread_wf th'" and n: "thread_stat th \<noteq> RT_THREAD_READY"
  shows "kinvx X (k\<lparr>k_threads := (k_threads k)(t \<mapsto> th')\<rparr>)"
proof -
  note p = i [unfolded kinvx_def]
  have L: "linv X (k_lists k) (k_ready_group k) (k_threads k)" using p by blast
  have "linv X (k_lists k) (k_ready_group k) ((k_threads k)(t \<mapsto> th'))"
  proof (rule linvI)
    show "\<exists>th. ((k_threads k)(t \<mapsto> th')) u = Some th \<and> member_ok h th" if u: "u \<in> set (k_lists k h)" for h u
      using linvD(4) [OF L u] t s n by (cases h; cases "u = t") (auto simp: member_ok_def)
    show "u \<in> set (k_lists k (Ready (prio th'')))"
      if "((k_threads k)(t \<mapsto> th')) u = Some th''" "u \<notin> X" "thread_stat th'' = RT_THREAD_READY" for u th''
      using linvD(6) [OF L _ that(2,3)] that t s n by (auto split: if_splits)
    show "thread_wf th''" if "((k_threads k)(t \<mapsto> th')) u = Some th''" "u \<notin> X" for u th''
      using linvD(5) [OF L _ that(2)] that w by (auto split: if_splits)
  qed (fact linvD [OF L])+
  moreover have "cinv X (k_current k) ((k_threads k)(t \<mapsto> th'))"
  proof (rule cinvI)
    have C: "cinv X (k_current k) (k_threads k)" using p by blast
    show "\<exists>th. ((k_threads k)(t \<mapsto> th')) c = Some th" if "k_current k = Some c" for c
      using cinvD(1) [OF C that] by simp
    show "thread_stat th'' \<noteq> RT_THREAD_READY"
      if "k_current k = Some c" "((k_threads k)(t \<mapsto> th')) c = Some th''" "c \<notin> X" for c th''
      using cinvD(2) [OF C that(1) _ that(3)] that(2) s n by (auto split: if_splits)
    show "k_current k = Some u"
      if "((k_threads k)(t \<mapsto> th')) u = Some th''" "u \<notin> X" "thread_stat th'' = RT_THREAD_RUNNING" for u th''
      using cinvD(3) [OF C _ that(2)] that t s by (cases "u = t") auto
  qed
  moreover have "tinv X (k_timers k) (k_timer_list k) (k_timer_tmp k) ((k_threads k)(t \<mapsto> th'))"
  proof -
    have M: "tinv X (k_timers k) (k_timer_list k) (k_timer_tmp k) (k_threads k)" using p by blast
    show ?thesis
  proof (rule tinvI)
    show "\<exists>th. ((k_threads k)(t \<mapsto> th')) u = Some th \<and> thread_stat th = RT_THREAD_SUSPEND"
      if "Thread_timer u \<in> set (k_timer_list k)" "u \<notin> X" for u
      using tinvD(4) [OF M that] t s by auto
    show "\<exists>tm. k_timers k (Thread_timer u) = Some tm \<and> is_timer_object tm \<and> thread_timer_wf u tm"
      if "((k_threads k)(t \<mapsto> th')) u = Some th''" "u \<notin> X" "thread_stat th'' \<noteq> RT_THREAD_CLOSE" for u th''
      using tinvD(5) [OF M t] tinvD(5) [OF M _ that(2)] that s by (auto split: if_splits)
  qed (fact tinvD [OF M])+
  qed
  ultimately show ?thesis by (simp add: kinvx_def)
qed

lemma set_priority_fields [simp]:
  "thread_stat (set_priority p th) = thread_stat th" "prio (set_priority p th) = unat p"
  "th_init_priority (set_priority p th) = th_init_priority th"
  "th_number_mask (set_priority p th) = push_bit (unat p) 1"
  "is_thread_object (set_priority p th) = is_thread_object th"
  by (simp_all add: set_priority_def thread_stat_def prio_def is_thread_object_def)

text \<open>Changing a priority to a legal one; a ready thread moves to the end of its new queue.\<close>

lemma rt_thread_change_priority_kinvx:
  assumes i: "kinvx X k" and t: "k_threads k t = Some th" "t \<notin> X" and p: "unat p < 32"
  shows "returns (rt_thread_change_priority t p k) (\<lambda>k'. kinvx X k' \<and> k_current k' = k_current k \<and>
    k_timers k' = k_timers k \<and> k_timer_list k' = k_timer_list k \<and>
    (\<exists>th'. k_threads k' = (k_threads k)(t \<mapsto> th') \<and> restat (set_priority p th) th' \<and> thread_stat th' = thread_stat th) \<and>
    (thread_stat th \<noteq> RT_THREAD_READY \<longrightarrow> k_threads k' = (k_threads k)(t \<mapsto> set_priority p th)) \<and>
    (\<forall>h. wait_head h \<longrightarrow> k_lists k' h = k_lists k h))"
proof (cases "thread_stat th = RT_THREAD_READY")
  case False
  let ?th = "set_priority p th"
  have "thread_wf th" using i t linvD(5) unfolding kinvx_def by blast
  then have "thread_wf ?th" using p by (auto simp: thread_wf_def)
  then have "kinvx X (k\<lparr>k_threads := (k_threads k)(t \<mapsto> ?th)\<rparr>)"
    by (intro kinvx_upd_settled [OF i t(1)]) (use False in simp_all)
  then show ?thesis using False t
    by (auto simp: rt_thread_change_priority_def get_thread_def mod_thread_def)
next
  case True
  have l: "live th" "own_timer (k_timers k) t" using kinvx_live [OF i t] True by auto
  have q: "prio th < 32" "th_number_mask th = push_bit (prio th) 1" using l by (simp_all add: live_def)
  note rm = remove_thread [OF i t(1) q]
  have n: "Thread_timer t \<notin> set (k_timer_list k)"
    using tinvD(4) [of X "k_timers k" "k_timer_list k" "k_timer_tmp k" "k_threads k" t] i t True
    by (auto simp: kinvx_def)
  have c: "k_current k \<noteq> Some t"
    using cinvD(2) [of X "k_current k" "k_threads k" t th] i t True by (auto simp: kinvx_def)
  let ?th = "set_priority p th"
  let ?k1 = "k\<lparr>k_lists := lists_remove t (k_lists k), k_ready_group := removed_group t th k\<rparr>"
  let ?k2 = "?k1\<lparr>k_threads := (k_threads k)(t \<mapsto> ?th)\<rparr>"
  have k2: "kinvx (insert t X) ?k2" using kinvx_upd_X [OF rm(2), of t] by simp
  have l2: "live ?th" using l p by (simp add: live_def)
  have w: "t \<notin> set (k_lists k h)" if "wait_head h" for h
    using linv_on_list [of X "k_lists k" "k_ready_group k" "k_threads k" t th h] i t True that
    by (auto simp: kinvx_def member_wait)
  have e: "rt_thread_change_priority t p k = rt_schedule_insert_thread t ?k2"
    using t True rm(1) by (simp add: rt_thread_change_priority_def get_thread_def mod_thread_def)
  show ?thesis unfolding e
    by (intro returns_mono [OF insert_thread_returns [OF k2, where th = ?th]])
      (use l2 l n c t True w in \<open>auto simp: removeAll_id lists_remove_def lists_insert_before_def\<close>)
qed

text \<open>\<open>repri t q k k'\<close>: only the priority of \<open>t\<close>, now \<open>q\<close>, and its place in the ready queues differ.\<close>

definition repri :: "nat \<Rightarrow> nat \<Rightarrow> kernel \<Rightarrow> kernel \<Rightarrow> bool" where
  "repri t q k k' \<longleftrightarrow> k_current k' = k_current k \<and> k_timers k' = k_timers k \<and> k_timer_list k' = k_timer_list k \<and>
     (\<forall>h. wait_head h \<longrightarrow> k_lists k' h = k_lists k h) \<and>
     (\<exists>th th'. k_threads k t = Some th \<and> k_threads k' = (k_threads k)(t \<mapsto> th') \<and> prio th' = q \<and>
        thread_stat th' = thread_stat th \<and> th_error th' = th_error th)"

lemma repri_refl: "k_threads k t = Some th \<Longrightarrow> repri t (prio th) k k"
  by (auto simp: repri_def intro!: exI [of _ th])

lemma control_priority_kinvx:
  assumes i: "kinvx X k" and t: "k_threads k t = Some th" "t \<notin> X" and p: "unat p < 32"
    and s: "thread_stat th \<noteq> RT_THREAD_CLOSE"
  shows "returns (if b then map_option snd (rt_thread_control env t RT_THREAD_CTRL_CHANGE_PRIORITY p k) else Some k)
    (\<lambda>k'. (kinvx X k' \<and> repri t (if b then unat p else prio th) k k') \<and> core_frame k k')"
proof (cases b)
  case True
  have "thread_wf th" using i t linvD(5) unfolding kinvx_def by blast
  then have o: "is_thread_object th" using s by (simp add: thread_wf_def)
  have e: "map_option snd (rt_thread_control env t RT_THREAD_CTRL_CHANGE_PRIORITY p k) = rt_thread_change_priority t p k"
    using t o by (cases "rt_thread_change_priority t p k") (simp_all add: rt_thread_control_def get_thread_def)
  have "returns (rt_thread_change_priority t p k) (\<lambda>k'. kinvx X k' \<and> repri t (unat p) k k')"
  proof (rule returns_mono [OF rt_thread_change_priority_kinvx [OF i t p]], elim conjE exE)
    fix k' th' assume k': "kinvx X k'" "k_current k' = k_current k" "k_timers k' = k_timers k"
      "k_timer_list k' = k_timer_list k" "\<forall>h. wait_head h \<longrightarrow> k_lists k' h = k_lists k h"
      "k_threads k' = (k_threads k)(t \<mapsto> th')" "restat (set_priority p th) th'" "thread_stat th' = thread_stat th"
    have "prio th' = unat p" "th_error th' = th_error th"
      using restatD(2,10) [OF k'(7)] by (simp_all add: set_priority_def prio_def)
    then have "repri t (unat p) k k'" unfolding repri_def using k' t(1) by blast
    then show "kinvx X k' \<and> repri t (unat p) k k'" using k' by simp
  qed
  from returns_frame [OF this frames_change_priority [OF core_frame_refl]] show ?thesis
    using True by (simp only: e if_True)
next
  case False
  then show ?thesis using i repri_refl [of k t th] t by simp
qed

lemma rt_thread_startup_kinvx:
  assumes i: "kinvx X k" and t: "k_threads k t = Some th" "t \<notin> X" and s: "thread_stat th = RT_THREAD_INIT"
    and c: "\<And>c. k_current k = Some c \<Longrightarrow> c \<notin> X"
  shows "returns (rt_thread_startup t k) (\<lambda>(r, k'). r = RT_EOK \<and> kinvx X k')"
proof -
  note p = i [unfolded kinvx_def]
  have L: "linv X (k_lists k) (k_ready_group k) (k_threads k)"
    and M: "tinv X (k_timers k) (k_timer_list k) (k_timer_tmp k) (k_threads k)" using p by blast+
  have w: "thread_wf th" by (rule linvD(5) [OF L t])
  have o: "own_timer (k_timers k) t" using tinv_own_timer [OF M t] s by simp
  let ?th = "th\<lparr>th_current_priority := th_init_priority th,
      th_number_mask := push_bit (unat (th_init_priority th)) 1, th_stat := RT_THREAD_SUSPEND\<rparr>"
  have l: "live ?th" "thread_stat ?th = RT_THREAD_SUSPEND" "is_thread_object th"
    using w s by (simp_all add: live_def thread_wf_def prio_def is_thread_object_def thread_stat_def)
  have out: "t \<notin> set (k_lists k h)" for h using linv_not_on_list [OF L t(1)] s by simp
  have n: "Thread_timer t \<notin> set (k_timer_list k)" using tinvD(4) [OF M _ t(2)] t(1) s by fastforce
  have "kinvx (insert t X) (tlist_remove t k)" by (rule kinvx_leave [OF i t(1)]) (use s in simp)
  then have "kinvx (insert t X) k" using out by (simp add: tlist_remove_def lists_remove_notin)
  then have "kinvx (insert t X) (k\<lparr>k_threads := (k_threads k)(t \<mapsto> ?th)\<rparr>)" by (rule kinvx_upd_X) simp
  then have "kinvx (X - {t}) (k\<lparr>k_threads := (k_threads k)(t \<mapsto> ?th)\<rparr>)"
    by (rule kinvx_settle [where th = ?th]) (use l o n in \<open>simp_all add: live_wf\<close>)
  then have k1: "kinvx X (k\<lparr>k_threads := (k_threads k)(t \<mapsto> ?th)\<rparr>)" using t(2) by simp
  have "returns (rt_thread_resume t (k\<lparr>k_threads := (k_threads k)(t \<mapsto> ?th)\<rparr>))
      (\<lambda>(r, k'). kinvx X k' \<and> k_current k' = k_current k)"
    by (rule returns_mono [OF rt_thread_resume_kinvx [OF k1 _ t(2), where th = ?th]])
      (use l in \<open>auto simp: woken_def\<close>)
  moreover have "rt_thread_startup t k = Option.bind (rt_thread_resume t (k\<lparr>k_threads := (k_threads k)(t \<mapsto> ?th)\<rparr>))
      (\<lambda>(_, k). Option.bind (if k_current k \<noteq> None then rt_schedule k else Some k) (\<lambda>k. Some (RT_EOK, k)))"
    using t s l(3) by (simp add: rt_thread_startup_def get_thread_def mod_thread_def prio_def rt_thread_self_def)
  moreover have "returns (case x of (_, k) \<Rightarrow>
        Option.bind (if k_current k \<noteq> None then rt_schedule k else Some k) (\<lambda>k. Some (RT_EOK, k)))
      (\<lambda>(r, k'). r = RT_EOK \<and> kinvx X k')"
    if x: "case x of (r, k') \<Rightarrow> kinvx X k' \<and> k_current k' = k_current k" for x
  proof (cases "k_current k")
    case None
    then show ?thesis using x by (cases x) auto
  next
    case (Some c')
    then have "returns (rt_schedule (snd x)) (kinvx X)"
      by (intro schedule_after) (use x c in \<open>auto split: prod.splits\<close>)
    then show ?thesis using x Some by (cases x) (auto elim: returns_mono)
  qed
  ultimately show ?thesis by (simp, elim returns_mono)
qed

section \<open>The end of a thread\<close>

text \<open>Rewriting the timer of a thread that is on the move, and of a closed thread.\<close>

lemma tinv_upd_off:
  assumes i: "tinv X M TL tmp T" and r: "Thread_timer t \<notin> set TL" and tX: "t \<in> X"
    and a: "timer_activated tm \<Longrightarrow> timer_periodic tm"
  shows "tinv X (M(Thread_timer t \<mapsto> tm)) TL tmp T"
proof (rule tinvI)
  show "\<exists>tm'. (M(Thread_timer t \<mapsto> tm)) q = Some tm' \<and> listed_ok tm'" if "q \<in> set TL" for q
    using tinvD(3) [OF i that] that r by (cases "q = Thread_timer t") auto
  show "\<exists>tm'. (M(Thread_timer t \<mapsto> tm)) (Thread_timer u) = Some tm' \<and> is_timer_object tm' \<and> thread_timer_wf u tm'"
    if "T u = Some th" "u \<notin> X" "thread_stat th \<noteq> RT_THREAD_CLOSE" for u th
    using tinvD(5) [OF i that] that tX by (cases "u = t") auto
  show "q \<in> set TL"
    if "(M(Thread_timer t \<mapsto> tm)) q = Some tm'" "timer_activated tm'" "\<not> timer_periodic tm'" for q tm'
    using tinvD(6) [OF i _ that(2,3)] that a by (auto split: if_splits)
  show "tm_timeout_func tm' \<noteq> Rt_thread_timeout" if "(M(Thread_timer t \<mapsto> tm)) (Timer n) = Some tm'" for n tm'
    using tinvD(7) [OF i] that by simp
qed (fact tinvD [OF i])+

definition static_timer :: "(timer_ref \<rightharpoonup> rt_timer) \<Rightarrow> nat \<Rightarrow> bool" where
  "static_timer M t \<longleftrightarrow> (\<exists>tm. M (Thread_timer t) = Some tm \<and> is_timer_object tm \<and>
     rt_object_is_systemobject (tm_parent tm))"

lemma own_timer_static: "own_timer M t \<Longrightarrow> static_timer M t"
  by (auto simp: own_timer_def static_timer_def thread_timer_wf_def timer_static_def rt_object_is_systemobject_def)

lemma rt_timer_detach_kinvx:
  assumes i: "kinvx X k" and t: "static_timer (k_timers k) t" "t \<in> X"
  shows "returns (rt_timer_detach (Thread_timer t) k) (\<lambda>k'. kinvx X k' \<and> k_threads k' = k_threads k \<and>
    k_lists k' = k_lists k \<and> k_current k' = k_current k \<and> k_timer_list k' = removeAll (Thread_timer t) (k_timer_list k) \<and>
    (\<forall>r. r \<noteq> Thread_timer t \<longrightarrow> k_timers k' r = k_timers k r))"
proof -
  obtain tm where tm: "k_timers k (Thread_timer t) = Some tm" "is_timer_object tm"
    "rt_object_is_systemobject (tm_parent tm)"
    using t(1) by (auto simp: static_timer_def)
  let ?tm = "(deactivate tm)\<lparr>tm_parent := (tm_parent (deactivate tm))\<lparr>ob_type := 0\<rparr>\<rparr>"
  have na: "\<not> timer_activated ?tm" using deactivate_fields(6) [of tm] by (simp add: timer_activated_def)
  have "kinvx X (stopped (Thread_timer t) tm k)" by (rule kinvx_stopped [OF i tm(1)])
  then have ti: "tinv X ((k_timers k)(Thread_timer t \<mapsto> deactivate tm)) (removeAll (Thread_timer t) (k_timer_list k))
      (removeAll (Thread_timer t) (k_timer_tmp k)) (k_threads k)" by (simp add: kinvx_def)
  have "tinv X ((k_timers k)(Thread_timer t \<mapsto> deactivate tm, Thread_timer t \<mapsto> ?tm))
      (removeAll (Thread_timer t) (k_timer_list k)) (removeAll (Thread_timer t) (k_timer_tmp k)) (k_threads k)"
    by (rule tinv_upd_off [OF ti _ t(2)]) (use na in simp_all)
  then show ?thesis
    using tm i by (simp add: rt_timer_detach_def rt_timer_remove_def mod_timer_def rt_object_detach_def storage_def kinvx_def)
qed

lemma object_detach_thread:
  assumes "k_threads k t = Some th"
  shows "rt_object_detach (OThread t) k = Some (k
    \<lparr>k_threads := (k_threads k)(t \<mapsto> th\<lparr>th_parent := (th_parent th)\<lparr>ob_type := 0\<rparr>\<rparr>),
     k_objects := (\<lambda>c. removeAll (OThread t) (k_objects k c))\<rparr>)"
  using assms by (simp add: rt_object_detach_def storage_def)

text \<open>
  The common end of \<^verbatim>\<open>rt_thread_detach\<close>, \<^verbatim>\<open>rt_thread_delete\<close> and \<^verbatim>\<open>_rt_thread_exit\<close>: a thread on the move is
  closed; a static one leaves the container, a dynamic one is queued for the idle thread.
\<close>

definition closed :: "nat \<Rightarrow> kernel \<Rightarrow> bool" where
  "closed t k \<longleftrightarrow> (\<exists>th. k_threads k t = Some th \<and> thread_stat th = RT_THREAD_CLOSE) \<and>
     Thread_timer t \<notin> set (k_timer_list k) \<and> (\<forall>h. h \<noteq> Defunct \<longrightarrow> t \<notin> set (k_lists k h))"

lemma thread_stat_close [simp]: "thread_stat (th\<lparr>th_stat := RT_THREAD_CLOSE\<rparr>) = RT_THREAD_CLOSE"
  by (simp add: thread_stat_def)

lemma kinvx_close:
  assumes i: "kinvx (insert t X) k" and t: "k_threads k t = Some th"
    and w: "prio th < 32" "unat (th_init_priority th) < 32"
    and n: "Thread_timer t \<notin> set (k_timer_list k)" and tX: "t \<notin> X"
  defines "th' \<equiv> th\<lparr>th_stat := RT_THREAD_CLOSE\<rparr>"
  shows "kinvx X (k\<lparr>k_threads := (k_threads k)(t \<mapsto> th')\<rparr>)"
proof -
  have "kinvx (insert t X) (k\<lparr>k_threads := (k_threads k)(t \<mapsto> th')\<rparr>)" by (rule kinvx_upd_X [OF i]) simp
  then have "kinvx (X - {t}) (k\<lparr>k_threads := (k_threads k)(t \<mapsto> th')\<rparr>)"
    by (rule kinvx_settle [where th = th'])
      (use w n in \<open>simp_all add: th'_def thread_wf_def prio_def\<close>)
  then show ?thesis using tX by simp
qed

lemma thread_end_kinvx:
  assumes i: "kinvx X k" and t: "k_threads k t = Some th" "thread_stat th = RT_THREAD_CLOSE" and tX: "t \<notin> X"
    and n: "Thread_timer t \<notin> set (k_timer_list k)" and out: "\<And>h. t \<notin> set (k_lists k h)"
  shows "returns (if rt_object_is_systemobject (th_parent th) then rt_object_detach (OThread t) k
           else Some (rt_thread_defunct_enqueue t k)) (\<lambda>k'. kinvx X k' \<and> closed t k' \<and> k_current k' = k_current k)"
proof (cases "rt_object_is_systemobject (th_parent th)")
  case True
  let ?th = "th\<lparr>th_parent := (th_parent th)\<lparr>ob_type := 0\<rparr>\<rparr>"
  have st: "thread_stat ?th = RT_THREAD_CLOSE" using t by (simp add: thread_stat_def)
  have "thread_wf th" using i t tX linvD(5) unfolding kinvx_def by blast
  then have "thread_wf ?th" using t st by (simp add: thread_wf_def prio_def)
  then have "kinvx X (k\<lparr>k_threads := (k_threads k)(t \<mapsto> ?th)\<rparr>)"
    by (intro kinvx_upd_settled [OF i t(1)]) (use t st in simp_all)
  then show ?thesis using True n out st by (simp add: object_detach_thread [OF t(1)] kinvx_def closed_def)
next
  case False
  have "linv X ((k_lists k)(Defunct := [] @ t # k_lists k Defunct)) (k_ready_group k) (k_threads k)"
    by (rule linv_enqueue [where T = "k_threads k", OF _ t(1) tX out]) (use i t in \<open>simp_all add: kinvx_def member_ok_def\<close>)
  then have "kinvx X (rt_thread_defunct_enqueue t k)"
    using i by (simp add: kinvx_def rt_thread_defunct_enqueue_def tlist_insert_after_def lists_insert_after_def)
  then show ?thesis using False t n out
    by (simp add: closed_def rt_thread_defunct_enqueue_def tlist_insert_after_def lists_insert_after_def)
qed

text \<open>
  The threads of this program register no cleanup function (\<^verbatim>\<open>thread->cleanup\<close> stays 0).
\<close>

lemma thread_off_kinvx:
  assumes i: "kinvx X k" and t: "k_threads k t = Some th" "t \<notin> X"
    and s: "thread_stat th \<noteq> RT_THREAD_INIT" "thread_stat th \<noteq> RT_THREAD_CLOSE"
  defines "k1 \<equiv> k\<lparr>k_lists := lists_remove t (k_lists k), k_ready_group := removed_group t th k\<rparr>"
  shows "rt_schedule_remove_thread t k = Some k1" and "kinvx (insert t X) k1" and "live th"
    and "static_timer (k_timers k) t"
proof -
  have l: "live th" "own_timer (k_timers k) t" using kinvx_live [OF i t] s by auto
  then show "live th" "static_timer (k_timers k) t" by (auto intro: own_timer_static)
  have p: "prio th < 32" "th_number_mask th = push_bit (prio th) 1" using l by (simp_all add: live_def)
  show "rt_schedule_remove_thread t k = Some k1" "kinvx (insert t X) k1"
    unfolding k1_def by (rule remove_thread [OF i t(1) p])+
qed

lemma detach_timer_and_close:
  assumes i: "kinvx (insert t X) k1" and t: "k_threads k1 t = Some th" "t \<notin> X" and w: "prio th < 32" "unat (th_init_priority th) < 32"
    and m: "static_timer (k_timers k1) t" and out: "\<And>h. t \<notin> set (k_lists k1 h)"
  shows "returns (Option.bind (rt_timer_detach (Thread_timer t) k1)
      (mod_thread t (\<lambda>th. th\<lparr>th_stat := RT_THREAD_CLOSE\<rparr>))) (\<lambda>k'. kinvx X k' \<and>
        k_threads k' = (k_threads k1)(t \<mapsto> th\<lparr>th_stat := RT_THREAD_CLOSE\<rparr>) \<and> k_lists k' = k_lists k1 \<and>
        Thread_timer t \<notin> set (k_timer_list k') \<and> k_current k' = k_current k1)"
proof (simp, rule returns_mono [OF rt_timer_detach_kinvx [OF i m]])
  fix k' assume k': "kinvx (insert t X) k' \<and> k_threads k' = k_threads k1 \<and> k_lists k' = k_lists k1 \<and>
     k_current k' = k_current k1 \<and> k_timer_list k' = removeAll (Thread_timer t) (k_timer_list k1) \<and>
     (\<forall>r. r \<noteq> Thread_timer t \<longrightarrow> k_timers k' r = k_timers k1 r)"
  have "kinvx X (k'\<lparr>k_threads := (k_threads k')(t \<mapsto> th\<lparr>th_stat := RT_THREAD_CLOSE\<rparr>)\<rparr>)"
    by (rule kinvx_close) (use k' t w in simp_all)
  then show "returns (mod_thread t (\<lambda>th. th\<lparr>th_stat := RT_THREAD_CLOSE\<rparr>) k') (\<lambda>k'. kinvx X k' \<and>
        k_threads k' = (k_threads k1)(t \<mapsto> th\<lparr>th_stat := RT_THREAD_CLOSE\<rparr>) \<and> k_lists k' = k_lists k1 \<and>
        Thread_timer t \<notin> set (k_timer_list k') \<and> k_current k' = k_current k1)"
    using k' t by (simp add: mod_thread_def)
qed simp

lemma rt_thread_exit_kinvx:
  assumes i: "kinvx X k" and c: "k_current k = Some t" "t \<notin> X" and t: "k_threads k t = Some th"
    and s: "thread_stat th = RT_THREAD_RUNNING" and u: "th_cleanup th = None"
  shows "returns (rt_thread_exit env k) (\<lambda>k'. kinvx X k' \<and> (\<exists>k1. closed t k1 \<and> sched_rel k1 k'))"
proof -
  note off = thread_off_kinvx [OF i t c(2), unfolded s, simplified]
  let ?k1 = "k\<lparr>k_lists := lists_remove t (k_lists k), k_ready_group := removed_group t th k\<rparr>"
  let ?th = "th\<lparr>th_stat := RT_THREAD_CLOSE\<rparr>"
  have mt: "k_timers ?k1 = k_timers k" by simp
  obtain tm where tm: "k_timers k (Thread_timer t) = Some tm" "is_timer_object tm"
    "rt_object_is_systemobject (tm_parent tm)" using off(4) by (auto simp: static_timer_def)
  have k2: "kinvx (insert t X) (?k1\<lparr>k_threads := (k_threads k)(t \<mapsto> ?th)\<rparr>)"
    using kinvx_upd_X [OF off(2), of t] by simp
  have d: "returns (rt_timer_detach (Thread_timer t) (?k1\<lparr>k_threads := (k_threads k)(t \<mapsto> ?th)\<rparr>))
     (\<lambda>k'. kinvx (insert t X) k' \<and> k_threads k' = (k_threads k)(t \<mapsto> ?th) \<and> k_lists k' = lists_remove t (k_lists k) \<and>
       k_current k' = k_current k \<and> Thread_timer t \<notin> set (k_timer_list k'))"
    by (rule returns_mono [OF rt_timer_detach_kinvx [OF k2]]) (use off(4) in auto)
  have e: "rt_thread_exit env k = Option.bind (rt_timer_detach (Thread_timer t) (?k1\<lparr>k_threads := (k_threads k)(t \<mapsto> ?th)\<rparr>))
    (\<lambda>k. Option.bind (get_thread t k) (\<lambda>th. Option.bind
       (if rt_object_is_systemobject (th_parent th) then rt_object_detach (OThread t) k
        else Some (rt_thread_defunct_enqueue t k)) rt_schedule))"
    using c t u off(1)
    by (simp add: rt_thread_exit_def rt_thread_self_def rt_thread_cleanup_execute_def get_thread_def mod_thread_def)
  show ?thesis unfolding e returns_simps
  proof (rule returns_mono [OF d])
    fix k' assume k': "kinvx (insert t X) k' \<and> k_threads k' = (k_threads k)(t \<mapsto> ?th) \<and>
       k_lists k' = lists_remove t (k_lists k) \<and> k_current k' = k_current k \<and> Thread_timer t \<notin> set (k_timer_list k')"
    have "kinvx (X - {t}) k'"
      by (rule kinvx_settle [where th = ?th])
        (use k' off(3) in \<open>simp_all add: thread_wf_def live_def prio_def\<close>)
    then have k'X: "kinvx X k'" using c(2) by simp
    have "returns (if rt_object_is_systemobject (th_parent ?th) then rt_object_detach (OThread t) k'
        else Some (rt_thread_defunct_enqueue t k')) (\<lambda>k''. kinvx X k'' \<and> closed t k'' \<and> k_current k'' = Some t)"
      by (rule returns_mono [OF thread_end_kinvx [OF k'X, where th = ?th]]) (use k' c in auto)
    then have "returns (if rt_object_is_systemobject (th_parent ?th) then rt_object_detach (OThread t) k'
        else Some (rt_thread_defunct_enqueue t k'))
       (\<lambda>x. returns (rt_schedule x) (\<lambda>k'. kinvx X k' \<and> (\<exists>k1. closed t k1 \<and> sched_rel k1 k')))"
      by (elim returns_mono conjE) (rule schedule_after [OF _ _ c(2)], auto)
    then show "returns (get_thread t k') (\<lambda>x. returns
         (if rt_object_is_systemobject (th_parent x) then rt_object_detach (OThread t) k'
          else Some (rt_thread_defunct_enqueue t k'))
         (\<lambda>x. returns (rt_schedule x) (\<lambda>k'. kinvx X k' \<and> (\<exists>k1. closed t k1 \<and> sched_rel k1 k'))))"
      using k' by (simp add: get_thread_def)
  qed
qed

text \<open>Detaching a static thread and deleting a dynamic one.\<close>

lemma thread_ended:
  assumes i: "kinvx X k" and t: "k_threads k t = Some th" "t \<notin> X" and u: "th_cleanup th = None"
    and s: "thread_stat th \<noteq> RT_THREAD_CLOSE"
  shows "returns (do {
       k \<leftarrow> (if thread_stat th \<noteq> RT_THREAD_INIT then rt_schedule_remove_thread t k else Some k);
       k \<leftarrow> rt_thread_cleanup_execute env t k;
       k \<leftarrow> rt_timer_detach (Thread_timer t) k;
       mod_thread t (\<lambda>th. th\<lparr>th_stat := RT_THREAD_CLOSE\<rparr>) k
     }) (\<lambda>k'. kinvx X k' \<and> k_threads k' = (k_threads k)(t \<mapsto> th\<lparr>th_stat := RT_THREAD_CLOSE\<rparr>) \<and>
        (\<forall>h. t \<notin> set (k_lists k' h)) \<and> Thread_timer t \<notin> set (k_timer_list k') \<and> k_current k' = k_current k)"
    (is "returns ?run _")
proof -
  have cl: "rt_thread_cleanup_execute env t k1 = Some k1" if "k_threads k1 = k_threads k" for k1
    using that t u by (simp add: rt_thread_cleanup_execute_def get_thread_def)
  have L: "linv X (k_lists k) (k_ready_group k) (k_threads k)"
    and M: "tinv X (k_timers k) (k_timer_list k) (k_timer_tmp k) (k_threads k)" using i by (simp_all add: kinvx_def)
  have w: "prio th < 32" "unat (th_init_priority th) < 32"
    using linvD(5) [OF L t] by (simp_all add: thread_wf_def)
  show ?thesis
  proof (cases "thread_stat th = RT_THREAD_INIT")
    case True
    have out: "\<And>h. t \<notin> set (k_lists k h)" using linv_not_on_list [OF L t(1)] True by simp
    have "kinvx (insert t X) (tlist_remove t k)" by (rule kinvx_leave [OF i t(1)]) (use True in simp)
    then have k1: "kinvx (insert t X) k" using out by (simp add: tlist_remove_def lists_remove_notin)
    have m: "static_timer (k_timers k) t"
      by (rule own_timer_static [OF tinv_own_timer [OF M t s]])
    have e: "?run = Option.bind (rt_timer_detach (Thread_timer t) k) (mod_thread t (\<lambda>th. th\<lparr>th_stat := RT_THREAD_CLOSE\<rparr>))"
      using True cl by simp
    show ?thesis unfolding e
      by (rule returns_mono [OF detach_timer_and_close [OF k1 t w m out]]) (use out in simp)
  next
    case False
    note off = thread_off_kinvx [OF i t False s]
    let ?k1 = "k\<lparr>k_lists := lists_remove t (k_lists k), k_ready_group := removed_group t th k\<rparr>"
    have e: "?run = Option.bind (rt_timer_detach (Thread_timer t) ?k1) (mod_thread t (\<lambda>th. th\<lparr>th_stat := RT_THREAD_CLOSE\<rparr>))"
      using False cl [of ?k1] off(1) by simp
    show ?thesis unfolding e
      by (rule returns_mono [OF detach_timer_and_close [OF off(2), where th = th]]) (use t w off(4) in simp_all)
  qed
qed

lemma rt_thread_detach_kinvx:
  assumes i: "kinvx X k" and t: "k_threads k t = Some th" "t \<notin> X" and u: "th_cleanup th = None"
    and s: "is_thread_object th" "rt_object_is_systemobject (th_parent th)"
  shows "returns (rt_thread_detach env t k) (\<lambda>(r, k'). r = RT_EOK \<and> kinvx X k' \<and> k_current k' = k_current k \<and>
    (thread_stat th \<noteq> RT_THREAD_CLOSE \<longrightarrow> closed t k'))"
proof (cases "thread_stat th = RT_THREAD_CLOSE")
  case True
  then show ?thesis using i t s by (simp add: rt_thread_detach_def get_thread_def)
next
  case False
  have e: "rt_thread_detach env t k = Option.bind (do {
       k \<leftarrow> (if thread_stat th \<noteq> RT_THREAD_INIT then rt_schedule_remove_thread t k else Some k);
       k \<leftarrow> rt_thread_cleanup_execute env t k;
       k \<leftarrow> rt_timer_detach (Thread_timer t) k;
       mod_thread t (\<lambda>th. th\<lparr>th_stat := RT_THREAD_CLOSE\<rparr>) k
     }) (\<lambda>k. Option.bind (get_thread t k) (\<lambda>th. Option.bind
         (if rt_object_is_systemobject (th_parent th) then rt_object_detach (OThread t) k
          else Some (rt_thread_defunct_enqueue t k)) (\<lambda>k. Some (RT_EOK, k))))"
    using t s False by (simp add: rt_thread_detach_def get_thread_def)
  show ?thesis unfolding e
  proof (rule returns_bindI [OF thread_ended [OF i t u False]], elim conjE)
    let ?th = "th\<lparr>th_stat := RT_THREAD_CLOSE\<rparr>"
    fix k' assume k': "kinvx X k'" "k_threads k' = (k_threads k)(t \<mapsto> ?th)" "\<forall>h. t \<notin> set (k_lists k' h)"
      "Thread_timer t \<notin> set (k_timer_list k')" "k_current k' = k_current k"
    have "returns (if rt_object_is_systemobject (th_parent ?th) then rt_object_detach (OThread t) k'
        else Some (rt_thread_defunct_enqueue t k')) (\<lambda>k''. kinvx X k'' \<and> closed t k'' \<and> k_current k'' = k_current k')"
      by (rule thread_end_kinvx [OF k'(1)]) (use k' t in auto)
    then show "returns (Option.bind (get_thread t k') (\<lambda>th. Option.bind
         (if rt_object_is_systemobject (th_parent th) then rt_object_detach (OThread t) k'
          else Some (rt_thread_defunct_enqueue t k')) (\<lambda>k. Some (RT_EOK, k))))
        (\<lambda>(r, k'). r = RT_EOK \<and> kinvx X k' \<and> k_current k' = k_current k \<and>
          (thread_stat th \<noteq> RT_THREAD_CLOSE \<longrightarrow> closed t k'))"
      using k'(2,5) by (simp add: get_thread_def) (auto elim: returns_mono)
  qed
qed

lemma rt_thread_delete_kinvx:
  assumes i: "kinvx X k" and t: "k_threads k t = Some th" "t \<notin> X" and u: "th_cleanup th = None"
    and s: "is_thread_object th" "\<not> rt_object_is_systemobject (th_parent th)"
  shows "returns (rt_thread_delete env t k) (\<lambda>(r, k'). r = RT_EOK \<and> kinvx X k' \<and> k_current k' = k_current k \<and>
    (thread_stat th \<noteq> RT_THREAD_CLOSE \<longrightarrow> closed t k' \<and> t \<in> set (k_lists k' Defunct)))"
proof (cases "thread_stat th = RT_THREAD_CLOSE")
  case True
  then show ?thesis using i t s by (simp add: rt_thread_delete_def get_thread_def)
next
  case False
  have e: "rt_thread_delete env t k = Option.bind (do {
       k \<leftarrow> (if thread_stat th \<noteq> RT_THREAD_INIT then rt_schedule_remove_thread t k else Some k);
       k \<leftarrow> rt_thread_cleanup_execute env t k;
       k \<leftarrow> rt_timer_detach (Thread_timer t) k;
       mod_thread t (\<lambda>th. th\<lparr>th_stat := RT_THREAD_CLOSE\<rparr>) k
     }) (\<lambda>k. Some (RT_EOK, rt_thread_defunct_enqueue t k))"
    using t s False by (simp add: rt_thread_delete_def get_thread_def)
  show ?thesis unfolding e
  proof (rule returns_bindI [OF thread_ended [OF i t u False]], elim conjE)
    let ?th = "th\<lparr>th_stat := RT_THREAD_CLOSE\<rparr>"
    fix k' assume k': "kinvx X k'" "k_threads k' = (k_threads k)(t \<mapsto> ?th)" "\<forall>h. t \<notin> set (k_lists k' h)"
      "Thread_timer t \<notin> set (k_timer_list k')" "k_current k' = k_current k"
    have "returns (if rt_object_is_systemobject (th_parent ?th) then rt_object_detach (OThread t) k'
        else Some (rt_thread_defunct_enqueue t k')) (\<lambda>k''. kinvx X k'' \<and> closed t k'' \<and> k_current k'' = k_current k')"
      by (rule thread_end_kinvx [OF k'(1)]) (use k' t in auto)
    then show "returns (Some (RT_EOK, rt_thread_defunct_enqueue t k'))
        (\<lambda>(r, k'). r = RT_EOK \<and> kinvx X k' \<and> k_current k' = k_current k \<and>
          (thread_stat th \<noteq> RT_THREAD_CLOSE \<longrightarrow> closed t k' \<and> t \<in> set (k_lists k' Defunct)))"
      using k'(5) s(2)
      by (simp add: rt_thread_defunct_enqueue_def tlist_insert_after_def lists_insert_after_def)
  qed
qed

section \<open>What the thread operations promise\<close>

text \<open>Thread \<open>t\<close> sleeps until tick \<open>to\<close>.\<close>

definition sleeping :: "nat \<Rightarrow> u32 \<Rightarrow> kernel \<Rightarrow> bool" where
  "sleeping t to k \<longleftrightarrow> (\<exists>th. k_threads k t = Some th \<and> thread_stat th = RT_THREAD_SUSPEND) \<and>
     Thread_timer t \<in> set (k_timer_list k) \<and>
     (\<exists>tm. k_timers k (Thread_timer t) = Some tm \<and> timer_activated tm \<and> tm_timeout_tick tm = to)"

lemma asleep_sleeping:
  assumes i: "kinv k1" and a: "asleep t n th k k1" and r: "sched_rel k1 k'"
  shows "sleeping t (k_tick k + n) k'"
proof -
  have th: "k_threads k1 t = Some (set_stat RT_THREAD_SUSPEND th)" using a by (simp add: asleep_def)
  then have "k_threads k' t = Some (set_stat RT_THREAD_SUSPEND th)" using sched_relD(7) [OF r th] by simp
  moreover obtain tm where tm: "k_timers k1 (Thread_timer t) = Some tm" "timer_activated tm" "tm_timeout_tick tm = k_tick k + n"
    using a by (auto simp: asleep_def)
  moreover have "Thread_timer t \<in> set (k_timer_list k1)"
  proof -
    have M: "tinv {} (k_timers k1) (k_timer_list k1) (k_timer_tmp k1) (k_threads k1)" using i by (simp add: kinvx_def)
    have "\<not> timer_periodic tm" using tinvD(5) [OF M th] tm(1) by (auto simp: thread_timer_wf_def)
    then show ?thesis using tinvD(6) [OF M tm(1,2)] by simp
  qed
  ultimately show ?thesis using sched_relD(1,2) [OF r] by (simp add: sleeping_def)
qed

lemma rt_thread_sleep_returns:
  assumes "kinv k" and "k_current k = Some t" and "k_threads k t = Some th"
    and "thread_stat th = RT_THREAD_RUNNING" and "n < RT_TICK_MAX_HALF"
  shows "returns (rt_thread_sleep n k) (\<lambda>(r, k'). r = Wait t \<and> kinv k' \<and> sleeping t (k_tick k + n) k')"
  using rt_thread_sleep_kinvx [OF assms(1,2) _ assms(3-5)] by (auto elim!: returns_mono_pair intro: asleep_sleeping)

lemma delay_until_sleep:
  assumes "k_current k = Some t" and "k_threads k t = Some th" and "is_thread_object th" and "k_tick k - tick < inc"
  shows "rt_thread_delay_until tick inc k =
    Option.bind (rt_thread_sleep (tick + inc - k_tick k) k) (\<lambda>(r, k'). Some ((tick + inc, r), k'))"
  using assms unfolding rt_thread_delay_until_def rt_thread_sleep_def
  by (simp add: rt_thread_self_def get_thread_def bind_assoc case_prod_beta')

lemma left_tick_bound:
  fixes cur tick inc :: u32
  assumes "cur - tick < inc"
  shows "tick + inc - cur \<le> inc"
proof -
  have "tick + inc - cur = inc - (cur - tick)" by simp
  also have "\<dots> \<le> inc" using assms by (simp add: word_sub_le)
  finally show ?thesis .
qed

lemma rt_thread_delay_until_returns:
  assumes "kinv k" and "k_current k = Some t" and "k_threads k t = Some th"
    and "thread_stat th = RT_THREAD_RUNNING" and "inc < RT_TICK_MAX_HALF"
  shows "returns (rt_thread_delay_until tick inc k) (\<lambda>((tick', r), k'). kinv k' \<and>
    (if k_tick k - tick < inc then tick' = tick + inc \<and> r = Wait t \<and> sleeping t (tick + inc) k'
     else tick' = k_tick k \<and> r = Done RT_EOK \<and> k' = k))"
proof -
  have o: "is_thread_object th" using kinvx_live(1) [OF assms(1,3)] assms(4) by (simp add: live_def)
  show ?thesis
  proof (cases "k_tick k - tick < inc")
    case True
    have "tick + inc - k_tick k < RT_TICK_MAX_HALF" using left_tick_bound [OF True] assms(5) by (rule le_less_trans)
    from rt_thread_sleep_returns [OF assms(1-4) this] show ?thesis
      unfolding delay_until_sleep [OF assms(2,3) o True] using True by (auto elim!: returns_mono)
  next
    case False
    then show ?thesis
      using assms o by (simp add: rt_thread_delay_until_def rt_thread_self_def get_thread_def)
  qed
qed

text \<open>
  Periodic delays do not drift: while the period since \<open>tick\<close> is not over, \<^verbatim>\<open>rt_thread_delay_until(&tick, inc)\<close> adds exactly
  \<open>inc\<close> to \<open>tick\<close> and the calling thread sleeps until that tick, across the wrap-around of the tick counter; when
  the period is over it returns at once, changes nothing, and restarts the period at the current tick.
\<close>

theorem rt_thread_delay_until_period:
  assumes "kinv k" and "k_current k = Some t" and "k_threads k t = Some th"
    and "thread_stat th = RT_THREAD_RUNNING" and "inc < RT_TICK_MAX_HALF"
  shows "returns (rt_thread_delay_until tick inc k) (\<lambda>((tick', r), k'). kinv k' \<and>
    (if k_tick k - tick < inc then tick' = tick + inc \<and> r = Wait t \<and> sleeping t (tick + inc) k'
     else tick' = k_tick k \<and> r = Done RT_EOK \<and> k' = k))"
  by (rule rt_thread_delay_until_returns [OF assms])

theorem rt_thread_delay_until_period_witness:
  "returns (rt_thread_delay_until 98 10 sample_kernel) (\<lambda>((tick', r), k'). kinv k' \<and> tick' = 108 \<and> r = Wait 10 \<and> sleeping 10 108 k')"
proof -
  have "returns (rt_thread_delay_until 98 10 sample_kernel) (\<lambda>((tick', r), k'). kinv k' \<and>
    (if k_tick sample_kernel - 98 < 10 then tick' = 98 + 10 \<and> r = Wait 10 \<and> sleeping 10 (98 + 10) k'
     else tick' = k_tick sample_kernel \<and> r = Done RT_EOK \<and> k' = sample_kernel))"
    by (rule rt_thread_delay_until_period [where th = "sample_thread RT_THREAD_RUNNING 10"]) simp_all
  then show ?thesis by simp
qed

text \<open>States of a thread put back by the scheduler's own updates.\<close>

lemma set_stat_set_stat [simp]: "st' AND NOT RT_THREAD_STAT_MASK = 0 \<Longrightarrow> set_stat st (set_stat st' th) = set_stat st th"
  using mask_replace_and_not [of st' RT_THREAD_STAT_MASK "th_stat th"] by (simp add: set_stat_def)

lemma set_stat_id: "set_stat (thread_stat th) th = th"
proof -
  have m: "(s AND m) OR (s AND NOT m) = s" for s m :: u8 by (rule bit_word_eqI) (auto simp: bit_simps)
  show ?thesis unfolding set_stat_def thread_stat_def m by simp
qed

text \<open>
  Suspending a ready thread and resuming it restores every thread; the resumed thread is at the end of the ready queue
  of its priority and on no other list, both calls return \<open>RT_EOK\<close>, and the kernel invariant holds.
\<close>

theorem rt_thread_suspend_resume:
  assumes "kinv k" and "k_threads k t = Some th" and "thread_stat th = RT_THREAD_READY"
  shows "returns (do { (r1, k1) \<leftarrow> rt_thread_suspend t k; (r2, k2) \<leftarrow> rt_thread_resume t k1; Some ((r1, r2), k2) })
    (\<lambda>((r1, r2), k'). r1 = RT_EOK \<and> r2 = RT_EOK \<and> kinv k' \<and> k_threads k' = k_threads k \<and>
       k_lists k' = lists_insert_before (Ready (prio th)) t (lists_remove t (k_lists k)))"
proof -
  have c: "k_current k \<noteq> Some t"
    using assms cinvD(2) [of "{}" "k_current k" "k_threads k" t th] by (auto simp: kinvx_def)
  have "set_stat RT_THREAD_READY th = th" using set_stat_id [of th] assms(3) by simp
  then have T: "(k_threads k)(t \<mapsto> set_stat RT_THREAD_READY th) = k_threads k" using assms(2) by (simp add: fun_upd_idem)
  have L: "lists_remove t (lists_remove t L) = lists_remove t L" for L :: "lhead \<Rightarrow> nat list"
    by (simp add: lists_remove_def removeAll_id fun_eq_iff)
  show ?thesis
  proof (rule returns_bind_pair [OF rt_thread_suspend_kinvx [OF assms(1,2)]], simp, simp add: assms(3), elim conjE)
    fix r1 k1 assume k1: "r1 = RT_EOK" "kinv k1" "suspended t th k k1"
    have th: "k_threads k1 t = Some (set_stat RT_THREAD_SUSPEND th)" using k1(3) by (simp add: suspended_def)
    show "returns (do { (r2, k2) \<leftarrow> rt_thread_resume t k1; Some ((r1, r2), k2) })
      (\<lambda>((r1, r2), k'). r1 = RT_EOK \<and> r2 = RT_EOK \<and> kinv k' \<and> k_threads k' = k_threads k \<and>
         k_lists k' = lists_insert_before (Ready (prio th)) t (lists_remove t (k_lists k)))"
    proof (rule returns_bind_pair [OF rt_thread_resume_kinvx [OF k1(2) th]], simp, simp, elim conjE)
      fix r2 k2 assume k2: "r2 = RT_EOK" "kinv k2" "woken t (set_stat RT_THREAD_SUSPEND th) k1 k2"
      have "k_threads k2 = k_threads k \<and> k_lists k2 = lists_insert_before (Ready (prio th)) t (lists_remove t (k_lists k))"
        using k2(3) k1(3) c T L by (simp add: woken_def suspended_def prio_def)
      then show "returns (Some ((r1, r2), k2)) (\<lambda>((r1, r2), k'). r1 = RT_EOK \<and> r2 = RT_EOK \<and> kinv k' \<and>
          k_threads k' = k_threads k \<and> k_lists k' = lists_insert_before (Ready (prio th)) t (lists_remove t (k_lists k)))"
        using k1(1) k2(1,2) by simp
    qed
  qed
qed

theorem rt_thread_suspend_resume_witness:
  "returns (do { (r1, k1) \<leftarrow> rt_thread_suspend 2 sample_kernel; (r2, k2) \<leftarrow> rt_thread_resume 2 k1; Some ((r1, r2), k2) })
    (\<lambda>((r1, r2), k'). r1 = RT_EOK \<and> r2 = RT_EOK \<and> kinv k' \<and> k_threads k' = sample_threads \<and>
       k_lists k' = lists_insert_before (Ready 10) 2 (lists_remove 2 sample_lists))"
  using rt_thread_suspend_resume [of sample_kernel 2 "sample_thread RT_THREAD_READY 10"] by simp

text \<open>
  Round robin: when the running thread yields while others of its priority are ready and none of a higher priority is,
  the first of them runs and the yielding thread goes to the end of their queue; no other ready queue changes.
\<close>

theorem rt_thread_yield_rotates:
  assumes "kinv k" and "k_current k = Some t" and "k_threads k t = Some th" and "thread_stat th = RT_THREAD_RUNNING"
    and "k_lock_nest k = 0" and "k_lists k (Ready (prio th)) = q # qs" and "\<forall>p < prio th. k_lists k (Ready p) = []"
  shows "returns (rt_thread_yield k) (\<lambda>(r, k'). r = RT_EOK \<and> kinv k' \<and> k_current k' = Some q \<and>
    (\<forall>p. k_lists k' (Ready p) = (if p = prio th then qs @ [t] else k_lists k (Ready p))))"
proof -
  let ?th = "th\<lparr>th_remaining_tick := th_init_tick th, th_stat := th_stat th OR RT_THREAD_STAT_YIELD\<rparr>"
  let ?k = "k\<lparr>k_threads := (k_threads k)(t \<mapsto> ?th)\<rparr>"
  have st: "thread_stat ?th = thread_stat th" by (simp add: thread_stat_def bit.conj_disj_distrib2)
  then have ss: "same_sched th ?th" by (simp add: same_sched_def prio_def)
  have i: "kinv ?k" by (rule kinvx_upd_same [OF assms(1,3) ss])
  have "(x OR 8) AND 8 \<noteq> (0 :: u8)" for x by (simp add: bit.conj_disj_distrib2 or_eq_0_iff)
  then have y: "\<not> keeps_running ?th (prio th)" by (simp add: keeps_running_def prio_def)
  have p: "prio th < 32" using kinvx_live(1) [OF assms(1,3)] assms(4) by (simp add: live_def)
  have f: "find (\<lambda>p. ready_queues k p \<noteq> []) [0..<32] = Some (prio th)"
    by (rule find_least) (use p assms(6,7) in simp_all)
  have sp: "sched_decision t ?th (ready_queues k) = (q, (ready_queues k)(prio th := qs @ [t]))"
    unfolding sched_decision_def f using y st assms(4,6) by (simp add: Let_def prio_def)
  have "rt_thread_yield k = Option.bind (rt_schedule ?k) (\<lambda>k. Some (RT_EOK, k))"
    using assms(2,3) by (simp add: rt_thread_yield_def rt_thread_self_def mod_thread_def)
  moreover have "returns (rt_schedule ?k) (\<lambda>k'. kinv k' \<and> k_current k' = Some q \<and>
      ready_queues k' = (ready_queues k)(prio th := qs @ [t]))"
    using rt_schedule_spec [OF i, of t ?th] assms(2,5) sp by (auto elim!: returns_mono)
  ultimately show ?thesis by (auto simp: fun_eq_iff elim!: returns_mono)
qed

theorem rt_thread_yield_rotates_witness:
  "returns (rt_thread_yield sample_kernel) (\<lambda>(r, k'). r = RT_EOK \<and> kinv k' \<and> k_current k' = Some 2 \<and> k_lists k' (Ready 10) = [10])"
proof -
  have "returns (rt_thread_yield sample_kernel) (\<lambda>(r, k'). r = RT_EOK \<and> kinv k' \<and> k_current k' = Some 2 \<and>
    (\<forall>p. k_lists k' (Ready p) = (if p = prio (sample_thread RT_THREAD_RUNNING 10) then [] @ [10]
       else k_lists sample_kernel (Ready p))))"
    by (rule rt_thread_yield_rotates [where th = "sample_thread RT_THREAD_RUNNING 10" and t = 10])
      (simp_all add: sample_lists_def)
  then show ?thesis by (rule returns_mono_pair) simp
qed

lemma closed_of_kinv:
  assumes "kinv k" and "k_threads k t = Some th" and "thread_stat th = RT_THREAD_CLOSE" and "Thread_timer t \<notin> set (k_timer_list k)"
  shows "closed t k"
proof -
  have "h = Defunct" if "t \<in> set (k_lists k h)" for h
    using linvD(4) [of "{}" "k_lists k" "k_ready_group k" "k_threads k" t h] that assms(1-3)
    by (cases h) (auto simp: kinvx_def member_ok_def)
  then show ?thesis using assms(2-4) by (auto simp: closed_def)
qed

lemma closed_sched_rel:
  assumes "closed t k1" and "sched_rel k1 k'" and "kinv k'"
  shows "closed t k'"
proof -
  obtain th where th: "k_threads k1 t = Some th" "thread_stat th = RT_THREAD_CLOSE" "Thread_timer t \<notin> set (k_timer_list k1)"
    using assms(1) by (auto simp: closed_def)
  then have "k_threads k' t = Some th" using sched_relD(7) [OF assms(2) th(1)] by simp
  then show ?thesis by (rule closed_of_kinv [OF assms(3)]) (use th sched_relD(2) [OF assms(2)] in simp_all)
qed

text \<open>
  When a thread returns from its entry function, \<^verbatim>\<open>_rt_thread_exit\<close> ends it: it is closed, its timer is off, and
  it is on no list but possibly the list of dead threads the idle thread frees; the kernel invariant is kept.
\<close>

theorem rt_thread_exit_closes:
  assumes "kinv k" and "k_current k = Some t" and "k_threads k t = Some th"
    and "thread_stat th = RT_THREAD_RUNNING" and "th_cleanup th = None"
  shows "returns (rt_thread_exit env k) (\<lambda>k'. kinv k' \<and> closed t k')"
  by (rule returns_mono [OF rt_thread_exit_kinvx [OF assms(1,2) _ assms(3-5)]]) (auto intro: closed_sched_rel)

theorem rt_thread_exit_closes_witness:
  "\<forall>env. returns (rt_thread_exit env sample_kernel) (\<lambda>k'. kinv k' \<and> closed 10 k')"
  using rt_thread_exit_closes [of sample_kernel 10 "sample_thread RT_THREAD_RUNNING 10"] by simp

text \<open>
  Changing the priority of a live thread to a valid one returns \<open>RT_EOK\<close>, keeps the kernel invariant -- so a ready thread
  is on the queue of its new priority and the ready bits agree -- and changes nothing else: not the thread's state, no
  other thread, no timer, no waiting list.
\<close>

theorem rt_thread_control_priority:
  assumes "kinv k" and "k_threads k t = Some th" and "unat p < 32" and "thread_stat th \<noteq> RT_THREAD_CLOSE"
  shows "returns (rt_thread_control env t RT_THREAD_CTRL_CHANGE_PRIORITY p k) (\<lambda>(r, k'). r = RT_EOK \<and> kinv k' \<and>
    repri t (unat p) k k' \<and> (thread_stat th = RT_THREAD_READY \<longrightarrow> t \<in> set (k_lists k' (Ready (unat p)))))"
proof -
  have o: "is_thread_object th"
    using assms(1,2,4) linvD(5) [of "{}" "k_lists k" "k_ready_group k" "k_threads k" t th]
    by (simp add: kinvx_def thread_wf_def)
  have q: "t \<in> set (k_lists k' (Ready (unat p)))"
    if "kinv k'" "repri t (unat p) k k'" "thread_stat th = RT_THREAD_READY" for k'
    using that assms(2) linvD(6) [of "{}" "k_lists k'" "k_ready_group k'" "k_threads k'" t]
    by (auto simp: kinvx_def repri_def)
  have "returns (rt_thread_change_priority t p k) (\<lambda>k'. kinv k' \<and> repri t (unat p) k k')"
    using control_priority_kinvx [OF assms(1,2) _ assms(3,4), where b = True and env = env] assms(2) o
    by (auto simp: rt_thread_control_def get_thread_def returns_def bind_eq_Some_conv)
  then show ?thesis
    using assms(2) o q by (auto simp: rt_thread_control_def get_thread_def elim!: returns_mono)
qed

theorem rt_thread_control_priority_witness:
  "\<forall>env. returns (rt_thread_control env 2 RT_THREAD_CTRL_CHANGE_PRIORITY 7 sample_kernel) (\<lambda>(r, k'). r = RT_EOK \<and>
    kinv k' \<and> 2 \<in> set (k_lists k' (Ready 7)))"
proof
  fix env
  have "returns (rt_thread_control env 2 RT_THREAD_CTRL_CHANGE_PRIORITY 7 sample_kernel) (\<lambda>(r, k'). r = RT_EOK \<and> kinv k' \<and>
    repri 2 (unat (7 :: u8)) sample_kernel k' \<and>
    (thread_stat (sample_thread RT_THREAD_READY 10) = RT_THREAD_READY \<longrightarrow> 2 \<in> set (k_lists k' (Ready (unat (7 :: u8))))))"
    by (rule rt_thread_control_priority) simp_all
  then show "returns (rt_thread_control env 2 RT_THREAD_CTRL_CHANGE_PRIORITY 7 sample_kernel) (\<lambda>(r, k'). r = RT_EOK \<and>
    kinv k' \<and> 2 \<in> set (k_lists k' (Ready 7)))" by (rule returns_mono_pair) simp
qed

end
