(* ===== verification/Heap.thy ===== *)
theory Heap
  imports Mem
begin

text \<open>
  Correctness of the allocator of \<^verbatim>\<open>mem.c\<close>.  The headers in the heap represent a list of blocks that tile the heap; no
  two free blocks are adjacent, \<^verbatim>\<open>lfree\<close> is the first free block and the statistics count the used ones.
  \<open>rt_malloc\<close> and \<open>rt_free\<close> keep this invariant and change the set of allocated blocks by exactly the block they
  return or are given.
\<close>

section \<open>Blocks\<close>

text \<open>A block: the offset of its header, the offset of the next header, and whether it is used.\<close>

type_synonym blk = "nat \<times> nat \<times> bool"

fun tiles :: "nat \<Rightarrow> blk list \<Rightarrow> nat \<Rightarrow> bool" where
  "tiles s [] e \<longleftrightarrow> s = e"
| "tiles s ((p, n, u) # bs) e \<longleftrightarrow> p = s \<and> p + (SIZEOF_STRUCT_MEM + MIN_SIZE_ALIGNED) \<le> n \<and> 4 dvd n \<and> tiles n bs e"

fun rep :: "(nat \<rightharpoonup> heap_mem) \<Rightarrow> nat \<Rightarrow> blk list \<Rightarrow> bool" where
  "rep I pv [] \<longleftrightarrow> True"
| "rep I pv ((p, n, u) # bs) \<longleftrightarrow>
     I p = Some \<lparr>hm_magic = HEAP_MAGIC, hm_used = of_bool u, hm_next = n, hm_prev = pv\<rparr> \<and> rep I p bs"

fun last_start :: "nat \<Rightarrow> blk list \<Rightarrow> nat" where
  "last_start pv [] = pv"
| "last_start pv ((p, n, u) # bs) = last_start p bs"

fun first_free :: "nat \<Rightarrow> blk list \<Rightarrow> nat" where
  "first_free e [] = e"
| "first_free e ((p, n, u) # bs) = (if u then first_free e bs else p)"

fun gaps_joined :: "blk list \<Rightarrow> bool" where
  "gaps_joined ((p, n, u) # (p', n', u') # bs) \<longleftrightarrow> (u \<or> u') \<and> gaps_joined ((p', n', u') # bs)"
| "gaps_joined _ \<longleftrightarrow> True"

definition used_bytes :: "blk list \<Rightarrow> nat" where
  "used_bytes bs = (\<Sum>(p, n, u) \<leftarrow> bs. if u then n - p else 0)"

definition allocated :: "blk list \<Rightarrow> (nat \<times> nat) set" where
  "allocated bs = {(p, n). (p, n, True) \<in> set bs}"

text \<open>A heap whose headers represent blocks, before free neighbours are joined.\<close>

definition heap_list :: "rt_heap \<Rightarrow> blk list \<Rightarrow> bool" where
  "heap_list h bs \<longleftrightarrow> rep (hp_items h) 0 bs \<and> tiles 0 bs (hp_end h) \<and>
     (\<exists>m. hp_items h (hp_end h) = Some m \<and> hm_used m = 1) \<and> hp_lfree h = first_free (hp_end h) bs"

definition heap_rep :: "rt_heap \<Rightarrow> blk list \<Rightarrow> bool" where
  "heap_rep h bs \<longleftrightarrow> heap_list h bs \<and> gaps_joined bs \<and> hp_end h = hp_size_aligned h + SIZEOF_STRUCT_MEM \<and>
     4 dvd hp_ptr h \<and> hp_ptr h + hp_end h < 2 ^ 32 \<and> hp_used_mem h = used_bytes bs \<and> hp_used_mem h \<le> hp_max_mem h"

section \<open>Lists of blocks\<close>

lemma tiles_append: "tiles s (as @ bs) e \<longleftrightarrow> (\<exists>m. tiles s as m \<and> tiles m bs e)"
  by (induction s as e rule: tiles.induct) auto

lemma tiles_le: "tiles s bs e \<Longrightarrow> s \<le> e"
  by (induction s bs e rule: tiles.induct) auto

lemma tiles_in:
  "tiles s bs e \<Longrightarrow> (p, n, u) \<in> set bs \<Longrightarrow> s \<le> p \<and> p + 24 \<le> n \<and> n \<le> e \<and> 4 dvd n"
  by (induction s bs e rule: tiles.induct) (auto dest: tiles_le)

lemma tiles_notin: "tiles s bs e \<Longrightarrow> x < s \<or> e \<le> x \<Longrightarrow> x \<notin> fst ` set bs"
  using tiles_in by fastforce

lemma tiles_dvd: "tiles s bs e \<Longrightarrow> 4 dvd s \<Longrightarrow> (p, n, u) \<in> set bs \<Longrightarrow> 4 dvd p"
  by (induction s bs e rule: tiles.induct) auto

lemma rep_append: "rep I pv (as @ bs) \<longleftrightarrow> rep I pv as \<and> rep I (last_start pv as) bs"
  by (induction I pv as rule: rep.induct) auto

lemma rep_upd: "x \<notin> fst ` set bs \<Longrightarrow> rep (I(x := y)) pv bs = rep I pv bs"
  by (induction I pv bs rule: rep.induct) auto

lemma last_start_snoc [simp]: "last_start pv (as @ [(p, n, u)]) = p"
  by (induction pv as rule: last_start.induct) auto

lemma first_free_append: "first_free e (as @ bs) = (if \<exists>q m. (q, m, False) \<in> set as then first_free e as else first_free e bs)"
  by (induction e as rule: first_free.induct) auto

lemma used_bytes_simps [simp]:
  "used_bytes [] = 0" "used_bytes ((p, n, u) # bs) = (if u then n - p else 0) + used_bytes bs"
  "used_bytes (as @ bs) = used_bytes as + used_bytes bs"
  by (simp_all add: used_bytes_def)

lemma gaps_joined_append:
  "gaps_joined (as @ (p, n, u) # bs) \<longleftrightarrow> gaps_joined (as @ [(p, n, u)]) \<and> gaps_joined ((p, n, u) # bs)"
  by (induction as rule: gaps_joined.induct) auto

lemma gaps_joined_used: "gaps_joined ((p, n, True) # bs) \<longleftrightarrow> gaps_joined bs"
  "gaps_joined (as @ [(p, n, True)]) \<longleftrightarrow> gaps_joined as"
proof -
  show "gaps_joined ((p, n, True) # bs) \<longleftrightarrow> gaps_joined bs" by (cases bs) auto
  show "gaps_joined (as @ [(p, n, True)]) \<longleftrightarrow> gaps_joined as" by (induction as rule: gaps_joined.induct) auto
qed

lemma gaps_joined_start:
  "gaps_joined ((p, n, u) # bs) \<longleftrightarrow> gaps_joined ((p', n', u) # bs)"
  "gaps_joined (as @ [(p, n, u)]) \<longleftrightarrow> gaps_joined (as @ [(p', n', u)])"
proof -
  show "gaps_joined ((p, n, u) # bs) \<longleftrightarrow> gaps_joined ((p', n', u) # bs)" by (cases bs) auto
  show "gaps_joined (as @ [(p, n, u)]) \<longleftrightarrow> gaps_joined (as @ [(p', n', u)])" by (induction as rule: gaps_joined.induct) auto
qed

text \<open>Joining two adjacent blocks, and its inverse, on the headers.\<close>

lemma rep_head_prev:
  assumes "rep I pv cs" and "tiles n cs e" and "I n = Some x"
  shows "rep (I(n \<mapsto> x\<lparr>hm_prev := p\<rparr>)) p cs"
proof (cases cs)
  case (Cons c cs')
  obtain n' u where c: "c = (n, n', u)" and t: "tiles n' cs' e" "n < n'" using assms(2) Cons by (cases c) auto
  have "n \<notin> fst ` set cs'" using tiles_notin [OF t(1)] t(2) by blast
  then show ?thesis using assms Cons c by (simp add: rep_upd)
qed simp

lemma rep_join:
  assumes r: "rep I pv (as @ (p, n, u) # (n, n', v) # cs)" and t: "tiles s (as @ (p, n, u) # (n, n', v) # cs) e"
    and x: "I n' = Some x" and m: "I p = Some m"
  shows "rep (I(p \<mapsto> m\<lparr>hm_next := n'\<rparr>, n' \<mapsto> x\<lparr>hm_prev := p\<rparr>)) pv (as @ (p, n', u) # cs)"
    and "tiles s (as @ (p, n', u) # cs) e" and "n' \<noteq> p"
proof -
  have ta: "tiles s as p" and tp: "p + 24 \<le> n" "n + 24 \<le> n'" "4 dvd n'" and tc: "tiles n' cs e" "n' \<le> e"
    using t tiles_le by (auto simp: tiles_append)
  show "tiles s (as @ (p, n', u) # cs) e" using ta tp tc by (auto simp: tiles_append)
  show ne: "n' \<noteq> p" using tp by simp
  have na: "p \<notin> fst ` set as" "n' \<notin> fst ` set as" "p \<notin> fst ` set cs"
    using tiles_notin [OF ta] tiles_notin [OF tc(1)] tp by auto
  have mm: "m = \<lparr>hm_magic = HEAP_MAGIC, hm_used = of_bool u, hm_next = n, hm_prev = last_start pv as\<rparr>"
    and rc: "rep I n cs" and ra: "rep I pv as" using r m by (simp_all add: rep_append)
  have "rep (I(n' \<mapsto> x\<lparr>hm_prev := p\<rparr>)) p cs" by (rule rep_head_prev [OF rc tc(1) x])
  then have "rep (I(p \<mapsto> m\<lparr>hm_next := n'\<rparr>, n' \<mapsto> x\<lparr>hm_prev := p\<rparr>)) p cs"
    using na(3) ne by (simp add: fun_upd_twist rep_upd)
  then show "rep (I(p \<mapsto> m\<lparr>hm_next := n'\<rparr>, n' \<mapsto> x\<lparr>hm_prev := p\<rparr>)) pv (as @ (p, n', u) # cs)"
    using ra na ne mm by (simp add: rep_append rep_upd)
qed

section \<open>Plugging holes\<close>

definition heap_same :: "rt_heap \<Rightarrow> rt_heap \<Rightarrow> bool" where
  "heap_same h h' \<longleftrightarrow> hp_end h' = hp_end h \<and> hp_size_aligned h' = hp_size_aligned h \<and> hp_ptr h' = hp_ptr h \<and>
     hp_used_mem h' = hp_used_mem h \<and> hp_max_mem h' = hp_max_mem h"

lemma heap_same_trans: "heap_same a b \<Longrightarrow> heap_same b c \<Longrightarrow> heap_same a c"
  by (simp add: heap_same_def)

lemma heap_same_refl [simp]: "heap_same h h"
  by (simp add: heap_same_def)

definition join_items :: "nat \<Rightarrow> nat \<Rightarrow> rt_heap \<Rightarrow> rt_heap option" where
  "join_items p n' h = do {
     h \<leftarrow> set_item p (\<lambda>m. m\<lparr>hm_next := n'\<rparr>) h;
     set_item n' (\<lambda>x. x\<lparr>hm_prev := p\<rparr>) h
   }"

lemma heap_list_next:
  assumes "heap_list h (as @ (p, n, u) # cs)"
  obtains x where "hp_items h n = Some x" "cs = [] \<Longrightarrow> n = hp_end h \<and> hm_used x = 1"
    "\<And>n' v cs'. cs = (n, n', v) # cs' \<Longrightarrow> n \<noteq> hp_end h \<and> hm_used x = of_bool v \<and> hm_next x = n'"
    "\<And>c cs'. cs = c # cs' \<Longrightarrow> \<exists>n' v. c = (n, n', v)"
proof -
  have t: "tiles n cs (hp_end h)" using assms by (auto simp: heap_list_def tiles_append)
  show thesis
  proof (cases cs)
    case Nil
    then show thesis using that assms t by (auto simp: heap_list_def)
  next
    case (Cons c cs')
    obtain n' v where c: "c = (n, n', v)" "n + 24 \<le> n'" "tiles n' cs' (hp_end h)" using t Cons by (cases c) auto
    have "n' \<le> hp_end h" by (rule tiles_le [OF c(3)])
    then show thesis using that assms c Cons by (auto simp: heap_list_def rep_append)
  qed
qed

lemma heap_list_join:
  assumes h: "heap_list h (as @ (p, n, False) # (n, n', False) # cs)"
  shows "returns (join_items p n' h) (\<lambda>h'. heap_list h' (as @ (p, n', False) # cs) \<and> heap_same h h' \<and> hp_lfree h' = hp_lfree h)"
proof -
  let ?I = "hp_items h"
  have r: "rep ?I 0 (as @ (p, n, False) # (n, n', False) # cs)" and t: "tiles 0 (as @ (p, n, False) # (n, n', False) # cs) (hp_end h)"
    using h by (simp_all add: heap_list_def)
  have "heap_list h ((as @ [(p, n, False)]) @ (n, n', False) # cs)" using h by simp
  then obtain x where x: "?I n' = Some x" by (rule heap_list_next)
  obtain m where m: "?I p = Some m" using r by (simp add: rep_append)
  note j = rep_join [OF r t x m]
  let ?h = "h\<lparr>hp_items := ?I(p \<mapsto> m\<lparr>hm_next := n'\<rparr>, n' \<mapsto> x\<lparr>hm_prev := p\<rparr>)\<rparr>"
  have e: "join_items p n' h = Some ?h" using m x j(3) by (simp add: join_items_def set_item_def)
  have "p < hp_end h" using tiles_in [OF j(2), of p n' False] by simp
  then have "\<exists>me. hp_items ?h (hp_end h) = Some me \<and> hm_used me = 1" using h x by (auto simp: heap_list_def)
  moreover have "first_free (hp_end h) (as @ (p, n, False) # (n, n', False) # cs) = first_free (hp_end h) (as @ (p, n', False) # cs)"
    by (simp add: first_free_append)
  ultimately have "heap_list ?h (as @ (p, n', False) # cs)" using h j by (simp add: heap_list_def)
  then show ?thesis unfolding e by (simp add: heap_same_def)
qed

text \<open>The two halves of \<open>plug_holes\<close>.\<close>

definition plug_forward :: "nat \<Rightarrow> heap_mem \<Rightarrow> heap_mem \<Rightarrow> rt_heap \<Rightarrow> rt_heap option" where
  "plug_forward mem m nm h =
     (if mem \<noteq> hm_next m \<and> hm_used nm = 0 \<and> hm_next m \<noteq> hp_end h
      then join_items mem (hm_next nm) (if hp_lfree h = hm_next m then h\<lparr>hp_lfree := mem\<rparr> else h) else Some h)"

definition plug_backward :: "nat \<Rightarrow> rt_heap \<Rightarrow> rt_heap option" where
  "plug_backward mem h = do {
     m \<leftarrow> hp_items h mem;
     pm \<leftarrow> hp_items h (hm_prev m);
     if hm_prev m \<noteq> mem \<and> hm_used pm = 0
     then join_items (hm_prev m) (hm_next m) (if hp_lfree h = mem then h\<lparr>hp_lfree := hm_prev m\<rparr> else h) else Some h
   }"

lemma plug_holes_split:
  "plug_holes mem h = do {
     m \<leftarrow> hp_items h mem;
     rt_assert (mem < hp_end h);
     rt_assert (hm_used m = 0);
     nm \<leftarrow> hp_items h (hm_next m);
     h \<leftarrow> plug_forward mem m nm h;
     plug_backward mem h
   }"
  by (simp add: plug_holes_def plug_forward_def plug_backward_def join_items_def bind_assoc cong: if_cong)

lemma first_free_le:
  assumes "tiles 0 (as @ (p, n, False) # cs) e"
  shows "first_free e (as @ (p, n, False) # cs) \<le> p"
    and "(\<exists>q m. (q, m, False) \<in> set as) \<Longrightarrow> first_free e (as @ (p, n, False) # cs) < p"
proof -
  have ta: "tiles 0 as p" using assms by (auto simp: tiles_append)
  have *: "first_free e bs < p" if "tiles s bs p" "(q, m, False) \<in> set bs" for s bs q m
    using that by (induction s bs p rule: tiles.induct) (auto dest: tiles_le)
  show "first_free e (as @ (p, n, False) # cs) < p" if "\<exists>q m. (q, m, False) \<in> set as"
    using that * [OF ta] by (auto simp: first_free_append)
  then show "first_free e (as @ (p, n, False) # cs) \<le> p"
    by (cases "\<exists>q m. (q, m, False) \<in> set as") (auto simp: first_free_append)
qed

lemma plug_forward_joins:
  assumes h: "heap_list h (as @ (p, n, False) # cs)" and m: "hp_items h p = Some m" "hp_items h n = Some nm"
  shows "returns (plug_forward p m nm h) (\<lambda>h'. \<exists>n' cs'. heap_list h' (as @ (p, n', False) # cs') \<and> heap_same h h' \<and>
    (cs' = cs \<and> n' = n \<or> cs = (n, n', False) # cs') \<and> (gaps_joined cs \<longrightarrow> gaps_joined ((p, n', False) # cs')))"
proof (rule heap_list_next [OF h])
  fix x assume x: "hp_items h n = Some x" "cs = [] \<Longrightarrow> n = hp_end h \<and> hm_used x = 1"
    "\<And>n' v cs'. cs = (n, n', v) # cs' \<Longrightarrow> n \<noteq> hp_end h \<and> hm_used x = of_bool v \<and> hm_next x = n'"
    "\<And>c cs'. cs = c # cs' \<Longrightarrow> \<exists>n' v. c = (n, n', v)"
  have mn: "hm_next m = n" "nm = x" "p < n" "hp_lfree h \<noteq> n"
    using h m x(1) first_free_le(1) [of as p n cs "hp_end h"] by (auto simp: heap_list_def rep_append tiles_append)
  show ?thesis
  proof (cases "\<exists>n' cs'. cs = (n, n', False) # cs'")
    case True
    then obtain n' cs' where c: "cs = (n, n', False) # cs'" by blast
    have "plug_forward p m nm h = join_items p n' h" using mn x(3) [OF c] by (simp add: plug_forward_def)
    moreover have "gaps_joined cs \<Longrightarrow> gaps_joined ((p, n', False) # cs')" using c gaps_joined_start(1) by blast
    ultimately show ?thesis using heap_list_join [of h as p n n' cs'] h c by (auto elim!: returns_mono)
  next
    case False
    have "hm_used x = 1 \<or> n = hp_end h" using x(2,3,4) False by (cases cs) fastforce+
    then have e: "plug_forward p m nm h = Some h" using mn by (auto simp: plug_forward_def)
    have "gaps_joined cs \<Longrightarrow> gaps_joined ((p, n, False) # cs)" using False x(4) by (cases cs) fastforce+
    then show ?thesis unfolding e using h by auto
  qed
qed

lemma plug_backward_joins:
  assumes h: "heap_list h (as @ (p, n, False) # cs)" and g: "gaps_joined as" "gaps_joined ((p, n, False) # cs)"
  shows "returns (plug_backward p h) (\<lambda>h'. \<exists>bs. heap_list h' bs \<and> heap_same h h' \<and> gaps_joined bs \<and>
    (bs = as @ (p, n, False) # cs \<or> (\<exists>as' a. as = as' @ [(a, p, False)] \<and> bs = as' @ (a, n, False) # cs)))"
proof -
  have r: "rep (hp_items h) 0 (as @ (p, n, False) # cs)" and t: "tiles 0 (as @ (p, n, False) # cs) (hp_end h)"
    and l: "hp_lfree h = first_free (hp_end h) (as @ (p, n, False) # cs)" using h by (simp_all add: heap_list_def)
  obtain m where m: "hp_items h p = Some m" "hm_prev m = last_start 0 as" "hm_next m = n" "hm_used m = 0" using r by (auto simp: rep_append)
  show ?thesis
  proof (cases as rule: rev_cases)
    case Nil
    then have "p = 0" using t by simp
    then have "plug_backward p h = Some h" using m Nil by (simp add: plug_backward_def)
    then show ?thesis using h g(2) Nil by simp
  next
    case (snoc as' x)
    obtain a b u where xa: "x = (a, b, u)" by (cases x)
    have b: "b = p" "a < p" using t snoc xa by (auto simp: tiles_append)
    obtain pm where pm: "hp_items h a = Some pm" "hm_used pm = of_bool u" using r snoc xa by (simp add: rep_append)
    have prev: "hm_prev m = a" using m(2) snoc xa by simp
    show ?thesis
    proof (cases u)
      case True
      then have "plug_backward p h = Some h" using m pm prev b by (simp add: plug_backward_def)
      moreover have "gaps_joined (as @ (p, n, False) # cs)"
        using g snoc xa True gaps_joined_append [of as' a b True "(p, n, False) # cs"] by (simp add: gaps_joined_used)
      ultimately show ?thesis using h by (simp, intro exI [of _ "as @ (p, n, False) # cs"], simp)
    next
      case False
      have "hp_lfree h < p" unfolding l by (rule first_free_le(2) [OF t]) (use snoc xa False in auto)
      then have e: "plug_backward p h = join_items a n h" using m pm prev b False by (simp add: plug_backward_def)
      have g': "gaps_joined (as' @ (a, n, False) # cs)"
        using g snoc xa False gaps_joined_append [of as' a n False cs] gaps_joined_start(1) [of p n False cs a n]
          gaps_joined_start(2) [of as' a b False a n] by simp
      have "heap_list h (as' @ (a, p, False) # (p, n, False) # cs)" using h snoc xa b False by simp
      from heap_list_join [OF this] show ?thesis
        unfolding e by (rule returns_mono, intro exI [of _ "as' @ (a, n, False) # cs"]) (use g' snoc xa b False in simp)
    qed
  qed
qed

lemma allocated_simps [simp]:
  "allocated [] = {}" "allocated ((p, n, u) # bs) = (if u then insert (p, n) (allocated bs) else allocated bs)"
  "allocated (as @ bs) = allocated as \<union> allocated bs"
  by (auto simp: allocated_def)

lemma plug_holes_joins:
  assumes h: "heap_list h (as @ (p, n, False) # cs)" and g: "gaps_joined as" "gaps_joined cs"
  shows "returns (plug_holes p h) (\<lambda>h'. \<exists>bs. heap_list h' bs \<and> heap_same h h' \<and> gaps_joined bs \<and>
    allocated bs = allocated as \<union> allocated cs \<and> used_bytes bs = used_bytes as + used_bytes cs)"
proof -
  obtain m where m: "hp_items h p = Some m" "hm_used m = 0" "hm_next m = n" using h by (auto simp: heap_list_def rep_append)
  obtain nm where nm: "hp_items h n = Some nm" by (rule heap_list_next [OF h])
  have "p < hp_end h" using h tiles_in [of 0 "as @ (p, n, False) # cs" "hp_end h" p n False] by (simp add: heap_list_def)
  then have e: "plug_holes p h = Option.bind (plug_forward p m nm h) (plug_backward p)"
    using m nm by (simp add: plug_holes_split)
  show ?thesis
    unfolding e
  proof (rule returns_bindI [OF plug_forward_joins [OF h m(1) nm]], elim exE conjE)
    fix h1 n' cs' assume h1: "heap_list h1 (as @ (p, n', False) # cs')" "heap_same h h1"
      "cs' = cs \<and> n' = n \<or> cs = (n, n', False) # cs'" "gaps_joined cs \<longrightarrow> gaps_joined ((p, n', False) # cs')"
    have c: "allocated cs' = allocated cs" "used_bytes cs' = used_bytes cs" using h1(3) by auto
    show "returns (plug_backward p h1) (\<lambda>h'. \<exists>bs. heap_list h' bs \<and> heap_same h h' \<and> gaps_joined bs \<and>
      allocated bs = allocated as \<union> allocated cs \<and> used_bytes bs = used_bytes as + used_bytes cs)"
    proof (rule returns_mono [OF plug_backward_joins [OF h1(1) g(1)]])
      show "gaps_joined ((p, n', False) # cs')" using h1(4) g(2) by simp
      fix h' assume "\<exists>bs. heap_list h' bs \<and> heap_same h1 h' \<and> gaps_joined bs \<and>
        (bs = as @ (p, n', False) # cs' \<or> (\<exists>as' a. as = as' @ [(a, p, False)] \<and> bs = as' @ (a, n', False) # cs'))"
      then obtain bs where bs: "heap_list h' bs" "heap_same h1 h'" "gaps_joined bs"
        "bs = as @ (p, n', False) # cs' \<or> (\<exists>as' a. as = as' @ [(a, p, False)] \<and> bs = as' @ (a, n', False) # cs')" by blast
      have "allocated bs = allocated as \<union> allocated cs" "used_bytes bs = used_bytes as + used_bytes cs"
        using bs(4) c by (elim disjE exE conjE; simp)+
      then show "\<exists>bs. heap_list h' bs \<and> heap_same h h' \<and> gaps_joined bs \<and>
        allocated bs = allocated as \<union> allocated cs \<and> used_bytes bs = used_bytes as + used_bytes cs"
        using bs(1,3) heap_same_trans [OF h1(2) bs(2)] by blast
    qed
  qed
qed

section \<open>Freeing a block\<close>

lemma heap_repD:
  assumes "heap_rep h bs"
  shows "heap_list h bs" "gaps_joined bs" "hp_end h = hp_size_aligned h + SIZEOF_STRUCT_MEM" "4 dvd hp_ptr h"
    "hp_ptr h + hp_end h < 2 ^ 32" "hp_used_mem h = used_bytes bs" "hp_used_mem h \<le> hp_max_mem h"
  using assms by (simp_all add: heap_rep_def)

lemma heap_repI:
  assumes "heap_list h' bs'" "gaps_joined bs'" "heap_rep h bs" "hp_end h' = hp_end h" "hp_size_aligned h' = hp_size_aligned h"
    "hp_ptr h' = hp_ptr h" "hp_used_mem h' = used_bytes bs'" "hp_used_mem h' \<le> hp_max_mem h'"
  shows "heap_rep h' bs'"
  using assms by (simp add: heap_rep_def heap_list_def)

lemma gaps_joined_around: "gaps_joined (as @ (p, n, True) # cs) \<Longrightarrow> gaps_joined as \<and> gaps_joined cs"
  using gaps_joined_append [of as p n True cs] by (simp add: gaps_joined_used)

lemma heap_list_split:
  assumes "heap_list h (as @ (p, n, u) # cs)"
  shows "tiles 0 as p" "p + 24 \<le> n" "n \<le> hp_end h" "tiles n cs (hp_end h)" "p \<notin> fst ` set as" "p \<notin> fst ` set cs"
    "hp_items h p = Some \<lparr>hm_magic = HEAP_MAGIC, hm_used = of_bool u, hm_next = n, hm_prev = last_start 0 as\<rparr>"
    "rep (hp_items h) 0 as" "rep (hp_items h) p cs"
proof -
  have t: "tiles 0 as p" "p + 24 \<le> n" "tiles n cs (hp_end h)" using assms by (auto simp: heap_list_def tiles_append)
  then show "tiles 0 as p" "p + 24 \<le> n" "tiles n cs (hp_end h)" "n \<le> hp_end h" "p \<notin> fst ` set as" "p \<notin> fst ` set cs"
    using tiles_le tiles_notin [OF t(1)] tiles_notin [OF t(3)] by auto
  show "hp_items h p = Some \<lparr>hm_magic = HEAP_MAGIC, hm_used = of_bool u, hm_next = n, hm_prev = last_start 0 as\<rparr>"
    "rep (hp_items h) 0 as" "rep (hp_items h) p cs"
    using assms by (simp_all add: heap_list_def rep_append)
qed

lemma heap_list_mark:
  assumes h: "heap_list h (as @ (p, n, u) # cs)" and m: "hp_items h p = Some m"
    and l: "lf = first_free (hp_end h) (as @ (p, n, v) # cs)"
  shows "heap_list (h\<lparr>hp_items := (hp_items h)(p \<mapsto> m\<lparr>hm_used := of_bool v, hm_magic := HEAP_MAGIC\<rparr>), hp_lfree := lf\<rparr>) (as @ (p, n, v) # cs)"
proof -
  note d = heap_list_split [OF h]
  have "rep ((hp_items h)(p \<mapsto> m\<lparr>hm_used := of_bool v, hm_magic := HEAP_MAGIC\<rparr>)) 0 (as @ (p, n, v) # cs)"
    using d m by (simp add: rep_append rep_upd)
  moreover have "tiles 0 (as @ (p, n, v) # cs) (hp_end h)" using h by (auto simp: heap_list_def tiles_append)
  moreover have "p \<noteq> hp_end h" using d(2,3) by simp
  ultimately show ?thesis using h l by (auto simp: heap_list_def)
qed

lemma tiles_first_free: "tiles s bs e \<Longrightarrow> s \<le> first_free e bs"
  by (induction s bs e rule: tiles.induct) auto

lemma lfree_freed:
  assumes h: "heap_list h (as @ (p, n, True) # cs)"
  shows "(if p < hp_lfree h then p else hp_lfree h) = first_free (hp_end h) (as @ (p, n, False) # cs)"
proof -
  note d = heap_list_split [OF h]
  have l: "hp_lfree h = first_free (hp_end h) (as @ (p, n, True) # cs)" using h by (simp add: heap_list_def)
  have t: "tiles 0 (as @ (p, n, False) # cs) (hp_end h)" using h by (auto simp: heap_list_def tiles_append)
  show ?thesis
  proof (cases "\<exists>q m. (q, m, False) \<in> set as")
    case True
    then show ?thesis using first_free_le(2) [OF t True] l by (simp add: first_free_append)
  next
    case False
    have "n \<le> first_free (hp_end h) cs" by (rule tiles_first_free [OF d(4)])
    then have "p < hp_lfree h" using l False d(2) by (auto simp: first_free_append)
    then show ?thesis using False by (auto simp: first_free_append)
  qed
qed

lemma allocated_split:
  assumes "(p, n) \<in> allocated bs"
  obtains as cs where "bs = as @ (p, n, True) # cs"
  using assms split_list [of "(p, n, True)" bs] by (auto simp: allocated_def)

lemma allocated_remove:
  assumes "heap_list h (as @ (p, n, True) # cs)"
  shows "allocated as \<union> allocated cs = allocated (as @ (p, n, True) # cs) - {(p, n)}"
  using heap_list_split(5,6) [OF assms] by (force simp: allocated_def)

lemma rt_free_block:
  assumes h: "heap_rep h (as @ (p, n, True) # cs)"
  shows "returns (rt_free (Some (hp_ptr h + p + SIZEOF_STRUCT_MEM)) 0 h) (\<lambda>h'. \<exists>bs. heap_rep h' bs \<and>
    allocated bs = allocated (as @ (p, n, True) # cs) - {(p, n)} \<and> hp_end h' = hp_end h \<and> hp_ptr h' = hp_ptr h \<and>
    hp_size_aligned h' = hp_size_aligned h)"
proof -
  note r = heap_repD [OF h]
  note d = heap_list_split [OF r(1)]
  have dvd: "4 dvd p" using tiles_dvd [of 0 "as @ (p, n, True) # cs" "hp_end h" p n True] r(1) by (simp add: heap_list_def)
  let ?m = "\<lparr>hm_magic = HEAP_MAGIC, hm_used = 1, hm_next = n, hm_prev = last_start 0 as\<rparr>"
  define h1 where "h1 = h\<lparr>hp_items := (hp_items h)(p \<mapsto> ?m\<lparr>hm_used := of_bool False, hm_magic := HEAP_MAGIC\<rparr>),
    hp_lfree := if p < hp_lfree h then p else hp_lfree h\<rparr>"
  define h2 where "h2 = h1\<lparr>hp_used_mem := hp_used_mem h1 - (n - p)\<rparr>"
  have "heap_list h1 (as @ (p, n, False) # cs)"
    unfolding h1_def by (rule heap_list_mark [OF r(1)]) (use d(7) lfree_freed [OF r(1)] in simp_all)
  then have l2: "heap_list h2 (as @ (p, n, False) # cs)" by (simp add: h2_def heap_list_def)
  have "(hp_ptr h + p + 12) mod 4 = 0" using dvd r(4) by auto
  then have e: "rt_free (Some (hp_ptr h + p + SIZEOF_STRUCT_MEM)) 0 h = plug_holes p h2"
    using d(2,3,7) by (simp add: rt_free_def set_item_def h2_def h1_def)
  note g = gaps_joined_around [OF r(2)]
  have f: "hp_end h2 = hp_end h" "hp_size_aligned h2 = hp_size_aligned h" "hp_ptr h2 = hp_ptr h"
    "hp_used_mem h2 = used_bytes as + used_bytes cs" "hp_max_mem h2 = hp_max_mem h" "hp_used_mem h2 \<le> hp_max_mem h2"
    using r(6,7) by (simp_all add: h2_def h1_def)
  show ?thesis
    unfolding e
  proof (rule returns_mono [OF plug_holes_joins [OF l2]], (use g in blast)+, elim exE conjE)
    fix h' bs assume a: "heap_list h' bs" "heap_same h2 h'" "gaps_joined bs" "allocated bs = allocated as \<union> allocated cs"
      "used_bytes bs = used_bytes as + used_bytes cs"
    have "heap_rep h' bs" by (rule heap_repI [OF a(1,3) h]) (use a f in \<open>simp_all add: heap_same_def\<close>)
    then show "\<exists>bs. heap_rep h' bs \<and> allocated bs = allocated (as @ (p, n, True) # cs) - {(p, n)} \<and> hp_end h' = hp_end h \<and>
      hp_ptr h' = hp_ptr h \<and> hp_size_aligned h' = hp_size_aligned h"
      using a(2) trans [OF a(4) allocated_remove [OF r(1)]] f(1-3) unfolding heap_same_def by metis
  qed
qed

section \<open>Finding a block\<close>

text \<open>First fit among the free blocks that start below a bound.\<close>

fun first_fit :: "nat \<Rightarrow> nat \<Rightarrow> blk list \<Rightarrow> nat option" where
  "first_fit B sz [] = None"
| "first_fit B sz ((p, n, u) # bs) =
     (if p < B then if \<not> u \<and> p + SIZEOF_STRUCT_MEM + sz \<le> n then Some p else first_fit B sz bs else None)"

lemma sub32_le: "b \<le> a \<Longrightarrow> a < 2 ^ 32 \<Longrightarrow> sub32 a b = a - b"
proof -
  assume a: "b \<le> a" "a < 2 ^ 32"
  then have "a + 2 ^ 32 - b = (a - b) + 2 ^ 32" "a - b < 2 ^ 32" by simp_all
  then show ?thesis unfolding sub32_def by (metis mod_add_self2 mod_less)
qed

lemma malloc_find_fit:
  assumes "rep (hp_items h) pv bs" and "tiles s bs (hp_end h)" and "hp_end h = hp_size_aligned h + SIZEOF_STRUCT_MEM"
    and "hp_end h < 2 ^ 32" and "sz \<le> hp_size_aligned h"
  shows "malloc_find h sz s = Some (first_fit (hp_size_aligned h - sz) sz bs)"
  using assms(1,2)
proof (induction bs arbitrary: pv s)
  case Nil
  then have "\<not> s < sub32 (hp_size_aligned h) sz" using assms(3-5) by (simp add: sub32_le)
  then show ?case by (subst malloc_find.simps) simp
next
  case (Cons b bs)
  obtain n u where b: "b = (s, n, u)" "s + 24 \<le> n" "tiles n bs (hp_end h)" using Cons.prems(2) by (cases b) auto
  have n: "n \<le> hp_end h" by (rule tiles_le [OF b(3)])
  have i: "hp_items h s = Some \<lparr>hm_magic = HEAP_MAGIC, hm_used = of_bool u, hm_next = n, hm_prev = pv\<rparr>" "rep (hp_items h) s bs"
    using Cons.prems(1) b(1) by simp_all
  have f: "sz \<le> sub32 n (s + 12) \<longleftrightarrow> s + 12 + sz \<le> n" using b(2) n assms(4) by (simp add: sub32_le) linarith
  have B: "sub32 (hp_size_aligned h) sz = hp_size_aligned h - sz" using assms(3-5) by (simp add: sub32_le)
  show ?case
    using i Cons.IH [OF i(2) b(3)] b(1) by (subst malloc_find.simps) (simp add: B f)
qed

lemma next_free_first:
  assumes "rep (hp_items h) pv bs" and "tiles s bs (hp_end h)" and "hp_items h (hp_end h) = Some me"
  shows "next_free h s = Some (first_free (hp_end h) bs)"
  using assms(1,2)
proof (induction bs arbitrary: pv s)
  case Nil
  then show ?case using assms(3) by (subst next_free.simps) simp
next
  case (Cons b bs)
  obtain n u where b: "b = (s, n, u)" "s + 24 \<le> n" "tiles n bs (hp_end h)" using Cons.prems(2) by (cases b) auto
  have n: "s \<noteq> hp_end h" using tiles_le [OF b(3)] b(2) by simp
  have i: "hp_items h s = Some \<lparr>hm_magic = HEAP_MAGIC, hm_used = of_bool u, hm_next = n, hm_prev = pv\<rparr>" "rep (hp_items h) s bs"
    using Cons.prems(1) b(1) by simp_all
  show ?case using i Cons.IH [OF i(2) b(3)] b(1) n by (subst next_free.simps) simp
qed

text \<open>The search starts at the first free block, which skips only used ones.\<close>

lemma first_fit_later: "tiles s bs e \<Longrightarrow> B \<le> s \<Longrightarrow> first_fit B sz bs = None"
  by (cases bs) auto

lemma first_fit_used:
  assumes "rep I pv bs" and "tiles s bs e"
  obtains pv' fs where "rep I pv' fs" "tiles (first_free e bs) fs e" "first_fit B sz fs = first_fit B sz bs"
  using assms
proof (induction bs arbitrary: pv s thesis)
  case (Cons b bs)
  obtain n u where b: "b = (s, n, u)" "s + 24 \<le> n" "tiles n bs e" using Cons.prems(3) by (cases b) auto
  show ?case
  proof (cases u)
    case True
    have r: "rep I s bs" using Cons.prems(2) b(1) by simp
    obtain pv' fs where f: "rep I pv' fs" "tiles (first_free e bs) fs e" "first_fit B sz fs = first_fit B sz bs"
      using Cons.IH [OF _ r b(3)] by blast
    have "first_fit B sz (b # bs) = first_fit B sz bs" using first_fit_later [OF b(3)] b(1,2) True by simp
    then show ?thesis using Cons.prems(1) [OF f(1)] f b(1) True by simp
  next
    case False
    then show ?thesis using Cons.prems b(1) by (metis first_free.simps(2))
  qed
next
  case Nil
  show ?case by (rule Nil(1) [of 0 "[]"]) simp_all
qed

lemma first_fitD:
  assumes "first_fit B sz bs = Some p"
  obtains as n cs where "bs = as @ (p, n, False) # cs" and "p + SIZEOF_STRUCT_MEM + sz \<le> n" and "p < B"
  using assms
proof (induction B sz bs arbitrary: thesis rule: first_fit.induct)
  case (2 B sz q n u bs)
  show ?case
  proof (cases "\<not> u \<and> q + SIZEOF_STRUCT_MEM + sz \<le> n")
    case True
    then show ?thesis using 2(2) [of "[]" n bs] 2(3) by (auto split: if_splits)
  next
    case False
    then have f: "first_fit B sz bs = Some p" "q < B" using 2(3) by (auto split: if_splits)
    obtain as m cs where "bs = as @ (p, m, False) # cs" "p + SIZEOF_STRUCT_MEM + sz \<le> m" "p < B"
      using 2(1) [OF f(2) False _ f(1)] by blast
    then show ?thesis using 2(2) [of "(q, n, u) # as" m cs] by simp
  qed
qed simp

lemma first_fit_None:
  assumes "first_fit B sz bs = None" and "tiles s bs e" and "(p, n, False) \<in> set bs" and "p < B"
  shows "n < p + SIZEOF_STRUCT_MEM + sz"
  using assms
proof (induction bs arbitrary: s)
  case (Cons b bs)
  obtain m u where b: "b = (s, m, u)" "s + 24 \<le> m" "tiles m bs e" using Cons.prems(2) by (cases b) auto
  have "s \<le> p" using tiles_in [OF Cons.prems(2,3)] by simp
  then show ?case using Cons b by (auto split: if_splits)
qed simp

section \<open>Taking a block\<close>

lemma rep_cut:
  assumes ra: "rep I pv as" and rc: "rep I p cs" and t: "tiles s (as @ (p, n, u) # cs) e" and q: "p < q" "q < n"
    and x: "cs \<noteq> [] \<Longrightarrow> I n = Some x"
  defines "J \<equiv> I(q \<mapsto> \<lparr>hm_magic = HEAP_MAGIC, hm_used = 0, hm_next = n, hm_prev = p\<rparr>,
                p \<mapsto> \<lparr>hm_magic = HEAP_MAGIC, hm_used = 1, hm_next = q, hm_prev = last_start pv as\<rparr>)"
  shows "rep (if cs = [] then J else J(n \<mapsto> x\<lparr>hm_prev := q\<rparr>)) pv (as @ (p, q, True) # (q, n, False) # cs)"
proof -
  have ta: "tiles s as p" and tc: "tiles n cs e" using t by (auto simp: tiles_append)
  have na: "p \<notin> fst ` set as" "q \<notin> fst ` set as" "n \<notin> fst ` set as" using tiles_notin [OF ta] q by auto
  have nc: "p \<notin> fst ` set cs" "q \<notin> fst ` set cs" using tiles_notin [OF tc] q by auto
  have a: "rep J pv as" using ra na by (simp add: J_def rep_upd)
  have c: "rep J p cs" using rc nc by (simp add: J_def rep_upd)
  show ?thesis
  proof (cases "cs = []")
    case True
    then show ?thesis using a q by (simp add: rep_append J_def)
  next
    case False
    have "rep (J(n \<mapsto> x\<lparr>hm_prev := q\<rparr>)) q cs"
      by (rule rep_head_prev [OF c tc]) (use x [OF False] q in \<open>simp add: J_def\<close>)
    then show ?thesis using False a na(3) q by (simp add: rep_append rep_upd) (simp add: J_def)
  qed
qed

text \<open>The blocks after taking \<open>sz\<close> bytes of the free block at \<open>p\<close>.\<close>

definition taken :: "blk list \<Rightarrow> nat \<Rightarrow> nat \<Rightarrow> nat \<Rightarrow> blk list \<Rightarrow> blk list" where
  "taken as p n sz cs = (if p + SIZEOF_STRUCT_MEM + sz + SIZEOF_STRUCT_MEM + MIN_SIZE_ALIGNED \<le> n
     then as @ (p, p + SIZEOF_STRUCT_MEM + sz, True) # (p + SIZEOF_STRUCT_MEM + sz, n, False) # cs
     else as @ (p, n, True) # cs)"

lemma malloc_take_rep:
  assumes h: "heap_rep h (as @ (p, n, False) # cs)" and z: "p + SIZEOF_STRUCT_MEM + sz \<le> n" "4 dvd sz" "MIN_SIZE_ALIGNED \<le> sz"
  defines "bs \<equiv> taken as p n sz cs"
  shows "returns (malloc_take p sz h) (\<lambda>h'. heap_list (h'\<lparr>hp_lfree := first_free (hp_end h) bs\<rparr>) bs \<and> hp_lfree h' = hp_lfree h \<and>
    hp_end h' = hp_end h \<and> hp_size_aligned h' = hp_size_aligned h \<and> hp_ptr h' = hp_ptr h \<and>
    hp_used_mem h' = used_bytes bs \<and> hp_used_mem h' \<le> hp_max_mem h')"
proof -
  note r = heap_repD [OF h]
  note d = heap_list_split [OF r(1)]
  have t: "tiles 0 (as @ (p, n, False) # cs) (hp_end h)" and me: "\<exists>m. hp_items h (hp_end h) = Some m \<and> hm_used m = 1"
    using r(1) by (simp_all add: heap_list_def)
  have p4: "4 dvd p" using tiles_dvd [OF t, of p n False] by simp
  have n4: "4 dvd n" using tiles_in [OF t, of p n False] by simp
  have sub: "sub32 n (p + 12) = n - (p + 12)" using d(2,3) r(5) by (simp add: sub32_le)
  let ?q = "p + SIZEOF_STRUCT_MEM + sz"
  show ?thesis
  proof (cases "?q + SIZEOF_STRUCT_MEM + MIN_SIZE_ALIGNED \<le> n")
    case False
    then have bs: "bs = as @ (p, n, True) # cs" by (simp add: bs_def taken_def)
    let ?m = "\<lparr>hm_magic = HEAP_MAGIC, hm_used = 0, hm_next = n, hm_prev = last_start 0 as\<rparr>"
    have "heap_list (h\<lparr>hp_items := (hp_items h)(p \<mapsto> ?m\<lparr>hm_used := of_bool True, hm_magic := HEAP_MAGIC\<rparr>), hp_lfree := first_free (hp_end h) bs\<rparr>) bs"
      unfolding bs by (rule heap_list_mark [OF r(1)]) (use d(7) in simp_all)
    moreover have "malloc_take p sz h = Some (add_used (n - p) (h\<lparr>hp_items := (hp_items h)(p \<mapsto> ?m\<lparr>hm_used := 1\<rparr>)\<rparr>))"
    proof -
      have "\<not> sz + SIZEOF_STRUCT_MEM + MIN_SIZE_ALIGNED \<le> sub32 n (p + SIZEOF_STRUCT_MEM)" using False unfolding sub by linarith
      then show ?thesis using d(7) by (simp add: malloc_take_def set_item_def)
    qed
    ultimately show ?thesis using r(6) by (simp add: add_used_def bs heap_list_def)
  next
    case True
    then have bs: "bs = as @ (p, ?q, True) # (?q, n, False) # cs" by (simp add: bs_def taken_def)
    obtain x where x: "cs \<noteq> [] \<Longrightarrow> hp_items h n = Some x" "cs = [] \<longleftrightarrow> n = hp_end h"
      using heap_list_next [OF r(1)] by (metis neq_Nil_conv)
    let ?J = "(hp_items h)(?q \<mapsto> \<lparr>hm_magic = HEAP_MAGIC, hm_used = 0, hm_next = n, hm_prev = p\<rparr>,
      p \<mapsto> \<lparr>hm_magic = HEAP_MAGIC, hm_used = 1, hm_next = ?q, hm_prev = last_start 0 as\<rparr>)"
    let ?K = "if cs = [] then ?J else ?J(n \<mapsto> x\<lparr>hm_prev := ?q\<rparr>)"
    have e: "malloc_take p sz h = Some (add_used (sz + 12) (h\<lparr>hp_items := ?K\<rparr>))"
    proof -
      have "sz + SIZEOF_STRUCT_MEM + MIN_SIZE_ALIGNED \<le> sub32 n (p + SIZEOF_STRUCT_MEM)" using True unfolding sub by linarith
      then show ?thesis using d(2,7) True x r(3) by (simp add: malloc_take_def set_item_def)
    qed
    have rp: "rep ?K 0 bs" unfolding bs by (rule rep_cut [OF d(8,9) t]) (use True x in simp_all)
    have tl: "tiles 0 bs (hp_end h)" using t True z p4 n4 unfolding bs by (auto simp: tiles_append)
    have "\<exists>m. ?K (hp_end h) = Some m \<and> hm_used m = 1" using me d(2,3) True x by auto
    then have "heap_list (h\<lparr>hp_items := ?K, hp_lfree := first_free (hp_end h) bs\<rparr>) bs" using rp tl by (simp add: heap_list_def)
    then show ?thesis unfolding e using r(6) by (simp add: add_used_def bs heap_list_def)
  qed
qed

definition taken_end :: "nat \<Rightarrow> nat \<Rightarrow> nat \<Rightarrow> nat" where
  "taken_end p n sz = (if p + SIZEOF_STRUCT_MEM + sz + SIZEOF_STRUCT_MEM + MIN_SIZE_ALIGNED \<le> n then p + SIZEOF_STRUCT_MEM + sz else n)"

lemma taken_allocated: "allocated (taken as p n sz cs) = insert (p, taken_end p n sz) (allocated (as @ (p, n, False) # cs))"
  by (auto simp: taken_def taken_end_def)

lemma taken_gaps:
  assumes "gaps_joined (as @ (p, n, False) # cs)"
  shows "gaps_joined (taken as p n sz cs)"
proof -
  have g: "gaps_joined (as @ [(p, n, False)])" "gaps_joined ((p, n, False) # cs)"
    using assms gaps_joined_append [of as p n False cs] by auto
  have a: "gaps_joined as" using g(1) by (induction as rule: gaps_joined.induct) auto
  have c: "gaps_joined cs" "gaps_joined ((q, n, False) # cs)" for q
    using g(2) gaps_joined_start(1) [of p n False cs q n] by (cases cs; auto)+
  show ?thesis
    using a c gaps_joined_append [of as p _ True] by (simp add: taken_def gaps_joined_used)
qed

lemma taken_suffix:
  obtains sx where "taken as p n sz cs = as @ sx" "\<And>e. tiles 0 (as @ sx) e \<Longrightarrow> tiles p sx e"
    "\<And>I. rep I 0 (as @ sx) \<Longrightarrow> rep I (last_start 0 as) sx"
proof -
  let ?sx = "drop (length as) (taken as p n sz cs)"
  have e: "taken as p n sz cs = as @ ?sx" by (auto simp: taken_def)
  have "tiles p ?sx e" if "tiles 0 (as @ ?sx) e" for e
    using that by (auto simp: taken_def tiles_append split: if_splits)
  then show thesis using that [OF e] by (simp add: rep_append)
qed

text \<open>The new first free block: unchanged unless the first free block itself was taken.\<close>

lemma lfree_taken:
  assumes h: "heap_rep h (as @ (p, n, False) # cs)"
    and l: "heap_list (h'\<lparr>hp_lfree := first_free (hp_end h) bs\<rparr>) bs" "hp_lfree h' = hp_lfree h" "hp_end h' = hp_end h"
    and bs: "bs = taken as p n sz cs"
  shows "p = hp_lfree h' \<Longrightarrow> next_free h' (hp_lfree h') = Some (first_free (hp_end h) bs)"
    and "p \<noteq> hp_lfree h' \<Longrightarrow> hp_lfree h' = first_free (hp_end h) bs"
proof -
  note r = heap_repD [OF h]
  have t: "tiles 0 (as @ (p, n, False) # cs) (hp_end h)" and lf: "hp_lfree h = first_free (hp_end h) (as @ (p, n, False) # cs)"
    using r(1) by (simp_all add: heap_list_def)
  have L: "rep (hp_items h') 0 bs" "tiles 0 bs (hp_end h')" "\<exists>m. hp_items h' (hp_end h') = Some m \<and> hm_used m = 1"
    using l by (simp_all add: heap_list_def)
  obtain sx where s: "taken as p n sz cs = as @ sx" "\<And>e. tiles 0 (as @ sx) e \<Longrightarrow> tiles p sx e"
    "\<And>I. rep I 0 (as @ sx) \<Longrightarrow> rep I (last_start 0 as) sx" by (rule taken_suffix [of as p n sz cs]) blast
  then have sx: "bs = as @ sx" "tiles p sx (hp_end h')" "rep (hp_items h') (last_start 0 as) sx" using L(1,2) bs by simp_all
  show "next_free h' (hp_lfree h') = Some (first_free (hp_end h) bs)" if e: "p = hp_lfree h'"
  proof -
    have "\<not> first_free (hp_end h) (as @ (p, n, False) # cs) < p" using e l(2) lf by simp
    then have "\<not> (\<exists>q m. (q, m, False) \<in> set as)" using first_free_le(2) [OF t] by blast
    then have "first_free (hp_end h) bs = first_free (hp_end h) sx" using sx(1) by (simp add: first_free_append)
    then show ?thesis using next_free_first [OF sx(3,2)] L(3) l(3) e by auto
  qed
  show "hp_lfree h' = first_free (hp_end h) bs" if e: "p \<noteq> hp_lfree h'"
  proof -
    have "\<exists>q m. (q, m, False) \<in> set as" using e l(2) lf by (auto simp: first_free_append split: if_splits)
    then show ?thesis using l(2) lf sx(1) by (simp add: first_free_append)
  qed
qed

text \<open>The rounding of a request.\<close>

lemma bit_three: "bit (3 :: u32) n \<longleftrightarrow> n < 2"
proof -
  have "(3 :: u32) = mask 2" by (simp add: mask_eq_exp_minus_1)
  then show ?thesis by (simp only: bit_mask_iff) auto
qed

lemma rt_align_word: "rt_align w = push_bit 2 (drop_bit 2 (w + 3))"
  unfolding rt_align_def
proof (rule bit_word_eqI)
  fix n assume n: "n < LENGTH(32)"
  have m: "bit (a AND NOT b) n \<longleftrightarrow> bit a n \<and> \<not> bit b n" for a b :: u32 using n by (simp add: bit_simps)
  show "bit ((w + 3) AND NOT 3) n \<longleftrightarrow> bit (push_bit 2 (drop_bit 2 (w + 3))) n"
  proof (cases "n < 2")
    case False
    then have "2 + (n - 2) = n" by simp
    then show ?thesis unfolding m bit_three bit_push_bit_iff bit_drop_bit_eq o_def using False n by simp
  qed (simp only: m bit_three bit_push_bit_iff not_le simp_thms, simp)
qed

lemma rt_align_unat: "unat (rt_align w) = unat (w + 3) div 4 * 4 mod 2 ^ 32"
proof -
  have "unat (rt_align w) = take_bit 32 (push_bit 2 (drop_bit 2 (unat (w + 3))))"
    unfolding rt_align_word unsigned_push_bit_eq unsigned_drop_bit_eq
    using unsigned_less [of "w + 3", where 'a = nat] by (simp add: take_bit_nat_eq_self)
  then show ?thesis by (simp add: push_bit_eq_mult drop_bit_eq_div take_bit_eq_mod)
qed

lemma rt_align_dvd: "4 dvd unat (rt_align w)"
  by (simp add: rt_align_unat dvd_mod)

lemma rt_align_ge:
  assumes "unat w \<le> 2 ^ 32 - 4"
  shows "unat w \<le> unat (rt_align w)" and "unat (rt_align w) < unat w + 4"
proof -
  have a: "unat (w + 3) = unat w + 3" using assms by (subst unat_add_lem [THEN iffD1]) simp_all
  have "unat (rt_align w) = (unat w + 3) div 4 * 4 mod 2 ^ 32"
    by (simp add: rt_align_unat a)
  moreover have "(unat w + 3) div 4 * 4 < 2 ^ 32" using assms by simp
  ultimately have e: "unat (rt_align w) = (unat w + 3) div 4 * 4" by simp
  show "unat w \<le> unat (rt_align w)" "unat (rt_align w) < unat w + 4" unfolding e by linarith+
qed

section \<open>Allocating\<close>

lemma allocated_disjoint:
  assumes "tiles s bs e" and "(p, n) \<in> allocated bs" and "(q, m) \<in> allocated bs" and "(p, n) \<noteq> (q, m)"
  shows "n \<le> q \<or> m \<le> p"
  using assms
proof (induction bs arbitrary: s)
  case (Cons b bs)
  obtain n' u where b: "b = (s, n', u)" "tiles n' bs e" using Cons.prems(1) by (cases b) auto
  have lo: "n' \<le> x" if "(x, y) \<in> allocated bs" for x y using tiles_in [OF b(2), of x y True] that by (simp add: allocated_def)
  show ?case using Cons.IH [OF b(2)] Cons.prems(2-4) b(1) lo by (auto split: if_splits)
qed simp

definition request :: "u32 \<Rightarrow> nat" where
  "request sz0 = max MIN_SIZE_ALIGNED (unat (rt_align sz0))"

lemma heap_rep_size: "heap_rep h bs \<Longrightarrow> MIN_SIZE_ALIGNED \<le> hp_size_aligned h"
  using heap_repD(1,3) [of h bs] tiles_le by (cases bs) (fastforce simp: heap_list_def)+

lemma heap_rep_find:
  assumes h: "heap_rep h bs" and z: "sz \<le> hp_size_aligned h"
  shows "malloc_find h sz (hp_lfree h) = Some (first_fit (hp_size_aligned h - sz) sz bs)"
proof -
  note r = heap_repD [OF h]
  have l: "rep (hp_items h) 0 bs" "tiles 0 bs (hp_end h)" "hp_lfree h = first_free (hp_end h) bs" using r(1) by (simp_all add: heap_list_def)
  obtain pv fs where f: "rep (hp_items h) pv fs" "tiles (first_free (hp_end h) bs) fs (hp_end h)"
    "first_fit (hp_size_aligned h - sz) sz fs = first_fit (hp_size_aligned h - sz) sz bs" by (rule first_fit_used [OF l(1,2)])
  have "hp_end h < 2 ^ 32" using r(5) by simp
  from malloc_find_fit [OF f(1,2) r(3) this z] show ?thesis by (simp only: l(3) f(3))
qed

lemma first_free_item:
  assumes "rep I pv bs" and "I e = Some me"
  shows "\<exists>m. I (first_free e bs) = Some m \<and> (first_free e bs = e \<or> hm_used m = 0)"
  using assms by (induction I pv bs rule: rep.induct) auto

lemma malloc_finish:
  assumes h: "heap_rep h (as @ (p, n, False) # cs)" and z: "p + SIZEOF_STRUCT_MEM + sz \<le> n" "4 dvd sz" "MIN_SIZE_ALIGNED \<le> sz"
  shows "returns (do { h \<leftarrow> malloc_take p sz h;
      h \<leftarrow> set_item p (\<lambda>m. m\<lparr>hm_magic := HEAP_MAGIC\<rparr>) h;
      if p = hp_lfree h then do {
        q \<leftarrow> next_free h (hp_lfree h);
        m \<leftarrow> hp_items h q;
        rt_assert (q = hp_end h \<or> hm_used m = 0);
        Some (h\<lparr>hp_lfree := q\<rparr>)
      } else Some h })
    (\<lambda>h'. heap_rep h' (taken as p n sz cs) \<and> hp_end h' = hp_end h \<and> hp_ptr h' = hp_ptr h \<and> hp_size_aligned h' = hp_size_aligned h)"
proof (rule returns_bindI [OF malloc_take_rep [OF h z]], elim conjE)
  let ?bs = "taken as p n sz cs"
  fix h1 assume a: "heap_list (h1\<lparr>hp_lfree := first_free (hp_end h) ?bs\<rparr>) ?bs" "hp_lfree h1 = hp_lfree h" "hp_end h1 = hp_end h"
    "hp_size_aligned h1 = hp_size_aligned h" "hp_ptr h1 = hp_ptr h" "hp_used_mem h1 = used_bytes ?bs" "hp_used_mem h1 \<le> hp_max_mem h1"
  have rp: "heap_rep (h1\<lparr>hp_lfree := first_free (hp_end h) ?bs\<rparr>) ?bs"
    by (rule heap_repI [OF a(1) taken_gaps [OF heap_repD(2) [OF h]] h]) (use a in simp_all)
  obtain pn where i: "hp_items h1 p = Some \<lparr>hm_magic = HEAP_MAGIC, hm_used = 1, hm_next = taken_end p n sz, hm_prev = pn\<rparr>"
    using a(1) by (auto simp: heap_list_def taken_def taken_end_def rep_append split: if_splits)
  have s: "set_item p (\<lambda>m. m\<lparr>hm_magic := HEAP_MAGIC\<rparr>) h1 = Some h1"
    using i by (simp add: set_item_def fun_upd_idem)
  show "returns (do { h \<leftarrow> set_item p (\<lambda>m. m\<lparr>hm_magic := HEAP_MAGIC\<rparr>) h1;
      if p = hp_lfree h then do {
        q \<leftarrow> next_free h (hp_lfree h);
        m \<leftarrow> hp_items h q;
        rt_assert (q = hp_end h \<or> hm_used m = 0);
        Some (h\<lparr>hp_lfree := q\<rparr>)
      } else Some h })
    (\<lambda>h'. heap_rep h' ?bs \<and> hp_end h' = hp_end h \<and> hp_ptr h' = hp_ptr h \<and> hp_size_aligned h' = hp_size_aligned h)"
  proof (cases "p = hp_lfree h1")
    case True
    let ?q = "first_free (hp_end h) ?bs"
    have nf: "next_free h1 (hp_lfree h1) = Some ?q" by (rule lfree_taken(1) [OF h a(1-3) refl True])
    obtain m where m: "hp_items h1 ?q = Some m" "?q = hp_end h \<or> hm_used m = 0"
      using first_free_item [of "hp_items h1" 0 ?bs "hp_end h"] a(1) by (auto simp: heap_list_def a(3))
    show ?thesis using True nf m rp a unfolding s by simp
  next
    case False
    have "hp_lfree h1 = first_free (hp_end h) ?bs" by (rule lfree_taken(2) [OF h a(1-3) refl False])
    then have "h1\<lparr>hp_lfree := first_free (hp_end h) ?bs\<rparr> = h1" by simp
    then show ?thesis using False rp a unfolding s by simp
  qed
qed

lemma rt_malloc_takes:
  assumes h: "heap_rep h (as @ (p, n, False) # cs)" and z: "sz0 \<noteq> 0" "unat (rt_align sz0) \<le> hp_size_aligned h"
    and f: "first_fit (hp_size_aligned h - request sz0) (request sz0) (as @ (p, n, False) # cs) = Some p"
      "p + SIZEOF_STRUCT_MEM + request sz0 \<le> n"
  shows "returns (rt_malloc sz0 0 h) (\<lambda>(r, h'). r = Some (hp_ptr h + p + SIZEOF_STRUCT_MEM) \<and> heap_rep h' (taken as p n (request sz0) cs) \<and>
    hp_end h' = hp_end h \<and> hp_ptr h' = hp_ptr h \<and> hp_size_aligned h' = hp_size_aligned h)"
proof -
  let ?sz = "request sz0"
  have sz: "(if unat (rt_align sz0) < MIN_SIZE_ALIGNED then MIN_SIZE_ALIGNED else unat (rt_align sz0)) = ?sz" by (simp add: request_def)
  have le: "?sz \<le> hp_size_aligned h" using z(2) heap_rep_size [OF h] by (simp add: request_def)
  have d4: "4 dvd ?sz" "MIN_SIZE_ALIGNED \<le> ?sz" using rt_align_dvd [of sz0] by (simp_all add: request_def max_def)
  note r = heap_repD [OF h]
  note d = heap_list_split [OF r(1)]
  have p4: "4 dvd p" using tiles_dvd [of 0 "as @ (p, n, False) # cs" "hp_end h" p n False] r(1) by (simp add: heap_list_def)
  have m4: "(hp_ptr h + p + 12) mod 4 = 0" "(hp_ptr h + p) mod 4 = 0" using p4 r(4) by auto
  let ?block = "do { h \<leftarrow> malloc_take p ?sz h;
      h \<leftarrow> set_item p (\<lambda>m. m\<lparr>hm_magic := HEAP_MAGIC\<rparr>) h;
      if p = hp_lfree h then do {
        q \<leftarrow> next_free h (hp_lfree h);
        m \<leftarrow> hp_items h q;
        rt_assert (q = hp_end h \<or> hm_used m = 0);
        Some (h\<lparr>hp_lfree := q\<rparr>)
      } else Some h }"
  have e: "rt_malloc sz0 0 h = Option.bind ?block (\<lambda>h. do {
        rt_assert (p + SIZEOF_STRUCT_MEM + ?sz \<le> hp_end h);
        rt_assert ((hp_ptr h + p + SIZEOF_STRUCT_MEM) mod 4 = 0);
        rt_assert ((hp_ptr h + p) mod 4 = 0);
        Some (Some (hp_ptr h + p + SIZEOF_STRUCT_MEM), h) })"
    using z by (simp add: rt_malloc_def sz heap_rep_find [OF h le] f(1) bind_assoc)
  show ?thesis
    unfolding e by (rule returns_bindI [OF malloc_finish [OF h f(2) d4]]) (use m4 d(3) f(2) in simp)
qed

lemma rt_malloc_returns:
  assumes h: "heap_rep h bs" and z: "sz0 \<noteq> 0"
  shows "returns (rt_malloc sz0 0 h) (\<lambda>(r, h').
    case if unat (rt_align sz0) \<le> hp_size_aligned h then first_fit (hp_size_aligned h - request sz0) (request sz0) bs else None of
      None \<Rightarrow> r = None \<and> h' = h
    | Some p \<Rightarrow> \<exists>n bs'. r = Some (hp_ptr h + p + SIZEOF_STRUCT_MEM) \<and> heap_rep h' bs' \<and> allocated bs' = insert (p, n) (allocated bs) \<and>
        (p, n) \<notin> allocated bs \<and> p + SIZEOF_STRUCT_MEM + request sz0 \<le> n \<and> 4 dvd p \<and>
        hp_end h' = hp_end h \<and> hp_ptr h' = hp_ptr h \<and> hp_size_aligned h' = hp_size_aligned h)"
proof (cases "unat (rt_align sz0) \<le> hp_size_aligned h")
  case False
  then show ?thesis using z by (simp add: rt_malloc_def)
next
  case True
  let ?sz = "request sz0" let ?fit = "first_fit (hp_size_aligned h - ?sz) ?sz bs"
  have sz: "(if unat (rt_align sz0) < MIN_SIZE_ALIGNED then MIN_SIZE_ALIGNED else unat (rt_align sz0)) = ?sz" by (simp add: request_def)
  have le: "?sz \<le> hp_size_aligned h" using True heap_rep_size [OF h] by (simp add: request_def)
  show ?thesis
  proof (cases ?fit)
    case None
    then show ?thesis using True z heap_rep_find [OF h le] by (simp add: rt_malloc_def sz)
  next
    case (Some p)
    obtain as n cs where f: "bs = as @ (p, n, False) # cs" "p + SIZEOF_STRUCT_MEM + ?sz \<le> n" by (rule first_fitD [OF Some])
    have p4: "4 dvd p" using tiles_dvd [of 0 bs "hp_end h" p n False] heap_repD(1) [OF h] f(1) by (simp add: heap_list_def)
    have te: "p + SIZEOF_STRUCT_MEM + ?sz \<le> taken_end p n ?sz" using f(2) by (simp add: taken_end_def)
    have new: "(p, taken_end p n ?sz) \<notin> allocated bs"
      using heap_list_split(5,6) [OF heap_repD(1) [OF h [unfolded f(1)]]] f(1) by (force simp: allocated_def)
    note rt_malloc_takes [OF h [unfolded f(1)] z True Some [unfolded f(1)] f(2)]
    moreover have "(if unat (rt_align sz0) \<le> hp_size_aligned h then ?fit else None) = Some p" using True Some by simp
    ultimately show ?thesis
      unfolding option.case
      by (elim returns_mono_pair, simp only: option.case)
        (rule exI [of _ "taken_end p n ?sz"], rule exI [of _ "taken as p n ?sz cs"], use te new taken_allocated [of as p n ?sz cs] f(1) p4 in simp)
  qed
qed

section \<open>The layout is determined by the allocated blocks\<close>

lemma allocated_start: "tiles s bs e \<Longrightarrow> (p, n) \<in> allocated bs \<Longrightarrow> s \<le> p"
  using tiles_in by (fastforce simp: allocated_def)

lemma gap_end:
  assumes "tiles s ((s, n, False) # bs) e" and "gaps_joined ((s, n, False) # bs)"
  shows "(allocated bs = {} \<and> n = e) \<or> ((\<exists>m. (n, m) \<in> allocated bs) \<and> (\<forall>q m. (q, m) \<in> allocated bs \<longrightarrow> n \<le> q))"
proof (cases bs)
  case (Cons b bs')
  obtain m where "b = (n, m, True)" using assms Cons by (cases b) auto
  then show ?thesis using Cons allocated_start [of n bs e] assms(1) by auto
qed (use assms in simp)

lemma gaps_joined_tl: "gaps_joined (b # bs) \<Longrightarrow> gaps_joined bs"
  by (cases b; cases bs) auto

lemma layout_unique:
  assumes "tiles s bs e" "gaps_joined bs" "tiles s bs' e" "gaps_joined bs'" "allocated bs = allocated bs'"
  shows "bs = bs'"
  using assms
proof (induction bs arbitrary: s bs')
  case Nil
  show ?case
  proof (cases bs')
    case (Cons b cs)
    then obtain n u where "b = (s, n, u)" "s + 24 \<le> n" "tiles n cs e" using Nil.prems(3) by (cases b) auto
    then show ?thesis using tiles_le [of n cs e] Nil.prems(1) by simp
  qed simp
next
  case (Cons b bs)
  obtain n u where b: "b = (s, n, u)" "s + 24 \<le> n" "tiles n bs e" using Cons.prems(1) by (cases b) auto
  obtain n' u' cs where c: "bs' = (s, n', u') # cs" "s + 24 \<le> n'" "tiles n' cs e"
    using Cons.prems(3) b tiles_le [OF b(3)] by (cases bs') auto
  have no: "(s, x) \<notin> allocated bs" "(s, x) \<notin> allocated cs" for x
    using allocated_start [OF b(3)] allocated_start [OF c(3)] b(2) c(2) by fastforce+
  have u: "u' = u" using Cons.prems(5) no b(1) c(1) by (auto split: if_splits)
  have "allocated bs = {x \<in> allocated (b # bs). fst x \<noteq> s}" "allocated cs = {x \<in> allocated bs'. fst x \<noteq> s}"
    using no b(1) c(1) by auto
  then have al: "allocated bs = allocated cs" using Cons.prems(5) by simp
  have n: "n' = n"
  proof (cases u)
    case True
    then show ?thesis using Cons.prems(5) no b(1) c(1) u by (auto split: if_splits)
  next
    case False
    from gap_end [of s n bs e] gap_end [of s n' cs e] Cons.prems(1-4) b c False u show ?thesis
      unfolding al by (auto intro: le_antisym)
  qed
  have g: "gaps_joined bs" "gaps_joined cs"
    using Cons.prems(2,4) unfolding c(1) by (blast intro: gaps_joined_tl)+
  show ?case using Cons.IH [OF b(3) g(1) _ g(2) al] c b(1) u n by simp
qed

section \<open>What the heap promises\<close>

lemma heap_init_rep:
  assumes b: "(begin_addr + 3) div 4 * 4 + 36 \<le> end_addr div 4 * 4" "end_addr < 2 ^ 32" and m: "hp_used_mem h = 0"
  shows "heap_rep (rt_system_heap_init begin_addr end_addr h) [(0, hp_end (rt_system_heap_init begin_addr end_addr h), False)]"
proof -
  define B E where "B = (begin_addr + 3) div 4 * 4" and "E = end_addr div 4 * 4"
  have e: "E < 2 ^ 32" "B + 36 \<le> E" "4 dvd B" "4 dvd E" using b by (simp_all add: B_def E_def)
  define N where "N = E - B - 12"
  then have N: "E = B + N + 12" "24 \<le> N" using e(2) by simp_all
  have "4 dvd N" using e(3,4) N(1) by presburger
  moreover have "rt_system_heap_init begin_addr end_addr h = h\<lparr>hp_ptr := B, hp_size_aligned := N - 12,
     hp_items := (hp_items h)(0 \<mapsto> \<lparr>hm_magic = HEAP_MAGIC, hm_used = 0, hm_next = N, hm_prev = 0\<rparr>,
       N \<mapsto> \<lparr>hm_magic = HEAP_MAGIC, hm_used = 1, hm_next = N, hm_prev = N\<rparr>), hp_end := N, hp_lfree := 0\<rparr>"
    unfolding rt_system_heap_init_def B_def [symmetric] E_def [symmetric] using e N by (simp add: Let_def)
  ultimately show ?thesis using e N m by (simp add: heap_rep_def heap_list_def)
qed

text \<open>
  C23. \<^verbatim>\<open>rt_malloc\<close> of \<open>sz0\<close> bytes outside an interrupt returns.  Either it gives an aligned address of at least that many
  bytes: then exactly one block is added to the allocated ones, it lies within the heap and overlaps none of them.
  Or it gives \<^verbatim>\<open>RT_NULL\<close> and the heap is unchanged: then no free block that starts below the heap size less the request
  is large enough.
\<close>

theorem rt_malloc_correct:
  assumes h: "heap_rep h bs" and z: "sz0 \<noteq> 0" "unat sz0 \<le> 2 ^ 32 - 4"
  shows "returns (rt_malloc sz0 0 h) (\<lambda>(r, h'). case r of
      None \<Rightarrow> h' = h \<and> (\<forall>p n. (p, n, False) \<in> set bs \<longrightarrow> p + request sz0 < hp_size_aligned h \<longrightarrow> n < p + SIZEOF_STRUCT_MEM + request sz0)
    | Some a \<Rightarrow> a mod 4 = 0 \<and> (\<exists>p n bs'. a = hp_ptr h + p + SIZEOF_STRUCT_MEM \<and> heap_rep h' bs' \<and> allocated bs' = insert (p, n) (allocated bs) \<and>
        p + SIZEOF_STRUCT_MEM + unat sz0 \<le> n \<and> n \<le> hp_end h \<and> (\<forall>q m. (q, m) \<in> allocated bs \<longrightarrow> n \<le> q \<or> m \<le> p)))"
proof -
  let ?sz = "request sz0"
  have le: "unat sz0 \<le> ?sz" using rt_align_ge(1) [OF z(2)] by (simp add: request_def)
  have t: "tiles 0 bs (hp_end h)" using heap_repD(1) [OF h] by (simp add: heap_list_def)
  let ?fit = "if unat (rt_align sz0) \<le> hp_size_aligned h then first_fit (hp_size_aligned h - ?sz) ?sz bs else None"
  show ?thesis
  proof (rule returns_mono_pair [OF rt_malloc_returns [OF h z(1)]])
    fix r h' assume a: "case ?fit of None \<Rightarrow> r = None \<and> h' = h
      | Some p \<Rightarrow> \<exists>n bs'. r = Some (hp_ptr h + p + SIZEOF_STRUCT_MEM) \<and> heap_rep h' bs' \<and> allocated bs' = insert (p, n) (allocated bs) \<and>
        (p, n) \<notin> allocated bs \<and> p + SIZEOF_STRUCT_MEM + ?sz \<le> n \<and> 4 dvd p \<and>
        hp_end h' = hp_end h \<and> hp_ptr h' = hp_ptr h \<and> hp_size_aligned h' = hp_size_aligned h"
    show "case r of
      None \<Rightarrow> h' = h \<and> (\<forall>p n. (p, n, False) \<in> set bs \<longrightarrow> p + ?sz < hp_size_aligned h \<longrightarrow> n < p + SIZEOF_STRUCT_MEM + ?sz)
    | Some a \<Rightarrow> a mod 4 = 0 \<and> (\<exists>p n bs'. a = hp_ptr h + p + SIZEOF_STRUCT_MEM \<and> heap_rep h' bs' \<and> allocated bs' = insert (p, n) (allocated bs) \<and>
        p + SIZEOF_STRUCT_MEM + unat sz0 \<le> n \<and> n \<le> hp_end h \<and> (\<forall>q m. (q, m) \<in> allocated bs \<longrightarrow> n \<le> q \<or> m \<le> p))"
    proof (cases ?fit)
      case None
      have "n < p + SIZEOF_STRUCT_MEM + ?sz" if "(p, n, False) \<in> set bs" "p + ?sz < hp_size_aligned h" for p n
        using None that first_fit_None [OF _ t that(1)] by (auto simp: request_def split: if_splits)
      then show ?thesis using a unfolding None by simp
    next
      case (Some p)
      obtain n bs' where s: "r = Some (hp_ptr h + p + SIZEOF_STRUCT_MEM)" "heap_rep h' bs'" "allocated bs' = insert (p, n) (allocated bs)"
        "(p, n) \<notin> allocated bs" "p + SIZEOF_STRUCT_MEM + ?sz \<le> n" "4 dvd p" "hp_end h' = hp_end h"
        using a unfolding Some by auto
      have t': "tiles 0 bs' (hp_end h)" using heap_repD(1) [OF s(2)] s(7) by (simp add: heap_list_def)
      have "n \<le> hp_end h" using tiles_in [OF t', of p n True] s(3) by (auto simp: allocated_def)
      moreover have "n \<le> q \<or> m \<le> p" if "(q, m) \<in> allocated bs" for q m
        using allocated_disjoint [OF t', of p n q m] s(3,4) that by auto
      moreover have "(hp_ptr h + p + SIZEOF_STRUCT_MEM) mod 4 = 0" using s(6) heap_repD(4) [OF h] by auto
      moreover have "p + SIZEOF_STRUCT_MEM + unat sz0 \<le> n" using s(5) le by simp
      ultimately show ?thesis unfolding s(1) option.case using s(2,3) by blast
    qed
  qed
qed

text \<open>
  C24. \<^verbatim>\<open>rt_free\<close> of an allocated block outside an interrupt returns, keeps the heap well-formed (free neighbours joined, the
  lowest free block and the statistics right) and removes exactly that block from the allocated ones.
\<close>

theorem rt_free_correct:
  assumes "heap_rep h bs" and "(p, n) \<in> allocated bs"
  shows "returns (rt_free (Some (hp_ptr h + p + SIZEOF_STRUCT_MEM)) 0 h) (\<lambda>h'. \<exists>bs'. heap_rep h' bs' \<and>
    allocated bs' = allocated bs - {(p, n)} \<and> hp_ptr h' = hp_ptr h \<and> hp_size_aligned h' = hp_size_aligned h)"
proof -
  obtain as cs where b: "bs = as @ (p, n, True) # cs" by (rule allocated_split [OF assms(2)])
  show ?thesis unfolding b by (rule returns_mono [OF rt_free_block [OF assms(1) [unfolded b]]]) blast
qed

lemma malloc_free_layout:
  assumes "heap_rep h bs" and "rt_malloc sz0 0 h = Some (Some a, h1)"
  shows "returns (rt_free (Some a) 0 h1) (\<lambda>h2. heap_rep h2 bs)"
proof -
  have z: "sz0 \<noteq> 0" using assms(2) by (auto simp: rt_malloc_def)
  obtain p n bs' where m: "a = hp_ptr h1 + p + SIZEOF_STRUCT_MEM" "heap_rep h1 bs'" "allocated bs' = insert (p, n) (allocated bs)"
    "(p, n) \<notin> allocated bs" "hp_end h1 = hp_end h"
    using returnsD [OF rt_malloc_returns [OF assms(1) z] assms(2)] by (auto split: option.splits)
  have "(p, n) \<in> allocated bs'" using m(3) by simp
  then obtain as cs where b: "bs' = as @ (p, n, True) # cs" by (rule allocated_split)
  show ?thesis
    unfolding m(1)
  proof (rule returns_mono [OF rt_free_block [OF m(2) [unfolded b]]], elim exE conjE)
    fix h2 bs2 assume f: "heap_rep h2 bs2" "allocated bs2 = allocated (as @ (p, n, True) # cs) - {(p, n)}" "hp_end h2 = hp_end h1"
    have "bs2 = bs"
    proof (rule layout_unique)
      show "tiles 0 bs2 (hp_end h)" "tiles 0 bs (hp_end h)"
        using heap_repD(1) [OF f(1)] heap_repD(1) [OF assms(1)] f(3) m(5) by (simp_all add: heap_list_def)
      show "gaps_joined bs2" "gaps_joined bs" using heap_repD(2) f(1) assms(1) by blast+
      have "allocated bs2 = insert (p, n) (allocated bs) - {(p, n)}" using f(2) [folded b] unfolding m(3) .
      then show "allocated bs2 = allocated bs" using m(4) by simp
    qed
    then show "heap_rep h2 bs" using f(1) by simp
  qed
qed

text \<open>
  C25. Freeing what was just allocated restores the heap: the blocks afterwards are exactly the blocks before, in position, size
  and state, so that allocating and freeing never fragments the heap.
\<close>

theorem rt_malloc_free_roundtrip:
  assumes "heap_rep h bs" and "rt_malloc sz0 0 h = Some (Some a, h1)"
  shows "returns (rt_free (Some a) 0 h1) (\<lambda>h2. heap_rep h2 bs)"
  by (rule malloc_free_layout [OF assms])

section \<open>The promises on a sample heap\<close>

text \<open>A heap of one page: as initialised, and with its first 112 bytes allocated.\<close>

definition sample_heap :: rt_heap where
  "sample_heap = rt_system_heap_init 0x1000 0x2000
     \<lparr>hp_ptr = 0, hp_items = Map.empty, hp_size_aligned = 0, hp_end = 0, hp_lfree = 0, hp_used_mem = 0, hp_max_mem = 0\<rparr>"

definition sample_heap1 :: rt_heap where
  "sample_heap1 = sample_heap\<lparr>hp_items := [0 \<mapsto> \<lparr>hm_magic = HEAP_MAGIC, hm_used = 1, hm_next = 112, hm_prev = 0\<rparr>,
       112 \<mapsto> \<lparr>hm_magic = HEAP_MAGIC, hm_used = 0, hm_next = 4084, hm_prev = 0\<rparr>,
       4084 \<mapsto> \<lparr>hm_magic = HEAP_MAGIC, hm_used = 1, hm_next = 4084, hm_prev = 4084\<rparr>],
     hp_lfree := 112, hp_used_mem := 112, hp_max_mem := 112\<rparr>"

lemma sample_heap_fields: "hp_ptr sample_heap = 0x1000" "hp_end sample_heap = 4084" "hp_size_aligned sample_heap = 4072"
  by (simp_all add: sample_heap_def rt_system_heap_init_def Let_def)

lemma sample_heap_rep: "heap_rep sample_heap [(0, 4084, False)]"
  using heap_init_rep [of "0x1000" "0x2000"
      "\<lparr>hp_ptr = 0, hp_items = Map.empty, hp_size_aligned = 0, hp_end = 0, hp_lfree = 0, hp_used_mem = 0, hp_max_mem = 0\<rparr>"]
  by (fold sample_heap_def) (simp add: sample_heap_fields)

lemma sample_heap1_rep: "heap_rep sample_heap1 [(0, 112, True), (112, 4084, False)]"
  by (simp add: sample_heap1_def heap_rep_def heap_list_def sample_heap_fields)

lemma request_100: "request 100 = 100"
  by (simp add: request_def rt_align_unat)

theorem rt_malloc_correct_witness:
  "returns (rt_malloc 100 0 sample_heap) (\<lambda>(r, h'). \<exists>a p n bs'. r = Some a \<and> a = 0x1000 + p + 12 \<and> heap_rep h' bs' \<and> allocated bs' = {(p, n)})"
proof -
  have "(100 :: u32) \<noteq> 0" "unat (100 :: u32) \<le> 2 ^ 32 - 4" by simp_all
  from rt_malloc_correct [OF sample_heap_rep this] show ?thesis
  proof (rule returns_mono_pair)
    fix r h' assume "case r of
      None \<Rightarrow> h' = sample_heap \<and> (\<forall>p n. (p, n, False) \<in> set [(0, 4084, False)] \<longrightarrow> p + request 100 < hp_size_aligned sample_heap \<longrightarrow>
        n < p + SIZEOF_STRUCT_MEM + request 100)
    | Some a \<Rightarrow> a mod 4 = 0 \<and> (\<exists>p n bs'. a = hp_ptr sample_heap + p + SIZEOF_STRUCT_MEM \<and> heap_rep h' bs' \<and>
        allocated bs' = insert (p, n) (allocated [(0, 4084, False)]) \<and> p + SIZEOF_STRUCT_MEM + unat (100 :: u32) \<le> n \<and> n \<le> hp_end sample_heap \<and>
        (\<forall>q m. (q, m) \<in> allocated [(0, 4084, False)] \<longrightarrow> n \<le> q \<or> m \<le> p))"
    then show "\<exists>a p n bs'. r = Some a \<and> a = 0x1000 + p + 12 \<and> heap_rep h' bs' \<and> allocated bs' = {(p, n)}"
      by (cases r) (auto simp: sample_heap_fields request_100)
  qed
qed

theorem rt_free_correct_witness:
  "returns (rt_free (Some (0x1000 + 12)) 0 sample_heap1) (\<lambda>h'. \<exists>bs'. heap_rep h' bs' \<and> allocated bs' = {})"
proof -
  have p: "hp_ptr sample_heap1 = 0x1000" by (simp add: sample_heap1_def sample_heap_fields)
  have "(0, 112) \<in> allocated [(0, 112, True), (112, 4084, False)]" by simp
  from rt_free_correct [OF sample_heap1_rep this] show ?thesis
    unfolding p by (simp only: add_0_right) (auto elim!: returns_mono)
qed

theorem rt_malloc_free_roundtrip_witness:
  "\<exists>a h1. rt_malloc 100 0 sample_heap = Some (Some a, h1) \<and> returns (rt_free (Some a) 0 h1) (\<lambda>h2. heap_rep h2 [(0, 4084, False)])"
proof -
  have "(100 :: u32) \<noteq> 0" by simp
  from rt_malloc_returns [OF sample_heap_rep this] obtain a h1 where m: "rt_malloc 100 0 sample_heap = Some (Some a, h1)"
    by (auto simp: returns_def request_100 sample_heap_fields rt_align_unat)
  then show ?thesis using rt_malloc_free_roundtrip [OF sample_heap_rep m] by blast
qed

end
