(* ===== verification/Idle.thy ===== *)
theory Idle
  imports Thread Heap SampleKernel
begin

text \<open>
  The idle thread of \<^verbatim>\<open>idle.c\<close>: its hooks, and the loop that gives the memory of ended threads back to the heap.  The
  hooks themselves are functions of their users, the argument \<open>hook\<close>.
\<close>

section \<open>The operations\<close>

abbreviation RT_IDLE_HOOK_LIST_SIZE :: nat where "RT_IDLE_HOOK_LIST_SIZE \<equiv> 4"

text \<open>The loops over the hook list: the first free entry takes the hook; the first entry that holds it is cleared.\<close>

fun hook_set :: "nat \<Rightarrow> nat option list \<Rightarrow> nat option list option" where
  "hook_set f [] = None"
| "hook_set f (h # hs) = (if h = None then Some (Some f # hs) else map_option (Cons h) (hook_set f hs))"

fun hook_del :: "nat \<Rightarrow> nat option list \<Rightarrow> nat option list option" where
  "hook_del f [] = None"
| "hook_del f (h # hs) = (if h = Some f then Some (None # hs) else map_option (Cons h) (hook_del f hs))"

definition rt_thread_idle_sethook :: "nat \<Rightarrow> kernel \<Rightarrow> int \<times> kernel" where
  "rt_thread_idle_sethook f k = (case hook_set f (k_idle_hooks k) of
     None \<Rightarrow> (- RT_EFULL, k) | Some hs \<Rightarrow> (RT_EOK, k\<lparr>k_idle_hooks := hs\<rparr>))"

definition rt_thread_idle_delhook :: "nat \<Rightarrow> kernel \<Rightarrow> int \<times> kernel" where
  "rt_thread_idle_delhook f k = (case hook_del f (k_idle_hooks k) of
     None \<Rightarrow> (- RT_ENOSYS, k) | Some hs \<Rightarrow> (RT_EOK, k\<lparr>k_idle_hooks := hs\<rparr>))"

definition rt_thread_defunct_dequeue :: "kernel \<Rightarrow> nat option \<times> kernel" where
  "rt_thread_defunct_dequeue k = (case k_lists k Defunct of [] \<Rightarrow> (None, k) | t # _ \<Rightarrow> (Some t, tlist_remove t k))"

text \<open>One round of the loop of \<^verbatim>\<open>rt_defunct_execute\<close>, for the thread it took.\<close>

definition defunct_reclaim :: "env \<Rightarrow> nat \<Rightarrow> kernel \<Rightarrow> kernel option" where
  "defunct_reclaim env t k = do {
     th \<leftarrow> get_thread t k;
     k \<leftarrow> (case th_cleanup th of None \<Rightarrow> Some k | Some f \<Rightarrow> env_cleanup env f t k);
     th \<leftarrow> get_thread t k;
     if rt_object_is_systemobject (th_parent th) then rt_object_detach (OThread t) k
     else do {
       h \<leftarrow> rt_free (Some (th_stack_addr th)) (k_irq_nest k) (k_heap k);
       rt_object_delete (OThread t) (k\<lparr>k_heap := h\<rparr>)
     }
   }"

partial_function (option) rt_defunct_execute :: "env \<Rightarrow> kernel \<Rightarrow> kernel option" where
  "rt_defunct_execute env k =
     Option.bind (rt_assert (k_irq_nest k = 0)) (\<lambda>_.
       case rt_thread_defunct_dequeue k of
         (None, k) \<Rightarrow> Some k
       | (Some t, k) \<Rightarrow> Option.bind (defunct_reclaim env t k) (rt_defunct_execute env))"

text \<open>One round of the loop of the idle thread.\<close>

definition idle_round :: "(nat \<Rightarrow> kernel \<Rightarrow> kernel option) \<Rightarrow> env \<Rightarrow> kernel \<Rightarrow> kernel option" where
  "idle_round hook env k = do {
     k \<leftarrow> fold (\<lambda>i r. Option.bind r (\<lambda>k. case k_idle_hooks k ! i of None \<Rightarrow> Some k | Some f \<Rightarrow> hook f k))
           [0..<RT_IDLE_HOOK_LIST_SIZE] (Some k);
     rt_defunct_execute env k
   }"

text \<open>The idle thread is started at the lowest priority; its name is \<^verbatim>\<open>tidle0\<close>.\<close>

definition rt_thread_idle_init :: "nat \<Rightarrow> nat \<Rightarrow> nat \<Rightarrow> kernel \<Rightarrow> kernel option" where
  "rt_thread_idle_init idle rt_thread_idle_entry rt_thread_stack k = do {
     (_, k) \<leftarrow> rt_thread_init idle (map of_char ''tidle0'' @ [0]) rt_thread_idle_entry 0 rt_thread_stack 512
                 (of_nat (RT_THREAD_PRIORITY_MAX - 1)) 32 k;
     (_, k) \<leftarrow> rt_thread_startup idle k;
     Some k
   }"

section \<open>The hooks\<close>

lemma hook_set_del:
  assumes "hook_set f hs = Some hs'" and "Some f \<notin> set hs"
  shows "hook_del f hs' = Some hs" and "Some f \<in> set hs'" and "length hs' = length hs"
  using assms by (induction hs arbitrary: hs') (auto split: if_splits)

lemma hook_set_full: "hook_set f hs = None \<longleftrightarrow> None \<notin> set hs"
  by (induction hs) auto

lemma idle_hook_roundtrip:
  assumes "Some f \<notin> set (k_idle_hooks k)" and "rt_thread_idle_sethook f k = (RT_EOK, k1)"
  shows "rt_thread_idle_delhook f k1 = (RT_EOK, k)"
  using assms hook_set_del(1) [of f "k_idle_hooks k"]
  by (auto simp: rt_thread_idle_sethook_def rt_thread_idle_delhook_def split: option.splits)

section \<open>Reclaiming ended threads\<close>

text \<open>The thread \<open>t\<close> is ended and was created dynamically: its stack and its object are the addresses of allocated blocks.\<close>

definition at_block :: "rt_heap \<Rightarrow> blk list \<Rightarrow> nat \<Rightarrow> bool" where
  "at_block h bs a \<longleftrightarrow> (\<exists>p n. a = hp_ptr h + p + SIZEOF_STRUCT_MEM \<and> (p, n) \<in> allocated bs)"

definition thread_blocks :: "nat \<Rightarrow> kernel \<Rightarrow> nat list" where
  "thread_blocks t k = (case k_threads k t of None \<Rightarrow> [] | Some th \<Rightarrow> [th_stack_addr th, t])"

definition reclaimable :: "blk list \<Rightarrow> kernel \<Rightarrow> nat \<Rightarrow> bool" where
  "reclaimable bs k t \<longleftrightarrow> (\<exists>th. k_threads k t = Some th \<and> th_cleanup th = None \<and> \<not> rt_object_is_systemobject (th_parent th) \<and>
     at_block (k_heap k) bs (th_stack_addr th) \<and> at_block (k_heap k) bs t)"

definition without :: "rt_heap \<Rightarrow> nat set \<Rightarrow> blk list \<Rightarrow> (nat \<times> nat) set" where
  "without h A bs = {(p, n) \<in> allocated bs. hp_ptr h + p + SIZEOF_STRUCT_MEM \<notin> A}"

lemma allocated_unique:
  assumes "heap_rep h bs" and "(p, n) \<in> allocated bs" and "(p, m) \<in> allocated bs"
  shows "n = m"
proof (rule ccontr)
  assume "n \<noteq> m"
  have t: "tiles 0 bs (hp_end h)" using heap_repD(1) [OF assms(1)] by (simp add: heap_list_def)
  have "p < n" "p < m" using tiles_in [OF t, of p n True] tiles_in [OF t, of p m True] assms(2,3) by (simp_all add: allocated_def)
  then show False using allocated_disjoint [OF t assms(2,3)] \<open>n \<noteq> m\<close> by auto
qed

lemma free_at_block:
  assumes h: "heap_rep h bs" and a: "at_block h bs a"
  shows "returns (rt_free (Some a) 0 h) (\<lambda>h'. hp_ptr h' = hp_ptr h \<and> (\<exists>bs'. heap_rep h' bs' \<and> allocated bs' = without h {a} bs))"
proof -
  obtain p n where p: "a = hp_ptr h + p + SIZEOF_STRUCT_MEM" "(p, n) \<in> allocated bs" using a by (auto simp: at_block_def)
  obtain as cs where b: "bs = as @ (p, n, True) # cs" by (rule allocated_split [OF p(2)])
  have "allocated bs - {(p, n)} = without h {a} bs"
    using allocated_unique [OF h p(2)] p(1) by (auto simp: without_def)
  then show ?thesis unfolding p(1)
    by (intro returns_mono [OF rt_free_block [OF h [unfolded b]]]) (auto simp: b [symmetric])
qed

lemma kinv_drop:
  assumes i: "kinv k" and t: "t \<in> set (k_lists k Defunct)" and c: "k_current k \<noteq> Some t"
  shows "kinv (k\<lparr>k_lists := lists_remove t (k_lists k), k_threads := (k_threads k)(t := None)\<rparr>)"
proof -
  have L: "linv {} (k_lists k) (k_ready_group k) (k_threads k)" and C: "cinv {} (k_current k) (k_threads k)"
    and M: "tinv {} (k_timers k) (k_timer_list k) (k_timer_tmp k) (k_threads k)" using i by (simp_all add: kinvx_def)
  obtain th where th: "k_threads k t = Some th" "thread_stat th = RT_THREAD_CLOSE"
    using linvD(4) [OF L t] by (auto simp: member_ok_def)
  have same: "lists_remove t (k_lists k) (Ready p) = k_lists k (Ready p)" for p
    using linvD(1) [OF L] t by (auto simp: lists_wf_def lists_remove_def intro!: removeAll_id)
  have "linv {} (lists_remove t (k_lists k)) (k_ready_group k) ((k_threads k)(t := None))"
  proof (rule linvI)
    show "lists_wf (lists_remove t (k_lists k))" by (rule lists_wf_remove [OF linvD(1) [OF L]])
    show "ready_ok (lists_remove t (k_lists k)) (k_ready_group k)" using linvD(2) [OF L] by (simp add: ready_ok_def same)
    show "\<exists>uh. ((k_threads k)(t := None)) u = Some uh \<and> member_ok h uh" if "u \<in> set (lists_remove t (k_lists k) h)" for h u
      using that linvD(4) [OF L, of u h] by auto
    show "thread_wf uh" "thread_stat uh = RT_THREAD_READY \<Longrightarrow> u \<in> set (lists_remove t (k_lists k) (Ready (prio uh)))"
      if "((k_threads k)(t := None)) u = Some uh" for u uh
      using that linvD(5,6) [OF L, of u uh] same by (auto split: if_splits)
  qed simp
  moreover have "cinv {} (k_current k) ((k_threads k)(t := None))"
    by (rule cinvI) (use c cinvD [OF C] in \<open>auto split: if_splits\<close>)
  moreover have "tinv {} (k_timers k) (k_timer_list k) (k_timer_tmp k) ((k_threads k)(t := None))"
  proof (rule tinvI)
    show "\<exists>uh. ((k_threads k)(t := None)) u = Some uh \<and> thread_stat uh = RT_THREAD_SUSPEND" if "Thread_timer u \<in> set (k_timer_list k)" for u
      using tinvD(4) [OF M that] th by auto
    show "\<exists>tm. k_timers k (Thread_timer u) = Some tm \<and> is_timer_object tm \<and> thread_timer_wf u tm"
      if "((k_threads k)(t := None)) u = Some uh" "thread_stat uh \<noteq> RT_THREAD_CLOSE" for u uh
      using that tinvD(5) [OF M, of u uh] by (auto split: if_splits)
  qed (use tinvD(1,2,3,6,7) [OF M] in blast)+
  ultimately show ?thesis by (simp add: kinvx_def)
qed

lemma reclaim_thread:
  assumes i: "kinv k" and q: "k_irq_nest k = 0" and l: "k_lists k Defunct = t # ts" and c: "k_current k \<noteq> Some t"
    and h: "heap_rep (k_heap k) bs" and r: "reclaimable bs k t" "distinct (thread_blocks t k)"
  shows "returns (defunct_reclaim env t (tlist_remove t k)) (\<lambda>k'. kinv k' \<and> k_irq_nest k' = 0 \<and> k_lists k' Defunct = ts \<and>
    k_current k' = k_current k \<and> k_threads k' = (k_threads k)(t := None) \<and> hp_ptr (k_heap k') = hp_ptr (k_heap k) \<and>
    (\<exists>bs'. heap_rep (k_heap k') bs' \<and> allocated bs' = without (k_heap k) (set (thread_blocks t k)) bs))"
proof -
  let ?k = "tlist_remove t k"
  obtain th where th: "k_threads k t = Some th" "th_cleanup th = None" "\<not> rt_object_is_systemobject (th_parent th)"
    "at_block (k_heap k) bs (th_stack_addr th)" "at_block (k_heap k) bs t" using r(1) by (auto simp: reclaimable_def)
  have ne: "th_stack_addr th \<noteq> t" using r(2) th(1) by (simp add: thread_blocks_def)
  obtain h1 bs1 where h1: "rt_free (Some (th_stack_addr th)) 0 (k_heap k) = Some h1" "hp_ptr h1 = hp_ptr (k_heap k)" "heap_rep h1 bs1"
    "allocated bs1 = without (k_heap k) {th_stack_addr th} bs" using free_at_block [OF h th(4)] by (auto simp: returns_def)
  have "at_block h1 bs1 t" using th(5) h1(2,4) ne by (auto simp: at_block_def without_def)
  from free_at_block [OF h1(3) this] obtain h2 bs2 where h2: "rt_free (Some t) 0 h1 = Some h2" "hp_ptr h2 = hp_ptr h1" "heap_rep h2 bs2"
    "allocated bs2 = without h1 {t} bs1" by (auto simp: returns_def)
  have al: "allocated bs2 = without (k_heap k) (set (thread_blocks t k)) bs"
    using h2(4) h1(2,4) th(1) by (auto simp: without_def thread_blocks_def)
  have f: "k_threads ?k = k_threads k" "k_irq_nest ?k = 0" "k_heap ?k = k_heap k" "k_lists ?k = lists_remove t (k_lists k)" "k_current ?k = k_current k"
    using q by (simp_all add: tlist_remove_def)
  let ?k' = "?k\<lparr>k_objects := \<lambda>c. removeAll (OThread t) (k_objects ?k c), k_heap := h2, k_threads := (k_threads k)(t := None)\<rparr>"
  have e: "defunct_reclaim env t ?k = Some ?k'"
    using th f h1(1) h2(1) by (simp add: defunct_reclaim_def get_thread_def rt_object_delete_def rt_object_is_systemobject_def)
  have "kinv ?k'" using kinv_drop [OF i _ c] l by (simp add: kinvx_def f) (simp add: tlist_remove_def)
  moreover have "lists_remove t (k_lists k) Defunct = ts"
  proof -
    have "distinct (t # ts)" using i l unfolding kinvx_def linv_def lists_wf_def by metis
    then show ?thesis using l by (simp add: lists_remove_def)
  qed
  ultimately show ?thesis unfolding e using h2 h1(2) al f by auto
qed

definition blocks_of :: "nat list \<Rightarrow> kernel \<Rightarrow> nat list" where
  "blocks_of ts k = concat (map (\<lambda>t. thread_blocks t k) ts)"

lemma thread_blocks_other: "u \<noteq> t \<Longrightarrow> k_threads k' = (k_threads k)(t := None) \<Longrightarrow> thread_blocks u k' = thread_blocks u k"
  by (simp add: thread_blocks_def)

lemma reclaimable_later:
  assumes "reclaimable bs k u" and "u \<noteq> t" and "k_threads k' = (k_threads k)(t := None)" and "hp_ptr (k_heap k') = hp_ptr (k_heap k)"
    and "allocated bs' = without (k_heap k) A bs" and "A \<inter> set (thread_blocks u k) = {}"
  shows "reclaimable bs' k' u"
  using assms by (auto simp: reclaimable_def at_block_def without_def thread_blocks_def)

lemma defunct_execute_reclaims:
  assumes "kinv k" and "k_irq_nest k = 0" and "k_lists k Defunct = ts" and "\<forall>t \<in> set ts. k_current k \<noteq> Some t \<and> reclaimable bs k t"
    and "heap_rep (k_heap k) bs" and "distinct (blocks_of ts k)"
  shows "returns (rt_defunct_execute env k) (\<lambda>k'. kinv k' \<and> k_lists k' Defunct = [] \<and> (\<forall>t \<in> set ts. k_threads k' t = None) \<and>
    (\<forall>t. t \<notin> set ts \<longrightarrow> k_threads k' t = k_threads k t) \<and>
    (\<exists>bs'. heap_rep (k_heap k') bs' \<and> allocated bs' = without (k_heap k) (set (blocks_of ts k)) bs))"
  using assms
proof (induction ts arbitrary: k bs)
  case Nil
  have "without (k_heap k) {} bs = allocated bs" by (auto simp: without_def)
  then show ?case using Nil by (subst rt_defunct_execute.simps) (auto simp: rt_thread_defunct_dequeue_def blocks_of_def)
next
  case (Cons t ts)
  note p = Cons.prems
  have d: "distinct (thread_blocks t k)" "distinct (blocks_of ts k)" "set (thread_blocks t k) \<inter> set (blocks_of ts k) = {}"
    using p(6) by (auto simp: blocks_of_def)
  have c: "k_current k \<noteq> Some t" "reclaimable bs k t" using p(4) by simp_all
  have nt: "t \<notin> set ts"
  proof -
    have "distinct (t # ts)" using p(1,3) unfolding kinvx_def linv_def lists_wf_def by metis
    then show ?thesis by simp
  qed
  have e: "rt_defunct_execute env k = Option.bind (defunct_reclaim env t (tlist_remove t k)) (rt_defunct_execute env)"
    using p(2,3) by (subst rt_defunct_execute.simps) (simp add: rt_thread_defunct_dequeue_def)
  show ?case
    unfolding e
  proof (rule returns_bindI [OF reclaim_thread [OF p(1-3) c(1) p(5) c(2) d(1)]], elim conjE exE)
    fix k1 bs1 assume k1: "kinv k1" "k_irq_nest k1 = 0" "k_lists k1 Defunct = ts" "k_current k1 = k_current k"
      "k_threads k1 = (k_threads k)(t := None)" "hp_ptr (k_heap k1) = hp_ptr (k_heap k)" "heap_rep (k_heap k1) bs1"
      "allocated bs1 = without (k_heap k) (set (thread_blocks t k)) bs"
    have "thread_blocks u k1 = thread_blocks u k" if "u \<in> set ts" for u
      by (rule thread_blocks_other [OF _ k1(5)]) (use that nt in auto)
    then have b: "blocks_of ts k1 = blocks_of ts k" by (simp add: blocks_of_def cong: map_cong)
    have r: "reclaimable bs1 k1 u" if "u \<in> set ts" for u
      by (rule reclaimable_later [OF _ _ k1(5,6,8)]) (use that p(4) nt d(3) in \<open>auto simp: blocks_of_def\<close>)
    have "\<forall>u \<in> set ts. k_current k1 \<noteq> Some u \<and> reclaimable bs1 k1 u" using r p(4) k1(4) by simp
    from Cons.IH [OF k1(1-3) this k1(7)] d(2)
    have ih: "returns (rt_defunct_execute env k1) (\<lambda>k'. kinv k' \<and> k_lists k' Defunct = [] \<and> (\<forall>t \<in> set ts. k_threads k' t = None) \<and>
      (\<forall>u. u \<notin> set ts \<longrightarrow> k_threads k' u = k_threads k1 u) \<and>
      (\<exists>bs'. heap_rep (k_heap k') bs' \<and> allocated bs' = without (k_heap k1) (set (blocks_of ts k)) bs1))" unfolding b by blast
    have al: "without (k_heap k1) (set (blocks_of ts k)) bs1 = without (k_heap k) (set (blocks_of (t # ts) k)) bs"
      using k1(6,8) by (auto simp: without_def blocks_of_def)
    have th: "(\<forall>u \<in> set (t # ts). k_threads k' u = None) \<and> (\<forall>u. u \<notin> set (t # ts) \<longrightarrow> k_threads k' u = k_threads k u)"
      if "\<forall>u \<in> set ts. k_threads k' u = None" "\<forall>u. u \<notin> set ts \<longrightarrow> k_threads k' u = k_threads k1 u" for k'
      using that k1(5) nt by auto
    show "returns (rt_defunct_execute env k1) (\<lambda>k'. kinv k' \<and> k_lists k' Defunct = [] \<and> (\<forall>t \<in> set (t # ts). k_threads k' t = None) \<and>
      (\<forall>u. u \<notin> set (t # ts) \<longrightarrow> k_threads k' u = k_threads k u) \<and>
      (\<exists>bs'. heap_rep (k_heap k') bs' \<and> allocated bs' = without (k_heap k) (set (blocks_of (t # ts) k)) bs))"
      by (rule returns_mono [OF ih]) (use th al in metis)
  qed
qed

section \<open>What the idle thread promises\<close>

text \<open>
  C26. \<^verbatim>\<open>rt_defunct_execute\<close>, when the ended threads were created dynamically and have no cleanup function: the loop ends, no
  ended thread is left, exactly they are gone from the kernel, and the heap has lost exactly the blocks of their
  stacks and their objects; the heap and kernel invariants hold.
\<close>

theorem rt_defunct_execute_reclaims:
  assumes "kinv k" and "k_irq_nest k = 0" and "\<forall>t \<in> set (k_lists k Defunct). k_current k \<noteq> Some t \<and> reclaimable bs k t"
    and "heap_rep (k_heap k) bs" and "distinct (blocks_of (k_lists k Defunct) k)"
  shows "returns (rt_defunct_execute env k) (\<lambda>k'. kinv k' \<and> k_lists k' Defunct = [] \<and>
    (\<forall>t. k_threads k' t = (if t \<in> set (k_lists k Defunct) then None else k_threads k t)) \<and>
    (\<exists>bs'. heap_rep (k_heap k') bs' \<and>
      allocated bs' = {(p, n) \<in> allocated bs. hp_ptr (k_heap k) + p + SIZEOF_STRUCT_MEM \<notin> set (blocks_of (k_lists k Defunct) k)}))"
  by (rule returns_mono [OF defunct_execute_reclaims [OF assms(1,2) refl assms(3-5)]]) (simp add: without_def)

section \<open>The promise on a sample state\<close>

text \<open>The sample kernel with one ended thread: its object is the first block of the heap, its stack the second.\<close>

definition sample_defunct_heap :: rt_heap where
  "sample_defunct_heap = sample_heap\<lparr>hp_items := [0 \<mapsto> \<lparr>hm_magic = HEAP_MAGIC, hm_used = 1, hm_next = 112, hm_prev = 0\<rparr>,
       112 \<mapsto> \<lparr>hm_magic = HEAP_MAGIC, hm_used = 1, hm_next = 1024, hm_prev = 0\<rparr>,
       1024 \<mapsto> \<lparr>hm_magic = HEAP_MAGIC, hm_used = 0, hm_next = 4084, hm_prev = 112\<rparr>,
       4084 \<mapsto> \<lparr>hm_magic = HEAP_MAGIC, hm_used = 1, hm_next = 4084, hm_prev = 4084\<rparr>],
     hp_lfree := 1024, hp_used_mem := 1024, hp_max_mem := 1024\<rparr>"

abbreviation sample_defunct_blocks :: "blk list" where
  "sample_defunct_blocks \<equiv> [(0, 112, True), (112, 1024, True), (1024, 4084, False)]"

definition sample_ended :: rt_thread where
  "sample_ended = (sample_thread RT_THREAD_CLOSE 10)\<lparr>th_parent := sample_object 0x01 0, th_stack_addr := 0x1000 + 112 + 12\<rparr>"

definition sample_defunct :: kernel where
  "sample_defunct = sample_kernel\<lparr>k_threads := sample_threads(0x100c \<mapsto> sample_ended),
     k_lists := sample_lists(Defunct := [0x100c]), k_heap := sample_defunct_heap\<rparr>"

lemma sample_defunct_heap_rep: "heap_rep sample_defunct_heap sample_defunct_blocks" "hp_ptr sample_defunct_heap = 0x1000"
  by (simp_all add: sample_defunct_heap_def heap_rep_def heap_list_def sample_heap_fields)

lemma kinv_add_defunct:
  assumes i: "kinv k" and n: "k_threads k t = None" and th: "thread_stat th = RT_THREAD_CLOSE" "thread_wf th"
  shows "kinv (k\<lparr>k_threads := (k_threads k)(t \<mapsto> th), k_lists := (k_lists k)(Defunct := t # k_lists k Defunct)\<rparr>)"
proof -
  have L: "linv {} (k_lists k) (k_ready_group k) (k_threads k)" and C: "cinv {} (k_current k) (k_threads k)"
    and M: "tinv {} (k_timers k) (k_timer_list k) (k_timer_tmp k) (k_threads k)" using i by (simp_all add: kinvx_def)
  have fresh: "t \<notin> set (k_lists k h)" for h using linvD(4) [OF L, of t h] n by auto
  have "linv {} ((k_lists k)(Defunct := t # k_lists k Defunct)) (k_ready_group k) ((k_threads k)(t \<mapsto> th))"
  proof (rule linvI)
    show "lists_wf ((k_lists k)(Defunct := t # k_lists k Defunct))"
      using linvD(1) [OF L] fresh unfolding lists_wf_def by (auto simp: fun_upd_def)
    show "ready_ok ((k_lists k)(Defunct := t # k_lists k Defunct)) (k_ready_group k)" using linvD(2) [OF L] by (simp add: ready_ok_def)
    show "\<exists>uh. ((k_threads k)(t \<mapsto> th)) u = Some uh \<and> member_ok h uh" if "u \<in> set (((k_lists k)(Defunct := t # k_lists k Defunct)) h)" for h u
      using that linvD(4) [OF L, of u h] th(1) fresh by (auto simp: member_ok_def split: if_splits)
    show "thread_wf uh" "thread_stat uh = RT_THREAD_READY \<Longrightarrow> u \<in> set (((k_lists k)(Defunct := t # k_lists k Defunct)) (Ready (prio uh)))"
      if "((k_threads k)(t \<mapsto> th)) u = Some uh" for u uh
      using that linvD(5,6) [OF L, of u uh] th by (auto split: if_splits)
  qed simp_all
  moreover have "cinv {} (k_current k) ((k_threads k)(t \<mapsto> th))"
    by (rule cinvI) (use th cinvD [OF C] n in \<open>auto split: if_splits\<close>)
  moreover have "tinv {} (k_timers k) (k_timer_list k) (k_timer_tmp k) ((k_threads k)(t \<mapsto> th))"
  proof (rule tinvI)
    show "\<exists>uh. ((k_threads k)(t \<mapsto> th)) u = Some uh \<and> thread_stat uh = RT_THREAD_SUSPEND" if "Thread_timer u \<in> set (k_timer_list k)" for u
      using tinvD(4) [OF M that] n by auto
    show "\<exists>tm. k_timers k (Thread_timer u) = Some tm \<and> is_timer_object tm \<and> thread_timer_wf u tm"
      if "((k_threads k)(t \<mapsto> th)) u = Some uh" "thread_stat uh \<noteq> RT_THREAD_CLOSE" for u uh
      using that tinvD(5) [OF M, of u uh] th by (auto split: if_splits)
  qed (use tinvD(1,2,3,6,7) [OF M] in blast)+
  ultimately show ?thesis by (simp add: kinvx_def)
qed

lemma sample_defunct_kinv: "kinv sample_defunct"
proof -
  have "kinv (sample_kernel\<lparr>k_threads := (k_threads sample_kernel)(0x100c \<mapsto> sample_ended),
      k_lists := (k_lists sample_kernel)(Defunct := 0x100c # k_lists sample_kernel Defunct)\<rparr>)"
    by (rule kinv_add_defunct [OF sample_kinv])
      (simp_all add: sample_ended_def sample_threads_def sample_table_def thread_wf_def thread_stat_def prio_def sample_thread_def is_thread_object_def sample_object_def)
  then show ?thesis by (simp add: kinvx_def sample_defunct_def) (simp add: sample_lists_def)
qed

lemma sample_defunct_fields:
  "k_irq_nest sample_defunct = 0" "k_lists sample_defunct Defunct = [0x100c]" "k_current sample_defunct = Some 10"
  "k_heap sample_defunct = sample_defunct_heap" "k_threads sample_defunct 0x100c = Some sample_ended"
  by (simp_all add: sample_defunct_def)

lemma sample_defunct_reclaimable: "reclaimable sample_defunct_blocks sample_defunct 0x100c"
  "blocks_of (k_lists sample_defunct Defunct) sample_defunct = [0x107c, 0x100c]"
proof -
  have "th_stack_addr sample_ended = 0x107c" "th_cleanup sample_ended = None" "\<not> rt_object_is_systemobject (th_parent sample_ended)"
    by (simp_all add: sample_ended_def sample_object_def rt_object_is_systemobject_def)
  moreover have "at_block sample_defunct_heap sample_defunct_blocks 0x107c" "at_block sample_defunct_heap sample_defunct_blocks 0x100c"
    by (auto simp: at_block_def allocated_def sample_defunct_heap_rep(2))
  ultimately show "reclaimable sample_defunct_blocks sample_defunct 0x100c"
    "blocks_of (k_lists sample_defunct Defunct) sample_defunct = [0x107c, 0x100c]"
    by (simp_all add: reclaimable_def blocks_of_def thread_blocks_def sample_defunct_fields)
qed

theorem rt_defunct_execute_reclaims_witness:
  "returns (rt_defunct_execute \<lparr>env_timeout = \<lambda>_ _. Some, env_cleanup = \<lambda>_ _. Some\<rparr> sample_defunct) (\<lambda>k'. k_lists k' Defunct = [] \<and> k_threads k' 0x100c = None \<and>
    k_threads k' 10 = Some (sample_thread RT_THREAD_RUNNING 10) \<and> (\<exists>bs'. heap_rep (k_heap k') bs' \<and> allocated bs' = {}))"
proof -
  have a: "{(p, n) \<in> allocated sample_defunct_blocks. hp_ptr (k_heap sample_defunct) + p + SIZEOF_STRUCT_MEM \<notin>
      set (blocks_of (k_lists sample_defunct Defunct) sample_defunct)} = {}"
    unfolding sample_defunct_reclaimable(2) sample_defunct_fields(4) by (auto simp: allocated_def sample_defunct_heap_rep(2))
  have t: "k_threads sample_defunct 10 = Some (sample_thread RT_THREAD_RUNNING 10)" by (simp add: sample_defunct_def)
  have "returns (rt_defunct_execute \<lparr>env_timeout = \<lambda>_ _. Some, env_cleanup = \<lambda>_ _. Some\<rparr> sample_defunct) (\<lambda>k'. kinv k' \<and> k_lists k' Defunct = [] \<and>
    (\<forall>t. k_threads k' t = (if t \<in> set (k_lists sample_defunct Defunct) then None else k_threads sample_defunct t)) \<and>
    (\<exists>bs'. heap_rep (k_heap k') bs' \<and>
      allocated bs' = {(p, n) \<in> allocated sample_defunct_blocks. hp_ptr (k_heap sample_defunct) + p + SIZEOF_STRUCT_MEM \<notin>
        set (blocks_of (k_lists sample_defunct Defunct) sample_defunct)}))"
    by (rule rt_defunct_execute_reclaims [OF sample_defunct_kinv])
      (simp_all add: sample_defunct_fields sample_defunct_reclaimable sample_defunct_heap_rep(1) sample_defunct_reclaimable(2) [unfolded sample_defunct_fields])
  then show ?thesis
    unfolding a by (rule returns_mono) (simp add: sample_defunct_fields t)
qed

end
