(* ===== verification/Clock.thy ===== *)
theory Clock
  imports Thread
begin

text \<open>
  The clock: \<^verbatim>\<open>clock.c\<close>, \<^verbatim>\<open>irq.c\<close>, the timer check of \<^verbatim>\<open>timer.c\<close> and the tick interrupt \<^verbatim>\<open>SysTick_Handler\<close> of
  \<^verbatim>\<open>board.c\<close>.  \<open>timer_expire\<close> is the body of the loop of \<^verbatim>\<open>rt_timer_check\<close> for the timer at the head of the
  list; the loop itself may not end (\<open>None\<close>), and the lemmas show when it does.
\<close>

section \<open>irq.c\<close>

definition rt_interrupt_enter :: "kernel \<Rightarrow> kernel" where
  "rt_interrupt_enter k = k\<lparr>k_irq_nest := k_irq_nest k + 1\<rparr>"

definition rt_interrupt_leave :: "kernel \<Rightarrow> kernel" where
  "rt_interrupt_leave k = k\<lparr>k_irq_nest := k_irq_nest k - 1\<rparr>"

definition rt_interrupt_get_nest :: "kernel \<Rightarrow> u8" where
  "rt_interrupt_get_nest k = k_irq_nest k"

section \<open>clock.c and the timer check\<close>

abbreviation RT_TICK_PER_SECOND :: nat where "RT_TICK_PER_SECOND \<equiv> 1000"

definition rt_tick_get :: "kernel \<Rightarrow> u32" where
  "rt_tick_get k = k_tick k"

definition rt_tick_set :: "u32 \<Rightarrow> kernel \<Rightarrow> kernel" where
  "rt_tick_set tick k = k\<lparr>k_tick := tick\<rparr>"

definition call_timeout :: "env \<Rightarrow> rt_timer \<Rightarrow> kernel \<Rightarrow> kernel option" where
  "call_timeout env tm k = (case tm_timeout_func tm of
     Rt_thread_timeout \<Rightarrow> rt_thread_timeout (tm_parameter tm) k
   | Timeout_fn f \<Rightarrow> env_timeout env f (tm_parameter tm) k)"

definition expired :: "u32 \<Rightarrow> rt_timer \<Rightarrow> bool" where
  "expired now tm \<longleftrightarrow> now - tm_timeout_tick tm < RT_TICK_MAX_HALF"

definition timer_expire :: "env \<Rightarrow> timer_ref \<Rightarrow> kernel \<Rightarrow> kernel option" where
  "timer_expire env r k = do {
     tm \<leftarrow> k_timers k r;
     k \<leftarrow> Some (rt_timer_remove r k);
     k \<leftarrow> (if \<not> timer_periodic tm then mod_timer r deactivate k else Some k);
     k \<leftarrow> Some (k\<lparr>k_timer_tmp := r # k_timer_tmp k\<rparr>);
     k \<leftarrow> call_timeout env tm k;
     if k_timer_tmp k = [] then Some k
     else do {
       k \<leftarrow> Some (rt_timer_remove r k);
       tm \<leftarrow> k_timers k r;
       if timer_periodic tm \<and> timer_activated tm then do {
         k \<leftarrow> mod_timer r deactivate k;
         rt_timer_start r k
       }
       else Some k
     }
   }"

partial_function (option) rt_timer_check_loop :: "env \<Rightarrow> u32 \<Rightarrow> kernel \<Rightarrow> kernel option" where
  "rt_timer_check_loop env current_tick k =
     (case k_timer_list k of
        [] \<Rightarrow> Some k
      | r # _ \<Rightarrow> Option.bind (k_timers k r) (\<lambda>tm.
          if expired current_tick tm
          then Option.bind (timer_expire env r k) (\<lambda>k. rt_timer_check_loop env (k_tick k) k)
          else Some k))"

definition rt_timer_check :: "env \<Rightarrow> kernel \<Rightarrow> kernel option" where
  "rt_timer_check env k = rt_timer_check_loop env (k_tick k) (k\<lparr>k_timer_tmp := []\<rparr>)"

definition rt_tick_increase :: "env \<Rightarrow> kernel \<Rightarrow> kernel option" where
  "rt_tick_increase env k = do {
     k \<leftarrow> Some (k\<lparr>k_tick := k_tick k + 1\<rparr>);
     t \<leftarrow> rt_thread_self k;
     k \<leftarrow> mod_thread t (\<lambda>th. th\<lparr>th_remaining_tick := th_remaining_tick th - 1\<rparr>) k;
     th \<leftarrow> get_thread t k;
     k \<leftarrow> (if th_remaining_tick th = 0 then do {
             k \<leftarrow> mod_thread t (\<lambda>th. th\<lparr>th_remaining_tick := th_init_tick th,
                                     th_stat := th_stat th OR RT_THREAD_STAT_YIELD\<rparr>) k;
             rt_schedule k
           }
           else Some k);
     rt_timer_check env k
   }"

definition rt_tick_from_millisecond :: "int \<Rightarrow> u32" where
  "rt_tick_from_millisecond ms =
     (if ms < 0 then - 1
      else of_int (int RT_TICK_PER_SECOND * (ms div 1000)) +
           of_int ((int RT_TICK_PER_SECOND * (ms mod 1000) + 999) div 1000))"

definition rt_tick_get_millisecond :: "kernel \<Rightarrow> u32" where
  "rt_tick_get_millisecond k = k_tick k * of_nat (1000 div RT_TICK_PER_SECOND)"

definition rt_thread_mdelay :: "int \<Rightarrow> kernel \<Rightarrow> ((int, nat) outcome \<times> kernel) option" where
  "rt_thread_mdelay ms k = rt_thread_sleep (rt_tick_from_millisecond ms) k"

section \<open>board.c\<close>

definition SysTick_Handler :: "env \<Rightarrow> kernel \<Rightarrow> kernel option" where
  "SysTick_Handler env k = do {
     k \<leftarrow> Some (rt_interrupt_enter k);
     k \<leftarrow> rt_tick_increase env k;
     Some (rt_interrupt_leave k)
   }"

section \<open>One expired timer\<close>

lemma tinv_tmp:
  assumes "tinv X M TL tmp T" and "\<And>r. r \<in> set TL \<Longrightarrow> r \<notin> set tmp'"
  shows "tinv X M TL tmp' T"
  by (rule tinvI) (use assms(2) tinvD [OF assms(1)] in blast)+

lemma kinvx_tmp:
  assumes "kinvx X k" and "\<And>r. r \<in> set (k_timer_list k) \<Longrightarrow> r \<notin> set tmp"
  shows "kinvx X (k\<lparr>k_timer_tmp := tmp\<rparr>)"
proof -
  note p = assms(1) [unfolded kinvx_def]
  have "tinv X (k_timers k) (k_timer_list k) tmp (k_threads k)"
    by (rule tinv_tmp [OF _ assms(2)]) (use p in auto)
  then show ?thesis using p by (simp add: kinvx_def)
qed

text \<open>The thread whose timer fired is no longer suspended and has the timeout error; the others are as before.\<close>

definition timed_out :: "nat \<Rightarrow> kernel \<Rightarrow> kernel \<Rightarrow> bool" where
  "timed_out t k k' \<longleftrightarrow>
     (\<exists>th. k_threads k' t = Some th \<and> thread_stat th \<noteq> RT_THREAD_SUSPEND \<and> th_error th = - RT_ETIMEOUT) \<and>
     (\<forall>u th. u \<noteq> t \<longrightarrow> k_threads k u = Some th \<longrightarrow> thread_stat th = RT_THREAD_SUSPEND \<longrightarrow> k_threads k' u = Some th) \<and>
     (\<forall>u th. u \<noteq> t \<longrightarrow> k_threads k u = Some th \<longrightarrow> (\<exists>th'. k_threads k' u = Some th' \<and> restat th th' \<and>
        (thread_stat th \<noteq> RT_THREAD_SUSPEND \<longrightarrow> thread_stat th' \<noteq> RT_THREAD_SUSPEND)))"

lemma sched_rel_stat:
  assumes "sched_rel k k'" and "k_threads k t = Some th"
  obtains th' where "k_threads k' t = Some th'" and "restat th th'"
    and "thread_stat th' = RT_THREAD_SUSPEND \<longleftrightarrow> thread_stat th = RT_THREAD_SUSPEND"
proof -
  have "(k_threads k' t = k_threads k t) \<or>
        (\<exists>th th'. k_threads k t = Some th \<and> k_threads k' t = Some th' \<and> restat th th' \<and>
           thread_stat th \<in> {RT_THREAD_READY, RT_THREAD_RUNNING} \<and>
           thread_stat th' \<in> {RT_THREAD_READY, RT_THREAD_RUNNING})"
    using assms(1) unfolding sched_rel_def by blast
  with assms(2) that show thesis by auto
qed

lemma timed_out_of_wake:
  assumes w: "woken t (th\<lparr>th_error := - RT_ETIMEOUT\<rparr>) k k1" and s: "sched_rel k1 k'"
    and t: "k_threads k t = Some th"
  shows "timed_out t k k'"
proof -
  obtain th1 where th1: "k_threads k1 t = Some th1" "thread_stat th1 \<noteq> RT_THREAD_SUSPEND" "th_error th1 = - RT_ETIMEOUT"
    using w by (auto simp: woken_def split: if_splits)
  have o: "k_threads k1 u = k_threads k u" if "u \<noteq> t" for u
    using w that by (auto simp: woken_def split: if_splits)
  obtain th' where th': "k_threads k' t = Some th'" "restat th1 th'"
    "thread_stat th' = RT_THREAD_SUSPEND \<longleftrightarrow> thread_stat th1 = RT_THREAD_SUSPEND"
    by (rule sched_rel_stat [OF s th1(1)])
  have "\<exists>th. k_threads k' t = Some th \<and> thread_stat th \<noteq> RT_THREAD_SUSPEND \<and> th_error th = - RT_ETIMEOUT"
    using th' th1 restatD(2) by auto
  moreover have "k_threads k' u = Some v" if "u \<noteq> t" "k_threads k u = Some v" "thread_stat v = RT_THREAD_SUSPEND" for u v
    by (rule sched_relD(7) [OF s]) (use that o in simp_all)
  moreover have "\<exists>th'. k_threads k' u = Some th' \<and> restat v th' \<and>
      (thread_stat v \<noteq> RT_THREAD_SUSPEND \<longrightarrow> thread_stat th' \<noteq> RT_THREAD_SUSPEND)"
    if "u \<noteq> t" "k_threads k u = Some v" for u v
    using sched_rel_stat [OF s, of u v] that o by metis
  ultimately show ?thesis unfolding timed_out_def by blast
qed

lemma timer_expire_thread:
  assumes i: "kinv k" and l: "k_timer_list k = Thread_timer t # rest" and tmp: "k_timer_tmp k = []"
    and c: "k_current k = Some c"
  shows "returns (timer_expire env (Thread_timer t) k) (\<lambda>k'. kinv k' \<and> (\<exists>c. k_current k' = Some c) \<and>
    k_timer_list k' = rest \<and> k_timer_tmp k' = [] \<and> core_frame k k' \<and>
    (\<forall>r. r \<noteq> Thread_timer t \<longrightarrow> k_timers k' r = k_timers k r) \<and> timed_out t k k')"
proof -
  let ?r = "Thread_timer t"
  have M: "tinv {} (k_timers k) (k_timer_list k) (k_timer_tmp k) (k_threads k)" using i by (simp add: kinvx_def)
  obtain th where th: "k_threads k t = Some th" "thread_stat th = RT_THREAD_SUSPEND"
    using tinvD(4) [OF M, of t] l by auto
  obtain tm where tm: "k_timers k ?r = Some tm" "is_timer_object tm" "thread_timer_wf t tm"
    using tinvD(5) [OF M th(1)] th(2) by auto
  have d: "?r \<notin> set rest" "distinct rest" using tinvD(1) [OF M] l by auto
  have f: "tm_timeout_func tm = Rt_thread_timeout" "tm_parameter tm = t" "\<not> timer_periodic tm"
    using tm(3) by (simp_all add: thread_timer_wf_def)
  let ?k1 = "(stopped ?r tm k)\<lparr>k_timer_tmp := [?r]\<rparr>"
  have k1: "kinv ?k1"
    by (rule kinvx_tmp [OF kinvx_stopped [OF i tm(1)]]) (use d l in auto)
  have e: "timer_expire env ?r k = Option.bind (rt_thread_timeout t ?k1) (\<lambda>k.
      if k_timer_tmp k = [] then Some k
      else do {
        k \<leftarrow> Some (rt_timer_remove ?r k);
        tm \<leftarrow> k_timers k ?r;
        if timer_periodic tm \<and> timer_activated tm then do {
          k \<leftarrow> mod_timer ?r deactivate k;
          rt_timer_start ?r k
        }
        else Some k
      })"
    using tm f tmp by (simp add: timer_expire_def call_timeout_def mod_timer_def stopped_def rt_timer_remove_def)
  have to: "returns (rt_thread_timeout t ?k1) (\<lambda>k'. kinv k' \<and>
    (\<exists>k1. kinv k1 \<and> woken t (th\<lparr>th_error := - RT_ETIMEOUT\<rparr>) ?k1 k1 \<and> k_timer_tmp k1 = k_timer_tmp ?k1 \<and>
       sched_rel k1 k' \<and> (\<exists>c'. k_current k' = Some c' \<and> c' \<notin> {})))"
    by (rule rt_thread_timeout_kinvx [OF k1, where th = th and c = c]) (use th c d l in auto)
  have fr1: "core_frame k ?k1" unfolding stopped_def rt_timer_remove_def
    by (auto simp: core_frame_def intro!: exI [of _ "\<lambda>_. True"])
  have fr: "frames k (rt_thread_timeout t ?k1)" by (intro frame fr1)
  show ?thesis unfolding e
  proof (rule returns_bindI [OF returns_frame [OF to fr]], elim conjE exE)
    fix k2 k3 c' assume k2: "kinv k2" and w: "woken t (th\<lparr>th_error := - RT_ETIMEOUT\<rparr>) ?k1 k3"
      and t3: "k_timer_tmp k3 = k_timer_tmp ?k1" and s: "sched_rel k3 k2" and c': "k_current k2 = Some c'"
      and fr2: "core_frame k k2"
    have tl: "k_timer_list k2 = rest" "k_timer_tmp k2 = [?r]"
      using w t3 sched_relD(2,3) [OF s] l d by (simp_all add: woken_def removeAll_id)
    have tms: "\<forall>r. r \<noteq> ?r \<longrightarrow> k_timers k2 r = k_timers k r"
      using w sched_relD(1) [OF s] by (simp add: woken_def)
    obtain tm2 where tm2: "k_timers k2 ?r = Some tm2" "thread_timer_wf t tm2"
      using w sched_relD(1) [OF s] by (auto simp: woken_def own_timer_def)
    have "timed_out t ?k1 k2" by (rule timed_out_of_wake [OF w s]) (use th in simp)
    then have tout: "timed_out t k k2" by (simp add: timed_out_def)
    have "kinv (k2\<lparr>k_timer_tmp := []\<rparr>)" by (rule kinvx_tmp [OF k2]) simp
    then have "kinv (rt_timer_remove ?r k2)" using tl d by (simp add: rt_timer_remove_def kinvx_def removeAll_id)
    moreover have "timed_out t k (rt_timer_remove ?r k2)"
      using tout by (simp add: timed_out_def rt_timer_remove_def)
    moreover have "core_frame k (rt_timer_remove ?r k2)"
      unfolding rt_timer_remove_def by (intro frame fr2)
    moreover have "\<not> timer_periodic tm2" using tm2 by (simp add: thread_timer_wf_def)
    ultimately show "returns (if k_timer_tmp k2 = [] then Some k2
      else do {
        k \<leftarrow> Some (rt_timer_remove ?r k2);
        tm \<leftarrow> k_timers k ?r;
        if timer_periodic tm \<and> timer_activated tm then do {
          k \<leftarrow> mod_timer ?r deactivate k;
          rt_timer_start ?r k
        }
        else Some k
      }) (\<lambda>k'. kinv k' \<and> (\<exists>c. k_current k' = Some c) \<and> k_timer_list k' = rest \<and> k_timer_tmp k' = [] \<and> core_frame k k' \<and>
        (\<forall>r. r \<noteq> ?r \<longrightarrow> k_timers k' r = k_timers k r) \<and> timed_out t k k')"
      using tl tm2 tms c' d by (simp add: rt_timer_remove_def removeAll_id)
  qed
qed

section \<open>The check of a list of thread timers\<close>

text \<open>
  When the list holds only the timers of threads -- as in this program, which starts no other timer --
  the check ends: it runs the leading expired timers, in their order, and no other.
\<close>

definition thread_timers_only :: "timer_ref list \<Rightarrow> bool" where
  "thread_timers_only TL \<longleftrightarrow> (\<forall>r \<in> set TL. \<exists>t. r = Thread_timer t)"

definition due :: "kernel \<Rightarrow> timer_ref \<Rightarrow> bool" where
  "due k r \<longleftrightarrow> (\<exists>tm. k_timers k r = Some tm \<and> expired (k_tick k) tm)"

text \<open>The threads whose timers are in \<open>rs\<close> have timed out; no other suspended thread has changed.\<close>

definition woken_all :: "timer_ref list \<Rightarrow> kernel \<Rightarrow> kernel \<Rightarrow> bool" where
  "woken_all rs k k' \<longleftrightarrow>
     (\<forall>t. Thread_timer t \<in> set rs \<longrightarrow>
        (\<exists>th. k_threads k' t = Some th \<and> thread_stat th \<noteq> RT_THREAD_SUSPEND \<and> th_error th = - RT_ETIMEOUT)) \<and>
     (\<forall>t th. Thread_timer t \<notin> set rs \<longrightarrow> k_threads k t = Some th \<longrightarrow> thread_stat th = RT_THREAD_SUSPEND \<longrightarrow>
        k_threads k' t = Some th) \<and>
     (\<forall>t th. Thread_timer t \<notin> set rs \<longrightarrow> k_threads k t = Some th \<longrightarrow> (\<exists>th'. k_threads k' t = Some th' \<and> restat th th' \<and>
        (thread_stat th \<noteq> RT_THREAD_SUSPEND \<longrightarrow> thread_stat th' \<noteq> RT_THREAD_SUSPEND)))"

lemma woken_allD:
  assumes "woken_all rs k k'"
  shows "Thread_timer t \<in> set rs \<Longrightarrow>
      \<exists>th. k_threads k' t = Some th \<and> thread_stat th \<noteq> RT_THREAD_SUSPEND \<and> th_error th = - RT_ETIMEOUT"
    and "Thread_timer t \<notin> set rs \<Longrightarrow> k_threads k t = Some th \<Longrightarrow> thread_stat th = RT_THREAD_SUSPEND \<Longrightarrow> k_threads k' t = Some th"
    and "Thread_timer t \<notin> set rs \<Longrightarrow> k_threads k t = Some th \<Longrightarrow> \<exists>th'. k_threads k' t = Some th' \<and> restat th th' \<and>
        (thread_stat th \<noteq> RT_THREAD_SUSPEND \<longrightarrow> thread_stat th' \<noteq> RT_THREAD_SUSPEND)"
  using assms unfolding woken_all_def by auto

lemma woken_all_Cons:
  assumes to: "timed_out t k k1" and w: "woken_all rs k1 k2" and n: "Thread_timer t \<notin> set rs"
  shows "woken_all (Thread_timer t # rs) k k2"
  unfolding woken_all_def
proof (intro conjI allI impI)
  note a = to [unfolded timed_out_def]
  show "\<exists>th. k_threads k2 u = Some th \<and> thread_stat th \<noteq> RT_THREAD_SUSPEND \<and> th_error th = - RT_ETIMEOUT"
    if "Thread_timer u \<in> set (Thread_timer t # rs)" for u
  proof (cases "u = t")
    case True
    obtain th where th: "k_threads k1 t = Some th" "thread_stat th \<noteq> RT_THREAD_SUSPEND" "th_error th = - RT_ETIMEOUT"
      using a by blast
    then show ?thesis using woken_allD(3) [OF w n th(1)] True by (auto dest: restatD(2))
  qed (use that woken_allD(1) [OF w] in simp)
  show "k_threads k2 u = Some th"
    if "Thread_timer u \<notin> set (Thread_timer t # rs)" "k_threads k u = Some th" "thread_stat th = RT_THREAD_SUSPEND" for u th
    by (rule woken_allD(2) [OF w]) (use that a in auto)
  show "\<exists>th'. k_threads k2 u = Some th' \<and> restat th th' \<and>
        (thread_stat th \<noteq> RT_THREAD_SUSPEND \<longrightarrow> thread_stat th' \<noteq> RT_THREAD_SUSPEND)"
    if u: "Thread_timer u \<notin> set (Thread_timer t # rs)" "k_threads k u = Some th" for u th
  proof -
    have "u \<noteq> t" using u by simp
    then obtain th1 where th1: "k_threads k1 u = Some th1" "restat th th1"
      "thread_stat th \<noteq> RT_THREAD_SUSPEND \<longrightarrow> thread_stat th1 \<noteq> RT_THREAD_SUSPEND" using a u(2) by blast
    have "Thread_timer u \<notin> set rs" using u by simp
    then show ?thesis using woken_allD(3) [OF w _ th1(1)] th1 restat_trans by blast
  qed
qed

text \<open>The state \<open>k'\<close> when the loop has removed the timers \<open>ts\<close> from the front of the list and \<open>rest\<close> is left.\<close>

definition checked :: "timer_ref list \<Rightarrow> timer_ref list \<Rightarrow> kernel \<Rightarrow> kernel \<Rightarrow> bool" where
  "checked ts rest k k' \<longleftrightarrow> kinv k' \<and> (\<exists>c. k_current k' = Some c) \<and> core_frame k k' \<and> k_timer_tmp k' = [] \<and>
     k_timer_list k' = rest \<and> (\<forall>r. r \<in> set rest \<longrightarrow> k_timers k' r = k_timers k r) \<and> woken_all ts k k'"

lemma checked_Cons:
  assumes fr: "core_frame k k1" and tms: "\<forall>q. q \<noteq> Thread_timer t \<longrightarrow> k_timers k1 q = k_timers k q" and to: "timed_out t k k1"
    and d: "Thread_timer t \<notin> set ts" "Thread_timer t \<notin> set rest" and k2: "checked ts rest k1 k2"
  shows "checked (Thread_timer t # ts) rest k k2"
  unfolding checked_def
proof (intro conjI allI impI)
  show "kinv k2" "\<exists>c. k_current k2 = Some c" "k_timer_tmp k2 = []" "k_timer_list k2 = rest" using k2 by (simp_all add: checked_def)
  show "core_frame k k2" by (rule core_frame_trans [OF fr]) (use k2 in \<open>simp add: checked_def\<close>)
  show "k_timers k2 q = k_timers k q" if "q \<in> set rest" for q
    using that tms d(2) k2 unfolding checked_def by metis
  show "woken_all (Thread_timer t # ts) k k2"
    by (rule woken_all_Cons [OF to _ d(1)]) (use k2 in \<open>simp add: checked_def\<close>)
qed

lemma due_same:
  assumes "core_frame k k1" and "\<forall>q. q \<noteq> r \<longrightarrow> k_timers k1 q = k_timers k q" and "r \<notin> set rest"
  shows "takeWhile (due k1) rest = takeWhile (due k) rest" and "dropWhile (due k1) rest = dropWhile (due k) rest"
proof -
  have "due k1 q = due k q" if "q \<in> set rest" for q
    using that assms(2,3) core_frameD(11) [OF assms(1)] by (auto simp: due_def)
  then show "takeWhile (due k1) rest = takeWhile (due k) rest" "dropWhile (due k1) rest = dropWhile (due k) rest"
    by (auto cong: takeWhile_cong dropWhile_cong)
qed

lemma rt_timer_check_loop_checked:
  assumes "kinv k" and "k_timer_tmp k = []" and "k_current k = Some c" and "thread_timers_only (k_timer_list k)"
  shows "returns (rt_timer_check_loop env (k_tick k) k)
    (checked (takeWhile (due k) (k_timer_list k)) (dropWhile (due k) (k_timer_list k)) k)"
  using assms
proof (induction "k_timer_list k" arbitrary: k c)
  case Nil
  have "rt_timer_check_loop env (k_tick k) k = Some k"
    by (subst rt_timer_check_loop.simps) (simp flip: Nil.hyps)
  then show ?case using Nil by (simp add: checked_def woken_all_def flip: Nil.hyps)
next
  case (Cons r rest)
  obtain t where r: "r = Thread_timer t"
    using Cons.prems(4) Cons.hyps(2) unfolding thread_timers_only_def by (metis list.set_intros(1))
  have M: "tinv {} (k_timers k) (k_timer_list k) (k_timer_tmp k) (k_threads k)"
    using Cons.prems(1) by (simp add: kinvx_def)
  obtain tm where tm: "k_timers k r = Some tm" using tinvD(3) [OF M, of r] by (auto simp flip: Cons.hyps(2))
  have nt: "Thread_timer t \<notin> set rest" using tinvD(1) [OF M] r by (simp flip: Cons.hyps(2))
  have unf: "rt_timer_check_loop env (k_tick k) k =
      (if due k r then Option.bind (timer_expire env r k) (\<lambda>k. rt_timer_check_loop env (k_tick k) k) else Some k)"
    by (subst rt_timer_check_loop.simps) (simp add: tm due_def flip: Cons.hyps(2))
  show ?case
  proof (cases "due k r")
    case False
    then show ?thesis using unf Cons.prems by (simp add: checked_def woken_all_def flip: Cons.hyps(2))
  next
    case True
    have ex: "returns (timer_expire env r k) (\<lambda>k'. kinv k' \<and> (\<exists>c. k_current k' = Some c) \<and>
      k_timer_list k' = rest \<and> k_timer_tmp k' = [] \<and> core_frame k k' \<and>
      (\<forall>q. q \<noteq> Thread_timer t \<longrightarrow> k_timers k' q = k_timers k q) \<and> timed_out t k k')"
      unfolding r by (rule timer_expire_thread [OF Cons.prems(1) _ Cons.prems(2,3)]) (simp add: r flip: Cons.hyps(2))
    have "returns (Option.bind (timer_expire env r k) (\<lambda>k. rt_timer_check_loop env (k_tick k) k))
      (checked (r # takeWhile (due k) rest) (dropWhile (due k) rest) k)"
    proof (rule returns_bindI [OF ex], elim conjE exE)
      fix k1 c1 assume k1: "kinv k1" "k_current k1 = Some c1" "k_timer_list k1 = rest" "k_timer_tmp k1 = []"
        and fr: "core_frame k k1" and tms: "\<forall>q. q \<noteq> Thread_timer t \<longrightarrow> k_timers k1 q = k_timers k q"
        and to: "timed_out t k k1"
      have only: "thread_timers_only (k_timer_list k1)"
        using Cons.prems(4) k1(3) by (simp add: thread_timers_only_def flip: Cons.hyps(2))
      note IH = Cons.hyps(1) [OF k1(3) [symmetric] k1(1,4,2) only, unfolded k1(3) due_same [OF fr tms nt]]
      show "returns (rt_timer_check_loop env (k_tick k1) k1) (checked (r # takeWhile (due k) rest) (dropWhile (due k) rest) k)"
        unfolding r by (rule returns_mono [OF IH], rule checked_Cons [OF fr tms to])
          (use nt in \<open>auto dest: set_takeWhileD set_dropWhileD\<close>)
    qed
    then show ?thesis using unf True by (simp flip: Cons.hyps(2))
  qed
qed

lemma rt_timer_check_loop_threads:
  assumes "kinv k" and "k_timer_tmp k = []" and "k_current k = Some c" and "thread_timers_only (k_timer_list k)"
  shows "returns (rt_timer_check_loop env (k_tick k) k) (\<lambda>k'. kinv k' \<and> (\<exists>c. k_current k' = Some c) \<and>
    core_frame k k' \<and> k_timer_tmp k' = [] \<and>
    k_timer_list k' = dropWhile (due k) (k_timer_list k) \<and>
    (\<forall>r. r \<in> set (k_timer_list k') \<longrightarrow> k_timers k' r = k_timers k r) \<and>
    woken_all (takeWhile (due k) (k_timer_list k)) k k')"
  by (rule returns_mono [OF rt_timer_check_loop_checked [OF assms]]) (simp add: checked_def)

section \<open>The tick\<close>

text \<open>What holds between two ticks: the invariant, a current thread, and only thread timers running.\<close>

definition between_ticks :: "kernel \<Rightarrow> bool" where
  "between_ticks k \<longleftrightarrow> kinv k \<and> (\<exists>c. k_current k = Some c) \<and> thread_timers_only (k_timer_list k)"

lemma rt_timer_check_threads:
  assumes "between_ticks k"
  shows "returns (rt_timer_check env k) (\<lambda>k'. between_ticks k' \<and> core_frame k k' \<and>
    k_timer_list k' = dropWhile (due k) (k_timer_list k) \<and>
    (\<forall>r. r \<in> set (k_timer_list k') \<longrightarrow> k_timers k' r = k_timers k r) \<and>
    woken_all (takeWhile (due k) (k_timer_list k)) k k')"
proof -
  let ?k = "k\<lparr>k_timer_tmp := []\<rparr>"
  obtain c where c: "k_current k = Some c" using assms by (auto simp: between_ticks_def)
  have "kinv ?k" by (rule kinvx_tmp) (use assms in \<open>simp_all add: between_ticks_def\<close>)
  note l = rt_timer_check_loop_threads [OF this, of c env]
  have d: "due ?k = due k" by (simp add: due_def fun_eq_iff)
  have w: "woken_all rs ?k k' = woken_all rs k k'" for rs k' by (simp add: woken_all_def)
  have f: "core_frame ?k k' \<Longrightarrow> core_frame k k'" for k'
    by (rule core_frame_trans [OF core_frame_fields(8)])
  show ?thesis unfolding rt_timer_check_def
  proof (rule returns_mono)
    show "returns (rt_timer_check_loop env (k_tick k) ?k) (\<lambda>k'. kinv k' \<and> (\<exists>c. k_current k' = Some c) \<and>
      core_frame ?k k' \<and> k_timer_tmp k' = [] \<and>
      k_timer_list k' = dropWhile (due ?k) (k_timer_list ?k) \<and>
      (\<forall>r. r \<in> set (k_timer_list k') \<longrightarrow> k_timers k' r = k_timers ?k r) \<and>
      woken_all (takeWhile (due ?k) (k_timer_list ?k)) ?k k')"
      using l c assms by (simp add: between_ticks_def)
  next
    fix k' assume k': "kinv k' \<and> (\<exists>c. k_current k' = Some c) \<and> core_frame ?k k' \<and> k_timer_tmp k' = [] \<and>
      k_timer_list k' = dropWhile (due ?k) (k_timer_list ?k) \<and>
      (\<forall>r. r \<in> set (k_timer_list k') \<longrightarrow> k_timers k' r = k_timers ?k r) \<and>
      woken_all (takeWhile (due ?k) (k_timer_list ?k)) ?k k'"
    moreover have "thread_timers_only (k_timer_list k')"
      using k' assms by (auto simp: between_ticks_def thread_timers_only_def dest: set_dropWhileD)
    ultimately show "between_ticks k' \<and> core_frame k k' \<and> k_timer_list k' = dropWhile (due k) (k_timer_list k) \<and>
      (\<forall>r. r \<in> set (k_timer_list k') \<longrightarrow> k_timers k' r = k_timers k r) \<and>
      woken_all (takeWhile (due k) (k_timer_list k)) k k'"
      unfolding d w by (auto simp: between_ticks_def intro: f)
  qed
qed

text \<open>The first half of the tick: the counter, the time slice and the scheduler.\<close>

definition tick_slice :: "kernel \<Rightarrow> kernel option" where
  "tick_slice k = do {
     k \<leftarrow> Some (k\<lparr>k_tick := k_tick k + 1\<rparr>);
     t \<leftarrow> rt_thread_self k;
     k \<leftarrow> mod_thread t (\<lambda>th. th\<lparr>th_remaining_tick := th_remaining_tick th - 1\<rparr>) k;
     th \<leftarrow> get_thread t k;
     if th_remaining_tick th = 0 then do {
       k \<leftarrow> mod_thread t (\<lambda>th. th\<lparr>th_remaining_tick := th_init_tick th,
                               th_stat := th_stat th OR RT_THREAD_STAT_YIELD\<rparr>) k;
       rt_schedule k
     }
     else Some k
   }"

lemma rt_tick_increase_split: "rt_tick_increase env k = Option.bind (tick_slice k) (rt_timer_check env)"
  by (simp add: rt_tick_increase_def tick_slice_def bind_assoc)

lemma yield_stat: "thread_stat (th\<lparr>th_remaining_tick := n, th_stat := th_stat th OR RT_THREAD_STAT_YIELD\<rparr>) = thread_stat th"
proof -
  have "(x OR 0x08) AND 0x07 = x AND (0x07 :: u8)" for x by (simp add: bit.conj_disj_distrib2)
  then show ?thesis by (simp add: thread_stat_def)
qed

lemma tick_slice_returns:
  assumes i: "kinv k" and c: "k_current k = Some t" and th: "k_threads k t = Some th"
  defines "k0 \<equiv> k\<lparr>k_tick := k_tick k + 1\<rparr>"
  shows "th_remaining_tick th \<noteq> 1 \<Longrightarrow> tick_slice k =
      Some (k0\<lparr>k_threads := (k_threads k)(t \<mapsto> th\<lparr>th_remaining_tick := th_remaining_tick th - 1\<rparr>)\<rparr>)"
    and "th_remaining_tick th = 1 \<Longrightarrow> tick_slice k =
      rt_schedule (k0\<lparr>k_threads := (k_threads k)(t \<mapsto> th\<lparr>th_remaining_tick := th_init_tick th,
        th_stat := th_stat th OR RT_THREAD_STAT_YIELD\<rparr>)\<rparr>)"
    and "kinv (k0\<lparr>k_threads := (k_threads k)(t \<mapsto> th\<lparr>th_remaining_tick := n\<rparr>)\<rparr>)"
    and "kinv (k0\<lparr>k_threads := (k_threads k)(t \<mapsto> th\<lparr>th_remaining_tick := n,
        th_stat := th_stat th OR RT_THREAD_STAT_YIELD\<rparr>)\<rparr>)"
proof -
  show "th_remaining_tick th \<noteq> 1 \<Longrightarrow> tick_slice k =
      Some (k0\<lparr>k_threads := (k_threads k)(t \<mapsto> th\<lparr>th_remaining_tick := th_remaining_tick th - 1\<rparr>)\<rparr>)"
    using c th by (simp add: tick_slice_def rt_thread_self_def mod_thread_def get_thread_def k0_def)
  show "th_remaining_tick th = 1 \<Longrightarrow> tick_slice k =
      rt_schedule (k0\<lparr>k_threads := (k_threads k)(t \<mapsto> th\<lparr>th_remaining_tick := th_init_tick th,
        th_stat := th_stat th OR RT_THREAD_STAT_YIELD\<rparr>)\<rparr>)"
    using c th by (simp add: tick_slice_def rt_thread_self_def mod_thread_def get_thread_def k0_def)
  have k0: "kinv k0" "k_threads k0 t = Some th" using i th by (simp_all add: k0_def kinvx_def)
  have "same_sched th (th\<lparr>th_remaining_tick := n\<rparr>)" by (simp add: same_sched_def thread_stat_def prio_def)
  from kinvx_upd_same [OF k0 this]
  show "kinv (k0\<lparr>k_threads := (k_threads k)(t \<mapsto> th\<lparr>th_remaining_tick := n\<rparr>)\<rparr>)" by (simp add: k0_def)
  have "same_sched th (th\<lparr>th_remaining_tick := n, th_stat := th_stat th OR RT_THREAD_STAT_YIELD\<rparr>)"
    using yield_stat [of th n] by (simp add: same_sched_def prio_def)
  from kinvx_upd_same [OF k0 this]
  show "kinv (k0\<lparr>k_threads := (k_threads k)(t \<mapsto> th\<lparr>th_remaining_tick := n,
        th_stat := th_stat th OR RT_THREAD_STAT_YIELD\<rparr>)\<rparr>)" by (simp add: k0_def)
qed

lemma tick_slice_between:
  assumes "between_ticks k"
  shows "returns (tick_slice k) (\<lambda>k1. between_ticks k1 \<and> k_tick k1 = k_tick k + 1 \<and>
    k_timers k1 = k_timers k \<and> k_timer_list k1 = k_timer_list k \<and> k_irq_nest k1 = k_irq_nest k \<and>
    k_lock_nest k1 = k_lock_nest k \<and> core_frame (k\<lparr>k_tick := k_tick k + 1\<rparr>) k1 \<and>
    (\<forall>t th. k_current k \<noteq> Some t \<longrightarrow> k_threads k t = Some th \<longrightarrow> thread_stat th = RT_THREAD_SUSPEND \<longrightarrow> k_threads k1 t = Some th))"
proof -
  obtain t where i: "kinv k" and c: "k_current k = Some t" and o: "thread_timers_only (k_timer_list k)"
    using assms by (auto simp: between_ticks_def)
  obtain th where th: "k_threads k t = Some th" using i c cinvD(1) unfolding kinvx_def by blast
  note ts = tick_slice_returns [OF i c th]
  have f: "core_frame (k\<lparr>k_tick := k_tick k + 1\<rparr>) (k\<lparr>k_tick := k_tick k + 1, k_threads := T\<rparr>)" for T
    by (rule core_frame_fields(9))
  show ?thesis
  proof (cases "th_remaining_tick th = 1")
    case False
    then show ?thesis using ts(1) ts(3) c o f by (simp add: between_ticks_def)
  next
    case True
    let ?k = "k\<lparr>k_tick := k_tick k + 1, k_threads := (k_threads k)(t \<mapsto> th\<lparr>th_remaining_tick := th_init_tick th,
        th_stat := th_stat th OR RT_THREAD_STAT_YIELD\<rparr>)\<rparr>"
    have "returns (rt_schedule ?k) (\<lambda>k'. kinv k' \<and> sched_rel ?k k' \<and> (\<exists>c. k_current k' = Some c))"
      by (rule schedule_after [OF ts(4)]) (use c in auto)
    then have "returns (rt_schedule ?k) (\<lambda>k'. (kinv k' \<and> sched_rel ?k k' \<and> (\<exists>c. k_current k' = Some c)) \<and>
        core_frame (k\<lparr>k_tick := k_tick k + 1\<rparr>) k')"
      by (rule returns_frame) (intro frame f)
    then show ?thesis unfolding ts(2) [OF True]
    proof (rule returns_mono, elim conjE exE)
      fix k' c' assume k': "kinv k'" "sched_rel ?k k'" "core_frame (k\<lparr>k_tick := k_tick k + 1\<rparr>) k'" "k_current k' = Some c'"
      have "k_threads k' u = Some uth" if "k_current k \<noteq> Some u" "k_threads k u = Some uth" "thread_stat uth = RT_THREAD_SUSPEND" for u uth
        using sched_relD(7) [OF k'(2), of u uth] that c by simp
      then show "between_ticks k' \<and> k_tick k' = k_tick k + 1 \<and> k_timers k' = k_timers k \<and> k_timer_list k' = k_timer_list k \<and>
        k_irq_nest k' = k_irq_nest k \<and> k_lock_nest k' = k_lock_nest k \<and> core_frame (k\<lparr>k_tick := k_tick k + 1\<rparr>) k' \<and>
        (\<forall>t th. k_current k \<noteq> Some t \<longrightarrow> k_threads k t = Some th \<longrightarrow> thread_stat th = RT_THREAD_SUSPEND \<longrightarrow> k_threads k' t = Some th)"
        using k' o core_frameD(9-11) [OF k'(3)] sched_relD(1,2) [OF k'(2)] by (simp add: between_ticks_def)
    qed
  qed
qed

lemma between_ticks_irq [simp]: "between_ticks (k\<lparr>k_irq_nest := n\<rparr>) = between_ticks k"
  by (simp add: between_ticks_def kinvx_def)

section \<open>Ordered timer lists\<close>

lemma expired_next_tick:
  assumes "unat (tm_timeout_tick tm - now) < 2 ^ 31 - 1"
  shows "expired (now + 1) tm \<longleftrightarrow> unat (tm_timeout_tick tm - now) \<le> 1"
proof -
  let ?a = "tm_timeout_tick tm - now"
  have e: "now + 1 - tm_timeout_tick tm = 1 - ?a" by simp
  have "unat (1 - ?a) = (if ?a \<le> 1 then 1 - unat ?a else 2 ^ 32 + 1 - unat ?a)"
    using unat_minus_eq [of 1 ?a] by simp
  then show ?thesis unfolding expired_def e using assms
    by (auto simp: word_less_nat_alt word_le_nat_alt)
qed

lemma timer_key_next_tick:
  assumes "1 \<le> timer_key now M r"
  shows "timer_key (now + 1) M r = timer_key now M r - 1"
proof -
  let ?a = "tm_timeout_tick (the (M r)) - now"
  have e: "tm_timeout_tick (the (M r)) - (now + 1) = ?a - 1" by simp
  have "1 \<le> ?a" using assms by (simp add: timer_key_def word_le_nat_alt)
  then show ?thesis using unat_minus_eq [of ?a 1] unfolding timer_key_def e by simp
qed

text \<open>In an ordered list the timers that are due at the next tick are a prefix, and the rest stays ordered.\<close>

lemma due_key:
  assumes "timer_order now (k_timers k) TL" and "k_timers k r \<noteq> None" and "k_tick k = now + 1" and "r \<in> set TL"
  shows "due k r \<longleftrightarrow> timer_key now (k_timers k) r \<le> 1"
proof -
  obtain tm where tm: "k_timers k r = Some tm" using assms(2) by auto
  have "timer_key now (k_timers k) r < 2 ^ 31 - 1" using assms(1,4) by (simp add: timer_order_def)
  then show ?thesis using expired_next_tick [of tm now] tm assms(3) by (simp add: due_def timer_key_def)
qed

lemma ordered_due_prefix:
  assumes o: "timer_order now (k_timers k) TL" and d: "\<And>r. r \<in> set TL \<Longrightarrow> k_timers k r \<noteq> None"
    and t: "k_tick k = now + 1"
  shows "r \<in> set (dropWhile (due k) TL) \<Longrightarrow> \<not> due k r"
    and "timer_order (now + 1) (k_timers k) (dropWhile (due k) TL)"
proof -
  have du: "due k r \<longleftrightarrow> timer_key now (k_timers k) r \<le> 1" if "r \<in> set TL" for r
    by (rule due_key [OF o d [OF that] t that])
  have s: "sorted (map (timer_key now (k_timers k)) TL)" using o by (simp add: timer_order_def)
  have big: "2 \<le> timer_key now (k_timers k) r" if r: "r \<in> set (dropWhile (due k) TL)" for r
  proof -
    obtain x xs where x: "dropWhile (due k) TL = x # xs" using r by (cases "dropWhile (due k) TL") auto
    then have "\<not> due k x" using hd_dropWhile [of "due k" TL] by simp
    moreover have "x \<in> set TL" using x by (metis list.set_intros(1) set_dropWhileD)
    ultimately have "2 \<le> timer_key now (k_timers k) x" using du by simp
    moreover have "sorted (map (timer_key now (k_timers k)) (x # xs))"
      unfolding x [symmetric] using s by (simp add: dropWhile_eq_drop sorted_wrt_drop drop_map [symmetric])
    ultimately show ?thesis using r x by auto
  qed
  show "\<not> due k r" if "r \<in> set (dropWhile (due k) TL)"
    using big [OF that] du [of r] set_dropWhileD [OF that] by simp
  have k: "timer_key (now + 1) (k_timers k) r = timer_key now (k_timers k) r - 1"
    if "r \<in> set (dropWhile (due k) TL)" for r
    by (rule timer_key_next_tick) (use big [OF that] in simp)
  have "sorted (map (timer_key now (k_timers k)) (dropWhile (due k) TL))"
    using s by (simp add: dropWhile_eq_drop sorted_wrt_drop drop_map [symmetric])
  then have "sorted (map (\<lambda>r. timer_key now (k_timers k) r - 1) (dropWhile (due k) TL))"
    by (auto simp: sorted_wrt_map elim!: sorted_wrt_mono_rel [rotated])
  then have "sorted (map (timer_key (now + 1) (k_timers k)) (dropWhile (due k) TL))"
    using k by (simp cong: map_cong)
  moreover have "timer_key (now + 1) (k_timers k) r < 2 ^ 31 - 1" if "r \<in> set (dropWhile (due k) TL)" for r
    using k [OF that] o set_dropWhileD [OF that] by (fastforce simp: timer_order_def)
  ultimately show "timer_order (now + 1) (k_timers k) (dropWhile (due k) TL)" by (simp add: timer_order_def)
qed

section \<open>The tick interrupt\<close>

text \<open>Between two ticks the timer list is also ordered by the ticks left.\<close>

definition ticking :: "kernel \<Rightarrow> bool" where
  "ticking k \<longleftrightarrow> between_ticks k \<and> timer_order (k_tick k) (k_timers k) (k_timer_list k)"

lemma filter_eq_dropWhile:
  assumes "\<And>x. x \<in> set (dropWhile P xs) \<Longrightarrow> \<not> P x"
  shows "dropWhile P xs = filter (\<lambda>x. \<not> P x) xs" and "takeWhile P xs = filter P xs"
proof -
  have "filter (\<lambda>x. \<not> P x) (takeWhile P xs @ dropWhile P xs) = dropWhile P xs"
    "filter P (takeWhile P xs @ dropWhile P xs) = takeWhile P xs"
    unfolding filter_append using assms by (auto simp: filter_empty_conv filter_id_conv dest: set_takeWhileD)
  then show "dropWhile P xs = filter (\<lambda>x. \<not> P x) xs" "takeWhile P xs = filter P xs" by simp_all
qed

lemma timer_check_ticking:
  assumes b: "between_ticks k1" and t: "k_tick k1 = now + 1" and o: "timer_order now (k_timers k1) (k_timer_list k1)"
  defines "key \<equiv> timer_key now (k_timers k1)"
  shows "returns (rt_timer_check env k1) (\<lambda>k'. ticking k' \<and> core_frame k1 k' \<and>
    k_timer_list k' = filter (\<lambda>r. \<not> key r \<le> 1) (k_timer_list k1) \<and>
    woken_all (filter (\<lambda>r. key r \<le> 1) (k_timer_list k1)) k1 k')"
proof (rule returns_mono [OF rt_timer_check_threads [OF b]], elim conjE)
  fix k' assume k': "between_ticks k'" "core_frame k1 k'" "k_timer_list k' = dropWhile (due k1) (k_timer_list k1)"
    "\<forall>r. r \<in> set (k_timer_list k') \<longrightarrow> k_timers k' r = k_timers k1 r"
    "woken_all (takeWhile (due k1) (k_timer_list k1)) k1 k'"
  have "k_timers k1 r \<noteq> None" if "r \<in> set (k_timer_list k1)" for r
    using b that tinvD(3) [of "{}" "k_timers k1" "k_timer_list k1" "k_timer_tmp k1" "k_threads k1" r]
    by (auto simp: between_ticks_def kinvx_def)
  note p = ordered_due_prefix [OF o this t]
  have du: "due k1 r \<longleftrightarrow> key r \<le> 1" if "r \<in> set (k_timer_list k1)" for r
    unfolding key_def by (rule due_key [OF o _ t that]) (use b that in \<open>auto simp: between_ticks_def kinvx_def dest: tinvD(3)\<close>)
  have f: "dropWhile (due k1) (k_timer_list k1) = filter (\<lambda>r. \<not> key r \<le> 1) (k_timer_list k1)"
    "takeWhile (due k1) (k_timer_list k1) = filter (\<lambda>r. key r \<le> 1) (k_timer_list k1)"
    using filter_eq_dropWhile [of "due k1" "k_timer_list k1", OF p(1)] du by (simp_all cong: filter_cong)
  have "timer_order (now + 1) (k_timers k') (k_timer_list k')"
    using p(2) k'(3,4) timer_order_cong [of "k_timer_list k'" "k_timers k'" "k_timers k1" "now + 1"] by simp
  then show "ticking k' \<and> core_frame k1 k' \<and> k_timer_list k' = filter (\<lambda>r. \<not> key r \<le> 1) (k_timer_list k1) \<and>
    woken_all (filter (\<lambda>r. key r \<le> 1) (k_timer_list k1)) k1 k'"
    using k' f t core_frameD(11) [OF k'(2)] by (simp add: ticking_def)
qed

text \<open>
  C19. The tick interrupt: between two ticks the kernel invariant holds, some thread is current and the timer list is
  ordered.  \<^verbatim>\<open>SysTick_Handler\<close> returns and keeps this, advances the 32-bit tick by one, removes from the timer list exactly the
  timers with at most one tick left, and makes their threads runnable with the error \<open>-RT_ETIMEOUT\<close>; every other suspended thread
  (the interrupted one apart, whose time slice is counted) is as before.
\<close>

theorem SysTick_Handler_wakes_due:
  assumes "ticking k"
  shows "returns (SysTick_Handler env k) (\<lambda>k'. ticking k' \<and> k_tick k' = k_tick k + 1 \<and> k_irq_nest k' = k_irq_nest k \<and>
    k_timer_list k' = filter (\<lambda>r. timer_key (k_tick k) (k_timers k) r > 1) (k_timer_list k) \<and>
    (\<forall>t. Thread_timer t \<in> set (k_timer_list k) \<longrightarrow> timer_key (k_tick k) (k_timers k) (Thread_timer t) \<le> 1 \<longrightarrow>
       (\<exists>th. k_threads k' t = Some th \<and> thread_stat th \<noteq> RT_THREAD_SUSPEND \<and> th_error th = - RT_ETIMEOUT)) \<and>
    (\<forall>t th. k_threads k t = Some th \<longrightarrow> thread_stat th = RT_THREAD_SUSPEND \<longrightarrow> k_current k \<noteq> Some t \<longrightarrow>
       \<not> (Thread_timer t \<in> set (k_timer_list k) \<and> timer_key (k_tick k) (k_timers k) (Thread_timer t) \<le> 1) \<longrightarrow>
       k_threads k' t = Some th))"
    (is "returns _ (\<lambda>k'. ?Q k')")
proof -
  let ?k = "rt_interrupt_enter k"
  have i: "between_ticks ?k" "timer_order (k_tick k) (k_timers k) (k_timer_list k)"
    using assms by (simp_all add: ticking_def rt_interrupt_enter_def)
  have "returns (rt_tick_increase env ?k) (\<lambda>k2. ?Q (rt_interrupt_leave k2))"
    unfolding rt_tick_increase_split
  proof (rule returns_bindI [OF tick_slice_between [OF i(1)]], elim conjE)
    fix k1 assume k1: "between_ticks k1" "k_tick k1 = k_tick ?k + 1" "k_timers k1 = k_timers ?k"
      "k_timer_list k1 = k_timer_list ?k" "k_irq_nest k1 = k_irq_nest ?k" 
      "\<forall>t th. k_current ?k \<noteq> Some t \<longrightarrow> k_threads ?k t = Some th \<longrightarrow> thread_stat th = RT_THREAD_SUSPEND \<longrightarrow> k_threads k1 t = Some th"
    have o: "timer_order (k_tick k) (k_timers k1) (k_timer_list k1)" "k_tick k1 = k_tick k + 1"
      using i(2) k1 by (simp_all add: rt_interrupt_enter_def)
    show "returns (rt_timer_check env k1) (\<lambda>k2. ?Q (rt_interrupt_leave k2))"
    proof (rule returns_mono [OF timer_check_ticking [OF k1(1) o(2,1)]], elim conjE)
      fix k2 assume k2: "ticking k2" "core_frame k1 k2"
        "k_timer_list k2 = filter (\<lambda>r. \<not> timer_key (k_tick k) (k_timers k1) r \<le> 1) (k_timer_list k1)"
        "woken_all (filter (\<lambda>r. timer_key (k_tick k) (k_timers k1) r \<le> 1) (k_timer_list k1)) k1 k2"
      have "ticking (rt_interrupt_leave k2)" using k2(1) by (simp add: ticking_def rt_interrupt_leave_def)
      then show "?Q (rt_interrupt_leave k2)"
        using k2(3) k1 o(2) core_frameD(9,11) [OF k2(2)] woken_allD(1,2) [OF k2(4)]
        by (simp add: rt_interrupt_leave_def rt_interrupt_enter_def not_le)
    qed
  qed
  then show ?thesis by (simp add: SysTick_Handler_def)
qed

lemma kinvx_tick [simp]: "kinvx X (k\<lparr>k_tick := n\<rparr>) = kinvx X k"
  by (simp add: kinvx_def)

theorem SysTick_Handler_wakes_due_witness:
  "\<forall>env. returns (SysTick_Handler env (sample_kernel\<lparr>k_tick := 104\<rparr>)) (\<lambda>k'. k_tick k' = 105 \<and> k_timer_list k' = [] \<and>
    (\<exists>th. k_threads k' 3 = Some th \<and> thread_stat th \<noteq> RT_THREAD_SUSPEND \<and> th_error th = - RT_ETIMEOUT))"
proof
  fix env :: env
  let ?k = "sample_kernel\<lparr>k_tick := 104\<rparr>"
  have key: "timer_key 104 sample_timers (Thread_timer 3) = 1" by (simp add: timer_key_def sample_timers_def)
  have "ticking ?k" by (simp add: ticking_def between_ticks_def thread_timers_only_def timer_order_def key)
  from SysTick_Handler_wakes_due [OF this]
  show "returns (SysTick_Handler env ?k) (\<lambda>k'. k_tick k' = 105 \<and> k_timer_list k' = [] \<and>
    (\<exists>th. k_threads k' 3 = Some th \<and> thread_stat th \<noteq> RT_THREAD_SUSPEND \<and> th_error th = - RT_ETIMEOUT))"
    by (rule returns_mono) (simp add: key)
qed

section \<open>Milliseconds\<close>

lemma rt_tick_from_millisecond_pos: "0 \<le> ms \<Longrightarrow> rt_tick_from_millisecond ms = of_int ms"
proof -
  assume "0 \<le> ms"
  moreover have "(1000 * (ms mod 1000) + 999) div 1000 = ms mod 1000" by simp
  ultimately have "rt_tick_from_millisecond ms = of_int (1000 * (ms div 1000) + ms mod 1000)"
    unfolding rt_tick_from_millisecond_def of_int_add by simp
  then show ?thesis by (simp only: mult_div_mod_eq)
qed

text \<open>
  Conversion of times: at 1000 ticks per second a non-negative \<^verbatim>\<open>rt_int32_t\<close> number of milliseconds is that number of
  ticks, without overflow in the intermediate products, and \<^verbatim>\<open>rt_tick_get_millisecond\<close> converts back; a negative
  number gives \<^verbatim>\<open>RT_WAITING_FOREVER\<close> as a tick count, \<^verbatim>\<open>0xffffffff\<close>.
\<close>

theorem rt_tick_millisecond_roundtrip:
  assumes "- (2 ^ 31) \<le> ms" and "ms < 2 ^ 31"
  shows "unat (rt_tick_from_millisecond ms) = (if ms < 0 then 0xffffffff else nat ms) \<and>
    (0 \<le> ms \<longrightarrow> rt_tick_get_millisecond (k\<lparr>k_tick := rt_tick_from_millisecond ms\<rparr>) = of_int ms)"
proof (cases "ms < 0")
  case True
  have "unat (- 1 :: u32) = 0xffffffff" by (simp add: unsigned_minus_1_eq_mask mask_eq_exp_minus_1)
  then show ?thesis using True by (simp add: rt_tick_from_millisecond_def)
next
  case False
  have "unat (of_int ms :: u32) = nat ms"
    using False assms(2) by (simp add: unat_eq_nat_uint uint_word_of_int_eq take_bit_int_eq_self)
  then show ?thesis using False by (simp add: rt_tick_from_millisecond_pos rt_tick_get_millisecond_def)
qed

theorem rt_tick_millisecond_roundtrip_witness:
  "unat (rt_tick_from_millisecond 2147483647) = 2147483647 \<and>
   rt_tick_get_millisecond (sample_kernel\<lparr>k_tick := rt_tick_from_millisecond 2147483647\<rparr>) = 2147483647"
  using rt_tick_millisecond_roundtrip [of 2147483647 sample_kernel] by simp

text \<open>
  A negative delay is not "wait forever": for a running thread \<^verbatim>\<open>rt_thread_mdelay\<close> with a negative number of milliseconds
  stops in the assertion of \<^verbatim>\<open>rt_timer_start\<close> that the time is below half the tick range; with any other
  \<^verbatim>\<open>rt_int32_t\<close> except the largest it returns to the scheduler with the thread asleep for that many ticks.
\<close>

theorem rt_thread_mdelay_cases:
  assumes "kinv k" and "k_current k = Some t" and "k_threads k t = Some th"
    and "thread_stat th = RT_THREAD_RUNNING" and "- (2 ^ 31) \<le> ms" and "ms < 2 ^ 31 - 1"
  shows "if ms < 0 then rt_thread_mdelay ms k = None
    else returns (rt_thread_mdelay ms k) (\<lambda>(r, k'). r = Wait t \<and> kinv k' \<and> sleeping t (k_tick k + of_int ms) k')"
proof (cases "ms < 0")
  case True
  have "rt_thread_sleep (- 1) k = None"
  proof (rule ccontr)
    assume "rt_thread_sleep (- 1) k \<noteq> None"
    then obtain r k1 k2 k3 where k: "rt_thread_suspend t k = Some (r, k1)" "arm_timer t (- 1) k1 = Some k2"
      using assms(2) by (auto simp: rt_thread_sleep_def rt_thread_self_def get_thread_def bind_arm_timer bind_eq_None_conv
          split: prod.splits option.splits if_splits) (auto simp: bind_eq_Some_conv split: if_splits)
    from k(2) show False
      by (auto simp: arm_timer_def rt_timer_control_def rt_timer_start_def mod_timer_def rt_timer_remove_def bind_eq_Some_conv
          split: if_splits)
  qed
  then show ?thesis using True by (simp add: rt_thread_mdelay_def rt_tick_from_millisecond_def)
next
  case False
  have "(of_int ms :: u32) < RT_TICK_MAX_HALF"
    using False assms(6) by (simp add: word_less_def uint_word_of_int_eq take_bit_int_eq_self)
  from rt_thread_sleep_returns [OF assms(1-4) this] show ?thesis
    using False by (simp add: rt_thread_mdelay_def rt_tick_from_millisecond_pos)
qed

theorem rt_thread_mdelay_cases_witness:
  "rt_thread_mdelay (- 1) sample_kernel = None"
proof -
  have "if (- 1 :: int) < 0 then rt_thread_mdelay (- 1) sample_kernel = None
    else returns (rt_thread_mdelay (- 1) sample_kernel) (\<lambda>(r, k'). r = Wait 10 \<and> kinv k' \<and>
      sleeping 10 (k_tick sample_kernel + of_int (- 1)) k')"
    by (rule rt_thread_mdelay_cases [where th = "sample_thread RT_THREAD_RUNNING 10"]) simp_all
  then show ?thesis by simp
qed

end
