(* ===== verification/Ipc.thy ===== *)
theory Ipc
  imports Clock
begin

text \<open>
  The part of \<^verbatim>\<open>ipc.c\<close> that the five kinds of IPC objects share: suspending the current thread on a waiting
  list in FIFO or priority order, resuming the first waiter and resuming all of them.  A waiting time is a
  \<^verbatim>\<open>rt_int32_t\<close>, an integer here: negative is forever, 0 is not at all.
\<close>

section \<open>The operations\<close>

abbreviation RT_IPC_FLAG_FIFO :: u8 where "RT_IPC_FLAG_FIFO \<equiv> 0x00"
abbreviation RT_IPC_FLAG_PRIO :: u8 where "RT_IPC_FLAG_PRIO \<equiv> 0x01"
abbreviation RT_IPC_CMD_RESET :: nat where "RT_IPC_CMD_RESET \<equiv> 0x01"
abbreviation RT_WAITING_FOREVER :: int where "RT_WAITING_FOREVER \<equiv> - 1"
abbreviation RT_WAITING_NO :: int where "RT_WAITING_NO \<equiv> 0"

definition rt_ipc_object_init :: "lhead \<Rightarrow> kernel \<Rightarrow> kernel" where
  "rt_ipc_object_init h k = k\<lparr>k_lists := (k_lists k)(h := [])\<rparr>"

text \<open>The place in a waiting list for a thread of priority \<open>p\<close>: before the first thread of a lower priority.\<close>

fun prio_insert :: "(nat \<rightharpoonup> rt_thread) \<Rightarrow> nat \<Rightarrow> nat \<Rightarrow> nat list \<Rightarrow> nat list option" where
  "prio_insert T p t [] = Some [t]"
| "prio_insert T p t (s # ss) = do {
     sthread \<leftarrow> T s;
     if p < prio sthread then Some (t # s # ss)
     else map_option (Cons s) (prio_insert T p t ss)
   }"

definition rt_ipc_list_suspend :: "lhead \<Rightarrow> nat \<Rightarrow> u8 \<Rightarrow> kernel \<Rightarrow> kernel option" where
  "rt_ipc_list_suspend h t flag k = do {
     (_, k) \<leftarrow> rt_thread_suspend t k;
     if flag = RT_IPC_FLAG_FIFO then Some (tlist_insert_before h t k)
     else if flag = RT_IPC_FLAG_PRIO then do {
       th \<leftarrow> get_thread t k;
       xs \<leftarrow> prio_insert (k_threads k) (prio th) t (k_lists k h);
       Some (k\<lparr>k_lists := (k_lists k)(h := xs)\<rparr>)
     }
     else None
   }"

definition rt_ipc_list_resume :: "lhead \<Rightarrow> kernel \<Rightarrow> kernel option" where
  "rt_ipc_list_resume h k =
     (case k_lists k h of
        [] \<Rightarrow> None
      | t # _ \<Rightarrow> do {
          (_, k) \<leftarrow> rt_thread_resume t k;
          Some k
        })"

partial_function (option) rt_ipc_list_resume_all :: "lhead \<Rightarrow> kernel \<Rightarrow> kernel option" where
  "rt_ipc_list_resume_all h k =
     (case k_lists k h of
        [] \<Rightarrow> Some k
      | t # _ \<Rightarrow>
          Option.bind (mod_thread t (\<lambda>th. th\<lparr>th_error := - RT_ERROR\<rparr>) k) (\<lambda>k.
          Option.bind (rt_thread_resume t k) (\<lambda>(_, k). rt_ipc_list_resume_all h k)))"

definition in_thread_context :: "kernel \<Rightarrow> bool" where
  "in_thread_context k \<longleftrightarrow> k_current k \<noteq> None \<and> k_irq_nest k = 0"

text \<open>
  The blocking part the five kinds have in common: the current thread, with its error cleared, waits on the
  list \<open>h\<close>; with a positive time its timer is started.
\<close>

definition ipc_block :: "lhead \<Rightarrow> nat \<Rightarrow> u8 \<Rightarrow> int \<Rightarrow> kernel \<Rightarrow> kernel option" where
  "ipc_block h t flag time k = do {
     k \<leftarrow> rt_ipc_list_suspend h t flag k;
     if time > 0 then arm_timer t (of_int time) k else Some k
   }"

text \<open>
  The end of a send or a receive of the mailboxes and message queues: resume the first thread of the list \<open>h\<close>,
  if there is one, and schedule.
\<close>

definition ipc_wake :: "lhead \<Rightarrow> kernel \<Rightarrow> kernel option" where
  "ipc_wake h k =
     (if \<not> tlist_isempty h k then do {
        k \<leftarrow> rt_ipc_list_resume h k;
        rt_schedule k
      }
      else Some k)"

text \<open>
  The waiting time that is left when a thread runs again: \<^verbatim>\<open>timeout -= rt_tick_get() - tick_delta\<close> on 32 bits,
  read as a signed number, and not below 0.
\<close>

definition left_timeout :: "int \<Rightarrow> u32 \<Rightarrow> u32 \<Rightarrow> int" where
  "left_timeout timeout tick_delta now =
     (if timeout > 0 then max 0 (sint (of_int timeout - (now - tick_delta))) else timeout)"

section \<open>Waiting\<close>

lemma prio_insert_splits:
  assumes "\<And>s. s \<in> set ss \<Longrightarrow> T s \<noteq> None"
  shows "\<exists>xs ys. ss = xs @ ys \<and> prio_insert T p t ss = Some (xs @ t # ys) \<and>
    (\<forall>x \<in> set xs. prio (the (T x)) \<le> p) \<and> (ys \<noteq> [] \<longrightarrow> p < prio (the (T (hd ys))))"
  using assms
proof (induction ss)
  case Nil
  then show ?case by simp
next
  case (Cons s ss)
  obtain sth where sth: "T s = Some sth" using Cons.prems [of s] by auto
  obtain xs ys where IH: "ss = xs @ ys" "prio_insert T p t ss = Some (xs @ t # ys)"
    "\<forall>x \<in> set xs. prio (the (T x)) \<le> p" "ys \<noteq> [] \<longrightarrow> p < prio (the (T (hd ys)))"
    using Cons by auto
  show ?case
  proof (cases "p < prio sth")
    case True
    then have "s # ss = [] @ (s # ss) \<and> prio_insert T p t (s # ss) = Some ([] @ t # s # ss) \<and>
        (\<forall>x \<in> set []. prio (the (T x)) \<le> p) \<and> (s # ss \<noteq> [] \<longrightarrow> p < prio (the (T (hd (s # ss)))))"
      using sth by simp
    then show ?thesis by blast
  next
    case False
    then have "s # ss = (s # xs) @ ys \<and> prio_insert T p t (s # ss) = Some ((s # xs) @ t # ys) \<and>
        (\<forall>x \<in> set (s # xs). prio (the (T x)) \<le> p) \<and> (ys \<noteq> [] \<longrightarrow> p < prio (the (T (hd ys))))"
      using sth IH by simp
    then show ?thesis by blast
  qed
qed

text \<open>
  \<open>waiting h t th k k'\<close>: in \<open>k'\<close> the running thread \<open>t\<close> of \<open>k\<close> waits on the list \<open>h\<close>, everything else on that
  list in its old order.
\<close>

definition waiting :: "lhead \<Rightarrow> nat \<Rightarrow> rt_thread \<Rightarrow> kernel \<Rightarrow> kernel \<Rightarrow> bool" where
  "waiting h t th k k' \<longleftrightarrow> k_threads k' = (k_threads k)(t \<mapsto> set_stat RT_THREAD_SUSPEND th) \<and>
     k_current k' = k_current k \<and>
     (\<exists>xs ys. k_lists k h = xs @ ys \<and> k_lists k' = (k_lists k)(h := xs @ t # ys)) \<and>
     (\<forall>r. r \<noteq> Thread_timer t \<longrightarrow> k_timers k' r = k_timers k r) \<and> own_timer (k_timers k') t"

text \<open>The place the flag asks for: the end of the list, or behind all threads of the same or a higher priority.\<close>

definition queued :: "u8 \<Rightarrow> lhead \<Rightarrow> nat \<Rightarrow> rt_thread \<Rightarrow> kernel \<Rightarrow> kernel \<Rightarrow> bool" where
  "queued flag h t th k k' \<longleftrightarrow>
     (flag = RT_IPC_FLAG_FIFO \<longrightarrow> k_lists k' h = k_lists k h @ [t]) \<and>
     (flag = RT_IPC_FLAG_PRIO \<longrightarrow> (\<exists>xs ys. k_lists k h = xs @ ys \<and> k_lists k' h = xs @ t # ys \<and>
        (\<forall>x \<in> set xs. prio (the (k_threads k x)) \<le> prio th) \<and>
        (ys \<noteq> [] \<longrightarrow> prio th < prio (the (k_threads k (hd ys))))))"

definition waiters_sorted :: "lhead \<Rightarrow> kernel \<Rightarrow> bool" where
  "waiters_sorted h k \<longleftrightarrow> sorted (map (\<lambda>w. prio (the (k_threads k w))) (k_lists k h))"

lemma queued_sorted:
  assumes q: "queued RT_IPC_FLAG_PRIO h t th k k'" and s: "waiters_sorted h k"
    and T: "\<And>w. w \<in> set (k_lists k h) \<Longrightarrow> k_threads k' w = k_threads k w"
    and t: "prio (the (k_threads k' t)) = prio th"
  shows "waiters_sorted h k'"
proof -
  let ?p = "\<lambda>w. prio (the (k_threads k w))"
  obtain xs ys where xy: "k_lists k h = xs @ ys" "k_lists k' h = xs @ t # ys"
    "\<forall>x \<in> set xs. ?p x \<le> prio th" "ys \<noteq> [] \<longrightarrow> prio th < ?p (hd ys)"
    using q by (auto simp: queued_def)
  have so: "sorted (map ?p xs @ map ?p ys)" using s xy(1) by (simp add: waiters_sorted_def)
  have "prio th \<le> ?p y" if "y \<in> set ys" for y
    using so xy(4) that by (cases ys) (auto simp: sorted_append)
  then have so': "sorted (map ?p xs @ prio th # map ?p ys)" using so xy(3) by (auto simp: sorted_append)
  have "map (\<lambda>w. prio (the (k_threads k' w))) (xs @ t # ys) = map ?p xs @ prio th # map ?p ys"
    using T xy(1) t by simp
  then show ?thesis unfolding waiters_sorted_def xy(2) using so' by (simp only:)
qed

lemma queued_cong: "queued f h t th k k1 \<Longrightarrow> k_lists k2 = k_lists k1 \<Longrightarrow> queued f h t th k k2"
  by (simp add: queued_def)

lemma rt_ipc_list_suspend_kinvx:
  assumes i: "kinvx X k" and t: "k_threads k t = Some th" "t \<notin> X" and s: "thread_stat th = RT_THREAD_RUNNING"
    and h: "wait_head h" and f: "flag = RT_IPC_FLAG_FIFO \<or> flag = RT_IPC_FLAG_PRIO"
  shows "returns (rt_ipc_list_suspend h t flag k) (\<lambda>k'. kinvx X k' \<and> waiting h t th k k' \<and>
    Thread_timer t \<notin> set (k_timer_list k') \<and>
    queued flag h t th k k')"
proof -
  have out: "t \<notin> set (k_lists k g)" for g
    using linv_not_on_list [of X "k_lists k" "k_ready_group k" "k_threads k" t th g] i t s by (simp add: kinvx_def)
  have su: "returns (rt_thread_suspend t k) (\<lambda>(r, k'). r = RT_EOK \<and> kinvx X k' \<and> suspended t th k k')"
    by (rule rt_thread_suspend_kinvx [OF i t]) (use s in simp)
  show ?thesis unfolding rt_ipc_list_suspend_def
  proof (rule returns_bindI [OF su], clarify)
    fix k1 assume k1: "kinvx X k1" and sp: "suspended t th k k1"
    have L1: "k_lists k1 = k_lists k" and T1: "k_threads k1 = (k_threads k)(t \<mapsto> set_stat RT_THREAD_SUSPEND th)"
      using sp out by (simp_all add: suspended_def lists_remove_notin)
    have tl: "Thread_timer t \<notin> set (k_timer_list k1)" using sp by (simp add: suspended_def)
    have lk: "linv X (k_lists k1) (k_ready_group k1) (k_threads k1)" using k1 by (simp add: kinvx_def)
    have en: "kinvx X (k1\<lparr>k_lists := (k_lists k1)(h := xs @ t # ys)\<rparr>) \<and>
        waiting h t th k (k1\<lparr>k_lists := (k_lists k1)(h := xs @ t # ys)\<rparr>)" if xy: "k_lists k1 h = xs @ ys" for xs ys
    proof
      have "linv X ((k_lists k1)(h := xs @ t # ys)) (k_ready_group k1) (k_threads k1)"
        by (rule linv_enqueue [OF lk _ t(2), where th = "set_stat RT_THREAD_SUSPEND th"])
          (use T1 L1 out h xy in \<open>auto simp: member_wait\<close>)
      then show "kinvx X (k1\<lparr>k_lists := (k_lists k1)(h := xs @ t # ys)\<rparr>)" using k1 by (simp add: kinvx_def)
      show "waiting h t th k (k1\<lparr>k_lists := (k_lists k1)(h := xs @ t # ys)\<rparr>)"
        using sp xy unfolding waiting_def by (auto simp: suspended_def L1 T1)
    qed
    have dom: "k_threads k1 u \<noteq> None" if "u \<in> set (k_lists k1 h)" for u
      using linvD(4) [OF lk that] by auto
    obtain xs ys where xy: "k_lists k1 h = xs @ ys"
      "prio_insert (k_threads k1) (prio th) t (k_lists k1 h) = Some (xs @ t # ys)"
      "\<forall>x \<in> set xs. prio (the (k_threads k1 x)) \<le> prio th" "ys \<noteq> [] \<longrightarrow> prio th < prio (the (k_threads k1 (hd ys)))"
      using prio_insert_splits [of "k_lists k1 h" "k_threads k1" "prio th" t, OF dom] by blast
    have ne: "k_threads k1 x = k_threads k x" if "x \<in> set (xs @ ys)" for x
      using that out [of h] T1 xy(1) L1 by auto
    have qp: "queued flag h t th k (k1\<lparr>k_lists := (k_lists k1)(h := xs @ t # ys)\<rparr>)" if "flag = RT_IPC_FLAG_PRIO"
    proof -
      have "\<forall>x \<in> set xs. prio (the (k_threads k x)) \<le> prio th" using xy(3) ne by simp
      moreover have "ys \<noteq> [] \<longrightarrow> prio th < prio (the (k_threads k (hd ys)))" using xy(4) ne [of "hd ys"] by auto
      ultimately show ?thesis using that xy(1) L1 by (auto simp: queued_def)
    qed
    have qf: "queued flag h t th k (tlist_insert_before h t k1)" if "flag = RT_IPC_FLAG_FIFO"
      using that L1 by (simp add: queued_def tlist_insert_before_def lists_insert_before_def)
    have gt: "get_thread t k1 = Some (set_stat RT_THREAD_SUSPEND th)" using T1 by (simp add: get_thread_def)
    show "returns (if flag = RT_IPC_FLAG_FIFO then Some (tlist_insert_before h t k1)
         else if flag = RT_IPC_FLAG_PRIO then do {
           th \<leftarrow> get_thread t k1;
           xs \<leftarrow> prio_insert (k_threads k1) (prio th) t (k_lists k1 h);
           Some (k1\<lparr>k_lists := (k_lists k1)(h := xs)\<rparr>)
         }
         else None) (\<lambda>k'. kinvx X k' \<and> waiting h t th k k' \<and> Thread_timer t \<notin> set (k_timer_list k') \<and>
            queued flag h t th k k')"
      using f en [of "k_lists k1 h" "[]"] en [OF xy(1)] xy(2) tl gt qp qf
      by (auto simp: tlist_insert_before_def lists_insert_before_def)
  qed
qed

lemma waiting_armed:
  assumes "waiting h t th k k1" and "armed t n k1 k'"
  shows "waiting h t th k k'"
proof -
  have a: "k_threads k' = k_threads k1" "k_lists k' = k_lists k1" "k_current k' = k_current k1"
    "\<forall>r. r \<noteq> Thread_timer t \<longrightarrow> k_timers k' r = k_timers k1 r" "own_timer (k_timers k') t"
    using assms(2) by (simp_all add: armed_def)
  show ?thesis using assms(1) unfolding waiting_def a(1-3) by (simp add: a(4,5))
qed

lemma ipc_block_kinvx:
  assumes i: "kinvx X k" and t: "k_threads k t = Some th" "t \<notin> X" and s: "thread_stat th = RT_THREAD_RUNNING"
    and h: "wait_head h" and f: "flag = RT_IPC_FLAG_FIFO \<or> flag = RT_IPC_FLAG_PRIO" and n: "time < 2 ^ 31 - 1"
  shows "returns (ipc_block h t flag time k) (\<lambda>k'. kinvx X k' \<and> waiting h t th k k' \<and>
    (time > 0 \<longleftrightarrow> Thread_timer t \<in> set (k_timer_list k')) \<and>
    queued flag h t th k k')"
  unfolding ipc_block_def
proof (rule returns_bindI [OF rt_ipc_list_suspend_kinvx [OF i t s h f]], elim conjE)
  fix k1 assume k1: "kinvx X k1" "waiting h t th k k1" "Thread_timer t \<notin> set (k_timer_list k1)"
    "queued flag h t th k k1"
  show "returns (if 0 < time then arm_timer t (of_int time) k1 else Some k1) (\<lambda>k'. kinvx X k' \<and> waiting h t th k k' \<and>
    (time > 0 \<longleftrightarrow> Thread_timer t \<in> set (k_timer_list k')) \<and>
    queued flag h t th k k')"
  proof (cases "0 < time")
    case False
    then show ?thesis using k1 by simp
  next
    case True
    have "unat (of_int time :: u32) = nat time"
      using n True by (simp add: unat_eq_nat_uint uint_word_of_int)
    then have "(of_int time :: u32) < RT_TICK_MAX_HALF" using n True by (simp add: word_less_nat_alt)
    then have "returns (arm_timer t (of_int time) k1) (\<lambda>k'. kinvx X k' \<and> armed t (of_int time) k1 k')"
      by (intro arm_timer_kinvx [OF k1(1)]) (use k1(2) in \<open>auto simp: waiting_def\<close>)
    then have "returns (arm_timer t (of_int time) k1) (\<lambda>k'. kinvx X k' \<and> waiting h t th k k' \<and>
       k_lists k' = k_lists k1 \<and> Thread_timer t \<in> set (k_timer_list k'))"
      by (elim returns_mono) (use waiting_armed [OF k1(2)] in \<open>auto simp: armed_def\<close>)
    then show ?thesis using True queued_cong [OF k1(4)] by (auto elim!: returns_mono)
  qed
qed

section \<open>What waiting leaves alone\<close>

definition fields_frame :: "kernel \<Rightarrow> kernel \<Rightarrow> bool" where
  "fields_frame k k' \<longleftrightarrow> k_sems k' = k_sems k \<and> k_mutexes k' = k_mutexes k \<and> k_events k' = k_events k \<and>
     k_mbs k' = k_mbs k \<and> k_mqs k' = k_mqs k \<and> k_objects k' = k_objects k \<and> k_heap k' = k_heap k \<and>
     k_idle_hooks k' = k_idle_hooks k \<and> k_irq_nest k' = k_irq_nest k \<and> k_lock_nest k' = k_lock_nest k \<and>
     k_tick k' = k_tick k \<and> k_devices k' = k_devices k \<and> k_errno k' = k_errno k \<and>
     k_completions k' = k_completions k \<and> k_data_queues k' = k_data_queues k"

lemma core_fields: "core_frame k k' \<Longrightarrow> fields_frame k k'"
  by (simp add: core_frame_def fields_frame_def)

lemma fields_frame_trans: "fields_frame a b \<Longrightarrow> fields_frame b c \<Longrightarrow> fields_frame a c"
  by (simp add: fields_frame_def)

lemma fields_frame_lists [simp]: "fields_frame k (k'\<lparr>k_lists := L\<rparr>) = fields_frame k k'"
  by (simp add: fields_frame_def)

lemma ipc_block_fields:
  assumes "ipc_block h t flag time k = Some k'"
  shows "fields_frame k k'"
proof -
  obtain k2 where s2: "rt_ipc_list_suspend h t flag k = Some k2"
    and k': "(if time > 0 then arm_timer t (of_int time) k2 else Some k2) = Some k'"
    using assms unfolding ipc_block_def by (auto simp: bind_eq_Some_conv)
  obtain r k1 where k1: "rt_thread_suspend t k = Some (r, k1)" and L: "\<exists>L. k2 = k1\<lparr>k_lists := L\<rparr>"
    using s2 unfolding rt_ipc_list_suspend_def
    by (auto simp: bind_eq_Some_conv tlist_insert_before_def split: if_splits)
  have k2: "fields_frame k1 k2" using L by (auto simp: fields_frame_def)
  have "fields_frame k k1" using core_fields [OF framesrD [OF frames_thread_suspend [OF core_frame_refl] k1]] .
  moreover have "fields_frame k2 k'"
  proof (cases "time > 0")
    case True
    then show ?thesis using core_fields [OF framesD [OF frames_arm_timer [OF core_frame_refl]]] k' by simp
  next
    case False
    then show ?thesis using k' by (simp add: fields_frame_def)
  qed
  ultimately show ?thesis using k2 by (blast intro: fields_frame_trans)
qed

text \<open>Blocking ends with a call of the scheduler.\<close>

lemma block_schedule:
  assumes i: "kinv k" and t: "k_threads k t = Some th" and s: "thread_stat th = RT_THREAD_RUNNING"
    and c: "k_current k = Some t" and h: "wait_head h" and f: "flag = RT_IPC_FLAG_FIFO \<or> flag = RT_IPC_FLAG_PRIO"
    and n: "time < 2 ^ 31 - 1"
    and Q: "\<And>k1 k'. kinv k1 \<Longrightarrow> waiting h t th k k1 \<Longrightarrow> (time > 0 \<longleftrightarrow> Thread_timer t \<in> set (k_timer_list k1)) \<Longrightarrow>
      queued flag h t th k k1 \<Longrightarrow> fields_frame k k1 \<Longrightarrow> kinv k' \<Longrightarrow> sched_rel k1 k' \<Longrightarrow> core_frame k1 k' \<Longrightarrow> Q (r, k')"
  shows "returns (Option.bind (ipc_block h t flag time k) (\<lambda>k. Option.bind (rt_schedule k) (\<lambda>k. Some (r, k)))) Q"
proof -
  have "returns (ipc_block h t flag time k) (\<lambda>k1. (kinv k1 \<and> waiting h t th k k1 \<and>
      (time > 0 \<longleftrightarrow> Thread_timer t \<in> set (k_timer_list k1)) \<and> queued flag h t th k k1) \<and> fields_frame k k1)"
    using ipc_block_kinvx [OF i t _ s h f n] ipc_block_fields by (auto simp: returns_def)
  then show ?thesis
  proof (rule returns_bindI, elim conjE)
    fix k1 assume k1: "kinv k1" "waiting h t th k k1" "(time > 0 \<longleftrightarrow> Thread_timer t \<in> set (k_timer_list k1))"
      "queued flag h t th k k1" "fields_frame k k1"
    have cu: "k_current k1 = Some t" using k1(2) c by (simp add: waiting_def)
    have "returns (rt_schedule k1) (\<lambda>k'. (kinv k' \<and> sched_rel k1 k') \<and> core_frame k1 k')"
      by (rule returns_frame [OF schedule_after [OF k1(1) cu]]) (auto intro: frame)
    then show "returns (Option.bind (rt_schedule k1) (\<lambda>k. Some (r, k))) Q"
      by (rule returns_bindI) (use Q [OF k1] in auto)
  qed
qed

text \<open>The running thread clears its error and joins the list \<open>h\<close>; the IPC objects stay as they were.\<close>

lemma block_cleared:
  assumes i: "kinv k" and c: "k_current k = Some t" "k_threads k t = Some th" "thread_stat th = RT_THREAD_RUNNING"
    and h: "wait_head h" and f: "flag = RT_IPC_FLAG_FIFO \<or> flag = RT_IPC_FLAG_PRIO" and n: "timeout < 2 ^ 31 - 1"
  shows "returns (Option.bind (ipc_block h t flag timeout (k\<lparr>k_threads := (k_threads k)(t \<mapsto> th\<lparr>th_error := RT_EOK\<rparr>)\<rparr>))
      (\<lambda>k. Option.bind (rt_schedule k) (\<lambda>k. Some (r, k))))
    (\<lambda>(r', k'). r' = r \<and> kinv k' \<and> fields_frame k k' \<and> t \<in> set (k_lists k' h) \<and>
       (timeout > 0 \<longleftrightarrow> Thread_timer t \<in> set (k_timer_list k')))"
proof -
  let ?th = "th\<lparr>th_error := RT_EOK\<rparr>"
  let ?k = "k\<lparr>k_threads := (k_threads k)(t \<mapsto> ?th)\<rparr>"
  have ss: "same_sched th ?th" by (simp add: same_sched_def thread_stat_def prio_def)
  have k: "kinv ?k" by (rule kinvx_upd_same [OF i c(2) ss])
  show ?thesis
  proof (rule block_schedule [OF k, where th = ?th])
    fix k1 k' assume k1: "waiting h t ?th ?k k1" "(timeout > 0 \<longleftrightarrow> Thread_timer t \<in> set (k_timer_list k1))" "fields_frame ?k k1"
      and k': "kinv k'" "sched_rel k1 k'" "core_frame k1 k'"
    have "fields_frame k k'" using core_fields [OF k'(3)] k1(3) by (simp add: fields_frame_def)
    moreover have "t \<in> set (k_lists k' h)" using k1(1) sched_relD(5) [OF k'(2) h] by (auto simp: waiting_def)
    ultimately show "case (r, k') of (r', k') \<Rightarrow> r' = r \<and> kinv k' \<and> fields_frame k k' \<and> t \<in> set (k_lists k' h) \<and>
       (timeout > 0 \<longleftrightarrow> Thread_timer t \<in> set (k_timer_list k'))"
      using k'(1) k1(2) sched_relD(2) [OF k'(2)] by simp
  qed (use c n ss f h in \<open>auto simp: same_sched_def\<close>)
qed

section \<open>Resuming\<close>

lemma woken_wait:
  assumes "woken t th k k'" and "wait_head h"
  shows "k_lists k' h = removeAll t (k_lists k h)"
proof -
  have "Ready p \<noteq> h" for p using assms(2) by (cases h) simp_all
  then show ?thesis using assms(1)
    by (auto simp: woken_def lists_remove_def lists_insert_before_def split: if_splits)
qed

lemma woken_other: "woken t th k k' \<Longrightarrow> u \<noteq> t \<Longrightarrow> k_threads k' u = k_threads k u"
  by (auto simp: woken_def split: if_splits)

lemma woken_self:
  assumes "woken t th k k'"
  obtains th' where "k_threads k' t = Some th'" and "restat th th'" and "thread_stat th' \<noteq> RT_THREAD_SUSPEND"
  using assms that by (auto simp: woken_def split: if_splits)

lemma frames_ipc_list_resume [frame]: "core_frame k k1 \<Longrightarrow> frames k (rt_ipc_list_resume h k1)"
  unfolding rt_ipc_list_resume_def by (cases "k_lists k1 h") (auto intro!: frame)

lemma rt_ipc_list_resume_kinvx:
  assumes i: "kinvx X k" and h: "wait_head h" "k_lists k h = t # ts"
  shows "returns (rt_ipc_list_resume h k) (\<lambda>k'. kinvx X k' \<and>
    (\<exists>th. k_threads k t = Some th \<and> thread_stat th = RT_THREAD_SUSPEND \<and> woken t th k k') \<and>
    k_lists k' h = ts \<and> (\<forall>g. wait_head g \<longrightarrow> g \<noteq> h \<longrightarrow> k_lists k' g = k_lists k g))"
proof -
  have L: "linv X (k_lists k) (k_ready_group k) (k_threads k)" using i by (simp add: kinvx_def)
  have m: "t \<in> set (k_lists k h)" using h by simp
  obtain th where th: "k_threads k t = Some th" "thread_stat th = RT_THREAD_SUSPEND"
    using linvD(4) [OF L m] h(1) by (auto simp: member_wait)
  have dj: "t \<notin> set (k_lists k g)" if "g \<noteq> h" for g
    using linvD(1) [OF L] m that by (auto simp: lists_wf_def)
  have d: "distinct (t # ts)" using linvD(1) [OF L] h(2) unfolding lists_wf_def by metis
  have e: "rt_ipc_list_resume h k = Option.bind (rt_thread_resume t k) (\<lambda>(_, k). Some k)"
    using h(2) by (simp add: rt_ipc_list_resume_def)
  show ?thesis unfolding e
    by (rule returns_bindI [OF rt_thread_resume_kinvx [OF i th(1) linvD(3) [OF L m] th(2)]])
      (use th h dj d in \<open>auto simp: woken_wait removeAll_id\<close>)
qed

lemma resume_schedule:
  assumes i: "kinv k" and h: "wait_head h" "k_lists k h = t # ts" and c: "k_current k = Some c"
    and Q: "\<And>k1 k' th. kinv k1 \<Longrightarrow> k_threads k t = Some th \<Longrightarrow> thread_stat th = RT_THREAD_SUSPEND \<Longrightarrow> woken t th k k1 \<Longrightarrow>
      k_lists k1 h = ts \<Longrightarrow> (\<And>g. wait_head g \<Longrightarrow> g \<noteq> h \<Longrightarrow> k_lists k1 g = k_lists k g) \<Longrightarrow> core_frame k k1 \<Longrightarrow>
      kinv k' \<Longrightarrow> sched_rel k1 k' \<Longrightarrow> core_frame k1 k' \<Longrightarrow> Q (r, k')"
  shows "returns (Option.bind (rt_ipc_list_resume h k) (\<lambda>k. Option.bind (rt_schedule k) (\<lambda>k. Some (r, k)))) Q"
proof (rule returns_bindI [OF returns_frame [OF rt_ipc_list_resume_kinvx [OF i h] frames_ipc_list_resume [OF core_frame_refl]]],
    elim conjE exE)
  fix k1 th assume k1: "kinv k1" "k_threads k t = Some th" "thread_stat th = RT_THREAD_SUSPEND" "woken t th k k1"
    "k_lists k1 h = ts" "\<forall>g. wait_head g \<longrightarrow> g \<noteq> h \<longrightarrow> k_lists k1 g = k_lists k g" "core_frame k k1"
  have cu: "k_current k1 = Some c" using k1(4) c by (simp add: woken_def)
  have "returns (rt_schedule k1) (\<lambda>k'. (kinv k' \<and> sched_rel k1 k') \<and> core_frame k1 k')"
    by (rule returns_frame [OF schedule_after [OF k1(1) cu]]) (auto intro: frame)
  then show "returns (Option.bind (rt_schedule k1) (\<lambda>k. Some (r, k))) Q"
    by (rule returns_bindI) (use Q [OF k1(1-5) _ k1(7)] k1(6) in auto)
qed

lemma ipc_wake_kinvx:
  assumes i: "kinv k" and h: "wait_head h" and c: "k_current k = Some c"
  shows "returns (ipc_wake h k) (\<lambda>k'. kinv k' \<and> fields_frame k k' \<and> (\<exists>c. k_current k' = Some c) \<and>
    k_lists k' h = tl (k_lists k h) \<and> (\<forall>g. wait_head g \<longrightarrow> g \<noteq> h \<longrightarrow> k_lists k' g = k_lists k g) \<and>
    (\<forall>t ts. k_lists k h = t # ts \<longrightarrow> (\<exists>th. k_threads k' t = Some th \<and> thread_stat th \<noteq> RT_THREAD_SUSPEND)))"
proof (cases "k_lists k h")
  case Nil
  then show ?thesis using i c by (simp add: ipc_wake_def tlist_isempty_def fields_frame_def)
next
  case (Cons t ts)
  let ?Q = "\<lambda>k'. kinv k' \<and> fields_frame k k' \<and> (\<exists>c. k_current k' = Some c) \<and>
    k_lists k' h = ts \<and> (\<forall>g. wait_head g \<longrightarrow> g \<noteq> h \<longrightarrow> k_lists k' g = k_lists k g) \<and>
    (\<exists>th. k_threads k' t = Some th \<and> thread_stat th \<noteq> RT_THREAD_SUSPEND)"
  have "returns (Option.bind (rt_ipc_list_resume h k) (\<lambda>k. Option.bind (rt_schedule k) (\<lambda>k. Some ((), k)))) (\<lambda>(_, k'). ?Q k')"
  proof (rule resume_schedule [OF i h Cons c])
    fix k1 k' th assume k1: "woken t th k k1" "k_lists k1 h = ts" "core_frame k k1"
      "\<And>g. wait_head g \<Longrightarrow> g \<noteq> h \<Longrightarrow> k_lists k1 g = k_lists k g" and k': "kinv k'" "sched_rel k1 k'" "core_frame k1 k'"
    have "fields_frame k k'" using core_fields [OF k1(3)] core_fields [OF k'(3)] by (rule fields_frame_trans)
    moreover have "\<exists>c. k_current k' = Some c" using sched_relD(4) [OF k'(2)] k1(1) c by (auto simp: woken_def)
    moreover obtain th1 where th1: "k_threads k1 t = Some th1" "thread_stat th1 \<noteq> RT_THREAD_SUSPEND"
      using woken_self [OF k1(1)] by metis
    have "\<exists>th. k_threads k' t = Some th \<and> thread_stat th \<noteq> RT_THREAD_SUSPEND"
      by (rule sched_rel_cases [OF k'(2) th1(1)]) (use th1 in auto)
    ultimately show "case ((), k') of (_, k') \<Rightarrow> ?Q k'"
      using k'(1) k1(2,4) h sched_relD(5) [OF k'(2)] by simp
  qed
  then have "returns (ipc_wake h k) ?Q" using Cons by (simp add: ipc_wake_def tlist_isempty_def)
  then show ?thesis by (rule returns_mono) (use Cons in simp)
qed

text \<open>Resuming all waiters empties the list and gives each of them the error code \<open>- RT_ERROR\<close>.\<close>

definition all_resumed :: "lhead \<Rightarrow> kernel \<Rightarrow> kernel \<Rightarrow> bool" where
  "all_resumed h k k' \<longleftrightarrow> k_lists k' h = [] \<and>
     (\<forall>g. wait_head g \<longrightarrow> g \<noteq> h \<longrightarrow> k_lists k' g = k_lists k g) \<and>
     (\<forall>t \<in> set (k_lists k h). \<exists>th. k_threads k' t = Some th \<and> thread_stat th \<noteq> RT_THREAD_SUSPEND \<and> th_error th = - RT_ERROR) \<and>
     (\<forall>t. t \<notin> set (k_lists k h) \<longrightarrow> k_threads k' t = k_threads k t)"

lemma rt_ipc_list_resume_all_kinvx:
  assumes "kinvx X k" and "wait_head h"
  shows "returns (rt_ipc_list_resume_all h k) (\<lambda>k'. kinvx X k' \<and> core_frame k k' \<and> all_resumed h k k' \<and>
    k_current k' = k_current k)"
  using assms
proof (induction "k_lists k h" arbitrary: k)
  case Nil
  have "rt_ipc_list_resume_all h k = Some k"
    by (subst rt_ipc_list_resume_all.simps) (simp flip: Nil.hyps)
  then show ?case using Nil by (simp add: all_resumed_def flip: Nil.hyps)
next
  case (Cons t ts)
  have L: "linv X (k_lists k) (k_ready_group k) (k_threads k)" using Cons.prems(1) by (simp add: kinvx_def)
  have m: "t \<in> set (k_lists k h)" by (simp flip: Cons.hyps(2))
  obtain th where th: "k_threads k t = Some th" "thread_stat th = RT_THREAD_SUSPEND"
    using linvD(4) [OF L m] Cons.prems(2) by (auto simp: member_wait)
  have d: "distinct (t # ts)" using linvD(1) [OF L] Cons.hyps(2) unfolding lists_wf_def by metis
  let ?th = "th\<lparr>th_error := - RT_ERROR\<rparr>"
  let ?k = "k\<lparr>k_threads := (k_threads k)(t \<mapsto> ?th)\<rparr>"
  have ss: "same_sched th ?th" by (simp add: same_sched_def thread_stat_def prio_def)
  have k1: "kinvx X ?k" by (rule kinvx_upd_same [OF Cons.prems(1) th(1) ss])
  have dj: "t \<notin> set (k_lists k g)" if "g \<noteq> h" for g
    using linvD(1) [OF L] m that by (auto simp: lists_wf_def)
  have unf: "rt_ipc_list_resume_all h k =
      Option.bind (rt_thread_resume t ?k) (\<lambda>(_, k). rt_ipc_list_resume_all h k)"
    by (subst rt_ipc_list_resume_all.simps) (simp add: mod_thread_def th flip: Cons.hyps(2))
  have re: "returns (rt_thread_resume t ?k) (\<lambda>(r, k'). r = RT_EOK \<and> kinvx X k' \<and> woken t ?th ?k k')"
    by (rule rt_thread_resume_kinvx [OF k1]) (use th linvD(3) [OF L m] ss in \<open>simp_all add: same_sched_def\<close>)
  have fr: "framesr k (rt_thread_resume t ?k)" by (intro frame core_frame_fields(9))
  show ?case unfolding unf
  proof (rule returns_bindI [OF returns_framer [OF re fr]], clarify)
    fix k2 assume k2: "kinvx X k2" "woken t ?th ?k k2" "core_frame k k2"
    have l2: "ts = k_lists k2 h" using woken_wait [OF k2(2) Cons.prems(2)] d by (simp add: removeAll_id flip: Cons.hyps(2))
    have og: "k_lists k2 g = k_lists k g" if "wait_head g" "g \<noteq> h" for g
      using woken_wait [OF k2(2) that(1)] dj [OF that(2)] by (simp add: removeAll_id)
    obtain th' where th': "k_threads k2 t = Some th'" "restat ?th th'" "thread_stat th' \<noteq> RT_THREAD_SUSPEND"
      by (rule woken_self [OF k2(2)])
    have ot: "k_threads k2 u = k_threads k u" if "u \<noteq> t" for u using woken_other [OF k2(2) that] that by simp
    show "returns (rt_ipc_list_resume_all h k2) (\<lambda>k'. kinvx X k' \<and> core_frame k k' \<and> all_resumed h k k' \<and>
       k_current k' = k_current k)"
    proof (rule returns_mono [OF Cons.hyps(1) [OF l2 k2(1) Cons.prems(2)]], elim conjE, intro conjI)
      fix k' assume k': "kinvx X k'" "core_frame k2 k'" "all_resumed h k2 k'" "k_current k' = k_current k2"
      show "kinvx X k'" by (rule k')
      show "core_frame k k'" by (rule core_frame_trans [OF k2(3) k'(2)])
      show "k_current k' = k_current k" using k'(4) k2(2) by (simp add: woken_def)
      have t': "k_threads k' t = Some th'" using k'(3) th'(1) d unfolding all_resumed_def l2 [symmetric] by simp
      have er: "th_error th' = - RT_ERROR" using restatD(2) [OF th'(2)] by simp
      show "all_resumed h k k'"
        unfolding all_resumed_def Cons.hyps(2) [symmetric]
      proof (intro conjI allI impI ballI)
        note a = k'(3) [unfolded all_resumed_def l2 [symmetric]]
        show "k_lists k' h = []" using a by blast
        show "k_lists k' g = k_lists k g" if "wait_head g" "g \<noteq> h" for g using a og that by metis
        show "\<exists>th. k_threads k' u = Some th \<and> thread_stat th \<noteq> RT_THREAD_SUSPEND \<and> th_error th = - RT_ERROR"
          if "u \<in> set (t # ts)" for u using that t' th'(3) er a by (cases "u = t") auto
        show "k_threads k' u = k_threads k u" if "u \<notin> set (t # ts)" for u using that a ot by simp
      qed
    qed
  qed
qed

end
