(* ===== verification/Semaphore.thy ===== *)
theory Semaphore
  imports Ipc
begin

text \<open>
  The semaphores of \<^verbatim>\<open>ipc.c\<close>.  \<open>sem_inv\<close>: a semaphore with waiters has the value 0, because a release hands
  the unit to the first waiter without storing it.  Taking a semaphore that is not available is split at
  \<^verbatim>\<open>rt_schedule()\<close>: \<open>rt_sem_take_end\<close> is what the thread does when it runs again.
\<close>

section \<open>The operations\<close>

abbreviation RT_SEM_VALUE_MAX :: u16 where "RT_SEM_VALUE_MAX \<equiv> 0xffff"

definition get_sem :: "nat \<Rightarrow> kernel \<Rightarrow> rt_semaphore option" where
  "get_sem s k = do {
     sem \<leftarrow> k_sems k s;
     rt_assert (rt_object_get_type (sem_parent sem) = RT_Object_Class_Semaphore);
     Some sem
   }"

definition mod_sem :: "nat \<Rightarrow> (rt_semaphore \<Rightarrow> rt_semaphore) \<Rightarrow> kernel \<Rightarrow> kernel option" where
  "mod_sem s f k = do {
     sem \<leftarrow> k_sems k s;
     Some (k\<lparr>k_sems := (k_sems k)(s \<mapsto> f sem)\<rparr>)
   }"

definition sem_set :: "u16 \<Rightarrow> u8 \<Rightarrow> rt_semaphore \<Rightarrow> rt_semaphore" where
  "sem_set value flag sem = sem\<lparr>sem_value := value, sem_parent := (sem_parent sem)\<lparr>ob_flag := flag\<rparr>\<rparr>"

definition rt_sem_init :: "nat \<Rightarrow> u8 list \<Rightarrow> u32 \<Rightarrow> u8 \<Rightarrow> kernel \<Rightarrow> (int \<times> kernel) option" where
  "rt_sem_init s name value flag k = do {
     rt_assert (value < 0x10000);
     k \<leftarrow> rt_object_init (OSem s) RT_Object_Class_Semaphore name k;
     k \<leftarrow> Some (rt_ipc_object_init (SemQ s) k);
     k \<leftarrow> mod_sem s (sem_set (ucast value) flag) k;
     Some (RT_EOK, k)
   }"

definition rt_sem_detach :: "nat \<Rightarrow> kernel \<Rightarrow> (int \<times> kernel) option" where
  "rt_sem_detach s k = do {
     sem \<leftarrow> get_sem s k;
     rt_assert (rt_object_is_systemobject (sem_parent sem));
     k \<leftarrow> rt_ipc_list_resume_all (SemQ s) k;
     k \<leftarrow> rt_object_detach (OSem s) k;
     Some (RT_EOK, k)
   }"

definition rt_sem_create :: "u8 list \<Rightarrow> u32 \<Rightarrow> u8 \<Rightarrow> kernel \<Rightarrow> (nat option \<times> kernel) option" where
  "rt_sem_create name value flag k = do {
     rt_assert (k_irq_nest k = 0);
     rt_assert (value < 0x10000);
     (obj, k) \<leftarrow> rt_object_allocate RT_Object_Class_Semaphore name k;
     case obj of
       None \<Rightarrow> Some (None, k)
     | Some ob \<Rightarrow> do {
         k \<leftarrow> Some (rt_ipc_object_init (SemQ (obj_addr ob)) k);
         k \<leftarrow> mod_sem (obj_addr ob) (sem_set (ucast value) flag) k;
         Some (Some (obj_addr ob), k)
       }
   }"

definition rt_sem_delete :: "nat \<Rightarrow> kernel \<Rightarrow> (int \<times> kernel) option" where
  "rt_sem_delete s k = do {
     rt_assert (k_irq_nest k = 0);
     sem \<leftarrow> get_sem s k;
     rt_assert (\<not> rt_object_is_systemobject (sem_parent sem));
     k \<leftarrow> rt_ipc_list_resume_all (SemQ s) k;
     k \<leftarrow> rt_object_delete (OSem s) k;
     Some (RT_EOK, k)
   }"

definition rt_sem_take :: "nat \<Rightarrow> int \<Rightarrow> kernel \<Rightarrow> ((int, nat) outcome \<times> kernel) option" where
  "rt_sem_take s time k = do {
     sem \<leftarrow> get_sem s k;
     if sem_value sem > 0 then do {
       k \<leftarrow> mod_sem s (\<lambda>sem. sem\<lparr>sem_value := sem_value sem - 1\<rparr>) k;
       Some (Done RT_EOK, k)
     }
     else if time = 0 then Some (Done (- RT_ETIMEOUT), k)
     else do {
       rt_assert (in_thread_context k);
       t \<leftarrow> rt_thread_self k;
       k \<leftarrow> mod_thread t (\<lambda>th. th\<lparr>th_error := RT_EOK\<rparr>) k;
       k \<leftarrow> ipc_block (SemQ s) t (ob_flag (sem_parent sem)) time k;
       k \<leftarrow> rt_schedule k;
       Some (Wait t, k)
     }
   }"

definition rt_sem_take_end :: "nat \<Rightarrow> kernel \<Rightarrow> int option" where
  "rt_sem_take_end t k = do {
     th \<leftarrow> get_thread t k;
     Some (if th_error th \<noteq> RT_EOK then th_error th else RT_EOK)
   }"

definition rt_sem_trytake :: "nat \<Rightarrow> kernel \<Rightarrow> ((int, nat) outcome \<times> kernel) option" where
  "rt_sem_trytake s k = rt_sem_take s RT_WAITING_NO k"

definition rt_sem_release :: "nat \<Rightarrow> kernel \<Rightarrow> (int \<times> kernel) option" where
  "rt_sem_release s k = do {
     sem \<leftarrow> get_sem s k;
     if \<not> tlist_isempty (SemQ s) k then do {
       k \<leftarrow> rt_ipc_list_resume (SemQ s) k;
       k \<leftarrow> rt_schedule k;
       Some (RT_EOK, k)
     }
     else if sem_value sem < RT_SEM_VALUE_MAX then do {
       k \<leftarrow> mod_sem s (\<lambda>sem. sem\<lparr>sem_value := sem_value sem + 1\<rparr>) k;
       Some (RT_EOK, k)
     }
     else Some (- RT_EFULL, k)
   }"

definition rt_sem_control :: "nat \<Rightarrow> nat \<Rightarrow> u32 \<Rightarrow> kernel \<Rightarrow> (int \<times> kernel) option" where
  "rt_sem_control s cmd arg k = do {
     sem \<leftarrow> get_sem s k;
     if cmd = RT_IPC_CMD_RESET then do {
       k \<leftarrow> rt_ipc_list_resume_all (SemQ s) k;
       k \<leftarrow> mod_sem s (\<lambda>sem. sem\<lparr>sem_value := ucast arg\<rparr>) k;
       k \<leftarrow> rt_schedule k;
       Some (RT_EOK, k)
     }
     else Some (- RT_ERROR, k)
   }"

section \<open>The invariant\<close>

definition sem_ok :: "rt_semaphore \<Rightarrow> bool" where
  "sem_ok sem \<longleftrightarrow> rt_object_get_type (sem_parent sem) = RT_Object_Class_Semaphore \<and>
     (ob_flag (sem_parent sem) = RT_IPC_FLAG_FIFO \<or> ob_flag (sem_parent sem) = RT_IPC_FLAG_PRIO)"

definition sem_inv :: "nat \<Rightarrow> kernel \<Rightarrow> bool" where
  "sem_inv s k \<longleftrightarrow> (\<exists>sem. k_sems k s = Some sem \<and> sem_ok sem \<and> (k_lists k (SemQ s) \<noteq> [] \<longrightarrow> sem_value sem = 0))"

text \<open>No operation of the scheduler, the timers or the threads breaks it.\<close>

lemma sem_inv_frame:
  assumes "sem_inv s k" and "core_frame k k'"
  shows "sem_inv s k'"
  using assms core_frame_empty [OF assms(2), of "SemQ s"] core_frameD(1) [OF assms(2)]
  by (auto simp: sem_inv_def)

lemma kinvx_sems [simp]: "kinvx X (k\<lparr>k_sems := S\<rparr>) = kinvx X k"
  by (simp add: kinvx_def)

lemma rt_sem_take_available:
  assumes "k_sems k s = Some sem" and "sem_ok sem" and "sem_value sem > 0"
  shows "rt_sem_take s time k =
    Some (Done RT_EOK, k\<lparr>k_sems := (k_sems k)(s \<mapsto> sem\<lparr>sem_value := sem_value sem - 1\<rparr>)\<rparr>)"
  using assms by (simp add: rt_sem_take_def get_sem_def mod_sem_def sem_ok_def)

lemma rt_sem_take_nowait:
  assumes "k_sems k s = Some sem" and "sem_ok sem" and "sem_value sem = 0"
  shows "rt_sem_take s 0 k = Some (Done (- RT_ETIMEOUT), k)"
  using assms by (simp add: rt_sem_take_def get_sem_def sem_ok_def)

lemma rt_sem_take_blocks:
  assumes i: "kinv k" and s: "k_sems k s = Some sem" "sem_ok sem" "sem_value sem = 0"
    and c: "k_current k = Some t" "k_threads k t = Some th" "thread_stat th = RT_THREAD_RUNNING"
    and irq: "k_irq_nest k = 0" and n: "time \<noteq> 0" "time < 2 ^ 31 - 1"
  shows "returns (rt_sem_take s time k) (\<lambda>(r, k'). r = Wait t \<and> kinv k' \<and> sem_inv s k' \<and>
    (\<exists>k1. kinv k1 \<and> waiting (SemQ s) t (th\<lparr>th_error := RT_EOK\<rparr>) (k\<lparr>k_threads := (k_threads k)(t \<mapsto> th\<lparr>th_error := RT_EOK\<rparr>)\<rparr>) k1 \<and>
       (time > 0 \<longleftrightarrow> Thread_timer t \<in> set (k_timer_list k1)) \<and> fields_frame k k1 \<and> sched_rel k1 k') \<and> k_sems k' = k_sems k)"
proof -
  let ?th = "th\<lparr>th_error := RT_EOK\<rparr>"
  let ?k = "k\<lparr>k_threads := (k_threads k)(t \<mapsto> ?th)\<rparr>"
  have ss: "same_sched th ?th" by (simp add: same_sched_def thread_stat_def prio_def)
  have k: "kinv ?k" by (rule kinvx_upd_same [OF i c(2) ss])
  have e: "rt_sem_take s time k = Option.bind (ipc_block (SemQ s) t (ob_flag (sem_parent sem)) time ?k)
      (\<lambda>k. Option.bind (rt_schedule k) (\<lambda>k. Some (Wait t, k)))"
    using s c irq n by (simp add: rt_sem_take_def get_sem_def sem_ok_def in_thread_context_def rt_thread_self_def mod_thread_def)
  show ?thesis unfolding e
  proof (rule block_schedule [OF k, where th = ?th])
    fix k1 k' assume k1: "kinv k1" "waiting (SemQ s) t ?th ?k k1" "(time > 0 \<longleftrightarrow> Thread_timer t \<in> set (k_timer_list k1))"
      "fields_frame ?k k1" and k': "kinv k'" "sched_rel k1 k'" "core_frame k1 k'"
    have f: "fields_frame k k1" using k1(4) by (simp add: fields_frame_def)
    have "sem_inv s k1" using f s by (simp add: sem_inv_def fields_frame_def)
    then show "case (Wait t, k') of (r, k') \<Rightarrow> r = Wait t \<and> kinv k' \<and> sem_inv s k' \<and> (\<exists>k1. kinv k1 \<and>
       waiting (SemQ s) t ?th ?k k1 \<and> (time > 0 \<longleftrightarrow> Thread_timer t \<in> set (k_timer_list k1)) \<and>
       fields_frame k k1 \<and> sched_rel k1 k') \<and> k_sems k' = k_sems k"
      using k1 k' f sem_inv_frame [OF _ k'(3)] core_frameD(1) [OF k'(3)] by (auto simp: fields_frame_def)
  qed (use c s n ss in \<open>auto simp: sem_ok_def same_sched_def\<close>)
qed

lemma rt_sem_release_counts:
  assumes "k_sems k s = Some sem" and "sem_ok sem" and "k_lists k (SemQ s) = []"
  shows "rt_sem_release s k = Some (if sem_value sem < RT_SEM_VALUE_MAX
    then (RT_EOK, k\<lparr>k_sems := (k_sems k)(s \<mapsto> sem\<lparr>sem_value := sem_value sem + 1\<rparr>)\<rparr>) else (- RT_EFULL, k))"
  using assms by (simp add: rt_sem_release_def get_sem_def mod_sem_def sem_ok_def tlist_isempty_def)

lemma rt_sem_release_wakes:
  assumes i: "kinv k" and s: "k_sems k s = Some sem" "sem_ok sem" and w: "k_lists k (SemQ s) = t # ts"
    and v: "sem_value sem = 0" and c: "k_current k = Some c"
  shows "returns (rt_sem_release s k) (\<lambda>(r, k'). r = RT_EOK \<and> kinv k' \<and> sem_inv s k' \<and>
    k_sems k' = k_sems k \<and> k_lists k' (SemQ s) = ts \<and> (\<exists>c. k_current k' = Some c) \<and>
    (\<exists>k1 th. k_threads k t = Some th \<and> woken t th k k1 \<and> sched_rel k1 k'))"
proof -
  have e: "rt_sem_release s k = Option.bind (rt_ipc_list_resume (SemQ s) k) (\<lambda>k.
      Option.bind (rt_schedule k) (\<lambda>k. Some (RT_EOK, k)))"
    using s w by (simp add: rt_sem_release_def get_sem_def sem_ok_def tlist_isempty_def)
  show ?thesis unfolding e
  proof (rule resume_schedule [OF i _ w c])
    fix k1 k' th assume k1: "k_threads k t = Some th" "woken t th k k1" "k_lists k1 (SemQ s) = ts" "core_frame k k1"
      and k': "kinv k'" "sched_rel k1 k'" "core_frame k1 k'"
    have f: "k_sems k' = k_sems k" using core_frameD(1) [OF k1(4)] core_frameD(1) [OF k'(3)] by simp
    have cu: "\<exists>c. k_current k' = Some c" using sched_relD(4) [OF k'(2)] k1(2) c by (auto simp: woken_def)
    show "case (RT_EOK, k') of (r, k') \<Rightarrow> r = RT_EOK \<and> kinv k' \<and> sem_inv s k' \<and> k_sems k' = k_sems k \<and>
       k_lists k' (SemQ s) = ts \<and> (\<exists>c. k_current k' = Some c) \<and>
       (\<exists>k1 th. k_threads k t = Some th \<and> woken t th k k1 \<and> sched_rel k1 k')"
      using k1 k' f cu s v sched_relD(5) [OF k'(2), of "SemQ s"] by (auto simp: sem_inv_def)
  qed simp
qed

lemma rt_sem_control_reset:
  assumes i: "kinv k" and s: "k_sems k s = Some sem" "sem_ok sem" and c: "k_current k = Some c"
  shows "returns (rt_sem_control s RT_IPC_CMD_RESET v k) (\<lambda>(r, k'). r = RT_EOK \<and> kinv k' \<and> sem_inv s k' \<and>
    k_sems k' s = Some (sem\<lparr>sem_value := ucast v\<rparr>) \<and> k_lists k' (SemQ s) = [])"
proof -
  have e: "rt_sem_control s RT_IPC_CMD_RESET v k = Option.bind (rt_ipc_list_resume_all (SemQ s) k) (\<lambda>k.
      Option.bind (mod_sem s (\<lambda>sem. sem\<lparr>sem_value := ucast v\<rparr>) k) (\<lambda>k. Option.bind (rt_schedule k) (\<lambda>k. Some (RT_EOK, k))))"
    using s by (simp add: rt_sem_control_def get_sem_def sem_ok_def)
  show ?thesis unfolding e
  proof (rule returns_bindI [OF rt_ipc_list_resume_all_kinvx [OF i]], simp, elim conjE)
    fix k1 assume k1: "kinv k1" "core_frame k k1" "all_resumed (SemQ s) k k1" "k_current k1 = k_current k"
    let ?k = "k1\<lparr>k_sems := (k_sems k1)(s \<mapsto> sem\<lparr>sem_value := ucast v\<rparr>)\<rparr>"
    have k2: "kinv ?k" "k_current ?k = Some c" using k1 c by simp_all
    have m: "mod_sem s (\<lambda>sem. sem\<lparr>sem_value := ucast v\<rparr>) k1 = Some ?k"
      using s core_frameD(1) [OF k1(2)] by (simp add: mod_sem_def)
    have w: "k_lists k1 (SemQ s) = []" using k1(3) by (simp add: all_resumed_def)
    have si: "sem_inv s ?k" using s w by (simp add: sem_inv_def sem_ok_def)
    have "returns (rt_schedule ?k) (\<lambda>k'. (kinv k' \<and> sched_rel ?k k') \<and> core_frame ?k k')"
      by (rule returns_frame [OF schedule_after [OF k2]]) (auto intro: frame)
    then have "returns (rt_schedule ?k) (\<lambda>k'. kinv k' \<and> sem_inv s k' \<and> k_sems k' s = Some (sem\<lparr>sem_value := ucast v\<rparr>) \<and>
        k_lists k' (SemQ s) = [])"
      by (elim returns_mono) (use sem_inv_frame [OF si] w in \<open>auto dest: core_frameD(1) simp: sched_relD(5)\<close>)
    then show "returns (Option.bind (mod_sem s (\<lambda>sem. sem\<lparr>sem_value := ucast v\<rparr>) k1)
        (\<lambda>k. Option.bind (rt_schedule k) (\<lambda>k. Some (RT_EOK, k)))) (\<lambda>(r, k'). r = RT_EOK \<and> kinv k' \<and> sem_inv s k' \<and>
        k_sems k' s = Some (sem\<lparr>sem_value := ucast v\<rparr>) \<and> k_lists k' (SemQ s) = [])"
      unfolding m by simp
  qed
qed

section \<open>What semaphores promise\<close>

text \<open>
  \<^verbatim>\<open>rt_sem_take\<close> by the running thread, on every branch: an available semaphore is taken by decrementing its value and
  nothing else changes; an unavailable one gives \<open>-RT_ETIMEOUT\<close> and no change with no waiting time; otherwise the
  thread waits on the semaphore, with its timer running exactly if the waiting time is finite.  The kernel
  invariant and "threads wait only while the value is 0" are kept.
\<close>

theorem rt_sem_take_correct:
  assumes i: "kinv k" "sem_inv s k" and s: "k_sems k s = Some sem"
    and c: "k_current k = Some t" "k_threads k t = Some th" "thread_stat th = RT_THREAD_RUNNING"
    and irq: "k_irq_nest k = 0" and n: "time < 2 ^ 31 - 1"
  shows "returns (rt_sem_take s time k) (\<lambda>(r, k'). kinv k' \<and> sem_inv s k' \<and>
    (if sem_value sem > 0 then r = Done RT_EOK \<and> k' = k\<lparr>k_sems := (k_sems k)(s \<mapsto> sem\<lparr>sem_value := sem_value sem - 1\<rparr>)\<rparr>
     else if time = 0 then r = Done (- RT_ETIMEOUT) \<and> k' = k
     else r = Wait t \<and> k_sems k' = k_sems k \<and> t \<in> set (k_lists k' (SemQ s)) \<and>
       (0 < time \<longleftrightarrow> Thread_timer t \<in> set (k_timer_list k'))))"
proof -
  have ok: "sem_ok sem" "k_lists k (SemQ s) \<noteq> [] \<Longrightarrow> sem_value sem = 0" using i(2) s by (auto simp: sem_inv_def)
  consider (free) "sem_value sem > 0" | (no) "sem_value sem = 0" "time = 0" | (wait) "sem_value sem = 0" "time \<noteq> 0"
    using word_neq_0_conv by blast
  then show ?thesis
  proof cases
    case free
    then have "k_lists k (SemQ s) = []" using ok(2) by (metis less_irrefl)
    then show ?thesis using rt_sem_take_available [OF s ok(1) free] free i(1) ok(1) by (simp add: sem_inv_def sem_ok_def)
  next
    case no
    then show ?thesis using rt_sem_take_nowait [OF s ok(1)] i by simp
  next
    case wait
    show ?thesis
    proof (rule returns_mono_pair [OF rt_sem_take_blocks [OF i(1) s ok(1) wait(1) c irq wait(2) n]], elim conjE exE)
      fix r :: "(int, nat) outcome" and k' k1
      let ?th = "th\<lparr>th_error := RT_EOK\<rparr>"
      assume k': "r = Wait t" "kinv k'" "sem_inv s k'" "k_sems k' = k_sems k" and k1: "waiting (SemQ s) t ?th (k\<lparr>k_threads := (k_threads k)(t \<mapsto> ?th)\<rparr>) k1"
        "(0 < time) = (Thread_timer t \<in> set (k_timer_list k1))" "fields_frame k k1" and r: "sched_rel k1 k'"
      have "t \<in> set (k_lists k' (SemQ s))"
        using k1(1) sched_relD(5) [OF r, of "SemQ s"] by (auto simp: waiting_def)
      then show "kinv k' \<and> sem_inv s k' \<and>
        (if sem_value sem > 0 then r = Done RT_EOK \<and> k' = k\<lparr>k_sems := (k_sems k)(s \<mapsto> sem\<lparr>sem_value := sem_value sem - 1\<rparr>)\<rparr>
         else if time = 0 then r = Done (- RT_ETIMEOUT) \<and> k' = k
         else r = Wait t \<and> k_sems k' = k_sems k \<and> t \<in> set (k_lists k' (SemQ s)) \<and>
           (0 < time \<longleftrightarrow> Thread_timer t \<in> set (k_timer_list k')))"
        using k' k1(2) wait sched_relD(2) [OF r] by simp
    qed
  qed
qed

lemma sample_sems [simp]:
  "k_sems sample_kernel 100 = Some \<lparr>sem_parent = sample_object 0x82 0, sem_value = 0\<rparr>"
  "k_sems sample_kernel 101 = Some \<lparr>sem_parent = sample_object 0x82 1, sem_value = 5\<rparr>"
  by (simp_all add: sample_kernel_def)

lemma sample_sem_inv: "sem_inv 100 sample_kernel" "sem_inv 101 sample_kernel"
  by (simp_all add: sem_inv_def sem_ok_def rt_object_get_type_def sample_object_def sample_lists_def)

theorem rt_sem_take_correct_witness:
  "returns (rt_sem_take 100 20 sample_kernel) (\<lambda>(r, k'). kinv k' \<and> sem_inv 100 k' \<and> r = Wait 10 \<and> 10 \<in> set (k_lists k' (SemQ 100)) \<and>
    Thread_timer 10 \<in> set (k_timer_list k'))"
proof -
  have "returns (rt_sem_take 100 20 sample_kernel) (\<lambda>(r, k'). kinv k' \<and> sem_inv 100 k' \<and>
    (if sem_value \<lparr>sem_parent = sample_object 0x82 0, sem_value = 0\<rparr> > 0
     then r = Done RT_EOK \<and> k' = sample_kernel\<lparr>k_sems := (k_sems sample_kernel)(100 \<mapsto> \<lparr>sem_parent = sample_object 0x82 0,
       sem_value = 0\<rparr>\<lparr>sem_value := sem_value \<lparr>sem_parent = sample_object 0x82 0, sem_value = 0\<rparr> - 1\<rparr>)\<rparr>
     else if 20 = (0 :: int) then r = Done (- RT_ETIMEOUT) \<and> k' = sample_kernel
     else r = Wait 10 \<and> k_sems k' = k_sems sample_kernel \<and> 10 \<in> set (k_lists k' (SemQ 100)) \<and>
       (0 < (20 :: int) \<longleftrightarrow> Thread_timer 10 \<in> set (k_timer_list k'))))"
    by (rule rt_sem_take_correct [where th = "sample_thread RT_THREAD_RUNNING 10"]) (simp_all add: sample_sem_inv)
  then show ?thesis by (rule returns_mono_pair) simp
qed

text \<open>
  C27. \<^verbatim>\<open>rt_sem_release\<close> returns the token to exactly one place: with a waiting thread, the first one is made runnable and
  leaves the waiting list while the value stays 0; with none, the value is incremented, or the call gives \<open>-RT_EFULL\<close>
  without a change at the maximum 65535.
\<close>

theorem rt_sem_release_correct:
  assumes "kinv k" and "sem_inv s k" and "k_sems k s = Some sem" and "k_current k = Some c"
  shows "returns (rt_sem_release s k) (\<lambda>(r, k'). kinv k' \<and> sem_inv s k' \<and>
    (case k_lists k (SemQ s) of
       [] \<Rightarrow> if sem_value sem < RT_SEM_VALUE_MAX
             then r = RT_EOK \<and> k' = k\<lparr>k_sems := (k_sems k)(s \<mapsto> sem\<lparr>sem_value := sem_value sem + 1\<rparr>)\<rparr>
             else r = - RT_EFULL \<and> k' = k
     | t # ts \<Rightarrow> r = RT_EOK \<and> k_sems k' = k_sems k \<and> k_lists k' (SemQ s) = ts \<and>
         (\<exists>th. k_threads k' t = Some th \<and> thread_stat th \<noteq> RT_THREAD_SUSPEND)))"
proof -
  have ok: "sem_ok sem" "k_lists k (SemQ s) \<noteq> [] \<Longrightarrow> sem_value sem = 0" using assms(2,3) by (auto simp: sem_inv_def)
  show ?thesis
  proof (cases "k_lists k (SemQ s)")
    case Nil
    then show ?thesis
      using rt_sem_release_counts [OF assms(3) ok(1) Nil] assms(1-3) ok(1) by (simp add: sem_inv_def sem_ok_def)
  next
    case (Cons t ts)
    then have v: "sem_value sem = 0" using ok(2) by simp
    show ?thesis unfolding Cons list.case
    proof (rule returns_mono_pair [OF rt_sem_release_wakes [OF assms(1,3) ok(1) Cons v assms(4)]], elim conjE exE)
      fix r k' c' k1 th assume k': "r = RT_EOK" "kinv k'" "sem_inv s k'" "k_sems k' = k_sems k" "k_lists k' (SemQ s) = ts"
        and w: "woken t th k k1" "sched_rel k1 k'"
      obtain th1 where th1: "k_threads k1 t = Some th1" "thread_stat th1 \<noteq> RT_THREAD_SUSPEND"
        using w(1) by (auto simp: woken_def split: if_splits)
      obtain th' where "k_threads k' t = Some th'" "thread_stat th' = RT_THREAD_SUSPEND \<longleftrightarrow> thread_stat th1 = RT_THREAD_SUSPEND"
        by (rule sched_rel_stat [OF w(2) th1(1)])
      then show "kinv k' \<and> sem_inv s k' \<and> r = RT_EOK \<and> k_sems k' = k_sems k \<and> k_lists k' (SemQ s) = ts \<and>
        (\<exists>th. k_threads k' t = Some th \<and> thread_stat th \<noteq> RT_THREAD_SUSPEND)"
        using k' th1(2) by simp
    qed
  qed
qed

theorem rt_sem_release_correct_witness:
  "returns (rt_sem_release 100 sample_kernel) (\<lambda>(r, k'). kinv k' \<and> sem_inv 100 k' \<and> r = RT_EOK \<and> k_lists k' (SemQ 100) = [] \<and>
    (\<exists>th. k_threads k' 3 = Some th \<and> thread_stat th \<noteq> RT_THREAD_SUSPEND))"
proof -
  have l: "k_lists sample_kernel (SemQ 100) = [3]" by (simp add: sample_lists_def)
  show ?thesis
    using rt_sem_release_correct [OF sample_kinv sample_sem_inv(1) sample_sems(1) sample_kernel_fields(3)]
    unfolding l list.case by (rule returns_mono_pair) simp
qed

end
