(* ===== verification/Mutex.thy ===== *)
theory Mutex
  imports Ipc
begin

text \<open>
  The mutexes of \<^verbatim>\<open>ipc.c\<close>: recursive locks with priority inheritance.  \<open>mutex_inv\<close> relates the fields of
  a mutex, its waiting list and the priorities of its owner and its waiters.
\<close>

section \<open>The operations\<close>

abbreviation RT_MUTEX_VALUE_MAX :: u16 where "RT_MUTEX_VALUE_MAX \<equiv> 0xffff"
abbreviation RT_MUTEX_HOLD_MAX :: u8 where "RT_MUTEX_HOLD_MAX \<equiv> 0xff"

definition get_mutex :: "nat \<Rightarrow> kernel \<Rightarrow> rt_mutex option" where
  "get_mutex m k = do {
     mu \<leftarrow> k_mutexes k m;
     rt_assert (rt_object_get_type (mu_parent mu) = RT_Object_Class_Mutex);
     Some mu
   }"

definition mod_mutex :: "nat \<Rightarrow> (rt_mutex \<Rightarrow> rt_mutex) \<Rightarrow> kernel \<Rightarrow> kernel option" where
  "mod_mutex m f k = do {
     mu \<leftarrow> k_mutexes k m;
     Some (k\<lparr>k_mutexes := (k_mutexes k)(m \<mapsto> f mu)\<rparr>)
   }"

definition mutex_reset :: "rt_mutex \<Rightarrow> rt_mutex" where
  "mutex_reset mu = mu\<lparr>mu_value := 1, mu_owner := None, mu_original_priority := 0xff, mu_hold := 0,
     mu_parent := (mu_parent mu)\<lparr>ob_flag := RT_IPC_FLAG_PRIO\<rparr>\<rparr>"

definition rt_mutex_init :: "nat \<Rightarrow> u8 list \<Rightarrow> u8 \<Rightarrow> kernel \<Rightarrow> (int \<times> kernel) option" where
  "rt_mutex_init m name flag k = do {
     k \<leftarrow> rt_object_init (OMutex m) RT_Object_Class_Mutex name k;
     k \<leftarrow> Some (rt_ipc_object_init (MutexQ m) k);
     k \<leftarrow> mod_mutex m mutex_reset k;
     Some (RT_EOK, k)
   }"

definition rt_mutex_detach :: "nat \<Rightarrow> kernel \<Rightarrow> (int \<times> kernel) option" where
  "rt_mutex_detach m k = do {
     mu \<leftarrow> get_mutex m k;
     rt_assert (rt_object_is_systemobject (mu_parent mu));
     k \<leftarrow> rt_ipc_list_resume_all (MutexQ m) k;
     k \<leftarrow> rt_object_detach (OMutex m) k;
     Some (RT_EOK, k)
   }"

definition rt_mutex_create :: "u8 list \<Rightarrow> u8 \<Rightarrow> kernel \<Rightarrow> (nat option \<times> kernel) option" where
  "rt_mutex_create name flag k = do {
     rt_assert (k_irq_nest k = 0);
     (obj, k) \<leftarrow> rt_object_allocate RT_Object_Class_Mutex name k;
     case obj of
       None \<Rightarrow> Some (None, k)
     | Some ob \<Rightarrow> do {
         k \<leftarrow> Some (rt_ipc_object_init (MutexQ (obj_addr ob)) k);
         k \<leftarrow> mod_mutex (obj_addr ob) mutex_reset k;
         Some (Some (obj_addr ob), k)
       }
   }"

definition rt_mutex_delete :: "nat \<Rightarrow> kernel \<Rightarrow> (int \<times> kernel) option" where
  "rt_mutex_delete m k = do {
     rt_assert (k_irq_nest k = 0);
     mu \<leftarrow> get_mutex m k;
     rt_assert (\<not> rt_object_is_systemobject (mu_parent mu));
     k \<leftarrow> rt_ipc_list_resume_all (MutexQ m) k;
     k \<leftarrow> rt_object_delete (OMutex m) k;
     Some (RT_EOK, k)
   }"

definition rt_mutex_take :: "env \<Rightarrow> nat \<Rightarrow> int \<Rightarrow> kernel \<Rightarrow> ((int, nat) outcome \<times> kernel) option" where
  "rt_mutex_take env m time k = do {
     rt_assert (in_thread_context k);
     mu \<leftarrow> get_mutex m k;
     t \<leftarrow> rt_thread_self k;
     k \<leftarrow> mod_thread t (\<lambda>th. th\<lparr>th_error := RT_EOK\<rparr>) k;
     if mu_owner mu = Some t then
       if mu_hold mu < RT_MUTEX_HOLD_MAX then do {
         k \<leftarrow> mod_mutex m (\<lambda>mu. mu\<lparr>mu_hold := mu_hold mu + 1\<rparr>) k;
         Some (Done RT_EOK, k)
       }
       else Some (Done (- RT_EFULL), k)
     else if mu_value mu > 0 then do {
       th \<leftarrow> get_thread t k;
       k \<leftarrow> mod_mutex m (\<lambda>mu. mu\<lparr>mu_value := mu_value mu - 1, mu_owner := Some t,
              mu_original_priority := th_current_priority th\<rparr>) k;
       if mu_hold mu < RT_MUTEX_HOLD_MAX then do {
         k \<leftarrow> mod_mutex m (\<lambda>mu. mu\<lparr>mu_hold := mu_hold mu + 1\<rparr>) k;
         Some (Done RT_EOK, k)
       }
       else Some (Done (- RT_EFULL), k)
     }
     else if time = 0 then do {
       k \<leftarrow> mod_thread t (\<lambda>th. th\<lparr>th_error := - RT_ETIMEOUT\<rparr>) k;
       Some (Done (- RT_ETIMEOUT), k)
     }
     else do {
       th \<leftarrow> get_thread t k;
       ow \<leftarrow> mu_owner mu;
       oth \<leftarrow> get_thread ow k;
       k \<leftarrow> (if th_current_priority th < th_current_priority oth
            then map_option snd (rt_thread_control env ow RT_THREAD_CTRL_CHANGE_PRIORITY (th_current_priority th) k)
            else Some k);
       k \<leftarrow> ipc_block (MutexQ m) t (ob_flag (mu_parent mu)) time k;
       k \<leftarrow> rt_schedule k;
       Some (Wait t, k)
     }
   }"

definition rt_mutex_take_end :: "nat \<Rightarrow> kernel \<Rightarrow> int option" where
  "rt_mutex_take_end t k = do {
     th \<leftarrow> get_thread t k;
     Some (if th_error th \<noteq> RT_EOK then th_error th else RT_EOK)
   }"

definition rt_mutex_trytake :: "env \<Rightarrow> nat \<Rightarrow> kernel \<Rightarrow> ((int, nat) outcome \<times> kernel) option" where
  "rt_mutex_trytake env m k = rt_mutex_take env m RT_WAITING_NO k"

text \<open>
  The part of \<^verbatim>\<open>rt_mutex_release\<close> that runs when no hold is left: the mutex, \<open>mu\<close>, goes to the first waiter, or
  becomes free.
\<close>

definition rt_mutex_pass :: "nat \<Rightarrow> rt_mutex \<Rightarrow> kernel \<Rightarrow> (int \<times> kernel) option" where
  "rt_mutex_pass m mu k =
     (case k_lists k (MutexQ m) of
        w # _ \<Rightarrow> do {
          wth \<leftarrow> get_thread w k;
          k \<leftarrow> mod_mutex m (\<lambda>mu. mu\<lparr>mu_owner := Some w, mu_original_priority := th_current_priority wth\<rparr>) k;
          if mu_hold mu < RT_MUTEX_HOLD_MAX then do {
            k \<leftarrow> mod_mutex m (\<lambda>mu. mu\<lparr>mu_hold := mu_hold mu + 1\<rparr>) k;
            k \<leftarrow> rt_ipc_list_resume (MutexQ m) k;
            k \<leftarrow> rt_schedule k;
            Some (RT_EOK, k)
          }
          else Some (- RT_EFULL, k)
        }
      | [] \<Rightarrow>
          if mu_value mu < RT_MUTEX_VALUE_MAX then do {
            k \<leftarrow> mod_mutex m (\<lambda>mu. mu\<lparr>mu_value := mu_value mu + 1, mu_owner := None,
                   mu_original_priority := 0xff\<rparr>) k;
            Some (RT_EOK, k)
          }
          else Some (- RT_EFULL, k))"

definition rt_mutex_release :: "env \<Rightarrow> nat \<Rightarrow> kernel \<Rightarrow> (int \<times> kernel) option" where
  "rt_mutex_release env m k = do {
     mu \<leftarrow> get_mutex m k;
     rt_assert (in_thread_context k);
     t \<leftarrow> rt_thread_self k;
     if mu_owner mu \<noteq> Some t then do {
       k \<leftarrow> mod_thread t (\<lambda>th. th\<lparr>th_error := - RT_ERROR\<rparr>) k;
       Some (- RT_ERROR, k)
     }
     else do {
       k \<leftarrow> mod_mutex m (\<lambda>mu. mu\<lparr>mu_hold := mu_hold mu - 1\<rparr>) k;
       if mu_hold mu - 1 = 0 then do {
         oth \<leftarrow> get_thread t k;
         k \<leftarrow> (if mu_original_priority mu \<noteq> th_current_priority oth
              then map_option snd (rt_thread_control env t RT_THREAD_CTRL_CHANGE_PRIORITY (mu_original_priority mu) k)
              else Some k);
         rt_mutex_pass m (mu\<lparr>mu_hold := mu_hold mu - 1\<rparr>) k
       }
       else Some (RT_EOK, k)
     }
   }"

definition rt_mutex_control :: "nat \<Rightarrow> nat \<Rightarrow> kernel \<Rightarrow> (int \<times> kernel) option" where
  "rt_mutex_control m cmd k = do {
     _ \<leftarrow> get_mutex m k;
     Some (- RT_ERROR, k)
   }"

section \<open>The invariant\<close>

text \<open>
  A free mutex has value 1, no hold and no waiter.  A held one has value 0, at least one hold, an owner that
  does not wait for it, waiters in priority order, and \<^emph>\<open>priority inheritance\<close>: no waiter has a higher
  priority (a smaller number) than the owner.
\<close>

definition mutex_ok :: "rt_mutex \<Rightarrow> bool" where
  "mutex_ok mu \<longleftrightarrow> rt_object_get_type (mu_parent mu) = RT_Object_Class_Mutex \<and>
     ob_flag (mu_parent mu) = RT_IPC_FLAG_PRIO"

definition mutex_free :: "nat \<Rightarrow> rt_mutex \<Rightarrow> kernel \<Rightarrow> bool" where
  "mutex_free m mu k \<longleftrightarrow> mu_owner mu = None \<and> mu_value mu = 1 \<and> mu_hold mu = 0 \<and> k_lists k (MutexQ m) = []"

definition inherits :: "nat \<Rightarrow> nat \<Rightarrow> kernel \<Rightarrow> bool" where
  "inherits m ow k \<longleftrightarrow> (\<forall>w \<in> set (k_lists k (MutexQ m)). prio (the (k_threads k ow)) \<le> prio (the (k_threads k w)))"

definition mutex_held :: "nat \<Rightarrow> rt_mutex \<Rightarrow> nat \<Rightarrow> kernel \<Rightarrow> bool" where
  "mutex_held m mu ow k \<longleftrightarrow> mu_owner mu = Some ow \<and> mu_value mu = 0 \<and> mu_hold mu > 0 \<and>
     unat (mu_original_priority mu) < 32 \<and>
     (\<exists>oth. k_threads k ow = Some oth \<and> thread_stat oth \<noteq> RT_THREAD_CLOSE) \<and>
     ow \<notin> set (k_lists k (MutexQ m)) \<and> waiters_sorted (MutexQ m) k \<and> inherits m ow k"

definition mutex_inv :: "nat \<Rightarrow> kernel \<Rightarrow> bool" where
  "mutex_inv m k \<longleftrightarrow> (\<exists>mu. k_mutexes k m = Some mu \<and> mutex_ok mu \<and>
     (mutex_free m mu k \<or> (\<exists>ow. mutex_held m mu ow k)))"

lemma kinvx_mutexes [simp]: "kinvx X (k\<lparr>k_mutexes := S\<rparr>) = kinvx X k"
  by (simp add: kinvx_def)

text \<open>
  \<open>keeps_prio h k k'\<close>: no thread is added to the list \<open>h\<close>, no thread ends and none changes its priority.  The
  scheduler and a timeout are such steps, and they keep the invariant of every mutex.
\<close>

definition keeps_prio :: "lhead \<Rightarrow> kernel \<Rightarrow> kernel \<Rightarrow> bool" where
  "keeps_prio h k k' \<longleftrightarrow> (\<exists>P. k_lists k' h = filter P (k_lists k h)) \<and>
     (\<forall>t th. k_threads k t = Some th \<longrightarrow> (\<exists>th'. k_threads k' t = Some th' \<and> prio th' = prio th \<and>
        (thread_stat th \<noteq> RT_THREAD_CLOSE \<longrightarrow> thread_stat th' \<noteq> RT_THREAD_CLOSE)))"

lemma keeps_prio_prio:
  "keeps_prio h k k' \<Longrightarrow> k_threads k t = Some th \<Longrightarrow> prio (the (k_threads k' t)) = prio (the (k_threads k t))"
  by (fastforce simp: keeps_prio_def)

lemma sched_rel_keeps_prio:
  assumes "sched_rel k k'" and "wait_head h"
  shows "keeps_prio h k k'"
  unfolding keeps_prio_def
proof (intro conjI allI impI)
  show "\<exists>P. k_lists k' h = filter P (k_lists k h)"
    using sched_relD(5) [OF assms] by (auto intro!: exI [of _ "\<lambda>_. True"])
  fix t th assume th: "k_threads k t = Some th"
  from assms(1) th show "\<exists>th'. k_threads k' t = Some th' \<and> prio th' = prio th \<and>
      (thread_stat th \<noteq> RT_THREAD_CLOSE \<longrightarrow> thread_stat th' \<noteq> RT_THREAD_CLOSE)"
    by (cases rule: sched_rel_cases) (auto dest: restatD(10))
qed

lemma waiters_sorted_stable:
  assumes "waiters_sorted h k" and "keeps_prio h k k'" and "\<And>w. w \<in> set (k_lists k h) \<Longrightarrow> k_threads k w \<noteq> None"
  shows "waiters_sorted h k'"
proof -
  obtain P where P: "k_lists k' h = filter P (k_lists k h)" using assms(2) by (auto simp: keeps_prio_def)
  have "prio (the (k_threads k' w)) = prio (the (k_threads k w))" if "w \<in> set (k_lists k h)" for w
    using keeps_prio_prio [OF assms(2)] assms(3) [OF that] by auto
  then have "map (\<lambda>w. prio (the (k_threads k' w))) (filter P (k_lists k h)) =
      map (\<lambda>w. prio (the (k_threads k w))) (filter P (k_lists k h))" by simp
  then show ?thesis using assms(1) unfolding waiters_sorted_def P by (simp only: sorted_filter)
qed

lemma waiter_exists: "kinvx X k \<Longrightarrow> w \<in> set (k_lists k h) \<Longrightarrow> \<exists>th. k_threads k w = Some th"
  using linvD(4) unfolding kinvx_def by blast

lemma mutex_held_stable:
  assumes i: "kinvx X k" and u: "mutex_held m mu ow k" and s: "keeps_prio (MutexQ m) k k'"
  shows "mutex_held m mu ow k'"
proof -
  obtain P where P: "k_lists k' (MutexQ m) = filter P (k_lists k (MutexQ m))" using s by (auto simp: keeps_prio_def)
  obtain oth where oth: "k_threads k ow = Some oth" "thread_stat oth \<noteq> RT_THREAD_CLOSE" using u by (auto simp: mutex_held_def)
  have o': "\<exists>oth'. k_threads k' ow = Some oth' \<and> thread_stat oth' \<noteq> RT_THREAD_CLOSE"
    using s oth unfolding keeps_prio_def by blast
  have p: "prio (the (k_threads k' w)) = prio (the (k_threads k w))" if "w \<in> set (k_lists k (MutexQ m))" for w
    using waiter_exists [OF i that] keeps_prio_prio [OF s] by auto
  have "inherits m ow k'"
    using u p keeps_prio_prio [OF s oth(1)] by (auto simp: inherits_def mutex_held_def P)
  moreover have "waiters_sorted (MutexQ m) k'"
    by (rule waiters_sorted_stable [OF _ s]) (use u waiter_exists [OF i] in \<open>auto simp: mutex_held_def\<close>)
  ultimately show ?thesis using u o' P by (simp add: mutex_held_def)
qed

lemma mutex_inv_stable:
  assumes "kinvx X k" and "mutex_inv m k" and "keeps_prio (MutexQ m) k k'" and "k_mutexes k' = k_mutexes k"
  shows "mutex_inv m k'"
proof -
  have "mutex_free m mu k \<Longrightarrow> mutex_free m mu k'" for mu
    using assms(3) by (auto simp: keeps_prio_def mutex_free_def)
  then show ?thesis using assms(2,4) mutex_held_stable [OF assms(1) _ assms(3)] unfolding mutex_inv_def by metis
qed

section \<open>Taking a mutex\<close>

lemma rt_mutex_take_recursive:
  assumes c: "k_current k = Some t" "k_irq_nest k = 0" "k_threads k t = Some th"
    and m: "k_mutexes k m = Some mu" "mutex_ok mu" "mu_owner mu = Some t"
  shows "rt_mutex_take env m time k = (let k' = k\<lparr>k_threads := (k_threads k)(t \<mapsto> th\<lparr>th_error := RT_EOK\<rparr>)\<rparr> in
    if mu_hold mu < RT_MUTEX_HOLD_MAX
    then Some (Done RT_EOK, k'\<lparr>k_mutexes := (k_mutexes k)(m \<mapsto> mu\<lparr>mu_hold := mu_hold mu + 1\<rparr>)\<rparr>)
    else Some (Done (- RT_EFULL), k'))"
  using assms by (simp add: rt_mutex_take_def get_mutex_def mutex_ok_def in_thread_context_def rt_thread_self_def
      mod_thread_def mod_mutex_def Let_def)

lemma rt_mutex_take_free:
  assumes c: "k_current k = Some t" "k_irq_nest k = 0" "k_threads k t = Some th"
    and m: "k_mutexes k m = Some mu" "mutex_ok mu" "mutex_free m mu k"
  shows "rt_mutex_take env m time k = Some (Done RT_EOK,
    k\<lparr>k_threads := (k_threads k)(t \<mapsto> th\<lparr>th_error := RT_EOK\<rparr>),
      k_mutexes := (k_mutexes k)(m \<mapsto> mu\<lparr>mu_value := 0, mu_owner := Some t,
        mu_original_priority := th_current_priority th, mu_hold := 1\<rparr>)\<rparr>)"
  using assms by (simp add: rt_mutex_take_def get_mutex_def mutex_ok_def mutex_free_def in_thread_context_def
      rt_thread_self_def mod_thread_def mod_mutex_def get_thread_def)

lemma rt_mutex_take_nowait:
  assumes c: "k_current k = Some t" "k_irq_nest k = 0" "k_threads k t = Some th"
    and m: "k_mutexes k m = Some mu" "mutex_ok mu" "mutex_held m mu ow k" "ow \<noteq> t"
  shows "rt_mutex_take env m 0 k = Some (Done (- RT_ETIMEOUT),
    k\<lparr>k_threads := (k_threads k)(t \<mapsto> th\<lparr>th_error := - RT_ETIMEOUT\<rparr>)\<rparr>)"
  using assms by (simp add: rt_mutex_take_def get_mutex_def mutex_ok_def mutex_held_def in_thread_context_def
      rt_thread_self_def mod_thread_def get_thread_def)

text \<open>Waiting: the owner runs at the waiter's priority if that is higher.\<close>

lemma mutex_wait_held:
  assumes i: "kinv k" and u: "mutex_held m mu ow k" "ow \<noteq> t" and t: "k_threads k t = Some th"
    and r: "repri ow q k k1" "q = min (prio (the (k_threads k ow))) (prio th)"
    and w: "waiting (MutexQ m) t th k1 k2" "queued RT_IPC_FLAG_PRIO (MutexQ m) t th k1 k2"
    and n: "t \<notin> set (k_lists k (MutexQ m))"
  shows "mutex_held m mu ow k2"
proof -
  let ?W = "k_lists k (MutexQ m)"
  have L1: "k_lists k1 (MutexQ m) = ?W" using r(1) by (simp add: repri_def)
  obtain oth where T1: "k_threads k1 = (k_threads k)(ow \<mapsto> oth)" "prio oth = q" "thread_stat oth \<noteq> RT_THREAD_CLOSE"
    using r(1) u(1) by (auto simp: repri_def mutex_held_def)
  have T2: "k_threads k2 = (k_threads k1)(t \<mapsto> set_stat RT_THREAD_SUSPEND th)" using w(1) by (simp add: waiting_def)
  have W2: "set (k_lists k2 (MutexQ m)) = insert t (set ?W)" using w(2) L1 by (auto simp: queued_def)
  have ow: "ow \<notin> set ?W" using u by (simp add: mutex_held_def)
  have same: "k_threads k2 w = k_threads k w" if "w \<in> set ?W" for w using that ow n T1 T2 by auto
  have pr: "prio (the (k_threads k2 w)) = prio (the (k_threads k w))" if "w \<in> set ?W" for w using same [OF that] by simp
  have s1: "waiters_sorted (MutexQ m) k1"
  proof -
    have "map (\<lambda>w. prio (the (k_threads k1 w))) ?W = map (\<lambda>w. prio (the (k_threads k w))) ?W" using ow T1 by auto
    then show ?thesis using u(1) unfolding waiters_sorted_def mutex_held_def L1 by (simp only:)
  qed
  have s2: "waiters_sorted (MutexQ m) k2"
    by (rule queued_sorted [OF w(2) s1]) (use T2 n L1 in auto)
  have "inherits m ow k2"
    unfolding inherits_def W2 using u T1 T2 r(2) pr by (auto simp: inherits_def mutex_held_def min_def)
  then show ?thesis using u s2 W2 T1 T2 by (auto simp: mutex_held_def)
qed

text \<open>Taking a mutex that another thread holds.\<close>

lemma mutex_take_waits:
  assumes i: "kinv k" and m: "k_mutexes k m = Some mu" "mutex_ok mu" "mutex_held m mu ow k" "ow \<noteq> t"
    and c: "k_current k = Some t" "k_threads k t = Some th" "thread_stat th = RT_THREAD_RUNNING"
    and irq: "k_irq_nest k = 0" and n: "time \<noteq> 0" "time < 2 ^ 31 - 1"
  shows "returns (rt_mutex_take env m time k) (\<lambda>(r, k'). r = Wait t \<and> kinv k' \<and> mutex_inv m k' \<and>
    k_mutexes k' = k_mutexes k \<and> t \<in> set (k_lists k' (MutexQ m)) \<and>
    (\<exists>oth oth'. k_threads k ow = Some oth \<and> k_threads k' ow = Some oth' \<and> prio oth' = min (prio oth) (prio th)))"
proof -
  let ?th = "th\<lparr>th_error := RT_EOK\<rparr>"
  let ?k = "k\<lparr>k_threads := (k_threads k)(t \<mapsto> ?th)\<rparr>"
  have ss: "same_sched th ?th" by (simp add: same_sched_def thread_stat_def prio_def)
  have k: "kinv ?k" by (rule kinvx_upd_same [OF i c(2) ss])
  have pr: "prio ?th = prio th" "thread_stat ?th = RT_THREAD_RUNNING" using c(3) by (simp_all add: prio_def thread_stat_def)
  obtain oth where oth: "k_threads k ow = Some oth" "thread_stat oth \<noteq> RT_THREAD_CLOSE" using m(3) by (auto simp: mutex_held_def)
  have out: "t \<notin> set (k_lists k h)" for h
    using linv_not_on_list [of "{}" "k_lists k" "k_ready_group k" "k_threads k" t th h] i c by (simp add: kinvx_def)
  have p32: "unat (th_current_priority th) < 32"
    using kinvx_live(1) [OF i c(2)] c(3) by (simp add: live_def prio_def)
  have kp: "keeps_prio (MutexQ m) k ?k"
    using c(2) pr by (auto simp: keeps_prio_def intro!: exI [of _ "\<lambda>_. True"] simp: thread_stat_def)
  have held: "mutex_held m mu ow ?k" by (rule mutex_held_stable [OF i m(3) kp])
  let ?b = "th_current_priority th < th_current_priority oth"
  have b: "(if ?b then unat (th_current_priority th) else prio oth) = min (prio oth) (prio th)"
    by (auto simp: prio_def word_less_nat_alt)
  have e: "rt_mutex_take env m time k = Option.bind
      (if ?b then map_option snd (rt_thread_control env ow RT_THREAD_CTRL_CHANGE_PRIORITY (th_current_priority th) ?k) else Some ?k)
      (\<lambda>k. Option.bind (ipc_block (MutexQ m) t RT_IPC_FLAG_PRIO time k) (\<lambda>k. Option.bind (rt_schedule k) (\<lambda>k. Some (Wait t, k))))"
    using m c irq n oth unfolding rt_mutex_take_def
    by (simp add: get_mutex_def mutex_ok_def mutex_held_def in_thread_context_def rt_thread_self_def mod_thread_def get_thread_def)
  have cp: "returns (if ?b then map_option snd (rt_thread_control env ow RT_THREAD_CTRL_CHANGE_PRIORITY (th_current_priority th) ?k) else Some ?k)
      (\<lambda>k'. (kinv k' \<and> repri ow (min (prio oth) (prio th)) ?k k') \<and> core_frame ?k k')"
    unfolding b [symmetric] by (rule control_priority_kinvx [OF k]) (use oth m p32 in auto)
  show ?thesis unfolding e
  proof (rule returns_bindI [OF cp], elim conjE)
    fix k1 assume k1: "kinv k1" "repri ow (min (prio oth) (prio th)) ?k k1" "core_frame ?k k1"
    have t1: "k_threads k1 t = Some ?th" using k1(2) m(4) by (auto simp: repri_def)
    have c1: "k_current k1 = Some t" using k1(2) c by (simp add: repri_def)
    show "returns (Option.bind (ipc_block (MutexQ m) t RT_IPC_FLAG_PRIO time k1)
        (\<lambda>k. Option.bind (rt_schedule k) (\<lambda>k. Some (Wait t, k)))) (\<lambda>(r, k'). r = Wait t \<and> kinv k' \<and> mutex_inv m k' \<and>
      k_mutexes k' = k_mutexes k \<and> t \<in> set (k_lists k' (MutexQ m)) \<and>
      (\<exists>oth oth'. k_threads k ow = Some oth \<and> k_threads k' ow = Some oth' \<and> prio oth' = min (prio oth) (prio th)))"
    proof (rule block_schedule [OF k1(1) t1])
      fix k2 k' assume k2: "kinv k2" "waiting (MutexQ m) t ?th k1 k2" "queued RT_IPC_FLAG_PRIO (MutexQ m) t ?th k1 k2" "fields_frame k1 k2"
        and k': "kinv k'" "sched_rel k2 k'" "core_frame k2 k'"
      have mu2: "k_mutexes k2 = k_mutexes k" using k2(4) core_frameD(2) [OF k1(3)] by (simp add: fields_frame_def)
      have "mutex_held m mu ow k2"
        by (rule mutex_wait_held [OF k held m(4) _ k1(2) _ k2(2,3)]) (use oth m out pr in auto)
      then have inv2: "mutex_inv m k2" using mu2 m by (auto simp: mutex_inv_def)
      have "mutex_inv m k'"
        by (rule mutex_inv_stable [OF k2(1) inv2 sched_rel_keeps_prio [OF k'(2)]]) (use core_frameD(2) [OF k'(3)] in auto)
      moreover have "t \<in> set (k_lists k' (MutexQ m))" using k2(3) sched_relD(5) [OF k'(2)] by (auto simp: queued_def)
      moreover have "\<exists>o2. k_threads k2 ow = Some o2 \<and> prio o2 = min (prio oth) (prio th)"
        using k1(2) k2(2) m(4) by (auto simp: repri_def waiting_def)
      then have "\<exists>oth'. k_threads k' ow = Some oth' \<and> prio oth' = min (prio oth) (prio th)"
        using sched_relD(9) [OF k'(2)] restatD(10) by metis
      ultimately show "case (Wait t, k') of (r, k') \<Rightarrow> r = Wait t \<and> kinv k' \<and> mutex_inv m k' \<and>
        k_mutexes k' = k_mutexes k \<and> t \<in> set (k_lists k' (MutexQ m)) \<and>
        (\<exists>oth oth'. k_threads k ow = Some oth \<and> k_threads k' ow = Some oth' \<and> prio oth' = min (prio oth) (prio th))"
        using k'(1) mu2 core_frameD(2) [OF k'(3)] oth by simp
    qed (use pr n c1 in auto)
  qed
qed

text \<open>
  C20. Priority inheritance: when the running thread takes a mutex another thread holds, it waits on it, the mutex keeps its
  owner, and the owner's priority becomes the higher of its own and the waiter's; the mutex invariant holds again: the
  waiters are in priority order and the owner has at least the priority of every waiter.
\<close>

theorem rt_mutex_take_blocks:
  assumes i: "kinv k" and m: "k_mutexes k m = Some mu" "mutex_ok mu" "mutex_held m mu ow k" "ow \<noteq> t"
    and c: "k_current k = Some t" "k_threads k t = Some th" "thread_stat th = RT_THREAD_RUNNING"
    and irq: "k_irq_nest k = 0" and n: "time \<noteq> 0" "time < 2 ^ 31 - 1"
  shows "returns (rt_mutex_take env m time k) (\<lambda>(r, k'). r = Wait t \<and> kinv k' \<and> mutex_inv m k' \<and>
    k_mutexes k' = k_mutexes k \<and> t \<in> set (k_lists k' (MutexQ m)) \<and>
    (\<exists>oth oth'. k_threads k ow = Some oth \<and> k_threads k' ow = Some oth' \<and> prio oth' = min (prio oth) (prio th)))"
  by (rule mutex_take_waits [OF assms])

section \<open>Releasing a mutex\<close>

lemma rt_mutex_release_other:
  assumes "k_current k = Some t" "k_irq_nest k = 0" "k_threads k t = Some th"
    and "k_mutexes k m = Some mu" "mutex_ok mu" "mu_owner mu \<noteq> Some t"
  shows "rt_mutex_release env m k = Some (- RT_ERROR, k\<lparr>k_threads := (k_threads k)(t \<mapsto> th\<lparr>th_error := - RT_ERROR\<rparr>)\<rparr>)"
  using assms by (simp add: rt_mutex_release_def get_mutex_def mutex_ok_def in_thread_context_def rt_thread_self_def mod_thread_def)

lemma rt_mutex_release_nested:
  assumes "k_current k = Some t" "k_irq_nest k = 0" "k_threads k t = Some th"
    and "k_mutexes k m = Some mu" "mutex_ok mu" "mu_owner mu = Some t" "mu_hold mu > 1"
  shows "rt_mutex_release env m k = Some (RT_EOK, k\<lparr>k_mutexes := (k_mutexes k)(m \<mapsto> mu\<lparr>mu_hold := mu_hold mu - 1\<rparr>)\<rparr>)"
proof -
  have "mu_hold mu - 1 \<noteq> 0" using assms(7) by auto
  then show ?thesis
    using assms by (simp add: rt_mutex_release_def get_mutex_def mutex_ok_def in_thread_context_def rt_thread_self_def mod_mutex_def)
qed

lemma woken_prio: "woken w wth k k' \<Longrightarrow> k_threads k w = Some wth \<Longrightarrow> prio (the (k_threads k' u)) = prio (the (k_threads k u))"
  by (auto simp: woken_def split: if_splits)

lemma mutex_handover:
  assumes i: "kinv k" and s: "waiters_sorted (MutexQ m) k" "k_lists k (MutexQ m) = w # ws"
    and w: "k_threads k w = Some wth" "woken w wth k k'" "k_lists k' (MutexQ m) = ws"
    and mu: "mu_owner mu = Some w" "mu_value mu = 0" "mu_hold mu = 1" "mu_original_priority mu = th_current_priority wth"
    and st: "thread_stat wth = RT_THREAD_SUSPEND"
  shows "mutex_held m mu w k'"
proof -
  have L: "linv {} (k_lists k) (k_ready_group k) (k_threads k)" using i by (simp add: kinvx_def)
  have d: "distinct (w # ws)" using linvD(1) [OF L] s(2) unfolding lists_wf_def by metis
  have so: "sorted (map (\<lambda>u. prio (the (k_threads k u))) (w # ws))" using s by (simp add: waiters_sorted_def)
  have eq: "map (\<lambda>u. prio (the (k_threads k' u))) ws = map (\<lambda>u. prio (the (k_threads k u))) ws"
    using woken_prio [OF w(2,1)] by simp
  have "waiters_sorted (MutexQ m) k'" using so unfolding waiters_sorted_def w(3) eq by simp
  moreover have "inherits m w k'"
    using so woken_prio [OF w(2,1)] unfolding inherits_def w(3) by simp
  moreover have "unat (th_current_priority wth) < 32"
    using kinvx_live(1) [OF i w(1)] st by (simp add: live_def prio_def)
  moreover have "\<exists>th. k_threads k' w = Some th \<and> thread_stat th \<noteq> RT_THREAD_CLOSE"
    using w(2) by (auto simp: woken_def split: if_splits)
  ultimately show ?thesis using mu d w(3) by (simp add: mutex_held_def)
qed

text \<open>The state in which the owner has given up its last hold and got its original priority back.\<close>

lemma release_restores:
  assumes i: "kinv k" and c: "k_current k = Some t" "k_threads k t = Some th"
    and m: "mutex_held m mu t k"
  shows "returns (if mu_original_priority mu \<noteq> th_current_priority th
      then map_option snd (rt_thread_control env t RT_THREAD_CTRL_CHANGE_PRIORITY (mu_original_priority mu) (k\<lparr>k_mutexes := M\<rparr>))
      else Some (k\<lparr>k_mutexes := M\<rparr>))
    (\<lambda>k1. kinv k1 \<and> repri t (unat (mu_original_priority mu)) k k1 \<and> waiters_sorted (MutexQ m) k1 \<and> k_mutexes k1 = M)"
proof -
  let ?k = "k\<lparr>k_mutexes := M\<rparr>"
  have k: "kinv ?k" "k_threads ?k t = Some th" using i c by simp_all
  have "returns (if mu_original_priority mu \<noteq> th_current_priority th
      then map_option snd (rt_thread_control env t RT_THREAD_CTRL_CHANGE_PRIORITY (mu_original_priority mu) ?k) else Some ?k)
    (\<lambda>k'. (kinv k' \<and> repri t (if mu_original_priority mu \<noteq> th_current_priority th then unat (mu_original_priority mu) else prio th) ?k k') \<and>
       core_frame ?k k')"
    by (rule control_priority_kinvx [OF k]) (use m c in \<open>auto simp: mutex_held_def\<close>)
  then show ?thesis
  proof (rule returns_mono, elim conjE)
    fix k1 assume k1: "kinv k1" "repri t (if mu_original_priority mu \<noteq> th_current_priority th then unat (mu_original_priority mu) else prio th) ?k k1"
      "core_frame ?k k1"
    have q: "(if mu_original_priority mu \<noteq> th_current_priority th then unat (mu_original_priority mu) else prio th) = unat (mu_original_priority mu)"
      by (simp add: prio_def)
    have r: "repri t (unat (mu_original_priority mu)) k k1" using k1(2) unfolding q by (simp add: repri_def)
    then have l: "k_lists k1 (MutexQ m) = k_lists k (MutexQ m)"
      and T: "\<And>w. w \<in> set (k_lists k (MutexQ m)) \<Longrightarrow> k_threads k1 w = k_threads k w"
      using m by (auto simp: repri_def mutex_held_def)
    have "map (\<lambda>w. prio (the (k_threads k1 w))) (k_lists k (MutexQ m)) = map (\<lambda>w. prio (the (k_threads k w))) (k_lists k (MutexQ m))"
      using T by simp
    then have "waiters_sorted (MutexQ m) k1" using m unfolding mutex_held_def waiters_sorted_def l by (simp only:)
    then show "kinv k1 \<and> repri t (unat (mu_original_priority mu)) k k1 \<and> waiters_sorted (MutexQ m) k1 \<and> k_mutexes k1 = M"
      using k1 r core_frameD(2) [OF k1(3)] by simp
  qed
qed

text \<open>Giving up the last hold: the priority is restored, then the mutex is passed on.\<close>

lemma rt_mutex_release_final:
  assumes i: "kinv k" and c: "k_current k = Some t" "k_irq_nest k = 0" "k_threads k t = Some th"
    and m: "k_mutexes k m = Some mu" "mutex_ok mu" "mutex_held m mu t k" "mu_hold mu = 1"
    and Q: "\<And>k1. kinv k1 \<Longrightarrow> repri t (unat (mu_original_priority mu)) k k1 \<Longrightarrow> waiters_sorted (MutexQ m) k1 \<Longrightarrow>
      k_mutexes k1 = (k_mutexes k)(m \<mapsto> mu\<lparr>mu_hold := 0\<rparr>) \<Longrightarrow> returns (rt_mutex_pass m (mu\<lparr>mu_hold := 0\<rparr>) k1) Q"
  shows "returns (rt_mutex_release env m k) Q"
proof -
  let ?k = "k\<lparr>k_mutexes := (k_mutexes k)(m \<mapsto> mu\<lparr>mu_hold := 0\<rparr>)\<rparr>"
  have v: "mu_owner mu = Some t" using m by (simp add: mutex_held_def)
  have e: "rt_mutex_release env m k = Option.bind (if mu_original_priority mu \<noteq> th_current_priority th
      then map_option snd (rt_thread_control env t RT_THREAD_CTRL_CHANGE_PRIORITY (mu_original_priority mu) ?k)
      else Some ?k) (rt_mutex_pass m (mu\<lparr>mu_hold := 0\<rparr>))"
    using m c v unfolding rt_mutex_release_def
    by (simp add: get_mutex_def mutex_ok_def in_thread_context_def rt_thread_self_def mod_mutex_def get_thread_def)
  show ?thesis unfolding e
    by (rule returns_bindI [OF release_restores [OF i c(1,3) m(3)]]) (use Q in blast)
qed

text \<open>
  Releasing the last hold of a mutex nobody waits for makes it free and sets the owner's priority back to the one it had
  when it took the mutex, changing nothing else of the threads.
\<close>

theorem rt_mutex_release_last:
  assumes i: "kinv k" and c: "k_current k = Some t" "k_irq_nest k = 0" "k_threads k t = Some th"
    and m: "k_mutexes k m = Some mu" "mutex_ok mu" "mutex_held m mu t k" "mu_hold mu = 1" "k_lists k (MutexQ m) = []"
  shows "returns (rt_mutex_release env m k) (\<lambda>(r, k'). r = RT_EOK \<and> kinv k' \<and> mutex_inv m k' \<and>
    (\<exists>mu'. k_mutexes k' m = Some mu' \<and> mutex_free m mu' k') \<and> repri t (unat (mu_original_priority mu)) k k')"
proof (rule rt_mutex_release_final [OF i c m(1-4)])
  fix k1 assume k1: "kinv k1" "repri t (unat (mu_original_priority mu)) k k1"
    "k_mutexes k1 = (k_mutexes k)(m \<mapsto> mu\<lparr>mu_hold := 0\<rparr>)"
  let ?mu = "mu\<lparr>mu_hold := 0, mu_value := 1, mu_owner := None, mu_original_priority := 0xff\<rparr>"
  let ?k = "k1\<lparr>k_mutexes := (k_mutexes k1)(m \<mapsto> ?mu)\<rparr>"
  have l: "k_lists k1 (MutexQ m) = []" using k1(2) m(5) by (simp add: repri_def)
  have f: "mutex_free m ?mu ?k" "mutex_ok ?mu" using l m(2) by (simp_all add: mutex_free_def mutex_ok_def)
  then have "mutex_inv m ?k" by (auto simp: mutex_inv_def)
  moreover have "repri t (unat (mu_original_priority mu)) k ?k" using k1(2) by (simp add: repri_def)
  moreover have "rt_mutex_pass m (mu\<lparr>mu_hold := 0\<rparr>) k1 = Some (RT_EOK, ?k)"
    using m(3) k1(3) by (simp add: rt_mutex_pass_def l mod_mutex_def mutex_held_def)
  ultimately show "returns (rt_mutex_pass m (mu\<lparr>mu_hold := 0\<rparr>) k1) (\<lambda>(r, k'). r = RT_EOK \<and> kinv k' \<and> mutex_inv m k' \<and>
    (\<exists>mu'. k_mutexes k' m = Some mu' \<and> mutex_free m mu' k') \<and> repri t (unat (mu_original_priority mu)) k k')"
    using k1(1) f(1) by simp
qed

text \<open>
  C21. Hand-over: releasing the last hold of a mutex with waiters makes the first waiter, which has the highest priority among
  them, its owner with one hold, removes it from the waiting list, and restores the priority of the former owner; the
  mutex is never free in between.
\<close>

theorem rt_mutex_release_hands_over:
  assumes i: "kinv k" and c: "k_current k = Some t" "k_irq_nest k = 0" "k_threads k t = Some th"
    and m: "k_mutexes k m = Some mu" "mutex_ok mu" "mutex_held m mu t k" "mu_hold mu = 1"
    and w: "k_lists k (MutexQ m) = w # ws"
  shows "returns (rt_mutex_release env m k) (\<lambda>(r, k'). r = RT_EOK \<and> kinv k' \<and> mutex_inv m k' \<and>
    (\<exists>mu'. k_mutexes k' m = Some mu' \<and> mutex_held m mu' w k' \<and> mu_hold mu' = 1) \<and>
    k_lists k' (MutexQ m) = ws \<and>
    (\<exists>th'. k_threads k' t = Some th' \<and> prio th' = unat (mu_original_priority mu)))"
proof (rule rt_mutex_release_final [OF i c m])
  fix k1 assume k1: "kinv k1" "repri t (unat (mu_original_priority mu)) k k1" "waiters_sorted (MutexQ m) k1"
    "k_mutexes k1 = (k_mutexes k)(m \<mapsto> mu\<lparr>mu_hold := 0\<rparr>)"
  have l: "k_lists k1 (MutexQ m) = w # ws" and cu: "k_current k1 = Some t"
    using k1(2) w c by (simp_all add: repri_def)
  have tw: "w \<noteq> t" using m(3) w by (auto simp: mutex_held_def)
  have t1: "\<exists>th'. k_threads k1 t = Some th' \<and> prio th' = unat (mu_original_priority mu)"
    using k1(2) by (auto simp: repri_def)
  obtain wth where wth: "k_threads k1 w = Some wth" using waiter_exists [OF k1(1), of w "MutexQ m"] l by auto
  let ?mu = "mu\<lparr>mu_owner := Some w, mu_original_priority := th_current_priority wth, mu_hold := 1\<rparr>"
  let ?k = "k1\<lparr>k_mutexes := (k_mutexes k1)(m \<mapsto> ?mu)\<rparr>"
  have ok: "mutex_ok ?mu" using m(2) by (simp add: mutex_ok_def)
  have kq: "kinv ?k" "k_lists ?k (MutexQ m) = w # ws" "k_current ?k = Some t" "waiters_sorted (MutexQ m) ?k"
    using k1 l cu by (simp_all add: waiters_sorted_def)
  have e: "rt_mutex_pass m (mu\<lparr>mu_hold := 0\<rparr>) k1 = Option.bind (rt_ipc_list_resume (MutexQ m) ?k)
      (\<lambda>k. Option.bind (rt_schedule k) (\<lambda>k. Some (RT_EOK, k)))"
    using k1(4) wth by (simp add: rt_mutex_pass_def l mod_mutex_def get_thread_def)
  show "returns (rt_mutex_pass m (mu\<lparr>mu_hold := 0\<rparr>) k1) (\<lambda>(r, k'). r = RT_EOK \<and> kinv k' \<and> mutex_inv m k' \<and>
    (\<exists>mu'. k_mutexes k' m = Some mu' \<and> mutex_held m mu' w k' \<and> mu_hold mu' = 1) \<and>
    k_lists k' (MutexQ m) = ws \<and>
    (\<exists>th'. k_threads k' t = Some th' \<and> prio th' = unat (mu_original_priority mu)))"
    unfolding e
  proof (rule resume_schedule [OF kq(1) _ kq(2,3)])
    fix k2 k' th2 assume k2: "kinv k2" "k_threads ?k w = Some th2" "thread_stat th2 = RT_THREAD_SUSPEND" "woken w th2 ?k k2"
      "k_lists k2 (MutexQ m) = ws" "core_frame ?k k2" and k': "kinv k'" "sched_rel k2 k'" "core_frame k2 k'"
    have kp: "keeps_prio (MutexQ m) k2 k'" by (rule sched_rel_keeps_prio [OF k'(2)]) simp
    have "mutex_held m ?mu w k2"
      by (rule mutex_handover [OF kq(1,4,2) k2(2,4,5)]) (use k2 wth m(3) in \<open>auto simp: mutex_held_def\<close>)
    then have h: "mutex_held m ?mu w k'" by (rule mutex_held_stable [OF k2(1) _ kp])
    moreover have f: "k_mutexes k' m = Some ?mu" using core_frameD(2) [OF k2(6)] core_frameD(2) [OF k'(3)] by simp
    moreover have "mutex_inv m k'" using h f ok by (auto simp: mutex_inv_def)
    moreover have "k_threads k2 t = k_threads k1 t" using woken_other [OF k2(4)] tw by simp
    then have "\<exists>th'. k_threads k' t = Some th' \<and> prio th' = unat (mu_original_priority mu)"
      using t1 sched_relD(9) [OF k'(2)] restatD(10) by metis
    ultimately show "case (RT_EOK, k') of (r, k') \<Rightarrow> r = RT_EOK \<and> kinv k' \<and> mutex_inv m k' \<and>
      (\<exists>mu'. k_mutexes k' m = Some mu' \<and> mutex_held m mu' w k' \<and> mu_hold mu' = 1) \<and> k_lists k' (MutexQ m) = ws \<and>
      (\<exists>th'. k_threads k' t = Some th' \<and> prio th' = unat (mu_original_priority mu))"
      using k'(1) k2(5) sched_relD(5) [OF k'(2), of "MutexQ m"] by simp
  qed simp
qed

text \<open>
  Recursive locking: the owner of a mutex can take it again, up to 255 holds, without waiting, and the release of that
  hold restores the mutex exactly, the owner's error field being reset; at 255 holds the take gives \<open>-RT_EFULL\<close> and
  leaves the mutex unchanged.
\<close>

theorem rt_mutex_recursive_roundtrip:
  assumes "k_current k = Some t" and "k_irq_nest k = 0" and "k_threads k t = Some th"
    and "k_mutexes k m = Some mu" and "mutex_ok mu" and "mu_owner mu = Some t" and "mu_hold mu > 0"
  shows "let k' = k\<lparr>k_threads := (k_threads k)(t \<mapsto> th\<lparr>th_error := RT_EOK\<rparr>)\<rparr> in
    if mu_hold mu < 255
    then returns (rt_mutex_take env m time k) (\<lambda>(r1, k1). r1 = Done RT_EOK \<and> rt_mutex_release env m k1 = Some (RT_EOK, k'))
    else rt_mutex_take env m time k = Some (Done (- RT_EFULL), k')"
proof -
  let ?k = "k\<lparr>k_threads := (k_threads k)(t \<mapsto> th\<lparr>th_error := RT_EOK\<rparr>)\<rparr>"
  let ?mu = "mu\<lparr>mu_hold := mu_hold mu + 1\<rparr>"
  let ?k1 = "?k\<lparr>k_mutexes := (k_mutexes k)(m \<mapsto> ?mu)\<rparr>"
  note tk = rt_mutex_take_recursive [OF assms(1-6), of env time, unfolded Let_def]
  show ?thesis
  proof (cases "mu_hold mu < 255")
    case True
    have "unat (mu_hold mu + 1) = unat (mu_hold mu) + 1"
      using True by (subst unat_add_lem [THEN iffD1]) (simp_all add: word_less_nat_alt)
    then have "mu_hold mu + 1 > 1" using assms(7) by (simp add: word_less_nat_alt)
    then have "rt_mutex_release env m ?k1 = Some (RT_EOK, ?k1\<lparr>k_mutexes := (k_mutexes ?k1)(m \<mapsto> ?mu\<lparr>mu_hold := mu_hold ?mu - 1\<rparr>)\<rparr>)"
      using assms by (intro rt_mutex_release_nested [where t = t]) (simp_all add: mutex_ok_def)
    also have "?k1\<lparr>k_mutexes := (k_mutexes ?k1)(m \<mapsto> ?mu\<lparr>mu_hold := mu_hold ?mu - 1\<rparr>)\<rparr> = ?k"
      using assms(4) by (simp add: fun_upd_idem)
    finally have rel: "rt_mutex_release env m ?k1 = Some (RT_EOK, ?k)" .
    have "rt_mutex_take env m time k = Some (Done RT_EOK, ?k1)" using tk True by simp
    then show ?thesis unfolding Let_def using True rel by (simp del: fun_upd_apply)
  qed (use tk in simp)
qed

section \<open>The promises on the sample state\<close>

lemma sample_mutexes [simp]:
  "k_mutexes sample_kernel 201 = Some (sample_mutex (Some 10) 10)" "k_mutexes sample_kernel 202 = Some (sample_mutex (Some 8) 20)"
  "mutex_ok (sample_mutex ow p)" "mu_hold (sample_mutex (Some t) p) = 1" "mu_owner (sample_mutex ow p) = ow"
  "mu_original_priority (sample_mutex ow p) = of_nat p"
  by (simp_all add: sample_kernel_def mutex_ok_def rt_object_get_type_def sample_mutex_def sample_object_def)

lemma sample_mutex_held:
  "mutex_held 201 (sample_mutex (Some 10) 10) 10 sample_kernel" "mutex_held 202 (sample_mutex (Some 8) 20) 8 sample_kernel"
  by (simp_all add: mutex_held_def sample_mutex_def sample_lists_def waiters_sorted_def inherits_def)

theorem rt_mutex_take_blocks_witness:
  "\<forall>env. returns (rt_mutex_take env 202 RT_WAITING_FOREVER sample_kernel) (\<lambda>(r, k'). r = Wait 10 \<and> kinv k' \<and> mutex_inv 202 k' \<and>
    (\<exists>oth'. k_threads k' 8 = Some oth' \<and> prio oth' = 10))"
proof
  fix env
  have "returns (rt_mutex_take env 202 RT_WAITING_FOREVER sample_kernel) (\<lambda>(r, k'). r = Wait 10 \<and> kinv k' \<and> mutex_inv 202 k' \<and>
    k_mutexes k' = k_mutexes sample_kernel \<and> 10 \<in> set (k_lists k' (MutexQ 202)) \<and>
    (\<exists>oth oth'. k_threads sample_kernel 8 = Some oth \<and> k_threads k' 8 = Some oth' \<and>
       prio oth' = min (prio oth) (prio (sample_thread RT_THREAD_RUNNING 10))))"
    by (rule rt_mutex_take_blocks [OF sample_kinv sample_mutexes(2,3) sample_mutex_held(2)]) simp_all
  then show "returns (rt_mutex_take env 202 RT_WAITING_FOREVER sample_kernel) (\<lambda>(r, k'). r = Wait 10 \<and> kinv k' \<and> mutex_inv 202 k' \<and>
    (\<exists>oth'. k_threads k' 8 = Some oth' \<and> prio oth' = 10))"
    by (rule returns_mono_pair) auto
qed

theorem rt_mutex_release_last_witness:
  "\<forall>env. returns (rt_mutex_release env 202 (sample_kernel\<lparr>k_mutexes := (k_mutexes sample_kernel)(202 \<mapsto> sample_mutex (Some 10) 20)\<rparr>))
    (\<lambda>(r, k'). r = RT_EOK \<and> kinv k' \<and> (\<exists>th'. k_threads k' 10 = Some th' \<and> prio th' = 20))"
proof
  fix env
  let ?k = "sample_kernel\<lparr>k_mutexes := (k_mutexes sample_kernel)(202 \<mapsto> sample_mutex (Some 10) 20)\<rparr>"
  have "mutex_held 202 (sample_mutex (Some 10) 20) 10 ?k"
    by (simp add: mutex_held_def sample_mutex_def sample_lists_def waiters_sorted_def inherits_def)
  then have "returns (rt_mutex_release env 202 ?k) (\<lambda>(r, k'). r = RT_EOK \<and> kinv k' \<and> mutex_inv 202 k' \<and>
    (\<exists>mu'. k_mutexes k' 202 = Some mu' \<and> mutex_free 202 mu' k') \<and>
    repri 10 (unat (mu_original_priority (sample_mutex (Some 10) 20))) ?k k')"
    by (intro rt_mutex_release_last [where th = "sample_thread RT_THREAD_RUNNING 10"]) (simp_all add: kinvx_def [of _ "?k"] sample_lists_def)
  then show "returns (rt_mutex_release env 202 ?k)
    (\<lambda>(r, k'). r = RT_EOK \<and> kinv k' \<and> (\<exists>th'. k_threads k' 10 = Some th' \<and> prio th' = 20))"
    by (rule returns_mono_pair) (auto simp: repri_def)
qed

theorem rt_mutex_release_hands_over_witness:
  "\<forall>env. returns (rt_mutex_release env 201 sample_kernel) (\<lambda>(r, k'). r = RT_EOK \<and> kinv k' \<and>
    (\<exists>mu'. k_mutexes k' 201 = Some mu' \<and> mutex_held 201 mu' 4 k'))"
proof
  fix env
  have "returns (rt_mutex_release env 201 sample_kernel) (\<lambda>(r, k'). r = RT_EOK \<and> kinv k' \<and> mutex_inv 201 k' \<and>
    (\<exists>mu'. k_mutexes k' 201 = Some mu' \<and> mutex_held 201 mu' 4 k' \<and> mu_hold mu' = 1) \<and> k_lists k' (MutexQ 201) = [] \<and>
    (\<exists>th'. k_threads k' 10 = Some th' \<and> prio th' = unat (mu_original_priority (sample_mutex (Some 10) 10))))"
    by (rule rt_mutex_release_hands_over [where th = "sample_thread RT_THREAD_RUNNING 10", OF _ _ _ _ sample_mutexes(1,3) sample_mutex_held(1)])
      (simp_all add: sample_lists_def)
  then show "returns (rt_mutex_release env 201 sample_kernel) (\<lambda>(r, k'). r = RT_EOK \<and> kinv k' \<and>
    (\<exists>mu'. k_mutexes k' 201 = Some mu' \<and> mutex_held 201 mu' 4 k'))"
    by (rule returns_mono_pair) auto
qed

theorem rt_mutex_recursive_roundtrip_witness:
  "\<forall>env. returns (rt_mutex_take env 201 0 sample_kernel) (\<lambda>(r1, k1). r1 = Done RT_EOK \<and>
     rt_mutex_release env 201 k1 = Some (RT_EOK, sample_kernel\<lparr>k_threads := sample_threads(10 \<mapsto> sample_thread RT_THREAD_RUNNING 10\<lparr>th_error := RT_EOK\<rparr>)\<rparr>))"
  using rt_mutex_recursive_roundtrip [of sample_kernel 10 "sample_thread RT_THREAD_RUNNING 10" 201 "sample_mutex (Some 10) 10" _ 0]
  by simp

end
