(* ===== verification/Fifo.thy ===== *)
theory Fifo
  imports Prelude
begin

text \<open>
  The interface of a bounded first-in first-out queue.  Three components of the program implement it: the
  ring of a mailbox, the linked lists of a message queue and the byte ring buffer of the device drivers.
  \<open>put\<close> and \<open>get\<close> fail, with \<open>None\<close>, exactly on a full and on an empty queue.  The lemmas of the locale are
  about arbitrary sequences of operations; \<open>urgent_fifo\<close> adds the insertion at the front.
\<close>

datatype 'a qop = Put 'a | Get | Urgent 'a

text \<open>The abstract queue: the outputs of a sequence of operations and what remains.\<close>

fun queue_spec :: "nat \<Rightarrow> 'a qop list \<Rightarrow> 'a list \<Rightarrow> 'a list \<times> 'a list" where
  "queue_spec n [] q = ([], q)"
| "queue_spec n (Put x # ops) q = queue_spec n ops (if length q < n then q @ [x] else q)"
| "queue_spec n (Urgent x # ops) q = queue_spec n ops (if length q < n then x # q else q)"
| "queue_spec n (Get # ops) q =
     (case q of
        [] \<Rightarrow> queue_spec n ops []
      | x # q \<Rightarrow> (x # fst (queue_spec n ops q), snd (queue_spec n ops q)))"

locale bounded_fifo =
  fixes ok :: "'s \<Rightarrow> bool"
    and contents :: "'s \<Rightarrow> 'a list"
    and cap :: "'s \<Rightarrow> nat"
    and valid :: "'s \<Rightarrow> 'a \<Rightarrow> bool"
    and put :: "'a \<Rightarrow> 's \<Rightarrow> 's option"
    and get :: "'s \<Rightarrow> ('a \<times> 's) option"
  assumes bound: "ok s \<Longrightarrow> length (contents s) \<le> cap s"
    and put_full: "ok s \<Longrightarrow> length (contents s) = cap s \<Longrightarrow> put x s = None"
    and put_room: "ok s \<Longrightarrow> valid s x \<Longrightarrow> length (contents s) < cap s \<Longrightarrow>
      \<exists>s'. put x s = Some s' \<and> ok s' \<and> contents s' = contents s @ [x] \<and> cap s' = cap s \<and> valid s' = valid s"
    and get_empty: "ok s \<Longrightarrow> contents s = [] \<Longrightarrow> get s = None"
    and get_first: "ok s \<Longrightarrow> contents s = x # xs \<Longrightarrow>
      \<exists>s'. get s = Some (x, s') \<and> ok s' \<and> contents s' = xs \<and> cap s' = cap s \<and> valid s' = valid s"
begin

text \<open>Refused operations leave the state alone, as the callers of the C functions see it.\<close>

fun run :: "'a qop list \<Rightarrow> 's \<Rightarrow> 'a list \<times> 's" where
  "run [] s = ([], s)"
| "run (Put x # ops) s = run ops (case put x s of None \<Rightarrow> s | Some s' \<Rightarrow> s')"
| "run (Urgent x # ops) s = run ops s"
| "run (Get # ops) s =
     (case get s of
        None \<Rightarrow> run ops s
      | Some (x, s') \<Rightarrow> (x # fst (run ops s'), snd (run ops s')))"

lemma put_get_cases:
  assumes "ok s"
  shows "valid s x \<Longrightarrow> put x s = None \<longleftrightarrow> length (contents s) = cap s"
    and "get s = None \<longleftrightarrow> contents s = []"
proof -
  show "put x s = None \<longleftrightarrow> length (contents s) = cap s" if "valid s x"
    using put_full [OF assms, of x] put_room [OF assms that] bound [OF assms] by fastforce
  show "get s = None \<longleftrightarrow> contents s = []"
    using get_empty [OF assms] get_first [OF assms] by (cases "contents s") fastforce+
qed

lemma put_step:
  assumes "ok s" and "valid s x"
  defines "s' \<equiv> case put x s of None \<Rightarrow> s | Some s' \<Rightarrow> s'"
  shows "ok s' \<and> cap s' = cap s \<and> valid s' = valid s \<and>
    contents s' = (if length (contents s) < cap s then contents s @ [x] else contents s)"
proof (cases "length (contents s) < cap s")
  case True
  then show ?thesis using put_room [OF assms(1,2) True] by (auto simp: s'_def)
next
  case False
  then show ?thesis using put_full [OF assms(1)] bound [OF assms(1)] assms(1) by (simp add: s'_def)
qed

text \<open>Every sequence of operations gives the outputs of the abstract queue and represents its state.\<close>

lemma run_refines:
  assumes "ok s" and "\<And>x. Put x \<in> set ops \<Longrightarrow> valid s x" and "\<And>x. Urgent x \<notin> set ops"
  shows "ok (snd (run ops s)) \<and> queue_spec (cap s) ops (contents s) = (fst (run ops s), contents (snd (run ops s)))"
  using assms
proof (induction ops arbitrary: s)
  case (Cons p ops)
  show ?case
  proof (cases p)
    case (Put x)
    then show ?thesis using put_step [of s x] Cons.IH [of "case put x s of None \<Rightarrow> s | Some s' \<Rightarrow> s'"] Cons.prems by simp
  next
    case Get
    show ?thesis
    proof (cases "contents s")
      case Nil
      then show ?thesis using Cons.IH [OF Cons.prems(1)] Cons.prems(2,3) Get get_empty [OF Cons.prems(1)] by simp
    next
      case c: (Cons x xs)
      obtain s' where s': "get s = Some (x, s')" "ok s'" "contents s' = xs" "cap s' = cap s" "valid s' = valid s"
        using get_first [OF Cons.prems(1) c] by blast
      then show ?thesis using Cons.IH [OF s'(2)] Cons.prems(2,3) Get c by simp
    qed
  next
    case (Urgent x)
    then show ?thesis using Cons.prems(3) [of x] by simp
  qed
qed simp

end

text \<open>With the insertion at the front.\<close>

locale urgent_fifo = bounded_fifo ok contents cap valid put get
  for ok :: "'s \<Rightarrow> bool" and contents :: "'s \<Rightarrow> 'a list" and cap :: "'s \<Rightarrow> nat" and valid :: "'s \<Rightarrow> 'a \<Rightarrow> bool"
    and put :: "'a \<Rightarrow> 's \<Rightarrow> 's option" and get :: "'s \<Rightarrow> ('a \<times> 's) option" +
  fixes urgent :: "'a \<Rightarrow> 's \<Rightarrow> 's option"
  assumes urgent_full: "ok s \<Longrightarrow> length (contents s) = cap s \<Longrightarrow> urgent x s = None"
    and urgent_room: "ok s \<Longrightarrow> valid s x \<Longrightarrow> length (contents s) < cap s \<Longrightarrow>
      \<exists>s'. urgent x s = Some s' \<and> ok s' \<and> contents s' = x # contents s \<and> cap s' = cap s \<and> valid s' = valid s"
begin

fun urun :: "'a qop list \<Rightarrow> 's \<Rightarrow> 'a list \<times> 's" where
  "urun [] s = ([], s)"
| "urun (Put x # ops) s = urun ops (case put x s of None \<Rightarrow> s | Some s' \<Rightarrow> s')"
| "urun (Urgent x # ops) s = urun ops (case urgent x s of None \<Rightarrow> s | Some s' \<Rightarrow> s')"
| "urun (Get # ops) s =
     (case get s of
        None \<Rightarrow> urun ops s
      | Some (x, s') \<Rightarrow> (x # fst (urun ops s'), snd (urun ops s')))"

lemma urgent_step:
  assumes "ok s" and "valid s x"
  defines "s' \<equiv> case urgent x s of None \<Rightarrow> s | Some s' \<Rightarrow> s'"
  shows "ok s' \<and> cap s' = cap s \<and> valid s' = valid s \<and>
    contents s' = (if length (contents s) < cap s then x # contents s else contents s)"
proof (cases "length (contents s) < cap s")
  case True
  then show ?thesis using urgent_room [OF assms(1,2) True] by (auto simp: s'_def)
next
  case False
  then show ?thesis using urgent_full [OF assms(1)] bound [OF assms(1)] assms(1) by (simp add: s'_def)
qed

lemma urun_refines:
  assumes "ok s" and "\<forall>x. Put x \<in> set ops \<or> Urgent x \<in> set ops \<longrightarrow> valid s x"
  shows "ok (snd (urun ops s)) \<and> queue_spec (cap s) ops (contents s) = (fst (urun ops s), contents (snd (urun ops s)))"
  using assms
proof (induction ops arbitrary: s)
  case (Cons p ops)
  show ?case
  proof (cases p)
    case (Put x)
    then show ?thesis using put_step [of s x] Cons.IH [of "case put x s of None \<Rightarrow> s | Some s' \<Rightarrow> s'"] Cons.prems by simp
  next
    case (Urgent x)
    then show ?thesis using urgent_step [of s x] Cons.IH [of "case urgent x s of None \<Rightarrow> s | Some s' \<Rightarrow> s'"] Cons.prems by simp
  next
    case Get
    show ?thesis
    proof (cases "contents s")
      case Nil
      then show ?thesis using Cons.IH [OF Cons.prems(1)] Cons.prems(2) Get get_empty [OF Cons.prems(1)] by simp
    next
      case c: (Cons x xs)
      obtain s' where s': "get s = Some (x, s')" "ok s'" "contents s' = xs" "cap s' = cap s" "valid s' = valid s"
        using get_first [OF Cons.prems(1) c] by blast
      then show ?thesis using Cons.IH [OF s'(2)] Cons.prems(2) Get c by simp
    qed
  qed
qed simp

end

text \<open>
  For sequences without \<open>Urgent\<close>: what comes out, followed by what is left, is what was there followed by the
  accepted values, so nothing is lost, duplicated or reordered.
\<close>

fun accepted :: "nat \<Rightarrow> 'a qop list \<Rightarrow> 'a list \<Rightarrow> 'a list" where
  "accepted n [] q = []"
| "accepted n (Put x # ops) q = (if length q < n then x # accepted n ops (q @ [x]) else accepted n ops q)"
| "accepted n (Urgent x # ops) q = accepted n ops q"
| "accepted n (Get # ops) q = accepted n ops (tl q)"

lemma queue_spec_conserves:
  assumes "\<And>x. Urgent x \<notin> set ops"
  shows "fst (queue_spec n ops q) @ snd (queue_spec n ops q) = q @ accepted n ops q"
  using assms
proof (induction n ops q rule: queue_spec.induct)
  case (4 n ops q)
  then show ?case by (cases q) auto
qed auto

section \<open>Rings\<close>

text \<open>The values of a ring: \<open>cnt\<close> cells of the first \<open>n\<close> of \<open>pool\<close>, from \<open>start\<close> on, with wrap-around.\<close>

definition ring :: "'a list \<Rightarrow> nat \<Rightarrow> nat \<Rightarrow> nat \<Rightarrow> 'a list" where
  "ring pool n start cnt = map (\<lambda>i. pool ! ((start + i) mod n)) [0..<cnt]"

lemma length_ring [simp]: "length (ring pool n start cnt) = cnt"
  by (simp add: ring_def)

lemma ring_Nil_iff [simp]: "ring pool n start cnt = [] \<longleftrightarrow> cnt = 0"
  by (simp add: ring_def)

lemma ring_slots_differ:
  fixes i j :: nat
  assumes "i < j" and "j - i < n"
  shows "(a + i) mod n \<noteq> (a + j) mod n"
proof
  assume "(a + i) mod n = (a + j) mod n"
  then have "n dvd (a + j) - (a + i)" using assms by (metis mod_eq_dvd_iff_nat add_le_cancel_left less_imp_le)
  then show False using assms by (simp add: nat_dvd_not_less)
qed

lemma ring_push:
  assumes "cnt < n" and "n \<le> length pool"
  shows "ring (pool[(start + cnt) mod n := v]) n start (Suc cnt) = ring pool n start cnt @ [v]"
proof -
  have "(start + cnt) mod n < n" using assms(1) by simp
  then have "(start + cnt) mod n < length pool" using assms(2) by (rule less_le_trans)
  moreover have "pool[(start + cnt) mod n := v] ! ((start + i) mod n) = pool ! ((start + i) mod n)" if "i < cnt" for i
    using ring_slots_differ [OF that, of n start] assms(1) that by (metis diff_le_self le_less_trans nth_list_update_neq)
  ultimately show ?thesis by (simp add: ring_def)
qed

lemma ring_pop:
  "ring pool n start (Suc cnt) = pool ! (start mod n) # ring pool n ((start + 1) mod n) cnt"
proof -
  have "((start + 1) mod n + i) mod n = (start + Suc i) mod n" for i by (simp add: mod_simps)
  then show ?thesis
    unfolding ring_def by (simp add: upt_conv_Cons map_Suc_upt [symmetric] del: upt_Suc)
qed

lemma ring_push_front:
  assumes "cnt < n" and "n \<le> length pool" and "start < n"
  shows "ring (pool[start := v]) n start (Suc cnt) = v # ring pool n ((start + 1) mod n) cnt"
proof -
  have "((start + 1) mod n + i) mod n \<noteq> start" if "i < cnt" for i
    using ring_slots_differ [of 0 "Suc i" n start] that assms by (simp add: mod_simps)
  then have "pool[start := v] ! (((start + 1) mod n + i) mod n) = pool ! (((start + 1) mod n + i) mod n)" if "i < cnt" for i
    using that by (metis nth_list_update_neq)
  then have "ring (pool[start := v]) n ((start + 1) mod n) cnt = ring pool n ((start + 1) mod n) cnt"
    by (simp add: ring_def)
  then show ?thesis unfolding ring_pop using assms by simp
qed

text \<open>Blocks of cells: writing \<open>ys\<close> behind the last value, and splitting off the first values.\<close>

lemma ring_extend:
  assumes "\<And>j. j < length ys \<Longrightarrow> pool' ! ((start + cnt + j) mod n) = ys ! j"
    and "\<And>i. i < cnt \<Longrightarrow> pool' ! ((start + i) mod n) = pool ! ((start + i) mod n)"
  shows "ring pool' n start (cnt + length ys) = ring pool n start cnt @ ys"
proof (rule nth_equalityI)
  fix i assume i: "i < length (ring pool' n start (cnt + length ys))"
  show "ring pool' n start (cnt + length ys) ! i = (ring pool n start cnt @ ys) ! i"
  proof (cases "i < cnt")
    case True
    then show ?thesis using assms(2) by (simp add: ring_def nth_append)
  next
    case False
    then show ?thesis using assms(1) [of "i - cnt"] i by (simp add: ring_def nth_append)
  qed
qed simp

lemma ring_split:
  "ring pool n start (a + b) = ring pool n start a @ ring pool n ((start + a) mod n) b"
  by (rule nth_equalityI) (auto simp: ring_def nth_append mod_simps)

lemma ring_block: "start + cnt \<le> n \<Longrightarrow> n \<le> length pool \<Longrightarrow> ring pool n start cnt = take cnt (drop start pool)"
  by (rule nth_equalityI) (auto simp: ring_def)

end
