(* ===== verification/RingBuffer.thy ===== *)
theory RingBuffer
  imports Fifo Mem
begin

text \<open>
  The byte ring buffer of the device drivers (\<^verbatim>\<open>ringbuffer.c\<close>, \<^verbatim>\<open>ringbuffer.h\<close>).  An index and its mirror bit
  tell a full buffer from an empty one.  The indices are 15-bit fields; sums that are stored into them are
  reduced.  A caller's block of bytes is a list.  Copying outside a block of memory is \<open>None\<close>.
\<close>

section \<open>State\<close>

record rt_ringbuffer =
  rb_buffer_ptr :: "u8 list"
  rb_read_mirror :: bool
  rb_read_index :: nat
  rb_write_mirror :: bool
  rb_write_index :: nat
  rb_buffer_size :: nat

datatype rt_ringbuffer_state = RT_RINGBUFFER_EMPTY | RT_RINGBUFFER_FULL | RT_RINGBUFFER_HALFFULL

definition index15 :: "nat \<Rightarrow> nat" where
  "index15 n = n mod 2 ^ 15"

text \<open>\<^verbatim>\<open>memcpy(&buf[i], ys, n)\<close> and reading \<open>n\<close> bytes from \<^verbatim>\<open>&buf[i]\<close>.\<close>

definition copy_to :: "nat \<Rightarrow> u8 list \<Rightarrow> u8 list \<Rightarrow> u8 list option" where
  "copy_to i ys buf = (if i + length ys \<le> length buf then Some (take i buf @ ys @ drop (i + length ys) buf) else None)"

definition copy_from :: "nat \<Rightarrow> nat \<Rightarrow> u8 list \<Rightarrow> u8 list option" where
  "copy_from i n buf = (if i + n \<le> length buf then Some (take n (drop i buf)) else None)"

section \<open>Operations\<close>

definition rt_ringbuffer_status :: "rt_ringbuffer \<Rightarrow> rt_ringbuffer_state" where
  "rt_ringbuffer_status rb =
     (if rb_read_index rb = rb_write_index rb then
        if rb_read_mirror rb = rb_write_mirror rb then RT_RINGBUFFER_EMPTY else RT_RINGBUFFER_FULL
      else RT_RINGBUFFER_HALFFULL)"

definition rt_ringbuffer_init :: "u8 list \<Rightarrow> int \<Rightarrow> rt_ringbuffer option" where
  "rt_ringbuffer_init pool sz = do {
     rt_assert (sz > 0);
     Some \<lparr>rb_buffer_ptr = pool, rb_read_mirror = False, rb_read_index = 0, rb_write_mirror = False,
           rb_write_index = 0, rb_buffer_size = nat sz div 4 * 4\<rparr>
   }"

definition rt_ringbuffer_data_len :: "rt_ringbuffer \<Rightarrow> nat" where
  "rt_ringbuffer_data_len rb =
     (case rt_ringbuffer_status rb of
        RT_RINGBUFFER_EMPTY \<Rightarrow> 0
      | RT_RINGBUFFER_FULL \<Rightarrow> rb_buffer_size rb
      | RT_RINGBUFFER_HALFFULL \<Rightarrow>
          if rb_write_index rb > rb_read_index rb then rb_write_index rb - rb_read_index rb
          else rb_buffer_size rb - (rb_read_index rb - rb_write_index rb))"

definition rt_ringbuffer_space_len :: "rt_ringbuffer \<Rightarrow> nat" where
  "rt_ringbuffer_space_len rb = rb_buffer_size rb - rt_ringbuffer_data_len rb"

definition rt_ringbuffer_put :: "u8 list \<Rightarrow> rt_ringbuffer \<Rightarrow> (nat \<times> rt_ringbuffer) option" where
  "rt_ringbuffer_put ptr rb =
     (let size = rt_ringbuffer_space_len rb in
      if size = 0 then Some (0, rb)
      else
        (let len = (if size < length ptr then size else length ptr);
             room = rb_buffer_size rb - rb_write_index rb
         in if room > len then do {
              buf \<leftarrow> copy_to (rb_write_index rb) (take len ptr) (rb_buffer_ptr rb);
              Some (len, rb\<lparr>rb_buffer_ptr := buf, rb_write_index := index15 (rb_write_index rb + len)\<rparr>)
            }
            else do {
              buf \<leftarrow> copy_to (rb_write_index rb) (take room ptr) (rb_buffer_ptr rb);
              buf \<leftarrow> copy_to 0 (take (len - room) (drop room ptr)) buf;
              Some (len, rb\<lparr>rb_buffer_ptr := buf, rb_write_mirror := \<not> rb_write_mirror rb,
                           rb_write_index := index15 (len - room)\<rparr>)
            }))"

definition rt_ringbuffer_put_force :: "u8 list \<Rightarrow> rt_ringbuffer \<Rightarrow> (nat \<times> rt_ringbuffer) option" where
  "rt_ringbuffer_put_force ptr rb =
     (let space_length = rt_ringbuffer_space_len rb;
          ptr = (if length ptr > rb_buffer_size rb then drop (length ptr - rb_buffer_size rb) ptr else ptr);
          len = length ptr;
          room = rb_buffer_size rb - rb_write_index rb
      in if room > len then do {
           buf \<leftarrow> copy_to (rb_write_index rb) ptr (rb_buffer_ptr rb);
           rb \<leftarrow> Some (rb\<lparr>rb_buffer_ptr := buf, rb_write_index := index15 (rb_write_index rb + len)\<rparr>);
           Some (len, if len > space_length then rb\<lparr>rb_read_index := rb_write_index rb\<rparr> else rb)
         }
         else do {
           buf \<leftarrow> copy_to (rb_write_index rb) (take room ptr) (rb_buffer_ptr rb);
           buf \<leftarrow> copy_to 0 (take (len - room) (drop room ptr)) buf;
           rb \<leftarrow> Some (rb\<lparr>rb_buffer_ptr := buf, rb_write_mirror := \<not> rb_write_mirror rb,
                          rb_write_index := index15 (len - room)\<rparr>);
           Some (len, if len > space_length
                 then rb\<lparr>rb_read_mirror := \<not> rb_read_mirror rb, rb_read_index := rb_write_index rb\<rparr> else rb)
         })"

definition rt_ringbuffer_get :: "nat \<Rightarrow> rt_ringbuffer \<Rightarrow> (u8 list \<times> rt_ringbuffer) option" where
  "rt_ringbuffer_get n rb =
     (let size = rt_ringbuffer_data_len rb in
      if size = 0 then Some ([], rb)
      else
        (let len = (if size < n then size else n);
             room = rb_buffer_size rb - rb_read_index rb
         in if room > len then do {
              d \<leftarrow> copy_from (rb_read_index rb) len (rb_buffer_ptr rb);
              Some (d, rb\<lparr>rb_read_index := index15 (rb_read_index rb + len)\<rparr>)
            }
            else do {
              d1 \<leftarrow> copy_from (rb_read_index rb) room (rb_buffer_ptr rb);
              d2 \<leftarrow> copy_from 0 (len - room) (rb_buffer_ptr rb);
              Some (d1 @ d2, rb\<lparr>rb_read_mirror := \<not> rb_read_mirror rb, rb_read_index := index15 (len - room)\<rparr>)
            }))"

text \<open>\<^verbatim>\<open>peak\<close> returns a pointer into the buffer, an offset here, and the number of bytes behind it.\<close>

definition rt_ringbuffer_peak :: "rt_ringbuffer \<Rightarrow> nat option \<times> nat \<times> rt_ringbuffer" where
  "rt_ringbuffer_peak rb =
     (let size = rt_ringbuffer_data_len rb; r = rb_read_index rb in
      if size = 0 then (None, 0, rb)
      else if rb_buffer_size rb - r > size then (Some r, size, rb\<lparr>rb_read_index := index15 (r + size)\<rparr>)
      else (Some r, rb_buffer_size rb - r, rb\<lparr>rb_read_mirror := \<not> rb_read_mirror rb, rb_read_index := 0\<rparr>))"

definition rt_ringbuffer_putchar :: "u8 \<Rightarrow> rt_ringbuffer \<Rightarrow> (nat \<times> rt_ringbuffer) option" where
  "rt_ringbuffer_putchar ch rb =
     (if rt_ringbuffer_space_len rb = 0 then Some (0, rb)
      else do {
        buf \<leftarrow> copy_to (rb_write_index rb) [ch] (rb_buffer_ptr rb);
        rb \<leftarrow> Some (rb\<lparr>rb_buffer_ptr := buf\<rparr>);
        Some (1, if rb_write_index rb + 1 = rb_buffer_size rb
              then rb\<lparr>rb_write_mirror := \<not> rb_write_mirror rb, rb_write_index := 0\<rparr>
              else rb\<lparr>rb_write_index := index15 (rb_write_index rb + 1)\<rparr>)
      })"

definition rt_ringbuffer_putchar_force :: "u8 \<Rightarrow> rt_ringbuffer \<Rightarrow> (nat \<times> rt_ringbuffer) option" where
  "rt_ringbuffer_putchar_force ch rb = do {
     old_state \<leftarrow> Some (rt_ringbuffer_status rb);
     buf \<leftarrow> copy_to (rb_write_index rb) [ch] (rb_buffer_ptr rb);
     rb \<leftarrow> Some (rb\<lparr>rb_buffer_ptr := buf\<rparr>);
     if rb_write_index rb + 1 = rb_buffer_size rb then do {
       rb \<leftarrow> Some (rb\<lparr>rb_write_mirror := \<not> rb_write_mirror rb, rb_write_index := 0\<rparr>);
       Some (1, if old_state = RT_RINGBUFFER_FULL
             then rb\<lparr>rb_read_mirror := \<not> rb_read_mirror rb, rb_read_index := rb_write_index rb\<rparr> else rb)
     }
     else do {
       rb \<leftarrow> Some (rb\<lparr>rb_write_index := index15 (rb_write_index rb + 1)\<rparr>);
       Some (1, if old_state = RT_RINGBUFFER_FULL then rb\<lparr>rb_read_index := rb_write_index rb\<rparr> else rb)
     }
   }"

definition rt_ringbuffer_getchar :: "rt_ringbuffer \<Rightarrow> (u8 option \<times> rt_ringbuffer) option" where
  "rt_ringbuffer_getchar rb =
     (if rt_ringbuffer_data_len rb = 0 then Some (None, rb)
      else do {
        d \<leftarrow> copy_from (rb_read_index rb) 1 (rb_buffer_ptr rb);
        Some (Some (hd d), if rb_read_index rb + 1 = rb_buffer_size rb
              then rb\<lparr>rb_read_mirror := \<not> rb_read_mirror rb, rb_read_index := 0\<rparr>
              else rb\<lparr>rb_read_index := index15 (rb_read_index rb + 1)\<rparr>)
      })"

definition rt_ringbuffer_reset :: "rt_ringbuffer \<Rightarrow> rt_ringbuffer" where
  "rt_ringbuffer_reset rb = rb\<lparr>rb_read_mirror := False, rb_read_index := 0, rb_write_mirror := False, rb_write_index := 0\<rparr>"

text \<open>
  A created buffer is the addresses of its structure (12 bytes) and of its pool, with the structure; \<open>junk\<close>
  is what the pool's memory holds.  \<^verbatim>\<open>rt_ringbuffer_init\<close> takes the size as a signed 16-bit number.
\<close>

definition rt_ringbuffer_create ::
    "(nat \<Rightarrow> u8) \<Rightarrow> u16 \<Rightarrow> u8 \<Rightarrow> rt_heap \<Rightarrow> ((nat \<times> nat \<times> rt_ringbuffer) option \<times> rt_heap) option" where
  "rt_ringbuffer_create junk sz irq_nest h = do {
     rt_assert (sz > 0);
     sz \<leftarrow> Some (sz AND NOT 3);
     (p, h) \<leftarrow> rt_malloc 12 irq_nest h;
     case p of
       None \<Rightarrow> Some (None, h)
     | Some a \<Rightarrow> do {
         (pool, h) \<leftarrow> rt_malloc (ucast sz) irq_nest h;
         case pool of
           None \<Rightarrow> do {
             h \<leftarrow> rt_free (Some a) irq_nest h;
             Some (None, h)
           }
         | Some b \<Rightarrow> do {
             rb \<leftarrow> rt_ringbuffer_init (map (\<lambda>i. junk (b + i)) [0..<unat sz]) (sint sz);
             Some (Some (a, b, rb), h)
           }
       }
   }"

definition rt_ringbuffer_destroy :: "nat \<Rightarrow> nat \<Rightarrow> u8 \<Rightarrow> rt_heap \<Rightarrow> rt_heap option" where
  "rt_ringbuffer_destroy a b irq_nest h = do {
     h \<leftarrow> rt_free (Some b) irq_nest h;
     rt_free (Some a) irq_nest h
   }"

section \<open>Well-formed buffers\<close>

definition rb_wf :: "rt_ringbuffer \<Rightarrow> bool" where
  "rb_wf rb \<longleftrightarrow> 0 < rb_buffer_size rb \<and> rb_buffer_size rb < 2 ^ 15 \<and> rb_buffer_size rb \<le> length (rb_buffer_ptr rb) \<and>
     rb_read_index rb < rb_buffer_size rb \<and> rb_write_index rb < rb_buffer_size rb \<and>
     (if rb_read_mirror rb = rb_write_mirror rb then rb_read_index rb \<le> rb_write_index rb
      else rb_write_index rb \<le> rb_read_index rb)"

definition rb_contents :: "rt_ringbuffer \<Rightarrow> u8 list" where
  "rb_contents rb = ring (rb_buffer_ptr rb) (rb_buffer_size rb) (rb_read_index rb) (rt_ringbuffer_data_len rb)"

lemma length_rb_contents [simp]: "length (rb_contents rb) = rt_ringbuffer_data_len rb"
  by (simp add: rb_contents_def)

lemma rb_data_len:
  assumes "rb_wf rb"
  shows "rt_ringbuffer_data_len rb = (if rb_read_mirror rb = rb_write_mirror rb then rb_write_index rb - rb_read_index rb
    else rb_buffer_size rb - rb_read_index rb + rb_write_index rb)"
  using assms by (cases "rb_read_mirror rb = rb_write_mirror rb")
    (auto simp: rb_wf_def rt_ringbuffer_data_len_def rt_ringbuffer_status_def)

lemma rb_wfD:
  assumes "rb_wf rb"
  shows "0 < rb_buffer_size rb" "rb_buffer_size rb < 2 ^ 15" "rb_buffer_size rb \<le> length (rb_buffer_ptr rb)"
    "rb_read_index rb < rb_buffer_size rb" "rb_write_index rb < rb_buffer_size rb"
    "rt_ringbuffer_data_len rb \<le> rb_buffer_size rb"
    "rb_write_index rb = (rb_read_index rb + rt_ringbuffer_data_len rb) mod rb_buffer_size rb"
proof -
  note w = assms [unfolded rb_wf_def]
  show "0 < rb_buffer_size rb" "rb_buffer_size rb < 2 ^ 15" "rb_buffer_size rb \<le> length (rb_buffer_ptr rb)"
    "rb_read_index rb < rb_buffer_size rb" "rb_write_index rb < rb_buffer_size rb"
    using w by blast+
  show "rt_ringbuffer_data_len rb \<le> rb_buffer_size rb"
    unfolding rb_data_len [OF assms] using w by (auto split: if_splits)
  show "rb_write_index rb = (rb_read_index rb + rt_ringbuffer_data_len rb) mod rb_buffer_size rb"
  proof (cases "rb_read_mirror rb = rb_write_mirror rb")
    case True
    then show ?thesis unfolding rb_data_len [OF assms] using w by simp
  next
    case False
    then have "rb_read_index rb + rt_ringbuffer_data_len rb = rb_buffer_size rb + rb_write_index rb"
      unfolding rb_data_len [OF assms] using w by simp
    then show ?thesis using w by simp
  qed
qed

text \<open>Moving the write or the read index forward by \<open>len\<close> cells.\<close>

definition rb_advance :: "nat \<Rightarrow> bool \<Rightarrow> nat \<Rightarrow> nat \<Rightarrow> bool \<times> nat" where
  "rb_advance n mirror i len = (if i + len < n then (mirror, i + len) else (\<not> mirror, i + len - n))"

definition rb_written :: "u8 list \<Rightarrow> nat \<Rightarrow> rt_ringbuffer \<Rightarrow> rt_ringbuffer" where
  "rb_written buf len rb = rb\<lparr>rb_buffer_ptr := buf,
     rb_write_mirror := fst (rb_advance (rb_buffer_size rb) (rb_write_mirror rb) (rb_write_index rb) len),
     rb_write_index := snd (rb_advance (rb_buffer_size rb) (rb_write_mirror rb) (rb_write_index rb) len)\<rparr>"

definition rb_read :: "nat \<Rightarrow> rt_ringbuffer \<Rightarrow> rt_ringbuffer" where
  "rb_read len rb = rb\<lparr>
     rb_read_mirror := fst (rb_advance (rb_buffer_size rb) (rb_read_mirror rb) (rb_read_index rb) len),
     rb_read_index := snd (rb_advance (rb_buffer_size rb) (rb_read_mirror rb) (rb_read_index rb) len)\<rparr>"

lemma rb_written_wf:
  assumes w: "rb_wf rb" and l: "rt_ringbuffer_data_len rb + len \<le> rb_buffer_size rb" and b: "length buf = length (rb_buffer_ptr rb)"
  shows "rb_wf (rb_written buf len rb)" and "rt_ringbuffer_data_len (rb_written buf len rb) = rt_ringbuffer_data_len rb + len"
proof -
  note d = rb_data_len [OF w] w [unfolded rb_wf_def]
  show wf: "rb_wf (rb_written buf len rb)"
    using d b l by (cases "rb_read_mirror rb = rb_write_mirror rb"; cases "rb_write_index rb + len < rb_buffer_size rb")
      (auto simp: rb_wf_def rb_written_def rb_advance_def)
  show "rt_ringbuffer_data_len (rb_written buf len rb) = rt_ringbuffer_data_len rb + len"
    unfolding rb_data_len [OF wf] using d l
    by (cases "rb_read_mirror rb = rb_write_mirror rb"; cases "rb_write_index rb + len < rb_buffer_size rb")
      (auto simp: rb_written_def rb_advance_def)
qed

lemma rb_read_wf:
  assumes w: "rb_wf rb" and l: "len \<le> rt_ringbuffer_data_len rb"
  shows "rb_wf (rb_read len rb)" and "rt_ringbuffer_data_len (rb_read len rb) = rt_ringbuffer_data_len rb - len"
proof -
  note d = rb_data_len [OF w] w [unfolded rb_wf_def]
  show wf: "rb_wf (rb_read len rb)"
    using d l by (cases "rb_read_mirror rb = rb_write_mirror rb"; cases "rb_read_index rb + len < rb_buffer_size rb")
      (auto simp: rb_wf_def rb_read_def rb_advance_def)
  show "rt_ringbuffer_data_len (rb_read len rb) = rt_ringbuffer_data_len rb - len"
    unfolding rb_data_len [OF wf] using d l
    by (cases "rb_read_mirror rb = rb_write_mirror rb"; cases "rb_read_index rb + len < rb_buffer_size rb")
      (auto simp: rb_read_def rb_advance_def)
qed

text \<open>Copying a block that may wrap around the end of the buffer.\<close>

definition wrap_to :: "nat \<Rightarrow> nat \<Rightarrow> u8 list \<Rightarrow> u8 list \<Rightarrow> u8 list option" where
  "wrap_to n i ys buf =
     (if n - i > length ys then copy_to i ys buf
      else Option.bind (copy_to i (take (n - i) ys) buf) (copy_to 0 (drop (n - i) ys)))"

lemma copy_to_nth:
  "copy_to i ys buf = Some buf' \<Longrightarrow> length buf' = length buf \<and>
     (\<forall>p < length buf. buf' ! p = (if i \<le> p \<and> p < i + length ys then ys ! (p - i) else buf ! p))"
  by (auto simp: copy_to_def nth_append split: if_splits)

lemma wrap_to_nth:
  assumes i: "i < n" and n: "n \<le> length buf" and l: "length ys \<le> n"
  obtains buf' where "wrap_to n i ys buf = Some buf'" and "length buf' = length buf"
    and "\<forall>j < length ys. buf' ! ((i + j) mod n) = ys ! j"
    and "\<forall>p < n. (\<forall>j < length ys. p \<noteq> (i + j) mod n) \<longrightarrow> buf' ! p = buf ! p"
proof (cases "n - i > length ys")
  case True
  then have "copy_to i ys buf \<noteq> None" using n by (simp add: copy_to_def)
  then obtain b where b: "copy_to i ys buf = Some b" by blast
  note c = copy_to_nth [OF b]
  show thesis
  proof (rule that [of b]; (intro allI impI)?)
    show "wrap_to n i ys buf = Some b" using True b by (simp add: wrap_to_def)
    show "length b = length buf" using c by simp
    show "b ! ((i + j) mod n) = ys ! j" if "j < length ys" for j using that True n c by simp
    show "b ! p = buf ! p" if "p < n" "\<forall>j < length ys. p \<noteq> (i + j) mod n" for p
    proof -
      have "\<not> (i \<le> p \<and> p < i + length ys)"
      proof
        assume "i \<le> p \<and> p < i + length ys"
        then have "p - i < length ys" "i + (p - i) = p" by auto
        then show False using that(2) [rule_format, of "p - i"] that(1) by simp
      qed
      then show ?thesis using c that(1) n by auto
    qed
  qed
next
  case False
  have "copy_to i (take (n - i) ys) buf \<noteq> None" using n i False by (simp add: copy_to_def)
  then obtain b where b: "copy_to i (take (n - i) ys) buf = Some b" by blast
  note c = copy_to_nth [OF b]
  have "copy_to 0 (drop (n - i) ys) b \<noteq> None" using c l n by (simp add: copy_to_def)
  then obtain b' where b': "copy_to 0 (drop (n - i) ys) b = Some b'" by blast
  note c' = copy_to_nth [OF b']
  show thesis
  proof (rule that [of b']; (intro allI impI)?)
    show "wrap_to n i ys buf = Some b'" using False b b' by (simp add: wrap_to_def)
    show "length b' = length buf" using c c' by simp
    show "b' ! ((i + j) mod n) = ys ! j" if j: "j < length ys" for j
    proof (cases "i + j < n")
      case True
      moreover have "\<not> i + j < length ys + i - n" using l by simp
      ultimately show ?thesis using c c' n False j by simp
    next
      case wr: False
      then have "(i + j) mod n = i + j - n" using i j l by (simp add: mod_if)
      moreover have "i + j - n < length buf" "i + j - n < length ys + i - n" "n - i + (i + j - n) = j"
        using wr i j l n by linarith+
      moreover have "i + j - n < 0 + length (drop (n - i) ys)" using wr i j False by simp
      ultimately show ?thesis using c c' by simp
    qed
    show "b' ! p = buf ! p" if p: "p < n" "\<forall>j < length ys. p \<noteq> (i + j) mod n" for p
    proof -
      have pi: "p < i"
      proof (rule ccontr)
        assume "\<not> p < i"
        then have "p - i < length ys" "i + (p - i) = p" using p(1) False by linarith+
        then show False using p by (metis mod_less)
      qed
      have "\<not> p < length ys + i - n"
      proof
        assume "p < length ys + i - n"
        then have "p + n - i < length ys" "i + (p + n - i) = p + n" using i by linarith+
        then show False using p by (metis mod_add_self2 mod_less)
      qed
      moreover have "\<not> p < 0 + length (drop (n - i) ys)" using \<open>\<not> p < length ys + i - n\<close> i by simp
      moreover have "\<not> (i \<le> p \<and> p < i + length (take (n - i) ys))" using pi by simp
      ultimately show ?thesis using c c' p(1) n pi by auto
    qed
  qed
qed

section \<open>Functional correctness\<close>

lemma rb_put_written:
  assumes w: "rb_wf rb" and l: "rt_ringbuffer_data_len rb + length ys \<le> rb_buffer_size rb"
  obtains buf where "wrap_to (rb_buffer_size rb) (rb_write_index rb) ys (rb_buffer_ptr rb) = Some buf"
    and "rb_wf (rb_written buf (length ys) rb)" and "rb_contents (rb_written buf (length ys) rb) = rb_contents rb @ ys"
proof -
  let ?n = "rb_buffer_size rb" and ?d = "rt_ringbuffer_data_len rb"
  note d = rb_wfD [OF w]
  have ly: "length ys \<le> ?n" using l by simp
  obtain buf where b: "wrap_to ?n (rb_write_index rb) ys (rb_buffer_ptr rb) = Some buf" "length buf = length (rb_buffer_ptr rb)"
    "\<forall>j < length ys. buf ! ((rb_write_index rb + j) mod ?n) = ys ! j"
    "\<forall>p < ?n. (\<forall>j < length ys. p \<noteq> (rb_write_index rb + j) mod ?n) \<longrightarrow> buf ! p = rb_buffer_ptr rb ! p"
    by (rule wrap_to_nth [OF d(5,3) ly])
  note wf = rb_written_wf [OF w l b(2)]
  have wi: "(rb_write_index rb + j) mod ?n = (rb_read_index rb + (?d + j)) mod ?n" for j
    unfolding d(7) by (simp add: mod_simps add.assoc)
  have "ring buf ?n (rb_read_index rb) (?d + length ys) = ring (rb_buffer_ptr rb) ?n (rb_read_index rb) ?d @ ys"
  proof (rule ring_extend)
    show "buf ! ((rb_read_index rb + ?d + j) mod ?n) = ys ! j" if "j < length ys" for j
      using b(3) that wi [of j] by (metis add.assoc)
    show "buf ! ((rb_read_index rb + i) mod ?n) = rb_buffer_ptr rb ! ((rb_read_index rb + i) mod ?n)" if i: "i < ?d" for i
    proof (rule b(4) [rule_format])
      show "(rb_read_index rb + i) mod ?n < ?n" using d(1) by simp
      show "(rb_read_index rb + i) mod ?n \<noteq> (rb_write_index rb + j) mod ?n" if "j < length ys" for j
        unfolding wi by (rule ring_slots_differ) (use i that l in auto)
    qed
  qed
  then have "rb_contents (rb_written buf (length ys) rb) = rb_contents rb @ ys"
    unfolding rb_contents_def wf(2) by (simp add: rb_written_def)
  then show thesis using that b(1) wf(1) by blast
qed

lemma index15_small: "i < 2 ^ 15 \<Longrightarrow> index15 i = i"
  by (simp add: index15_def)

lemma rt_ringbuffer_put_eq:
  assumes w: "rb_wf rb" and ys: "ys = take (rt_ringbuffer_space_len rb) ptr"
    and b: "wrap_to (rb_buffer_size rb) (rb_write_index rb) ys (rb_buffer_ptr rb) = Some buf"
  shows "rt_ringbuffer_put ptr rb = Some (length ys, if rt_ringbuffer_space_len rb = 0 then rb else rb_written buf (length ys) rb)"
proof -
  note d = rb_wfD [OF w]
  have len: "length ys = (if rt_ringbuffer_space_len rb < length ptr then rt_ringbuffer_space_len rb else length ptr)"
    by (simp add: ys)
  have yl: "ys = take (length ys) ptr" unfolding len by (auto simp: ys)
  have ly: "length ys \<le> rb_buffer_size rb" unfolding len by (auto simp: rt_ringbuffer_space_len_def)
  show ?thesis
  proof (cases "rb_buffer_size rb - rb_write_index rb > length ys")
    case True
    then have "copy_to (rb_write_index rb) (take (length ys) ptr) (rb_buffer_ptr rb) = Some buf"
      using b yl by (simp add: wrap_to_def)
    moreover have "index15 (rb_write_index rb + length ys) = rb_write_index rb + length ys"
      by (rule index15_small) (use True d(2) in linarith)
    ultimately show ?thesis using True d(2)
      by (auto simp: rt_ringbuffer_put_def Let_def simp flip: len simp: rb_written_def rb_advance_def ys)
  next
    case False
    let ?r = "rb_buffer_size rb - rb_write_index rb"
    have t: "take ?r ptr = take ?r ys" "take (length ys - ?r) (drop ?r ptr) = drop ?r ys"
      using False yl by (metis min.absorb1 not_less take_take, metis drop_take yl)
    obtain b1 where b1: "copy_to (rb_write_index rb) (take ?r ys) (rb_buffer_ptr rb) = Some b1" "copy_to 0 (drop ?r ys) b1 = Some buf"
      using b False by (auto simp: wrap_to_def bind_eq_Some_conv)
    have "index15 (length ys - ?r) = length ys - ?r" by (rule index15_small) (use ly d(2) in linarith)
    moreover have "rb_write_index rb + length ys - rb_buffer_size rb = length ys - ?r" using d(5) by simp
    ultimately show ?thesis using False b1 d(5) t
      by (auto simp: rt_ringbuffer_put_def Let_def simp flip: len simp: rb_written_def rb_advance_def ys)
  qed
qed

lemma rb_space: "rb_wf rb \<Longrightarrow> rt_ringbuffer_data_len rb + rt_ringbuffer_space_len rb = rb_buffer_size rb"
  using rb_wfD(6) by (simp add: rt_ringbuffer_space_len_def)

lemma rt_ringbuffer_put_spec:
  assumes w: "rb_wf rb"
  shows "returns (rt_ringbuffer_put ptr rb) (\<lambda>(n, rb'). n = min (length ptr) (rt_ringbuffer_space_len rb) \<and> rb_wf rb' \<and>
    rb_contents rb' = rb_contents rb @ take n ptr \<and> rb_buffer_size rb' = rb_buffer_size rb)"
proof -
  define ys where "ys = take (rt_ringbuffer_space_len rb) ptr"
  have "rt_ringbuffer_data_len rb + length ys \<le> rb_buffer_size rb" using rb_space [OF w] by (simp add: ys_def)
  then obtain buf where b: "wrap_to (rb_buffer_size rb) (rb_write_index rb) ys (rb_buffer_ptr rb) = Some buf"
    "rb_wf (rb_written buf (length ys) rb)" "rb_contents (rb_written buf (length ys) rb) = rb_contents rb @ ys"
    by (rule rb_put_written [OF w])
  have "take (length ys) ptr = ys" by (simp add: ys_def min_def)
  then show ?thesis unfolding rt_ringbuffer_put_eq [OF w ys_def b(1)] using b(2,3) w
    by (auto simp: ys_def rb_written_def)
qed

lemma rb_read_contents:
  assumes w: "rb_wf rb" and l: "len \<le> rt_ringbuffer_data_len rb"
  shows "rb_contents (rb_read len rb) = drop len (rb_contents rb)"
    and "take len (rb_contents rb) = ring (rb_buffer_ptr rb) (rb_buffer_size rb) (rb_read_index rb) len"
proof -
  let ?n = "rb_buffer_size rb"
  note d = rb_wfD [OF w]
  obtain m where m: "rt_ringbuffer_data_len rb = len + m" using l by (metis le_add_diff_inverse)
  have i: "snd (rb_advance ?n (rb_read_mirror rb) (rb_read_index rb) len) = (rb_read_index rb + len) mod ?n"
  proof -
    have "rb_read_index rb + len - ?n < ?n" using d(1,4,6) l by linarith
    then show ?thesis by (auto simp: rb_advance_def mod_if)
  qed
  have s: "rb_contents rb = ring (rb_buffer_ptr rb) ?n (rb_read_index rb) len @
      ring (rb_buffer_ptr rb) ?n ((rb_read_index rb + len) mod ?n) m"
    unfolding rb_contents_def m by (rule ring_split)
  show "take len (rb_contents rb) = ring (rb_buffer_ptr rb) ?n (rb_read_index rb) len" unfolding s by simp
  show "rb_contents (rb_read len rb) = drop len (rb_contents rb)"
    unfolding s using rb_read_wf(2) [OF w l] m i by (simp add: rb_contents_def rb_read_def)
qed

lemma rt_ringbuffer_get_eq:
  fixes n :: nat
  assumes w: "rb_wf rb"
  defines "len \<equiv> min n (rt_ringbuffer_data_len rb)"
  shows "rt_ringbuffer_get n rb = Some (take len (rb_contents rb), if rt_ringbuffer_data_len rb = 0 then rb else rb_read len rb)"
proof (cases "rt_ringbuffer_data_len rb = 0")
  case True
  then show ?thesis by (simp add: rt_ringbuffer_get_def len_def rb_contents_def ring_def)
next
  case nz: False
  let ?s = "rb_buffer_size rb" and ?r = "rb_read_index rb"
  note d = rb_wfD [OF w]
  have l: "len \<le> rt_ringbuffer_data_len rb" by (simp add: len_def)
  have len: "(if rt_ringbuffer_data_len rb < n then rt_ringbuffer_data_len rb else n) = len" by (simp add: len_def min_def)
  note rc = rb_read_contents(2) [OF w l]
  show ?thesis
  proof (cases "?s - ?r > len")
    case True
    have "ring (rb_buffer_ptr rb) ?s ?r len = take len (drop ?r (rb_buffer_ptr rb))"
      by (rule ring_block) (use True d in linarith)+
    moreover have "index15 (?r + len) = ?r + len" by (rule index15_small) (use True d in linarith)
    moreover have "?r + len \<le> length (rb_buffer_ptr rb)" using True d by linarith
    ultimately show ?thesis using True nz rc
      by (simp add: rt_ringbuffer_get_def Let_def len copy_from_def rb_read_def rb_advance_def)
  next
    case False
    have rl: "?s - ?r + (len - (?s - ?r)) = len" using False by simp
    have e0: "(?r + (?s - ?r)) mod ?s = 0" using d(4) by simp
    have "ring (rb_buffer_ptr rb) ?s ?r len = ring (rb_buffer_ptr rb) ?s ?r (?s - ?r) @ ring (rb_buffer_ptr rb) ?s 0 (len - (?s - ?r))"
      using ring_split [of "rb_buffer_ptr rb" ?s ?r "?s - ?r" "len - (?s - ?r)"] unfolding rl e0 .
    also have "ring (rb_buffer_ptr rb) ?s ?r (?s - ?r) = take (?s - ?r) (drop ?r (rb_buffer_ptr rb))"
      by (rule ring_block) (use d in linarith)+
    also have "ring (rb_buffer_ptr rb) ?s 0 (len - (?s - ?r)) = take (len - (?s - ?r)) (drop 0 (rb_buffer_ptr rb))"
      by (rule ring_block) (use d l in linarith)+
    finally have sp: "take len (rb_contents rb) = take (?s - ?r) (drop ?r (rb_buffer_ptr rb)) @ take (len - (?s - ?r)) (rb_buffer_ptr rb)"
      using rc by simp
    have "index15 (len - (?s - ?r)) = len - (?s - ?r)" by (rule index15_small) (use d l in linarith)
    moreover have "?r + len - ?s = len - (?s - ?r)" using d(4) by simp
    moreover have "?r + (?s - ?r) \<le> length (rb_buffer_ptr rb)" "len - (?s - ?r) \<le> length (rb_buffer_ptr rb)" using d l by linarith+
    ultimately show ?thesis using False nz sp d(4)
      by (simp add: rt_ringbuffer_get_def Let_def len copy_from_def rb_read_def rb_advance_def)
  qed
qed

lemma rt_ringbuffer_get_spec:
  assumes w: "rb_wf rb"
  shows "returns (rt_ringbuffer_get n rb) (\<lambda>(d, rb'). d = take n (rb_contents rb) \<and> rb_wf rb' \<and>
    rb_contents rb' = drop n (rb_contents rb) \<and> rb_buffer_size rb' = rb_buffer_size rb)"
proof -
  let ?l = "min n (rt_ringbuffer_data_len rb)"
  have l: "?l \<le> rt_ringbuffer_data_len rb" by simp
  have t: "take ?l (rb_contents rb) = take n (rb_contents rb)" "drop ?l (rb_contents rb) = drop n (rb_contents rb)"
    by (simp_all add: min_def)
  show ?thesis unfolding rt_ringbuffer_get_eq [OF w]
    using rb_read_wf(1) [OF w l] rb_read_contents(1) [OF w l] t w
    by (auto simp: rb_read_def rb_contents_def ring_def)
qed

text \<open>The single-byte functions do what the block functions do with one byte.\<close>

lemma rt_ringbuffer_putchar_put:
  assumes w: "rb_wf rb"
  shows "rt_ringbuffer_putchar ch rb = rt_ringbuffer_put [ch] rb"
proof -
  note d = rb_wfD [OF w]
  consider "rt_ringbuffer_space_len rb = 0" | "rt_ringbuffer_space_len rb > 0" "rb_write_index rb + 1 = rb_buffer_size rb"
    | "rt_ringbuffer_space_len rb > 0" "rb_write_index rb + 1 < rb_buffer_size rb"
    using d(5) by linarith
  then show ?thesis
  proof cases
    case 2
    then have "rb_buffer_size rb - rb_write_index rb = 1" by linarith
    then show ?thesis using 2 d(3)
      by (simp add: rt_ringbuffer_putchar_def rt_ringbuffer_put_def Let_def copy_to_def index15_def)
  next
    case 3
    then have "rb_buffer_size rb - rb_write_index rb > 1" "rb_write_index rb + 1 \<noteq> rb_buffer_size rb" by linarith+
    then show ?thesis using 3 by (simp add: rt_ringbuffer_putchar_def rt_ringbuffer_put_def Let_def)
  qed (simp add: rt_ringbuffer_putchar_def rt_ringbuffer_put_def)
qed

lemma rt_ringbuffer_getchar_get:
  assumes w: "rb_wf rb"
  shows "rt_ringbuffer_getchar rb = map_option (\<lambda>(d, rb'). (if d = [] then None else Some (hd d), rb')) (rt_ringbuffer_get 1 rb)"
proof -
  note d = rb_wfD [OF w]
  consider "rt_ringbuffer_data_len rb = 0" | "rt_ringbuffer_data_len rb > 0" "rb_read_index rb + 1 = rb_buffer_size rb"
    | "rt_ringbuffer_data_len rb > 0" "rb_read_index rb + 1 < rb_buffer_size rb"
    using d(4) by linarith
  then show ?thesis
  proof cases
    case 2
    then have "rb_buffer_size rb - rb_read_index rb = 1" by linarith
    then show ?thesis using 2 d(3)
      by (simp add: rt_ringbuffer_getchar_def rt_ringbuffer_get_def Let_def copy_from_def index15_def)
  next
    case 3
    then have "rb_buffer_size rb - rb_read_index rb > 1" "rb_read_index rb + 1 \<noteq> rb_buffer_size rb" by linarith+
    then show ?thesis using 3 d(3) by (simp add: rt_ringbuffer_getchar_def rt_ringbuffer_get_def Let_def copy_from_def)
  qed (simp add: rt_ringbuffer_getchar_def rt_ringbuffer_get_def)
qed

definition rb_putc :: "u8 \<Rightarrow> rt_ringbuffer \<Rightarrow> rt_ringbuffer option" where
  "rb_putc ch rb = (case rt_ringbuffer_putchar ch rb of Some (n, rb') \<Rightarrow> if n = 0 then None else Some rb' | None \<Rightarrow> None)"

definition rb_getc :: "rt_ringbuffer \<Rightarrow> (u8 \<times> rt_ringbuffer) option" where
  "rb_getc rb = (case rt_ringbuffer_getchar rb of Some (Some ch, rb') \<Rightarrow> Some (ch, rb') | _ \<Rightarrow> None)"

interpretation rb: bounded_fifo rb_wf rb_contents rb_buffer_size "\<lambda>_ _. True" rb_putc rb_getc
proof
  fix s :: rt_ringbuffer and x :: u8 and xs
  assume w: "rb_wf s"
  obtain n s' where p: "rt_ringbuffer_put [x] s = Some (n, s')" "n = min 1 (rt_ringbuffer_space_len s)" "rb_wf s'"
    "rb_contents s' = rb_contents s @ take n [x]" "rb_buffer_size s' = rb_buffer_size s"
    using rt_ringbuffer_put_spec [OF w, of "[x]"] by (auto simp: returns_def)
  obtain d t where g: "rt_ringbuffer_get 1 s = Some (d, t)" "d = take 1 (rb_contents s)" "rb_wf t"
    "rb_contents t = drop 1 (rb_contents s)" "rb_buffer_size t = rb_buffer_size s"
    using rt_ringbuffer_get_spec [OF w, of 1] by (auto simp: returns_def)
  note sp = rb_space [OF w]
  show "length (rb_contents s) \<le> rb_buffer_size s" using sp by simp
  show "rb_putc x s = None" if "length (rb_contents s) = rb_buffer_size s"
    using that p(1,2) sp by (simp add: rb_putc_def rt_ringbuffer_putchar_put [OF w])
  show "\<exists>s'. rb_putc x s = Some s' \<and> rb_wf s' \<and> rb_contents s' = rb_contents s @ [x] \<and> rb_buffer_size s' = rb_buffer_size s \<and>
      (\<lambda>_. True) = (\<lambda>_. True)" if "length (rb_contents s) < rb_buffer_size s"
    using that p sp by (simp add: rb_putc_def rt_ringbuffer_putchar_put [OF w])
  show "rb_getc s = None" if "rb_contents s = []"
    using that g by (simp add: rb_getc_def rt_ringbuffer_getchar_get [OF w])
  show "\<exists>s'. rb_getc s = Some (x, s') \<and> rb_wf s' \<and> rb_contents s' = xs \<and> rb_buffer_size s' = rb_buffer_size s \<and>
      (\<lambda>_. True) = (\<lambda>_. True)" if "rb_contents s = x # xs"
    using that g by (simp add: rb_getc_def rt_ringbuffer_getchar_get [OF w])
qed

text \<open>\<open>putchar_force\<close> on a full buffer drops the oldest byte.\<close>

lemma rt_ringbuffer_full_iff:
  assumes "rb_wf rb"
  shows "rt_ringbuffer_status rb = RT_RINGBUFFER_FULL \<longleftrightarrow> rt_ringbuffer_space_len rb = 0"
  using assms rb_data_len [OF assms] by (auto simp: rt_ringbuffer_status_def rt_ringbuffer_space_len_def rb_wf_def split: if_splits)

lemma rb_read_space: "rb_wf rb \<Longrightarrow> rt_ringbuffer_space_len rb = 0 \<Longrightarrow> rt_ringbuffer_space_len (rb_read 1 rb) = 1"
  using rb_space [of rb] rb_read_wf(2) [of rb 1] rb_wfD(1) [of rb] by (simp add: rt_ringbuffer_space_len_def rb_read_def)

lemma rt_ringbuffer_putchar_force_spec:
  assumes w: "rb_wf rb"
  shows "returns (rt_ringbuffer_putchar_force ch rb) (\<lambda>(n, rb'). n = 1 \<and> rb_wf rb' \<and> rb_buffer_size rb' = rb_buffer_size rb \<and>
    rb_contents rb' = (if rt_ringbuffer_space_len rb = 0 then tl (rb_contents rb) else rb_contents rb) @ [ch])"
proof (cases "rt_ringbuffer_space_len rb = 0")
  case False
  then have "rt_ringbuffer_status rb \<noteq> RT_RINGBUFFER_FULL" using rt_ringbuffer_full_iff [OF w] by simp
  then have "rt_ringbuffer_putchar_force ch rb = rt_ringbuffer_putchar ch rb"
    using False by (cases "rb_write_index rb + 1 = rb_buffer_size rb")
      (simp_all add: rt_ringbuffer_putchar_force_def rt_ringbuffer_putchar_def)
  then show ?thesis unfolding rt_ringbuffer_putchar_put [OF w]
    using False by (auto intro!: returns_mono [OF rt_ringbuffer_put_spec [OF w]])
next
  case True
  have f: "rt_ringbuffer_status rb = RT_RINGBUFFER_FULL" using rt_ringbuffer_full_iff [OF w] True by simp
  have ix: "rb_read_index rb = rb_write_index rb" "rb_read_mirror rb \<noteq> rb_write_mirror rb"
    using f by (auto simp: rt_ringbuffer_status_def split: if_splits)
  note d = rb_wfD [OF w]
  have l: "1 \<le> rt_ringbuffer_data_len rb" using rb_space [OF w] True d(1) by simp
  let ?r = "rb_read 1 rb"
  have wr: "rb_wf ?r" "rt_ringbuffer_space_len ?r = 1" using rb_read_wf(1) [OF w l] rb_read_space [OF w True] by simp_all
  have "rt_ringbuffer_putchar_force ch rb = rt_ringbuffer_putchar ch ?r"
  proof (cases "rb_write_index rb + 1 = rb_buffer_size rb")
    case T: True
    then show ?thesis using f ix wr(2) d(3)
      by (simp add: rt_ringbuffer_putchar_force_def rt_ringbuffer_putchar_def rb_read_def rb_advance_def copy_to_def)
  next
    case F: False
    then have "rb_write_index rb + 1 < rb_buffer_size rb" using d(5) by linarith
    moreover have "index15 (rb_write_index rb + 1) = rb_write_index rb + 1" by (rule index15_small) (use d(2,5) in linarith)
    ultimately show ?thesis using F f ix wr(2) d(3)
      by (simp add: rt_ringbuffer_putchar_force_def rt_ringbuffer_putchar_def rb_read_def rb_advance_def copy_to_def)
  qed
  then have e: "rt_ringbuffer_putchar_force ch rb = rt_ringbuffer_put [ch] ?r" unfolding rt_ringbuffer_putchar_put [OF wr(1)] .
  have c: "rb_contents ?r = tl (rb_contents rb)" using rb_read_contents(1) [OF w l] by (simp add: drop_Suc)
  have s: "rb_buffer_size ?r = rb_buffer_size rb" by (simp add: rb_read_def)
  show ?thesis unfolding e
    by (rule returns_mono_pair [OF rt_ringbuffer_put_spec [OF wr(1)]]) (use True wr(2) c s in auto)
qed

text \<open>\<open>put_force\<close> is \<open>put\<close> when there is room.\<close>

lemma rt_ringbuffer_put_force_room:
  assumes w: "rb_wf rb" and l: "ptr \<noteq> []" "length ptr \<le> rt_ringbuffer_space_len rb"
  shows "rt_ringbuffer_put_force ptr rb = rt_ringbuffer_put ptr rb"
proof -
  have "\<not> rb_buffer_size rb < length ptr" "rt_ringbuffer_space_len rb \<noteq> 0" "\<not> rt_ringbuffer_space_len rb < length ptr"
    using l by (auto simp: rt_ringbuffer_space_len_def)
  then show ?thesis by (simp add: rt_ringbuffer_put_force_def rt_ringbuffer_put_def Let_def)
qed

section \<open>What the ring buffer promises\<close>

text \<open>
  C33. Round trip of blocks: in a well-formed buffer \<^verbatim>\<open>rt_ringbuffer_put\<close> stores as many bytes as there is room for and reports how many,
  \<^verbatim>\<open>rt_ringbuffer_get\<close> then returns the oldest bytes in order, the stored ones after those already there, and the buffer
  is left well-formed with the rest; all of it across the wrap-around of the indices.
\<close>

theorem rt_ringbuffer_put_get:
  assumes "rb_wf rb"
  shows "returns (do { (n, rb1) \<leftarrow> rt_ringbuffer_put ptr rb; (d, rb2) \<leftarrow> rt_ringbuffer_get m rb1; Some (n, d, rb2) })
    (\<lambda>(n, d, rb2). n = min (length ptr) (rt_ringbuffer_space_len rb) \<and> d = take m (rb_contents rb @ take n ptr) \<and>
       rb_wf rb2 \<and> rb_contents rb2 = drop m (rb_contents rb @ take n ptr) \<and> rb_buffer_size rb2 = rb_buffer_size rb)"
proof (rule returns_bind_pair [OF rt_ringbuffer_put_spec [OF assms]], elim conjE)
  fix n rb1 assume r: "n = min (length ptr) (rt_ringbuffer_space_len rb)" "rb_wf rb1"
    "rb_contents rb1 = rb_contents rb @ take n ptr" "rb_buffer_size rb1 = rb_buffer_size rb"
  show "returns (do { (d, rb2) \<leftarrow> rt_ringbuffer_get m rb1; Some (n, d, rb2) })
    (\<lambda>(n, d, rb2). n = min (length ptr) (rt_ringbuffer_space_len rb) \<and> d = take m (rb_contents rb @ take n ptr) \<and>
       rb_wf rb2 \<and> rb_contents rb2 = drop m (rb_contents rb @ take n ptr) \<and> rb_buffer_size rb2 = rb_buffer_size rb)"
    using rt_ringbuffer_get_spec [OF r(2), of m] r by (auto elim!: returns_mono)
qed

abbreviation sample_ring :: rt_ringbuffer where
  "sample_ring \<equiv> \<lparr>rb_buffer_ptr = [10, 11, 12, 13, 14, 15, 16, 17], rb_read_mirror = False, rb_read_index = 0,
     rb_write_mirror = False, rb_write_index = 6, rb_buffer_size = 8\<rparr>"

lemma sample_ring_ok: "rb_wf sample_ring" "rb_contents sample_ring = [10, 11, 12, 13, 14, 15]" "rt_ringbuffer_space_len sample_ring = 2"
  by (simp_all add: rb_wf_def rb_contents_def rt_ringbuffer_data_len_def rt_ringbuffer_status_def rt_ringbuffer_space_len_def
      ring_def upt_rec)

theorem rt_ringbuffer_put_get_witness:
  "returns (do { (n, rb1) \<leftarrow> rt_ringbuffer_put [1, 2, 3, 4] sample_ring; (d, rb2) \<leftarrow> rt_ringbuffer_get 7 rb1; Some (n, d, rb2) })
    (\<lambda>(n, d, rb2). n = 2 \<and> d = [10, 11, 12, 13, 14, 15, 1] \<and> rb_contents rb2 = [2])"
  by (rule returns_mono [OF rt_ringbuffer_put_get [OF sample_ring_ok(1)]]) (auto simp: sample_ring_ok(2,3))

text \<open>
  Refinement: byte by byte the buffer is a queue of \<open>buffer_size\<close> bytes.  Every sequence of \<^verbatim>\<open>putchar\<close> and \<^verbatim>\<open>getchar\<close>
  gives the bytes the queue gives; what comes out followed by what is left is what was there followed by the bytes
  accepted, so none is lost, duplicated or reordered.
\<close>

theorem rb_refines_queue:
  assumes "rb_wf rb" and "\<forall>x. Urgent x \<notin> set ops"
  shows "let r = rb.run ops rb in rb_wf (snd r) \<and> queue_spec (rb_buffer_size rb) ops (rb_contents rb) = (fst r, rb_contents (snd r)) \<and>
    fst r @ rb_contents (snd r) = rb_contents rb @ accepted (rb_buffer_size rb) ops (rb_contents rb)"
proof -
  have "rb_wf (snd (rb.run ops rb)) \<and> queue_spec (rb_buffer_size rb) ops (rb_contents rb) = (fst (rb.run ops rb), rb_contents (snd (rb.run ops rb)))"
    by (rule rb.run_refines [OF assms(1)]) (use assms(2) in simp_all)
  then show ?thesis
    using queue_spec_conserves [of ops "rb_buffer_size rb" "rb_contents rb"] assms(2) by (simp add: Let_def)
qed

theorem rb_refines_queue_witness:
  "fst (rb.run [Put 1, Put 2, Put 3, Get, Get] sample_ring) = [10, 11] \<and>
   rb_contents (snd (rb.run [Put 1, Put 2, Put 3, Get, Get] sample_ring)) = [12, 13, 14, 15, 1, 2]"
proof -
  have "queue_spec (rb_buffer_size sample_ring) [Put 1, Put 2, Put 3, Get, Get] [10, 11, 12, 13, 14, 15] =
      ([10, 11], [12, 13, 14, 15, 1, 2 :: u8])" by simp
  moreover have "\<forall>x. Urgent x \<notin> set [Put 1, Put 2, Put 3, Get, Get :: u8 qop]" by simp
  note rb_refines_queue [OF sample_ring_ok(1) this, unfolded Let_def sample_ring_ok(2)]
  ultimately show ?thesis by (simp only: prod.inject simp_thms)
qed

text \<open>
  The byte routines are the block routines for one byte: \<^verbatim>\<open>putchar\<close> is \<^verbatim>\<open>put\<close> of one byte, and \<^verbatim>\<open>getchar\<close> is \<^verbatim>\<open>get\<close> of one byte,
  in the result and in the whole buffer state, although they are coded separately.
\<close>

theorem rt_ringbuffer_char_block:
  assumes "rb_wf rb"
  shows "rt_ringbuffer_putchar ch rb = rt_ringbuffer_put [ch] rb \<and>
    rt_ringbuffer_getchar rb = map_option (\<lambda>(d, rb'). (if d = [] then None else Some (hd d), rb')) (rt_ringbuffer_get 1 rb)"
  using rt_ringbuffer_putchar_put [OF assms] rt_ringbuffer_getchar_get [OF assms] by simp

theorem rt_ringbuffer_char_block_witness:
  "rt_ringbuffer_putchar 5 sample_ring = rt_ringbuffer_put [5] sample_ring"
  using rt_ringbuffer_char_block [OF sample_ring_ok(1)] by simp

text \<open>
  Overwriting can lose everything: \<^verbatim>\<open>rt_ringbuffer_put_force\<close> of four bytes into a well-formed buffer of eight that holds six
  bytes, starting at read index 0, reports four bytes written and leaves the buffer empty, where the last eight of the ten
  bytes were to be kept: it flips the read mirror although the read index has not wrapped.
\<close>

theorem rt_ringbuffer_put_force_loses:
  "rb_wf sample_ring \<and> length (rb_contents sample_ring) = 6 \<and>
   returns (rt_ringbuffer_put_force [1, 2, 3, 4] sample_ring) (\<lambda>(n, rb'). n = 4 \<and> rb_contents rb' = [] \<and>
     rt_ringbuffer_status rb' = RT_RINGBUFFER_EMPTY)"
  using sample_ring_ok
  by (simp add: rt_ringbuffer_put_force_def Let_def copy_to_def index15_def rb_contents_def rt_ringbuffer_data_len_def
      rt_ringbuffer_status_def ring_def)

end
