(* ===== verification/Mailbox.thy ===== *)
theory Mailbox
  imports Ipc Fifo
begin

text \<open>
  The mailboxes of \<^verbatim>\<open>ipc.c\<close>: a ring of 32-bit values with receivers waiting on \<open>MbQ\<close> and senders on \<open>MbSendQ\<close>.
  The ring is an instance of the bounded queue of theory Fifo.  A call that finds the mailbox full or empty
  stops at \<^verbatim>\<open>rt_schedule()\<close> with \<open>Wait\<close> and its local variables; \<open>rt_mb_send_resume\<close> and \<open>rt_mb_recv_resume\<close>
  continue the loop.
\<close>

section \<open>The ring\<close>

abbreviation RT_MB_ENTRY_MAX :: u16 where "RT_MB_ENTRY_MAX \<equiv> 0xffff"

definition get_mb :: "nat \<Rightarrow> kernel \<Rightarrow> rt_mailbox option" where
  "get_mb b k = do {
     mb \<leftarrow> k_mbs k b;
     rt_assert (rt_object_get_type (mb_parent mb) = RT_Object_Class_MailBox);
     Some mb
   }"

definition put_mb :: "nat \<Rightarrow> rt_mailbox \<Rightarrow> kernel \<Rightarrow> kernel" where
  "put_mb b mb k = k\<lparr>k_mbs := (k_mbs k)(b \<mapsto> mb)\<rparr>"

text \<open>Writing outside the pool is not defined.\<close>

definition mb_write :: "u16 \<Rightarrow> u32 \<Rightarrow> rt_mailbox \<Rightarrow> rt_mailbox option" where
  "mb_write i v mb = (if unat i < length (mb_msg_pool mb)
     then Some (mb\<lparr>mb_msg_pool := (mb_msg_pool mb)[unat i := v]\<rparr>) else None)"

definition mb_read :: "u16 \<Rightarrow> rt_mailbox \<Rightarrow> u32 option" where
  "mb_read i mb = (if unat i < length (mb_msg_pool mb) then Some (mb_msg_pool mb ! unat i) else None)"

text \<open>Storing a value at the end of a ring that is not full; \<open>False\<close> is the return with \<open>- RT_EFULL\<close>.\<close>

definition mb_in :: "u32 \<Rightarrow> rt_mailbox \<Rightarrow> (bool \<times> rt_mailbox) option" where
  "mb_in value mb = do {
     mb \<leftarrow> mb_write (mb_in_offset mb) value mb;
     i \<leftarrow> Some (mb_in_offset mb + 1);
     mb \<leftarrow> Some (mb\<lparr>mb_in_offset := if i \<ge> mb_size mb then 0 else i\<rparr>);
     Some (if mb_entry mb < RT_MB_ENTRY_MAX then (True, mb\<lparr>mb_entry := mb_entry mb + 1\<rparr>) else (False, mb))
   }"

definition mb_front :: "u32 \<Rightarrow> rt_mailbox \<Rightarrow> rt_mailbox option" where
  "mb_front value mb = do {
     i \<leftarrow> Some (if mb_out_offset mb > 0 then mb_out_offset mb - 1 else mb_size mb - 1);
     mb \<leftarrow> mb_write i value (mb\<lparr>mb_out_offset := i\<rparr>);
     Some (mb\<lparr>mb_entry := mb_entry mb + 1\<rparr>)
   }"

definition mb_out :: "rt_mailbox \<Rightarrow> (u32 \<times> rt_mailbox) option" where
  "mb_out mb = do {
     v \<leftarrow> mb_read (mb_out_offset mb) mb;
     i \<leftarrow> Some (mb_out_offset mb + 1);
     mb \<leftarrow> Some (mb\<lparr>mb_out_offset := if i \<ge> mb_size mb then 0 else i\<rparr>);
     Some (v, if mb_entry mb > 0 then mb\<lparr>mb_entry := mb_entry mb - 1\<rparr> else mb)
   }"

section \<open>The operations\<close>

definition mb_setup :: "u8 \<Rightarrow> nat \<Rightarrow> u32 list \<Rightarrow> u16 \<Rightarrow> rt_mailbox \<Rightarrow> rt_mailbox" where
  "mb_setup flag addr pool sz mb = mb\<lparr>mb_msg_pool := pool, mb_pool_addr := addr, mb_size := sz, mb_entry := 0,
     mb_in_offset := 0, mb_out_offset := 0, mb_parent := (mb_parent mb)\<lparr>ob_flag := flag\<rparr>\<rparr>"

text \<open>\<open>addr\<close> is the address of the caller's message pool and \<open>pool\<close> what the memory there holds.\<close>

definition rt_mb_init :: "nat \<Rightarrow> u8 list \<Rightarrow> nat \<Rightarrow> u32 list \<Rightarrow> u32 \<Rightarrow> u8 \<Rightarrow> kernel \<Rightarrow> (int \<times> kernel) option" where
  "rt_mb_init b name addr pool sz flag k = do {
     k \<leftarrow> rt_object_init (OMailbox b) RT_Object_Class_MailBox name k;
     k \<leftarrow> Some (rt_ipc_object_init (MbQ b) k);
     mb \<leftarrow> k_mbs k b;
     k \<leftarrow> Some (put_mb b (mb_setup flag addr pool (ucast sz) mb) k);
     Some (RT_EOK, rt_ipc_object_init (MbSendQ b) k)
   }"

definition rt_mb_detach :: "nat \<Rightarrow> kernel \<Rightarrow> (int \<times> kernel) option" where
  "rt_mb_detach b k = do {
     mb \<leftarrow> get_mb b k;
     rt_assert (rt_object_is_systemobject (mb_parent mb));
     k \<leftarrow> rt_ipc_list_resume_all (MbQ b) k;
     k \<leftarrow> rt_ipc_list_resume_all (MbSendQ b) k;
     k \<leftarrow> rt_object_detach (OMailbox b) k;
     Some (RT_EOK, k)
   }"

text \<open>\<open>junk\<close> is what the allocated pool happens to hold.\<close>

definition rt_mb_create :: "(nat \<Rightarrow> u32) \<Rightarrow> u8 list \<Rightarrow> u32 \<Rightarrow> u8 \<Rightarrow> kernel \<Rightarrow> (nat option \<times> kernel) option" where
  "rt_mb_create junk name sz flag k = do {
     rt_assert (k_irq_nest k = 0);
     (obj, k) \<leftarrow> rt_object_allocate RT_Object_Class_MailBox name k;
     case obj of
       None \<Rightarrow> Some (None, k)
     | Some ob \<Rightarrow> do {
         b \<leftarrow> Some (obj_addr ob);
         k \<leftarrow> Some (rt_ipc_object_init (MbQ b) k);
         mb \<leftarrow> k_mbs k b;
         n \<leftarrow> Some (ucast sz :: u16);
         (pool, h) \<leftarrow> rt_malloc (ucast n * 4) (k_irq_nest k) (k_heap k);
         k \<leftarrow> Some (k\<lparr>k_heap := h\<rparr>);
         case pool of
           None \<Rightarrow> do {
             k \<leftarrow> rt_object_delete ob k;
             Some (None, k)
           }
         | Some addr \<Rightarrow> do {
             k \<leftarrow> Some (put_mb b (mb_setup flag addr (map junk [0..<unat n]) n mb) k);
             Some (Some b, rt_ipc_object_init (MbSendQ b) k)
           }
       }
   }"

definition rt_mb_delete :: "nat \<Rightarrow> kernel \<Rightarrow> (int \<times> kernel) option" where
  "rt_mb_delete b k = do {
     rt_assert (k_irq_nest k = 0);
     mb \<leftarrow> get_mb b k;
     rt_assert (\<not> rt_object_is_systemobject (mb_parent mb));
     k \<leftarrow> rt_ipc_list_resume_all (MbQ b) k;
     k \<leftarrow> rt_ipc_list_resume_all (MbSendQ b) k;
     h \<leftarrow> rt_free (Some (mb_pool_addr mb)) (k_irq_nest k) (k_heap k);
     k \<leftarrow> rt_object_delete (OMailbox b) (k\<lparr>k_heap := h\<rparr>);
     Some (RT_EOK, k)
   }"

text \<open>The local variables of a waiting call: the thread, the waiting time and the tick it started to wait at.\<close>

record waiter =
  wt_thread :: nat
  wt_timeout :: int
  wt_tick_delta :: u32

text \<open>One round of the loop of the sender, \<open>thread\<close> being \<^verbatim>\<open>rt_thread_self()\<close>; with room it finishes the call.\<close>

definition mb_send_round :: "nat \<Rightarrow> u32 \<Rightarrow> nat option \<Rightarrow> int \<Rightarrow> u32 \<Rightarrow> kernel \<Rightarrow> ((int, waiter) outcome \<times> kernel) option" where
  "mb_send_round b value thread timeout tick_delta k = do {
     mb \<leftarrow> k_mbs k b;
     if mb_entry mb = mb_size mb then do {
       t \<leftarrow> thread;
       k \<leftarrow> mod_thread t (\<lambda>th. th\<lparr>th_error := RT_EOK\<rparr>) k;
       if timeout = 0 then Some (Done (- RT_EFULL), k)
       else do {
         rt_assert (in_thread_context k);
         tick_delta \<leftarrow> Some (if timeout > 0 then rt_tick_get k else tick_delta);
         k \<leftarrow> ipc_block (MbSendQ b) t (ob_flag (mb_parent mb)) timeout k;
         k \<leftarrow> rt_schedule k;
         Some (Wait \<lparr>wt_thread = t, wt_timeout = timeout, wt_tick_delta = tick_delta\<rparr>, k)
       }
     }
     else do {
       (room, mb) \<leftarrow> mb_in value mb;
       k \<leftarrow> Some (put_mb b mb k);
       if room then do {
         k \<leftarrow> ipc_wake (MbQ b) k;
         Some (Done RT_EOK, k)
       }
       else Some (Done (- RT_EFULL), k)
     }
   }"

definition rt_mb_send_wait :: "nat \<Rightarrow> u32 \<Rightarrow> int \<Rightarrow> kernel \<Rightarrow> ((int, waiter) outcome \<times> kernel) option" where
  "rt_mb_send_wait b value timeout k = do {
     mb \<leftarrow> get_mb b k;
     if mb_entry mb = mb_size mb \<and> timeout = 0 then Some (Done (- RT_EFULL), k)
     else mb_send_round b value (rt_thread_self k) timeout 0 k
   }"

definition rt_mb_send_resume :: "nat \<Rightarrow> u32 \<Rightarrow> waiter \<Rightarrow> kernel \<Rightarrow> ((int, waiter) outcome \<times> kernel) option" where
  "rt_mb_send_resume b value w k = do {
     th \<leftarrow> get_thread (wt_thread w) k;
     if th_error th \<noteq> RT_EOK then Some (Done (th_error th), k)
     else mb_send_round b value (Some (wt_thread w)) (left_timeout (wt_timeout w) (wt_tick_delta w) (rt_tick_get k))
            (if wt_timeout w > 0 then rt_tick_get k - wt_tick_delta w else wt_tick_delta w) k
   }"

definition rt_mb_send :: "nat \<Rightarrow> u32 \<Rightarrow> kernel \<Rightarrow> ((int, waiter) outcome \<times> kernel) option" where
  "rt_mb_send b value k = rt_mb_send_wait b value 0 k"

definition rt_mb_urgent :: "nat \<Rightarrow> u32 \<Rightarrow> kernel \<Rightarrow> (int \<times> kernel) option" where
  "rt_mb_urgent b value k = do {
     mb \<leftarrow> get_mb b k;
     if mb_entry mb = mb_size mb then Some (- RT_EFULL, k)
     else do {
       mb \<leftarrow> mb_front value mb;
       k \<leftarrow> ipc_wake (MbQ b) (put_mb b mb k);
       Some (RT_EOK, k)
     }
   }"

definition mb_recv_round :: "nat \<Rightarrow> nat option \<Rightarrow> int \<Rightarrow> u32 \<Rightarrow> kernel \<Rightarrow> ((int \<times> u32 option, waiter) outcome \<times> kernel) option" where
  "mb_recv_round b thread timeout tick_delta k = do {
     mb \<leftarrow> k_mbs k b;
     if mb_entry mb = 0 then do {
       t \<leftarrow> thread;
       k \<leftarrow> mod_thread t (\<lambda>th. th\<lparr>th_error := RT_EOK\<rparr>) k;
       if timeout = 0 then do {
         k \<leftarrow> mod_thread t (\<lambda>th. th\<lparr>th_error := - RT_ETIMEOUT\<rparr>) k;
         Some (Done (- RT_ETIMEOUT, None), k)
       }
       else do {
         rt_assert (in_thread_context k);
         tick_delta \<leftarrow> Some (if timeout > 0 then rt_tick_get k else tick_delta);
         k \<leftarrow> ipc_block (MbQ b) t (ob_flag (mb_parent mb)) timeout k;
         k \<leftarrow> rt_schedule k;
         Some (Wait \<lparr>wt_thread = t, wt_timeout = timeout, wt_tick_delta = tick_delta\<rparr>, k)
       }
     }
     else do {
       (v, mb) \<leftarrow> mb_out mb;
       k \<leftarrow> ipc_wake (MbSendQ b) (put_mb b mb k);
       Some (Done (RT_EOK, Some v), k)
     }
   }"

definition rt_mb_recv :: "nat \<Rightarrow> int \<Rightarrow> kernel \<Rightarrow> ((int \<times> u32 option, waiter) outcome \<times> kernel) option" where
  "rt_mb_recv b timeout k = do {
     mb \<leftarrow> get_mb b k;
     if mb_entry mb = 0 \<and> timeout = 0 then Some (Done (- RT_ETIMEOUT, None), k)
     else mb_recv_round b (rt_thread_self k) timeout 0 k
   }"

definition rt_mb_recv_resume :: "nat \<Rightarrow> waiter \<Rightarrow> kernel \<Rightarrow> ((int \<times> u32 option, waiter) outcome \<times> kernel) option" where
  "rt_mb_recv_resume b w k = do {
     th \<leftarrow> get_thread (wt_thread w) k;
     if th_error th \<noteq> RT_EOK then Some (Done (th_error th, None), k)
     else mb_recv_round b (Some (wt_thread w)) (left_timeout (wt_timeout w) (wt_tick_delta w) (rt_tick_get k))
            (if wt_timeout w > 0 then rt_tick_get k - wt_tick_delta w else wt_tick_delta w) k
   }"

definition rt_mb_control :: "nat \<Rightarrow> nat \<Rightarrow> kernel \<Rightarrow> (int \<times> kernel) option" where
  "rt_mb_control b cmd k = do {
     _ \<leftarrow> get_mb b k;
     if cmd = RT_IPC_CMD_RESET then do {
       k \<leftarrow> rt_ipc_list_resume_all (MbQ b) k;
       k \<leftarrow> rt_ipc_list_resume_all (MbSendQ b) k;
       mb \<leftarrow> k_mbs k b;
       k \<leftarrow> rt_schedule (put_mb b (mb\<lparr>mb_entry := 0, mb_in_offset := 0, mb_out_offset := 0\<rparr>) k);
       Some (RT_EOK, k)
     }
     else Some (- RT_ERROR, k)
   }"

section \<open>The ring is a queue\<close>

definition mb_ring :: "rt_mailbox \<Rightarrow> bool" where
  "mb_ring mb \<longleftrightarrow> 0 < mb_size mb \<and> mb_entry mb \<le> mb_size mb \<and> unat (mb_size mb) \<le> length (mb_msg_pool mb) \<and>
     mb_out_offset mb < mb_size mb \<and>
     unat (mb_in_offset mb) = (unat (mb_out_offset mb) + unat (mb_entry mb)) mod unat (mb_size mb)"

definition mb_contents :: "rt_mailbox \<Rightarrow> u32 list" where
  "mb_contents mb = ring (mb_msg_pool mb) (unat (mb_size mb)) (unat (mb_out_offset mb)) (unat (mb_entry mb))"

text \<open>The ring operations with the guards the callers put before them.\<close>

definition mb_put :: "u32 \<Rightarrow> rt_mailbox \<Rightarrow> rt_mailbox option" where
  "mb_put v mb = (if mb_entry mb = mb_size mb then None
     else case mb_in v mb of Some (True, mb') \<Rightarrow> Some mb' | _ \<Rightarrow> None)"

definition mb_get :: "rt_mailbox \<Rightarrow> (u32 \<times> rt_mailbox) option" where
  "mb_get mb = (if mb_entry mb = 0 then None else mb_out mb)"

definition mb_urge :: "u32 \<Rightarrow> rt_mailbox \<Rightarrow> rt_mailbox option" where
  "mb_urge v mb = (if mb_entry mb = mb_size mb then None else mb_front v mb)"

lemma unat_next_offset:
  fixes i sz :: u16
  assumes "i < sz"
  shows "unat (if i + 1 \<ge> sz then 0 else i + 1) = (unat i + 1) mod unat sz"
proof -
  have i: "unat (i + 1) = unat i + 1"
  proof -
    have "unat i < unat sz" using assms by (simp add: word_less_nat_alt)
    moreover have "unat sz < 2 ^ 16" using unsigned_less [of sz] by simp
    ultimately show ?thesis by (simp add: unat_word_ariths)
  qed
  show ?thesis
  proof (cases "i + 1 \<ge> sz")
    case True
    then have "unat sz = unat i + 1" using assms i by (simp add: word_le_nat_alt word_less_nat_alt)
    then show ?thesis using True by simp
  next
    case False
    then have "unat i + 1 < unat sz" using i by (simp add: word_le_nat_alt)
    then show ?thesis using False i by simp
  qed
qed

lemma unat_prev_offset:
  fixes i sz :: u16
  assumes "i < sz"
  defines "j \<equiv> if i > 0 then i - 1 else sz - 1"
  shows "unat j < unat sz" and "(unat j + 1) mod unat sz = unat i" and "j < sz"
proof -
  have l: "unat i < unat sz" using assms by (simp add: word_less_nat_alt)
  have "unat j = (if i > 0 then unat i - 1 else unat sz - 1)"
    using l by (auto simp: j_def unat_minus_eq word_le_nat_alt word_less_nat_alt)
  then show "unat j < unat sz" "(unat j + 1) mod unat sz = unat i" using l by (auto simp: word_less_nat_alt)
  then show "j < sz" by (simp add: word_less_nat_alt)
qed

lemma mb_ringD:
  assumes "mb_ring mb"
  shows "0 < unat (mb_size mb)" "unat (mb_entry mb) \<le> unat (mb_size mb)" "unat (mb_size mb) \<le> length (mb_msg_pool mb)"
    "unat (mb_out_offset mb) < unat (mb_size mb)" "unat (mb_in_offset mb) < unat (mb_size mb)"
    "unat (mb_in_offset mb) = (unat (mb_out_offset mb) + unat (mb_entry mb)) mod unat (mb_size mb)"
  using assms by (simp_all add: mb_ring_def word_less_nat_alt word_le_nat_alt)

lemma unat_suc_entry:
  fixes e sz :: u16
  assumes "unat e < unat sz"
  shows "unat (e + 1) = Suc (unat e)" and "e < 0xffff"
proof -
  have "unat sz < 2 ^ 16" using unsigned_less [of sz] by simp
  then have "Suc (unat e) < 2 ^ 16" using assms by simp
  then show "unat (e + 1) = Suc (unat e)" "e < 0xffff" by (simp_all add: unat_word_ariths word_less_nat_alt)
qed

lemma mb_put_room:
  assumes r: "mb_ring mb" and l: "unat (mb_entry mb) < unat (mb_size mb)"
  shows "\<exists>mb'. mb_in v mb = Some (True, mb') \<and> mb_put v mb = Some mb' \<and> mb_ring mb' \<and>
    mb_contents mb' = mb_contents mb @ [v] \<and> mb_size mb' = mb_size mb \<and> mb_parent mb' = mb_parent mb"
proof -
  note d = mb_ringD [OF r]
  let ?i = "mb_in_offset mb"
  let ?mb = "mb\<lparr>mb_msg_pool := (mb_msg_pool mb)[unat ?i := v],
      mb_in_offset := if ?i + 1 \<ge> mb_size mb then 0 else ?i + 1, mb_entry := mb_entry mb + 1\<rparr>"
  have i: "?i < mb_size mb" using d by (simp add: word_less_nat_alt)
  have b: "unat ?i < length (mb_msg_pool mb)" using d by linarith
  have e: "unat (mb_entry mb + 1) = Suc (unat (mb_entry mb))" "mb_entry mb < RT_MB_ENTRY_MAX" by (rule unat_suc_entry [OF l])+
  have in_eq: "mb_in v mb = Some (True, ?mb)" using b e by (simp add: mb_in_def mb_write_def)
  moreover have "mb_entry mb \<noteq> mb_size mb" using l by auto
  moreover have "mb_ring ?mb"
    using d l e(1) unat_next_offset [OF i] r unfolding mb_ring_def
    by (simp add: word_le_nat_alt mod_simps)
  moreover have "mb_contents ?mb = mb_contents mb @ [v]"
    using ring_push [OF l d(3)] e(1) d(6) by (simp add: mb_contents_def)
  ultimately show ?thesis by (intro exI [of _ ?mb]) (simp add: mb_put_def)
qed

lemma mb_get_first:
  assumes r: "mb_ring mb" and l: "0 < unat (mb_entry mb)"
  shows "\<exists>mb'. mb_out mb = Some (hd (mb_contents mb), mb') \<and> mb_ring mb' \<and> mb_contents mb' = tl (mb_contents mb) \<and>
    mb_size mb' = mb_size mb \<and> mb_parent mb' = mb_parent mb"
proof -
  note d = mb_ringD [OF r]
  let ?o = "mb_out_offset mb"
  let ?mb = "mb\<lparr>mb_out_offset := if ?o + 1 \<ge> mb_size mb then 0 else ?o + 1, mb_entry := mb_entry mb - 1\<rparr>"
  have i: "?o < mb_size mb" using d by (simp add: word_less_nat_alt)
  have b: "unat ?o < length (mb_msg_pool mb)" using d by linarith
  have e: "unat (mb_entry mb) = Suc (unat (mb_entry mb - 1))" "0 < mb_entry mb"
    using l by (simp_all add: unat_minus_eq word_le_nat_alt word_less_nat_alt)
  have c: "mb_contents mb = mb_msg_pool mb ! unat ?o # mb_contents ?mb"
    unfolding mb_contents_def e(1) ring_pop using unat_next_offset [OF i] d(4) by simp
  have "mb_out mb = Some (hd (mb_contents mb), ?mb)" using b e c by (simp add: mb_out_def mb_read_def)
  moreover have "mb_ring ?mb"
  proof -
    have "unat (mb_entry mb - 1) \<le> unat (mb_size mb)" using e d by linarith
    moreover have "unat (if ?o + 1 \<ge> mb_size mb then 0 else ?o + 1) < unat (mb_size mb)"
      unfolding unat_next_offset [OF i] using d by simp
    moreover have "unat (mb_in_offset mb) = ((unat ?o + 1) mod unat (mb_size mb) + unat (mb_entry mb - 1)) mod unat (mb_size mb)"
      using d(6) unfolding e(1) by (simp add: mod_simps)
    ultimately show ?thesis using d unat_next_offset [OF i] unfolding mb_ring_def
      by (simp add: word_le_nat_alt word_less_nat_alt)
  qed
  ultimately show ?thesis using c by (intro exI [of _ ?mb]) simp
qed

lemma mb_urge_room:
  assumes r: "mb_ring mb" and l: "unat (mb_entry mb) < unat (mb_size mb)"
  shows "\<exists>mb'. mb_front v mb = Some mb' \<and> mb_ring mb' \<and>
    mb_contents mb' = v # mb_contents mb \<and> mb_size mb' = mb_size mb \<and> mb_parent mb' = mb_parent mb"
proof -
  note d = mb_ringD [OF r]
  let ?o = "mb_out_offset mb"
  let ?j = "if ?o > 0 then ?o - 1 else mb_size mb - 1"
  let ?mb = "mb\<lparr>mb_out_offset := ?j, mb_msg_pool := (mb_msg_pool mb)[unat ?j := v], mb_entry := mb_entry mb + 1\<rparr>"
  have o: "?o < mb_size mb" using d by (simp add: word_less_nat_alt)
  note j = unat_prev_offset [OF o]
  have b: "unat ?j < length (mb_msg_pool mb)" using d j(1) by linarith
  have e: "unat (mb_entry mb + 1) = Suc (unat (mb_entry mb))" by (rule unat_suc_entry [OF l])
  have "mb_front v mb = Some ?mb" using b by (simp add: mb_front_def mb_write_def)
  moreover have "mb_ring ?mb"
  proof -
    have "unat (mb_in_offset mb) = (unat ?j + unat (mb_entry mb + 1)) mod unat (mb_size mb)"
      using d(6) unfolding e j(2) [symmetric] by (simp add: mod_simps)
    then show ?thesis using d j(3) l e unfolding mb_ring_def by (simp add: word_le_nat_alt word_less_nat_alt)
  qed
  moreover have "mb_contents ?mb = v # mb_contents mb"
    using ring_push_front [OF l d(3) j(1)] e j(2) by (simp add: mb_contents_def)
  ultimately show ?thesis by (intro exI [of _ ?mb]) simp
qed

interpretation mb: urgent_fifo mb_ring mb_contents "\<lambda>mb. unat (mb_size mb)" "\<lambda>_ _. True" mb_put mb_get mb_urge
proof
  fix s :: rt_mailbox and x :: u32 and xs
  assume r: "mb_ring s"
  note d = mb_ringD [OF r]
  have len: "length (mb_contents s) = unat (mb_entry s)" by (simp add: mb_contents_def)
  show "length (mb_contents s) \<le> unat (mb_size s)" using d len by simp
  show "mb_put x s = None" "mb_urge x s = None" if "length (mb_contents s) = unat (mb_size s)"
    using that len by (simp_all add: mb_put_def mb_urge_def word_unat_eq_iff)
  show "\<exists>s'. mb_put x s = Some s' \<and> mb_ring s' \<and> mb_contents s' = mb_contents s @ [x] \<and>
      unat (mb_size s') = unat (mb_size s) \<and> (\<lambda>_. True) = (\<lambda>_. True)" if "length (mb_contents s) < unat (mb_size s)"
    using mb_put_room [OF r, of x] that len by auto
  show "\<exists>s'. mb_urge x s = Some s' \<and> mb_ring s' \<and> mb_contents s' = x # mb_contents s \<and>
      unat (mb_size s') = unat (mb_size s) \<and> (\<lambda>_. True) = (\<lambda>_. True)" if "length (mb_contents s) < unat (mb_size s)"
    using mb_urge_room [OF r, of x] that len by (auto simp: mb_urge_def)
  show "mb_get s = None" if "mb_contents s = []" using that len by (simp add: mb_get_def unat_eq_zero)
  show "\<exists>s'. mb_get s = Some (x, s') \<and> mb_ring s' \<and> mb_contents s' = xs \<and>
      unat (mb_size s') = unat (mb_size s) \<and> (\<lambda>_. True) = (\<lambda>_. True)" if "mb_contents s = x # xs"
    using mb_get_first [OF r] that len by (auto simp: mb_get_def)
qed

section \<open>The operations on the kernel state\<close>

definition mb_ok :: "rt_mailbox \<Rightarrow> bool" where
  "mb_ok mb \<longleftrightarrow> rt_object_get_type (mb_parent mb) = RT_Object_Class_MailBox \<and>
     (ob_flag (mb_parent mb) = RT_IPC_FLAG_FIFO \<or> ob_flag (mb_parent mb) = RT_IPC_FLAG_PRIO) \<and> mb_ring mb"

text \<open>
  \<open>mb_moved b h f k k'\<close>: the contents \<open>q\<close> of mailbox \<open>b\<close> became \<open>f q\<close> and the first thread waiting on \<open>h\<close>, if any, was
  woken; nothing else about the IPC objects changed.
\<close>

definition mb_moved :: "nat \<Rightarrow> lhead \<Rightarrow> (u32 list \<Rightarrow> u32 list) \<Rightarrow> kernel \<Rightarrow> kernel \<Rightarrow> bool" where
  "mb_moved b h f k k' \<longleftrightarrow>
     (\<exists>mb mb'. k_mbs k b = Some mb \<and> k_mbs k' = (k_mbs k)(b \<mapsto> mb') \<and> mb_ok mb' \<and> mb_contents mb' = f (mb_contents mb)) \<and>
     k_lists k' h = tl (k_lists k h) \<and> (\<forall>g. wait_head g \<longrightarrow> g \<noteq> h \<longrightarrow> k_lists k' g = k_lists k g) \<and>
     (\<forall>t ts. k_lists k h = t # ts \<longrightarrow> (\<exists>th. k_threads k' t = Some th \<and> thread_stat th \<noteq> RT_THREAD_SUSPEND))"

lemma kinvx_put_mb [simp]: "kinvx X (put_mb b mb k) = kinvx X k"
  by (simp add: kinvx_def put_mb_def)

lemma put_mb_fields [simp]:
  "k_current (put_mb b mb k) = k_current k" "k_lists (put_mb b mb k) = k_lists k" "k_threads (put_mb b mb k) = k_threads k"
  "k_mbs (put_mb b mb k) = (k_mbs k)(b \<mapsto> mb)"
  by (simp_all add: put_mb_def)

lemma mb_wake:
  assumes i: "kinv k" and c: "k_current k = Some c" and h: "wait_head h"
    and mb: "k_mbs k b = Some mb" "mb_ok mb'" "mb_contents mb' = f (mb_contents mb)"
  shows "returns (ipc_wake h (put_mb b mb' k)) (\<lambda>k'. kinv k' \<and> mb_moved b h f k k')"
proof -
  have k: "kinv (put_mb b mb' k)" "k_current (put_mb b mb' k) = Some c" using i c by simp_all
  show ?thesis
    by (rule returns_mono [OF ipc_wake_kinvx [OF k(1) h k(2)]])
      (use mb in \<open>auto simp: mb_moved_def fields_frame_def\<close>)
qed

lemma mb_ok_same: "mb_ok mb \<Longrightarrow> mb_ring mb' \<Longrightarrow> mb_parent mb' = mb_parent mb \<Longrightarrow> mb_ok mb'"
  by (simp add: mb_ok_def)

lemma rt_mb_send_wait_room:
  assumes i: "kinv k" and c: "k_current k = Some c" and mb: "k_mbs k b = Some mb" "mb_ok mb" "mb_entry mb < mb_size mb"
  shows "returns (rt_mb_send_wait b v timeout k) (\<lambda>(r, k'). r = Done RT_EOK \<and> kinv k' \<and> mb_moved b (MbQ b) (\<lambda>q. q @ [v]) k k')"
proof -
  have r: "mb_ring mb" using mb by (simp add: mb_ok_def)
  obtain mb' where mb': "mb_in v mb = Some (True, mb')" "mb_ring mb'" "mb_contents mb' = mb_contents mb @ [v]" "mb_parent mb' = mb_parent mb"
    using mb_put_room [OF r, of v] mb(3) by (auto simp: word_less_nat_alt)
  have e: "rt_mb_send_wait b v timeout k = Option.bind (ipc_wake (MbQ b) (put_mb b mb' k)) (\<lambda>k. Some (Done RT_EOK, k))"
    using mb mb' by (simp add: rt_mb_send_wait_def get_mb_def mb_ok_def mb_send_round_def less_imp_neq)
  have "returns (ipc_wake (MbQ b) (put_mb b mb' k)) (\<lambda>k'. kinv k' \<and> mb_moved b (MbQ b) (\<lambda>q. q @ [v]) k k')"
    by (rule mb_wake [OF i c _ mb(1) mb_ok_same [OF mb(2) mb'(2,4)]]) (simp_all add: mb')
  then show ?thesis unfolding e by (auto elim!: returns_mono)
qed

lemma rt_mb_send_full:
  assumes "k_mbs k b = Some mb" "mb_ok mb" "mb_entry mb = mb_size mb"
  shows "rt_mb_send b v k = Some (Done (- RT_EFULL), k)" and "rt_mb_urgent b v k = Some (- RT_EFULL, k)"
  using assms by (simp_all add: rt_mb_send_def rt_mb_send_wait_def rt_mb_urgent_def get_mb_def mb_ok_def)

lemma rt_mb_urgent_room:
  assumes i: "kinv k" and c: "k_current k = Some c" and mb: "k_mbs k b = Some mb" "mb_ok mb" "mb_entry mb < mb_size mb"
  shows "returns (rt_mb_urgent b v k) (\<lambda>(r, k'). r = RT_EOK \<and> kinv k' \<and> mb_moved b (MbQ b) (\<lambda>q. v # q) k k')"
proof -
  have r: "mb_ring mb" using mb by (simp add: mb_ok_def)
  obtain mb' where mb': "mb_front v mb = Some mb'" "mb_ring mb'" "mb_contents mb' = v # mb_contents mb" "mb_parent mb' = mb_parent mb"
    using mb_urge_room [OF r, of v] mb(3) by (auto simp: word_less_nat_alt)
  have e: "rt_mb_urgent b v k = Option.bind (ipc_wake (MbQ b) (put_mb b mb' k)) (\<lambda>k. Some (RT_EOK, k))"
    using mb mb' by (simp add: rt_mb_urgent_def get_mb_def mb_ok_def less_imp_neq)
  have "returns (ipc_wake (MbQ b) (put_mb b mb' k)) (\<lambda>k'. kinv k' \<and> mb_moved b (MbQ b) (\<lambda>q. v # q) k k')"
    by (rule mb_wake [OF i c _ mb(1) mb_ok_same [OF mb(2) mb'(2,4)]]) (simp_all add: mb')
  then show ?thesis unfolding e by (auto elim!: returns_mono)
qed

lemma rt_mb_recv_some:
  assumes i: "kinv k" and c: "k_current k = Some c" and mb: "k_mbs k b = Some mb" "mb_ok mb" "mb_contents mb = v # vs"
  shows "returns (rt_mb_recv b timeout k) (\<lambda>(r, k'). r = Done (RT_EOK, Some v) \<and> kinv k' \<and> mb_moved b (MbSendQ b) tl k k')"
proof -
  have r: "mb_ring mb" using mb by (simp add: mb_ok_def)
  have n: "0 < unat (mb_entry mb)" "mb_entry mb \<noteq> 0"
    using arg_cong [OF mb(3), of length] by (auto simp: mb_contents_def)
  obtain mb' where mb': "mb_out mb = Some (v, mb')" "mb_ring mb'" "mb_contents mb' = tl (mb_contents mb)" "mb_parent mb' = mb_parent mb"
    using mb_get_first [OF r n(1)] mb(3) by auto
  have e: "rt_mb_recv b timeout k = Option.bind (ipc_wake (MbSendQ b) (put_mb b mb' k)) (\<lambda>k. Some (Done (RT_EOK, Some v), k))"
    using mb mb' n by (simp add: rt_mb_recv_def get_mb_def mb_ok_def mb_recv_round_def)
  have "returns (ipc_wake (MbSendQ b) (put_mb b mb' k)) (\<lambda>k'. kinv k' \<and> mb_moved b (MbSendQ b) tl k k')"
    by (rule mb_wake [OF i c _ mb(1) mb_ok_same [OF mb(2) mb'(2,4)]]) (simp_all add: mb')
  then show ?thesis unfolding e by (auto elim!: returns_mono)
qed

lemma rt_mb_recv_empty:
  assumes "k_mbs k b = Some mb" "mb_ok mb" "mb_contents mb = []"
  shows "rt_mb_recv b 0 k = Some (Done (- RT_ETIMEOUT, None), k)"
proof -
  have "mb_entry mb = 0" using assms(3) by (simp add: mb_contents_def unat_eq_zero)
  then show ?thesis using assms by (simp add: rt_mb_recv_def get_mb_def mb_ok_def)
qed

lemma rt_mb_recv_blocks:
  assumes i: "kinv k" and c: "k_current k = Some t" "k_threads k t = Some th" "thread_stat th = RT_THREAD_RUNNING"
    and irq: "k_irq_nest k = 0" and mb: "k_mbs k b = Some mb" "mb_ok mb" "mb_contents mb = []"
    and n: "timeout \<noteq> 0" "timeout < 2 ^ 31 - 1"
  shows "returns (rt_mb_recv b timeout k) (\<lambda>(r, k'). (\<exists>w. r = Wait w \<and> wt_thread w = t \<and> wt_timeout w = timeout) \<and> kinv k' \<and>
    k_mbs k' = k_mbs k \<and> t \<in> set (k_lists k' (MbQ b)) \<and> (timeout > 0 \<longleftrightarrow> Thread_timer t \<in> set (k_timer_list k')))"
proof -
  have z: "mb_entry mb = 0" using mb(3) by (simp add: mb_contents_def unat_eq_zero)
  let ?w = "\<lparr>wt_thread = t, wt_timeout = timeout, wt_tick_delta = if timeout > 0 then rt_tick_get k else 0\<rparr>"
  let ?k = "k\<lparr>k_threads := (k_threads k)(t \<mapsto> th\<lparr>th_error := RT_EOK\<rparr>)\<rparr>"
  have e: "rt_mb_recv b timeout k = Option.bind (ipc_block (MbQ b) t (ob_flag (mb_parent mb)) timeout ?k)
      (\<lambda>k. Option.bind (rt_schedule k) (\<lambda>k. Some (Wait ?w, k)))"
    using mb c irq n z by (simp add: rt_mb_recv_def get_mb_def mb_ok_def mb_recv_round_def rt_thread_self_def mod_thread_def
        in_thread_context_def rt_tick_get_def)
  show ?thesis unfolding e
    by (rule returns_mono [OF block_cleared [OF i c _ _ n(2)]]) (use mb(2) in \<open>auto simp: mb_ok_def fields_frame_def\<close>)
qed

lemma rt_mb_send_blocks:
  assumes i: "kinv k" and c: "k_current k = Some t" "k_threads k t = Some th" "thread_stat th = RT_THREAD_RUNNING"
    and irq: "k_irq_nest k = 0" and mb: "k_mbs k b = Some mb" "mb_ok mb" "mb_entry mb = mb_size mb"
    and n: "timeout \<noteq> 0" "timeout < 2 ^ 31 - 1"
  shows "returns (rt_mb_send_wait b v timeout k) (\<lambda>(r, k'). (\<exists>w. r = Wait w \<and> wt_thread w = t \<and> wt_timeout w = timeout) \<and> kinv k' \<and>
    k_mbs k' = k_mbs k \<and> t \<in> set (k_lists k' (MbSendQ b)) \<and> (timeout > 0 \<longleftrightarrow> Thread_timer t \<in> set (k_timer_list k')))"
proof -
  let ?w = "\<lparr>wt_thread = t, wt_timeout = timeout, wt_tick_delta = if timeout > 0 then rt_tick_get k else 0\<rparr>"
  let ?k = "k\<lparr>k_threads := (k_threads k)(t \<mapsto> th\<lparr>th_error := RT_EOK\<rparr>)\<rparr>"
  have e: "rt_mb_send_wait b v timeout k = Option.bind (ipc_block (MbSendQ b) t (ob_flag (mb_parent mb)) timeout ?k)
      (\<lambda>k. Option.bind (rt_schedule k) (\<lambda>k. Some (Wait ?w, k)))"
    using mb c irq n by (simp add: rt_mb_send_wait_def get_mb_def mb_ok_def mb_send_round_def rt_thread_self_def mod_thread_def
        in_thread_context_def rt_tick_get_def)
  show ?thesis unfolding e
    by (rule returns_mono [OF block_cleared [OF i c _ _ n(2)]]) (use mb(2) in \<open>auto simp: mb_ok_def fields_frame_def\<close>)
qed

section \<open>What mailboxes promise\<close>

text \<open>
  C30. Refinement: the ring of a mailbox -- the pool with its in and out offsets and the entry count -- implements a bounded
  queue with insertion at the front.  Every sequence of sends, urgent sends and receives gives the values the queue of
  the same capacity gives and ends in a ring with the contents of that queue.
\<close>

theorem mb_refines_queue:
  assumes "mb_ring mb"
  shows "mb_ring (snd (mb.urun ops mb)) \<and> queue_spec (unat (mb_size mb)) ops (mb_contents mb) =
    (fst (mb.urun ops mb), mb_contents (snd (mb.urun ops mb)))"
  by (rule mb.urun_refines [OF assms]) simp

lemma sample_mailbox_ok:
  assumes "length vs \<le> 4"
  shows "mb_ok (sample_mailbox vs)" and "mb_contents (sample_mailbox vs) = vs"
    and "mb_size (sample_mailbox vs) = 4" and "unat (mb_entry (sample_mailbox vs)) = length vs"
proof -
  show s: "mb_size (sample_mailbox vs) = 4" by (simp add: sample_mailbox_def)
  show u: "unat (mb_entry (sample_mailbox vs)) = length vs"
    using assms by (simp add: sample_mailbox_def unat_of_nat take_bit_nat_eq_self)
  have i: "unat (mb_in_offset (sample_mailbox vs)) = length vs mod 4"
    using assms by (simp add: sample_mailbox_def unat_mod unat_of_nat take_bit_nat_eq_self)
  have "mb_ring (sample_mailbox vs)"
    unfolding mb_ring_def s using u i assms by (auto simp: sample_mailbox_def word_le_nat_alt unat_of_nat take_bit_nat_eq_self)
  then show "mb_ok (sample_mailbox vs)"
    by (simp add: mb_ok_def sample_mailbox_def sample_object_def rt_object_get_type_def)
  have "ring (vs @ replicate (4 - length vs) 0) 4 0 (length vs) = vs"
    using assms by (intro nth_equalityI) (auto simp: ring_def nth_append)
  then show "mb_contents (sample_mailbox vs) = vs"
    unfolding mb_contents_def s u by (simp add: sample_mailbox_def)
qed

theorem mb_refines_queue_witness:
  "fst (mb.urun [Put 9, Get, Urgent 5, Get, Get] (sample_mailbox [7, 8])) = [7, 5, 8] \<and>
   mb_contents (snd (mb.urun [Put 9, Get, Urgent 5, Get, Get] (sample_mailbox [7, 8]))) = [9]"
proof -
  note o = sample_mailbox_ok [of "[7, 8]", simplified]
  have "queue_spec (unat (4 :: u16)) [Put 9, Get, Urgent 5, Get, Get] [7, 8] = ([7, 5, 8], [9 :: u32])" by simp
  moreover have "mb_ring (sample_mailbox [7, 8])" using o(1) by (simp add: mb_ok_def)
  note mb_refines_queue [OF this, of "[Put 9, Get, Urgent 5, Get, Get]", unfolded o(2,3)]
  ultimately show ?thesis by (simp only: prod.inject simp_thms)
qed

text \<open>
  \<^verbatim>\<open>rt_mb_send_wait\<close> by the running thread, on every branch: with room the value goes to the end of the mailbox and the first
  waiting receiver, if any, is made runnable; a full mailbox gives \<open>-RT_EFULL\<close> without a change when there is no waiting
  time, and otherwise the sender waits.  The kernel invariant is kept.
\<close>

theorem rt_mb_send_wait_correct:
  assumes i: "kinv k" and c: "k_current k = Some t" "k_threads k t = Some th" "thread_stat th = RT_THREAD_RUNNING"
    and irq: "k_irq_nest k = 0" and mb: "k_mbs k b = Some mb" "mb_ok mb" and n: "timeout < 2 ^ 31 - 1"
  shows "returns (rt_mb_send_wait b v timeout k) (\<lambda>(r, k'). kinv k' \<and>
    (if length (mb_contents mb) < unat (mb_size mb) then r = Done RT_EOK \<and> mb_moved b (MbQ b) (\<lambda>q. q @ [v]) k k'
     else if timeout = 0 then r = Done (- RT_EFULL) \<and> k' = k
     else (\<exists>w. r = Wait w \<and> wt_thread w = t) \<and> k_mbs k' = k_mbs k \<and> t \<in> set (k_lists k' (MbSendQ b)) \<and>
       (0 < timeout \<longleftrightarrow> Thread_timer t \<in> set (k_timer_list k'))))"
proof -
  have len: "length (mb_contents mb) = unat (mb_entry mb)" by (simp add: mb_contents_def)
  have le: "mb_entry mb \<le> mb_size mb" using mb(2) by (simp add: mb_ok_def mb_ring_def)
  consider (room) "mb_entry mb < mb_size mb" | (no) "mb_entry mb = mb_size mb" "timeout = 0"
    | (wait) "mb_entry mb = mb_size mb" "timeout \<noteq> 0"
    using le by (auto simp: le_less)
  then show ?thesis
  proof cases
    case room
    then show ?thesis
      using rt_mb_send_wait_room [OF i c(1) mb room, of v timeout] len by (auto simp: word_less_nat_alt elim!: returns_mono)
  next
    case no
    then show ?thesis using rt_mb_send_full(1) [OF mb no(1), of v] i len by (simp add: rt_mb_send_def)
  next
    case wait
    then show ?thesis
      using rt_mb_send_blocks [OF i c irq mb wait n, of v] len by (auto elim!: returns_mono)
  qed
qed

theorem rt_mb_send_wait_correct_witness:
  "returns (rt_mb_send_wait 401 9 0 sample_kernel) (\<lambda>(r, k'). kinv k' \<and> r = Done RT_EOK \<and>
    (\<exists>mb. k_mbs k' 401 = Some mb \<and> mb_contents mb = [7, 8, 9]))"
proof -
  have m: "k_mbs sample_kernel 401 = Some (sample_mailbox [7, 8])" by (simp add: sample_kernel_def)
  note o = sample_mailbox_ok [of "[7, 8]", simplified]
  have "returns (rt_mb_send_wait 401 9 0 sample_kernel) (\<lambda>(r, k'). kinv k' \<and>
    (if length (mb_contents (sample_mailbox [7, 8])) < unat (mb_size (sample_mailbox [7, 8]))
     then r = Done RT_EOK \<and> mb_moved 401 (MbQ 401) (\<lambda>q. q @ [9]) sample_kernel k'
     else if (0 :: int) = 0 then r = Done (- RT_EFULL) \<and> k' = sample_kernel
     else (\<exists>w. r = Wait w \<and> wt_thread w = 10) \<and> k_mbs k' = k_mbs sample_kernel \<and> 10 \<in> set (k_lists k' (MbSendQ 401)) \<and>
       (0 < (0 :: int) \<longleftrightarrow> Thread_timer 10 \<in> set (k_timer_list k'))))"
    by (rule rt_mb_send_wait_correct [where th = "sample_thread RT_THREAD_RUNNING 10"]) (simp_all add: m o)
  then show ?thesis by (rule returns_mono_pair) (auto simp: o m mb_moved_def)
qed

text \<open>
  \<^verbatim>\<open>rt_mb_recv\<close> by the running thread, on every branch: the oldest value is returned and removed and the first waiting sender,
  if any, is made runnable; an empty mailbox gives \<open>-RT_ETIMEOUT\<close> without a change when there is no waiting time, and
  otherwise the receiver waits.  The kernel invariant is kept.
\<close>

theorem rt_mb_recv_correct:
  assumes i: "kinv k" and c: "k_current k = Some t" "k_threads k t = Some th" "thread_stat th = RT_THREAD_RUNNING"
    and irq: "k_irq_nest k = 0" and mb: "k_mbs k b = Some mb" "mb_ok mb" and n: "timeout < 2 ^ 31 - 1"
  shows "returns (rt_mb_recv b timeout k) (\<lambda>(r, k'). kinv k' \<and>
    (case mb_contents mb of
       v # _ \<Rightarrow> r = Done (RT_EOK, Some v) \<and> mb_moved b (MbSendQ b) tl k k'
     | [] \<Rightarrow> if timeout = 0 then r = Done (- RT_ETIMEOUT, None) \<and> k' = k
            else (\<exists>w. r = Wait w \<and> wt_thread w = t) \<and> k_mbs k' = k_mbs k \<and> t \<in> set (k_lists k' (MbQ b)) \<and>
              (0 < timeout \<longleftrightarrow> Thread_timer t \<in> set (k_timer_list k'))))"
proof (cases "mb_contents mb")
  case Nil
  show ?thesis
  proof (cases "timeout = 0")
    case True
    then show ?thesis using rt_mb_recv_empty [OF mb Nil] i Nil by simp
  next
    case False
    then show ?thesis using rt_mb_recv_blocks [OF i c irq mb Nil False n] Nil by (auto elim!: returns_mono)
  qed
next
  case (Cons v vs)
  then show ?thesis using rt_mb_recv_some [OF i c(1) mb Cons, of timeout] by (auto elim!: returns_mono)
qed

theorem rt_mb_recv_correct_witness:
  "returns (rt_mb_recv 401 0 sample_kernel) (\<lambda>(r, k'). kinv k' \<and> r = Done (RT_EOK, Some 7) \<and>
    (\<exists>mb. k_mbs k' 401 = Some mb \<and> mb_contents mb = [8]))"
proof -
  have m: "k_mbs sample_kernel 401 = Some (sample_mailbox [7, 8])" by (simp add: sample_kernel_def)
  note o = sample_mailbox_ok [of "[7, 8]", simplified]
  have "returns (rt_mb_recv 401 0 sample_kernel) (\<lambda>(r, k'). kinv k' \<and>
    (case mb_contents (sample_mailbox [7, 8]) of
       v # _ \<Rightarrow> r = Done (RT_EOK, Some v) \<and> mb_moved 401 (MbSendQ 401) tl sample_kernel k'
     | [] \<Rightarrow> if (0 :: int) = 0 then r = Done (- RT_ETIMEOUT, None) \<and> k' = sample_kernel
            else (\<exists>w. r = Wait w \<and> wt_thread w = 10) \<and> k_mbs k' = k_mbs sample_kernel \<and> 10 \<in> set (k_lists k' (MbQ 401)) \<and>
              (0 < (0 :: int) \<longleftrightarrow> Thread_timer 10 \<in> set (k_timer_list k'))))"
    by (rule rt_mb_recv_correct [where th = "sample_thread RT_THREAD_RUNNING 10"]) (simp_all add: m o)
  then show ?thesis by (rule returns_mono_pair) (auto simp: o m mb_moved_def)
qed

end
