(* ===== verification/MessageQueue.thy ===== *)
theory MessageQueue
  imports Mailbox
begin

text \<open>
  The message queues of \<^verbatim>\<open>ipc.c\<close>: messages of a fixed size in a pool, on a linked queue or on a linked free
  list, or in flight while a call that has enabled interrupts copies their bytes.  The sections that run with
  interrupts disabled are separate operations on the queue; \<open>mq_rep\<close> is the invariant that holds between any
  two of them, whatever other calls run in between.
\<close>

section \<open>The atomic sections\<close>

abbreviation RT_MQ_ENTRY_MAX :: u16 where "RT_MQ_ENTRY_MAX \<equiv> 0xffff"

definition get_mq :: "nat \<Rightarrow> kernel \<Rightarrow> rt_messagequeue option" where
  "get_mq b k = do {
     mq \<leftarrow> k_mqs k b;
     rt_assert (rt_object_get_type (mq_parent mq) = RT_Object_Class_MessageQueue);
     Some mq
   }"

definition put_mq :: "nat \<Rightarrow> rt_messagequeue \<Rightarrow> kernel \<Rightarrow> kernel" where
  "put_mq b mq k = k\<lparr>k_mqs := (k_mqs k)(b \<mapsto> mq)\<rparr>"

text \<open>Writing the link and the bytes of a message of the pool.\<close>

definition msg_set_next :: "nat \<Rightarrow> nat option \<Rightarrow> rt_messagequeue \<Rightarrow> rt_messagequeue option" where
  "msg_set_next msg nx mq = do {
     m \<leftarrow> mq_msg_pool mq msg;
     Some (mq\<lparr>mq_msg_pool := (mq_msg_pool mq)(msg \<mapsto> m\<lparr>mm_next := nx\<rparr>)\<rparr>)
   }"

definition mq_fill :: "nat \<Rightarrow> u8 list \<Rightarrow> rt_messagequeue \<Rightarrow> rt_messagequeue option" where
  "mq_fill msg buffer mq = do {
     m \<leftarrow> mq_msg_pool mq msg;
     Some (mq\<lparr>mq_msg_pool := (mq_msg_pool mq)(msg \<mapsto> m\<lparr>mm_data := buffer @ drop (length buffer) (mm_data m)\<rparr>)\<rparr>)
   }"

text \<open>Taking the first free message.\<close>

definition mq_alloc :: "nat \<Rightarrow> rt_messagequeue \<Rightarrow> rt_messagequeue option" where
  "mq_alloc msg mq = do {
     m \<leftarrow> mq_msg_pool mq msg;
     Some (mq\<lparr>mq_msg_queue_free := mm_next m\<rparr>)
   }"

text \<open>Linking a message at the end or at the beginning; \<open>False\<close> is the return with \<open>- RT_EFULL\<close>.\<close>

definition mq_count :: "rt_messagequeue \<Rightarrow> bool \<times> rt_messagequeue" where
  "mq_count mq = (if mq_entry mq < RT_MQ_ENTRY_MAX then (True, mq\<lparr>mq_entry := mq_entry mq + 1\<rparr>) else (False, mq))"

definition mq_link :: "nat \<Rightarrow> rt_messagequeue \<Rightarrow> (bool \<times> rt_messagequeue) option" where
  "mq_link msg mq = do {
     mq \<leftarrow> (case mq_msg_queue_tail mq of Some t \<Rightarrow> msg_set_next t (Some msg) mq | None \<Rightarrow> Some mq);
     mq \<leftarrow> Some (mq\<lparr>mq_msg_queue_tail := Some msg\<rparr>);
     mq \<leftarrow> Some (if mq_msg_queue_head mq = None then mq\<lparr>mq_msg_queue_head := Some msg\<rparr> else mq);
     Some (mq_count mq)
   }"

definition mq_link_front :: "nat \<Rightarrow> rt_messagequeue \<Rightarrow> (bool \<times> rt_messagequeue) option" where
  "mq_link_front msg mq = do {
     mq \<leftarrow> msg_set_next msg (mq_msg_queue_head mq) mq;
     mq \<leftarrow> Some (mq\<lparr>mq_msg_queue_head := Some msg\<rparr>);
     mq \<leftarrow> Some (if mq_msg_queue_tail mq = None then mq\<lparr>mq_msg_queue_tail := Some msg\<rparr> else mq);
     Some (mq_count mq)
   }"

text \<open>Unlinking the first message, and putting a message back on the free list.\<close>

definition mq_unlink :: "rt_messagequeue \<Rightarrow> (nat \<times> rt_messagequeue) option" where
  "mq_unlink mq = do {
     msg \<leftarrow> mq_msg_queue_head mq;
     m \<leftarrow> mq_msg_pool mq msg;
     mq \<leftarrow> Some (mq\<lparr>mq_msg_queue_head := mm_next m\<rparr>);
     mq \<leftarrow> Some (if mq_msg_queue_tail mq = Some msg then mq\<lparr>mq_msg_queue_tail := None\<rparr> else mq);
     Some (msg, if mq_entry mq > 0 then mq\<lparr>mq_entry := mq_entry mq - 1\<rparr> else mq)
   }"

definition mq_release :: "nat \<Rightarrow> rt_messagequeue \<Rightarrow> rt_messagequeue option" where
  "mq_release msg mq = do {
     mq \<leftarrow> msg_set_next msg (mq_msg_queue_free mq) mq;
     Some (mq\<lparr>mq_msg_queue_free := Some msg\<rparr>)
   }"

definition mq_copy :: "nat \<Rightarrow> nat \<Rightarrow> rt_messagequeue \<Rightarrow> u8 list option" where
  "mq_copy msg sz mq = do {
     m \<leftarrow> mq_msg_pool mq msg;
     Some (take (if sz > unat (mq_msg_size mq) then unat (mq_msg_size mq) else sz) (mm_data m))
   }"

text \<open>A whole send, urgent send and receive of one message, without interruption.\<close>

definition mq_push :: "nat \<Rightarrow> u8 list \<Rightarrow> rt_messagequeue \<Rightarrow> (bool \<times> rt_messagequeue) option" where
  "mq_push msg buffer mq = do {
     mq \<leftarrow> mq_alloc msg mq;
     mq \<leftarrow> msg_set_next msg None mq;
     mq \<leftarrow> mq_fill msg buffer mq;
     mq_link msg mq
   }"

definition mq_push_front :: "nat \<Rightarrow> u8 list \<Rightarrow> rt_messagequeue \<Rightarrow> (bool \<times> rt_messagequeue) option" where
  "mq_push_front msg buffer mq = do {
     mq \<leftarrow> mq_alloc msg mq;
     mq \<leftarrow> mq_fill msg buffer mq;
     mq_link_front msg mq
   }"

definition mq_pop :: "nat \<Rightarrow> rt_messagequeue \<Rightarrow> (u8 list \<times> rt_messagequeue) option" where
  "mq_pop sz mq = do {
     (msg, mq) \<leftarrow> mq_unlink mq;
     d \<leftarrow> mq_copy msg sz mq;
     mq \<leftarrow> mq_release msg mq;
     Some (d, mq)
   }"

section \<open>The operations\<close>

text \<open>The loop that puts all messages of the pool on the free list; \<open>junk\<close> is what the memory holds.\<close>

definition mq_slot :: "rt_messagequeue \<Rightarrow> nat \<Rightarrow> nat" where
  "mq_slot mq temp = mq_pool_addr mq + temp * (unat (mq_msg_size mq) + 4)"

definition mq_add_free :: "(nat \<Rightarrow> u8) \<Rightarrow> nat \<Rightarrow> rt_messagequeue \<Rightarrow> rt_messagequeue" where
  "mq_add_free junk temp mq = (let hd = mq_slot mq temp in
     mq\<lparr>mq_msg_pool := (mq_msg_pool mq)(hd \<mapsto> \<lparr>mm_next = mq_msg_queue_free mq,
            mm_data = map (\<lambda>i. junk (hd + 4 + i)) [0..<unat (mq_msg_size mq)]\<rparr>),
        mq_msg_queue_free := Some hd\<rparr>)"

definition mq_setup :: "(nat \<Rightarrow> u8) \<Rightarrow> u8 \<Rightarrow> nat \<Rightarrow> u16 \<Rightarrow> u16 \<Rightarrow> rt_messagequeue \<Rightarrow> rt_messagequeue" where
  "mq_setup junk flag addr msg_size max_msgs mq =
     (let mq = mq\<lparr>mq_parent := (mq_parent mq)\<lparr>ob_flag := flag\<rparr>, mq_msg_pool := Map.empty, mq_pool_addr := addr,
                  mq_msg_size := msg_size, mq_max_msgs := max_msgs, mq_msg_queue_head := None,
                  mq_msg_queue_tail := None, mq_msg_queue_free := None\<rparr>
      in (fold (mq_add_free junk) [0..<unat max_msgs] mq)\<lparr>mq_entry := 0\<rparr>)"

definition rt_mq_init :: "(nat \<Rightarrow> u8) \<Rightarrow> nat \<Rightarrow> u8 list \<Rightarrow> nat \<Rightarrow> u32 \<Rightarrow> u32 \<Rightarrow> u8 \<Rightarrow> kernel \<Rightarrow> (int \<times> kernel) option" where
  "rt_mq_init junk b name msgpool msg_size pool_size flag k = do {
     k \<leftarrow> rt_object_init (OMq b) RT_Object_Class_MessageQueue name k;
     k \<leftarrow> Some (rt_ipc_object_init (MqQ b) k);
     mq \<leftarrow> k_mqs k b;
     sz \<leftarrow> Some (ucast (rt_align msg_size) :: u16);
     max_msgs \<leftarrow> Some (ucast (pool_size div (ucast sz + 4)) :: u16);
     k \<leftarrow> Some (put_mq b (mq_setup junk flag msgpool sz max_msgs mq) k);
     Some (RT_EOK, rt_ipc_object_init (MqSendQ b) k)
   }"

definition rt_mq_detach :: "nat \<Rightarrow> kernel \<Rightarrow> (int \<times> kernel) option" where
  "rt_mq_detach b k = do {
     mq \<leftarrow> get_mq b k;
     rt_assert (rt_object_is_systemobject (mq_parent mq));
     k \<leftarrow> rt_ipc_list_resume_all (MqQ b) k;
     k \<leftarrow> rt_ipc_list_resume_all (MqSendQ b) k;
     k \<leftarrow> rt_object_detach (OMq b) k;
     Some (RT_EOK, k)
   }"

definition rt_mq_create :: "(nat \<Rightarrow> u8) \<Rightarrow> u8 list \<Rightarrow> u32 \<Rightarrow> u32 \<Rightarrow> u8 \<Rightarrow> kernel \<Rightarrow> (nat option \<times> kernel) option" where
  "rt_mq_create junk name msg_size max_msgs flag k = do {
     rt_assert (k_irq_nest k = 0);
     (obj, k) \<leftarrow> rt_object_allocate RT_Object_Class_MessageQueue name k;
     case obj of
       None \<Rightarrow> Some (None, k)
     | Some ob \<Rightarrow> do {
         b \<leftarrow> Some (obj_addr ob);
         k \<leftarrow> Some (rt_ipc_object_init (MqQ b) k);
         mq \<leftarrow> k_mqs k b;
         sz \<leftarrow> Some (ucast (rt_align msg_size) :: u16);
         n \<leftarrow> Some (ucast max_msgs :: u16);
         (pool, h) \<leftarrow> rt_malloc ((ucast sz + 4) * ucast n) (k_irq_nest k) (k_heap k);
         k \<leftarrow> Some (k\<lparr>k_heap := h\<rparr>);
         case pool of
           None \<Rightarrow> do {
             k \<leftarrow> rt_object_delete ob k;
             Some (None, k)
           }
         | Some addr \<Rightarrow> do {
             k \<leftarrow> Some (put_mq b (mq_setup junk flag addr sz n mq) k);
             Some (Some b, rt_ipc_object_init (MqSendQ b) k)
           }
       }
   }"

definition rt_mq_delete :: "nat \<Rightarrow> kernel \<Rightarrow> (int \<times> kernel) option" where
  "rt_mq_delete b k = do {
     rt_assert (k_irq_nest k = 0);
     mq \<leftarrow> get_mq b k;
     rt_assert (\<not> rt_object_is_systemobject (mq_parent mq));
     k \<leftarrow> rt_ipc_list_resume_all (MqQ b) k;
     k \<leftarrow> rt_ipc_list_resume_all (MqSendQ b) k;
     h \<leftarrow> rt_free (Some (mq_pool_addr mq)) (k_irq_nest k) (k_heap k);
     k \<leftarrow> rt_object_delete (OMq b) (k\<lparr>k_heap := h\<rparr>);
     Some (RT_EOK, k)
   }"

definition mq_send_round :: "nat \<Rightarrow> u8 list \<Rightarrow> nat option \<Rightarrow> int \<Rightarrow> u32 \<Rightarrow> kernel \<Rightarrow> ((int, waiter) outcome \<times> kernel) option" where
  "mq_send_round b buffer thread timeout tick_delta k = do {
     mq \<leftarrow> k_mqs k b;
     case mq_msg_queue_free mq of
       None \<Rightarrow> do {
         t \<leftarrow> thread;
         k \<leftarrow> mod_thread t (\<lambda>th. th\<lparr>th_error := RT_EOK\<rparr>) k;
         if timeout = 0 then Some (Done (- RT_EFULL), k)
         else do {
           rt_assert (in_thread_context k);
           tick_delta \<leftarrow> Some (if timeout > 0 then rt_tick_get k else tick_delta);
           k \<leftarrow> ipc_block (MqSendQ b) t (ob_flag (mq_parent mq)) timeout k;
           k \<leftarrow> rt_schedule k;
           Some (Wait \<lparr>wt_thread = t, wt_timeout = timeout, wt_tick_delta = tick_delta\<rparr>, k)
         }
       }
     | Some msg \<Rightarrow> do {
         (counted, mq) \<leftarrow> mq_push msg buffer mq;
         k \<leftarrow> Some (put_mq b mq k);
         if counted then do {
           k \<leftarrow> ipc_wake (MqQ b) k;
           Some (Done RT_EOK, k)
         }
         else Some (Done (- RT_EFULL), k)
       }
   }"

definition rt_mq_send_wait :: "nat \<Rightarrow> u8 list \<Rightarrow> int \<Rightarrow> kernel \<Rightarrow> ((int, waiter) outcome \<times> kernel) option" where
  "rt_mq_send_wait b buffer timeout k = do {
     mq \<leftarrow> get_mq b k;
     rt_assert (buffer \<noteq> []);
     if length buffer > unat (mq_msg_size mq) then Some (Done (- RT_ERROR), k)
     else if mq_msg_queue_free mq = None \<and> timeout = 0 then Some (Done (- RT_EFULL), k)
     else mq_send_round b buffer (rt_thread_self k) timeout 0 k
   }"

definition rt_mq_send_resume :: "nat \<Rightarrow> u8 list \<Rightarrow> waiter \<Rightarrow> kernel \<Rightarrow> ((int, waiter) outcome \<times> kernel) option" where
  "rt_mq_send_resume b buffer w k = do {
     th \<leftarrow> get_thread (wt_thread w) k;
     if th_error th \<noteq> RT_EOK then Some (Done (th_error th), k)
     else mq_send_round b buffer (Some (wt_thread w)) (left_timeout (wt_timeout w) (wt_tick_delta w) (rt_tick_get k))
            (if wt_timeout w > 0 then rt_tick_get k - wt_tick_delta w else wt_tick_delta w) k
   }"

definition rt_mq_send :: "nat \<Rightarrow> u8 list \<Rightarrow> kernel \<Rightarrow> ((int, waiter) outcome \<times> kernel) option" where
  "rt_mq_send b buffer k = rt_mq_send_wait b buffer 0 k"

definition rt_mq_urgent :: "nat \<Rightarrow> u8 list \<Rightarrow> kernel \<Rightarrow> (int \<times> kernel) option" where
  "rt_mq_urgent b buffer k = do {
     mq \<leftarrow> get_mq b k;
     rt_assert (buffer \<noteq> []);
     if length buffer > unat (mq_msg_size mq) then Some (- RT_ERROR, k)
     else case mq_msg_queue_free mq of
       None \<Rightarrow> Some (- RT_EFULL, k)
     | Some msg \<Rightarrow> do {
         (counted, mq) \<leftarrow> mq_push_front msg buffer mq;
         k \<leftarrow> Some (put_mq b mq k);
         if counted then do {
           k \<leftarrow> ipc_wake (MqQ b) k;
           Some (RT_EOK, k)
         }
         else Some (- RT_EFULL, k)
       }
   }"

definition mq_recv_round :: "nat \<Rightarrow> nat \<Rightarrow> nat option \<Rightarrow> int \<Rightarrow> u32 \<Rightarrow> kernel \<Rightarrow>
    ((int \<times> u8 list option, waiter) outcome \<times> kernel) option" where
  "mq_recv_round b sz thread timeout tick_delta k = do {
     mq \<leftarrow> k_mqs k b;
     if mq_entry mq = 0 then do {
       rt_assert (in_thread_context k);
       t \<leftarrow> thread;
       k \<leftarrow> mod_thread t (\<lambda>th. th\<lparr>th_error := RT_EOK\<rparr>) k;
       if timeout = 0 then do {
         k \<leftarrow> mod_thread t (\<lambda>th. th\<lparr>th_error := - RT_ETIMEOUT\<rparr>) k;
         Some (Done (- RT_ETIMEOUT, None), k)
       }
       else do {
         tick_delta \<leftarrow> Some (if timeout > 0 then rt_tick_get k else tick_delta);
         k \<leftarrow> ipc_block (MqQ b) t (ob_flag (mq_parent mq)) timeout k;
         k \<leftarrow> rt_schedule k;
         Some (Wait \<lparr>wt_thread = t, wt_timeout = timeout, wt_tick_delta = tick_delta\<rparr>, k)
       }
     }
     else do {
       (d, mq) \<leftarrow> mq_pop sz mq;
       k \<leftarrow> ipc_wake (MqSendQ b) (put_mq b mq k);
       Some (Done (RT_EOK, Some d), k)
     }
   }"

definition rt_mq_recv :: "nat \<Rightarrow> nat \<Rightarrow> int \<Rightarrow> kernel \<Rightarrow> ((int \<times> u8 list option, waiter) outcome \<times> kernel) option" where
  "rt_mq_recv b sz timeout k = do {
     mq \<leftarrow> get_mq b k;
     rt_assert (sz \<noteq> 0);
     if mq_entry mq = 0 \<and> timeout = 0 then Some (Done (- RT_ETIMEOUT, None), k)
     else mq_recv_round b sz (rt_thread_self k) timeout 0 k
   }"

definition rt_mq_recv_resume :: "nat \<Rightarrow> nat \<Rightarrow> waiter \<Rightarrow> kernel \<Rightarrow> ((int \<times> u8 list option, waiter) outcome \<times> kernel) option" where
  "rt_mq_recv_resume b sz w k = do {
     th \<leftarrow> get_thread (wt_thread w) k;
     if th_error th \<noteq> RT_EOK then Some (Done (th_error th, None), k)
     else mq_recv_round b sz (Some (wt_thread w)) (left_timeout (wt_timeout w) (wt_tick_delta w) (rt_tick_get k))
            (if wt_timeout w > 0 then rt_tick_get k - wt_tick_delta w else wt_tick_delta w) k
   }"

text \<open>The loop that puts every queued message back on the free list.\<close>

partial_function (option) mq_flush :: "rt_messagequeue \<Rightarrow> rt_messagequeue option" where
  "mq_flush mq =
     (case mq_msg_queue_head mq of
        None \<Rightarrow> Some mq
      | Some msg \<Rightarrow>
          Option.bind (mq_msg_pool mq msg) (\<lambda>m.
          Option.bind (mq_release msg
            (mq\<lparr>mq_msg_queue_head := mm_next m,
                mq_msg_queue_tail := if mq_msg_queue_tail mq = Some msg then None else mq_msg_queue_tail mq\<rparr>)) mq_flush))"

definition rt_mq_control :: "nat \<Rightarrow> nat \<Rightarrow> kernel \<Rightarrow> (int \<times> kernel) option" where
  "rt_mq_control b cmd k = do {
     _ \<leftarrow> get_mq b k;
     if cmd = RT_IPC_CMD_RESET then do {
       k \<leftarrow> rt_ipc_list_resume_all (MqQ b) k;
       k \<leftarrow> rt_ipc_list_resume_all (MqSendQ b) k;
       mq \<leftarrow> k_mqs k b;
       mq \<leftarrow> mq_flush mq;
       k \<leftarrow> rt_schedule (put_mq b (mq\<lparr>mq_entry := 0\<rparr>) k);
       Some (RT_EOK, k)
     }
     else Some (- RT_ERROR, k)
   }"

section \<open>The invariant\<close>

fun chain :: "(nat \<rightharpoonup> rt_mq_message) \<Rightarrow> nat option \<Rightarrow> nat list \<Rightarrow> bool" where
  "chain P p [] \<longleftrightarrow> p = None"
| "chain P p (x # xs) \<longleftrightarrow> p = Some x \<and> (case P x of None \<Rightarrow> False | Some m \<Rightarrow> chain P (mm_next m) xs)"

lemma chain_upd: "x \<notin> set xs \<Longrightarrow> chain (P(x := m)) p xs = chain P p xs"
  by (induction xs arbitrary: p) (auto split: option.split)

lemma chain_snoc:
  assumes "chain P p (xs @ [t])" and "P t = Some m" and "distinct (xs @ [t, msg])" and "P msg = Some n" and "mm_next n = None"
  shows "chain (P(t \<mapsto> m\<lparr>mm_next := Some msg\<rparr>)) p (xs @ [t, msg])"
  using assms by (induction xs arbitrary: p) (auto split: option.splits)

text \<open>
  \<open>mq_rep mq q f F\<close>: \<open>q\<close> is the queue, \<open>f\<close> the free list and \<open>F\<close> the messages in flight; together they are the pool,
  without overlap, and the entry count is the length of the queue.
\<close>

definition mq_rep :: "rt_messagequeue \<Rightarrow> nat list \<Rightarrow> nat list \<Rightarrow> nat set \<Rightarrow> bool" where
  "mq_rep mq q f F \<longleftrightarrow> chain (mq_msg_pool mq) (mq_msg_queue_head mq) q \<and>
     mq_msg_queue_tail mq = (if q = [] then None else Some (last q)) \<and>
     chain (mq_msg_pool mq) (mq_msg_queue_free mq) f \<and>
     distinct (q @ f) \<and> finite F \<and> F \<inter> set (q @ f) = {} \<and> dom (mq_msg_pool mq) = set (q @ f) \<union> F \<and>
     length (q @ f) + card F = unat (mq_max_msgs mq) \<and> unat (mq_entry mq) = length q \<and>
     (\<forall>a m. mq_msg_pool mq a = Some m \<longrightarrow> length (mm_data m) = unat (mq_msg_size mq))"

definition mq_bytes :: "rt_messagequeue \<Rightarrow> nat \<Rightarrow> u8 list" where
  "mq_bytes mq a = (case mq_msg_pool mq a of None \<Rightarrow> [] | Some m \<Rightarrow> mm_data m)"

definition mq_same :: "rt_messagequeue \<Rightarrow> rt_messagequeue \<Rightarrow> bool" where
  "mq_same mq mq' \<longleftrightarrow> mq_msg_size mq' = mq_msg_size mq \<and> mq_max_msgs mq' = mq_max_msgs mq \<and>
     mq_parent mq' = mq_parent mq \<and> mq_pool_addr mq' = mq_pool_addr mq"

lemma mq_repD:
  assumes "mq_rep mq q f F"
  shows "chain (mq_msg_pool mq) (mq_msg_queue_head mq) q" "mq_msg_queue_tail mq = (if q = [] then None else Some (last q))"
    "chain (mq_msg_pool mq) (mq_msg_queue_free mq) f" "distinct (q @ f)" "finite F" "F \<inter> set (q @ f) = {}"
    "dom (mq_msg_pool mq) = set (q @ f) \<union> F" "length (q @ f) + card F = unat (mq_max_msgs mq)"
    "unat (mq_entry mq) = length q" "mq_msg_pool mq a = Some m \<Longrightarrow> length (mm_data m) = unat (mq_msg_size mq)"
  using assms unfolding mq_rep_def by (elim conjE; assumption | blast)+

lemma mq_repE:
  assumes "mq_rep mq q f F" and "a \<in> set q \<union> set f \<union> F"
  obtains m where "mq_msg_pool mq a = Some m"
  using mq_repD(7) [OF assms(1)] assms(2) by (metis domD set_append)

lemma length_mq_bytes:
  assumes "mq_rep mq q f F" and "a \<in> set q \<union> set f \<union> F"
  shows "length (mq_bytes mq a) = unat (mq_msg_size mq)"
proof -
  obtain m where "mq_msg_pool mq a = Some m" by (rule mq_repE [OF assms])
  then show ?thesis using mq_repD(10) [OF assms(1)] by (simp add: mq_bytes_def)
qed

lemma mq_same_refl [simp]: "mq_same mq mq"
  by (simp add: mq_same_def)

lemma mq_same_trans: "mq_same a b \<Longrightarrow> mq_same b c \<Longrightarrow> mq_same a c"
  by (simp add: mq_same_def)

section \<open>Every atomic section keeps the invariant\<close>

lemma mq_alloc_rep:
  assumes r: "mq_rep mq q (msg # f) F"
  shows "returns (mq_alloc msg mq) (\<lambda>mq'. mq_rep mq' q f (insert msg F) \<and> mq_bytes mq' = mq_bytes mq \<and> mq_same mq mq')"
proof -
  note d = mq_repD [OF r]
  obtain m where m: "mq_msg_pool mq msg = Some m" using mq_repE [OF r, of msg] by auto
  have "chain (mq_msg_pool mq) (mm_next m) f" using d(3) m by simp
  moreover have "msg \<notin> F" "msg \<notin> set f" "msg \<notin> set q" using d(4,6) by auto
  ultimately have "mq_rep (mq\<lparr>mq_msg_queue_free := mm_next m\<rparr>) q f (insert msg F)"
    unfolding mq_rep_def using d by (auto simp: card_insert_if)
  then show ?thesis using m by (simp add: mq_alloc_def mq_bytes_def mq_same_def fun_eq_iff)
qed

lemma mq_rep_upd_flight:
  assumes r: "mq_rep mq q f F" and x: "x \<in> F" and m: "length (mm_data m) = unat (mq_msg_size mq)"
  shows "mq_rep (mq\<lparr>mq_msg_pool := (mq_msg_pool mq)(x \<mapsto> m)\<rparr>) q f F"
proof -
  note d = mq_repD [OF r]
  have "x \<notin> set q" "x \<notin> set f" using d(6) x by auto
  moreover have "length (mm_data n) = unat (mq_msg_size mq)" if "((mq_msg_pool mq)(x \<mapsto> m)) a = Some n" for a n
    using that d(10) m by (auto split: if_splits)
  ultimately show ?thesis using d(1-9) x unfolding mq_rep_def by (auto simp: chain_upd)
qed

lemma set_next_flight:
  assumes r: "mq_rep mq q f F" and x: "msg \<in> F"
  shows "returns (msg_set_next msg nx mq) (\<lambda>mq'. mq_rep mq' q f F \<and> mq_bytes mq' = mq_bytes mq \<and> mq_same mq mq' \<and>
    map_option mm_next (mq_msg_pool mq' msg) = Some nx)"
proof -
  obtain m where m: "mq_msg_pool mq msg = Some m" using mq_repE [OF r] x by blast
  have "mq_rep (mq\<lparr>mq_msg_pool := (mq_msg_pool mq)(msg \<mapsto> m\<lparr>mm_next := nx\<rparr>)\<rparr>) q f F"
    by (rule mq_rep_upd_flight [OF r x]) (use mq_repD(10) [OF r m] in simp)
  then show ?thesis using m by (auto simp: msg_set_next_def mq_bytes_def mq_same_def fun_eq_iff)
qed

lemma mq_fill_flight:
  assumes r: "mq_rep mq q f F" and x: "msg \<in> F" and l: "length buffer \<le> unat (mq_msg_size mq)"
  shows "returns (mq_fill msg buffer mq) (\<lambda>mq'. mq_rep mq' q f F \<and> mq_same mq mq' \<and>
    mq_bytes mq' = (mq_bytes mq)(msg := buffer @ drop (length buffer) (mq_bytes mq msg)) \<and>
    map_option mm_next (mq_msg_pool mq' msg) = map_option mm_next (mq_msg_pool mq msg))"
proof -
  obtain m where m: "mq_msg_pool mq msg = Some m" using mq_repE [OF r] x by blast
  have "mq_rep (mq\<lparr>mq_msg_pool := (mq_msg_pool mq)(msg \<mapsto> m\<lparr>mm_data := buffer @ drop (length buffer) (mm_data m)\<rparr>)\<rparr>) q f F"
    by (rule mq_rep_upd_flight [OF r x]) (use mq_repD(10) [OF r m] l in simp)
  then show ?thesis using m by (auto simp: mq_fill_def mq_bytes_def mq_same_def fun_eq_iff)
qed

lemma mq_entry_room:
  assumes "mq_rep mq q f F" and "msg \<in> F"
  shows "mq_entry mq < RT_MQ_ENTRY_MAX" and "unat (mq_entry mq + 1) = Suc (length q)"
proof -
  have "0 < card F" using mq_repD(5) [OF assms(1)] assms(2) by (auto simp: card_gt_0_iff)
  then have "unat (mq_entry mq) < unat (mq_max_msgs mq)" using mq_repD(8,9) [OF assms(1)] by simp
  then show "mq_entry mq < RT_MQ_ENTRY_MAX" "unat (mq_entry mq + 1) = Suc (length q)"
    using unat_suc_entry mq_repD(9) [OF assms(1)] by auto
qed

lemma mq_link_rep:
  assumes r: "mq_rep mq q f F" and x: "msg \<in> F" and n: "map_option mm_next (mq_msg_pool mq msg) = Some None"
  shows "returns (mq_link msg mq) (\<lambda>(b, mq'). b \<and> mq_rep mq' (q @ [msg]) f (F - {msg}) \<and> mq_bytes mq' = mq_bytes mq \<and> mq_same mq mq')"
proof -
  note d = mq_repD [OF r]
  note en = mq_entry_room [OF r x]
  have out: "msg \<notin> set q" "msg \<notin> set f" using d(6) x by auto
  have card: "card (F - {msg}) = card F - 1" "0 < card F" using d(5) x by (auto simp: card_gt_0_iff)
  obtain m where m: "mq_msg_pool mq msg = Some m" "mm_next m = None" using n by auto
  show ?thesis
  proof (cases q rule: rev_cases)
    case Nil
    have "mq_rep (mq\<lparr>mq_msg_queue_tail := Some msg, mq_msg_queue_head := Some msg, mq_entry := mq_entry mq + 1\<rparr>) [msg] f (F - {msg})"
      unfolding mq_rep_def using d m out card en(2) Nil x by auto
    then show ?thesis using Nil d(1,2) en(1) by (simp add: mq_link_def mq_count_def mq_bytes_def mq_same_def fun_eq_iff)
  next
    case (snoc q' t)
    have q: "q \<noteq> []" "last q = t" using snoc by simp_all
    obtain mt where mt: "mq_msg_pool mq t = Some mt" using mq_repE [OF r, of t] snoc by auto
    let ?P = "(mq_msg_pool mq)(t \<mapsto> mt\<lparr>mm_next := Some msg\<rparr>)"
    have hd: "mq_msg_queue_head mq \<noteq> None" using d(1) q by (cases q) auto
    have tf: "t \<notin> set f" "t \<notin> F" "t \<noteq> msg" using d(4,6) snoc x by auto
    have c: "chain ?P (mq_msg_queue_head mq) (q @ [msg])"
      unfolding snoc using chain_snoc [of "mq_msg_pool mq" "mq_msg_queue_head mq" q' t mt msg m] d(1,4) snoc mt m out by simp
    have "mq_rep (mq\<lparr>mq_msg_pool := ?P, mq_msg_queue_tail := Some msg, mq_entry := mq_entry mq + 1\<rparr>) (q @ [msg]) f (F - {msg})"
      unfolding mq_rep_def
    proof (intro conjI)
      show "\<forall>a n. mq_msg_pool (mq\<lparr>mq_msg_pool := ?P, mq_msg_queue_tail := Some msg, mq_entry := mq_entry mq + 1\<rparr>) a = Some n \<longrightarrow>
        length (mm_data n) = unat (mq_msg_size (mq\<lparr>mq_msg_pool := ?P, mq_msg_queue_tail := Some msg, mq_entry := mq_entry mq + 1\<rparr>))"
        using d(10) mt by auto
    qed (use d c out card en(2) x tf snoc in \<open>auto simp: chain_upd\<close>)
    then show ?thesis using d(2) q en(1) mt hd
      by (auto simp: mq_link_def msg_set_next_def mq_count_def mq_bytes_def mq_same_def fun_eq_iff)
  qed
qed

lemma mq_link_front_rep:
  assumes r: "mq_rep mq q f F" and x: "msg \<in> F"
  shows "returns (mq_link_front msg mq) (\<lambda>(b, mq'). b \<and> mq_rep mq' (msg # q) f (F - {msg}) \<and> mq_bytes mq' = mq_bytes mq \<and> mq_same mq mq')"
proof -
  note d = mq_repD [OF r]
  note en = mq_entry_room [OF r x]
  have out: "msg \<notin> set q" "msg \<notin> set f" using d(6) x by auto
  have card: "card (F - {msg}) = card F - 1" "0 < card F" using d(5) x by (auto simp: card_gt_0_iff)
  obtain m where m: "mq_msg_pool mq msg = Some m" using mq_repE [OF r] x by blast
  let ?mq = "mq\<lparr>mq_msg_pool := (mq_msg_pool mq)(msg \<mapsto> m\<lparr>mm_next := mq_msg_queue_head mq\<rparr>), mq_msg_queue_head := Some msg,
      mq_msg_queue_tail := if mq_msg_queue_tail mq = None then Some msg else mq_msg_queue_tail mq, mq_entry := mq_entry mq + 1\<rparr>"
  have "mq_rep ?mq (msg # q) f (F - {msg})"
    unfolding mq_rep_def
  proof (intro conjI)
    show "\<forall>a n. mq_msg_pool ?mq a = Some n \<longrightarrow> length (mm_data n) = unat (mq_msg_size ?mq)" using d(10) m by auto
  qed (use d out card en(2) x m in \<open>auto simp: chain_upd\<close>)
  moreover have "mq_link_front msg mq = Some (True, ?mq)" using m en(1) by (simp add: mq_link_front_def msg_set_next_def mq_count_def)
  ultimately show ?thesis using m by (auto simp: mq_bytes_def mq_same_def fun_eq_iff)
qed

lemma mq_unlink_rep:
  assumes r: "mq_rep mq (msg # q) f F"
  shows "returns (mq_unlink mq) (\<lambda>(x, mq'). x = msg \<and> mq_rep mq' q f (insert msg F) \<and> mq_bytes mq' = mq_bytes mq \<and> mq_same mq mq')"
proof -
  note d = mq_repD [OF r]
  obtain m where m: "mq_msg_pool mq msg = Some m" using mq_repE [OF r, of msg] by auto
  have e: "0 < mq_entry mq" "unat (mq_entry mq - 1) = length q"
    using d(9) by (auto simp: word_less_nat_alt unat_minus_eq word_le_nat_alt)
  have out: "msg \<notin> F" "msg \<notin> set q" "msg \<notin> set f" using d(4,6) by auto
  let ?mq = "mq\<lparr>mq_msg_queue_head := mm_next m,
      mq_msg_queue_tail := if mq_msg_queue_tail mq = Some msg then None else mq_msg_queue_tail mq, mq_entry := mq_entry mq - 1\<rparr>"
  have "last (msg # q) = msg \<longleftrightarrow> q = []" using out(2) by (cases q rule: rev_cases) auto
  then have "mq_rep ?mq q f (insert msg F)"
    unfolding mq_rep_def using d m e out by (auto simp: card_insert_if)
  moreover have "mq_unlink mq = Some (msg, ?mq)" using d(1) m e by (simp add: mq_unlink_def)
  ultimately show ?thesis by (simp add: mq_bytes_def mq_same_def fun_eq_iff)
qed

lemma mq_release_rep:
  assumes r: "mq_rep mq q f F" and x: "msg \<in> F"
  shows "returns (mq_release msg mq) (\<lambda>mq'. mq_rep mq' q (msg # f) (F - {msg}) \<and> mq_bytes mq' = mq_bytes mq \<and> mq_same mq mq')"
proof -
  note d = mq_repD [OF r]
  have out: "msg \<notin> set q" "msg \<notin> set f" using d(6) x by auto
  have card: "card (F - {msg}) = card F - 1" "0 < card F" using d(5) x by (auto simp: card_gt_0_iff)
  obtain m where m: "mq_msg_pool mq msg = Some m" using mq_repE [OF r] x by blast
  let ?mq = "mq\<lparr>mq_msg_pool := (mq_msg_pool mq)(msg \<mapsto> m\<lparr>mm_next := mq_msg_queue_free mq\<rparr>), mq_msg_queue_free := Some msg\<rparr>"
  have "mq_rep ?mq q (msg # f) (F - {msg})"
    unfolding mq_rep_def
  proof (intro conjI)
    show "\<forall>a n. mq_msg_pool ?mq a = Some n \<longrightarrow> length (mm_data n) = unat (mq_msg_size ?mq)" using d(10) m by auto
  qed (use d out card x m in \<open>auto simp: chain_upd\<close>)
  then show ?thesis using m by (auto simp: mq_release_def msg_set_next_def mq_bytes_def mq_same_def fun_eq_iff)
qed

section \<open>Whole sends and receives\<close>

lemma mq_push_rep:
  assumes r: "mq_rep mq q (msg # f) F" and l: "length buffer \<le> unat (mq_msg_size mq)"
  shows "returns (mq_push msg buffer mq) (\<lambda>(b, mq'). b \<and> mq_rep mq' (q @ [msg]) f F \<and> mq_same mq mq' \<and>
    mq_bytes mq' = (mq_bytes mq)(msg := buffer @ drop (length buffer) (mq_bytes mq msg)))"
proof -
  have nF: "msg \<notin> F" using mq_repD(6) [OF r] by auto
  show ?thesis unfolding mq_push_def
  proof (rule returns_bindI [OF mq_alloc_rep [OF r]], elim conjE)
    fix m1 assume m1: "mq_rep m1 q f (insert msg F)" "mq_bytes m1 = mq_bytes mq" "mq_same mq m1"
    show "returns (Option.bind (msg_set_next msg None m1) (\<lambda>mq. Option.bind (mq_fill msg buffer mq) (mq_link msg)))
      (\<lambda>(b, mq'). b \<and> mq_rep mq' (q @ [msg]) f F \<and> mq_same mq mq' \<and>
        mq_bytes mq' = (mq_bytes mq)(msg := buffer @ drop (length buffer) (mq_bytes mq msg)))"
    proof (rule returns_bindI [OF set_next_flight [OF m1(1)]], simp, elim conjE)
      fix m2 assume m2: "mq_rep m2 q f (insert msg F)" "mq_bytes m2 = mq_bytes m1" "mq_same m1 m2"
        "map_option mm_next (mq_msg_pool m2 msg) = Some None"
      have l2: "length buffer \<le> unat (mq_msg_size m2)" using l m1(3) m2(3) by (simp add: mq_same_def)
      show "returns (Option.bind (mq_fill msg buffer m2) (mq_link msg)) (\<lambda>(b, mq'). b \<and> mq_rep mq' (q @ [msg]) f F \<and> mq_same mq mq' \<and>
        mq_bytes mq' = (mq_bytes mq)(msg := buffer @ drop (length buffer) (mq_bytes mq msg)))"
      proof (rule returns_bindI [OF mq_fill_flight [OF m2(1) _ l2]], simp, elim conjE)
        fix m3 assume m3: "mq_rep m3 q f (insert msg F)" "mq_same m2 m3"
          "mq_bytes m3 = (mq_bytes m2)(msg := buffer @ drop (length buffer) (mq_bytes m2 msg))"
          "map_option mm_next (mq_msg_pool m3 msg) = map_option mm_next (mq_msg_pool m2 msg)"
        have s: "mq_same mq m3" using m1(3) m2(3) m3(2) by (simp add: mq_same_def)
        show "returns (mq_link msg m3) (\<lambda>(b, mq'). b \<and> mq_rep mq' (q @ [msg]) f F \<and> mq_same mq mq' \<and>
          mq_bytes mq' = (mq_bytes mq)(msg := buffer @ drop (length buffer) (mq_bytes mq msg)))"
          by (rule returns_mono_pair [OF mq_link_rep [OF m3(1)]])
            (use m1(2) m2(2,4) m3(3,4) mq_same_trans [OF s] nF in auto)
      qed
    qed
  qed
qed

lemma mq_push_front_rep:
  assumes r: "mq_rep mq q (msg # f) F" and l: "length buffer \<le> unat (mq_msg_size mq)"
  shows "returns (mq_push_front msg buffer mq) (\<lambda>(b, mq'). b \<and> mq_rep mq' (msg # q) f F \<and> mq_same mq mq' \<and>
    mq_bytes mq' = (mq_bytes mq)(msg := buffer @ drop (length buffer) (mq_bytes mq msg)))"
proof -
  have nF: "msg \<notin> F" using mq_repD(6) [OF r] by auto
  show ?thesis unfolding mq_push_front_def
  proof (rule returns_bindI [OF mq_alloc_rep [OF r]], elim conjE)
    fix m1 assume m1: "mq_rep m1 q f (insert msg F)" "mq_bytes m1 = mq_bytes mq" "mq_same mq m1"
    have l1: "length buffer \<le> unat (mq_msg_size m1)" using l m1(3) by (simp add: mq_same_def)
    show "returns (Option.bind (mq_fill msg buffer m1) (mq_link_front msg)) (\<lambda>(b, mq'). b \<and> mq_rep mq' (msg # q) f F \<and> mq_same mq mq' \<and>
      mq_bytes mq' = (mq_bytes mq)(msg := buffer @ drop (length buffer) (mq_bytes mq msg)))"
    proof (rule returns_bindI [OF mq_fill_flight [OF m1(1) _ l1]], simp, elim conjE)
      fix m3 assume m3: "mq_rep m3 q f (insert msg F)" "mq_same m1 m3"
        "mq_bytes m3 = (mq_bytes m1)(msg := buffer @ drop (length buffer) (mq_bytes m1 msg))"
      have s: "mq_same mq m3" using m1(3) m3(2) by (simp add: mq_same_def)
      show "returns (mq_link_front msg m3) (\<lambda>(b, mq'). b \<and> mq_rep mq' (msg # q) f F \<and> mq_same mq mq' \<and>
        mq_bytes mq' = (mq_bytes mq)(msg := buffer @ drop (length buffer) (mq_bytes mq msg)))"
        by (rule returns_mono_pair [OF mq_link_front_rep [OF m3(1)]]) (use m1(2) m3(3) mq_same_trans [OF s] nF in auto)
    qed
  qed
qed

lemma mq_pop_rep:
  assumes r: "mq_rep mq (msg # q) f F"
  shows "returns (mq_pop sz mq) (\<lambda>(d, mq'). d = take (min sz (unat (mq_msg_size mq))) (mq_bytes mq msg) \<and>
    mq_rep mq' q (msg # f) F \<and> mq_same mq mq' \<and> mq_bytes mq' = mq_bytes mq)"
  unfolding mq_pop_def
proof (rule returns_bind_pair [OF mq_unlink_rep [OF r]], elim conjE)
  fix x m1 assume m1: "x = msg" "mq_rep m1 q f (insert msg F)" "mq_bytes m1 = mq_bytes mq" "mq_same mq m1"
  have nF: "msg \<notin> F" using mq_repD(6) [OF r] by auto
  obtain m where m: "mq_msg_pool m1 msg = Some m" using mq_repE [OF m1(2), of msg] by auto
  have "mm_data m = mq_bytes mq msg" using m1(3) m by (auto simp: mq_bytes_def fun_eq_iff dest!: spec [of _ msg])
  then have c: "mq_copy msg sz m1 = Some (take (min sz (unat (mq_msg_size mq))) (mq_bytes mq msg))"
    using m m1(4) by (simp add: mq_copy_def mq_same_def min_def)
  have "returns (mq_release msg m1) (\<lambda>mq'. mq_rep mq' q (msg # f) F \<and> mq_same mq mq' \<and> mq_bytes mq' = mq_bytes mq)"
    by (rule returns_mono [OF mq_release_rep [OF m1(2)]]) (use m1(3) mq_same_trans [OF m1(4)] nF in auto)
  then show "returns (Option.bind (mq_copy x sz m1) (\<lambda>d. Option.bind (mq_release x m1) (\<lambda>mq. Some (d, mq))))
    (\<lambda>(d, mq'). d = take (min sz (unat (mq_msg_size mq))) (mq_bytes mq msg) \<and> mq_rep mq' q (msg # f) F \<and> mq_same mq mq' \<and> mq_bytes mq' = mq_bytes mq)"
    unfolding m1(1) c by (auto elim!: returns_mono)
qed

section \<open>The message queue is a queue\<close>

fun mq_walk :: "(nat \<rightharpoonup> rt_mq_message) \<Rightarrow> nat \<Rightarrow> nat option \<Rightarrow> nat list" where
  "mq_walk P 0 p = []"
| "mq_walk P (Suc n) None = []"
| "mq_walk P (Suc n) (Some a) = a # (case P a of None \<Rightarrow> [] | Some m \<Rightarrow> mq_walk P n (mm_next m))"

definition mq_queue :: "rt_messagequeue \<Rightarrow> nat list" where
  "mq_queue mq = mq_walk (mq_msg_pool mq) (unat (mq_entry mq)) (mq_msg_queue_head mq)"

definition mq_contents :: "rt_messagequeue \<Rightarrow> u8 list list" where
  "mq_contents mq = map (mq_bytes mq) (mq_queue mq)"

definition mq_wf :: "rt_messagequeue \<Rightarrow> bool" where
  "mq_wf mq \<longleftrightarrow> (\<exists>f. mq_rep mq (mq_queue mq) f {})"

lemma chain_walk: "chain P p xs \<Longrightarrow> mq_walk P (length xs) p = xs"
  by (induction xs arbitrary: p) (auto split: option.splits)

lemma mq_rep_queue: "mq_rep mq q f F \<Longrightarrow> mq_queue mq = q"
  unfolding mq_queue_def mq_repD(9) by (rule chain_walk [OF mq_repD(1)])

lemma mq_wf_rep: "mq_wf mq \<longleftrightarrow> (\<exists>q f. mq_rep mq q f {} \<and> mq_contents mq = map (mq_bytes mq) q)"
  using mq_rep_queue by (auto simp: mq_wf_def mq_contents_def)

lemma mq_wfE:
  assumes "mq_wf mq"
  obtains q f where "mq_rep mq q f {}" and "mq_contents mq = map (mq_bytes mq) q" and "length q = unat (mq_entry mq)"
    and "length q + length f = unat (mq_max_msgs mq)"
proof -
  obtain q f where r: "mq_rep mq q f {}" "mq_contents mq = map (mq_bytes mq) q" using assms by (auto simp: mq_wf_rep)
  show thesis by (rule that [OF r]) (use mq_repD(8,9) [OF r(1)] in simp_all)
qed

definition mq_put :: "u8 list \<Rightarrow> rt_messagequeue \<Rightarrow> rt_messagequeue option" where
  "mq_put x mq = (case mq_msg_queue_free mq of
     None \<Rightarrow> None
   | Some msg \<Rightarrow> (case mq_push msg x mq of Some (True, mq') \<Rightarrow> Some mq' | _ \<Rightarrow> None))"

definition mq_urge :: "u8 list \<Rightarrow> rt_messagequeue \<Rightarrow> rt_messagequeue option" where
  "mq_urge x mq = (case mq_msg_queue_free mq of
     None \<Rightarrow> None
   | Some msg \<Rightarrow> (case mq_push_front msg x mq of Some (True, mq') \<Rightarrow> Some mq' | _ \<Rightarrow> None))"

definition mq_get :: "rt_messagequeue \<Rightarrow> (u8 list \<times> rt_messagequeue) option" where
  "mq_get mq = (if mq_entry mq = 0 then None else mq_pop (unat (mq_msg_size mq)) mq)"

text \<open>A message shorter than the message size keeps, behind it, the bytes its slot had before.\<close>

definition padded :: "u8 list \<Rightarrow> nat \<Rightarrow> u8 list \<Rightarrow> bool" where
  "padded buffer n x \<longleftrightarrow> length x = n \<and> take (length buffer) x = buffer"

lemma mq_slot_free:
  assumes "mq_wf mq" and "length (mq_contents mq) < unat (mq_max_msgs mq)"
  obtains msg q f where "mq_msg_queue_free mq = Some msg" and "mq_rep mq q (msg # f) {}" and "mq_contents mq = map (mq_bytes mq) q"
proof -
  obtain q f where r: "mq_rep mq q f {}" "mq_contents mq = map (mq_bytes mq) q" "length q + length f = unat (mq_max_msgs mq)"
    using assms(1) by (rule mq_wfE)
  then obtain msg f' where f: "f = msg # f'" using assms(2) by (cases f) auto
  show thesis by (rule that [of msg q f']) (use r f mq_repD(3) [OF r(1)] in auto)
qed

lemma mq_push_contents:
  assumes w: "mq_wf mq" and n: "length (mq_contents mq) < unat (mq_max_msgs mq)" and l: "length buffer \<le> unat (mq_msg_size mq)"
  obtains msg mq' x where "mq_msg_queue_free mq = Some msg" and "mq_push msg buffer mq = Some (True, mq')" and "mq_wf mq'"
    and "mq_contents mq' = mq_contents mq @ [x]" and "padded buffer (unat (mq_msg_size mq)) x" and "mq_same mq mq'"
proof -
  obtain msg q f where f: "mq_msg_queue_free mq = Some msg" "mq_rep mq q (msg # f) {}" "mq_contents mq = map (mq_bytes mq) q"
    by (rule mq_slot_free [OF w n])
  let ?x = "buffer @ drop (length buffer) (mq_bytes mq msg)"
  have q: "msg \<notin> set q" using mq_repD(4) [OF f(2)] by simp
  obtain mq' where mq': "mq_push msg buffer mq = Some (True, mq')" "mq_rep mq' (q @ [msg]) f {}" "mq_same mq mq'"
    "mq_bytes mq' = (mq_bytes mq)(msg := ?x)"
    using mq_push_rep [OF f(2) l] by (auto simp: returns_def)
  have b: "length (mq_bytes mq msg) = unat (mq_msg_size mq)"
    by (rule length_mq_bytes [OF f(2)]) simp
  show thesis
  proof (rule that [OF f(1) mq'(1) _ _ _ mq'(3)])
    show "mq_wf mq'" using mq'(2) mq_rep_queue [OF mq'(2)] by (auto simp: mq_wf_def)
    show "mq_contents mq' = mq_contents mq @ [?x]"
      using mq_rep_queue [OF mq'(2)] f(3) mq'(4) q by (simp add: mq_contents_def)
    show "padded buffer (unat (mq_msg_size mq)) ?x" using b l by (simp add: padded_def)
  qed
qed

lemma mq_push_front_contents:
  assumes w: "mq_wf mq" and n: "length (mq_contents mq) < unat (mq_max_msgs mq)" and l: "length buffer \<le> unat (mq_msg_size mq)"
  obtains msg mq' x where "mq_msg_queue_free mq = Some msg" and "mq_push_front msg buffer mq = Some (True, mq')" and "mq_wf mq'"
    and "mq_contents mq' = x # mq_contents mq" and "padded buffer (unat (mq_msg_size mq)) x" and "mq_same mq mq'"
proof -
  obtain msg q f where f: "mq_msg_queue_free mq = Some msg" "mq_rep mq q (msg # f) {}" "mq_contents mq = map (mq_bytes mq) q"
    by (rule mq_slot_free [OF w n])
  let ?x = "buffer @ drop (length buffer) (mq_bytes mq msg)"
  have q: "msg \<notin> set q" using mq_repD(4) [OF f(2)] by simp
  obtain mq' where mq': "mq_push_front msg buffer mq = Some (True, mq')" "mq_rep mq' (msg # q) f {}" "mq_same mq mq'"
    "mq_bytes mq' = (mq_bytes mq)(msg := ?x)"
    using mq_push_front_rep [OF f(2) l] by (auto simp: returns_def)
  have b: "length (mq_bytes mq msg) = unat (mq_msg_size mq)"
    by (rule length_mq_bytes [OF f(2)]) simp
  show thesis
  proof (rule that [OF f(1) mq'(1) _ _ _ mq'(3)])
    show "mq_wf mq'" using mq'(2) mq_rep_queue [OF mq'(2)] by (auto simp: mq_wf_def)
    show "mq_contents mq' = ?x # mq_contents mq"
      using mq_rep_queue [OF mq'(2)] f(3) mq'(4) q by (simp add: mq_contents_def)
    show "padded buffer (unat (mq_msg_size mq)) ?x" using b l by (simp add: padded_def)
  qed
qed

lemma mq_pop_contents:
  assumes w: "mq_wf mq" and c: "mq_contents mq = x # xs"
  obtains mq' where "mq_pop sz mq = Some (take sz x, mq')" and "mq_wf mq'" and "mq_contents mq' = xs" and "mq_same mq mq'"
    and "mq_entry mq \<noteq> 0" and "length x = unat (mq_msg_size mq)"
proof -
  obtain q f where r: "mq_rep mq q f {}" "mq_contents mq = map (mq_bytes mq) q" "length q = unat (mq_entry mq)"
    using w by (rule mq_wfE)
  obtain msg q' where q: "q = msg # q'" using c r(2) by (cases q) auto
  have x: "x = mq_bytes mq msg" "xs = map (mq_bytes mq) q'" using c r(2) q by simp_all
  have b: "length x = unat (mq_msg_size mq)"
    unfolding x(1) by (rule length_mq_bytes [OF r(1)]) (simp add: q)
  obtain mq' where mq': "mq_pop sz mq = Some (take (min sz (unat (mq_msg_size mq))) x, mq')" "mq_rep mq' q' (msg # f) {}"
    "mq_same mq mq'" "mq_bytes mq' = mq_bytes mq"
    using mq_pop_rep [OF r(1) [unfolded q], of sz] x by (auto simp: returns_def)
  have "mq_entry mq \<noteq> 0" using r(3) q by auto
  moreover have "mq_wf mq'" "mq_contents mq' = xs"
    using mq'(2,4) mq_rep_queue [OF mq'(2)] x by (auto simp: mq_wf_def mq_contents_def)
  moreover have "take (min sz (unat (mq_msg_size mq))) x = take sz x" using b by (simp add: min_def)
  ultimately show thesis using that mq'(1,3) b by simp
qed

lemma length_mq_contents: "mq_wf mq \<Longrightarrow> length (mq_contents mq) = unat (mq_entry mq)"
  by (erule mq_wfE) simp

interpretation mq: urgent_fifo mq_wf mq_contents "\<lambda>mq. unat (mq_max_msgs mq)" "\<lambda>mq x. length x = unat (mq_msg_size mq)"
  mq_put mq_get mq_urge
proof
  fix s :: rt_messagequeue and x :: "u8 list" and xs
  assume w: "mq_wf s"
  obtain q f where r: "mq_rep s q f {}" "mq_contents s = map (mq_bytes s) q" "length q + length f = unat (mq_max_msgs s)"
    using w by (rule mq_wfE)
  show "length (mq_contents s) \<le> unat (mq_max_msgs s)" using r by simp
  show "mq_put x s = None" "mq_urge x s = None" if "length (mq_contents s) = unat (mq_max_msgs s)"
  proof -
    have "f = []" using that r by simp
    then have "mq_msg_queue_free s = None" using mq_repD(3) [OF r(1)] by simp
    then show "mq_put x s = None" "mq_urge x s = None" by (simp_all add: mq_put_def mq_urge_def)
  qed
  show "mq_get s = None" if "mq_contents s = []" using that length_mq_contents [OF w] by (simp add: mq_get_def unat_eq_zero)
  show "\<exists>s'. mq_get s = Some (x, s') \<and> mq_wf s' \<and> mq_contents s' = xs \<and> unat (mq_max_msgs s') = unat (mq_max_msgs s) \<and>
      (\<lambda>x. length x = unat (mq_msg_size s')) = (\<lambda>x. length x = unat (mq_msg_size s))" if "mq_contents s = x # xs"
    by (rule mq_pop_contents [OF w that, of "unat (mq_msg_size s)"]) (auto simp: mq_get_def mq_same_def)
  assume v: "length x = unat (mq_msg_size s)" and n: "length (mq_contents s) < unat (mq_max_msgs s)"
  have p: "padded x (unat (mq_msg_size s)) y \<longleftrightarrow> y = x" for y using v by (auto simp: padded_def)
  show "\<exists>s'. mq_put x s = Some s' \<and> mq_wf s' \<and> mq_contents s' = mq_contents s @ [x] \<and>
      unat (mq_max_msgs s') = unat (mq_max_msgs s) \<and> (\<lambda>x. length x = unat (mq_msg_size s')) = (\<lambda>x. length x = unat (mq_msg_size s))"
    by (rule mq_push_contents [OF w n, of x]) (use v p in \<open>auto simp: mq_put_def mq_same_def\<close>)
  show "\<exists>s'. mq_urge x s = Some s' \<and> mq_wf s' \<and> mq_contents s' = x # mq_contents s \<and>
      unat (mq_max_msgs s') = unat (mq_max_msgs s) \<and> (\<lambda>x. length x = unat (mq_msg_size s')) = (\<lambda>x. length x = unat (mq_msg_size s))"
    by (rule mq_push_front_contents [OF w n, of x]) (use v p in \<open>auto simp: mq_urge_def mq_same_def\<close>)
qed

text \<open>A new queue is empty, with all its messages free.\<close>

lemma mq_add_free_fold:
  assumes "mq_msg_pool mq = Map.empty" and "mq_msg_queue_free mq = None"
  shows "let mq' = fold (mq_add_free junk) [0..<n] mq; f = rev (map (mq_slot mq) [0..<n]) in
    chain (mq_msg_pool mq') (mq_msg_queue_free mq') f \<and> dom (mq_msg_pool mq') = set f \<and> distinct f \<and>
    (\<forall>a m. mq_msg_pool mq' a = Some m \<longrightarrow> length (mm_data m) = unat (mq_msg_size mq)) \<and>
    mq_same mq mq' \<and> mq_msg_queue_head mq' = mq_msg_queue_head mq \<and> mq_msg_queue_tail mq' = mq_msg_queue_tail mq"
proof (induction n)
  case 0
  then show ?case using assms by simp
next
  case (Suc n)
  define mq' where "mq' = fold (mq_add_free junk) [0..<n] mq"
  define f where "f = rev (map (mq_slot mq) [0..<n])"
  have IH: "chain (mq_msg_pool mq') (mq_msg_queue_free mq') f" "dom (mq_msg_pool mq') = set f" "distinct f"
    "\<forall>a m. mq_msg_pool mq' a = Some m \<longrightarrow> length (mm_data m) = unat (mq_msg_size mq)" "mq_same mq mq'"
    "mq_msg_queue_head mq' = mq_msg_queue_head mq" "mq_msg_queue_tail mq' = mq_msg_queue_tail mq"
    using Suc by (simp_all add: mq'_def f_def Let_def)
  have s: "mq_slot mq' n = mq_slot mq n" "mq_msg_size mq' = mq_msg_size mq" using IH(5) by (simp_all add: mq_slot_def mq_same_def)
  have new: "mq_slot mq n \<notin> set f" by (auto simp: f_def mq_slot_def)
  have step: "fold (mq_add_free junk) [0..<Suc n] mq = mq_add_free junk n mq'" by (simp add: mq'_def)
  have fS: "rev (map (mq_slot mq) [0..<Suc n]) = mq_slot mq n # f" by (simp add: f_def)
  show ?case unfolding step fS Let_def
    using IH new s by (auto simp: mq_add_free_def Let_def chain_upd mq_same_def)
qed

lemma mq_setup_empty:
  "mq_wf (mq_setup junk flag addr sz n mq)" "mq_contents (mq_setup junk flag addr sz n mq) = []"
  "mq_max_msgs (mq_setup junk flag addr sz n mq) = n" "mq_msg_size (mq_setup junk flag addr sz n mq) = sz"
proof -
  define mq0 where "mq0 = mq\<lparr>mq_parent := (mq_parent mq)\<lparr>ob_flag := flag\<rparr>, mq_msg_pool := Map.empty, mq_pool_addr := addr,
      mq_msg_size := sz, mq_max_msgs := n, mq_msg_queue_head := None, mq_msg_queue_tail := None, mq_msg_queue_free := None\<rparr>"
  define mq' where "mq' = fold (mq_add_free junk) [0..<unat n] mq0"
  let ?f = "rev (map (mq_slot mq0) [0..<unat n])"
  have e: "mq_setup junk flag addr sz n mq = mq'\<lparr>mq_entry := 0\<rparr>" by (simp add: mq_setup_def mq'_def mq0_def)
  have F: "chain (mq_msg_pool mq') (mq_msg_queue_free mq') ?f" "dom (mq_msg_pool mq') = set ?f" "distinct ?f"
    "\<forall>a m. mq_msg_pool mq' a = Some m \<longrightarrow> length (mm_data m) = unat (mq_msg_size mq0)" "mq_same mq0 mq'"
    "mq_msg_queue_head mq' = None" "mq_msg_queue_tail mq' = None"
    using mq_add_free_fold [of mq0 junk "unat n"] by (simp_all add: Let_def mq'_def mq0_def)
  have "mq_rep (mq'\<lparr>mq_entry := 0\<rparr>) [] ?f {}"
    unfolding mq_rep_def using F by (simp add: mq_same_def mq0_def)
  then show "mq_wf (mq_setup junk flag addr sz n mq)" "mq_contents (mq_setup junk flag addr sz n mq) = []"
    unfolding e using mq_rep_queue by (fastforce simp: mq_wf_def mq_contents_def)+
  show "mq_max_msgs (mq_setup junk flag addr sz n mq) = n" "mq_msg_size (mq_setup junk flag addr sz n mq) = sz"
    unfolding e using F(5) by (simp_all add: mq_same_def mq0_def)
qed

text \<open>Flushing ends, with an empty queue.\<close>

lemma mq_release_entry:
  "mq_release msg (mq\<lparr>mq_entry := e\<rparr>) = map_option (\<lambda>mq. mq\<lparr>mq_entry := e\<rparr>) (mq_release msg mq)"
  by (cases "mq_msg_pool mq msg") (simp_all add: mq_release_def msg_set_next_def)

lemma mq_flush_empties:
  assumes "mq_rep (mq\<lparr>mq_entry := of_nat (length q)\<rparr>) q f F"
  shows "returns (mq_flush mq) (\<lambda>mq'. mq_rep (mq'\<lparr>mq_entry := 0\<rparr>) [] (rev q @ f) F \<and> mq_same mq mq')"
  using assms
proof (induction q arbitrary: mq f)
  case Nil
  then have "mq_msg_queue_head mq = None" using mq_repD(1) [OF Nil] by simp
  then show ?case using Nil by (subst mq_flush.simps) simp
next
  case (Cons msg q)
  let ?mq = "mq\<lparr>mq_entry := of_nat (length (msg # q))\<rparr>"
  note d = mq_repD [OF Cons.prems]
  obtain m where m: "mq_msg_pool mq msg = Some m" using mq_repE [OF Cons.prems, of msg] by auto
  let ?m1 = "mq\<lparr>mq_msg_queue_head := mm_next m, mq_msg_queue_tail := if mq_msg_queue_tail mq = Some msg then None else mq_msg_queue_tail mq\<rparr>"
  have "unat (of_nat (Suc (length q)) :: u16) = Suc (length q)" using d(9) by simp
  then have en: "(of_nat (Suc (length q)) :: u16) > 0" by (simp add: word_less_nat_alt)
  have ul: "mq_unlink ?mq = Some (msg, ?m1\<lparr>mq_entry := of_nat (length q)\<rparr>)"
    using d(1) m en by (simp add: mq_unlink_def)
  have r1: "mq_rep (?m1\<lparr>mq_entry := of_nat (length q)\<rparr>) q f (insert msg F)"
    using mq_unlink_rep [OF Cons.prems] ul by simp
  obtain m2 where m2: "mq_release msg ?m1 = Some m2" "mq_same ?m1 m2" "mq_rep (m2\<lparr>mq_entry := of_nat (length q)\<rparr>) q (msg # f) F"
  proof -
    have "F - {msg} = F" using d(6) by auto
    then show thesis using mq_release_rep [OF r1, of msg] that unfolding mq_release_entry
      by (cases "mq_release msg ?m1") (auto simp: mq_same_def insert_Diff_if)
  qed
  have "mq_flush mq = mq_flush m2"
    by (subst mq_flush.simps) (use d(1) m m2(1) in simp)
  then show ?case using Cons.IH [OF m2(3)] m2(2) by (auto elim!: returns_mono simp: mq_same_def)
qed

section \<open>The operations on the kernel state\<close>

definition mq_ok :: "rt_messagequeue \<Rightarrow> bool" where
  "mq_ok mq \<longleftrightarrow> rt_object_get_type (mq_parent mq) = RT_Object_Class_MessageQueue \<and>
     (ob_flag (mq_parent mq) = RT_IPC_FLAG_FIFO \<or> ob_flag (mq_parent mq) = RT_IPC_FLAG_PRIO) \<and> mq_wf mq"

text \<open>
  \<open>mq_moved b h R k k'\<close>: the contents of queue \<open>b\<close> before and after are related by \<open>R\<close> and the first thread waiting on
  \<open>h\<close>, if any, was woken; nothing else about the IPC objects changed.
\<close>

definition mq_moved :: "nat \<Rightarrow> lhead \<Rightarrow> (u8 list list \<Rightarrow> u8 list list \<Rightarrow> bool) \<Rightarrow> kernel \<Rightarrow> kernel \<Rightarrow> bool" where
  "mq_moved b h R k k' \<longleftrightarrow>
     (\<exists>mq mq'. k_mqs k b = Some mq \<and> k_mqs k' = (k_mqs k)(b \<mapsto> mq') \<and> mq_ok mq' \<and> mq_same mq mq' \<and>
        R (mq_contents mq) (mq_contents mq')) \<and>
     k_lists k' h = tl (k_lists k h) \<and> (\<forall>g. wait_head g \<longrightarrow> g \<noteq> h \<longrightarrow> k_lists k' g = k_lists k g) \<and>
     (\<forall>t ts. k_lists k h = t # ts \<longrightarrow> (\<exists>th. k_threads k' t = Some th \<and> thread_stat th \<noteq> RT_THREAD_SUSPEND))"

lemma kinvx_put_mq [simp]: "kinvx X (put_mq b mq k) = kinvx X k"
  by (simp add: kinvx_def put_mq_def)

lemma put_mq_fields [simp]:
  "k_current (put_mq b mq k) = k_current k" "k_lists (put_mq b mq k) = k_lists k" "k_threads (put_mq b mq k) = k_threads k"
  "k_mqs (put_mq b mq k) = (k_mqs k)(b \<mapsto> mq)" "k_irq_nest (put_mq b mq k) = k_irq_nest k"
  by (simp_all add: put_mq_def)

lemma mq_wake:
  assumes i: "kinv k" and c: "k_current k = Some c" and h: "wait_head h"
    and mq: "k_mqs k b = Some mq" "mq_ok mq" "mq_wf mq'" "mq_same mq mq'" "R (mq_contents mq) (mq_contents mq')"
  shows "returns (ipc_wake h (put_mq b mq' k)) (\<lambda>k'. kinv k' \<and> mq_moved b h R k k')"
proof -
  have k: "kinv (put_mq b mq' k)" "k_current (put_mq b mq' k) = Some c" using i c by simp_all
  have "mq_ok mq'" using mq(2-4) by (simp add: mq_ok_def mq_same_def)
  then show ?thesis
    by (intro returns_mono [OF ipc_wake_kinvx [OF k(1) h k(2)]])
      (use mq in \<open>auto simp: mq_moved_def fields_frame_def\<close>)
qed

lemma rt_mq_send_wait_room:
  assumes i: "kinv k" and c: "k_current k = Some c" and mq: "k_mqs k b = Some mq" "mq_ok mq"
    and n: "length (mq_contents mq) < unat (mq_max_msgs mq)" and l: "buffer \<noteq> []" "length buffer \<le> unat (mq_msg_size mq)"
  shows "returns (rt_mq_send_wait b buffer timeout k) (\<lambda>(r, k'). r = Done RT_EOK \<and> kinv k' \<and>
    mq_moved b (MqQ b) (\<lambda>q q'. \<exists>x. padded buffer (unat (mq_msg_size mq)) x \<and> q' = q @ [x]) k k')"
proof -
  have w: "mq_wf mq" using mq(2) by (simp add: mq_ok_def)
  obtain msg mq' x where p: "mq_msg_queue_free mq = Some msg" "mq_push msg buffer mq = Some (True, mq')" "mq_wf mq'"
    "mq_contents mq' = mq_contents mq @ [x]" "padded buffer (unat (mq_msg_size mq)) x" "mq_same mq mq'"
    by (rule mq_push_contents [OF w n l(2)])
  have e: "rt_mq_send_wait b buffer timeout k = Option.bind (ipc_wake (MqQ b) (put_mq b mq' k)) (\<lambda>k. Some (Done RT_EOK, k))"
    using mq p(1,2) l by (simp add: rt_mq_send_wait_def get_mq_def mq_ok_def mq_send_round_def)
  have "returns (ipc_wake (MqQ b) (put_mq b mq' k)) (\<lambda>k'. kinv k' \<and>
      mq_moved b (MqQ b) (\<lambda>q q'. \<exists>x. padded buffer (unat (mq_msg_size mq)) x \<and> q' = q @ [x]) k k')"
    by (rule mq_wake [OF i c _ mq p(3,6)]) (use p in auto)
  then show ?thesis unfolding e by (auto elim!: returns_mono)
qed

lemma rt_mq_urgent_room:
  assumes i: "kinv k" and c: "k_current k = Some c" and mq: "k_mqs k b = Some mq" "mq_ok mq"
    and n: "length (mq_contents mq) < unat (mq_max_msgs mq)" and l: "buffer \<noteq> []" "length buffer \<le> unat (mq_msg_size mq)"
  shows "returns (rt_mq_urgent b buffer k) (\<lambda>(r, k'). r = RT_EOK \<and> kinv k' \<and>
    mq_moved b (MqQ b) (\<lambda>q q'. \<exists>x. padded buffer (unat (mq_msg_size mq)) x \<and> q' = x # q) k k')"
proof -
  have w: "mq_wf mq" using mq(2) by (simp add: mq_ok_def)
  obtain msg mq' x where p: "mq_msg_queue_free mq = Some msg" "mq_push_front msg buffer mq = Some (True, mq')" "mq_wf mq'"
    "mq_contents mq' = x # mq_contents mq" "padded buffer (unat (mq_msg_size mq)) x" "mq_same mq mq'"
    by (rule mq_push_front_contents [OF w n l(2)])
  have e: "rt_mq_urgent b buffer k = Option.bind (ipc_wake (MqQ b) (put_mq b mq' k)) (\<lambda>k. Some (RT_EOK, k))"
    using mq p(1,2) l by (simp add: rt_mq_urgent_def get_mq_def mq_ok_def)
  have "returns (ipc_wake (MqQ b) (put_mq b mq' k)) (\<lambda>k'. kinv k' \<and>
      mq_moved b (MqQ b) (\<lambda>q q'. \<exists>x. padded buffer (unat (mq_msg_size mq)) x \<and> q' = x # q) k k')"
    by (rule mq_wake [OF i c _ mq p(3,6)]) (use p in auto)
  then show ?thesis unfolding e by (auto elim!: returns_mono)
qed

lemma rt_mq_recv_some:
  assumes i: "kinv k" and c: "k_current k = Some c" and mq: "k_mqs k b = Some mq" "mq_ok mq" "mq_contents mq = x # xs"
    and z: "sz \<noteq> 0"
  shows "returns (rt_mq_recv b sz timeout k) (\<lambda>(r, k'). r = Done (RT_EOK, Some (take sz x)) \<and> kinv k' \<and>
    mq_moved b (MqSendQ b) (\<lambda>q q'. q' = tl q) k k')"
proof -
  have w: "mq_wf mq" using mq(2) by (simp add: mq_ok_def)
  obtain mq' where p: "mq_pop sz mq = Some (take sz x, mq')" "mq_wf mq'" "mq_contents mq' = xs" "mq_same mq mq'" "mq_entry mq \<noteq> 0"
    by (rule mq_pop_contents [OF w mq(3)])
  have e: "rt_mq_recv b sz timeout k = Option.bind (ipc_wake (MqSendQ b) (put_mq b mq' k)) (\<lambda>k. Some (Done (RT_EOK, Some (take sz x)), k))"
    using mq p z by (simp add: rt_mq_recv_def get_mq_def mq_ok_def mq_recv_round_def)
  have "returns (ipc_wake (MqSendQ b) (put_mq b mq' k)) (\<lambda>k'. kinv k' \<and> mq_moved b (MqSendQ b) (\<lambda>q q'. q' = tl q) k k')"
    by (rule mq_wake [OF i c _ mq(1,2) p(2,4)]) (use p mq in auto)
  then show ?thesis unfolding e by (auto elim!: returns_mono)
qed

lemma mq_full_free:
  assumes "mq_wf mq" and "length (mq_contents mq) = unat (mq_max_msgs mq)"
  shows "mq_msg_queue_free mq = None"
proof -
  obtain q f where r: "mq_rep mq q f {}" "mq_contents mq = map (mq_bytes mq) q" "length q + length f = unat (mq_max_msgs mq)"
    using assms(1) by (rule mq_wfE)
  then show ?thesis using assms(2) mq_repD(3) [OF r(1)] by simp
qed

lemma rt_mq_errors:
  assumes mq: "k_mqs k b = Some mq" "mq_ok mq" and l: "buffer \<noteq> []"
  shows "length buffer > unat (mq_msg_size mq) \<Longrightarrow> rt_mq_send_wait b buffer timeout k = Some (Done (- RT_ERROR), k)"
    and "length buffer \<le> unat (mq_msg_size mq) \<Longrightarrow> length (mq_contents mq) = unat (mq_max_msgs mq) \<Longrightarrow>
      rt_mq_send b buffer k = Some (Done (- RT_EFULL), k)"
    and "sz \<noteq> 0 \<Longrightarrow> mq_contents mq = [] \<Longrightarrow> rt_mq_recv b sz 0 k = Some (Done (- RT_ETIMEOUT, None), k)"
proof -
  have w: "mq_wf mq" using mq by (simp add: mq_ok_def)
  show "rt_mq_send_wait b buffer timeout k = Some (Done (- RT_ERROR), k)" if "length buffer > unat (mq_msg_size mq)"
    using that mq l by (simp add: rt_mq_send_wait_def get_mq_def mq_ok_def)
  show "rt_mq_send b buffer k = Some (Done (- RT_EFULL), k)"
    if "length buffer \<le> unat (mq_msg_size mq)" "length (mq_contents mq) = unat (mq_max_msgs mq)"
    using that mq l mq_full_free [OF w] by (simp add: rt_mq_send_def rt_mq_send_wait_def get_mq_def mq_ok_def)
  show "rt_mq_recv b sz 0 k = Some (Done (- RT_ETIMEOUT, None), k)" if "sz \<noteq> 0" "mq_contents mq = []"
    using that mq length_mq_contents [OF w] by (simp add: rt_mq_recv_def get_mq_def mq_ok_def unat_eq_zero)
qed

lemma rt_mq_recv_blocks:
  assumes i: "kinv k" and c: "k_current k = Some t" "k_threads k t = Some th" "thread_stat th = RT_THREAD_RUNNING"
    and irq: "k_irq_nest k = 0" and mq: "k_mqs k b = Some mq" "mq_ok mq" "mq_contents mq = []"
    and n: "timeout \<noteq> 0" "timeout < 2 ^ 31 - 1" "sz \<noteq> 0"
  shows "returns (rt_mq_recv b sz timeout k) (\<lambda>(r, k'). (\<exists>w. r = Wait w \<and> wt_thread w = t \<and> wt_timeout w = timeout) \<and> kinv k' \<and>
    k_mqs k' = k_mqs k \<and> t \<in> set (k_lists k' (MqQ b)) \<and> (timeout > 0 \<longleftrightarrow> Thread_timer t \<in> set (k_timer_list k')))"
proof -
  have "mq_wf mq" using mq(2) by (simp add: mq_ok_def)
  then have z: "mq_entry mq = 0" using mq(3) length_mq_contents by (metis list.size(3) unat_eq_zero)
  let ?w = "\<lparr>wt_thread = t, wt_timeout = timeout, wt_tick_delta = if timeout > 0 then rt_tick_get k else 0\<rparr>"
  let ?k = "k\<lparr>k_threads := (k_threads k)(t \<mapsto> th\<lparr>th_error := RT_EOK\<rparr>)\<rparr>"
  have e: "rt_mq_recv b sz timeout k = Option.bind (ipc_block (MqQ b) t (ob_flag (mq_parent mq)) timeout ?k)
      (\<lambda>k. Option.bind (rt_schedule k) (\<lambda>k. Some (Wait ?w, k)))"
    using mq c irq n z by (simp add: rt_mq_recv_def get_mq_def mq_ok_def mq_recv_round_def rt_thread_self_def mod_thread_def
        in_thread_context_def rt_tick_get_def)
  show ?thesis unfolding e
    by (rule returns_mono [OF block_cleared [OF i c _ _ n(2)]]) (use mq(2) in \<open>auto simp: mq_ok_def fields_frame_def\<close>)
qed

lemma rt_mq_send_blocks:
  assumes i: "kinv k" and c: "k_current k = Some t" "k_threads k t = Some th" "thread_stat th = RT_THREAD_RUNNING"
    and irq: "k_irq_nest k = 0" and mq: "k_mqs k b = Some mq" "mq_ok mq" "length (mq_contents mq) = unat (mq_max_msgs mq)"
    and n: "timeout \<noteq> 0" "timeout < 2 ^ 31 - 1" and l: "buffer \<noteq> []" "length buffer \<le> unat (mq_msg_size mq)"
  shows "returns (rt_mq_send_wait b buffer timeout k) (\<lambda>(r, k'). (\<exists>w. r = Wait w \<and> wt_thread w = t \<and> wt_timeout w = timeout) \<and> kinv k' \<and>
    k_mqs k' = k_mqs k \<and> t \<in> set (k_lists k' (MqSendQ b)) \<and> (timeout > 0 \<longleftrightarrow> Thread_timer t \<in> set (k_timer_list k')))"
proof -
  have z: "mq_msg_queue_free mq = None" using mq mq_full_free by (simp add: mq_ok_def)
  let ?w = "\<lparr>wt_thread = t, wt_timeout = timeout, wt_tick_delta = if timeout > 0 then rt_tick_get k else 0\<rparr>"
  let ?k = "k\<lparr>k_threads := (k_threads k)(t \<mapsto> th\<lparr>th_error := RT_EOK\<rparr>)\<rparr>"
  have e: "rt_mq_send_wait b buffer timeout k = Option.bind (ipc_block (MqSendQ b) t (ob_flag (mq_parent mq)) timeout ?k)
      (\<lambda>k. Option.bind (rt_schedule k) (\<lambda>k. Some (Wait ?w, k)))"
    using mq c irq n z l by (simp add: rt_mq_send_wait_def get_mq_def mq_ok_def mq_send_round_def rt_thread_self_def mod_thread_def
        in_thread_context_def rt_tick_get_def)
  show ?thesis unfolding e
    by (rule returns_mono [OF block_cleared [OF i c _ _ n(2)]]) (use mq(2) in \<open>auto simp: mq_ok_def fields_frame_def\<close>)
qed

section \<open>Resetting a queue\<close>

lemma mq_reset_wf:
  assumes "mq_wf mq"
  shows "returns (mq_flush mq) (\<lambda>mq'. mq_wf (mq'\<lparr>mq_entry := 0\<rparr>) \<and> mq_contents (mq'\<lparr>mq_entry := 0\<rparr>) = [] \<and> mq_same mq mq')"
proof -
  obtain q f where r: "mq_rep mq q f {}" "length q = unat (mq_entry mq)" using assms by (rule mq_wfE)
  have "(of_nat (length q) :: u16) = mq_entry mq" using r(2) by simp
  then have "mq\<lparr>mq_entry := of_nat (length q)\<rparr> = mq" by simp
  then have "mq_rep (mq\<lparr>mq_entry := of_nat (length q)\<rparr>) q f {}" using r(1) by simp
  then show ?thesis
  proof (rule returns_mono [OF mq_flush_empties], elim conjE)
    fix mq' assume m: "mq_rep (mq'\<lparr>mq_entry := 0\<rparr>) [] (rev q @ f) {}" "mq_same mq mq'"
    have "mq_queue (mq'\<lparr>mq_entry := 0\<rparr>) = []" by (rule mq_rep_queue [OF m(1)])
    then show "mq_wf (mq'\<lparr>mq_entry := 0\<rparr>) \<and> mq_contents (mq'\<lparr>mq_entry := 0\<rparr>) = [] \<and> mq_same mq mq'"
      using m by (auto simp: mq_wf_def mq_contents_def)
  qed
qed

text \<open>
  Resetting a message queue terminates: \<^verbatim>\<open>rt_mq_control\<close> with \<^verbatim>\<open>RT_IPC_CMD_RESET\<close> returns \<open>RT_EOK\<close>, its loop over the
  queued messages included; afterwards the queue is empty and well-formed with all its messages free, no
  thread waits to send to or receive from it, and the kernel invariant holds.
\<close>

theorem rt_mq_control_reset:
  assumes i: "kinv k" and c: "k_current k = Some c" and mq: "k_mqs k b = Some mq" "mq_ok mq"
  shows "returns (rt_mq_control b RT_IPC_CMD_RESET k) (\<lambda>(r, k'). r = RT_EOK \<and> kinv k' \<and>
    (\<exists>mq'. k_mqs k' b = Some mq' \<and> mq_ok mq' \<and> mq_same mq mq' \<and> mq_contents mq' = []) \<and>
    k_lists k' (MqQ b) = [] \<and> k_lists k' (MqSendQ b) = [])"
proof -
  have w: "mq_wf mq" using mq(2) by (simp add: mq_ok_def)
  have g: "get_mq b k = Some mq" using mq by (simp add: get_mq_def mq_ok_def)
  have h: "wait_head (MqQ b)" "wait_head (MqSendQ b)" by simp_all
  have "returns (Option.bind (rt_ipc_list_resume_all (MqQ b) k) (\<lambda>k. Option.bind (rt_ipc_list_resume_all (MqSendQ b) k)
      (\<lambda>k. Option.bind (k_mqs k b) (\<lambda>mq. Option.bind (mq_flush mq) (\<lambda>mq. rt_schedule (put_mq b (mq\<lparr>mq_entry := 0\<rparr>) k))))))
    (\<lambda>k'. kinv k' \<and> (\<exists>mq'. k_mqs k' b = Some mq' \<and> mq_ok mq' \<and> mq_same mq mq' \<and> mq_contents mq' = []) \<and>
      k_lists k' (MqQ b) = [] \<and> k_lists k' (MqSendQ b) = [])" (is "returns _ ?Q")
  proof (rule returns_bindI [OF rt_ipc_list_resume_all_kinvx [OF i h(1)]], elim conjE)
    fix k1 assume k1: "kinv k1" "core_frame k k1" "all_resumed (MqQ b) k k1" "k_current k1 = k_current k"
    show "returns (Option.bind (rt_ipc_list_resume_all (MqSendQ b) k1) (\<lambda>k. Option.bind (k_mqs k b)
        (\<lambda>mq. Option.bind (mq_flush mq) (\<lambda>mq. rt_schedule (put_mq b (mq\<lparr>mq_entry := 0\<rparr>) k))))) ?Q"
    proof (rule returns_bindI [OF rt_ipc_list_resume_all_kinvx [OF k1(1) h(2)]], elim conjE)
      fix k2 assume k2: "kinv k2" "core_frame k1 k2" "all_resumed (MqSendQ b) k1 k2" "k_current k2 = k_current k1"
      have m2: "k_mqs k2 b = Some mq" using core_frameD(5) [OF k1(2)] core_frameD(5) [OF k2(2)] mq(1) by simp
      have l2: "k_lists k2 (MqQ b) = []" "k_lists k2 (MqSendQ b) = []"
        using k1(3) k2(3) h by (auto simp: all_resumed_def)
      have c2: "k_current k2 = Some c" using c k1(4) k2(4) by simp
      show "returns (Option.bind (k_mqs k2 b) (\<lambda>mq. Option.bind (mq_flush mq)
          (\<lambda>mq. rt_schedule (put_mq b (mq\<lparr>mq_entry := 0\<rparr>) k2)))) ?Q"
        unfolding m2 Option.bind.bind_lunit
      proof (rule returns_bindI [OF mq_reset_wf [OF w]], elim conjE)
        fix mq' assume m': "mq_wf (mq'\<lparr>mq_entry := 0\<rparr>)" "mq_contents (mq'\<lparr>mq_entry := 0\<rparr>) = []" "mq_same mq mq'"
        let ?mq = "mq'\<lparr>mq_entry := 0\<rparr>"
        have ok: "mq_ok ?mq" "mq_same mq ?mq" using mq(2) m' by (simp_all add: mq_ok_def mq_same_def)
        have k3: "kinv (put_mq b ?mq k2)" "k_current (put_mq b ?mq k2) = Some c" using k2(1) c2 by simp_all
        have "returns (rt_schedule (put_mq b ?mq k2)) (\<lambda>k'. (kinv k' \<and> sched_rel (put_mq b ?mq k2) k') \<and> core_frame (put_mq b ?mq k2) k')"
          by (rule returns_frame [OF schedule_after [OF k3]]) (auto intro: frame)
        then show "returns (rt_schedule (put_mq b ?mq k2)) ?Q"
        proof (rule returns_mono, elim conjE)
          fix k' assume k': "kinv k'" "sched_rel (put_mq b ?mq k2) k'" "core_frame (put_mq b ?mq k2) k'"
          show "?Q k'"
            using k'(1) ok m'(2) l2 core_frameD(5) [OF k'(3)] sched_relD(5) [OF k'(2), of "MqQ b"] sched_relD(5) [OF k'(2), of "MqSendQ b"]
            by simp
        qed
      qed
    qed
  qed
  then show ?thesis using g by (auto simp: rt_mq_control_def elim!: returns_mono)
qed

section \<open>What message queues promise\<close>

text \<open>
  C28. Refinement: the message pool of a queue, with its free list and its linked list of messages, implements a bounded
  queue of messages with insertion at the front: every sequence of sends and urgent sends of full-length messages
  and receives gives the messages the queue of the same capacity gives and ends with the contents of that queue.
\<close>

theorem mq_refines_queue:
  assumes "mq_wf mq" and "\<forall>x. Put x \<in> set ops \<or> Urgent x \<in> set ops \<longrightarrow> length x = unat (mq_msg_size mq)"
  shows "mq_wf (snd (mq.urun ops mq)) \<and> queue_spec (unat (mq_max_msgs mq)) ops (mq_contents mq) =
    (fst (mq.urun ops mq), mq_contents (snd (mq.urun ops mq)))"
  by (rule mq.urun_refines [OF assms])

text \<open>
  C29. \<^verbatim>\<open>rt_mq_send_wait\<close> by the running thread of a non-empty buffer, on every branch: a buffer longer than a message gives
  \<open>-RT_ERROR\<close> and no change; with a free message the buffer goes to the end of the queue and the first waiting
  receiver is made runnable; a full queue gives \<open>-RT_EFULL\<close> and no change without waiting time, and else the sender
  waits.  The kernel invariant is kept.
\<close>

theorem rt_mq_send_wait_correct:
  assumes i: "kinv k" and c: "k_current k = Some t" "k_threads k t = Some th" "thread_stat th = RT_THREAD_RUNNING"
    and irq: "k_irq_nest k = 0" and mq: "k_mqs k b = Some mq" "mq_ok mq" and n: "timeout < 2 ^ 31 - 1" and l: "buffer \<noteq> []"
  shows "returns (rt_mq_send_wait b buffer timeout k) (\<lambda>(r, k'). kinv k' \<and>
    (if length buffer > unat (mq_msg_size mq) then r = Done (- RT_ERROR) \<and> k' = k
     else if length (mq_contents mq) < unat (mq_max_msgs mq) then r = Done RT_EOK \<and>
       mq_moved b (MqQ b) (\<lambda>q q'. \<exists>x. padded buffer (unat (mq_msg_size mq)) x \<and> q' = q @ [x]) k k'
     else if timeout = 0 then r = Done (- RT_EFULL) \<and> k' = k
     else (\<exists>w. r = Wait w \<and> wt_thread w = t) \<and> k_mqs k' = k_mqs k \<and> t \<in> set (k_lists k' (MqSendQ b)) \<and>
       (0 < timeout \<longleftrightarrow> Thread_timer t \<in> set (k_timer_list k'))))"
proof -
  have "length (mq_contents mq) \<le> unat (mq_max_msgs mq)" using mq(2) mq.bound by (simp add: mq_ok_def)
  then consider (long) "length buffer > unat (mq_msg_size mq)"
    | (room) "length buffer \<le> unat (mq_msg_size mq)" "length (mq_contents mq) < unat (mq_max_msgs mq)"
    | (no) "length buffer \<le> unat (mq_msg_size mq)" "length (mq_contents mq) = unat (mq_max_msgs mq)" "timeout = 0"
    | (wait) "length buffer \<le> unat (mq_msg_size mq)" "length (mq_contents mq) = unat (mq_max_msgs mq)" "timeout \<noteq> 0"
    by linarith
  then show ?thesis
  proof cases
    case long
    then show ?thesis using rt_mq_errors(1) [OF mq l long, of timeout] i by simp
  next
    case room
    then show ?thesis using rt_mq_send_wait_room [OF i c(1) mq room(2) l room(1), of timeout] by (auto elim!: returns_mono)
  next
    case no
    then show ?thesis using rt_mq_errors(2) [OF mq l no(1,2)] i by (simp add: rt_mq_send_def)
  next
    case wait
    then show ?thesis using rt_mq_send_blocks [OF i c irq mq wait(2,3) n l wait(1)] by (auto elim!: returns_mono)
  qed
qed

text \<open>
  \<^verbatim>\<open>rt_mq_recv\<close> by the running thread into a buffer of \<open>sz\<close> bytes, on every branch: the oldest message, cut to the buffer,
  is returned and removed and the first waiting sender is made runnable; an empty queue gives \<open>-RT_ETIMEOUT\<close> and no
  change without waiting time, and else the receiver waits.  The kernel invariant is kept.
\<close>

theorem rt_mq_recv_correct:
  assumes i: "kinv k" and c: "k_current k = Some t" "k_threads k t = Some th" "thread_stat th = RT_THREAD_RUNNING"
    and irq: "k_irq_nest k = 0" and mq: "k_mqs k b = Some mq" "mq_ok mq" and n: "timeout < 2 ^ 31 - 1" and z: "sz \<noteq> 0"
  shows "returns (rt_mq_recv b sz timeout k) (\<lambda>(r, k'). kinv k' \<and>
    (case mq_contents mq of
       x # _ \<Rightarrow> r = Done (RT_EOK, Some (take sz x)) \<and> mq_moved b (MqSendQ b) (\<lambda>q q'. q' = tl q) k k'
     | [] \<Rightarrow> if timeout = 0 then r = Done (- RT_ETIMEOUT, None) \<and> k' = k
            else (\<exists>w. r = Wait w \<and> wt_thread w = t) \<and> k_mqs k' = k_mqs k \<and> t \<in> set (k_lists k' (MqQ b)) \<and>
              (0 < timeout \<longleftrightarrow> Thread_timer t \<in> set (k_timer_list k'))))"
proof (cases "mq_contents mq")
  case Nil
  show ?thesis
  proof (cases "timeout = 0")
    case True
    then show ?thesis using rt_mq_errors(3) [OF mq _ z Nil, of "[0]"] i Nil by simp
  next
    case False
    then show ?thesis using rt_mq_recv_blocks [OF i c irq mq Nil False n z] Nil by (auto elim!: returns_mono)
  qed
next
  case (Cons x xs)
  then show ?thesis using rt_mq_recv_some [OF i c(1) mq Cons z, of timeout] by (auto elim!: returns_mono)
qed

section \<open>The promises on the sample state\<close>

text \<open>Queue 501 of the sample state: three messages of four bytes, none sent yet, and the queue after one send.\<close>

definition sample_mq :: rt_messagequeue where
  "sample_mq = mq_setup (\<lambda>_. 0) RT_IPC_FLAG_FIFO 1000 4 3
     \<lparr>mq_parent = sample_object 0x86 0, mq_msg_pool = Map.empty, mq_pool_addr = 0, mq_msg_size = 0, mq_max_msgs = 0, mq_entry = 0,
      mq_msg_queue_head = None, mq_msg_queue_tail = None, mq_msg_queue_free = None\<rparr>"

definition sample_mq1 :: rt_messagequeue where
  "sample_mq1 = the (mq_put [1, 2, 3, 4] sample_mq)"

abbreviation sample_mq_kernel :: "rt_messagequeue \<Rightarrow> kernel" where
  "sample_mq_kernel mq \<equiv> put_mq 501 mq sample_kernel"

lemma mq_add_free_parent: "mq_parent (fold (mq_add_free junk) ns mq) = mq_parent mq"
  by (induction ns arbitrary: mq) (simp_all add: mq_add_free_def Let_def)

lemma mq_setup_parent: "mq_parent (mq_setup junk flag addr sz n mq) = (mq_parent mq)\<lparr>ob_flag := flag\<rparr>"
  by (simp add: mq_setup_def Let_def mq_add_free_parent)

lemma sample_mq_ok: "mq_ok sample_mq" "mq_contents sample_mq = []" "mq_max_msgs sample_mq = 3" "mq_msg_size sample_mq = 4"
  by (simp_all add: sample_mq_def mq_ok_def mq_setup_empty mq_setup_parent sample_object_def rt_object_get_type_def)

lemma sample_mq1_ok:
  "mq_ok sample_mq1" "mq_contents sample_mq1 = [[1, 2, 3, 4]]" "mq_max_msgs sample_mq1 = 3" "mq_msg_size sample_mq1 = 4"
proof -
  have w: "mq_wf sample_mq" using sample_mq_ok(1) by (simp add: mq_ok_def)
  have n: "length (mq_contents sample_mq) < unat (mq_max_msgs sample_mq)" by (simp add: sample_mq_ok)
  have v: "length [1, 2, 3, 4 :: u8] = unat (mq_msg_size sample_mq)" by (simp add: sample_mq_ok)
  have p: "padded [1, 2, 3, 4] (unat (mq_msg_size sample_mq)) y \<longleftrightarrow> y = [1, 2, 3, 4 :: u8]" for y
    using v by (auto simp: padded_def)
  have "\<exists>mq'. mq_put [1, 2, 3, 4] sample_mq = Some mq' \<and> mq_wf mq' \<and> mq_contents mq' = [[1, 2, 3, 4]] \<and> mq_same sample_mq mq'"
    by (rule mq_push_contents [OF w n, of "[1, 2, 3, 4]"]) (use v p sample_mq_ok(2) in \<open>auto simp: mq_put_def\<close>)
  then show "mq_ok sample_mq1" "mq_contents sample_mq1 = [[1, 2, 3, 4]]" "mq_max_msgs sample_mq1 = 3" "mq_msg_size sample_mq1 = 4"
    using sample_mq_ok by (auto simp: sample_mq1_def mq_same_def mq_ok_def)
qed

theorem rt_mq_control_reset_witness:
  "returns (rt_mq_control 501 RT_IPC_CMD_RESET (sample_mq_kernel sample_mq1)) (\<lambda>(r, k'). r = RT_EOK \<and> kinv k' \<and>
    (\<exists>mq'. k_mqs k' 501 = Some mq' \<and> mq_contents mq' = []))"
proof -
  have "returns (rt_mq_control 501 RT_IPC_CMD_RESET (sample_mq_kernel sample_mq1)) (\<lambda>(r, k'). r = RT_EOK \<and> kinv k' \<and>
    (\<exists>mq'. k_mqs k' 501 = Some mq' \<and> mq_ok mq' \<and> mq_same sample_mq1 mq' \<and> mq_contents mq' = []) \<and>
    k_lists k' (MqQ 501) = [] \<and> k_lists k' (MqSendQ 501) = [])"
    by (rule rt_mq_control_reset) (simp_all add: sample_mq1_ok)
  then show ?thesis by (rule returns_mono_pair) blast
qed

theorem mq_refines_queue_witness:
  "fst (mq.urun [Put [5, 6, 7, 8], Urgent [9, 9, 9, 9], Get, Get] sample_mq1) = [[9, 9, 9, 9], [1, 2, 3, 4]] \<and>
   mq_contents (snd (mq.urun [Put [5, 6, 7, 8], Urgent [9, 9, 9, 9], Get, Get] sample_mq1)) = [[5, 6, 7, 8]]"
proof -
  let ?ops = "[Put [5, 6, 7, 8], Urgent [9, 9, 9, 9], Get, Get] :: u8 list qop list"
  have "queue_spec (unat (3 :: u16)) ?ops [[1, 2, 3, 4]] = ([[9, 9, 9, 9], [1, 2, 3, 4]], [[5, 6, 7, 8]])" by simp
  moreover have "mq_wf sample_mq1" using sample_mq1_ok(1) by (simp add: mq_ok_def)
  moreover have "\<forall>x. Put x \<in> set ?ops \<or> Urgent x \<in> set ?ops \<longrightarrow> length x = unat (mq_msg_size sample_mq1)"
    by (simp add: sample_mq1_ok)
  note mq_refines_queue [OF _ this, unfolded sample_mq1_ok(2,3)]
  ultimately show ?thesis by (simp only: prod.inject simp_thms)
qed

theorem rt_mq_send_wait_correct_witness:
  "returns (rt_mq_send_wait 501 [7, 7] 0 (sample_mq_kernel sample_mq1)) (\<lambda>(r, k'). kinv k' \<and> r = Done RT_EOK \<and>
    (\<exists>mq x. k_mqs k' 501 = Some mq \<and> mq_contents mq = [[1, 2, 3, 4], x] \<and> padded [7, 7] 4 x))"
proof -
  have "returns (rt_mq_send_wait 501 [7, 7] 0 (sample_mq_kernel sample_mq1)) (\<lambda>(r, k'). kinv k' \<and>
    (if length [7, 7 :: u8] > unat (mq_msg_size sample_mq1) then r = Done (- RT_ERROR) \<and> k' = sample_mq_kernel sample_mq1
     else if length (mq_contents sample_mq1) < unat (mq_max_msgs sample_mq1) then r = Done RT_EOK \<and>
       mq_moved 501 (MqQ 501) (\<lambda>q q'. \<exists>x. padded [7, 7] (unat (mq_msg_size sample_mq1)) x \<and> q' = q @ [x]) (sample_mq_kernel sample_mq1) k'
     else if (0 :: int) = 0 then r = Done (- RT_EFULL) \<and> k' = sample_mq_kernel sample_mq1
     else (\<exists>w. r = Wait w \<and> wt_thread w = 10) \<and> k_mqs k' = k_mqs (sample_mq_kernel sample_mq1) \<and> 10 \<in> set (k_lists k' (MqSendQ 501)) \<and>
       (0 < (0 :: int) \<longleftrightarrow> Thread_timer 10 \<in> set (k_timer_list k'))))"
    by (rule rt_mq_send_wait_correct [where th = "sample_thread RT_THREAD_RUNNING 10"])
      (simp_all add: sample_mq1_ok)
  then show ?thesis by (rule returns_mono_pair) (auto simp: sample_mq1_ok mq_moved_def)
qed

theorem rt_mq_recv_correct_witness:
  "returns (rt_mq_recv 501 2 0 (sample_mq_kernel sample_mq1)) (\<lambda>(r, k'). kinv k' \<and> r = Done (RT_EOK, Some [1, 2]) \<and>
    (\<exists>mq. k_mqs k' 501 = Some mq \<and> mq_contents mq = []))"
proof -
  have "returns (rt_mq_recv 501 2 0 (sample_mq_kernel sample_mq1)) (\<lambda>(r, k'). kinv k' \<and>
    (case mq_contents sample_mq1 of
       x # _ \<Rightarrow> r = Done (RT_EOK, Some (take 2 x)) \<and> mq_moved 501 (MqSendQ 501) (\<lambda>q q'. q' = tl q) (sample_mq_kernel sample_mq1) k'
     | [] \<Rightarrow> if (0 :: int) = 0 then r = Done (- RT_ETIMEOUT, None) \<and> k' = sample_mq_kernel sample_mq1
            else (\<exists>w. r = Wait w \<and> wt_thread w = 10) \<and> k_mqs k' = k_mqs (sample_mq_kernel sample_mq1) \<and> 10 \<in> set (k_lists k' (MqQ 501)) \<and>
              (0 < (0 :: int) \<longleftrightarrow> Thread_timer 10 \<in> set (k_timer_list k'))))"
    by (rule rt_mq_recv_correct [where th = "sample_thread RT_THREAD_RUNNING 10"])
      (simp_all add: sample_mq1_ok)
  then show ?thesis by (rule returns_mono_pair) (auto simp: sample_mq1_ok mq_moved_def)
qed

end
