(* ===== verification/TaskFrame.thy ===== *)
theory TaskFrame
  imports Clock MessageQueue
begin

text \<open>
  What one thread does to the others.  A kernel call made by a task changes the error codes of the threads in a
  set \<open>E\<close> only, starts the timers of no other thread and leaves a running thread; it leaves the IPC objects
  alone but for the one it is for.  The rules follow the structure of the calls; the locale collects those that
  hold for every reflexive and transitive relation on kernel states.
\<close>

section \<open>Frames of calls\<close>

definition keeps :: "(kernel \<Rightarrow> kernel \<Rightarrow> bool) \<Rightarrow> kernel \<Rightarrow> kernel option \<Rightarrow> bool" where
  "keeps R k m \<longleftrightarrow> (\<forall>k'. m = Some k' \<longrightarrow> R k k')"

definition keepsr :: "(kernel \<Rightarrow> kernel \<Rightarrow> bool) \<Rightarrow> kernel \<Rightarrow> ('a \<times> kernel) option \<Rightarrow> bool" where
  "keepsr R k m \<longleftrightarrow> (\<forall>r k'. m = Some (r, k') \<longrightarrow> R k k')"

locale call_frame =
  fixes R :: "kernel \<Rightarrow> kernel \<Rightarrow> bool"
  assumes reflexive: "R k k"
    and transitive: "R k1 k2 \<Longrightarrow> R k2 k3 \<Longrightarrow> R k1 k3"
begin

lemma keepsD: "keeps R k m \<Longrightarrow> m = Some k' \<Longrightarrow> R k k'"
  and keepsrD: "keepsr R k q \<Longrightarrow> q = Some (r, k') \<Longrightarrow> R k k'"
  by (simp_all add: keeps_def keepsr_def)

lemma result: "R k k' \<Longrightarrow> keeps R k (Some k')" "keeps R k None"
  "R k k' \<Longrightarrow> keepsr R k (Some (r, k'))" "keepsr R k None"
  by (simp_all add: keeps_def keepsr_def)

lemma branch:
  "(b \<Longrightarrow> keeps R k m) \<Longrightarrow> (\<not> b \<Longrightarrow> keeps R k m') \<Longrightarrow> keeps R k (if b then m else m')"
  "(b \<Longrightarrow> keepsr R k q) \<Longrightarrow> (\<not> b \<Longrightarrow> keepsr R k q') \<Longrightarrow> keepsr R k (if b then q else q')"
  "(b \<Longrightarrow> R k k1) \<Longrightarrow> (\<not> b \<Longrightarrow> R k k2) \<Longrightarrow> R k (if b then k1 else k2)"
  by simp_all

lemma lookup:
  "(\<And>x. m = Some x \<Longrightarrow> keeps R k (f x)) \<Longrightarrow> keeps R k (Option.bind m f)"
  "(\<And>x. m = Some x \<Longrightarrow> keepsr R k (g x)) \<Longrightarrow> keepsr R k (Option.bind m g)"
  by (auto simp: keeps_def keepsr_def bind_eq_Some_conv)

lemma lookup_pair:
  "(\<And>x y. m = Some (x, y) \<Longrightarrow> keepsr R k (g x y)) \<Longrightarrow> keepsr R k (Option.bind m (\<lambda>(x, y). g x y))"
  by (auto simp: keepsr_def bind_eq_Some_conv)

lemma sequence:
  "keeps R k m \<Longrightarrow> (\<And>k1. R k k1 \<Longrightarrow> keeps R k (f k1)) \<Longrightarrow> keeps R k (Option.bind m f)"
  "keeps R k m \<Longrightarrow> (\<And>k1. R k k1 \<Longrightarrow> keepsr R k (g k1)) \<Longrightarrow> keepsr R k (Option.bind m g)"
  "keepsr R k q \<Longrightarrow> (\<And>r k1. R k k1 \<Longrightarrow> keeps R k (h r k1)) \<Longrightarrow> keeps R k (Option.bind q (\<lambda>(r, k1). h r k1))"
  "keepsr R k q \<Longrightarrow> (\<And>r k1. R k k1 \<Longrightarrow> keepsr R k (j r k1)) \<Longrightarrow> keepsr R k (Option.bind q (\<lambda>(r, k1). j r k1))"
  by (auto simp: keeps_def keepsr_def bind_eq_Some_conv)

lemma assertion:
  "(b \<Longrightarrow> keeps R k (f ())) \<Longrightarrow> keeps R k (Option.bind (rt_assert b) f)"
  "(b \<Longrightarrow> keepsr R k (g ())) \<Longrightarrow> keepsr R k (Option.bind (rt_assert b) g)"
  by (cases b; simp add: keeps_def keepsr_def)+

lemma choice:
  "keeps R k m \<Longrightarrow> (\<And>a. p = Some a \<Longrightarrow> keeps R k (f a)) \<Longrightarrow> keeps R k (case p of None \<Rightarrow> m | Some a \<Rightarrow> f a)"
  "keepsr R k q \<Longrightarrow> (\<And>a. p = Some a \<Longrightarrow> keepsr R k (g a)) \<Longrightarrow> keepsr R k (case p of None \<Rightarrow> q | Some a \<Rightarrow> g a)"
  "keeps R k m \<Longrightarrow> (\<And>a as. xs = a # as \<Longrightarrow> keeps R k (h a as)) \<Longrightarrow> keeps R k (case xs of [] \<Rightarrow> m | a # as \<Rightarrow> h a as)"
  "(\<And>a b. z = (a, b) \<Longrightarrow> keeps R k (i a b)) \<Longrightarrow> keeps R k (case z of (a, b) \<Rightarrow> i a b)"
  by (simp_all split: option.split list.split prod.split)

lemma call: "R k k1 \<Longrightarrow> keeps R k1 m \<Longrightarrow> keeps R k m" "R k k1 \<Longrightarrow> keepsr R k1 q \<Longrightarrow> keepsr R k q"
  by (auto simp: keeps_def keepsr_def intro: transitive)

lemmas lookups =
  lookup(1) [where 'a = rt_thread] lookup(2) [where 'a = rt_thread]
  lookup(1) [where 'a = rt_timer] lookup(2) [where 'a = rt_timer]
  lookup(1) [where 'a = rt_messagequeue] lookup(2) [where 'a = rt_messagequeue]
  lookup(1) [where 'a = nat] lookup(2) [where 'a = nat]
  lookup(1) [where 'a = "nat \<times> nat"] lookup(2) [where 'a = "nat \<times> nat"]
  lookup(1) [where 'a = bool] lookup(2) [where 'a = bool]
  lookup(1) [where 'a = u8] lookup(2) [where 'a = u8]
  lookup(1) [where 'a = u32] lookup(2) [where 'a = u32]
  lookup(1) [where 'a = "nat list"] lookup(2) [where 'a = "nat list"]
  lookup(1) [where 'a = "timer_ref list"] lookup(2) [where 'a = "timer_ref list"]

lemmas rules = result branch lookup_pair [where 'b = rt_messagequeue] lookups sequence assertion choice

end

section \<open>What a task leaves alone\<close>

definition same_errors :: "nat set \<Rightarrow> kernel \<Rightarrow> kernel \<Rightarrow> bool" where
  "same_errors E k k' \<longleftrightarrow> (\<forall>t. t \<notin> E \<longrightarrow> map_option th_error (k_threads k' t) = map_option th_error (k_threads k t))"

definition task_frame :: "nat set \<Rightarrow> kernel \<Rightarrow> kernel \<Rightarrow> bool" where
  "task_frame E k k' \<longleftrightarrow> same_errors E k k' \<and>
     set (k_timer_list k') \<subseteq> set (k_timer_list k) \<union> Thread_timer ` E \<and>
     k_irq_nest k' = k_irq_nest k \<and> (k_current k \<noteq> None \<longrightarrow> k_current k' \<noteq> None)"

lemma task_frame_trans: "task_frame E k1 k2 \<Longrightarrow> task_frame E k2 k3 \<Longrightarrow> task_frame E k1 k3"
  unfolding task_frame_def same_errors_def by auto

interpretation task: call_frame "task_frame E" for E
proof
  show "task_frame E k k" for k by (simp add: task_frame_def same_errors_def)
  show "task_frame E k1 k3" if "task_frame E k1 k2" "task_frame E k2 k3" for k1 k2 k3
    using that by (rule task_frame_trans)
qed

lemma task_frame_upd:
  "task_frame E k k1 \<Longrightarrow> task_frame E k (k1\<lparr>k_ready_group := g\<rparr>)"
  "task_frame E k k1 \<Longrightarrow> task_frame E k (k1\<lparr>k_current := Some c\<rparr>)"
  "task_frame E k k1 \<Longrightarrow> task_frame E k (k1\<lparr>k_current_priority := p, k_current := Some c\<rparr>)"
  "task_frame E k k1 \<Longrightarrow> task_frame E k (k1\<lparr>k_lists := L\<rparr>)"
  "task_frame E k k1 \<Longrightarrow> task_frame E k (k1\<lparr>k_tick := n\<rparr>)"
  "task_frame E k k1 \<Longrightarrow> task_frame E k (tlist_remove t k1)"
  "task_frame E k k1 \<Longrightarrow> task_frame E k (tlist_insert_before h t k1)"
  "task_frame E k k1 \<Longrightarrow> task_frame E k (rt_timer_remove r k1)"
  "task_frame E k k1 \<Longrightarrow> task_frame E k (put_mq b mq k1)"
  by (auto simp: task_frame_def same_errors_def tlist_remove_def tlist_insert_before_def rt_timer_remove_def put_mq_def)

lemma task_mod_thread:
  assumes "task_frame E k k1" and "\<And>th. t \<notin> E \<Longrightarrow> th_error (f th) = th_error th"
  shows "keeps (task_frame E) k (mod_thread t f k1)"
proof (rule task.call(1) [OF assms(1)])
  show "keeps (task_frame E) k1 (mod_thread t f k1)"
    using assms(2) by (auto simp: keeps_def task_frame_def same_errors_def mod_thread_def get_thread_def bind_eq_Some_conv)
qed

lemma task_mod_timer: "task_frame E k k1 \<Longrightarrow> keeps (task_frame E) k (mod_timer r g k1)"
  by (auto simp: keeps_def task_frame_def same_errors_def mod_timer_def bind_eq_Some_conv)

lemma task_mod_threads:
  "task_frame E k k1 \<Longrightarrow> keeps (task_frame E) k (mod_thread t (set_stat s) k1)"
  "task_frame E k k1 \<Longrightarrow> keeps (task_frame E) k (mod_thread t clear_yield k1)"
  "task_frame E k k1 \<Longrightarrow> keeps (task_frame E) k (mod_thread t (\<lambda>th. th\<lparr>th_remaining_tick := a th\<rparr>) k1)"
  "task_frame E k k1 \<Longrightarrow> keeps (task_frame E) k (mod_thread t (\<lambda>th. th\<lparr>th_remaining_tick := a th, th_stat := b th\<rparr>) k1)"
  "task_frame E k k1 \<Longrightarrow> t \<in> E \<Longrightarrow> keeps (task_frame E) k (mod_thread t (\<lambda>th. th\<lparr>th_error := n\<rparr>) k1)"
  by (erule task_mod_thread, simp add: clear_yield_def)+

lemmas task_rules = task.rules task.reflexive task_frame_upd task_mod_threads task_mod_timer

section \<open>The kernel calls of a task\<close>

lemma task_insert_thread: "task_frame E k k1 \<Longrightarrow> keeps (task_frame E) k (rt_schedule_insert_thread t k1)"
  unfolding rt_schedule_insert_thread_def by (intro task_rules)

lemma task_remove_thread: "task_frame E k k1 \<Longrightarrow> keeps (task_frame E) k (rt_schedule_remove_thread t k1)"
  unfolding rt_schedule_remove_thread_def by (intro task_rules)

lemma task_schedule: "task_frame E k k1 \<Longrightarrow> keeps (task_frame E) k (rt_schedule k1)"
  unfolding rt_schedule_def by (intro task_rules task_insert_thread task_remove_thread)

lemma task_timer_stop: "task_frame E k k1 \<Longrightarrow> keepsr (task_frame E) k (rt_timer_stop r k1)"
  unfolding rt_timer_stop_def by (intro task_rules)

lemma task_timer_control: "task_frame E k k1 \<Longrightarrow> keepsr (task_frame E) k (rt_timer_control r c a k1)"
  unfolding rt_timer_control_def by (intro task_rules)

lemma set_timer_insert: "timer_insert M to r TL = Some TL' \<Longrightarrow> set TL' = insert r (set TL)"
  by (induction TL arbitrary: TL') (auto simp: bind_eq_Some_conv split: if_splits)

lemma task_timer_list:
  "task_frame E k k1 \<Longrightarrow> set TL \<subseteq> set (k_timer_list k1) \<union> Thread_timer ` E \<Longrightarrow> task_frame E k (k1\<lparr>k_timer_list := TL\<rparr>)"
  unfolding task_frame_def same_errors_def by auto

lemma task_timer_start:
  "task_frame E k k1 \<Longrightarrow> t \<in> E \<Longrightarrow> keeps (task_frame E) k (rt_timer_start (Thread_timer t) k1)"
  unfolding rt_timer_start_def
  by (intro task_rules task_timer_list) (auto dest!: set_timer_insert)

lemma task_suspend: "task_frame E k k1 \<Longrightarrow> keepsr (task_frame E) k (rt_thread_suspend t k1)"
  unfolding rt_thread_suspend_def by (intro task_rules task_remove_thread task_timer_stop)

lemma task_resume: "task_frame E k k1 \<Longrightarrow> keepsr (task_frame E) k (rt_thread_resume t k1)"
  unfolding rt_thread_resume_def by (intro task_rules task_insert_thread task_timer_stop)

lemma task_ipc_block:
  "task_frame E k k1 \<Longrightarrow> t \<in> E \<Longrightarrow> keeps (task_frame E) k (ipc_block h t flag time k1)"
  unfolding ipc_block_def rt_ipc_list_suspend_def arm_timer_def
  by (intro task_rules task_suspend task_timer_control task_timer_start)

lemma task_ipc_wait:
  "task_frame E k k1 \<Longrightarrow> time \<le> 0 \<Longrightarrow> keeps (task_frame E) k (ipc_block h t flag time k1)"
  unfolding ipc_block_def rt_ipc_list_suspend_def by (simp, intro task_rules task_suspend)

lemma task_ipc_wake: "task_frame E k k1 \<Longrightarrow> keeps (task_frame E) k (ipc_wake h k1)"
  unfolding ipc_wake_def rt_ipc_list_resume_def by (intro task_rules task_resume task_schedule)

lemma task_sleep:
  "task_frame E k k1 \<Longrightarrow> the (k_current k1) \<in> E \<Longrightarrow> keepsr (task_frame E) k (rt_thread_sleep n k1)"
  unfolding rt_thread_sleep_def
  by (intro task_rules task_suspend task_timer_control task_timer_start task_schedule) (auto simp: rt_thread_self_def)

lemma task_tick_slice: "task_frame E k k1 \<Longrightarrow> keeps (task_frame E) k (tick_slice k1)"
  unfolding tick_slice_def by (intro task_rules task_schedule)

lemma task_mq_send:
  assumes "k_current k = Some t" and "t \<in> E"
  shows "keepsr (task_frame E) k (rt_mq_send b buffer k)"
proof -
  have "keepsr (task_frame E) k (mq_send_round b buffer (Some t) 0 0 k)"
    unfolding mq_send_round_def using assms(2)
    by (intro task_rules task_ipc_wake task_ipc_block task_schedule) auto
  then show ?thesis
    unfolding rt_mq_send_def rt_mq_send_wait_def rt_thread_self_def assms(1) by (intro task_rules)
qed

lemma task_mq_recv_round:
  assumes "t \<in> E"
  shows "keepsr (task_frame E) k (mq_recv_round b sz (Some t) timeout d k)"
  unfolding mq_recv_round_def using assms
  by (intro task_rules task_ipc_wake task_ipc_block task_schedule) auto

lemma task_mq_recv:
  assumes "k_current k = Some t" and "t \<in> E"
  shows "keepsr (task_frame E) k (rt_mq_recv b sz timeout k)"
  unfolding rt_mq_recv_def rt_thread_self_def assms(1) by (intro task_rules task_mq_recv_round assms(2))

section \<open>A receiver that waits forever\<close>

lemma mod_thread_error:
  "mod_thread t (\<lambda>th. th\<lparr>th_error := n\<rparr>) k = Some k' \<Longrightarrow> map_option th_error (k_threads k' t) = Some n"
  by (auto simp: mod_thread_def bind_eq_Some_conv)

lemma recv_round_wait:
  assumes "mq_recv_round b sz (Some t) timeout d k = Some (Wait w, k')" and "timeout < 0"
  shows "w = \<lparr>wt_thread = t, wt_timeout = timeout, wt_tick_delta = d\<rparr>"
    and "map_option th_error (k_threads k' t) = Some RT_EOK"
proof -
  obtain mq k1 k2 where mq: "k_mqs k b = Some mq" "mod_thread t (\<lambda>th. th\<lparr>th_error := RT_EOK\<rparr>) k = Some k1"
    "ipc_block (MqQ b) t (ob_flag (mq_parent mq)) timeout k1 = Some k2" "rt_schedule k2 = Some k'"
    and w: "w = \<lparr>wt_thread = t, wt_timeout = timeout, wt_tick_delta = d\<rparr>"
    using assms by (auto simp: mq_recv_round_def bind_eq_Some_conv split: if_splits prod.splits)
  have "task_frame {} k1 k2" by (rule task.keepsD [OF task_ipc_wait mq(3)]) (use assms(2) task.reflexive in simp_all)
  then have "task_frame {} k1 k'" by (rule task.keepsD [OF task_schedule mq(4)])
  then show "map_option th_error (k_threads k' t) = Some RT_EOK"
    using mod_thread_error [OF mq(2)] by (simp add: task_frame_def same_errors_def)
  show "w = \<lparr>wt_thread = t, wt_timeout = timeout, wt_tick_delta = d\<rparr>" by (rule w)
qed

lemma recv_forever:
  assumes "k_current k = Some t" and "k_mqs k b = Some mq" and "mq_ok mq" and "sz \<noteq> 0"
  shows "rt_mq_recv b sz (- 1) k = mq_recv_round b sz (Some t) (- 1) 0 k"
  using assms by (simp add: rt_mq_recv_def get_mq_def mq_ok_def rt_thread_self_def)

lemma recv_resume_forever:
  assumes "k_current k = Some t" and "k_mqs k b = Some mq" and "mq_ok mq" and "sz \<noteq> 0"
    and "map_option th_error (k_threads k t) = Some RT_EOK"
    and "w = \<lparr>wt_thread = t, wt_timeout = - 1, wt_tick_delta = 0\<rparr>"
  shows "rt_mq_recv_resume b sz w k = rt_mq_recv b sz (- 1) k"
  unfolding recv_forever [OF assms(1-4)]
  using assms(5,6) by (auto simp: rt_mq_recv_resume_def get_thread_def left_timeout_def)

section \<open>The clock tick\<close>

text \<open>The tick changes the error codes only of the threads whose timers run, and starts no timer.\<close>

lemma tick_task:
  assumes "between_ticks k"
  shows "returns (SysTick_Handler env k) (\<lambda>k'. between_ticks k' \<and> k_mqs k' = k_mqs k \<and> k_irq_nest k' = k_irq_nest k \<and>
    set (k_timer_list k') \<subseteq> set (k_timer_list k) \<and>
    (\<forall>t n. Thread_timer t \<notin> set (k_timer_list k) \<longrightarrow> map_option th_error (k_threads k t) = Some n \<longrightarrow>
       map_option th_error (k_threads k' t) = Some n))"
    (is "returns _ ?Q")
proof -
  let ?k = "rt_interrupt_enter k"
  have i: "between_ticks ?k" using assms by (simp add: rt_interrupt_enter_def)
  have "returns (rt_tick_increase env ?k) (\<lambda>k2. ?Q (rt_interrupt_leave k2))"
    unfolding rt_tick_increase_split
  proof (rule returns_bindI [OF returns_conj [OF tick_slice_between [OF i]]])
    show "returns (tick_slice ?k) (\<lambda>k1. task_frame {} ?k k1)"
      using tick_slice_between [OF i] task.keepsD [OF task_tick_slice [OF task.reflexive]] by (auto simp: returns_def)
    fix k1 assume k1: "(between_ticks k1 \<and> k_tick k1 = k_tick ?k + 1 \<and>
      k_timers k1 = k_timers ?k \<and> k_timer_list k1 = k_timer_list ?k \<and> k_irq_nest k1 = k_irq_nest ?k \<and>
      k_lock_nest k1 = k_lock_nest ?k \<and> core_frame (?k\<lparr>k_tick := k_tick ?k + 1\<rparr>) k1 \<and>
      (\<forall>t th. k_current ?k \<noteq> Some t \<longrightarrow> k_threads ?k t = Some th \<longrightarrow> thread_stat th = RT_THREAD_SUSPEND \<longrightarrow> k_threads k1 t = Some th)) \<and>
      task_frame {} ?k k1"
    then have b: "between_ticks k1" and f: "core_frame (?k\<lparr>k_tick := k_tick ?k + 1\<rparr>) k1" "task_frame {} ?k k1" by blast+
    show "returns (rt_timer_check env k1) (\<lambda>k2. ?Q (rt_interrupt_leave k2))"
    proof (rule returns_mono [OF rt_timer_check_threads [OF b]], elim conjE)
      fix k2 assume k2: "between_ticks k2" "core_frame k1 k2" "k_timer_list k2 = dropWhile (due k1) (k_timer_list k1)"
        "woken_all (takeWhile (due k1) (k_timer_list k1)) k1 k2"
      have e1: "map_option th_error (k_threads k1 t) = map_option th_error (k_threads k t)" "set (k_timer_list k1) \<subseteq> set (k_timer_list k)" for t
        using f(2) by (auto simp: task_frame_def same_errors_def rt_interrupt_enter_def)
      have "map_option th_error (k_threads k2 t) = Some n"
        if u: "Thread_timer t \<notin> set (k_timer_list k)" "map_option th_error (k_threads k t) = Some n" for t n
      proof -
        obtain th where th: "k_threads k1 t = Some th" "th_error th = n" using e1(1) [of t] u(2) by auto
        have "Thread_timer t \<notin> set (takeWhile (due k1) (k_timer_list k1))" using e1(2) u(1) by (auto dest: set_takeWhileD)
        then show ?thesis using woken_allD(3) [OF k2(4) _ th(1)] th(2) by (auto dest: restatD(2))
      qed
      moreover have "between_ticks (rt_interrupt_leave k2)" using k2(1) by (simp add: rt_interrupt_leave_def)
      ultimately show "?Q (rt_interrupt_leave k2)"
        using k2(3) e1 core_frameD(5,9) [OF k2(2)] core_frameD(5,9) [OF f(1)]
        by (auto simp: rt_interrupt_leave_def rt_interrupt_enter_def dest: set_dropWhileD)
    qed
  qed
  then show ?thesis by (simp add: SysTick_Handler_def)
qed

end
