(* ===== verification/Keyboard.thy ===== *)
theory Keyboard
  imports Prelude
begin

text \<open>
  The button matrix of the machine (\<^verbatim>\<open>input/keyboard.c\<close>, \<^verbatim>\<open>input/keyboard.h\<close>) and its encoder (\<^verbatim>\<open>input/encoder.c\<close>): the
  exchange of the LED bytes for the button bytes over the serial bus, and the detection of the keys that went
  down or up.  The bus itself is an argument, a function from the sent bytes and the receive buffer to the number
  of bytes moved and the buffer afterwards.  Arrays are lists of the length the source declares.
\<close>

abbreviation KB_CHAIN_LENGTH :: nat where "KB_CHAIN_LENGTH \<equiv> 3"

record ButtonData =
  main_row :: u16
  fn_keys :: u8

record ButtonEvents =
  is_held :: ButtonData
  just_pressed :: ButtonData
  just_released :: ButtonData

record InputEvents =
  button_events :: ButtonEvents
  enc_button :: u8
  enc_rotation :: u32

type_synonym spi_bus = "u8 list \<Rightarrow> u8 list \<Rightarrow> nat \<times> u8 list"

definition kbLEDDataGet :: "u8 list \<Rightarrow> u8 list" where
  "kbLEDDataGet kb_led_data = take KB_CHAIN_LENGTH kb_led_data"

text \<open>
  The latch pulse has no effect on memory and the failure of the transfer is only printed: the temporary buffer,
  zero before, is inverted whatever the bus returned.
\<close>

definition kbTransferData :: "spi_bus \<Rightarrow> u8 list \<Rightarrow> u8 list \<Rightarrow> u8 list" where
  "kbTransferData rt_spi_transfer led_data button_data =
     (let (n, temp) = rt_spi_transfer led_data (replicate KB_CHAIN_LENGTH 0)
      in fold (\<lambda>i bs. bs[i := NOT (temp ! i)]) [0..<KB_CHAIN_LENGTH] button_data)"

record scan =
  sc_update :: u8
  sc_prev :: "u8 list"
  sc_held :: "u8 list"
  sc_pressed :: "u8 list"
  sc_released :: "u8 list"

definition scan_byte :: "u8 list \<Rightarrow> nat \<Rightarrow> scan \<Rightarrow> scan" where
  "scan_byte button_data i s =
     (let new = button_data ! i; prev = sc_prev s ! i in
      if new \<noteq> prev then
        s\<lparr>sc_held := (sc_held s)[i := new],
          sc_pressed := (sc_pressed s)[i := new AND NOT prev],
          sc_released := (sc_released s)[i := NOT new AND prev],
          sc_prev := (sc_prev s)[i := new],
          sc_update := 1\<rparr>
      else s)"

definition scan_start :: "u8 list \<Rightarrow> scan" where
  "scan_start prev = \<lparr>sc_update = 0, sc_prev = prev, sc_held = replicate KB_CHAIN_LENGTH 0,
     sc_pressed = replicate KB_CHAIN_LENGTH 0, sc_released = replicate KB_CHAIN_LENGTH 0\<rparr>"

text \<open>The main row from its two bytes: the first byte of the chain holds the upper half.\<close>

definition join_row :: "u8 list \<Rightarrow> u16" where
  "join_row bs = fold (\<lambda>i row. row OR push_bit ((1 - i) * 8) (ucast (bs ! i))) [0..<2] 0"

definition button_data_of :: "u8 list \<Rightarrow> ButtonData" where
  "button_data_of bs = \<lparr>main_row = join_row bs, fn_keys = bs ! 2\<rparr>"

definition kbParseButtons :: "u8 list \<Rightarrow> u8 list \<Rightarrow> InputEvents \<Rightarrow> u8 \<times> u8 list \<times> InputEvents" where
  "kbParseButtons button_data prev input_events =
     (let s = fold (scan_byte button_data) [0..<2] (scan_start prev) in
      if sc_update s = 0 then (0, sc_prev s, input_events)
      else (sc_update s, sc_prev s,
            input_events\<lparr>button_events := \<lparr>is_held = button_data_of (sc_held s),
               just_pressed = button_data_of (sc_pressed s), just_released = button_data_of (sc_released s)\<rparr>\<rparr>))"

definition encUpdate :: "InputEvents \<Rightarrow> u8 \<times> InputEvents" where
  "encUpdate input_events = (0, input_events)"

section \<open>What a scan reports\<close>

text \<open>The sixteen keys of the main row as one word.\<close>

definition row_of :: "u8 list \<Rightarrow> u16" where
  "row_of bs = push_bit 8 (ucast (bs ! 0)) OR ucast (bs ! 1)"

lemma upt_3: "[0..<3] = [0, 1, 2]" "[0..<2] = [0, Suc 0]"
  by (simp_all add: upt_rec)

lemma join_row_of: "join_row bs = row_of bs"
  by (simp add: join_row_def row_of_def upt_3)

lemma length_3E:
  assumes "length xs = 3"
  obtains a b c where "xs = [a, b, c]"
  using assms by (auto simp: numeral_3_eq_3 length_Suc_conv)

lemma bit_row_of:
  "bit (row_of bs) n \<longleftrightarrow> (if n < 8 then bit (bs ! 1) n else n < 16 \<and> bit (bs ! 0) (n - 8))"
  by (cases "n < 8") (auto simp: row_of_def bit_simps dest: bit_imp_le_length)

lemma row_of_inject: "row_of bs = row_of cs \<longleftrightarrow> bs ! 0 = cs ! 0 \<and> bs ! 1 = cs ! 1"
proof
  assume e: "row_of bs = row_of cs"
  have h: "bit (bs ! 0) n = bit (cs ! 0) n" "bit (bs ! 1) n = bit (cs ! 1) n" if "n < 8" for n
    using that bit_row_of [of bs "n + 8"] bit_row_of [of cs "n + 8"] bit_row_of [of bs n] bit_row_of [of cs n] e by simp_all
  show "bs ! 0 = cs ! 0 \<and> bs ! 1 = cs ! 1" by (rule conjI; rule bit_word_eqI; simp add: h [unfolded One_nat_def])
qed (simp add: row_of_def)

lemma row_of_mask:
  assumes "xs ! 0 = bs ! 0 AND NOT (cs ! 0)" and "xs ! 1 = bs ! 1 AND NOT (cs ! 1)"
  shows "row_of xs = row_of bs AND NOT (row_of cs)"
  by (rule bit_word_eqI) (auto simp: bit_row_of assms [unfolded One_nat_def] bit_simps)

lemma mask_self: "x AND NOT x = (0 :: 'a::len word)"
  by (rule bit_word_eqI) (simp add: bit_simps)

lemma mask_swap: "NOT x AND y = y AND NOT (x :: 'a::len word)"
  by (rule and.commute)

text \<open>One scan, on arrays of the declared length.\<close>

lemma scan_row:
  assumes "length new = 3" and "length prev = 3"
  defines "s \<equiv> fold (scan_byte new) [0..<2] (scan_start prev)"
  shows "sc_prev s = [new ! 0, new ! 1, prev ! 2]"
    and "sc_update s = of_bool (row_of new \<noteq> row_of prev)"
    and "row_of (sc_pressed s) = row_of new AND NOT (row_of prev)"
    and "row_of (sc_released s) = row_of prev AND NOT (row_of new)"
    and "sc_held s = [if new ! 0 = prev ! 0 then 0 else new ! 0, if new ! 1 = prev ! 1 then 0 else new ! 1, 0]"
    and "sc_pressed s ! 2 = 0" "sc_released s ! 2 = 0"
proof -
  obtain a b c where n: "new = [a, b, c]" by (rule length_3E [OF assms(1)])
  obtain d e f where p: "prev = [d, e, f]" by (rule length_3E [OF assms(2)])
  have p3: "replicate 3 0 = [0, 0, 0 :: u8]" by (simp add: numeral_3_eq_3)
  note defs = s_def upt_3 scan_start_def scan_byte_def Let_def n p p3
  show "sc_prev s = [new ! 0, new ! 1, prev ! 2]"
    "sc_held s = [if new ! 0 = prev ! 0 then 0 else new ! 0, if new ! 1 = prev ! 1 then 0 else new ! 1, 0]"
    "sc_pressed s ! 2 = 0" "sc_released s ! 2 = 0"
    by (simp_all add: defs)
  show "sc_update s = of_bool (row_of new \<noteq> row_of prev)" by (simp add: row_of_inject defs)
  show "row_of (sc_pressed s) = row_of new AND NOT (row_of prev)" "row_of (sc_released s) = row_of prev AND NOT (row_of new)"
    by (rule row_of_mask; simp add: defs mask_self mask_swap)+
qed

text \<open>
  C14. \<^verbatim>\<open>kbParseButtons\<close> on the three bytes of the chain, against the bytes of the last scan: when the main row has not
  changed it returns 0 and leaves the events alone; else it returns 1 and the events say exactly which of the
  sixteen keys went down and which went up.  The bytes are remembered for the next scan.  The function keys are
  never reported.
\<close>

theorem kbParseButtons_edges:
  assumes "length new = 3" and "length prev = 3"
  shows "case kbParseButtons new prev ev of (update, prev', ev') \<Rightarrow>
    row_of prev' = row_of new \<and> length prev' = 3 \<and> (update = 0 \<longleftrightarrow> row_of new = row_of prev) \<and> (update = 0 \<or> update = 1) \<and>
    (if update = 0 then ev' = ev
     else main_row (just_pressed (button_events ev')) = row_of new AND NOT (row_of prev) \<and>
       main_row (just_released (button_events ev')) = row_of prev AND NOT (row_of new) \<and>
       fn_keys (just_pressed (button_events ev')) = 0 \<and> fn_keys (just_released (button_events ev')) = 0 \<and>
       enc_button ev' = enc_button ev \<and> enc_rotation ev' = enc_rotation ev)"
proof -
  note s = scan_row [OF assms]
  have "row_of [new ! 0, new ! 1, prev ! 2] = row_of new" by (simp add: row_of_def)
  then show ?thesis
    by (simp add: kbParseButtons_def Let_def s(2)) (simp add: s button_data_of_def join_row_of)
qed

theorem kbParseButtons_edges_witness:
  "\<forall>ev. case kbParseButtons [0x01, 0x81, 0] [0x03, 0x01, 0] ev of (update, _, ev') \<Rightarrow>
    update = 1 \<and> main_row (just_pressed (button_events ev')) = 0x0080 \<and> main_row (just_released (button_events ev')) = 0x0200"
proof
  fix ev :: InputEvents
  let ?r = "kbParseButtons [0x01, 0x81, 0] [0x03, 0x01, 0] ev"
  have r: "row_of [0x01, 0x81, 0] = 0x0181" "row_of [0x03, 0x01, 0] = 0x0301" by (simp_all add: row_of_def)
  obtain u p e where e: "?r = (u, p, e)" by (cases ?r)
  have "length [0x01, 0x81, 0 :: u8] = 3" "length [0x03, 0x01, 0 :: u8] = 3" by simp_all
  note kbParseButtons_edges [OF this, of ev, unfolded e r prod.case]
  then show "case ?r of (update, _, ev') \<Rightarrow> update = 1 \<and> main_row (just_pressed (button_events ev')) = 0x0080 \<and>
      main_row (just_released (button_events ev')) = 0x0200"
    unfolding e prod.case by (elim conjE disjE) simp_all
qed

lemma kbTransferData_eq:
  assumes "length bs = 3"
  shows "kbTransferData spi led bs = (case spi led [0, 0, 0] of (n, temp) \<Rightarrow> [NOT (temp ! 0), NOT (temp ! 1), NOT (temp ! 2)])"
proof -
  obtain a b c where "bs = [a, b, c]" by (rule length_3E [OF assms])
  then show ?thesis by (simp add: kbTransferData_def Let_def upt_3 numeral_3_eq_3 numeral_2_eq_2 case_prod_unfold)
qed

end
