(* ===== verification/Sequencer.thy ===== *)
theory Sequencer
  imports Keyboard
begin

text \<open>
  The pattern memory of the drum machine (\<^verbatim>\<open>logic/sequencer.h\<close>) and the three routines of \<^verbatim>\<open>logic/sequencer.c\<close> that
  work on it: toggling the steps whose keys were pressed, and rendering the current page on the LEDs.  An access
  outside an array is \<open>None\<close>.  The abstraction of a page is the word of its sixteen steps.
\<close>

section \<open>The pattern memory\<close>

text \<open>A step type is an \<^verbatim>\<open>enum\<close>, stored in a machine word: the code combines its values by exclusive or.\<close>

abbreviation step_empty :: u32 where "step_empty \<equiv> 0"
abbreviation step_simple :: u32 where "step_simple \<equiv> 1"
abbreviation step_complex :: u32 where "step_complex \<equiv> 2"

record StepData =
  step_type :: u32
  tuplet_length :: u8
  tuplet_data :: u16

record PageData =
  page_step :: "StepData list"
  page_length :: u8

record SeqData =
  seq_page :: "PageData list"
  seq_length :: u8

record MachineState =
  ms_step :: u8
  ms_page :: u8
  ms_seq :: u8
  ms_inst :: u8
  ms_bpm :: u8
  ms_swing :: u8
  ms_mode :: u8

definition list_at :: "'a list \<Rightarrow> nat \<Rightarrow> 'a option" where
  "list_at xs i = (if i < length xs then Some (xs ! i) else None)"

text \<open>\<^verbatim>\<open>seq[CUR_SEQ].page[CUR_PAGE]\<close>, read and written.\<close>

definition cur_page :: "MachineState \<Rightarrow> SeqData list \<Rightarrow> PageData option" where
  "cur_page state seq = do {
     s \<leftarrow> list_at seq (unat (ms_seq state));
     list_at (seq_page s) (unat (ms_page state))
   }"

definition set_cur_page :: "MachineState \<Rightarrow> PageData \<Rightarrow> SeqData list \<Rightarrow> SeqData list" where
  "set_cur_page state p seq = (let i = unat (ms_seq state); s = seq ! i in
     seq[i := s\<lparr>seq_page := (seq_page s)[unat (ms_page state) := p]\<rparr>])"

text \<open>One round of the loop of \<^verbatim>\<open>seqStepToggle\<close>.\<close>

definition toggle_step :: "u16 \<Rightarrow> nat \<Rightarrow> PageData \<Rightarrow> PageData option" where
  "toggle_step row i p = do {
     s \<leftarrow> list_at (page_step p) i;
     Some (p\<lparr>page_step := (page_step p)[i := s\<lparr>step_type := step_type s XOR ucast (drop_bit i row AND 1)\<rparr>]\<rparr>)
   }"

definition seqStepToggle :: "SeqData list \<Rightarrow> InputEvents \<Rightarrow> MachineState \<Rightarrow> SeqData list option" where
  "seqStepToggle seq events state = do {
     p \<leftarrow> cur_page state seq;
     p \<leftarrow> fold (\<lambda>i r. Option.bind r (toggle_step (main_row (just_pressed (button_events events))) i)) [0..<16] (Some p);
     Some (set_cur_page state p seq)
   }"

text \<open>One round of the inner loop of \<^verbatim>\<open>kbLEDDataSend\<close>.\<close>

definition led_step :: "PageData \<Rightarrow> nat \<times> nat \<Rightarrow> u8 list \<Rightarrow> u8 list option" where
  "led_step p ij led = (let (i, j) = ij in do {
     s \<leftarrow> list_at (page_step p) (j + i * 8);
     l \<leftarrow> list_at led (i + 1);
     Some (led[i + 1 := l OR ucast (push_bit j (step_type s))])
   })"

definition kbLEDDataSend :: "u8 list \<Rightarrow> SeqData list \<Rightarrow> MachineState \<Rightarrow> u8 list option" where
  "kbLEDDataSend led_data seq state = do {
     p \<leftarrow> cur_page state seq;
     led_data \<leftarrow> Some (replicate KB_CHAIN_LENGTH 0 @ drop KB_CHAIN_LENGTH led_data);
     fold (\<lambda>ij r. Option.bind r (led_step p ij)) [(i, j). i \<leftarrow> [0..<2], j \<leftarrow> [0..<8]] (Some led_data)
   }"

text \<open>The memory when the task starts: one sequence of sixteen pages of sixteen steps, all zero, as is the state.\<close>

definition zero_seq :: "SeqData list" where
  "zero_seq = [\<lparr>seq_page = replicate 16 \<lparr>page_step = replicate 16 \<lparr>step_type = 0, tuplet_length = 0, tuplet_data = 0\<rparr>,
     page_length = 0\<rparr>, seq_length = 0\<rparr>]"

definition zero_state :: MachineState where
  "zero_state = \<lparr>ms_step = 0, ms_page = 0, ms_seq = 0, ms_inst = 0, ms_bpm = 0, ms_swing = 0, ms_mode = 0\<rparr>"

section \<open>Well-formed memory and its abstraction\<close>

definition page_wf :: "PageData \<Rightarrow> bool" where
  "page_wf p \<longleftrightarrow> length (page_step p) = 16 \<and> list_all (\<lambda>s. step_type s \<le> step_simple) (page_step p)"

definition seq_wf :: "SeqData list \<Rightarrow> bool" where
  "seq_wf seq \<longleftrightarrow> length seq = 1 \<and> list_all (\<lambda>s. length (seq_page s) = 16 \<and> list_all page_wf (seq_page s)) seq"

definition state_wf :: "MachineState \<Rightarrow> bool" where
  "state_wf state \<longleftrightarrow> ms_seq state = 0 \<and> ms_page state < 16"

definition pattern_of :: "PageData \<Rightarrow> u16" where
  "pattern_of p = horner_sum of_bool 2 (map (\<lambda>s. odd (step_type s)) (page_step p))"

definition leds_of :: "u16 \<Rightarrow> u8 list" where
  "leds_of w = [0, ucast w, ucast (drop_bit 8 w)]"

lemma list_at_in [simp]: "i < length xs \<Longrightarrow> list_at xs i = Some (xs ! i)"
  by (simp add: list_at_def)

lemma le_simple: "(t :: u32) \<le> step_simple \<longleftrightarrow> t = 0 \<or> t = 1"
proof
  assume "t \<le> 1"
  then have "unat t = 0 \<or> unat t = 1" by (simp add: word_le_nat_alt le_Suc_eq)
  then show "t = 0 \<or> t = 1" by (metis unat_0 unat_1 word_unat_eq_iff)
qed auto

lemma bit_pattern_of:
  assumes "length (page_step p) = 16"
  shows "bit (pattern_of p) i \<longleftrightarrow> i < 16 \<and> odd (step_type (page_step p ! i))"
  using assms by (auto simp: pattern_of_def bit_horner_sum_bit_word_iff)

lemma one_bit_of: "ucast (drop_bit i (row :: u16) AND 1) = (of_bool (bit row i) :: u32)"
  by (rule bit_word_eqI) (auto simp: bit_simps)

text \<open>The loop over the steps changes each of them as the reference says.\<close>

definition flip_step :: "u16 \<Rightarrow> nat \<Rightarrow> StepData \<Rightarrow> StepData" where
  "flip_step row i s = s\<lparr>step_type := step_type s XOR of_bool (bit row i)\<rparr>"

lemma toggle_step_eq:
  "i < length (page_step p) \<Longrightarrow> toggle_step row i p = Some (p\<lparr>page_step := (page_step p)[i := flip_step row i (page_step p ! i)]\<rparr>)"
  by (simp add: toggle_step_def flip_step_def one_bit_of)

lemma toggle_prefix:
  assumes "n \<le> length (page_step p)"
  shows "fold (\<lambda>i r. Option.bind r (toggle_step row i)) [0..<n] (Some p) =
    Some (p\<lparr>page_step := map (\<lambda>i. if i < n then flip_step row i (page_step p ! i) else page_step p ! i) [0..<length (page_step p)]\<rparr>)"
  using assms
proof (induction n)
  case 0
  then show ?case by (simp add: map_nth)
next
  case (Suc n)
  have "(map (\<lambda>i. if i < n then flip_step row i (page_step p ! i) else page_step p ! i) [0..<length (page_step p)])
      [n := flip_step row n (page_step p ! n)] =
    map (\<lambda>i. if i < Suc n then flip_step row i (page_step p ! i) else page_step p ! i) [0..<length (page_step p)]"
    by (rule nth_equalityI) (auto simp: nth_list_update less_Suc_eq)
  then show ?case using Suc by (simp add: toggle_step_eq)
qed

lemma page_wfD: "page_wf p \<Longrightarrow> length (page_step p) = 16"
    "page_wf p \<Longrightarrow> i < 16 \<Longrightarrow> step_type (page_step p ! i) = of_bool (odd (step_type (page_step p ! i)))"
  by (auto simp: page_wf_def list_all_length le_simple)

lemma flip_step_type: "t = of_bool (odd t) \<Longrightarrow> t XOR of_bool b = (of_bool (odd t \<noteq> b) :: u32)"
  by (cases "odd t"; cases b) auto

lemma toggle_page:
  assumes "page_wf p"
  shows "returns (fold (\<lambda>i r. Option.bind r (toggle_step row i)) [0..<16] (Some p))
    (\<lambda>p'. page_wf p' \<and> pattern_of p' = pattern_of p XOR row)"
proof -
  note w = page_wfD [OF assms]
  let ?p = "p\<lparr>page_step := map (\<lambda>i. flip_step row i (page_step p ! i)) [0..<16]\<rparr>"
  have "fold (\<lambda>i r. Option.bind r (toggle_step row i)) [0..<16] (Some p) = Some ?p"
    using toggle_prefix [of 16 p row] w(1) by (simp cong: map_cong)
  moreover have t: "step_type (page_step ?p ! i) = of_bool (odd (step_type (page_step p ! i)) \<noteq> bit row i)" if "i < 16" for i
    using that flip_step_type [OF w(2) [OF that]] by (simp add: flip_step_def)
  then have "page_wf ?p" by (auto simp: page_wf_def list_all_length le_simple)
  moreover have "pattern_of ?p = pattern_of p XOR row"
  proof (rule bit_word_eqI)
    fix n assume "n < LENGTH(16)"
    then show "bit (pattern_of ?p) n \<longleftrightarrow> bit (pattern_of p XOR row) n"
      using t [of n] w(1) bit_pattern_of [of ?p n] bit_pattern_of [of p n] by (simp add: bit_simps)
  qed
  ultimately show ?thesis by simp
qed

text \<open>The current page of a well-formed memory.\<close>

lemma cur_page_wf:
  assumes "seq_wf seq" and "state_wf state"
  obtains p where "cur_page state seq = Some p" and "page_wf p"
    and "\<And>q. page_wf q \<Longrightarrow> seq_wf (set_cur_page state q seq)"
    and "\<And>q. cur_page state (set_cur_page state q seq) = Some q"
    and "\<And>q s. ms_seq s = 0 \<Longrightarrow> ms_page s \<noteq> ms_page state \<Longrightarrow> cur_page s (set_cur_page state q seq) = cur_page s seq"
proof -
  obtain s where s: "seq = [s]" "length (seq_page s) = 16" "list_all page_wf (seq_page s)"
    using assms(1) by (auto simp: seq_wf_def length_Suc_conv)
  have n: "unat (ms_page state) < 16" "ms_seq state = 0"
    using assms(2) by (simp_all add: state_wf_def word_less_nat_alt)
  let ?i = "unat (ms_page state)"
  show thesis
  proof (rule that [of "seq_page s ! ?i"])
    show "cur_page state seq = Some (seq_page s ! ?i)" using s n by (simp add: cur_page_def)
    show "page_wf (seq_page s ! ?i)" using s n by (simp add: list_all_length)
    show "seq_wf (set_cur_page state q seq)" if "page_wf q" for q
      using s n that by (simp add: set_cur_page_def seq_wf_def list_all_length nth_list_update)
    show "cur_page state (set_cur_page state q seq) = Some q" for q
      using s n by (simp add: cur_page_def set_cur_page_def)
    show "cur_page st (set_cur_page state q seq) = cur_page st seq" if "ms_seq st = 0" "ms_page st \<noteq> ms_page state" for q st
      using s n that by (simp add: cur_page_def set_cur_page_def list_at_def word_unat_eq_iff)
  qed
qed

lemma seqStepToggle_returns:
  assumes "seq_wf seq" and "state_wf state"
  shows "returns (seqStepToggle seq ev state) (\<lambda>seq'. seq_wf seq' \<and>
    map_option pattern_of (cur_page state seq') =
      map_option (\<lambda>p. pattern_of p XOR main_row (just_pressed (button_events ev))) (cur_page state seq) \<and>
    (\<forall>s. ms_seq s = 0 \<longrightarrow> ms_page s \<noteq> ms_page state \<longrightarrow> cur_page s seq' = cur_page s seq))"
proof (rule cur_page_wf [OF assms])
  fix p assume p: "cur_page state seq = Some p" "page_wf p" "\<And>q. page_wf q \<Longrightarrow> seq_wf (set_cur_page state q seq)"
    "\<And>q. cur_page state (set_cur_page state q seq) = Some q"
    "\<And>q s. ms_seq s = 0 \<Longrightarrow> ms_page s \<noteq> ms_page state \<Longrightarrow> cur_page s (set_cur_page state q seq) = cur_page s seq"
  show ?thesis
    unfolding seqStepToggle_def p(1) Option.bind.bind_lunit
    by (rule returns_bindI [OF toggle_page [OF p(2)]]) (use p(3,4,5) in simp)
qed

section \<open>The LEDs\<close>

lemma bit_led:
  assumes "t = of_bool (odd t)"
  shows "bit (ucast (push_bit j (t :: u32)) :: u8) m \<longleftrightarrow> m < 8 \<and> m = j \<and> odd t"
proof (cases "odd t")
  case True
  then have "t = 1" using assms by simp
  then show ?thesis by (auto simp: bit_simps)
next
  case False
  then have "t = 0" using assms by simp
  then show ?thesis by simp
qed

lemma led_row:
  assumes p: "page_wf p" and i: "i < 2" and l: "length led = 3" "led ! (i + 1) = 0" and n: "n \<le> 8"
  shows "\<exists>w. fold (\<lambda>ij r. Option.bind r (led_step p ij)) (map (Pair i) [0..<n]) (Some led) = Some (led[i + 1 := w]) \<and>
    (\<forall>m. bit w m \<longleftrightarrow> m < n \<and> odd (step_type (page_step p ! (m + i * 8))))"
  using n
proof (induction n)
  case 0
  have "led[i + 1 := 0] = led" using l by (metis list_update_id)
  then show ?case by (intro exI [of _ 0]) simp
next
  case (Suc n)
  then obtain w where w: "fold (\<lambda>ij r. Option.bind r (led_step p ij)) (map (Pair i) [0..<n]) (Some led) = Some (led[i + 1 := w])"
    "\<And>m. bit w m \<longleftrightarrow> m < n \<and> odd (step_type (page_step p ! (m + i * 8)))" by auto
  let ?t = "step_type (page_step p ! (n + i * 8))"
  have k: "n + i * 8 < 16" using Suc.prems i by simp
  have s: "led_step p (i, n) (led[i + 1 := w]) = Some (led[i + 1 := w OR ucast (push_bit n ?t)])"
    using k i l page_wfD(1) [OF p] by (simp add: led_step_def)
  have b: "bit (w OR ucast (push_bit n ?t)) m \<longleftrightarrow> m < Suc n \<and> odd (step_type (page_step p ! (m + i * 8)))" for m
    using w(2) [of m] bit_led [OF page_wfD(2) [OF p k], of n m] Suc.prems by (auto simp: bit_simps less_Suc_eq)
  show ?case
    using w(1) s b by (intro exI [of _ "w OR ucast (push_bit n ?t)"]) simp
qed

lemma led_words:
  assumes p: "page_wf p"
    and u: "\<And>m. bit u m \<longleftrightarrow> m < 8 \<and> odd (step_type (page_step p ! m))"
    and v: "\<And>m. bit v m \<longleftrightarrow> m < 8 \<and> odd (step_type (page_step p ! (m + 8)))"
  shows "[0, u, v] = leds_of (pattern_of p)"
proof -
  note b = bit_pattern_of [OF page_wfD(1) [OF p]]
  have "u = ucast (pattern_of p)" by (rule bit_word_eqI) (auto simp: bit_simps b u)
  moreover have "v = ucast (drop_bit 8 (pattern_of p))" by (rule bit_word_eqI) (auto simp: bit_simps b v add.commute)
  ultimately show ?thesis by (simp add: leds_of_def)
qed

lemma kbLEDDataSend_eq:
  assumes "length led = 3" and "seq_wf seq" and "state_wf state"
  shows "kbLEDDataSend led seq state = map_option (\<lambda>p. leds_of (pattern_of p)) (cur_page state seq)"
proof (rule cur_page_wf [OF assms(2,3)])
  fix p assume p: "cur_page state seq = Some p" "page_wf p"
  let ?f = "\<lambda>ij r. Option.bind r (led_step p ij)"
  have z: "replicate KB_CHAIN_LENGTH 0 @ drop KB_CHAIN_LENGTH led = [0, 0, 0 :: u8]"
    using assms(1) by (simp add: numeral_3_eq_3)
  have ij: "[(i, j). i \<leftarrow> [0..<2], j \<leftarrow> [0..<8]] = map (Pair 0) [0..<8] @ map (Pair (Suc 0)) [0..<8]"
    by (simp add: upt_3)
  obtain u where u: "fold ?f (map (Pair 0) [0..<8]) (Some [0, 0, 0]) = Some [0, u, 0]"
    "\<And>m. bit u m \<longleftrightarrow> m < 8 \<and> odd (step_type (page_step p ! m))"
    using led_row [OF p(2), of 0 "[0, 0, 0]" 8] by auto
  obtain v where v: "fold ?f (map (Pair (Suc 0)) [0..<8]) (Some [0, u, 0]) = Some [0, u, v]"
    "\<And>m. bit v m \<longleftrightarrow> m < 8 \<and> odd (step_type (page_step p ! (m + 8)))"
    using led_row [OF p(2), of "Suc 0" "[0, u, 0]" 8] by auto
  have "fold ?f [(i, j). i \<leftarrow> [0..<2], j \<leftarrow> [0..<8]] (Some [0, 0, 0]) = Some [0, u, v]"
    unfolding ij fold_append comp_def u(1) v(1) ..
  then show ?thesis
    unfolding kbLEDDataSend_def p(1) Option.bind.bind_lunit z using led_words [OF p(2) u(2) v(2)] by simp
qed

section \<open>What the sequencer promises\<close>

text \<open>
  C15. \<^verbatim>\<open>seqStepToggle\<close> on the memory of the task: no access is out of range, the pattern of the current page becomes its
  exclusive or with the keys that were pressed, every other page is unchanged and every step stays empty or
  simple.
\<close>

theorem seqStepToggle_xor:
  assumes "seq_wf seq" and "state_wf state" and "cur_page state seq = Some p"
  shows "returns (seqStepToggle seq ev state) (\<lambda>seq'. seq_wf seq' \<and>
    map_option pattern_of (cur_page state seq') = Some (pattern_of p XOR main_row (just_pressed (button_events ev))) \<and>
    (\<forall>s. ms_seq s = 0 \<longrightarrow> ms_page s \<noteq> ms_page state \<longrightarrow> cur_page s seq' = cur_page s seq))"
  using seqStepToggle_returns [OF assms(1,2), of ev] assms(3) by simp

text \<open>
  C16. \<^verbatim>\<open>kbLEDDataSend\<close> shows the current page: the LED bytes afterwards are the rendering of the pattern of that page,
  steps 1 to 8 in the second byte and 9 to 16 in the third, whatever they were before.
\<close>

theorem kbLEDDataSend_mirrors:
  assumes "length led = 3" and "seq_wf seq" and "state_wf state" and "cur_page state seq = Some p"
  shows "kbLEDDataSend led seq state = Some (leds_of (pattern_of p)) \<and> length (leds_of (pattern_of p)) = 3 \<and>
    (\<forall>i < 16. bit (leds_of (pattern_of p) ! (1 + i div 8)) (i mod 8) \<longleftrightarrow> step_type (page_step p ! i) = step_simple)"
proof (intro conjI allI impI)
  show "kbLEDDataSend led seq state = Some (leds_of (pattern_of p))" using kbLEDDataSend_eq [OF assms(1-3)] assms(4) by simp
  show "length (leds_of (pattern_of p)) = 3" by (simp add: leds_of_def)
  fix i :: nat assume i: "i < 16"
  have p: "page_wf p" using cur_page_wf [OF assms(2,3)] assms(4) by (metis option.inject)
  have t: "step_type (page_step p ! i) = step_simple \<longleftrightarrow> odd (step_type (page_step p ! i))"
    using page_wfD(2) [OF p i] by (cases "odd (step_type (page_step p ! i))") simp_all
  have d: "i div 8 = (if i < 8 then 0 else 1)" "i mod 8 = (if i < 8 then i else i - 8)" using i by (auto simp: mod_if)
  show "bit (leds_of (pattern_of p) ! (1 + i div 8)) (i mod 8) \<longleftrightarrow> step_type (page_step p ! i) = step_simple"
    using i bit_pattern_of [OF page_wfD(1) [OF p], of i] by (auto simp: t d leds_of_def bit_simps)
qed

lemma zero_wf [simp]: "seq_wf zero_seq" "state_wf zero_state"
  "cur_page zero_state zero_seq = Some \<lparr>page_step = replicate 16 \<lparr>step_type = 0, tuplet_length = 0, tuplet_data = 0\<rparr>, page_length = 0\<rparr>"
  by (simp_all add: seq_wf_def state_wf_def zero_seq_def zero_state_def page_wf_def cur_page_def list_all_length)

text \<open>A page with its first and its tenth step set, on the first page of an otherwise empty memory.\<close>

definition sample_press :: "u16 \<Rightarrow> InputEvents" where
  "sample_press row = \<lparr>button_events = \<lparr>is_held = \<lparr>main_row = row, fn_keys = 0\<rparr>, just_pressed = \<lparr>main_row = row, fn_keys = 0\<rparr>,
     just_released = \<lparr>main_row = 0, fn_keys = 0\<rparr>\<rparr>, enc_button = 0, enc_rotation = 0\<rparr>"

definition sample_page :: PageData where
  "sample_page = \<lparr>page_step = (replicate 16 \<lparr>step_type = 0, tuplet_length = 0, tuplet_data = 0\<rparr>)
     [0 := \<lparr>step_type = 1, tuplet_length = 0, tuplet_data = 0\<rparr>, 9 := \<lparr>step_type = 1, tuplet_length = 0, tuplet_data = 0\<rparr>],
     page_length = 0\<rparr>"

abbreviation sample_seq :: "SeqData list" where
  "sample_seq \<equiv> set_cur_page zero_state sample_page zero_seq"

lemma sample_page_wf: "page_wf sample_page" "pattern_of sample_page = 0x0201"
proof -
  have 16: "replicate 16 x = [x, x, x, x, x, x, x, x, x, x, x, x, x, x, x, x]" for x :: StepData
    by (simp add: numeral_eq_Suc)
  show "page_wf sample_page" by (simp add: page_wf_def sample_page_def 16)
  show "pattern_of sample_page = 0x0201" by (simp add: pattern_of_def sample_page_def 16)
qed

lemma sample_seq_wf: "seq_wf sample_seq" "cur_page zero_state sample_seq = Some sample_page"
  using cur_page_wf [OF zero_wf(1,2)] sample_page_wf by metis+

theorem seqStepToggle_xor_witness:
  "returns (seqStepToggle sample_seq (sample_press 0x8001) zero_state) (\<lambda>seq'. seq_wf seq' \<and>
    map_option pattern_of (cur_page zero_state seq') = Some 0x8200)"
  using seqStepToggle_xor [OF sample_seq_wf(1) zero_wf(2) sample_seq_wf(2), of "sample_press 0x8001"]
  by (rule returns_mono) (simp add: sample_page_wf sample_press_def)

theorem kbLEDDataSend_mirrors_witness: "kbLEDDataSend [1, 2, 3] sample_seq zero_state = Some [0, 1, 2]"
  using kbLEDDataSend_mirrors [OF _ sample_seq_wf(1) zero_wf(2) sample_seq_wf(2), of "[1, 2, 3]"]
  by (simp add: sample_page_wf leds_of_def)

end
