(* ===== verification/Event.thy ===== *)
theory Event
  imports Ipc
begin

text \<open>
  The event sets of \<^verbatim>\<open>ipc.c\<close>.  \<open>event_inv\<close> is that no wakeup is lost: no thread waits for a condition the
  event set satisfies.  \<open>served\<close> is the abstract specification of a send, on sets of flags: who is woken, with which
  flags, and what remains of the set.
\<close>

section \<open>The operations\<close>

abbreviation RT_EVENT_FLAG_AND :: u8 where "RT_EVENT_FLAG_AND \<equiv> 0x01"
abbreviation RT_EVENT_FLAG_OR :: u8 where "RT_EVENT_FLAG_OR \<equiv> 0x02"
abbreviation RT_EVENT_FLAG_CLEAR :: u8 where "RT_EVENT_FLAG_CLEAR \<equiv> 0x04"

definition get_event :: "nat \<Rightarrow> kernel \<Rightarrow> rt_event option" where
  "get_event e k = do {
     ev \<leftarrow> k_events k e;
     rt_assert (rt_object_get_type (ev_parent ev) = RT_Object_Class_Event);
     Some ev
   }"

definition mod_event :: "nat \<Rightarrow> (rt_event \<Rightarrow> rt_event) \<Rightarrow> kernel \<Rightarrow> kernel option" where
  "mod_event e f k = do {
     ev \<leftarrow> k_events k e;
     Some (k\<lparr>k_events := (k_events k)(e \<mapsto> f ev)\<rparr>)
   }"

definition event_setup :: "u8 \<Rightarrow> rt_event \<Rightarrow> rt_event" where
  "event_setup flag ev = ev\<lparr>ev_set := 0, ev_parent := (ev_parent ev)\<lparr>ob_flag := flag\<rparr>\<rparr>"

definition rt_event_init :: "nat \<Rightarrow> u8 list \<Rightarrow> u8 \<Rightarrow> kernel \<Rightarrow> (int \<times> kernel) option" where
  "rt_event_init e name flag k = do {
     k \<leftarrow> rt_object_init (OEvent e) RT_Object_Class_Event name k;
     k \<leftarrow> Some (rt_ipc_object_init (EventQ e) k);
     k \<leftarrow> mod_event e (event_setup flag) k;
     Some (RT_EOK, k)
   }"

definition rt_event_detach :: "nat \<Rightarrow> kernel \<Rightarrow> (int \<times> kernel) option" where
  "rt_event_detach e k = do {
     ev \<leftarrow> get_event e k;
     rt_assert (rt_object_is_systemobject (ev_parent ev));
     k \<leftarrow> rt_ipc_list_resume_all (EventQ e) k;
     k \<leftarrow> rt_object_detach (OEvent e) k;
     Some (RT_EOK, k)
   }"

definition rt_event_create :: "u8 list \<Rightarrow> u8 \<Rightarrow> kernel \<Rightarrow> (nat option \<times> kernel) option" where
  "rt_event_create name flag k = do {
     rt_assert (k_irq_nest k = 0);
     (obj, k) \<leftarrow> rt_object_allocate RT_Object_Class_Event name k;
     case obj of
       None \<Rightarrow> Some (None, k)
     | Some ob \<Rightarrow> do {
         k \<leftarrow> Some (rt_ipc_object_init (EventQ (obj_addr ob)) k);
         k \<leftarrow> mod_event (obj_addr ob) (event_setup flag) k;
         Some (Some (obj_addr ob), k)
       }
   }"

definition rt_event_delete :: "nat \<Rightarrow> kernel \<Rightarrow> (int \<times> kernel) option" where
  "rt_event_delete e k = do {
     ev \<leftarrow> get_event e k;
     rt_assert (\<not> rt_object_is_systemobject (ev_parent ev));
     rt_assert (k_irq_nest k = 0);
     k \<leftarrow> rt_ipc_list_resume_all (EventQ e) k;
     k \<leftarrow> rt_object_delete (OEvent e) k;
     Some (RT_EOK, k)
   }"

text \<open>Whether the set \<open>s\<close> satisfies a wait for \<open>want\<close>; \<open>None\<close> if neither AND nor OR was asked for.\<close>

definition event_status :: "u8 \<Rightarrow> u32 \<Rightarrow> u32 \<Rightarrow> bool option" where
  "event_status info want s =
     (if info AND RT_EVENT_FLAG_AND \<noteq> 0 then Some (want AND s = want)
      else if info AND RT_EVENT_FLAG_OR \<noteq> 0 then Some (want AND s \<noteq> 0)
      else None)"

text \<open>The bits a satisfied thread receives.\<close>

definition event_got :: "u8 \<Rightarrow> u32 \<Rightarrow> u32 \<Rightarrow> u32" where
  "event_got info want s = (if info AND RT_EVENT_FLAG_AND \<noteq> 0 then want else want AND s)"

text \<open>
  The loop over the waiting threads, \<open>ts\<close> being those not visited yet: a resumed thread leaves the list, the
  others stay.  The result is \<open>None\<close> for the return with \<open>- RT_EINVAL\<close>, else whether to schedule.
\<close>

fun event_send_loop :: "nat \<Rightarrow> nat list \<Rightarrow> bool \<Rightarrow> kernel \<Rightarrow> (bool option \<times> kernel) option" where
  "event_send_loop e [] need_schedule k = Some (Some need_schedule, k)"
| "event_send_loop e (t # ts) need_schedule k = do {
     th \<leftarrow> get_thread t k;
     ev \<leftarrow> k_events k e;
     case event_status (th_event_info th) (th_event_set th) (ev_set ev) of
       None \<Rightarrow> Some (None, k)
     | Some False \<Rightarrow> event_send_loop e ts need_schedule k
     | Some True \<Rightarrow> do {
         got \<leftarrow> Some (event_got (th_event_info th) (th_event_set th) (ev_set ev));
         k \<leftarrow> mod_thread t (\<lambda>th. th\<lparr>th_event_set := got\<rparr>) k;
         k \<leftarrow> mod_event e (\<lambda>ev. if th_event_info th AND RT_EVENT_FLAG_CLEAR \<noteq> 0
                then ev\<lparr>ev_set := ev_set ev AND NOT got\<rparr> else ev) k;
         (_, k) \<leftarrow> rt_thread_resume t k;
         event_send_loop e ts True k
       }
   }"

definition rt_event_send :: "nat \<Rightarrow> u32 \<Rightarrow> kernel \<Rightarrow> (int \<times> kernel) option" where
  "rt_event_send e s k = do {
     _ \<leftarrow> get_event e k;
     if s = 0 then Some (- RT_ERROR, k)
     else do {
       k \<leftarrow> mod_event e (\<lambda>ev. ev\<lparr>ev_set := ev_set ev OR s\<rparr>) k;
       (r, k) \<leftarrow> event_send_loop e (k_lists k (EventQ e)) False k;
       case r of
         None \<Rightarrow> Some (- RT_EINVAL, k)
       | Some need_schedule \<Rightarrow> do {
           k \<leftarrow> (if need_schedule then rt_schedule k else Some k);
           Some (RT_EOK, k)
         }
     }
   }"

text \<open>\<open>rt_event_recv\<close> returns the error code and, if it is written, \<^verbatim>\<open>*recved\<close>.\<close>

definition rt_event_recv :: "nat \<Rightarrow> u32 \<Rightarrow> u8 \<Rightarrow> int \<Rightarrow> kernel \<Rightarrow> ((int \<times> u32 option, nat) outcome \<times> kernel) option" where
  "rt_event_recv e s option timeout k = do {
     rt_assert (in_thread_context k);
     ev \<leftarrow> get_event e k;
     if s = 0 then Some (Done (- RT_ERROR, None), k)
     else do {
       t \<leftarrow> rt_thread_self k;
       k \<leftarrow> mod_thread t (\<lambda>th. th\<lparr>th_error := RT_EOK\<rparr>) k;
       status \<leftarrow> event_status option s (ev_set ev);
       if status then do {
         k \<leftarrow> mod_thread t (\<lambda>th. th\<lparr>th_event_set := ev_set ev AND s, th_event_info := option\<rparr>) k;
         k \<leftarrow> mod_event e (\<lambda>ev. if option AND RT_EVENT_FLAG_CLEAR \<noteq> 0 then ev\<lparr>ev_set := ev_set ev AND NOT s\<rparr> else ev) k;
         th \<leftarrow> get_thread t k;
         Some (Done (th_error th, Some (ev_set ev AND s)), k)
       }
       else if timeout = 0 then do {
         k \<leftarrow> mod_thread t (\<lambda>th. th\<lparr>th_error := - RT_ETIMEOUT\<rparr>) k;
         Some (Done (- RT_ETIMEOUT, None), k)
       }
       else do {
         k \<leftarrow> mod_thread t (\<lambda>th. th\<lparr>th_event_set := s, th_event_info := option\<rparr>) k;
         k \<leftarrow> ipc_block (EventQ e) t (ob_flag (ev_parent ev)) timeout k;
         k \<leftarrow> rt_schedule k;
         Some (Wait t, k)
       }
     }
   }"

definition rt_event_recv_end :: "nat \<Rightarrow> kernel \<Rightarrow> (int \<times> u32 option) option" where
  "rt_event_recv_end t k = do {
     th \<leftarrow> get_thread t k;
     Some (if th_error th \<noteq> RT_EOK then (th_error th, None) else (th_error th, Some (th_event_set th)))
   }"

definition rt_event_control :: "nat \<Rightarrow> nat \<Rightarrow> kernel \<Rightarrow> (int \<times> kernel) option" where
  "rt_event_control e cmd k = do {
     _ \<leftarrow> get_event e k;
     if cmd = RT_IPC_CMD_RESET then do {
       k \<leftarrow> rt_ipc_list_resume_all (EventQ e) k;
       k \<leftarrow> mod_event e (\<lambda>ev. ev\<lparr>ev_set := 0\<rparr>) k;
       k \<leftarrow> rt_schedule k;
       Some (RT_EOK, k)
     }
     else Some (- RT_ERROR, k)
   }"

section \<open>No lost wakeup\<close>

definition event_ok :: "rt_event \<Rightarrow> bool" where
  "event_ok ev \<longleftrightarrow> rt_object_get_type (ev_parent ev) = RT_Object_Class_Event \<and>
     (ob_flag (ev_parent ev) = RT_IPC_FLAG_FIFO \<or> ob_flag (ev_parent ev) = RT_IPC_FLAG_PRIO)"

text \<open>
  The flags of an event as a set of numbers, and what a request means: bit 0 of the option asks for all of the flags,
  bit 1 for one of them.
\<close>

definition flag_set :: "u32 \<Rightarrow> nat set" where
  "flag_set s = set (filter (bit s) [0..<32])"

definition request_met :: "rt_thread \<Rightarrow> nat set \<Rightarrow> bool" where
  "request_met th S \<longleftrightarrow> (if bit (th_event_info th) 0 then flag_set (th_event_set th) \<subseteq> S
     else bit (th_event_info th) 1 \<and> flag_set (th_event_set th) \<inter> S \<noteq> {})"

definition asks :: "rt_thread \<Rightarrow> bool" where
  "asks th \<longleftrightarrow> bit (th_event_info th) 0 \<or> bit (th_event_info th) 1"

definition unsatisfied :: "kernel \<Rightarrow> u32 \<Rightarrow> nat \<Rightarrow> bool" where
  "unsatisfied k s w \<longleftrightarrow> (\<exists>th. k_threads k w = Some th \<and> asks th \<and> \<not> request_met th (flag_set s))"

text \<open>The code's test on words is that request.\<close>

lemma option_bits: "(x :: u8) AND RT_EVENT_FLAG_AND \<noteq> 0 \<longleftrightarrow> bit x 0" "x AND RT_EVENT_FLAG_OR \<noteq> 0 \<longleftrightarrow> bit x 1" "x AND RT_EVENT_FLAG_CLEAR \<noteq> 0 \<longleftrightarrow> bit x 2"
  using and_exp_eq_0_iff_not_bit [of x 0] and_exp_eq_0_iff_not_bit [of x 1] and_exp_eq_0_iff_not_bit [of x 2] by simp_all

lemma in_flags [simp]: "i \<in> flag_set s \<longleftrightarrow> i < 32 \<and> bit s i"
  by (auto simp: flag_set_def)

lemma flags_ops: "flag_set (s OR t) = flag_set s \<union> flag_set t" "flag_set (s AND t) = flag_set s \<inter> flag_set t" "flag_set (s AND NOT t) = flag_set s - flag_set t"
  by (auto simp: bit_simps)

lemma flags_eq: "s = t \<longleftrightarrow> flag_set s = flag_set t"
proof
  assume f: "flag_set s = flag_set t"
  have "bit s i = bit t i" if "i < 32" for i using f that by (metis in_flags)
  then show "s = t" by (intro bit_word_eqI) simp
qed simp

lemma flags_zero [simp]: "flag_set 0 = {}"
  by auto

lemma event_status_met:
  "event_status (th_event_info th) (th_event_set th) s = (if asks th then Some (request_met th (flag_set s)) else None)"
proof -
  have "th_event_set th AND s = th_event_set th \<longleftrightarrow> flag_set (th_event_set th) \<subseteq> flag_set s" unfolding flags_eq flags_ops by blast
  moreover have "th_event_set th AND s \<noteq> 0 \<longleftrightarrow> flag_set (th_event_set th) \<inter> flag_set s \<noteq> {}" unfolding flags_eq flags_ops by simp
  ultimately show ?thesis unfolding event_status_def option_bits by (simp add: asks_def request_met_def)
qed

lemma event_got_met: "request_met th (flag_set s) \<Longrightarrow> flag_set (event_got (th_event_info th) (th_event_set th) s) = flag_set (th_event_set th) \<inter> flag_set s"
  unfolding event_got_def option_bits by (auto simp: request_met_def flags_ops split: if_splits)

lemma unsatisfied_status:
  "unsatisfied k s w \<longleftrightarrow> (\<exists>th. k_threads k w = Some th \<and> event_status (th_event_info th) (th_event_set th) s = Some False)"
  by (auto simp: unsatisfied_def event_status_met)

definition event_inv :: "nat \<Rightarrow> kernel \<Rightarrow> bool" where
  "event_inv e k \<longleftrightarrow> (\<exists>ev. k_events k e = Some ev \<and> event_ok ev \<and>
     (\<forall>w \<in> set (k_lists k (EventQ e)). unsatisfied k (ev_set ev) w))"

lemma kinvx_events [simp]: "kinvx X (k\<lparr>k_events := S\<rparr>) = kinvx X k"
  by (simp add: kinvx_def)

lemma event_status_and:
  assumes "event_status info want s = Some False"
  shows "event_status info want (s AND x) = Some False"
proof (cases "info AND RT_EVENT_FLAG_AND \<noteq> 0")
  case True
  have "want AND s = want" if "want AND (s AND x) = want"
    using that by (metis and.assoc and.commute and.left_idem)
  then show ?thesis using assms True by (auto simp: event_status_def)
next
  case False
  have "want AND (s AND x) = 0" if "want AND s = 0" using that by (metis and.assoc and_zero_eq zero_and_eq)
  then show ?thesis using assms False by (auto simp: event_status_def split: if_splits)
qed

lemma unsatisfied_and: "unsatisfied k s w \<Longrightarrow> unsatisfied k (s AND x) w"
  using event_status_and by (auto simp: unsatisfied_status)

text \<open>Scheduling keeps it.\<close>

lemma event_inv_sched:
  assumes "event_inv e k" and "sched_rel k k'" and "core_frame k k'"
  shows "event_inv e k'"
proof -
  have l: "k_lists k' (EventQ e) = k_lists k (EventQ e)" using sched_relD(5) [OF assms(2)] by simp
  have "unsatisfied k' s w" if u: "unsatisfied k s w" for s w
  proof -
    obtain th where th: "k_threads k w = Some th" "event_status (th_event_info th) (th_event_set th) s = Some False"
      using u by (auto simp: unsatisfied_status)
    obtain th' where "k_threads k' w = Some th'" "restat th th'" using sched_relD(9) [OF assms(2) th(1)] by blast
    then show ?thesis using th restatD(6,7) by (auto simp: unsatisfied_status)
  qed
  then show ?thesis using assms(1) core_frameD(3) [OF assms(3)] unfolding event_inv_def l by metis
qed

section \<open>Receiving\<close>

lemma rt_event_recv_satisfied:
  assumes c: "k_current k = Some t" "k_irq_nest k = 0" "k_threads k t = Some th" "s \<noteq> 0"
    and e: "k_events k e = Some ev" "event_ok ev" "event_status option s (ev_set ev) = Some True"
  shows "rt_event_recv e s option timeout k = Some (Done (RT_EOK, Some (ev_set ev AND s)),
    k\<lparr>k_threads := (k_threads k)(t \<mapsto> th\<lparr>th_error := RT_EOK, th_event_set := ev_set ev AND s, th_event_info := option\<rparr>),
      k_events := (k_events k)(e \<mapsto> if option AND RT_EVENT_FLAG_CLEAR \<noteq> 0 then ev\<lparr>ev_set := ev_set ev AND NOT s\<rparr> else ev)\<rparr>)"
  using assms by (simp add: rt_event_recv_def get_event_def event_ok_def in_thread_context_def rt_thread_self_def
      mod_thread_def mod_event_def get_thread_def)

lemma rt_event_recv_nowait:
  assumes c: "k_current k = Some t" "k_irq_nest k = 0" "k_threads k t = Some th" "s \<noteq> 0"
    and e: "k_events k e = Some ev" "event_ok ev" "event_status option s (ev_set ev) = Some False"
  shows "rt_event_recv e s option 0 k = Some (Done (- RT_ETIMEOUT, None),
    k\<lparr>k_threads := (k_threads k)(t \<mapsto> th\<lparr>th_error := - RT_ETIMEOUT\<rparr>)\<rparr>)"
  using assms by (simp add: rt_event_recv_def get_event_def event_ok_def in_thread_context_def rt_thread_self_def
      mod_thread_def)

lemma rt_event_recv_blocks:
  assumes i: "kinv k" "event_inv e k" and c: "k_current k = Some t" "k_threads k t = Some th" "thread_stat th = RT_THREAD_RUNNING"
    and irq: "k_irq_nest k = 0" and n: "timeout \<noteq> 0" "timeout < 2 ^ 31 - 1" "s \<noteq> 0"
    and e: "k_events k e = Some ev" "event_status option s (ev_set ev) = Some False"
  shows "returns (rt_event_recv e s option timeout k) (\<lambda>(r, k'). r = Wait t \<and> kinv k' \<and> event_inv e k' \<and>
    k_events k' = k_events k \<and> t \<in> set (k_lists k' (EventQ e)))"
proof -
  let ?th = "th\<lparr>th_error := RT_EOK, th_event_set := s, th_event_info := option\<rparr>"
  let ?k = "k\<lparr>k_threads := (k_threads k)(t \<mapsto> ?th)\<rparr>"
  have ss: "same_sched th ?th" by (simp add: same_sched_def thread_stat_def prio_def)
  have k: "kinv ?k" by (rule kinvx_upd_same [OF i(1) c(2) ss])
  have ev: "event_ok ev" "\<forall>w \<in> set (k_lists k (EventQ e)). unsatisfied k (ev_set ev) w"
    using i(2) e by (simp_all add: event_inv_def)
  have out: "t \<notin> set (k_lists k h)" for h
    using linv_not_on_list [of "{}" "k_lists k" "k_ready_group k" "k_threads k" t th h] i c by (simp add: kinvx_def)
  have eq: "rt_event_recv e s option timeout k = Option.bind (ipc_block (EventQ e) t (ob_flag (ev_parent ev)) timeout ?k)
      (\<lambda>k. Option.bind (rt_schedule k) (\<lambda>k. Some (Wait t, k)))"
    using e c irq n ev(1) by (simp add: rt_event_recv_def get_event_def event_ok_def in_thread_context_def
        rt_thread_self_def mod_thread_def)
  show ?thesis unfolding eq
  proof (rule block_schedule [OF k, where th = ?th])
    fix k1 k' assume k1: "kinv k1" "waiting (EventQ e) t ?th ?k k1" "queued (ob_flag (ev_parent ev)) (EventQ e) t ?th ?k k1"
      "fields_frame ?k k1" and k': "kinv k'" "sched_rel k1 k'" "core_frame k1 k'"
    have f: "k_events k1 = k_events k" using k1(4) by (simp add: fields_frame_def)
    have w: "set (k_lists k1 (EventQ e)) = insert t (set (k_lists k (EventQ e)))" using k1(2) by (auto simp: waiting_def)
    have T: "k_threads k1 = (k_threads ?k)(t \<mapsto> set_stat RT_THREAD_SUSPEND ?th)" using k1(2) by (simp add: waiting_def)
    have "unsatisfied k1 (ev_set ev) u" if "u \<in> set (k_lists k1 (EventQ e))" for u
    proof (cases "u = t")
      case True
      then show ?thesis using e T by (simp add: unsatisfied_status)
    next
      case False
      then show ?thesis using ev(2) that w T by (simp add: unsatisfied_status)
    qed
    then have "event_inv e k1" using e f ev by (simp add: event_inv_def)
    then have "event_inv e k'" by (rule event_inv_sched [OF _ k'(2,3)])
    then show "case (Wait t, k') of (r, k') \<Rightarrow> r = Wait t \<and> kinv k' \<and> event_inv e k' \<and> k_events k' = k_events k \<and>
      t \<in> set (k_lists k' (EventQ e))"
      using k'(1) f core_frameD(3) [OF k'(3)] w sched_relD(5) [OF k'(2), of "EventQ e"] by simp
  qed (use c n ss ev in \<open>auto simp: event_ok_def same_sched_def\<close>)
qed

section \<open>Sending\<close>

text \<open>The threads that the loop wakes, each with the bits it receives, and the set that is left, in the words of the code.\<close>

fun deliver :: "(nat \<rightharpoonup> rt_thread) \<Rightarrow> u32 \<Rightarrow> nat list \<Rightarrow> (nat \<times> u32) list \<times> u32" where
  "deliver T s [] = ([], s)"
| "deliver T s (t # ts) =
     (case T t of
        None \<Rightarrow> deliver T s ts
      | Some th \<Rightarrow>
          if event_status (th_event_info th) (th_event_set th) s = Some True then
            let got = event_got (th_event_info th) (th_event_set th) s;
                rest = deliver T (if th_event_info th AND RT_EVENT_FLAG_CLEAR \<noteq> 0 then s AND NOT got else s) ts
            in ((t, got) # fst rest, snd rest)
          else deliver T s ts)"

lemma deliver_cong: "(\<And>t. t \<in> set ts \<Longrightarrow> T t = T' t) \<Longrightarrow> deliver T s ts = deliver T' s ts"
  by (induction ts arbitrary: s) (simp_all add: Let_def split: option.split)

lemma deliver_woken: "fst ` set (fst (deliver T s ts)) \<subseteq> set ts"
proof (induction ts arbitrary: s)
  case (Cons t ts)
  have "fst ` set (fst (deliver T s' ts)) \<subseteq> set (t # ts)" for s' using Cons [of s'] by auto
  then show ?case by (simp add: Let_def split: option.split)
qed simp

lemma and_idem_True: "(s::u32) = s AND NOT 0"
  by simp

lemma deliver_shrinks: "\<exists>x. snd (deliver T s ts) = s AND x"
proof (induction ts arbitrary: s)
  case Nil
  show ?case using and_idem_True [of s] by (metis deliver.simps(1) snd_conv)
next
  case (Cons t ts)
  show ?case using Cons [of s] Cons [of "s AND x" for x] by (auto simp: Let_def and.assoc split: option.split)
qed

lemma asks_status: "asks th \<Longrightarrow> \<exists>b. event_status (th_event_info th) (th_event_set th) s = Some b"
  by (simp add: event_status_met)

lemma unsatisfied_asks: "unsatisfied k s w \<Longrightarrow> \<exists>th. k_threads k w = Some th \<and> asks th"
  by (auto simp: unsatisfied_def)

text \<open>Whoever is not woken is not satisfied by the set that is left.\<close>

lemma deliver_rest:
  assumes "w \<in> set ts" and "w \<notin> fst ` set (fst (deliver T s ts))" and "T w = Some th" and "asks th"
  shows "event_status (th_event_info th) (th_event_set th) (snd (deliver T s ts)) = Some False"
  using assms(1,2)
proof (induction ts arbitrary: s)
  case (Cons t ts)
  show ?case
  proof (cases "w = t")
    case True
    obtain b where b: "event_status (th_event_info th) (th_event_set th) s = Some b" using asks_status [OF assms(4)] by blast
    have f: "\<not> b" using Cons.prems(2) True assms(3) b by (auto simp: Let_def)
    obtain x where "snd (deliver T s ts) = s AND x" using deliver_shrinks by blast
    then show ?thesis using event_status_and b f True assms(3) by simp
  next
    case False
    then show ?thesis using Cons by (auto simp: Let_def split: option.splits if_splits)
  qed
qed simp

definition delivered :: "nat \<Rightarrow> rt_event \<Rightarrow> nat list \<Rightarrow> kernel \<Rightarrow> kernel \<Rightarrow> bool" where
  "delivered e ev ts k k' \<longleftrightarrow> (let ws = fst (deliver (k_threads k) (ev_set ev) ts) in
     k_events k' = (k_events k)(e \<mapsto> ev\<lparr>ev_set := snd (deliver (k_threads k) (ev_set ev) ts)\<rparr>) \<and>
     k_lists k' (EventQ e) = filter (\<lambda>t. t \<notin> fst ` set ws) (k_lists k (EventQ e)) \<and>
     (\<forall>(t, got) \<in> set ws. \<exists>th. k_threads k' t = Some th \<and> thread_stat th \<noteq> RT_THREAD_SUSPEND \<and> th_event_set th = got) \<and>
     (\<forall>t. t \<notin> fst ` set ws \<longrightarrow> k_threads k' t = k_threads k t) \<and> k_current k' = k_current k)"

lemma event_wake:
  assumes i: "kinv k" and e: "k_events k e = Some ev" and t: "k_threads k t = Some th" "t \<in> set (k_lists k (EventQ e))"
  shows "returns (do {
      k \<leftarrow> mod_thread t (\<lambda>th. th\<lparr>th_event_set := got\<rparr>) k;
      k \<leftarrow> mod_event e f k;
      (_, k) \<leftarrow> rt_thread_resume t k;
      Some k
    }) (\<lambda>k'. kinv k' \<and> k_events k' = (k_events k)(e \<mapsto> f ev) \<and> k_current k' = k_current k \<and>
      k_lists k' (EventQ e) = removeAll t (k_lists k (EventQ e)) \<and> (\<forall>u. u \<noteq> t \<longrightarrow> k_threads k' u = k_threads k u) \<and>
      (\<exists>th'. k_threads k' t = Some th' \<and> thread_stat th' \<noteq> RT_THREAD_SUSPEND \<and> th_event_set th' = got))"
proof -
  let ?th = "th\<lparr>th_event_set := got\<rparr>"
  let ?k = "k\<lparr>k_threads := (k_threads k)(t \<mapsto> ?th), k_events := (k_events k)(e \<mapsto> f ev)\<rparr>"
  have ss: "same_sched th ?th" by (simp add: same_sched_def thread_stat_def prio_def)
  have k: "kinv ?k" using kinvx_upd_same [OF i t(1) ss] by simp
  have L: "linv {} (k_lists k) (k_ready_group k) (k_threads k)" using i by (simp add: kinvx_def)
  have st: "thread_stat ?th = RT_THREAD_SUSPEND" using linv_on_list [OF L t] by (simp add: member_wait thread_stat_def)
  have "returns (rt_thread_resume t ?k) (\<lambda>(r, k'). (r = RT_EOK \<and> kinv k' \<and> woken t ?th ?k k') \<and> core_frame ?k k')"
    using returns_framer [OF rt_thread_resume_kinvx [OF k _ _ st] frames_thread_resume [OF core_frame_refl]] by simp
  then have "returns (rt_thread_resume t ?k) (\<lambda>(_, k'). kinv k' \<and> k_events k' = (k_events k)(e \<mapsto> f ev) \<and>
      k_current k' = k_current k \<and> k_lists k' (EventQ e) = removeAll t (k_lists k (EventQ e)) \<and>
      (\<forall>u. u \<noteq> t \<longrightarrow> k_threads k' u = k_threads k u) \<and>
      (\<exists>th'. k_threads k' t = Some th' \<and> thread_stat th' \<noteq> RT_THREAD_SUSPEND \<and> th_event_set th' = got))"
  proof (rule returns_mono_pair, elim conjE)
    fix r k' assume k': "kinv k'" "woken t ?th ?k k'" "core_frame ?k k'"
    obtain th' where "k_threads k' t = Some th'" "restat ?th th'" "thread_stat th' \<noteq> RT_THREAD_SUSPEND" by (rule woken_self [OF k'(2)])
    moreover from this(2) have "th_event_set th' = got" using restatD(6) by fastforce
    moreover have "k_lists k' (EventQ e) = removeAll t (k_lists k (EventQ e))" using woken_wait [OF k'(2), of "EventQ e"] by simp
    moreover have "k_threads k' u = k_threads k u" if "u \<noteq> t" for u using woken_other [OF k'(2) that] that by simp
    ultimately show "kinv k' \<and> k_events k' = (k_events k)(e \<mapsto> f ev) \<and> k_current k' = k_current k \<and>
       k_lists k' (EventQ e) = removeAll t (k_lists k (EventQ e)) \<and> (\<forall>u. u \<noteq> t \<longrightarrow> k_threads k' u = k_threads k u) \<and>
       (\<exists>th'. k_threads k' t = Some th' \<and> thread_stat th' \<noteq> RT_THREAD_SUSPEND \<and> th_event_set th' = got)"
      using k'(1,2) core_frameD(3) [OF k'(3)] by (simp add: woken_def)
  qed
  then show ?thesis using t e by (simp add: mod_thread_def mod_event_def case_prod_beta')
qed

lemma event_send_loop_delivers:
  assumes "kinv k" and "k_events k e = Some ev" and "distinct ts" and "set ts \<subseteq> set (k_lists k (EventQ e))"
    and "\<And>t. t \<in> set ts \<Longrightarrow> \<exists>th. k_threads k t = Some th \<and> asks th"
  shows "returns (event_send_loop e ts need k) (\<lambda>(r, k'). r = Some (need \<or> fst (deliver (k_threads k) (ev_set ev) ts) \<noteq> []) \<and>
    kinv k' \<and> delivered e ev ts k k')"
  using assms
proof (induction ts arbitrary: need k ev)
  case Nil
  have "(k_events k)(e \<mapsto> ev) = k_events k" using Nil(2) by (simp add: fun_upd_idem)
  then show ?case using Nil(1) by (simp add: delivered_def)
next
  case (Cons t ts)
  obtain th where th: "k_threads k t = Some th" "asks th" using Cons.prems(5) [of t] by auto
  obtain b where b: "event_status (th_event_info th) (th_event_set th) (ev_set ev) = Some b" using asks_status [OF th(2)] by blast
  show ?case
  proof (cases b)
    case False
    then have "event_send_loop e (t # ts) need k = event_send_loop e ts need k"
      and "deliver (k_threads k) (ev_set ev) (t # ts) = deliver (k_threads k) (ev_set ev) ts"
      using b th Cons.prems(2) by (simp_all add: get_thread_def)
    then show ?thesis using Cons.IH [OF Cons.prems(1,2), of need] Cons.prems(3-5) by (simp add: delivered_def)
  next
    case True
    let ?got = "event_got (th_event_info th) (th_event_set th) (ev_set ev)"
    let ?f = "\<lambda>ev. if th_event_info th AND RT_EVENT_FLAG_CLEAR \<noteq> 0 then ev\<lparr>ev_set := ev_set ev AND NOT ?got\<rparr> else ev"
    have tl: "t \<in> set (k_lists k (EventQ e))" "t \<notin> set ts" using Cons.prems(3,4) by auto
    have e: "event_send_loop e (t # ts) need k = Option.bind (do {
         k \<leftarrow> mod_thread t (\<lambda>th. th\<lparr>th_event_set := ?got\<rparr>) k;
         k \<leftarrow> mod_event e ?f k;
         (_, k) \<leftarrow> rt_thread_resume t k;
         Some k
       }) (event_send_loop e ts True)"
      using b True th Cons.prems(2) by (simp add: get_thread_def mod_thread_def mod_event_def case_prod_beta')
    show ?thesis unfolding e
    proof (rule returns_bindI [OF event_wake [OF Cons.prems(1,2) th(1) tl(1)]], elim conjE exE)
      fix k1 th' assume k1: "kinv k1" "k_events k1 = (k_events k)(e \<mapsto> ?f ev)" "k_current k1 = k_current k"
        "k_lists k1 (EventQ e) = removeAll t (k_lists k (EventQ e))" "\<forall>u. u \<noteq> t \<longrightarrow> k_threads k1 u = k_threads k u"
        "k_threads k1 t = Some th'" "thread_stat th' \<noteq> RT_THREAD_SUSPEND" "th_event_set th' = ?got"
      have T: "k_threads k1 u = k_threads k u" if "u \<in> set ts" for u using k1(5) tl(2) that by metis
      let ?D = "deliver (k_threads k) (ev_set (?f ev)) ts"
      have D1: "deliver (k_threads k1) (ev_set (?f ev)) ts = ?D" by (rule deliver_cong) (rule T)
      have D: "deliver (k_threads k) (ev_set ev) (t # ts) = ((t, ?got) # fst ?D, snd ?D)"
        using th(1) b True by (simp add: Let_def)
      have tw: "t \<notin> fst ` set (fst ?D)" using deliver_woken [of "k_threads k" "ev_set (?f ev)" ts] tl(2) by blast
      have "returns (event_send_loop e ts True k1) (\<lambda>(r, k'). r = Some (True \<or> fst ?D \<noteq> []) \<and> kinv k' \<and> delivered e (?f ev) ts k1 k')"
        unfolding D1 [symmetric] by (rule Cons.IH [OF k1(1)]) (use k1 Cons.prems tl T in auto)
      then show "returns (event_send_loop e ts True k1) (\<lambda>(r, k'). r = Some (need \<or> fst (deliver (k_threads k) (ev_set ev) (t # ts)) \<noteq> []) \<and>
          kinv k' \<and> delivered e ev (t # ts) k k')"
      proof (rule returns_mono_pair, elim conjE, intro conjI)
        fix r k' assume k': "r = Some (True \<or> fst ?D \<noteq> [])" "kinv k'" "delivered e (?f ev) ts k1 k'"
        note d = k'(3) [unfolded delivered_def D1 Let_def]
        show "r = Some (need \<or> fst (deliver (k_threads k) (ev_set ev) (t # ts)) \<noteq> [])" using k'(1) D by simp
        show "kinv k'" by (rule k')
        have t': "k_threads k' t = Some th'" using d tw k1(6) by auto
        show "delivered e ev (t # ts) k k'" unfolding delivered_def D Let_def fst_conv snd_conv
        proof (intro conjI)
          show "k_events k' = (k_events k)(e \<mapsto> ev\<lparr>ev_set := snd ?D\<rparr>)" using d k1(2) by simp
          show "k_lists k' (EventQ e) = filter (\<lambda>u. u \<notin> fst ` set ((t, ?got) # fst ?D)) (k_lists k (EventQ e))"
            using d k1(4) by (auto simp: removeAll_filter_not_eq intro!: filter_cong)
          show "\<forall>(u, got) \<in> set ((t, ?got) # fst ?D). \<exists>th. k_threads k' u = Some th \<and> thread_stat th \<noteq> RT_THREAD_SUSPEND \<and> th_event_set th = got"
            using d t' k1(7,8) by auto
          show "\<forall>u. u \<notin> fst ` set ((t, ?got) # fst ?D) \<longrightarrow> k_threads k' u = k_threads k u" using d k1(5) by auto
          show "k_current k' = k_current k" using d k1(3) by simp
        qed
      qed
    qed
  qed
qed

lemma delivered_inv:
  assumes i: "kinv k" and e: "k_events k e = Some ev" "event_ok ev" and d: "delivered e ev (k_lists k (EventQ e)) k k'"
    and a: "\<And>t. t \<in> set (k_lists k (EventQ e)) \<Longrightarrow> \<exists>th. k_threads k t = Some th \<and> asks th"
  shows "event_inv e k'"
proof -
  let ?D = "deliver (k_threads k) (ev_set ev) (k_lists k (EventQ e))"
  note d' = d [unfolded delivered_def Let_def]
  have ev': "k_events k' e = Some (ev\<lparr>ev_set := snd ?D\<rparr>)" using d' by simp
  have "unsatisfied k' (snd ?D) w" if w: "w \<in> set (k_lists k' (EventQ e))" for w
  proof -
    have w: "w \<in> set (k_lists k (EventQ e))" "w \<notin> fst ` set (fst ?D)" using w d' by auto
    obtain th where th: "k_threads k w = Some th" "asks th" using a [OF w(1)] by blast
    have "k_threads k' w = Some th" using d' w(2) th(1) by simp
    then show ?thesis using deliver_rest [OF w th] by (simp add: unsatisfied_status)
  qed
  then show ?thesis using e(2) ev' unfolding event_inv_def by (auto simp: event_ok_def)
qed

text \<open>
  The specification of a send, on sets of flags: one waiting thread after the other, the one whose request the set \<open>S\<close> meets gets
  those of its flags that are in \<open>S\<close>, and takes them away if it asked for that (bit 2 of its option).
\<close>

fun served :: "(nat \<rightharpoonup> rt_thread) \<Rightarrow> nat set \<Rightarrow> nat list \<Rightarrow> (nat \<times> nat set) list \<times> nat set" where
  "served T S [] = ([], S)"
| "served T S (t # ts) =
     (case T t of
        None \<Rightarrow> served T S ts
      | Some th \<Rightarrow>
          if request_met th S \<and> asks th then
            let got = flag_set (th_event_set th) \<inter> S;
                rest = served T (if bit (th_event_info th) 2 then S - got else S) ts
            in ((t, got) # fst rest, snd rest)
          else served T S ts)"

definition event_served :: "nat \<Rightarrow> (nat \<times> nat set) list \<times> nat set \<Rightarrow> kernel \<Rightarrow> kernel \<Rightarrow> bool" where
  "event_served e r k k' \<longleftrightarrow> (case r of (ws, S) \<Rightarrow>
     (\<exists>ev ev'. k_events k e = Some ev \<and> k_events k' = (k_events k)(e \<mapsto> ev') \<and> ev_parent ev' = ev_parent ev \<and> flag_set (ev_set ev') = S) \<and>
     k_lists k' (EventQ e) = filter (\<lambda>t. t \<notin> fst ` set ws) (k_lists k (EventQ e)) \<and>
     (\<forall>(t, got) \<in> set ws. \<exists>th. k_threads k' t = Some th \<and> thread_stat th \<noteq> RT_THREAD_SUSPEND \<and> flag_set (th_event_set th) = got) \<and>
     (\<forall>t. t \<notin> fst ` set ws \<longrightarrow> k_threads k' t = k_threads k t) \<and> k_current k' = k_current k)"

lemma served_deliver: "served T (flag_set s) ts = (map (\<lambda>(t, got). (t, flag_set got)) (fst (deliver T s ts)), flag_set (snd (deliver T s ts)))"
proof (induction ts arbitrary: s)
  case (Cons t ts)
  show ?case
  proof (cases "T t")
    case None
    then show ?thesis using Cons by simp
  next
    case (Some th)
    show ?thesis
    proof (cases "request_met th (flag_set s) \<and> asks th")
      case True
      let ?got = "event_got (th_event_info th) (th_event_set th) s"
      have g: "flag_set ?got = flag_set (th_event_set th) \<inter> flag_set s" by (rule event_got_met) (use True in simp)
      then have "flag_set (s AND NOT ?got) = flag_set s - flag_set (th_event_set th) \<inter> flag_set s" by (simp only: flags_ops(3))
      then show ?thesis
        using Some True g Cons [of "s AND NOT ?got"] Cons [of s] option_bits(3) [of "th_event_info th"] by (simp add: event_status_met Let_def)
    next
      case False
      then show ?thesis using Some Cons [of s] by (auto simp: event_status_met)
    qed
  qed
qed simp

lemma delivered_served:
  assumes d: "delivered e (ev\<lparr>ev_set := s\<rparr>) ts k k'" and e: "k_events k e = Some ev"
  shows "event_served e (served (k_threads k) (flag_set s) ts) k k'"
proof -
  let ?D = "deliver (k_threads k) s ts"
  have r: "served (k_threads k) (flag_set s) ts = (map (\<lambda>(t, got). (t, flag_set got)) (fst ?D), flag_set (snd ?D))" by (rule served_deliver)
  have f: "fst ` set (map (\<lambda>(t, got). (t, flag_set got)) (fst ?D)) = fst ` set (fst ?D)" by (force simp: image_image)
  have s: "ev_set (ev\<lparr>ev_set := s\<rparr>) = s" by simp
  show ?thesis
    using d e unfolding event_served_def r prod.case f delivered_def Let_def s by fastforce
qed

lemma event_send_delivers:
  assumes i: "kinv k" "event_inv e k" and s: "s \<noteq> 0" and c: "k_current k = Some c" and e: "k_events k e = Some ev"
  shows "returns (rt_event_send e s k) (\<lambda>(r, k'). r = RT_EOK \<and> kinv k' \<and> event_inv e k' \<and>
    (\<exists>k1. delivered e (ev\<lparr>ev_set := ev_set ev OR s\<rparr>) (k_lists k (EventQ e)) k k1 \<and> sched_rel k1 k' \<and> core_frame k1 k'))"
proof -
  let ?ev = "ev\<lparr>ev_set := ev_set ev OR s\<rparr>"
  let ?k = "k\<lparr>k_events := (k_events k)(e \<mapsto> ?ev)\<rparr>"
  let ?D = "deliver (k_threads k) (ev_set ?ev) (k_lists k (EventQ e))"
  have ok: "event_ok ev" "event_ok ?ev" using i(2) e by (auto simp: event_inv_def event_ok_def)
  have a: "\<exists>th. k_threads k t = Some th \<and> asks th" if "t \<in> set (k_lists k (EventQ e))" for t
    using i(2) e that unsatisfied_asks by (auto simp: event_inv_def)
  have L: "linv {} (k_lists k) (k_ready_group k) (k_threads k)" using i by (simp add: kinvx_def)
  have dl: "distinct (k_lists k (EventQ e))" using linvD(1) [OF L] by (auto simp: lists_wf_def)
  have lp: "returns (event_send_loop e (k_lists k (EventQ e)) False ?k) (\<lambda>(r, k'). r = Some (fst ?D \<noteq> []) \<and> kinv k' \<and>
      delivered e ?ev (k_lists k (EventQ e)) ?k k')"
    using event_send_loop_delivers [of ?k e ?ev "k_lists k (EventQ e)" False] i dl a by simp
  have eq: "rt_event_send e s k = Option.bind (event_send_loop e (k_lists k (EventQ e)) False ?k) (\<lambda>(r, k). case r of
         None \<Rightarrow> Some (- RT_EINVAL, k)
       | Some need_schedule \<Rightarrow> Option.bind (if need_schedule then rt_schedule k else Some k) (\<lambda>k. Some (RT_EOK, k)))"
    using e ok s by (simp add: rt_event_send_def get_event_def event_ok_def mod_event_def)
  show ?thesis unfolding eq
  proof (rule returns_bind_pair [OF lp], elim conjE)
    fix r k1 assume k1: "r = Some (fst ?D \<noteq> [])" "kinv k1" "delivered e ?ev (k_lists k (EventQ e)) ?k k1"
    have d: "delivered e ?ev (k_lists k (EventQ e)) k k1" using k1(3) by (simp add: delivered_def)
    have inv: "event_inv e k1" by (rule delivered_inv [OF _ _ ok(2), of ?k]) (use i a k1(3) in auto)
    have cu: "k_current k1 = Some c" using d c by (simp add: delivered_def Let_def)
    have "returns (rt_schedule k1) (\<lambda>k'. (kinv k' \<and> sched_rel k1 k') \<and> core_frame k1 k')"
      by (rule returns_frame [OF schedule_after [OF k1(2) cu]]) (auto intro: frame)
    then have "returns (if fst ?D \<noteq> [] then rt_schedule k1 else Some k1) (\<lambda>k'. kinv k' \<and> sched_rel k1 k' \<and> core_frame k1 k')"
      using k1(2) by simp
    then show "returns (case r of None \<Rightarrow> Some (- RT_EINVAL, k1)
       | Some need_schedule \<Rightarrow> Option.bind (if need_schedule then rt_schedule k1 else Some k1) (\<lambda>k. Some (RT_EOK, k)))
      (\<lambda>(r, k'). r = RT_EOK \<and> kinv k' \<and> event_inv e k' \<and>
        (\<exists>k1. delivered e ?ev (k_lists k (EventQ e)) k k1 \<and> sched_rel k1 k' \<and> core_frame k1 k'))"
      unfolding k1(1) option.case using event_inv_sched [OF inv] d by (auto elim!: returns_mono)
  qed
qed

text \<open>
  C22. No lost wake-up: sending a non-empty set of flags returns \<open>RT_EOK\<close> and serves the waiting threads as the specification
  \<open>served\<close> says, with the flags that were there and the new ones: in the order of the waiting list, each thread that waits for all of its flags and finds
  them all, or for one and finds one, is made runnable with the flags it finds, and these are cleared from the set if it asked for
  that.  Nothing else changes but by the scheduling that follows, and afterwards no thread waits whose request the set meets.
\<close>

theorem rt_event_send_delivers:
  assumes i: "kinv k" "event_inv e k" and s: "s \<noteq> 0" and c: "k_current k = Some c" and e: "k_events k e = Some ev"
  shows "returns (rt_event_send e s k) (\<lambda>(r, k'). r = RT_EOK \<and> kinv k' \<and> event_inv e k' \<and>
    (\<exists>k1. event_served e (served (k_threads k) (flag_set (ev_set ev) \<union> flag_set s) (k_lists k (EventQ e))) k k1 \<and> sched_rel k1 k' \<and> core_frame k1 k'))"
  by (rule returns_mono_pair [OF event_send_delivers [OF assms]])
    (use delivered_served [OF _ e] in \<open>auto simp: flags_ops simp flip: flags_ops(1)\<close>)

section \<open>Receiving\<close>

text \<open>
  \<^verbatim>\<open>rt_event_recv\<close> by the running thread for a non-empty set of flags, with AND or OR chosen, on every branch: a
  satisfied request returns the flags present and clears the requested ones if asked to; an unsatisfied one gives
  \<open>-RT_ETIMEOUT\<close> without waiting time, and otherwise the thread waits with its request recorded, so that no waiting
  thread's request is satisfied by the set.
\<close>

theorem rt_event_recv_correct:
  assumes i: "kinv k" "event_inv e k" and c: "k_current k = Some t" "k_threads k t = Some th" "thread_stat th = RT_THREAD_RUNNING"
    and irq: "k_irq_nest k = 0" and n: "timeout < 2 ^ 31 - 1" "s \<noteq> 0"
    and e: "k_events k e = Some ev" "event_status option s (ev_set ev) = Some b"
  shows "returns (rt_event_recv e s option timeout k) (\<lambda>(r, k').
    if b then r = Done (RT_EOK, Some (ev_set ev AND s)) \<and>
      k_events k' e = Some (if option AND RT_EVENT_FLAG_CLEAR \<noteq> 0 then ev\<lparr>ev_set := ev_set ev AND NOT s\<rparr> else ev) \<and>
      k_lists k' = k_lists k
    else if timeout = 0 then r = Done (- RT_ETIMEOUT, None) \<and> k_events k' = k_events k \<and> k_lists k' = k_lists k
    else r = Wait t \<and> kinv k' \<and> event_inv e k' \<and> k_events k' = k_events k \<and> t \<in> set (k_lists k' (EventQ e)))"
proof -
  have ok: "event_ok ev" using i(2) e(1) by (simp add: event_inv_def)
  show ?thesis
  proof (cases b)
    case True
    then show ?thesis using rt_event_recv_satisfied [OF c(1) irq c(2) n(2) e(1) ok] e(2) by simp
  next
    case False
    then have e2: "event_status option s (ev_set ev) = Some False" using e(2) by simp
    show ?thesis
    proof (cases "timeout = 0")
      case True
      then show ?thesis using rt_event_recv_nowait [OF c(1) irq c(2) n(2) e(1) ok e2] False by simp
    next
      case t0: False
      show ?thesis
        using rt_event_recv_blocks [OF i c irq t0 n e(1) e2] False t0 by simp
    qed
  qed
qed

section \<open>The promises on the sample state\<close>

abbreviation sample_event :: rt_event where
  "sample_event \<equiv> \<lparr>ev_parent = sample_object 0x84 0, ev_set = 1\<rparr>"

lemma sample_events [simp]: "k_events sample_kernel 300 = Some sample_event"
  by (simp add: sample_kernel_def)

lemma sample_event_inv: "event_inv 300 sample_kernel"
  by (simp add: event_inv_def event_ok_def rt_object_get_type_def sample_object_def sample_lists_def unsatisfied_status event_status_def)

lemma served_event:
  "event_served e (ws, S) k k1 \<Longrightarrow> core_frame k1 k' \<Longrightarrow> \<exists>ev'. k_events k' e = Some ev' \<and> flag_set (ev_set ev') = S"
  unfolding event_served_def by (drule core_frameD(3)) auto

theorem rt_event_send_delivers_witness:
  "returns (rt_event_send 300 6 sample_kernel) (\<lambda>(r, k'). r = RT_EOK \<and> kinv k' \<and> event_inv 300 k' \<and>
    (\<exists>ev'. k_events k' 300 = Some ev' \<and> flag_set (ev_set ev') = {0}))"
proof -
  have f: "flag_set 1 = {0}" by (auto simp: bit_1_iff)
  have "snd (deliver (k_threads sample_kernel) (ev_set sample_event OR 6) (k_lists sample_kernel (EventQ 300))) = 1"
    by (simp add: sample_lists_def event_status_def event_got_def Let_def)
  then have d: "snd (served (k_threads sample_kernel) (flag_set (ev_set sample_event) \<union> flag_set 6) (k_lists sample_kernel (EventQ 300))) = {0}"
    by (simp only: flags_ops(1) [symmetric] served_deliver snd_conv f)
  have "returns (rt_event_send 300 6 sample_kernel) (\<lambda>(r, k'). r = RT_EOK \<and> kinv k' \<and> event_inv 300 k' \<and>
    (\<exists>k1. event_served 300 (served (k_threads sample_kernel) (flag_set (ev_set sample_event) \<union> flag_set 6) (k_lists sample_kernel (EventQ 300)))
       sample_kernel k1 \<and> sched_rel k1 k' \<and> core_frame k1 k'))"
    by (rule rt_event_send_delivers [OF sample_kinv sample_event_inv]) simp_all
  then show ?thesis
    by (rule returns_mono_pair) (metis served_event d prod.collapse)
qed

theorem rt_event_recv_correct_witness:
  "returns (rt_event_recv 300 8 RT_EVENT_FLAG_OR 50 sample_kernel) (\<lambda>(r, k'). r = Wait 10 \<and> kinv k' \<and> event_inv 300 k' \<and>
    10 \<in> set (k_lists k' (EventQ 300)))"
proof -
  have "returns (rt_event_recv 300 8 RT_EVENT_FLAG_OR 50 sample_kernel) (\<lambda>(r, k').
    if False then r = Done (RT_EOK, Some (ev_set sample_event AND 8)) \<and>
      k_events k' 300 = Some (if RT_EVENT_FLAG_OR AND RT_EVENT_FLAG_CLEAR \<noteq> 0
        then sample_event\<lparr>ev_set := ev_set sample_event AND NOT 8\<rparr> else sample_event) \<and> k_lists k' = k_lists sample_kernel
    else if 50 = (0 :: int) then r = Done (- RT_ETIMEOUT, None) \<and> k_events k' = k_events sample_kernel \<and> k_lists k' = k_lists sample_kernel
    else r = Wait 10 \<and> kinv k' \<and> event_inv 300 k' \<and> k_events k' = k_events sample_kernel \<and> 10 \<in> set (k_lists k' (EventQ 300)))"
    by (rule rt_event_recv_correct [OF sample_kinv sample_event_inv, where th = "sample_thread RT_THREAD_RUNNING 10"])
      (simp_all add: event_status_def)
  then show ?thesis by (rule returns_mono_pair) simp
qed

end
