(* ===== verification/DrumMachine.thy ===== *)
theory DrumMachine
  imports TaskFrame Sequencer Event
begin

text \<open>
  The program of the machine: the input task of \<^verbatim>\<open>input/input.c\<close>, the sequencer task of \<^verbatim>\<open>logic/sequencer.c\<close> and the
  main thread of \<^verbatim>\<open>main.c\<close>, as threads of the kernel that run one round of their loops at a time.  A round ends
  where the thread calls the kernel and may lose the processor; it runs only while its thread is the running
  thread.  The clock tick may come between any two rounds.
\<close>

section \<open>The message\<close>

text \<open>
  \<^verbatim>\<open>struct InputEvents\<close> as the bytes the queue copies, little endian with the padding of the ABI; the padding bytes
  are those of \<open>pad\<close>.
\<close>

abbreviation sizeof_InputEvents :: nat where "sizeof_InputEvents \<equiv> 20"

definition le16 :: "u16 \<Rightarrow> u8 list" where
  "le16 w = [ucast w, ucast (drop_bit 8 w)]"

definition of_le16 :: "u8 \<Rightarrow> u8 \<Rightarrow> u16" where
  "of_le16 a b = ucast a OR push_bit 8 (ucast b)"

definition le32 :: "u32 \<Rightarrow> u8 list" where
  "le32 w = [ucast w, ucast (drop_bit 8 w), ucast (drop_bit 16 w), ucast (drop_bit 24 w)]"

definition of_le32 :: "u8 \<Rightarrow> u8 \<Rightarrow> u8 \<Rightarrow> u8 \<Rightarrow> u32" where
  "of_le32 a b c d = ucast a OR push_bit 8 (ucast b) OR push_bit 16 (ucast c) OR push_bit 24 (ucast d)"

definition button_bytes :: "u8 \<Rightarrow> ButtonData \<Rightarrow> u8 list" where
  "button_bytes pad d = le16 (main_row d) @ [fn_keys d, pad]"

definition events_bytes :: "(nat \<Rightarrow> u8) \<Rightarrow> InputEvents \<Rightarrow> u8 list" where
  "events_bytes pad ev = (let b = button_events ev in
     button_bytes (pad 0) (is_held b) @ button_bytes (pad 1) (just_pressed b) @ button_bytes (pad 2) (just_released b) @
     [enc_button ev, pad 3, pad 4, pad 5] @ le32 (enc_rotation ev))"

definition button_of_bytes :: "u8 list \<Rightarrow> nat \<Rightarrow> ButtonData" where
  "button_of_bytes bs i = \<lparr>main_row = of_le16 (bs ! i) (bs ! (i + 1)), fn_keys = bs ! (i + 2)\<rparr>"

definition events_of_bytes :: "u8 list \<Rightarrow> InputEvents" where
  "events_of_bytes bs = \<lparr>button_events = \<lparr>is_held = button_of_bytes bs 0, just_pressed = button_of_bytes bs 4,
       just_released = button_of_bytes bs 8\<rparr>,
     enc_button = bs ! 12, enc_rotation = of_le32 (bs ! 16) (bs ! 17) (bs ! 18) (bs ! 19)\<rparr>"

lemma of_le16: "of_le16 (ucast w) (ucast (drop_bit 8 w)) = w"
  by (rule bit_word_eqI) (auto simp: of_le16_def bit_simps)

lemma of_le32: "of_le32 (ucast w) (ucast (drop_bit 8 w)) (ucast (drop_bit 16 w)) (ucast (drop_bit 24 w)) = w"
proof (rule bit_word_eqI)
  fix n assume "n < LENGTH(32)"
  then show "bit (of_le32 (ucast w) (ucast (drop_bit 8 w)) (ucast (drop_bit 16 w)) (ucast (drop_bit 24 w))) n \<longleftrightarrow> bit w n"
    by (cases "n < 16"; cases "n < 24") (auto simp: of_le32_def bit_simps)
qed

lemma length_events_bytes [simp]: "length (events_bytes pad ev) = sizeof_InputEvents"
  by (simp add: events_bytes_def button_bytes_def le16_def le32_def Let_def)

lemma events_roundtrip [simp]: "events_of_bytes (events_bytes pad ev) = ev"
  by (simp add: events_of_bytes_def events_bytes_def button_of_bytes_def button_bytes_def le16_def le32_def of_le16 of_le32 Let_def)

section \<open>The tasks\<close>

datatype input_pc = In_scan | In_delay | In_slept
datatype seq_pc = Seq_get | Seq_wait waiter
datatype main_pc = Blink bool | Blink_slept bool

text \<open>
  The state of the program: the kernel, the variables of \<^verbatim>\<open>keyboard.c\<close> and \<^verbatim>\<open>input.c\<close>, the variables and the position
  of each task, and the pin of the blinking LED.
\<close>

record machine =
  mc_kernel :: kernel
  kb_led_data :: "u8 list"
  button_data_prev :: "u8 list"
  input_event_mq :: "nat option"
  in_pc :: input_pc
  in_tick :: u32
  in_events :: InputEvents
  in_button_data :: "u8 list"
  in_led_data :: "u8 list"
  sq_pc :: seq_pc
  sq_sequence :: "SeqData list"
  sq_events :: InputEvents
  sq_state :: MachineState
  mn_pc :: main_pc
  led0 :: bool

text \<open>What a round does for the outside.\<close>

datatype event = Sent InputEvents | Dropped InputEvents | Got InputEvents | Failed | Quiet

definition inputQueueSend :: "(nat \<Rightarrow> u8) \<Rightarrow> InputEvents \<Rightarrow> machine \<Rightarrow> (event \<times> machine) option" where
  "inputQueueSend pad input_events m = do {
     b \<leftarrow> input_event_mq m;
     (r, k) \<leftarrow> rt_mq_send b (events_bytes pad input_events) (mc_kernel m);
     Some (if r = Done RT_EOK then Sent input_events else Dropped input_events, m\<lparr>mc_kernel := k\<rparr>)
   }"

text \<open>The task entries up to their loops; a static structure starts as zero, and so does the sequence after \<^verbatim>\<open>memset\<close>.\<close>

definition zero_events :: InputEvents where
  "zero_events = \<lparr>button_events = \<lparr>is_held = \<lparr>main_row = 0, fn_keys = 0\<rparr>, just_pressed = \<lparr>main_row = 0, fn_keys = 0\<rparr>,
     just_released = \<lparr>main_row = 0, fn_keys = 0\<rparr>\<rparr>, enc_button = 0, enc_rotation = 0\<rparr>"

definition input_enter :: "machine \<Rightarrow> machine" where
  "input_enter m = m\<lparr>in_tick := rt_tick_get (mc_kernel m), in_events := zero_events,
     in_button_data := replicate KB_CHAIN_LENGTH 0, in_led_data := replicate KB_CHAIN_LENGTH 0, in_pc := In_scan\<rparr>"

definition seq_enter :: "machine \<Rightarrow> machine" where
  "seq_enter m = m\<lparr>sq_state := zero_state, sq_sequence := zero_seq, sq_pc := Seq_get\<rparr>"

text \<open>The loop of \<^verbatim>\<open>inputTaskEntry\<close>: up to the delay, the delay, and its end.\<close>

definition input_scan :: "spi_bus \<Rightarrow> (nat \<Rightarrow> u8) \<Rightarrow> machine \<Rightarrow> (event \<times> machine) option" where
  "input_scan rt_spi_transfer pad m =
     (let led_data = kbLEDDataGet (kb_led_data m);
          button_data = kbTransferData rt_spi_transfer led_data (in_button_data m);
          (kb, prev, ev) = kbParseButtons button_data (button_data_prev m) (in_events m);
          (enc, ev) = (if kb \<noteq> 0 then (0, ev) else encUpdate ev);
          m = m\<lparr>in_led_data := led_data, in_button_data := button_data, button_data_prev := prev, in_events := ev,
                in_pc := In_delay\<rparr>
      in if kb \<noteq> 0 \<or> enc \<noteq> 0 then inputQueueSend pad ev m else Some (Quiet, m))"

abbreviation INPUT_TASK_FREQ :: int where "INPUT_TASK_FREQ \<equiv> 100"

definition input_delay :: "machine \<Rightarrow> machine option" where
  "input_delay m = do {
     ((tick, r), k) \<leftarrow> rt_thread_delay_until (in_tick m) (rt_tick_from_millisecond (1000 div INPUT_TASK_FREQ)) (mc_kernel m);
     Some (m\<lparr>mc_kernel := k, in_tick := tick, in_pc := (case r of Wait _ \<Rightarrow> In_slept | Done _ \<Rightarrow> In_scan)\<rparr>)
   }"

definition input_wake :: "nat \<Rightarrow> machine \<Rightarrow> machine option" where
  "input_wake t m = do {
     (_, k) \<leftarrow> rt_thread_sleep_end t (mc_kernel m);
     Some (m\<lparr>mc_kernel := k, in_pc := In_scan\<rparr>)
   }"

text \<open>
  \<^verbatim>\<open>seqInputQueueGet\<close>: the call of \<^verbatim>\<open>rt_mq_recv\<close>, or its continuation when the thread has waited.  On failure the
  buffer keeps what it held.
\<close>

definition seqInputQueueGet :: "machine \<Rightarrow> ((int \<times> InputEvents, waiter) outcome \<times> kernel) option" where
  "seqInputQueueGet m = do {
     b \<leftarrow> input_event_mq m;
     (r, k) \<leftarrow> (case sq_pc m of
        Seq_get \<Rightarrow> rt_mq_recv b sizeof_InputEvents RT_WAITING_FOREVER (mc_kernel m)
      | Seq_wait w \<Rightarrow> rt_mq_recv_resume b sizeof_InputEvents w (mc_kernel m));
     Some (case r of
        Wait w \<Rightarrow> Wait w
      | Done (e, d) \<Rightarrow> Done (e, case d of None \<Rightarrow> sq_events m | Some bs \<Rightarrow> events_of_bytes bs), k)
   }"

text \<open>The loop of \<^verbatim>\<open>seqTaskEntry\<close>.\<close>

definition seq_round :: "machine \<Rightarrow> (event \<times> machine) option" where
  "seq_round m = do {
     (r, k) \<leftarrow> seqInputQueueGet m;
     case r of
       Wait w \<Rightarrow> Some (Quiet, m\<lparr>mc_kernel := k, sq_pc := Seq_wait w\<rparr>)
     | Done (e, ev) \<Rightarrow> do {
         sequence \<leftarrow> seqStepToggle (sq_sequence m) ev (sq_state m);
         led_data \<leftarrow> kbLEDDataSend (kb_led_data m) sequence (sq_state m);
         Some (if e = RT_EOK then Got ev else Failed,
           m\<lparr>mc_kernel := k, sq_events := ev, sq_sequence := sequence, kb_led_data := led_data, sq_pc := Seq_get\<rparr>)
       }
   }"

text \<open>The loop of \<^verbatim>\<open>main\<close>: the LED on, half a second, the LED off, half a second.\<close>

definition main_blink :: "bool \<Rightarrow> machine \<Rightarrow> machine option" where
  "main_blink on m = do {
     (r, k) \<leftarrow> rt_thread_mdelay 500 (mc_kernel m);
     Some (m\<lparr>mc_kernel := k, led0 := on, mn_pc := Blink_slept on\<rparr>)
   }"

definition main_wake :: "nat \<Rightarrow> bool \<Rightarrow> machine \<Rightarrow> machine option" where
  "main_wake t on m = do {
     (_, k) \<leftarrow> rt_thread_sleep_end t (mc_kernel m);
     Some (m\<lparr>mc_kernel := k, mn_pc := Blink (\<not> on)\<rparr>)
   }"

text \<open>
  The start of the program: the message queue, the two tasks and the event that \<^verbatim>\<open>main\<close> creates.  \<open>junk\<close> is what the memory
  of the message pool holds, \<open>kb_init\<close> what \<^verbatim>\<open>kbInit\<close> (theory KeyboardBus) does to the kernel; the results are the queue and the threads, \<open>None\<close> where a creation failed (which is
  printed at most).
\<close>

definition c_string :: "string \<Rightarrow> u8 list" where
  "c_string s = map of_char s @ [0]"

definition start_task :: "string \<Rightarrow> nat \<Rightarrow> u8 \<Rightarrow> kernel \<Rightarrow> (nat option \<times> kernel) option" where
  "start_task name entry priority k = do {
     (tid, k) \<leftarrow> rt_thread_create (c_string name) entry 0 4096 priority 10 k;
     case tid of
       None \<Rightarrow> Some (None, k)
     | Some t \<Rightarrow> do {
         (_, k) \<leftarrow> rt_thread_startup t k;
         Some (Some t, k)
       }
   }"

definition inputTaskInit :: "(kernel \<Rightarrow> kernel option) \<Rightarrow> (nat \<Rightarrow> u8) \<Rightarrow> nat \<Rightarrow> kernel \<Rightarrow> ((nat option \<times> nat option) \<times> kernel) option" where
  "inputTaskInit kb_init junk inputTaskEntry k = do {
     k \<leftarrow> kb_init k;
     (mq, k) \<leftarrow> rt_mq_create junk (c_string ''input_event_mq'') (of_nat sizeof_InputEvents) 8 RT_IPC_FLAG_PRIO k;
     (tid, k) \<leftarrow> start_task ''inputTaskEntry'' inputTaskEntry 7 k;
     Some ((mq, tid), k)
   }"

definition sequencerTaskInit :: "nat \<Rightarrow> kernel \<Rightarrow> (nat option \<times> kernel) option" where
  "sequencerTaskInit seqTaskEntry k = start_task ''sequencerTaskEntry'' seqTaskEntry 6 k"

definition main_init :: "(kernel \<Rightarrow> kernel option) \<Rightarrow> (nat \<Rightarrow> u8) \<Rightarrow> nat \<Rightarrow> nat \<Rightarrow> kernel \<Rightarrow> ((nat option \<times> nat option \<times> nat option \<times> nat option) \<times> kernel) option" where
  "main_init kb_init junk inputTaskEntry seqTaskEntry k = do {
     (inst_trig_event, k) \<leftarrow> rt_event_create (c_string ''inst_trig_event'') RT_IPC_FLAG_PRIO k;
     ((mq, tin), k) \<leftarrow> inputTaskInit kb_init junk inputTaskEntry k;
     (tseq, k) \<leftarrow> sequencerTaskInit seqTaskEntry k;
     Some ((inst_trig_event, mq, tin, tseq), k)
   }"

text \<open>The variables of the program before the tasks run, on a kernel where they have been created, and after their entries.\<close>

definition drum_boot :: "nat option \<Rightarrow> InputEvents \<Rightarrow> kernel \<Rightarrow> machine" where
  "drum_boot mq stack_events k = seq_enter (input_enter \<lparr>mc_kernel = k, kb_led_data = replicate KB_CHAIN_LENGTH 0,
     button_data_prev = replicate KB_CHAIN_LENGTH 0, input_event_mq = mq, in_pc = In_scan, in_tick = 0, in_events = zero_events,
     in_button_data = [], in_led_data = [], sq_pc = Seq_get, sq_sequence = [], sq_events = stack_events, sq_state = zero_state,
     mn_pc = Blink True, led0 = False\<rparr>)"

section \<open>The program as a step relation\<close>

definition running :: "nat \<Rightarrow> kernel \<Rightarrow> bool" where
  "running t k \<longleftrightarrow> k_current k = Some t \<and> (\<exists>th. k_threads k t = Some th \<and> thread_stat th = RT_THREAD_RUNNING)"

inductive drum_step :: "nat \<Rightarrow> nat \<Rightarrow> nat \<Rightarrow> machine \<Rightarrow> event \<Rightarrow> machine \<Rightarrow> bool" for tin tseq tmain where
  Scan: "running tin (mc_kernel m) \<Longrightarrow> in_pc m = In_scan \<Longrightarrow> input_scan spi pad m = Some (e, m') \<Longrightarrow> drum_step tin tseq tmain m e m'"
| Delay: "running tin (mc_kernel m) \<Longrightarrow> in_pc m = In_delay \<Longrightarrow> input_delay m = Some m' \<Longrightarrow> drum_step tin tseq tmain m Quiet m'"
| Delayed: "running tin (mc_kernel m) \<Longrightarrow> in_pc m = In_slept \<Longrightarrow> input_wake tin m = Some m' \<Longrightarrow> drum_step tin tseq tmain m Quiet m'"
| Seq: "running tseq (mc_kernel m) \<Longrightarrow> seq_round m = Some (e, m') \<Longrightarrow> drum_step tin tseq tmain m e m'"
| Blink: "running tmain (mc_kernel m) \<Longrightarrow> mn_pc m = Blink on \<Longrightarrow> main_blink on m = Some m' \<Longrightarrow> drum_step tin tseq tmain m Quiet m'"
| Blinked: "running tmain (mc_kernel m) \<Longrightarrow> mn_pc m = Blink_slept on \<Longrightarrow> main_wake tmain on m = Some m' \<Longrightarrow> drum_step tin tseq tmain m Quiet m'"
| Tick: "SysTick_Handler env (mc_kernel m) = Some k \<Longrightarrow> drum_step tin tseq tmain m Quiet (m\<lparr>mc_kernel := k\<rparr>)"

inductive_cases drum_stepE: "drum_step tin tseq tmain m e m'"

text \<open>Runs of a labelled step relation, with their history.\<close>

inductive runs :: "('s \<Rightarrow> 'e \<Rightarrow> 's \<Rightarrow> bool) \<Rightarrow> 's \<Rightarrow> 'e list \<Rightarrow> 's \<Rightarrow> bool" for step s0 where
  Start: "runs step s0 [] s0"
| Next: "runs step s0 es s \<Longrightarrow> step s e s' \<Longrightarrow> runs step s0 (es @ [e]) s'"

locale history_invariant =
  fixes step :: "'s \<Rightarrow> 'e \<Rightarrow> 's \<Rightarrow> bool" and inv :: "'e list \<Rightarrow> 's \<Rightarrow> bool"
  assumes step_keeps: "inv es s \<Longrightarrow> step s e s' \<Longrightarrow> inv (es @ [e]) s'"
begin

lemma runs_keep:
  assumes "runs step s0 es s" and "inv [] s0"
  shows "inv es s"
  using assms(1) by (induction rule: runs.induct) (use assms(2) step_keeps in blast)+

end

section \<open>The kernel side of the invariant\<close>

definition kernel_ok :: "nat \<Rightarrow> nat \<Rightarrow> u8 list list \<Rightarrow> seq_pc \<Rightarrow> kernel \<Rightarrow> bool" where
  "kernel_ok tseq b q p k \<longleftrightarrow> between_ticks k \<and> k_irq_nest k = 0 \<and>
     (\<exists>mq. k_mqs k b = Some mq \<and> mq_ok mq \<and> mq_msg_size mq = of_nat sizeof_InputEvents \<and> mq_contents mq = q) \<and>
     (\<forall>w. p = Seq_wait w \<longrightarrow> w = \<lparr>wt_thread = tseq, wt_timeout = - 1, wt_tick_delta = 0\<rparr> \<and>
        map_option th_error (k_threads k tseq) = Some RT_EOK \<and> Thread_timer tseq \<notin> set (k_timer_list k))"

lemma kernel_okE:
  assumes "kernel_ok tseq b q p k"
  obtains c mq where "kinv k" "k_current k = Some c" "k_irq_nest k = 0" "k_mqs k b = Some mq" "mq_ok mq"
    "unat (mq_msg_size mq) = sizeof_InputEvents" "mq_contents mq = q" "mq_msg_size mq = of_nat sizeof_InputEvents"
proof -
  obtain mq where "k_mqs k b = Some mq" "mq_ok mq" "mq_msg_size mq = of_nat sizeof_InputEvents" "mq_contents mq = q"
    using assms by (auto simp: kernel_ok_def)
  moreover have "unat (of_nat sizeof_InputEvents :: u16) = sizeof_InputEvents" by simp
  ultimately show thesis using that assms by (auto simp: kernel_ok_def between_ticks_def)
qed

lemma thread_timers_frame:
  assumes "task_frame E k k'" and "thread_timers_only (k_timer_list k)"
  shows "thread_timers_only (k_timer_list k')"
  using assms by (auto simp: task_frame_def thread_timers_only_def)

text \<open>A call of a task, followed by what it does to the queue.\<close>

lemma kernel_ok_task:
  assumes ok: "kernel_ok tseq b q p k" and f: "task_frame {t} k k'" and i: "kinv k'"
    and mq: "k_mqs k' b = Some mq" "mq_ok mq" "mq_msg_size mq = of_nat sizeof_InputEvents" "mq_contents mq = q'"
    and w: "t \<noteq> tseq \<or> p' = Seq_get" "p' = p \<or> p' = Seq_get"
  shows "kernel_ok tseq b q' p' k'"
proof -
  have o: "between_ticks k" "k_irq_nest k = 0" using ok by (simp_all add: kernel_ok_def)
  then have "between_ticks k'" using f i thread_timers_frame [OF f] by (auto simp: between_ticks_def task_frame_def)
  moreover have "k_irq_nest k' = 0" using o f by (simp add: task_frame_def)
  moreover have "map_option th_error (k_threads k' tseq) = Some RT_EOK \<and> Thread_timer tseq \<notin> set (k_timer_list k')"
    if "p' = Seq_wait v" for v
    using that ok f w by (auto simp: kernel_ok_def task_frame_def same_errors_def)
  ultimately show ?thesis using ok mq w unfolding kernel_ok_def by auto
qed

lemma mq_moved_contents:
  assumes "mq_moved b h R k k'" and "k_mqs k b = Some mq"
  obtains mq' where "k_mqs k' b = Some mq'" "mq_ok mq'" "mq_msg_size mq' = mq_msg_size mq" "R (mq_contents mq) (mq_contents mq')"
  using assms by (auto simp: mq_moved_def mq_same_def)

lemma length_mq_content:
  assumes "mq_wf mq" and "x \<in> set (mq_contents mq)"
  shows "length x = unat (mq_msg_size mq)"
  using assms by (auto simp: mq_wf_rep length_mq_bytes)

lemma runningE:
  assumes "running t k"
  obtains th where "k_current k = Some t" "k_threads k t = Some th" "thread_stat th = RT_THREAD_RUNNING"
  using assms by (auto simp: running_def)

lemma send_kernel:
  assumes ok: "kernel_ok tseq b q p k" and r: "running t k" "t \<noteq> tseq" and l: "length bs = sizeof_InputEvents"
  shows "returns (rt_mq_send b bs k) (\<lambda>(r, k').
    (r = Done RT_EOK \<and> kernel_ok tseq b (q @ [bs]) p k') \<or> (r = Done (- RT_EFULL) \<and> k' = k))"
proof (rule kernel_okE [OF ok])
  fix c mq assume k: "kinv k" "k_mqs k b = Some mq" "mq_ok mq" "unat (mq_msg_size mq) = sizeof_InputEvents" "mq_contents mq = q"
    and sz: "mq_msg_size mq = of_nat sizeof_InputEvents"
  have c: "k_current k = Some t" using r(1) by (simp add: running_def)
  have ne: "bs \<noteq> []" "length bs \<le> unat (mq_msg_size mq)" using l k(4) by auto
  have le: "length (mq_contents mq) \<le> unat (mq_max_msgs mq)" using k(3) mq.bound by (simp add: mq_ok_def)
  show ?thesis
  proof (cases "length (mq_contents mq) < unat (mq_max_msgs mq)")
    case False
    then show ?thesis using rt_mq_errors(2) [OF k(2,3) ne] le by simp
  next
    case True
    have "returns (rt_mq_send b bs k) (\<lambda>(r, k'). r = Done RT_EOK \<and> kinv k' \<and>
      mq_moved b (MqQ b) (\<lambda>q q'. \<exists>x. padded bs (unat (mq_msg_size mq)) x \<and> q' = q @ [x]) k k')"
      unfolding rt_mq_send_def by (rule rt_mq_send_wait_room [OF k(1) c k(2,3) True ne])
    then obtain k' where s: "rt_mq_send b bs k = Some (Done RT_EOK, k')" and i: "kinv k'"
      and mv: "mq_moved b (MqQ b) (\<lambda>q q'. \<exists>x. padded bs (unat (mq_msg_size mq)) x \<and> q' = q @ [x]) k k'"
      by (auto simp: returns_def)
    obtain mq' where mq': "k_mqs k' b = Some mq'" "mq_ok mq'" "mq_msg_size mq' = mq_msg_size mq"
      "\<exists>x. padded bs (unat (mq_msg_size mq)) x \<and> mq_contents mq' = mq_contents mq @ [x]"
      by (rule mq_moved_contents [OF mv k(2)])
    have "mq_contents mq' = q @ [bs]" using mq'(4) l k(4,5) by (auto simp: padded_def)
    moreover have "task_frame {t} k k'" by (rule task.keepsrD [OF task_mq_send [OF c] s]) simp
    ultimately have "kernel_ok tseq b (q @ [bs]) p k'"
      using kernel_ok_task [OF ok _ i mq'(1,2)] mq'(3) sz r(2) by simp
    then show ?thesis using s by simp
  qed
qed

text \<open>The sequencer's receive, called or continued.\<close>

lemma recv_kernel:
  assumes ok: "kernel_ok tseq b q p k" and r: "running tseq k"
  shows "(case p of Seq_get \<Rightarrow> rt_mq_recv b sizeof_InputEvents RT_WAITING_FOREVER k
      | Seq_wait w \<Rightarrow> rt_mq_recv_resume b sizeof_InputEvents w k) = rt_mq_recv b sizeof_InputEvents (- 1) k"
    and "returns (rt_mq_recv b sizeof_InputEvents (- 1) k) (\<lambda>(r, k').
      (\<exists>w. q = [] \<and> r = Wait w \<and> kernel_ok tseq b [] (Seq_wait w) k') \<or>
      (\<exists>x xs. q = x # xs \<and> r = Done (RT_EOK, Some x) \<and> kernel_ok tseq b xs Seq_get k'))"
proof -
  obtain th where c: "k_current k = Some tseq" "k_threads k tseq = Some th" "thread_stat th = RT_THREAD_RUNNING"
    by (rule runningE [OF r])
  obtain mq where k: "kinv k" "k_irq_nest k = 0" "k_mqs k b = Some mq" "mq_ok mq" "unat (mq_msg_size mq) = sizeof_InputEvents"
    "mq_contents mq = q" and sz: "mq_msg_size mq = of_nat sizeof_InputEvents" by (rule kernel_okE [OF ok])
  show "(case p of Seq_get \<Rightarrow> rt_mq_recv b sizeof_InputEvents RT_WAITING_FOREVER k
      | Seq_wait w \<Rightarrow> rt_mq_recv_resume b sizeof_InputEvents w k) = rt_mq_recv b sizeof_InputEvents (- 1) k"
    using ok recv_resume_forever [OF c(1) k(3,4)] by (auto simp: kernel_ok_def split: seq_pc.split)
  show "returns (rt_mq_recv b sizeof_InputEvents (- 1) k) (\<lambda>(r, k').
      (\<exists>w. q = [] \<and> r = Wait w \<and> kernel_ok tseq b [] (Seq_wait w) k') \<or>
      (\<exists>x xs. q = x # xs \<and> r = Done (RT_EOK, Some x) \<and> kernel_ok tseq b xs Seq_get k'))"
  proof (cases q)
    case Nil
    then have "mq_contents mq = []" using k(6) by simp
    from rt_mq_recv_blocks [OF k(1) c k(2-4) this, of "- 1" sizeof_InputEvents]
    obtain w k' where s: "rt_mq_recv b sizeof_InputEvents (- 1) k = Some (Wait w, k')" and i: "kinv k'"
      and m: "k_mqs k' = k_mqs k" and n: "Thread_timer tseq \<notin> set (k_timer_list k')"
      by (auto simp: returns_def)
    have f: "task_frame {tseq} k k'" by (rule task.keepsrD [OF task_mq_recv [OF c(1)] s]) simp
    have "kernel_ok tseq b [] Seq_get k'"
      by (rule kernel_ok_task [OF ok f i]) (use m k Nil sz in simp_all)
    then have "kernel_ok tseq b [] (Seq_wait w) k'"
      using recv_round_wait [of b sizeof_InputEvents tseq "- 1" 0 k w k'] s n recv_forever [OF c(1) k(3,4)]
      by (simp add: kernel_ok_def)
    then show ?thesis using s Nil by simp
  next
    case (Cons x xs)
    then have x: "mq_contents mq = x # xs" using k(6) by simp
    have lx: "take sizeof_InputEvents x = x"
      using k(4,5) length_mq_content [of mq x] x by (simp add: mq_ok_def)
    from rt_mq_recv_some [OF k(1) c(1) k(3,4) x, of sizeof_InputEvents "- 1"]
    obtain k' where s: "rt_mq_recv b sizeof_InputEvents (- 1) k = Some (Done (RT_EOK, Some x), k')" and i: "kinv k'"
      and mv: "mq_moved b (MqSendQ b) (\<lambda>q q'. q' = tl q) k k'"
      by (auto simp: returns_def lx)
    obtain mq' where mq': "k_mqs k' b = Some mq'" "mq_ok mq'" "mq_msg_size mq' = mq_msg_size mq" "mq_contents mq' = tl (mq_contents mq)"
      by (rule mq_moved_contents [OF mv k(3)])
    have f: "task_frame {tseq} k k'" by (rule task.keepsrD [OF task_mq_recv [OF c(1)] s]) simp
    have "kernel_ok tseq b xs Seq_get k'"
      by (rule kernel_ok_task [OF ok f i mq'(1,2)]) (use mq'(3,4) x sz in simp_all)
    then show ?thesis using s Cons by simp
  qed
qed

text \<open>A call of another task that does not touch the queue.\<close>

lemma quiet_kernel:
  assumes ok: "kernel_ok tseq b q p k" and n: "t \<noteq> tseq"
    and r: "returns m (\<lambda>(r, k'). kinv k')" and f: "keepsr (task_frame {t}) k m" "framesr k m"
  shows "returns m (\<lambda>(r, k'). kernel_ok tseq b q p k')"
proof -
  obtain x k' where s: "m = Some (x, k')" "kinv k'" using r by (auto simp: returns_def)
  have tf: "task_frame {t} k k'" by (rule task.keepsrD [OF f(1) s(1)])
  have mq: "k_mqs k' = k_mqs k" by (rule core_frameD(5) [OF framesrD [OF f(2) s(1)]])
  have "kernel_ok tseq b q p k'"
    by (rule kernel_okE [OF ok], rule kernel_ok_task [OF ok tf s(2)]) (use mq n in simp_all)
  then show ?thesis using s by simp
qed

lemma delay_until_kernel:
  assumes ok: "kernel_ok tseq b q p k" and r: "running t k" "t \<noteq> tseq" and n: "inc < RT_TICK_MAX_HALF"
  shows "returns (rt_thread_delay_until tick inc k) (\<lambda>(r, k'). kernel_ok tseq b q p k')"
proof (rule quiet_kernel [OF ok r(2)])
  obtain th where c: "k_current k = Some t" "k_threads k t = Some th" "thread_stat th = RT_THREAD_RUNNING"
    by (rule runningE [OF r(1)])
  have "kinv k" by (rule kernel_okE [OF ok])
  from rt_thread_delay_until_returns [OF this c n, of tick] show "returns (rt_thread_delay_until tick inc k) (\<lambda>(r, k'). kinv k')"
    by (auto simp: returns_def)
  show "keepsr (task_frame {t}) k (rt_thread_delay_until tick inc k)"
    unfolding rt_thread_delay_until_def
    by (intro task_rules task_suspend task_timer_control task_timer_start task_schedule) (use c in \<open>simp_all add: rt_thread_self_def\<close>)
  show "framesr k (rt_thread_delay_until tick inc k)" unfolding rt_thread_delay_until_def by (intro frame)
qed

lemma mdelay_kernel:
  assumes ok: "kernel_ok tseq b q p k" and r: "running t k" "t \<noteq> tseq"
  shows "returns (rt_thread_mdelay 500 k) (\<lambda>(r, k'). kernel_ok tseq b q p k')"
  unfolding rt_thread_mdelay_def
proof (rule quiet_kernel [OF ok r(2)])
  obtain th where c: "k_current k = Some t" "k_threads k t = Some th" "thread_stat th = RT_THREAD_RUNNING"
    by (rule runningE [OF r(1)])
  have n: "rt_tick_from_millisecond 500 < RT_TICK_MAX_HALF" by (simp add: rt_tick_from_millisecond_pos)
  have "kinv k" by (rule kernel_okE [OF ok])
  from rt_thread_sleep_returns [OF this c n] show "returns (rt_thread_sleep (rt_tick_from_millisecond 500) k) (\<lambda>(r, k'). kinv k')"
    by (auto simp: returns_def)
  show "keepsr (task_frame {t}) k (rt_thread_sleep (rt_tick_from_millisecond 500) k)"
    by (rule task_sleep [OF task.reflexive]) (use c in simp)
  show "framesr k (rt_thread_sleep (rt_tick_from_millisecond 500) k)" by (intro frame)
qed

lemma sleep_end_kernel:
  assumes ok: "kernel_ok tseq b q p k" and r: "running t k" "t \<noteq> tseq"
  shows "returns (rt_thread_sleep_end t k) (\<lambda>(r, k'). kernel_ok tseq b q p k')"
proof (rule quiet_kernel [OF ok r(2)])
  obtain th where c: "k_threads k t = Some th" by (rule runningE [OF r(1)])
  have "kinv k" by (rule kernel_okE [OF ok])
  from rt_thread_sleep_end_kinvx [OF this c] show "returns (rt_thread_sleep_end t k) (\<lambda>(r, k'). kinv k')"
    by (auto simp: returns_def)
  show "keepsr (task_frame {t}) k (rt_thread_sleep_end t k)"
    unfolding rt_thread_sleep_end_def by (intro task_rules) simp_all
  show "framesr k (rt_thread_sleep_end t k)" by (intro frame)
qed

lemma tick_kernel:
  assumes ok: "kernel_ok tseq b q p k"
  shows "returns (SysTick_Handler env k) (\<lambda>k'. kernel_ok tseq b q p k')"
proof -
  have "between_ticks k" using ok by (simp add: kernel_ok_def)
  from tick_task [OF this, of env] show ?thesis
    by (rule returns_mono) (use ok in \<open>auto simp: kernel_ok_def\<close>)
qed

section \<open>The invariant of the program\<close>

text \<open>
  With the history of a run: no receive has failed; the events sent are those the sequencer has taken and those in
  the queue; the pattern is what the keys of the taken events have made of the empty one; the LEDs show it.
\<close>

definition sent :: "event list \<Rightarrow> InputEvents list" where
  "sent es = [ev. Sent ev \<leftarrow> es]"

definition got :: "event list \<Rightarrow> InputEvents list" where
  "got es = [ev. Got ev \<leftarrow> es]"

definition played :: "InputEvents list \<Rightarrow> u16" where
  "played evs = fold (\<lambda>ev w. w XOR main_row (just_pressed (button_events ev))) evs 0"

definition memory_ok :: "event list \<Rightarrow> machine \<Rightarrow> bool" where
  "memory_ok es m \<longleftrightarrow> length (button_data_prev m) = 3 \<and> length (in_button_data m) = 3 \<and>
     seq_wf (sq_sequence m) \<and> sq_state m = zero_state \<and>
     (\<exists>p. cur_page zero_state (sq_sequence m) = Some p \<and> pattern_of p = played (got es) \<and> kb_led_data m = leds_of (pattern_of p))"

definition drum_inv :: "nat \<Rightarrow> nat \<Rightarrow> nat \<Rightarrow> event list \<Rightarrow> machine \<Rightarrow> bool" where
  "drum_inv tin tseq tmain es m \<longleftrightarrow> distinct [tin, tseq, tmain] \<and> Failed \<notin> set es \<and> memory_ok es m \<and>
     (\<exists>b q. input_event_mq m = Some b \<and> kernel_ok tseq b q (sq_pc m) (mc_kernel m) \<and>
        sent es = got es @ map events_of_bytes q)"

lemma sent_simps [simp]:
  "sent [] = []" "sent (es @ [Sent ev]) = sent es @ [ev]" "sent (es @ [Dropped ev]) = sent es"
  "sent (es @ [Got ev]) = sent es" "sent (es @ [Quiet]) = sent es"
  by (simp_all add: sent_def)

lemma got_simps [simp]:
  "got [] = []" "got (es @ [Got ev]) = got es @ [ev]" "got (es @ [Sent ev]) = got es" "got (es @ [Dropped ev]) = got es"
  "got (es @ [Quiet]) = got es"
  by (simp_all add: got_def)

lemma played_snoc [simp]: "played (evs @ [ev]) = played evs XOR main_row (just_pressed (button_events ev))"
  by (simp add: played_def)

lemma drum_invE:
  assumes "drum_inv tin tseq tmain es m"
  obtains b q where "tin \<noteq> tseq" "tmain \<noteq> tseq" "tin \<noteq> tmain" "Failed \<notin> set es" "memory_ok es m" "input_event_mq m = Some b"
    "kernel_ok tseq b q (sq_pc m) (mc_kernel m)" "sent es = got es @ map events_of_bytes q"
  using assms by (auto simp: drum_inv_def)

lemma drum_invI:
  assumes "tin \<noteq> tseq" "tmain \<noteq> tseq" "tin \<noteq> tmain" "Failed \<notin> set es" "memory_ok es m" "input_event_mq m = Some b"
    "kernel_ok tseq b q (sq_pc m) (mc_kernel m)" "sent es = got es @ map events_of_bytes q"
  shows "drum_inv tin tseq tmain es m"
  using assms unfolding drum_inv_def by auto

lemma drum_inv_quiet:
  assumes i: "drum_inv tin tseq tmain es m" "input_event_mq m = Some b" "sent es = got es @ map events_of_bytes q"
    and ok: "kernel_ok tseq b q (sq_pc m) k" and same: "input_event_mq m' = input_event_mq m" "sq_pc m' = sq_pc m"
      "mc_kernel m' = k" "sq_sequence m' = sq_sequence m" "sq_state m' = sq_state m" "kb_led_data m' = kb_led_data m"
    and len: "length (button_data_prev m') = 3" "length (in_button_data m') = 3"
  shows "drum_inv tin tseq tmain (es @ [Quiet]) m'"
proof -
  have "memory_ok es m" using i(1) by (simp add: drum_inv_def)
  then have mem: "memory_ok (es @ [Quiet]) m'" using same len by (simp add: memory_ok_def)
  show ?thesis
    by (rule drum_invE [OF i(1)], rule drum_invI [OF _ _ _ _ mem, where b = b and q = q]) (use i ok same in simp_all)
qed

lemma drum_inv_lengths:
  assumes "drum_inv tin tseq tmain es m"
  shows "length (button_data_prev m) = 3" "length (in_button_data m) = 3"
  using assms by (simp_all add: drum_inv_def memory_ok_def)

lemma queue_send_step:
  assumes i: "drum_inv tin tseq tmain es m" and r: "running tin (mc_kernel m)"
    and m: "m1 = m\<lparr>in_led_data := l, in_button_data := bd, button_data_prev := prev, in_events := ev, in_pc := pc\<rparr>"
      "length bd = 3" "length prev = 3"
  shows "returns (inputQueueSend pad ev m1) (\<lambda>(e, m'). drum_inv tin tseq tmain (es @ [e]) m' \<and> in_pc m' = pc)"
proof (rule drum_invE [OF i])
  fix b q assume d: "tin \<noteq> tseq" "tmain \<noteq> tseq" "tin \<noteq> tmain" "Failed \<notin> set es" "memory_ok es m" "input_event_mq m = Some b"
    "kernel_ok tseq b q (sq_pc m) (mc_kernel m)" "sent es = got es @ map events_of_bytes q"
  have mem: "memory_ok (es @ [e]) (m1\<lparr>mc_kernel := k\<rparr>)" if "e = Sent ev \<or> e = Dropped ev" for e k
    using that d(5) m by (auto simp: memory_ok_def)
  have "returns (rt_mq_send b (events_bytes pad ev) (mc_kernel m)) (\<lambda>(r, k').
    (r = Done RT_EOK \<and> kernel_ok tseq b (q @ [events_bytes pad ev]) (sq_pc m) k') \<or> (r = Done (- RT_EFULL) \<and> k' = mc_kernel m))"
    by (rule send_kernel [OF d(7) r d(1)]) simp
  then obtain r k' where s: "rt_mq_send b (events_bytes pad ev) (mc_kernel m) = Some (r, k')"
    and c: "(r = Done RT_EOK \<and> kernel_ok tseq b (q @ [events_bytes pad ev]) (sq_pc m) k') \<or> (r = Done (- RT_EFULL) \<and> k' = mc_kernel m)"
    by (auto simp: returns_def)
  have e: "inputQueueSend pad ev m1 = Some (if r = Done RT_EOK then Sent ev else Dropped ev, m1\<lparr>mc_kernel := k'\<rparr>)"
    using s d(6) m(1) by (simp add: inputQueueSend_def)
  show ?thesis
  proof (cases "r = Done RT_EOK")
    case True
    then have k: "kernel_ok tseq b (q @ [events_bytes pad ev]) (sq_pc m) k'" using c by auto
    have "drum_inv tin tseq tmain (es @ [Sent ev]) (m1\<lparr>mc_kernel := k'\<rparr>)"
      by (rule drum_invI [OF d(1-3) _ mem, where q = "q @ [events_bytes pad ev]"]) (use d k m(1) in simp_all)
    then show ?thesis using True m(1) unfolding e by simp
  next
    case False
    then have k: "kernel_ok tseq b q (sq_pc m) k'" using c d(7) by auto
    have "drum_inv tin tseq tmain (es @ [Dropped ev]) (m1\<lparr>mc_kernel := k'\<rparr>)"
      by (rule drum_invI [OF d(1-3) _ mem]) (use d k m(1) in simp_all)
    then show ?thesis using False m(1) unfolding e by simp
  qed
qed

lemma parse_length: "length new = 3 \<Longrightarrow> length prev = 3 \<Longrightarrow> length (fst (snd (kbParseButtons new prev ev))) = 3"
  by (simp add: kbParseButtons_def Let_def scan_row(1))

lemma scan_step:
  assumes i: "drum_inv tin tseq tmain es m" and r: "running tin (mc_kernel m)"
  shows "returns (input_scan spi pad m) (\<lambda>(e, m'). drum_inv tin tseq tmain (es @ [e]) m' \<and> in_pc m' = In_delay)"
proof -
  let ?l = "kbLEDDataGet (kb_led_data m)"
  let ?bd = "kbTransferData spi ?l (in_button_data m)"
  note len = drum_inv_lengths [OF i]
  obtain u prev ev where u: "kbParseButtons ?bd (button_data_prev m) (in_events m) = (u, prev, ev)" by (metis prod_cases3)
  have b3: "length ?bd = 3" using kbTransferData_eq [OF len(2)] by (simp split: prod.split)
  have p3: "length prev = 3" using parse_length [OF b3 len(1)] u by (metis fst_conv snd_conv)
  define m1 where "m1 = m\<lparr>in_led_data := ?l, in_button_data := ?bd, button_data_prev := prev, in_events := ev, in_pc := In_delay\<rparr>"
  have e: "input_scan spi pad m = (if u \<noteq> 0 then inputQueueSend pad ev m1 else Some (Quiet, m1))"
    by (simp add: input_scan_def Let_def u encUpdate_def m1_def)
  show ?thesis
  proof (cases "u \<noteq> 0")
    case True
    then show ?thesis unfolding e using queue_send_step [OF i r m1_def b3 p3] by simp
  next
    case False
    have "drum_inv tin tseq tmain (es @ [Quiet]) m1"
      by (rule drum_invE [OF i], rule drum_inv_quiet [OF i]) (simp_all add: m1_def b3 p3)
    then show ?thesis unfolding e using False by (simp add: m1_def)
  qed
qed

lemma delay_step:
  assumes i: "drum_inv tin tseq tmain es m" and r: "running tin (mc_kernel m)"
  shows "returns (input_delay m) (\<lambda>m'. drum_inv tin tseq tmain (es @ [Quiet]) m')"
proof (rule drum_invE [OF i])
  fix b q assume d: "tin \<noteq> tseq" "input_event_mq m = Some b" "kernel_ok tseq b q (sq_pc m) (mc_kernel m)"
    "sent es = got es @ map events_of_bytes q"
  have n: "rt_tick_from_millisecond (1000 div INPUT_TASK_FREQ) < RT_TICK_MAX_HALF" by (simp add: rt_tick_from_millisecond_pos)
  from delay_until_kernel [OF d(3) r d(1) n, of "in_tick m"] obtain t x k'
    where s: "rt_thread_delay_until (in_tick m) (rt_tick_from_millisecond (1000 div INPUT_TASK_FREQ)) (mc_kernel m) = Some ((t, x), k')"
      "kernel_ok tseq b q (sq_pc m) k'" by (auto simp: returns_def)
  show ?thesis
    unfolding input_delay_def s(1) Option.bind.bind_lunit prod.case returns_simps
    by (rule drum_inv_quiet [OF i d(2,4) s(2)]) (simp_all add: drum_inv_lengths [OF i])
qed

lemma wake_step:
  assumes i: "drum_inv tin tseq tmain es m" and r: "running tin (mc_kernel m)"
  shows "returns (input_wake tin m) (\<lambda>m'. drum_inv tin tseq tmain (es @ [Quiet]) m')"
proof (rule drum_invE [OF i])
  fix b q assume d: "tin \<noteq> tseq" "input_event_mq m = Some b" "kernel_ok tseq b q (sq_pc m) (mc_kernel m)"
    "sent es = got es @ map events_of_bytes q"
  from sleep_end_kernel [OF d(3) r d(1)] obtain x k'
    where s: "rt_thread_sleep_end tin (mc_kernel m) = Some (x, k')" "kernel_ok tseq b q (sq_pc m) k'" by (auto simp: returns_def)
  show ?thesis
    unfolding input_wake_def s(1) Option.bind.bind_lunit prod.case returns_simps
    by (rule drum_inv_quiet [OF i d(2,4) s(2)]) (simp_all add: drum_inv_lengths [OF i])
qed

lemma blink_step:
  assumes i: "drum_inv tin tseq tmain es m" and r: "running tmain (mc_kernel m)"
  shows "returns (main_blink on m) (\<lambda>m'. drum_inv tin tseq tmain (es @ [Quiet]) m')"
    and "returns (main_wake tmain on m) (\<lambda>m'. drum_inv tin tseq tmain (es @ [Quiet]) m')"
proof -
  obtain b q where d: "tmain \<noteq> tseq" "input_event_mq m = Some b" "kernel_ok tseq b q (sq_pc m) (mc_kernel m)"
    "sent es = got es @ map events_of_bytes q" by (rule drum_invE [OF i])
  from mdelay_kernel [OF d(3) r d(1)] obtain x k'
    where s: "rt_thread_mdelay 500 (mc_kernel m) = Some (x, k')" "kernel_ok tseq b q (sq_pc m) k'" by (auto simp: returns_def)
  show "returns (main_blink on m) (\<lambda>m'. drum_inv tin tseq tmain (es @ [Quiet]) m')"
    unfolding main_blink_def s(1) Option.bind.bind_lunit prod.case returns_simps
    by (rule drum_inv_quiet [OF i d(2,4) s(2)]) (simp_all add: drum_inv_lengths [OF i])
  from sleep_end_kernel [OF d(3) r d(1)] obtain x k'
    where s: "rt_thread_sleep_end tmain (mc_kernel m) = Some (x, k')" "kernel_ok tseq b q (sq_pc m) k'" by (auto simp: returns_def)
  show "returns (main_wake tmain on m) (\<lambda>m'. drum_inv tin tseq tmain (es @ [Quiet]) m')"
    unfolding main_wake_def s(1) Option.bind.bind_lunit prod.case returns_simps
    by (rule drum_inv_quiet [OF i d(2,4) s(2)]) (simp_all add: drum_inv_lengths [OF i])
qed

lemma tick_step:
  assumes i: "drum_inv tin tseq tmain es m"
  shows "returns (SysTick_Handler env (mc_kernel m)) (\<lambda>k. drum_inv tin tseq tmain (es @ [Quiet]) (m\<lparr>mc_kernel := k\<rparr>))"
proof (rule drum_invE [OF i])
  fix b q assume d: "input_event_mq m = Some b" "kernel_ok tseq b q (sq_pc m) (mc_kernel m)" "sent es = got es @ map events_of_bytes q"
  show ?thesis
    by (rule returns_mono [OF tick_kernel [OF d(2)]], rule drum_inv_quiet [OF i d(1,3)]) (simp_all add: drum_inv_lengths [OF i])
qed

text \<open>One event of the queue played by the sequencer.\<close>

lemma play_event:
  assumes "memory_ok es m"
  shows "returns (do { sequence \<leftarrow> seqStepToggle (sq_sequence m) ev (sq_state m);
                       led_data \<leftarrow> kbLEDDataSend (kb_led_data m) sequence (sq_state m);
                       Some (e, m\<lparr>mc_kernel := k, sq_events := ev, sq_sequence := sequence, kb_led_data := led_data, sq_pc := pc\<rparr>) })
    (\<lambda>(e', m'). e' = e \<and> memory_ok (es @ [Got ev]) m' \<and> input_event_mq m' = input_event_mq m \<and> mc_kernel m' = k \<and> sq_pc m' = pc)"
proof -
  obtain p where m: "length (button_data_prev m) = 3" "length (in_button_data m) = 3" "seq_wf (sq_sequence m)" "sq_state m = zero_state"
    "cur_page zero_state (sq_sequence m) = Some p" "pattern_of p = played (got es)" "kb_led_data m = leds_of (pattern_of p)"
    using assms by (auto simp: memory_ok_def)
  have l: "length (kb_led_data m) = 3" using m(7) by (simp add: leds_of_def)
  from seqStepToggle_returns [OF m(3) zero_wf(2), of ev] obtain seq' p' where t: "seqStepToggle (sq_sequence m) ev zero_state = Some seq'"
    "seq_wf seq'" "cur_page zero_state seq' = Some p'" "pattern_of p' = played (got es @ [ev])"
    using m(5,6) by (auto simp: returns_def)
  have led: "kbLEDDataSend (kb_led_data m) seq' zero_state = Some (leds_of (pattern_of p'))"
    using kbLEDDataSend_eq [OF l t(2) zero_wf(2)] t(3) by simp
  show ?thesis using m(1,2) t led by (simp add: m(4) memory_ok_def)
qed

lemma seq_step:
  assumes i: "drum_inv tin tseq tmain es m" and r: "running tseq (mc_kernel m)"
  shows "returns (seq_round m) (\<lambda>(e, m'). drum_inv tin tseq tmain (es @ [e]) m')"
proof (rule drum_invE [OF i])
  fix b q assume d: "tin \<noteq> tseq" "tmain \<noteq> tseq" "tin \<noteq> tmain" "Failed \<notin> set es" "memory_ok es m" "input_event_mq m = Some b"
    "kernel_ok tseq b q (sq_pc m) (mc_kernel m)" "sent es = got es @ map events_of_bytes q"
  from recv_kernel(2) [OF d(7) r] consider
      (wait) w k' where "q = []" "rt_mq_recv b sizeof_InputEvents (- 1) (mc_kernel m) = Some (Wait w, k')" "kernel_ok tseq b [] (Seq_wait w) k'"
    | (take) x xs k' where "q = x # xs" "rt_mq_recv b sizeof_InputEvents (- 1) (mc_kernel m) = Some (Done (RT_EOK, Some x), k')"
        "kernel_ok tseq b xs Seq_get k'"
    by (auto simp: returns_def)
  then show ?thesis
  proof cases
    case wait
    have mem: "memory_ok (es @ [Quiet]) (m\<lparr>mc_kernel := k', sq_pc := Seq_wait w\<rparr>)" using d(5) by (simp add: memory_ok_def)
    have "drum_inv tin tseq tmain (es @ [Quiet]) (m\<lparr>mc_kernel := k', sq_pc := Seq_wait w\<rparr>)"
      by (rule drum_invI [OF d(1-3) _ mem, where b = b and q = "[]"]) (use d wait in simp_all)
    then show ?thesis
      by (simp add: seq_round_def seqInputQueueGet_def d(6) recv_kernel(1) [OF d(7) r] wait(2))
  next
    case take
    let ?ev = "events_of_bytes x"
    have g: "seqInputQueueGet m = Some (Done (RT_EOK, ?ev), k')"
      by (simp add: seqInputQueueGet_def d(6) recv_kernel(1) [OF d(7) r] take(2))
    show ?thesis
      unfolding seq_round_def g Option.bind.bind_lunit prod.case outcome.case
    proof (rule returns_mono [OF play_event [OF d(5)]], clarify)
      fix m' assume m': "memory_ok (es @ [Got ?ev]) m'" "input_event_mq m' = input_event_mq m" "k' = mc_kernel m'" "sq_pc m' = Seq_get"
      have "drum_inv tin tseq tmain (es @ [Got ?ev]) m'"
        by (rule drum_invI [OF d(1-3) _ m'(1), where b = b and q = xs]) (use d m' take in simp_all)
      then show "drum_inv tin tseq tmain (es @ [if RT_EOK = RT_EOK then Got ?ev else Failed]) m'" by simp
    qed
  qed
qed

interpretation drum: history_invariant "drum_step tin tseq tmain" "drum_inv tin tseq tmain" for tin tseq tmain
proof
  fix es m e m' assume i: "drum_inv tin tseq tmain es m" and "drum_step tin tseq tmain m e m'"
  from this(2) show "drum_inv tin tseq tmain (es @ [e]) m'"
  proof cases
    case Scan then show ?thesis using returnsD [OF scan_step [OF i]] by auto
  next
    case Delay then show ?thesis using returnsD [OF delay_step [OF i]] by auto
  next
    case Delayed then show ?thesis using returnsD [OF wake_step [OF i]] by auto
  next
    case Seq then show ?thesis using returnsD [OF seq_step [OF i]] by auto
  next
    case Blink then show ?thesis using returnsD [OF blink_step(1) [OF i]] by auto
  next
    case Blinked then show ?thesis using returnsD [OF blink_step(2) [OF i]] by auto
  next
    case Tick then show ?thesis using returnsD [OF tick_step [OF i]] by auto
  qed
qed

section \<open>What the machine promises\<close>

text \<open>The machine when its tasks start: nothing sent, the sequencer about to read the queue, memory and LEDs clear.\<close>

definition drum_start :: "nat \<Rightarrow> nat \<Rightarrow> nat \<Rightarrow> machine \<Rightarrow> bool" where
  "drum_start tin tseq tmain m \<longleftrightarrow> distinct [tin, tseq, tmain] \<and> between_ticks (mc_kernel m) \<and> k_irq_nest (mc_kernel m) = 0 \<and>
     (\<exists>b mq. input_event_mq m = Some b \<and> k_mqs (mc_kernel m) b = Some mq \<and> mq_ok mq \<and> mq_msg_size mq = of_nat sizeof_InputEvents \<and>
        mq_contents mq = []) \<and>
     sq_pc m = Seq_get \<and> sq_sequence m = zero_seq \<and> sq_state m = zero_state \<and> kb_led_data m = [0, 0, 0] \<and>
     length (button_data_prev m) = 3 \<and> length (in_button_data m) = 3"

definition queue_events :: "machine \<Rightarrow> InputEvents list" where
  "queue_events m = (case input_event_mq m of None \<Rightarrow> [] | Some b \<Rightarrow>
     (case k_mqs (mc_kernel m) b of None \<Rightarrow> [] | Some mq \<Rightarrow> map events_of_bytes (mq_contents mq)))"

lemma pattern_zero: "cur_page zero_state zero_seq = Some p \<Longrightarrow> pattern_of p = 0"
  by (auto simp: pattern_of_def numeral_eq_Suc)

lemma drum_boot_start:
  assumes "distinct [tin, tseq, tmain]" and "between_ticks k" and "k_irq_nest k = 0" and "k_mqs k b = Some mq" and "mq_ok mq"
    and "mq_msg_size mq = of_nat sizeof_InputEvents" and "mq_contents mq = []"
  shows "drum_start tin tseq tmain (drum_boot (Some b) ev k)"
  using assms by (simp add: drum_start_def drum_boot_def seq_enter_def input_enter_def numeral_3_eq_3)

lemma drum_start_inv:
  assumes "drum_start tin tseq tmain m"
  shows "drum_inv tin tseq tmain [] m"
proof -
  obtain b mq where q: "input_event_mq m = Some b" "k_mqs (mc_kernel m) b = Some mq" "mq_ok mq"
    "mq_msg_size mq = of_nat sizeof_InputEvents" "mq_contents mq = []" using assms by (auto simp: drum_start_def)
  have mem: "memory_ok [] m"
    using assms pattern_zero zero_wf unfolding drum_start_def memory_ok_def by (auto simp: leds_of_def played_def)
  show ?thesis
    by (rule drum_invI [OF _ _ _ _ mem q(1), where q = "[]"]) (use assms q in \<open>auto simp: drum_start_def kernel_ok_def\<close>)
qed

lemma drum_inv_plays:
  assumes "drum_inv tin tseq tmain es m"
  shows "kinv (mc_kernel m) \<and> Failed \<notin> set es \<and> sent es = got es @ queue_events m \<and>
    (\<exists>p. cur_page (sq_state m) (sq_sequence m) = Some p \<and> pattern_of p = played (got es) \<and> kb_led_data m = leds_of (played (got es)))"
proof (rule drum_invE [OF assms])
  fix b q assume d: "Failed \<notin> set es" "memory_ok es m" "input_event_mq m = Some b"
    "kernel_ok tseq b q (sq_pc m) (mc_kernel m)" "sent es = got es @ map events_of_bytes q"
  then show ?thesis
    by (rule_tac kernel_okE [OF d(4)]) (auto simp: queue_events_def memory_ok_def)
qed

text \<open>
  C1. End to end, for every run of the input task, the sequencer task, the main thread and the clock, in any order the
  kernel schedules them: the kernel invariant holds; no receive has failed; every event the input task has queued
  is taken by the sequencer once and in order, or still in the queue; the pattern of the page is the exclusive
  or of the keys pressed in the taken events; and the LED bytes show that pattern.
\<close>

theorem drum_machine_plays:
  assumes "drum_start tin tseq tmain m0" and "runs (drum_step tin tseq tmain) m0 es m"
  shows "kinv (mc_kernel m) \<and> Failed \<notin> set es \<and> sent es = got es @ queue_events m \<and>
    (\<exists>p. cur_page (sq_state m) (sq_sequence m) = Some p \<and> pattern_of p = played (got es) \<and> kb_led_data m = leds_of (played (got es)))"
  by (rule drum_inv_plays [OF drum.runs_keep [OF assms(2) drum_start_inv [OF assms(1)]]])

text \<open>
  C2. No run gets stuck in a failed assertion or an access out of range: whenever the running thread is the input
  task, the sequencer task or the main thread, the round it is at returns, whatever the bus gives, and so does the
  clock tick.
\<close>

theorem drum_machine_never_faults:
  assumes "drum_start tin tseq tmain m0" and "runs (drum_step tin tseq tmain) m0 es m"
  shows "(running tin (mc_kernel m) \<longrightarrow> input_scan spi pad m \<noteq> None \<and> input_delay m \<noteq> None \<and> input_wake tin m \<noteq> None) \<and>
    (running tseq (mc_kernel m) \<longrightarrow> seq_round m \<noteq> None) \<and>
    (running tmain (mc_kernel m) \<longrightarrow> main_blink on m \<noteq> None \<and> main_wake tmain on m \<noteq> None) \<and>
    SysTick_Handler env (mc_kernel m) \<noteq> None"
proof -
  have i: "drum_inv tin tseq tmain es m" by (rule drum.runs_keep [OF assms(2) drum_start_inv [OF assms(1)]])
  note f = scan_step [OF i, of spi pad] delay_step [OF i] wake_step [OF i] seq_step [OF i] blink_step [OF i, of on] tick_step [OF i, of env]
  show ?thesis using f by (auto simp: returns_def)
qed

section \<open>The promises on a sample machine\<close>

text \<open>Thread 10 of the sample kernel as the input task, 2 as the sequencer and 8 as main; a bus on which the first key is down.\<close>

definition sample_events_mq :: rt_messagequeue where
  "sample_events_mq = mq_setup (\<lambda>_. 0) RT_IPC_FLAG_PRIO 1000 20 8
     \<lparr>mq_parent = sample_object 0x86 0, mq_msg_pool = Map.empty, mq_pool_addr = 0, mq_msg_size = 0, mq_max_msgs = 0, mq_entry = 0,
      mq_msg_queue_head = None, mq_msg_queue_tail = None, mq_msg_queue_free = None\<rparr>"

definition sample_machine :: machine where
  "sample_machine = drum_boot (Some 501) (sample_press 0) (put_mq 501 sample_events_mq sample_kernel)"

definition sample_bus :: spi_bus where
  "sample_bus led_data buf = (3, [0xff, 0xfe, 0xff])"

lemma sample_events_mq_ok: "mq_ok sample_events_mq" "mq_contents sample_events_mq = []" "mq_max_msgs sample_events_mq = 8"
  "mq_msg_size sample_events_mq = 20"
  by (simp_all add: sample_events_mq_def mq_ok_def mq_setup_empty mq_setup_parent sample_object_def rt_object_get_type_def)

lemma put_mq_timer_list [simp]: "k_timer_list (put_mq b mq k) = k_timer_list k"
  by (simp add: put_mq_def)

lemma sample_machine_start: "drum_start 10 2 8 sample_machine" "running 10 (mc_kernel sample_machine)" "in_pc sample_machine = In_scan"
  unfolding sample_machine_def
  by (rule drum_boot_start [where mq = sample_events_mq];
      simp add: between_ticks_def thread_timers_only_def sample_events_mq_ok)
    (simp_all add: running_def drum_boot_def seq_enter_def input_enter_def)

lemma sample_scan:
  obtains m where "input_scan sample_bus pad sample_machine = Some (Sent (sample_press 1), m)"
proof -
  have three: "replicate 3 0 = [0, 0, 0 :: u8]" by (simp add: numeral_3_eq_3)
  have bd: "kbTransferData sample_bus l [0, 0, 0] = [0, 1, 0]" for l by (simp add: kbTransferData_eq sample_bus_def)
  have p: "kbParseButtons [0, 1, 0] [0, 0, 0] zero_events = (1, [0, 1, 0], sample_press 1)"
    by (simp add: kbParseButtons_def scan_start_def scan_byte_def button_data_of_def join_row_def Let_def upt_3 numeral_3_eq_3
        numeral_2_eq_2 sample_press_def zero_events_def)
  have "returns (rt_mq_send 501 (events_bytes pad (sample_press 1)) (put_mq 501 sample_events_mq sample_kernel)) (\<lambda>(r, k'). r = Done RT_EOK)"
    unfolding rt_mq_send_def
    by (rule returns_mono [OF rt_mq_send_wait_room [where c = 10 and mq = sample_events_mq]])
      (auto simp: sample_events_mq_ok simp flip: length_0_conv)
  then obtain k where "rt_mq_send 501 (events_bytes pad (sample_press 1)) (put_mq 501 sample_events_mq sample_kernel) = Some (Done RT_EOK, k)"
    by (auto simp: returns_def)
  then show thesis
    using that by (simp add: input_scan_def inputQueueSend_def sample_machine_def drum_boot_def seq_enter_def input_enter_def
        three bd p Let_def)
qed

lemma sample_run: "\<exists>m. runs (drum_step 10 2 8) sample_machine [Sent (sample_press 1)] m"
proof -
  obtain m where "input_scan sample_bus (\<lambda>_. 0) sample_machine = Some (Sent (sample_press 1), m)" by (rule sample_scan)
  then have "drum_step 10 2 8 sample_machine (Sent (sample_press 1)) m" by (rule drum_step.Scan [OF sample_machine_start(2,3)])
  then have "runs (drum_step 10 2 8) sample_machine ([] @ [Sent (sample_press 1)]) m" by (rule runs.Next [OF runs.Start])
  then show ?thesis by auto
qed

theorem drum_machine_plays_witness:
  "\<exists>m. runs (drum_step 10 2 8) sample_machine [Sent (sample_press 1)] m \<and> kinv (mc_kernel m) \<and> queue_events m = [sample_press 1] \<and>
    kb_led_data m = [0, 0, 0]"
proof -
  obtain m where m: "runs (drum_step 10 2 8) sample_machine [Sent (sample_press 1)] m" using sample_run by blast
  have s: "sent [Sent (sample_press 1)] = [sample_press 1]" "got [Sent (sample_press 1)] = []" by (simp_all add: sent_def got_def)
  show ?thesis
    using drum_machine_plays [OF sample_machine_start(1) m] m s by (auto simp: leds_of_def played_def)
qed

theorem drum_machine_never_faults_witness:
  "\<forall>spi pad env. input_scan spi pad sample_machine \<noteq> None \<and> input_delay sample_machine \<noteq> None \<and>
    SysTick_Handler env (mc_kernel sample_machine) \<noteq> None"
proof (intro allI)
  fix spi pad env
  show "input_scan spi pad sample_machine \<noteq> None \<and> input_delay sample_machine \<noteq> None \<and> SysTick_Handler env (mc_kernel sample_machine) \<noteq> None"
    using drum_machine_never_faults [OF sample_machine_start(1) runs.Start, of spi pad True env] sample_machine_start(2) by simp
qed

end
