(* ===== verification/KMemory.thy ===== *)
theory KMemory
  imports Prelude
begin

text \<open>
  The memory routines of \<^verbatim>\<open>kservice.c\<close>, which move whole words where the addresses are aligned, on a byte memory: a function
  from addresses to bytes.  Words are 32 bits wide and little-endian, as on the RISC-V core.  Each routine is shown
  equal to its reference, the update of an address range.
\<close>

type_synonym memory = "nat \<Rightarrow> u8"

section \<open>Words in memory\<close>

definition load32 :: "memory \<Rightarrow> nat \<Rightarrow> u32" where
  "load32 m a = ucast (m a) OR push_bit 8 (ucast (m (a + 1))) OR push_bit 16 (ucast (m (a + 2))) OR push_bit 24 (ucast (m (a + 3)))"

definition store32 :: "nat \<Rightarrow> u32 \<Rightarrow> memory \<Rightarrow> memory" where
  "store32 a w m = m(a := ucast w, a + 1 := ucast (drop_bit 8 w), a + 2 := ucast (drop_bit 16 w), a + 3 := ucast (drop_bit 24 w))"

abbreviation aligned :: "nat \<Rightarrow> bool" where "aligned a \<equiv> a mod 4 = 0"

section \<open>The routines\<close>

text \<open>\<^verbatim>\<open>rt_memset\<close>: four words at a time, then words, then bytes.\<close>

fun set_words4 :: "u32 \<Rightarrow> nat \<Rightarrow> nat \<Rightarrow> memory \<Rightarrow> nat \<times> nat \<times> memory" where
  "set_words4 w a count m =
     (if 16 \<le> count
      then set_words4 w (a + 16) (count - 16) (store32 (a + 12) w (store32 (a + 8) w (store32 (a + 4) w (store32 a w m))))
      else (a, count, m))"

fun set_words :: "u32 \<Rightarrow> nat \<Rightarrow> nat \<Rightarrow> memory \<Rightarrow> nat \<times> nat \<times> memory" where
  "set_words w a count m = (if 4 \<le> count then set_words w (a + 4) (count - 4) (store32 a w m) else (a, count, m))"

fun set_bytes :: "u8 \<Rightarrow> nat \<Rightarrow> nat \<Rightarrow> memory \<Rightarrow> memory" where
  "set_bytes d a 0 m = m"
| "set_bytes d a (Suc count) m = set_bytes d (a + 1) count (m(a := d))"

declare set_words4.simps [simp del] set_words.simps [simp del]

definition rt_memset :: "nat \<Rightarrow> u32 \<Rightarrow> nat \<Rightarrow> memory \<Rightarrow> memory" where
  "rt_memset s c count m =
     (let d = c AND 0xff;
          (a, count, m) =
            (if 4 \<le> count \<and> aligned s
             then let buffer = push_bit 8 d OR d;
                      buffer = buffer OR push_bit 16 buffer;
                      (a, count, m) = set_words4 buffer s count m
                  in set_words buffer a count m
             else (s, count, m))
      in set_bytes (ucast d) a count m)"

text \<open>\<^verbatim>\<open>rt_memcpy\<close>, in the same three stages.\<close>

fun copy_words4 :: "nat \<Rightarrow> nat \<Rightarrow> nat \<Rightarrow> memory \<Rightarrow> nat \<times> nat \<times> nat \<times> memory" where
  "copy_words4 dst src len m =
     (if 16 \<le> len
      then let m = store32 dst (load32 m src) m;
               m = store32 (dst + 4) (load32 m (src + 4)) m;
               m = store32 (dst + 8) (load32 m (src + 8)) m;
               m = store32 (dst + 12) (load32 m (src + 12)) m
           in copy_words4 (dst + 16) (src + 16) (len - 16) m
      else (dst, src, len, m))"

fun copy_words :: "nat \<Rightarrow> nat \<Rightarrow> nat \<Rightarrow> memory \<Rightarrow> nat \<times> nat \<times> nat \<times> memory" where
  "copy_words dst src len m =
     (if 4 \<le> len then copy_words (dst + 4) (src + 4) (len - 4) (store32 dst (load32 m src) m) else (dst, src, len, m))"

fun copy_bytes :: "nat \<Rightarrow> nat \<Rightarrow> nat \<Rightarrow> memory \<Rightarrow> memory" where
  "copy_bytes dst src 0 m = m"
| "copy_bytes dst src (Suc len) m = copy_bytes (dst + 1) (src + 1) len (m(dst := m src))"

declare copy_words4.simps [simp del] copy_words.simps [simp del]

definition rt_memcpy :: "nat \<Rightarrow> nat \<Rightarrow> nat \<Rightarrow> memory \<Rightarrow> memory" where
  "rt_memcpy dst src count m =
     (let (d, s, len, m) =
        (if 16 \<le> count \<and> aligned src \<and> aligned dst
         then let (d, s, len, m) = copy_words4 dst src count m in copy_words d s len m
         else (dst, src, count, m))
      in copy_bytes d s len m)"

text \<open>\<^verbatim>\<open>rt_memmove\<close>: from the end when the destination starts inside the source.\<close>

fun copy_bytes_back :: "nat \<Rightarrow> nat \<Rightarrow> nat \<Rightarrow> memory \<Rightarrow> memory" where
  "copy_bytes_back tmp s 0 m = m"
| "copy_bytes_back tmp s (Suc n) m = copy_bytes_back (tmp - 1) (s - 1) n (m(tmp - 1 := m (s - 1)))"

definition rt_memmove :: "nat \<Rightarrow> nat \<Rightarrow> nat \<Rightarrow> memory \<Rightarrow> memory" where
  "rt_memmove dest src n m =
     (if src < dest \<and> dest < src + n then copy_bytes_back (dest + n) (src + n) n m else copy_bytes dest src n m)"

fun rt_memcmp :: "memory \<Rightarrow> nat \<Rightarrow> nat \<Rightarrow> nat \<Rightarrow> int" where
  "rt_memcmp m cs ct 0 = 0"
| "rt_memcmp m cs ct (Suc count) =
     (let res = uint (m cs) - uint (m ct) in if res \<noteq> 0 then res else rt_memcmp m (cs + 1) (ct + 1) count)"

section \<open>The references\<close>

definition filled :: "nat \<Rightarrow> nat \<Rightarrow> u8 \<Rightarrow> memory \<Rightarrow> memory" where
  "filled s n d m = (\<lambda>a. if s \<le> a \<and> a < s + n then d else m a)"

definition moved :: "nat \<Rightarrow> nat \<Rightarrow> nat \<Rightarrow> memory \<Rightarrow> memory" where
  "moved dst src n m = (\<lambda>a. if dst \<le> a \<and> a < dst + n then m (src + (a - dst)) else m a)"

lemma filled_0 [simp]: "filled s 0 d m = m"
  by (auto simp: filled_def fun_eq_iff)

lemma filled_filled: "filled (s + k) n d (filled s k d m) = filled s (k + n) d m"
  by (auto simp: filled_def)

lemma moved_0 [simp]: "moved dst src 0 m = m"
  by (auto simp: moved_def fun_eq_iff)

lemma moved_moved:
  assumes "dst \<le> src \<or> src + (k + n) \<le> dst"
  shows "moved (dst + k) (src + k) n (moved dst src k m) = moved dst src (k + n) m"
  using assms by (auto simp: moved_def fun_eq_iff)

text \<open>A word is its four bytes.\<close>

lemma byte_bit_high: "8 \<le> n \<Longrightarrow> \<not> bit (b :: u8) n"
  using bit_imp_le_length [of b n] by auto

lemma load32_bytes:
  "(ucast (load32 m a) :: u8) = m a" "(ucast (drop_bit 8 (load32 m a)) :: u8) = m (a + 1)"
  "(ucast (drop_bit 16 (load32 m a)) :: u8) = m (a + 2)" "(ucast (drop_bit 24 (load32 m a)) :: u8) = m (a + 3)"
  unfolding load32_def by (rule bit_word_eqI, simp add: bit_simps byte_bit_high)+

lemma store32_load32: "store32 dst (load32 m src) m = moved dst src 4 m"
  unfolding store32_def load32_bytes
  by (rule ext) (auto simp: moved_def)

definition repeated :: "u32 \<Rightarrow> u8 \<Rightarrow> bool" where
  "repeated w d \<longleftrightarrow> (ucast w :: u8) = d \<and> (ucast (drop_bit 8 w) :: u8) = d \<and> (ucast (drop_bit 16 w) :: u8) = d \<and>
     (ucast (drop_bit 24 w) :: u8) = d"

lemma store32_repeated: "repeated w d \<Longrightarrow> store32 a w m = filled a 4 d m"
  by (rule ext) (auto simp: store32_def repeated_def filled_def)

lemma bit_ff: "bit (0xff :: u32) n \<longleftrightarrow> n < 8"
proof -
  have "(0xff :: u32) = mask 8" by (simp add: mask_eq_exp_minus_1)
  then show ?thesis by (simp only: bit_mask_iff) auto
qed

lemma repeated_buffer:
  assumes "d = c AND 0xff"
  shows "repeated ((push_bit 8 d OR d) OR push_bit 16 (push_bit 8 d OR d)) (ucast d)"
proof -
  have "\<not> bit d n" if "8 \<le> n" for n using that unfolding assms bit_and_iff bit_ff by simp
  then show ?thesis unfolding repeated_def by (auto intro!: bit_word_eqI simp: bit_simps)
qed

section \<open>Equivalence with the references\<close>

lemma blocks_step:
  fixes n :: nat
  assumes "b \<le> n" and "0 < b"
  shows "b + b * ((n - b) div b) = b * (n div b)" and "(n - b) mod b = n mod b"
  using assms by (simp_all add: le_div_geq le_mod_geq)

lemma filled_step: "b \<le> n \<Longrightarrow> 0 < b \<Longrightarrow> filled (a + b) (b * ((n - b) div b)) d (filled a b d m) = filled a (b * (n div b)) d m"
  unfolding filled_filled by (simp only: blocks_step)

lemma set_words4_filled:
  "repeated w d \<Longrightarrow> set_words4 w a n m = (a + 16 * (n div 16), n mod 16, filled a (16 * (n div 16)) d m)"
proof (induction n arbitrary: a m rule: less_induct)
  case (less n)
  show ?case
  proof (cases "16 \<le> n")
    case True
    let ?m = "store32 (a + 12) w (store32 (a + 8) w (store32 (a + 4) w (store32 a w m)))"
    have m: "?m = filled a 16 d m"
      unfolding store32_repeated [OF less.prems] by (auto simp: filled_def fun_eq_iff)
    have "set_words4 w a n m = set_words4 w (a + 16) (n - 16) ?m" using True by (subst set_words4.simps) simp
    also have "\<dots> = (a + 16 + 16 * ((n - 16) div 16), (n - 16) mod 16, filled (a + 16) (16 * ((n - 16) div 16)) d ?m)"
      using True by (intro less.IH less.prems) simp
    finally show ?thesis unfolding m using blocks_step [of 16 n] filled_step [of 16 n] True by simp
  next
    case False
    then show ?thesis by (subst set_words4.simps) simp
  qed
qed

lemma set_words_filled:
  "repeated w d \<Longrightarrow> set_words w a n m = (a + 4 * (n div 4), n mod 4, filled a (4 * (n div 4)) d m)"
proof (induction n arbitrary: a m rule: less_induct)
  case (less n)
  show ?case
  proof (cases "4 \<le> n")
    case True
    have "set_words w a n m = set_words w (a + 4) (n - 4) (store32 a w m)" using True by (subst set_words.simps) simp
    also have "\<dots> = (a + 4 + 4 * ((n - 4) div 4), (n - 4) mod 4, filled (a + 4) (4 * ((n - 4) div 4)) d (store32 a w m))"
      using True by (intro less.IH less.prems) simp
    finally show ?thesis
      unfolding store32_repeated [OF less.prems] using blocks_step [of 4 n] filled_step [of 4 n] True by simp
  next
    case False
    then show ?thesis by (subst set_words.simps) simp
  qed
qed

lemma set_bytes_filled: "set_bytes d a n m = filled a n d m"
proof (induction d a n m rule: set_bytes.induct)
  case (2 d a count m)
  have "m(a := d) = filled a 1 d m" by (auto simp: filled_def fun_eq_iff)
  then show ?case using 2 filled_filled [of a 1 count d m] by simp
qed simp

lemma memset_filled: "rt_memset s c count m = filled s count (ucast c) m"
proof -
  define d where "d = c AND 0xff"
  have uc: "(ucast d :: u8) = ucast c"
  proof (rule bit_word_eqI)
    fix n assume "n < LENGTH(8)"
    then show "bit (ucast d :: u8) n = bit (ucast c :: u8) n" unfolding d_def bit_unsigned_iff bit_and_iff bit_ff by simp
  qed
  define w where "w = (push_bit 8 d OR d) OR push_bit 16 (push_bit 8 d OR d)"
  have w: "repeated w (ucast d)" unfolding w_def by (rule repeated_buffer [OF d_def])
  have e: "rt_memset s c count m = (let (a, n, m) = (if 4 \<le> count \<and> aligned s
      then let (a, n, m) = set_words4 w s count m in set_words w a n m else (s, count, m)) in set_bytes (ucast d) a n m)"
    unfolding rt_memset_def d_def w_def by (simp only: Let_def)
  have "rt_memset s c count m = filled s count (ucast d) m"
  proof (cases "4 \<le> count \<and> aligned s")
    case True
    let ?n = "16 * (count div 16)"
    have n: "?n + (4 * (count mod 16 div 4) + count mod 16 mod 4) = count" by presburger
    have "rt_memset s c count m = filled (s + ?n + 4 * (count mod 16 div 4)) (count mod 16 mod 4) (ucast d)
        (filled (s + ?n) (4 * (count mod 16 div 4)) (ucast d) (filled s ?n (ucast d) m))"
      unfolding e set_words4_filled [OF w] using True by (simp add: set_words_filled [OF w] set_bytes_filled)
    also have "\<dots> = filled s count (ucast d) m"
      unfolding filled_filled add.assoc n ..
    finally show ?thesis .
  qed (auto simp: e set_bytes_filled)
  then show ?thesis by (simp add: uc)
qed

text \<open>
  \<^verbatim>\<open>rt_memset\<close>, with its loops over four words, words and bytes and whatever the alignment, is the reference: the bytes
  from \<open>s\<close> on, \<open>count\<close> of them, become the low byte of \<open>c\<close>, and no other byte changes.
\<close>

theorem rt_memset_equiv: "rt_memset s c count m = (\<lambda>a. if s \<le> a \<and> a < s + count then ucast c else m a)"
  by (simp add: memset_filled filled_def)

text \<open>Copies that go upwards are right unless the destination starts inside the source.\<close>

lemma moved_step:
  assumes "dst \<le> src \<or> src + n \<le> dst" and "b \<le> n" and "0 < b"
  shows "moved (dst + b) (src + b) (b * ((n - b) div b)) (moved dst src b m) = moved dst src (b * (n div b)) m"
proof -
  have "b * (n div b) \<le> n" by simp
  then have "dst \<le> src \<or> src + (b + b * ((n - b) div b)) \<le> dst"
    unfolding blocks_step(1) [OF assms(2,3)] using assms(1) by linarith
  then show ?thesis by (simp only: moved_moved blocks_step(1) [OF assms(2,3)])
qed

lemma store4_moved:
  assumes "dst \<le> src \<or> src + 16 \<le> dst"
  shows "(let m = store32 dst (load32 m src) m;
              m = store32 (dst + 4) (load32 m (src + 4)) m;
              m = store32 (dst + 8) (load32 m (src + 8)) m
          in store32 (dst + 12) (load32 m (src + 12)) m) = moved dst src 16 m"
proof -
  have "dst \<le> src \<or> src + (4 + 4) \<le> dst" "dst \<le> src \<or> src + (8 + 4) \<le> dst" "dst \<le> src \<or> src + (12 + 4) \<le> dst"
    using assms by linarith+
  from this [THEN moved_moved, of m] show ?thesis by (simp add: store32_load32 Let_def)
qed

lemma copy_words4_moved:
  "dst \<le> src \<or> src + n \<le> dst \<Longrightarrow>
    copy_words4 dst src n m = (dst + 16 * (n div 16), src + 16 * (n div 16), n mod 16, moved dst src (16 * (n div 16)) m)"
proof (induction n arbitrary: dst src m rule: less_induct)
  case (less n)
  show ?case
  proof (cases "16 \<le> n")
    case True
    then have s: "dst \<le> src \<or> src + 16 \<le> dst" using less.prems by auto
    have "copy_words4 dst src n m = copy_words4 (dst + 16) (src + 16) (n - 16) (moved dst src 16 m)"
      unfolding store4_moved [OF s, symmetric] using True by (subst copy_words4.simps) (simp add: Let_def)
    also have "\<dots> = (dst + 16 + 16 * ((n - 16) div 16), src + 16 + 16 * ((n - 16) div 16), (n - 16) mod 16,
        moved (dst + 16) (src + 16) (16 * ((n - 16) div 16)) (moved dst src 16 m))"
      by (rule less.IH) (use True less.prems in auto)
    finally show ?thesis using blocks_step [of 16 n] moved_step [OF less.prems True] True by simp
  next
    case False
    then show ?thesis by (subst copy_words4.simps) simp
  qed
qed

lemma copy_words_moved:
  "dst \<le> src \<or> src + n \<le> dst \<Longrightarrow>
    copy_words dst src n m = (dst + 4 * (n div 4), src + 4 * (n div 4), n mod 4, moved dst src (4 * (n div 4)) m)"
proof (induction n arbitrary: dst src m rule: less_induct)
  case (less n)
  show ?case
  proof (cases "4 \<le> n")
    case True
    have "copy_words dst src n m = copy_words (dst + 4) (src + 4) (n - 4) (moved dst src 4 m)"
      using True by (subst copy_words.simps) (simp add: store32_load32)
    also have "\<dots> = (dst + 4 + 4 * ((n - 4) div 4), src + 4 + 4 * ((n - 4) div 4), (n - 4) mod 4,
        moved (dst + 4) (src + 4) (4 * ((n - 4) div 4)) (moved dst src 4 m))"
      by (rule less.IH) (use True less.prems in auto)
    finally show ?thesis using blocks_step [of 4 n] moved_step [OF less.prems True] True by simp
  next
    case False
    then show ?thesis by (subst copy_words.simps) simp
  qed
qed

lemma copy_bytes_moved: "dst \<le> src \<or> src + n \<le> dst \<Longrightarrow> copy_bytes dst src n m = moved dst src n m"
proof (induction n arbitrary: dst src m)
  case (Suc n)
  have "m(dst := m src) = moved dst src 1 m" by (auto simp: moved_def fun_eq_iff)
  then show ?case using Suc moved_moved [of dst src 1 n m] by auto
qed simp

text \<open>
  \<^verbatim>\<open>rt_memcpy\<close>, with its loops over four words, words and bytes and whatever the alignment, is the reference: as long as the
  destination does not start inside the source, the \<open>count\<close> bytes from \<open>dst\<close> on become what the bytes from \<open>src\<close> on were, and no
  other byte changes.
\<close>

theorem rt_memcpy_equiv:
  assumes "dst \<le> src \<or> src + count \<le> dst"
  shows "rt_memcpy dst src count m = (\<lambda>a. if dst \<le> a \<and> a < dst + count then m (src + (a - dst)) else m a)"
proof -
  have "rt_memcpy dst src count m = moved dst src count m"
  proof (cases "16 \<le> count \<and> aligned src \<and> aligned dst")
    case True
    define k where "k = 16 * (count div 16)"
    define j where "j = 4 * (count mod 16 div 4)"
    define i where "i = count mod 16 mod 4"
    have n: "k + (j + i) = count" "k + j + i = count" "j \<le> count mod 16" "k + count mod 16 = count"
      unfolding k_def j_def i_def by presburger+
    have o: "dst + k \<le> src + k \<or> src + k + count mod 16 \<le> dst + k" "dst + k + j \<le> src + k + j \<or> src + k + j + i \<le> dst + k + j"
      "dst \<le> src \<or> src + (k + j) \<le> dst" "dst \<le> src \<or> src + (k + j + i) \<le> dst"
      using assms n by linarith+
    have "rt_memcpy dst src count m = moved (dst + k + j) (src + k + j) i (moved (dst + k) (src + k) j (moved dst src k m))"
      unfolding rt_memcpy_def Let_def copy_words4_moved [OF assms] prod.case
      using True o copy_words_moved [OF o(1)] copy_bytes_moved [OF o(2)] by (simp add: k_def j_def i_def)
    also have "\<dots> = moved dst src count m"
      using moved_moved [OF o(3)] moved_moved [OF o(4)] n by (simp add: add.assoc)
    finally show ?thesis .
  qed (auto simp: rt_memcpy_def Let_def copy_bytes_moved [OF assms])
  then show ?thesis by (simp add: moved_def)
qed

theorem rt_memcpy_equiv_witness:
  "rt_memcpy 0x1000 0x2000 37 (\<lambda>a. of_nat a) 0x1024 = 0x24 \<and> rt_memcpy 0x1000 0x2000 37 (\<lambda>a. of_nat a) 0x1025 = 0x25"
  by (subst (1 2) rt_memcpy_equiv) simp_all

lemma copy_bytes_back_moved:
  "src < dst \<Longrightarrow> copy_bytes_back (dst + n) (src + n) n m = moved dst src n m"
proof (induction n arbitrary: m)
  case (Suc n)
  have "copy_bytes_back (dst + Suc n) (src + Suc n) (Suc n) m = moved dst src n (m(dst + n := m (src + n)))"
    using Suc by simp
  also have "\<dots> = moved dst src (Suc n) m"
    using Suc.prems by (auto simp: moved_def fun_eq_iff less_Suc_eq)
  finally show ?case .
qed simp

text \<open>
  C39. \<^verbatim>\<open>rt_memmove\<close> is the reference wherever the two areas lie, overlapping in either direction or not: the bytes of the
  destination become what those of the source were before the call.
\<close>

theorem rt_memmove_equiv: "rt_memmove dest src n m = (\<lambda>a. if dest \<le> a \<and> a < dest + n then m (src + (a - dest)) else m a)"
  using copy_bytes_back_moved [of src dest n m] copy_bytes_moved [of dest src n m]
  by (simp add: rt_memmove_def moved_def not_less)

text \<open>\<^verbatim>\<open>rt_memcmp\<close> is 0 exactly for equal areas, and else the difference at the first place where they differ.\<close>

lemma uint_byte_eq: "uint (a :: u8) = uint b \<longleftrightarrow> a = b"
  by (simp add: word_uint_eq_iff)

lemma rt_memcmp_0: "rt_memcmp m cs ct n = 0 \<longleftrightarrow> (\<forall>i < n. m (cs + i) = m (ct + i))"
proof (induction n arbitrary: cs ct)
  case (Suc n)
  have "(\<forall>i < Suc n. m (cs + i) = m (ct + i)) \<longleftrightarrow> m cs = m ct \<and> (\<forall>i < n. m (cs + 1 + i) = m (ct + 1 + i))"
    by (auto simp: less_Suc_eq_0_disj)
  then show ?case using Suc [of "cs + 1" "ct + 1"] by (auto simp: Let_def uint_byte_eq)
qed simp

lemma rt_memcmp_first:
  assumes "i < n" and "\<forall>j < i. m (cs + j) = m (ct + j)" and "m (cs + i) \<noteq> m (ct + i)"
  shows "rt_memcmp m cs ct n = uint (m (cs + i)) - uint (m (ct + i))"
  using assms
proof (induction n arbitrary: cs ct i)
  case (Suc n)
  show ?case
  proof (cases i)
    case 0
    then show ?thesis using Suc.prems by (simp add: Let_def uint_byte_eq)
  next
    case (Suc j)
    have "m cs = m ct" using Suc Suc.prems(2) by (metis add_0_right zero_less_Suc)
    moreover have "\<forall>l < j. m (cs + 1 + l) = m (ct + 1 + l)" using Suc Suc.prems(2) by auto
    ultimately show ?thesis using Suc Suc.IH [of j "cs + 1" "ct + 1"] Suc.prems by (simp add: Let_def)
  qed
qed simp

section \<open>Strings\<close>

text \<open>
  A string is read from its address to the first 0; the loops do not end in a memory without one.  On this core
  \<^verbatim>\<open>char\<close> is unsigned.
\<close>

partial_function (option) strlen_loop :: "memory \<Rightarrow> nat \<Rightarrow> nat \<Rightarrow> nat option" where
  "strlen_loop m s sc = (if m sc \<noteq> 0 then strlen_loop m s (sc + 1) else Some (sc - s))"

definition rt_strlen :: "memory \<Rightarrow> nat \<Rightarrow> nat option" where
  "rt_strlen m s = strlen_loop m s s"

function rt_strnlen_loop :: "memory \<Rightarrow> nat \<Rightarrow> nat \<Rightarrow> nat \<Rightarrow> nat" where
  "rt_strnlen_loop m s maxlen sc = (if m sc \<noteq> 0 \<and> sc - s < maxlen then rt_strnlen_loop m s maxlen (sc + 1) else sc - s)"
  by pat_completeness auto
termination by (relation "measure (\<lambda>(m, s, maxlen, sc). s + maxlen - sc)") auto

declare rt_strnlen_loop.simps [simp del]

definition rt_strnlen :: "memory \<Rightarrow> nat \<Rightarrow> nat \<Rightarrow> nat" where
  "rt_strnlen m s maxlen = rt_strnlen_loop m s maxlen s"

text \<open>The loop of \<^verbatim>\<open>rt_strstr\<close>; it is entered with \<open>0 < l2\<close> only, so that \<open>l2 \<le> l1\<close> implies \<open>0 < l1\<close>.\<close>

fun strstr_loop :: "memory \<Rightarrow> nat \<Rightarrow> nat \<Rightarrow> nat \<Rightarrow> nat \<Rightarrow> nat option" where
  "strstr_loop m s1 l1 s2 l2 =
     (if l2 \<le> l1 \<and> 0 < l1
      then if rt_memcmp m s1 s2 l2 = 0 then Some s1 else strstr_loop m (s1 + 1) (l1 - 1) s2 l2
      else None)"

declare strstr_loop.simps [simp del]

definition rt_strstr :: "memory \<Rightarrow> nat \<Rightarrow> nat \<Rightarrow> nat option option" where
  "rt_strstr m s1 s2 = do {
     l2 \<leftarrow> rt_strlen m s2;
     if l2 = 0 then Some (Some s1)
     else do {
       l1 \<leftarrow> rt_strlen m s1;
       Some (strstr_loop m s1 l1 s2 l2)
     }
   }"

partial_function (option) rt_strcmp :: "memory \<Rightarrow> nat \<Rightarrow> nat \<Rightarrow> int option" where
  "rt_strcmp m cs ct =
     (if m cs \<noteq> 0 \<and> m cs = m ct then rt_strcmp m (cs + 1) (ct + 1) else Some (uint (m cs) - uint (m ct)))"

definition fold_case :: "u8 \<Rightarrow> int" where
  "fold_case c = (if 65 \<le> c \<and> c \<le> 90 then uint c + (97 - 65) else uint c)"

partial_function (option) rt_strcasecmp :: "memory \<Rightarrow> nat \<Rightarrow> nat \<Rightarrow> int option" where
  "rt_strcasecmp m a b =
     (let ca = fold_case (m a); cb = fold_case (m b)
      in if ca = cb \<and> ca \<noteq> 0 then rt_strcasecmp m (a + 1) (b + 1) else Some (ca - cb))"

text \<open>\<open>str_at m s xs\<close>: the string at \<open>s\<close> is \<open>xs\<close>.\<close>

fun str_at :: "memory \<Rightarrow> nat \<Rightarrow> u8 list \<Rightarrow> bool" where
  "str_at m s [] \<longleftrightarrow> m s = 0"
| "str_at m s (x # xs) \<longleftrightarrow> m s = x \<and> x \<noteq> 0 \<and> str_at m (s + 1) xs"

lemma str_at_nth: "str_at m s xs \<Longrightarrow> i < length xs \<Longrightarrow> m (s + i) = xs ! i"
proof (induction xs arbitrary: s i)
  case (Cons x xs)
  then show ?case using Cons.IH [of "s + 1" "i - 1"] by (cases i) auto
qed simp

lemma strlen_loop_str: "str_at m sc xs \<Longrightarrow> s \<le> sc \<Longrightarrow> strlen_loop m s sc = Some (sc + length xs - s)"
proof (induction xs arbitrary: sc)
  case Nil
  then show ?case by (subst strlen_loop.simps) simp
next
  case (Cons x xs)
  then show ?case by (subst strlen_loop.simps) simp
qed

lemma rt_strlen_str: "str_at m s xs \<Longrightarrow> rt_strlen m s = Some (length xs)"
  by (simp add: rt_strlen_def strlen_loop_str)

lemma rt_strnlen_str: "str_at m s xs \<Longrightarrow> rt_strnlen m s n = min n (length xs)"
proof -
  have "rt_strnlen_loop m s n sc = min (s + n) (sc + length xs) - s" if "str_at m sc xs" "s \<le> sc" "sc \<le> s + n" for sc xs
    using that
  proof (induction xs arbitrary: sc)
    case Nil
    then show ?case by (subst rt_strnlen_loop.simps) simp
  next
    case (Cons x xs)
    then show ?case by (subst rt_strnlen_loop.simps) (cases "sc - s < n"; simp)
  qed
  from this [of s xs] show "str_at m s xs \<Longrightarrow> rt_strnlen m s n = min n (length xs)" by (simp add: rt_strnlen_def)
qed

text \<open>\<open>ys\<close> occurs in \<open>xs\<close> at \<open>i\<close>.\<close>

definition occurs_at :: "u8 list \<Rightarrow> u8 list \<Rightarrow> nat \<Rightarrow> bool" where
  "occurs_at ys xs i \<longleftrightarrow> i + length ys \<le> length xs \<and> take (length ys) (drop i xs) = ys"

lemma memcmp_occurs:
  assumes "str_at m s xs" and "str_at m t ys" and "length ys \<le> length xs"
  shows "rt_memcmp m s t (length ys) = 0 \<longleftrightarrow> occurs_at ys xs 0"
proof -
  have "take (length ys) xs = ys \<longleftrightarrow> (\<forall>i < length ys. xs ! i = ys ! i)"
    using assms(3) by (auto simp: list_eq_iff_nth_eq)
  then show ?thesis
    using assms(3) str_at_nth [OF assms(1)] str_at_nth [OF assms(2)] by (simp add: rt_memcmp_0 occurs_at_def)
qed

lemma occurs_Suc: "occurs_at ys (x # xs) (Suc i) \<longleftrightarrow> occurs_at ys xs i"
  by (simp add: occurs_at_def)

lemma strstr_loop_first:
  assumes "str_at m s xs" and "str_at m t ys" and "ys \<noteq> []"
  shows "strstr_loop m s (length xs) t (length ys) =
    (if \<exists>i. occurs_at ys xs i then Some (s + (LEAST i. occurs_at ys xs i)) else None)"
  using assms(1)
proof (induction xs arbitrary: s)
  case Nil
  then show ?case using assms(3) by (subst strstr_loop.simps) (simp add: occurs_at_def)
next
  case (Cons x xs)
  note loop = strstr_loop.simps [of m s "length (x # xs)" t "length ys"]
  show ?case
  proof (cases "length ys \<le> length (x # xs)")
    case False
    then show ?thesis by (subst loop) (simp add: occurs_at_def)
  next
    case le: True
    show ?thesis
    proof (cases "occurs_at ys (x # xs) 0")
      case True
      then have "(LEAST i. occurs_at ys (x # xs) i) = 0" by (simp add: Least_eq_0)
      then show ?thesis using True le memcmp_occurs [OF Cons.prems assms(2) le] by (subst loop) auto
    next
      case False
      have ex: "(\<exists>i. occurs_at ys (x # xs) i) \<longleftrightarrow> (\<exists>i. occurs_at ys xs i)"
        using False occurs_Suc by (metis not0_implies_Suc)
      have least: "(LEAST i. occurs_at ys (x # xs) i) = Suc (LEAST i. occurs_at ys xs i)" if "occurs_at ys xs i" for i
        using Least_Suc [of "occurs_at ys (x # xs)" "Suc i"] that False by (simp add: occurs_Suc)
      have "strstr_loop m s (length (x # xs)) t (length ys) = strstr_loop m (s + 1) (length xs) t (length ys)"
        using False le memcmp_occurs [OF Cons.prems assms(2) le] by (subst loop) simp
      then show ?thesis using Cons.IH [of "s + 1"] Cons.prems ex least by auto
    qed
  qed
qed

text \<open>
  \<^verbatim>\<open>rt_strstr\<close> on two strings returns: the address of the first occurrence of the second in the first, and a null
  pointer exactly when there is none.
\<close>

theorem rt_strstr_first:
  assumes "str_at m s1 xs" and "str_at m s2 ys"
  shows "rt_strstr m s1 s2 = Some (if \<exists>i. occurs_at ys xs i then Some (s1 + (LEAST i. occurs_at ys xs i)) else None)"
proof (cases "ys = []")
  case True
  then have "occurs_at ys xs 0" by (simp add: occurs_at_def)
  then show ?thesis using True rt_strlen_str [OF assms(2)] by (auto simp: rt_strstr_def Least_eq_0)
next
  case False
  then show ?thesis
    using rt_strlen_str [OF assms(1)] rt_strlen_str [OF assms(2)] strstr_loop_first [OF assms False] by (simp add: rt_strstr_def)
qed

definition bytes_at :: "nat \<Rightarrow> u8 list \<Rightarrow> memory \<Rightarrow> memory" where
  "bytes_at s xs m = (\<lambda>a. if s \<le> a \<and> a < s + length xs then xs ! (a - s) else m a)"

lemma bytes_at_Nil [simp]: "bytes_at a [] m = m"
  unfolding bytes_at_def by (rule ext, rule if_not_P) simp

lemma bytes_at_Cons: "bytes_at a (x # xs) m = bytes_at (a + 1) xs (m(a := x))"
  by (rule ext) (auto simp: bytes_at_def nth_Cons')

lemma bytes_at_append: "bytes_at a (xs @ ys) m = bytes_at (a + length xs) ys (bytes_at a xs m)"
  by (induction xs arbitrary: a m) (simp_all add: bytes_at_Cons)

lemma bytes_at_other: "a + length xs \<le> c \<or> c < a \<Longrightarrow> bytes_at a xs m c = m c"
  by (auto simp: bytes_at_def)

theorem rt_strstr_first_witness:
  "rt_strstr (bytes_at 16 [97, 98, 98, 99, 0] (bytes_at 32 [98, 99, 0] (\<lambda>_. 1))) 16 32 = Some (Some 18)"
proof -
  let ?m = "bytes_at 16 [97, 98, 98, 99, 0] (bytes_at 32 [98, 99, 0] (\<lambda>_. 1))"
  have s: "str_at ?m 16 [97, 98, 98, 99]" "str_at ?m 32 [98, 99]" by (simp_all add: bytes_at_def)
  have o: "occurs_at [98, 99] [97, 98, 98, 99] 2" "\<not> occurs_at [98, 99] [97, 98, 98, 99 :: u8] 0" "\<not> occurs_at [98, 99] [97, 98, 98, 99 :: u8] 1"
    by (simp_all add: occurs_at_def)
  then have "(LEAST i. occurs_at [98, 99] [97, 98, 98, 99 :: u8] i) = 2"
    by (intro Least_equality) (auto simp: not_less_eq_eq numeral_2_eq_2 le_Suc_eq intro: ccontr)
  then show ?thesis unfolding rt_strstr_first [OF s] using o(1) by auto
qed

section \<open>Comparing strings\<close>

lemma rt_strcmp_0:
  assumes "str_at m s xs" and "str_at m t ys"
  shows "returns (rt_strcmp m s t) (\<lambda>r. r = 0 \<longleftrightarrow> xs = ys)"
  using assms
proof (induction xs arbitrary: s t ys)
  case Nil
  then show ?case by (subst rt_strcmp.simps) (cases ys; auto simp: unsigned_eq_0_iff)
next
  case (Cons x xs)
  show ?case
  proof (cases "m s = m t")
    case True
    then obtain zs where z: "ys = x # zs" "str_at m (t + 1) zs" using Cons.prems by (cases ys) auto
    show ?thesis using Cons.IH [of "s + 1" "t + 1" zs] Cons.prems z True by (subst rt_strcmp.simps) simp
  next
    case False
    then show ?thesis using Cons.prems by (subst rt_strcmp.simps) (cases ys; auto simp: uint_byte_eq unsigned_eq_0_iff)
  qed
qed

lemma rt_strcasecmp_0:
  assumes "str_at m s xs" and "str_at m t ys"
  shows "returns (rt_strcasecmp m s t) (\<lambda>r. r = 0 \<longleftrightarrow> map fold_case xs = map fold_case ys)"
proof -
  have z: "fold_case c = 0 \<longleftrightarrow> c = 0" for c
    by (auto simp: fold_case_def uint_0_iff split: if_splits)
      (metis add.commute add_nonneg_pos less_irrefl uint_ge_0 zero_less_numeral)
  then have z0: "fold_case 0 = 0" "0 = fold_case c \<longleftrightarrow> c = 0" for c by metis+
  show ?thesis
    using assms
  proof (induction xs arbitrary: s t ys)
    case Nil
    then show ?case by (subst rt_strcasecmp.simps) (cases ys; auto simp: Let_def z z0)
  next
    case (Cons x xs)
    show ?case
    proof (cases "fold_case (m s) = fold_case (m t)")
      case True
      moreover have "m t \<noteq> 0" using True Cons.prems z [of "m s"] z [of "m t"] by auto
      ultimately obtain y zs where z: "ys = y # zs" "str_at m (t + 1) zs" using Cons.prems by (cases ys) auto
      show ?thesis using Cons.IH [of "s + 1" "t + 1" zs] Cons.prems z True \<open>m t \<noteq> 0\<close> \<open>\<And>c. fold_case c = 0 \<longleftrightarrow> c = 0\<close>
        by (subst rt_strcasecmp.simps) (auto simp: Let_def)
    next
      case False
      then show ?thesis using Cons.prems by (subst rt_strcasecmp.simps) (cases ys; auto simp: Let_def)
    qed
  qed
qed

end
