(* ===== verification/Printf.thy ===== *)
theory Printf
  imports KMemory
begin

text \<open>
  Formatted output, \<^verbatim>\<open>rt_vsnprintf\<close> and \<^verbatim>\<open>rt_kprintf\<close> of \<^verbatim>\<open>kservice.c\<close>, in the configuration of the program (with precisions,
  without \<^verbatim>\<open>long long\<close> and without the \<^verbatim>\<open>0x\<close> prefix).  The format and the strings among the arguments are lists of
  characters without the final 0; the output is written to the memory of \<open>KMemory\<close>.  The pointer into the buffer is an
  address, a number below \<open>2 ^ 32\<close>, and wraps around; the length returned is a 32-bit \<^verbatim>\<open>rt_int32_t\<close>.  An argument that is missing or of
  another type than the format says is the value \<open>None\<close>.  Widths and precisions are \<^verbatim>\<open>int\<close>s that stay in range.
\<close>

datatype varg = VInt u32 | VStr "u8 list option" | VPtr u32

abbreviation ZEROPAD :: u8 where "ZEROPAD \<equiv> 0x01"
abbreviation SIGN :: u8 where "SIGN \<equiv> 0x02"
abbreviation PLUS :: u8 where "PLUS \<equiv> 0x04"
abbreviation SPACE :: u8 where "SPACE \<equiv> 0x08"
abbreviation LEFT :: u8 where "LEFT \<equiv> 0x10"
abbreviation SPECIAL :: u8 where "SPECIAL \<equiv> 0x20"
abbreviation LARGE :: u8 where "LARGE \<equiv> 0x40"

text \<open>The output: the pointer \<^verbatim>\<open>str\<close> and the memory.\<close>

type_synonym out = "nat \<times> memory"

section \<open>Writing\<close>

text \<open>\<^verbatim>\<open>if (str < end) *str = c; ++str;\<close>, on 32-bit pointers.\<close>

fun put :: "nat \<Rightarrow> u8 \<Rightarrow> out \<Rightarrow> out" where
  "put e c (str, m) = ((str + 1) mod 2 ^ 32, if str < e then m(str := c) else m)"

text \<open>\<^verbatim>\<open>while (size-- > 0)\<close>, with the value of \<^verbatim>\<open>size\<close> after it.\<close>

function pad :: "nat \<Rightarrow> u8 \<Rightarrow> int \<Rightarrow> out \<Rightarrow> int \<times> out" where
  "pad e c sz ot = (if 0 < sz then pad e c (sz - 1) (put e c ot) else (sz - 1, ot))"
  by pat_completeness auto
termination by (relation "measure (\<lambda>(e, c, sz, ot). nat sz)") auto

declare pad.simps [simp del]

fun put_list :: "nat \<Rightarrow> u8 list \<Rightarrow> out \<Rightarrow> out" where
  "put_list e [] ot = ot"
| "put_list e (c # cs) ot = put_list e cs (put e c ot)"

section \<open>Numbers\<close>

definition divide :: "u32 \<Rightarrow> nat \<Rightarrow> u32 \<times> u32" where
  "divide n base = (if base = 10 then (n mod 10, n div 10) else (n mod 16, n div 16))"

definition small_digits :: "u8 list" where "small_digits = map of_char ''0123456789abcdef''"
definition large_digits :: "u8 list" where "large_digits = map of_char ''0123456789ABCDEF''"

text \<open>The digits in \<^verbatim>\<open>tmp[16]\<close>, lowest first; a write behind its end is \<open>None\<close>.\<close>

function number_digits :: "u32 \<Rightarrow> nat \<Rightarrow> u8 list \<Rightarrow> u8 list \<Rightarrow> u8 list option" where
  "number_digits num base digits tmp =
     (if num = 0 then Some tmp
      else if length tmp < 16 then
        (let (r, num) = divide num base in number_digits num base digits (tmp @ [digits ! unat r]))
      else None)"
  by pat_completeness auto
termination
proof (relation "measure (\<lambda>(num, base, digits, tmp). 16 - length tmp)")
qed auto

declare number_digits.simps [simp del]

definition number_sign :: "u8 \<Rightarrow> u32 \<Rightarrow> u8 \<times> u32" where
  "number_sign type num =
     (if type AND SIGN \<noteq> 0 then
        if sint num < 0 then (45, - num)
        else if type AND PLUS \<noteq> 0 then (43, num)
        else if type AND SPACE \<noteq> 0 then (32, num) else (0, num)
      else (0, num))"

text \<open>The second half of \<^verbatim>\<open>print_number\<close>: the digits \<open>tmp\<close> with their sign, padding and precision.\<close>

definition put_number :: "nat \<Rightarrow> u8 \<Rightarrow> u8 \<Rightarrow> u8 \<Rightarrow> int \<Rightarrow> int \<Rightarrow> u8 list \<Rightarrow> out \<Rightarrow> out" where
  "put_number e sign c type sz precision tmp ot =
     (let i = int (length tmp);
          precision_bak = precision;
          precision = (if i > precision then i else precision);
          sz = sz - precision;
          (sz, ot) =
            (if type AND (ZEROPAD OR LEFT) = 0 then
               let sz = (if sign \<noteq> 0 \<and> sz > 0 then sz - 1 else sz) in pad e 32 sz ot
             else (sz, ot));
          (sz, ot) = (if sign \<noteq> 0 then (sz - 1, put e sign ot) else (sz, ot));
          (sz, ot) = (if type AND LEFT = 0 then pad e c sz ot else (sz, ot));
          (_, ot) = pad e 48 (precision - i) ot;
          ot = (if precision_bak \<noteq> 0 then put_list e (rev tmp) ot else ot);
          (_, ot) = pad e 32 sz ot
      in ot)"

definition print_number :: "nat \<Rightarrow> u32 \<Rightarrow> nat \<Rightarrow> int \<Rightarrow> int \<Rightarrow> u8 \<Rightarrow> out \<Rightarrow> out option" where
  "print_number e num base s precision type ot =
     (let digits = (if type AND LARGE \<noteq> 0 then large_digits else small_digits);
          type = (if type AND LEFT \<noteq> 0 then type AND NOT ZEROPAD else type);
          c = (if type AND ZEROPAD \<noteq> 0 then 48 else 32);
          (sign, num) = number_sign type num
      in do {
        tmp \<leftarrow> (if num = 0 then Some [48] else number_digits num base digits []);
        Some (put_number e sign c type s precision tmp ot)
      })"

section \<open>Formats\<close>

definition is_digit :: "u8 \<Rightarrow> bool" where
  "is_digit c \<longleftrightarrow> 48 \<le> c \<and> c < 58"

fun skip_atoi :: "u8 list \<Rightarrow> int \<Rightarrow> int \<times> u8 list" where
  "skip_atoi [] i = (i, [])"
| "skip_atoi (c # s) i = (if is_digit c then skip_atoi s (i * 10 + uint c - 48) else (i, c # s))"

fun format_flags :: "u8 list \<Rightarrow> u8 \<Rightarrow> u8 \<times> u8 list" where
  "format_flags [] flags = (flags, [])"
| "format_flags (c # s) flags =
     (if c = 45 then format_flags s (flags OR LEFT)
      else if c = 43 then format_flags s (flags OR PLUS)
      else if c = 32 then format_flags s (flags OR SPACE)
      else if c = 35 then format_flags s (flags OR SPECIAL)
      else if c = 48 then format_flags s (flags OR ZEROPAD)
      else (flags, c # s))"

fun next_int :: "varg list \<Rightarrow> (u32 \<times> varg list) option" where
  "next_int (VInt v # args) = Some (v, args)"
| "next_int _ = None"

fun next_str :: "varg list \<Rightarrow> (u8 list option \<times> varg list) option" where
  "next_str (VStr s # args) = Some (s, args)"
| "next_str _ = None"

fun next_ptr :: "varg list \<Rightarrow> (u32 \<times> varg list) option" where
  "next_ptr (VPtr p # args) = Some (p, args)"
| "next_ptr _ = None"

text \<open>The field width, which may set \<open>LEFT\<close>, and the precision.\<close>

definition field_width :: "u8 list \<Rightarrow> u8 \<Rightarrow> varg list \<Rightarrow> (int \<times> u8 \<times> u8 list \<times> varg list) option" where
  "field_width fmt flags args =
     (case fmt of [] \<Rightarrow> Some (-1, flags, [], args)
      | c # s \<Rightarrow>
          if is_digit c then (let (w, fmt) = skip_atoi fmt 0 in Some (w, flags, fmt, args))
          else if c = 42 then do {
            (v, args) \<leftarrow> next_int args;
            if sint v < 0 then Some (- sint v, flags OR LEFT, s, args) else Some (sint v, flags, s, args)
          }
          else Some (-1, flags, fmt, args))"

definition get_precision :: "u8 list \<Rightarrow> varg list \<Rightarrow> (int \<times> u8 list \<times> varg list) option" where
  "get_precision fmt args =
     (case fmt of [] \<Rightarrow> Some (-1, [], args)
      | c # s \<Rightarrow>
          if c = 46 then do {
            (p, s, args) \<leftarrow>
              (case s of [] \<Rightarrow> Some (-1, [], args)
               | d # t \<Rightarrow>
                   if is_digit d then (let (p, s) = skip_atoi s 0 in Some (p, s, args))
                   else if d = 42 then do { (v, args) \<leftarrow> next_int args; Some (sint v, t, args) }
                   else Some (-1, s, args));
            Some (if p < 0 then 0 else p, s, args)
          }
          else Some (-1, fmt, args))"

text \<open>\<^verbatim>\<open>while (--w > 0)\<close> and \<^verbatim>\<open>while (len < w--)\<close> with blanks, and the value of \<^verbatim>\<open>w\<close> after them.\<close>

definition pad_pre :: "nat \<Rightarrow> int \<Rightarrow> out \<Rightarrow> int \<times> out" where
  "pad_pre e w ot = (let (w, ot) = pad e 32 (w - 1) ot in (w + 1, ot))"

definition pad_to :: "nat \<Rightarrow> int \<Rightarrow> int \<Rightarrow> out \<Rightarrow> int \<times> out" where
  "pad_to e len w ot = (let (w, ot) = pad e 32 (w - len) ot in (w + len, ot))"

fun field_len :: "int \<Rightarrow> u8 list \<Rightarrow> int \<Rightarrow> int" where
  "field_len w [] len = len"
| "field_len w (c # s) len = (if len \<noteq> w then field_len w s (len + 1) else len)"

text \<open>The integer argument for the qualifiers \<^verbatim>\<open>h\<close> and \<^verbatim>\<open>l\<close>.\<close>

definition int_arg :: "u8 \<Rightarrow> u8 \<Rightarrow> u32 \<Rightarrow> u32" where
  "int_arg qualifier flags v =
     (if qualifier = 104 then if flags AND SIGN \<noteq> 0 then scast (ucast v :: u16) else ucast (ucast v :: u16) else v)"

text \<open>The \<^verbatim>\<open>switch\<close>: what is written for the conversion character, the rest of the format and of the arguments.\<close>

definition convert_char :: "nat \<Rightarrow> u8 \<Rightarrow> int \<Rightarrow> varg list \<Rightarrow> out \<Rightarrow> (varg list \<times> out) option" where
  "convert_char e flags w args ot = do {
     let (w, ot) = (if flags AND LEFT = 0 then pad_pre e w ot else (w, ot));
     (v, args) \<leftarrow> next_int args;
     let ot = put e (ucast v) ot;
     let (w, ot) = pad_pre e w ot;
     Some (args, ot)
   }"

definition convert_string :: "nat \<Rightarrow> u8 \<Rightarrow> int \<Rightarrow> int \<Rightarrow> varg list \<Rightarrow> out \<Rightarrow> (varg list \<times> out) option" where
  "convert_string e flags w precision args ot = do {
     (p, args) \<leftarrow> next_str args;
     let s = (case p of None \<Rightarrow> map of_char ''(NULL)'' | Some s \<Rightarrow> s);
     let len = field_len w s 0;
     let len = (if precision > 0 \<and> len > precision then precision else len);
     let (w, ot) = (if flags AND LEFT = 0 then pad_to e len w ot else (w, ot));
     let ot = put_list e (take (nat len) s) ot;
     let (w, ot) = pad_to e len w ot;
     Some (args, ot)
   }"

definition convert_int :: "nat \<Rightarrow> nat \<Rightarrow> u8 \<Rightarrow> u8 \<Rightarrow> int \<Rightarrow> int \<Rightarrow> varg list \<Rightarrow> out \<Rightarrow> (varg list \<times> out) option" where
  "convert_int e base qualifier flags w precision args ot = do {
     (v, args) \<leftarrow> next_int args;
     ot \<leftarrow> print_number e (int_arg qualifier flags v) base w precision flags ot;
     Some (args, ot)
   }"

definition convert :: "nat \<Rightarrow> u8 list \<Rightarrow> u8 \<Rightarrow> u8 \<Rightarrow> int \<Rightarrow> int \<Rightarrow> varg list \<Rightarrow> out \<Rightarrow> (u8 list \<times> varg list \<times> out) option" where
  "convert e fmt qualifier flags w precision args ot =
     (case fmt of
        [] \<Rightarrow> Some ([], args, put e 37 ot)
      | c # fmt \<Rightarrow>
          if c = of_char (CHR ''c'') then map_option (Pair fmt) (convert_char e flags w args ot)
          else if c = of_char (CHR ''s'') then map_option (Pair fmt) (convert_string e flags w precision args ot)
          else if c = of_char (CHR ''p'') then do {
            let (w, flags) = (if w = -1 then (8, flags OR ZEROPAD) else (w, flags));
            (v, args) \<leftarrow> next_ptr args;
            ot \<leftarrow> print_number e v 16 w precision flags ot;
            Some (fmt, args, ot)
          }
          else if c = 37 then Some (fmt, args, put e 37 ot)
          else if c = of_char (CHR ''o'') then map_option (Pair fmt) (convert_int e 8 qualifier flags w precision args ot)
          else if c = of_char (CHR ''X'') then map_option (Pair fmt) (convert_int e 16 qualifier (flags OR LARGE) w precision args ot)
          else if c = of_char (CHR ''x'') then map_option (Pair fmt) (convert_int e 16 qualifier flags w precision args ot)
          else if c = of_char (CHR ''d'') \<or> c = of_char (CHR ''i'')
          then map_option (Pair fmt) (convert_int e 10 qualifier (flags OR SIGN) w precision args ot)
          else if c = of_char (CHR ''u'') then map_option (Pair fmt) (convert_int e 10 qualifier flags w precision args ot)
          else Some (fmt, args, put e c (put e 37 ot)))"

text \<open>One conversion, from behind its \<^verbatim>\<open>%\<close>.\<close>

definition conversion :: "nat \<Rightarrow> u8 list \<Rightarrow> varg list \<Rightarrow> out \<Rightarrow> (u8 list \<times> varg list \<times> out) option" where
  "conversion e fmt args ot = do {
     let (flags, fmt) = format_flags fmt 0;
     (w, flags, fmt, args) \<leftarrow> field_width fmt flags args;
     (precision, fmt, args) \<leftarrow> get_precision fmt args;
     let (qualifier, fmt) =
       (case fmt of [] \<Rightarrow> (0, []) | c # s \<Rightarrow> if c = of_char (CHR ''h'') \<or> c = of_char (CHR ''l'') then (c, s) else (0, fmt));
     convert e fmt qualifier flags w precision args ot
   }"

text \<open>The rest of the format is never longer, so that the loop over the format ends.\<close>

lemma skip_atoi_length: "length (snd (skip_atoi s i)) \<le> length s"
  by (induction s i rule: skip_atoi.induct) auto

lemma format_flags_length: "length (snd (format_flags s fl)) \<le> length s"
  by (induction s fl rule: format_flags.induct) auto

lemma field_width_length: "field_width fmt flags args = Some (w, fl, fmt', args') \<Longrightarrow> length fmt' \<le> length fmt"
  using skip_atoi_length [of fmt 0]
  by (auto simp: field_width_def Let_def bind_eq_Some_conv split: list.splits if_splits prod.splits)

lemma get_precision_length: "get_precision fmt args = Some (p, fmt', args') \<Longrightarrow> length fmt' \<le> length fmt"
  using skip_atoi_length [of "tl fmt" 0]
  by (auto simp: get_precision_def Let_def bind_eq_Some_conv split: list.splits if_splits prod.splits)

lemma convert_length: "convert e fmt q fl w p args ot = Some (fmt', args', ot') \<Longrightarrow> length fmt' \<le> length fmt"
  by (auto simp: convert_def Let_def bind_eq_Some_conv split: list.splits if_splits prod.splits)

lemma conversion_length: "conversion e fmt args ot = Some (fmt', args', ot') \<Longrightarrow> length fmt' \<le> length fmt"
  using format_flags_length [of fmt 0]
  by (fastforce simp: conversion_def Let_def bind_eq_Some_conv split: prod.splits if_splits list.splits
      dest!: field_width_length get_precision_length convert_length)

function format_loop :: "nat \<Rightarrow> u8 list \<Rightarrow> varg list \<Rightarrow> out \<Rightarrow> out option" where
  "format_loop e [] args ot = Some ot"
| "format_loop e (c # fmt) args ot =
     (if c \<noteq> 37 then format_loop e fmt args (put e c ot)
      else Option.bind (conversion e fmt args ot) (\<lambda>(fmt, args, ot). format_loop e fmt args ot))"
  by pat_completeness auto
termination
  by (relation "measure (\<lambda>(e, fmt, args, ot). length fmt)") (auto dest: conversion_length simp: less_Suc_eq_le)

definition rt_vsnprintf :: "nat \<Rightarrow> nat \<Rightarrow> u8 list \<Rightarrow> varg list \<Rightarrow> memory \<Rightarrow> (int \<times> memory) option" where
  "rt_vsnprintf buf sz fmt args m = do {
     let e = (buf + sz) mod 2 ^ 32;
     let (e, sz) = (if e < buf then (2 ^ 32 - 1, 2 ^ 32 - 1 - buf) else (e, sz));
     (str, m) \<leftarrow> format_loop e fmt args (buf, m);
     let m = (if sz > 0 then if str < e then m(str := 0) else m(e - 1 := 0) else m);
     Some (sint (of_int (int str - int buf) :: u32), m)
   }"

definition rt_snprintf :: "nat \<Rightarrow> nat \<Rightarrow> u8 list \<Rightarrow> varg list \<Rightarrow> memory \<Rightarrow> (int \<times> memory) option" where
  "rt_snprintf buf sz fmt args m = rt_vsnprintf buf sz fmt args m"

definition rt_vsprintf :: "nat \<Rightarrow> u8 list \<Rightarrow> varg list \<Rightarrow> memory \<Rightarrow> (int \<times> memory) option" where
  "rt_vsprintf buf fmt args m = rt_vsnprintf buf (2 ^ 32 - 1) fmt args m"

definition rt_sprintf :: "nat \<Rightarrow> u8 list \<Rightarrow> varg list \<Rightarrow> memory \<Rightarrow> (int \<times> memory) option" where
  "rt_sprintf buf fmt args m = rt_vsprintf buf fmt args m"

text \<open>
  \<^verbatim>\<open>rt_kprintf\<close> with its buffer of \<^verbatim>\<open>RT_CONSOLEBUF_SIZE\<close> bytes at \<open>log_buf\<close> and a console device: the bytes it writes to the
  device.  The length is stored in an \<^verbatim>\<open>rt_size_t\<close>.
\<close>

abbreviation RT_CONSOLEBUF_SIZE :: nat where "RT_CONSOLEBUF_SIZE \<equiv> 128"

definition rt_kprintf :: "nat \<Rightarrow> u8 list \<Rightarrow> varg list \<Rightarrow> memory \<Rightarrow> (u8 list \<times> memory) option" where
  "rt_kprintf log_buf fmt args m = do {
     (len, m) \<leftarrow> rt_vsnprintf log_buf (RT_CONSOLEBUF_SIZE - 1) fmt args m;
     let len = unat (of_int len :: u32);
     let len = (if len > RT_CONSOLEBUF_SIZE - 1 then RT_CONSOLEBUF_SIZE - 1 else len);
     Some (map (\<lambda>i. m (log_buf + i)) [0..<len], m)
   }"

section \<open>What is written does not depend on the room\<close>

text \<open>Writing the list \<open>xs\<close> from the pointer on.\<close>

definition emit :: "nat \<Rightarrow> u8 list \<Rightarrow> out \<Rightarrow> out" where
  "emit e xs ot = fold (put e) xs ot"

lemma emit_Nil [simp]: "emit e [] ot = ot"
  by (simp add: emit_def)

lemma emit_emit [simp]: "emit e ys (emit e xs ot) = emit e (xs @ ys) ot"
  by (simp add: emit_def)

lemma put_emit [simp]: "put e c ot = emit e [c] ot"
  by (simp add: emit_def)

lemma put_list_emit [simp]: "put_list e xs ot = emit e xs ot"
  by (induction e xs ot rule: put_list.induct) simp_all

text \<open>As long as the pointer stays below \<open>2 ^ 32\<close>, the part before the end reaches the memory, and the pointer moves over all of it.\<close>

lemma emit_Cons: "emit e (x # xs) (s, m) = emit e xs ((s + 1) mod 2 ^ 32, if s < e then m(s := x) else m)"
  by (simp add: emit_def del: put_emit)

lemma emit_room:
  "s < 2 ^ 32 \<Longrightarrow> s + length xs \<le> 2 ^ 32 \<Longrightarrow> emit e xs (s, m) = ((s + length xs) mod 2 ^ 32,
     (\<lambda>a. if s \<le> a \<and> a < s + length xs \<and> a < e then xs ! (a - s) else m a))"
proof (induction xs arbitrary: s m)
  case Nil
  then show ?case by (auto simp: fun_eq_iff)
next
  case (Cons x xs)
  show ?case
  proof (cases "xs = []")
    case True
    then show ?thesis by (auto simp: emit_Cons fun_eq_iff)
  next
    case False
    then have l: "0 < length xs" by simp
    have s: "s + 1 + length xs \<le> 2 ^ 32" using Cons.prems(2) by simp
    then have "s + 1 < 2 ^ 32" using l by linarith
    then have "(s + 1) mod 2 ^ 32 = s + 1" "s + 1 < 2 ^ 32" by (auto intro: mod_less)
    with s have "emit e (x # xs) (s, m) = ((s + 1 + length xs) mod 2 ^ 32, (\<lambda>a. if s + 1 \<le> a \<and> a < s + 1 + length xs \<and> a < e then xs ! (a - (s + 1))
        else if a = s \<and> s < e then x else m a))"
      using Cons.IH [of "s + 1" "if s < e then m(s := x) else m"] by (auto simp: emit_Cons fun_eq_iff)
    also have "(\<lambda>a. if s + 1 \<le> a \<and> a < s + 1 + length xs \<and> a < e then xs ! (a - (s + 1)) else if a = s \<and> s < e then x else m a) =
        (\<lambda>a. if s \<le> a \<and> a < s + length (x # xs) \<and> a < e then (x # xs) ! (a - s) else m a)"
      by (auto simp: fun_eq_iff nth_Cons')
    finally show ?thesis by simp
  qed
qed

text \<open>
  Behind it the pointer starts again at address 0, which is below the end of the buffer: one character more than there is room for below
  \<open>2 ^ 32\<close> is written outside the buffer.
\<close>

theorem emit_wraps:
  assumes "buf + length xs = 2 ^ 32" and "0 < length xs" and "buf < e"
  shows "snd (emit e (xs @ [c]) (buf, m)) 0 = c"
proof -
  have "emit e (xs @ [c]) (buf, m) = emit e [c] (emit e xs (buf, m))" by simp
  moreover have "buf < 2 ^ 32" using assms(1,2) by linarith
  ultimately show ?thesis using assms(1,3) emit_room [of buf xs e m] by (simp add: emit_Cons del: emit_emit)
qed

lemma pad_emit [simp]: "pad e c n ot = (if 0 < n then - 1 else n - 1, emit e (replicate (nat n) c) ot)"
proof (induction e c n ot rule: pad.induct)
  case (1 e c n ot)
  show ?case
  proof (cases "0 < n")
    case True
    then have "nat n = Suc (nat (n - 1))" by simp
    then show ?thesis using True 1 by (subst pad.simps) (simp split: if_splits)
  next
    case False
    then show ?thesis by (subst pad.simps) simp
  qed
qed

section \<open>The text of a number\<close>

fun digits_of :: "nat \<Rightarrow> nat \<Rightarrow> nat list" where
  "digits_of b n = (if n < b \<or> b \<le> 1 then [n] else digits_of b (n div b) @ [n mod b])"

declare digits_of.simps [simp del]

text \<open>The base the code divides by: every base but 10 is 16.\<close>

abbreviation used_base :: "nat \<Rightarrow> nat" where "used_base base \<equiv> if base = 10 then 10 else 16"

definition digit_text :: "bool \<Rightarrow> nat \<Rightarrow> nat \<Rightarrow> u8 list" where
  "digit_text large base n = map (\<lambda>d. (if large then large_digits else small_digits) ! d) (digits_of (used_base base) n)"

definition sign_text :: "u8 \<Rightarrow> u32 \<Rightarrow> u8 list" where
  "sign_text type num =
     (if type AND SIGN \<noteq> 0 then
        if sint num < 0 then [45] else if type AND PLUS \<noteq> 0 then [43] else if type AND SPACE \<noteq> 0 then [32] else []
      else [])"

definition magnitude :: "u8 \<Rightarrow> u32 \<Rightarrow> nat" where
  "magnitude type num = (if type AND SIGN \<noteq> 0 \<and> sint num < 0 then nat (- sint num) else unat num)"

text \<open>The sign and the digits \<open>ds\<close> laid out in a field of width \<open>s\<close> with at least \<open>precision\<close> digits.\<close>

definition layout :: "u8 \<Rightarrow> u8 list \<Rightarrow> int \<Rightarrow> int \<Rightarrow> u8 list \<Rightarrow> u8 list" where
  "layout type sign s precision ds =
     (let zeros = nat (precision - int (length ds));
          body = replicate zeros 48 @ (if precision = 0 then [] else ds);
          gap = nat (s - int (length sign + zeros + length ds))
      in if type AND LEFT \<noteq> 0 then sign @ body @ replicate gap 32
         else if type AND ZEROPAD \<noteq> 0 then sign @ replicate gap 48 @ body
         else replicate gap 32 @ sign @ body)"

definition number_text :: "u32 \<Rightarrow> nat \<Rightarrow> int \<Rightarrow> int \<Rightarrow> u8 \<Rightarrow> u8 list" where
  "number_text num base s precision type =
     layout type (sign_text type num) s precision (digit_text (type AND LARGE \<noteq> 0) base (magnitude type num))"

lemma divide_used: "divide num base = (of_nat (unat num mod used_base base), of_nat (unat num div used_base base))"
proof -
  have "num mod w = of_nat (unat num mod unat w)" "num div w = of_nat (unat num div unat w)" for w
    by (fact word_arith_nat_mod word_arith_nat_div)+
  from this [of 10] this [of 16] show ?thesis by (simp add: divide_def)
qed

lemma digits_of_small: "n < b \<Longrightarrow> digits_of b n = [n]"
  by (subst digits_of.simps) simp

lemma digits_of_step: "b \<le> n \<Longrightarrow> 1 < b \<Longrightarrow> digits_of b n = digits_of b (n div b) @ [n mod b]"
  by (subst digits_of.simps) simp

lemma digits_of_length: "n < b ^ Suc k \<Longrightarrow> 1 < b \<Longrightarrow> length (digits_of b n) \<le> Suc k"
proof (induction k arbitrary: n)
  case 0
  then show ?case by (simp add: digits_of_small)
next
  case (Suc k)
  show ?case
  proof (cases "n < b")
    case True
    then show ?thesis by (simp add: digits_of_small)
  next
    case False
    then have "n div b < b ^ Suc k" using Suc.prems by (simp add: less_mult_imp_div_less mult.commute)
    then show ?thesis using Suc.IH [of "n div b"] Suc.prems False by (simp add: digits_of_step)
  qed
qed

lemma digits_of_Cons: "digits_of b n \<noteq> []"
  by (subst digits_of.simps) simp

lemma number_digits_text:
  "num \<noteq> 0 \<Longrightarrow> length tmp + length (digits_of (used_base base) (unat num)) \<le> 16 \<Longrightarrow>
   number_digits num base digits tmp = Some (tmp @ rev (map (\<lambda>d. digits ! d) (digits_of (used_base base) (unat num))))"
proof (induction num base digits tmp rule: number_digits.induct)
  case (1 num base digits tmp)
  let ?b = "used_base base"
  let ?q = "of_nat (unat num div ?b) :: u32"
  have len: "length tmp < 16" using 1(3) digits_of_Cons [of ?b "unat num"] by (cases "digits_of ?b (unat num)") auto
  have b: "1 < ?b" by simp
  have small: "unat num div ?b < 2 ^ 32" "unat num mod ?b < 2 ^ 32"
  proof -
    have "unat num < 2 ^ 32" using unsigned_less [of num] by simp
    then show "unat num div ?b < 2 ^ 32" "unat num mod ?b < 2 ^ 32"
      using div_le_dividend [of "unat num" ?b] mod_less_eq_dividend [of "unat num" ?b] by linarith+
  qed
  have u: "unat ?q = unat num div ?b" "unat (of_nat (unat num mod ?b) :: u32) = unat num mod ?b"
    using small by (simp_all add: unsigned_of_nat take_bit_nat_eq_self)
  have step: "number_digits num base digits tmp = number_digits ?q base digits (tmp @ [digits ! (unat num mod ?b)])"
    using 1(2) len u(2) by (subst number_digits.simps) (simp add: divide_used Let_def)
  show ?case
  proof (cases "unat num < ?b")
    case True
    then have "?q = 0" by simp
    then show ?thesis using True unfolding step by (subst number_digits.simps) (simp add: digits_of_small)
  next
    case False
    then have d: "digits_of ?b (unat num) = digits_of ?b (unat num div ?b) @ [unat num mod ?b]" by (intro digits_of_step b) simp
    have "unat num div ?b \<noteq> 0" using False b by (simp add: div_eq_0_iff)
    then have "?q \<noteq> 0" using u(1) by (metis unat_0)
    then show ?thesis
      using 1(1) [OF 1(2) len refl divide_used [symmetric]] 1(3) d u unfolding step by simp
  qed
qed

lemma sint_negative: "sint (num :: u32) < 0 \<Longrightarrow> sint num = uint num - 2 ^ 32"
proof -
  assume "sint num < 0"
  then have "bit (uint num) 31" by (simp add: sint_uint)
  then show ?thesis using uint_lt2p [of num]
    by (simp add: sint_uint signed_take_bit_eq_take_bit_minus take_bit_int_eq_self)
qed

lemma magnitude_unat:
  "magnitude type num = unat (if type AND SIGN \<noteq> 0 \<and> sint num < 0 then - num else num)"
proof (cases "type AND SIGN \<noteq> 0 \<and> sint num < 0")
  case True
  then have s: "sint num = uint num - 2 ^ 32" by (blast intro: sint_negative)
  have "0 \<le> uint num" "uint num < 2 ^ 32" "uint num \<noteq> 0" using uint_lt2p [of num] s True by (auto simp: unsigned_eq_0_iff)
  then have "uint (- num) = 2 ^ 32 - uint num"
    by (simp add: uint_word_ariths(4) zmod_zminus1_eq_if)
  then have "unat (- num) = nat (2 ^ 32 - uint num)" by (simp add: unat_eq_nat_uint)
  then show ?thesis using True s by (simp add: magnitude_def)
qed (auto simp: magnitude_def)

lemma digit_text_length: "n < 2 ^ 32 \<Longrightarrow> length (digit_text large base n) \<le> 10"
  using digits_of_length [of n 10 9] digits_of_length [of n 16 7] by (auto simp: digit_text_def)

lemma number_tmp:
  "(if num = 0 then Some [48] else number_digits num base (if large then large_digits else small_digits) []) =
    Some (rev (digit_text large base (unat num)))"
proof (cases "num = 0")
  case True
  then show ?thesis by (simp add: digit_text_def digits_of_small small_digits_def large_digits_def)
next
  case False
  have "unat num < 2 ^ 32" using unsigned_less [of num] by simp
  then have "length (digits_of (used_base base) (unat num)) \<le> 16"
    using digit_text_length [of "unat num" large base] by (simp add: digit_text_def)
  then show ?thesis using False number_digits_text [of num "[]" base] by (simp add: digit_text_def rev_map)
qed

lemma no_zeropad: "(type AND NOT ZEROPAD) AND SIGN = type AND SIGN" "(type AND NOT ZEROPAD) AND PLUS = type AND PLUS"
  "(type AND NOT ZEROPAD) AND SPACE = type AND SPACE" "(type AND NOT ZEROPAD) AND LEFT = type AND LEFT"
  "(type AND NOT ZEROPAD) AND ZEROPAD = 0"
  by (simp_all add: and.assoc)

lemma both_flags: "(type :: u8) AND (ZEROPAD OR LEFT) = 0 \<longleftrightarrow> type AND ZEROPAD = 0 \<and> type AND LEFT = 0"
  unfolding bit.conj_disj_distrib by (rule or_eq_0_iff)

lemma number_sign_text:
  "number_sign type num = (case sign_text type num of [] \<Rightarrow> 0 | c # _ \<Rightarrow> c,
     if type AND SIGN \<noteq> 0 \<and> sint num < 0 then - num else num)"
  by (simp add: number_sign_def sign_text_def)

lemma put_number_layout:
  assumes s: "sg = [] \<and> sign = 0 \<or> sg = [sign] \<and> sign \<noteq> 0"
    and z: "type AND LEFT \<noteq> 0 \<longrightarrow> type AND ZEROPAD = 0" and d: "ds \<noteq> []"
  shows "put_number e sign (if type AND ZEROPAD \<noteq> 0 then 48 else 32) type sz precision (rev ds) ot = emit e (layout type sg sz precision ds) ot"
proof -
  define zp lf where "zp \<longleftrightarrow> type AND ZEROPAD \<noteq> 0" and "lf \<longleftrightarrow> type AND LEFT \<noteq> 0"
  have b: "type AND (ZEROPAD OR LEFT) = 0 \<longleftrightarrow> \<not> zp \<and> \<not> lf" unfolding both_flags zp_def lf_def by simp
  have l: "type AND LEFT = 0 \<longleftrightarrow> \<not> lf" "type AND ZEROPAD = 0 \<longleftrightarrow> \<not> zp" by (simp_all add: lf_def zp_def)
  have z: "lf \<longrightarrow> \<not> zp" using z by (simp add: l)
  have d: "0 < int (length ds)" using d by (simp only: of_nat_0_less_iff length_greater_0_conv not_False_eq_True)
  then have d: "0 < int (length ds)" "precision \<noteq> 0 \<or> precision < int (length ds)" by simp_all
  consider (none) "sg = []" "sign = 0" | (sign) "sg = [sign]" "sign \<noteq> 0" using s by blast
  then show ?thesis
  proof cases
    case none
    show ?thesis
      using z d unfolding put_number_def layout_def b l none
      by (cases lf; cases zp; cases "int (length ds) > precision"; cases "precision = 0"; simp add: Let_def algebra_simps)
  next
    case sign
    show ?thesis
      using z d sign(2) unfolding put_number_def layout_def b l sign(1)
      by (cases lf; cases zp; cases "int (length ds) > precision"; cases "precision = 0"; simp add: Let_def algebra_simps)
  qed
qed

lemma print_number_emit:
  "print_number e num base s precision type ot = Some (emit e (number_text num base s precision type) ot)"
proof -
  define ty where "ty = (if type AND LEFT \<noteq> 0 then type AND NOT ZEROPAD else type)"
  define v where "v = (if type AND SIGN \<noteq> 0 \<and> sint num < 0 then - num else num)"
  define sign where "sign = (case sign_text type num of [] \<Rightarrow> 0 | c # _ \<Rightarrow> c)"
  define ds where "ds = digit_text (type AND LARGE \<noteq> 0) base (unat v)"
  have ty: "ty AND SIGN = type AND SIGN" "ty AND PLUS = type AND PLUS" "ty AND SPACE = type AND SPACE"
    "ty AND LEFT = type AND LEFT" "ty AND LEFT \<noteq> 0 \<longrightarrow> ty AND ZEROPAD = 0"
    unfolding ty_def by (auto simp only: no_zeropad split: if_split)
  have ns: "number_sign ty num = (sign, v)"
    by (simp add: number_sign_text ty sign_text_def sign_def v_def)
  have sg: "sign_text type num = [] \<and> sign = 0 \<or> sign_text type num = [sign] \<and> sign \<noteq> 0"
    by (simp add: sign_def sign_text_def)
  have ne: "ds \<noteq> []" using digits_of_Cons by (simp add: ds_def digit_text_def)
  have "print_number e num base s precision type ot =
      Some (put_number e sign (if ty AND ZEROPAD \<noteq> 0 then 48 else 32) ty s precision (rev ds) ot)"
    unfolding print_number_def ty_def [symmetric] Let_def ns prod.case number_tmp ds_def [symmetric] by simp
  also have "\<dots> = Some (emit e (layout ty (sign_text type num) s precision ds) ot)"
    unfolding put_number_layout [OF sg ty(5) ne] ..
  also have "layout ty (sign_text type num) s precision ds = layout type (sign_text type num) s precision ds"
    unfolding layout_def ty(4) by (simp add: ty_def Let_def)
  finally show ?thesis by (simp add: number_text_def magnitude_unat ds_def v_def)
qed

text \<open>
  \<^verbatim>\<open>print_number\<close> returns, for every number, width, precision and flags, and writes the text of the number: sign, padding on the
  side the flags ask for, zeros up to the precision, digits.  It never writes outside its temporary array or behind the
  end of the buffer.
\<close>

theorem print_number_text:
  "print_number e num base s precision type ot = Some (emit e (number_text num base s precision type) ot)"
  by (rule print_number_emit)

section \<open>Reading a number back\<close>

lemma decimal_digit:
  assumes "d < 10"
  shows "is_digit (small_digits ! d)" and "uint (small_digits ! d) = 48 + int d"
proof -
  have "d \<in> {0, 1, 2, 3, 4, 5, 6, 7, 8, 9}" using assms by auto
  then show "is_digit (small_digits ! d)" "uint (small_digits ! d) = 48 + int d"
    by (auto simp: small_digits_def is_digit_def)
qed

lemma skip_atoi_digits:
  "skip_atoi (digit_text False 10 n @ rest) i = skip_atoi rest (i * 10 ^ length (digits_of 10 n) + int n)"
proof (induction n arbitrary: rest rule: less_induct)
  case (less n)
  show ?case
  proof (cases "n < 10")
    case True
    then show ?thesis using decimal_digit [OF True] by (simp add: digit_text_def digits_of_small)
  next
    case False
    have d: "n mod 10 < 10" by simp
    have "digit_text False 10 n @ rest = digit_text False 10 (n div 10) @ small_digits ! (n mod 10) # rest"
      using False by (simp add: digit_text_def digits_of_step)
    moreover have "n div 10 < n" using False by simp
    moreover have "int n = int (n div 10) * 10 + int (n mod 10)" by presburger
    ultimately show ?thesis
      using False less.IH [of "n div 10"] decimal_digit [OF d] by (simp add: digits_of_step algebra_simps)
  qed
qed

text \<open>
  A number printed in decimal without a field width or a precision is read back by \<^verbatim>\<open>skip_atoi\<close>, which reads the widths in
  formats: the characters written into a buffer with enough room are the number, for all 32-bit values.
\<close>

theorem print_number_skip_atoi:
  assumes "print_number e num 10 (-1) (-1) 0 (buf, m) = Some (str, m')" and "buf \<le> str" and "str \<le> e" and "buf + 10 < 2 ^ 32"
  shows "skip_atoi (map m' [buf..<str]) 0 = (uint num, [])"
proof -
  let ?xs = "digit_text False 10 (unat num)"
  have "number_text num 10 (-1) (-1) 0 = ?xs"
    by (simp add: number_text_def layout_def sign_text_def magnitude_def)
  then have o: "str = buf + length ?xs" "m' = (\<lambda>a. if buf \<le> a \<and> a < buf + length ?xs \<and> a < e then ?xs ! (a - buf) else m a)"
    using assms(1,4) digit_text_length [of "unat num" False 10] unsigned_less [of num, where 'a = nat] by (auto simp: print_number_emit emit_room)
  have "map m' [buf..<str] = ?xs"
    by (rule nth_equalityI) (use assms(3) in \<open>simp_all add: o\<close>)
  then show ?thesis using skip_atoi_digits [of "unat num" "[]" 0] by simp
qed

theorem print_number_skip_atoi_witness:
  "skip_atoi (map (snd (emit 100 (number_text 4096 10 (-1) (-1) 0) (8, \<lambda>_. 0))) [8..<12]) 0 = (4096, [])"
proof -
  have "length (number_text 4096 10 (-1) (-1) 0) = 4"
    by (simp add: number_text_def layout_def sign_text_def magnitude_def digit_text_def digits_of_step digits_of_small)
  then show ?thesis
    using print_number_skip_atoi [of 100 4096 8 "\<lambda>_. 0" 12 "snd (emit 100 (number_text 4096 10 (-1) (-1) 0) (8, \<lambda>_. 0))"]
    by (simp add: print_number_emit emit_room)
qed

section \<open>The whole output\<close>

text \<open>
  The text of a format with its arguments, conversion by conversion and without a buffer.  A string is cut off at its precision, and
  at its width too.
\<close>

definition char_text :: "u8 \<Rightarrow> int \<Rightarrow> u8 \<Rightarrow> u8 list" where
  "char_text flags w c = (let gap = replicate (nat (w - 1)) 32 in if flags AND LEFT = 0 then gap @ [c] else c # gap)"

definition string_text :: "u8 \<Rightarrow> int \<Rightarrow> int \<Rightarrow> u8 list \<Rightarrow> u8 list" where
  "string_text flags w precision s =
     (let s = (if 0 \<le> w then take (nat w) s else s);
          s = (if 0 < precision then take (nat precision) s else s);
          gap = replicate (nat (w - int (length s))) 32
      in if flags AND LEFT = 0 then gap @ s else s @ gap)"

definition int_text :: "nat \<Rightarrow> u8 \<Rightarrow> u8 \<Rightarrow> int \<Rightarrow> int \<Rightarrow> varg list \<Rightarrow> (varg list \<times> u8 list) option" where
  "int_text base qualifier flags w precision args =
     map_option (\<lambda>(v, args). (args, number_text (int_arg qualifier flags v) base w precision flags)) (next_int args)"

definition convert_text :: "u8 list \<Rightarrow> u8 \<Rightarrow> u8 \<Rightarrow> int \<Rightarrow> int \<Rightarrow> varg list \<Rightarrow> (u8 list \<times> varg list \<times> u8 list) option" where
  "convert_text fmt qualifier flags w precision args =
     (case fmt of
        [] \<Rightarrow> Some ([], args, [37])
      | c # fmt \<Rightarrow> map_option (Pair fmt)
          (if c = of_char (CHR ''c'') then map_option (\<lambda>(v, args). (args, char_text flags w (ucast v))) (next_int args)
           else if c = of_char (CHR ''s'')
           then map_option (\<lambda>(p, args). (args, string_text flags w precision (case p of None \<Rightarrow> map of_char ''(NULL)'' | Some s \<Rightarrow> s))) (next_str args)
           else if c = of_char (CHR ''p'')
           then map_option (\<lambda>(v, args). (args, number_text v 16 (if w = -1 then 8 else w) precision (if w = -1 then flags OR ZEROPAD else flags))) (next_ptr args)
           else if c = 37 then Some (args, [37])
           else if c = of_char (CHR ''o'') then int_text 8 qualifier flags w precision args
           else if c = of_char (CHR ''X'') then int_text 16 qualifier (flags OR LARGE) w precision args
           else if c = of_char (CHR ''x'') then int_text 16 qualifier flags w precision args
           else if c = of_char (CHR ''d'') \<or> c = of_char (CHR ''i'') then int_text 10 qualifier (flags OR SIGN) w precision args
           else if c = of_char (CHR ''u'') then int_text 10 qualifier flags w precision args
           else Some (args, [37, c])))"

definition conversion_text :: "u8 list \<Rightarrow> varg list \<Rightarrow> (u8 list \<times> varg list \<times> u8 list) option" where
  "conversion_text fmt args = do {
     let (flags, fmt) = format_flags fmt 0;
     (w, flags, fmt, args) \<leftarrow> field_width fmt flags args;
     (precision, fmt, args) \<leftarrow> get_precision fmt args;
     let (qualifier, fmt) =
       (case fmt of [] \<Rightarrow> (0, []) | c # s \<Rightarrow> if c = of_char (CHR ''h'') \<or> c = of_char (CHR ''l'') then (c, s) else (0, fmt));
     convert_text fmt qualifier flags w precision args
   }"

abbreviation emitted :: "nat \<Rightarrow> out \<Rightarrow> 'b \<times> 'c \<times> u8 list \<Rightarrow> 'b \<times> 'c \<times> out" where
  "emitted e ot \<equiv> \<lambda>(b, c, xs). (b, c, emit e xs ot)"

lemma field_len_min: "field_len w s len = (if len \<le> w then min w (len + int (length s)) else len + int (length s))"
  by (induction w s len rule: field_len.induct) auto

lemma convert_char_emit: "convert_char e flags w args ot = map_option (\<lambda>(v, args). (args, emit e (char_text flags w (ucast v)) ot)) (next_int args)"
  by (cases "next_int args"; cases "flags AND LEFT = 0") (auto simp: convert_char_def pad_pre_def char_text_def Let_def)

lemma string_text_len: "string_text flags w precision s =
    (let len = field_len w s 0; len = (if precision > 0 \<and> len > precision then precision else len);
         t = take (nat len) s; gap = replicate (nat (w - len)) 32
     in if flags AND LEFT = 0 then gap @ t else t @ gap)"
proof -
  define len where "len = (let len = field_len w s 0 in if precision > 0 \<and> len > precision then precision else len)"
  have t: "(let s = (if 0 \<le> w then take (nat w) s else s) in if 0 < precision then take (nat precision) s else s) = take (nat len) s"
    by (auto simp: len_def field_len_min Let_def min_def) (metis linorder_not_less nat_le_eq_zle order_antisym order_less_imp_le)
  have l: "int (length (take (nat len) s)) = len" by (auto simp: len_def field_len_min Let_def min_def)
  show ?thesis
    unfolding string_text_def Let_def t [unfolded Let_def] l len_def [unfolded Let_def, symmetric] ..
qed

lemma convert_string_emit: "convert_string e flags w precision args ot =
    map_option (\<lambda>(p, args). (args, emit e (string_text flags w precision (case p of None \<Rightarrow> map of_char ''(NULL)'' | Some s \<Rightarrow> s)) ot)) (next_str args)"
  by (cases "next_str args"; cases "flags AND LEFT = 0") (auto simp: convert_string_def string_text_len pad_to_def Let_def)

lemma convert_int_emit: "convert_int e base q flags w precision args ot = map_option (\<lambda>(args, xs). (args, emit e xs ot)) (int_text base q flags w precision args)"
  by (cases "next_int args") (auto simp: convert_int_def int_text_def print_number_emit)

lemma convert_emit: "convert e fmt q flags w precision args ot = map_option (emitted e ot) (convert_text fmt q flags w precision args)"
proof (cases fmt)
  case (Cons c fmt')
  show ?thesis
    unfolding convert_def convert_text_def Cons list.case convert_char_emit convert_string_emit convert_int_emit
    by (cases "next_int args"; cases "next_str args"; cases "next_ptr args")
      (simp_all add: option.map_comp comp_def case_prod_unfold print_number_emit if_distrib [of "map_option f" for f] cong: if_cong)
qed (simp add: convert_def convert_text_def)

lemma conversion_emit: "conversion e fmt args ot = map_option (emitted e ot) (conversion_text fmt args)"
proof -
  obtain flags fmt1 where f: "format_flags fmt 0 = (flags, fmt1)" by fastforce
  show ?thesis
  proof (cases "field_width fmt1 flags args")
    case (Some r)
    obtain w flags2 fmt2 args2 where r: "field_width fmt1 flags args = Some (w, flags2, fmt2, args2)" using Some by (cases r) auto
    show ?thesis
    proof (cases "get_precision fmt2 args2")
      case (Some r2)
      obtain p fmt3 args3 where "get_precision fmt2 args2 = Some (p, fmt3, args3)" using Some by (cases r2) auto
      then show ?thesis by (simp add: conversion_def conversion_text_def f r Let_def case_prod_beta' convert_emit)
    qed (simp add: conversion_def conversion_text_def f r)
  qed (simp add: conversion_def conversion_text_def f)
qed

lemma conversion_text_length: "conversion_text fmt args = Some (fmt', args', xs) \<Longrightarrow> length fmt' \<le> length fmt"
  using conversion_length [of 0 fmt args "(0, \<lambda>_. 0)"] by (simp add: conversion_emit)

function format_text :: "u8 list \<Rightarrow> varg list \<Rightarrow> u8 list option" where
  "format_text [] args = Some []"
| "format_text (c # fmt) args =
     (if c \<noteq> 37 then map_option (Cons c) (format_text fmt args)
      else Option.bind (conversion_text fmt args) (\<lambda>(fmt, args, xs). map_option (append xs) (format_text fmt args)))"
  by pat_completeness auto
termination
  by (relation "measure (\<lambda>(fmt, args). length fmt)") (auto dest: conversion_text_length simp: less_Suc_eq_le)

lemma format_loop_text: "format_loop e fmt args ot = map_option (\<lambda>xs. emit e xs ot) (format_text fmt args)"
proof (induction e fmt args ot rule: format_loop.induct)
  case (2 e c fmt args ot)
  show ?case
  proof (cases "c = 37")
    case True
    show ?thesis
    proof (cases "conversion_text fmt args")
      case None
      then show ?thesis using True by (simp add: conversion_emit)
    next
      case (Some r)
      obtain f a xs where r: "r = (f, a, xs)" by (cases r)
      have c: "conversion e fmt args ot = Some (f, a, emit e xs ot)" by (simp add: conversion_emit Some r)
      have "format_loop e f a (emit e xs ot) = map_option (\<lambda>ys. emit e ys (emit e xs ot)) (format_text f a)"
        using 2(2) [of "(f, a, emit e xs ot)" f "(a, emit e xs ot)" a "emit e xs ot"] True c by simp
      then show ?thesis using True by (simp add: c Some r option.map_comp comp_def)
    qed
  next
    case False
    then show ?thesis using 2(1) by (simp add: option.map_comp comp_def)
  qed
qed simp

text \<open>The memory after a call: as much of the output as there is room for, a final 0, and nothing else.\<close>

definition image :: "nat \<Rightarrow> nat \<Rightarrow> u8 list \<Rightarrow> memory \<Rightarrow> memory" where
  "image buf sz xs m = (let n = min (length xs) (sz - 1) in
     (\<lambda>a. if sz = 0 then m a else if buf \<le> a \<and> a < buf + n then xs ! (a - buf) else if a = buf + n then 0 else m a))"

lemma vsnprintf_none: "format_text fmt args = None \<Longrightarrow> rt_vsnprintf buf sz fmt args m = None"
  by (simp add: rt_vsnprintf_def format_loop_text Let_def)

lemma vsnprintf_image:
  assumes "format_text fmt args = Some xs" and "buf < 2 ^ 32" and "sz < 2 ^ 32" and "length xs < 2 ^ 31" and "buf + length xs < 2 ^ 32"
  shows "rt_vsnprintf buf sz fmt args m = Some (int (length xs), image buf (min sz (2 ^ 32 - 1 - buf)) xs m)"
proof -
  have l: "format_loop e fmt args (buf, m) = Some (buf + length xs, (\<lambda>a. if buf \<le> a \<and> a < buf + length xs \<and> a < e then xs ! (a - buf) else m a))" for e
    using assms(1,2,5) by (simp add: format_loop_text emit_room)
  have "sint (of_int (int (length xs)) :: u32) = int (length xs)"
    using assms(4) by (simp only: signed_of_int len_bit0 len_num1) (simp add: signed_take_bit_int_eq_self)
  then have r: "sint (of_int (int (buf + length xs) - int buf) :: u32) = int (length xs)" by simp
  define e where "e = (if (buf + sz) mod 2 ^ 32 < buf then 2 ^ 32 - 1 else (buf + sz) mod 2 ^ 32)"
  define z where "z = min sz (2 ^ 32 - 1 - buf)"
  have ez: "e = buf + z" "(if (buf + sz) mod 2 ^ 32 < buf then (2 ^ 32 - 1, 2 ^ 32 - 1 - buf) else ((buf + sz) mod 2 ^ 32, sz)) = (e, z)"
  proof -
    have "(buf + sz) mod 2 ^ 32 = (if buf + sz < 2 ^ 32 then buf + sz else buf + sz - 2 ^ 32)"
      using assms(2,3) by (auto simp: mod_if)
    then show "e = buf + z" "(if (buf + sz) mod 2 ^ 32 < buf then (2 ^ 32 - 1, 2 ^ 32 - 1 - buf) else ((buf + sz) mod 2 ^ 32, sz)) = (e, z)"
      using assms(2,3) by (auto simp: e_def z_def min_def)
  qed
  show ?thesis
    unfolding rt_vsnprintf_def Let_def ez(2) prod.case l Option.bind.bind_lunit r z_def [symmetric]
    by (auto simp: ez(1) image_def Let_def fun_eq_iff min_def)
qed

text \<open>
  C40. \<^verbatim>\<open>rt_vsnprintf\<close> and the room it has: for every buffer and every memory it returns the length of the whole text of the format,
  and leaves in the memory as much of that text as fits, a final 0, and no other change; with no room at all it changes
  nothing.  The room is the size given, or what is left below the last address.  The text must be shorter than \<open>2 ^ 31\<close> and
  end below \<open>2 ^ 32\<close> when it is written at the buffer: the pointer of a longer one wraps around (\<open>emit_wraps\<close>).
\<close>

theorem rt_vsnprintf_bounded:
  assumes "format_text fmt args = Some xs" and "buf < 2 ^ 32" and "sz < 2 ^ 32" and "length xs < 2 ^ 31" and "buf + length xs < 2 ^ 32"
  shows "rt_vsnprintf buf sz fmt args m = Some (int (length xs), let room = min sz (2 ^ 32 - 1 - buf); n = min (length xs) (room - 1) in
    (\<lambda>a. if room = 0 then m a else if buf \<le> a \<and> a < buf + n then xs ! (a - buf) else if a = buf + n then 0 else m a))"
  using vsnprintf_image [OF assms] unfolding image_def Let_def .

text \<open>A format for which the witnesses are evaluated: \<^verbatim>\<open>"a%4d"\<close> for -5.\<close>

lemma sample_format: "format_text [97, 37, 52, 100] [VInt (-5)] = Some [97, 32, 32, 45, 53]"
proof -
  have "number_text (-5) 10 4 (-1) SIGN = [32, 32, 45, 53]"
    by (simp add: number_text_def layout_def sign_text_def magnitude_def digit_text_def digits_of_small small_digits_def numeral_2_eq_2 Let_def)
  then have "conversion_text [52, 100] [VInt (-5)] = Some ([], [], [32, 32, 45, 53])"
    by (simp add: conversion_text_def field_width_def is_digit_def get_precision_def convert_text_def int_text_def int_arg_def)
  then show ?thesis by simp
qed

theorem rt_vsnprintf_bounded_witness:
  "\<forall>m. \<exists>m'. rt_vsnprintf 100 3 [97, 37, 52, 100] [VInt (-5)] m = Some (5, m') \<and> m' 100 = 97 \<and> m' 101 = 32 \<and> m' 102 = 0 \<and> m' 103 = m 103"
  using rt_vsnprintf_bounded [OF sample_format, of 100 3] by (simp add: Let_def)

section \<open>The console\<close>

text \<open>
  \<^verbatim>\<open>rt_kprintf\<close>: the device gets the whole text when it has at most 126 characters.  A longer text is cut off there, and
  the final 0 of the buffer goes to the device as a 127th character.
\<close>

theorem rt_kprintf_output:
  assumes "format_text fmt args = Some xs" and "log_buf + 128 \<le> 2 ^ 32" and "length xs < 2 ^ 31" and "log_buf + length xs < 2 ^ 32"
  shows "returns (rt_kprintf log_buf fmt args m) (\<lambda>(ys, m').
    ys = (if length xs \<le> 126 then xs else take 126 xs @ [0]) \<and> (\<forall>a. a < log_buf \<or> log_buf + 127 \<le> a \<longrightarrow> m' a = m a))"
proof -
  have room: "min 127 (2 ^ 32 - 1 - log_buf) = 127" using assms(2) by simp
  have u: "unat (of_int (int (length xs)) :: u32) = length xs" using assms(3) by (simp add: unat_of_nat)
  have k: "rt_kprintf log_buf fmt args m = Some (map (\<lambda>i. image log_buf 127 xs m (log_buf + i)) [0..<min (length xs) 127], image log_buf 127 xs m)"
    using vsnprintf_image [OF assms(1), of log_buf 127 m] assms(2-4) u unfolding room by (simp add: rt_kprintf_def Let_def min_def)
  have "map (\<lambda>i. image log_buf 127 xs m (log_buf + i)) [0..<min (length xs) 127] = (if length xs \<le> 126 then xs else take 126 xs @ [0])"
    by (rule nth_equalityI) (auto simp: image_def Let_def nth_append min_def split: if_splits)
  then show ?thesis unfolding k by (auto simp: image_def Let_def)
qed

theorem rt_kprintf_output_witness:
  "returns (rt_kprintf 0x20000000 [97, 37, 52, 100] [VInt (-5)] (\<lambda>_. 0)) (\<lambda>(ys, m'). length ys = 5)"
  using rt_kprintf_output [OF sample_format, where log_buf = "0x20000000" and m = "\<lambda>_. 0"]
  by (auto elim!: returns_mono split: prod.splits)

section \<open>Formats on which the code does not do what its comments say\<close>

text \<open>Octal is printed in base 16; a precision of 0 suppresses every number; a field width cuts a string off.\<close>

lemma octal_is_hexadecimal: "number_text num 8 s precision type = number_text num 16 s precision type"
  by (simp add: number_text_def digit_text_def)

lemma precision_0_prints_nothing: "number_text num base (-1) 0 0 = []"
  by (simp add: number_text_def layout_def sign_text_def)

text \<open>
  The conversion \<^verbatim>\<open>%<w>s\<close> of a string longer than its field width writes the first \<open>w\<close> characters only, where a width in C is a
  minimum.
\<close>

theorem convert_string_cut:
  assumes "0 \<le> w" and "w < int (length s)"
  shows "convert_string e flags w (-1) (VStr (Some s) # args) ot = Some (args, emit e (take (nat w) s) ot)"
  using assms by (cases "flags AND LEFT = 0") (simp_all add: convert_string_def field_len_min pad_to_def Let_def)

theorem convert_string_cut_witness:
  "convert_string 200 0 3 (-1) [VStr (Some [104, 101, 108, 108, 111])] (100, \<lambda>_. 0) = Some ([], emit 200 [104, 101, 108] (100, \<lambda>_. 0))"
  using convert_string_cut [of 3 "[104, 101, 108, 108, 111]" 200 0 "[]" "(100, \<lambda>_. 0)"] by (simp add: numeral_3_eq_3)

end
