(* ===== verification/Realloc.thy ===== *)
theory Realloc
  imports Heap KMemory
begin

text \<open>
  \<^verbatim>\<open>rt_realloc\<close> (\<^verbatim>\<open>mem.c\<close>), which copies the contents of a block that moves, and the aligned allocation of \<^verbatim>\<open>kservice.c\<close>,
  which keeps the address of the block in front of the aligned one, with their correctness.  Beside the heap (the block
  headers) they work on the byte memory, which holds the contents of the blocks.
\<close>

section \<open>The routine\<close>

definition rt_realloc :: "nat option \<Rightarrow> u32 \<Rightarrow> u8 \<Rightarrow> rt_heap \<Rightarrow> memory \<Rightarrow> (nat option \<times> rt_heap \<times> memory) option" where
  "rt_realloc rmem newsz0 irq_nest h m = do {
     rt_assert (irq_nest = 0);
     newsz \<leftarrow> Some (unat (rt_align newsz0));
     if newsz > hp_size_aligned h then Some (None, h, m)
     else if newsz = 0 then do {
       h \<leftarrow> rt_free rmem irq_nest h;
       Some (None, h, m)
     }
     else (case rmem of
       None \<Rightarrow> do {
         (p, h) \<leftarrow> rt_malloc (rt_align newsz0) irq_nest h;
         Some (p, h, m)
       }
     | Some r \<Rightarrow>
         if r < hp_ptr h \<or> hp_ptr h + hp_end h \<le> r then Some (Some r, h, m)
         else do {
           rt_assert (hp_ptr h + SIZEOF_STRUCT_MEM \<le> r);
           ptr \<leftarrow> Some (r - SIZEOF_STRUCT_MEM - hp_ptr h);
           mem \<leftarrow> hp_items h ptr;
           sz \<leftarrow> Some (sub32 (hm_next mem) (ptr + SIZEOF_STRUCT_MEM));
           if sz = newsz then Some (Some r, h, m)
           else if newsz + SIZEOF_STRUCT_MEM + 12 < sz then do {
             h \<leftarrow> realloc_split ptr sz newsz mem h;
             Some (Some r, h, m)
           }
           else do {
             (nmem, h) \<leftarrow> rt_malloc (rt_align newsz0) irq_nest h;
             case nmem of
               None \<Rightarrow> Some (None, h, m)
             | Some a \<Rightarrow> do {
                 m \<leftarrow> Some (rt_memcpy a r (if sz < newsz then sz else newsz) m);
                 h \<leftarrow> rt_free (Some r) irq_nest h;
                 Some (Some a, h, m)
               }
           }
         })
   }"

section \<open>Shrinking a block in place\<close>

lemma first_free_cut:
  assumes "tiles 0 (as @ (p, n, True) # cs) e" and "p < q" and "q < n"
  shows "(let lf = first_free e (as @ (p, n, True) # cs) in if q < lf then q else lf) =
    first_free e (as @ (p, q, True) # (q, n, False) # cs)"
proof (cases "\<exists>q m. (q, m, False) \<in> set as")
  case True
  have t: "tiles 0 (as @ (p, n, False) # cs) e" using assms(1) by (auto simp: tiles_append)
  have "first_free e as < p" using first_free_le(2) [OF t True] True by (simp add: first_free_append)
  then show ?thesis using True assms(2) by (auto simp: first_free_append)
next
  case False
  have "tiles n cs e" using assms(1) by (auto simp: tiles_append)
  then have "q < first_free e cs" using tiles_first_free [of n cs e] assms(3) by simp
  then show ?thesis using False by (simp add: first_free_append)
qed

lemma realloc_split_returns:
  assumes h: "heap_rep h (as @ (p, n, True) # cs)" and m: "hp_items h p = Some mem"
    and s: "4 dvd s" "MIN_SIZE_ALIGNED \<le> s" "p + 12 + s + 24 \<le> n"
  shows "returns (realloc_split p (n - (p + 12)) s mem h) (\<lambda>h'. \<exists>bs. heap_rep h' bs \<and> hp_ptr h' = hp_ptr h \<and> hp_end h' = hp_end h \<and>
    allocated bs = insert (p, p + 12 + s) (allocated (as @ (p, n, True) # cs) - {(p, n)}))"
proof -
  define q where "q = p + 12 + s"
  note r = heap_repD [OF h]
  note d = heap_list_split [OF r(1)]
  have t: "tiles 0 (as @ (p, n, True) # cs) (hp_end h)" and me: "\<exists>m. hp_items h (hp_end h) = Some m \<and> hm_used m = 1"
    and lf: "hp_lfree h = first_free (hp_end h) (as @ (p, n, True) # cs)"
    using r(1) by (simp_all add: heap_list_def)
  have p4: "4 dvd p" "4 dvd n" using tiles_dvd [OF t, of p n True] tiles_in [OF t, of p n True] by simp_all
  have q: "p < q" "q < n" "q + 24 \<le> n" "4 dvd q" using s p4 by (auto simp: q_def)
  have mem: "mem = \<lparr>hm_magic = HEAP_MAGIC, hm_used = 1, hm_next = n, hm_prev = last_start 0 as\<rparr>" using d(7) m by simp
  obtain x where x: "cs \<noteq> [] \<Longrightarrow> hp_items h n = Some x" "cs = [] \<longleftrightarrow> n = hp_end h"
    using heap_list_next [OF r(1)] by (metis neq_Nil_conv)
  let ?J = "(hp_items h)(q \<mapsto> \<lparr>hm_magic = HEAP_MAGIC, hm_used = 0, hm_next = n, hm_prev = p\<rparr>,
      p \<mapsto> \<lparr>hm_magic = HEAP_MAGIC, hm_used = 1, hm_next = q, hm_prev = last_start 0 as\<rparr>)"
  let ?K = "if cs = [] then ?J else ?J(n \<mapsto> x\<lparr>hm_prev := q\<rparr>)"
  let ?bs = "as @ (p, q, True) # (q, n, False) # cs"
  define h2 where "h2 = h\<lparr>hp_used_mem := hp_used_mem h - (n - q), hp_items := ?K, hp_lfree := first_free (hp_end h) ?bs\<rparr>"
  have e: "realloc_split p (n - (p + 12)) s mem h = plug_holes q h2"
  proof -
    define h5 where "h5 = h\<lparr>hp_used_mem := hp_used_mem h - (n - q), hp_items := ?K\<rparr>"
    have u: "n - (p + 12) - s = n - q" using q_def by simp
    have "realloc_split p (n - (p + 12)) s mem h = plug_holes q (if q < hp_lfree h5 then h5\<lparr>hp_lfree := q\<rparr> else h5)"
    proof (cases "cs = []")
      case True
      then show ?thesis
        using q d(2,7) x(2) r(3) unfolding realloc_split_def mem heap_mem.select_convs u q_def [symmetric]
        by (simp add: set_item_def h5_def fun_upd_twist)
    next
      case False
      then show ?thesis
        using q d(2,7) x r(3) unfolding realloc_split_def mem heap_mem.select_convs u q_def [symmetric]
        by (simp add: set_item_def h5_def fun_upd_twist)
    qed
    also have "(if q < hp_lfree h5 then h5\<lparr>hp_lfree := q\<rparr> else h5) = h5\<lparr>hp_lfree := if q < hp_lfree h5 then q else hp_lfree h5\<rparr>"
      by simp
    also have "(if q < hp_lfree h5 then q else hp_lfree h5) = first_free (hp_end h) ?bs"
    proof -
      have l: "hp_lfree h5 = first_free (hp_end h) (as @ (p, n, True) # cs)" by (simp add: h5_def lf)
      show ?thesis using first_free_cut [OF t q(1,2)] unfolding Let_def l .
    qed
    finally show ?thesis by (simp add: h2_def h5_def)
  qed
  have "rep ?K 0 ?bs" by (rule rep_cut [OF d(8,9) t q(1,2)]) (use x in simp)
  moreover have "tiles 0 ?bs (hp_end h)" using t q s p4 by (auto simp: tiles_append q_def)
  moreover have "\<exists>m. ?K (hp_end h) = Some m \<and> hm_used m = 1" using me d(2,3) q x by auto
  ultimately have l2: "heap_list h2 ((as @ [(p, q, True)]) @ (q, n, False) # cs)" by (simp add: heap_list_def h2_def)
  have g: "gaps_joined (as @ [(p, q, True)])" "gaps_joined cs" using gaps_joined_around [OF r(2)] by (simp_all add: gaps_joined_used)
  have ub: "hp_used_mem h2 = used_bytes (as @ [(p, q, True)]) + used_bytes cs" "hp_used_mem h2 \<le> hp_max_mem h2"
    using r(6,7) q by (simp_all add: h2_def)
  show ?thesis
    unfolding e
  proof (rule returns_mono [OF plug_holes_joins [OF l2 g]], elim exE conjE)
    fix h' bs assume a: "heap_list h' bs" "heap_same h2 h'" "gaps_joined bs"
      "allocated bs = allocated (as @ [(p, q, True)]) \<union> allocated cs" "used_bytes bs = used_bytes (as @ [(p, q, True)]) + used_bytes cs"
    have "heap_rep h' bs"
      by (rule heap_repI [OF a(1,3) h]) (use a(2,5) ub in \<open>simp_all add: heap_same_def, simp_all add: h2_def\<close>)
    moreover have "allocated bs = insert (p, q) (allocated (as @ (p, n, True) # cs) - {(p, n)})"
      unfolding allocated_remove [OF r(1), symmetric] using a(4) by auto
    ultimately show "\<exists>bs. heap_rep h' bs \<and> hp_ptr h' = hp_ptr h \<and> hp_end h' = hp_end h \<and>
      allocated bs = insert (p, p + 12 + s) (allocated (as @ (p, n, True) # cs) - {(p, n)})"
      using a(2) by (intro exI [of _ bs]) (simp add: q_def heap_same_def h2_def)
  qed
qed

section \<open>What rt_realloc promises\<close>

lemma rt_realloc_unfold:
  assumes h: "heap_rep h (as @ (p, n, True) # cs)" and i: "hp_items h p = Some mem"
    and s: "s = unat (rt_align newsz)" "0 < s" "s \<le> hp_size_aligned h" and z: "sz = n - (p + 12)"
  shows "rt_realloc (Some (hp_ptr h + p + SIZEOF_STRUCT_MEM)) newsz 0 h m =
    (if sz = s then Some (Some (hp_ptr h + p + SIZEOF_STRUCT_MEM), h, m)
     else if s + 12 + 12 < sz then
       Option.bind (realloc_split p sz s mem h) (\<lambda>h'. Some (Some (hp_ptr h + p + SIZEOF_STRUCT_MEM), h', m))
     else Option.bind (rt_malloc (rt_align newsz) 0 h) (\<lambda>(r, h1). case r of
         None \<Rightarrow> Some (None, h1, m)
       | Some a \<Rightarrow> Option.bind (rt_free (Some (hp_ptr h + p + SIZEOF_STRUCT_MEM)) 0 h1)
           (\<lambda>h2. Some (Some a, h2, rt_memcpy a (hp_ptr h + p + SIZEOF_STRUCT_MEM) (if sz < s then sz else s) m))))"
proof -
  note r = heap_repD [OF h]
  note d = heap_list_split [OF r(1)]
  have sub: "sub32 (hm_next mem) (p + 12) = sz" using d(2,3,7) r(5) i z by (simp add: sub32_le)
  have w: "\<not> (hp_ptr h + p + 12 < hp_ptr h \<or> hp_ptr h + hp_end h \<le> hp_ptr h + p + 12)" "hp_ptr h + 12 \<le> hp_ptr h + p + 12"
    "hp_ptr h + p + 12 - 12 - hp_ptr h = p" "\<not> hp_size_aligned h < s" "s \<noteq> 0" "\<not> hp_end h \<le> p + 12" using d(2,3) s by simp_all
  show ?thesis
    unfolding rt_realloc_def s(1) [symmetric] by (simp add: w i sub cong: option.case_cong)
qed

text \<open>No free block is large enough for a request, as \<open>rt_malloc_correct\<close> puts it.\<close>

definition no_fit :: "u32 \<Rightarrow> rt_heap \<Rightarrow> blk list \<Rightarrow> bool" where
  "no_fit sz h bs \<longleftrightarrow> (\<forall>p n. (p, n, False) \<in> set bs \<longrightarrow> p + request sz < hp_size_aligned h \<longrightarrow> n < p + SIZEOF_STRUCT_MEM + request sz)"

lemma no_fitI:
  assumes "tiles 0 bs e"
    and "(if unat (rt_align sz) \<le> hp_size_aligned h then first_fit (hp_size_aligned h - request sz) (request sz) bs else None) = None"
  shows "no_fit sz h bs"
  unfolding no_fit_def using first_fit_None [OF _ assms(1)] assms(2) by (force simp: request_def split: if_splits)

lemma request_aligned: "request (rt_align w) = request w"
proof -
  have "4 dvd unat (rt_align w)" "unat (rt_align w) < 2 ^ 32" using rt_align_dvd unsigned_less [of "rt_align w"] by simp_all
  then have b: "unat (rt_align w) \<le> 2 ^ 32 - 4" by (auto elim!: dvdE)
  from rt_align_ge [OF this] have "unat (rt_align (rt_align w)) = unat (rt_align w)"
    using rt_align_dvd [of w] rt_align_dvd [of "rt_align w"] by presburger
  then show ?thesis by (simp add: request_def)
qed

text \<open>The promise, as a predicate on the result: what the cases of \<^verbatim>\<open>rt_realloc\<close> are shown to establish.\<close>

definition realloc_spec :: "rt_heap \<Rightarrow> memory \<Rightarrow> blk list \<Rightarrow> nat \<Rightarrow> nat \<Rightarrow> u32 \<Rightarrow> nat option \<Rightarrow> rt_heap \<Rightarrow> memory \<Rightarrow> bool" where
  "realloc_spec h m bs p n newsz r h' m' \<longleftrightarrow> (case r of
      None \<Rightarrow> h' = h \<and> m' = m \<and> no_fit newsz h bs
    | Some b \<Rightarrow> \<exists>q k bs'. b = hp_ptr h + q + SIZEOF_STRUCT_MEM \<and> heap_rep h' bs' \<and> hp_ptr h' = hp_ptr h \<and>
        allocated bs' = insert (q, k) (allocated bs - {(p, n)}) \<and> q + SIZEOF_STRUCT_MEM + unat newsz \<le> k \<and>
        (\<forall>i < min (n - p - SIZEOF_STRUCT_MEM) (unat newsz). m' (b + i) = m (hp_ptr h + p + SIZEOF_STRUCT_MEM + i)) \<and>
        (\<forall>a. a < b \<or> hp_ptr h + k \<le> a \<longrightarrow> m' a = m a))"

lemma realloc_spec_stays:
  assumes "heap_rep h' bs'" and "hp_ptr h' = hp_ptr h" and "allocated bs' = insert (p, k) (allocated bs - {(p, n)})"
    and "p + SIZEOF_STRUCT_MEM + unat newsz \<le> k"
  shows "realloc_spec h m bs p n newsz (Some (hp_ptr h + p + SIZEOF_STRUCT_MEM)) h' m"
  unfolding realloc_spec_def option.case using assms by (intro exI [of _ p] exI [of _ k] exI [of _ bs']) simp

lemma realloc_split_spec:
  assumes h: "heap_rep h (as @ (p, n, True) # cs)" and i: "hp_items h p = Some mem" and z: "sz = n - (p + 12)"
    and s: "4 dvd s" "12 \<le> s" "s + 12 + 12 < sz" "unat newsz \<le> s"
  shows "returns (Option.bind (realloc_split p sz s mem h) (\<lambda>h'. Some (Some (hp_ptr h + p + SIZEOF_STRUCT_MEM), h', m)))
    (\<lambda>(r, h', m'). realloc_spec h m (as @ (p, n, True) # cs) p n newsz r h' m')"
proof -
  have r: "p + 12 + s + 24 \<le> n" using s(3) z by simp
  show ?thesis
    unfolding z
  proof (rule returns_bindI [OF realloc_split_returns [OF h i s(1,2) r]], elim exE conjE)
    fix h' bs' assume r: "heap_rep h' bs'" "hp_ptr h' = hp_ptr h" "allocated bs' = insert (p, p + 12 + s) (allocated (as @ (p, n, True) # cs) - {(p, n)})"
    then have "realloc_spec h m (as @ (p, n, True) # cs) p n newsz (Some (hp_ptr h + p + SIZEOF_STRUCT_MEM)) h' m"
      by (rule realloc_spec_stays) (use s(4) in simp)
    then show "returns (Some (Some (hp_ptr h + p + SIZEOF_STRUCT_MEM), h', m))
      (\<lambda>(r, h', m'). realloc_spec h m (as @ (p, n, True) # cs) p n newsz r h' m')" by simp
  qed
qed

text \<open>The copy into a new block, which does not overlap the old one.\<close>

lemma contents_moved:
  fixes m :: memory and B :: nat
  assumes "tiles 0 bs e" and "(p, n) \<in> allocated bs" and "(q, k) \<in> allocated bs" and "(p, n) \<noteq> (q, k)"
    and "c = min (n - p - SIZEOF_STRUCT_MEM) s" and "q + SIZEOF_STRUCT_MEM + s \<le> k" and "z \<le> s"
  defines "m' \<equiv> rt_memcpy (B + q + SIZEOF_STRUCT_MEM) (B + p + SIZEOF_STRUCT_MEM) c m"
  shows "\<forall>i < min (n - p - SIZEOF_STRUCT_MEM) z. m' (B + q + SIZEOF_STRUCT_MEM + i) = m (B + p + SIZEOF_STRUCT_MEM + i)"
    and "\<forall>a. a < B + q + SIZEOF_STRUCT_MEM \<or> B + k \<le> a \<longrightarrow> m' a = m a"
proof -
  have "n \<le> q \<or> k \<le> p" by (rule allocated_disjoint [OF assms(1-4)])
  moreover have "p + SIZEOF_STRUCT_MEM \<le> n" using tiles_in [OF assms(1), of p n True] assms(2) by (auto simp: allocated_def)
  ultimately have o: "B + q + SIZEOF_STRUCT_MEM \<le> B + p + SIZEOF_STRUCT_MEM \<or> B + p + SIZEOF_STRUCT_MEM + c \<le> B + q + SIZEOF_STRUCT_MEM"
    using assms(5,6) by auto
  show "\<forall>i < min (n - p - SIZEOF_STRUCT_MEM) z. m' (B + q + SIZEOF_STRUCT_MEM + i) = m (B + p + SIZEOF_STRUCT_MEM + i)"
    and "\<forall>a. a < B + q + SIZEOF_STRUCT_MEM \<or> B + k \<le> a \<longrightarrow> m' a = m a"
    unfolding m'_def rt_memcpy_equiv [OF o] using assms(5-7) by auto
qed

lemma realloc_move_spec:
  assumes h: "heap_rep h bs" and a: "(p, n) \<in> allocated bs" and z0: "rt_align newsz \<noteq> 0"
    and s: "s = unat (rt_align newsz)" "unat newsz \<le> s" and c: "c = min (n - p - SIZEOF_STRUCT_MEM) s"
  shows "returns (Option.bind (rt_malloc (rt_align newsz) 0 h) (\<lambda>(r, h1). case r of
           None \<Rightarrow> Some (None, h1, m)
         | Some a \<Rightarrow> Option.bind (rt_free (Some (hp_ptr h + p + SIZEOF_STRUCT_MEM)) 0 h1)
             (\<lambda>h2. Some (Some a, h2, rt_memcpy a (hp_ptr h + p + SIZEOF_STRUCT_MEM) c m))))
    (\<lambda>(r, h', m'). realloc_spec h m bs p n newsz r h' m')"
proof (rule returns_bind_pair [OF rt_malloc_returns [OF h z0]])
  let ?fit = "if unat (rt_align (rt_align newsz)) \<le> hp_size_aligned h
      then first_fit (hp_size_aligned h - request (rt_align newsz)) (request (rt_align newsz)) bs else None"
  fix r h1 assume m: "case ?fit of
      None \<Rightarrow> r = None \<and> h1 = h
    | Some p \<Rightarrow> \<exists>n bs'. r = Some (hp_ptr h + p + SIZEOF_STRUCT_MEM) \<and> heap_rep h1 bs' \<and> allocated bs' = insert (p, n) (allocated bs) \<and>
        (p, n) \<notin> allocated bs \<and> p + SIZEOF_STRUCT_MEM + request (rt_align newsz) \<le> n \<and> 4 dvd p \<and>
        hp_end h1 = hp_end h \<and> hp_ptr h1 = hp_ptr h \<and> hp_size_aligned h1 = hp_size_aligned h"
  show "returns (case r of None \<Rightarrow> Some (None, h1, m)
    | Some a \<Rightarrow> Option.bind (rt_free (Some (hp_ptr h + p + SIZEOF_STRUCT_MEM)) 0 h1)
        (\<lambda>h2. Some (Some a, h2, rt_memcpy a (hp_ptr h + p + SIZEOF_STRUCT_MEM) c m)))
    (\<lambda>(r, h', m'). realloc_spec h m bs p n newsz r h' m')"
  proof (cases r)
    case None
    then have f: "h1 = h" "?fit = None" using m by (auto split: option.splits)
    have "no_fit (rt_align newsz) h bs"
      by (rule no_fitI [OF _ f(2), of "hp_end h"]) (use heap_repD(1) [OF h] in \<open>simp add: heap_list_def\<close>)
    then show ?thesis using None f(1) by (simp add: realloc_spec_def no_fit_def request_aligned)
  next
    case (Some b)
    then obtain q k bs1 where q: "b = hp_ptr h + q + SIZEOF_STRUCT_MEM" "heap_rep h1 bs1" "allocated bs1 = insert (q, k) (allocated bs)"
      "(q, k) \<notin> allocated bs" "q + SIZEOF_STRUCT_MEM + request newsz \<le> k" "hp_ptr h1 = hp_ptr h"
      using m by (auto simp: request_aligned split: option.splits)
    have "s \<le> request newsz" by (simp add: request_def s(1))
    then have qs: "q + SIZEOF_STRUCT_MEM + s \<le> k" using q(5) by simp
    have ne: "(p, n) \<noteq> (q, k)" using a q(4) by blast
    have in1: "(p, n) \<in> allocated bs1" "(q, k) \<in> allocated bs1" using q(3) a by simp_all
    have t1: "tiles 0 bs1 (hp_end h1)" using heap_repD(1) [OF q(2)] by (simp add: heap_list_def)
    note copied = contents_moved [OF t1 in1 ne c qs s(2), of "hp_ptr h" m]
    obtain as1 cs1 where b1: "bs1 = as1 @ (p, n, True) # cs1" by (rule allocated_split [OF in1(1)])
    have fr: "returns (rt_free (Some (hp_ptr h + p + SIZEOF_STRUCT_MEM)) 0 h1)
        (\<lambda>h'. realloc_spec h m bs p n newsz (Some b) h' (rt_memcpy b (hp_ptr h + p + SIZEOF_STRUCT_MEM) c m))"
      unfolding q(6) [symmetric]
    proof (rule returns_mono [OF rt_free_block [OF q(2) [unfolded b1]]], elim exE conjE)
      fix h' bs' assume f: "heap_rep h' bs'" "allocated bs' = allocated (as1 @ (p, n, True) # cs1) - {(p, n)}" "hp_ptr h' = hp_ptr h1"
      have "allocated bs' = insert (q, k) (allocated bs) - {(p, n)}" using f(2) unfolding b1 [symmetric] q(3) .
      then have al: "allocated bs' = insert (q, k) (allocated bs - {(p, n)})" using ne by blast
      have "q + SIZEOF_STRUCT_MEM + unat newsz \<le> k" using qs s(2) by simp
      then show "realloc_spec h m bs p n newsz (Some b) h' (rt_memcpy b (hp_ptr h1 + p + SIZEOF_STRUCT_MEM) c m)"
        unfolding realloc_spec_def option.case q(6) q(1)
        by (intro exI [of _ q] exI [of _ k] exI [of _ bs'] conjI copied f(1) al) (use f(3) q(6) in simp_all)
    qed
    show ?thesis unfolding Some option.case by (rule returns_bindI [OF fr]) simp
  qed
qed

lemma realloc_returns_spec:
  assumes h: "heap_rep h bs" and a: "(p, n) \<in> allocated bs" and z: "9 \<le> unat newsz" "unat newsz \<le> 2 ^ 32 - 4"
  shows "returns (rt_realloc (Some (hp_ptr h + p + SIZEOF_STRUCT_MEM)) newsz 0 h m)
    (\<lambda>(r, h', m'). realloc_spec h m bs p n newsz r h' m')"
proof -
  define s where "s = unat (rt_align newsz)"
  have s: "4 dvd s" "unat newsz \<le> s" using rt_align_dvd [of newsz] rt_align_ge(1) [OF z(2)] by (simp_all add: s_def)
  have s12: "12 \<le> s" using s z(1) by presburger
  show ?thesis
  proof (cases "s \<le> hp_size_aligned h")
    case False
    have "no_fit newsz h bs"
      by (rule no_fitI [of _ "hp_end h"]) (use False heap_repD(1) [OF h] in \<open>simp_all add: heap_list_def s_def\<close>)
    then show ?thesis using False by (simp add: rt_realloc_def s_def [symmetric] realloc_spec_def)
  next
    case True
    obtain as cs where b: "bs = as @ (p, n, True) # cs" by (rule allocated_split [OF a])
    note d = heap_list_split [OF heap_repD(1) [OF h [unfolded b]]]
    define sz where "sz = n - (p + 12)"
    note unf = rt_realloc_unfold [OF h [unfolded b] d(7) s_def _ True sz_def]
    have n: "n = p + 12 + sz" using d(2) by (simp add: sz_def)
    consider (same) "sz = s" | (split) "sz \<noteq> s" "s + 12 + 12 < sz" | (move) "sz \<noteq> s" "\<not> s + 12 + 12 < sz" by blast
    then show ?thesis
    proof cases
      case same
      have "realloc_spec h m bs p n newsz (Some (hp_ptr h + p + SIZEOF_STRUCT_MEM)) h m"
        by (rule realloc_spec_stays [OF h]) (use a same n s(2) in auto)
      then show ?thesis using same unf s12 by simp
    next
      case split
      then show ?thesis using unf s12 realloc_split_spec [OF h [unfolded b] d(7) sz_def s(1) s12 split(2) s(2)] by (simp add: b)
    next
      case move
      have "rt_align newsz \<noteq> 0" using s12 by (auto simp: s_def)
      moreover have "(if sz < s then sz else s) = min (n - p - SIZEOF_STRUCT_MEM) s" by (simp add: sz_def s_def min_def)
      ultimately show ?thesis using realloc_move_spec [OF h a _ s_def s(2), of "if sz < s then sz else s"] move unf s12 by simp
    qed
  qed
qed

lemma realloc_frees:
  assumes h: "heap_rep h bs" and a: "(p, n) \<in> allocated bs"
  shows "returns (rt_realloc (Some (hp_ptr h + p + SIZEOF_STRUCT_MEM)) 0 0 h m) (\<lambda>(r, h', m'). r = None \<and> m' = m \<and>
    (\<exists>bs'. heap_rep h' bs' \<and> allocated bs' = allocated bs - {(p, n)} \<and> hp_ptr h' = hp_ptr h))"
proof -
  obtain as cs where b: "bs = as @ (p, n, True) # cs" by (rule allocated_split [OF a])
  have "rt_align 0 = 0" by (simp add: rt_align_def)
  then have e: "rt_realloc (Some (hp_ptr h + p + SIZEOF_STRUCT_MEM)) 0 0 h m =
      Option.bind (rt_free (Some (hp_ptr h + p + SIZEOF_STRUCT_MEM)) 0 h) (\<lambda>h. Some (None, h, m))"
    by (simp add: rt_realloc_def)
  show ?thesis unfolding e by (rule returns_bindI [OF rt_free_block [OF h [unfolded b]]]) (use b in auto)
qed

text \<open>
  C38. \<^verbatim>\<open>rt_realloc\<close> of an allocated block returns.  To size 0 it frees the block and gives \<^verbatim>\<open>RT_NULL\<close>.  To a size of at least 9 bytes
  (which is rounded up to 12, the smallest block of \<^verbatim>\<open>rt_malloc\<close>) it gives \<^verbatim>\<open>RT_NULL\<close> and leaves the heap and the
  memory alone, and then no free block is large enough, or the address of a block that holds the new size and takes the
  place of the old block among the allocated ones: its first bytes, as many as both sizes have, are those of the
  old block, and no byte outside it has changed.
\<close>

theorem rt_realloc_correct:
  assumes h: "heap_rep h bs" and a: "(p, n) \<in> allocated bs" and z: "unat newsz = 0 \<or> 9 \<le> unat newsz \<and> unat newsz \<le> 2 ^ 32 - 4"
  shows "returns (rt_realloc (Some (hp_ptr h + p + SIZEOF_STRUCT_MEM)) newsz 0 h m) (\<lambda>(r, h', m').
    if newsz = 0 then r = None \<and> m' = m \<and> (\<exists>bs'. heap_rep h' bs' \<and> allocated bs' = allocated bs - {(p, n)})
    else case r of
      None \<Rightarrow> h' = h \<and> m' = m \<and>
        (\<forall>q k. (q, k, False) \<in> set bs \<longrightarrow> q + request newsz < hp_size_aligned h \<longrightarrow> k < q + SIZEOF_STRUCT_MEM + request newsz)
    | Some b \<Rightarrow> \<exists>q k bs'. b = hp_ptr h + q + SIZEOF_STRUCT_MEM \<and> heap_rep h' bs' \<and> hp_ptr h' = hp_ptr h \<and>
        allocated bs' = insert (q, k) (allocated bs - {(p, n)}) \<and> q + SIZEOF_STRUCT_MEM + unat newsz \<le> k \<and>
        (\<forall>i < min (n - p - SIZEOF_STRUCT_MEM) (unat newsz). m' (b + i) = m (hp_ptr h + p + SIZEOF_STRUCT_MEM + i)) \<and>
        (\<forall>a. a < b \<or> hp_ptr h + k \<le> a \<longrightarrow> m' a = m a))"
proof (cases "newsz = 0")
  case True
  then show ?thesis using realloc_frees [OF h a, of m] by (auto elim!: returns_mono)
next
  case False
  then have "9 \<le> unat newsz" "unat newsz \<le> 2 ^ 32 - 4" using z by (auto simp: unsigned_eq_0_iff)
  from realloc_returns_spec [OF h a this, of m] show ?thesis using False unfolding realloc_spec_def no_fit_def by simp
qed

text \<open>A block of 100 bytes at the address 0x100c; growing it to 200 bytes moves it.\<close>

theorem rt_realloc_correct_witness:
  "returns (rt_realloc (Some 0x100c) 200 0 sample_heap1 of_nat) (\<lambda>(r, h', m'). case r of None \<Rightarrow> h' = sample_heap1
    | Some b \<Rightarrow> \<exists>q k bs'. b = 0x100c + q \<and> heap_rep h' bs' \<and> allocated bs' = {(q, k)} \<and> q + 212 \<le> k \<and>
        m' b = 0x0c \<and> m' (b + 99) = 0x6f)"
proof -
  have p: "hp_ptr sample_heap1 = 0x1000" by (simp add: sample_heap1_def sample_heap_fields)
  have "returns (rt_realloc (Some (hp_ptr sample_heap1 + 0 + SIZEOF_STRUCT_MEM)) 200 0 sample_heap1 of_nat) (\<lambda>(r, h', m').
    if (200 :: u32) = 0 then r = None \<and> m' = of_nat \<and>
      (\<exists>bs'. heap_rep h' bs' \<and> allocated bs' = allocated [(0, 112, True), (112, 4084, False)] - {(0, 112)})
    else case r of
      None \<Rightarrow> h' = sample_heap1 \<and> m' = of_nat \<and>
        (\<forall>q k. (q, k, False) \<in> set [(0, 112, True), (112, 4084, False)] \<longrightarrow> q + request 200 < hp_size_aligned sample_heap1 \<longrightarrow>
          k < q + SIZEOF_STRUCT_MEM + request 200)
    | Some b \<Rightarrow> \<exists>q k bs'. b = hp_ptr sample_heap1 + q + SIZEOF_STRUCT_MEM \<and> heap_rep h' bs' \<and> hp_ptr h' = hp_ptr sample_heap1 \<and>
        allocated bs' = insert (q, k) (allocated [(0, 112, True), (112, 4084, False)] - {(0, 112)}) \<and> q + SIZEOF_STRUCT_MEM + unat (200 :: u32) \<le> k \<and>
        (\<forall>i < min (112 - 0 - SIZEOF_STRUCT_MEM) (unat (200 :: u32)). m' (b + i) = of_nat (hp_ptr sample_heap1 + 0 + SIZEOF_STRUCT_MEM + i)) \<and>
        (\<forall>a. a < b \<or> hp_ptr sample_heap1 + k \<le> a \<longrightarrow> m' a = of_nat a))"
    by (rule rt_realloc_correct [OF sample_heap1_rep]) simp_all
  then have "returns (rt_realloc (Some 0x100c) 200 0 sample_heap1 of_nat) (\<lambda>(r, h', m'). case r of None \<Rightarrow> h' = sample_heap1
    | Some b \<Rightarrow> \<exists>q k bs'. b = 0x100c + q \<and> heap_rep h' bs' \<and> allocated bs' = {(q, k)} \<and> q + 212 \<le> k \<and> (\<forall>i < 100. m' (b + i) = of_nat (0x100c + i)))"
    unfolding p by (simp, elim returns_mono) (clarsimp split: option.splits, fastforce)
  then show ?thesis
  proof (rule returns_mono, clarify)
    fix r h' and m' :: memory
    assume x: "case r of None \<Rightarrow> h' = sample_heap1
      | Some b \<Rightarrow> \<exists>q k bs'. b = 0x100c + q \<and> heap_rep h' bs' \<and> allocated bs' = {(q, k)} \<and> q + 212 \<le> k \<and> (\<forall>i < 100. m' (b + i) = of_nat (0x100c + i))"
    show "case r of None \<Rightarrow> h' = sample_heap1
      | Some b \<Rightarrow> \<exists>q k bs'. b = 0x100c + q \<and> heap_rep h' bs' \<and> allocated bs' = {(q, k)} \<and> q + 212 \<le> k \<and> m' b = 0x0c \<and> m' (b + 99) = 0x6f"
    proof (cases r)
      case None
      then show ?thesis using x by simp
    next
      case (Some b)
      then obtain q k bs' where q: "b = 0x100c + q" "heap_rep h' bs'" "allocated bs' = {(q, k)}" "q + 212 \<le> k"
        "\<forall>i < 100. m' (b + i) = of_nat (0x100c + i)" using x by auto
      have "m' b = 0x0c" "m' (b + 99) = 0x6f" using q(5) [rule_format, of 0] q(5) [rule_format, of 99] by simp_all
      then have "\<exists>q k bs'. b = 0x100c + q \<and> heap_rep h' bs' \<and> allocated bs' = {(q, k)} \<and> q + 212 \<le> k \<and> m' b = 0x0c \<and> m' (b + 99) = 0x6f"
        using q(1-4) by (intro exI conjI)
      then show ?thesis using Some by simp
    qed
  qed
qed

section \<open>Aligned allocation (kservice.c)\<close>

text \<open>
  \<^verbatim>\<open>rt_malloc_align\<close> keeps the address of the block in the word in front of the aligned address it returns.  Both the size and
  the alignment are rounded up to words, \<^verbatim>\<open>(x + 3) & ~3\<close>, which is \<^verbatim>\<open>RT_ALIGN\<close>.
\<close>

definition align_address :: "u32 \<Rightarrow> u32 \<Rightarrow> u32" where
  "align_address al p = (if p AND (al - 1) = 0 then p + al else (p + (al - 1)) AND NOT (al - 1))"

definition rt_malloc_align :: "u32 \<Rightarrow> u32 \<Rightarrow> u8 \<Rightarrow> rt_heap \<Rightarrow> memory \<Rightarrow> (nat option \<times> rt_heap \<times> memory) option" where
  "rt_malloc_align sz al irq_nest h m = do {
     al \<leftarrow> Some (rt_align al);
     align_size \<leftarrow> Some (rt_align sz + al);
     (p, h) \<leftarrow> rt_malloc align_size irq_nest h;
     case p of
       None \<Rightarrow> Some (None, h, m)
     | Some a \<Rightarrow> do {
         align_ptr \<leftarrow> Some (align_address al (of_nat a));
         Some (Some (unat align_ptr), h, store32 (unat align_ptr - 4) (of_nat a) m)
       }
   }"

definition rt_free_align :: "nat \<Rightarrow> u8 \<Rightarrow> rt_heap \<Rightarrow> memory \<Rightarrow> rt_heap option" where
  "rt_free_align p irq_nest h m = rt_free (Some (unat (load32 m (p - 4)))) irq_nest h"

lemma load32_store32: "load32 (store32 a w m) a = w"
proof (rule bit_word_eqI)
  fix n assume "n < LENGTH(32)"
  then consider "n < 8" | "8 \<le> n" "n < 16" | "16 \<le> n" "n < 24" | "24 \<le> n" "n < 32" by fastforce
  then show "bit (load32 (store32 a w m) a) n = bit w n"
    unfolding load32_def store32_def by cases (auto simp: bit_simps)
qed

text \<open>Rounding with masks, for an alignment that is a power of two.\<close>

lemma mask_round:
  fixes p :: u32
  shows "unat (p AND mask k) = unat p mod 2 ^ k" and "unat (p AND NOT (mask k)) = unat p div 2 ^ k * 2 ^ k"
proof -
  show "unat (p AND mask k) = unat p mod 2 ^ k"
  proof -
    have "unat (p AND mask k) = take_bit k (unat p)" by (simp only: take_bit_eq_mask [symmetric] unsigned_take_bit_eq)
    then show ?thesis by (simp add: take_bit_eq_mod)
  qed
  have "p AND NOT (mask k) = push_bit k (drop_bit k p)" by (rule bit_word_eqI) (auto simp: bit_simps)
  then have "unat (p AND NOT (mask k)) = take_bit 32 (push_bit k (drop_bit k (take_bit 32 (unat p))))"
    by (simp only: unsigned_push_bit_eq unsigned_drop_bit_eq len_bit0 len_num1) simp
  moreover have "unat p < 2 ^ 32" using unsigned_less [of p] by simp
  moreover from this have "unat p div 2 ^ k * 2 ^ k < 2 ^ 32" by (rule le_less_trans [OF div_times_less_eq_dividend])
  ultimately show "unat (p AND NOT (mask k)) = unat p div 2 ^ k * 2 ^ k"
    by (simp add: push_bit_eq_mult drop_bit_eq_div take_bit_nat_eq_self)
qed

lemma unat_power2: "k < 32 \<Longrightarrow> unat ((2 :: u32) ^ k) = 2 ^ k"
proof -
  assume "k < 32"
  then have "(2 :: nat) ^ k < 2 ^ 32" by (intro power_strict_increasing) simp_all
  moreover have "unat (of_nat (2 ^ k) :: u32) = 2 ^ k mod 2 ^ 32" by (simp only: unat_of_nat len_bit0 len_num1) simp
  ultimately show ?thesis by simp
qed

lemma align_address_unat:
  assumes k: "2 \<le> k" "k < 32" and p: "4 dvd unat p" "unat p + 2 ^ k < 2 ^ 32"
  shows "unat (align_address (2 ^ k) p) mod 2 ^ k = 0" and "unat p + 4 \<le> unat (align_address (2 ^ k) p)"
    and "unat (align_address (2 ^ k) p) \<le> unat p + 2 ^ k"
proof -
  have m: "(2 :: u32) ^ k - 1 = mask k" by (simp add: mask_eq_exp_minus_1)
  have uk: "unat ((2 :: u32) ^ k) = 2 ^ k" by (rule unat_power2 [OF k(2)])
  have um: "unat (mask k :: u32) = 2 ^ k - 1" unfolding m [symmetric] unat_minus_eq using uk by (simp add: word_le_nat_alt)
  define A where "A = (2 ^ k :: nat)"
  have A: "4 dvd A" "0 < A" using k(1) le_imp_power_dvd [of 2 k "2 :: nat"] by (simp_all add: A_def)
  have "unat (align_address (2 ^ k) p) = (if unat p mod A = 0 then unat p + A else (unat p + (A - 1)) div A * A)"
  proof (cases "unat p mod A = 0")
    case True
    then have "p AND mask k = 0" using mask_round(1) [of p k] by (simp add: A_def unsigned_eq_0_iff)
    moreover have "unat (p + 2 ^ k) = unat p + A" using p(2) uk by (subst unat_add_lem [THEN iffD1]) (simp_all add: A_def)
    ultimately show ?thesis using True unfolding align_address_def m by simp
  next
    case False
    then have "p AND mask k \<noteq> 0" using mask_round(1) [of p k] by (auto simp: A_def)
    moreover have "unat (p + mask k) = unat p + (A - 1)" using p(2) um by (subst unat_add_lem [THEN iffD1]) (simp_all add: A_def)
    ultimately show ?thesis using False mask_round(2) [of "p + mask k" k] unfolding align_address_def m by (simp add: A_def)
  qed
  moreover have "(unat p + (A - 1)) div A * A \<le> unat p + A" by (rule order.trans [OF div_times_less_eq_dividend]) simp
  moreover have "unat p + 4 \<le> (unat p + (A - 1)) div A * A" if "unat p mod A \<noteq> 0"
  proof -
    let ?q = "(unat p + (A - 1)) div A * A"
    have "unat p + A - 1 < ?q + A" using A(2) dividend_less_div_times [of A "unat p + (A - 1)"] by simp
    then have "unat p \<le> ?q" by simp
    moreover have "unat p \<noteq> ?q" using that by (metis mod_mult_self2_is_0)
    moreover have "4 dvd ?q" using A(1) by simp
    ultimately show ?thesis using p(1) by presburger
  qed
  moreover have "4 \<le> A" using A by (auto intro: dvd_imp_le)
  ultimately show "unat (align_address (2 ^ k) p) mod 2 ^ k = 0" "unat p + 4 \<le> unat (align_address (2 ^ k) p)"
    "unat (align_address (2 ^ k) p) \<le> unat p + 2 ^ k"
    by (auto simp: A_def split: if_splits)
qed

text \<open>
  \<^verbatim>\<open>rt_malloc_align\<close> for an alignment that is a power of two of at least 4 returns.  Either there is no memory and nothing
  changes, or the address is aligned, the requested bytes and the word in front of them lie in one new block of the heap,
  only that word of the memory is written, and \<^verbatim>\<open>rt_free_align\<close> of the address restores the heap block by block.
\<close>

theorem rt_malloc_align_roundtrip:
  assumes h: "heap_rep h bs" and k: "2 \<le> k" "k < 32" and z: "unat sz + 2 ^ k \<le> 2 ^ 32 - 8"
  shows "returns (rt_malloc_align sz (2 ^ k) 0 h m) (\<lambda>(r, h', m'). case r of
      None \<Rightarrow> h' = h \<and> m' = m
    | Some a \<Rightarrow> a mod 2 ^ k = 0 \<and>
        (\<exists>q n bs'. heap_rep h' bs' \<and> allocated bs' = insert (q, n) (allocated bs) \<and>
          hp_ptr h + q + SIZEOF_STRUCT_MEM + 4 \<le> a \<and> a + unat sz \<le> hp_ptr h + n) \<and>
        (\<forall>b. b + 4 < a \<or> a \<le> b \<longrightarrow> m' b = m b) \<and>
        returns (rt_free_align a 0 h' m') (\<lambda>h2. heap_rep h2 bs))"
proof -
  have A: "(4 :: nat) dvd 2 ^ k" "(4 :: nat) \<le> 2 ^ k"
    using k(1) le_imp_power_dvd [of 2 k "2 :: nat"] by (auto intro: dvd_imp_le)
  have uk: "unat ((2 :: u32) ^ k) = 2 ^ k" by (rule unat_power2 [OF k(2)])
  have al: "rt_align (2 ^ k) = (2 :: u32) ^ k"
  proof -
    have a: "(2 ^ k + 3) div 4 * 4 = (2 :: nat) ^ k" using A(1) by auto
    have b: "unat ((2 :: u32) ^ k + 3) = 2 ^ k + 3" using z uk by (subst unat_add_lem [THEN iffD1]) simp_all
    have "unat (rt_align ((2 :: u32) ^ k)) = 2 ^ k mod 2 ^ 32" unfolding rt_align_unat b a ..
    also have "\<dots> = unat ((2 :: u32) ^ k)" using uk z by simp
    finally show ?thesis by (simp only: unsigned_word_eqI)
  qed
  have sz: "unat sz \<le> unat (rt_align sz)" "unat (rt_align sz) < unat sz + 4" by (rule rt_align_ge; use z in simp)+
  define asz where "asz = rt_align sz + 2 ^ k"
  have asz: "unat asz = unat (rt_align sz) + 2 ^ k" unfolding asz_def using z sz uk by (subst unat_add_lem [THEN iffD1]) simp_all
  have z0: "asz \<noteq> 0" using asz A(2) by (auto simp: unsigned_eq_0_iff)
  have req: "unat (rt_align sz) + 2 ^ k \<le> request asz"
    using rt_align_ge(1) [of asz] asz z sz by (simp add: request_def)
  obtain r h1 where ma: "rt_malloc asz 0 h = Some (r, h1)" using rt_malloc_returns [OF h z0] by (auto simp: returns_def)
  note mr = returnsD [OF rt_malloc_returns [OF h z0] ma, simplified]
  show ?thesis
  proof (cases r)
    case None
    then have "h1 = h" using mr by (auto split: option.splits)
    then show ?thesis using None ma by (simp add: rt_malloc_align_def al asz_def [symmetric])
  next
    case (Some a)
    obtain q n bs' where q: "a = hp_ptr h + q + SIZEOF_STRUCT_MEM" "heap_rep h1 bs'" "allocated bs' = insert (q, n) (allocated bs)"
      "q + SIZEOF_STRUCT_MEM + request asz \<le> n" "4 dvd q" "hp_end h1 = hp_end h" "hp_ptr h1 = hp_ptr h"
      using mr Some by (auto split: option.splits)
    have "(q, n) \<in> allocated bs'" using q(3) by simp
    then obtain as cs where b: "bs' = as @ (q, n, True) # cs" by (rule allocated_split)
    have n: "n \<le> hp_end h" using heap_list_split(3) [OF heap_repD(1) [OF q(2) [unfolded b]]] q(6) by simp
    have fit: "a + unat (rt_align sz) + 2 ^ k \<le> hp_ptr h + n" using q(1,4) req by simp
    then have a: "a + 2 ^ k < 2 ^ 32" using n heap_repD(5) [OF h] by simp
    then have ua: "unat (of_nat a :: u32) = a" by (simp add: unat_of_nat)
    have "4 dvd a" using q(1,5) heap_repD(4) [OF h] by simp
    then have al4: "unat (align_address (2 ^ k) (of_nat a)) mod 2 ^ k = 0" "a + 4 \<le> unat (align_address (2 ^ k) (of_nat a))"
      "unat (align_address (2 ^ k) (of_nat a)) \<le> a + 2 ^ k"
      using align_address_unat [OF k, of "of_nat a"] a ua by simp_all
    define b where "b = unat (align_address (2 ^ k) (of_nat a))"
    note al4 = al4 [folded b_def]
    have r: "rt_malloc_align sz (2 ^ k) 0 h m = Some (Some b, h1, store32 (b - 4) (of_nat a) m)"
      using ma Some by (simp add: rt_malloc_align_def al asz_def [symmetric] b_def)
    have "returns (rt_free_align b 0 h1 (store32 (b - 4) (of_nat a) m)) (\<lambda>h2. heap_rep h2 bs)"
      unfolding rt_free_align_def load32_store32 ua by (rule malloc_free_layout [OF h]) (use ma Some in simp)
    moreover have "store32 (b - 4) (of_nat a) m c = m c" if "c + 4 < b \<or> b \<le> c" for c
      unfolding store32_def using that al4(2) by auto
    moreover have "hp_ptr h + q + SIZEOF_STRUCT_MEM + 4 \<le> b" "b + unat sz \<le> hp_ptr h + n"
      using al4(2,3) fit sz(1) q(1) by simp_all
    ultimately show ?thesis unfolding r using al4(1) q(2,3) by auto
  qed
qed

theorem rt_malloc_align_roundtrip_witness:
  "returns (rt_malloc_align 100 (2 ^ 4) 0 sample_heap (\<lambda>_. 0)) (\<lambda>(r, h', m'). case r of
      None \<Rightarrow> True
    | Some a \<Rightarrow> a mod 16 = 0 \<and> returns (rt_free_align a 0 h' m') (\<lambda>h2. heap_rep h2 [(0, 4084, False)]))"
  by (rule returns_mono [OF rt_malloc_align_roundtrip [OF sample_heap_rep, of 4 100]]) (auto split: option.splits)

end
