(* ===== verification/Boot.thy ===== *)
theory Boot
  imports DrumMachine Idle
begin

text \<open>
  The kernel while it is being started: the scheduler has nothing to switch to, no timer runs, and objects are created from the
  heap one after the other.  Every creation is shown to keep the invariant \<open>boot_inv\<close>, with or without memory for it, with what
  it takes of the heap; a heap from which nothing was freed serves every request that fits (\<open>room\<close>).
\<close>

section \<open>A scheduler that has nothing to do\<close>

text \<open>
  Before the scheduler starts, and while the main thread runs and only threads of lower priority are ready, \<^verbatim>\<open>rt_schedule\<close>
  changes nothing.
\<close>

definition calm :: "kernel \<Rightarrow> bool" where
  "calm k \<longleftrightarrow> k_lock_nest k = 0 \<and> k_irq_nest k = 0 \<and> (case k_current k of None \<Rightarrow> True
     | Some c \<Rightarrow> \<exists>th. k_threads k c = Some th \<and> th_stat th = RT_THREAD_RUNNING \<and> (\<forall>p \<le> prio th. k_lists k (Ready p) = []))"

lemma calm_cong:
  assumes "calm k" and "k_lock_nest k' = k_lock_nest k" and "k_irq_nest k' = k_irq_nest k" and "k_current k' = k_current k"
    and "\<And>p. k_lists k' (Ready p) = k_lists k (Ready p)" and "\<And>c. k_current k = Some c \<Longrightarrow> k_threads k' c = k_threads k c"
  shows "calm k'"
  using assms by (auto simp: calm_def split: option.splits)

lemma running_word: "th_stat th = RT_THREAD_RUNNING \<Longrightarrow> thread_stat th = RT_THREAD_RUNNING \<and> clear_yield th = th \<and> set_stat RT_THREAD_RUNNING th = th"
  by (cases th) (simp add: thread_stat_def clear_yield_def set_stat_def)

lemma calm_schedule:
  assumes i: "kinvx X k" and c: "calm k" "k_current k = Some c" "c \<notin> X"
  shows "rt_schedule k = Some k"
proof (cases "k_ready_group k = 0")
  case True
  then show ?thesis by (simp add: rt_schedule_idle)
next
  case False
  obtain th where th: "k_threads k c = Some th" "th_stat th = RT_THREAD_RUNNING" "\<forall>p \<le> prio th. k_lists k (Ready p) = []"
    and l: "k_lock_nest k = 0" using c(1,2) by (auto simp: calm_def)
  note w = running_word [OF th(2)]
  obtain p where p: "highest_ready k p" "get_highest_priority_thread k = Some (hd (k_lists k (Ready p)), p)"
    by (rule get_highest_priority_thread_eq [OF i False])
  have "prio th < p" using th(3) p(1) by (auto simp: highest_ready_def not_le [symmetric])
  then have kr: "keeps_running th p" by (simp add: keeps_running_def)
  note s = rt_schedule_keep [OF i c(2) th(1) c(3) l False p _ kr]
  let ?k = "dispatch c th k"
  have T: "(k_threads k)(c \<mapsto> th) = k_threads k" using th(1) by (simp add: fun_upd_idem)
  have L: "lists_remove c (k_lists k) = k_lists k"
    using s(4) w T by (simp add: dispatch_def)
  have g: "removed_group c th k = k_ready_group k"
  proof -
    have live: "live th" by (rule kinvx_live(1) [OF i th(1) c(3)]) (use w in simp_all)
    have nb: "\<not> bit (k_ready_group k) (prio th)"
      using ready_okD [OF linvD(2), of X "k_lists k" "k_ready_group k" "k_threads k" "prio th"] i th(3) by (simp add: kinvx_def)
    have "bit (th_number_mask th) q \<longleftrightarrow> q = prio th" for q using live by (auto simp: live_def bit_exp_iff)
    then have "k_ready_group k AND NOT (th_number_mask th) = k_ready_group k"
      using nb by (intro bit_eqI) (auto simp: bit_simps dest: bit_imp_le_length)
    then show ?thesis by (simp add: removed_group_def)
  qed
  have "rt_schedule k = Some (dispatch c (clear_yield th) (k\<lparr>k_threads := (k_threads k)(c \<mapsto> clear_yield th)\<rparr>))"
    by (rule s(1)) (use w in simp)
  also have "\<dots> = Some k" using w T L g by (cases k) (simp add: dispatch_def removed_group_def)
  finally show ?thesis .
qed

text \<open>A critical section then changes nothing, and initialising an object only writes its header and its container.\<close>

lemma calm_critical:
  assumes i: "kinvx X k" and c: "calm k" and x: "\<And>c. k_current k = Some c \<Longrightarrow> c \<notin> X"
  shows "rt_exit_critical (rt_enter_critical k) = Some k"
  using critical_pair_unlocked [of k] calm_schedule [OF i c] c x by (auto simp: calm_def)

lemma calm_object_init:
  assumes i: "kinvx X k" and c: "calm k" and x: "\<And>c. k_current k = Some c \<Longrightarrow> c \<notin> X"
    and t: "rt_object_get_information type \<noteq> None" and o: "obj \<notin> set (k_objects k type)"
  shows "rt_object_init obj type name k = Some ((upd_header obj (\<lambda>ob. ob\<lparr>ob_type := type OR RT_Object_Class_Static,
      ob_name := rt_strncpy RT_NAME_MAX name\<rparr>) k)\<lparr>k_objects := (k_objects k)(type := obj # k_objects k type)\<rparr>)"
proof -
  have "k_objects (upd_header obj f k) = k_objects k" for f by (cases obj) simp_all
  moreover have "k_objects (rt_enter_critical k) = k_objects k" by (simp add: rt_enter_critical_def)
  ultimately show ?thesis using calm_critical [OF i c x] t o by (simp add: rt_object_init_def)
qed

section \<open>The invariant of the start\<close>

text \<open>
  \<open>placed\<close>: the objects of threads lie in blocks of the heap or outside it, and no container lists a thread, or the timer of a
  thread, that does not exist.  \<open>boot_invx\<close>: the kernel while it is being started, with the threads of \<open>X\<close> under construction;
  no timer runs, and the heap is that of the blocks \<open>bs\<close>.
\<close>

definition outside :: "rt_heap \<Rightarrow> nat \<Rightarrow> bool" where
  "outside h a \<longleftrightarrow> a < hp_ptr h \<or> hp_ptr h + hp_end h \<le> a"

definition placed :: "blk list \<Rightarrow> kernel \<Rightarrow> bool" where
  "placed bs k \<longleftrightarrow> (\<forall>t \<in> dom (k_threads k). at_block (k_heap k) bs t \<or> outside (k_heap k) t) \<and>
     (\<forall>t. OThread t \<in> set (k_objects k RT_Object_Class_Thread) \<or> OTimer (Thread_timer t) \<in> set (k_objects k RT_Object_Class_Timer) \<longrightarrow>
        t \<in> dom (k_threads k))"

definition boot_invx :: "nat set \<Rightarrow> blk list \<Rightarrow> kernel \<Rightarrow> bool" where
  "boot_invx X bs k \<longleftrightarrow> kinvx X k \<and> calm k \<and> (\<forall>c. k_current k = Some c \<longrightarrow> c \<notin> X) \<and> k_timer_list k = [] \<and>
     heap_rep (k_heap k) bs \<and> placed bs k"

abbreviation boot_inv :: "blk list \<Rightarrow> kernel \<Rightarrow> bool" where
  "boot_inv bs k \<equiv> boot_invx {} bs k"

lemma boot_invD:
  assumes "boot_invx X bs k"
  shows "kinvx X k" "calm k" "k_timer_list k = []" "heap_rep (k_heap k) bs" "placed bs k" "k_irq_nest k = 0" "k_lock_nest k = 0"
    "k_current k = Some c \<Longrightarrow> c \<notin> X"
  using assms by (auto simp: boot_invx_def calm_def)

text \<open>The parts of the state the start-up depends on.\<close>

lemma boot_invx_cong:
  assumes "boot_invx X bs k" and "kinvx X k'" and "k_lock_nest k' = k_lock_nest k" "k_irq_nest k' = k_irq_nest k" "k_current k' = k_current k"
    and "\<And>p. k_lists k' (Ready p) = k_lists k (Ready p)" and "k_threads k' = k_threads k" and "k_timer_list k' = k_timer_list k" "k_heap k' = k_heap k"
    and "\<And>t. OThread t \<in> set (k_objects k' RT_Object_Class_Thread) \<Longrightarrow> OThread t \<in> set (k_objects k RT_Object_Class_Thread)"
    and "\<And>t. OTimer (Thread_timer t) \<in> set (k_objects k' RT_Object_Class_Timer) \<Longrightarrow> OTimer (Thread_timer t) \<in> set (k_objects k RT_Object_Class_Timer)"
  shows "boot_invx X bs k'"
  using assms calm_cong [of k k'] unfolding boot_invx_def placed_def by auto

section \<open>Taking memory\<close>

lemma allocated_end:
  assumes "heap_rep h bs" and "(p, n) \<in> allocated bs"
  shows "p + (SIZEOF_STRUCT_MEM + MIN_SIZE_ALIGNED) \<le> n" "n \<le> hp_end h"
proof -
  have "tiles 0 bs (hp_end h)" using heap_repD(1) [OF assms(1)] by (simp add: heap_list_def)
  from tiles_in [OF this, of p n True] assms(2) show "p + (SIZEOF_STRUCT_MEM + MIN_SIZE_ALIGNED) \<le> n" "n \<le> hp_end h"
    by (simp_all add: allocated_def)
qed

text \<open>A block that is new to the heap: no thread lies there.\<close>

definition new_block :: "blk list \<Rightarrow> kernel \<Rightarrow> blk list \<Rightarrow> rt_heap \<Rightarrow> nat \<Rightarrow> bool" where
  "new_block bs k bs' h' a \<longleftrightarrow> heap_rep h' bs' \<and> hp_ptr h' = hp_ptr (k_heap k) \<and> hp_end h' = hp_end (k_heap k) \<and>
     hp_size_aligned h' = hp_size_aligned (k_heap k) \<and> at_block h' bs' a \<and> \<not> at_block (k_heap k) bs a \<and> \<not> outside (k_heap k) a \<and>
     (\<forall>b. at_block h' bs' b \<longleftrightarrow> b = a \<or> at_block (k_heap k) bs b)"

text \<open>
  \<open>room R bs\<close>: behind the used blocks there is one free block of \<open>R\<close> bytes or more, as in a heap from which nothing was
  freed.  A request that fits there is served and takes \<open>need sz\<close> bytes of it.
\<close>

definition room :: "nat \<Rightarrow> blk list \<Rightarrow> bool" where
  "room R bs \<longleftrightarrow> (\<exists>as p n. bs = as @ [(p, n, False)] \<and> (\<forall>(q, m, u) \<in> set as. u) \<and> p + R \<le> n)"

definition need :: "u32 \<Rightarrow> nat" where
  "need sz = request sz + SIZEOF_STRUCT_MEM"

definition spends :: "nat \<Rightarrow> blk list \<Rightarrow> blk list \<Rightarrow> bool" where
  "spends N bs bs' \<longleftrightarrow> (\<forall>R. room R bs \<longrightarrow> N + (SIZEOF_STRUCT_MEM + MIN_SIZE_ALIGNED) \<le> R \<longrightarrow> room (R - N) bs')"

definition scarce :: "nat \<Rightarrow> blk list \<Rightarrow> bool" where
  "scarce N bs \<longleftrightarrow> (\<forall>R. room R bs \<longrightarrow> R < N + (SIZEOF_STRUCT_MEM + MIN_SIZE_ALIGNED))"

lemma spends_trans: "spends N bs bs1 \<Longrightarrow> spends M bs1 bs2 \<Longrightarrow> spends (N + M) bs bs2"
  unfolding spends_def
proof (intro allI impI)
  fix R assume a: "\<forall>R. room R bs \<longrightarrow> N + (SIZEOF_STRUCT_MEM + MIN_SIZE_ALIGNED) \<le> R \<longrightarrow> room (R - N) bs1" "\<forall>R. room R bs1 \<longrightarrow> M + (SIZEOF_STRUCT_MEM + MIN_SIZE_ALIGNED) \<le> R \<longrightarrow> room (R - M) bs2"
    and R: "room R bs" "N + M + (SIZEOF_STRUCT_MEM + MIN_SIZE_ALIGNED) \<le> R"
  have "room (R - N) bs1" using a(1) R by simp
  then show "room (R - (N + M)) bs2" using a(2) [rule_format, of "R - N"] R(2) by (simp add: diff_diff_left)
qed

lemma spends_zero [simp]: "spends 0 bs bs"
  by (simp add: spends_def)

lemma scarce_spends: "spends N bs bs1 \<Longrightarrow> scarce M bs1 \<Longrightarrow> scarce (N + M) bs"
  unfolding spends_def scarce_def by fastforce

lemma scarce_mono: "scarce N bs \<Longrightarrow> N \<le> M \<Longrightarrow> scarce M bs"
  unfolding scarce_def by fastforce

lemma first_fit_room:
  assumes "\<forall>(q, m, u) \<in> set as. u" and "tiles s (as @ [(p, n, False)]) e" and "p < B" and "p + SIZEOF_STRUCT_MEM + sz \<le> n"
  shows "first_fit B sz (as @ [(p, n, False)]) = Some p"
  using assms
proof (induction as arbitrary: s)
  case (Cons b as)
  obtain m where b: "b = (s, m, True)" "tiles m (as @ [(p, n, False)]) e" using Cons.prems(1,2) by (cases b) auto
  have "s \<le> p" using tiles_in [OF Cons.prems(2), of p n False] by simp
  then show ?case using Cons.IH [OF _ b(2)] Cons.prems b(1) by simp
qed simp

lemma malloc_room:
  assumes h: "heap_rep h (as @ [(p, n, False)])" and u: "\<forall>(q, m, u) \<in> set as. u" and z: "sz \<noteq> 0"
    and f: "p + need sz + (SIZEOF_STRUCT_MEM + MIN_SIZE_ALIGNED) \<le> n"
  shows "returns (rt_malloc sz 0 h) (\<lambda>(r, h'). r = Some (hp_ptr h + p + SIZEOF_STRUCT_MEM) \<and>
    heap_rep h' (as @ [(p, p + need sz, True), (p + need sz, n, False)]) \<and>
    hp_end h' = hp_end h \<and> hp_ptr h' = hp_ptr h \<and> hp_size_aligned h' = hp_size_aligned h)"
proof -
  note r = heap_repD [OF h]
  have t: "tiles 0 (as @ [(p, n, False)]) (hp_end h)" using r(1) by (simp add: heap_list_def)
  have n: "n = hp_end h" using t by (auto simp: tiles_append)
  have sz: "unat (rt_align sz) \<le> request sz" by (simp add: request_def)
  have "first_fit (hp_size_aligned h - request sz) (request sz) (as @ [(p, n, False)]) = Some p"
    by (rule first_fit_room [OF u t]) (use f n r(3) in \<open>simp_all add: need_def\<close>)
  moreover have "unat (rt_align sz) \<le> hp_size_aligned h" "p + SIZEOF_STRUCT_MEM + request sz \<le> n" using f n r(3) sz by (simp_all add: need_def)
  moreover have "taken as p n (request sz) [] = as @ [(p, p + need sz, True), (p + need sz, n, False)]"
    using f by (simp add: taken_def need_def)
  ultimately show ?thesis using rt_malloc_takes [OF h z] by simp
qed

lemma new_blockI:
  assumes "heap_rep h' bs'" and "allocated bs' = insert (p, n) (allocated bs)" and "(p, n) \<notin> allocated bs"
    and "hp_end h' = hp_end (k_heap k)" "hp_ptr h' = hp_ptr (k_heap k)" "hp_size_aligned h' = hp_size_aligned (k_heap k)"
  shows "new_block bs k bs' h' (hp_ptr (k_heap k) + p + SIZEOF_STRUCT_MEM)"
proof -
  have "(p, i) \<notin> allocated bs" for i using allocated_unique [OF assms(1), of p n i] assms(2,3) by auto
  moreover have "\<not> outside (k_heap k) (hp_ptr (k_heap k) + p + SIZEOF_STRUCT_MEM)"
    using allocated_end [OF assms(1), of p n] assms(2,4) by (simp add: outside_def)
  ultimately show ?thesis using assms by (auto simp: new_block_def at_block_def)
qed

definition malloc_result :: "u32 \<Rightarrow> blk list \<Rightarrow> kernel \<Rightarrow> nat option \<Rightarrow> rt_heap \<Rightarrow> bool" where
  "malloc_result sz bs k r h' \<longleftrightarrow> (case r of None \<Rightarrow> h' = k_heap k \<and> scarce (need sz) bs
     | Some a \<Rightarrow> \<exists>bs'. new_block bs k bs' h' a \<and> spends (need sz) bs bs')"

lemma malloc_roomy:
  assumes h: "heap_rep (k_heap k) bs" and z: "sz \<noteq> 0" and R: "room R bs" "need sz + (SIZEOF_STRUCT_MEM + MIN_SIZE_ALIGNED) \<le> R"
  shows "returns (rt_malloc sz 0 (k_heap k)) (\<lambda>(r, h'). malloc_result sz bs k r h')"
proof -
  obtain as p n where b: "bs = as @ [(p, n, False)]" "\<forall>(q, m, u) \<in> set as. u" "p + R \<le> n" using R(1) by (auto simp: room_def)
  let ?bs = "as @ [(p, p + need sz, True), (p + need sz, n, False)]"
  have t: "tiles 0 as p" using heap_repD(1) [OF h] b(1) by (auto simp: heap_list_def tiles_append)
  have al: "allocated ?bs = insert (p, p + need sz) (allocated bs)" "(p, p + need sz) \<notin> allocated bs"
    using tiles_in [OF t, of p "p + need sz" True] b(1) by (auto simp: allocated_def)
  have sp: "spends (need sz) bs ?bs"
    unfolding spends_def
  proof (intro allI impI)
    fix Q assume "room Q bs" "need sz + (SIZEOF_STRUCT_MEM + MIN_SIZE_ALIGNED) \<le> Q"
    then have "p + need sz + (Q - need sz) \<le> n" using b(1) by (auto simp: room_def)
    then show "room (Q - need sz) ?bs"
      unfolding room_def using b(2) by (intro exI [of _ "as @ [(p, p + need sz, True)]"] exI [of _ "p + need sz"] exI [of _ n]) auto
  qed
  have "returns (rt_malloc sz 0 (k_heap k)) (\<lambda>(r, h'). r = Some (hp_ptr (k_heap k) + p + SIZEOF_STRUCT_MEM) \<and> heap_rep h' ?bs \<and>
    hp_end h' = hp_end (k_heap k) \<and> hp_ptr h' = hp_ptr (k_heap k) \<and> hp_size_aligned h' = hp_size_aligned (k_heap k))"
    by (rule malloc_room [OF h [unfolded b(1)] b(2) z]) (use b(3) R(2) in simp)
  then show ?thesis
    by (rule returns_mono_pair) (use new_blockI [of _ ?bs p "p + need sz" bs k] al sp in \<open>auto simp: malloc_result_def\<close>)
qed

lemma malloc_new:
  assumes h: "heap_rep (k_heap k) bs" and q: "k_irq_nest k = 0" and z: "sz \<noteq> 0"
  shows "returns (rt_malloc sz (k_irq_nest k) (k_heap k)) (\<lambda>(r, h'). malloc_result sz bs k r h')"
proof (cases "scarce (need sz) bs")
  case False
  then obtain R where "room R bs" "need sz + (SIZEOF_STRUCT_MEM + MIN_SIZE_ALIGNED) \<le> R" by (auto simp: scarce_def not_less)
  from malloc_roomy [OF h z this] show ?thesis unfolding q .
next
  case True
  then have sp: "spends (need sz) bs bs'" for bs' by (fastforce simp: scarce_def spends_def)
  let ?fit = "if unat (rt_align sz) \<le> hp_size_aligned (k_heap k) then first_fit (hp_size_aligned (k_heap k) - request sz) (request sz) bs else None"
  show ?thesis
    unfolding q
  proof (rule returns_mono_pair [OF rt_malloc_returns [OF h z]])
    fix r h' assume m: "case ?fit of None \<Rightarrow> r = None \<and> h' = k_heap k
      | Some p \<Rightarrow> \<exists>n bs'. r = Some (hp_ptr (k_heap k) + p + SIZEOF_STRUCT_MEM) \<and> heap_rep h' bs' \<and> allocated bs' = insert (p, n) (allocated bs) \<and>
          (p, n) \<notin> allocated bs \<and> p + SIZEOF_STRUCT_MEM + request sz \<le> n \<and> 4 dvd p \<and>
          hp_end h' = hp_end (k_heap k) \<and> hp_ptr h' = hp_ptr (k_heap k) \<and> hp_size_aligned h' = hp_size_aligned (k_heap k)"
    show "malloc_result sz bs k r h'"
    proof (cases ?fit)
      case None
      then show ?thesis using m True by (simp add: malloc_result_def)
    next
      case (Some p)
      then obtain n bs' where "r = Some (hp_ptr (k_heap k) + p + SIZEOF_STRUCT_MEM)" "heap_rep h' bs'" "allocated bs' = insert (p, n) (allocated bs)"
        "(p, n) \<notin> allocated bs" "hp_end h' = hp_end (k_heap k)" "hp_ptr h' = hp_ptr (k_heap k)" "hp_size_aligned h' = hp_size_aligned (k_heap k)"
        using m by auto
      then show ?thesis using new_blockI [of h' bs' p n bs k] sp by (auto simp: malloc_result_def)
    qed
  qed
qed

lemma new_block_fresh: "placed bs k \<Longrightarrow> new_block bs k bs' h' a \<Longrightarrow> k_threads k a = None"
  by (auto simp: placed_def new_block_def)

lemma new_block_placed: "placed bs k \<Longrightarrow> new_block bs k bs' h' a \<Longrightarrow> placed bs' (k\<lparr>k_heap := h'\<rparr>)"
  by (simp add: placed_def new_block_def outside_def)

lemma kinvx_heap [simp]: "kinvx X (k\<lparr>k_heap := h\<rparr>) = kinvx X k"
  by (simp add: kinvx_def)

lemma boot_new_block: "boot_invx X bs k \<Longrightarrow> new_block bs k bs' h' a \<Longrightarrow> boot_invx X bs' (k\<lparr>k_heap := h'\<rparr>)"
  using new_block_placed [of bs k bs' h' a] calm_cong [of k "k\<lparr>k_heap := h'\<rparr>"] by (simp add: boot_invx_def new_block_def)

section \<open>Building a thread\<close>

text \<open>What a step of the start leaves alone: the threads of \<open>E\<close> are new or changed, all others, and the running one, stay.\<close>

definition boot_frame :: "nat set \<Rightarrow> kernel \<Rightarrow> kernel \<Rightarrow> bool" where
  "boot_frame E k k' \<longleftrightarrow> k_current k' = k_current k \<and> (\<forall>t. t \<notin> E \<longrightarrow> k_threads k' t = k_threads k t) \<and>
     hp_ptr (k_heap k') = hp_ptr (k_heap k) \<and> hp_end (k_heap k') = hp_end (k_heap k)"

lemma boot_frame_refl [simp]: "boot_frame E k k"
  by (simp add: boot_frame_def)

lemma boot_frame_trans: "boot_frame E k1 k2 \<Longrightarrow> boot_frame E k2 k3 \<Longrightarrow> boot_frame E k1 k3"
  by (simp add: boot_frame_def)

lemma kinvx_new:
  assumes i: "kinv k" and t: "k_threads k t = None" and n: "k_timer_list k = []"
  shows "kinvx {t} (k\<lparr>k_threads := (k_threads k)(t \<mapsto> th)\<rparr>)"
proof -
  have L: "linv {} (k_lists k) (k_ready_group k) (k_threads k)" and C: "cinv {} (k_current k) (k_threads k)"
    and M: "tinv {} (k_timers k) (k_timer_list k) (k_timer_tmp k) (k_threads k)" using i by (simp_all add: kinvx_def)
  have off: "u \<noteq> t" if "u \<in> set (k_lists k h)" for u h using linvD(4) [OF L that] t by auto
  have "linv {t} (k_lists k) (k_ready_group k) ((k_threads k)(t \<mapsto> th))"
  proof (rule linvI)
    show "\<exists>uh. ((k_threads k)(t \<mapsto> th)) u = Some uh \<and> member_ok h uh" if "u \<in> set (k_lists k h)" for h u
      using linvD(4) [OF L that] off [OF that] by simp
    show "u \<notin> {t}" if "u \<in> set (k_lists k h)" for h u using off [OF that] by simp
    show "thread_wf uh" "thread_stat uh = RT_THREAD_READY \<Longrightarrow> u \<in> set (k_lists k (Ready (prio uh)))"
      if "((k_threads k)(t \<mapsto> th)) u = Some uh" "u \<notin> {t}" for u uh
      using that linvD(5,6) [OF L, of u uh] by simp_all
  qed (rule linvD [OF L])+
  moreover have "cinv {t} (k_current k) ((k_threads k)(t \<mapsto> th))"
    by (rule cinvI) (use cinvD [OF C] in \<open>auto split: if_splits\<close>)
  moreover have "tinv {t} (k_timers k) (k_timer_list k) (k_timer_tmp k) ((k_threads k)(t \<mapsto> th))"
    by (rule tinvI) (use tinvD [OF M] n in auto)
  ultimately show ?thesis by (simp add: kinvx_def)
qed

lemma boot_new_thread:
  assumes i: "boot_inv bs k" and t: "k_threads k t = None" and p: "at_block (k_heap k) bs t \<or> outside (k_heap k) t"
    and o: "C RT_Object_Class_Timer = k_objects k RT_Object_Class_Timer" "set (C RT_Object_Class_Thread) \<subseteq> insert (OThread t) (set (k_objects k RT_Object_Class_Thread))"
  shows "boot_invx {t} bs (k\<lparr>k_threads := (k_threads k)(t \<mapsto> th), k_objects := C\<rparr>)"
proof -
  note b = boot_invD [OF i]
  let ?k = "k\<lparr>k_threads := (k_threads k)(t \<mapsto> th), k_objects := C\<rparr>"
  have c: "k_current k \<noteq> Some t" using t b(2) by (auto simp: calm_def)
  have "kinvx {t} ?k" using kinvx_new [OF b(1) t b(3), of th] by simp
  moreover have "calm ?k" by (rule calm_cong [OF b(2)]) (use c in auto)
  moreover have "placed bs ?k" using b(5) p o unfolding placed_def by auto
  ultimately show ?thesis using b c by (auto simp: boot_invx_def)
qed

lemma thread_timer_new: "OTimer (Thread_timer t) \<notin> set (k_objects k RT_Object_Class_Timer)"
  if "placed bs k" and "k_threads k t = None"
  using that by (auto simp: placed_def)

text \<open>\<^verbatim>\<open>_rt_thread_init\<close>: the thread is initialised and its timer registered.\<close>

lemma settle_init:
  assumes i: "kinvx {t} k" and t: "k_threads k t = Some th" and w: "thread_wf th" "thread_stat th = RT_THREAD_INIT"
    and n: "k_timer_list k = []" and o: "own_timer (k_timers k) t"
  shows "kinv k"
proof -
  have "kinvx ({} - {t}) k"
    by (rule kinvx_settle [OF i t w(1)]) (use w(2) n o in simp_all)
  then show ?thesis by simp
qed

text \<open>
  The devices, the mutexes and the place of the heap stay, and so do the containers of the objects that are neither threads nor
  timers, up to a stray thread.
\<close>

definition other_objects :: "kernel \<Rightarrow> kernel \<Rightarrow> bool" where
  "other_objects k k' \<longleftrightarrow> k_devices k' = k_devices k \<and> k_mutexes k' = k_mutexes k \<and>
     hp_ptr (k_heap k') = hp_ptr (k_heap k) \<and> hp_end (k_heap k') = hp_end (k_heap k) \<and> (\<forall>c. c \<noteq> RT_Object_Class_Thread \<longrightarrow> c \<noteq> RT_Object_Class_Timer \<longrightarrow>
     (\<exists>P. (\<forall>ob. (\<forall>t. ob \<noteq> OThread t) \<longrightarrow> P ob) \<and> k_objects k' c = filter P (k_objects k c)))"

lemma other_objectsI:
  assumes "k_devices k' = k_devices k" and "k_mutexes k' = k_mutexes k"
    and "hp_ptr (k_heap k') = hp_ptr (k_heap k)" "hp_end (k_heap k') = hp_end (k_heap k)"
    and "\<And>c. c \<noteq> RT_Object_Class_Thread \<Longrightarrow> c \<noteq> RT_Object_Class_Timer \<Longrightarrow> k_objects k' c = k_objects k c"
  shows "other_objects k k'"
  using assms by (auto simp: other_objects_def intro!: exI [of _ "\<lambda>_. True"])

lemma other_objects_removeAll:
  "hp_ptr h = hp_ptr (k_heap k) \<Longrightarrow> hp_end h = hp_end (k_heap k) \<Longrightarrow>
    other_objects k (k\<lparr>k_heap := h, k_objects := \<lambda>c. removeAll (OThread a) (((k_objects k)(RT_Object_Class_Thread := xs)) c)\<rparr>)"
  by (auto simp: other_objects_def removeAll_filter_not_eq intro!: exI [of _ "(\<noteq>) (OThread a)"])

lemma other_objects_refl [simp]: "other_objects k k"
  by (rule other_objectsI) simp_all

lemma other_objects_kept:
  assumes "other_objects k k'" and "c \<noteq> RT_Object_Class_Thread" "c \<noteq> RT_Object_Class_Timer"
  obtains P where "\<forall>ob. (\<forall>t. ob \<noteq> OThread t) \<longrightarrow> P ob" "k_objects k' c = filter P (k_objects k c)"
  using assms by (auto simp: other_objects_def)

lemma other_objects_trans:
  assumes "other_objects k1 k2" and "other_objects k2 k3"
  shows "other_objects k1 k3"
proof -
  have "\<exists>P. (\<forall>ob. (\<forall>t. ob \<noteq> OThread t) \<longrightarrow> P ob) \<and> k_objects k3 c = filter P (k_objects k1 c)"
    if c: "c \<noteq> RT_Object_Class_Thread" "c \<noteq> RT_Object_Class_Timer" for c
  proof -
    obtain P where P: "\<forall>ob. (\<forall>t. ob \<noteq> OThread t) \<longrightarrow> P ob" "k_objects k2 c = filter P (k_objects k1 c)" by (rule other_objects_kept [OF assms(1) c])
    obtain Q where Q: "\<forall>ob. (\<forall>t. ob \<noteq> OThread t) \<longrightarrow> Q ob" "k_objects k3 c = filter Q (k_objects k2 c)" by (rule other_objects_kept [OF assms(2) c])
    show ?thesis by (rule exI [of _ "\<lambda>ob. P ob \<and> Q ob"]) (use P Q in \<open>simp add: filter_filter\<close>)
  qed
  then show ?thesis using assms by (simp add: other_objects_def)
qed

lemma other_objects_eq:
  assumes "other_objects k k'" and "c \<noteq> RT_Object_Class_Thread" "c \<noteq> RT_Object_Class_Timer" and "\<forall>ob \<in> set (k_objects k c). \<forall>t. ob \<noteq> OThread t"
  shows "k_objects k' c = k_objects k c"
proof -
  obtain P where "\<forall>ob. (\<forall>t. ob \<noteq> OThread t) \<longrightarrow> P ob" "k_objects k' c = filter P (k_objects k c)"
    by (rule other_objects_kept [OF assms(1-3)])
  then show ?thesis using assms(4) by (simp add: filter_True)
qed

lemma thread_init_boot:
  assumes i: "boot_invx {t} bs k" and t: "k_threads k t = Some th0" "is_thread_object th0" and p: "unat priority < 32"
    and n: "OTimer (Thread_timer t) \<notin> set (k_objects k RT_Object_Class_Timer)"
  shows "returns (rt_thread_init' t entry param stack sz priority tick k) (\<lambda>(r, k'). r = RT_EOK \<and> boot_inv bs k' \<and>
    (\<exists>th. k_threads k' = (k_threads k)(t \<mapsto> th) \<and> thread_stat th = RT_THREAD_INIT \<and> unat (th_init_priority th) = unat priority \<and> is_thread_object th) \<and>
    k_lists k' = k_lists k \<and> k_current k' = k_current k \<and> k_mqs k' = k_mqs k \<and> k_heap k' = k_heap k \<and> other_objects k k')"
proof -
  note b = boot_invD [OF i]
  define th where "th = th0\<lparr>th_entry := entry, th_parameter := param, th_stack_addr := stack, th_stack_size := sz,
    th_init_priority := priority, th_current_priority := priority, th_number_mask := 0, th_init_tick := tick, th_remaining_tick := tick,
    th_error := RT_EOK, th_stat := RT_THREAD_INIT, th_cleanup := None, th_user_data := 0\<rparr>"
  define k1 where "k1 = k\<lparr>k_threads := (k_threads k)(t \<mapsto> th)\<rparr>"
  have c: "k_current k \<noteq> Some t" using b(8) by auto
  have f: "thread_wf th" "thread_stat th = RT_THREAD_INIT" "unat (th_init_priority th) = unat priority" "is_thread_object th"
    using p t(2) by (simp_all add: th_def thread_wf_def prio_def thread_stat_def is_thread_object_def)
  have k1: "kinvx {t} k1" using kinvx_upd_X [OF b(1)] by (simp add: k1_def)
  have "calm k1" by (rule calm_cong [OF b(2)]) (use c in \<open>auto simp: k1_def\<close>)
  then have init: "rt_object_init (OTimer (Thread_timer t)) RT_Object_Class_Timer (ob_name (th_parent th)) k1 =
    Some ((upd_header (OTimer (Thread_timer t)) (\<lambda>ob. ob\<lparr>ob_type := RT_Object_Class_Timer OR RT_Object_Class_Static, ob_name := rt_strncpy RT_NAME_MAX (ob_name (th_parent th))\<rparr>) k1)
      \<lparr>k_objects := (k_objects k1)(RT_Object_Class_Timer := OTimer (Thread_timer t) # k_objects k1 RT_Object_Class_Timer)\<rparr>)"
    by (rule calm_object_init [OF k1]) (use c n in \<open>auto simp: k1_def rt_object_get_information_def rt_object_container_def\<close>)
  define tm where "tm = (deactivate (set_flags (\<lambda>_. RT_TIMER_FLAG_ONE_SHOT) ((storage zero_timer (k_timers k (Thread_timer t)))
    \<lparr>tm_parent := (tm_parent (storage zero_timer (k_timers k (Thread_timer t))))\<lparr>ob_type := RT_Object_Class_Timer OR RT_Object_Class_Static, ob_name := rt_strncpy RT_NAME_MAX (ob_name (th_parent th))\<rparr>\<rparr>)))
    \<lparr>tm_timeout_func := Rt_thread_timeout, tm_parameter := t, tm_timeout_tick := 0, tm_init_tick := 0\<rparr>"
  define k2 where "k2 = k1\<lparr>k_timers := (k_timers k)(Thread_timer t \<mapsto> tm),
    k_objects := (k_objects k)(RT_Object_Class_Timer := OTimer (Thread_timer t) # k_objects k RT_Object_Class_Timer)\<rparr>"
  have e: "rt_thread_init' t entry param stack sz priority tick k = Some (RT_EOK, k2)"
    using t(1) p init unfolding rt_thread_init'_def
    by (simp add: mod_thread_def get_thread_def th_def [symmetric] k1_def [symmetric] rt_timer_init_def rt_timer_init'_def mod_timer_def)
      (simp add: k1_def k2_def tm_def)
  have tm: "is_timer_object tm" "thread_timer_wf t tm" "\<not> timer_activated tm"
    by (simp_all add: tm_def is_timer_object_def thread_timer_wf_def timer_periodic_def timer_static_def timer_activated_def deactivate_def set_flags_def)
  have k2: "kinvx {t} k2"
    using k1 tinv_upd_off [of "{t}" "k_timers k" "[]" "k_timer_tmp k" "k_threads k1" t tm] tm(3) b(3) by (simp add: k2_def kinvx_def k1_def)
  have "kinv k2"
    by (rule settle_init [OF k2 _ f(1,2)]) (use b(3) tm in \<open>auto simp: k2_def k1_def own_timer_def\<close>)
  moreover have "calm k2" by (rule calm_cong [OF b(2)]) (use c in \<open>auto simp: k2_def k1_def\<close>)
  moreover have "placed bs k2" using b(5) t(1) unfolding placed_def k2_def k1_def by auto
  ultimately have "boot_inv bs k2" using b by (simp add: boot_invx_def k2_def k1_def)
  then show ?thesis unfolding e using f by (auto simp: k2_def k1_def intro!: other_objectsI)
qed

text \<open>\<^verbatim>\<open>rt_thread_startup\<close> of a thread that has been initialised, below the priority of the running thread.\<close>

definition started_thread :: "rt_thread \<Rightarrow> rt_thread" where
  "started_thread th = set_stat RT_THREAD_READY (th\<lparr>th_current_priority := th_init_priority th,
     th_number_mask := push_bit (unat (th_init_priority th)) 1, th_stat := RT_THREAD_SUSPEND\<rparr>)"

definition below_current :: "kernel \<Rightarrow> nat \<Rightarrow> bool" where
  "below_current k p \<longleftrightarrow> (\<forall>c th. k_current k = Some c \<longrightarrow> k_threads k c = Some th \<longrightarrow> prio th < p)"

lemma init_nowhere:
  assumes "kinv k" and "k_threads k t = Some th" and "thread_stat th = RT_THREAD_INIT"
  shows "lists_remove t (k_lists k) = k_lists k"
proof (rule ext)
  fix h
  have "t \<notin> set (k_lists k h)"
    using linvD(4) [of "{}" "k_lists k" "k_ready_group k" "k_threads k" t h] assms
    by (auto simp: kinvx_def member_ok_def split: lhead.splits)
  then show "lists_remove t (k_lists k) h = k_lists k h" by (simp add: lists_remove_def removeAll_id)
qed

lemma thread_startup_boot:
  assumes i: "boot_inv bs k" and t: "k_threads k t = Some th" "thread_stat th = RT_THREAD_INIT"
    and p: "below_current k (unat (th_init_priority th))"
  shows "returns (rt_thread_startup t k) (\<lambda>(r, k'). r = RT_EOK \<and> boot_inv bs k' \<and> k_threads k' = (k_threads k)(t \<mapsto> started_thread th) \<and>
    k_lists k' = lists_insert_before (Ready (unat (th_init_priority th))) t (k_lists k) \<and> k_current k' = k_current k \<and>
    k_mqs k' = k_mqs k \<and> k_heap k' = k_heap k \<and> other_objects k k')"
proof -
  note b = boot_invD [OF i]
  have c: "k_current k \<noteq> Some t" using t b(2) running_word by (auto simp: calm_def)
  have w: "thread_wf th" "own_timer (k_timers k) t"
    using b(1) t linvD(5) tinv_own_timer by (auto simp: kinvx_def)
  define th1 where "th1 = th\<lparr>th_current_priority := th_init_priority th, th_number_mask := push_bit (unat (th_init_priority th)) 1,
    th_stat := RT_THREAD_SUSPEND\<rparr>"
  define k1 where "k1 = k\<lparr>k_threads := (k_threads k)(t \<mapsto> th1)\<rparr>"
  have f: "live th1" "thread_stat th1 = RT_THREAD_SUSPEND" "prio th1 = unat (th_init_priority th)" "is_thread_object th"
    using w(1) t(2) by (simp_all add: th1_def live_def thread_wf_def prio_def thread_stat_def is_thread_object_def)
  have "tlist_remove t k = k" using init_nowhere [OF b(1) t] by (simp add: tlist_remove_def)
  then have "kinvx {t} k" using kinvx_leave [OF b(1) t(1)] t(2) by simp
  then have "kinvx {t} k1" using kinvx_upd_X [of "{t}" k t th1] by (simp add: k1_def)
  then have "kinvx ({} - {t}) k1"
    by (rule kinvx_settle [where th = th1]) (use f w(2) live_wf [OF f(1)] in \<open>simp_all add: k1_def\<close>)
  then have k1: "kinv k1" by simp
  have t1: "k_threads k1 t = Some th1" by (simp add: k1_def)
  from rt_thread_resume_kinvx [OF k1 t1 _ f(2)] obtain k2 where r: "rt_thread_resume t k1 = Some (RT_EOK, k2)"
    and k2: "kinv k2" "woken t th1 k1 k2" by (auto simp: returns_def)
  have cf: "core_frame k1 k2" by (rule framesrD [OF frames_thread_resume [OF core_frame_refl] r])
  note cf = core_frameD [OF cf]
  have st: "started_thread th = set_stat RT_THREAD_READY th1" unfolding started_thread_def th1_def ..
  have lists: "k_lists k2 = lists_insert_before (Ready (unat (th_init_priority th))) t (k_lists k)"
    and th2: "k_threads k2 = (k_threads k)(t \<mapsto> started_thread th)" and o: "k_current k2 = k_current k" "k_timer_list k2 = []"
    using k2(2) c init_nowhere [OF b(1) t] b(3) f(3) by (simp_all add: woken_def k1_def st)
  have "calm k2"
    unfolding calm_def
  proof (intro conjI)
    show "k_lock_nest k2 = 0" "k_irq_nest k2 = 0" using cf b(6,7) by (simp_all add: k1_def)
    show "case k_current k2 of None \<Rightarrow> True | Some c \<Rightarrow> \<exists>th. k_threads k2 c = Some th \<and> th_stat th = RT_THREAD_RUNNING \<and> (\<forall>p \<le> prio th. k_lists k2 (Ready p) = [])"
      using b(2) p c unfolding calm_def below_current_def o(1) th2 lists by (auto simp: lists_insert_before_def split: option.splits)
  qed
  moreover have "placed bs k2" using b(5) t(1) unfolding placed_def th2 using cf(6,7) by (auto simp: k1_def)
  ultimately have inv: "boot_inv bs k2" using k2(1) b(4) o(2) cf(7) by (simp add: boot_invx_def k1_def)
  have "(if rt_thread_self k2 \<noteq> None then rt_schedule k2 else Some k2) = Some k2"
    using calm_schedule [OF k2(1) \<open>calm k2\<close>] by (auto simp: rt_thread_self_def)
  moreover have "k1 = k\<lparr>k_threads := (k_threads k)(t \<mapsto> th\<lparr>th_current_priority := th_init_priority th,
      th_number_mask := push_bit (unat (th_init_priority th)) 1, th_stat := RT_THREAD_SUSPEND\<rparr>)\<rparr>" unfolding k1_def th1_def ..
  ultimately have "rt_thread_startup t k = Some (RT_EOK, k2)"
    using t f(4) r unfolding rt_thread_startup_def by (simp add: get_thread_def mod_thread_def prio_def)
  then show ?thesis using inv th2 lists o cf by (auto simp: k1_def intro!: other_objectsI)
qed

section \<open>Creating objects\<close>

text \<open>What \<^verbatim>\<open>rt_object_allocate\<close> makes of the memory it has taken.\<close>

definition fresh_object :: "u8 \<Rightarrow> oid \<Rightarrow> u8 list \<Rightarrow> kernel \<Rightarrow> kernel" where
  "fresh_object type ob name k = (upd_header ob (\<lambda>_. \<lparr>ob_name = rt_strncpy RT_NAME_MAX name, ob_type = type, ob_flag = 0\<rparr>) (drop_object ob k))
     \<lparr>k_objects := (k_objects k)(type := ob # k_objects k type)\<rparr>"

definition allocate_result :: "u8 \<Rightarrow> u32 \<Rightarrow> (nat \<Rightarrow> oid) \<Rightarrow> u8 list \<Rightarrow> blk list \<Rightarrow> kernel \<Rightarrow> oid option \<Rightarrow> kernel \<Rightarrow> bool" where
  "allocate_result type sz ob name bs k r k' \<longleftrightarrow> (case r of None \<Rightarrow> k' = k \<and> scarce (need sz) bs
     | Some x \<Rightarrow> \<exists>a h bs1. x = ob a \<and> new_block bs k bs1 h a \<and> spends (need sz) bs bs1 \<and> k' = fresh_object type (ob a) name (k\<lparr>k_heap := h\<rparr>))"

lemma fresh_objects: "k_objects (upd_header ob f k) = k_objects k" "k_objects (drop_object ob k) = k_objects k"
  by (cases ob; simp)+

lemma object_allocate_boot:
  assumes i: "boot_inv bs k" and t: "rt_object_get_information type = Some sz" "sz \<noteq> 0" and o: "\<And>a. obj_at type a = Some (ob a)"
  shows "returns (rt_object_allocate type name k) (\<lambda>(r, k'). allocate_result type sz ob name bs k r k')"
proof -
  note b = boot_invD [OF i]
  obtain r h where m: "rt_malloc sz (k_irq_nest k) (k_heap k) = Some (r, h)" "malloc_result sz bs k r h"
    using malloc_new [OF b(4,6) t(2)] by (auto simp: returns_def)
  show ?thesis
  proof (cases r)
    case None
    then show ?thesis using m b(6) t(1) by (simp add: rt_object_allocate_def malloc_result_def allocate_result_def)
  next
    case (Some a)
    then obtain bs1 where "new_block bs k bs1 h a" "spends (need sz) bs bs1" using m(2) by (auto simp: malloc_result_def)
    then show ?thesis
      using Some m(1) b(6) t(1) o [of a] by (auto simp: rt_object_allocate_def allocate_result_def fresh_object_def fresh_objects)
  qed
qed

text \<open>Giving a block back.\<close>

lemma free_block:
  assumes "heap_rep h bs" and "at_block h bs a"
  shows "returns (rt_free (Some a) 0 h) (\<lambda>h'. \<exists>bs'. heap_rep h' bs' \<and> hp_ptr h' = hp_ptr h \<and> hp_end h' = hp_end h \<and>
    (\<forall>b. at_block h' bs' b \<longleftrightarrow> at_block h bs b \<and> b \<noteq> a))"
proof -
  obtain p m where p: "a = hp_ptr h + p + SIZEOF_STRUCT_MEM" "(p, m) \<in> allocated bs" using assms(2) by (auto simp: at_block_def)
  obtain as cs where b: "bs = as @ (p, m, True) # cs" by (rule allocated_split [OF p(2)])
  have eq: "at_block h' bs' x \<longleftrightarrow> at_block h bs x \<and> x \<noteq> a" if "allocated bs' = allocated bs - {(p, m)}" "hp_ptr h' = hp_ptr h" for h' bs' x
    using that allocated_unique [OF assms(1), of p] p by (auto simp: at_block_def)
  show ?thesis
    unfolding p(1) by (rule returns_mono [OF rt_free_block [OF assms(1) [unfolded b]]]) (use eq p(1) in \<open>auto simp: b [symmetric]\<close>)
qed

text \<open>Giving such a block back when a second one cannot be had.\<close>

lemma free_new:
  assumes n: "new_block bs k bs1 h a"
  shows "returns (rt_free (Some a) 0 h) (\<lambda>h'. \<exists>bs'. heap_rep h' bs' \<and> hp_ptr h' = hp_ptr (k_heap k) \<and> hp_end h' = hp_end (k_heap k) \<and>
    (\<forall>b. at_block h' bs' b \<longleftrightarrow> at_block (k_heap k) bs b))"
proof -
  have h: "heap_rep h bs1" "hp_ptr h = hp_ptr (k_heap k)" "hp_end h = hp_end (k_heap k)" and at: "at_block h bs1 a" "\<not> at_block (k_heap k) bs a"
    "\<And>b. at_block h bs1 b \<longleftrightarrow> b = a \<or> at_block (k_heap k) bs b" using n by (auto simp: new_block_def)
  show ?thesis by (rule returns_mono [OF free_block [OF h(1) at(1)]]) (use at h in auto)
qed

lemma delete_new_thread:
  assumes i: "boot_inv bs k" and n: "new_block bs k bs1 h a"
  shows "returns (rt_object_delete (OThread a) (fresh_object RT_Object_Class_Thread (OThread a) name (k\<lparr>k_heap := h\<rparr>)))
    (\<lambda>k'. (\<exists>bs'. boot_inv bs' k') \<and> k_threads k' = k_threads k \<and> k_lists k' = k_lists k \<and> k_current k' = k_current k \<and> k_mqs k' = k_mqs k \<and>
      hp_ptr (k_heap k') = hp_ptr (k_heap k) \<and> hp_end (k_heap k') = hp_end (k_heap k) \<and> other_objects k k')"
proof -
  note b = boot_invD [OF i]
  have t: "k_threads k a = None" by (rule new_block_fresh [OF b(5) n])
  obtain h' bs' where f: "rt_free (Some a) 0 h = Some h'" "heap_rep h' bs'" "hp_ptr h' = hp_ptr (k_heap k)" "hp_end h' = hp_end (k_heap k)"
    "\<forall>x. at_block h' bs' x \<longleftrightarrow> at_block (k_heap k) bs x" using free_new [OF n] by (auto simp: returns_def)
  define k' where "k' = k\<lparr>k_heap := h', k_objects := \<lambda>c. removeAll (OThread a) (((k_objects k)(RT_Object_Class_Thread :=
    OThread a # k_objects k RT_Object_Class_Thread)) c)\<rparr>"
  have "rt_object_delete (OThread a) (fresh_object RT_Object_Class_Thread (OThread a) name (k\<lparr>k_heap := h\<rparr>)) = Some k'"
    using f(1) b(6) t by (simp add: rt_object_delete_def fresh_object_def k'_def fun_upd_idem)
  moreover have "boot_inv bs' k'"
  proof -
    have "calm k'" by (rule calm_cong [OF b(2)]) (simp_all add: k'_def)
    moreover have "placed bs' k'" using b(5) f unfolding placed_def k'_def outside_def by (auto split: if_splits)
    ultimately show ?thesis using b f(2) by (simp add: boot_invx_def k'_def)
  qed
  moreover have "other_objects k k'" unfolding k'_def by (rule other_objects_removeAll) (use f in simp_all)
  ultimately show ?thesis using f(3,4) by (auto simp: k'_def)
qed

text \<open>\<^verbatim>\<open>rt_thread_create\<close>: a new thread, or no memory for it.\<close>

definition same_rest :: "kernel \<Rightarrow> kernel \<Rightarrow> bool" where
  "same_rest k k' \<longleftrightarrow> k_current k' = k_current k \<and> k_mqs k' = k_mqs k \<and>
     hp_ptr (k_heap k') = hp_ptr (k_heap k) \<and> hp_end (k_heap k') = hp_end (k_heap k) \<and> other_objects k k'"

lemma same_rest_trans: "same_rest k1 k2 \<Longrightarrow> same_rest k2 k3 \<Longrightarrow> same_rest k1 k3"
  by (auto simp: same_rest_def intro: other_objects_trans)

definition thread_made :: "nat \<Rightarrow> (rt_thread \<Rightarrow> bool) \<Rightarrow> blk list \<Rightarrow> kernel \<Rightarrow> nat option \<Rightarrow> kernel \<Rightarrow> bool" where
  "thread_made N P bs k r k' \<longleftrightarrow> same_rest k k' \<and> (\<exists>bs'. boot_inv bs' k' \<and> (case r of None \<Rightarrow> scarce N bs \<and> k_threads k' = k_threads k
     | Some t \<Rightarrow> spends N bs bs' \<and> \<not> outside (k_heap k) t \<and> k_threads k t = None \<and>
        (\<exists>th. k_threads k' = (k_threads k)(t \<mapsto> th) \<and> P th)))"

definition init_thread :: "nat \<Rightarrow> rt_thread \<Rightarrow> bool" where
  "init_thread p th \<longleftrightarrow> thread_stat th = RT_THREAD_INIT \<and> unat (th_init_priority th) = p"

lemma thread_information: "rt_object_get_information RT_Object_Class_Thread = Some 128" "obj_at RT_Object_Class_Thread a = Some (OThread a)"
  by (simp_all add: rt_object_get_information_def rt_object_container_def obj_at_def)

lemma fresh_thread_eq:
  "fresh_object RT_Object_Class_Thread (OThread a) name k = k\<lparr>k_threads := (k_threads k)(a \<mapsto>
     zero_thread\<lparr>th_parent := \<lparr>ob_name = rt_strncpy RT_NAME_MAX name, ob_type = RT_Object_Class_Thread, ob_flag = 0\<rparr>\<rparr>),
     k_objects := (k_objects k)(RT_Object_Class_Thread := OThread a # k_objects k RT_Object_Class_Thread)\<rparr>"
  by (simp add: fresh_object_def storage_def)

lemma thread_create_stack:
  assumes i: "boot_inv bs k" and n: "new_block bs k bs1 h a" "spends N bs bs1" and p: "unat priority < 32" and z: "sz \<noteq> 0"
    and k1_def: "k1 = fresh_object RT_Object_Class_Thread (OThread a) name (k\<lparr>k_heap := h\<rparr>)"
  shows "returns (rt_malloc sz (k_irq_nest k1) (k_heap k1)) (\<lambda>(r, h2). returns (case r of
      None \<Rightarrow> do { k \<leftarrow> rt_object_delete (OThread a) (k1\<lparr>k_heap := h2\<rparr>); Some (None, k) }
    | Some stack \<Rightarrow> do { (_, k) \<leftarrow> rt_thread_init' a entry param stack sz priority tick (k1\<lparr>k_heap := h2\<rparr>); Some (Some a, k) })
    (\<lambda>(r, k'). thread_made (N + need sz) (init_thread (unat priority)) bs k r k' \<and> k_lists k' = k_lists k))"
proof -
  note b = boot_invD [OF i]
  have t: "k_threads k a = None" by (rule new_block_fresh [OF b(5) n(1)])
  have at: "at_block h bs1 a" using n(1) by (simp add: new_block_def)
  have kh: "boot_inv bs1 (k\<lparr>k_heap := h\<rparr>)" by (rule boot_new_block [OF i n(1)])
  have k1: "boot_invx {a} bs1 k1" unfolding k1_def fresh_thread_eq
    by (rule boot_new_thread [OF kh]) (use t at in auto)
  note b1 = boot_invD [OF k1]
  have f: "k_threads k1 = (k_threads k)(a \<mapsto> zero_thread\<lparr>th_parent := \<lparr>ob_name = rt_strncpy RT_NAME_MAX name, ob_type = RT_Object_Class_Thread, ob_flag = 0\<rparr>\<rparr>)"
    "k_lists k1 = k_lists k" "k_current k1 = k_current k" "k_mqs k1 = k_mqs k" "k_heap k1 = h" "k_objects k1 RT_Object_Class_Timer = k_objects k RT_Object_Class_Timer"
    by (simp_all add: k1_def fresh_thread_eq)
  have fo: "other_objects k k'" if "other_objects (k1\<lparr>k_heap := x\<rparr>) k'" "hp_ptr x = hp_ptr (k_heap k)" "hp_end x = hp_end (k_heap k)" for x k'
    by (rule other_objects_trans [OF _ that(1)]) (use that(2,3) in \<open>auto simp: k1_def fresh_thread_eq intro: other_objectsI\<close>)
  have nt: "OTimer (Thread_timer a) \<notin> set (k_objects k1 RT_Object_Class_Timer)" using thread_timer_new [OF b(5) t] f(6) by simp
  show ?thesis
  proof (rule returns_mono_pair [OF malloc_new [OF b1(4,6) z]])
    fix r h2 assume m: "malloc_result sz bs1 k1 r h2"
    show "returns (case r of None \<Rightarrow> do { k \<leftarrow> rt_object_delete (OThread a) (k1\<lparr>k_heap := h2\<rparr>); Some (None, k) }
      | Some stack \<Rightarrow> do { (_, k) \<leftarrow> rt_thread_init' a entry param stack sz priority tick (k1\<lparr>k_heap := h2\<rparr>); Some (Some a, k) })
      (\<lambda>(r, k'). thread_made (N + need sz) (init_thread (unat priority)) bs k r k' \<and> k_lists k' = k_lists k)"
    proof (cases r)
      case None
      then have "k1\<lparr>k_heap := h2\<rparr> = k1" "scarce (N + need sz) bs" using m scarce_spends [OF n(2)] by (simp_all add: malloc_result_def)
      then show ?thesis
        using None delete_new_thread [OF i n(1), of name] by (auto simp: thread_made_def same_rest_def k1_def elim!: returns_mono)
    next
      case (Some stack)
      then obtain bs2 where s: "new_block bs1 k1 bs2 h2 stack" "spends (need sz) bs1 bs2" using m by (auto simp: malloc_result_def)
      have i2: "boot_invx {a} bs2 (k1\<lparr>k_heap := h2\<rparr>)" by (rule boot_new_block [OF k1 s(1)])
      
      have "returns (rt_thread_init' a entry param stack sz priority tick (k1\<lparr>k_heap := h2\<rparr>)) (\<lambda>(r, k'). boot_inv bs2 k' \<and>
        (\<exists>th. k_threads k' = (k_threads k)(a \<mapsto> th) \<and> init_thread (unat priority) th) \<and> k_lists k' = k_lists k \<and> same_rest k k')"
        by (rule returns_mono_pair [OF thread_init_boot [OF i2 _ _ p]])
          (use f fo nt n(1) s(1) in \<open>auto simp: is_thread_object_def init_thread_def same_rest_def new_block_def\<close>)
      then show ?thesis
        using Some spends_trans [OF n(2) s(2)] t n(1) unfolding thread_made_def new_block_def by (auto elim!: returns_mono) blast
    qed
  qed
qed

lemma thread_create_boot:
  assumes i: "boot_inv bs k" and p: "unat priority < 32" and z: "sz \<noteq> 0"
  shows "returns (rt_thread_create name entry param sz priority tick k)
    (\<lambda>(r, k'). thread_made (need 128 + need sz) (init_thread (unat priority)) bs k r k' \<and> k_lists k' = k_lists k)"
  unfolding rt_thread_create_def
proof (rule returns_bind_pair [OF object_allocate_boot [OF i thread_information(1) _ thread_information(2)]])
  fix r k1 assume a: "allocate_result RT_Object_Class_Thread 128 OThread name bs k r k1"
  show "returns (case r of None \<Rightarrow> Some (None, k1)
     | Some ob \<Rightarrow> do {
         (stack_start, h) \<leftarrow> rt_malloc sz (k_irq_nest k1) (k_heap k1);
         k \<leftarrow> Some (k1\<lparr>k_heap := h\<rparr>);
         case stack_start of
           None \<Rightarrow> do { k \<leftarrow> rt_object_delete ob k; Some (None, k) }
         | Some stack \<Rightarrow> do { (_, k) \<leftarrow> rt_thread_init' (obj_addr ob) entry param stack sz priority tick k; Some (Some (obj_addr ob), k) }
       }) (\<lambda>(r, k'). thread_made (need 128 + need sz) (init_thread (unat priority)) bs k r k' \<and> k_lists k' = k_lists k)"
  proof (cases r)
    case None
    then show ?thesis using a i scarce_mono [of "need 128" bs "need 128 + need sz"]
      by (auto simp: allocate_result_def thread_made_def same_rest_def)
  next
    case (Some ob)
    then obtain x h bs1 where x: "ob = OThread x" "new_block bs k bs1 h x" "spends (need 128) bs bs1"
      "k1 = fresh_object RT_Object_Class_Thread (OThread x) name (k\<lparr>k_heap := h\<rparr>)" using a by (auto simp: allocate_result_def)
    from thread_create_stack [OF i x(2,3) p z x(4)] show ?thesis
      unfolding Some x(1) option.case obj_addr.simps by (simp add: case_prod_unfold)
  qed
qed simp

text \<open>The tasks of the program and the main thread: created and started below the running thread.\<close>

definition ready_thread :: "nat \<Rightarrow> rt_thread \<Rightarrow> bool" where
  "ready_thread p th \<longleftrightarrow> thread_stat th = RT_THREAD_READY \<and> prio th = p"

lemma started_ready: "init_thread p th \<Longrightarrow> ready_thread p (started_thread th)"
  by (simp add: init_thread_def ready_thread_def started_thread_def prio_def)

lemma below_current_new:
  "below_current k p \<Longrightarrow> k_current k' = k_current k \<Longrightarrow> k_threads k' = (k_threads k)(t \<mapsto> th) \<Longrightarrow> k_threads k t = None \<Longrightarrow> calm k \<Longrightarrow> below_current k' p"
  by (auto simp: below_current_def calm_def)

lemma created_startup:
  assumes i: "boot_inv bs k" and m: "thread_made N (init_thread p) bs k (Some t) k1" "k_lists k1 = k_lists k" and b: "below_current k p"
  shows "returns (rt_thread_startup t k1) (\<lambda>(r, k'). thread_made N (ready_thread p) bs k (Some t) k' \<and>
    k_lists k' = lists_insert_before (Ready p) t (k_lists k))"
proof -
  obtain bs' th where n: "boot_inv bs' k1" "spends N bs bs'" "k_threads k t = None" "k_threads k1 = (k_threads k)(t \<mapsto> th)" "init_thread p th"
    "same_rest k k1" "\<not> outside (k_heap k) t" using m(1) by (auto simp: thread_made_def)
  have bc: "below_current k1 (unat (th_init_priority th))"
    using below_current_new [OF b _ n(4,3) boot_invD(2) [OF i]] n(5,6) by (simp add: init_thread_def same_rest_def)
  show ?thesis
    by (rule returns_mono_pair [OF thread_startup_boot [OF n(1) _ _ bc]])
      (use n m(2) started_ready [OF n(5)] in \<open>auto simp: thread_made_def init_thread_def same_rest_def intro: other_objects_trans\<close>)
qed

lemma start_task_boot:
  assumes i: "boot_inv bs k" and p: "unat priority < 32" "below_current k (unat priority)"
  shows "returns (start_task name entry priority k) (\<lambda>(r, k'). thread_made (need 128 + need 4096) (ready_thread (unat priority)) bs k r k')"
  unfolding start_task_def
proof (rule returns_bind_pair [OF thread_create_boot [OF i p(1)]])
  fix r k1 assume "thread_made (need 128 + need 4096) (init_thread (unat priority)) bs k r k1 \<and> k_lists k1 = k_lists k"
  then have m: "thread_made (need 128 + need 4096) (init_thread (unat priority)) bs k r k1" "k_lists k1 = k_lists k" by simp_all
  show "returns (case r of None \<Rightarrow> Some (None, k1) | Some t \<Rightarrow> do { (_, k) \<leftarrow> rt_thread_startup t k1; Some (Some t, k) })
    (\<lambda>(r, k'). thread_made (need 128 + need 4096) (ready_thread (unat priority)) bs k r k')"
  proof (cases r)
    case None
    then show ?thesis using m(1) by (simp add: thread_made_def)
  next
    case (Some t)
    then show ?thesis using created_startup [OF i m(1) [unfolded Some] m(2) p(2)] by (auto elim!: returns_mono)
  qed
qed simp

text \<open>The IPC objects \<^verbatim>\<open>main\<close> creates: the event and the message queue.\<close>

lemma boot_fresh_ipc:
  assumes i: "boot_inv bs k" and o: "ipc_object ob"
  shows "boot_inv bs (fresh_object type ob name k)"
  using o boot_invD(1) [OF i]
  by (intro boot_invx_cong [OF i]; cases ob) (auto simp: fresh_object_def kinvx_def split: if_splits)

lemma kinvx_wait_init:
  assumes i: "kinvx X k" and h: "wait_head h"
  shows "kinvx X (rt_ipc_object_init h k)"
proof -
  have L: "linv X (k_lists k) (k_ready_group k) (k_threads k)" using i by (simp add: kinvx_def)
  have r: "h \<noteq> Ready p" for p using h by (auto simp: wait_head_def)
  have "linv X ((k_lists k)(h := [])) (k_ready_group k) (k_threads k)"
  proof (rule linvI)
    show "lists_wf ((k_lists k)(h := []))" using linvD(1) [OF L] by (simp add: lists_wf_def)
    show "ready_ok ((k_lists k)(h := [])) (k_ready_group k)" using linvD(2) [OF L] not_sym [OF r] by (simp add: ready_ok_def)
    show "t \<notin> X" "\<exists>th. k_threads k t = Some th \<and> member_ok g th" if "t \<in> set (((k_lists k)(h := [])) g)" for g t
      using that linvD(3,4) [OF L, of t g] by (auto split: if_splits)
    show "t \<in> set (((k_lists k)(h := [])) (Ready (prio th)))"
      if "k_threads k t = Some th" "t \<notin> X" "thread_stat th = RT_THREAD_READY" for t th
      using linvD(6) [OF L that] not_sym [OF r] by simp
  qed (use linvD(5) [OF L] in blast)
  then show ?thesis using i by (simp add: kinvx_def rt_ipc_object_init_def)
qed

lemma boot_wait_init:
  assumes i: "boot_inv bs k" and h: "wait_head h"
  shows "boot_inv bs (rt_ipc_object_init h k)"
proof -
  have "h \<noteq> Ready p" for p using h by (auto simp: wait_head_def)
  then show ?thesis
    using kinvx_wait_init [OF boot_invD(1) [OF i] h] by (intro boot_invx_cong [OF i]) (auto simp: rt_ipc_object_init_def)
qed

definition made :: "nat \<Rightarrow> blk list \<Rightarrow> kernel \<Rightarrow> nat option \<Rightarrow> kernel \<Rightarrow> bool" where
  "made N bs k r k' \<longleftrightarrow> k_threads k' = k_threads k \<and> k_current k' = k_current k \<and>
     (\<exists>bs'. boot_inv bs' k' \<and> (case r of None \<Rightarrow> scarce N bs | Some a \<Rightarrow> spends N bs bs'))"

lemma event_create_boot:
  assumes i: "boot_inv bs k"
  shows "returns (rt_event_create name flag k) (\<lambda>(r, k'). made (need 32) bs k r k' \<and>
    hp_ptr (k_heap k') = hp_ptr (k_heap k) \<and> hp_end (k_heap k') = hp_end (k_heap k) \<and> k_mutexes k' = k_mutexes k \<and> k_devices k' = k_devices k \<and>
    k_objects k' RT_Object_Class_Device = k_objects k RT_Object_Class_Device \<and> (\<forall>m. k_lists k' (MutexQ m) = k_lists k (MutexQ m)))"
proof -
  have t: "rt_object_get_information RT_Object_Class_Event = Some 32" "obj_at RT_Object_Class_Event a = Some (OEvent a)" for a
    by (simp_all add: rt_object_get_information_def rt_object_container_def obj_at_def)
  obtain r k1 where a: "rt_object_allocate RT_Object_Class_Event name k = Some (r, k1)" "allocate_result RT_Object_Class_Event 32 OEvent name bs k r k1"
    using object_allocate_boot [OF i t(1) _ t(2), of name] by (auto simp: returns_def)
  show ?thesis
  proof (cases r)
    case None
    then show ?thesis using a i boot_invD(6) [OF i] by (auto simp: rt_event_create_def allocate_result_def made_def)
  next
    case (Some ob)
    then obtain e h bs1 where e: "ob = OEvent e" "new_block bs k bs1 h e" "spends (need 32) bs bs1"
      "k1 = fresh_object RT_Object_Class_Event (OEvent e) name (k\<lparr>k_heap := h\<rparr>)" using a(2) by (auto simp: allocate_result_def)
    have k1: "boot_inv bs1 k1" unfolding e(4) by (rule boot_fresh_ipc [OF boot_new_block [OF i e(2)]]) simp
    let ?k2 = "rt_ipc_object_init (EventQ e) k1"
    have k2: "boot_inv bs1 ?k2" by (rule boot_wait_init [OF k1]) (simp add: wait_head_def)
    obtain ev where ev: "k_events ?k2 e = Some ev" by (simp add: e(4) fresh_object_def rt_ipc_object_init_def)
    define k3 where "k3 = ?k2\<lparr>k_events := (k_events ?k2)(e \<mapsto> event_setup flag ev)\<rparr>"
    have "boot_inv bs1 k3"
      by (rule boot_invx_cong [OF k2]) (use boot_invD(1) [OF k2] in \<open>simp_all add: k3_def kinvx_def\<close>)
    moreover have "rt_event_create name flag k = Some (Some e, k3)"
      using a(1) Some e(1) ev boot_invD(6) [OF i] by (simp add: rt_event_create_def mod_event_def k3_def)
    moreover have "hp_ptr (k_heap k3) = hp_ptr (k_heap k)" "hp_end (k_heap k3) = hp_end (k_heap k)"
      using e(2) by (simp_all add: k3_def rt_ipc_object_init_def e(4) fresh_object_def new_block_def)
    moreover have "k_threads k3 = k_threads k \<and> k_current k3 = k_current k \<and> k_mutexes k3 = k_mutexes k \<and> k_devices k3 = k_devices k \<and>
      k_objects k3 RT_Object_Class_Device = k_objects k RT_Object_Class_Device \<and> (\<forall>m. k_lists k3 (MutexQ m) = k_lists k (MutexQ m))"
      by (simp add: k3_def rt_ipc_object_init_def e(4) fresh_object_def)
    ultimately show ?thesis using e(3) by (auto simp: made_def)
  qed
qed

lemma delete_new_mq:
  assumes i: "boot_inv bs k" and n: "new_block bs k bs1 h a"
    and k1: "k1 = rt_ipc_object_init (MqQ a) (fresh_object RT_Object_Class_MessageQueue (OMq a) name (k\<lparr>k_heap := h\<rparr>))"
  shows "returns (rt_object_delete (OMq a) k1) (\<lambda>k'. (\<exists>bs'. boot_inv bs' k') \<and> k_threads k' = k_threads k \<and> k_current k' = k_current k)"
proof -
  note b = boot_invD [OF i]
  obtain h' bs' where f: "rt_free (Some a) 0 h = Some h'" "heap_rep h' bs'" "hp_ptr h' = hp_ptr (k_heap k)" "hp_end h' = hp_end (k_heap k)"
    "\<forall>x. at_block h' bs' x \<longleftrightarrow> at_block (k_heap k) bs x" using free_new [OF n] by (auto simp: returns_def)
  have q: "boot_inv bs (rt_ipc_object_init (MqQ a) k)" by (rule boot_wait_init [OF i]) (simp add: wait_head_def)
  let ?k' = "k1\<lparr>k_objects := \<lambda>c. removeAll (OMq a) (k_objects k1 c), k_heap := h', k_mqs := (k_mqs k1)(a := None)\<rparr>"
  have f1: "k_threads k1 = k_threads k" "k_lists k1 = (k_lists k)(MqQ a := [])" "k_current k1 = k_current k" "k_heap k1 = h" "k_irq_nest k1 = 0"
    "k_lock_nest k1 = k_lock_nest k" "k_timer_list k1 = k_timer_list k"
    using b(6) by (simp_all add: k1 rt_ipc_object_init_def fresh_object_def)
  have "rt_object_delete (OMq a) k1 = Some ?k'"
    using f(1) f1 by (simp add: rt_object_delete_def) (simp add: k1 rt_ipc_object_init_def fresh_object_def)
  moreover have "boot_inv bs' ?k'"
  proof -
    have "kinv ?k'" using boot_invD(1) [OF q] by (simp add: kinvx_def k1 rt_ipc_object_init_def fresh_object_def)
    moreover have "calm ?k'" by (rule calm_cong [OF b(2)]) (simp_all add: f1 b(6))
    moreover have "placed bs' ?k'"
      using b(5) f unfolding placed_def outside_def by (simp add: k1 rt_ipc_object_init_def fresh_object_def)
    ultimately show ?thesis using b f(2) f1 by (simp add: boot_invx_def)
  qed
  ultimately show ?thesis using f1 by auto
qed

definition mq_made :: "(nat \<Rightarrow> u8) \<Rightarrow> u8 \<Rightarrow> u16 \<Rightarrow> u16 \<Rightarrow> nat \<Rightarrow> kernel \<Rightarrow> bool" where
  "mq_made junk flag sz n b k \<longleftrightarrow> (\<exists>addr mq. k_mqs k b = Some (mq_setup junk flag addr sz n mq) \<and> ob_type (mq_parent mq) = RT_Object_Class_MessageQueue)"

lemma mq_create_boot:
  fixes msg_size max_msgs :: u32
  assumes i: "boot_inv bs k" and sz: "sz = ucast (rt_align msg_size)" and n: "n = ucast max_msgs" and P: "P = (ucast sz + 4) * ucast n" "P \<noteq> 0"
  shows "returns (rt_mq_create junk name msg_size max_msgs flag k) (\<lambda>(r, k'). made (need 60 + need P) bs k r k' \<and>
    (\<forall>b. r = Some b \<longrightarrow> mq_made junk flag sz n b k'))"
proof -
  have t: "rt_object_get_information RT_Object_Class_MessageQueue = Some 60" "obj_at RT_Object_Class_MessageQueue a = Some (OMq a)" for a
    by (simp_all add: rt_object_get_information_def rt_object_container_def obj_at_def)
  obtain r k1 where a: "rt_object_allocate RT_Object_Class_MessageQueue name k = Some (r, k1)" "allocate_result RT_Object_Class_MessageQueue 60 OMq name bs k r k1"
    using object_allocate_boot [OF i t(1) _ t(2), of name] by (auto simp: returns_def)
  show ?thesis
  proof (cases r)
    case None
    then show ?thesis using a i boot_invD(6) [OF i] scarce_mono [of "need 60" bs "need 60 + need P"]
      by (auto simp: rt_mq_create_def allocate_result_def made_def)
  next
    case (Some ob)
    then obtain b h bs1 where e: "ob = OMq b" "new_block bs k bs1 h b" "spends (need 60) bs bs1"
      "k1 = fresh_object RT_Object_Class_MessageQueue (OMq b) name (k\<lparr>k_heap := h\<rparr>)" using a(2) by (auto simp: allocate_result_def)
    have k1: "boot_inv bs1 k1" unfolding e(4) by (rule boot_fresh_ipc [OF boot_new_block [OF i e(2)]]) simp
    define k2 where "k2 = rt_ipc_object_init (MqQ b) k1"
    have k2: "boot_inv bs1 k2" unfolding k2_def by (rule boot_wait_init [OF k1]) (simp add: wait_head_def)
    note b2 = boot_invD [OF k2]
    have f2: "k_threads k2 = k_threads k" "k_current k2 = k_current k" by (simp_all add: k2_def e(4) rt_ipc_object_init_def fresh_object_def)
    obtain mq where mq: "k_mqs k2 b = Some mq" "ob_type (mq_parent mq) = RT_Object_Class_MessageQueue"
      by (simp add: k2_def e(4) fresh_object_def rt_ipc_object_init_def)
    obtain p h2 where m: "rt_malloc P (k_irq_nest k2) (k_heap k2) = Some (p, h2)" "malloc_result P bs1 k2 p h2"
      using malloc_new [OF b2(4,6) P(2)] by (auto simp: returns_def)
    have c: "rt_mq_create junk name msg_size max_msgs flag k = (case p of
           None \<Rightarrow> Option.bind (rt_object_delete (OMq b) (k2\<lparr>k_heap := h2\<rparr>)) (\<lambda>k. Some (None, k))
         | Some addr \<Rightarrow> Some (Some b, rt_ipc_object_init (MqSendQ b) (put_mq b (mq_setup junk flag addr sz n mq) (k2\<lparr>k_heap := h2\<rparr>))))"
      using a(1) Some e(1) mq(1) m(1) boot_invD(6) [OF i] by (cases p) (simp_all add: rt_mq_create_def k2_def sz n P(1))
    show ?thesis
    proof (cases p)
      case None
      then have "k2\<lparr>k_heap := h2\<rparr> = k2" "scarce (need 60 + need P) bs" using m(2) scarce_spends [OF e(3)] by (simp_all add: malloc_result_def)
      then show ?thesis unfolding c None option.case
        using delete_new_mq [OF i e(2) k2_def [unfolded e(4)]] by (auto simp: made_def elim!: returns_mono)
    next
      case (Some addr)
      then obtain bs2 where s: "new_block bs1 k2 bs2 h2 addr" "spends (need P) bs1 bs2" using m(2) by (auto simp: malloc_result_def)
      define k3 where "k3 = put_mq b (mq_setup junk flag addr sz n mq) (k2\<lparr>k_heap := h2\<rparr>)"
      note k2h = boot_new_block [OF k2 s(1)]
      have "boot_inv bs2 k3" by (rule boot_invx_cong [OF k2h]) (use boot_invD(1) [OF k2h] in \<open>simp_all add: k3_def put_mq_def kinvx_def\<close>)
      then have "boot_inv bs2 (rt_ipc_object_init (MqSendQ b) k3)" by (rule boot_wait_init) (simp add: wait_head_def)
      moreover have "k_threads (rt_ipc_object_init (MqSendQ b) k3) = k_threads k" "k_current (rt_ipc_object_init (MqSendQ b) k3) = k_current k"
        "mq_made junk flag sz n b (rt_ipc_object_init (MqSendQ b) k3)"
        using f2 mq(2) by (auto simp: k3_def put_mq_def rt_ipc_object_init_def mq_made_def)
      ultimately show ?thesis
        unfolding c Some option.case k3_def [symmetric] using spends_trans [OF e(3) s(2)] by (auto simp: made_def)
    qed
  qed
qed

end
