(* ===== verification/Device.thy ===== *)
theory Device
  imports Ipc Heap
begin

text \<open>
  The error number of \<^verbatim>\<open>kservice.c\<close> and the device framework of \<^verbatim>\<open>device.c\<close>: registration by name, opening and closing
  with a reference count, and the calls that are passed on to the driver.

  A driver is known to the framework by the function pointers in the device structure.  They are numbers here, and the
  functions they name are the argument \<open>fns\<close>: functions on the kernel and on a state \<open>'h\<close> of the drivers.  Reading,
  writing and control may block, with a continuation of the driver's own type \<open>'c\<close>; the functions that initialise, open
  and close a device do not.  The message \<^verbatim>\<open>rt_device_init\<close> prints when a driver fails is left out.
\<close>

section \<open>The error number (kservice.c)\<close>

definition rt_get_errno :: "kernel \<Rightarrow> int option" where
  "rt_get_errno k =
     (if k_irq_nest k \<noteq> 0 then Some (k_errno k)
      else case rt_thread_self k of
             None \<Rightarrow> Some (k_errno k)
           | Some tid \<Rightarrow> map_option th_error (get_thread tid k))"

definition rt_set_errno :: "int \<Rightarrow> kernel \<Rightarrow> kernel option" where
  "rt_set_errno err k =
     (if k_irq_nest k \<noteq> 0 then Some (k\<lparr>k_errno := err\<rparr>)
      else case rt_thread_self k of
             None \<Rightarrow> Some (k\<lparr>k_errno := err\<rparr>)
           | Some tid \<Rightarrow> mod_thread tid (\<lambda>th. th\<lparr>th_error := err\<rparr>) k)"

text \<open>\<^verbatim>\<open>_rt_errno\<close> returns the address of the variable.\<close>

datatype errno_var = Global_errno | Thread_errno nat

definition rt_errno :: "kernel \<Rightarrow> errno_var" where
  "rt_errno k =
     (if k_irq_nest k \<noteq> 0 then Global_errno
      else case rt_thread_self k of Some tid \<Rightarrow> Thread_errno tid | None \<Rightarrow> Global_errno)"

section \<open>Drivers\<close>

record ('h, 'c) driver_fns =
  fn_init :: "nat \<Rightarrow> nat \<Rightarrow> kernel \<times> 'h \<Rightarrow> (int \<times> kernel \<times> 'h) option"
  fn_open :: "nat \<Rightarrow> nat \<Rightarrow> u16 \<Rightarrow> kernel \<times> 'h \<Rightarrow> (int \<times> kernel \<times> 'h) option"
  fn_close :: "nat \<Rightarrow> nat \<Rightarrow> kernel \<times> 'h \<Rightarrow> (int \<times> kernel \<times> 'h) option"
  fn_read :: "nat \<Rightarrow> nat \<Rightarrow> int \<Rightarrow> nat \<Rightarrow> u32 \<Rightarrow> kernel \<times> 'h \<Rightarrow> ((u32, 'c) outcome \<times> kernel \<times> 'h) option"
  fn_write :: "nat \<Rightarrow> nat \<Rightarrow> int \<Rightarrow> nat \<Rightarrow> u32 \<Rightarrow> kernel \<times> 'h \<Rightarrow> ((u32, 'c) outcome \<times> kernel \<times> 'h) option"
  fn_control :: "nat \<Rightarrow> nat \<Rightarrow> int \<Rightarrow> nat \<Rightarrow> kernel \<times> 'h \<Rightarrow> ((int, 'c) outcome \<times> kernel \<times> 'h) option"

abbreviation RT_DEVICE_FLAG_RDWR :: u16 where "RT_DEVICE_FLAG_RDWR \<equiv> 0x003"
abbreviation RT_DEVICE_FLAG_STANDALONE :: u16 where "RT_DEVICE_FLAG_STANDALONE \<equiv> 0x008"
abbreviation RT_DEVICE_FLAG_ACTIVATED :: u16 where "RT_DEVICE_FLAG_ACTIVATED \<equiv> 0x010"
abbreviation RT_DEVICE_OFLAG_CLOSE :: u16 where "RT_DEVICE_OFLAG_CLOSE \<equiv> 0x000"
abbreviation RT_DEVICE_OFLAG_OPEN :: u16 where "RT_DEVICE_OFLAG_OPEN \<equiv> 0x008"
abbreviation RT_DEVICE_OFLAG_MASK :: u16 where "RT_DEVICE_OFLAG_MASK \<equiv> 0xf0f"
abbreviation RT_Device_Class_SPIBUS :: u8 where "RT_Device_Class_SPIBUS \<equiv> 11"
abbreviation RT_Device_Class_SPIDevice :: u8 where "RT_Device_Class_SPIDevice \<equiv> 12"

definition mod_device :: "nat \<Rightarrow> (rt_device \<Rightarrow> rt_device) \<Rightarrow> kernel \<Rightarrow> kernel option" where
  "mod_device d f k = do {
     dev \<leftarrow> k_devices k d;
     Some (k\<lparr>k_devices := (k_devices k)(d \<mapsto> f dev)\<rparr>)
   }"

text \<open>The device behind a pointer, with the assertion on its type.\<close>

definition get_device :: "nat \<Rightarrow> kernel \<Rightarrow> rt_device option" where
  "get_device d k = do {
     dev \<leftarrow> k_devices k d;
     rt_assert (rt_object_get_type (dv_parent dev) = RT_Object_Class_Device);
     Some dev
   }"

section \<open>Registration\<close>

definition rt_device_find :: "u8 list \<Rightarrow> kernel \<Rightarrow> (nat option \<times> kernel) option" where
  "rt_device_find name k = do {
     (r, k) \<leftarrow> rt_object_find name RT_Object_Class_Device k;
     Some (map_option obj_addr r, k)
   }"

definition rt_device_register :: "nat option \<Rightarrow> u8 list \<Rightarrow> u16 \<Rightarrow> kernel \<Rightarrow> (int \<times> kernel) option" where
  "rt_device_register dev name flags k =
     (case dev of
        None \<Rightarrow> Some (- RT_ERROR, k)
      | Some d \<Rightarrow> do {
          (r, k) \<leftarrow> rt_device_find name k;
          if r \<noteq> None then Some (- RT_ERROR, k)
          else do {
            k \<leftarrow> rt_object_init (ODevice d) RT_Object_Class_Device name k;
            k \<leftarrow> mod_device d (\<lambda>dev. dev\<lparr>dv_flag := flags, dv_ref_count := 0, dv_open_flag := 0\<rparr>) k;
            Some (RT_EOK, k)
          }
        })"

definition rt_device_unregister :: "nat \<Rightarrow> kernel \<Rightarrow> (int \<times> kernel) option" where
  "rt_device_unregister d k = do {
     dev \<leftarrow> get_device d k;
     rt_assert (rt_object_is_systemobject (dv_parent dev));
     k \<leftarrow> rt_object_detach (ODevice d) k;
     Some (RT_EOK, k)
   }"

definition rt_device_create :: "u8 \<Rightarrow> u32 \<Rightarrow> kernel \<Rightarrow> (nat option \<times> kernel) option" where
  "rt_device_create type attach_size k = do {
     size \<leftarrow> Some (68 + rt_align attach_size);
     (p, h) \<leftarrow> rt_malloc size (k_irq_nest k) (k_heap k);
     k \<leftarrow> Some (k\<lparr>k_heap := h\<rparr>);
     case p of
       None \<Rightarrow> Some (None, k)
     | Some d \<Rightarrow> Some (Some d, k\<lparr>k_devices := (k_devices k)(d \<mapsto> zero_device\<lparr>dv_type := type\<rparr>)\<rparr>)
   }"

definition rt_device_destroy :: "nat \<Rightarrow> kernel \<Rightarrow> kernel option" where
  "rt_device_destroy d k = do {
     dev \<leftarrow> get_device d k;
     rt_assert (\<not> rt_object_is_systemobject (dv_parent dev));
     k \<leftarrow> rt_object_detach (ODevice d) k;
     h \<leftarrow> rt_free (Some d) (k_irq_nest k) (k_heap k);
     Some (drop_object (ODevice d) (k\<lparr>k_heap := h\<rparr>))
   }"

section \<open>Opening and closing\<close>

definition rt_device_init :: "('h, 'c) driver_fns \<Rightarrow> nat \<Rightarrow> kernel \<times> 'h \<Rightarrow> (int \<times> kernel \<times> 'h) option" where
  "rt_device_init fns d s = do {
     dev \<leftarrow> k_devices (fst s) d;
     case dv_init dev of
       None \<Rightarrow> Some (RT_EOK, s)
     | Some f \<Rightarrow>
         if dv_flag dev AND RT_DEVICE_FLAG_ACTIVATED = 0 then do {
           (result, k, h) \<leftarrow> fn_init fns f d s;
           if result \<noteq> RT_EOK then Some (result, k, h)
           else do {
             k \<leftarrow> mod_device d (\<lambda>dev. dev\<lparr>dv_flag := dv_flag dev OR RT_DEVICE_FLAG_ACTIVATED\<rparr>) k;
             Some (result, k, h)
           }
         }
         else Some (RT_EOK, s)
   }"

text \<open>The three parts of \<^verbatim>\<open>rt_device_open\<close>: initialising the device, calling the driver, counting the reference.\<close>

definition open_activate :: "('h, 'c) driver_fns \<Rightarrow> nat \<Rightarrow> rt_device \<Rightarrow> kernel \<times> 'h \<Rightarrow> (int \<times> kernel \<times> 'h) option" where
  "open_activate fns d dev s =
     (if dv_flag dev AND RT_DEVICE_FLAG_ACTIVATED = 0 then do {
        (result, k, h) \<leftarrow> (case dv_init dev of None \<Rightarrow> Some (RT_EOK, s) | Some f \<Rightarrow> fn_init fns f d s);
        if result \<noteq> RT_EOK then Some (result, k, h)
        else do {
          k \<leftarrow> mod_device d (\<lambda>dev. dev\<lparr>dv_flag := dv_flag dev OR RT_DEVICE_FLAG_ACTIVATED\<rparr>) k;
          Some (RT_EOK, k, h)
        }
      }
      else Some (RT_EOK, s))"

definition open_count :: "nat \<Rightarrow> int \<Rightarrow> kernel \<times> 'h \<Rightarrow> (int \<times> kernel \<times> 'h) option" where
  "open_count d result s =
     (if result = RT_EOK \<or> result = - RT_ENOSYS then do {
        dev \<leftarrow> k_devices (fst s) d;
        k \<leftarrow> mod_device d (\<lambda>dev. dev\<lparr>dv_open_flag := dv_open_flag dev OR RT_DEVICE_OFLAG_OPEN,
                                  dv_ref_count := dv_ref_count dev + 1\<rparr>) (fst s);
        rt_assert (dv_ref_count dev + 1 \<noteq> 0);
        Some (result, k, snd s)
      }
      else Some (result, s))"

definition rt_device_open :: "('h, 'c) driver_fns \<Rightarrow> nat \<Rightarrow> u16 \<Rightarrow> kernel \<times> 'h \<Rightarrow> (int \<times> kernel \<times> 'h) option" where
  "rt_device_open fns d oflag s = do {
     dev \<leftarrow> get_device d (fst s);
     (result, k, h) \<leftarrow> open_activate fns d dev s;
     if result \<noteq> RT_EOK then Some (result, k, h)
     else do {
       dev \<leftarrow> k_devices k d;
       if dv_flag dev AND RT_DEVICE_FLAG_STANDALONE \<noteq> 0 \<and> dv_open_flag dev AND RT_DEVICE_OFLAG_OPEN \<noteq> 0
       then Some (- RT_EBUSY, k, h)
       else do {
         (result, k, h) \<leftarrow>
           (case dv_open dev of
              Some f \<Rightarrow> fn_open fns f d oflag (k, h)
            | None \<Rightarrow> do {
                k \<leftarrow> mod_device d (\<lambda>dev. dev\<lparr>dv_open_flag := oflag AND RT_DEVICE_OFLAG_MASK\<rparr>) k;
                Some (RT_EOK, k, h)
              });
         open_count d result (k, h)
       }
     }
   }"

definition rt_device_close :: "('h, 'c) driver_fns \<Rightarrow> nat \<Rightarrow> kernel \<times> 'h \<Rightarrow> (int \<times> kernel \<times> 'h) option" where
  "rt_device_close fns d s = do {
     dev \<leftarrow> get_device d (fst s);
     if dv_ref_count dev = 0 then Some (- RT_ERROR, s)
     else do {
       k \<leftarrow> mod_device d (\<lambda>dev. dev\<lparr>dv_ref_count := dv_ref_count dev - 1\<rparr>) (fst s);
       if dv_ref_count dev - 1 \<noteq> 0 then Some (RT_EOK, k, snd s)
       else do {
         (result, k, h) \<leftarrow> (case dv_close dev of Some f \<Rightarrow> fn_close fns f d (k, snd s) | None \<Rightarrow> Some (RT_EOK, k, snd s));
         if result = RT_EOK \<or> result = - RT_ENOSYS then do {
           k \<leftarrow> mod_device d (\<lambda>dev. dev\<lparr>dv_open_flag := RT_DEVICE_OFLAG_CLOSE\<rparr>) k;
           Some (result, k, h)
         }
         else Some (result, k, h)
       }
     }
   }"

section \<open>Reading, writing and control\<close>

text \<open>What \<^verbatim>\<open>rt_device_read\<close> and \<^verbatim>\<open>rt_device_write\<close> have in common.\<close>

definition device_fail :: "int \<Rightarrow> kernel \<times> 'h \<Rightarrow> ((u32, 'c) outcome \<times> kernel \<times> 'h) option" where
  "device_fail err s = do {
     k \<leftarrow> rt_set_errno err (fst s);
     Some (Done 0, k, snd s)
   }"

definition rt_device_read ::
  "('h, 'c) driver_fns \<Rightarrow> nat \<Rightarrow> int \<Rightarrow> nat \<Rightarrow> u32 \<Rightarrow> kernel \<times> 'h \<Rightarrow> ((u32, 'c) outcome \<times> kernel \<times> 'h) option" where
  "rt_device_read fns d pos buffer sz s = do {
     dev \<leftarrow> get_device d (fst s);
     if dv_ref_count dev = 0 then device_fail (- RT_ERROR) s
     else case dv_read dev of
       Some f \<Rightarrow> fn_read fns f d pos buffer sz s
     | None \<Rightarrow> device_fail (- RT_ENOSYS) s
   }"

definition rt_device_write ::
  "('h, 'c) driver_fns \<Rightarrow> nat \<Rightarrow> int \<Rightarrow> nat \<Rightarrow> u32 \<Rightarrow> kernel \<times> 'h \<Rightarrow> ((u32, 'c) outcome \<times> kernel \<times> 'h) option" where
  "rt_device_write fns d pos buffer sz s = do {
     dev \<leftarrow> get_device d (fst s);
     if dv_ref_count dev = 0 then device_fail (- RT_ERROR) s
     else case dv_write dev of
       Some f \<Rightarrow> fn_write fns f d pos buffer sz s
     | None \<Rightarrow> device_fail (- RT_ENOSYS) s
   }"

definition rt_device_control ::
  "('h, 'c) driver_fns \<Rightarrow> nat \<Rightarrow> int \<Rightarrow> nat \<Rightarrow> kernel \<times> 'h \<Rightarrow> ((int, 'c) outcome \<times> kernel \<times> 'h) option" where
  "rt_device_control fns d cmd arg s = do {
     dev \<leftarrow> get_device d (fst s);
     case dv_control dev of
       Some f \<Rightarrow> fn_control fns f d cmd arg s
     | None \<Rightarrow> Some (Done (- RT_ENOSYS), s)
   }"

definition rt_device_set_rx_indicate :: "nat \<Rightarrow> nat option \<Rightarrow> kernel \<Rightarrow> (int \<times> kernel) option" where
  "rt_device_set_rx_indicate d rx_ind k = do {
     _ \<leftarrow> get_device d k;
     k \<leftarrow> mod_device d (\<lambda>dev. dev\<lparr>dv_rx_indicate := rx_ind\<rparr>) k;
     Some (RT_EOK, k)
   }"

definition rt_device_set_tx_complete :: "nat \<Rightarrow> nat option \<Rightarrow> kernel \<Rightarrow> (int \<times> kernel) option" where
  "rt_device_set_tx_complete d tx_done k = do {
     _ \<leftarrow> get_device d k;
     k \<leftarrow> mod_device d (\<lambda>dev. dev\<lparr>dv_tx_complete := tx_done\<rparr>) k;
     Some (RT_EOK, k)
   }"

section \<open>Counting the references\<close>

text \<open>
  The specification of opening and closing is a counter.  A stand-alone device can be open once; closing a closed device is
  refused.
\<close>

datatype dev_call = Open u16 | Close

fun count_call :: "bool \<Rightarrow> dev_call \<Rightarrow> nat \<Rightarrow> int \<times> nat" where
  "count_call alone (Open _) c = (if alone \<and> 0 < c then (- RT_EBUSY, c) else (RT_EOK, c + 1))"
| "count_call alone Close c = (if c = 0 then (- RT_ERROR, 0) else (RT_EOK, c - 1))"

fun count_calls :: "bool \<Rightarrow> dev_call list \<Rightarrow> nat \<Rightarrow> int list \<times> nat" where
  "count_calls alone [] c = ([], c)"
| "count_calls alone (x # xs) c =
     (let (r, c) = count_call alone x c; (rs, c) = count_calls alone xs c in (r # rs, c))"

fun counts_fit :: "bool \<Rightarrow> dev_call list \<Rightarrow> nat \<Rightarrow> bool" where
  "counts_fit alone [] c \<longleftrightarrow> c < 256"
| "counts_fit alone (x # xs) c \<longleftrightarrow> c < 256 \<and> counts_fit alone xs (snd (count_call alone x c))"

fun device_call :: "('h, 'c) driver_fns \<Rightarrow> nat \<Rightarrow> dev_call \<Rightarrow> kernel \<times> 'h \<Rightarrow> (int \<times> kernel \<times> 'h) option" where
  "device_call fns d (Open oflag) s = rt_device_open fns d oflag s"
| "device_call fns d Close s = rt_device_close fns d s"

fun device_calls :: "('h, 'c) driver_fns \<Rightarrow> nat \<Rightarrow> dev_call list \<Rightarrow> kernel \<times> 'h \<Rightarrow> (int list \<times> kernel \<times> 'h) option" where
  "device_calls fns d [] s = Some ([], s)"
| "device_calls fns d (x # xs) s = do {
     (r, s) \<leftarrow> device_call fns d x s;
     (rs, s) \<leftarrow> device_calls fns d xs s;
     Some (r # rs, s)
   }"

abbreviation marked_open :: "rt_device \<Rightarrow> bool" where
  "marked_open dev \<equiv> dv_open_flag dev AND RT_DEVICE_OFLAG_OPEN \<noteq> 0"

abbreviation standalone :: "rt_device \<Rightarrow> bool" where
  "standalone dev \<equiv> dv_flag dev AND RT_DEVICE_FLAG_STANDALONE \<noteq> 0"

text \<open>A registered device with \<open>c\<close> references is marked open exactly when \<open>c\<close> is positive.\<close>

definition counted :: "nat \<Rightarrow> rt_device \<Rightarrow> bool" where
  "counted c dev \<longleftrightarrow> rt_object_get_type (dv_parent dev) = RT_Object_Class_Device \<and> unat (dv_ref_count dev) = c \<and>
     (marked_open dev \<longleftrightarrow> 0 < c)"

definition same_count :: "rt_device \<Rightarrow> rt_device \<Rightarrow> bool" where
  "same_count dev dev' \<longleftrightarrow> dv_parent dev' = dv_parent dev \<and> dv_ref_count dev' = dv_ref_count dev \<and>
     (standalone dev' \<longleftrightarrow> standalone dev)"

lemma set_activated: "(f OR RT_DEVICE_FLAG_ACTIVATED) AND RT_DEVICE_FLAG_STANDALONE = f AND RT_DEVICE_FLAG_STANDALONE"
  by (simp add: bit.conj_disj_distrib2)

lemma or_open: "(f OR RT_DEVICE_OFLAG_OPEN) AND RT_DEVICE_OFLAG_OPEN \<noteq> 0"
proof -
  have "(f OR RT_DEVICE_OFLAG_OPEN) AND RT_DEVICE_OFLAG_OPEN = RT_DEVICE_OFLAG_OPEN"
    by (rule bit_word_eqI) (auto simp: bit_simps)
  then show ?thesis by simp
qed

lemma not_refl_if: "(if x \<noteq> x then a else b) = b"
  by simp

text \<open>
  What the framework relies on: the functions of the driver of device \<open>d\<close> that initialise, open and close it succeed, keep
  the driver's own invariant \<open>ok\<close>, and leave the count and the header alone; initialising does not touch the mark.
\<close>

locale device_driver =
  fixes fns :: "('h, 'c) driver_fns" and d :: nat and ok :: "kernel \<times> 'h \<Rightarrow> bool"
  assumes ok_flags: "ok (k, h) \<Longrightarrow> k_devices k d = Some dev \<Longrightarrow>
      ok (k\<lparr>k_devices := (k_devices k)(d \<mapsto> dev\<lparr>dv_flag := flag, dv_open_flag := open_flag, dv_ref_count := ref\<rparr>)\<rparr>, h)"
    and init_ok: "ok s \<Longrightarrow> k_devices (fst s) d = Some dev \<Longrightarrow> dv_init dev = Some f \<Longrightarrow>
      returns (fn_init fns f d s) (\<lambda>(r, s'). r = RT_EOK \<and> ok s' \<and>
        (\<exists>dev'. k_devices (fst s') d = Some dev' \<and> same_count dev dev' \<and> (marked_open dev' \<longleftrightarrow> marked_open dev)))"
    and open_ok: "ok s \<Longrightarrow> k_devices (fst s) d = Some dev \<Longrightarrow> dv_open dev = Some f \<Longrightarrow>
      returns (fn_open fns f d oflag s) (\<lambda>(r, s'). r = RT_EOK \<and> ok s' \<and>
        (\<exists>dev'. k_devices (fst s') d = Some dev' \<and> same_count dev dev'))"
    and close_ok: "ok s \<Longrightarrow> k_devices (fst s) d = Some dev \<Longrightarrow> dv_close dev = Some f \<Longrightarrow>
      returns (fn_close fns f d s) (\<lambda>(r, s'). r = RT_EOK \<and> ok s' \<and>
        (\<exists>dev'. k_devices (fst s') d = Some dev' \<and> same_count dev dev'))"
begin

definition counts :: "nat \<Rightarrow> bool \<Rightarrow> kernel \<times> 'h \<Rightarrow> bool" where
  "counts c alone s \<longleftrightarrow> ok s \<and> (\<exists>dev. k_devices (fst s) d = Some dev \<and> counted c dev \<and> (standalone dev \<longleftrightarrow> alone))"

lemma ok_upd:
  assumes "ok (k, h)" and "k_devices k d = Some dev" and "dev' = dev\<lparr>dv_flag := f, dv_open_flag := g, dv_ref_count := c\<rparr>"
  shows "ok (k\<lparr>k_devices := (k_devices k)(d \<mapsto> dev')\<rparr>, h)"
  unfolding assms(3) by (rule ok_flags [OF assms(1,2)])

lemma open_activate_counts:
  assumes s: "ok (k, h)" "k_devices k d = Some dev"
  shows "returns (open_activate fns d dev (k, h)) (\<lambda>(r, s'). r = RT_EOK \<and> ok s' \<and>
    (\<exists>dev'. k_devices (fst s') d = Some dev' \<and> same_count dev dev' \<and> (marked_open dev' \<longleftrightarrow> marked_open dev)))"
proof (cases "dv_flag dev AND RT_DEVICE_FLAG_ACTIVATED = 0")
  case False
  then show ?thesis using s by (simp add: open_activate_def same_count_def)
next
  case True
  have i: "returns (case dv_init dev of None \<Rightarrow> Some (RT_EOK, (k, h)) | Some f \<Rightarrow> fn_init fns f d (k, h)) (\<lambda>(r, s'). r = RT_EOK \<and> ok s' \<and>
    (\<exists>dev'. k_devices (fst s') d = Some dev' \<and> same_count dev dev' \<and> (marked_open dev' \<longleftrightarrow> marked_open dev)))"
  proof (cases "dv_init dev")
    case (Some f)
    then show ?thesis using init_ok [of "(k, h)" dev f] s by simp
  qed (use s in \<open>simp add: same_count_def\<close>)
  show ?thesis
    unfolding open_activate_def if_P [OF True]
  proof (rule returns_bind_pair [OF i], clarify)
    fix k1 h1 dev1 assume "ok (k1, h1)" "k_devices (fst (k1, h1)) d = Some dev1" "same_count dev dev1" "marked_open dev1 \<longleftrightarrow> marked_open dev"
    moreover from this have "ok (k1\<lparr>k_devices := (k_devices k1)(d \<mapsto> dev1\<lparr>dv_flag := dv_flag dev1 OR RT_DEVICE_FLAG_ACTIVATED\<rparr>)\<rparr>, h1)"
      by (intro ok_upd [where g = "dv_open_flag dev1" and c = "dv_ref_count dev1"]) auto
    ultimately show "returns (if RT_EOK \<noteq> RT_EOK then Some (RT_EOK, k1, h1) else
        Option.bind (mod_device d (\<lambda>dev. dev\<lparr>dv_flag := dv_flag dev OR RT_DEVICE_FLAG_ACTIVATED\<rparr>) k1) (\<lambda>k. Some (RT_EOK, k, h1)))
      (\<lambda>(r, s'). r = RT_EOK \<and> ok s' \<and>
        (\<exists>dev'. k_devices (fst s') d = Some dev' \<and> same_count dev dev' \<and> (marked_open dev' \<longleftrightarrow> marked_open dev)))"
      by (simp add: mod_device_def same_count_def set_activated)
  qed
qed

lemma open_count_counts:
  assumes "ok (k, h)" and "k_devices k d = Some dev" and "rt_object_get_type (dv_parent dev) = RT_Object_Class_Device"
    and "unat (dv_ref_count dev) = c" and "c < 255" and "standalone dev \<longleftrightarrow> alone"
  shows "returns (open_count d RT_EOK (k, h)) (\<lambda>(r, s'). r = RT_EOK \<and> counts (c + 1) alone s')"
proof -
  let ?dev = "dev\<lparr>dv_open_flag := dv_open_flag dev OR RT_DEVICE_OFLAG_OPEN, dv_ref_count := dv_ref_count dev + 1\<rparr>"
  have u: "unat (dv_ref_count dev + 1) = c + 1"
    using assms(4,5) by (subst unat_add_lem [THEN iffD1]) simp_all
  then have nz: "dv_ref_count dev + 1 \<noteq> 0" by (metis add_is_0 one_neq_zero unat_0)
  have "ok (k\<lparr>k_devices := (k_devices k)(d \<mapsto> ?dev)\<rparr>, h)"
    by (rule ok_upd [OF assms(1,2), where f = "dv_flag dev"]) simp
  then show ?thesis
    using assms u nz or_open [of "dv_open_flag dev"] by (simp add: open_count_def mod_device_def counts_def counted_def)
qed

lemma open_counts:
  assumes s: "counts c alone s" and c: "c < 255 \<or> alone \<and> 0 < c"
  shows "returns (rt_device_open fns d oflag s) (\<lambda>(r, s'). r = fst (count_call alone (Open oflag) c) \<and>
    counts (snd (count_call alone (Open oflag) c)) alone s')"
proof -
  obtain k h where kh: "s = (k, h)" by (cases s)
  obtain dev where dev: "ok (k, h)" "k_devices k d = Some dev" "counted c dev" "standalone dev \<longleftrightarrow> alone"
    using s by (auto simp: counts_def kh)
  have g: "get_device d k = Some dev" using dev by (simp add: get_device_def counted_def)
  show ?thesis
    unfolding rt_device_open_def kh fst_conv g Option.bind.bind_lunit
  proof (rule returns_bind_pair [OF open_activate_counts [OF dev(1,2)]], clarify)
    fix k1 h1 dev1 assume s1: "ok (k1, h1)" and d1: "k_devices (fst (k1, h1)) d = Some dev1" "same_count dev dev1"
      "marked_open dev1 \<longleftrightarrow> marked_open dev"
    have d1': "k_devices k1 d = Some dev1" "rt_object_get_type (dv_parent dev1) = RT_Object_Class_Device"
      "unat (dv_ref_count dev1) = c" "standalone dev1 \<longleftrightarrow> alone" "marked_open dev1 \<longleftrightarrow> 0 < c"
      using d1 dev by (simp_all add: same_count_def counted_def)
    show "returns (if RT_EOK \<noteq> RT_EOK then Some (RT_EOK, k1, h1) else
        Option.bind (k_devices k1 d) (\<lambda>dev.
          if standalone dev \<and> marked_open dev then Some (- RT_EBUSY, k1, h1)
          else Option.bind (case dv_open dev of Some f \<Rightarrow> fn_open fns f d oflag (k1, h1)
              | None \<Rightarrow> Option.bind (mod_device d (\<lambda>dev. dev\<lparr>dv_open_flag := oflag AND RT_DEVICE_OFLAG_MASK\<rparr>) k1) (\<lambda>k. Some (RT_EOK, k, h1)))
            (\<lambda>(result, k, h). open_count d result (k, h))))
      (\<lambda>(r, s'). r = fst (count_call alone (Open oflag) c) \<and> counts (snd (count_call alone (Open oflag) c)) alone s')"
    proof (cases "alone \<and> 0 < c")
      case True
      then show ?thesis using d1' s1 by (simp add: counts_def counted_def)
    next
      case False
      have o: "returns (case dv_open dev1 of Some f \<Rightarrow> fn_open fns f d oflag (k1, h1)
          | None \<Rightarrow> Option.bind (mod_device d (\<lambda>dev. dev\<lparr>dv_open_flag := oflag AND RT_DEVICE_OFLAG_MASK\<rparr>) k1) (\<lambda>k. Some (RT_EOK, k, h1)))
        (\<lambda>(r, s'). r = RT_EOK \<and> ok s' \<and> (\<exists>dev'. k_devices (fst s') d = Some dev' \<and> same_count dev1 dev'))"
      proof (cases "dv_open dev1")
        case None
        have "ok (k1\<lparr>k_devices := (k_devices k1)(d \<mapsto> dev1\<lparr>dv_open_flag := oflag AND RT_DEVICE_OFLAG_MASK\<rparr>)\<rparr>, h1)"
          by (rule ok_upd [OF s1 d1'(1), where f = "dv_flag dev1" and c = "dv_ref_count dev1"]) simp
        then show ?thesis using None d1'(1) by (simp add: mod_device_def same_count_def)
      next
        case (Some f)
        then show ?thesis using open_ok [of "(k1, h1)" dev1 f oflag] s1 d1'(1) by simp
      qed
      have e: "count_call alone (Open oflag) c = (RT_EOK, c + 1)" using False by auto
      have nb: "\<not> (standalone dev1 \<and> marked_open dev1)" using False d1' by auto
      show ?thesis
        unfolding e d1'(1) Option.bind.bind_lunit if_not_P [OF nb] not_refl_if
      proof (rule returns_bind_pair [OF o], clarify)
        fix k2 h2 dev2 assume s2: "ok (k2, h2)" "k_devices (fst (k2, h2)) d = Some dev2" "same_count dev1 dev2"
        then show "returns (open_count d RT_EOK (k2, h2)) (\<lambda>(r, s'). r = fst (RT_EOK, c + 1) \<and> counts (snd (RT_EOK, c + 1)) alone s')"
          unfolding fst_conv snd_conv using d1' c False
          by (intro open_count_counts [where dev = dev2]) (simp_all add: same_count_def)
      qed
    qed
  qed
qed

lemma close_counts:
  assumes s: "counts c alone s"
  shows "returns (rt_device_close fns d s) (\<lambda>(r, s'). r = fst (count_call alone Close c) \<and> counts (snd (count_call alone Close c)) alone s')"
proof -
  obtain k h where kh: "s = (k, h)" by (cases s)
  obtain dev where dev: "ok (k, h)" "k_devices k d = Some dev" "counted c dev" "standalone dev \<longleftrightarrow> alone"
    using s by (auto simp: counts_def kh)
  have g: "get_device d k = Some dev" using dev by (simp add: get_device_def counted_def)
  have z: "dv_ref_count dev = 0 \<longleftrightarrow> c = 0" using dev(3) by (auto simp: counted_def unsigned_eq_0_iff)
  show ?thesis
  proof (cases "c = 0")
    case True
    then show ?thesis using s g z kh by (simp add: rt_device_close_def)
  next
    case False
    have u: "unat (dv_ref_count dev - 1) = c - 1" using False dev(3) z by (subst unat_minus_one) (auto simp: counted_def)
    let ?dev = "dev\<lparr>dv_ref_count := dv_ref_count dev - 1\<rparr>"
    let ?k = "k\<lparr>k_devices := (k_devices k)(d \<mapsto> ?dev)\<rparr>"
    have k1: "ok (?k, h)" by (rule ok_upd [OF dev(1,2), where f = "dv_flag dev" and g = "dv_open_flag dev"]) simp
    have m: "mod_device d (\<lambda>dev. dev\<lparr>dv_ref_count := dv_ref_count dev - 1\<rparr>) k = Some ?k" using dev(2) by (simp add: mod_device_def)
    have e: "count_call alone Close c = (RT_EOK, c - 1)" using False by simp
    show ?thesis
    proof (cases "c = 1")
      case False
      with \<open>c \<noteq> 0\<close> have "dv_ref_count dev - 1 \<noteq> 0" using u by (metis One_nat_def Suc_pred' le_neq_implies_less less_one neq0_conv not_less unat_0 zero_less_diff)
      then show ?thesis using g m z \<open>c \<noteq> 0\<close> e k1 dev u False kh
        by (simp add: rt_device_close_def counts_def counted_def)
    next
      case True
      have one: "dv_ref_count dev - 1 = 0" using u True by (simp add: unsigned_eq_0_iff)
      have cl: "returns (case dv_close ?dev of Some f \<Rightarrow> fn_close fns f d (?k, h) | None \<Rightarrow> Some (RT_EOK, ?k, h))
        (\<lambda>(r, s'). r = RT_EOK \<and> ok s' \<and> (\<exists>dev'. k_devices (fst s') d = Some dev' \<and> same_count ?dev dev'))"
      proof (cases "dv_close ?dev")
        case (Some f)
        then show ?thesis using close_ok [of "(?k, h)" ?dev f] k1 by simp
      qed (use k1 in \<open>simp add: same_count_def\<close>)
      have b: "rt_device_close fns d s = Option.bind
          (case dv_close ?dev of Some f \<Rightarrow> fn_close fns f d (?k, h) | None \<Rightarrow> Some (RT_EOK, ?k, h))
          (\<lambda>(result, k, h). if result = RT_EOK \<or> result = - RT_ENOSYS then
             Option.bind (mod_device d (\<lambda>dev. dev\<lparr>dv_open_flag := RT_DEVICE_OFLAG_CLOSE\<rparr>) k) (\<lambda>k. Some (result, k, h))
           else Some (result, k, h))"
        unfolding rt_device_close_def kh fst_conv snd_conv g Option.bind.bind_lunit m one using z \<open>c \<noteq> 0\<close> by simp
      show ?thesis
        unfolding b e
      proof (rule returns_bind_pair [OF cl], clarify)
        fix k2 h2 dev2 assume s2: "ok (k2, h2)" "k_devices (fst (k2, h2)) d = Some dev2" "same_count ?dev dev2"
        have d2: "rt_object_get_type (dv_parent dev2) = RT_Object_Class_Device" "dv_ref_count dev2 = 0" "standalone dev2 \<longleftrightarrow> alone"
          using s2(3) dev one by (simp_all add: same_count_def counted_def)
        let ?d2 = "dev2\<lparr>dv_open_flag := RT_DEVICE_OFLAG_CLOSE\<rparr>"
        have "?d2 = dev2\<lparr>dv_flag := dv_flag dev2, dv_open_flag := RT_DEVICE_OFLAG_CLOSE, dv_ref_count := dv_ref_count dev2\<rparr>"
          by (cases dev2) simp
        moreover have "k_devices k2 d = Some dev2" using s2(2) by simp
        ultimately have "ok (k2\<lparr>k_devices := (k_devices k2)(d \<mapsto> ?d2)\<rparr>, h2)" using ok_upd [OF s2(1)] by blast
        then show "returns (if RT_EOK = RT_EOK \<or> RT_EOK = - RT_ENOSYS then
             Option.bind (mod_device d (\<lambda>dev. dev\<lparr>dv_open_flag := RT_DEVICE_OFLAG_CLOSE\<rparr>) k2) (\<lambda>k. Some (RT_EOK, k, h2))
           else Some (RT_EOK, k2, h2))
          (\<lambda>(r, s'). r = fst (RT_EOK, c - 1) \<and> counts (snd (RT_EOK, c - 1)) alone s')"
          using s2(2) d2 True by (simp add: mod_device_def counts_def counted_def)
      qed
    qed
  qed
qed

lemma calls_count:
  "counts c alone s \<Longrightarrow> counts_fit alone xs c \<Longrightarrow>
    returns (device_calls fns d xs s) (\<lambda>(rs, s'). rs = fst (count_calls alone xs c) \<and> counts (snd (count_calls alone xs c)) alone s')"
proof (induction xs arbitrary: c s)
  case Nil
  then show ?case by simp
next
  case (Cons x xs)
  have b: "snd (count_call alone x c) < 256" using Cons.prems(2) by (cases xs) simp_all
  have x: "returns (device_call fns d x s) (\<lambda>(r, s'). r = fst (count_call alone x c) \<and> counts (snd (count_call alone x c)) alone s')"
  proof (cases x)
    case (Open oflag)
    then show ?thesis using open_counts [OF Cons.prems(1), of oflag] b by (auto split: if_splits)
  qed (use close_counts [OF Cons.prems(1)] in simp)
  show ?case
    unfolding device_calls.simps
  proof (rule returns_bind_pair [OF x], elim conjE)
    fix r s1 assume r: "r = fst (count_call alone x c)" and s1: "counts (snd (count_call alone x c)) alone s1"
    show "returns (Option.bind (device_calls fns d xs s1) (\<lambda>(rs, s). Some (r # rs, s)))
      (\<lambda>(rs, s'). rs = fst (count_calls alone (x # xs) c) \<and> counts (snd (count_calls alone (x # xs) c)) alone s')"
      by (rule returns_bind_pair [OF Cons.IH [OF s1]]) (use Cons.prems(2) r in \<open>auto simp: case_prod_unfold Let_def\<close>)
  qed
qed

end

section \<open>Registered names\<close>

lemma device_information: "rt_object_get_information RT_Object_Class_Device \<noteq> None"
  by (simp add: rt_object_get_information_def rt_object_container_def)

definition device_named :: "u8 list \<Rightarrow> kernel \<Rightarrow> nat option" where
  "device_named name k = map_option obj_addr (find (named name k) (k_objects k RT_Object_Class_Device))"

lemma rt_device_find_returns:
  assumes "kinv k" and "k_irq_nest k = 0" and "k_lock_nest k < 0x7fff"
  shows "returns (rt_device_find name k) (\<lambda>(r, k'). r = device_named name k \<and> kinv k' \<and> core_frame k k' \<and> sched_rel k k')"
  unfolding rt_device_find_def device_named_def
  by (rule returns_bind_pair [OF rt_object_find_returns [OF assms device_information]]) simp

lemma mod_device_kinvx: "mod_device d f k = Some k' \<Longrightarrow> kinvx X k \<Longrightarrow> kinvx X k'"
  by (auto simp: mod_device_def kinvx_def bind_eq_Some_conv)

text \<open>
  Registration is by unique name: with the scheduler unlocked \<^verbatim>\<open>rt_device_register\<close> returns; it refuses a name that a
  registered device has, and else the device is registered closed, and \<^verbatim>\<open>rt_device_find\<close> for any string that agrees with
  the name in eight characters finds it.
\<close>

theorem rt_device_register_find:
  assumes i: "kinv k" and c: "k_irq_nest k = 0" "k_lock_nest k < 0x7fff"
    and new: "ODevice d \<notin> set (k_objects k RT_Object_Class_Device)"
    and nm: "rt_strncpy RT_NAME_MAX other = rt_strncpy RT_NAME_MAX name"
  shows "returns (rt_device_register (Some d) name flags k) (\<lambda>(r, k'). kinv k' \<and>
    (if device_named name k \<noteq> None then r = - RT_ERROR \<and> core_frame k k'
     else r = RT_EOK \<and> (\<exists>dev. k_devices k' d = Some dev \<and> dv_ref_count dev = 0 \<and> dv_open_flag dev = 0 \<and> dv_flag dev = flags) \<and>
       returns (rt_device_find other k') (\<lambda>(r, k''). r = Some d \<and> kinv k'')))"
  unfolding rt_device_register_def option.case
proof (rule returns_bind_pair [OF rt_device_find_returns [OF i c, of name]], elim conjE)
  fix r k1 assume r: "r = device_named name k" and k1: "kinv k1" "core_frame k k1"
  show "returns (if r \<noteq> None then Some (- RT_ERROR, k1)
      else Option.bind (rt_object_init (ODevice d) RT_Object_Class_Device name k1) (\<lambda>k.
        Option.bind (mod_device d (\<lambda>dev. dev\<lparr>dv_flag := flags, dv_ref_count := 0, dv_open_flag := 0\<rparr>) k) (\<lambda>k. Some (RT_EOK, k))))
    (\<lambda>(r, k'). kinv k' \<and> (if device_named name k \<noteq> None then r = - RT_ERROR \<and> core_frame k k'
     else r = RT_EOK \<and> (\<exists>dev. k_devices k' d = Some dev \<and> dv_ref_count dev = 0 \<and> dv_open_flag dev = 0 \<and> dv_flag dev = flags) \<and>
       returns (rt_device_find other k') (\<lambda>(r, k''). r = Some d \<and> kinv k'')))"
  proof (cases "device_named name k")
    case (Some a)
    then show ?thesis using r k1 by simp
  next
    case None
    have n1: "ODevice d \<notin> set (k_objects k1 RT_Object_Class_Device)" using new core_frameD(6) [OF k1(2)] by simp
    have l1: "k_lock_nest k1 < 0x7fff" using c(2) core_frameD(10) [OF k1(2)] by simp
    have io: "ipc_object (ODevice d)" by simp
    have "returns (Option.bind (rt_object_init (ODevice d) RT_Object_Class_Device name k1) (\<lambda>k.
        Option.bind (mod_device d (\<lambda>dev. dev\<lparr>dv_flag := flags, dv_ref_count := 0, dv_open_flag := 0\<rparr>) k) (\<lambda>k. Some (RT_EOK, k))))
      (\<lambda>(r, k'). r = RT_EOK \<and> kinv k' \<and> (\<exists>dev. k_devices k' d = Some dev \<and> dv_ref_count dev = 0 \<and> dv_open_flag dev = 0 \<and> dv_flag dev = flags) \<and>
       returns (rt_device_find other k') (\<lambda>(r, k''). r = Some d \<and> kinv k''))"
    proof (rule returns_bindI [OF rt_object_init_returns [OF k1(1) l1 device_information io n1, of name]], elim conjE exE)
      fix k2 ob assume k2: "kinv k2" "k_irq_nest k2 = k_irq_nest k1" "k_lock_nest k2 = k_lock_nest k1"
        and o: "k_objects k2 = (k_objects k1)(RT_Object_Class_Device := ODevice d # k_objects k1 RT_Object_Class_Device)"
          "obj_header (ODevice d) k2 = Some ob" "ob_name ob = rt_strncpy RT_NAME_MAX name"
      obtain dev where dev: "k_devices k2 d = Some dev" "dv_parent dev = ob" using o(2) by auto
      let ?dev = "dev\<lparr>dv_flag := flags, dv_ref_count := 0, dv_open_flag := 0\<rparr>"
      let ?k = "k2\<lparr>k_devices := (k_devices k2)(d \<mapsto> ?dev)\<rparr>"
      have m: "mod_device d (\<lambda>dev. dev\<lparr>dv_flag := flags, dv_ref_count := 0, dv_open_flag := 0\<rparr>) k2 = Some ?k"
        using dev by (simp add: mod_device_def)
      have k: "kinv ?k" "k_irq_nest ?k = 0" "k_lock_nest ?k < 0x7fff"
        using mod_device_kinvx [OF m k2(1)] k2 c core_frameD(9,10) [OF k1(2)] by simp_all
      have "named other ?k (ODevice d)" using dev o(3) nm by (simp add: named_def rt_strncpy_idem)
      then have "device_named other ?k = Some d" using o(1) by (simp add: device_named_def)
      then have "returns (rt_device_find other ?k) (\<lambda>(r, k''). r = Some d \<and> kinv k'')"
        using rt_device_find_returns [OF k, of other] by (auto elim!: returns_mono)
      then show "returns (Option.bind (mod_device d (\<lambda>dev. dev\<lparr>dv_flag := flags, dv_ref_count := 0, dv_open_flag := 0\<rparr>) k2) (\<lambda>k. Some (RT_EOK, k)))
        (\<lambda>(r, k'). r = RT_EOK \<and> kinv k' \<and> (\<exists>dev. k_devices k' d = Some dev \<and> dv_ref_count dev = 0 \<and> dv_open_flag dev = 0 \<and> dv_flag dev = flags) \<and>
         returns (rt_device_find other k') (\<lambda>(r, k''). r = Some d \<and> kinv k''))"
        using m k(1) by simp
    qed
    then show ?thesis using r None by (simp split: prod.splits)
  qed
qed

theorem rt_device_register_find_witness:
  "returns (rt_device_register (Some 700) [115, 112, 105, 49] RT_DEVICE_FLAG_RDWR sample_kernel) (\<lambda>(r, k'). r = RT_EOK \<and>
     returns (rt_device_find [115, 112, 105, 49, 0] k') (\<lambda>(r, k''). r = Some 700))"
proof -
  have n: "device_named [115, 112, 105, 49] sample_kernel = None" by (simp add: device_named_def sample_kernel_def)
  have e: "ODevice 700 \<notin> set (k_objects sample_kernel RT_Object_Class_Device)" by (simp add: sample_kernel_def)
  have s: "rt_strncpy RT_NAME_MAX [115, 112, 105, 49, 0] = rt_strncpy RT_NAME_MAX [115, 112, 105, 49]" by (simp add: numeral_eq_Suc)
  have c: "k_irq_nest sample_kernel = 0" "k_lock_nest sample_kernel < 0x7fff" by (simp_all add: sample_kernel_def)
  show ?thesis
    by (rule returns_mono_pair [OF rt_device_register_find [OF sample_kinv c e s, of RT_DEVICE_FLAG_RDWR]])
      (use n in \<open>auto elim!: returns_mono\<close>)
qed

text \<open>
  \<^verbatim>\<open>rt_device_destroy\<close> never returns for a device that came from \<^verbatim>\<open>rt_device_create\<close>, neither before its registration nor
  after: before it the type of the object is not that of a device, and \<^verbatim>\<open>rt_device_register\<close> marks every device as a
  static object, so that one of the two assertions fails.
\<close>

theorem rt_device_destroy_asserts:
  assumes "rt_device_create type n k = Some (Some d, k1)"
  shows "rt_device_destroy d k1 = None \<and>
    (rt_device_register (Some d) name flags k1 = Some (RT_EOK, k2) \<longrightarrow> rt_device_destroy d k2 = None)"
proof (intro conjI impI)
  have "k_devices k1 d = Some (zero_device\<lparr>dv_type := type\<rparr>)"
    using assms unfolding rt_device_create_def by (auto elim!: bind_SomeE split: option.splits)
  then show "rt_device_destroy d k1 = None"
    by (simp add: rt_device_destroy_def get_device_def rt_object_get_type_def zero_device_def zero_object_def)
  assume "rt_device_register (Some d) name flags k1 = Some (RT_EOK, k2)"
  then obtain k3 where k3: "rt_object_init (ODevice d) RT_Object_Class_Device name k3 \<noteq> None"
    "Option.bind (rt_object_init (ODevice d) RT_Object_Class_Device name k3)
       (mod_device d (\<lambda>dev. dev\<lparr>dv_flag := flags, dv_ref_count := 0, dv_open_flag := 0\<rparr>)) = Some k2"
    by (auto simp: rt_device_register_def bind_eq_Some_conv split: if_splits)
  then have "\<exists>dev. k_devices k2 d = Some dev \<and> ob_type (dv_parent dev) = RT_Object_Class_Device OR RT_Object_Class_Static"
    by (auto simp: rt_object_init_def mod_device_def bind_eq_Some_conv split: if_splits)
  then show "rt_device_destroy d k2 = None"
    by (auto simp: rt_device_destroy_def get_device_def rt_object_is_systemobject_def bind_eq_None_conv)
qed

theorem rt_device_destroy_asserts_witness:
  "\<exists>k1. rt_device_create 0 0 (sample_kernel\<lparr>k_heap := sample_heap\<rparr>) = Some (Some 0x100c, k1) \<and> rt_device_destroy 0x100c k1 = None"
proof -
  have "(68 :: u32) \<noteq> 0" by simp
  moreover have "request 68 = 68" "unat (rt_align 68) = 68" by (simp_all add: request_def rt_align_unat)
  ultimately obtain a h1 where m: "rt_malloc 68 0 sample_heap = Some (Some a, h1)" and a: "a = 0x100c"
    using rt_malloc_returns [OF sample_heap_rep, of 68] by (auto simp: returns_def sample_heap_fields)
  have e: "\<exists>k1. rt_device_create 0 0 (sample_kernel\<lparr>k_heap := sample_heap\<rparr>) = Some (Some a, k1)"
    using m by (simp add: rt_device_create_def rt_align_def)
  then obtain k1 where k1: "rt_device_create 0 0 (sample_kernel\<lparr>k_heap := sample_heap\<rparr>) = Some (Some a, k1)" ..
  show ?thesis using k1 rt_device_destroy_asserts [OF k1, THEN conjunct1] unfolding a by blast
qed

end
