(* ===== verification/Startup.thy ===== *)
theory Startup
  imports Boot Device Semaphore
begin

text \<open>
  The start of the system (\<^verbatim>\<open>components.c\<close>, \<^verbatim>\<open>rt_hw_board_init\<close> of \<^verbatim>\<open>board.c\<close>): from the zeroed variables after a reset
  through the set-up of the board, the creation of the main and the idle thread and the first switch to the main thread,
  whose entry runs the component initialisers and then \<^verbatim>\<open>main\<close>.  The initialisers are functions whose addresses the linker
  collects in tables; they are the arguments \<open>usart\<close>, \<open>console\<close> and \<open>inits\<close> here, with the contracts \<open>board_ok\<close> and
  \<open>component_ok\<close> for what they keep.
\<close>

section \<open>The operations\<close>

text \<open>The variables of the kernel before anything has run.\<close>

definition reset_kernel :: kernel where
  "reset_kernel = \<lparr>k_threads = Map.empty, k_lists = (\<lambda>_. []), k_ready_group = 0, k_current = None, k_current_priority = 0,
     k_lock_nest = 0, k_irq_nest = 0, k_tick = 0, k_timers = Map.empty, k_timer_list = [], k_timer_tmp = [], k_objects = (\<lambda>_. []),
     k_sems = Map.empty, k_mutexes = Map.empty, k_events = Map.empty, k_mbs = Map.empty, k_mqs = Map.empty,
     k_heap = \<lparr>hp_ptr = 0, hp_items = Map.empty, hp_size_aligned = 0, hp_end = 0, hp_lfree = 0, hp_used_mem = 0, hp_max_mem = 0\<rparr>,
     k_idle_hooks = replicate 4 None, k_devices = Map.empty, k_errno = 0, k_completions = Map.empty, k_data_queues = Map.empty\<rparr>"

type_synonym initialiser = "kernel \<Rightarrow> (int \<times> kernel) option"

text \<open>The loops over the tables of initialisers; the results are ignored.\<close>

fun rt_components_board_init :: "initialiser list \<Rightarrow> kernel \<Rightarrow> kernel option" where
  "rt_components_board_init [] k = Some k"
| "rt_components_board_init (fn # fns) k = do {
     (_, k) \<leftarrow> fn k;
     rt_components_board_init fns k
   }"

fun rt_components_init :: "initialiser list \<Rightarrow> kernel \<Rightarrow> kernel option" where
  "rt_components_init [] k = Some k"
| "rt_components_init (fn # fns) k = do {
     (_, k) \<leftarrow> fn k;
     rt_components_init fns k
   }"

text \<open>The ends of the tables, and the set-up of the pin device; enabling the clocks of the ports is hardware.\<close>

definition rti_start :: initialiser where "rti_start k = Some (0, k)"
definition rti_board_start :: initialiser where "rti_board_start k = Some (0, k)"
definition rti_board_end :: initialiser where "rti_board_end k = Some (0, k)"
definition rti_end :: initialiser where "rti_end k = Some (0, k)"

abbreviation RT_Device_Class_Miscellaneous :: u8 where "RT_Device_Class_Miscellaneous \<equiv> 18"

abbreviation PIN_DEVICE_READ :: nat where "PIN_DEVICE_READ \<equiv> 7"
abbreviation PIN_DEVICE_WRITE :: nat where "PIN_DEVICE_WRITE \<equiv> 8"
abbreviation PIN_DEVICE_CONTROL :: nat where "PIN_DEVICE_CONTROL \<equiv> 9"

definition rt_device_pin_register :: "nat \<Rightarrow> u8 list \<Rightarrow> nat \<Rightarrow> initialiser" where
  "rt_device_pin_register hw_pin name user_data k = do {
     k \<leftarrow> Some (k\<lparr>k_devices := (k_devices k)(hw_pin \<mapsto> (storage zero_device (k_devices k hw_pin))
            \<lparr>dv_type := RT_Device_Class_Miscellaneous, dv_rx_indicate := None, dv_tx_complete := None, dv_init := None, dv_open := None,
             dv_close := None, dv_read := Some PIN_DEVICE_READ, dv_write := Some PIN_DEVICE_WRITE, dv_control := Some PIN_DEVICE_CONTROL,
             dv_user_data := user_data\<rparr>)\<rparr>);
     (_, k) \<leftarrow> rt_device_register (Some hw_pin) name RT_DEVICE_FLAG_RDWR k;
     Some (0, k)
   }"

definition rt_hw_pin_init :: "nat \<Rightarrow> initialiser" where
  "rt_hw_pin_init hw_pin k = rt_device_pin_register hw_pin (c_string ''pin'') 0 k"

text \<open>
  The shell of the configuration (\<^verbatim>\<open>finsh_system_init\<close>): its structure of 532 bytes, whose first field is the semaphore, and the
  thread that reads commands; the tables of commands and the prompt are its own business.
\<close>

definition finsh_system_init :: "nat \<Rightarrow> initialiser" where
  "finsh_system_init finsh_thread_entry k = do {
     (shell, h) \<leftarrow> rt_calloc 1 532 (k_irq_nest k) (k_heap k);
     k \<leftarrow> Some (k\<lparr>k_heap := h\<rparr>);
     case shell of
       None \<Rightarrow> Some (-1, k)
     | Some shell \<Rightarrow> do {
         (tid, k) \<leftarrow> rt_thread_create (c_string ''tshell'') finsh_thread_entry 0 2048 11 10 k;
         (_, k) \<leftarrow> rt_sem_init shell (c_string ''shrx'') 0 0 k;
         case tid of
           None \<Rightarrow> Some (0, k)
         | Some t \<Rightarrow> do {
             (_, k) \<leftarrow> rt_thread_startup t k;
             Some (0, k)
           }
       }
   }"

text \<open>The tick timer is a hardware register; \<open>heap_begin\<close> and \<open>heap_end\<close> are the bounds of the array for the heap.\<close>

definition rt_hw_board_init :: "nat \<Rightarrow> nat \<Rightarrow> initialiser \<Rightarrow> initialiser \<Rightarrow> initialiser list \<Rightarrow> kernel \<Rightarrow> kernel option" where
  "rt_hw_board_init heap_begin heap_end usart console inits k = do {
     k \<leftarrow> Some (k\<lparr>k_heap := rt_system_heap_init heap_begin heap_end (k_heap k)\<rparr>);
     (_, k) \<leftarrow> usart k;
     (_, k) \<leftarrow> console k;
     rt_components_board_init inits k
   }"

definition rt_application_init :: "nat \<Rightarrow> kernel \<Rightarrow> (nat \<times> kernel) option" where
  "rt_application_init main_thread_entry k = do {
     (tid, k) \<leftarrow> rt_thread_create (c_string ''main'') main_thread_entry 0 2048 5 20 k;
     tid \<leftarrow> tid;
     (_, k) \<leftarrow> rt_thread_startup tid k;
     Some (tid, k)
   }"

text \<open>
  The whole start, on the kernel after the board; the version banner only prints, and without soft timers
  \<^verbatim>\<open>rt_system_timer_thread_init\<close> is empty.  The result is the main thread and the kernel when it starts to run.
\<close>

definition rtthread_startup_kernel :: "nat \<Rightarrow> nat \<Rightarrow> nat \<Rightarrow> nat \<Rightarrow> kernel \<Rightarrow> (nat \<times> kernel) option" where
  "rtthread_startup_kernel main_thread_entry idle rt_thread_idle_entry rt_thread_stack k = do {
     k \<leftarrow> Some (rt_system_scheduler_init (rt_system_timer_init k));
     (tid, k) \<leftarrow> rt_application_init main_thread_entry k;
     k \<leftarrow> rt_thread_idle_init idle rt_thread_idle_entry rt_thread_stack k;
     k \<leftarrow> rt_system_scheduler_start k;
     Some (tid, k)
   }"

definition rtthread_startup ::
    "(kernel \<Rightarrow> kernel option) \<Rightarrow> nat \<Rightarrow> nat \<Rightarrow> nat \<Rightarrow> nat \<Rightarrow> kernel \<Rightarrow> (nat \<times> kernel) option" where
  "rtthread_startup board_init main_thread_entry idle rt_thread_idle_entry rt_thread_stack k = do {
     k \<leftarrow> board_init k;
     rtthread_startup_kernel main_thread_entry idle rt_thread_idle_entry rt_thread_stack k
   }"

text \<open>The entry of the main thread up to the loop of \<^verbatim>\<open>main\<close>.\<close>

definition main_thread_entry ::
    "initialiser list \<Rightarrow> (kernel \<Rightarrow> kernel option) \<Rightarrow> (nat \<Rightarrow> u8) \<Rightarrow> nat \<Rightarrow> nat \<Rightarrow> kernel \<Rightarrow>
      ((nat option \<times> nat option \<times> nat option \<times> nat option) \<times> kernel) option" where
  "main_thread_entry inits kb_init junk inputTaskEntry seqTaskEntry k = do {
     k \<leftarrow> rt_components_init inits k;
     main_init kb_init junk inputTaskEntry seqTaskEntry k
   }"

section \<open>The start of the program\<close>

text \<open>
  What is asked of \<^verbatim>\<open>kbInit\<close>, on the mutexes and devices the kernel has when \<^verbatim>\<open>main\<close> is called: if it returns, it has kept the
  invariant and the threads, and taken at most \<open>N\<close> bytes of the heap.
\<close>

definition same_io :: "kernel \<Rightarrow> kernel \<Rightarrow> bool" where
  "same_io k k' \<longleftrightarrow> k_mutexes k' = k_mutexes k \<and> k_devices k' = k_devices k \<and>
     k_objects k' RT_Object_Class_Device = k_objects k RT_Object_Class_Device \<and> (\<forall>m. k_lists k' (MutexQ m) = k_lists k (MutexQ m))"

definition kb_init_ok :: "nat \<Rightarrow> (kernel \<Rightarrow> kernel option) \<Rightarrow> kernel \<Rightarrow> bool" where
  "kb_init_ok N kb_init k \<longleftrightarrow> (\<forall>bs k1 k2. boot_inv bs k1 \<longrightarrow> same_io k k1 \<longrightarrow> k_threads k1 = k_threads k \<longrightarrow> k_current k1 = k_current k \<longrightarrow>
     kb_init k1 = Some k2 \<longrightarrow> dom (k_threads k2) = dom (k_threads k) \<and> k_current k2 = k_current k \<and>
       (\<forall>p. below_current k p \<longrightarrow> below_current k2 p) \<and> (\<exists>bs'. boot_inv bs' k2 \<and> spends N bs bs'))"

text \<open>The state when \<^verbatim>\<open>main\<close> has made its tasks, while the main thread still runs.\<close>

definition task_ready :: "nat option \<Rightarrow> nat \<Rightarrow> kernel \<Rightarrow> kernel \<Rightarrow> bool" where
  "task_ready r p k k' \<longleftrightarrow> (\<forall>t. r = Some t \<longrightarrow> k_threads k t = None \<and> (\<exists>th. k_threads k' t = Some th \<and> ready_thread p th))"

definition machine_bytes :: nat where
  "machine_bytes = need 32 + (need 60 + need 192) + 2 * (need 128 + need 4096)"

definition main_started :: "kernel \<Rightarrow> nat option \<Rightarrow> nat option \<Rightarrow> nat option \<Rightarrow> kernel \<Rightarrow> bool" where
  "main_started k mq tin tseq k' \<longleftrightarrow> k_current k' = k_current k \<and> (\<exists>bs'. boot_inv bs' k') \<and>
     task_ready tin 7 k k' \<and> task_ready tseq 6 k k' \<and> (\<forall>t. tin = Some t \<longrightarrow> tseq \<noteq> Some t) \<and>
     dom (k_threads k) \<subseteq> dom (k_threads k') \<and>
     (\<forall>b. mq = Some b \<longrightarrow> (\<exists>q. k_mqs k' b = Some q \<and> mq_ok q \<and> mq_msg_size q = of_nat sizeof_InputEvents \<and> mq_max_msgs q = 8 \<and> mq_contents q = []))"

lemma mq_made_ok:
  assumes "mq_made junk RT_IPC_FLAG_PRIO sz n b k"
  obtains q where "k_mqs k b = Some q" "mq_ok q" "mq_msg_size q = sz" "mq_max_msgs q = n" "mq_contents q = []"
proof -
  obtain addr mq where m: "k_mqs k b = Some (mq_setup junk RT_IPC_FLAG_PRIO addr sz n mq)" "ob_type (mq_parent mq) = RT_Object_Class_MessageQueue"
    using assms by (auto simp: mq_made_def)
  show thesis
    by (rule that [OF m(1)]) (simp_all add: mq_ok_def mq_setup_empty mq_setup_parent rt_object_get_type_def m(2))
qed

lemma thread_made_task:
  assumes "thread_made N (ready_thread p) bs k r k'"
  shows "task_ready r p k k'" "dom (k_threads k) \<subseteq> dom (k_threads k')" "k_current k' = k_current k" "k_mqs k' = k_mqs k"
    "\<exists>bs'. boot_inv bs' k' \<and> (case r of None \<Rightarrow> scarce N bs | Some t \<Rightarrow> spends N bs bs')"
    "r = None \<Longrightarrow> k_threads k' = k_threads k" "r = Some t \<Longrightarrow> k_threads k' u \<noteq> None \<longleftrightarrow> u = t \<or> k_threads k u \<noteq> None"
    "k_threads k u = Some th \<Longrightarrow> k_threads k' u = Some th"
  using assms by (cases r; auto simp: thread_made_def task_ready_def same_rest_def)+

lemma thread_made_below:
  assumes "thread_made N P bs k r k'" and "boot_inv bs k" and "below_current k p"
  shows "below_current k' p"
proof (cases r)
  case None
  then show ?thesis using assms by (simp add: thread_made_def same_rest_def below_current_def)
next
  case (Some t)
  then show ?thesis using assms below_current_new [OF assms(3)] boot_invD(2) [OF assms(2)] by (auto simp: thread_made_def same_rest_def)
qed

text \<open>\<^verbatim>\<open>main\<close> up to its loop, on any kernel in which its thread runs above the priorities of the tasks.\<close>

lemma pool_size: "rt_align (20 :: u32) = 20" "ucast (rt_align (of_nat sizeof_InputEvents)) = (20 :: u16)"
  by (simp_all add: rt_align_def)

lemma input_init_boot:
  assumes i: "boot_inv bs k" and kb: "kb_init k = Some k1" "boot_inv bs1 k1" "dom (k_threads k1) = dom (k_threads k)" "k_current k1 = k_current k"
    "spends N bs bs1" and p: "below_current k1 7"
  shows "returns (inputTaskInit kb_init junk entry k) (\<lambda>((mq, tin), k'). k_current k' = k_current k \<and> task_ready tin 7 k k' \<and>
    (\<forall>p. below_current k1 p \<longrightarrow> below_current k' p) \<and> dom (k_threads k) \<subseteq> dom (k_threads k') \<and>
    (\<forall>t. k_threads k' t \<noteq> None \<longrightarrow> k_threads k t \<noteq> None \<or> tin = Some t) \<and>
    (\<forall>b. mq = Some b \<longrightarrow> mq_made junk RT_IPC_FLAG_PRIO 20 8 b k') \<and>
    (\<exists>bs'. boot_inv bs' k' \<and> (if mq \<noteq> None \<and> tin \<noteq> None then spends (N + (need 60 + need 192) + (need 128 + need 4096)) bs bs'
       else scarce (N + (need 60 + need 192) + (need 128 + need 4096)) bs)))"
proof -
  have P: "(20 :: u16) = ucast (rt_align (of_nat sizeof_InputEvents :: u32))" "(8 :: u16) = ucast (8 :: u32)"
    "(192 :: u32) = (ucast (20 :: u16) + 4) * ucast (8 :: u16)" "(192 :: u32) \<noteq> 0"
    by (simp_all add: rt_align_def)
  obtain mq k2 where m: "rt_mq_create junk (c_string ''input_event_mq'') (of_nat sizeof_InputEvents) 8 RT_IPC_FLAG_PRIO k1 = Some (mq, k2)"
    "made (need 60 + need 192) bs1 k1 mq k2" "\<forall>b. mq = Some b \<longrightarrow> mq_made junk RT_IPC_FLAG_PRIO 20 8 b k2"
    using mq_create_boot [OF kb(2) P, of junk "c_string ''input_event_mq''" RT_IPC_FLAG_PRIO] by (auto simp: returns_def)
  obtain bs2 where b2: "boot_inv bs2 k2" "k_threads k2 = k_threads k1" "k_current k2 = k_current k1"
    "case mq of None \<Rightarrow> scarce (need 60 + need 192) bs1 | Some a \<Rightarrow> spends (need 60 + need 192) bs1 bs2"
    using m(2) by (auto simp: made_def)
  have "below_current k2 (unat (7 :: u8))" using p b2(2,3) by (simp add: below_current_def)
  from start_task_boot [OF b2(1) _ this, of "''inputTaskEntry''" entry] obtain tin k3
    where s: "start_task ''inputTaskEntry'' entry 7 k2 = Some (tin, k3)" "thread_made (need 128 + need 4096) (ready_thread 7) bs2 k2 tin k3"
    by (auto simp: returns_def)
  note t = thread_made_task [OF s(2)]
  obtain bs3 where b3: "boot_inv bs3 k3" "case tin of None \<Rightarrow> scarce (need 128 + need 4096) bs2 | Some t \<Rightarrow> spends (need 128 + need 4096) bs2 bs3"
    using t(5) by blast
  have e: "inputTaskInit kb_init junk entry k = Some ((mq, tin), k3)" using kb(1) m(1) s(1) by (simp add: inputTaskInit_def)
  have space: "if mq \<noteq> None \<and> tin \<noteq> None then spends (N + (need 60 + need 192) + (need 128 + need 4096)) bs bs3
       else scarce (N + (need 60 + need 192) + (need 128 + need 4096)) bs"
  proof (cases mq)
    case None
    then have "scarce (N + (need 60 + need 192)) bs" using scarce_spends [OF kb(5)] b2(4) by simp
    then show ?thesis using None scarce_mono by fastforce
  next
    case (Some a)
    then have sp: "spends (N + (need 60 + need 192)) bs bs2" using spends_trans [OF kb(5)] b2(4) by simp
    then show ?thesis using Some spends_trans [OF sp] scarce_spends [OF sp] b3(2) by (cases tin) simp_all
  qed
  have q: "\<forall>b. mq = Some b \<longrightarrow> mq_made junk RT_IPC_FLAG_PRIO 20 8 b k3" using m(3) t(4) by (simp add: mq_made_def)
  have n: "k_threads k1 u = None \<longleftrightarrow> k_threads k u = None" for u using kb(3) by (metis domIff)
  have th: "\<forall>u. k_threads k3 u \<noteq> None \<longrightarrow> k_threads k u \<noteq> None \<or> tin = Some u" using t(6,7) b2(2) n by (cases tin) auto
  have "task_ready tin 7 k k3" using t(1) b2(2) n by (simp add: task_ready_def)
  moreover have "dom (k_threads k) \<subseteq> dom (k_threads k3)" using t(2) b2(2) kb(3) by simp
  moreover have "k_current k3 = k_current k" using t(3) b2(3) kb(4) by simp
  moreover have "below_current k3 q" if "below_current k1 q" for q
    by (rule thread_made_below [OF s(2) b2(1)]) (use that b2(2,3) in \<open>simp add: below_current_def\<close>)
  ultimately show ?thesis unfolding e returns_simps prod.case using q th space b3(1) by blast
qed

definition main_result :: "nat \<Rightarrow> blk list \<Rightarrow> kernel \<Rightarrow> (nat option \<times> nat option \<times> nat option \<times> nat option) \<times> kernel \<Rightarrow> bool" where
  "main_result N bs k r \<longleftrightarrow> (case r of ((ev, mq, tin, tseq), k') \<Rightarrow> main_started k mq tin tseq k' \<and>
     (None \<in> {ev, mq, tin, tseq} \<longrightarrow> scarce (N + machine_bytes) bs))"

lemma main_init_boot:
  assumes i: "boot_inv bs k" and p: "below_current k 6" and kb: "kb_init_ok N kb_init k"
  shows "case main_init kb_init junk entry1 entry2 k of None \<Rightarrow> \<exists>bs1 k1. boot_inv bs1 k1 \<and> kb_init k1 = None \<and> same_io k k1 \<and> k_threads k1 = k_threads k \<and>
        k_current k1 = k_current k \<and> hp_ptr (k_heap k1) = hp_ptr (k_heap k) \<and> hp_end (k_heap k1) = hp_end (k_heap k) \<and> (scarce (need 32) bs \<or> spends (need 32) bs bs1)
    | Some r \<Rightarrow> main_result N bs k r"
proof -
  obtain ev k1 where e: "rt_event_create (c_string ''inst_trig_event'') RT_IPC_FLAG_PRIO k = Some (ev, k1)" "made (need 32) bs k ev k1" "same_io k k1"
      "hp_ptr (k_heap k1) = hp_ptr (k_heap k)" "hp_end (k_heap k1) = hp_end (k_heap k)"
    using event_create_boot [OF i, of "c_string ''inst_trig_event''" RT_IPC_FLAG_PRIO] by (auto simp: returns_def same_io_def)
  obtain bs1 where b1: "boot_inv bs1 k1" "k_threads k1 = k_threads k" "k_current k1 = k_current k"
    "case ev of None \<Rightarrow> scarce (need 32) bs | Some a \<Rightarrow> spends (need 32) bs bs1" using e(2) by (auto simp: made_def)
  show ?thesis
  proof (cases "kb_init k1")
    case None
    then have "main_init kb_init junk entry1 entry2 k = None" using e(1) by (simp add: main_init_def inputTaskInit_def)
    moreover have "scarce (need 32) bs \<or> spends (need 32) bs bs1" using b1(4) by (cases ev) simp_all
    ultimately show ?thesis using b1 None e(3-5) by auto
  next
    case (Some k2)
    obtain bs2 where k2: "boot_inv bs2 k2" "dom (k_threads k2) = dom (k_threads k1)" "k_current k2 = k_current k1" "spends N bs1 bs2"
      "\<forall>p. below_current k p \<longrightarrow> below_current k2 p"
      using kb b1(1-3) e(3) Some unfolding kb_init_ok_def by metis
    have "below_current k2 6" using k2(5) p by blast
    then have "below_current k2 7" by (fastforce simp: below_current_def)
    from input_init_boot [where kb_init = kb_init, OF b1(1) Some k2(1,2,3,4) this, of junk entry1] obtain mq tin k3 bs3
      where n: "inputTaskInit kb_init junk entry1 k1 = Some ((mq, tin), k3)" "k_current k3 = k_current k1" "task_ready tin 7 k1 k3"
        "dom (k_threads k1) \<subseteq> dom (k_threads k3)" "\<forall>t. k_threads k3 t \<noteq> None \<longrightarrow> k_threads k1 t \<noteq> None \<or> tin = Some t"
        "\<forall>b. mq = Some b \<longrightarrow> mq_made junk RT_IPC_FLAG_PRIO 20 8 b k3" "boot_inv bs3 k3"
        "if mq \<noteq> None \<and> tin \<noteq> None then spends (N + (need 60 + need 192) + (need 128 + need 4096)) bs1 bs3
         else scarce (N + (need 60 + need 192) + (need 128 + need 4096)) bs1" "\<forall>p. below_current k2 p \<longrightarrow> below_current k3 p"
      unfolding returns_def by auto
    have c: "below_current k3 (unat (6 :: u8))" using n(9) \<open>below_current k2 6\<close> by simp
    from start_task_boot [OF n(7) _ c, of "''sequencerTaskEntry''" entry2] obtain tseq k4
      where s: "start_task ''sequencerTaskEntry'' entry2 6 k3 = Some (tseq, k4)" "thread_made (need 128 + need 4096) (ready_thread 6) bs3 k3 tseq k4"
      by (auto simp: returns_def)
    note t = thread_made_task [OF s(2)]
    obtain bs4 where b4: "boot_inv bs4 k4" "case tseq of None \<Rightarrow> scarce (need 128 + need 4096) bs3 | Some t \<Rightarrow> spends (need 128 + need 4096) bs3 bs4"
      using t(5) by blast
    have m: "main_init kb_init junk entry1 entry2 k = Some ((ev, mq, tin, tseq), k4)"
      using e(1) n(1) s(1) by (simp add: main_init_def sequencerTaskInit_def)
    have "task_ready tin 7 k k4" using n(3) t(8) b1(2) by (fastforce simp: task_ready_def)
    moreover have new: "k_threads k3 u = None \<Longrightarrow> k_threads k u = None" for u using n(4) b1(2) by (auto simp: dom_def)
    moreover have "task_ready tseq 6 k k4" using t(1) new by (auto simp: task_ready_def)
    moreover have "\<forall>u. tin = Some u \<longrightarrow> tseq \<noteq> Some u" using n(3) t(1) by (auto simp: task_ready_def)
    moreover have "dom (k_threads k) \<subseteq> dom (k_threads k4)" using n(4) t(2) b1(2) by auto
    moreover have "\<exists>q. k_mqs k4 b = Some q \<and> mq_ok q \<and> mq_msg_size q = of_nat sizeof_InputEvents \<and> mq_max_msgs q = 8 \<and> mq_contents q = []"
      if "mq = Some b" for b
    proof -
      have "mq_made junk RT_IPC_FLAG_PRIO 20 8 b k3" using n(6) that by simp
      then obtain q where "k_mqs k3 b = Some q" "mq_ok q" "mq_msg_size q = 20" "mq_max_msgs q = 8" "mq_contents q = []" by (rule mq_made_ok)
      then show ?thesis using t(4) by simp
    qed
    ultimately have st: "main_started k mq tin tseq k4" using b4(1) t(3) n(2) b1(3) unfolding main_started_def by simp blast
    have "scarce (N + machine_bytes) bs" if "None \<in> {ev, mq, tin, tseq}"
    proof (cases ev)
      case None
      then show ?thesis using b1(4) scarce_mono [of "need 32" bs "N + machine_bytes"] by (simp add: machine_bytes_def)
    next
      case (Some x)
      then have sp: "spends (need 32) bs bs1" using b1(4) by simp
      have "scarce (N + (need 60 + need 192) + 2 * (need 128 + need 4096)) bs1"
      proof (cases "mq \<noteq> None \<and> tin \<noteq> None")
        case True
        then have "spends (N + (need 60 + need 192) + (need 128 + need 4096)) bs1 bs3" "scarce (need 128 + need 4096) bs3"
          using n(8) b4(2) that Some by auto
        from scarce_spends [OF this] show ?thesis by (rule scarce_mono) simp
      next
        case False
        then have "scarce (N + (need 60 + need 192) + (need 128 + need 4096)) bs1" using n(8) by simp
        then show ?thesis by (rule scarce_mono) simp
      qed
      from scarce_spends [OF sp this] show ?thesis by (rule scarce_mono) (simp add: machine_bytes_def)
    qed
    then show ?thesis unfolding m option.case main_result_def prod.case using st by blast
  qed
qed

section \<open>The start of the kernel\<close>

text \<open>The first switch: to the first thread of the highest ready priority.\<close>

lemma scheduler_start:
  assumes i: "kinv k" and c: "k_current k = None" and p: "highest_ready k p" and t: "k_threads k t = Some th" "t = hd (k_lists k (Ready p))"
  defines "k' \<equiv> k\<lparr>k_current := Some t, k_lists := lists_remove t (k_lists k), k_ready_group := removed_group t th k,
    k_threads := (k_threads k)(t \<mapsto> th\<lparr>th_stat := RT_THREAD_RUNNING\<rparr>)\<rparr>"
  shows "rt_system_scheduler_start k = Some k'" and "kinv k'"
proof -
  have L: "linv {} (k_lists k) (k_ready_group k) (k_threads k)" and M: "tinv {} (k_timers k) (k_timer_list k) (k_timer_tmp k) (k_threads k)"
    using i by (simp_all add: kinvx_def)
  have m: "t \<in> set (k_lists k (Ready p))" using p t(2) by (simp add: highest_ready_def)
  then have th: "thread_stat th = RT_THREAD_READY" "prio th = p" using linvD(4) [OF L m] t(1) by (auto simp: member_stat)
  have l: "live th" "own_timer (k_timers k) t" using kinvx_live [OF i t(1)] th by simp_all
  have nt: "Thread_timer t \<notin> set (k_timer_list k)" using tinvD(4) [OF M, of t] t(1) th by auto
  have pl: "prio th < 32" "th_number_mask th = push_bit (prio th) 1" using l(1) by (simp_all add: live_def)
  obtain q where q: "highest_ready k q" "get_highest_priority_thread k = Some (hd (k_lists k (Ready q)), q)"
    by (rule get_highest_priority_thread_eq [OF i ready_group_nonzero [OF i m]])
  have "q = p" using q(1) p unfolding highest_ready_def by (metis nat_neq_iff)
  then have g: "get_highest_priority_thread k = Some (t, p)" using q(2) t(2) by simp
  have r: "rt_schedule_remove_thread t (k\<lparr>k_current := Some t\<rparr>) = Some (k\<lparr>k_current := Some t, k_lists := lists_remove t (k_lists k), k_ready_group := removed_group t th k\<rparr>)"
    using t(1) pl(1) by (simp add: rt_schedule_remove_thread_def get_thread_def tlist_remove_def tlist_isempty_def removed_group_def)
  show "rt_system_scheduler_start k = Some k'"
    using g r t(1) by (simp add: rt_system_scheduler_start_def mod_thread_def k'_def)
  let ?r = "th\<lparr>th_stat := RT_THREAD_RUNNING\<rparr>"
  have "linv {t} (lists_remove t (k_lists k)) (removed_group t th k) ((k_threads k)(t \<mapsto> ?r))"
    using kinvx_upd_X [OF remove_thread(2) [OF i t(1) pl], of t ?r] by (simp add: kinvx_def)
  moreover have "tinv {t} (k_timers k) (k_timer_list k) (k_timer_tmp k) ((k_threads k)(t \<mapsto> ?r))"
    using kinvx_upd_X [OF remove_thread(2) [OF i t(1) pl], of t ?r] by (simp add: kinvx_def)
  moreover have "cinv {t} (Some t) ((k_threads k)(t \<mapsto> ?r))"
    by (rule cinvI) (use cinvD(3) [of "{}" None "k_threads k"] i c in \<open>auto simp: kinvx_def\<close>)
  ultimately have k': "kinvx {t} k'" by (simp add: kinvx_def k'_def)
  have w: "live ?r" "thread_stat ?r = RT_THREAD_RUNNING" using l(1) by (simp_all add: live_def prio_def is_thread_object_def thread_stat_def)
  have "kinvx ({} - {t}) k'"
    by (rule kinvx_settle [OF k', where th = ?r]) (use w l(2) nt live_wf [OF w(1)] in \<open>simp_all add: k'_def\<close>)
  then show "kinv k'" by simp
qed

text \<open>The idle thread, whose object is a variable outside the heap.\<close>

lemma idle_init_boot:
  assumes i: "boot_inv bs k" and t: "k_threads k idle = None" "outside (k_heap k) idle" and c: "k_current k = None"
  shows "returns (rt_thread_idle_init idle entry stack k) (\<lambda>k'. boot_inv bs k' \<and> k_current k' = None \<and> k_heap k' = k_heap k \<and>
    (\<exists>th. k_threads k' = (k_threads k)(idle \<mapsto> th) \<and> ready_thread 31 th) \<and> k_lists k' = lists_insert_before (Ready 31) idle (k_lists k) \<and>
    other_objects k k')"
proof -
  note b = boot_invD [OF i]
  let ?name = "map of_char ''tidle0'' @ [0]"
  let ?th = "zero_thread\<lparr>th_parent := zero_object\<lparr>ob_type := RT_Object_Class_Thread OR RT_Object_Class_Static, ob_name := rt_strncpy RT_NAME_MAX ?name\<rparr>\<rparr>"
  define k1 where "k1 = k\<lparr>k_threads := (k_threads k)(idle \<mapsto> ?th),
    k_objects := (k_objects k)(RT_Object_Class_Thread := OThread idle # k_objects k RT_Object_Class_Thread)\<rparr>"
  have o: "OThread idle \<notin> set (k_objects k RT_Object_Class_Thread)" using b(5) t(1) by (auto simp: placed_def)
  have e: "rt_object_init (OThread idle) RT_Object_Class_Thread ?name k = Some k1"
    using calm_object_init [OF b(1,2) _ _ o, of ?name] c t(1) thread_information(1) by (simp add: k1_def storage_def zero_thread_def)
  have k1: "boot_invx {idle} bs k1" unfolding k1_def by (rule boot_new_thread [OF i t(1)]) (use t(2) in auto)
  have nt: "OTimer (Thread_timer idle) \<notin> set (k_objects k1 RT_Object_Class_Timer)"
    using thread_timer_new [OF b(5) t(1)] by (simp add: k1_def)
  have "k_threads k1 idle = Some ?th" "is_thread_object ?th" "unat (of_nat (RT_THREAD_PRIORITY_MAX - 1) :: u8) < 32"
    by (simp_all add: k1_def is_thread_object_def)
  from thread_init_boot [OF k1 this nt, of entry 0 stack 512 32] obtain k2 th
    where k2: "rt_thread_init' idle entry 0 stack 512 (of_nat (RT_THREAD_PRIORITY_MAX - 1)) 32 k1 = Some (RT_EOK, k2)" "boot_inv bs k2"
      "k_threads k2 = (k_threads k1)(idle \<mapsto> th)" "init_thread 31 th" "k_lists k2 = k_lists k1" "k_current k2 = k_current k1" "k_heap k2 = k_heap k1"
      "other_objects k1 k2" by (auto simp: returns_def init_thread_def)
  have f: "k_threads k2 = (k_threads k)(idle \<mapsto> th)" "k_current k2 = None" "k_heap k2 = k_heap k" "k_lists k2 = k_lists k" "unat (th_init_priority th) = 31"
    "thread_stat th = RT_THREAD_INIT" using k2 c by (simp_all add: k1_def init_thread_def)
  have fo: "other_objects k k2" by (rule other_objects_trans [OF _ k2(8)]) (auto simp: k1_def intro: other_objectsI)
  have "returns (rt_thread_startup idle k2) (\<lambda>(r, k'). boot_inv bs k' \<and> k_current k' = None \<and> k_heap k' = k_heap k \<and>
    (\<exists>th. k_threads k' = (k_threads k)(idle \<mapsto> th) \<and> ready_thread 31 th) \<and> k_lists k' = lists_insert_before (Ready 31) idle (k_lists k) \<and>
    other_objects k k')"
    by (rule returns_mono_pair [OF thread_startup_boot [OF k2(2)]])
      (use f started_ready [OF k2(4)] other_objects_trans [OF fo] in \<open>auto simp: below_current_def\<close>)
  then show ?thesis using e k2(1) by (auto simp: rt_thread_idle_init_def rt_thread_init_def elim!: returns_mono)
qed

text \<open>From the kernel the board leaves to the main thread.\<close>

definition empty_kernel :: "nat \<Rightarrow> kernel \<Rightarrow> bool" where
  "empty_kernel idle k \<longleftrightarrow> k_threads k = Map.empty \<and> k_current k = None \<and> outside (k_heap k) idle"

definition main_bytes :: nat where
  "main_bytes = need 128 + need 2048"

definition main_running :: "nat \<Rightarrow> nat \<Rightarrow> kernel \<Rightarrow> bool" where
  "main_running idle tmain k \<longleftrightarrow> running tmain k \<and> tmain \<noteq> idle \<and> dom (k_threads k) = {tmain, idle} \<and>
     (\<exists>th. k_threads k tmain = Some th \<and> prio th = 5) \<and> (\<exists>th. k_threads k idle = Some th \<and> ready_thread 31 th) \<and>
     k_lists k = (\<lambda>_. [])(Ready 31 := [idle])"

lemma empty_lists:
  assumes "kinv k" and "k_threads k = Map.empty"
  shows "k_lists k = (\<lambda>_. [])" "k_ready_group k = 0"
proof -
  have L: "linv {} (k_lists k) (k_ready_group k) (k_threads k)" using assms(1) by (simp add: kinvx_def)
  have "t \<notin> set (k_lists k h)" for t h using linvD(4) [OF L, of t h] assms(2) by auto
  then show e: "k_lists k = (\<lambda>_. [])" by (metis last_in_set)
  have "\<not> bit (k_ready_group k) q" for q using ready_okD [OF linvD(2) [OF L]] e by auto
  then show "k_ready_group k = 0" by (simp add: bit_eq_iff)
qed

lemma application_init_boot:
  assumes i: "boot_inv bs k" and e: "empty_kernel idle k"
  shows "case rt_application_init entry k of None \<Rightarrow> scarce main_bytes bs
    | Some (tmain, k') \<Rightarrow> (\<exists>bs'. boot_inv bs' k' \<and> spends main_bytes bs bs') \<and> (\<exists>th. k_threads k' = [tmain \<mapsto> th] \<and> ready_thread 5 th) \<and>
        tmain \<noteq> idle \<and> k_lists k' = (\<lambda>_. [])(Ready 5 := [tmain]) \<and> k_current k' = None \<and> outside (k_heap k') idle \<and> other_objects k k'"
proof -
  have u: "unat (5 :: u8) < 32" "(2048 :: u32) \<noteq> 0" by simp_all
  obtain r k1 where c: "rt_thread_create (c_string ''main'') entry 0 2048 5 20 k = Some (r, k1)"
    "thread_made main_bytes (init_thread 5) bs k r k1" "k_lists k1 = k_lists k"
    using thread_create_boot [OF i u, of "c_string ''main''" entry 0 20] by (auto simp: returns_def main_bytes_def)
  show ?thesis
  proof (cases r)
    case None
    then show ?thesis using c(1,2) by (simp add: rt_application_init_def thread_made_def)
  next
    case (Some t)
    have "below_current k 5" using e by (simp add: below_current_def empty_kernel_def)
    from created_startup [OF i c(2) [unfolded Some] c(3) this] obtain k2 x
      where s: "rt_thread_startup t k1 = Some (x, k2)" "thread_made main_bytes (ready_thread 5) bs k (Some t) k2"
        "k_lists k2 = lists_insert_before (Ready 5) t (k_lists k)" by (auto simp: returns_def)
    obtain bs2 where b2: "boot_inv bs2 k2" using s(2) by (auto simp: thread_made_def)
    have h: "outside (k_heap k2) idle" "k_current k2 = None" "t \<noteq> idle" "other_objects k k2"
      using s(2) e by (auto simp: thread_made_def same_rest_def empty_kernel_def outside_def)
    show ?thesis
      using c(1) Some s h e empty_lists [OF boot_invD(1) [OF i]]
      by (auto simp: rt_application_init_def thread_made_def empty_kernel_def lists_insert_before_def)
  qed
qed

lemma init_empty:
  assumes i: "boot_inv bs k" and e: "empty_kernel idle k"
  shows "rt_system_scheduler_init (rt_system_timer_init k) = k"
proof -
  note b = boot_invD [OF i]
  have "k_lists k = (\<lambda>_. [])" "k_ready_group k = 0" using empty_lists [OF b(1)] e by (simp_all add: empty_kernel_def)
  then show ?thesis
    using b(3,7) by (cases k) (auto simp: rt_system_scheduler_init_def rt_system_timer_init_def fun_eq_iff split: lhead.split)
qed

lemma ready_lists_switch:
  "lists_remove t ((\<lambda>_. [])(Ready 5 := [t], Ready 31 := [idle])) = (\<lambda>_. [])(Ready 31 := [idle])" if "t \<noteq> idle"
  using that by (auto simp: lists_remove_def fun_eq_iff)

lemma startup_kernel_boot:
  assumes i: "boot_inv bs k" and e: "empty_kernel idle k"
  shows "case rtthread_startup_kernel entry idle idle_entry stack k of None \<Rightarrow> scarce main_bytes bs
    | Some (tmain, k') \<Rightarrow> (\<exists>bs'. boot_inv bs' k' \<and> spends main_bytes bs bs') \<and> main_running idle tmain k' \<and> other_objects k k'"
proof (cases "rt_application_init entry k")
  case None
  then show ?thesis
    using application_init_boot [OF i e, of entry] by (simp add: rtthread_startup_kernel_def init_empty [OF i e])
next
  case (Some r)
  obtain t k1 where r: "r = (t, k1)" by fastforce
  obtain bs1 th where a: "boot_inv bs1 k1" "spends main_bytes bs bs1" "k_threads k1 = [t \<mapsto> th]" "ready_thread 5 th" "t \<noteq> idle"
    "k_lists k1 = (\<lambda>_. [])(Ready 5 := [t])" "k_current k1 = None" "outside (k_heap k1) idle" "other_objects k k1"
    using application_init_boot [OF i e, of entry] Some r by auto
  have "k_threads k1 idle = None" using a(3,5) by simp
  from idle_init_boot [OF a(1) this a(8,7), of idle_entry stack] obtain k2 th2
    where d: "rt_thread_idle_init idle idle_entry stack k1 = Some k2" "boot_inv bs1 k2" "k_current k2 = None"
      "k_threads k2 = [t \<mapsto> th, idle \<mapsto> th2]" "ready_thread 31 th2" "k_lists k2 = (\<lambda>_. [])(Ready 5 := [t], Ready 31 := [idle])" "other_objects k1 k2"
    using a(3,6) by (auto simp: returns_def lists_insert_before_def)
  note b2 = boot_invD [OF d(2)]
  have t: "k_threads k2 t = Some th" "t = hd (k_lists k2 (Ready 5))" "highest_ready k2 5"
    using d(4,6) a(5) by (auto simp: highest_ready_def)
  note st = scheduler_start [OF b2(1) d(3) t(3,1,2)]
  define k3 where "k3 = k2\<lparr>k_current := Some t, k_lists := lists_remove t (k_lists k2), k_ready_group := removed_group t th k2,
    k_threads := (k_threads k2)(t \<mapsto> th\<lparr>th_stat := RT_THREAD_RUNNING\<rparr>)\<rparr>"
  have L: "k_lists k3 = (\<lambda>_. [])(Ready 31 := [idle])" using ready_lists_switch [OF a(5)] d(6) by (simp add: k3_def)
  have p: "prio (th\<lparr>th_stat := RT_THREAD_RUNNING\<rparr>) = 5" using a(4) by (simp add: ready_thread_def prio_def)
  have th3: "k_threads k3 = [idle \<mapsto> th2, t \<mapsto> th\<lparr>th_stat := RT_THREAD_RUNNING\<rparr>]" using d(4) a(5) by (auto simp: k3_def fun_eq_iff)
  have "calm k3" unfolding calm_def L using b2(6,7) th3 p by (auto simp: k3_def)
  moreover have "placed bs1 k3" using b2(5) d(4) unfolding placed_def th3 by (auto simp: k3_def)
  ultimately have "boot_inv bs1 k3" using st(2) [folded k3_def] b2 by (simp add: boot_invx_def) (simp add: k3_def)
  moreover have "main_running idle t k3"
    using L th3 p a(5) d(5) by (auto simp: main_running_def running_def k3_def thread_stat_def)
  moreover have "rtthread_startup_kernel entry idle idle_entry stack k = Some (t, k3)"
    using Some r d(1) st(1) [folded k3_def] by (simp add: rtthread_startup_kernel_def init_empty [OF i e])
  moreover have "other_objects k2 k3" by (rule other_objectsI) (simp_all add: k3_def)
  then have "other_objects k k3" using other_objects_trans [OF other_objects_trans [OF a(9) d(7)]] by simp
  ultimately show ?thesis using a(2) by auto
qed

section \<open>The initialisers\<close>

text \<open>
  What an initialiser of the board is asked to keep: there is still no thread, and it has taken at most \<open>N\<close> bytes of the heap.
  One that the main thread calls keeps the main thread running above the priorities of the tasks.
\<close>

definition boot_from :: "nat \<Rightarrow> blk list \<Rightarrow> kernel \<Rightarrow> bool" where
  "boot_from N bs0 k \<longleftrightarrow> (\<exists>bs. boot_inv bs k \<and> spends N bs0 bs)"

definition board_ok :: "nat \<Rightarrow> nat \<Rightarrow> initialiser \<Rightarrow> bool" where
  "board_ok idle N fn \<longleftrightarrow> (\<forall>bs k r k'. boot_inv bs k \<longrightarrow> empty_kernel idle k \<longrightarrow> fn k = Some (r, k') \<longrightarrow> boot_from N bs k' \<and> empty_kernel idle k')"

definition component_ok :: "nat \<Rightarrow> initialiser \<Rightarrow> bool" where
  "component_ok N fn \<longleftrightarrow> (\<forall>bs k r k'. boot_inv bs k \<longrightarrow> below_current k 6 \<longrightarrow> fn k = Some (r, k') \<longrightarrow>
     boot_from N bs k' \<and> k_current k' = k_current k \<and> below_current k' 6)"

lemma boot_from_trans: "boot_from N bs0 k \<Longrightarrow> (\<And>bs. boot_inv bs k \<Longrightarrow> boot_from M bs k') \<Longrightarrow> boot_from (N + M) bs0 k'"
  using spends_trans unfolding boot_from_def by blast

text \<open>The two tables are run by the same loop.\<close>

lemma components_same_loop: "rt_components_init fns k = rt_components_board_init fns k"
  by (induction fns arbitrary: k) (auto split: bind_splits)

text \<open>The interface of a table of initialisers: an invariant with the number of bytes that the calls made may have taken.\<close>

locale initialisers =
  fixes inv :: "nat \<Rightarrow> kernel \<Rightarrow> bool" and ok :: "nat \<Rightarrow> initialiser \<Rightarrow> bool"
  assumes call: "ok N fn \<Longrightarrow> inv n k \<Longrightarrow> fn k = Some (r, k') \<Longrightarrow> inv (n + N) k'"
begin

lemma board_init_keeps: "list_all2 ok Ns fns \<Longrightarrow> inv n k \<Longrightarrow> rt_components_board_init fns k = Some k' \<Longrightarrow> inv (n + sum_list Ns) k'"
proof (induction arbitrary: n k rule: list_all2_induct)
  case (Cons N Ns fn fns)
  obtain r k1 where "fn k = Some (r, k1)" "rt_components_board_init fns k1 = Some k'" using Cons.prems(2) by (auto simp: bind_eq_Some_conv)
  then show ?case using Cons.IH [of "n + N" k1] call [of N fn n k r k1] Cons.hyps(1) Cons.prems(1) by (simp add: add.assoc)
qed simp

lemma components_init_keeps: "list_all2 ok Ns fns \<Longrightarrow> inv n k \<Longrightarrow> rt_components_init fns k = Some k' \<Longrightarrow> inv (n + sum_list Ns) k'"
  by (rule board_init_keeps) (simp_all add: components_same_loop)

end

definition board_phase :: "nat \<Rightarrow> blk list \<Rightarrow> nat \<Rightarrow> kernel \<Rightarrow> bool" where
  "board_phase idle bs0 n k \<longleftrightarrow> boot_from n bs0 k \<and> empty_kernel idle k"

definition component_phase :: "nat option \<Rightarrow> blk list \<Rightarrow> nat \<Rightarrow> kernel \<Rightarrow> bool" where
  "component_phase c bs0 n k \<longleftrightarrow> boot_from n bs0 k \<and> k_current k = c \<and> below_current k 6"

lemma board_phase_call:
  assumes "board_ok idle N fn" and "board_phase idle bs0 n k" and "fn k = Some (r, k')"
  shows "board_phase idle bs0 (n + N) k'"
  using assms boot_from_trans [of n bs0 k N k'] unfolding board_phase_def board_ok_def boot_from_def by auto

lemma component_phase_call:
  assumes "component_ok N fn" and "component_phase c bs0 n k" and "fn k = Some (r, k')"
  shows "component_phase c bs0 (n + N) k'"
  using assms boot_from_trans [of n bs0 k N k'] unfolding component_phase_def component_ok_def boot_from_def by auto

interpretation board_calls: initialisers "board_phase idle bs0" "board_ok idle" for idle bs0
  by unfold_locales (rule board_phase_call)

interpretation component_calls: initialisers "component_phase c bs0" component_ok for c bs0
  by unfold_locales (rule component_phase_call)

text \<open>The initialisers at hand keep what is asked of them; registering a device takes no memory.\<close>

lemma device_register_boot:
  assumes i: "boot_inv bs k" and r: "rt_device_register (Some d) name flags k = Some (r, k')"
  shows "boot_inv bs k'" "k_threads k' = k_threads k" "k_current k' = k_current k" "k_heap k' = k_heap k"
    "k_mutexes k' = k_mutexes k" "k_lists k' = k_lists k"
proof -
  note b = boot_invD [OF i]
  have x: "\<And>c. k_current k = Some c \<Longrightarrow> c \<notin> {}" by simp
  have "\<exists>q. rt_device_find name k = Some (q, k)"
    using b(6) calm_critical [OF b(1,2) x] device_information by (auto simp: rt_device_find_def rt_object_find_def)
  then obtain q where q: "rt_device_find name k = Some (q, k)" by blast
  have "boot_inv bs k' \<and> k_threads k' = k_threads k \<and> k_current k' = k_current k \<and> k_heap k' = k_heap k \<and>
    k_mutexes k' = k_mutexes k \<and> k_lists k' = k_lists k"
  proof (cases q)
    case (Some a)
    then show ?thesis using r q i by (auto simp: rt_device_register_def)
  next
    case None
    then obtain k1 where k1: "rt_object_init (ODevice d) RT_Object_Class_Device name k = Some k1"
      "mod_device d (\<lambda>dev. dev\<lparr>dv_flag := flags, dv_ref_count := 0, dv_open_flag := 0\<rparr>) k1 = Some k'"
      using r q by (auto simp: rt_device_register_def bind_eq_Some_conv)
    have "ODevice d \<notin> set (k_objects k RT_Object_Class_Device)"
      using k1(1) by (auto simp: rt_object_init_def rt_enter_critical_def split: if_splits)
    from calm_object_init [OF b(1,2) x device_information this, of name] k1
    show ?thesis using b by (auto simp: mod_device_def bind_eq_Some_conv kinvx_def intro!: boot_invx_cong [OF i] split: if_splits)
  qed
  then show "boot_inv bs k'" "k_threads k' = k_threads k" "k_current k' = k_current k" "k_heap k' = k_heap k"
    "k_mutexes k' = k_mutexes k" "k_lists k' = k_lists k" by simp_all
qed

lemma boot_devices: "boot_inv bs k \<Longrightarrow> boot_inv bs (k\<lparr>k_devices := D\<rparr>)"
  by (rule boot_invx_cong) (auto simp: kinvx_def dest: boot_invD(1))

text \<open>The devices by their names: finding one changes nothing, and registering one with a new name puts it in front.\<close>

definition device_table :: "(nat \<times> u8 list) list \<Rightarrow> kernel \<Rightarrow> bool" where
  "device_table xs k \<longleftrightarrow> k_objects k RT_Object_Class_Device = map (\<lambda>(d, _). ODevice d) xs \<and>
     (\<forall>(d, n) \<in> set xs. \<exists>dv. k_devices k d = Some dv \<and> ob_name (dv_parent dv) = rt_strncpy RT_NAME_MAX n)"

definition named_in :: "u8 list \<Rightarrow> (nat \<times> u8 list) list \<Rightarrow> nat option" where
  "named_in name xs = map_option fst (find (\<lambda>(d, n). rt_strncpy RT_NAME_MAX n = rt_strncpy RT_NAME_MAX name) xs)"

definition registered :: "u8 list \<Rightarrow> u16 \<Rightarrow> rt_device \<Rightarrow> rt_device" where
  "registered name flags dev = dev\<lparr>dv_parent := (dv_parent dev)\<lparr>ob_type := RT_Object_Class_Device OR RT_Object_Class_Static,
     ob_name := rt_strncpy RT_NAME_MAX name\<rparr>, dv_flag := flags, dv_ref_count := 0, dv_open_flag := 0\<rparr>"

lemma registered_simps [simp]: "dv_type (registered name flags dev) = dv_type dev"
    "dv_parent (registered name flags dev) = (dv_parent dev)\<lparr>ob_type := RT_Object_Class_Device OR RT_Object_Class_Static,
       ob_name := rt_strncpy RT_NAME_MAX name\<rparr>"
  by (simp_all add: registered_def)

lemma device_table_cong:
  "k_objects k' RT_Object_Class_Device = k_objects k RT_Object_Class_Device \<Longrightarrow> k_devices k' = k_devices k \<Longrightarrow> device_table xs k' = device_table xs k"
  by (simp add: device_table_def)

lemma table_find:
  assumes i: "boot_inv bs k" and t: "device_table xs k"
  shows "rt_device_find name k = Some (named_in name xs, k)"
proof -
  note b = boot_invD [OF i]
  have x: "\<And>c. k_current k = Some c \<Longrightarrow> c \<notin> {}" by simp
  let ?P = "\<lambda>obj. case obj_header obj (rt_enter_critical k) of Some ob \<Rightarrow> rt_strncmp (ob_name ob) name RT_NAME_MAX = 0 | None \<Rightarrow> False"
  have "map_option obj_addr (find ?P (map (\<lambda>(d, _). ODevice d) ys)) = named_in name ys" if "set ys \<subseteq> set xs" for ys
    using that
  proof (induction ys)
    case (Cons y ys)
    obtain d n where y: "y = (d, n)" by (cases y)
    obtain dv where dv: "k_devices k d = Some dv" "ob_name (dv_parent dv) = rt_strncpy RT_NAME_MAX n"
      using t Cons.prems by (auto simp: device_table_def y)
    have "?P (ODevice d) \<longleftrightarrow> rt_strncpy RT_NAME_MAX n = rt_strncpy RT_NAME_MAX name"
      using dv by (simp add: rt_enter_critical_def rt_strncmp_field)
    then show ?case using Cons by (simp add: y named_in_def)
  qed (simp add: named_in_def)
  moreover have "k_objects (rt_enter_critical k) RT_Object_Class_Device = map (\<lambda>(d, _). ODevice d) xs"
    using t by (simp add: device_table_def rt_enter_critical_def)
  ultimately show ?thesis
    using b(6) calm_critical [OF b(1,2) x] device_information by (auto simp: rt_device_find_def rt_object_find_def)
qed

lemma table_register:
  assumes i: "boot_inv bs k" and t: "device_table xs k" and n: "named_in name xs = None" "d \<notin> fst ` set xs" and d: "k_devices k d = Some dev"
  obtains k' where "rt_device_register (Some d) name flags k = Some (RT_EOK, k')" "boot_inv bs k'" "device_table ((d, name) # xs) k'"
    "k' = k\<lparr>k_devices := (k_devices k)(d \<mapsto> registered name flags dev),
       k_objects := (k_objects k)(RT_Object_Class_Device := ODevice d # k_objects k RT_Object_Class_Device)\<rparr>"
proof -
  note b = boot_invD [OF i]
  have x: "\<And>c. k_current k = Some c \<Longrightarrow> c \<notin> {}" by simp
  define k' where "k' = k\<lparr>k_devices := (k_devices k)(d \<mapsto> registered name flags dev),
    k_objects := (k_objects k)(RT_Object_Class_Device := ODevice d # k_objects k RT_Object_Class_Device)\<rparr>"
  have "ODevice d \<notin> set (k_objects k RT_Object_Class_Device)" using t n(2) by (force simp: device_table_def)
  from calm_object_init [OF b(1,2) x device_information this, of name]
  have r: "rt_device_register (Some d) name flags k = Some (RT_EOK, k')"
    using table_find [OF i t, of name] n(1) d by (simp add: rt_device_register_def mod_device_def storage_def registered_def k'_def)
  have "device_table ((d, name) # xs) k'" using t n(2) by (force simp: device_table_def k'_def registered_def)
  from that [OF r device_register_boot(1) [OF i r] this k'_def] show thesis .
qed

lemma return_ok: "board_ok idle 0 (\<lambda>k. Some (0, k))" "component_ok 0 (\<lambda>k. Some (0, k))"
  by (auto simp: board_ok_def component_ok_def boot_from_def intro: spends_zero)

lemma rti_ok: "board_ok idle 0 rti_start" "board_ok idle 0 rti_board_start" "component_ok 0 rti_board_end" "component_ok 0 rti_end"
  using return_ok by (simp_all add: rti_start_def [abs_def] rti_board_start_def [abs_def] rti_board_end_def [abs_def] rti_end_def [abs_def])

lemma pin_init_ok: "board_ok idle 0 (rt_hw_pin_init hw_pin)"
  unfolding board_ok_def
proof (intro allI impI)
  fix bs k r k' assume i: "boot_inv bs k" "empty_kernel idle k" "rt_hw_pin_init hw_pin k = Some (r, k')"
  obtain D q where q: "rt_device_register (Some hw_pin) (c_string ''pin'') RT_DEVICE_FLAG_RDWR (k\<lparr>k_devices := D\<rparr>) = Some (q, k')"
    using i(3) by (auto simp: rt_hw_pin_init_def rt_device_pin_register_def bind_eq_Some_conv)
  have "boot_inv bs (k\<lparr>k_devices := D\<rparr>)"
    by (rule boot_invx_cong [OF i(1)]) (use boot_invD(1) [OF i(1)] in \<open>simp_all add: kinvx_def\<close>)
  from device_register_boot [OF this q] i(2) show "boot_from 0 bs k' \<and> empty_kernel idle k'"
    by (auto simp: boot_from_def empty_kernel_def)
qed

text \<open>The shell, which takes the largest share: its structure, and a thread with a stack of 2048 bytes.\<close>

lemma sem_init_boot:
  assumes i: "boot_inv bs k" and r: "rt_sem_init s name value flag k = Some (x, k')"
  shows "boot_inv bs k'" "k_threads k' = k_threads k" "k_current k' = k_current k"
proof -
  note b = boot_invD [OF i]
  have t: "rt_object_get_information RT_Object_Class_Semaphore \<noteq> None"
    by (simp add: rt_object_get_information_def rt_object_container_def)
  obtain k1 where o: "rt_object_init (OSem s) RT_Object_Class_Semaphore name k = Some k1"
    "mod_sem s (sem_set (ucast value) flag) (rt_ipc_object_init (SemQ s) k1) = Some k'"
    using r by (cases "value < 0x10000") (auto simp: rt_sem_init_def bind_eq_Some_conv)
  have "OSem s \<notin> set (k_objects k RT_Object_Class_Semaphore)"
    using o(1) by (auto simp: rt_object_init_def rt_enter_critical_def split: if_splits)
  from calm_object_init [OF b(1,2) _ t this, of name] o(1)
  have k1: "boot_inv bs k1" "k_threads k1 = k_threads k" "k_current k1 = k_current k"
    using b by (auto simp: kinvx_def intro!: boot_invx_cong [OF i])
  have k2: "boot_inv bs (rt_ipc_object_init (SemQ s) k1)" by (rule boot_wait_init [OF k1(1)]) (simp add: wait_head_def)
  obtain S where k': "k' = rt_ipc_object_init (SemQ s) k1\<lparr>k_sems := S\<rparr>" using o(2) by (auto simp: mod_sem_def bind_eq_Some_conv)
  show "boot_inv bs k'"
    unfolding k' by (rule boot_invx_cong [OF k2]) (use boot_invD(1) [OF k2] in \<open>simp_all add: kinvx_def\<close>)
  show "k_threads k' = k_threads k" "k_current k' = k_current k" using k1 by (simp_all add: k' rt_ipc_object_init_def)
qed

lemma finsh_ok: "component_ok 2744 (finsh_system_init entry)"
  unfolding component_ok_def
proof (intro allI impI)
  fix bs k r k' assume i: "boot_inv bs k" "below_current k 6" and f: "finsh_system_init entry k = Some (r, k')"
  note b = boot_invD [OF i(1)]
  have n: "need 532 + (need 128 + need 2048) = 2744" by (simp add: need_def request_def rt_align_def)
  obtain q h where m: "rt_malloc 532 (k_irq_nest k) (k_heap k) = Some (q, h)" "malloc_result 532 bs k q h"
    using malloc_new [OF b(4,6), of 532] by (auto simp: returns_def)
  show "boot_from 2744 bs k' \<and> k_current k' = k_current k \<and> below_current k' 6"
  proof (cases q)
    case None
    then have "k' = k" "scarce (need 532) bs" using m f by (auto simp: finsh_system_init_def rt_calloc_def malloc_result_def)
    moreover have "spends 2744 bs bs" using scarce_mono [OF calculation(2), of 2744] n by (fastforce simp: scarce_def spends_def)
    ultimately show ?thesis using i by (auto simp: boot_from_def)
  next
    case (Some shell)
    then obtain bs1 where n1: "new_block bs k bs1 h shell" "spends (need 532) bs bs1" using m(2) by (auto simp: malloc_result_def)
    let ?k1 = "k\<lparr>k_heap := h\<rparr>"
    have k1: "boot_inv bs1 ?k1" by (rule boot_new_block [OF i(1) n1(1)])
    obtain tid k2 where c: "rt_thread_create (c_string ''tshell'') entry 0 2048 11 10 ?k1 = Some (tid, k2)"
        "thread_made (need 128 + need 2048) (init_thread 11) bs1 ?k1 tid k2"
      using thread_create_boot [OF k1, of 11 2048 "c_string ''tshell''" entry 0 10] by (auto simp: returns_def)
    obtain x k3 where s: "rt_sem_init shell (c_string ''shrx'') 0 0 k2 = Some (x, k3)"
        "(case tid of None \<Rightarrow> Some (0, k3) | Some t \<Rightarrow> do { (_, k) \<leftarrow> rt_thread_startup t k3; Some (0, k) }) = Some (r, k')"
      using f m(1) Some c(1) by (auto simp: finsh_system_init_def rt_calloc_def bind_eq_Some_conv)
    have bc1: "below_current ?k1 6" using i(2) by (simp add: below_current_def)
    have bc2: "below_current k2 6" by (rule thread_made_below [OF c(2) k1 bc1])
    show ?thesis
    proof (cases tid)
      case None
      obtain bs2 where k2: "boot_inv bs2 k2" "k_current k2 = k_current k" "scarce (need 128 + need 2048) bs1"
        using c(2) None by (auto simp: thread_made_def same_rest_def)
      note k3 = sem_init_boot [OF k2(1) s(1)]
      have e: "k' = k3" using s(2) None by simp
      have "scarce 2744 bs" using scarce_spends [OF n1(2) k2(3)] n by simp
      then have "spends 2744 bs bs2" by (fastforce simp: scarce_def spends_def)
      then show ?thesis using k3 k2(2) bc2 by (auto simp: e boot_from_def below_current_def)
    next
      case (Some t)
      obtain bs2 th where k2: "boot_inv bs2 k2" "k_current k2 = k_current k" "spends (need 128 + need 2048) bs1 bs2"
        "k_threads k t = None" "k_threads k2 = (k_threads k)(t \<mapsto> th)" "init_thread 11 th"
        using c(2) Some by (auto simp: thread_made_def same_rest_def)
      note k3 = sem_init_boot [OF k2(1) s(1)]
      have bc3: "below_current k3 6" using bc2 k3(2,3) by (simp add: below_current_def)
      have th: "k_threads k3 t = Some th" "thread_stat th = RT_THREAD_INIT" "below_current k3 (unat (th_init_priority th))"
        using k2(5,6) k3(2) bc3 by (auto simp: init_thread_def below_current_def)
      obtain y where y: "rt_thread_startup t k3 = Some (y, k')" using s(2) Some by (auto simp: bind_eq_Some_conv)
      have st: "boot_inv bs2 k'" "k_threads k' = (k_threads k3)(t \<mapsto> started_thread th)" "k_current k' = k_current k3"
        using returnsD [OF thread_startup_boot [OF k3(1) th] y] by simp_all
      have "spends 2744 bs bs2" using spends_trans [OF n1(2) k2(3)] n by simp
      moreover have "k_current k' \<noteq> Some t" using b(2) k2(2,4) k3(3) st(3) by (auto simp: calm_def)
      ultimately show ?thesis
        using st bc3 k2(2) k3(3) by (auto simp: boot_from_def below_current_def split: if_splits)
    qed
  qed
qed

definition pin_board_table :: "nat \<Rightarrow> initialiser list" where
  "pin_board_table hw_pin = [rti_board_start, rt_hw_pin_init hw_pin]"

section \<open>After a reset\<close>

definition heap_bytes :: "nat \<Rightarrow> nat \<Rightarrow> nat" where
  "heap_bytes heap_begin heap_end = heap_end div 4 * 4 - (heap_begin + 3) div 4 * 4 - SIZEOF_STRUCT_MEM"

lemma reset_boot:
  assumes b: "(hb + 3) div 4 * 4 + 36 \<le> he div 4 * 4" "he < 2 ^ 32" and o: "idle < hb \<or> he \<le> idle"
  defines "k \<equiv> reset_kernel\<lparr>k_heap := rt_system_heap_init hb he (k_heap reset_kernel)\<rparr>"
  obtains bs where "boot_inv bs k" "empty_kernel idle k" "room (heap_bytes hb he) bs"
proof -
  let ?h = "rt_system_heap_init hb he (k_heap reset_kernel)"
  have h: "heap_rep ?h [(0, hp_end ?h, False)]" by (rule heap_init_rep [OF b]) (simp add: reset_kernel_def)
  have e: "hp_end ?h = heap_bytes hb he" "hp_ptr ?h = (hb + 3) div 4 * 4"
    using b by (auto simp: rt_system_heap_init_def heap_bytes_def Let_def) (simp add: add.commute)
  have "kinv k" by (simp add: kinvx_def k_def reset_kernel_def linv_def lists_wf_def ready_ok_def cinv_def tinv_def)
  then have "boot_inv [(0, hp_end ?h, False)] k"
    using h by (simp add: boot_invx_def calm_def placed_def k_def) (simp add: reset_kernel_def)
  moreover have "empty_kernel idle k"
  proof -
    have "(hb + 3) div 4 * 4 \<ge> hb" "(hb + 3) div 4 * 4 + heap_bytes hb he \<le> he" using b by (simp_all add: heap_bytes_def)
    then show ?thesis using o e by (auto simp: empty_kernel_def outside_def k_def reset_kernel_def)
  qed
  moreover have "room (heap_bytes hb he) [(0, hp_end ?h, False)]" using e(1) by (auto simp: room_def)
  ultimately show thesis by (rule that)
qed

lemma board_init_boot:
  assumes b: "(hb + 3) div 4 * 4 + 36 \<le> he div 4 * 4" "he < 2 ^ 32" and o: "idle < hb \<or> he \<le> idle"
    and fns: "list_all2 (board_ok idle) Ns (usart # console # inits)"
    and k: "rt_hw_board_init hb he usart console inits reset_kernel = Some k0"
  obtains bs0 where "room (heap_bytes hb he) bs0" "boot_from (sum_list Ns) bs0 k0" "empty_kernel idle k0"
proof -
  define kr where "kr = reset_kernel\<lparr>k_heap := rt_system_heap_init hb he (k_heap reset_kernel)\<rparr>"
  obtain bs0 where r: "boot_inv bs0 kr" "empty_kernel idle kr" "room (heap_bytes hb he) bs0"
    unfolding kr_def by (rule reset_boot [OF b o])
  have p0: "board_phase idle bs0 0 kr" using r by (auto simp: board_phase_def boot_from_def)
  have "rt_components_board_init (usart # console # inits) kr = Some k0"
    using k by (auto simp: rt_hw_board_init_def kr_def bind_eq_Some_conv)
  from board_calls.board_init_keeps [OF fns p0 this]
  have "boot_from (sum_list Ns) bs0 k0" "empty_kernel idle k0" by (simp_all add: board_phase_def)
  then show thesis using that r(3) by blast
qed

lemma startup_returns:
  assumes b: "(hb + 3) div 4 * 4 + 36 \<le> he div 4 * 4" "he < 2 ^ 32" and o: "idle < hb \<or> he \<le> idle"
    and fns: "list_all2 (board_ok idle) Ns (usart # console # inits)"
    and k: "rt_hw_board_init hb he usart console inits reset_kernel \<noteq> None"
    and R: "sum_list Ns + main_bytes + (SIZEOF_STRUCT_MEM + MIN_SIZE_ALIGNED) \<le> heap_bytes hb he"
  shows "returns (rtthread_startup (rt_hw_board_init hb he usart console inits) entry idle idle_entry stack reset_kernel)
    (\<lambda>(tmain, k). main_running idle tmain k \<and>
      (\<exists>bs0. room (heap_bytes hb he) bs0 \<and> boot_from (sum_list Ns + main_bytes) bs0 k) \<and>
      (\<exists>k0. rt_hw_board_init hb he usart console inits reset_kernel = Some k0 \<and> other_objects k0 k))"
proof -
  obtain k0 where k0: "rt_hw_board_init hb he usart console inits reset_kernel = Some k0" using k by auto
  obtain bs0 where r: "room (heap_bytes hb he) bs0" "boot_from (sum_list Ns) bs0 k0" "empty_kernel idle k0"
    by (rule board_init_boot [OF b o fns k0])
  obtain bs where bs: "boot_inv bs k0" "spends (sum_list Ns) bs0 bs" using r(2) by (auto simp: boot_from_def)
  note s = startup_kernel_boot [OF bs(1) r(3), of entry idle_entry stack]
  show ?thesis
  proof (cases "rtthread_startup_kernel entry idle idle_entry stack k0")
    case None
    then have "scarce (sum_list Ns + main_bytes) bs0" using s scarce_spends [OF bs(2)] by simp
    then show ?thesis using r(1) R by (auto simp: scarce_def)
  next
    case (Some q)
    then show ?thesis using s spends_trans [OF bs(2)] r(1) k0 by (auto simp: rtthread_startup_def boot_from_def split: prod.splits)
  qed
qed

lemma bytes: "main_bytes = 2200" "machine_bytes = 8816"
  by (simp_all add: main_bytes_def machine_bytes_def need_def request_def rt_align_def)

text \<open>The heap of the board is an array of 4096 words.\<close>

abbreviation RT_HEAP_SIZE :: nat where "RT_HEAP_SIZE \<equiv> 4096"

lemma board_heap:
  assumes "4 dvd rt_heap"
  shows "(rt_heap + 3) div 4 * 4 + 36 \<le> (rt_heap + 4 * RT_HEAP_SIZE) div 4 * 4" "heap_bytes rt_heap (rt_heap + 4 * RT_HEAP_SIZE) = 16372"
proof -
  obtain q where "rt_heap = 4 * q" using assms by (auto elim: dvdE)
  then show "(rt_heap + 3) div 4 * 4 + 36 \<le> (rt_heap + 4 * RT_HEAP_SIZE) div 4 * 4" "heap_bytes rt_heap (rt_heap + 4 * RT_HEAP_SIZE) = 16372"
    by (simp_all add: heap_bytes_def)
qed

text \<open>From the start of the main thread to the start of the machine.\<close>

lemma boot_drum_start:
  assumes m: "main_started k (Some b) (Some ti) (Some ts) k'" and c: "k_current k = Some tm" "k_threads k tm \<noteq> None"
  shows "drum_start ti ts tm (drum_boot (Some b) ev k')"
proof -
  obtain bs' q where i: "boot_inv bs' k'" "k_mqs k' b = Some q" "mq_ok q" "mq_msg_size q = of_nat sizeof_InputEvents" "mq_contents q = []"
    "k_current k' = Some tm" using m c by (auto simp: main_started_def)
  note b = boot_invD [OF i(1)]
  have "between_ticks k'" using b(1,3) i(6) by (simp add: between_ticks_def thread_timers_only_def)
  moreover have "distinct [ti, ts, tm]" using m c by (auto simp: main_started_def task_ready_def)
  ultimately show ?thesis using drum_boot_start [OF _ _ b(6) i(2-5)] by blast
qed

lemma main_entry_starts:
  assumes i: "boot_from M bs0 k1" "k_current k1 = Some tm" "below_current k1 6" and fns: "list_all2 component_ok Ms comps"
    and kb: "\<forall>k2. rt_components_init comps k1 = Some k2 \<longrightarrow> kb_init_ok K kb_init k2"
    and R: "room R bs0" "M + sum_list Ms + K + machine_bytes + (SIZEOF_STRUCT_MEM + MIN_SIZE_ALIGNED) \<le> R"
    and e: "main_thread_entry comps kb_init junk entry1 entry2 k1 = Some ((ev, mq, tin, tseq), k3)"
  obtains b ti ts where "ev \<noteq> None" "mq = Some b" "tin = Some ti" "tseq = Some ts" "drum_start ti ts tm (drum_boot (Some b) evs k3)"
proof -
  obtain bs1 where b1: "boot_inv bs1 k1" "spends M bs0 bs1" using i(1) by (auto simp: boot_from_def)
  obtain k2 where k2: "rt_components_init comps k1 = Some k2" "main_init kb_init junk entry1 entry2 k2 = Some ((ev, mq, tin, tseq), k3)"
    using e by (auto simp: main_thread_entry_def bind_eq_Some_conv)
  have "component_phase (Some tm) bs1 0 k1" using b1(1) i by (auto simp: component_phase_def boot_from_def)
  from component_calls.components_init_keeps [OF fns this k2(1)]
  have "boot_from (sum_list Ms) bs1 k2" and c: "k_current k2 = Some tm" "below_current k2 6" by (simp_all add: component_phase_def)
  then obtain bs2 where b2: "boot_inv bs2 k2" "spends (sum_list Ms) bs1 bs2" by (auto simp: boot_from_def)
  have m: "main_result K bs2 k2 ((ev, mq, tin, tseq), k3)"
    using main_init_boot [OF b2(1) c(2), of K kb_init junk entry1 entry2] kb k2 by simp
  have sp: "spends (M + sum_list Ms) bs0 bs2" by (rule spends_trans [OF b1(2) b2(2)])
  have "None \<notin> {ev, mq, tin, tseq}"
  proof
    assume "None \<in> {ev, mq, tin, tseq}"
    then have "scarce (K + machine_bytes) bs2" using m unfolding main_result_def prod.case by blast
    from scarce_spends [OF sp this] have "scarce (M + sum_list Ms + (K + machine_bytes)) bs0" .
    then show False using R by (fastforce simp: scarce_def)
  qed
  then obtain b ti ts where s: "ev \<noteq> None" "mq = Some b" "tin = Some ti" "tseq = Some ts"
    by (cases ev; cases mq; cases tin; cases tseq) auto
  have t: "k_threads k2 tm \<noteq> None" using boot_invD(2) [OF b2(1)] c(1) by (auto simp: calm_def)
  have "main_started k2 (Some b) (Some ti) (Some ts) k3" using m s by (simp add: main_result_def)
  from boot_drum_start [OF this c(1) t] show thesis using that [OF s] by blast
qed

section \<open>What the start promises\<close>

text \<open>
  C4. From a reset, when the initialisers of the board return, each keeps what \<open>board_ok\<close> asks of it (it creates no thread, keeps the
  invariant and takes at most the bytes in \<open>Ns\<close> that stand for it), and the heap is larger than their sum by 2224 bytes or more:
  \<^verbatim>\<open>rtthread_startup\<close> reaches its first switch.  Then the kernel invariant holds, the main thread runs at its priority, the idle
  thread is ready at the lowest one, and there are no other threads.  Of the 2224 bytes the main thread takes 2200; the last block
  must have the 24 bytes of a header and a smallest block above that.
\<close>

theorem rtthread_startup_runs_main:
  assumes "(hb + 3) div 4 * 4 + 36 \<le> he div 4 * 4" and "he < 2 ^ 32" and "idle < hb \<or> he \<le> idle"
    and "list_all2 (board_ok idle) Ns (usart # console # inits)"
    and "rt_hw_board_init hb he usart console inits reset_kernel \<noteq> None"
    and "sum_list Ns + 2224 \<le> heap_bytes hb he"
  shows "returns (rtthread_startup (rt_hw_board_init hb he usart console inits) main idle rt_thread_idle_entry rt_thread_stack reset_kernel)
    (\<lambda>(tmain, k). kinv k \<and> main_running idle tmain k)"
  by (rule returns_mono_pair [OF startup_returns [OF assms(1-5)]])
    (use assms(6) in \<open>auto simp: bytes boot_from_def dest: boot_invD(1)\<close>)

text \<open>
  C7. \<^verbatim>\<open>main\<close> up to its loop survives any shortage of memory: on a kernel whose running thread is above its tasks, it stops only if
  \<^verbatim>\<open>kbInit\<close> stops.  Otherwise the kernel invariant holds and the main thread still runs, every task that could be created is a
  new thread, ready at its priority, and the queue, if it could be created, is empty with room for eight events.
\<close>

theorem main_init_survives:
  assumes "boot_inv bs k" and "below_current k 6" and "kb_init_ok N kb_init k"
  shows "case main_init kb_init junk inputTaskEntry seqTaskEntry k of
      None \<Rightarrow> \<exists>bs1 k1. boot_inv bs1 k1 \<and> kb_init k1 = None
    | Some ((ev, mq, tin, tseq), k') \<Rightarrow> kinv k' \<and> k_current k' = k_current k \<and> task_ready tin 7 k k' \<and> task_ready tseq 6 k k' \<and>
        (\<forall>b. mq = Some b \<longrightarrow> (\<exists>q. k_mqs k' b = Some q \<and> mq_ok q \<and> mq_max_msgs q = 8 \<and> mq_contents q = []))"
  using main_init_boot [OF assms, of junk inputTaskEntry seqTaskEntry]
  by (auto simp: main_result_def main_started_def dest: boot_invD(1) split: option.splits)

text \<open>
  C3. From the reset to the playing machine, in the 16384 bytes of heap of the board.  Every initialiser keeps what is asked of it
  (\<open>board_ok\<close> before the scheduler runs, \<open>component_ok\<close> in the main thread) and takes at most the bytes that \<open>Ns\<close> and \<open>Ms\<close> give it,
  and \<^verbatim>\<open>kbInit\<close> keeps what \<open>kb_init_ok\<close> asks and takes at most \<open>K\<close>.  If all these bounds sum up to at most 5332 bytes, then the main
  thread that \<^verbatim>\<open>rtthread_startup\<close> starts creates the event, the queue and both tasks when it returns from \<^verbatim>\<open>main\<close>'s set-up, and every run
  of the machine from there keeps what is promised of it: nothing is lost, and the LEDs show the keys pressed in the events taken.
\<close>

theorem drum_machine_boots:
  assumes "4 dvd rt_heap" and "rt_heap + 4 * RT_HEAP_SIZE < 2 ^ 32" and "idle < rt_heap \<or> rt_heap + 4 * RT_HEAP_SIZE \<le> idle"
    and "list_all2 (board_ok idle) Ns (usart # console # inits)" and "list_all2 component_ok Ms comps"
    and "rtthread_startup (rt_hw_board_init rt_heap (rt_heap + 4 * RT_HEAP_SIZE) usart console inits) main idle rt_thread_idle_entry
      rt_thread_stack reset_kernel = Some (tmain, k1)"
    and "\<forall>k2. rt_components_init comps k1 = Some k2 \<longrightarrow> kb_init_ok K kb_init k2" and "sum_list Ns + sum_list Ms + K \<le> 5332"
    and "main_thread_entry comps kb_init junk inputTaskEntry seqTaskEntry k1 = Some ((ev, mq, tin, tseq), k3)"
  shows "\<exists>b ti ts. ev \<noteq> None \<and> mq = Some b \<and> tin = Some ti \<and> tseq = Some ts \<and>
    (\<forall>stack_events es m. runs (drum_step ti ts tmain) (drum_boot (Some b) stack_events k3) es m \<longrightarrow>
      kinv (mc_kernel m) \<and> Failed \<notin> set es \<and> sent es = got es @ queue_events m \<and> kb_led_data m = leds_of (played (got es)))"
proof -
  have k0: "rt_hw_board_init rt_heap (rt_heap + 4 * RT_HEAP_SIZE) usart console inits reset_kernel \<noteq> None"
    using assms(6) by (auto simp: rtthread_startup_def bind_eq_Some_conv)
  obtain bs0 where s: "main_running idle tmain k1" "room 16372 bs0" "boot_from (sum_list Ns + main_bytes) bs0 k1"
    using returnsD [OF startup_returns [OF board_heap(1) [OF assms(1)] assms(2-4) k0] assms(6)] assms(8) board_heap(2) [OF assms(1)]
    by (auto simp: bytes)
  have c: "k_current k1 = Some tmain" "below_current k1 6" using s(1) by (auto simp: main_running_def running_def below_current_def)
  have R: "sum_list Ns + main_bytes + sum_list Ms + K + machine_bytes + (SIZEOF_STRUCT_MEM + MIN_SIZE_ALIGNED) \<le> 16372"
    using assms(8) by (simp add: bytes)
  obtain b ti ts where t: "ev \<noteq> None" "mq = Some b" "tin = Some ti" "tseq = Some ts"
    by (rule main_entry_starts [OF s(3) c assms(5,7) s(2) R assms(9)])
  have d: "drum_start ti ts tmain (drum_boot (Some b) evs k3)" for evs
    using main_entry_starts [OF s(3) c assms(5,7) s(2) R assms(9), of evs] t by auto
  have "kinv (mc_kernel m) \<and> Failed \<notin> set es \<and> sent es = got es @ queue_events m \<and> kb_led_data m = leds_of (played (got es))"
    if "runs (drum_step ti ts tmain) (drum_boot (Some b) evs k3) es m" for evs es m
    using drum_inv_plays [OF drum.runs_keep [OF that drum_start_inv [OF d]]] by blast
  then show ?thesis using t by blast
qed

section \<open>The promises on a board with one device\<close>

text \<open>A board whose only initialiser registers the pin device; the markers stand for the console.\<close>

abbreviation sample_board_init :: "kernel \<Rightarrow> kernel option" where
  "sample_board_init \<equiv> rt_hw_board_init 0x20001000 0x20005000 rti_start rti_start (pin_board_table 600)"

lemma device_register_new:
  assumes i: "boot_inv bs k" and o: "ODevice d \<notin> set (k_objects k RT_Object_Class_Device)"
  shows "rt_device_register (Some d) name flags k \<noteq> None"
proof -
  note b = boot_invD [OF i]
  have x: "\<And>c. k_current k = Some c \<Longrightarrow> c \<notin> {}" by simp
  obtain r where f: "rt_device_find name k = Some (r, k)"
    using b(6) calm_critical [OF b(1,2) x] device_information by (auto simp: rt_device_find_def rt_object_find_def)
  note n = calm_object_init [OF b(1,2) x device_information o, of name]
  show ?thesis using f n by (simp add: rt_device_register_def mod_device_def)
qed

lemma pin_table_starts:
  assumes i: "boot_inv bs k" and t: "device_table xs k" and n: "named_in (c_string ''pin'') xs = None" "hw_pin \<notin> fst ` set xs"
  obtains k' dv where "rt_hw_pin_init hw_pin k = Some (0, k')" "boot_inv bs k'" "device_table ((hw_pin, c_string ''pin'') # xs) k'"
    "k' = k\<lparr>k_devices := (k_devices k)(hw_pin \<mapsto> dv), k_objects := (k_objects k)(RT_Object_Class_Device :=
       ODevice hw_pin # k_objects k RT_Object_Class_Device)\<rparr>" "dv_type dv = RT_Device_Class_Miscellaneous"
proof -
  define dev where "dev = (storage zero_device (k_devices k hw_pin))
    \<lparr>dv_type := RT_Device_Class_Miscellaneous, dv_rx_indicate := None, dv_tx_complete := None, dv_init := None, dv_open := None,
     dv_close := None, dv_read := Some PIN_DEVICE_READ, dv_write := Some PIN_DEVICE_WRITE, dv_control := Some PIN_DEVICE_CONTROL,
     dv_user_data := 0\<rparr>"
  let ?k = "k\<lparr>k_devices := (k_devices k)(hw_pin \<mapsto> dev)\<rparr>"
  have "device_table xs ?k" using t n(2) by (force simp: device_table_def)
  from table_register [OF boot_devices [OF i] this n, of dev RT_DEVICE_FLAG_RDWR] obtain k'
    where k': "rt_device_register (Some hw_pin) (c_string ''pin'') RT_DEVICE_FLAG_RDWR ?k = Some (RT_EOK, k')" "boot_inv bs k'"
      "device_table ((hw_pin, c_string ''pin'') # xs) k'"
      "k' = ?k\<lparr>k_devices := (k_devices ?k)(hw_pin \<mapsto> registered (c_string ''pin'') RT_DEVICE_FLAG_RDWR dev),
        k_objects := (k_objects ?k)(RT_Object_Class_Device := ODevice hw_pin # k_objects ?k RT_Object_Class_Device)\<rparr>" by auto
  have "rt_hw_pin_init hw_pin k = Some (0, k')"
    using k'(1) unfolding rt_hw_pin_init_def rt_device_pin_register_def dev_def by simp
  moreover have "dv_type dev = RT_Device_Class_Miscellaneous" by (simp add: dev_def)
  ultimately show thesis
    using that [OF _ k'(2,3), of "registered (c_string ''pin'') RT_DEVICE_FLAG_RDWR dev"] by (simp add: k'(4))
qed

lemma sample_board_starts: "sample_board_init reset_kernel \<noteq> None"
proof -
  define kr where "kr = reset_kernel\<lparr>k_heap := rt_system_heap_init 0x20001000 0x20005000 (k_heap reset_kernel)\<rparr>"
  have h: "(0x20001000 + 3) div 4 * 4 + 36 \<le> 0x20005000 div 4 * (4 :: nat)" "0x20005000 < (2 :: nat) ^ 32"
    "0x20000100 < (0x20001000 :: nat) \<or> 0x20005000 \<le> (0x20000100 :: nat)" by simp_all
  obtain bs where i: "boot_inv bs kr" unfolding kr_def by (rule reset_boot [OF h])
  have t: "device_table [] kr" by (simp add: device_table_def kr_def reset_kernel_def)
  obtain k' dv where "rt_hw_pin_init 600 kr = Some (0, k')"
    by (rule pin_table_starts [OF i t, of 600]) (auto simp: named_in_def)
  then show ?thesis
    by (auto simp: rt_hw_board_init_def rti_start_def pin_board_table_def rti_board_start_def kr_def [symmetric])
qed

lemma sample_table_ok: "list_all2 (board_ok idle) [0, 0, 0, 0] (rti_start # rti_start # pin_board_table 600)"
  by (simp add: pin_board_table_def rti_ok pin_init_ok)

theorem rtthread_startup_runs_main_witness:
  "returns (rtthread_startup sample_board_init 1 0x20000100 2 3 reset_kernel) (\<lambda>(tmain, k). kinv k \<and> main_running 0x20000100 tmain k)"
  by (rule rtthread_startup_runs_main [OF _ _ _ sample_table_ok sample_board_starts]) (simp_all add: heap_bytes_def)

lemma sample_kb_ok: "kb_init_ok 0 Some k"
  by (auto simp: kb_init_ok_def below_current_def)

lemma sample_startup:
  obtains tmain k1 bs where "rtthread_startup sample_board_init 1 0x20000100 2 3 reset_kernel = Some (tmain, k1)" "boot_inv bs k1"
    "k_current k1 = Some tmain" "below_current k1 6"
proof -
  have "returns (rtthread_startup sample_board_init 1 0x20000100 2 3 reset_kernel)
    (\<lambda>(tmain, k). main_running 0x20000100 tmain k \<and> (\<exists>bs. boot_inv bs k))"
    by (rule returns_mono_pair [OF startup_returns [OF _ _ _ sample_table_ok sample_board_starts]])
      (auto simp: heap_bytes_def bytes boot_from_def)
  then obtain tmain k1 bs where "rtthread_startup sample_board_init 1 0x20000100 2 3 reset_kernel = Some (tmain, k1)"
    "main_running 0x20000100 tmain k1" "boot_inv bs k1" by (auto simp: returns_def)
  then show thesis using that by (auto simp: main_running_def running_def below_current_def)
qed

theorem main_init_survives_witness:
  "\<exists>tmain k1. rtthread_startup sample_board_init 1 0x20000100 2 3 reset_kernel = Some (tmain, k1) \<and>
    returns (main_init Some (\<lambda>_. 0) 4 5 k1) (\<lambda>((ev, mq, tin, tseq), k'). kinv k' \<and> k_current k' = Some tmain \<and>
      task_ready tin 7 k1 k' \<and> task_ready tseq 6 k1 k')"
proof -
  obtain tmain k1 bs where s: "rtthread_startup sample_board_init 1 0x20000100 2 3 reset_kernel = Some (tmain, k1)" "boot_inv bs k1"
    "k_current k1 = Some tmain" "below_current k1 6" by (rule sample_startup)
  show ?thesis
    using s(1) main_init_survives [OF s(2,4) sample_kb_ok, of "\<lambda>_. 0" 4 5] s(3)
    by (auto simp: returns_def split: option.splits)
qed

end
