(* ===== verification/Completion.thy ===== *)
theory Completion
  imports Ipc SampleKernel
begin

text \<open>
  Completions (\<^verbatim>\<open>components/drivers/src/completion.c\<close>): one thread waits until another thread or an interrupt handler reports
  that something is done.  A call that has to wait stops with \<open>Wait\<close> and the waiting thread; \<open>rt_completion_wait_end\<close>
  is what it does when it runs again.
\<close>

section \<open>The operations\<close>

abbreviation RT_UNCOMPLETED :: u32 where "RT_UNCOMPLETED \<equiv> 0"
abbreviation RT_COMPLETED :: u32 where "RT_COMPLETED \<equiv> 1"

definition mod_completion :: "nat \<Rightarrow> (rt_completion \<Rightarrow> rt_completion) \<Rightarrow> kernel \<Rightarrow> kernel option" where
  "mod_completion c f k = do {
     cp \<leftarrow> k_completions k c;
     Some (k\<lparr>k_completions := (k_completions k)(c \<mapsto> f cp)\<rparr>)
   }"

definition rt_completion_init :: "nat \<Rightarrow> kernel \<Rightarrow> kernel" where
  "rt_completion_init c k = k\<lparr>k_completions := (k_completions k)(c \<mapsto> \<lparr>cp_flag = RT_UNCOMPLETED\<rparr>),
     k_lists := (k_lists k)(CompletionQ c := [])\<rparr>"

definition rt_completion_wait :: "nat \<Rightarrow> int \<Rightarrow> kernel \<Rightarrow> ((int, nat) outcome \<times> kernel) option" where
  "rt_completion_wait c timeout k = do {
     cp \<leftarrow> k_completions k c;
     if cp_flag cp \<noteq> RT_COMPLETED then do {
       rt_assert (tlist_isempty (CompletionQ c) k);
       if timeout = 0 then Some (Done (- RT_ETIMEOUT), k)
       else do {
         t \<leftarrow> rt_thread_self k;
         k \<leftarrow> mod_thread t (\<lambda>th. th\<lparr>th_error := RT_EOK\<rparr>) k;
         rt_assert (k_irq_nest k = 0);
         k \<leftarrow> ipc_block (CompletionQ c) t RT_IPC_FLAG_FIFO timeout k;
         k \<leftarrow> rt_schedule k;
         Some (Wait t, k)
       }
     }
     else do {
       k \<leftarrow> mod_completion c (\<lambda>cp. cp\<lparr>cp_flag := RT_UNCOMPLETED\<rparr>) k;
       Some (Done RT_EOK, k)
     }
   }"

definition rt_completion_wait_end :: "nat \<Rightarrow> nat \<Rightarrow> kernel \<Rightarrow> (int \<times> kernel) option" where
  "rt_completion_wait_end c t k = do {
     th \<leftarrow> get_thread t k;
     k \<leftarrow> mod_completion c (\<lambda>cp. cp\<lparr>cp_flag := RT_UNCOMPLETED\<rparr>) k;
     Some (th_error th, k)
   }"

definition rt_completion_done :: "nat \<Rightarrow> kernel \<Rightarrow> kernel option" where
  "rt_completion_done c k = do {
     cp \<leftarrow> k_completions k c;
     if cp_flag cp = RT_COMPLETED then Some k
     else do {
       k \<leftarrow> mod_completion c (\<lambda>cp. cp\<lparr>cp_flag := RT_COMPLETED\<rparr>) k;
       ipc_wake (CompletionQ c) k
     }
   }"

section \<open>What completions promise\<close>

text \<open>At most one thread waits.\<close>

definition completion_inv :: "nat \<Rightarrow> kernel \<Rightarrow> bool" where
  "completion_inv c k \<longleftrightarrow> k_completions k c \<noteq> None \<and> length (k_lists k (CompletionQ c)) \<le> 1"

lemma kinvx_completions [simp]: "kinvx X (k\<lparr>k_completions := C\<rparr>) = kinvx X k"
  by (simp add: kinvx_def)

text \<open>
  \<^verbatim>\<open>rt_completion_wait\<close> by the running thread, on every branch: a completion that is done is taken, and only its flag is
  cleared; one that is not done gives \<open>-RT_ETIMEOUT\<close> and no change with no waiting time, and else makes the thread wait as the only
  waiter, with its timer running exactly if the time is finite.  With another thread already waiting the assertion fails.
\<close>

theorem rt_completion_wait_correct:
  assumes i: "kinv k" "completion_inv c k" and cp: "k_completions k c = Some cp"
    and t: "k_current k = Some t" "k_threads k t = Some th" "thread_stat th = RT_THREAD_RUNNING"
    and irq: "k_irq_nest k = 0" and n: "timeout < 2 ^ 31 - 1"
  shows "if cp_flag cp \<noteq> RT_COMPLETED \<and> k_lists k (CompletionQ c) \<noteq> [] then rt_completion_wait c timeout k = None
    else returns (rt_completion_wait c timeout k) (\<lambda>(r, k'). kinv k' \<and> completion_inv c k' \<and>
      (if cp_flag cp = RT_COMPLETED then r = Done RT_EOK \<and> k' = k\<lparr>k_completions := (k_completions k)(c \<mapsto> \<lparr>cp_flag = RT_UNCOMPLETED\<rparr>)\<rparr>
       else if timeout = 0 then r = Done (- RT_ETIMEOUT) \<and> k' = k
       else r = Wait t \<and> fields_frame k k' \<and> k_lists k' (CompletionQ c) = [t] \<and>
         (0 < timeout \<longleftrightarrow> Thread_timer t \<in> set (k_timer_list k'))))"
proof -
  consider (busy) "cp_flag cp \<noteq> RT_COMPLETED" "k_lists k (CompletionQ c) \<noteq> []" | (ready) "cp_flag cp = RT_COMPLETED"
    | (no) "cp_flag cp \<noteq> RT_COMPLETED" "k_lists k (CompletionQ c) = []" "timeout = 0"
    | (wait) "cp_flag cp \<noteq> RT_COMPLETED" "k_lists k (CompletionQ c) = []" "timeout \<noteq> 0" by blast
  then show ?thesis
  proof cases
    case ready
    then show ?thesis using i cp by (cases cp) (simp add: rt_completion_wait_def mod_completion_def completion_inv_def)
  next
    case wait
    have w: "\<not> (cp_flag cp \<noteq> RT_COMPLETED \<and> k_lists k (CompletionQ c) \<noteq> [])" using wait by simp
    let ?th = "th\<lparr>th_error := RT_EOK\<rparr>"
    let ?k = "k\<lparr>k_threads := (k_threads k)(t \<mapsto> ?th)\<rparr>"
    have ss: "same_sched th ?th" by (simp add: same_sched_def thread_stat_def prio_def)
    have k: "kinv ?k" by (rule kinvx_upd_same [OF i(1) t(2) ss])
    have e: "rt_completion_wait c timeout k = Option.bind (ipc_block (CompletionQ c) t RT_IPC_FLAG_FIFO timeout ?k)
        (\<lambda>k. Option.bind (rt_schedule k) (\<lambda>k. Some (Wait t, k)))"
      using cp wait t irq by (simp add: rt_completion_wait_def tlist_isempty_def rt_thread_self_def mod_thread_def)
    have "returns (rt_completion_wait c timeout k) (\<lambda>(r, k'). kinv k' \<and> completion_inv c k' \<and> r = Wait t \<and> fields_frame k k' \<and>
        k_lists k' (CompletionQ c) = [t] \<and> (0 < timeout \<longleftrightarrow> Thread_timer t \<in> set (k_timer_list k')))"
      unfolding e
    proof (rule block_schedule [OF k, where th = ?th])
      fix k1 k' assume k1: "waiting (CompletionQ c) t ?th ?k k1" "(timeout > 0 \<longleftrightarrow> Thread_timer t \<in> set (k_timer_list k1))"
        "queued RT_IPC_FLAG_FIFO (CompletionQ c) t ?th ?k k1" "fields_frame ?k k1"
        and k': "kinv k'" "sched_rel k1 k'" "core_frame k1 k'"
      have l: "k_lists k' (CompletionQ c) = [t]"
        using k1(3) wait(2) sched_relD(5) [OF k'(2), of "CompletionQ c"] by (simp add: queued_def)
      have f: "fields_frame k k'" using core_fields [OF k'(3)] k1(4) by (simp add: fields_frame_def)
      then have "completion_inv c k'" using l cp by (simp add: completion_inv_def fields_frame_def)
      then show "case (Wait t, k') of (r, k') \<Rightarrow> kinv k' \<and> completion_inv c k' \<and> r = Wait t \<and> fields_frame k k' \<and>
          k_lists k' (CompletionQ c) = [t] \<and> (0 < timeout \<longleftrightarrow> Thread_timer t \<in> set (k_timer_list k'))"
        using k'(1) l f k1(2) sched_relD(2) [OF k'(2)] by simp
    qed (use t n ss in \<open>auto simp: same_sched_def\<close>)
    then show ?thesis unfolding if_not_P [OF w] by (rule returns_mono_pair) (use wait in simp)
  qed (use i cp in \<open>simp_all add: rt_completion_wait_def tlist_isempty_def\<close>)
qed

text \<open>
  \<^verbatim>\<open>rt_completion_done\<close> loses no wake-up: the completion is done afterwards, and if a thread waits it leaves the waiting list
  and can run again; when that thread runs it gets the result the wait was left with and the flag is cleared for the next round.
  Reporting a completion that is already done changes nothing.
\<close>

theorem rt_completion_done_correct:
  assumes i: "kinv k" "completion_inv c k" and cp: "k_completions k c = Some cp" and cu: "k_current k = Some u"
  shows "returns (rt_completion_done c k) (\<lambda>k'. kinv k' \<and> completion_inv c k' \<and>
    (if cp_flag cp = RT_COMPLETED then k' = k
     else k_completions k' c = Some \<lparr>cp_flag = RT_COMPLETED\<rparr> \<and> k_lists k' (CompletionQ c) = [] \<and>
       (case k_lists k (CompletionQ c) of
          [] \<Rightarrow> k' = k\<lparr>k_completions := (k_completions k)(c \<mapsto> \<lparr>cp_flag = RT_COMPLETED\<rparr>)\<rparr>
        | t # _ \<Rightarrow> \<exists>th. k_threads k' t = Some th \<and> thread_stat th \<noteq> RT_THREAD_SUSPEND \<and>
            rt_completion_wait_end c t k' = Some (th_error th, k'\<lparr>k_completions := (k_completions k')(c \<mapsto> \<lparr>cp_flag = RT_UNCOMPLETED\<rparr>)\<rparr>))))"
proof (cases "cp_flag cp = RT_COMPLETED")
  case True
  then show ?thesis using i cp by (simp add: rt_completion_done_def)
next
  case False
  let ?k = "k\<lparr>k_completions := (k_completions k)(c \<mapsto> \<lparr>cp_flag = RT_COMPLETED\<rparr>)\<rparr>"
  have e: "rt_completion_done c k = ipc_wake (CompletionQ c) ?k"
    using False cp by (cases cp) (simp add: rt_completion_done_def mod_completion_def)
  have k: "kinv ?k" "wait_head (CompletionQ c)" "k_current ?k = Some u" using i cu by simp_all
  show ?thesis
    unfolding e if_not_P [OF False]
  proof (cases "k_lists k (CompletionQ c)")
    case Nil
    then show "returns (ipc_wake (CompletionQ c) ?k) (\<lambda>k'. kinv k' \<and> completion_inv c k' \<and>
     k_completions k' c = Some \<lparr>cp_flag = RT_COMPLETED\<rparr> \<and> k_lists k' (CompletionQ c) = [] \<and>
       (case k_lists k (CompletionQ c) of
          [] \<Rightarrow> k' = k\<lparr>k_completions := (k_completions k)(c \<mapsto> \<lparr>cp_flag = RT_COMPLETED\<rparr>)\<rparr>
        | t # _ \<Rightarrow> \<exists>th. k_threads k' t = Some th \<and> thread_stat th \<noteq> RT_THREAD_SUSPEND \<and>
            rt_completion_wait_end c t k' = Some (th_error th, k'\<lparr>k_completions := (k_completions k')(c \<mapsto> \<lparr>cp_flag = RT_UNCOMPLETED\<rparr>)\<rparr>)))"
      using i by (simp add: ipc_wake_def tlist_isempty_def completion_inv_def)
  next
    case (Cons t ts)
    then have ts: "ts = []" using i(2) by (simp add: completion_inv_def)
    show "returns (ipc_wake (CompletionQ c) ?k) (\<lambda>k'. kinv k' \<and> completion_inv c k' \<and>
     k_completions k' c = Some \<lparr>cp_flag = RT_COMPLETED\<rparr> \<and> k_lists k' (CompletionQ c) = [] \<and>
       (case k_lists k (CompletionQ c) of
          [] \<Rightarrow> k' = k\<lparr>k_completions := (k_completions k)(c \<mapsto> \<lparr>cp_flag = RT_COMPLETED\<rparr>)\<rparr>
        | t # _ \<Rightarrow> \<exists>th. k_threads k' t = Some th \<and> thread_stat th \<noteq> RT_THREAD_SUSPEND \<and>
            rt_completion_wait_end c t k' = Some (th_error th, k'\<lparr>k_completions := (k_completions k')(c \<mapsto> \<lparr>cp_flag = RT_UNCOMPLETED\<rparr>)\<rparr>)))"
      unfolding Cons list.case
    proof (rule returns_mono [OF ipc_wake_kinvx [OF k]], elim conjE)
      fix k' assume k': "kinv k'" "fields_frame ?k k'" "k_lists k' (CompletionQ c) = tl (k_lists ?k (CompletionQ c))"
        "\<forall>t ts. k_lists ?k (CompletionQ c) = t # ts \<longrightarrow> (\<exists>th. k_threads k' t = Some th \<and> thread_stat th \<noteq> RT_THREAD_SUSPEND)"
      obtain th where th: "k_threads k' t = Some th" "thread_stat th \<noteq> RT_THREAD_SUSPEND" using k'(4) Cons by auto
      have cp': "k_completions k' c = Some \<lparr>cp_flag = RT_COMPLETED\<rparr>" using k'(2) by (simp add: fields_frame_def)
      moreover have "k_lists k' (CompletionQ c) = []" using k'(3) Cons ts by simp
      moreover have "rt_completion_wait_end c t k' = Some (th_error th, k'\<lparr>k_completions := (k_completions k')(c \<mapsto> \<lparr>cp_flag = RT_UNCOMPLETED\<rparr>)\<rparr>)"
        using th(1) cp' by (simp add: rt_completion_wait_end_def get_thread_def mod_completion_def)
      ultimately show "kinv k' \<and> completion_inv c k' \<and> k_completions k' c = Some \<lparr>cp_flag = RT_COMPLETED\<rparr> \<and> k_lists k' (CompletionQ c) = [] \<and>
        (\<exists>th. k_threads k' t = Some th \<and> thread_stat th \<noteq> RT_THREAD_SUSPEND \<and>
          rt_completion_wait_end c t k' = Some (th_error th, k'\<lparr>k_completions := (k_completions k')(c \<mapsto> \<lparr>cp_flag = RT_UNCOMPLETED\<rparr>)\<rparr>))"
        using k'(1) th by (simp add: completion_inv_def)
    qed
  qed
qed

definition completion_kernel :: "u32 \<Rightarrow> kernel" where
  "completion_kernel flag = sample_kernel\<lparr>k_completions := [600 \<mapsto> \<lparr>cp_flag = flag\<rparr>]\<rparr>"

lemma completion_kernel_simps [simp]:
  "kinv (completion_kernel flag)" "completion_inv 600 (completion_kernel flag)" "k_completions (completion_kernel flag) 600 = Some \<lparr>cp_flag = flag\<rparr>"
  "k_current (completion_kernel flag) = Some 10" "k_threads (completion_kernel flag) = sample_threads" "k_irq_nest (completion_kernel flag) = 0"
  "k_lists (completion_kernel flag) = sample_lists"
  using sample_kinv by (simp_all add: completion_kernel_def completion_inv_def sample_lists_def)

theorem rt_completion_wait_correct_witness:
  "returns (rt_completion_wait 600 20 (completion_kernel RT_UNCOMPLETED)) (\<lambda>(r, k'). r = Wait 10 \<and> k_lists k' (CompletionQ 600) = [10])"
proof -
  have l: "sample_lists (CompletionQ 600) = []" by (simp add: sample_lists_def)
  have "returns (rt_completion_wait 600 20 (completion_kernel RT_UNCOMPLETED)) (\<lambda>(r, k'). kinv k' \<and> completion_inv 600 k' \<and>
      r = Wait 10 \<and> fields_frame (completion_kernel RT_UNCOMPLETED) k' \<and> k_lists k' (CompletionQ 600) = [10] \<and>
      (0 < (20 :: int) \<longleftrightarrow> Thread_timer 10 \<in> set (k_timer_list k')))"
    using rt_completion_wait_correct [OF completion_kernel_simps(1-4), of RT_UNCOMPLETED "sample_thread RT_THREAD_RUNNING 10" 20] l by simp
  then show ?thesis by (rule returns_mono_pair) simp
qed

theorem rt_completion_done_correct_witness:
  "returns (rt_completion_done 600 (completion_kernel RT_UNCOMPLETED)) (\<lambda>k'. kinv k' \<and> k_completions k' 600 = Some \<lparr>cp_flag = RT_COMPLETED\<rparr>)"
  using rt_completion_done_correct [OF completion_kernel_simps(1-4), of RT_UNCOMPLETED] by (auto elim!: returns_mono)

end
