(* ===== verification/Serial.thy ===== *)
theory Serial
  imports Device Completion KMemory
begin

text \<open>
  The serial framework (\<^verbatim>\<open>components/drivers/serial/serial.c\<close>, \<^verbatim>\<open>include/drivers/serial.h\<close>) in the configuration of the program:
  without DMA and without the POSIX layer.  A serial device starts with its device structure, which is in \<open>k_devices\<close> under the
  same address; the rest of it is in \<open>su_ports\<close>.  The receive buffers are blocks of the heap, in \<open>su_fifos\<close> under their
  addresses; a transmit buffer is only its completion.  \<open>su_mem\<close> is the memory of the callers' buffers, \<open>su_configs\<close> the
  configurations that \<^verbatim>\<open>RT_DEVICE_CTRL_CONFIG\<close> is given the address of.

  The functions of the driver are the argument \<open>ops\<close>, on the state \<open>'h\<close> that the driver has for the port; sending a character
  may fail to return.  A write in interrupt mode that has to wait stops with \<open>Wait\<close> and what is left to do.  Lengths are the
  \<^verbatim>\<open>int\<close>s that the code casts its sizes to, for sizes below half of their range.  The warning about lost characters is only printed.
\<close>

section \<open>State\<close>

record serial_configure =
  sc_baud_rate :: u32
  sc_data_bits :: u8
  sc_stop_bits :: u8
  sc_parity :: u8
  sc_bit_order :: u8
  sc_invert :: u8
  sc_bufsz :: u16

record rt_serial_rx_fifo =
  rf_buffer :: "u8 list"
  rf_put_index :: u16
  rf_get_index :: u16
  rf_is_full :: bool

record rt_serial_device =
  ss_config :: serial_configure
  ss_rx :: "nat option"
  ss_tx :: "nat option"

record 'h rt_uart_ops =
  uo_configure :: "(serial_configure \<Rightarrow> 'h \<Rightarrow> int \<times> 'h) option"
  uo_control :: "int \<Rightarrow> nat \<Rightarrow> 'h \<Rightarrow> int \<times> 'h"
  uo_putc :: "u8 \<Rightarrow> 'h \<Rightarrow> (int \<times> 'h) option"
  uo_getc :: "'h \<Rightarrow> int \<times> 'h"

record 'h serial_io =
  su_mem :: memory
  su_ports :: "nat \<rightharpoonup> rt_serial_device"
  su_fifos :: "nat \<rightharpoonup> rt_serial_rx_fifo"
  su_configs :: "nat \<rightharpoonup> serial_configure"
  su_drv :: "nat \<Rightarrow> 'h"

type_synonym 'h serial_state = "kernel \<times> 'h serial_io"

abbreviation RT_DEVICE_FLAG_SUSPENDED :: u16 where "RT_DEVICE_FLAG_SUSPENDED \<equiv> 0x020"
abbreviation RT_DEVICE_FLAG_STREAM :: u16 where "RT_DEVICE_FLAG_STREAM \<equiv> 0x040"
abbreviation RT_DEVICE_FLAG_INT_RX :: u16 where "RT_DEVICE_FLAG_INT_RX \<equiv> 0x100"
abbreviation RT_DEVICE_FLAG_DMA_RX :: u16 where "RT_DEVICE_FLAG_DMA_RX \<equiv> 0x200"
abbreviation RT_DEVICE_FLAG_INT_TX :: u16 where "RT_DEVICE_FLAG_INT_TX \<equiv> 0x400"
abbreviation RT_DEVICE_FLAG_DMA_TX :: u16 where "RT_DEVICE_FLAG_DMA_TX \<equiv> 0x800"
abbreviation RT_DEVICE_CTRL_RESUME :: int where "RT_DEVICE_CTRL_RESUME \<equiv> 1"
abbreviation RT_DEVICE_CTRL_SUSPEND :: int where "RT_DEVICE_CTRL_SUSPEND \<equiv> 2"
abbreviation RT_DEVICE_CTRL_CONFIG :: int where "RT_DEVICE_CTRL_CONFIG \<equiv> 3"
abbreviation RT_DEVICE_CTRL_CLOSE :: int where "RT_DEVICE_CTRL_CLOSE \<equiv> 4"
abbreviation RT_DEVICE_CTRL_SET_INT :: int where "RT_DEVICE_CTRL_SET_INT \<equiv> 0x10"
abbreviation RT_DEVICE_CTRL_CLR_INT :: int where "RT_DEVICE_CTRL_CLR_INT \<equiv> 0x11"
abbreviation RT_SERIAL_EVENT_RX_IND :: u32 where "RT_SERIAL_EVENT_RX_IND \<equiv> 1"
abbreviation RT_SERIAL_EVENT_TX_DONE :: u32 where "RT_SERIAL_EVENT_TX_DONE \<equiv> 2"
abbreviation RT_Device_Class_Char :: u8 where "RT_Device_Class_Char \<equiv> 0"
abbreviation LF :: u8 where "LF \<equiv> 10"
abbreviation CR :: u8 where "CR \<equiv> 13"

abbreviation streaming :: "rt_device \<Rightarrow> bool" where
  "streaming dev \<equiv> dv_open_flag dev AND RT_DEVICE_FLAG_STREAM \<noteq> 0"

text \<open>The sizes of \<^verbatim>\<open>struct rt_serial_rx_fifo\<close> and \<^verbatim>\<open>struct rt_serial_tx_fifo\<close>.\<close>

abbreviation SIZEOF_RX_FIFO :: u32 where "SIZEOF_RX_FIFO \<equiv> 12"
abbreviation SIZEOF_TX_FIFO :: u32 where "SIZEOF_TX_FIFO \<equiv> 12"

definition mod_port :: "nat \<Rightarrow> (rt_serial_device \<Rightarrow> rt_serial_device) \<Rightarrow> 'h serial_io \<Rightarrow> 'h serial_io option" where
  "mod_port d f io = do {
     port \<leftarrow> su_ports io d;
     Some (io\<lparr>su_ports := (su_ports io)(d \<mapsto> f port)\<rparr>)
   }"

section \<open>The calls of the driver\<close>

definition serial_putc :: "'h rt_uart_ops \<Rightarrow> nat \<Rightarrow> u8 \<Rightarrow> 'h serial_io \<Rightarrow> (int \<times> 'h serial_io) option" where
  "serial_putc ops d c io = do {
     (r, h) \<leftarrow> uo_putc ops c (su_drv io d);
     Some (r, io\<lparr>su_drv := (su_drv io)(d := h)\<rparr>)
   }"

definition serial_getc :: "'h rt_uart_ops \<Rightarrow> nat \<Rightarrow> 'h serial_io \<Rightarrow> int \<times> 'h serial_io" where
  "serial_getc ops d io = (let (r, h) = uo_getc ops (su_drv io d) in (r, io\<lparr>su_drv := (su_drv io)(d := h)\<rparr>))"

definition serial_ctrl :: "'h rt_uart_ops \<Rightarrow> nat \<Rightarrow> int \<Rightarrow> nat \<Rightarrow> 'h serial_io \<Rightarrow> int \<times> 'h serial_io" where
  "serial_ctrl ops d cmd arg io = (let (r, h) = uo_control ops cmd arg (su_drv io d) in (r, io\<lparr>su_drv := (su_drv io)(d := h)\<rparr>))"

definition serial_configure_port ::
    "(serial_configure \<Rightarrow> 'h \<Rightarrow> int \<times> 'h) \<Rightarrow> nat \<Rightarrow> serial_configure \<Rightarrow> 'h serial_io \<Rightarrow> int \<times> 'h serial_io" where
  "serial_configure_port f d cfg io = (let (r, h) = f cfg (su_drv io d) in (r, io\<lparr>su_drv := (su_drv io)(d := h)\<rparr>))"

section \<open>Polling\<close>

text \<open>\<^verbatim>\<open>_serial_poll_rx\<close> returns the number of characters read.\<close>

fun serial_poll_rx :: "'h rt_uart_ops \<Rightarrow> nat \<Rightarrow> bool \<Rightarrow> nat \<Rightarrow> nat \<Rightarrow> 'h serial_io \<Rightarrow> nat \<times> 'h serial_io" where
  "serial_poll_rx ops d stream data 0 io = (0, io)"
| "serial_poll_rx ops d stream data (Suc len) io =
     (let (ch, io) = serial_getc ops d io in
      if ch = -1 then (0, io)
      else
        let io = io\<lparr>su_mem := (su_mem io)(data := word_of_int ch)\<rparr> in
        if stream \<and> ch = 10 then (1, io)
        else let (n, io) = serial_poll_rx ops d stream (data + 1) len io in (Suc n, io))"

text \<open>\<^verbatim>\<open>_serial_poll_tx\<close> ends with all of the data sent; the results of \<^verbatim>\<open>putc\<close> are ignored.\<close>

fun serial_poll_tx :: "'h rt_uart_ops \<Rightarrow> nat \<Rightarrow> bool \<Rightarrow> nat \<Rightarrow> nat \<Rightarrow> 'h serial_io \<Rightarrow> 'h serial_io option" where
  "serial_poll_tx ops d stream data 0 io = Some io"
| "serial_poll_tx ops d stream data (Suc len) io = do {
     (_, io) \<leftarrow> (if su_mem io data = LF \<and> stream then serial_putc ops d CR io else Some (0, io));
     (_, io) \<leftarrow> serial_putc ops d (su_mem io data) io;
     serial_poll_tx ops d stream (data + 1) len io
   }"

section \<open>Interrupt mode\<close>

text \<open>One character out of the receive buffer, and one into it; indices outside the buffer are \<open>None\<close>.\<close>

definition rx_empty :: "rt_serial_rx_fifo \<Rightarrow> bool" where
  "rx_empty f \<longleftrightarrow> rf_get_index f = rf_put_index f \<and> \<not> rf_is_full f"

definition rx_take :: "u16 \<Rightarrow> rt_serial_rx_fifo \<Rightarrow> (u8 \<times> rt_serial_rx_fifo) option" where
  "rx_take bufsz f = do {
     rt_assert (unat (rf_get_index f) < length (rf_buffer f));
     let ch = rf_buffer f ! unat (rf_get_index f);
     let f = f\<lparr>rf_get_index := rf_get_index f + 1\<rparr>;
     let f = (if rf_get_index f \<ge> bufsz then f\<lparr>rf_get_index := 0\<rparr> else f);
     let f = (if rf_is_full f then f\<lparr>rf_is_full := False\<rparr> else f);
     Some (ch, f)
   }"

definition rx_store :: "u16 \<Rightarrow> u8 \<Rightarrow> rt_serial_rx_fifo \<Rightarrow> rt_serial_rx_fifo option" where
  "rx_store bufsz ch f = do {
     rt_assert (unat (rf_put_index f) < length (rf_buffer f));
     let f = f\<lparr>rf_buffer := (rf_buffer f)[unat (rf_put_index f) := ch], rf_put_index := rf_put_index f + 1\<rparr>;
     let f = (if rf_put_index f \<ge> bufsz then f\<lparr>rf_put_index := 0\<rparr> else f);
     Some (if rf_put_index f = rf_get_index f then
             let f = f\<lparr>rf_get_index := rf_get_index f + 1, rf_is_full := True\<rparr>
             in if rf_get_index f \<ge> bufsz then f\<lparr>rf_get_index := 0\<rparr> else f
           else f)
   }"

text \<open>\<^verbatim>\<open>_serial_int_rx\<close> returns the number of characters read.\<close>

fun rx_read :: "u16 \<Rightarrow> nat \<Rightarrow> nat \<Rightarrow> rt_serial_rx_fifo \<times> memory \<Rightarrow> (nat \<times> rt_serial_rx_fifo \<times> memory) option" where
  "rx_read bufsz data 0 (f, m) = Some (0, f, m)"
| "rx_read bufsz data (Suc len) (f, m) =
     (if rx_empty f then Some (0, f, m)
      else do {
        (ch, f) \<leftarrow> rx_take bufsz f;
        (n, f, m) \<leftarrow> rx_read bufsz (data + 1) len (f, m(data := ch));
        Some (Suc n, f, m)
      })"

definition serial_int_rx :: "nat \<Rightarrow> nat \<Rightarrow> nat \<Rightarrow> 'h serial_io \<Rightarrow> (nat \<times> 'h serial_io) option" where
  "serial_int_rx d data len io = do {
     port \<leftarrow> su_ports io d;
     p \<leftarrow> ss_rx port;
     f \<leftarrow> su_fifos io p;
     (n, f, m) \<leftarrow> rx_read (sc_bufsz (ss_config port)) data len (f, su_mem io);
     Some (n, io\<lparr>su_fifos := (su_fifos io)(p \<mapsto> f), su_mem := m\<rparr>)
   }"

text \<open>What is left of a write when its thread waits: the thread, the size of the whole write, the rest of the data.\<close>

record serial_wait =
  sw_thread :: nat
  sw_size :: nat
  sw_data :: nat
  sw_len :: nat

text \<open>One round of the loop of \<^verbatim>\<open>_serial_int_tx\<close> up to the call of \<^verbatim>\<open>rt_completion_wait\<close>; the result is whether it was sent.\<close>

definition tx_char :: "'h rt_uart_ops \<Rightarrow> nat \<Rightarrow> nat \<Rightarrow> 'h serial_state \<Rightarrow> (bool \<times> 'h serial_io) option" where
  "tx_char ops d data s = do {
     dev \<leftarrow> k_devices (fst s) d;
     (r, io) \<leftarrow> (if su_mem (snd s) data = LF \<and> streaming dev then serial_putc ops d CR (snd s) else Some (0, snd s));
     if r = -1 then Some (False, io)
     else do {
       (r, io) \<leftarrow> serial_putc ops d (su_mem io data) io;
       Some (r \<noteq> -1, io)
     }
   }"

partial_function (option) serial_int_tx ::
    "'h rt_uart_ops \<Rightarrow> nat \<Rightarrow> nat \<Rightarrow> nat \<Rightarrow> nat \<Rightarrow> nat \<Rightarrow> 'h serial_state \<Rightarrow> ((nat, serial_wait) outcome \<times> 'h serial_state) option" where
  "serial_int_tx ops d tx sz data len s =
     (if len = 0 then Some (Done sz, s)
      else Option.bind (tx_char ops d data s) (\<lambda>(sent, io).
        if sent then serial_int_tx ops d tx sz (data + 1) (len - 1) (fst s, io)
        else Option.bind (rt_completion_wait tx RT_WAITING_FOREVER (fst s)) (\<lambda>(r, k).
          case r of
            Wait t \<Rightarrow> Some (Wait \<lparr>sw_thread = t, sw_size = sz, sw_data = data, sw_len = len\<rparr>, k, io)
          | Done _ \<Rightarrow> serial_int_tx ops d tx sz data len (k, io))))"

definition serial_int_tx_resume ::
    "'h rt_uart_ops \<Rightarrow> nat \<Rightarrow> nat \<Rightarrow> serial_wait \<Rightarrow> 'h serial_state \<Rightarrow> ((nat, serial_wait) outcome \<times> 'h serial_state) option" where
  "serial_int_tx_resume ops d tx w s = do {
     (_, k) \<leftarrow> rt_completion_wait_end tx (sw_thread w) (fst s);
     serial_int_tx ops d tx (sw_size w) (sw_data w) (sw_len w) (k, snd s)
   }"

section \<open>The device interface\<close>

definition rt_serial_init :: "'h rt_uart_ops \<Rightarrow> nat \<Rightarrow> 'h serial_state \<Rightarrow> (int \<times> 'h serial_state) option" where
  "rt_serial_init ops d s = do {
     io \<leftarrow> mod_port d (\<lambda>port. port\<lparr>ss_rx := None, ss_tx := None\<rparr>) (snd s);
     port \<leftarrow> su_ports io d;
     case uo_configure ops of
       None \<Rightarrow> Some (RT_EOK, fst s, io)
     | Some f \<Rightarrow> let (r, io) = serial_configure_port f d (ss_config port) io in Some (r, fst s, io)
   }"

text \<open>The receive and the transmit half of \<^verbatim>\<open>rt_serial_open\<close>.\<close>

definition serial_open_rx :: "'h rt_uart_ops \<Rightarrow> nat \<Rightarrow> u16 \<Rightarrow> 'h serial_state \<Rightarrow> 'h serial_state option" where
  "serial_open_rx ops d oflag s = do {
     port \<leftarrow> su_ports (snd s) d;
     case ss_rx port of
       None \<Rightarrow>
         if oflag AND RT_DEVICE_FLAG_INT_RX \<noteq> 0 then do {
           (rx_fifo, h) \<leftarrow> rt_malloc (SIZEOF_RX_FIFO + ucast (sc_bufsz (ss_config port))) (k_irq_nest (fst s)) (k_heap (fst s));
           p \<leftarrow> rx_fifo;
           f \<leftarrow> Some \<lparr>rf_buffer = replicate (unat (sc_bufsz (ss_config port))) 0, rf_put_index = 0, rf_get_index = 0, rf_is_full = False\<rparr>;
           io \<leftarrow> mod_port d (\<lambda>port. port\<lparr>ss_rx := Some p\<rparr>) ((snd s)\<lparr>su_fifos := (su_fifos (snd s))(p \<mapsto> f)\<rparr>);
           k \<leftarrow> mod_device d (\<lambda>dev. dev\<lparr>dv_open_flag := dv_open_flag dev OR RT_DEVICE_FLAG_INT_RX\<rparr>) ((fst s)\<lparr>k_heap := h\<rparr>);
           Some (k, snd (serial_ctrl ops d RT_DEVICE_CTRL_SET_INT (unat RT_DEVICE_FLAG_INT_RX) io))
         }
         else Some s
     | Some _ \<Rightarrow>
         if oflag AND RT_DEVICE_FLAG_INT_RX \<noteq> 0 then do {
           k \<leftarrow> mod_device d (\<lambda>dev. dev\<lparr>dv_open_flag := dv_open_flag dev OR RT_DEVICE_FLAG_INT_RX\<rparr>) (fst s);
           Some (k, snd s)
         }
         else Some s
   }"

definition serial_open_tx :: "'h rt_uart_ops \<Rightarrow> nat \<Rightarrow> u16 \<Rightarrow> 'h serial_state \<Rightarrow> 'h serial_state option" where
  "serial_open_tx ops d oflag s = do {
     port \<leftarrow> su_ports (snd s) d;
     case ss_tx port of
       None \<Rightarrow>
         if oflag AND RT_DEVICE_FLAG_INT_TX \<noteq> 0 then do {
           (tx_fifo, h) \<leftarrow> rt_malloc SIZEOF_TX_FIFO (k_irq_nest (fst s)) (k_heap (fst s));
           p \<leftarrow> tx_fifo;
           k \<leftarrow> Some (rt_completion_init p ((fst s)\<lparr>k_heap := h\<rparr>));
           io \<leftarrow> mod_port d (\<lambda>port. port\<lparr>ss_tx := Some p\<rparr>) (snd s);
           k \<leftarrow> mod_device d (\<lambda>dev. dev\<lparr>dv_open_flag := dv_open_flag dev OR RT_DEVICE_FLAG_INT_TX\<rparr>) k;
           Some (k, snd (serial_ctrl ops d RT_DEVICE_CTRL_SET_INT (unat RT_DEVICE_FLAG_INT_TX) io))
         }
         else Some s
     | Some _ \<Rightarrow>
         if oflag AND RT_DEVICE_FLAG_INT_TX \<noteq> 0 then do {
           k \<leftarrow> mod_device d (\<lambda>dev. dev\<lparr>dv_open_flag := dv_open_flag dev OR RT_DEVICE_FLAG_INT_TX\<rparr>) (fst s);
           Some (k, snd s)
         }
         else Some s
   }"

definition unsupported :: "u16 \<Rightarrow> u16 \<Rightarrow> bool" where
  "unsupported flag oflag \<longleftrightarrow> (\<exists>x \<in> {RT_DEVICE_FLAG_DMA_RX, RT_DEVICE_FLAG_DMA_TX, RT_DEVICE_FLAG_INT_RX, RT_DEVICE_FLAG_INT_TX}.
     oflag AND x \<noteq> 0 \<and> flag AND x = 0)"

definition rt_serial_open :: "'h rt_uart_ops \<Rightarrow> nat \<Rightarrow> u16 \<Rightarrow> 'h serial_state \<Rightarrow> (int \<times> 'h serial_state) option" where
  "rt_serial_open ops d oflag s = do {
     dev \<leftarrow> k_devices (fst s) d;
     if unsupported (dv_flag dev) oflag then Some (- RT_EIO, s)
     else do {
       stream_flag \<leftarrow> Some (if oflag AND RT_DEVICE_FLAG_STREAM \<noteq> 0 \<or> streaming dev then RT_DEVICE_FLAG_STREAM else 0);
       k \<leftarrow> mod_device d (\<lambda>dev. dev\<lparr>dv_open_flag := oflag AND 0xff\<rparr>) (fst s);
       s \<leftarrow> serial_open_rx ops d oflag (k, snd s);
       s \<leftarrow> serial_open_tx ops d oflag s;
       k \<leftarrow> mod_device d (\<lambda>dev. dev\<lparr>dv_open_flag := dv_open_flag dev OR stream_flag\<rparr>) (fst s);
       Some (RT_EOK, k, snd s)
     }
   }"

text \<open>The two halves of \<^verbatim>\<open>rt_serial_close\<close>; a freed buffer does not exist any more.\<close>

definition serial_close_rx :: "'h rt_uart_ops \<Rightarrow> nat \<Rightarrow> 'h serial_state \<Rightarrow> 'h serial_state option" where
  "serial_close_rx ops d s = do {
     dev \<leftarrow> k_devices (fst s) d;
     if dv_open_flag dev AND RT_DEVICE_FLAG_INT_RX \<noteq> 0 then do {
       (_, io) \<leftarrow> Some (serial_ctrl ops d RT_DEVICE_CTRL_CLR_INT (unat RT_DEVICE_FLAG_INT_RX) (snd s));
       k \<leftarrow> mod_device d (\<lambda>dev. dev\<lparr>dv_open_flag := dv_open_flag dev AND NOT RT_DEVICE_FLAG_INT_RX\<rparr>) (fst s);
       port \<leftarrow> su_ports io d;
       p \<leftarrow> ss_rx port;
       h \<leftarrow> rt_free (Some p) (k_irq_nest k) (k_heap k);
       io \<leftarrow> mod_port d (\<lambda>port. port\<lparr>ss_rx := None\<rparr>) (io\<lparr>su_fifos := (su_fifos io)(p := None)\<rparr>);
       Some (k\<lparr>k_heap := h\<rparr>, io)
     }
     else Some s
   }"

definition serial_close_tx :: "'h rt_uart_ops \<Rightarrow> nat \<Rightarrow> 'h serial_state \<Rightarrow> 'h serial_state option" where
  "serial_close_tx ops d s = do {
     dev \<leftarrow> k_devices (fst s) d;
     if dv_open_flag dev AND RT_DEVICE_FLAG_INT_TX \<noteq> 0 then do {
       (_, io) \<leftarrow> Some (serial_ctrl ops d RT_DEVICE_CTRL_CLR_INT (unat RT_DEVICE_FLAG_INT_TX) (snd s));
       k \<leftarrow> mod_device d (\<lambda>dev. dev\<lparr>dv_open_flag := dv_open_flag dev AND NOT RT_DEVICE_FLAG_INT_TX\<rparr>) (fst s);
       port \<leftarrow> su_ports io d;
       p \<leftarrow> ss_tx port;
       h \<leftarrow> rt_free (Some p) (k_irq_nest k) (k_heap k);
       io \<leftarrow> mod_port d (\<lambda>port. port\<lparr>ss_tx := None\<rparr>) io;
       Some (k\<lparr>k_heap := h, k_completions := (k_completions k)(p := None)\<rparr>, io)
     }
     else Some s
   }"

definition rt_serial_close :: "'h rt_uart_ops \<Rightarrow> nat \<Rightarrow> 'h serial_state \<Rightarrow> (int \<times> 'h serial_state) option" where
  "rt_serial_close ops d s = do {
     dev \<leftarrow> k_devices (fst s) d;
     if dv_ref_count dev > 1 then Some (RT_EOK, s)
     else do {
       s \<leftarrow> serial_close_rx ops d s;
       s \<leftarrow> serial_close_tx ops d s;
       (_, io) \<leftarrow> Some (serial_ctrl ops d RT_DEVICE_CTRL_CLOSE 0 (snd s));
       k \<leftarrow> mod_device d (\<lambda>dev. dev\<lparr>dv_flag := dv_flag dev AND NOT RT_DEVICE_FLAG_ACTIVATED\<rparr>) (fst s);
       Some (RT_EOK, k, io)
     }
   }"

definition rt_serial_read :: "'h rt_uart_ops \<Rightarrow> nat \<Rightarrow> nat \<Rightarrow> u32 \<Rightarrow> 'h serial_state \<Rightarrow>
    ((u32, serial_wait) outcome \<times> 'h serial_state) option" where
  "rt_serial_read ops d buffer sz s = do {
     dev \<leftarrow> k_devices (fst s) d;
     if sz = 0 then Some (Done 0, s)
     else if dv_open_flag dev AND RT_DEVICE_FLAG_INT_RX \<noteq> 0 then do {
       (n, io) \<leftarrow> serial_int_rx d buffer (unat sz) (snd s);
       Some (Done (of_nat n), fst s, io)
     }
     else (let (n, io) = serial_poll_rx ops d (streaming dev) buffer (unat sz) (snd s) in Some (Done (of_nat n), fst s, io))
   }"

definition write_result :: "(nat, serial_wait) outcome \<Rightarrow> (u32, serial_wait) outcome" where
  "write_result r = (case r of Done n \<Rightarrow> Done (of_nat n) | Wait w \<Rightarrow> Wait w)"

definition rt_serial_write :: "'h rt_uart_ops \<Rightarrow> nat \<Rightarrow> nat \<Rightarrow> u32 \<Rightarrow> 'h serial_state \<Rightarrow>
    ((u32, serial_wait) outcome \<times> 'h serial_state) option" where
  "rt_serial_write ops d buffer sz s = do {
     dev \<leftarrow> k_devices (fst s) d;
     if sz = 0 then Some (Done 0, s)
     else if dv_open_flag dev AND RT_DEVICE_FLAG_INT_TX \<noteq> 0 then do {
       port \<leftarrow> su_ports (snd s) d;
       tx \<leftarrow> ss_tx port;
       (r, s) \<leftarrow> serial_int_tx ops d tx (unat sz) buffer (unat sz) s;
       Some (write_result r, s)
     }
     else do {
       io \<leftarrow> serial_poll_tx ops d (streaming dev) buffer (unat sz) (snd s);
       Some (Done sz, fst s, io)
     }
   }"

text \<open>An argument 0 is \<^verbatim>\<open>RT_NULL\<close>.\<close>

definition rt_serial_control :: "'h rt_uart_ops \<Rightarrow> nat \<Rightarrow> int \<Rightarrow> nat \<Rightarrow> 'h serial_state \<Rightarrow> (int \<times> 'h serial_state) option" where
  "rt_serial_control ops d cmd args s = do {
     dev \<leftarrow> k_devices (fst s) d;
     if cmd = RT_DEVICE_CTRL_SUSPEND then do {
       k \<leftarrow> mod_device d (\<lambda>dev. dev\<lparr>dv_flag := dv_flag dev OR RT_DEVICE_FLAG_SUSPENDED\<rparr>) (fst s);
       Some (RT_EOK, k, snd s)
     }
     else if cmd = RT_DEVICE_CTRL_RESUME then do {
       k \<leftarrow> mod_device d (\<lambda>dev. dev\<lparr>dv_flag := dv_flag dev AND NOT RT_DEVICE_FLAG_SUSPENDED\<rparr>) (fst s);
       Some (RT_EOK, k, snd s)
     }
     else if cmd = RT_DEVICE_CTRL_CONFIG then
       if args = 0 then Some (RT_EOK, s)
       else do {
         cfg \<leftarrow> su_configs (snd s) args;
         port \<leftarrow> su_ports (snd s) d;
         if sc_bufsz cfg \<noteq> sc_bufsz (ss_config port) \<and> dv_ref_count dev \<noteq> 0 then Some (RT_EBUSY, s)
         else do {
           io \<leftarrow> mod_port d (\<lambda>port. port\<lparr>ss_config := cfg\<rparr>) (snd s);
           if dv_ref_count dev \<noteq> 0 then do {
             f \<leftarrow> uo_configure ops;
             Some (RT_EOK, fst s, snd (serial_configure_port f d cfg io))
           }
           else Some (RT_EOK, fst s, io)
         }
       }
     else (let (r, io) = serial_ctrl ops d cmd args (snd s) in Some (r, fst s, io))
   }"

text \<open>The functions of a serial device, by number.\<close>

abbreviation RT_SERIAL_INIT :: nat where "RT_SERIAL_INIT \<equiv> 10"
abbreviation RT_SERIAL_OPEN :: nat where "RT_SERIAL_OPEN \<equiv> 11"
abbreviation RT_SERIAL_CLOSE :: nat where "RT_SERIAL_CLOSE \<equiv> 12"
abbreviation RT_SERIAL_READ :: nat where "RT_SERIAL_READ \<equiv> 13"
abbreviation RT_SERIAL_WRITE :: nat where "RT_SERIAL_WRITE \<equiv> 14"
abbreviation RT_SERIAL_CONTROL :: nat where "RT_SERIAL_CONTROL \<equiv> 15"

definition serial_fns :: "'h rt_uart_ops \<Rightarrow> ('h serial_io, serial_wait) driver_fns" where
  "serial_fns ops = \<lparr>fn_init = (\<lambda>f d s. if f = RT_SERIAL_INIT then rt_serial_init ops d s else None),
     fn_open = (\<lambda>f d oflag s. if f = RT_SERIAL_OPEN then rt_serial_open ops d oflag s else None),
     fn_close = (\<lambda>f d s. if f = RT_SERIAL_CLOSE then rt_serial_close ops d s else None),
     fn_read = (\<lambda>f d pos buffer sz s. if f = RT_SERIAL_READ then rt_serial_read ops d buffer sz s else None),
     fn_write = (\<lambda>f d pos buffer sz s. if f = RT_SERIAL_WRITE then rt_serial_write ops d buffer sz s else None),
     fn_control = (\<lambda>f d cmd args s.
       if f = RT_SERIAL_CONTROL then map_option (\<lambda>(r, s). (Done r, s)) (rt_serial_control ops d cmd args s) else None)\<rparr>"

definition serial_device_setup :: "nat \<Rightarrow> nat \<Rightarrow> kernel \<Rightarrow> kernel" where
  "serial_device_setup d data k = k\<lparr>k_devices := (k_devices k)(d \<mapsto> (storage zero_device (k_devices k d))
     \<lparr>dv_type := RT_Device_Class_Char, dv_rx_indicate := None, dv_tx_complete := None,
      dv_init := Some RT_SERIAL_INIT, dv_open := Some RT_SERIAL_OPEN, dv_close := Some RT_SERIAL_CLOSE, dv_read := Some RT_SERIAL_READ,
      dv_write := Some RT_SERIAL_WRITE, dv_control := Some RT_SERIAL_CONTROL, dv_user_data := data\<rparr>)\<rparr>"

definition rt_hw_serial_register :: "nat \<Rightarrow> u8 list \<Rightarrow> u32 \<Rightarrow> nat \<Rightarrow> kernel \<Rightarrow> (int \<times> kernel) option" where
  "rt_hw_serial_register d name flag data k = rt_device_register (Some d) name (ucast flag) (serial_device_setup d data k)"

section \<open>The interrupt\<close>

partial_function (option) isr_receive :: "'h rt_uart_ops \<Rightarrow> u16 \<Rightarrow> rt_serial_rx_fifo \<times> 'h \<Rightarrow> (rt_serial_rx_fifo \<times> 'h) option" where
  "isr_receive ops bufsz s =
     (let (ch, h) = uo_getc ops (snd s) in
      if ch = -1 then Some (fst s, h)
      else Option.bind (rx_store bufsz (word_of_int ch) (fst s)) (\<lambda>f. isr_receive ops bufsz (f, h)))"

definition rx_length :: "u16 \<Rightarrow> rt_serial_rx_fifo \<Rightarrow> u32" where
  "rx_length bufsz f =
     (if rf_put_index f \<ge> rf_get_index f then ucast (rf_put_index f) - ucast (rf_get_index f)
      else ucast bufsz - (ucast (rf_get_index f) - ucast (rf_put_index f)))"

text \<open>\<open>indicate\<close> gives the functions that \<^verbatim>\<open>rx_indicate\<close> points to.\<close>

definition rt_hw_serial_isr :: "'h rt_uart_ops \<Rightarrow> (nat \<Rightarrow> nat \<Rightarrow> u32 \<Rightarrow> 'h serial_state \<Rightarrow> (int \<times> 'h serial_state) option) \<Rightarrow>
    nat \<Rightarrow> u32 \<Rightarrow> 'h serial_state \<Rightarrow> 'h serial_state option" where
  "rt_hw_serial_isr ops indicate d event s = do {
     port \<leftarrow> su_ports (snd s) d;
     if event AND 0xff = RT_SERIAL_EVENT_RX_IND then do {
       p \<leftarrow> ss_rx port;
       f \<leftarrow> su_fifos (snd s) p;
       (f, h) \<leftarrow> isr_receive ops (sc_bufsz (ss_config port)) (f, su_drv (snd s) d);
       s \<leftarrow> Some (fst s, (snd s)\<lparr>su_fifos := (su_fifos (snd s))(p \<mapsto> f), su_drv := (su_drv (snd s))(d := h)\<rparr>);
       dev \<leftarrow> k_devices (fst s) d;
       case dv_rx_indicate dev of
         None \<Rightarrow> Some s
       | Some ind \<Rightarrow>
           if rx_length (sc_bufsz (ss_config port)) f \<noteq> 0
           then map_option snd (indicate ind d (rx_length (sc_bufsz (ss_config port)) f) s)
           else Some s
     }
     else if event AND 0xff = RT_SERIAL_EVENT_TX_DONE then do {
       tx \<leftarrow> ss_tx port;
       k \<leftarrow> rt_completion_done tx (fst s);
       Some (k, snd s)
     }
     else Some s
   }"

end
