(* ===== verification/SerialQueue.thy ===== *)
theory SerialQueue
  imports Serial Fifo
begin

text \<open>
  The receive buffer of a serial device as a queue that drops its oldest character when it is full: the interface
  \<open>lossy_fifo\<close> with its lemmas on sequences, its interpretation on \<open>rx_store\<close> and \<open>rx_take\<close>, and what the interrupt and
  \<^verbatim>\<open>_serial_int_rx\<close> do to it.
\<close>

section \<open>Lossy queues\<close>

text \<open>Of a queue of at most \<open>n\<close> elements to which \<open>xs\<close> is added, the last \<open>n\<close> are left.\<close>

definition newest :: "nat \<Rightarrow> 'a list \<Rightarrow> 'a list" where
  "newest n xs = drop (length xs - n) xs"

lemma newest_all: "length xs \<le> n \<Longrightarrow> newest n xs = xs"
  by (simp add: newest_def)

lemma newest_tl: "length xs = Suc n \<Longrightarrow> newest n xs = tl xs"
  by (simp add: newest_def drop_Suc)

lemma length_newest [simp]: "length (newest n xs) = min n (length xs)"
  by (simp add: newest_def)

lemma newest_append: "newest n (newest n xs @ ys) = newest n (xs @ ys)"
  by (cases "length xs \<le> n") (simp_all add: newest_def add.commute)

text \<open>A sequence of bursts of arrivals and of reads of at most so many characters; the outputs of the reads.\<close>

datatype 'a lop = Arrive "'a list" | Read nat

fun lossy_spec :: "nat \<Rightarrow> 'a lop list \<Rightarrow> 'a list \<Rightarrow> 'a list list \<times> 'a list" where
  "lossy_spec n [] q = ([], q)"
| "lossy_spec n (Arrive xs # ops) q = lossy_spec n ops (newest n (q @ xs))"
| "lossy_spec n (Read len # ops) q = (take len q # fst (lossy_spec n ops (drop len q)), snd (lossy_spec n ops (drop len q)))"

fun arrivals :: "'a lop list \<Rightarrow> 'a list" where
  "arrivals [] = []"
| "arrivals (Arrive xs # ops) = xs @ arrivals ops"
| "arrivals (Read len # ops) = arrivals ops"

text \<open>The reader keeps up when no burst exceeds the room left.\<close>

fun keeps_up :: "nat \<Rightarrow> 'a lop list \<Rightarrow> nat \<Rightarrow> bool" where
  "keeps_up n [] c \<longleftrightarrow> True"
| "keeps_up n (Arrive xs # ops) c \<longleftrightarrow> c + length xs \<le> n \<and> keeps_up n ops (c + length xs)"
| "keeps_up n (Read len # ops) c \<longleftrightarrow> keeps_up n ops (c - len)"

lemma lossy_spec_lossless:
  assumes "keeps_up n ops (length q)"
  shows "concat (fst (lossy_spec n ops q)) @ snd (lossy_spec n ops q) = q @ arrivals ops"
  using assms
proof (induction n ops q rule: lossy_spec.induct)
  case (3 n len ops q)
  then have "concat (fst (lossy_spec n ops (drop len q))) @ snd (lossy_spec n ops (drop len q)) = drop len q @ arrivals ops"
    by simp
  then show ?case by (simp flip: append_assoc) (metis append_assoc append_take_drop_id)
qed (simp_all add: newest_all)

locale lossy_fifo =
  fixes ok :: "'s \<Rightarrow> bool" and contents :: "'s \<Rightarrow> 'a list" and cap :: nat
    and store :: "'a \<Rightarrow> 's \<Rightarrow> 's option" and take1 :: "'s \<Rightarrow> ('a \<times> 's) option" and is_empty :: "'s \<Rightarrow> bool"
  assumes bound: "ok s \<Longrightarrow> length (contents s) \<le> cap"
    and store: "ok s \<Longrightarrow> returns (store x s) (\<lambda>s'. ok s' \<and> contents s' = newest cap (contents s @ [x]))"
    and empty: "ok s \<Longrightarrow> is_empty s \<longleftrightarrow> contents s = []"
    and first: "ok s \<Longrightarrow> contents s = x # xs \<Longrightarrow> returns (take1 s) (\<lambda>(y, s'). y = x \<and> ok s' \<and> contents s' = xs)"
begin

fun stores :: "'a list \<Rightarrow> 's \<Rightarrow> 's option" where
  "stores [] s = Some s"
| "stores (x # xs) s = Option.bind (store x s) (stores xs)"

fun takes :: "nat \<Rightarrow> 's \<Rightarrow> ('a list \<times> 's) option" where
  "takes 0 s = Some ([], s)"
| "takes (Suc n) s =
     (if is_empty s then Some ([], s)
      else Option.bind (take1 s) (\<lambda>(x, s). Option.bind (takes n s) (\<lambda>(xs, s). Some (x # xs, s))))"

fun run :: "'a lop list \<Rightarrow> 's \<Rightarrow> ('a list list \<times> 's) option" where
  "run [] s = Some ([], s)"
| "run (Arrive xs # ops) s = Option.bind (stores xs s) (run ops)"
| "run (Read n # ops) s = Option.bind (takes n s) (\<lambda>(xs, s). Option.bind (run ops s) (\<lambda>(yss, s). Some (xs # yss, s)))"

lemma stores_newest: "ok s \<Longrightarrow> returns (stores xs s) (\<lambda>s'. ok s' \<and> contents s' = newest cap (contents s @ xs))"
proof (induction xs arbitrary: s)
  case Nil
  then show ?case using bound by (simp add: newest_all)
next
  case (Cons x xs)
  show ?case
    unfolding stores.simps
  proof (rule returns_bindI [OF store [OF Cons.prems, of x]], elim conjE)
    fix s' assume s': "ok s'" "contents s' = newest cap (contents s @ [x])"
    have "newest cap (newest cap (contents s @ [x]) @ xs) = newest cap (contents s @ x # xs)" by (simp add: newest_append)
    then show "returns (stores xs s') (\<lambda>s'. ok s' \<and> contents s' = newest cap (contents s @ x # xs))"
      using Cons.IH [OF s'(1)] s'(2) by simp
  qed
qed

lemma takes_first:
  "ok s \<Longrightarrow> returns (takes n s) (\<lambda>(xs, s'). ok s' \<and> xs = take n (contents s) \<and> contents s' = drop n (contents s))"
proof (induction n arbitrary: s)
  case (Suc n)
  show ?case
  proof (cases "contents s")
    case Nil
    then show ?thesis using empty [OF Suc.prems] Suc.prems by simp
  next
    case (Cons x xs)
    have e: "takes (Suc n) s = Option.bind (take1 s) (\<lambda>(x, s). Option.bind (takes n s) (\<lambda>(xs, s). Some (x # xs, s)))"
      using empty [OF Suc.prems] Cons by simp
    show ?thesis
      unfolding e
    proof (rule returns_bind_pair [OF first [OF Suc.prems Cons]], elim conjE)
      fix y s' assume s': "y = x" "ok s'" "contents s' = xs"
      show "returns (Option.bind (takes n s') (\<lambda>(xs, s). Some (y # xs, s)))
          (\<lambda>(xs, s'). ok s' \<and> xs = take (Suc n) (contents s) \<and> contents s' = drop (Suc n) (contents s))"
        by (rule returns_bind_pair [OF Suc.IH [OF s'(2)]]) (use s' Cons in simp)
    qed
  qed
qed simp

text \<open>Every sequence of arrivals and reads gives the outputs of the specification.\<close>

lemma run_refines: "ok s \<Longrightarrow> returns (run ops s) (\<lambda>(out, s'). ok s' \<and> lossy_spec cap ops (contents s) = (out, contents s'))"
proof (induction ops arbitrary: s)
  case (Cons p ops)
  show ?case
  proof (cases p)
    case (Arrive xs)
    show ?thesis
      unfolding Arrive run.simps
    proof (rule returns_bindI [OF stores_newest [OF Cons.prems]], elim conjE)
      fix s' assume "ok s'" "contents s' = newest cap (contents s @ xs)"
      then show "returns (run ops s') (\<lambda>(out, s'). ok s' \<and> lossy_spec cap (Arrive xs # ops) (contents s) = (out, contents s'))"
        using Cons.IH [of s'] by simp
    qed
  next
    case (Read n)
    show ?thesis
      unfolding Read run.simps
    proof (rule returns_bind_pair [OF takes_first [OF Cons.prems]], elim conjE)
      fix xs s' assume s': "ok s'" "xs = take n (contents s)" "contents s' = drop n (contents s)"
      show "returns (Option.bind (run ops s') (\<lambda>(yss, s). Some (xs # yss, s)))
          (\<lambda>(out, s'). ok s' \<and> lossy_spec cap (Read n # ops) (contents s) = (out, contents s'))"
        by (rule returns_bind_pair [OF Cons.IH [OF s'(1)]]) (use s' in \<open>auto split: prod.splits\<close>)
    qed
  qed
qed simp

end

section \<open>The receive buffer\<close>

text \<open>The number of characters, and the condition on the indices; the flag is set only when the indices differ.\<close>

definition rx_count :: "u16 \<Rightarrow> rt_serial_rx_fifo \<Rightarrow> nat" where
  "rx_count bufsz f = (let p = unat (rf_put_index f); g = unat (rf_get_index f) in
     if g \<le> p then p - g else unat bufsz + p - g)"

definition rx_ok :: "u16 \<Rightarrow> rt_serial_rx_fifo \<Rightarrow> bool" where
  "rx_ok bufsz f \<longleftrightarrow> 2 \<le> unat bufsz \<and> length (rf_buffer f) = unat bufsz \<and> unat (rf_put_index f) < unat bufsz \<and>
     unat (rf_get_index f) < unat bufsz \<and> (rf_is_full f \<longrightarrow> rf_get_index f \<noteq> rf_put_index f)"

definition rx_contents :: "u16 \<Rightarrow> rt_serial_rx_fifo \<Rightarrow> u8 list" where
  "rx_contents bufsz f = ring (rf_buffer f) (unat bufsz) (unat (rf_get_index f)) (rx_count bufsz f)"

lemma rx_okD:
  assumes "rx_ok bufsz f"
  shows "2 \<le> unat bufsz" "length (rf_buffer f) = unat bufsz" "unat (rf_put_index f) < unat bufsz" "unat (rf_get_index f) < unat bufsz"
    "rf_is_full f \<Longrightarrow> rf_get_index f \<noteq> rf_put_index f"
  using assms by (simp_all add: rx_ok_def)

text \<open>\<^verbatim>\<open>index += 1; if (index >= bufsz) index = 0;\<close>\<close>

definition rx_next :: "u16 \<Rightarrow> u16 \<Rightarrow> u16" where
  "rx_next bufsz i = (if i + 1 \<ge> bufsz then 0 else i + 1)"

lemma unat_u16: "unat (w :: u16) < 65536"
  using unsigned_less [of w, where 'a = nat] by simp

lemma unat_u16_u32: "unat (ucast (w :: u16) :: u32) = unat w"
  by (simp add: unsigned_ucast_eq take_bit_nat_eq_self_iff less_trans [OF unat_u16])

lemma unat_rx_next:
  assumes "unat i < unat bufsz"
  shows "unat (rx_next bufsz i) = (unat i + 1) mod unat bufsz"
proof -
  have "unat (i + 1) = unat i + 1" using assms unat_u16 [of bufsz] by (simp add: unat_word_ariths)
  then show ?thesis using assms by (auto simp: rx_next_def word_le_nat_alt mod_if)
qed

lemma rx_take_eq:
  assumes "rx_ok bufsz f"
  shows "rx_take bufsz f =
    Some (rf_buffer f ! unat (rf_get_index f), f\<lparr>rf_get_index := rx_next bufsz (rf_get_index f), rf_is_full := False\<rparr>)"
  using rx_okD [OF assms] by (cases f) (simp add: rx_take_def rx_next_def Let_def)

lemma rx_store_eq:
  assumes "rx_ok bufsz f"
  defines "p \<equiv> rx_next bufsz (rf_put_index f)"
  shows "rx_store bufsz ch f = Some (f\<lparr>rf_buffer := (rf_buffer f)[unat (rf_put_index f) := ch], rf_put_index := p,
    rf_get_index := (if p = rf_get_index f then rx_next bufsz (rf_get_index f) else rf_get_index f),
    rf_is_full := (p = rf_get_index f \<or> rf_is_full f)\<rparr>)"
proof -
  note o = rx_okD [OF assms(1)]
  have "\<not> rf_get_index f \<ge> bufsz" using o(4) by (simp add: word_le_nat_alt)
  then show ?thesis using o by (cases f) (auto simp: rx_store_def rx_next_def Let_def p_def)
qed

lemma rx_count_put:
  assumes "rx_ok bufsz f"
  shows "unat (rf_put_index f) = (unat (rf_get_index f) + rx_count bufsz f) mod unat bufsz" and "rx_count bufsz f < unat bufsz"
  using rx_okD [OF assms] by (auto simp: rx_count_def Let_def)

lemma rx_count_unique:
  assumes "rx_ok bufsz f" and "n < unat bufsz" and "unat (rf_put_index f) = (unat (rf_get_index f) + n) mod unat bufsz"
  shows "rx_count bufsz f = n"
proof -
  have "unat (rf_put_index f) = (if unat (rf_get_index f) + n < unat bufsz then unat (rf_get_index f) + n
      else unat (rf_get_index f) + n - unat bufsz)"
    using assms(2,3) rx_okD(4) [OF assms(1)] by (auto simp: mod_if)
  then show ?thesis using assms(2) rx_okD(4) [OF assms(1)] by (auto simp: rx_count_def Let_def split: if_splits)
qed

lemma length_rx_contents: "rx_ok bufsz f \<Longrightarrow> length (rx_contents bufsz f) < unat bufsz"
  using rx_count_put(2) by (simp add: rx_contents_def)

lemma rx_store_newest:
  assumes i: "rx_ok bufsz f"
  shows "returns (rx_store bufsz ch f) (\<lambda>f'. rx_ok bufsz f' \<and> rx_contents bufsz f' = newest (unat bufsz - 1) (rx_contents bufsz f @ [ch]))"
proof -
  note o = rx_okD [OF i] and c = rx_count_put [OF i]
  define n where "n = unat bufsz"
  define p where "p = rx_next bufsz (rf_put_index f)"
  define g where "g = (if p = rf_get_index f then rx_next bufsz (rf_get_index f) else rf_get_index f)"
  define f' where "f' = f\<lparr>rf_buffer := (rf_buffer f)[unat (rf_put_index f) := ch], rf_put_index := p, rf_get_index := g,
    rf_is_full := (p = rf_get_index f \<or> rf_is_full f)\<rparr>"
  have e: "rx_store bufsz ch f = Some f'" by (simp add: rx_store_eq [OF i] f'_def p_def g_def)
  have p: "unat p = (unat (rf_get_index f) + Suc (rx_count bufsz f)) mod n"
    using unat_rx_next [OF o(3)] c(1) by (simp add: p_def n_def mod_simps)
  have g: "unat g < n" "p = rf_get_index f \<Longrightarrow> unat g = (unat (rf_get_index f) + 1) mod n"
    using unat_rx_next [OF o(4)] o(1,4) by (auto simp: g_def n_def)
  have push: "ring (rf_buffer f') n (unat (rf_get_index f)) (Suc (rx_count bufsz f)) = rx_contents bufsz f @ [ch]"
    using ring_push [of "rx_count bufsz f" n "rf_buffer f" "unat (rf_get_index f)" ch] c o(2) by (simp add: f'_def rx_contents_def n_def)
  have full: "p = rf_get_index f \<longleftrightarrow> Suc (rx_count bufsz f) = n"
  proof -
    have "(unat (rf_get_index f) + Suc (rx_count bufsz f)) mod n = unat (rf_get_index f) \<longleftrightarrow> Suc (rx_count bufsz f) = n"
      using o(4) c(2) by (auto simp: n_def mod_if)
    then show ?thesis using p by (simp add: word_unat_eq_iff)
  qed
  have ne: "g \<noteq> p"
  proof (cases "p = rf_get_index f")
    case True
    then have "unat g \<noteq> unat p" using g(2) o(1,4) by (auto simp: n_def mod_if)
    then show ?thesis by auto
  qed (simp add: g_def)
  have ok: "rx_ok bufsz f'" using o g(1) p ne by (auto simp: rx_ok_def f'_def n_def)
  have "rx_contents bufsz f' = newest (n - 1) (rx_contents bufsz f @ [ch])"
  proof (cases "Suc (rx_count bufsz f) = n")
    case True
    have g': "unat g = (unat (rf_get_index f) + 1) mod n" using g(2) full True by blast
    have "rx_count bufsz f' = rx_count bufsz f"
      by (rule rx_count_unique [OF ok]) (use c(2) p g' in \<open>simp_all add: f'_def n_def mod_simps\<close>)
    then have "rx_contents bufsz f' = ring (rf_buffer f') n ((unat (rf_get_index f) + 1) mod n) (rx_count bufsz f)"
      using g' by (simp add: rx_contents_def f'_def n_def)
    then have "rx_contents bufsz f' = tl (rx_contents bufsz f @ [ch])"
      unfolding push [symmetric] ring_pop by simp
    moreover have "length (rx_contents bufsz f @ [ch]) = Suc (n - 1)" using True by (simp add: rx_contents_def)
    ultimately show ?thesis by (simp only: newest_tl)
  next
    case False
    then have lt: "Suc (rx_count bufsz f) < n" using c(2) by (simp add: n_def)
    have g': "g = rf_get_index f" using full False by (simp add: g_def)
    have "rx_count bufsz f' = Suc (rx_count bufsz f)"
      by (rule rx_count_unique [OF ok]) (use lt p g' in \<open>simp_all add: f'_def n_def\<close>)
    then show ?thesis using push g' lt by (simp add: rx_contents_def f'_def n_def newest_all)
  qed
  then show ?thesis using ok by (simp add: e n_def)
qed

lemma rx_take_first:
  assumes i: "rx_ok bufsz f" and c: "rx_contents bufsz f = x # xs"
  shows "returns (rx_take bufsz f) (\<lambda>(y, f'). y = x \<and> rx_ok bufsz f' \<and> rx_contents bufsz f' = xs)"
proof -
  note o = rx_okD [OF i] and n = rx_count_put [OF i]
  obtain m where m: "rx_count bufsz f = Suc m" using c by (cases "rx_count bufsz f") (auto simp: rx_contents_def ring_def)
  let ?f = "f\<lparr>rf_get_index := rx_next bufsz (rf_get_index f), rf_is_full := False\<rparr>"
  have ok: "rx_ok bufsz ?f" using o unat_rx_next [OF o(4)] by (auto simp: rx_ok_def)
  have "rx_count bufsz ?f = m"
    by (rule rx_count_unique [OF ok]) (use n m unat_rx_next [OF o(4)] in \<open>simp_all add: mod_simps\<close>)
  then have "x = rf_buffer f ! unat (rf_get_index f)" "rx_contents bufsz ?f = xs"
    using c ring_pop [of "rf_buffer f" "unat bufsz" "unat (rf_get_index f)" m] m unat_rx_next [OF o(4)] o(4)
    by (simp_all add: rx_contents_def)
  then show ?thesis using ok by (simp add: rx_take_eq [OF i])
qed

lemma rx_empty_iff: "rx_ok bufsz f \<Longrightarrow> rx_empty f \<longleftrightarrow> rx_contents bufsz f = []"
  by (auto simp: rx_empty_def rx_contents_def rx_count_def Let_def rx_ok_def word_unat_eq_iff)

text \<open>A buffer of at least two characters; it holds one less than its size.\<close>

interpretation rx: lossy_fifo "rx_ok bufsz" "rx_contents bufsz" "unat bufsz - 1" "rx_store bufsz" "rx_take bufsz" rx_empty for bufsz :: u16
proof
  fix f x xs assume i: "rx_ok bufsz f"
  show "length (rx_contents bufsz f) \<le> unat bufsz - 1" using length_rx_contents [OF i] by simp
  show "returns (rx_store bufsz x f) (\<lambda>f'. rx_ok bufsz f' \<and> rx_contents bufsz f' = newest (unat bufsz - 1) (rx_contents bufsz f @ [x]))"
    by (rule rx_store_newest [OF i])
  show "rx_empty f \<longleftrightarrow> rx_contents bufsz f = []" by (rule rx_empty_iff [OF i])
  show "returns (rx_take bufsz f) (\<lambda>(y, f'). y = x \<and> rx_ok bufsz f' \<and> rx_contents bufsz f' = xs)" if "rx_contents bufsz f = x # xs"
    by (rule rx_take_first [OF i that])
qed

section \<open>Reads\<close>

text \<open>The bytes of a buffer.\<close>

definition buffer_bytes :: "memory \<Rightarrow> nat \<Rightarrow> nat \<Rightarrow> u8 list" where
  "buffer_bytes m a n = map (\<lambda>i. m (a + i)) [0..<n]"

lemma bytes_at_fun_upd [simp]: "bytes_at (Suc a) xs (m(a := x)) = bytes_at a (x # xs) m"
  by (simp add: bytes_at_Cons)

lemma buffer_bytes_at [simp]: "buffer_bytes (bytes_at a xs m) a (length xs) = xs"
  by (rule nth_equalityI) (simp_all add: buffer_bytes_def bytes_at_def)

lemma buffer_bytes_0 [simp]: "buffer_bytes m a 0 = []"
  by (simp add: buffer_bytes_def)

lemma buffer_bytes_Suc: "buffer_bytes m a (Suc n) = m a # buffer_bytes m (a + 1) n"
  by (simp add: buffer_bytes_def upt_conv_Cons map_Suc_upt [symmetric] del: upt_Suc)

text \<open>A read takes characters out of the queue and stores them in the buffer of the caller.\<close>

lemma rx_read_takes:
  "rx_read bufsz data n (f, m) = map_option (\<lambda>(xs, f'). (length xs, f', bytes_at data xs m)) (rx.takes bufsz n f)"
proof (induction n arbitrary: data f m)
  case (Suc n)
  show ?case
    using bytes_at_fun_upd [of data _ m]
    by (auto simp: Suc.IH bind_map_option map_option_bind comp_def fun_upd_def split: prod.splits intro!: Option.bind_cong)
qed simp

lemma rx_read_first:
  assumes "rx_ok bufsz f"
  shows "returns (rx_read bufsz data n (f, m)) (\<lambda>(c, f', m'). rx_ok bufsz f' \<and> c = min n (length (rx_contents bufsz f)) \<and>
    m' = bytes_at data (take n (rx_contents bufsz f)) m \<and> rx_contents bufsz f' = drop n (rx_contents bufsz f))"
  using rx.takes_first [OF assms, of n] by (auto simp: rx_read_takes returns_def)

text \<open>Bursts of stored characters and reads of at most so many characters into the buffer \<open>data\<close>, with what each of them read.\<close>

fun rx_stores :: "u16 \<Rightarrow> u8 list \<Rightarrow> rt_serial_rx_fifo \<Rightarrow> rt_serial_rx_fifo option" where
  "rx_stores bufsz [] f = Some f"
| "rx_stores bufsz (c # cs) f = Option.bind (rx_store bufsz c f) (rx_stores bufsz cs)"

fun rx_run :: "u16 \<Rightarrow> nat \<Rightarrow> u8 lop list \<Rightarrow> rt_serial_rx_fifo \<times> memory \<Rightarrow> (u8 list list \<times> rt_serial_rx_fifo \<times> memory) option" where
  "rx_run bufsz data [] s = Some ([], s)"
| "rx_run bufsz data (Arrive cs # ops) (f, m) = do {
     f \<leftarrow> rx_stores bufsz cs f;
     rx_run bufsz data ops (f, m)
   }"
| "rx_run bufsz data (Read len # ops) (f, m) = do {
     (n, f, m) \<leftarrow> rx_read bufsz data len (f, m);
     (out, s) \<leftarrow> rx_run bufsz data ops (f, m);
     Some (buffer_bytes m data n # out, s)
   }"

lemma rx_stores_eq: "rx_stores bufsz cs f = rx.stores bufsz cs f"
  by (induction cs arbitrary: f) (auto intro!: Option.bind_cong)

lemma rx_run_eq: "map_option (\<lambda>(out, f, m). (out, f)) (rx_run bufsz data ops (f, m)) = rx.run bufsz ops f"
proof (induction ops arbitrary: f m)
  case (Cons p ops)
  show ?case
  proof (cases p)
    case (Arrive cs)
    show ?thesis unfolding Arrive by (auto simp: Cons.IH rx_stores_eq map_option_bind comp_def intro!: Option.bind_cong)
  next
    case (Read n)
    have "map_option (\<lambda>(out, f, m). (out, f)) (Option.bind (rx_run bufsz data ops (f', m')) (\<lambda>(out, s). Some (xs # out, s))) =
        Option.bind (rx.run bufsz ops f') (\<lambda>(out, s). Some (xs # out, s))" for f' m' xs
      by (auto simp: Cons.IH [symmetric, of _ m'] map_option_bind bind_map_option comp_def split: prod.splits intro!: Option.bind_cong)
    then show ?thesis
      unfolding Read by (auto simp: rx_read_takes map_option_bind bind_map_option comp_def split: prod.splits intro!: Option.bind_cong)
  qed
qed simp

text \<open>
  C12. The receive buffer of a serial port is a queue that drops its oldest characters: over any sequence of bursts of received
  characters and reads, the indices stay in range, each read gives what the specification of a queue of one character less
  than the buffer gives, and as long as no burst exceeds the room left, everything received is read in order or still there.
\<close>

theorem serial_rx_lossy_queue:
  assumes "rx_ok bufsz f"
  shows "returns (rx_run bufsz data ops (f, m)) (\<lambda>(out, f', m'). rx_ok bufsz f' \<and>
    lossy_spec (unat bufsz - 1) ops (rx_contents bufsz f) = (out, rx_contents bufsz f') \<and>
    (keeps_up (unat bufsz - 1) ops (length (rx_contents bufsz f)) \<longrightarrow> concat out @ rx_contents bufsz f' = rx_contents bufsz f @ arrivals ops))"
proof -
  obtain out f' where r: "rx.run bufsz ops f = Some (out, f')" "rx_ok bufsz f'"
    "lossy_spec (unat bufsz - 1) ops (rx_contents bufsz f) = (out, rx_contents bufsz f')"
    using rx.run_refines [OF assms, of ops] by (auto simp: returns_def)
  then obtain m' where "rx_run bufsz data ops (f, m) = Some (out, f', m')" using rx_run_eq [of bufsz data ops f m] by auto
  then show ?thesis using r lossy_spec_lossless [of "unat bufsz - 1" ops "rx_contents bufsz f"] by auto
qed

definition sample_fifo :: rt_serial_rx_fifo where
  "sample_fifo = \<lparr>rf_buffer = [0, 0, 0, 0], rf_put_index = 3, rf_get_index = 3, rf_is_full = False\<rparr>"

theorem serial_rx_lossy_queue_witness:
  "returns (rx_run 4 100 [Arrive [1, 2, 3, 4, 5], Read 2, Arrive [6], Read 7] (sample_fifo, \<lambda>_. 0)) (\<lambda>(out, f', m'). out = [[3, 4], [5, 6]])"
proof -
  have i: "rx_ok 4 sample_fifo" by (simp add: rx_ok_def sample_fifo_def)
  have c: "rx_contents 4 sample_fifo = []" by (simp add: rx_contents_def rx_count_def sample_fifo_def)
  show ?thesis
    using serial_rx_lossy_queue [OF i, of 100 "[Arrive [1, 2, 3, 4, 5], Read 2, Arrive [6], Read 7]" "\<lambda>_. 0"] unfolding c
    by (auto simp: returns_def newest_def)
qed

end
