(* ===== verification/SerialPort.thy ===== *)
theory SerialPort
  imports SerialQueue
begin

text \<open>
  A serial device over any driver that keeps the interface \<open>uart\<close>: what is written is sent in order, with a carriage return before
  each line feed in stream mode; what arrives during an interrupt is added to the receive buffer; opening and closing.
\<close>

section \<open>The interface of the driver\<close>

text \<open>
  The characters that are waiting until \<^verbatim>\<open>getc\<close> next finds none, and those sent.  New characters may arrive at any other time.
\<close>

locale uart =
  fixes ops :: "'h rt_uart_ops" and good :: "'h \<Rightarrow> bool" and pending :: "'h \<Rightarrow> u8 list" and sent :: "'h \<Rightarrow> u8 list"
  assumes getc: "good h \<Longrightarrow> uo_getc ops h = (r, h') \<Longrightarrow> good h' \<and> sent h' = sent h \<and>
      (case pending h of [] \<Rightarrow> r = -1 | c # cs \<Rightarrow> r = uint c \<and> pending h' = cs)"
    and putc: "good h \<Longrightarrow> returns (uo_putc ops c h) (\<lambda>(r, h'). r \<noteq> -1 \<and> good h' \<and> sent h' = sent h @ [c])"

text \<open>What goes over the wire for a list of characters.\<close>

definition wire_bytes :: "bool \<Rightarrow> u8 list \<Rightarrow> u8 list" where
  "wire_bytes stream cs = concat (map (\<lambda>c. if stream \<and> c = LF then [CR, LF] else [c]) cs)"

lemma wire_bytes_simps [simp]:
  "wire_bytes stream [] = []"
  "wire_bytes stream (c # cs) = (if stream \<and> c = LF then [CR, LF] else [c]) @ wire_bytes stream cs"
  "wire_bytes False cs = cs"
  by (simp_all add: wire_bytes_def)

text \<open>Only the state of the driver of port \<open>d\<close> differs.\<close>

definition drv_only :: "nat \<Rightarrow> 'h serial_io \<Rightarrow> 'h serial_io \<Rightarrow> bool" where
  "drv_only d io io' \<longleftrightarrow> (\<exists>h. io' = io\<lparr>su_drv := (su_drv io)(d := h)\<rparr>)"

lemma drv_only_refl [simp]: "drv_only d io io"
  unfolding drv_only_def by (rule exI [of _ "su_drv io d"]) simp

lemma drv_only_trans: "drv_only d io io1 \<Longrightarrow> drv_only d io1 io2 \<Longrightarrow> drv_only d io io2"
  by (auto simp: drv_only_def)

lemma drv_onlyD: "drv_only d io io' \<Longrightarrow> su_mem io' = su_mem io \<and> su_ports io' = su_ports io \<and> su_fifos io' = su_fifos io \<and>
    su_configs io' = su_configs io \<and> (\<forall>d'. d' \<noteq> d \<longrightarrow> su_drv io' d' = su_drv io d')"
  by (auto simp: drv_only_def)

context uart
begin

abbreviation sent_on :: "nat \<Rightarrow> 'h serial_io \<Rightarrow> u8 list" where "sent_on d io \<equiv> sent (su_drv io d)"

definition sends :: "nat \<Rightarrow> u8 list \<Rightarrow> 'h serial_io \<Rightarrow> 'h serial_io \<Rightarrow> bool" where
  "sends d cs io io' \<longleftrightarrow> drv_only d io io' \<and> good (su_drv io' d) \<and> sent_on d io' = sent_on d io @ cs"

lemma sends_refl: "good (su_drv io d) \<Longrightarrow> sends d [] io io"
  by (simp add: sends_def)

lemma sends_trans: "sends d xs io io1 \<Longrightarrow> sends d ys io1 io2 \<Longrightarrow> sends d (xs @ ys) io io2"
  by (auto simp: sends_def intro: drv_only_trans)

lemma sends_mem: "sends d xs io io' \<Longrightarrow> su_mem io' = su_mem io" "sends d xs io io' \<Longrightarrow> good (su_drv io' d)"
  by (auto simp: sends_def dest: drv_onlyD)

lemma putc_sends: "good (su_drv io d) \<Longrightarrow> returns (serial_putc ops d c io) (\<lambda>(r, io'). r \<noteq> -1 \<and> sends d [c] io io')"
  using putc [of "su_drv io d" c] by (auto simp: serial_putc_def returns_def sends_def drv_only_def)

lemma poll_tx_sends:
  "good (su_drv io d) \<Longrightarrow> returns (serial_poll_tx ops d stream data len io) (sends d (wire_bytes stream (buffer_bytes (su_mem io) data len)) io)"
proof (induction len arbitrary: data io)
  case (Suc len)
  have cr: "returns (if su_mem io data = LF \<and> stream then serial_putc ops d CR io else Some (0, io))
      (\<lambda>(r, io'). sends d (if stream \<and> su_mem io data = LF then [CR] else []) io io')"
    using putc_sends [OF Suc.prems, of CR] sends_refl [OF Suc.prems] by (auto simp: returns_def)
  show ?case
    unfolding serial_poll_tx.simps
  proof (rule returns_bind_pair [OF cr])
    fix io1 assume 1: "sends d (if stream \<and> su_mem io data = LF then [CR] else []) io io1"
    show "returns (Option.bind (serial_putc ops d (su_mem io1 data) io1) (\<lambda>(_, io). serial_poll_tx ops d stream (data + 1) len io))
        (sends d (wire_bytes stream (buffer_bytes (su_mem io) data (Suc len))) io)"
    proof (rule returns_bind_pair [OF putc_sends [OF sends_mem(2) [OF 1]]], elim conjE)
      fix io2 assume "sends d [su_mem io1 data] io1 io2"
      from sends_trans [OF 1 this] have 2: "sends d (if stream \<and> su_mem io data = LF then [CR, LF] else [su_mem io data]) io io2"
        by (auto simp: sends_mem(1) [OF 1] split: if_splits)
      show "returns (serial_poll_tx ops d stream (data + 1) len io2) (sends d (wire_bytes stream (buffer_bytes (su_mem io) data (Suc len))) io)"
        by (rule returns_mono [OF Suc.IH [OF sends_mem(2) [OF 2]]])
          (use sends_trans [OF 2] sends_mem(1) [OF 2] in \<open>auto simp: buffer_bytes_Suc\<close>)
    qed
  qed
qed (simp add: sends_refl)

text \<open>In interrupt mode a driver that is never busy sends the same, and the writer does not wait.\<close>

lemma tx_char_sends:
  assumes "good (su_drv io d)" and "k_devices k d = Some dev"
  shows "returns (tx_char ops d data (k, io)) (\<lambda>(b, io'). b \<and> sends d (wire_bytes (streaming dev) [su_mem io data]) io io')"
proof -
  let ?c = "su_mem io data"
  obtain r io1 where 1: "(if ?c = LF \<and> streaming dev then serial_putc ops d CR io else Some (0, io)) = Some (r, io1)" "r \<noteq> -1"
    "sends d (if ?c = LF \<and> streaming dev then [CR] else []) io io1"
    using putc_sends [OF assms(1), of CR] sends_refl [OF assms(1)] that
    by (cases "?c = LF \<and> streaming dev") (auto simp: returns_def)
  obtain r2 io2 where 2: "serial_putc ops d (su_mem io1 data) io1 = Some (r2, io2)" "r2 \<noteq> -1" "sends d [su_mem io1 data] io1 io2"
    using putc_sends [OF sends_mem(2) [OF 1(3)], of "su_mem io1 data"] by (auto simp: returns_def)
  have "tx_char ops d data (k, io) = Some (True, io2)"
    unfolding tx_char_def fst_conv snd_conv assms(2) Option.bind.bind_lunit 1(1) prod.case using 1(2) 2(1,2) by simp
  moreover have "sends d (wire_bytes (streaming dev) [?c]) io io2"
    using sends_trans [OF 1(3) 2(3)] unfolding sends_mem(1) [OF 1(3)] by (auto split: if_splits)
  ultimately show ?thesis by simp
qed

lemma int_tx_sends:
  "good (su_drv io d) \<Longrightarrow> k_devices k d = Some dev \<Longrightarrow> returns (serial_int_tx ops d tx sz data len (k, io))
    (\<lambda>(r, k', io'). r = Done sz \<and> k' = k \<and> sends d (wire_bytes (streaming dev) (buffer_bytes (su_mem io) data len)) io io')"
proof (induction len arbitrary: data io)
  case (Suc len)
  obtain io1 where t: "tx_char ops d data (k, io) = Some (True, io1)" and
    1: "sends d (wire_bytes (streaming dev) [su_mem io data]) io io1"
    using tx_char_sends [OF Suc.prems, of data] by (auto simp: returns_def)
  have e: "serial_int_tx ops d tx sz data (Suc len) (k, io) = serial_int_tx ops d tx sz (data + 1) len (k, io1)"
    by (subst serial_int_tx.simps) (simp add: t)
  show ?case
    unfolding e
    by (rule returns_mono [OF Suc.IH [OF sends_mem(2) [OF 1] Suc.prems(2)]])
      (use sends_trans [OF 1] sends_mem(1) [OF 1] in \<open>auto simp: buffer_bytes_Suc\<close>)
qed (simp add: serial_int_tx.simps sends_refl)

text \<open>The interrupt stores what is waiting.\<close>

lemma isr_receive_stores:
  "good h \<Longrightarrow> rx_ok bufsz f \<Longrightarrow> returns (isr_receive ops bufsz (f, h)) (\<lambda>(f', h'). rx_ok bufsz f' \<and> good h' \<and> sent h' = sent h \<and>
    rx_contents bufsz f' = newest (unat bufsz - 1) (rx_contents bufsz f @ pending h))"
proof (induction "pending h" arbitrary: f h)
  case Nil
  obtain r h' where g: "uo_getc ops h = (r, h')" by fastforce
  have "rx_contents bufsz f = newest (unat bufsz - 1) (rx_contents bufsz f @ pending h)"
    using length_rx_contents [OF Nil.prems(2)] Nil.hyps [symmetric] by (simp add: newest_all)
  then show ?case using getc [OF Nil.prems(1) g] Nil.hyps [symmetric] Nil.prems(2) by (simp add: isr_receive.simps g)
next
  case (Cons c cs)
  obtain r h' where g: "uo_getc ops h = (r, h')" by fastforce
  have h': "good h'" "sent h' = sent h" "r = uint c" "pending h' = cs"
    using getc [OF Cons.prems(1) g] by (simp_all add: Cons.hyps(2) [symmetric])
  have e: "isr_receive ops bufsz (f, h) = Option.bind (rx_store bufsz c f) (\<lambda>f. isr_receive ops bufsz (f, h'))"
  proof -
    have "uint c \<noteq> -1" using uint_nonnegative [of c] by linarith
    then show ?thesis by (subst isr_receive.simps) (simp add: g h'(3))
  qed
  show ?case
    unfolding e
  proof (rule returns_bindI [OF rx_store_newest [OF Cons.prems(2)]], elim conjE)
    fix f' assume f': "rx_ok bufsz f'" "rx_contents bufsz f' = newest (unat bufsz - 1) (rx_contents bufsz f @ [c])"
    have "newest (unat bufsz - 1) (newest (unat bufsz - 1) (rx_contents bufsz f @ [c]) @ cs) =
        newest (unat bufsz - 1) (rx_contents bufsz f @ pending h)" by (simp add: newest_append Cons.hyps(2) [symmetric])
    then show "returns (isr_receive ops bufsz (f', h')) (\<lambda>(f', h'). rx_ok bufsz f' \<and> good h' \<and> sent h' = sent h \<and>
        rx_contents bufsz f' = newest (unat bufsz - 1) (rx_contents bufsz f @ pending h))"
      using Cons.hyps(1) [of h' f'] h' f' by simp
  qed
qed

end

section \<open>Where the code differs from what it means\<close>

text \<open>
  A write in interrupt mode that finds the driver busy between the carriage return and the line feed sends the carriage return
  again.
\<close>

lemma int_tx_repeats_cr:
  assumes "k_devices k d = Some dev" "streaming dev" "su_mem io data = LF" "k_completions k tx = Some \<lparr>cp_flag = RT_COMPLETED\<rparr>"
    and "uo_putc ops CR (su_drv io d) = Some (1, h1)" "uo_putc ops LF h1 = Some (-1, h2)"
    and "uo_putc ops CR h2 = Some (1, h3)" "uo_putc ops LF h3 = Some (1, h4)"
  shows "serial_int_tx ops d tx 1 data 1 (k, io) =
    Some (Done 1, k\<lparr>k_completions := (k_completions k)(tx \<mapsto> \<lparr>cp_flag = RT_UNCOMPLETED\<rparr>)\<rparr>, io\<lparr>su_drv := (su_drv io)(d := h4)\<rparr>)"
proof -
  let ?io = "\<lambda>h. io\<lparr>su_drv := (su_drv io)(d := h)\<rparr>"
  let ?k = "k\<lparr>k_completions := (k_completions k)(tx \<mapsto> \<lparr>cp_flag = RT_UNCOMPLETED\<rparr>)\<rparr>"
  have 1: "tx_char ops d data (k, io) = Some (False, ?io h2)" using assms by (simp add: tx_char_def serial_putc_def)
  have 2: "rt_completion_wait tx RT_WAITING_FOREVER k = Some (Done RT_EOK, ?k)"
    using assms(4) by (simp add: rt_completion_wait_def mod_completion_def)
  have 3: "tx_char ops d data (?k, ?io h2) = Some (True, ?io h4)" using assms by (simp add: tx_char_def serial_putc_def)
  show ?thesis
    by (subst serial_int_tx.simps, simp add: 1 2, subst serial_int_tx.simps, simp add: 3, subst serial_int_tx.simps, simp)
qed

text \<open>
  Opening an open port without the receive interrupt clears its flag, and the last close then leaves the receive buffer on the
  heap; the next initialisation forgets it.
\<close>

lemma flags_cleared: "((oflag AND 0xff) OR (if b then RT_DEVICE_FLAG_STREAM else 0)) AND RT_DEVICE_FLAG_INT_RX = 0"
    "((oflag AND 0xff) OR (if b then RT_DEVICE_FLAG_STREAM else 0)) AND RT_DEVICE_FLAG_INT_TX = 0"
  by (simp_all add: bit.conj_disj_distrib2 and.assoc)

lemma reopen_loses_flag:
  assumes "k_devices k d = Some dev" and "su_ports io d = Some port" and "ss_rx port = Some p"
    and "oflag AND RT_DEVICE_FLAG_INT_RX = 0" "oflag AND RT_DEVICE_FLAG_INT_TX = 0" "\<not> unsupported (dv_flag dev) oflag"
  shows "\<exists>dev'. rt_serial_open ops d oflag (k, io) = Some (RT_EOK, k\<lparr>k_devices := (k_devices k)(d \<mapsto> dev')\<rparr>, io) \<and>
    dv_open_flag dev' AND RT_DEVICE_FLAG_INT_RX = 0 \<and> dv_open_flag dev' AND RT_DEVICE_FLAG_INT_TX = 0"
proof -
  have tx: "serial_open_tx ops d oflag (k', io) = Some (k', io)" for k'
    using assms(2,5) by (simp add: serial_open_tx_def split: option.splits)
  define sf where "sf = (if oflag AND RT_DEVICE_FLAG_STREAM \<noteq> 0 \<or> streaming dev then RT_DEVICE_FLAG_STREAM else 0)"
  let ?dev = "dev\<lparr>dv_open_flag := (oflag AND 0xff) OR sf\<rparr>"
  have "rt_serial_open ops d oflag (k, io) = Some (RT_EOK, k\<lparr>k_devices := (k_devices k)(d \<mapsto> ?dev)\<rparr>, io)"
    unfolding rt_serial_open_def fst_conv assms(1) Option.bind.bind_lunit sf_def [symmetric]
    using assms by (simp add: serial_open_rx_def mod_device_def tx)
  then show ?thesis
    using flags_cleared [of oflag "oflag AND RT_DEVICE_FLAG_STREAM \<noteq> 0 \<or> streaming dev", folded sf_def]
    by (intro exI [of _ ?dev]) simp
qed

lemma close_leaks_buffer:
  assumes "k_devices k d = Some dev" and "dv_ref_count dev \<le> 1" and "su_ports io d = Some port"
    and "dv_open_flag dev AND RT_DEVICE_FLAG_INT_RX = 0" "dv_open_flag dev AND RT_DEVICE_FLAG_INT_TX = 0"
  shows "returns (rt_serial_close ops d (k, io)) (\<lambda>(r, k', io'). r = RT_EOK \<and> k_heap k' = k_heap k \<and> su_fifos io' = su_fifos io \<and>
    returns (rt_serial_init ops d (k', io')) (\<lambda>(r, k'', io''). k_heap k'' = k_heap k \<and> (\<exists>port. su_ports io'' d = Some port \<and> ss_rx port = None)))"
proof -
  have n: "\<not> dv_ref_count dev > 1" using assms(2) by simp
  show ?thesis
    unfolding rt_serial_close_def fst_conv assms(1) Option.bind.bind_lunit if_not_P [OF n]
    using assms
    by (simp add: serial_close_rx_def serial_close_tx_def serial_ctrl_def mod_device_def rt_serial_init_def mod_port_def
        serial_configure_port_def Let_def split: prod.splits option.splits)
qed

end
