(* ===== verification/SerialBoard.thy ===== *)
theory SerialBoard
  imports SerialPort Printf Clock
begin

text \<open>
  The serial port of the board (\<^verbatim>\<open>drv_usart.c\<close>, with the functions of \<^verbatim>\<open>ch32v30x_usart.c\<close> it calls) and the console on it
  (\<^verbatim>\<open>kservice.c\<close>).  The state of a port is the driver's structure, the registers, the clocks of the two buses, whether the
  interrupt is enabled at the interrupt controller, and the state \<open>'e\<close> of what is connected.  The argument \<open>p\<close> gives what reading
  the status and the data register and writing them does.  The gates of the clocks and the modes of the two pins are left out.
\<close>

section \<open>The peripheral\<close>

record USART_InitTypeDef =
  USART_BaudRate :: u32
  USART_WordLength :: u16
  USART_StopBits :: u16
  USART_Parity :: u16
  USART_Mode :: u16
  USART_HardwareFlowControl :: u16

record 'e usart_wire =
  uw_status :: "'e \<Rightarrow> u16 \<times> 'e"
  uw_clear :: "u16 \<Rightarrow> 'e \<Rightarrow> 'e"
  uw_read :: "'e \<Rightarrow> u16 \<times> 'e"
  uw_write :: "u16 \<Rightarrow> 'e \<Rightarrow> 'e"

text \<open>\<open>cu_Instance\<close> is the number of the peripheral, from 1.\<close>

record 'e ch32_uart =
  cu_Instance :: nat
  cu_Init :: USART_InitTypeDef
  cu_CTLR1 :: u16
  cu_CTLR2 :: u16
  cu_CTLR3 :: u16
  cu_BRR :: u16
  cu_PCLK1 :: u32
  cu_PCLK2 :: u32
  cu_irq :: bool
  cu_wire :: 'e

abbreviation CTLR1_UE_Set :: u16 where "CTLR1_UE_Set \<equiv> 0x2000"
abbreviation CTLR1_UE_Reset :: u16 where "CTLR1_UE_Reset \<equiv> 0xDFFF"
abbreviation USART_CTLR1_CLEAR_Mask :: u16 where "USART_CTLR1_CLEAR_Mask \<equiv> 0xE9F3"
abbreviation CTLR2_STOP_CLEAR_Mask :: u16 where "CTLR2_STOP_CLEAR_Mask \<equiv> 0xCFFF"
abbreviation CTLR3_CLEAR_Mask :: u16 where "CTLR3_CLEAR_Mask \<equiv> 0xFCFF"
abbreviation CTLR1_OVER8_Set :: u16 where "CTLR1_OVER8_Set \<equiv> 0x8000"
abbreviation IT_Mask :: u16 where "IT_Mask \<equiv> 0x001F"
abbreviation USART_FLAG_TC :: u16 where "USART_FLAG_TC \<equiv> 0x0040"
abbreviation USART_FLAG_RXNE :: u16 where "USART_FLAG_RXNE \<equiv> 0x0020"
abbreviation USART_IT_RXNE :: u16 where "USART_IT_RXNE \<equiv> 0x0525"
abbreviation USART_WordLength_8b :: u16 where "USART_WordLength_8b \<equiv> 0x0000"
abbreviation USART_WordLength_9b :: u16 where "USART_WordLength_9b \<equiv> 0x1000"
abbreviation USART_StopBits_1 :: u16 where "USART_StopBits_1 \<equiv> 0x0000"
abbreviation USART_StopBits_2 :: u16 where "USART_StopBits_2 \<equiv> 0x2000"
abbreviation USART_Parity_No :: u16 where "USART_Parity_No \<equiv> 0x0000"
abbreviation USART_Parity_Even :: u16 where "USART_Parity_Even \<equiv> 0x0400"
abbreviation USART_Parity_Odd :: u16 where "USART_Parity_Odd \<equiv> 0x0600"
abbreviation USART_Mode_Rx :: u16 where "USART_Mode_Rx \<equiv> 0x0004"
abbreviation USART_Mode_Tx :: u16 where "USART_Mode_Tx \<equiv> 0x0008"
abbreviation USART_HardwareFlowControl_None :: u16 where "USART_HardwareFlowControl_None \<equiv> 0x0000"

text \<open>The value of the baud rate register; the arithmetic is on 32 bits.\<close>

definition usart_brr :: "bool \<Rightarrow> u32 \<Rightarrow> u32 \<Rightarrow> u16" where
  "usart_brr over8 apbclock baud =
     (let integerdivider = (if over8 then (25 * apbclock) div (2 * baud) else (25 * apbclock) div (4 * baud));
          tmpreg = push_bit 4 (integerdivider div 100);
          fractionaldivider = integerdivider - 100 * drop_bit 4 tmpreg;
          tmpreg = (if over8 then tmpreg OR (((fractionaldivider * 8 + 50) div 100) AND 0x07)
                    else tmpreg OR (((fractionaldivider * 16 + 50) div 100) AND 0x0F))
      in ucast tmpreg)"

definition USART_Init :: "USART_InitTypeDef \<Rightarrow> 'e ch32_uart \<Rightarrow> 'e ch32_uart" where
  "USART_Init i h =
     (let h = h\<lparr>cu_CTLR2 := (cu_CTLR2 h AND CTLR2_STOP_CLEAR_Mask) OR USART_StopBits i\<rparr>;
          h = h\<lparr>cu_CTLR1 := (cu_CTLR1 h AND USART_CTLR1_CLEAR_Mask) OR (USART_WordLength i OR USART_Parity i OR USART_Mode i)\<rparr>;
          h = h\<lparr>cu_CTLR3 := (cu_CTLR3 h AND CTLR3_CLEAR_Mask) OR USART_HardwareFlowControl i\<rparr>;
          apbclock = (if cu_Instance h = 1 then cu_PCLK2 h else cu_PCLK1 h)
      in h\<lparr>cu_BRR := usart_brr (cu_CTLR1 h AND CTLR1_OVER8_Set \<noteq> 0) apbclock (USART_BaudRate i)\<rparr>)"

definition USART_Cmd :: "bool \<Rightarrow> 'e ch32_uart \<Rightarrow> 'e ch32_uart" where
  "USART_Cmd new_state h =
     (if new_state then h\<lparr>cu_CTLR1 := cu_CTLR1 h OR CTLR1_UE_Set\<rparr> else h\<lparr>cu_CTLR1 := cu_CTLR1 h AND CTLR1_UE_Reset\<rparr>)"

text \<open>The number of the control register and the mask of an interrupt source.\<close>

definition it_register :: "u16 \<Rightarrow> u8" where
  "it_register it = drop_bit 5 (ucast it :: u8)"

definition it_mask :: "u16 \<Rightarrow> u16" where
  "it_mask it = push_bit (unat (it AND IT_Mask)) 1"

definition USART_ITConfig :: "u16 \<Rightarrow> bool \<Rightarrow> 'e ch32_uart \<Rightarrow> 'e ch32_uart" where
  "USART_ITConfig it new_state h =
     (let set = (\<lambda>r. if new_state then r OR it_mask it else r AND NOT (it_mask it))
      in if it_register it = 1 then h\<lparr>cu_CTLR1 := set (cu_CTLR1 h)\<rparr>
         else if it_register it = 2 then h\<lparr>cu_CTLR2 := set (cu_CTLR2 h)\<rparr>
         else h\<lparr>cu_CTLR3 := set (cu_CTLR3 h)\<rparr>)"

definition USART_GetFlagStatus :: "'e usart_wire \<Rightarrow> u16 \<Rightarrow> 'e \<Rightarrow> bool \<times> 'e" where
  "USART_GetFlagStatus p flag e = (let (st, e) = uw_status p e in (st AND flag \<noteq> 0, e))"

definition USART_GetITStatus :: "'e usart_wire \<Rightarrow> u16 \<Rightarrow> 'e ch32_uart \<Rightarrow> bool \<times> 'e ch32_uart" where
  "USART_GetITStatus p it h =
     (let itmask = it_mask it AND (if it_register it = 1 then cu_CTLR1 h else if it_register it = 2 then cu_CTLR2 h else cu_CTLR3 h);
          (st, e) = uw_status p (cu_wire h);
          bitpos = push_bit (unat (drop_bit 8 it)) 1 AND st
      in (itmask \<noteq> 0 \<and> bitpos \<noteq> 0, h\<lparr>cu_wire := e\<rparr>))"

definition USART_ClearITPendingBit :: "'e usart_wire \<Rightarrow> u16 \<Rightarrow> 'e ch32_uart \<Rightarrow> 'e ch32_uart" where
  "USART_ClearITPendingBit p it h = h\<lparr>cu_wire := uw_clear p (NOT (push_bit (unat (drop_bit 8 it)) 1)) (cu_wire h)\<rparr>"

section \<open>The driver\<close>

definition ch32_configure :: "serial_configure \<Rightarrow> 'e ch32_uart \<Rightarrow> int \<times> 'e ch32_uart" where
  "ch32_configure cfg h =
     (let i = (cu_Init h)\<lparr>USART_BaudRate := sc_baud_rate cfg, USART_HardwareFlowControl := USART_HardwareFlowControl_None,
                USART_Mode := USART_Mode_Rx OR USART_Mode_Tx,
                USART_WordLength := (if sc_data_bits cfg = 9 then USART_WordLength_9b else USART_WordLength_8b),
                USART_StopBits := (if sc_stop_bits cfg = 1 then USART_StopBits_2 else USART_StopBits_1),
                USART_Parity := (if sc_parity cfg = 1 then USART_Parity_Odd else if sc_parity cfg = 2 then USART_Parity_Even else USART_Parity_No)\<rparr>;
          h = h\<lparr>cu_Init := i\<rparr>
      in (RT_EOK, if cu_Instance h = 1 \<or> cu_Instance h = 7 then USART_Cmd True (USART_Init i h) else h))"

definition ch32_control :: "int \<Rightarrow> nat \<Rightarrow> 'e ch32_uart \<Rightarrow> int \<times> 'e ch32_uart" where
  "ch32_control cmd arg h =
     (RT_EOK,
      if cmd = RT_DEVICE_CTRL_CLR_INT then USART_ITConfig USART_IT_RXNE False (h\<lparr>cu_irq := False\<rparr>)
      else if cmd = RT_DEVICE_CTRL_SET_INT then USART_ITConfig USART_IT_RXNE True (h\<lparr>cu_irq := True\<rparr>)
      else h)"

text \<open>The loop of \<^verbatim>\<open>ch32_putc\<close> that waits for the end of the last transmission.\<close>

partial_function (option) wait_tc :: "'e usart_wire \<Rightarrow> 'e \<Rightarrow> 'e option" where
  "wait_tc p e = (let (set, e) = USART_GetFlagStatus p USART_FLAG_TC e in if set then Some e else wait_tc p e)"

definition ch32_putc :: "'e usart_wire \<Rightarrow> u8 \<Rightarrow> 'e ch32_uart \<Rightarrow> (int \<times> 'e ch32_uart) option" where
  "ch32_putc p c h = do {
     e \<leftarrow> wait_tc p (cu_wire h);
     Some (1, h\<lparr>cu_wire := uw_write p (ucast c) e\<rparr>)
   }"

definition ch32_getc :: "'e usart_wire \<Rightarrow> 'e ch32_uart \<Rightarrow> int \<times> 'e ch32_uart" where
  "ch32_getc p h =
     (let (set, e) = USART_GetFlagStatus p USART_FLAG_RXNE (cu_wire h)
      in if set then let (w, e) = uw_read p e in (uint (w AND 0xff), h\<lparr>cu_wire := e\<rparr>)
         else (-1, h\<lparr>cu_wire := e\<rparr>))"

definition ch32_uart_ops :: "'e usart_wire \<Rightarrow> 'e ch32_uart rt_uart_ops" where
  "ch32_uart_ops p = \<lparr>uo_configure = Some ch32_configure, uo_control = ch32_control, uo_putc = ch32_putc p, uo_getc = ch32_getc p\<rparr>"

type_synonym 'e uart_state = "'e ch32_uart serial_state"

definition uart_isr ::
    "'e usart_wire \<Rightarrow> (nat \<Rightarrow> nat \<Rightarrow> u32 \<Rightarrow> 'e uart_state \<Rightarrow> (int \<times> 'e uart_state) option) \<Rightarrow> nat \<Rightarrow> 'e uart_state \<Rightarrow> 'e uart_state option" where
  "uart_isr p indicate d s =
     (let (set, h) = USART_GetITStatus p USART_IT_RXNE (su_drv (snd s) d);
          s = (fst s, (snd s)\<lparr>su_drv := (su_drv (snd s))(d := h)\<rparr>)
      in if set then do {
           s \<leftarrow> rt_hw_serial_isr (ch32_uart_ops p) indicate d RT_SERIAL_EVENT_RX_IND s;
           Some (fst s, (snd s)\<lparr>su_drv := (su_drv (snd s))(d := USART_ClearITPendingBit p USART_IT_RXNE (su_drv (snd s) d))\<rparr>)
         }
         else Some s)"

definition USART1_IRQHandler ::
    "'e usart_wire \<Rightarrow> (nat \<Rightarrow> nat \<Rightarrow> u32 \<Rightarrow> 'e uart_state \<Rightarrow> (int \<times> 'e uart_state) option) \<Rightarrow> nat \<Rightarrow> 'e uart_state \<Rightarrow> 'e uart_state option" where
  "USART1_IRQHandler p indicate uart1 s = do {
     (k, io) \<leftarrow> uart_isr p indicate uart1 (rt_interrupt_enter (fst s), snd s);
     Some (rt_interrupt_leave k, io)
   }"

text \<open>\<^verbatim>\<open>rt_hw_usart_init\<close>, over the table of the ports: the address of the serial device, its name, and the address of the object.\<close>

definition RT_SERIAL_CONFIG_DEFAULT :: serial_configure where
  "RT_SERIAL_CONFIG_DEFAULT = \<lparr>sc_baud_rate = 115200, sc_data_bits = 8, sc_stop_bits = 0, sc_parity = 0, sc_bit_order = 0, sc_invert = 0,
     sc_bufsz = 64\<rparr>"

primrec rt_hw_usart_init :: "(nat \<times> u8 list \<times> nat) list \<Rightarrow> int \<Rightarrow> 'h serial_state \<Rightarrow> (int \<times> 'h serial_state) option" where
  "rt_hw_usart_init [] result s = Some (result, s)"
| "rt_hw_usart_init (u # us) result s = (case u of (d, name, obj) \<Rightarrow> do {
     io \<leftarrow> Some ((snd s)\<lparr>su_ports := (su_ports (snd s))(d \<mapsto>
        (storage \<lparr>ss_config = RT_SERIAL_CONFIG_DEFAULT, ss_rx = None, ss_tx = None\<rparr> (su_ports (snd s) d))\<lparr>ss_config := RT_SERIAL_CONFIG_DEFAULT\<rparr>)\<rparr>);
     (result, k) \<leftarrow> rt_hw_serial_register d name (ucast (RT_DEVICE_FLAG_RDWR OR RT_DEVICE_FLAG_INT_RX)) obj (fst s);
     rt_assert (result = RT_EOK);
     rt_hw_usart_init us result (k, io)
   })"

section \<open>The console (kservice.c)\<close>

text \<open>The variable \<^verbatim>\<open>_console_device\<close> is an argument and a result; the weak \<^verbatim>\<open>rt_hw_console_output\<close> is empty.\<close>

definition rt_console_get_device :: "nat option \<Rightarrow> nat option" where
  "rt_console_get_device console = console"

definition rt_console_set_device ::
    "('h, 'c) driver_fns \<Rightarrow> u8 list \<Rightarrow> nat option \<Rightarrow> kernel \<times> 'h \<Rightarrow> (nat option \<times> nat option \<times> kernel \<times> 'h) option" where
  "rt_console_set_device fns name console s = do {
     (new_device, k) \<leftarrow> rt_device_find name (fst s);
     if new_device = console then Some (None, console, k, snd s)
     else case new_device of
       None \<Rightarrow> Some (console, console, k, snd s)
     | Some d \<Rightarrow> do {
         s \<leftarrow> (case console of None \<Rightarrow> Some (k, snd s) | Some old \<Rightarrow> map_option snd (rt_device_close fns old (k, snd s)));
         (_, s) \<leftarrow> rt_device_open fns d (RT_DEVICE_FLAG_RDWR OR RT_DEVICE_FLAG_STREAM) s;
         Some (console, Some d, s)
       }
   }"

definition rt_hw_console_output :: "nat \<Rightarrow> 'h serial_state \<Rightarrow> 'h serial_state" where
  "rt_hw_console_output str s = s"

text \<open>Both return nothing; a write that has to wait gives what is left of it.\<close>

definition console_result :: "(u32, serial_wait) outcome \<Rightarrow> (unit, serial_wait) outcome" where
  "console_result r = (case r of Done _ \<Rightarrow> Done () | Wait w \<Rightarrow> Wait w)"

definition console_write :: "'h rt_uart_ops \<Rightarrow> nat option \<Rightarrow> nat \<Rightarrow> nat \<Rightarrow> 'h serial_state \<Rightarrow>
    ((unit, serial_wait) outcome \<times> 'h serial_state) option" where
  "console_write ops console str len s =
     (case console of
        None \<Rightarrow> Some (Done (), rt_hw_console_output str s)
      | Some d \<Rightarrow> map_option (map_prod console_result id) (rt_device_write (serial_fns ops) d 0 str (of_nat len) s))"

definition rt_kputs :: "'h rt_uart_ops \<Rightarrow> nat option \<Rightarrow> nat option \<Rightarrow> 'h serial_state \<Rightarrow>
    ((unit, serial_wait) outcome \<times> 'h serial_state) option" where
  "rt_kputs ops console str s =
     (case str of
        None \<Rightarrow> Some (Done (), s)
      | Some a \<Rightarrow>
          (case console of
             None \<Rightarrow> console_write ops console a 0 s
           | Some d \<Rightarrow> Option.bind (rt_strlen (su_mem (snd s)) a) (\<lambda>n. console_write ops console a n s)))"

definition console_kprintf :: "'h rt_uart_ops \<Rightarrow> nat option \<Rightarrow> nat \<Rightarrow> u8 list \<Rightarrow> varg list \<Rightarrow> 'h serial_state \<Rightarrow>
    ((unit, serial_wait) outcome \<times> 'h serial_state) option" where
  "console_kprintf ops console log_buf fmt args s = do {
     (len, m) \<leftarrow> rt_vsnprintf log_buf (RT_CONSOLEBUF_SIZE - 1) fmt args (su_mem (snd s));
     let len = unat (of_int len :: u32);
     let len = (if len > RT_CONSOLEBUF_SIZE - 1 then RT_CONSOLEBUF_SIZE - 1 else len);
     console_write ops console log_buf len (fst s, (snd s)\<lparr>su_mem := m\<rparr>)
   }"

section \<open>What the hardware does\<close>

text \<open>
  The peripheral by its manual: as long as its state is good, the receive flag is set exactly while characters wait, which the
  data register then gives in order; the transmission flag is set after finitely many polls, and a character written after
  it was seen set is sent.  \<open>rx\<close> are the characters that come without a gap from now on; \<open>busy\<close> bounds the polls.
\<close>

definition usart_ok :: "'e usart_wire \<Rightarrow> ('e \<Rightarrow> bool) \<Rightarrow> ('e \<Rightarrow> nat) \<Rightarrow> ('e \<Rightarrow> u8 list) \<Rightarrow> ('e \<Rightarrow> u8 list) \<Rightarrow> bool" where
  "usart_ok p good busy rx tx \<longleftrightarrow>
     (\<forall>e st e'. good e \<longrightarrow> uw_status p e = (st, e') \<longrightarrow> good e' \<and> tx e' = tx e \<and> (st AND USART_FLAG_RXNE \<noteq> 0 \<longleftrightarrow> rx e \<noteq> []) \<and>
        (rx e \<noteq> [] \<longrightarrow> rx e' = rx e) \<and>
        (if st AND USART_FLAG_TC = 0 then busy e' < busy e
         else \<forall>c :: u8. good (uw_write p (ucast c) e') \<and> tx (uw_write p (ucast c) e') = tx e @ [c])) \<and>
     (\<forall>e c cs w e'. good e \<longrightarrow> rx e = c # cs \<longrightarrow> uw_read p e = (w, e') \<longrightarrow> good e' \<and> tx e' = tx e \<and> rx e' = cs \<and> w AND 0xff = ucast c) \<and>
     (\<forall>e v. good e \<longrightarrow> good (uw_clear p v e) \<and> tx (uw_clear p v e) = tx e)"

lemma usart_statusD:
  assumes "usart_ok p good busy rx tx" and "good e" and "uw_status p e = (st, e')"
  shows "good e'" "tx e' = tx e" "st AND USART_FLAG_RXNE \<noteq> 0 \<longleftrightarrow> rx e \<noteq> []" "rx e \<noteq> [] \<Longrightarrow> rx e' = rx e"
    "st AND USART_FLAG_TC = 0 \<Longrightarrow> busy e' < busy e"
    "st AND USART_FLAG_TC \<noteq> 0 \<Longrightarrow> good (uw_write p (ucast c) e') \<and> tx (uw_write p (ucast (c :: u8)) e') = tx e @ [c]"
  using assms unfolding usart_ok_def by (blast, blast, blast, blast, metis, metis)

lemma usart_readD:
  assumes "usart_ok p good busy rx tx" and "good e" and "rx e = c # cs" and "uw_read p e = (w, e')"
  shows "good e' \<and> tx e' = tx e \<and> rx e' = cs \<and> w AND 0xff = ucast c"
  using assms unfolding usart_ok_def by blast

lemma usart_clearD:
  assumes "usart_ok p good busy rx tx" and "good e"
  shows "good (uw_clear p v e) \<and> tx (uw_clear p v e) = tx e"
  using assms unfolding usart_ok_def by blast

lemma wait_tc_sends:
  assumes u: "usart_ok p good busy rx tx"
  shows "good e \<Longrightarrow> returns (wait_tc p e) (\<lambda>e'. good (uw_write p (ucast c) e') \<and> tx (uw_write p (ucast (c :: u8)) e') = tx e @ [c])"
proof (induction "busy e" arbitrary: e rule: less_induct)
  case less
  obtain st e' where st: "uw_status p e = (st, e')" by fastforce
  note d = usart_statusD [OF u less.prems st]
  have e: "wait_tc p e = (if st AND USART_FLAG_TC \<noteq> 0 then Some e' else wait_tc p e')"
    by (subst wait_tc.simps) (simp add: USART_GetFlagStatus_def st)
  show ?case
  proof (cases "st AND USART_FLAG_TC = 0")
    case True
    then show ?thesis using less.hyps [OF d(5) [OF True] d(1)] d(2) e by simp
  next
    case False
    then show ?thesis using d(6) [of c] e by simp
  qed
qed

text \<open>The driver keeps the interface of the framework on such hardware.\<close>

definition uart_good :: "'e usart_wire \<Rightarrow> ('e \<Rightarrow> bool) \<Rightarrow> ('e \<Rightarrow> nat) \<Rightarrow> ('e \<Rightarrow> u8 list) \<Rightarrow> ('e \<Rightarrow> u8 list) \<Rightarrow> 'e ch32_uart \<Rightarrow> bool" where
  "uart_good p good busy rx tx h \<longleftrightarrow> usart_ok p good busy rx tx \<and> good (cu_wire h)"

interpretation ch32_uart: uart "ch32_uart_ops p" "uart_good p good busy rx tx" "\<lambda>h. rx (cu_wire h)" "\<lambda>h. tx (cu_wire h)"
  for p :: "'e usart_wire" and good busy rx tx
proof
  fix h h' :: "'e ch32_uart" and r assume h: "uart_good p good busy rx tx h" and g: "uo_getc (ch32_uart_ops p) h = (r, h')"
  then have u: "usart_ok p good busy rx tx" "good (cu_wire h)" by (simp_all add: uart_good_def)
  obtain st e where st: "uw_status p (cu_wire h) = (st, e)" by fastforce
  obtain w e2 where rd: "uw_read p e = (w, e2)" by fastforce
  note d = usart_statusD [OF u st]
  show "uart_good p good busy rx tx h' \<and> tx (cu_wire h') = tx (cu_wire h) \<and>
      (case rx (cu_wire h) of [] \<Rightarrow> r = -1 | c # cs \<Rightarrow> r = uint c \<and> rx (cu_wire h') = cs)"
  proof (cases "rx (cu_wire h)")
    case Nil
    then show ?thesis using g d(1-3) u(1) st
      by (auto simp: ch32_uart_ops_def ch32_getc_def USART_GetFlagStatus_def uart_good_def)
  next
    case (Cons c cs)
    have "rx e = c # cs" using d(4) Cons by simp
    from usart_readD [OF u(1) d(1) this rd] have "good e2 \<and> tx e2 = tx e \<and> rx e2 = cs \<and> w AND 0xff = ucast c" .
    moreover have "uint (ucast c :: u16) = uint c" by (rule uint_up_ucast) (simp add: is_up)
    ultimately show ?thesis using g d(2,3) u(1) st rd Cons
      by (auto simp: ch32_uart_ops_def ch32_getc_def USART_GetFlagStatus_def uart_good_def)
  qed
next
  fix h :: "'e ch32_uart" and c assume "uart_good p good busy rx tx h"
  then show "returns (uo_putc (ch32_uart_ops p) c h)
      (\<lambda>(r, h'). r \<noteq> -1 \<and> uart_good p good busy rx tx h' \<and> tx (cu_wire h') = tx (cu_wire h) @ [c])"
    using wait_tc_sends [of p good busy rx tx "cu_wire h" c] by (auto simp: ch32_uart_ops_def ch32_putc_def uart_good_def returns_def)
qed

section \<open>The console\<close>

text \<open>A registered device, open, that is written to by \<^verbatim>\<open>rt_serial_write\<close>; in interrupt mode it has its transmit buffer.\<close>

definition serial_open :: "nat \<Rightarrow> rt_device \<Rightarrow> kernel \<Rightarrow> 'h serial_io \<Rightarrow> bool" where
  "serial_open d dev k io \<longleftrightarrow> k_devices k d = Some dev \<and> rt_object_get_type (dv_parent dev) = RT_Object_Class_Device \<and>
     dv_ref_count dev \<noteq> 0 \<and> dv_write dev = Some RT_SERIAL_WRITE \<and> dv_read dev = Some RT_SERIAL_READ \<and>
     (\<exists>port. su_ports io d = Some port \<and> (dv_open_flag dev AND RT_DEVICE_FLAG_INT_TX \<noteq> 0 \<longrightarrow> ss_tx port \<noteq> None))"

context uart
begin

lemma serial_write_sends:
  assumes "good (su_drv io d)" and "serial_open d dev k io"
  shows "returns (rt_device_write (serial_fns ops) d pos buffer sz (k, io)) (\<lambda>(r, k', io'). r = Done sz \<and> k' = k \<and>
    sends d (wire_bytes (streaming dev) (buffer_bytes (su_mem io) buffer (unat sz))) io io')"
proof -
  have dev: "get_device d k = Some dev" "k_devices k d = Some dev" using assms(2) by (simp_all add: serial_open_def get_device_def)
  have w: "rt_device_write (serial_fns ops) d pos buffer sz (k, io) = rt_serial_write ops d buffer sz (k, io)"
    using assms(2) dev(1) by (simp add: rt_device_write_def serial_fns_def serial_open_def)
  consider (none) "sz = 0" | (int) "sz \<noteq> 0" "dv_open_flag dev AND RT_DEVICE_FLAG_INT_TX \<noteq> 0"
    | (poll) "sz \<noteq> 0" "dv_open_flag dev AND RT_DEVICE_FLAG_INT_TX = 0" by blast
  then show ?thesis
  proof cases
    case none
    then show ?thesis using dev(2) sends_refl [OF assms(1)] unfolding w by (simp add: rt_serial_write_def)
  next
    case int
    obtain port tx where p: "su_ports io d = Some port" "ss_tx port = Some tx" using assms(2) int(2) by (auto simp: serial_open_def)
    have e: "rt_serial_write ops d buffer sz (k, io) = Option.bind (serial_int_tx ops d tx (unat sz) buffer (unat sz) (k, io)) (\<lambda>(r, s). Some (write_result r, s))"
      using dev(2) int p by (simp add: rt_serial_write_def)
    obtain io' where "serial_int_tx ops d tx (unat sz) buffer (unat sz) (k, io) = Some (Done (unat sz), k, io')"
      "sends d (wire_bytes (streaming dev) (buffer_bytes (su_mem io) buffer (unat sz))) io io'"
      using int_tx_sends [OF assms(1) dev(2), of tx "unat sz" buffer "unat sz"] by (auto simp: returns_def)
    then show ?thesis unfolding w e by (simp add: write_result_def)
  next
    case poll
    have e: "rt_serial_write ops d buffer sz (k, io) = Option.bind (serial_poll_tx ops d (streaming dev) buffer (unat sz) io) (\<lambda>io. Some (Done sz, k, io))"
      using dev(2) poll by (simp add: rt_serial_write_def)
    show ?thesis unfolding w e
      by (rule returns_bindI [OF poll_tx_sends [OF assms(1), of "streaming dev" buffer "unat sz"]]) simp
  qed
qed

end

lemma sends_unfold: "ch32_uart.sends p good busy rx tx d cs io io' \<longleftrightarrow>
    drv_only d io io' \<and> uart_good p good busy rx tx (su_drv io' d) \<and> tx (cu_wire (su_drv io' d)) = tx (cu_wire (su_drv io d)) @ cs"
  by (simp add: ch32_uart.sends_def)

text \<open>
  C10. Console output reaches the wire: on a serial device that is open, \<^verbatim>\<open>rt_kprintf\<close> returns without waiting and the characters the
  peripheral sends are the text of the format in order, with a carriage return before each line feed in stream mode; a text of
  more than 126 characters is cut off there and followed by a 0.  The text is shorter than \<open>2 ^ 31\<close> and, counted from
  the buffer of \<^verbatim>\<open>rt_kprintf\<close>, ends below the end of the address space.
\<close>

theorem console_kprintf_sends:
  assumes "usart_ok p good busy rx tx" and "good (cu_wire (su_drv io d))" and "serial_open d dev k io"
    and "format_text fmt args = Some xs" and "length xs < 2 ^ 31" and "log_buf + length xs < 2 ^ 32" and "log_buf + 128 \<le> 2 ^ 32"
  shows "returns (console_kprintf (ch32_uart_ops p) (Some d) log_buf fmt args (k, io)) (\<lambda>(r, k', io'). r = Done () \<and> k' = k \<and>
    tx (cu_wire (su_drv io' d)) = tx (cu_wire (su_drv io d)) @ 
      wire_bytes (streaming dev) (if length xs \<le> 126 then xs else take 126 xs @ [0]) \<and>
    (\<forall>a. a < log_buf \<or> log_buf + 127 \<le> a \<longrightarrow> su_mem io' a = su_mem io a))"
proof -
  define n where "n = length xs"
  define m where "m = image log_buf 127 xs (su_mem io)"
  define l where "l = min n 127"
  have room: "min 127 (2 ^ 32 - 1 - log_buf) = 127" "log_buf < 2 ^ 32" using assms(7) by simp_all
  have v: "rt_vsnprintf log_buf 127 fmt args (su_mem io) = Some (int n, m)"
    using vsnprintf_image [OF assms(4), of log_buf 127 "su_mem io"] assms(5,6) room by (simp add: m_def n_def)
  have n: "unat (of_int (int n) :: u32) = n" using assms(5) by (simp add: n_def unat_of_nat)
  have bs: "buffer_bytes m log_buf l = (if n \<le> 126 then xs else take 126 xs @ [0])"
    by (rule nth_equalityI) (auto simp: buffer_bytes_def m_def image_def l_def n_def Let_def nth_append min_def split: if_splits)
  let ?io = "io\<lparr>su_mem := m\<rparr>"
  have l: "unat (of_nat l :: u32) = l" by (simp add: l_def unat_of_nat)
  have g: "uart_good p good busy rx tx (su_drv ?io d)" "serial_open d dev k ?io"
    using assms(1-3) by (simp_all add: uart_good_def serial_open_def)
  have e: "console_kprintf (ch32_uart_ops p) (Some d) log_buf fmt args (k, io) =
      map_option (map_prod console_result id) (rt_device_write (serial_fns (ch32_uart_ops p)) d 0 log_buf (of_nat l) (k, ?io))"
    using v n by (simp add: console_kprintf_def console_write_def l_def min_def Let_def)
  obtain io' where w: "rt_device_write (serial_fns (ch32_uart_ops p)) d 0 log_buf (of_nat l) (k, ?io) = Some (Done (of_nat l), k, io')"
    "ch32_uart.sends p good busy rx tx d (wire_bytes (streaming dev) (buffer_bytes m log_buf l)) ?io io'"
    using ch32_uart.serial_write_sends [OF g, of 0 log_buf "of_nat l"] by (auto simp: returns_def l)
  have "su_mem io' = m" using ch32_uart.sends_mem(1) [OF w(2)] by simp
  then show ?thesis
    using w(2) unfolding e w(1) sends_unfold bs n_def [symmetric] by (auto simp: console_result_def m_def image_def Let_def)
qed

section \<open>Receiving\<close>

text \<open>The receive buffer of a port; a port in receive interrupt mode has one.\<close>

definition rx_fifo :: "nat \<Rightarrow> 'h serial_io \<Rightarrow> (u16 \<times> rt_serial_rx_fifo) option" where
  "rx_fifo d io = do {
     port \<leftarrow> su_ports io d;
     p \<leftarrow> ss_rx port;
     f \<leftarrow> su_fifos io p;
     Some (sc_bufsz (ss_config port), f)
   }"

lemma rx_length_count:
  assumes "rx_ok bufsz f"
  shows "rx_length bufsz f = of_nat (length (rx_contents bufsz f))"
proof -
  note o = rx_okD [OF assms]
  have "unat (rf_get_index f) < 65536" "unat (rf_put_index f) < 65536" "unat bufsz < 65536" by (rule unat_u16)+
  then have "unat (rx_length bufsz f) = rx_count bufsz f"
    using o by (auto simp: rx_length_def rx_count_def Let_def unat_minus_eq unat_u16_u32 word_le_nat_alt)
  then have "of_nat (unat (rx_length bufsz f)) = (of_nat (rx_count bufsz f) :: u32)" by simp
  then show ?thesis by (simp add: rx_contents_def)
qed

lemma serial_read_first:
  assumes "serial_open d dev k io" and "dv_open_flag dev AND RT_DEVICE_FLAG_INT_RX \<noteq> 0" and "rx_fifo d io = Some (bufsz, f)" and "rx_ok bufsz f"
  shows "returns (rt_device_read (serial_fns ops) d pos buffer sz (k, io)) (\<lambda>(r, k', io'). k' = k \<and>
    r = Done (of_nat (min (unat sz) (length (rx_contents bufsz f)))) \<and>
    su_mem io' = bytes_at buffer (take (unat sz) (rx_contents bufsz f)) (su_mem io) \<and>
    (\<exists>f'. rx_fifo d io' = Some (bufsz, f') \<and> rx_ok bufsz f' \<and> rx_contents bufsz f' = drop (unat sz) (rx_contents bufsz f)))"
proof -
  have dev: "k_devices k d = Some dev" "get_device d k = Some dev" using assms(1) by (simp_all add: serial_open_def get_device_def)
  have w: "rt_device_read (serial_fns ops) d pos buffer sz (k, io) = rt_serial_read ops d buffer sz (k, io)"
    using assms(1) dev(2) by (simp add: rt_device_read_def serial_fns_def serial_open_def)
  show ?thesis
  proof (cases "sz = 0")
    case True
    then show ?thesis using assms(3,4) dev(1) unfolding w by (simp add: rt_serial_read_def)
  next
    case False
    obtain port p where p: "su_ports io d = Some port" "ss_rx port = Some p" "su_fifos io p = Some f" "bufsz = sc_bufsz (ss_config port)"
      using assms(3) by (auto simp: rx_fifo_def bind_eq_Some_conv)
    obtain n f' m' where r: "rx_read bufsz buffer (unat sz) (f, su_mem io) = Some (n, f', m')" "rx_ok bufsz f'"
      "n = min (unat sz) (length (rx_contents bufsz f))" "m' = bytes_at buffer (take (unat sz) (rx_contents bufsz f)) (su_mem io)"
      "rx_contents bufsz f' = drop (unat sz) (rx_contents bufsz f)"
      using rx_read_first [OF assms(4), of buffer "unat sz" "su_mem io"] by (auto simp: returns_def)
    show ?thesis
      unfolding w using False assms(2) dev(1) p r by (simp add: rt_serial_read_def serial_int_rx_def rx_fifo_def)
  qed
qed

lemma rxne_enabled: "it_mask USART_IT_RXNE = 0x20" "it_register USART_IT_RXNE = 1" "push_bit (unat (drop_bit 8 USART_IT_RXNE)) (1 :: u16) = 0x20"
  by (simp_all add: it_mask_def it_register_def)

text \<open>What the framework does with the receive interrupt after the driver has given its characters.\<close>

lemma serial_isr_indicates:
  fixes tell :: "nat \<Rightarrow> u32 \<Rightarrow> kernel \<Rightarrow> kernel option"
  assumes d: "k_devices k d = Some dev" and f: "rx_fifo d io = Some (bufsz, f)" and r: "isr_receive ops bufsz (f, su_drv io d) = Some (f', h)" "rx_ok bufsz f'"
    and q: "rx_contents bufsz f' = q" "q \<noteq> []" "length q < 65536"
    and tell: "\<forall>i n k. returns (tell i n k) (\<lambda>k'. k_devices k' = k_devices k)"
  obtains k' io' where "rt_hw_serial_isr ops (\<lambda>i d n (k, io). map_option (\<lambda>k. (RT_EOK, k, io)) (tell i n k)) d RT_SERIAL_EVENT_RX_IND (k, io) = Some (k', io')"
    "(case dv_rx_indicate dev of None \<Rightarrow> Some k | Some i \<Rightarrow> tell i (of_nat (length q)) k) = Some k'" "k_devices k' = k_devices k"
    "su_ports io' = su_ports io" "su_mem io' = su_mem io" "su_drv io' = (su_drv io)(d := h)" "rx_fifo d io' = Some (bufsz, f')"
proof -
  obtain port a where port: "su_ports io d = Some port" "ss_rx port = Some a" "su_fifos io a = Some f" "bufsz = sc_bufsz (ss_config port)"
    using f by (auto simp: rx_fifo_def bind_eq_Some_conv)
  let ?io = "io\<lparr>su_fifos := (su_fifos io)(a \<mapsto> f'), su_drv := (su_drv io)(d := h)\<rparr>"
  have n: "rx_length bufsz f' = of_nat (length q)" using rx_length_count [OF r(2)] q(1) by simp
  have n0: "(of_nat (length q) :: u32) \<noteq> 0" using q(2,3) by (simp add: word_unat_eq_iff unat_of_nat)
  obtain k' where k': "(case dv_rx_indicate dev of None \<Rightarrow> Some k | Some i \<Rightarrow> tell i (of_nat (length q)) k) = Some k'" "k_devices k' = k_devices k"
    using tell by (cases "dv_rx_indicate dev") (auto simp: returns_def, metis)
  have "rt_hw_serial_isr ops (\<lambda>i d n (k, io). map_option (\<lambda>k. (RT_EOK, k, io)) (tell i n k)) d RT_SERIAL_EVENT_RX_IND (k, io) = Some (k', ?io)"
    using k'(1) r(1) n0 d port by (cases "dv_rx_indicate dev") (simp_all add: rt_hw_serial_isr_def n [unfolded port(4)])
  then show thesis by (rule that [OF _ k']) (use port in \<open>simp_all add: rx_fifo_def\<close>)
qed

text \<open>
  C11. The receive interrupt of the serial port: with characters waiting, the handler takes them all into the receive buffer of the
  port, where the newest are kept if there are too many, calls the indication of the device once with the number of
  characters there are, and sends nothing; a read then returns the characters in the order in which they came.
\<close>

theorem USART1_IRQHandler_receives:
  assumes hw: "usart_ok p good busy rx tx" "good (cu_wire (su_drv io d))" and on: "cu_CTLR1 (su_drv io d) AND 0x20 \<noteq> 0"
    and dev: "serial_open d dev k io" "dv_open_flag dev AND RT_DEVICE_FLAG_INT_RX \<noteq> 0"
    and f: "rx_fifo d io = Some (bufsz, f)" "rx_ok bufsz f" and cs: "rx (cu_wire (su_drv io d)) \<noteq> []"
    and tell: "\<forall>i n k. returns (tell i n k) (\<lambda>k'. k_devices k' = k_devices k)"
  shows "returns (USART1_IRQHandler p (\<lambda>i d n (k, io). map_option (\<lambda>k. (RT_EOK, k, io)) (tell i n k)) d (k, io)) (\<lambda>(k', io').
    let q = newest (unat bufsz - 1) (rx_contents bufsz f @ rx (cu_wire (su_drv io d))) in
    Some k' = map_option rt_interrupt_leave (case dv_rx_indicate dev of
      None \<Rightarrow> Some (rt_interrupt_enter k) | Some i \<Rightarrow> tell i (of_nat (length q)) (rt_interrupt_enter k)) \<and>
    tx (cu_wire (su_drv io' d)) = tx (cu_wire (su_drv io d)) \<and>
    returns (rt_device_read (serial_fns (ch32_uart_ops p)) d pos buffer sz (k', io')) (\<lambda>(r, k'', io''). r = Done (of_nat (min (unat sz) (length q))) \<and>
      k'' = k' \<and> su_mem io'' = bytes_at buffer (take (unat sz) q) (su_mem io)))"
proof -
  let ?ind = "\<lambda>i d n (k, io). map_option (\<lambda>k. (RT_EOK, k, io)) (tell i n k)" and ?ops = "ch32_uart_ops p" and ?h = "su_drv io d"
  define q where "q = newest (unat bufsz - 1) (rx_contents bufsz f @ rx (cu_wire ?h))"
  obtain st e where st: "uw_status p (cu_wire ?h) = (st, e)" by fastforce
  note hs = usart_statusD [OF hw st]
  let ?h1 = "?h\<lparr>cu_wire := e\<rparr>" and ?io1 = "io\<lparr>su_drv := (su_drv io)(d := ?h\<lparr>cu_wire := e\<rparr>)\<rparr>"
  have it: "USART_GetITStatus p USART_IT_RXNE ?h = (True, ?h1)"
    using hs(3) cs on st by (simp add: USART_GetITStatus_def rxne_enabled and.commute)
  have g1: "uart_good p good busy rx tx ?h1" using hs(1) hw(1) by (simp add: uart_good_def)
  obtain f' h2 where r: "isr_receive ?ops bufsz (f, ?h1) = Some (f', h2)" "rx_ok bufsz f'" "uart_good p good busy rx tx h2"
    "tx (cu_wire h2) = tx (cu_wire ?h)" "rx_contents bufsz f' = q"
    using ch32_uart.isr_receive_stores [OF g1 f(2)] hs(2,4) cs by (auto simp: returns_def q_def)
  have "length q \<noteq> 0" using cs rx_okD(1) [OF f(2)] unfolding q_def length_newest by simp
  then have q: "q \<noteq> []" by simp
  have ql: "length q < 65536" using unat_u16 [of bufsz] by (simp add: q_def)
  have 1: "k_devices (rt_interrupt_enter k) d = Some dev" "rx_fifo d ?io1 = Some (bufsz, f)" "isr_receive ?ops bufsz (f, su_drv ?io1 d) = Some (f', h2)"
    using dev(1) f(1) r(1) by (simp_all add: serial_open_def rt_interrupt_enter_def rx_fifo_def)
  obtain k2 io2 where isr: "rt_hw_serial_isr ?ops ?ind d RT_SERIAL_EVENT_RX_IND (rt_interrupt_enter k, ?io1) = Some (k2, io2)"
    and k2: "(case dv_rx_indicate dev of None \<Rightarrow> Some (rt_interrupt_enter k) | Some i \<Rightarrow> tell i (of_nat (length q)) (rt_interrupt_enter k)) = Some k2"
      "k_devices k2 = k_devices (rt_interrupt_enter k)"
    and io2: "su_ports io2 = su_ports ?io1" "su_mem io2 = su_mem ?io1" "su_drv io2 = (su_drv ?io1)(d := h2)" "rx_fifo d io2 = Some (bufsz, f')"
    by (rule serial_isr_indicates [OF 1 r(2,5) q ql tell])
  define io3 where "io3 = io2\<lparr>su_drv := (su_drv io2)(d := USART_ClearITPendingBit p USART_IT_RXNE h2)\<rparr>"
  have h: "USART1_IRQHandler p ?ind d (k, io) = Some (rt_interrupt_leave k2, io3)"
    unfolding USART1_IRQHandler_def uart_isr_def fst_conv snd_conv it Let_def prod.case if_True isr
    by (simp add: io2 io3_def)
  have tx3: "tx (cu_wire (su_drv io3 d)) = tx (cu_wire ?h)"
    using usart_clearD [OF hw(1)] r(3,4) by (simp add: io3_def USART_ClearITPendingBit_def uart_good_def)
  have o: "serial_open d dev (rt_interrupt_leave k2) io3" "rx_fifo d io3 = Some (bufsz, f')" "su_mem io3 = su_mem io"
    using dev(1) k2(2) io2 by (simp_all add: serial_open_def io3_def rx_fifo_def rt_interrupt_leave_def rt_interrupt_enter_def)
  have rd: "returns (rt_device_read (serial_fns ?ops) d pos buffer sz (rt_interrupt_leave k2, io3)) (\<lambda>(r, k'', io'').
      r = Done (of_nat (min (unat sz) (length q))) \<and> k'' = rt_interrupt_leave k2 \<and> su_mem io'' = bytes_at buffer (take (unat sz) q) (su_mem io))"
    by (rule returns_mono [OF serial_read_first [OF o(1) dev(2) o(2) r(2), of ?ops pos buffer sz]]) (auto simp: r(5) o(3))
  show ?thesis
    unfolding h returns_simps prod.case Let_def q_def [symmetric] k2(1) using tx3 rd by simp
qed

section \<open>The baud rate\<close>

lemma or_low_bits:
  fixes q r :: u32
  assumes "take_bit 4 r = r"
  shows "push_bit 4 q OR r = push_bit 4 q + r"
proof -
  have b: "bit r i \<Longrightarrow> i < 4" for i using assms by (metis bit_take_bit_iff)
  have "push_bit 4 q AND r = 0" by (rule bit_eqI) (auto simp: bit_and_iff bit_push_bit_iff dest: b)
  then show ?thesis by (simp add: disjunctive_add_eq_or)
qed

lemma usart_brr_value:
  assumes "25 * unat clock < 2 ^ 32" and "0 < unat baud" "4 * unat baud < 2 ^ 32"
  defines "d \<equiv> 25 * unat clock div (4 * unat baud)"
  assumes "d div 100 < 4096"
  shows "unat (usart_brr False clock baud) = 16 * (d div 100) + (d mod 100 * 16 + 50) div 100 mod 16"
proof -
  define i where "i = (25 * clock) div (4 * baud)"
  have i: "unat i = d" using assms(1,3) by (simp add: i_def d_def unat_div unat_word_ariths)
  define q where "q = i div 100"
  define r where "r = i - 100 * q"
  have q: "unat q = d div 100" using i by (simp add: q_def unat_div)
  have "r = i mod 100" by (simp add: r_def q_def minus_mult_div_eq_mod)
  then have r: "unat r = d mod 100" using i by (simp add: unat_mod)
  have t: "unat (push_bit 4 q) = 16 * (d div 100)" using q assms(5) by (simp add: push_bit_eq_mult unat_word_ariths)
  have dr: "drop_bit 4 (push_bit 4 q) = q" using t q by (simp add: word_unat_eq_iff drop_bit_eq_div unat_div)
  define f where "f = ((r * 16 + 50) div 100) AND 0x0F"
  have m: "f = take_bit 4 ((r * 16 + 50) div 100)" by (simp add: f_def take_bit_eq_mask mask_eq_exp_minus_1)
  have "d mod 100 < 100" by simp
  then have "unat (r * 16 + 50) = d mod 100 * 16 + 50" using r by (simp add: unat_word_ariths)
  then have "unat ((r * 16 + 50) div 100) = (d mod 100 * 16 + 50) div 100" by (simp add: unat_div)
  then have f: "unat f = (d mod 100 * 16 + 50) div 100 mod 16" by (simp add: m take_bit_eq_mod unat_mod)
  have "push_bit 4 q OR f = push_bit 4 q + f" by (rule or_low_bits) (simp add: m)
  moreover have "unat (push_bit 4 q + f) = 16 * (d div 100) + (d mod 100 * 16 + 50) div 100 mod 16"
    using t f assms(5) by (simp add: unat_word_ariths)
  moreover have "usart_brr False clock baud = ucast (push_bit 4 q OR f)"
    unfolding usart_brr_def Let_def if_False by (simp only: i_def [symmetric] q_def [symmetric] dr r_def [symmetric] f_def)
  moreover have "unat (ucast w :: u16) = unat w" if "unat w < 65536" for w :: u32
    using that by (simp add: unsigned_ucast_eq take_bit_nat_eq_self_iff)
  ultimately show ?thesis using assms(5) by simp
qed

lemma usart_baud_rate:
  assumes "25 * unat clock < 2 ^ 32" and "0 < unat baud" "4 * unat baud < 2 ^ 32"
    and "25 * unat clock div (4 * unat baud) < 409600"
  shows "let d = 25 * unat clock div (4 * unat baud); b = unat (usart_brr False clock baud) in
    if d mod 100 < 97 then 16 * d \<le> 100 * b + 50 \<and> 100 * b \<le> 16 * d + 50
    else b = 16 * (d div 100) \<and> 100 * b + 1552 \<le> 16 * d"
proof -
  define d where "d = 25 * unat clock div (4 * unat baud)"
  have "d div 100 < 4096" using assms(4) by (simp add: d_def)
  from usart_brr_value [OF assms(1-3) this [unfolded d_def]]
  have b: "unat (usart_brr False clock baud) = 16 * (d div 100) + (d mod 100 * 16 + 50) div 100 mod 16" by (simp add: d_def)
  have f: "d mod 100 < 100" "d = 100 * (d div 100) + d mod 100" by simp_all
  define f where "f = d mod 100"
  define q where "q = d div 100"
  have f': "f < 100" "d = 100 * q + f" using f by (simp_all add: f_def q_def)
  show ?thesis
    unfolding d_def [symmetric] Let_def b f_def [symmetric] q_def [symmetric]
  proof (cases "f < 97")
    case True
    then have "(f * 16 + 50) div 100 < 16" by simp
    then show "if f < 97 then 16 * d \<le> 100 * (16 * q + (f * 16 + 50) div 100 mod 16) + 50 \<and>
        100 * (16 * q + (f * 16 + 50) div 100 mod 16) \<le> 16 * d + 50
      else 16 * q + (f * 16 + 50) div 100 mod 16 = 16 * q \<and> 100 * (16 * q + (f * 16 + 50) div 100 mod 16) + 1552 \<le> 16 * d"
      using True f'(2) by simp linarith
  next
    case False
    then have "(f * 16 + 50) div 100 = 16" using f'(1) by simp
    then show "if f < 97 then 16 * d \<le> 100 * (16 * q + (f * 16 + 50) div 100 mod 16) + 50 \<and>
        100 * (16 * q + (f * 16 + 50) div 100 mod 16) \<le> 16 * d + 50
      else 16 * q + (f * 16 + 50) div 100 mod 16 = 16 * q \<and> 100 * (16 * q + (f * 16 + 50) div 100 mod 16) + 1552 \<le> 16 * d"
      using False f'(2) by simp
  qed
qed

text \<open>Against the true ratio of clock and rate, which the code first cuts to hundredths of the divider.\<close>

lemma baud_ratio:
  fixes P B b d :: nat
  assumes "0 < B" and d: "d = 25 * P div (4 * B)"
  shows "100 * b \<le> 16 * d + 50 \<Longrightarrow> 2 * b * B \<le> 2 * P + B" "16 * d \<le> 100 * b + 50 \<Longrightarrow> 100 * P < (100 * b + 66) * B"
    "100 * b + 1552 \<le> 16 * d \<Longrightarrow> (100 * b + 1552) * B \<le> 100 * P"
proof -
  have d1: "4 * B * d \<le> 25 * P" "25 * P < 4 * B * (d + 1)"
    using assms(1) unfolding d by (simp_all add: dividend_less_times_div)
  show "2 * b * B \<le> 2 * P + B" if "100 * b \<le> 16 * d + 50"
    using mult_le_mono2 [OF that, of B] d1(1) by (simp add: algebra_simps)
  show "100 * P < (100 * b + 66) * B" if "16 * d \<le> 100 * b + 50"
    using mult_le_mono2 [OF that, of B] d1(2) by (simp add: algebra_simps)
  show "(100 * b + 1552) * B \<le> 100 * P" if "100 * b + 1552 \<le> 16 * d"
    using mult_le_mono2 [OF that, of B] d1(1) by (simp add: algebra_simps)
qed

text \<open>
  C13. Configuring the port for a baud rate enables it and sets the baud register, which counts sixteenths of the divider, close to
  the clock over the rate.  The code cuts the divider to hundredths, \<open>d\<close>, and rounds these to the nearest sixteenth; so against the true ratio the
  register is at most one half too large, and less than 66 hundredths too small.  When the fraction is 97 hundredths or more, the
  carry into the next integer is lost, and the register is 15.52 or more too small, almost one in the divider.
\<close>

theorem ch32_configure_baud:
  assumes "cu_Instance h = 1" and "cu_CTLR1 h AND CTLR1_OVER8_Set = 0"
    and "25 * unat (cu_PCLK2 h) < 2 ^ 32" and "0 < unat (sc_baud_rate cfg)" "4 * unat (sc_baud_rate cfg) < 2 ^ 32"
    and "25 * unat (cu_PCLK2 h) div (4 * unat (sc_baud_rate cfg)) < 409600"
  shows "case ch32_configure cfg h of (r, h') \<Rightarrow> r = RT_EOK \<and> cu_CTLR1 h' AND CTLR1_UE_Set \<noteq> 0 \<and>
    (let P = unat (cu_PCLK2 h); B = unat (sc_baud_rate cfg); d = 25 * P div (4 * B); b = unat (cu_BRR h') in
      if d mod 100 < 97 then 16 * d \<le> 100 * b + 50 \<and> 100 * b \<le> 16 * d + 50 \<and> 2 * b * B \<le> 2 * P + B \<and> 100 * P < (100 * b + 66) * B
      else b = 16 * (d div 100) \<and> (100 * b + 1552) * B \<le> 100 * P)"
proof -
  define i where "i = (cu_Init h)\<lparr>USART_BaudRate := sc_baud_rate cfg, USART_HardwareFlowControl := USART_HardwareFlowControl_None,
     USART_Mode := USART_Mode_Rx OR USART_Mode_Tx,
     USART_WordLength := (if sc_data_bits cfg = 9 then USART_WordLength_9b else USART_WordLength_8b),
     USART_StopBits := (if sc_stop_bits cfg = 1 then USART_StopBits_2 else USART_StopBits_1),
     USART_Parity := (if sc_parity cfg = 1 then USART_Parity_Odd else if sc_parity cfg = 2 then USART_Parity_Even else USART_Parity_No)\<rparr>"
  have c: "ch32_configure cfg h = (RT_EOK, USART_Cmd True (USART_Init i (h\<lparr>cu_Init := i\<rparr>)))"
    unfolding ch32_configure_def i_def [symmetric] Let_def using assms(1) by simp
  have o: "cu_CTLR1 (USART_Init i h') AND CTLR1_OVER8_Set = cu_CTLR1 h' AND CTLR1_OVER8_Set" for h' :: "'e ch32_uart"
  proof -
    have "USART_WordLength i AND CTLR1_OVER8_Set = 0" "USART_Parity i AND CTLR1_OVER8_Set = 0" "USART_Mode i AND CTLR1_OVER8_Set = 0"
      by (simp_all add: i_def)
    then show ?thesis by (simp add: USART_Init_def Let_def bit.conj_disj_distrib2 and.assoc)
  qed
  have brr: "cu_BRR (USART_Cmd True (USART_Init i (h\<lparr>cu_Init := i\<rparr>))) = usart_brr False (cu_PCLK2 h) (sc_baud_rate cfg)"
    using o [of "h\<lparr>cu_Init := i\<rparr>"] assms(1,2) by (simp add: USART_Cmd_def USART_Init_def Let_def) (simp add: i_def)
  have "(w OR CTLR1_UE_Set) AND CTLR1_UE_Set \<noteq> 0" for w :: u16 by (simp add: or_and_self)
  then show ?thesis
    using usart_baud_rate [OF assms(3-6)]
      baud_ratio [where P = "unat (cu_PCLK2 h)" and b = "unat (usart_brr False (cu_PCLK2 h) (sc_baud_rate cfg))", OF assms(4) refl]
    unfolding c prod.case brr Let_def by (simp add: USART_Cmd_def split del: if_split) (metis (no_types, lifting))
qed

section \<open>The promises on a sample port\<close>

text \<open>A line that needs three polls for each character, with what was sent and what arrives.\<close>

type_synonym sample_line = "nat \<times> u8 list \<times> u8 list"

definition sample_wire :: "sample_line usart_wire" where
  "sample_wire = \<lparr>uw_status = (\<lambda>(b, s, r). ((if r = [] then 0 else USART_FLAG_RXNE) OR (if b = 0 then USART_FLAG_TC else 0), (b - 1, s, r))),
     uw_clear = (\<lambda>v e. e), uw_read = (\<lambda>(b, s, r). case r of [] \<Rightarrow> (0, (b, s, r)) | c # cs \<Rightarrow> (ucast c, (b, s, cs))),
     uw_write = (\<lambda>w (b, s, r). (3, s @ [ucast w], r))\<rparr>"

abbreviation line_busy :: "sample_line \<Rightarrow> nat" where "line_busy \<equiv> \<lambda>(b, s, r). b"
abbreviation line_sent :: "sample_line \<Rightarrow> u8 list" where "line_sent \<equiv> \<lambda>(b, s, r). s"
abbreviation line_arriving :: "sample_line \<Rightarrow> u8 list" where "line_arriving \<equiv> \<lambda>(b, s, r). r"

lemma ucast_u8_u16: "ucast (ucast (c :: u8) :: u16) = c" "(ucast c :: u16) AND 0xff = ucast c"
proof -
  have m: "(0xff :: u16) = mask 8" by (simp add: mask_eq_exp_minus_1)
  show "ucast (ucast c :: u16) = c" by (rule bit_word_eqI) (auto simp: bit_simps)
  show "(ucast c :: u16) AND 0xff = ucast c" unfolding m by (rule bit_word_eqI) (auto simp: bit_simps dest: bit_imp_le_length)
qed

lemma sample_wire_ok: "usart_ok sample_wire (\<lambda>_. True) line_busy line_arriving line_sent"
  unfolding usart_ok_def sample_wire_def
  by (auto simp: ucast_u8_u16 bit.conj_disj_distrib2 split: if_splits list.splits)

definition sample_uart :: "u8 list \<Rightarrow> sample_line ch32_uart" where
  "sample_uart arriving = \<lparr>cu_Instance = 1, cu_Init = \<lparr>USART_BaudRate = 0, USART_WordLength = 0, USART_StopBits = 0, USART_Parity = 0, USART_Mode = 0,
     USART_HardwareFlowControl = 0\<rparr>, cu_CTLR1 = 0x202C, cu_CTLR2 = 0, cu_CTLR3 = 0, cu_BRR = 0, cu_PCLK1 = 96000000, cu_PCLK2 = 96000000,
     cu_irq = True, cu_wire = (2, [], arriving)\<rparr>"

theorem ch32_configure_baud_witness: "cu_BRR (snd (ch32_configure RT_SERIAL_CONFIG_DEFAULT (sample_uart []))) \<in> {833, 834}"
proof -
  have "unat (cu_BRR (snd (ch32_configure RT_SERIAL_CONFIG_DEFAULT (sample_uart [])))) \<in> {833, 834}"
    using ch32_configure_baud [of "sample_uart []" RT_SERIAL_CONFIG_DEFAULT] by (auto simp: sample_uart_def RT_SERIAL_CONFIG_DEFAULT_def Let_def)
  then show ?thesis by (auto simp: word_unat_eq_iff)
qed

definition sample_serial :: rt_device where
  "sample_serial = zero_device\<lparr>dv_parent := sample_object (RT_Object_Class_Device OR RT_Object_Class_Static) 0, dv_ref_count := 1,
     dv_open_flag := 0x14B, dv_read := Some RT_SERIAL_READ, dv_write := Some RT_SERIAL_WRITE, dv_rx_indicate := Some 7\<rparr>"

definition sample_io :: "u8 list \<Rightarrow> sample_line ch32_uart serial_io" where
  "sample_io arriving = \<lparr>su_mem = (\<lambda>_. 0), su_ports = [800 \<mapsto> \<lparr>ss_config = RT_SERIAL_CONFIG_DEFAULT\<lparr>sc_bufsz := 4\<rparr>, ss_rx = Some 900, ss_tx = None\<rparr>],
     su_fifos = [900 \<mapsto> sample_fifo], su_configs = Map.empty, su_drv = (\<lambda>_. sample_uart arriving)\<rparr>"

abbreviation serial_kernel :: kernel where "serial_kernel \<equiv> sample_kernel\<lparr>k_devices := [800 \<mapsto> sample_serial]\<rparr>"

lemma sample_serial_open: "serial_open 800 sample_serial serial_kernel (sample_io cs)"
  by (simp add: serial_open_def sample_serial_def sample_io_def sample_object_def rt_object_get_type_def zero_device_def)

theorem console_kprintf_sends_witness:
  "\<exists>io'. console_kprintf (ch32_uart_ops sample_wire) (Some 800) 0x20000000 [104, LF] [] (serial_kernel, sample_io []) = Some (Done (), serial_kernel, io') \<and>
    line_sent (cu_wire (su_drv io' 800)) = [104, CR, LF]"
proof -
  have v: "format_text [104, LF] [] = Some [104, LF]" by simp
  have s: "streaming sample_serial" by (simp add: sample_serial_def)
  show ?thesis
    using console_kprintf_sends [OF sample_wire_ok TrueI sample_serial_open [of "[]"] v, where log_buf = "0x20000000"] s
    by (auto simp: returns_def sample_io_def sample_uart_def)
qed

text \<open>Five characters arrive at a port with a buffer of four; the indication number 7 does nothing.\<close>

theorem USART1_IRQHandler_receives_witness:
  "\<exists>k' io' k'' io''. USART1_IRQHandler sample_wire (\<lambda>i d n (k, io). map_option (\<lambda>k. (RT_EOK, k, io)) (Some k)) 800 (serial_kernel, sample_io [1, 2, 3, 4, 5]) =
      Some (k', io') \<and>
    rt_device_read (serial_fns (ch32_uart_ops sample_wire)) 800 0 100 2 (k', io') = Some (Done 2, k'', io'') \<and>
    su_mem io'' 100 = 3 \<and> su_mem io'' 101 = 4"
proof -
  let ?io = "sample_io [1, 2, 3, 4, 5]"
  have h: "cu_CTLR1 (su_drv ?io 800) AND 0x20 \<noteq> 0" "dv_open_flag sample_serial AND RT_DEVICE_FLAG_INT_RX \<noteq> 0"
    "line_arriving (cu_wire (su_drv ?io 800)) = [1, 2, 3, 4, 5]"
    by (simp_all add: sample_io_def sample_uart_def sample_serial_def)
  have f: "rx_fifo 800 ?io = Some (4, sample_fifo)" "rx_ok 4 sample_fifo" "rx_contents 4 sample_fifo = []"
    by (simp_all add: rx_fifo_def sample_io_def rx_ok_def sample_fifo_def rx_contents_def rx_count_def)
  have c: "line_arriving (cu_wire (su_drv ?io 800)) \<noteq> []" using h(3) by simp
  have t: "\<forall>i n k. returns ((\<lambda>i n k. Some k) i n k) (\<lambda>k'. k_devices k' = k_devices k)" by simp
  have q: "newest (unat (4 :: u16) - 1) (rx_contents 4 sample_fifo @ line_arriving (cu_wire (su_drv ?io 800))) = [3, 4, 5]"
    unfolding f(3) h(3) by (simp add: newest_def)
  note r = USART1_IRQHandler_receives [OF sample_wire_ok TrueI h(1) sample_serial_open h(2) f(1,2) c t, where buffer = 100 and sz = 2 and pos = 0]
  show ?thesis
    using r unfolding Let_def q by (auto simp: returns_def bytes_at_def)
qed

end
