(* ===== verification/BootSerial.thy ===== *)
theory BootSerial
  imports Startup SerialBoard
begin

text \<open>
  The initialisers of the serial port and of the console in the start of the system: they keep what the start asks of an
  initialiser of the board, and with them the start reaches the main thread with the console on the port.
\<close>

section \<open>The initialisers\<close>

text \<open>
  Both on the kernel alone, from a state \<open>io\<close> of the ports; what \<^verbatim>\<open>rt_hw_usart_init\<close> does to that state does not depend on
  the kernel.
\<close>

definition usart_ports :: "(nat \<times> u8 list \<times> nat) list \<Rightarrow> 'h serial_io \<Rightarrow> 'h serial_io" where
  "usart_ports us io = fold (\<lambda>(d, name, obj) io. io\<lparr>su_ports := (su_ports io)(d \<mapsto>
     (storage \<lparr>ss_config = RT_SERIAL_CONFIG_DEFAULT, ss_rx = None, ss_tx = None\<rparr> (su_ports io d))\<lparr>ss_config := RT_SERIAL_CONFIG_DEFAULT\<rparr>)\<rparr>) us io"

definition usart_kernel :: "(nat \<times> u8 list \<times> nat) list \<Rightarrow> 'h serial_io \<Rightarrow> initialiser" where
  "usart_kernel us io k = do {
     (result, k, _) \<leftarrow> rt_hw_usart_init us 0 (k, io);
     Some (result, k)
   }"

definition console_kernel :: "'h rt_uart_ops \<Rightarrow> u8 list \<Rightarrow> 'h serial_io \<Rightarrow> initialiser" where
  "console_kernel ops name io k = do {
     (_, _, k, _) \<leftarrow> rt_console_set_device (serial_fns ops) name None (k, io);
     Some (0, k)
   }"

lemma usart_init_ports: "rt_hw_usart_init us r (k, io) = Some (r', k', io') \<Longrightarrow> io' = usart_ports us io"
  by (induction us arbitrary: r k io) (auto simp: usart_ports_def bind_eq_Some_conv split: prod.splits if_splits)

section \<open>What they keep\<close>

lemma usart_init_boot:
  "rt_hw_usart_init us r (k, io) = Some (r', k', io') \<Longrightarrow> boot_inv bs k \<Longrightarrow>
    boot_inv bs k' \<and> k_threads k' = k_threads k \<and> k_current k' = k_current k \<and> k_heap k' = k_heap k"
proof (induction us arbitrary: r k io)
  case (Cons u us)
  obtain d name obj where u: "u = (d, name, obj)" by (cases u)
  obtain io1 q k1 where 1: "rt_hw_serial_register d name (ucast (RT_DEVICE_FLAG_RDWR OR RT_DEVICE_FLAG_INT_RX)) obj k = Some (q, k1)"
    "rt_hw_usart_init us q (k1, io1) = Some (r', k', io')"
    using Cons.prems(1) by (auto simp: u bind_eq_Some_conv split: if_splits)
  obtain D where s: "serial_device_setup d obj k = k\<lparr>k_devices := D\<rparr>" by (simp add: serial_device_setup_def)
  have "boot_inv bs (k\<lparr>k_devices := D\<rparr>)" by (rule boot_devices [OF Cons.prems(2)])
  note reg = device_register_boot [OF this 1(1) [unfolded rt_hw_serial_register_def s]]
  show ?case using Cons.IH [OF 1(2) reg(1)] reg by simp
qed simp

lemma usart_ok: "board_ok idle 0 (usart_kernel us io)"
  unfolding board_ok_def usart_kernel_def boot_from_def empty_kernel_def
  by (fastforce simp: bind_eq_Some_conv dest: usart_init_boot)

text \<open>Opening a device for the console changes the devices only.\<close>

definition devices_only :: "kernel \<Rightarrow> kernel \<Rightarrow> bool" where
  "devices_only k k' \<longleftrightarrow> (\<exists>D. k' = k\<lparr>k_devices := D\<rparr>)"

lemma devices_only_refl [simp]: "devices_only k k"
  unfolding devices_only_def by (rule exI [of _ "k_devices k"]) simp

lemma devices_only_trans: "devices_only k k1 \<Longrightarrow> devices_only k1 k2 \<Longrightarrow> devices_only k k2"
  by (auto simp: devices_only_def)

lemma mod_device_only: "mod_device d f k = Some k' \<Longrightarrow> devices_only k k'"
  by (auto simp: mod_device_def devices_only_def bind_eq_Some_conv)

lemma open_no_interrupt:
  assumes "oflag AND RT_DEVICE_FLAG_INT_RX = 0" "oflag AND RT_DEVICE_FLAG_INT_TX = 0"
    and "rt_serial_open ops d oflag (k, io) = Some (r, k', io')"
  shows "devices_only k k'"
proof -
  have "serial_open_rx ops d oflag s = Some s' \<Longrightarrow> s' = s" "serial_open_tx ops d oflag s = Some s' \<Longrightarrow> s' = s" for s s'
    using assms(1,2) by (auto simp: serial_open_rx_def serial_open_tx_def bind_eq_Some_conv split: option.splits)
  note same = this
  obtain dev where dev: "k_devices k d = Some dev" using assms(3) by (auto simp: rt_serial_open_def bind_eq_Some_conv)
  show ?thesis
  proof (cases "unsupported (dv_flag dev) oflag")
    case True
    then show ?thesis using assms(3) dev by (simp add: rt_serial_open_def)
  next
    case False
    then obtain f k1 s1 s2 g where "mod_device d f k = Some k1" "serial_open_rx ops d oflag (k1, io) = Some s1"
      "serial_open_tx ops d oflag s1 = Some s2" "mod_device d g (fst s2) = Some k'"
      using assms(3) dev by (auto simp only: rt_serial_open_def bind_eq_Some_conv fst_conv snd_conv if_False option.inject prod.inject)
    moreover from this have "s2 = (k1, io)" using same by metis
    ultimately show ?thesis using mod_device_only devices_only_trans by (metis fst_conv)
  qed
qed

lemma serial_init_only: "rt_serial_init ops d (k, io) = Some (r, k', io') \<Longrightarrow> k' = k"
  by (cases "uo_configure ops") (auto simp: rt_serial_init_def bind_eq_Some_conv serial_configure_port_def Let_def split: prod.splits)

lemma device_open_only:
  assumes f: "oflag AND RT_DEVICE_FLAG_INT_RX = 0" "oflag AND RT_DEVICE_FLAG_INT_TX = 0"
    and r: "rt_device_open (serial_fns ops) d oflag (k, io) = Some (r, k', io')"
  shows "devices_only k k'"
proof -
  have cnt: "open_count d r (k1, io1) = Some (r2, k2, io2) \<Longrightarrow> devices_only k1 k2" for r r2 k1 k2 and io1 io2 :: "'a serial_io"
    by (auto simp: open_count_def bind_eq_Some_conv split: if_splits dest!: mod_device_only)
  obtain dev r1 k1 io1 where 1: "get_device d k = Some dev" "open_activate (serial_fns ops) d dev (k, io) = Some (r1, k1, io1)"
    using r by (auto simp: rt_device_open_def bind_eq_Some_conv)
  have k1: "devices_only k k1"
    using 1(2) by (auto simp: open_activate_def serial_fns_def bind_eq_Some_conv split: if_splits option.splits dest!: serial_init_only mod_device_only)
  show ?thesis
  proof (cases "r1 = RT_EOK")
    case False
    then show ?thesis using r 1 k1 by (simp add: rt_device_open_def)
  next
    case True
    obtain dev1 where d1: "k_devices k1 d = Some dev1" using r 1 True by (auto simp: rt_device_open_def bind_eq_Some_conv)
    show ?thesis
    proof (cases "standalone dev1 \<and> marked_open dev1")
      case True
      then show ?thesis using r 1 \<open>r1 = RT_EOK\<close> d1 k1 by (simp add: rt_device_open_def)
    next
      case False
      obtain r2 k2 io2 where 2: "(case dv_open dev1 of Some f \<Rightarrow> fn_open (serial_fns ops) f d oflag (k1, io1)
          | None \<Rightarrow> Option.bind (mod_device d (\<lambda>dev. dev\<lparr>dv_open_flag := oflag AND RT_DEVICE_OFLAG_MASK\<rparr>) k1) (\<lambda>k. Some (RT_EOK, k, io1))) =
          Some (r2, k2, io2)" "open_count d r2 (k2, io2) = Some (r, k', io')"
        using r 1 \<open>r1 = RT_EOK\<close> d1 False by (auto simp: rt_device_open_def bind_eq_Some_conv simp del: not_None_eq)
      have "devices_only k1 k2"
      proof (cases "dv_open dev1")
        case None
        then show ?thesis using 2(1) by (auto simp: bind_eq_Some_conv dest: mod_device_only)
      next
        case (Some f)
        then show ?thesis using 2(1) open_no_interrupt [OF assms(1,2)] by (auto simp: serial_fns_def split: if_splits)
      qed
      then show ?thesis using k1 cnt [OF 2(2)] devices_only_trans by blast
    qed
  qed
qed

lemma console_flags: "(RT_DEVICE_FLAG_RDWR OR RT_DEVICE_FLAG_STREAM) AND RT_DEVICE_FLAG_INT_RX = 0"
    "(RT_DEVICE_FLAG_RDWR OR RT_DEVICE_FLAG_STREAM) AND RT_DEVICE_FLAG_INT_TX = 0"
  by simp_all

lemma console_ok: "board_ok idle 0 (console_kernel ops name io)"
  unfolding board_ok_def
proof (intro allI impI)
  fix bs k r k' assume i: "boot_inv bs k" "empty_kernel idle k" "console_kernel ops name io k = Some (r, k')"
  note b = boot_invD [OF i(1)]
  have x: "\<And>c. k_current k = Some c \<Longrightarrow> c \<notin> {}" by simp
  have "\<exists>q. rt_device_find name k = Some (q, k)"
    using b(6) calm_critical [OF b(1,2) x] device_information by (auto simp: rt_device_find_def rt_object_find_def)
  then have "devices_only k k'"
    using i(3) device_open_only [OF console_flags]
    by (auto simp: console_kernel_def rt_console_set_device_def bind_eq_Some_conv split: if_splits option.splits)
  then obtain D where "k' = k\<lparr>k_devices := D\<rparr>" by (auto simp: devices_only_def)
  then show "boot_from 0 bs k' \<and> empty_kernel idle k'"
    using boot_devices [OF i(1)] i(2) by (auto simp: boot_from_def empty_kernel_def intro!: exI [of _ bs] spends_zero)
qed

section \<open>The start with the console\<close>

text \<open>The console opens a registered serial port.\<close>

definition fresh_serial :: "nat \<Rightarrow> u8 list \<Rightarrow> rt_device \<Rightarrow> bool" where
  "fresh_serial obj name dev \<longleftrightarrow> dv_init dev = Some RT_SERIAL_INIT \<and> dv_open dev = Some RT_SERIAL_OPEN \<and> dv_read dev = Some RT_SERIAL_READ \<and>
     dv_write dev = Some RT_SERIAL_WRITE \<and> dv_flag dev = RT_DEVICE_FLAG_RDWR OR RT_DEVICE_FLAG_INT_RX \<and> dv_ref_count dev = 0 \<and>
     dv_open_flag dev = 0 \<and> ob_name (dv_parent dev) = rt_strncpy RT_NAME_MAX name \<and>
     rt_object_get_type (dv_parent dev) = RT_Object_Class_Device"

lemma console_opens:
  assumes d: "k_devices k d = Some dev" "fresh_serial obj name dev" and p: "su_ports io d = Some port"
    and c: "uo_configure ops = Some f" "\<And>cfg h. fst (f cfg h) = RT_EOK"
  obtains dev' k' io' where "rt_device_open (serial_fns ops) d (RT_DEVICE_FLAG_RDWR OR RT_DEVICE_FLAG_STREAM) (k, io) = Some (RT_EOK, k', io')"
    "serial_open d dev' k' io'" "streaming dev'" "k' = k\<lparr>k_devices := (k_devices k)(d \<mapsto> dev')\<rparr>" "dv_parent dev' = dv_parent dev" "dv_type dev' = dv_type dev"
proof -
  note n = d(2) [unfolded fresh_serial_def]
  define dev1 where "dev1 = dev\<lparr>dv_flag := dv_flag dev OR RT_DEVICE_FLAG_ACTIVATED\<rparr>"
  define k1 where "k1 = k\<lparr>k_devices := (k_devices k)(d \<mapsto> dev1)\<rparr>"
  obtain h where h: "f (ss_config port) (su_drv io d) = (RT_EOK, h)" using c(2) [of "ss_config port" "su_drv io d"] by (metis prod.collapse)
  define io1 where "io1 = io\<lparr>su_ports := (su_ports io)(d \<mapsto> port\<lparr>ss_rx := None, ss_tx := None\<rparr>), su_drv := (su_drv io)(d := h)\<rparr>"
  have init: "rt_serial_init ops d (k, io) = Some (RT_EOK, k, io1)"
    using p c(1) h by (simp add: rt_serial_init_def mod_port_def serial_configure_port_def io1_def)
  have act: "open_activate (serial_fns ops) d dev (k, io) = Some (RT_EOK, k1, io1)"
    using n init d(1) by (simp add: open_activate_def serial_fns_def mod_device_def k1_def dev1_def)
  define dev2 where "dev2 = dev1\<lparr>dv_open_flag := 0x43\<rparr>"
  define k2 where "k2 = k1\<lparr>k_devices := (k_devices k1)(d \<mapsto> dev2)\<rparr>"
  have d1: "k_devices k1 d = Some dev1" by (simp add: k1_def)
  have p1: "su_ports io1 d = Some (port\<lparr>ss_rx := None, ss_tx := None\<rparr>)" by (simp add: io1_def)
  have op: "rt_serial_open ops d 0x43 (k1, io1) = Some (RT_EOK, k2, io1)"
    using d1 p1 by (simp add: rt_serial_open_def unsupported_def serial_open_rx_def serial_open_tx_def mod_device_def k2_def dev2_def)
  define dev3 where "dev3 = dev2\<lparr>dv_open_flag := dv_open_flag dev2 OR RT_DEVICE_OFLAG_OPEN, dv_ref_count := 1\<rparr>"
  define k3 where "k3 = k2\<lparr>k_devices := (k_devices k2)(d \<mapsto> dev3)\<rparr>"
  have d2: "k_devices k2 d = Some dev2" by (simp add: k2_def)
  have r0: "dv_ref_count dev2 = 0" using n by (simp add: dev2_def dev1_def)
  have cnt: "open_count d RT_EOK (k2, io1) = Some (RT_EOK, k3, io1)"
    using d2 r0 by (simp add: open_count_def mod_device_def k3_def dev3_def)
  have g: "get_device d k = Some dev" using d(1) n by (simp add: get_device_def)
  have fo: "dv_open dev1 = Some RT_SERIAL_OPEN" "\<not> (standalone dev1 \<and> marked_open dev1)" using n by (simp_all add: dev1_def)
  have "rt_device_open (serial_fns ops) d 0x43 (k, io) = Some (RT_EOK, k3, io1)"
    unfolding rt_device_open_def fst_conv g Option.bind.bind_lunit act prod.case d1 if_not_P [OF fo(2)] fo(1)
    using op cnt by (simp add: serial_fns_def)
  moreover have "serial_open d dev3 k3 io1"
    using n p1 by (simp add: serial_open_def k3_def dev3_def dev2_def dev1_def)
  moreover have "streaming dev3" by (simp add: dev3_def dev2_def)
  moreover have "k3 = k\<lparr>k_devices := (k_devices k)(d \<mapsto> dev3)\<rparr>" by (simp add: k3_def k2_def k1_def)
  moreover have "dv_parent dev3 = dv_parent dev" "dv_type dev3 = dv_type dev" by (simp_all add: dev3_def dev2_def dev1_def)
  ultimately show thesis using that by simp
qed

text \<open>The port, the console and the pins are set up one after the other on the kernel with its heap.\<close>

lemma serial_board_init:
  fixes name obj d
  assumes i: "boot_inv bs k" and o: "device_table [] k"
    and c: "uo_configure ops = Some f" "\<And>cfg h. fst (f cfg h) = RT_EOK"
    and us: "us = [(d, name, obj)]"
  obtains k1 dev k2 io2 where "rt_hw_usart_init us 0 (k, io) = Some (RT_EOK, k1, usart_ports us io)"
    "rt_console_set_device (serial_fns ops) name None (k1, usart_ports us io) = Some (None, Some d, k2, io2)"
    "serial_open d dev k2 io2" "streaming dev" "boot_inv bs k2" "device_table [(d, name)] k2"
    "k2 = k\<lparr>k_devices := (k_devices k)(d \<mapsto> dev), k_objects := (k_objects k)(RT_Object_Class_Device := [ODevice d])\<rparr>"
    "dv_type dev = RT_Device_Class_Char"
proof -
  define dev0 where "dev0 = (storage zero_device (k_devices k d))
     \<lparr>dv_type := RT_Device_Class_Char, dv_rx_indicate := None, dv_tx_complete := None,
      dv_init := Some RT_SERIAL_INIT, dv_open := Some RT_SERIAL_OPEN, dv_close := Some RT_SERIAL_CLOSE, dv_read := Some RT_SERIAL_READ,
      dv_write := Some RT_SERIAL_WRITE, dv_control := Some RT_SERIAL_CONTROL, dv_user_data := obj\<rparr>"
  define k0 where "k0 = k\<lparr>k_devices := (k_devices k)(d \<mapsto> dev0)\<rparr>"
  have k0: "serial_device_setup d obj k = k0" by (simp add: serial_device_setup_def k0_def dev0_def)
  have i0: "boot_inv bs k0" unfolding k0_def by (rule boot_devices [OF i])
  have o0: "device_table [] k0" "k_devices k0 d = Some dev0" using o by (simp_all add: k0_def device_table_def)
  define flags where "flags = (ucast (ucast (RT_DEVICE_FLAG_RDWR OR RT_DEVICE_FLAG_INT_RX) :: u32) :: u16)"
  have fl: "flags = RT_DEVICE_FLAG_RDWR OR RT_DEVICE_FLAG_INT_RX" by (simp add: flags_def)
  have n0: "named_in name [] = None" "d \<notin> fst ` set []" by (simp_all add: named_in_def)
  obtain k1 where k1: "rt_device_register (Some d) name flags k0 = Some (RT_EOK, k1)" "boot_inv bs k1" "device_table [(d, name)] k1"
    "k1 = k0\<lparr>k_devices := (k_devices k0)(d \<mapsto> registered name flags dev0),
       k_objects := (k_objects k0)(RT_Object_Class_Device := ODevice d # k_objects k0 RT_Object_Class_Device)\<rparr>"
    by (rule table_register [OF i0 o0(1) n0 o0(2)])
  define dev1 where "dev1 = registered name flags dev0"
  have d1: "k_devices k1 d = Some dev1" using k1(4) by (simp add: dev1_def)
  have fresh: "fresh_serial obj name dev1" by (simp add: fresh_serial_def dev1_def registered_def dev0_def fl rt_object_get_type_def)
  have u: "rt_hw_usart_init us 0 (k, io) = Some (RT_EOK, k1, usart_ports us io)"
    using k1(1) by (simp add: us usart_ports_def rt_hw_serial_register_def k0 fl)
  obtain port where p: "su_ports (usart_ports us io) d = Some port" by (simp add: us usart_ports_def)
  have find: "rt_device_find name k1 = Some (Some d, k1)" using table_find [OF k1(2,3)] by (simp add: named_in_def)
  obtain dev k2 io2 where op: "rt_device_open (serial_fns ops) d (RT_DEVICE_FLAG_RDWR OR RT_DEVICE_FLAG_STREAM) (k1, usart_ports us io) = Some (RT_EOK, k2, io2)"
    "serial_open d dev k2 io2" "streaming dev" "k2 = k1\<lparr>k_devices := (k_devices k1)(d \<mapsto> dev)\<rparr>" "dv_parent dev = dv_parent dev1" "dv_type dev = dv_type dev1"
    by (rule console_opens [OF d1 fresh p c])
  have con: "rt_console_set_device (serial_fns ops) name None (k1, usart_ports us io) = Some (None, Some d, k2, io2)"
    unfolding rt_console_set_device_def fst_conv find Option.bind.bind_lunit prod.case using op(1) by simp
  have i2: "boot_inv bs k2" unfolding op(4) by (rule boot_devices [OF k1(2)])
  have ob: "k_objects k RT_Object_Class_Device = []" using o by (simp add: device_table_def)
  have t2: "device_table [(d, name)] k2" using op(5) by (simp add: device_table_def op(4) k1(4) k0_def ob dev1_def registered_def)
  have e2: "k2 = k\<lparr>k_devices := (k_devices k)(d \<mapsto> dev), k_objects := (k_objects k)(RT_Object_Class_Device := [ODevice d])\<rparr>"
    by (simp add: op(4) k1(4) k0_def ob)
  show thesis by (rule that [OF u con op(2,3) i2 t2 e2]) (simp add: op(6) dev1_def registered_def dev0_def)
qed

text \<open>
  C9. From a reset with the initialisers of the board's serial port, of the console and of the pin device - no assumption on them is left
  but that the structures of the devices are different: the port is registered and open as the console in stream mode, and
  \<^verbatim>\<open>rtthread_startup\<close> reaches its first switch with the kernel invariant, the main thread running and the idle thread ready.
\<close>

theorem board_starts_with_console:
  assumes "(hb + 3) div 4 * 4 + 36 \<le> he div 4 * 4" and "he < 2 ^ 32" and "idle < hb \<or> he \<le> idle" and "2224 \<le> heap_bytes hb he" and "hw_pin \<noteq> d"
  shows "(\<exists>k1 k2 io2 dev. rt_hw_usart_init [(d, name, obj)] 0 (reset_kernel\<lparr>k_heap := rt_system_heap_init hb he (k_heap reset_kernel)\<rparr>, io) =
        Some (RT_EOK, k1, usart_ports [(d, name, obj)] io) \<and>
      rt_console_set_device (serial_fns (ch32_uart_ops p)) name None (k1, usart_ports [(d, name, obj)] io) = Some (None, Some d, k2, io2) \<and>
      serial_open d dev k2 io2 \<and> streaming dev) \<and>
    returns (rtthread_startup (rt_hw_board_init hb he (usart_kernel [(d, name, obj)] io)
        (console_kernel (ch32_uart_ops p) name (usart_ports [(d, name, obj)] io)) (pin_board_table hw_pin))
      main idle rt_thread_idle_entry rt_thread_stack reset_kernel) (\<lambda>(tmain, k). kinv k \<and> main_running idle tmain k)"
proof -
  let ?us = "[(d, name, obj)]" and ?ops = "ch32_uart_ops p"
  let ?kr = "reset_kernel\<lparr>k_heap := rt_system_heap_init hb he (k_heap reset_kernel)\<rparr>"
  obtain bs where i: "boot_inv bs ?kr" by (rule reset_boot [OF assms(1-3)])
  have o: "device_table [] ?kr" by (simp add: device_table_def reset_kernel_def)
  have c: "uo_configure ?ops = Some ch32_configure" "\<And>cfg h. fst (ch32_configure cfg h) = RT_EOK"
    by (simp_all add: ch32_uart_ops_def ch32_configure_def Let_def)
  obtain k1 dev k2 io2 where s: "rt_hw_usart_init ?us 0 (?kr, io) = Some (RT_EOK, k1, usart_ports ?us io)"
    "rt_console_set_device (serial_fns ?ops) name None (k1, usart_ports ?us io) = Some (None, Some d, k2, io2)"
    "serial_open d dev k2 io2" "streaming dev" "boot_inv bs k2" "device_table [(d, name)] k2"
    by (rule serial_board_init [OF i o c refl])
  have "rt_device_register (Some hw_pin) (c_string ''pin'') RT_DEVICE_FLAG_RDWR (k2\<lparr>k_devices := E\<rparr>) \<noteq> None" for E
    by (rule device_register_new [OF boot_devices [OF s(5)]]) (use s(6) assms(5) in \<open>simp add: device_table_def\<close>)
  then have pin: "rt_components_board_init (pin_board_table hw_pin) k2 \<noteq> None"
    by (auto simp: pin_board_table_def rti_board_start_def rt_hw_pin_init_def rt_device_pin_register_def split: bind_splits)
  have b: "rt_hw_board_init hb he (usart_kernel ?us io) (console_kernel ?ops name (usart_ports ?us io)) (pin_board_table hw_pin) reset_kernel \<noteq> None"
    unfolding rt_hw_board_init_def usart_kernel_def console_kernel_def Option.bind.bind_lunit s(1,2) prod.case using pin by simp
  have fns: "list_all2 (board_ok idle) [0, 0, 0, 0]
      (usart_kernel ?us io # console_kernel ?ops name (usart_ports ?us io) # pin_board_table hw_pin)"
    by (simp add: usart_ok console_ok pin_board_table_def rti_ok pin_init_ok)
  have R: "sum_list [0 :: nat, 0, 0, 0] + main_bytes + (SIZEOF_STRUCT_MEM + MIN_SIZE_ALIGNED) \<le> heap_bytes hb he"
    using assms(4) by (simp add: bytes)
  have "returns (rtthread_startup (rt_hw_board_init hb he (usart_kernel ?us io) (console_kernel ?ops name (usart_ports ?us io)) (pin_board_table hw_pin))
      main idle rt_thread_idle_entry rt_thread_stack reset_kernel) (\<lambda>(tmain, k). kinv k \<and> main_running idle tmain k)"
    by (rule returns_mono_pair [OF startup_returns [OF assms(1-3) fns b R]]) (auto simp: boot_from_def dest: boot_invD(1))
  then show ?thesis using s(1-4) by blast
qed

theorem board_starts_with_console_witness:
  "returns (rtthread_startup (rt_hw_board_init 0x20001000 0x20005000 (usart_kernel [(700, c_string ''uart1'', 680)] (sample_io []))
      (console_kernel (ch32_uart_ops sample_wire) (c_string ''uart1'') (usart_ports [(700, c_string ''uart1'', 680)] (sample_io []))) (pin_board_table 600))
    1 0x20000100 2 3 reset_kernel) (\<lambda>(tmain, k). kinv k \<and> main_running 0x20000100 tmain k)"
  by (rule board_starts_with_console [THEN conjunct2]) (simp_all add: heap_bytes_def)

end
