(* ===== verification/Spi.thy ===== *)
theory Spi
  imports Device Mutex KMemory
begin

text \<open>
  The SPI core (\<^verbatim>\<open>components/drivers/spi/spi_core.c\<close>, \<^verbatim>\<open>spi_dev.c\<close>, \<^verbatim>\<open>include/drivers/spi.h\<close>): buses, the devices attached to
  them, and the transfers, which take the lock of the bus and program the bus for the device when another device used it
  last.

  A bus and a device start with their device structure, which is in \<open>k_devices\<close> under the same address; the lock of the bus
  is the mutex at the offset it has in the structure.  A buffer pointer is \<open>None\<close> for \<^verbatim>\<open>RT_NULL\<close>.  The functions
  \<^verbatim>\<open>configure\<close> and \<^verbatim>\<open>xfer\<close> of the bus driver are the argument \<open>ops\<close>, functions on the state \<open>'h\<close> the driver has for the bus;
  \<^verbatim>\<open>xfer\<close> also gets the user data of the device and the memory of the buffers, and is \<open>None\<close> when it follows \<^verbatim>\<open>RT_NULL\<close>.

  A call that has to wait for the lock stops with \<open>Wait\<close> and the waiting thread; its second half, the function \<open>_locked\<close>,
  then continues with the result of \<^verbatim>\<open>rt_mutex_take\<close>.
\<close>

section \<open>State\<close>

record rt_spi_configuration =
  cfg_mode :: u8
  cfg_data_width :: u8
  cfg_max_hz :: u32

record rt_spi_message =
  sm_send_buf :: "nat option"
  sm_recv_buf :: "nat option"
  sm_length :: u32
  sm_next :: "nat option"
  sm_cs_take :: bool
  sm_cs_release :: bool

record rt_spi_bus =
  sb_mode :: u8
  sb_owner :: "nat option"

record rt_spi_device =
  sd_bus :: "nat option"
  sd_config :: rt_spi_configuration

record 'h rt_spi_ops =
  ops_configure :: "rt_spi_configuration \<Rightarrow> 'h \<Rightarrow> int \<times> 'h"
  ops_xfer :: "rt_spi_configuration \<Rightarrow> nat \<Rightarrow> rt_spi_message \<Rightarrow> memory \<Rightarrow> 'h \<Rightarrow> (u32 \<times> rt_spi_message \<times> memory \<times> 'h) option"

record 'h spi_io =
  io_mem :: memory
  io_buses :: "nat \<rightharpoonup> rt_spi_bus"
  io_devs :: "nat \<rightharpoonup> rt_spi_device"
  io_msgs :: "nat \<rightharpoonup> rt_spi_message"
  io_drv :: "nat \<Rightarrow> 'h"

type_synonym 'h spi_state = "kernel \<times> 'h spi_io"

abbreviation RT_SPI_CPHA :: u8 where "RT_SPI_CPHA \<equiv> 0x01"
abbreviation RT_SPI_CPOL :: u8 where "RT_SPI_CPOL \<equiv> 0x02"
abbreviation RT_SPI_MSB :: u8 where "RT_SPI_MSB \<equiv> 0x04"
abbreviation RT_SPI_SLAVE :: u8 where "RT_SPI_SLAVE \<equiv> 0x08"
abbreviation RT_SPI_CS_HIGH :: u8 where "RT_SPI_CS_HIGH \<equiv> 0x10"
abbreviation RT_SPI_NO_CS :: u8 where "RT_SPI_NO_CS \<equiv> 0x20"
abbreviation RT_SPI_3WIRE :: u8 where "RT_SPI_3WIRE \<equiv> 0x40"
abbreviation RT_SPI_MODE_MASK :: u8 where "RT_SPI_MODE_MASK \<equiv> 0xff"
abbreviation RT_SPI_BUS_MODE_SPI :: u8 where "RT_SPI_BUS_MODE_SPI \<equiv> 0x01"

text \<open>\<^verbatim>\<open>&bus->lock\<close>: behind the device structure (68 bytes), the mode and the pointer to the operations.\<close>

definition bus_lock :: "nat \<Rightarrow> nat" where
  "bus_lock b = b + 76"

definition mod_bus :: "nat \<Rightarrow> (rt_spi_bus \<Rightarrow> rt_spi_bus) \<Rightarrow> 'h spi_io \<Rightarrow> 'h spi_io option" where
  "mod_bus b f io = do {
     bus \<leftarrow> io_buses io b;
     Some (io\<lparr>io_buses := (io_buses io)(b \<mapsto> f bus)\<rparr>)
   }"

section \<open>Buses and devices\<close>

text \<open>The driver functions of the devices of \<^verbatim>\<open>spi_dev.c\<close>, by number.\<close>

abbreviation SPI_BUS_DEVICE_READ :: nat where "SPI_BUS_DEVICE_READ \<equiv> 1"
abbreviation SPI_BUS_DEVICE_WRITE :: nat where "SPI_BUS_DEVICE_WRITE \<equiv> 2"
abbreviation SPI_BUS_DEVICE_CONTROL :: nat where "SPI_BUS_DEVICE_CONTROL \<equiv> 3"
abbreviation SPIDEV_DEVICE_READ :: nat where "SPIDEV_DEVICE_READ \<equiv> 4"
abbreviation SPIDEV_DEVICE_WRITE :: nat where "SPIDEV_DEVICE_WRITE \<equiv> 5"
abbreviation SPIDEV_DEVICE_CONTROL :: nat where "SPIDEV_DEVICE_CONTROL \<equiv> 6"

definition spi_device_setup :: "nat \<Rightarrow> u8 \<Rightarrow> nat \<Rightarrow> nat \<Rightarrow> nat \<Rightarrow> kernel \<Rightarrow> kernel" where
  "spi_device_setup d type rd wr ctl k = k\<lparr>k_devices := (k_devices k)(d \<mapsto> (storage zero_device (k_devices k d))
     \<lparr>dv_type := type, dv_init := None, dv_open := None, dv_close := None, dv_read := Some rd, dv_write := Some wr,
      dv_control := Some ctl\<rparr>)\<rparr>"

definition rt_spi_bus_device_init :: "nat \<Rightarrow> u8 list \<Rightarrow> kernel \<Rightarrow> (int \<times> kernel) option" where
  "rt_spi_bus_device_init b name k =
     rt_device_register (Some b) name RT_DEVICE_FLAG_RDWR
       (spi_device_setup b RT_Device_Class_SPIBUS SPI_BUS_DEVICE_READ SPI_BUS_DEVICE_WRITE SPI_BUS_DEVICE_CONTROL k)"

definition rt_spidev_device_init :: "nat \<Rightarrow> u8 list \<Rightarrow> kernel \<Rightarrow> (int \<times> kernel) option" where
  "rt_spidev_device_init d name k =
     rt_device_register (Some d) name RT_DEVICE_FLAG_RDWR
       (spi_device_setup d RT_Device_Class_SPIDevice SPIDEV_DEVICE_READ SPIDEV_DEVICE_WRITE SPIDEV_DEVICE_CONTROL k)"

definition rt_spi_bus_register :: "nat \<Rightarrow> u8 list \<Rightarrow> 'h spi_state \<Rightarrow> (int \<times> 'h spi_state) option" where
  "rt_spi_bus_register b name s = do {
     (result, k) \<leftarrow> rt_spi_bus_device_init b name (fst s);
     if result \<noteq> RT_EOK then Some (result, k, snd s)
     else do {
       (_, k) \<leftarrow> rt_mutex_init (bus_lock b) name RT_IPC_FLAG_FIFO k;
       Some (RT_EOK, k, (snd s)\<lparr>io_buses := (io_buses (snd s))(b \<mapsto> \<lparr>sb_mode = RT_SPI_BUS_MODE_SPI, sb_owner = None\<rparr>)\<rparr>)
     }
   }"

definition zero_config :: rt_spi_configuration where
  "zero_config = \<lparr>cfg_mode = 0, cfg_data_width = 0, cfg_max_hz = 0\<rparr>"

definition rt_spi_bus_attach_device :: "nat \<Rightarrow> u8 list \<Rightarrow> u8 list \<Rightarrow> nat \<Rightarrow> 'h spi_state \<Rightarrow> (int \<times> 'h spi_state) option" where
  "rt_spi_bus_attach_device d name bus_name user_data s = do {
     (bus, k) \<leftarrow> rt_device_find bus_name (fst s);
     case bus of
       None \<Rightarrow> Some (- RT_ERROR, k, snd s)
     | Some b \<Rightarrow> do {
         bdev \<leftarrow> k_devices k b;
         if dv_type bdev = RT_Device_Class_SPIBUS then do {
           io \<leftarrow> Some ((snd s)\<lparr>io_devs := (io_devs (snd s))(d \<mapsto>
                    (storage \<lparr>sd_bus = None, sd_config = zero_config\<rparr> (io_devs (snd s) d))\<lparr>sd_bus := Some b\<rparr>)\<rparr>);
           (result, k) \<leftarrow> rt_spidev_device_init d name k;
           if result \<noteq> RT_EOK then Some (result, k, io)
           else do {
             io \<leftarrow> Some (io\<lparr>io_devs := (io_devs io)(d \<mapsto> \<lparr>sd_bus = Some b, sd_config = zero_config\<rparr>)\<rparr>);
             k \<leftarrow> mod_device d (\<lambda>dev. dev\<lparr>dv_user_data := user_data\<rparr>) k;
             Some (RT_EOK, k, io)
           }
         }
         else Some (- RT_ERROR, k, snd s)
       }
   }"

section \<open>The bus and its owner\<close>

text \<open>The device, its bus and its user data; the assertions on the pointers.\<close>

definition spi_device :: "nat \<Rightarrow> 'h spi_state \<Rightarrow> (rt_spi_device \<times> nat \<times> nat) option" where
  "spi_device d s = do {
     dev \<leftarrow> io_devs (snd s) d;
     b \<leftarrow> sd_bus dev;
     dv \<leftarrow> k_devices (fst s) d;
     Some (dev, b, dv_user_data dv)
   }"

definition bus_configure :: "'h rt_spi_ops \<Rightarrow> nat \<Rightarrow> rt_spi_configuration \<Rightarrow> 'h spi_io \<Rightarrow> int \<times> 'h spi_io" where
  "bus_configure ops b cfg io =
     (let (r, h) = ops_configure ops cfg (io_drv io b) in (r, io\<lparr>io_drv := (io_drv io)(b := h)\<rparr>))"

definition bus_xfer :: "'h rt_spi_ops \<Rightarrow> nat \<Rightarrow> rt_spi_configuration \<Rightarrow> nat \<Rightarrow> rt_spi_message \<Rightarrow> 'h spi_io \<Rightarrow>
    (u32 \<times> rt_spi_message \<times> 'h spi_io) option" where
  "bus_xfer ops b cfg ud msg io = do {
     (n, msg, m, h) \<leftarrow> ops_xfer ops cfg ud msg (io_mem io) (io_drv io b);
     Some (n, msg, io\<lparr>io_mem := m, io_drv := (io_drv io)(b := h)\<rparr>)
   }"

text \<open>\<^verbatim>\<open>if (device->bus->owner != device) ...\<close>, the same in every transfer.\<close>

definition bus_claim :: "'h rt_spi_ops \<Rightarrow> nat \<Rightarrow> nat \<Rightarrow> rt_spi_configuration \<Rightarrow> 'h spi_io \<Rightarrow> (int \<times> 'h spi_io) option" where
  "bus_claim ops b d cfg io = do {
     bus \<leftarrow> io_buses io b;
     if sb_owner bus \<noteq> Some d then do {
       (r, io) \<leftarrow> Some (bus_configure ops b cfg io);
       if r = RT_EOK then do {
         io \<leftarrow> mod_bus b (\<lambda>bus. bus\<lparr>sb_owner := Some d\<rparr>) io;
         Some (RT_EOK, io)
       }
       else Some (- RT_EIO, io)
     }
     else Some (RT_EOK, io)
   }"

definition bus_release :: "env \<Rightarrow> nat \<Rightarrow> 'r \<Rightarrow> 'h spi_state \<Rightarrow> (('r, nat) outcome \<times> 'h spi_state) option" where
  "bus_release env b r s = do {
     (_, k) \<leftarrow> rt_mutex_release env (bus_lock b) (fst s);
     Some (Done r, k, snd s)
   }"

text \<open>Taking the lock of the bus, and what follows when that returns.\<close>

definition bus_take :: "env \<Rightarrow> nat \<Rightarrow> (int \<Rightarrow> 'h spi_state \<Rightarrow> (('r, nat) outcome \<times> 'h spi_state) option) \<Rightarrow> 'h spi_state \<Rightarrow>
    (('r, nat) outcome \<times> 'h spi_state) option" where
  "bus_take env b f s = do {
     (o1, k) \<leftarrow> rt_mutex_take env (bus_lock b) RT_WAITING_FOREVER (fst s);
     case o1 of
       Done r \<Rightarrow> f r (k, snd s)
     | Wait t \<Rightarrow> Some (Wait t, k, snd s)
   }"

definition set_errno :: "int \<Rightarrow> 'h spi_state \<Rightarrow> 'h spi_state option" where
  "set_errno err s = map_option (\<lambda>k. (k, snd s)) (rt_set_errno err (fst s))"

section \<open>Configuration\<close>

definition spi_configure_locked :: "env \<Rightarrow> 'h rt_spi_ops \<Rightarrow> nat \<Rightarrow> int \<Rightarrow> 'h spi_state \<Rightarrow> ((int, nat) outcome \<times> 'h spi_state) option" where
  "spi_configure_locked env ops d result s = do {
     (dev, b, ud) \<leftarrow> spi_device d s;
     if result = RT_EOK then do {
       bus \<leftarrow> io_buses (snd s) b;
       io \<leftarrow> Some (if sb_owner bus = Some d then snd (bus_configure ops b (sd_config dev) (snd s)) else snd s);
       bus_release env b RT_EOK (fst s, io)
     }
     else Some (Done RT_EOK, s)
   }"

definition rt_spi_configure :: "env \<Rightarrow> 'h rt_spi_ops \<Rightarrow> nat \<Rightarrow> rt_spi_configuration \<Rightarrow> 'h spi_state \<Rightarrow> ((int, nat) outcome \<times> 'h spi_state) option" where
  "rt_spi_configure env ops d cfg s = do {
     dev \<leftarrow> io_devs (snd s) d;
     dev \<leftarrow> Some (dev\<lparr>sd_config := \<lparr>cfg_mode = cfg_mode cfg AND RT_SPI_MODE_MASK, cfg_data_width = cfg_data_width cfg,
                                   cfg_max_hz = cfg_max_hz cfg\<rparr>\<rparr>);
     s \<leftarrow> Some (fst s, (snd s)\<lparr>io_devs := (io_devs (snd s))(d \<mapsto> dev)\<rparr>);
     case sd_bus dev of
       None \<Rightarrow> Some (Done RT_EOK, s)
     | Some b \<Rightarrow> bus_take env b (spi_configure_locked env ops d) s
   }"

section \<open>Transfers\<close>

definition spi_message :: "nat option \<Rightarrow> nat option \<Rightarrow> u32 \<Rightarrow> bool \<Rightarrow> bool \<Rightarrow> rt_spi_message" where
  "spi_message send recv len cs_take cs_release =
     \<lparr>sm_send_buf = send, sm_recv_buf = recv, sm_length = len, sm_next = None, sm_cs_take = cs_take, sm_cs_release = cs_release\<rparr>"

definition spi_transfer_locked ::
  "env \<Rightarrow> 'h rt_spi_ops \<Rightarrow> nat \<Rightarrow> nat option \<Rightarrow> nat option \<Rightarrow> u32 \<Rightarrow> int \<Rightarrow> 'h spi_state \<Rightarrow> ((u32, nat) outcome \<times> 'h spi_state) option" where
  "spi_transfer_locked env ops d send recv len result s = do {
     (dev, b, ud) \<leftarrow> spi_device d s;
     if result = RT_EOK then do {
       (r, io) \<leftarrow> bus_claim ops b d (sd_config dev) (snd s);
       if r \<noteq> RT_EOK then do {
         s \<leftarrow> set_errno (- RT_EIO) (fst s, io);
         bus_release env b 0 s
       }
       else do {
         (n, _, io) \<leftarrow> bus_xfer ops b (sd_config dev) ud (spi_message send recv len True True) io;
         s \<leftarrow> (if n = 0 then set_errno (- RT_EIO) (fst s, io) else Some (fst s, io));
         bus_release env b n s
       }
     }
     else do {
       s \<leftarrow> set_errno (- RT_EIO) s;
       Some (Done 0, s)
     }
   }"

definition rt_spi_transfer ::
  "env \<Rightarrow> 'h rt_spi_ops \<Rightarrow> nat \<Rightarrow> nat option \<Rightarrow> nat option \<Rightarrow> u32 \<Rightarrow> 'h spi_state \<Rightarrow> ((u32, nat) outcome \<times> 'h spi_state) option" where
  "rt_spi_transfer env ops d send recv len s = do {
     (dev, b, ud) \<leftarrow> spi_device d s;
     bus_take env b (spi_transfer_locked env ops d send recv len) s
   }"

text \<open>Two messages under one chip select: \<^verbatim>\<open>rt_spi_send_then_send\<close> and \<^verbatim>\<open>rt_spi_send_then_recv\<close>.\<close>

definition spi_pair_locked ::
  "env \<Rightarrow> 'h rt_spi_ops \<Rightarrow> nat \<Rightarrow> rt_spi_message \<Rightarrow> rt_spi_message \<Rightarrow> int \<Rightarrow> 'h spi_state \<Rightarrow> ((int, nat) outcome \<times> 'h spi_state) option" where
  "spi_pair_locked env ops d msg1 msg2 result s = do {
     (dev, b, ud) \<leftarrow> spi_device d s;
     if result = RT_EOK then do {
       (r, io) \<leftarrow> bus_claim ops b d (sd_config dev) (snd s);
       if r \<noteq> RT_EOK then bus_release env b (- RT_EIO) (fst s, io)
       else do {
         (n, _, io) \<leftarrow> bus_xfer ops b (sd_config dev) ud msg1 io;
         if n = 0 then bus_release env b (- RT_EIO) (fst s, io)
         else do {
           (n, _, io) \<leftarrow> bus_xfer ops b (sd_config dev) ud msg2 io;
           bus_release env b (if n = 0 then - RT_EIO else RT_EOK) (fst s, io)
         }
       }
     }
     else Some (Done (- RT_EIO), s)
   }"

definition rt_spi_send_then_send ::
  "env \<Rightarrow> 'h rt_spi_ops \<Rightarrow> nat \<Rightarrow> nat option \<Rightarrow> u32 \<Rightarrow> nat option \<Rightarrow> u32 \<Rightarrow> 'h spi_state \<Rightarrow> ((int, nat) outcome \<times> 'h spi_state) option" where
  "rt_spi_send_then_send env ops d send1 len1 send2 len2 s = do {
     (dev, b, ud) \<leftarrow> spi_device d s;
     bus_take env b (spi_pair_locked env ops d (spi_message send1 None len1 True False) (spi_message send2 None len2 False True)) s
   }"

definition rt_spi_send_then_recv ::
  "env \<Rightarrow> 'h rt_spi_ops \<Rightarrow> nat \<Rightarrow> nat option \<Rightarrow> u32 \<Rightarrow> nat option \<Rightarrow> u32 \<Rightarrow> 'h spi_state \<Rightarrow> ((int, nat) outcome \<times> 'h spi_state) option" where
  "rt_spi_send_then_recv env ops d send len1 recv len2 s = do {
     (dev, b, ud) \<leftarrow> spi_device d s;
     bus_take env b (spi_pair_locked env ops d (spi_message send None len1 True False) (spi_message None recv len2 False True)) s
   }"

text \<open>A list of messages, linked by \<^verbatim>\<open>next\<close>; on a circular list the loop does not end.\<close>

partial_function (option) spi_messages ::
  "'h rt_spi_ops \<Rightarrow> nat \<Rightarrow> rt_spi_configuration \<Rightarrow> nat \<Rightarrow> nat option \<Rightarrow> 'h spi_state \<Rightarrow> (nat option \<times> 'h spi_state) option" where
  "spi_messages ops b cfg ud index s =
     (case index of
        None \<Rightarrow> Some (None, s)
      | Some p \<Rightarrow> do {
          msg \<leftarrow> io_msgs (snd s) p;
          (n, msg, io) \<leftarrow> bus_xfer ops b cfg ud msg (snd s);
          io \<leftarrow> Some (io\<lparr>io_msgs := (io_msgs io)(p \<mapsto> msg)\<rparr>);
          if n = 0 then do {
            s \<leftarrow> set_errno (- RT_EIO) (fst s, io);
            Some (index, s)
          }
          else spi_messages ops b cfg ud (sm_next msg) (fst s, io)
        })"

definition spi_transfer_message_locked ::
  "env \<Rightarrow> 'h rt_spi_ops \<Rightarrow> nat \<Rightarrow> nat \<Rightarrow> int \<Rightarrow> 'h spi_state \<Rightarrow> ((nat option, nat) outcome \<times> 'h spi_state) option" where
  "spi_transfer_message_locked env ops d message result s = do {
     (dev, b, ud) \<leftarrow> spi_device d s;
     if result \<noteq> RT_EOK then do {
       s \<leftarrow> set_errno (- RT_EBUSY) s;
       Some (Done (Some message), s)
     }
     else do {
       s \<leftarrow> set_errno RT_EOK s;
       (r, io) \<leftarrow> bus_claim ops b d (sd_config dev) (snd s);
       (index, s) \<leftarrow>
         (if r \<noteq> RT_EOK then do { s \<leftarrow> set_errno (- RT_EIO) (fst s, io); Some (Some message, s) }
          else spi_messages ops b (sd_config dev) ud (Some message) (fst s, io));
       bus_release env b index s
     }
   }"

definition rt_spi_transfer_message ::
  "env \<Rightarrow> 'h rt_spi_ops \<Rightarrow> nat \<Rightarrow> nat option \<Rightarrow> 'h spi_state \<Rightarrow> ((nat option, nat) outcome \<times> 'h spi_state) option" where
  "rt_spi_transfer_message env ops d message s =
     (case message of
        None \<Rightarrow> Some (Done None, s)
      | Some p \<Rightarrow> do {
          (dev, b, ud) \<leftarrow> spi_device d s;
          bus_take env b (spi_transfer_message_locked env ops d p) s
        })"

section \<open>Holding the bus\<close>

definition spi_take_bus_locked :: "env \<Rightarrow> 'h rt_spi_ops \<Rightarrow> nat \<Rightarrow> int \<Rightarrow> 'h spi_state \<Rightarrow> ((int, nat) outcome \<times> 'h spi_state) option" where
  "spi_take_bus_locked env ops d result s = do {
     (dev, b, ud) \<leftarrow> spi_device d s;
     if result \<noteq> RT_EOK then do {
       s \<leftarrow> set_errno (- RT_EBUSY) s;
       Some (Done (- RT_EBUSY), s)
     }
     else do {
       s \<leftarrow> set_errno RT_EOK s;
       (r, io) \<leftarrow> bus_claim ops b d (sd_config dev) (snd s);
       if r \<noteq> RT_EOK then do {
         s \<leftarrow> set_errno (- RT_EIO) (fst s, io);
         bus_release env b (- RT_EIO) s
       }
       else Some (Done RT_EOK, fst s, io)
     }
   }"

definition rt_spi_take_bus :: "env \<Rightarrow> 'h rt_spi_ops \<Rightarrow> nat \<Rightarrow> 'h spi_state \<Rightarrow> ((int, nat) outcome \<times> 'h spi_state) option" where
  "rt_spi_take_bus env ops d s = do {
     (dev, b, ud) \<leftarrow> spi_device d s;
     bus_take env b (spi_take_bus_locked env ops d) s
   }"

definition rt_spi_release_bus :: "env \<Rightarrow> nat \<Rightarrow> 'h spi_state \<Rightarrow> ((int, nat) outcome \<times> 'h spi_state) option" where
  "rt_spi_release_bus env d s = do {
     (dev, b, ud) \<leftarrow> spi_device d s;
     bus \<leftarrow> io_buses (snd s) b;
     rt_assert (sb_owner bus = Some d);
     bus_release env b RT_EOK s
   }"

definition spi_select :: "'h rt_spi_ops \<Rightarrow> nat \<Rightarrow> bool \<Rightarrow> bool \<Rightarrow> 'h spi_state \<Rightarrow> (int \<times> 'h spi_state) option" where
  "spi_select ops d cs_take cs_release s = do {
     (dev, b, ud) \<leftarrow> spi_device d s;
     (n, _, io) \<leftarrow> bus_xfer ops b (sd_config dev) ud (spi_message None None 0 cs_take cs_release) (snd s);
     Some (sint n, fst s, io)
   }"

definition rt_spi_take :: "'h rt_spi_ops \<Rightarrow> nat \<Rightarrow> 'h spi_state \<Rightarrow> (int \<times> 'h spi_state) option" where
  "rt_spi_take ops d s = spi_select ops d True False s"

definition rt_spi_release :: "'h rt_spi_ops \<Rightarrow> nat \<Rightarrow> 'h spi_state \<Rightarrow> (int \<times> 'h spi_state) option" where
  "rt_spi_release ops d s = spi_select ops d False True s"

section \<open>The functions of the devices (spi_dev.c)\<close>

definition spi_bus_device_io :: "env \<Rightarrow> 'h rt_spi_ops \<Rightarrow> nat \<Rightarrow> nat option \<Rightarrow> nat option \<Rightarrow> u32 \<Rightarrow> 'h spi_state \<Rightarrow>
    ((u32, nat) outcome \<times> 'h spi_state) option" where
  "spi_bus_device_io env ops b send recv sz s = do {
     bus \<leftarrow> io_buses (snd s) b;
     ow \<leftarrow> sb_owner bus;
     rt_spi_transfer env ops ow send recv sz s
   }"

definition spi_fns :: "env \<Rightarrow> 'h rt_spi_ops \<Rightarrow> ('h spi_io, nat) driver_fns" where
  "spi_fns env ops = \<lparr>fn_init = (\<lambda>f d s. None), fn_open = (\<lambda>f d oflag s. None), fn_close = (\<lambda>f d s. None),
     fn_read = (\<lambda>f d pos buffer sz s.
       if f = SPI_BUS_DEVICE_READ then spi_bus_device_io env ops d None (Some buffer) sz s
       else if f = SPIDEV_DEVICE_READ then rt_spi_transfer env ops d None (Some buffer) sz s
       else None),
     fn_write = (\<lambda>f d pos buffer sz s.
       if f = SPI_BUS_DEVICE_WRITE then spi_bus_device_io env ops d (Some buffer) None sz s
       else if f = SPIDEV_DEVICE_WRITE then rt_spi_transfer env ops d (Some buffer) None sz s
       else None),
     fn_control = (\<lambda>f d cmd args s.
       if f = SPI_BUS_DEVICE_CONTROL \<or> f = SPIDEV_DEVICE_CONTROL then Some (Done RT_EOK, s) else None)\<rparr>"

section \<open>The lock of a free bus\<close>

text \<open>
  When nobody holds the bus, taking its lock, setting the error number and releasing the lock touch only the error field of
  the calling thread \<open>t\<close> and the mutex of the bus.
\<close>

definition lock_free :: "nat \<Rightarrow> kernel \<Rightarrow> bool" where
  "lock_free b k \<longleftrightarrow> (\<exists>mu. k_mutexes k (bus_lock b) = Some mu \<and> mutex_ok mu \<and> mutex_free (bus_lock b) mu k)"

definition bus_held :: "nat \<Rightarrow> nat \<Rightarrow> kernel \<Rightarrow> bool" where
  "bus_held t b k \<longleftrightarrow> k_current k = Some t \<and> k_irq_nest k = 0 \<and> k_lists k (MutexQ (bus_lock b)) = [] \<and>
     (\<exists>th mu. k_threads k t = Some th \<and> k_mutexes k (bus_lock b) = Some mu \<and> mutex_ok mu \<and> mu_owner mu = Some t \<and>
        mu_hold mu = 1 \<and> mu_value mu = 0 \<and> mu_original_priority mu = th_current_priority th)"

definition only_error :: "nat \<Rightarrow> nat \<Rightarrow> kernel \<Rightarrow> kernel \<Rightarrow> bool" where
  "only_error t b k k' \<longleftrightarrow> (\<exists>th e mu. k_threads k t = Some th \<and>
     k' = k\<lparr>k_threads := (k_threads k)(t \<mapsto> th\<lparr>th_error := e\<rparr>), k_mutexes := (k_mutexes k)(bus_lock b \<mapsto> mu)\<rparr>)"

lemma bus_take_free:
  assumes c: "k_current k = Some t" "k_irq_nest k = 0" "k_threads k t = Some th" and l: "lock_free b k"
  obtains k1 where "bus_held t b k1" and "only_error t b k k1" and "bus_take env b f (k, io) = f RT_EOK (k1, io)"
proof -
  obtain mu where mu: "k_mutexes k (bus_lock b) = Some mu" "mutex_ok mu" "mutex_free (bus_lock b) mu k"
    using l by (auto simp: lock_free_def)
  let ?mu = "mu\<lparr>mu_value := 0, mu_owner := Some t, mu_original_priority := th_current_priority th, mu_hold := 1\<rparr>"
  let ?k = "k\<lparr>k_threads := (k_threads k)(t \<mapsto> th\<lparr>th_error := RT_EOK\<rparr>), k_mutexes := (k_mutexes k)(bus_lock b \<mapsto> ?mu)\<rparr>"
  have "rt_mutex_take env (bus_lock b) RT_WAITING_FOREVER k = Some (Done RT_EOK, ?k)" by (rule rt_mutex_take_free [OF c mu])
  then have "bus_take env b f (k, io) = f RT_EOK (?k, io)" by (simp add: bus_take_def)
  moreover have "bus_held t b ?k" using c mu by (simp add: bus_held_def mutex_free_def mutex_ok_def)
  moreover have "only_error t b k ?k" using c(3) by (auto simp: only_error_def)
  ultimately show thesis using that by blast
qed

lemma set_errno_held:
  assumes h: "bus_held t b k1" and o: "only_error t b k k1"
  obtains k2 th2 where "set_errno e (k1, io) = Some (k2, io)" and "bus_held t b k2" and "only_error t b k k2"
    and "k_threads k2 t = Some th2" and "th_error th2 = e"
proof -
  obtain th e1 mu where k1: "k_threads k t = Some th"
    "k1 = k\<lparr>k_threads := (k_threads k)(t \<mapsto> th\<lparr>th_error := e1\<rparr>), k_mutexes := (k_mutexes k)(bus_lock b \<mapsto> mu)\<rparr>"
    using o by (auto simp: only_error_def)
  let ?k = "k\<lparr>k_threads := (k_threads k)(t \<mapsto> th\<lparr>th_error := e\<rparr>), k_mutexes := (k_mutexes k)(bus_lock b \<mapsto> mu)\<rparr>"
  have c: "k_current k = Some t" "k_irq_nest k = 0" using h k1(2) by (simp_all add: bus_held_def)
  have s: "set_errno e (k1, io) = Some (?k, io)"
    using c k1(1) by (simp add: set_errno_def rt_set_errno_def rt_thread_self_def mod_thread_def k1(2))
  moreover have "bus_held t b ?k" using h k1 by (auto simp: bus_held_def)
  moreover have "only_error t b k ?k" using k1(1) by (auto simp: only_error_def)
  ultimately show thesis using that [of ?k "th\<lparr>th_error := e\<rparr>"] by simp
qed

lemma bus_release_held:
  assumes h: "bus_held t b k1" and o: "only_error t b k k1"
  obtains k2 where "bus_release env b r (k1, io) = Some (Done r, k2, io)" and "only_error t b k k2" and "lock_free b k2"
    and "k_threads k2 = k_threads k1"
proof -
  obtain th mu where m: "k_threads k1 t = Some th" "k_mutexes k1 (bus_lock b) = Some mu" "mutex_ok mu" "mu_owner mu = Some t"
      "mu_hold mu = 1" "mu_value mu = 0" "mu_original_priority mu = th_current_priority th"
    and c: "k_current k1 = Some t" "k_irq_nest k1 = 0" "k_lists k1 (MutexQ (bus_lock b)) = []"
    using h by (auto simp: bus_held_def)
  let ?mu = "mu\<lparr>mu_hold := 0, mu_value := 1, mu_owner := None, mu_original_priority := 0xff\<rparr>"
  let ?k = "k1\<lparr>k_mutexes := (k_mutexes k1)(bus_lock b \<mapsto> ?mu)\<rparr>"
  have "rt_mutex_release env (bus_lock b) k1 = Some (RT_EOK, ?k)"
    using m c by (simp add: rt_mutex_release_def get_mutex_def mutex_ok_def in_thread_context_def rt_thread_self_def mod_mutex_def
        get_thread_def rt_mutex_pass_def)
  then have "bus_release env b r (k1, io) = Some (Done r, ?k, io)" by (simp add: bus_release_def)
  moreover have "only_error t b k ?k"
  proof -
    obtain th0 e mu0 where k1: "k_threads k t = Some th0"
      "k1 = k\<lparr>k_threads := (k_threads k)(t \<mapsto> th0\<lparr>th_error := e\<rparr>), k_mutexes := (k_mutexes k)(bus_lock b \<mapsto> mu0)\<rparr>"
      using o by (auto simp: only_error_def)
    then have "?k = k\<lparr>k_threads := (k_threads k)(t \<mapsto> th0\<lparr>th_error := e\<rparr>), k_mutexes := (k_mutexes k)(bus_lock b \<mapsto> ?mu)\<rparr>"
      by simp
    then show ?thesis using k1(1) unfolding only_error_def by blast
  qed
  moreover have "lock_free b ?k" using m c by (simp add: lock_free_def mutex_free_def mutex_ok_def)
  ultimately show thesis using that by simp
qed

text \<open>The calling thread runs, and no bus is held.\<close>

definition buses_free :: "nat \<Rightarrow> 'h spi_state \<Rightarrow> bool" where
  "buses_free t s \<longleftrightarrow> kinv (fst s) \<and> k_current (fst s) = Some t \<and> k_irq_nest (fst s) = 0 \<and> k_threads (fst s) t \<noteq> None \<and>
     (\<forall>b. io_buses (snd s) b \<noteq> None \<longrightarrow> lock_free b (fst s))"

lemma bus_lock_inject [simp]: "bus_lock b = bus_lock c \<longleftrightarrow> b = c"
  by (simp add: bus_lock_def)

lemma buses_free_only_error:
  assumes f: "buses_free t (k, io)" and o: "only_error t b k k'" and l: "lock_free b k'" and d: "dom (io_buses io') = dom (io_buses io)"
  shows "buses_free t (k', io')"
proof -
  obtain th e mu where k': "k_threads k t = Some th"
    "k' = k\<lparr>k_threads := (k_threads k)(t \<mapsto> th\<lparr>th_error := e\<rparr>), k_mutexes := (k_mutexes k)(bus_lock b \<mapsto> mu)\<rparr>"
    using o by (auto simp: only_error_def)
  have "same_sched th (th\<lparr>th_error := e\<rparr>)" by (simp add: same_sched_def thread_stat_def prio_def)
  then have "kinv (k\<lparr>k_threads := (k_threads k)(t \<mapsto> th\<lparr>th_error := e\<rparr>)\<rparr>)"
    using f k'(1) by (auto simp: buses_free_def intro: kinvx_upd_same)
  then have "kinv k'" by (simp add: k'(2))
  moreover have "lock_free c k'" if "io_buses io' c \<noteq> None" for c
  proof (cases "c = b")
    case False
    have "io_buses io c \<noteq> None" using that d by (auto simp: dom_def)
    then have "lock_free c k" using f by (auto simp: buses_free_def)
    then show ?thesis using False by (auto simp: lock_free_def mutex_free_def k'(2))
  qed (use l in simp)
  ultimately show ?thesis using f k' by (simp add: buses_free_def)
qed

section \<open>Sequences of calls\<close>

datatype spi_call = Configure nat rt_spi_configuration
  | Transfer nat "nat option" "nat option" u32
  | Send_then_send nat "nat option" u32 "nat option" u32
  | Send_then_recv nat "nat option" u32 "nat option" u32

primrec call_device :: "spi_call \<Rightarrow> nat" where
  "call_device (Configure d cfg) = d"
| "call_device (Transfer d send recv len) = d"
| "call_device (Send_then_send d send1 len1 send2 len2) = d"
| "call_device (Send_then_recv d send len1 recv len2) = d"

text \<open>A call that does not have to wait, and its state afterwards.\<close>

definition not_waiting :: "('r, nat) outcome \<times> 'h spi_state \<Rightarrow> 'h spi_state option" where
  "not_waiting p = (case p of (Done r, s) \<Rightarrow> Some s | (Wait t, s) \<Rightarrow> None)"

lemma not_waiting_Done [simp]: "not_waiting (Done r, s) = Some s"
  by (simp add: not_waiting_def)

fun run_call :: "env \<Rightarrow> 'h rt_spi_ops \<Rightarrow> spi_call \<Rightarrow> 'h spi_state \<Rightarrow> 'h spi_state option" where
  "run_call env ops (Configure d cfg) s = Option.bind (rt_spi_configure env ops d cfg s) not_waiting"
| "run_call env ops (Transfer d send recv len) s = Option.bind (rt_spi_transfer env ops d send recv len s) not_waiting"
| "run_call env ops (Send_then_send d send1 len1 send2 len2) s =
     Option.bind (rt_spi_send_then_send env ops d send1 len1 send2 len2 s) not_waiting"
| "run_call env ops (Send_then_recv d send len1 recv len2) s =
     Option.bind (rt_spi_send_then_recv env ops d send len1 recv len2 s) not_waiting"

fun run_calls :: "env \<Rightarrow> 'h rt_spi_ops \<Rightarrow> spi_call list \<Rightarrow> 'h spi_state \<Rightarrow> 'h spi_state option" where
  "run_calls env ops [] s = Some s"
| "run_calls env ops (c # cs) s = Option.bind (run_call env ops c s) (run_calls env ops cs)"

section \<open>What the core needs from a bus driver\<close>

text \<open>
  \<open>programmed c h\<close> says that the bus is set up for the configuration \<open>c\<close>.  Configuring sets it up or reports an error and
  leaves the set-up alone; a transfer of a well-formed message returns, and it keeps the set-up if the configuration is
  \<open>stable\<close>.
\<close>

locale spi_driver =
  fixes ops :: "'h rt_spi_ops" and programmed :: "rt_spi_configuration \<Rightarrow> 'h \<Rightarrow> bool"
    and accepted :: "rt_spi_configuration \<Rightarrow> bool" and stable :: "rt_spi_configuration \<Rightarrow> bool" and wf_msg :: "rt_spi_message \<Rightarrow> bool"
  assumes configure_ok: "ops_configure ops c h = (r, h') \<Longrightarrow> accepted c \<Longrightarrow> r = RT_EOK \<and> programmed c h'"
    and configure_fails: "ops_configure ops c h = (r, h') \<Longrightarrow> \<not> accepted c \<Longrightarrow>
      r \<noteq> RT_EOK \<and> (\<forall>c'. programmed c' h \<longrightarrow> programmed c' h')"
    and xfer_returns: "wf_msg msg \<Longrightarrow> ops_xfer ops c ud msg m h \<noteq> None"
    and xfer_keeps: "ops_xfer ops c ud msg m h = Some (n, msg', m', h') \<Longrightarrow> wf_msg msg \<Longrightarrow> stable c \<Longrightarrow> programmed c h \<Longrightarrow> programmed c h'"
begin

text \<open>The invariant of the core: a bus is set up for the device that owns it.\<close>

definition owner_ok :: "'h spi_io \<Rightarrow> bool" where
  "owner_ok io \<longleftrightarrow> (\<forall>b bus d. io_buses io b = Some bus \<longrightarrow> sb_owner bus = Some d \<longrightarrow>
     (\<exists>dev. io_devs io d = Some dev \<and> sd_bus dev = Some b \<and> programmed (sd_config dev) (io_drv io b)))"

definition attached :: "'h spi_io \<Rightarrow> bool" where
  "attached io \<longleftrightarrow> (\<forall>d dev b. io_devs io d = Some dev \<longrightarrow> sd_bus dev = Some b \<longrightarrow> io_buses io b \<noteq> None)"

lemma owner_okD:
  assumes "owner_ok io" and "io_buses io b = Some bus" and "sb_owner bus = Some d" and "io_devs io d = Some dev"
  shows "programmed (sd_config dev) (io_drv io b)"
  using assms by (fastforce simp: owner_ok_def)

text \<open>What claiming the bus gives.\<close>

lemma claim_cases:
  assumes o: "owner_ok io" and b: "io_buses io b = Some bus" and d: "io_devs io d = Some dev" "sd_bus dev = Some b"
  obtains (ok) h where "bus_claim ops b d (sd_config dev) io =
      Some (RT_EOK, io\<lparr>io_drv := (io_drv io)(b := h), io_buses := (io_buses io)(b \<mapsto> bus\<lparr>sb_owner := Some d\<rparr>)\<rparr>)"
    "programmed (sd_config dev) h" "accepted (sd_config dev) \<or> sb_owner bus = Some d"
    "h = (if sb_owner bus = Some d then io_drv io b else snd (ops_configure ops (sd_config dev) (io_drv io b)))"
  | (fails) h where "bus_claim ops b d (sd_config dev) io = Some (- RT_EIO, io\<lparr>io_drv := (io_drv io)(b := h)\<rparr>)"
    "\<forall>c'. programmed c' (io_drv io b) \<longrightarrow> programmed c' h" "\<not> accepted (sd_config dev)" "sb_owner bus \<noteq> Some d"
proof (cases "sb_owner bus = Some d")
  case True
  have "bus\<lparr>sb_owner := Some d\<rparr> = bus" using True by simp
  then have "bus_claim ops b d (sd_config dev) io =
      Some (RT_EOK, io\<lparr>io_drv := (io_drv io)(b := io_drv io b), io_buses := (io_buses io)(b \<mapsto> bus\<lparr>sb_owner := Some d\<rparr>)\<rparr>)"
    using True b by (simp add: bus_claim_def fun_upd_idem)
  then show thesis using ok [of "io_drv io b"] owner_okD [OF o b True d(1)] True by simp
next
  case False
  obtain r h where c: "ops_configure ops (sd_config dev) (io_drv io b) = (r, h)" by fastforce
  show thesis
  proof (cases "accepted (sd_config dev)")
    case True
    then show thesis using configure_ok [OF c True] False b c
      by (intro ok [of h]) (simp_all add: bus_claim_def bus_configure_def mod_bus_def)
  next
    case na: False
    then show thesis using configure_fails [OF c na] False b c by (intro fails [of h]) (simp_all add: bus_claim_def bus_configure_def)
  qed
qed

lemma owner_ok_drv:
  assumes "owner_ok io" and "\<forall>c'. programmed c' (io_drv io b) \<longrightarrow> programmed c' h"
  shows "owner_ok (io\<lparr>io_drv := (io_drv io)(b := h)\<rparr>)"
  using assms by (fastforce simp: owner_ok_def)

lemma owner_ok_claimed:
  assumes "owner_ok io" and "io_devs io d = Some dev" and "sd_bus dev = Some b" and "programmed (sd_config dev) h"
  shows "owner_ok (io\<lparr>io_mem := m, io_drv := (io_drv io)(b := h), io_buses := (io_buses io)(b \<mapsto> bus\<lparr>sb_owner := Some d\<rparr>)\<rparr>)"
  using assms by (fastforce simp: owner_ok_def)

text \<open>
  A transfer on a free bus: with a configuration the driver refuses nothing is transferred and the error number is \<open>-RT_EIO\<close>;
  else the bus is set up for the device, the driver's transfer runs once, and its result is the result of the call.
\<close>

definition spi_transferred :: "nat \<Rightarrow> nat \<Rightarrow> nat \<Rightarrow> rt_spi_message \<Rightarrow> 'h spi_io \<Rightarrow> u32 \<Rightarrow> 'h spi_io \<Rightarrow> bool" where
  "spi_transferred d b ud msg io n io' \<longleftrightarrow> (\<exists>dev bus h m' h' msg'. io_devs io d = Some dev \<and> io_buses io b = Some bus \<and>
     programmed (sd_config dev) h \<and>
     h = (if sb_owner bus = Some d then io_drv io b else snd (ops_configure ops (sd_config dev) (io_drv io b))) \<and>
     ops_xfer ops (sd_config dev) ud msg (io_mem io) h = Some (n, msg', m', h') \<and>
     io' = io\<lparr>io_mem := m', io_drv := (io_drv io)(b := h'), io_buses := (io_buses io)(b \<mapsto> bus\<lparr>sb_owner := Some d\<rparr>)\<rparr>)"

lemma transfer_returns:
  assumes f: "buses_free t (k, io)" and o: "owner_ok io" and d: "spi_device d (k, io) = Some (dev, b, ud)" "io_buses io b = Some bus"
    and st: "stable (sd_config dev)" and msg: "wf_msg (spi_message send recv len True True)"
  shows "returns (rt_spi_transfer env ops d send recv len (k, io)) (\<lambda>(r, k', io'). buses_free t (k', io') \<and> owner_ok io' \<and>
    only_error t b k k' \<and> io_devs io' = io_devs io \<and> dom (io_buses io') = dom (io_buses io) \<and>
    (if accepted (sd_config dev) \<or> sb_owner bus = Some d
     then \<exists>n. r = Done n \<and> spi_transferred d b ud (spi_message send recv len True True) io n io'
     else r = Done 0 \<and> (\<exists>th. k_threads k' t = Some th \<and> th_error th = - RT_EIO) \<and> io_mem io' = io_mem io \<and> io_buses io' = io_buses io))"
proof -
  have dd: "io_devs io d = Some dev" "sd_bus dev = Some b" "\<exists>dv. k_devices k d = Some dv \<and> dv_user_data dv = ud"
    using d(1) by (auto simp: spi_device_def bind_eq_Some_conv)
  obtain th where th: "k_threads k t = Some th" using f by (auto simp: buses_free_def)
  have c: "k_current k = Some t" "k_irq_nest k = 0" "lock_free b k" using f d(2) by (auto simp: buses_free_def)
  obtain k1 where k1: "bus_held t b k1" "only_error t b k k1"
    and e: "bus_take env b (spi_transfer_locked env ops d send recv len) (k, io) = spi_transfer_locked env ops d send recv len RT_EOK (k1, io)"
    using bus_take_free [OF c(1,2) th c(3), of env "spi_transfer_locked env ops d send recv len" io] by metis
  have d1: "spi_device d (k1, io) = Some (dev, b, ud)" using dd k1(2) by (auto simp: spi_device_def only_error_def)
  have e': "rt_spi_transfer env ops d send recv len (k, io) = spi_transfer_locked env ops d send recv len RT_EOK (k1, io)"
    unfolding rt_spi_transfer_def d(1) by (simp add: e)
  show ?thesis
  proof (rule claim_cases [OF o d(2) dd(1,2)])
    fix h assume cl: "bus_claim ops b d (sd_config dev) io = Some (- RT_EIO, io\<lparr>io_drv := (io_drv io)(b := h)\<rparr>)"
      "\<forall>c'. programmed c' (io_drv io b) \<longrightarrow> programmed c' h" "\<not> accepted (sd_config dev)" "sb_owner bus \<noteq> Some d"
    let ?io = "io\<lparr>io_drv := (io_drv io)(b := h)\<rparr>"
    obtain k2 th2 where k2: "set_errno (- RT_EIO) (k1, ?io) = Some (k2, ?io)" "bus_held t b k2" "only_error t b k k2"
      "k_threads k2 t = Some th2" "th_error th2 = - RT_EIO" by (rule set_errno_held [OF k1])
    obtain k3 where k3: "bus_release env b (0 :: u32) (k2, ?io) = Some (Done 0, k3, ?io)" "only_error t b k k3" "lock_free b k3"
      "k_threads k3 = k_threads k2" by (rule bus_release_held [OF k2(2,3)])
    have r: "spi_transfer_locked env ops d send recv len RT_EOK (k1, io) = Some (Done 0, k3, ?io)"
      unfolding spi_transfer_locked_def d1 by (simp add: cl(1) k2(1) k3(1))
    have "buses_free t (k3, ?io)" by (rule buses_free_only_error [OF f k3(2,3)]) simp
    then show ?thesis unfolding e' r using owner_ok_drv [OF o cl(2)] k3(2,4) k2(4,5) cl(3,4) by simp
  next
    fix h assume cl: "bus_claim ops b d (sd_config dev) io =
        Some (RT_EOK, io\<lparr>io_drv := (io_drv io)(b := h), io_buses := (io_buses io)(b \<mapsto> bus\<lparr>sb_owner := Some d\<rparr>)\<rparr>)"
      "programmed (sd_config dev) h" "accepted (sd_config dev) \<or> sb_owner bus = Some d"
      "h = (if sb_owner bus = Some d then io_drv io b else snd (ops_configure ops (sd_config dev) (io_drv io b)))"
    let ?io = "io\<lparr>io_drv := (io_drv io)(b := h), io_buses := (io_buses io)(b \<mapsto> bus\<lparr>sb_owner := Some d\<rparr>)\<rparr>"
    let ?msg = "spi_message send recv len True True"
    obtain n msg' m' h' where x: "ops_xfer ops (sd_config dev) ud ?msg (io_mem io) h = Some (n, msg', m', h')"
      using xfer_returns [OF msg] by (metis not_Some_eq prod.exhaust)
    let ?io2 = "io\<lparr>io_mem := m', io_drv := (io_drv io)(b := h'), io_buses := (io_buses io)(b \<mapsto> bus\<lparr>sb_owner := Some d\<rparr>)\<rparr>"
    have bx: "bus_xfer ops b (sd_config dev) ud ?msg ?io = Some (n, msg', ?io2)" using x by (simp add: bus_xfer_def)
    obtain k2 where k2: "(if n = 0 then set_errno (- RT_EIO) (k1, ?io2) else Some (k1, ?io2)) = Some (k2, ?io2)"
      "bus_held t b k2" "only_error t b k k2"
    proof (cases "n = 0")
      case True
      then show thesis using set_errno_held [OF k1, of "- RT_EIO" ?io2] that by metis
    qed (use k1 that in simp)
    obtain k3 where k3: "bus_release env b n (k2, ?io2) = Some (Done n, k3, ?io2)" "only_error t b k k3" "lock_free b k3"
      by (rule bus_release_held [OF k2(2,3)])
    have r: "spi_transfer_locked env ops d send recv len RT_EOK (k1, io) = Some (Done n, k3, ?io2)"
      using k2(1) k3(1) unfolding spi_transfer_locked_def d1 by (cases "n = 0") (simp_all add: cl(1) bx)
    have fr: "buses_free t (k3, ?io2)" by (rule buses_free_only_error [OF f k3(2,3)]) (use d(2) in auto)
    have ow: "owner_ok ?io2" by (rule owner_ok_claimed [OF o dd(1,2) xfer_keeps [OF x msg st cl(2)]])
    have "spi_transferred d b ud ?msg io n ?io2"
      unfolding spi_transferred_def using x cl(2,4) dd(1) d(2) by blast
    moreover have "dom (io_buses ?io2) = dom (io_buses io)" using d(2) by auto
    ultimately show ?thesis unfolding e' r using fr ow k3(2) cl(3) by auto
  qed
qed

text \<open>The lock around a call, for a body that returns.\<close>

lemma locked_returns:
  assumes f: "buses_free t (k, io)" and b: "io_buses io b = Some bus"
    and body: "\<And>k1. bus_held t b k1 \<Longrightarrow> only_error t b k k1 \<Longrightarrow> returns (g RT_EOK (k1, io)) P"
  shows "returns (bus_take env b g (k, io)) P"
proof -
  obtain th where th: "k_threads k t = Some th" using f by (auto simp: buses_free_def)
  have c: "k_current k = Some t" "k_irq_nest k = 0" "lock_free b k" using f b by (auto simp: buses_free_def)
  obtain k1 where "bus_held t b k1" "only_error t b k k1" "bus_take env b g (k, io) = g RT_EOK (k1, io)"
    by (rule bus_take_free [OF c(1,2) th c(3)])
  then show ?thesis using body by simp
qed

lemma release_returns:
  assumes "buses_free t (k, io)" and "bus_held t b k2" and "only_error t b k k2" and "dom (io_buses io') = dom (io_buses io)"
    and "\<And>k3. only_error t b k k3 \<Longrightarrow> buses_free t (k3, io') \<Longrightarrow> P (Done r, k3, io')"
  shows "returns (bus_release env b r (k2, io')) P"
proof -
  obtain k3 where k3: "bus_release env b r (k2, io') = Some (Done r, k3, io')" "only_error t b k k3" "lock_free b k3"
    by (rule bus_release_held [OF assms(2,3)])
  have "buses_free t (k3, io')" by (rule buses_free_only_error [OF assms(1) k3(2,3) assms(4)])
  then show ?thesis using k3 assms(5) by simp
qed

lemma spi_device_only_error: "only_error t b k k1 \<Longrightarrow> spi_device d (k1, io) = spi_device d (k, io)"
  by (auto simp: spi_device_def only_error_def)

text \<open>What holds between the calls, and what a call keeps: the attachment of the devices.\<close>

definition spi_ok :: "nat \<Rightarrow> 'h spi_state \<Rightarrow> bool" where
  "spi_ok t s \<longleftrightarrow> buses_free t s \<and> owner_ok (snd s) \<and>
     (\<forall>d dev. io_devs (snd s) d = Some dev \<longrightarrow> stable (sd_config dev) \<and> (\<forall>b. sd_bus dev = Some b \<longrightarrow> io_buses (snd s) b \<noteq> None))"

definition same_devices :: "'h spi_state \<Rightarrow> 'h spi_state \<Rightarrow> bool" where
  "same_devices s s' \<longleftrightarrow> k_devices (fst s') = k_devices (fst s) \<and>
     (\<forall>d. map_option sd_bus (io_devs (snd s') d) = map_option sd_bus (io_devs (snd s) d)) \<and>
     dom (io_buses (snd s')) = dom (io_buses (snd s))"

definition usable :: "nat \<Rightarrow> 'h spi_state \<Rightarrow> bool" where
  "usable d s \<longleftrightarrow> (\<exists>b. Option.bind (io_devs (snd s) d) sd_bus = Some b) \<and> k_devices (fst s) d \<noteq> None"

lemma same_devicesD: "same_devices s s' \<Longrightarrow> usable d s' = usable d s"
proof -
  assume s: "same_devices s s'"
  then have m: "map_option sd_bus (io_devs (snd s') d) = map_option sd_bus (io_devs (snd s) d)" by (simp add: same_devices_def)
  have "Option.bind (io_devs (snd s') d) sd_bus = Option.bind (io_devs (snd s) d) sd_bus"
    using m by (cases "io_devs (snd s) d"; cases "io_devs (snd s') d") simp_all
  then show ?thesis using s by (simp add: usable_def same_devices_def)
qed

lemma usableE:
  assumes "usable d (k, io)" and "spi_ok t (k, io)"
  obtains dev b ud bus where "spi_device d (k, io) = Some (dev, b, ud)" and "io_devs io d = Some dev" and "sd_bus dev = Some b"
    and "io_buses io b = Some bus" and "stable (sd_config dev)" and "k_devices k d \<noteq> None"
proof -
  obtain dev b dv where d: "io_devs io d = Some dev" "sd_bus dev = Some b" "k_devices k d = Some dv"
    using assms(1) by (auto simp: usable_def bind_eq_Some_conv)
  then have "stable (sd_config dev)" "io_buses io b \<noteq> None" using assms(2) by (simp_all add: spi_ok_def)
  then obtain bus where "io_buses io b = Some bus" "stable (sd_config dev)" by blast
  then show thesis using d that by (simp add: spi_device_def)
qed

lemma only_error_devices: "only_error t b k k' \<Longrightarrow> k_devices k' = k_devices k"
  by (auto simp: only_error_def)

lemma spi_okI:
  assumes "spi_ok t (k, io)" and "only_error t b k k'" and "buses_free t (k', io')" and "owner_ok io'"
    and "io_devs io' = io_devs io" and "dom (io_buses io') = dom (io_buses io)"
  shows "spi_ok t (k', io') \<and> same_devices (k, io) (k', io')"
proof -
  have "io_buses io' b \<noteq> None \<longleftrightarrow> io_buses io b \<noteq> None" for b using assms(6) by (auto simp: dom_def)
  then show ?thesis using assms by (simp add: spi_ok_def same_devices_def only_error_devices)
qed

lemma transfer_ok:
  assumes s: "spi_ok t (k, io)" and d: "usable d (k, io)" and msg: "wf_msg (spi_message send recv len True True)"
  shows "returns (rt_spi_transfer env ops d send recv len (k, io)) (\<lambda>(r, s'). (\<exists>n. r = Done n) \<and> spi_ok t s' \<and> same_devices (k, io) s')"
proof (rule usableE [OF d s])
  fix dev b ud bus
  assume e: "spi_device d (k, io) = Some (dev, b, ud)" "io_devs io d = Some dev" "io_buses io b = Some bus" "stable (sd_config dev)"
  have f: "buses_free t (k, io)" "owner_ok io" using s by (simp_all add: spi_ok_def)
  show ?thesis
    by (rule returns_mono [OF transfer_returns [OF f e(1,3,4) msg]])
      (use spi_okI [OF s] in \<open>auto split: if_splits\<close>)
qed

text \<open>One transfer of the owner of a bus that is set up for it.\<close>

definition claimed :: "nat \<Rightarrow> nat \<Rightarrow> rt_spi_device \<Rightarrow> 'h spi_io \<Rightarrow> 'h spi_io \<Rightarrow> bool" where
  "claimed b d dev io io' \<longleftrightarrow> owner_ok io' \<and> programmed (sd_config dev) (io_drv io' b) \<and> io_devs io' = io_devs io \<and>
     dom (io_buses io') = dom (io_buses io) \<and> io_devs io' d = Some dev \<and> sd_bus dev = Some b \<and>
     (\<exists>bus. io_buses io' b = Some bus \<and> sb_owner bus = Some d)"

lemma xfer_claimed:
  assumes c: "claimed b d dev io io1" and st: "stable (sd_config dev)" and msg: "wf_msg msg"
  obtains n msg' io2 where "bus_xfer ops b (sd_config dev) ud msg io1 = Some (n, msg', io2)" and "claimed b d dev io io2"
proof -
  obtain n msg' m h where x: "ops_xfer ops (sd_config dev) ud msg (io_mem io1) (io_drv io1 b) = Some (n, msg', m, h)"
    using xfer_returns [OF msg] by (metis not_Some_eq prod.exhaust)
  have p: "programmed (sd_config dev) h" by (rule xfer_keeps [OF x msg st]) (use c in \<open>simp add: claimed_def\<close>)
  let ?io = "io1\<lparr>io_mem := m, io_drv := (io_drv io1)(b := h)\<rparr>"
  obtain bus where bus: "io_buses io1 b = Some bus" "sb_owner bus = Some d" using c by (auto simp: claimed_def)
  have "bus\<lparr>sb_owner := Some d\<rparr> = bus" using bus(2) by simp
  moreover have "owner_ok (io1\<lparr>io_mem := m, io_drv := (io_drv io1)(b := h), io_buses := (io_buses io1)(b \<mapsto> bus\<lparr>sb_owner := Some d\<rparr>)\<rparr>)"
    by (rule owner_ok_claimed [OF _ _ _ p]) (use c in \<open>unfold claimed_def, blast+\<close>)
  ultimately have "owner_ok ?io" using bus(1) by (simp add: fun_upd_idem)
  then have "claimed b d dev io ?io" using c p by (auto simp: claimed_def)
  moreover have "bus_xfer ops b (sd_config dev) ud msg io1 = Some (n, msg', ?io)" using x by (simp add: bus_xfer_def)
  ultimately show thesis using that by blast
qed

lemma claim_claimed:
  assumes "owner_ok io" and "io_buses io b = Some bus" and "io_devs io d = Some dev" and "sd_bus dev = Some b"
  obtains (ok) io' where "bus_claim ops b d (sd_config dev) io = Some (RT_EOK, io')" and "claimed b d dev io io'"
  | (fails) io' where "bus_claim ops b d (sd_config dev) io = Some (- RT_EIO, io')" and "owner_ok io'"
    and "io_devs io' = io_devs io" and "io_buses io' = io_buses io"
proof (rule claim_cases [OF assms])
  fix h assume c: "bus_claim ops b d (sd_config dev) io =
      Some (RT_EOK, io\<lparr>io_drv := (io_drv io)(b := h), io_buses := (io_buses io)(b \<mapsto> bus\<lparr>sb_owner := Some d\<rparr>)\<rparr>)"
    "programmed (sd_config dev) h"
  let ?io = "io\<lparr>io_drv := (io_drv io)(b := h), io_buses := (io_buses io)(b \<mapsto> bus\<lparr>sb_owner := Some d\<rparr>)\<rparr>"
  have "owner_ok ?io" using owner_ok_claimed [OF assms(1,3,4) c(2), where m = "io_mem io" and bus = bus] by simp
  moreover have "dom (io_buses ?io) = dom (io_buses io)" using assms(2) by auto
  ultimately have "claimed b d dev io ?io" using c(2) assms by (simp add: claimed_def)
  then show thesis using ok c(1) by blast
next
  fix h assume "bus_claim ops b d (sd_config dev) io = Some (- RT_EIO, io\<lparr>io_drv := (io_drv io)(b := h)\<rparr>)"
    "\<forall>c'. programmed c' (io_drv io b) \<longrightarrow> programmed c' h"
  then show thesis using fails owner_ok_drv [OF assms(1)] by simp
qed

lemma pair_ok:
  assumes s: "spi_ok t (k, io)" and e: "spi_device d (k, io) = Some (dev, b, ud)" "io_devs io d = Some dev" "sd_bus dev = Some b"
      "io_buses io b = Some bus" "stable (sd_config dev)"
    and msg: "wf_msg msg1" "wf_msg msg2"
  shows "returns (bus_take env b (spi_pair_locked env ops d msg1 msg2) (k, io))
    (\<lambda>(r, s'). (\<exists>n. r = Done n) \<and> spi_ok t s' \<and> same_devices (k, io) s')"
proof -
  have f: "buses_free t (k, io)" "owner_ok io" using s by (simp_all add: spi_ok_def)
  show ?thesis
  proof (rule locked_returns [OF f(1) e(4)])
    fix k1 assume k1: "bus_held t b k1" "only_error t b k k1"
    have d1: "spi_device d (k1, io) = Some (dev, b, ud)" unfolding spi_device_only_error [OF k1(2)] by (rule e(1))
    have rel: "returns (bus_release env b r (k1, io')) (\<lambda>(r, s'). (\<exists>n. r = Done n) \<and> spi_ok t s' \<and> same_devices (k, io) s')"
      if "owner_ok io'" "io_devs io' = io_devs io" "dom (io_buses io') = dom (io_buses io)" for io' and r :: int
      by (rule release_returns [OF f(1) k1 that(3)]) (use spi_okI [OF s _ _ that] in auto)
    show "returns (spi_pair_locked env ops d msg1 msg2 RT_EOK (k1, io)) (\<lambda>(r, s'). (\<exists>n. r = Done n) \<and> spi_ok t s' \<and> same_devices (k, io) s')"
    proof -
      consider (ok) io1 where "bus_claim ops b d (sd_config dev) io = Some (RT_EOK, io1)" "claimed b d dev io io1"
        | (fails) io1 where "bus_claim ops b d (sd_config dev) io = Some (- RT_EIO, io1)" "owner_ok io1"
          "io_devs io1 = io_devs io" "io_buses io1 = io_buses io"
        by (rule claim_claimed [OF f(2) e(4,2,3)])
      then show ?thesis
      proof cases
      case ok
      obtain n1 m1 io2 where x1: "bus_xfer ops b (sd_config dev) ud msg1 io1 = Some (n1, m1, io2)" "claimed b d dev io io2"
        by (rule xfer_claimed [OF ok(2) e(5) msg(1)])
      obtain n2 m2 io3 where x2: "bus_xfer ops b (sd_config dev) ud msg2 io2 = Some (n2, m2, io3)" "claimed b d dev io io3"
        by (rule xfer_claimed [OF x1(2) e(5) msg(2)])
      have c2: "owner_ok io2" "io_devs io2 = io_devs io" "dom (io_buses io2) = dom (io_buses io)"
        and c3: "owner_ok io3" "io_devs io3 = io_devs io" "dom (io_buses io3) = dom (io_buses io)"
        using x1(2) x2(2) by (simp_all add: claimed_def)
      show ?thesis
        unfolding spi_pair_locked_def d1 using rel [OF c2] rel [OF c3] by (simp add: ok(1) x1(1) x2(1))
    next
      case fails
      then show ?thesis unfolding spi_pair_locked_def d1 using rel [of io1] by simp
      qed
    qed
  qed
qed

lemma masked_config: "\<lparr>cfg_mode = cfg_mode cfg AND RT_SPI_MODE_MASK, cfg_data_width = cfg_data_width cfg, cfg_max_hz = cfg_max_hz cfg\<rparr> = cfg"
proof -
  have "(RT_SPI_MODE_MASK :: u8) = - 1" by simp
  then show ?thesis by (simp only: and.right_neutral) simp
qed

lemma configure_returns_ok:
  assumes s: "spi_ok t (k, io)" and d: "usable d (k, io)" and cfg: "accepted cfg" "stable cfg"
  shows "returns (rt_spi_configure env ops d cfg (k, io)) (\<lambda>(r, s'). r = Done RT_EOK \<and> spi_ok t s' \<and> same_devices (k, io) s' \<and>
    (\<exists>dev. io_devs (snd s') d = Some dev \<and> sd_config dev = cfg))"
proof (rule usableE [OF d s])
  fix dev b ud bus
  assume e: "spi_device d (k, io) = Some (dev, b, ud)" "io_devs io d = Some dev" "sd_bus dev = Some b" "io_buses io b = Some bus"
    "stable (sd_config dev)" "k_devices k d \<noteq> None"
  let ?dev = "dev\<lparr>sd_config := cfg\<rparr>"
  let ?io = "io\<lparr>io_devs := (io_devs io)(d \<mapsto> ?dev)\<rparr>"
  have f: "buses_free t (k, io)" "owner_ok io" using s by (simp_all add: spi_ok_def)
  have f': "buses_free t (k, ?io)" "io_buses ?io b = Some bus" using f(1) e(4) by (simp_all add: buses_free_def)
  have c: "rt_spi_configure env ops d cfg (k, io) = bus_take env b (spi_configure_locked env ops d) (k, ?io)"
    using e by (simp add: rt_spi_configure_def masked_config)
  obtain r h where cf: "ops_configure ops cfg (io_drv io b) = (r, h)" by fastforce
  have h: "r = RT_EOK" "programmed cfg h" using configure_ok [OF cf cfg(1)] by simp_all
  let ?io2 = "if sb_owner bus = Some d then ?io\<lparr>io_drv := (io_drv io)(b := h)\<rparr> else ?io"
  have ow: "owner_ok ?io2"
    unfolding owner_ok_def
  proof (intro allI impI)
    fix b' bus' d' assume b': "io_buses ?io2 b' = Some bus'" "sb_owner bus' = Some d'"
    then have "io_buses io b' = Some bus'" by (auto split: if_splits)
    with b'(2) f(2) obtain dev' where dev': "io_devs io d' = Some dev'" "sd_bus dev' = Some b'" "programmed (sd_config dev') (io_drv io b')"
      unfolding owner_ok_def by blast
    show "\<exists>dev. io_devs ?io2 d' = Some dev \<and> sd_bus dev = Some b' \<and> programmed (sd_config dev) (io_drv ?io2 b')"
    proof (cases "d' = d")
      case True
      then have "b' = b" "sb_owner bus = Some d" using dev' e(2,3,4) \<open>io_buses io b' = Some bus'\<close> b'(2) by auto
      then show ?thesis using True e(3) h(2) by simp
    next
      case False
      then have "b' \<noteq> b \<or> sb_owner bus \<noteq> Some d" using \<open>io_buses io b' = Some bus'\<close> b'(2) e(4) by auto
      then show ?thesis using False dev' by auto
    qed
  qed
  show ?thesis
    unfolding c
  proof (rule locked_returns [OF f'])
    fix k1 assume k1: "bus_held t b k1" "only_error t b k k1"
    have "spi_device d (k1, ?io) = Some (?dev, b, ud)"
      using spi_device_only_error [OF k1(2), of d ?io] e(1,2,3) by (auto simp: spi_device_def bind_eq_Some_conv)
    then have l: "spi_configure_locked env ops d RT_EOK (k1, ?io) = bus_release env b RT_EOK (k1, ?io2)"
      using e(4) cf by (simp add: spi_configure_locked_def bus_configure_def)
    have bz: "io_buses ?io2 = io_buses io" "io_devs ?io2 = (io_devs io)(d \<mapsto> ?dev)" by simp_all
    show "returns (spi_configure_locked env ops d RT_EOK (k1, ?io)) (\<lambda>(r, s'). r = Done RT_EOK \<and> spi_ok t s' \<and> same_devices (k, io) s' \<and>
      (\<exists>dev. io_devs (snd s') d = Some dev \<and> sd_config dev = cfg))"
      unfolding l
    proof (rule release_returns [OF f(1) k1])
      show "dom (io_buses ?io2) = dom (io_buses io)" by simp
      fix k3 assume k3: "only_error t b k k3" "buses_free t (k3, ?io2)"
      have "spi_ok t (k3, ?io2)"
        using s k3(2) ow cfg(2) e(3,4) unfolding spi_ok_def snd_conv bz by (auto split: if_splits)
      moreover have "same_devices (k, io) (k3, ?io2)"
        using only_error_devices [OF k3(1)] e(2) unfolding same_devices_def snd_conv fst_conv bz by simp
      ultimately show "case (Done RT_EOK, k3, ?io2) of (r, s') \<Rightarrow> r = Done RT_EOK \<and> spi_ok t s' \<and> same_devices (k, io) s' \<and>
        (\<exists>dev. io_devs (snd s') d = Some dev \<and> sd_config dev = cfg)"
        by (simp add: bz)
    qed
  qed
qed

text \<open>Any sequence of calls on free buses.\<close>

definition call_ok :: "'h spi_state \<Rightarrow> spi_call \<Rightarrow> bool" where
  "call_ok s c \<longleftrightarrow> usable (call_device c) s \<and>
     (case c of
        Configure d cfg \<Rightarrow> accepted cfg \<and> stable cfg
      | Transfer d send recv len \<Rightarrow> wf_msg (spi_message send recv len True True)
      | Send_then_send d send1 len1 send2 len2 \<Rightarrow>
          wf_msg (spi_message send1 None len1 True False) \<and> wf_msg (spi_message send2 None len2 False True)
      | Send_then_recv d send len1 recv len2 \<Rightarrow>
          wf_msg (spi_message send None len1 True False) \<and> wf_msg (spi_message None recv len2 False True))"

lemma run_call_ok:
  assumes s: "spi_ok t s" and c: "call_ok s c"
  shows "returns (run_call env ops c s) (\<lambda>s'. spi_ok t s' \<and> same_devices s s')"
proof -
  obtain k io where k: "s = (k, io)" by (cases s)
  show ?thesis
  proof (cases c)
    case (Configure d cfg)
    have "returns (rt_spi_configure env ops d cfg (k, io)) (\<lambda>(r, s'). r = Done RT_EOK \<and> spi_ok t s' \<and> same_devices (k, io) s' \<and>
        (\<exists>dev. io_devs (snd s') d = Some dev \<and> sd_config dev = cfg))"
      by (rule configure_returns_ok) (use s c Configure k in \<open>simp_all add: call_ok_def\<close>)
    then show ?thesis unfolding Configure run_call.simps k by (rule returns_bindI) auto
  next
    case (Transfer d send recv len)
    have "returns (rt_spi_transfer env ops d send recv len (k, io)) (\<lambda>(r, s'). (\<exists>n. r = Done n) \<and> spi_ok t s' \<and> same_devices (k, io) s')"
      by (rule transfer_ok) (use s c Transfer k in \<open>simp_all add: call_ok_def\<close>)
    then show ?thesis unfolding Transfer run_call.simps k by (rule returns_bindI) auto
  next
    case (Send_then_send d send1 len1 send2 len2)
    have u: "usable d (k, io)" and m: "wf_msg (spi_message send1 None len1 True False)" "wf_msg (spi_message send2 None len2 False True)"
      using c Send_then_send k by (simp_all add: call_ok_def)
    from s k have s': "spi_ok t (k, io)" by simp
    have "returns (rt_spi_send_then_send env ops d send1 len1 send2 len2 (k, io)) (\<lambda>(r, s'). (\<exists>n. r = Done n) \<and> spi_ok t s' \<and> same_devices (k, io) s')"
      by (rule usableE [OF u s']) (simp add: rt_spi_send_then_send_def, rule pair_ok [OF s' _ _ _ _ _ m])
    then show ?thesis unfolding Send_then_send run_call.simps k by (rule returns_bindI) auto
  next
    case (Send_then_recv d send len1 recv len2)
    have u: "usable d (k, io)" and m: "wf_msg (spi_message send None len1 True False)" "wf_msg (spi_message None recv len2 False True)"
      using c Send_then_recv k by (simp_all add: call_ok_def)
    from s k have s': "spi_ok t (k, io)" by simp
    have "returns (rt_spi_send_then_recv env ops d send len1 recv len2 (k, io)) (\<lambda>(r, s'). (\<exists>n. r = Done n) \<and> spi_ok t s' \<and> same_devices (k, io) s')"
      by (rule usableE [OF u s']) (simp add: rt_spi_send_then_recv_def, rule pair_ok [OF s' _ _ _ _ _ m])
    then show ?thesis unfolding Send_then_recv run_call.simps k by (rule returns_bindI) auto
  qed
qed

lemma run_calls_ok:
  "spi_ok t s \<Longrightarrow> \<forall>c \<in> set cs. call_ok s c \<Longrightarrow> returns (run_calls env ops cs s) (\<lambda>s'. spi_ok t s' \<and> same_devices s s')"
proof (induction cs arbitrary: s)
  case Nil
  then show ?case by (simp add: same_devices_def)
next
  case (Cons c cs)
  have c: "call_ok s c" using Cons.prems(2) by simp
  show ?case
    unfolding run_calls.simps
  proof (rule returns_bindI [OF run_call_ok [OF Cons.prems(1) c]], elim conjE)
    fix s1 assume s1: "spi_ok t s1" "same_devices s s1"
    have "\<forall>c \<in> set cs. call_ok s1 c" using Cons.prems(2) same_devicesD [OF s1(2)] by (auto simp: call_ok_def)
    then show "returns (run_calls env ops cs s1) (\<lambda>s'. spi_ok t s' \<and> same_devices s s')"
      using Cons.IH [OF s1(1)] s1(2) by (auto elim!: returns_mono simp: same_devices_def)
  qed
qed

end

end
