(* ===== verification/SpiDriver.thy ===== *)
theory SpiDriver
  imports Spi
begin

text \<open>
  The SPI driver of the board (\<^verbatim>\<open>libraries/hal_drivers/drv_spi.c\<close>) with the two functions of the chip library that program
  the peripheral (\<^verbatim>\<open>SPI_Init\<close> and \<^verbatim>\<open>SPI_Cmd\<close> of \<^verbatim>\<open>ch32v30x_spi.c\<close>).

  The state of a bus is the driver's handle, the registers the driver programs, the clock of the peripheral, and the state \<open>'e\<close>
  of what is connected to it.  The wire is the argument \<open>p\<close>: polling the two flags of the status register, writing and
  reading the data register, and setting the level of a chip select pin, which is named by the user data of the device.
  The transfer length of the handle is not read anywhere; it, the log output, and the clock gates and
  pin modes that the initialisation also sets for the instance are left out.
\<close>

section \<open>The peripheral\<close>

record SPI_InitTypeDef =
  SPI_Direction :: u16
  SPI_Mode :: u16
  SPI_DataSize :: u16
  SPI_CPOL :: u16
  SPI_CPHA :: u16
  SPI_NSS :: u16
  SPI_BaudRatePrescaler :: u16
  SPI_FirstBit :: u16
  SPI_CRCPolynomial :: u16

record 'e spi_wire =
  spi_txe :: "'e \<Rightarrow> bool \<times> 'e"
  spi_rxne :: "'e \<Rightarrow> bool \<times> 'e"
  spi_send_data :: "u8 \<Rightarrow> 'e \<Rightarrow> 'e"
  spi_receive_data :: "'e \<Rightarrow> u8 \<times> 'e"
  gpio_write :: "nat \<Rightarrow> bool \<Rightarrow> 'e \<Rightarrow> 'e"

record 'e ch32_spi =
  ch_Init :: SPI_InitTypeDef
  ch_CTLR1 :: u16
  ch_I2SCFGR :: u16
  ch_CRCR :: u16
  ch_clock :: u32
  ch_wire :: 'e

abbreviation CTLR1_CLEAR_Mask :: u16 where "CTLR1_CLEAR_Mask \<equiv> 0x3040"
abbreviation CTLR1_SPE_Set :: u16 where "CTLR1_SPE_Set \<equiv> 0x0040"
abbreviation CTLR1_SPE_Reset :: u16 where "CTLR1_SPE_Reset \<equiv> 0xFFBF"
abbreviation SPI_Mode_Select :: u16 where "SPI_Mode_Select \<equiv> 0xF7FF"

text \<open>The bits of the control register an initialisation asks for.\<close>

definition init_bits :: "SPI_InitTypeDef \<Rightarrow> u16" where
  "init_bits i = SPI_Direction i OR SPI_Mode i OR SPI_DataSize i OR SPI_CPOL i OR SPI_CPHA i OR SPI_NSS i OR
     SPI_BaudRatePrescaler i OR SPI_FirstBit i"

definition SPI_Init :: "SPI_InitTypeDef \<Rightarrow> 'e ch32_spi \<Rightarrow> 'e ch32_spi" where
  "SPI_Init i h = h\<lparr>ch_CTLR1 := (ch_CTLR1 h AND CTLR1_CLEAR_Mask) OR init_bits i,
     ch_I2SCFGR := ch_I2SCFGR h AND SPI_Mode_Select, ch_CRCR := SPI_CRCPolynomial i\<rparr>"

definition SPI_Cmd :: "bool \<Rightarrow> 'e ch32_spi \<Rightarrow> 'e ch32_spi" where
  "SPI_Cmd new_state h =
     (if new_state then h\<lparr>ch_CTLR1 := ch_CTLR1 h OR CTLR1_SPE_Set\<rparr> else h\<lparr>ch_CTLR1 := ch_CTLR1 h AND CTLR1_SPE_Reset\<rparr>)"

section \<open>Configuration\<close>

abbreviation SPI_Direction_2Lines_FullDuplex :: u16 where "SPI_Direction_2Lines_FullDuplex \<equiv> 0x0000"
abbreviation SPI_Direction_1Line_Tx :: u16 where "SPI_Direction_1Line_Tx \<equiv> 0xC000"
abbreviation SPI_Mode_Master :: u16 where "SPI_Mode_Master \<equiv> 0x0104"
abbreviation SPI_Mode_Slave :: u16 where "SPI_Mode_Slave \<equiv> 0x0000"
abbreviation SPI_DataSize_16b :: u16 where "SPI_DataSize_16b \<equiv> 0x0800"
abbreviation SPI_DataSize_8b :: u16 where "SPI_DataSize_8b \<equiv> 0x0000"
abbreviation SPI_CPOL_Low :: u16 where "SPI_CPOL_Low \<equiv> 0x0000"
abbreviation SPI_CPOL_High :: u16 where "SPI_CPOL_High \<equiv> 0x0002"
abbreviation SPI_CPHA_1Edge :: u16 where "SPI_CPHA_1Edge \<equiv> 0x0000"
abbreviation SPI_CPHA_2Edge :: u16 where "SPI_CPHA_2Edge \<equiv> 0x0001"
abbreviation SPI_NSS_Soft :: u16 where "SPI_NSS_Soft \<equiv> 0x0200"
abbreviation SPI_NSS_Hard :: u16 where "SPI_NSS_Hard \<equiv> 0x0000"
abbreviation SPI_FirstBit_MSB :: u16 where "SPI_FirstBit_MSB \<equiv> 0x0000"
abbreviation SPI_FirstBit_LSB :: u16 where "SPI_FirstBit_LSB \<equiv> 0x0080"

text \<open>The prescaler: the first of the constants \<^verbatim>\<open>SPI_BaudRatePrescaler_2\<close> to \<^verbatim>\<open>SPI_BaudRatePrescaler_256\<close> that is slow enough.\<close>

definition prescaler :: "u32 \<Rightarrow> u32 \<Rightarrow> u16" where
  "prescaler max_hz clock =
     (if max_hz \<ge> clock div 2 then 0x0000
      else if max_hz \<ge> clock div 4 then 0x0008
      else if max_hz \<ge> clock div 8 then 0x0010
      else if max_hz \<ge> clock div 16 then 0x0018
      else if max_hz \<ge> clock div 32 then 0x0020
      else if max_hz \<ge> clock div 64 then 0x0028
      else if max_hz \<ge> clock div 128 then 0x0030
      else 0x0038)"

definition ch32_spi_init :: "rt_spi_configuration \<Rightarrow> 'e ch32_spi \<Rightarrow> int \<times> 'e ch32_spi" where
  "ch32_spi_init cfg h =
     (let i = ch_Init h;
          i = i\<lparr>SPI_Mode := (if cfg_mode cfg AND RT_SPI_SLAVE \<noteq> 0 then SPI_Mode_Slave else SPI_Mode_Master)\<rparr>;
          i = i\<lparr>SPI_Direction := (if cfg_mode cfg AND RT_SPI_3WIRE \<noteq> 0 then SPI_Direction_1Line_Tx else SPI_Direction_2Lines_FullDuplex)\<rparr>
      in if cfg_data_width cfg \<noteq> 8 \<and> cfg_data_width cfg \<noteq> 16 then (RT_EIO, h\<lparr>ch_Init := i\<rparr>)
         else
           let i = i\<lparr>SPI_DataSize := (if cfg_data_width cfg = 8 then SPI_DataSize_8b else SPI_DataSize_16b)\<rparr>;
               i = i\<lparr>SPI_CPHA := (if cfg_mode cfg AND RT_SPI_CPHA \<noteq> 0 then SPI_CPHA_2Edge else SPI_CPHA_1Edge)\<rparr>;
               i = i\<lparr>SPI_CPOL := (if cfg_mode cfg AND RT_SPI_CPOL \<noteq> 0 then SPI_CPOL_High else SPI_CPOL_Low)\<rparr>;
               i = i\<lparr>SPI_NSS := (if cfg_mode cfg AND RT_SPI_NO_CS \<noteq> 0 then SPI_NSS_Hard else SPI_NSS_Soft)\<rparr>;
               i = i\<lparr>SPI_BaudRatePrescaler := prescaler (cfg_max_hz cfg) (ch_clock h)\<rparr>;
               i = i\<lparr>SPI_FirstBit := (if cfg_mode cfg AND RT_SPI_MSB \<noteq> 0 then SPI_FirstBit_MSB else SPI_FirstBit_LSB)\<rparr>;
               i = i\<lparr>SPI_CRCPolynomial := 7\<rparr>
           in (RT_EOK, SPI_Cmd True (SPI_Init i (h\<lparr>ch_Init := i\<rparr>))))"

definition spi_configure :: "rt_spi_configuration \<Rightarrow> 'e ch32_spi \<Rightarrow> int \<times> 'e ch32_spi" where
  "spi_configure cfg h = ch32_spi_init cfg h"

section \<open>Moving bytes\<close>

text \<open>Polling a flag, at most 201 times.\<close>

function wait_flag :: "('e \<Rightarrow> bool \<times> 'e) \<Rightarrow> nat \<Rightarrow> 'e \<Rightarrow> bool \<times> 'e" where
  "wait_flag flag i e =
     (let (set, e) = flag e in
      if set then (True, e) else if i + 1 > 200 then (False, e) else wait_flag flag (i + 1) e)"
  by pat_completeness auto
termination by (relation "measure (\<lambda>(flag, i, e). 201 - i)") auto

declare wait_flag.simps [simp del]

definition SPIx_ReadWriteByte :: "'e spi_wire \<Rightarrow> u8 \<Rightarrow> 'e \<Rightarrow> u8 \<times> 'e" where
  "SPIx_ReadWriteByte p tx_data e =
     (let (ready, e) = wait_flag (spi_txe p) 0 e in
      if \<not> ready then (0, e)
      else
        let e = spi_send_data p tx_data e;
            (ready, e) = wait_flag (spi_rxne p) 0 e
        in if \<not> ready then (0, e) else spi_receive_data p e)"

fun SPI_TransmitReceive :: "'e spi_wire \<Rightarrow> nat \<Rightarrow> nat \<Rightarrow> nat \<Rightarrow> memory \<times> 'e \<Rightarrow> int \<times> memory \<times> 'e" where
  "SPI_TransmitReceive p send recv 0 (m, e) = (RT_EOK, m, e)"
| "SPI_TransmitReceive p send recv (Suc n) (m, e) =
     (let (x, e) = SPIx_ReadWriteByte p (m send) e in SPI_TransmitReceive p (send + 1) (recv + 1) n (m(recv := x), e))"

fun SPI_Transmit :: "'e spi_wire \<Rightarrow> nat \<Rightarrow> nat \<Rightarrow> memory \<times> 'e \<Rightarrow> int \<times> memory \<times> 'e" where
  "SPI_Transmit p send 0 (m, e) = (RT_EOK, m, e)"
| "SPI_Transmit p send (Suc n) (m, e) = (let (x, e) = SPIx_ReadWriteByte p (m send) e in SPI_Transmit p (send + 1) n (m, e))"

fun SPI_Receive :: "'e spi_wire \<Rightarrow> nat \<Rightarrow> nat \<Rightarrow> memory \<times> 'e \<Rightarrow> int \<times> memory \<times> 'e" where
  "SPI_Receive p recv 0 (m, e) = (RT_EOK, m, e)"
| "SPI_Receive p recv (Suc n) (m, e) = (let (x, e) = SPIx_ReadWriteByte p 0xFF e in SPI_Receive p (recv + 1) n (m(recv := x), e))"

text \<open>One exchange of at most 65535 bytes, at the offset \<open>off\<close> of the buffers.\<close>

definition spi_exchange :: "'e spi_wire \<Rightarrow> rt_spi_configuration \<Rightarrow> rt_spi_message \<Rightarrow> nat \<Rightarrow> nat \<Rightarrow> memory \<times> 'e ch32_spi \<Rightarrow>
    (int \<times> memory \<times> 'e ch32_spi) option" where
  "spi_exchange p cfg msg off send_length s =
     (case (sm_send_buf msg, sm_recv_buf msg) of
        (Some send, Some recv) \<Rightarrow>
          let (state, m, e) = SPI_TransmitReceive p (send + off) (recv + off) send_length (fst s, ch_wire (snd s))
          in Some (state, m, (snd s)\<lparr>ch_wire := e\<rparr>)
      | (Some send, None) \<Rightarrow>
          let (state, m, e) = SPI_Transmit p (send + off) send_length (fst s, ch_wire (snd s));
              h = (snd s)\<lparr>ch_wire := e\<rparr>
          in Some (state, m, if sm_cs_release msg \<and> cfg_mode cfg AND RT_SPI_3WIRE \<noteq> 0 then SPI_Cmd False h else h)
      | (None, Some recv) \<Rightarrow>
          let (state, m, e) = SPI_Receive p (recv + off) send_length (rt_memset (recv + off) 0xff send_length (fst s), ch_wire (snd s))
          in Some (state, m, (snd s)\<lparr>ch_wire := e\<rparr>)
      | (None, None) \<Rightarrow> None)"

function spi_chunks :: "'e spi_wire \<Rightarrow> rt_spi_configuration \<Rightarrow> nat \<Rightarrow> rt_spi_message \<Rightarrow> memory \<times> 'e ch32_spi \<Rightarrow>
    (rt_spi_message \<times> memory \<times> 'e ch32_spi) option" where
  "spi_chunks p cfg message_length msg s =
     (if message_length \<noteq> 0 then
        let (send_length, rest) = (if message_length > 65535 then (65535, message_length - 65535) else (message_length, 0))
        in Option.bind (spi_exchange p cfg msg (unat (sm_length msg) - send_length - rest) send_length s) (\<lambda>(state, m, h).
             spi_chunks p cfg rest (if state \<noteq> RT_EOK then msg\<lparr>sm_length := 0\<rparr> else msg) (m, h))
      else Some (msg, s))"
  by pat_completeness auto
termination by (relation "measure (\<lambda>(p, cfg, n, msg, s). n)") (auto split: if_splits)

declare spi_chunks.simps [simp del]

definition cs_write :: "'e spi_wire \<Rightarrow> rt_spi_configuration \<Rightarrow> nat \<Rightarrow> bool \<Rightarrow> bool \<Rightarrow> 'e ch32_spi \<Rightarrow> 'e ch32_spi" where
  "cs_write p cfg cs do_it level h =
     (if do_it \<and> cfg_mode cfg AND RT_SPI_NO_CS = 0 then h\<lparr>ch_wire := gpio_write p cs level (ch_wire h)\<rparr> else h)"

definition spixfer :: "'e spi_wire \<Rightarrow> rt_spi_configuration \<Rightarrow> nat \<Rightarrow> rt_spi_message \<Rightarrow> memory \<Rightarrow> 'e ch32_spi \<Rightarrow>
    (u32 \<times> rt_spi_message \<times> memory \<times> 'e ch32_spi) option" where
  "spixfer p cfg cs msg m h = do {
     h \<leftarrow> Some (cs_write p cfg cs (sm_cs_take msg) False h);
     (msg, m, h) \<leftarrow> spi_chunks p cfg (unat (sm_length msg)) msg (m, h);
     h \<leftarrow> Some (cs_write p cfg cs (sm_cs_release msg) True h);
     Some (sm_length msg, msg, m, h)
   }"

definition ch_spi_ops :: "'e spi_wire \<Rightarrow> 'e ch32_spi rt_spi_ops" where
  "ch_spi_ops p = \<lparr>ops_configure = spi_configure, ops_xfer = spixfer p\<rparr>"

text \<open>
  \<^verbatim>\<open>rt_hw_spi_bus_init\<close>, over the table of the buses: address of the bus, its name, and the address of its entry in the table
  \<^verbatim>\<open>spi_config\<close>.  The argument \<open>result\<close> is the variable of that name, which the loop sets.
\<close>

fun rt_hw_spi_bus_init :: "(nat \<times> u8 list \<times> nat) list \<Rightarrow> int \<Rightarrow> 'h spi_state \<Rightarrow> (int \<times> 'h spi_state) option" where
  "rt_hw_spi_bus_init [] result s = Some (result, s)"
| "rt_hw_spi_bus_init ((b, bus_name, config) # es) result s = do {
     k \<leftarrow> Some ((fst s)\<lparr>k_devices := (k_devices (fst s))(b \<mapsto> (storage zero_device (k_devices (fst s) b))\<lparr>dv_user_data := config\<rparr>)\<rparr>);
     (result, s) \<leftarrow> rt_spi_bus_register b bus_name (k, snd s);
     rt_assert (result = RT_EOK);
     rt_hw_spi_bus_init es result s
   }"

definition rt_hw_spi_init :: "(nat \<times> u8 list \<times> nat) list \<Rightarrow> 'h spi_state \<Rightarrow> (int \<times> 'h spi_state) option" where
  "rt_hw_spi_init es s = rt_hw_spi_bus_init es 0 s"

section \<open>What a transfer does\<close>

text \<open>The specification of an exchange: one byte after the other.\<close>

fun wire_exchange :: "'e spi_wire \<Rightarrow> u8 list \<Rightarrow> 'e \<Rightarrow> u8 list \<times> 'e" where
  "wire_exchange p [] e = ([], e)"
| "wire_exchange p (x # xs) e =
     (let (r, e) = SPIx_ReadWriteByte p x e; (rs, e) = wire_exchange p xs e in (r # rs, e))"

lemma wire_exchange_append:
  "wire_exchange p (xs @ ys) e =
     (let (rs, e) = wire_exchange p xs e; (ss, e) = wire_exchange p ys e in (rs @ ss, e))"
  by (induction xs arbitrary: e) (auto simp: Let_def split: prod.splits)

lemma length_wire_exchange [simp]: "length (fst (wire_exchange p xs e)) = length xs"
  by (induction xs arbitrary: e) (auto simp: Let_def case_prod_unfold)

text \<open>
  The contract of a working wire, which does not mention the driver.  What is connected to the bus is a machine with the
  state \<open>peer\<close>: when a byte is shifted in it shifts one out and goes to its next state (\<open>react\<close>), and it sees the chip
  select pins (\<open>sel\<close>).  The peripheral reports within 201 polls that it can take a byte, takes one only then, and
  reports the exchange within 201 polls; until it is read, the data register holds the peer's byte.
\<close>

definition ready_in :: "('e \<Rightarrow> bool \<times> 'e) \<Rightarrow> 'e \<Rightarrow> bool" where
  "ready_in flag e \<longleftrightarrow> (\<exists>n \<le> 200. fst (flag (((\<lambda>e. snd (flag e)) ^^ n) e)))"

definition spi_wire_ok :: "'e spi_wire \<Rightarrow> ('e \<Rightarrow> 'q) \<Rightarrow> ('e \<Rightarrow> u8) \<Rightarrow> (u8 \<Rightarrow> 'q \<Rightarrow> u8 \<times> 'q) \<Rightarrow> (nat \<Rightarrow> bool \<Rightarrow> 'q \<Rightarrow> 'q) \<Rightarrow> bool" where
  "spi_wire_ok p peer dr react sel \<longleftrightarrow>
     (\<forall>e. ready_in (spi_txe p) e \<and> peer (snd (spi_txe p e)) = peer e) \<and>
     (\<forall>e e' x. spi_txe p e = (True, e') \<longrightarrow> ready_in (spi_rxne p) (spi_send_data p x e') \<and>
        (dr (spi_send_data p x e'), peer (spi_send_data p x e')) = react x (peer e')) \<and>
     (\<forall>e. dr (snd (spi_rxne p e)) = dr e \<and> peer (snd (spi_rxne p e)) = peer e) \<and>
     (\<forall>e e'. spi_rxne p e = (True, e') \<longrightarrow> fst (spi_receive_data p e') = dr e' \<and> peer (snd (spi_receive_data p e')) = peer e') \<and>
     (\<forall>cs level e. peer (gpio_write p cs level e) = sel cs level (peer e))"

text \<open>What the peer answers to a sequence of bytes.\<close>

fun answers :: "(u8 \<Rightarrow> 'q \<Rightarrow> u8 \<times> 'q) \<Rightarrow> u8 list \<Rightarrow> 'q \<Rightarrow> u8 list \<times> 'q" where
  "answers react [] q = ([], q)"
| "answers react (x # xs) q = (let (r, q) = react x q; (rs, q) = answers react xs q in (r # rs, q))"

lemma wait_flag_ready:
  assumes "fst (flag (((\<lambda>e. snd (flag e)) ^^ n) e))" and "i + n \<le> 200" and "I e" and "\<And>e. I e \<Longrightarrow> I (snd (flag e))"
  shows "\<exists>e0 e'. wait_flag flag i e = (True, e') \<and> flag e0 = (True, e') \<and> I e'"
  using assms(1-3)
proof (induction n arbitrary: i e)
  case 0
  then show ?case using assms(4) [of e] by (cases "flag e") (auto simp: wait_flag.simps)
next
  case (Suc n)
  obtain set e1 where f: "flag e = (set, e1)" by fastforce
  show ?case
  proof (cases set)
    case True
    then show ?thesis using Suc.prems(3) assms(4) [of e] f by (auto simp: wait_flag.simps)
  next
    case False
    have "fst (flag (((\<lambda>e. snd (flag e)) ^^ n) e1))" using Suc.prems(1) f by (simp add: funpow_Suc_right del: funpow.simps)
    from Suc.IH [OF this, of "i + 1"] show ?thesis
      using Suc.prems(2,3) False f assms(4) [of e] by (auto simp: wait_flag.simps [of flag i])
  qed
qed

lemma byte_answered:
  assumes "spi_wire_ok p peer dr react sel" and "SPIx_ReadWriteByte p x e = (r, e')"
  shows "react x (peer e) = (r, peer e')"
proof -
  have ok: "ready_in (spi_txe p) e" "\<And>e. peer (snd (spi_txe p e)) = peer e" "\<And>e. dr (snd (spi_rxne p e)) = dr e"
    "\<And>e. peer (snd (spi_rxne p e)) = peer e"
    "\<And>e e'. spi_txe p e = (True, e') \<Longrightarrow> ready_in (spi_rxne p) (spi_send_data p x e') \<and>
       (dr (spi_send_data p x e'), peer (spi_send_data p x e')) = react x (peer e')"
    "\<And>e e'. spi_rxne p e = (True, e') \<Longrightarrow> fst (spi_receive_data p e') = dr e' \<and> peer (snd (spi_receive_data p e')) = peer e'"
    using assms(1) unfolding spi_wire_ok_def by blast+
  obtain n where "fst (spi_txe p (((\<lambda>e. snd (spi_txe p e)) ^^ n) e))" "0 + n \<le> 200" using ok(1) by (auto simp: ready_in_def)
  from wait_flag_ready [where flag = "spi_txe p" and e = e and I = "\<lambda>e'. peer e' = peer e", OF this] obtain e0 e1 where
    e1: "wait_flag (spi_txe p) 0 e = (True, e1)" "spi_txe p e0 = (True, e1)" "peer e1 = peer e" using ok(2) by auto
  let ?e = "spi_send_data p x e1"
  have s: "ready_in (spi_rxne p) ?e" "(dr ?e, peer ?e) = react x (peer e)" using ok(5) [OF e1(2)] e1(3) by simp_all
  obtain m where "fst (spi_rxne p (((\<lambda>e. snd (spi_rxne p e)) ^^ m) ?e))" "0 + m \<le> 200" using s(1) by (auto simp: ready_in_def)
  from wait_flag_ready [where flag = "spi_rxne p" and e = ?e and I = "\<lambda>e'. dr e' = dr ?e \<and> peer e' = peer ?e", OF this] obtain e2 e3 where
    e3: "wait_flag (spi_rxne p) 0 ?e = (True, e3)" "spi_rxne p e2 = (True, e3)" "dr e3 = dr ?e" "peer e3 = peer ?e" using ok(3,4) by auto
  have "spi_receive_data p e3 = (r, e')" using assms(2) e1(1) e3(1) by (simp add: SPIx_ReadWriteByte_def)
  then show ?thesis using ok(6) [OF e3(2)] e3(3,4) s(2) by simp
qed

lemma exchange_answered:
  assumes "spi_wire_ok p peer dr react sel"
  shows "wire_exchange p xs e = (rs, e') \<Longrightarrow> answers react xs (peer e) = (rs, peer e')"
proof (induction xs arbitrary: e rs)
  case (Cons x xs)
  obtain r e1 where 1: "SPIx_ReadWriteByte p x e = (r, e1)" by fastforce
  obtain rs1 where 2: "wire_exchange p xs e1 = (rs1, e')" "rs = r # rs1" using Cons.prems 1 by (auto simp: Let_def split: prod.splits)
  show ?case using byte_answered [OF assms 1] Cons.IH [OF 2(1)] 2(2) by simp
qed simp

text \<open>The bytes a message sends, and the memory after it received.\<close>

definition sent_bytes :: "nat option \<Rightarrow> nat \<Rightarrow> nat \<Rightarrow> memory \<Rightarrow> u8 list" where
  "sent_bytes send off n m = (case send of Some a \<Rightarrow> map m [a + off..<a + off + n] | None \<Rightarrow> replicate n 0xff)"

definition received :: "nat option \<Rightarrow> nat \<Rightarrow> u8 list \<Rightarrow> memory \<Rightarrow> memory" where
  "received recv off rs m = (case recv of Some a \<Rightarrow> bytes_at (a + off) rs m | None \<Rightarrow> m)"

text \<open>The buffers do not overlap, or the receive buffer does not start behind the send buffer.\<close>

definition buffers_ok :: "nat option \<Rightarrow> nat option \<Rightarrow> nat \<Rightarrow> bool" where
  "buffers_ok send recv n \<longleftrightarrow> (case (send, recv) of
     (Some s, Some r) \<Rightarrow> r \<le> s \<or> s + n \<le> r | (None, None) \<Rightarrow> n = 0 | _ \<Rightarrow> True)"

lemma upt_step: "[a..<a + Suc n] = a # [a + 1..<a + 1 + n]"
  by (simp add: upt_conv_Cons)

lemma TransmitReceive_exchange:
  "recv \<le> send \<or> send + n \<le> recv \<Longrightarrow> SPI_TransmitReceive p send recv n (m, e) =
    (let (rs, e) = wire_exchange p (map m [send..<send + n]) e in (RT_EOK, bytes_at recv rs m, e))"
proof (induction n arbitrary: send recv m e)
  case (Suc n)
  obtain x e1 where x: "SPIx_ReadWriteByte p (m send) e = (x, e1)" by fastforce
  have o: "recv + 1 \<le> send + 1 \<or> send + 1 + n \<le> recv + 1" using Suc.prems by auto
  have eq: "map (m(recv := x)) [send + 1..<send + 1 + n] = map m [send + 1..<send + 1 + n]" using Suc.prems by auto
  show ?case
    by (simp only: upt_step list.map wire_exchange.simps SPI_TransmitReceive.simps x Let_def case_prod_conv Suc.IH [OF o] eq)
      (simp add: case_prod_unfold bytes_at_Cons del: fun_upd_apply)
qed simp

lemma Transmit_exchange:
  "SPI_Transmit p send n (m, e) = (RT_EOK, m, snd (wire_exchange p (map m [send..<send + n]) e))"
proof (induction n arbitrary: send e)
  case (Suc n)
  show ?case
    by (simp only: upt_step list.map wire_exchange.simps SPI_Transmit.simps Suc.IH Let_def case_prod_unfold snd_conv)
qed simp

lemma Receive_exchange:
  "SPI_Receive p recv n (m, e) = (let (rs, e) = wire_exchange p (replicate n 0xff) e in (RT_EOK, bytes_at recv rs m, e))"
proof (induction n arbitrary: recv m e)
  case (Suc n)
  show ?case
    by (simp only: replicate_Suc wire_exchange.simps SPI_Receive.simps Suc.IH Let_def case_prod_unfold)
      (simp add: bytes_at_Cons del: fun_upd_apply)
qed simp

text \<open>A receive buffer is filled before it is received into; nothing of that is left.\<close>

lemma bytes_at_filled: "length rs = n \<Longrightarrow> bytes_at a rs (filled a n d m) = bytes_at a rs m"
  by (rule ext) (auto simp: bytes_at_def filled_def)

text \<open>One exchange of the loop.\<close>

definition released :: "rt_spi_configuration \<Rightarrow> rt_spi_message \<Rightarrow> 'e ch32_spi \<Rightarrow> 'e ch32_spi" where
  "released cfg msg h =
     (if sm_send_buf msg \<noteq> None \<and> sm_recv_buf msg = None \<and> sm_cs_release msg \<and> cfg_mode cfg AND RT_SPI_3WIRE \<noteq> 0
      then SPI_Cmd False h else h)"

lemma spi_exchange_eq:
  assumes "buffers_ok (sm_send_buf msg) (sm_recv_buf msg) len" and "off + n \<le> len" and "0 < n"
    and w: "wire_exchange p (sent_bytes (sm_send_buf msg) off n m) (ch_wire h) = (rs, e)"
  shows "spi_exchange p cfg msg off n (m, h) = Some (RT_EOK, received (sm_recv_buf msg) off rs m, released cfg msg (h\<lparr>ch_wire := e\<rparr>))"
proof -
  have l: "length rs = length (sent_bytes (sm_send_buf msg) off n m)"
    using length_wire_exchange [of p "sent_bytes (sm_send_buf msg) off n m" "ch_wire h"] unfolding w by simp
  show ?thesis
  proof (cases "sm_send_buf msg")
    case None
    then obtain r where r: "sm_recv_buf msg = Some r" using assms(1-3) by (auto simp: buffers_ok_def split: option.splits)
    show ?thesis
      using w l None r by (simp add: spi_exchange_def Receive_exchange sent_bytes_def received_def released_def memset_filled bytes_at_filled)
  next
    case (Some a)
    show ?thesis
    proof (cases "sm_recv_buf msg")
      case None
      then show ?thesis
        using w Some by (simp add: spi_exchange_def Transmit_exchange sent_bytes_def received_def released_def add.assoc Let_def)
    next
      case r: (Some r)
      have o: "r + off \<le> a + off \<or> (a + off) + n \<le> r + off" using assms(1,2) Some r by (auto simp: buffers_ok_def)
      show ?thesis
        using w Some r
        by (simp add: spi_exchange_def TransmitReceive_exchange [OF o] sent_bytes_def received_def released_def add.assoc)
    qed
  qed
qed

lemma sent_bytes_append: "sent_bytes send off (n + k) m = sent_bytes send off n m @ sent_bytes send (off + n) k m"
proof (cases send)
  case (Some a)
  have "[a + off..<a + off + (n + k)] = [a + off..<a + off + n] @ [a + off + n..<a + off + n + k]"
    using upt_add_eq_append [of "a + off" "a + off + n" k] by (simp add: add.assoc)
  then show ?thesis using Some by (simp add: sent_bytes_def add.assoc)
qed (simp add: sent_bytes_def replicate_add)

text \<open>What has been received does not change what is still to be sent.\<close>

lemma sent_bytes_received:
  assumes "buffers_ok send recv len" and "off + n + k \<le> len" and "length rs = n"
  shows "sent_bytes send (off + n) k (received recv off rs m) = sent_bytes send (off + n) k m"
  using assms by (cases send; cases recv) (auto simp: buffers_ok_def sent_bytes_def received_def bytes_at_other)

lemma received_append: "received recv off (xs @ ys) m = received recv (off + length xs) ys (received recv off xs m)"
  by (cases recv) (simp_all add: received_def bytes_at_append add.assoc)

lemma released_released: "released cfg msg ((released cfg msg h)\<lparr>ch_wire := e\<rparr>) = released cfg msg (h\<lparr>ch_wire := e\<rparr>)"
  by (cases h; cases "sm_send_buf msg") (simp_all add: released_def SPI_Cmd_def and.assoc)

lemma ch_wire_released [simp]: "ch_wire (released cfg msg h) = ch_wire h"
  by (simp add: released_def SPI_Cmd_def)

text \<open>The division into chunks is invisible.\<close>

lemma spi_chunks_eq:
  assumes "buffers_ok (sm_send_buf msg) (sm_recv_buf msg) (unat (sm_length msg))" and "rem \<le> unat (sm_length msg)"
    and "wire_exchange p (sent_bytes (sm_send_buf msg) (unat (sm_length msg) - rem) rem m) (ch_wire h) = (rs, e)"
  shows "spi_chunks p cfg rem msg (m, h) = Some (msg, received (sm_recv_buf msg) (unat (sm_length msg) - rem) rs m,
    if rem = 0 then h else released cfg msg (h\<lparr>ch_wire := e\<rparr>))"
  using assms(2,3)
proof (induction rem arbitrary: m h rs rule: less_induct)
  case (less rem)
  let ?L = "unat (sm_length msg)" let ?off = "?L - rem"
  show ?case
  proof (cases "rem > 65535")
    case False
    show ?thesis
    proof (cases "rem = 0")
      case True
      then have "rs = []" using less.prems(2) by (simp add: sent_bytes_def split: option.splits)
      then show ?thesis using True by (subst spi_chunks.simps) (simp add: received_def split: option.split)
    next
      case nz: False
      have "spi_exchange p cfg msg ?off rem (m, h) = Some (RT_EOK, received (sm_recv_buf msg) ?off rs m, released cfg msg (h\<lparr>ch_wire := e\<rparr>))"
        by (rule spi_exchange_eq [OF assms(1) _ _ less.prems(2)]) (use less.prems(1) nz in simp_all)
      then show ?thesis using False nz by (subst spi_chunks.simps, simp, subst spi_chunks.simps, simp)
    qed
  next
    case True
    let ?r = "rem - 65535"
    have off: "?L - 65535 - ?r = ?off" "?off + 65535 = ?L - ?r" using True less.prems(1) by simp_all
    obtain rs1 e1 where w1: "wire_exchange p (sent_bytes (sm_send_buf msg) ?off 65535 m) (ch_wire h) = (rs1, e1)" by fastforce
    let ?m1 = "received (sm_recv_buf msg) ?off rs1 m" let ?h1 = "released cfg msg (h\<lparr>ch_wire := e1\<rparr>)"
    have l1: "length rs1 = 65535"
      using length_wire_exchange [of p "sent_bytes (sm_send_buf msg) ?off 65535 m" "ch_wire h"] unfolding w1
      by (simp add: sent_bytes_def split: option.splits)
    have x1: "spi_exchange p cfg msg ?off 65535 (m, h) = Some (RT_EOK, ?m1, ?h1)"
      by (rule spi_exchange_eq [OF assms(1) _ _ w1]) (use True less.prems(1) in simp_all)
    have sp: "sent_bytes (sm_send_buf msg) ?off rem m = sent_bytes (sm_send_buf msg) ?off 65535 m @ sent_bytes (sm_send_buf msg) (?L - ?r) ?r m"
      using sent_bytes_append [of "sm_send_buf msg" ?off 65535 ?r m] True off(2) by simp
    have sr: "sent_bytes (sm_send_buf msg) (?L - ?r) ?r ?m1 = sent_bytes (sm_send_buf msg) (?L - ?r) ?r m"
      using sent_bytes_received [OF assms(1) _ l1, of ?off ?r m] True less.prems(1) off(2) by simp
    obtain rs2 where w2: "wire_exchange p (sent_bytes (sm_send_buf msg) (?L - ?r) ?r ?m1) (ch_wire ?h1) = (rs2, e)" "rs = rs1 @ rs2"
      using less.prems(2) unfolding sp wire_exchange_append sr by (auto simp: w1 Let_def split: prod.splits)
    have "spi_chunks p cfg ?r msg (?m1, ?h1) = Some (msg, received (sm_recv_buf msg) (?L - ?r) rs2 ?m1,
        if ?r = 0 then ?h1 else released cfg msg (?h1\<lparr>ch_wire := e\<rparr>))"
      by (rule less.IH [OF _ _ w2(1)]) (use True less.prems(1) in simp_all)
    moreover have "received (sm_recv_buf msg) (?L - ?r) rs2 ?m1 = received (sm_recv_buf msg) ?off rs m"
      unfolding w2(2) received_append l1 off(2) ..
    ultimately show ?thesis
      using True x1 by (subst spi_chunks.simps) (simp add: off(1) released_released)
  qed
qed

lemma spixfer_eq:
  assumes "buffers_ok (sm_send_buf msg) (sm_recv_buf msg) (unat (sm_length msg))"
    and "wire_exchange p (sent_bytes (sm_send_buf msg) 0 (unat (sm_length msg)) m) (ch_wire (cs_write p cfg cs (sm_cs_take msg) False h)) = (rs, e)"
  shows "spixfer p cfg cs msg m h = Some (sm_length msg, msg, received (sm_recv_buf msg) 0 rs m,
    cs_write p cfg cs (sm_cs_release msg) True
      (if sm_length msg = 0 then cs_write p cfg cs (sm_cs_take msg) False h
       else released cfg msg ((cs_write p cfg cs (sm_cs_take msg) False h)\<lparr>ch_wire := e\<rparr>)))"
proof -
  have "spi_chunks p cfg (unat (sm_length msg)) msg (m, cs_write p cfg cs (sm_cs_take msg) False h) =
      Some (msg, received (sm_recv_buf msg) (unat (sm_length msg) - unat (sm_length msg)) rs m,
        if unat (sm_length msg) = 0 then cs_write p cfg cs (sm_cs_take msg) False h
        else released cfg msg ((cs_write p cfg cs (sm_cs_take msg) False h)\<lparr>ch_wire := e\<rparr>))"
    by (rule spi_chunks_eq [OF assms(1) order.refl]) (use assms(2) in simp)
  then show ?thesis by (simp add: spixfer_def unsigned_eq_0_iff)
qed

lemma spixfer_transfers:
  assumes "buffers_ok send recv (unat len)" and "0 < len" and "cfg_mode cfg AND RT_SPI_3WIRE = 0"
  shows "let select = (\<lambda>level e. if cfg_mode cfg AND RT_SPI_NO_CS = 0 then gpio_write p cs level e else e);
      (rs, e) = wire_exchange p (sent_bytes send 0 (unat len) m) (select False (ch_wire h)) in
    spixfer p cfg cs (spi_message send recv len True True) m h = Some (len, spi_message send recv len True True,
      received recv 0 rs m, h\<lparr>ch_wire := select True e\<rparr>)"
proof -
  let ?h = "cs_write p cfg cs True False h"
  obtain rs e where w: "wire_exchange p (sent_bytes send 0 (unat len) m) (ch_wire ?h) = (rs, e)" by fastforce
  have "spixfer p cfg cs (spi_message send recv len True True) m h = Some (len, spi_message send recv len True True, received recv 0 rs m,
      cs_write p cfg cs True True (?h\<lparr>ch_wire := e\<rparr>))"
    using spixfer_eq [of "spi_message send recv len True True" p m cfg cs h rs e] assms w by (simp add: spi_message_def released_def)
  then show ?thesis using w by (cases "cfg_mode cfg AND RT_SPI_NO_CS = 0") (simp_all add: Let_def cs_write_def)
qed

text \<open>
  The driver's transfer is the byte by byte exchange, whatever the length: the loop over chunks of at most 65535 bytes and
  the three routines that move bytes together send the bytes of the send buffer (or \<^verbatim>\<open>0xff\<close> when there is none) in order, store
  what comes back for each in the receive buffer (if there is one), change no other memory, and report the full length;
  the chip select is low during the exchange and high after it.
\<close>

theorem spixfer_exchange:
  assumes "buffers_ok send recv (unat len)" and "0 < len" and "cfg_mode cfg AND RT_SPI_3WIRE = 0"
  shows "let select = (\<lambda>level e. if cfg_mode cfg AND RT_SPI_NO_CS = 0 then gpio_write p cs level e else e);
      (rs, e) = wire_exchange p (sent_bytes send 0 (unat len) m) (select False (ch_wire h)) in
    spixfer p cfg cs (spi_message send recv len True True) m h = Some (len, spi_message send recv len True True,
      received recv 0 rs m, h\<lparr>ch_wire := select True e\<rparr>)"
  by (rule spixfer_transfers [OF assms])

text \<open>A wire that returns what it is sent.\<close>

definition loop_back :: "u8 spi_wire" where
  "loop_back = \<lparr>spi_txe = (\<lambda>e. (True, e)), spi_rxne = (\<lambda>e. (True, e)), spi_send_data = (\<lambda>x e. x),
     spi_receive_data = (\<lambda>e. (e, e)), gpio_write = (\<lambda>cs level e. e)\<rparr>"

lemma loop_back_byte: "SPIx_ReadWriteByte loop_back x e = (x, x)"
  by (simp add: SPIx_ReadWriteByte_def wait_flag.simps loop_back_def)

lemma loop_back_exchange: "fst (wire_exchange loop_back xs e) = xs"
  by (induction xs arbitrary: e) (simp_all add: loop_back_byte case_prod_unfold)

definition sample_init :: SPI_InitTypeDef where
  "sample_init = \<lparr>SPI_Direction = 0, SPI_Mode = 0, SPI_DataSize = 0, SPI_CPOL = 0, SPI_CPHA = 0, SPI_NSS = 0,
     SPI_BaudRatePrescaler = 0, SPI_FirstBit = 0, SPI_CRCPolynomial = 0\<rparr>"

definition sample_spi :: "'e \<Rightarrow> 'e ch32_spi" where
  "sample_spi e = \<lparr>ch_Init = sample_init, ch_CTLR1 = 0, ch_I2SCFGR = 0, ch_CRCR = 0, ch_clock = 72000000, ch_wire = e\<rparr>"

theorem spixfer_exchange_witness:
  "\<forall>m. spixfer loop_back \<lparr>cfg_mode = 0, cfg_data_width = 8, cfg_max_hz = 1000\<rparr> 4 (spi_message (Some 100) (Some 200) 3 True True) m (sample_spi 0) =
    Some (3, spi_message (Some 100) (Some 200) 3 True True, m(200 := m 100, 201 := m 101, 202 := m 102), sample_spi (m 102))"
proof
  fix m :: memory
  let ?cfg = "\<lparr>cfg_mode = 0, cfg_data_width = 8, cfg_max_hz = 1000\<rparr> :: rt_spi_configuration"
  have "buffers_ok (Some 100) (Some 200) (unat (3 :: u32))" "0 < (3 :: u32)" "cfg_mode ?cfg AND RT_SPI_3WIRE = 0"
    by (simp_all add: buffers_ok_def)
  note x = spixfer_exchange [OF this, of loop_back 4 m "sample_spi 0"]
  have u: "[100..<103] = [100, 101, 102 :: nat]" by (simp add: upt_rec)
  have b: "bytes_at 200 [x, y, z] m = m(200 := x, 201 := y, 202 := z)" for x y z by (simp add: bytes_at_Cons)
  show "spixfer loop_back ?cfg 4 (spi_message (Some 100) (Some 200) 3 True True) m (sample_spi 0) =
      Some (3, spi_message (Some 100) (Some 200) 3 True True, m(200 := m 100, 201 := m 101, 202 := m 102), sample_spi (m 102))"
    using x by (simp add: u b sent_bytes_def received_def loop_back_byte sample_spi_def Let_def) (simp add: loop_back_def)
qed

section \<open>The driver keeps its promises\<close>

definition config_bits :: "u32 \<Rightarrow> rt_spi_configuration \<Rightarrow> u16" where
  "config_bits clock cfg =
     (if cfg_mode cfg AND RT_SPI_3WIRE \<noteq> 0 then SPI_Direction_1Line_Tx else SPI_Direction_2Lines_FullDuplex) OR
     (if cfg_mode cfg AND RT_SPI_SLAVE \<noteq> 0 then SPI_Mode_Slave else SPI_Mode_Master) OR
     (if cfg_data_width cfg = 8 then SPI_DataSize_8b else SPI_DataSize_16b) OR
     (if cfg_mode cfg AND RT_SPI_CPOL \<noteq> 0 then SPI_CPOL_High else SPI_CPOL_Low) OR
     (if cfg_mode cfg AND RT_SPI_CPHA \<noteq> 0 then SPI_CPHA_2Edge else SPI_CPHA_1Edge) OR
     (if cfg_mode cfg AND RT_SPI_NO_CS \<noteq> 0 then SPI_NSS_Hard else SPI_NSS_Soft) OR
     prescaler (cfg_max_hz cfg) clock OR
     (if cfg_mode cfg AND RT_SPI_MSB \<noteq> 0 then SPI_FirstBit_MSB else SPI_FirstBit_LSB)"

text \<open>
  The control register as the chip's manual reads it, for a configuration: the peripheral is on (bit 6), clock phase and polarity
  (bits 0 and 1), master (bits 2 and 8), the bit order (bit 7), the select pin in software (bit 9), the frame length (bit 11),
  the direction (bits 10, 14 and 15), and the clock division in bits 3 to 5: the division is \<open>2 ^ (k + 1)\<close> for the
  smallest \<open>k\<close> whose rate does not exceed the requested one, and 256, the largest there is, when none is slow enough.
\<close>

definition division_bits :: "u16 \<Rightarrow> nat" where
  "division_bits c = unat (c AND 0x0038) div 8"

definition slow_enough :: "u32 \<Rightarrow> u32 \<Rightarrow> nat \<Rightarrow> bool" where
  "slow_enough max_hz clock k \<longleftrightarrow> unat clock div 2 ^ (k + 1) \<le> unat max_hz"

definition spi_programmed :: "rt_spi_configuration \<Rightarrow> 'e ch32_spi \<Rightarrow> bool" where
  "spi_programmed cfg h \<longleftrightarrow> (let c = ch_CTLR1 h; mode = cfg_mode cfg; k = division_bits c in
     bit c 6 \<and> (bit c 0 \<longleftrightarrow> mode AND RT_SPI_CPHA \<noteq> 0) \<and> (bit c 1 \<longleftrightarrow> mode AND RT_SPI_CPOL \<noteq> 0) \<and>
     (bit c 2 \<longleftrightarrow> mode AND RT_SPI_SLAVE = 0) \<and> (bit c 8 \<longleftrightarrow> mode AND RT_SPI_SLAVE = 0) \<and> (bit c 7 \<longleftrightarrow> mode AND RT_SPI_MSB = 0) \<and>
     (bit c 9 \<longleftrightarrow> mode AND RT_SPI_NO_CS = 0) \<and> (bit c 11 \<longleftrightarrow> cfg_data_width cfg \<noteq> 8) \<and> \<not> bit c 10 \<and>
     (bit c 14 \<longleftrightarrow> mode AND RT_SPI_3WIRE \<noteq> 0) \<and> (bit c 15 \<longleftrightarrow> mode AND RT_SPI_3WIRE \<noteq> 0) \<and>
     (k = 7 \<or> slow_enough (cfg_max_hz cfg) (ch_clock h) k) \<and> (\<forall>j < k. \<not> slow_enough (cfg_max_hz cfg) (ch_clock h) j))"

definition spi_accepted :: "rt_spi_configuration \<Rightarrow> bool" where
  "spi_accepted cfg \<longleftrightarrow> cfg_data_width cfg = 8 \<or> cfg_data_width cfg = 16"

definition not_3wire :: "rt_spi_configuration \<Rightarrow> bool" where
  "not_3wire cfg \<longleftrightarrow> cfg_mode cfg AND RT_SPI_3WIRE = 0"

definition message_ok :: "rt_spi_message \<Rightarrow> bool" where
  "message_ok msg \<longleftrightarrow> buffers_ok (sm_send_buf msg) (sm_recv_buf msg) (unat (sm_length msg))"

lemma all_below:
  fixes P :: "nat \<Rightarrow> bool"
  shows "(\<forall>j < 1. P j) = P 0" "(\<forall>j < 2. P j) = (P 0 \<and> P 1)" "(\<forall>j < 3. P j) = (P 0 \<and> P 1 \<and> P 2)"
    "(\<forall>j < 4. P j) = (P 0 \<and> P 1 \<and> P 2 \<and> P 3)" "(\<forall>j < 5. P j) = (P 0 \<and> P 1 \<and> P 2 \<and> P 3 \<and> P 4)"
    "(\<forall>j < 6. P j) = (P 0 \<and> P 1 \<and> P 2 \<and> P 3 \<and> P 4 \<and> P 5)"
    "(\<forall>j < 7. P j) = (P 0 \<and> P 1 \<and> P 2 \<and> P 3 \<and> P 4 \<and> P 5 \<and> P 6)"
  by (auto simp: numeral_eq_Suc All_less_Suc)

lemma prescaler_division:
  "(let k = division_bits (prescaler max_hz clock) in
     (k = 7 \<or> slow_enough max_hz clock k) \<and> (\<forall>j < k. \<not> slow_enough max_hz clock j))"
  unfolding prescaler_def slow_enough_def division_bits_def
  by (simp add: word_le_nat_alt unat_div all_below del: One_nat_def)

lemma prescaler_field: "prescaler x y AND 0x0038 = prescaler x y"
  by (simp add: prescaler_def)

lemma prescaler_bits:
  "n \<in> {0, 1, 2, 6, 7, 8, 9, 10, 11, 14, 15} \<Longrightarrow> \<not> bit (prescaler x y) n"
  by (auto simp: prescaler_def)

lemma prescaler_masked: "prescaler x y AND NOT CTLR1_CLEAR_Mask = prescaler x y"
  by (simp add: prescaler_def)

lemma config_bits_masked: "config_bits c cfg AND NOT CTLR1_CLEAR_Mask = config_bits c cfg"
  unfolding config_bits_def bit.conj_disj_distrib2 prescaler_masked by (simp add: if_distrib [of "\<lambda>x. x AND y" for y])

lemma programmed_bits: "((c AND CTLR1_CLEAR_Mask) OR config_bits k cfg OR CTLR1_SPE_Set) AND NOT CTLR1_CLEAR_Mask = config_bits k cfg"
  unfolding bit.conj_disj_distrib2 config_bits_masked by (simp add: and.assoc)

lemma or_spe: "(c OR CTLR1_SPE_Set) AND CTLR1_SPE_Set \<noteq> (0 :: u16)"
proof -
  have "(c OR CTLR1_SPE_Set) AND CTLR1_SPE_Set = (CTLR1_SPE_Set :: u16)" by (rule bit_word_eqI) (auto simp: bit_simps)
  then show ?thesis by simp
qed

text \<open>The initialisation a valid configuration leads to; every field is set.\<close>

definition config_init :: "u32 \<Rightarrow> rt_spi_configuration \<Rightarrow> SPI_InitTypeDef" where
  "config_init clock cfg = \<lparr>
     SPI_Direction = (if cfg_mode cfg AND RT_SPI_3WIRE \<noteq> 0 then SPI_Direction_1Line_Tx else SPI_Direction_2Lines_FullDuplex),
     SPI_Mode = (if cfg_mode cfg AND RT_SPI_SLAVE \<noteq> 0 then SPI_Mode_Slave else SPI_Mode_Master),
     SPI_DataSize = (if cfg_data_width cfg = 8 then SPI_DataSize_8b else SPI_DataSize_16b),
     SPI_CPOL = (if cfg_mode cfg AND RT_SPI_CPOL \<noteq> 0 then SPI_CPOL_High else SPI_CPOL_Low),
     SPI_CPHA = (if cfg_mode cfg AND RT_SPI_CPHA \<noteq> 0 then SPI_CPHA_2Edge else SPI_CPHA_1Edge),
     SPI_NSS = (if cfg_mode cfg AND RT_SPI_NO_CS \<noteq> 0 then SPI_NSS_Hard else SPI_NSS_Soft),
     SPI_BaudRatePrescaler = prescaler (cfg_max_hz cfg) clock,
     SPI_FirstBit = (if cfg_mode cfg AND RT_SPI_MSB \<noteq> 0 then SPI_FirstBit_MSB else SPI_FirstBit_LSB),
     SPI_CRCPolynomial = 7\<rparr>"

lemma init_bits_config: "init_bits (config_init clock cfg) = config_bits clock cfg"
  unfolding init_bits_def config_init_def config_bits_def by (simp only: SPI_InitTypeDef.simps or.assoc)

lemma init_accepted:
  assumes "spi_accepted cfg"
  shows "ch32_spi_init cfg h = (RT_EOK, SPI_Cmd True (SPI_Init (config_init (ch_clock h) cfg) (h\<lparr>ch_Init := config_init (ch_clock h) cfg\<rparr>)))"
proof -
  have n: "\<not> (cfg_data_width cfg \<noteq> 8 \<and> cfg_data_width cfg \<noteq> 16)" using assms by (auto simp: spi_accepted_def)
  show ?thesis unfolding ch32_spi_init_def Let_def if_not_P [OF n] config_init_def by (cases "ch_Init h") simp
qed

lemma config_bit:
  "bit (config_bits k cfg) 0 \<longleftrightarrow> cfg_mode cfg AND RT_SPI_CPHA \<noteq> 0" "bit (config_bits k cfg) 1 \<longleftrightarrow> cfg_mode cfg AND RT_SPI_CPOL \<noteq> 0"
  "bit (config_bits k cfg) 2 \<longleftrightarrow> cfg_mode cfg AND RT_SPI_SLAVE = 0" "bit (config_bits k cfg) 7 \<longleftrightarrow> cfg_mode cfg AND RT_SPI_MSB = 0"
  "bit (config_bits k cfg) 8 \<longleftrightarrow> cfg_mode cfg AND RT_SPI_SLAVE = 0" "bit (config_bits k cfg) 9 \<longleftrightarrow> cfg_mode cfg AND RT_SPI_NO_CS = 0"
  "\<not> bit (config_bits k cfg) 10" "bit (config_bits k cfg) 11 \<longleftrightarrow> cfg_data_width cfg \<noteq> 8"
  "bit (config_bits k cfg) 14 \<longleftrightarrow> cfg_mode cfg AND RT_SPI_3WIRE \<noteq> 0" "bit (config_bits k cfg) 15 \<longleftrightarrow> cfg_mode cfg AND RT_SPI_3WIRE \<noteq> 0"
  by (simp_all add: config_bits_def bit_or_iff prescaler_bits if_distrib [of "\<lambda>x. bit x n" for n] cong: if_cong)

lemma config_division: "config_bits k cfg AND 0x0038 = prescaler (cfg_max_hz cfg) k"
  unfolding config_bits_def bit.conj_disj_distrib2 prescaler_field by (simp add: if_distrib [of "\<lambda>x. x AND y" for y])

lemma programmed_register:
  assumes "ch_CTLR1 h AND NOT CTLR1_CLEAR_Mask = config_bits (ch_clock h) cfg" and "ch_CTLR1 h AND CTLR1_SPE_Set \<noteq> 0"
  shows "spi_programmed cfg h"
proof -
  have b: "bit (config_bits (ch_clock h) cfg) n = (bit (ch_CTLR1 h) n \<and> bit (NOT CTLR1_CLEAR_Mask) n)" for n
    unfolding assms(1) [symmetric] by (simp add: bit_and_iff)
  have e: "bit (ch_CTLR1 h) n = bit (config_bits (ch_clock h) cfg) n" if "n \<in> {0, 1, 2, 7, 8, 9, 10, 11, 14, 15}" for n
    using that unfolding b by auto
  have "ch_CTLR1 h AND 0x0038 = (ch_CTLR1 h AND NOT CTLR1_CLEAR_Mask) AND 0x0038" by (simp add: and.assoc)
  then have d: "division_bits (ch_CTLR1 h) = division_bits (prescaler (cfg_max_hz cfg) (ch_clock h))"
    unfolding assms(1) config_division division_bits_def by (simp add: prescaler_field)
  have "bit (ch_CTLR1 h) 6"
    using assms(2) by (metis and_exp_eq_0_iff_not_bit [of "ch_CTLR1 h" 6, simplified])
  then show ?thesis
    unfolding spi_programmed_def Let_def d using prescaler_division [of "cfg_max_hz cfg" "ch_clock h", unfolded Let_def]
    by (simp add: e config_bit del: One_nat_def)
qed

lemma spi_configure_accepted:
  assumes "spi_accepted cfg" and "spi_configure cfg h = (r, h')"
  shows "r = RT_EOK \<and> spi_programmed cfg h' \<and> ch_wire h' = ch_wire h \<and> ch_clock h' = ch_clock h"
proof -
  have h': "r = RT_EOK" "h' = SPI_Cmd True (SPI_Init (config_init (ch_clock h) cfg) (h\<lparr>ch_Init := config_init (ch_clock h) cfg\<rparr>))"
    using assms(2) unfolding spi_configure_def init_accepted [OF assms(1)] by simp_all
  have c: "ch_CTLR1 h' = (ch_CTLR1 h AND CTLR1_CLEAR_Mask) OR config_bits (ch_clock h) cfg OR CTLR1_SPE_Set" "ch_clock h' = ch_clock h"
    "ch_wire h' = ch_wire h"
    unfolding h'(2) SPI_Cmd_def SPI_Init_def init_bits_config by (simp_all add: or.assoc)
  have "spi_programmed cfg h'"
    by (rule programmed_register; unfold c) (use programmed_bits [of "ch_CTLR1 h" "ch_clock h" cfg]
      or_spe [of "(ch_CTLR1 h AND CTLR1_CLEAR_Mask) OR config_bits (ch_clock h) cfg", unfolded or.assoc] in simp_all)
  then show ?thesis using h'(1) c by simp
qed

lemma spi_configure_refused:
  "\<not> spi_accepted cfg \<Longrightarrow> spi_configure cfg h = (r, h') \<Longrightarrow> r = RT_EIO \<and> (\<exists>i. h' = h\<lparr>ch_Init := i\<rparr>)"
  by (auto simp: spi_accepted_def spi_configure_def ch32_spi_init_def Let_def)

lemma cs_write_registers [simp]:
  "ch_CTLR1 (cs_write p cfg cs b l h) = ch_CTLR1 h" "ch_clock (cs_write p cfg cs b l h) = ch_clock h"
  by (simp_all add: cs_write_def)

lemma released_not_3wire: "not_3wire cfg \<Longrightarrow> released cfg msg h = h"
  by (simp add: released_def not_3wire_def)

lemma spi_programmed_cong: "ch_CTLR1 h' = ch_CTLR1 h \<Longrightarrow> ch_clock h' = ch_clock h \<Longrightarrow> spi_programmed c h' = spi_programmed c h"
  by (simp add: spi_programmed_def)

interpretation ch32: spi_driver "ch_spi_ops p" spi_programmed spi_accepted not_3wire message_ok for p :: "'e spi_wire"
proof
  fix c :: rt_spi_configuration and h h' :: "'e ch32_spi" and r
  assume "ops_configure (ch_spi_ops p) c h = (r, h')"
  then have c: "spi_configure c h = (r, h')" by (simp add: ch_spi_ops_def)
  show "r = RT_EOK \<and> spi_programmed c h'" if "spi_accepted c" using spi_configure_accepted [OF that c] by simp
  show "r \<noteq> RT_EOK \<and> (\<forall>c'. spi_programmed c' h \<longrightarrow> spi_programmed c' h')" if "\<not> spi_accepted c"
    using spi_configure_refused [OF that c] by (auto simp: spi_programmed_def)
next
  fix msg :: rt_spi_message and c ud m and h :: "'e ch32_spi"
  assume ok: "message_ok msg"
  obtain rs e where w: "wire_exchange p (sent_bytes (sm_send_buf msg) 0 (unat (sm_length msg)) m)
      (ch_wire (cs_write p c ud (sm_cs_take msg) False h)) = (rs, e)" by fastforce
  note x = spixfer_eq [OF ok [unfolded message_ok_def] w]
  show "ops_xfer (ch_spi_ops p) c ud msg m h \<noteq> None" unfolding ch_spi_ops_def by (simp add: x)
  fix n msg' m' h' assume "ops_xfer (ch_spi_ops p) c ud msg m h = Some (n, msg', m', h')" and st: "not_3wire c" "spi_programmed c h"
  then have h': "h' = cs_write p c ud (sm_cs_release msg) True (if sm_length msg = 0 then cs_write p c ud (sm_cs_take msg) False h
      else (cs_write p c ud (sm_cs_take msg) False h)\<lparr>ch_wire := e\<rparr>)"
    by (auto simp: ch_spi_ops_def x released_not_3wire [OF st(1)])
  have "ch_CTLR1 h' = ch_CTLR1 h" "ch_clock h' = ch_clock h" unfolding h' cs_write_registers by (cases "sm_length msg = 0"; simp)+
  then show "spi_programmed c h'" using st(2) spi_programmed_cong by blast
qed

end
