(* ===== verification/SpiBoard.thy ===== *)
theory SpiBoard
  imports SpiDriver
begin

text \<open>
  The SPI stack of the board: what the device framework, the SPI core and the driver of the chip do together.  The locales
  of the two interfaces are instantiated here with the model of the code, and the properties are written out over it.
\<close>

section \<open>SPI devices in the device framework\<close>

text \<open>A device of \<^verbatim>\<open>spi_dev.c\<close> has no functions to initialise, open and close it.\<close>

definition plain_device :: "nat \<Rightarrow> kernel \<times> 'h \<Rightarrow> bool" where
  "plain_device d s \<longleftrightarrow> (\<exists>dev. k_devices (fst s) d = Some dev \<and> dv_init dev = None \<and> dv_open dev = None \<and> dv_close dev = None)"

interpretation spi_dev: device_driver "spi_fns env ops" d "plain_device d" for env :: env and ops :: "'h rt_spi_ops" and d :: nat
  by unfold_locales (auto simp: plain_device_def)

text \<open>
  Opening and closing an SPI device is counting: starting from \<open>c\<close> references, any sequence of calls gives the results the
  counter gives - a stand-alone device that is open is busy, a closed one cannot be closed - and leaves the reference
  count where the counter ends, with the device marked open exactly when it is positive.  The sequence must stay below
  256 references, the range of the count.
\<close>

theorem spi_device_references:
  assumes "k_devices k d = Some dev" and "dv_init dev = None" and "dv_open dev = None" and "dv_close dev = None"
    and "counted c dev" and "counts_fit (standalone dev) xs c"
  shows "returns (device_calls (spi_fns env ops) d xs (k, io)) (\<lambda>(rs, k', io'). rs = fst (count_calls (standalone dev) xs c) \<and>
    (\<exists>dev'. k_devices k' d = Some dev' \<and> counted (snd (count_calls (standalone dev) xs c)) dev'))"
proof -
  have "spi_dev.counts d c (standalone dev) (k, io)"
    using assms(1-5) by (simp add: spi_dev.counts_def plain_device_def)
  from spi_dev.calls_count [OF this assms(6), of env ops] show ?thesis
    by (auto elim!: returns_mono simp: spi_dev.counts_def)
qed

definition sample_device :: rt_device where
  "sample_device = zero_device\<lparr>dv_parent := sample_object (RT_Object_Class_Device OR RT_Object_Class_Static) 0, dv_flag := RT_DEVICE_FLAG_STANDALONE,
     dv_user_data := 4\<rparr>"

theorem spi_device_references_witness:
  "\<forall>env (ops :: nat rt_spi_ops) io. returns (device_calls (spi_fns env ops) 500 [Close, Open 3, Open 3, Close, Close]
      (sample_kernel\<lparr>k_devices := [500 \<mapsto> sample_device]\<rparr>, io))
    (\<lambda>(rs, k', io'). rs = [- RT_ERROR, RT_EOK, - RT_EBUSY, RT_EOK, - RT_ERROR])"
proof (intro allI)
  fix env and ops :: "nat rt_spi_ops" and io
  let ?k = "sample_kernel\<lparr>k_devices := [500 \<mapsto> sample_device]\<rparr>"
  have d: "k_devices ?k 500 = Some sample_device" "dv_init sample_device = None" "dv_open sample_device = None"
    "dv_close sample_device = None" "standalone sample_device"
    by (simp_all add: sample_device_def zero_device_def)
  have c: "counted 0 sample_device"
    by (simp add: counted_def sample_device_def sample_object_def zero_device_def rt_object_get_type_def)
  have f: "counts_fit (standalone sample_device) [Close, Open 3, Open 3, Close, Close] 0" using d(5) by simp
  show "returns (device_calls (spi_fns env ops) 500 [Close, Open 3, Open 3, Close, Close] (?k, io))
      (\<lambda>(rs, k', io'). rs = [- RT_ERROR, RT_EOK, - RT_EBUSY, RT_EOK, - RT_ERROR])"
    by (rule returns_mono [OF spi_device_references [OF d(1-4) c f, of env ops io]]) (use d(5) in \<open>auto split: prod.splits\<close>)
qed

section \<open>Transfers of the board\<close>

text \<open>
  The state between two calls of thread \<open>t\<close>: no bus is held, the registers of a bus are set up for the device that owns it,
  no device asks for the three-wire mode, and every device hangs on a registered bus.
\<close>

definition spi_state_ok :: "nat \<Rightarrow> 'e ch32_spi spi_state \<Rightarrow> bool" where
  "spi_state_ok t s \<longleftrightarrow> buses_free t s \<and>
     (\<forall>b bus d. io_buses (snd s) b = Some bus \<longrightarrow> sb_owner bus = Some d \<longrightarrow>
        (\<exists>dev. io_devs (snd s) d = Some dev \<and> sd_bus dev = Some b \<and> spi_programmed (sd_config dev) (io_drv (snd s) b))) \<and>
     (\<forall>d dev. io_devs (snd s) d = Some dev \<longrightarrow> not_3wire (sd_config dev) \<and> (\<forall>b. sd_bus dev = Some b \<longrightarrow> io_buses (snd s) b \<noteq> None))"


lemma spi_state_ok_eq: "ch32.spi_ok t s = spi_state_ok t s"
  by (simp add: ch32.spi_ok_def ch32.owner_ok_def spi_state_ok_def)



lemma rt_spi_transfer_moves:
  assumes s: "spi_state_ok t (k, io)" and d: "io_devs io d = Some dev" "sd_bus dev = Some b" "k_devices k d = Some dv"
    and cfg: "spi_accepted (sd_config dev)" and buf: "buffers_ok send recv (unat len)" "0 < len"
  shows "let select = (\<lambda>level e. if cfg_mode (sd_config dev) AND RT_SPI_NO_CS = 0 then gpio_write p (dv_user_data dv) level e else e);
      (rs, e) = wire_exchange p (sent_bytes send 0 (unat len) (io_mem io)) (select False (ch_wire (io_drv io b))) in
    returns (rt_spi_transfer env (ch_spi_ops p) d send recv len (k, io)) (\<lambda>(r, k', io'). r = Done len \<and>
      io_mem io' = received recv 0 rs (io_mem io) \<and> ch_wire (io_drv io' b) = select True e \<and>
      (\<forall>c. c \<noteq> b \<longrightarrow> io_drv io' c = io_drv io c) \<and> map_option sb_owner (io_buses io' b) = Some (Some d) \<and>
      spi_programmed (sd_config dev) (io_drv io' b) \<and> io_devs io' = io_devs io \<and> spi_state_ok t (k', io'))"
proof -
  let ?select = "\<lambda>level e. if cfg_mode (sd_config dev) AND RT_SPI_NO_CS = 0 then gpio_write p (dv_user_data dv) level e else e"
  let ?msg = "spi_message send recv len True True"
  obtain bus where bus: "io_buses io b = Some bus" using s d by (fastforce simp: spi_state_ok_def)
  have st: "not_3wire (sd_config dev)" "buses_free t (k, io)" "ch32.owner_ok io"
    using s d(1) by (auto simp: spi_state_ok_def ch32.owner_ok_def)
  have dev: "spi_device d (k, io) = Some (dev, b, dv_user_data dv)" using d by (simp add: spi_device_def)
  have msg: "message_ok ?msg" using buf by (simp add: message_ok_def spi_message_def)
  obtain rs e where w: "wire_exchange p (sent_bytes send 0 (unat len) (io_mem io)) (?select False (ch_wire (io_drv io b))) = (rs, e)"
    by fastforce
  have "returns (rt_spi_transfer env (ch_spi_ops p) d send recv len (k, io)) (\<lambda>(r, k', io'). r = Done len \<and>
      io_mem io' = received recv 0 rs (io_mem io) \<and> ch_wire (io_drv io' b) = ?select True e \<and>
      (\<forall>c. c \<noteq> b \<longrightarrow> io_drv io' c = io_drv io c) \<and> map_option sb_owner (io_buses io' b) = Some (Some d) \<and>
      spi_programmed (sd_config dev) (io_drv io' b) \<and> io_devs io' = io_devs io \<and> spi_state_ok t (k', io'))"
  proof (rule returns_mono [OF ch32.transfer_returns [OF st(2,3) dev bus st(1) msg]], clarify)
    fix r k' io'
    assume a: "buses_free t (k', io')" "ch32.owner_ok io'" "io_devs io' = io_devs io" "dom (io_buses io') = dom (io_buses io)"
      and "if spi_accepted (sd_config dev) \<or> sb_owner bus = Some d
        then \<exists>n. r = Done n \<and> ch32.spi_transferred p d b (dv_user_data dv) ?msg io n io' else r = Done 0 \<and>
          (\<exists>th. k_threads k' t = Some th \<and> th_error th = - RT_EIO) \<and> io_mem io' = io_mem io \<and> io_buses io' = io_buses io"
    then obtain n where r: "r = Done n" "ch32.spi_transferred p d b (dv_user_data dv) ?msg io n io'" using cfg by auto
    obtain h m' h' msg' where x: "ops_xfer (ch_spi_ops p) (sd_config dev) (dv_user_data dv) ?msg (io_mem io) h = Some (n, msg', m', h')"
        "h = (if sb_owner bus = Some d then io_drv io b else snd (ops_configure (ch_spi_ops p) (sd_config dev) (io_drv io b)))"
      and io': "io' = io\<lparr>io_mem := m', io_drv := (io_drv io)(b := h'), io_buses := (io_buses io)(b \<mapsto> bus\<lparr>sb_owner := Some d\<rparr>)\<rparr>"
      using r(2) d(1) bus unfolding ch32.spi_transferred_def by auto
    have "ch_wire (snd (spi_configure (sd_config dev) (io_drv io b))) = ch_wire (io_drv io b)"
      using spi_configure_accepted [OF cfg, of "io_drv io b" _ "snd (spi_configure (sd_config dev) (io_drv io b))"] by (metis prod.collapse)
    then have h: "ch_wire h = ch_wire (io_drv io b)" using x(2) by (simp add: ch_spi_ops_def)
    have w': "(let (rs, e) = (rs, e) in spixfer p (sd_config dev) (dv_user_data dv) ?msg (io_mem io) h =
        Some (len, ?msg, received recv 0 rs (io_mem io), h\<lparr>ch_wire := ?select True e\<rparr>))"
      using spixfer_transfers [OF buf st(1) [unfolded not_3wire_def], of p "dv_user_data dv" "io_mem io" h]
      unfolding h w Let_def by simp
    then have n: "n = len" "m' = received recv 0 rs (io_mem io)" "h' = h\<lparr>ch_wire := ?select True e\<rparr>"
      using x(1) by (simp_all add: ch_spi_ops_def)
    have p: "spi_programmed (sd_config dev) (io_drv io' b)"
      by (rule ch32.owner_okD [OF a(2), where bus = "bus\<lparr>sb_owner := Some d\<rparr>" and d = d]) (use io' a(3) d(1) in simp_all)
    have "io_buses io' c \<noteq> None \<longleftrightarrow> io_buses io c \<noteq> None" for c using a(4) by (auto simp: dom_def)
    then have "ch32.spi_ok t (k', io')"
      using s a unfolding spi_state_ok_eq [symmetric] ch32.spi_ok_def by simp
    then show "r = Done len \<and> io_mem io' = received recv 0 rs (io_mem io) \<and> ch_wire (io_drv io' b) = ?select True e \<and>
      (\<forall>c. c \<noteq> b \<longrightarrow> io_drv io' c = io_drv io c) \<and> map_option sb_owner (io_buses io' b) = Some (Some d) \<and>
      spi_programmed (sd_config dev) (io_drv io' b) \<and> io_devs io' = io_devs io \<and> spi_state_ok t (k', io')"
      using r(1) n io' p a(3) by (simp add: spi_state_ok_eq)
  qed
  then show ?thesis unfolding Let_def w by simp
qed

text \<open>
  C8. A transfer of a device whose configuration the driver accepts, on a free bus whose wire works (the peripheral reports that it
  can take a byte, and then the exchange, within 201 polls; a wire that does not is given up on after 201 polls and read as
  zeros): it returns the length, what is connected to the bus has been selected, has seen the bytes of the send buffer (\<^verbatim>\<open>0xff\<close>
  for each when there is none) in order and has been released, the receive buffer holds its answers in order,
  nothing else in memory has changed and no other bus was touched; the bus now belongs to the device, is set up for it, and
  is free again.
\<close>

theorem rt_spi_transfer_exchange:
  assumes s: "spi_state_ok t (k, io)" and d: "io_devs io d = Some dev" "sd_bus dev = Some b" "k_devices k d = Some dv"
    and cfg: "spi_accepted (sd_config dev)" and buf: "buffers_ok send recv (unat len)" "0 < len"
    and wire: "spi_wire_ok p peer dr react sel"
  shows "let select = (\<lambda>level q. if cfg_mode (sd_config dev) AND RT_SPI_NO_CS = 0 then sel (dv_user_data dv) level q else q);
      xs = (case send of Some a \<Rightarrow> map (io_mem io) [a..<a + unat len] | None \<Rightarrow> replicate (unat len) 0xff);
      (rs, q) = answers react xs (select False (peer (ch_wire (io_drv io b)))) in
    returns (rt_spi_transfer env (ch_spi_ops p) d send recv len (k, io)) (\<lambda>(r, k', io'). r = Done len \<and>
      io_mem io' = (case recv of Some a \<Rightarrow> bytes_at a rs (io_mem io) | None \<Rightarrow> io_mem io) \<and>
      peer (ch_wire (io_drv io' b)) = select True q \<and>
      (\<forall>c. c \<noteq> b \<longrightarrow> io_drv io' c = io_drv io c) \<and> map_option sb_owner (io_buses io' b) = Some (Some d) \<and>
      spi_programmed (sd_config dev) (io_drv io' b) \<and> io_devs io' = io_devs io \<and> spi_state_ok t (k', io'))"
proof -
  let ?select = "\<lambda>level e. if cfg_mode (sd_config dev) AND RT_SPI_NO_CS = 0 then gpio_write p (dv_user_data dv) level e else e"
  obtain rs e where w: "wire_exchange p (sent_bytes send 0 (unat len) (io_mem io)) (?select False (ch_wire (io_drv io b))) = (rs, e)"
    by fastforce
  have sel: "peer (gpio_write p cs level e) = sel cs level (peer e)" for cs level e using wire by (simp add: spi_wire_ok_def)
  have x: "answers react (sent_bytes send 0 (unat len) (io_mem io)) (peer (?select False (ch_wire (io_drv io b)))) = (rs, peer e)"
    by (rule exchange_answered [OF wire w])
  show ?thesis
    using rt_spi_transfer_moves [OF s d cfg buf, of p env] w x
    by (cases "cfg_mode (sd_config dev) AND RT_SPI_NO_CS = 0"; cases send; cases recv)
      (auto elim!: returns_mono simp: sent_bytes_def received_def sel)
qed

text \<open>
  C35. Transfers on one bus exclude each other: while another thread holds the bus, a transfer stops the calling thread before
  it has touched the bus, the memory or any device; the thread is now on the waiting list of the lock, the
  invariants of the kernel and of the lock hold, and the holder runs at least at the caller's priority.
\<close>

theorem rt_spi_transfer_excluded:
  assumes i: "kinv k" and d: "spi_device d (k, io) = Some (dev, b, ud)"
    and m: "k_mutexes k (bus_lock b) = Some mu" "mutex_ok mu" "mutex_held (bus_lock b) mu ow k" "ow \<noteq> t"
    and c: "k_current k = Some t" "k_threads k t = Some th" "thread_stat th = RT_THREAD_RUNNING" "k_irq_nest k = 0"
  shows "returns (rt_spi_transfer env ops d send recv len (k, io)) (\<lambda>(r, k', io'). r = Wait t \<and> io' = io \<and> kinv k' \<and>
    mutex_inv (bus_lock b) k' \<and> t \<in> set (k_lists k' (MutexQ (bus_lock b))) \<and>
    (\<exists>oth'. k_threads k' ow = Some oth' \<and> prio oth' \<le> prio th))"
proof -
  have "RT_WAITING_FOREVER \<noteq> (0 :: int)" "RT_WAITING_FOREVER < (2 ^ 31 - 1 :: int)" by simp_all
  from mutex_take_waits [OF i m c this, of env]
  have "returns (bus_take env b (spi_transfer_locked env ops d send recv len) (k, io)) (\<lambda>(r, k', io'). r = Wait t \<and> io' = io \<and> kinv k' \<and>
      mutex_inv (bus_lock b) k' \<and> t \<in> set (k_lists k' (MutexQ (bus_lock b))) \<and>
      (\<exists>oth'. k_threads k' ow = Some oth' \<and> prio oth' \<le> prio th))"
    unfolding bus_take_def fst_conv by (rule returns_bind_pair) auto
  then show ?thesis by (simp add: rt_spi_transfer_def d)
qed

section \<open>A sample board\<close>

text \<open>
  Device 500, the machine's keyboard configuration on the bus at address 124, whose lock is the free mutex 200 of the sample kernel; device 501 on
  the bus at address 126, whose lock thread 8 holds.  The wire of the buses returns what it is sent.
\<close>

definition sample_config :: rt_spi_configuration where
  "sample_config = \<lparr>cfg_mode = RT_SPI_MSB OR RT_SPI_NO_CS, cfg_data_width = 8, cfg_max_hz = 115200\<rparr>"

definition sample_io :: "u8 ch32_spi spi_io" where
  "sample_io = \<lparr>io_mem = of_nat, io_buses = [124 \<mapsto> \<lparr>sb_mode = RT_SPI_BUS_MODE_SPI, sb_owner = None\<rparr>],
     io_devs = [500 \<mapsto> \<lparr>sd_bus = Some 124, sd_config = sample_config\<rparr>], io_msgs = Map.empty, io_drv = (\<lambda>b. sample_spi 0)\<rparr>"

definition board_kernel :: kernel where
  "board_kernel = sample_kernel\<lparr>k_devices := [500 \<mapsto> sample_device, 501 \<mapsto> sample_device]\<rparr>"

lemma sample_config_ok [simp]: "spi_accepted sample_config" "not_3wire sample_config" "cfg_mode sample_config AND RT_SPI_NO_CS \<noteq> 0"
  by (simp_all add: sample_config_def spi_accepted_def not_3wire_def)

lemma sample_io_simps [simp]:
  "io_devs sample_io 500 = Some \<lparr>sd_bus = Some 124, sd_config = sample_config\<rparr>" "io_mem sample_io = of_nat"
  "io_buses sample_io 124 = Some \<lparr>sb_mode = RT_SPI_BUS_MODE_SPI, sb_owner = None\<rparr>" "io_drv sample_io b = sample_spi 0"
  by (simp_all add: sample_io_def)

lemma board_kernel_simps [simp]:
  "kinv board_kernel" "k_devices board_kernel 500 = Some sample_device" "k_devices board_kernel 501 = Some sample_device"
  "k_current board_kernel = Some 10" "k_irq_nest board_kernel = 0" "k_threads board_kernel = sample_threads"
  "k_mutexes board_kernel = k_mutexes sample_kernel" "k_lists board_kernel = sample_lists"
  using sample_kinv by (simp_all add: board_kernel_def kinvx_def)

lemma board_free: "lock_free 124 board_kernel"
  by (simp add: lock_free_def bus_lock_def sample_kernel_def mutex_free_def sample_mutex_def sample_lists_def mutex_ok_def
      sample_object_def rt_object_get_type_def)



text \<open>
  A peer that answers each byte with the one it was sent before, behind a peripheral that needs up to three polls for either
  flag.  Its state is what it has seen; the wire has the data register and a counter beside it.
\<close>

definition slow_flag :: "'a \<times> 'b \<times> nat \<Rightarrow> bool \<times> 'a \<times> 'b \<times> nat" where
  "slow_flag e = (case e of (q, d, n) \<Rightarrow> (n mod 4 = 0, q, d, n - 1))"

definition delayed_byte :: "u8 \<Rightarrow> u8 list \<Rightarrow> u8 \<times> u8 list" where
  "delayed_byte x q = (if q = [] then 0 else last q, q @ [x])"

definition slow_wire :: "(u8 list \<times> u8 \<times> nat) spi_wire" where
  "slow_wire = \<lparr>spi_txe = slow_flag, spi_rxne = slow_flag,
     spi_send_data = (\<lambda>x (q, d, n). (q @ [x], fst (delayed_byte x q), 3)), spi_receive_data = (\<lambda>(q, d, n). (d, (q, d, 2))),
     gpio_write = (\<lambda>cs level e. e)\<rparr>"

lemma slow_flag_ready: "ready_in slow_flag e"
proof -
  obtain q d n where e: "e = (q, d, n)" by (cases e)
  have "((\<lambda>e. snd (slow_flag e)) ^^ k) (q, d, n) = (q, d, n - k)" for k
    by (induction k) (simp_all add: slow_flag_def)
  then have "fst (slow_flag (((\<lambda>e. snd (slow_flag e)) ^^ (n mod 4)) e))"
    by (simp add: e slow_flag_def)
  then show ?thesis unfolding ready_in_def by (intro exI [of _ "n mod 4"]) simp
qed

lemma slow_wire_ok: "spi_wire_ok slow_wire fst (\<lambda>(q, d, n). d) delayed_byte (\<lambda>cs level q. q)"
  by (auto simp: spi_wire_ok_def slow_wire_def slow_flag_ready) (auto simp: slow_flag_def delayed_byte_def split: prod.splits)

definition slow_io :: "(u8 list \<times> u8 \<times> nat) ch32_spi spi_io" where
  "slow_io = \<lparr>io_mem = of_nat, io_buses = io_buses sample_io, io_devs = io_devs sample_io, io_msgs = Map.empty,
     io_drv = (\<lambda>b. sample_spi ([], 0, 3))\<rparr>"

lemma slow_board_ok: "spi_state_ok 10 (board_kernel, slow_io)"
  using board_free by (auto simp: spi_state_ok_def buses_free_def slow_io_def sample_io_def split: if_splits)

theorem rt_spi_transfer_exchange_witness:
  "\<forall>env. returns (rt_spi_transfer env (ch_spi_ops slow_wire) 500 (Some 40) (Some 50) 3 (board_kernel, slow_io)) (\<lambda>(r, k', io').
     r = Done 3 \<and> io_mem io' 50 = 0 \<and> io_mem io' 51 = 40 \<and> io_mem io' 52 = 41 \<and> io_mem io' 53 = 53 \<and>
     fst (ch_wire (io_drv io' 124)) = [40, 41, 42])"
proof
  fix env
  let ?dev = "\<lparr>sd_bus = Some 124, sd_config = sample_config\<rparr>"
  have d: "io_devs slow_io 500 = Some ?dev" by (simp add: slow_io_def)
  have "spi_accepted (sd_config ?dev)" "buffers_ok (Some 40) (Some 50) (unat (3 :: u32))" "sd_bus ?dev = Some 124" "0 < (3 :: u32)"
    by (simp_all add: buffers_ok_def)
  note x = rt_spi_transfer_exchange [OF slow_board_ok d this(3) board_kernel_simps(2) this(1,2,4) slow_wire_ok, of env]
  have u: "[40..<43] = [40, 41, 42 :: nat]" by (simp add: upt_rec)
  show "returns (rt_spi_transfer env (ch_spi_ops slow_wire) 500 (Some 40) (Some 50) 3 (board_kernel, slow_io)) (\<lambda>(r, k', io').
     r = Done 3 \<and> io_mem io' 50 = 0 \<and> io_mem io' 51 = 40 \<and> io_mem io' 52 = 41 \<and> io_mem io' 53 = 53 \<and>
     fst (ch_wire (io_drv io' 124)) = [40, 41, 42])"
    using x by (simp add: u slow_io_def sample_spi_def delayed_byte_def Let_def) (auto elim!: returns_mono simp: bytes_at_def)
qed

theorem rt_spi_transfer_excluded_witness:
  "\<forall>env. let io = sample_io\<lparr>io_devs := [501 \<mapsto> \<lparr>sd_bus = Some 126, sd_config = sample_config\<rparr>]\<rparr> in
    returns (rt_spi_transfer env (ch_spi_ops loop_back) 501 (Some 40) (Some 50) 3 (board_kernel, io)) (\<lambda>(r, k', io'). r = Wait 10 \<and> io' = io)"
  unfolding Let_def
proof
  fix env
  let ?io = "sample_io\<lparr>io_devs := [501 \<mapsto> \<lparr>sd_bus = Some 126, sd_config = sample_config\<rparr>]\<rparr>"
  have d: "spi_device 501 (board_kernel, ?io) = Some (\<lparr>sd_bus = Some 126, sd_config = sample_config\<rparr>, 126, dv_user_data sample_device)"
    by (simp add: spi_device_def)
  have m: "k_mutexes board_kernel (bus_lock 126) = Some (sample_mutex (Some 8) 20)" "mutex_ok (sample_mutex (Some 8) 20)"
    "mutex_held (bus_lock 126) (sample_mutex (Some 8) 20) 8 board_kernel" "8 \<noteq> (10 :: nat)"
    using sample_mutexes(2,3) sample_mutex_held(2) by (simp_all add: bus_lock_def mutex_held_def waiters_sorted_def inherits_def)
  have c: "k_current board_kernel = Some 10" "k_threads board_kernel 10 = Some (sample_thread RT_THREAD_RUNNING 10)"
    "thread_stat (sample_thread RT_THREAD_RUNNING 10) = RT_THREAD_RUNNING" "k_irq_nest board_kernel = 0" by simp_all
  show "returns (rt_spi_transfer env (ch_spi_ops loop_back) 501 (Some 40) (Some 50) 3 (board_kernel, ?io)) (\<lambda>(r, k', io'). r = Wait 10 \<and> io' = ?io)"
    by (rule returns_mono [OF rt_spi_transfer_excluded [OF board_kernel_simps(1) d m c]]) auto
qed

end
