(* ===== verification/Gpio.thy ===== *)
theory Gpio
  imports Clock
begin

text \<open>
  The pins of the board: \<^verbatim>\<open>components/drivers/misc/pin.c\<close>, the driver \<^verbatim>\<open>libraries/hal_drivers/drv_gpio.c\<close>, and the functions of the
  chip library they use (\<^verbatim>\<open>ch32v30x_gpio.c\<close>, \<^verbatim>\<open>ch32v30x_exti.c\<close>).

  The state has the configuration registers of the ports \<^verbatim>\<open>GPIOA\<close> to \<^verbatim>\<open>GPIOE\<close> (0 to 4), the registers that select and enable the
  external interrupts (by their offset), the enabled interrupts of the interrupt controller, the driver's table and
  mask, and the state \<open>'e\<close> of what is connected to the pins.  The argument \<open>g\<close> is that hardware: what writing the registers
  \<^verbatim>\<open>BSHR\<close> and \<^verbatim>\<open>BCR\<close> and reading \<^verbatim>\<open>INDR\<close> of a port does, and reading and clearing the pending interrupts in \<^verbatim>\<open>INTFR\<close>.
\<close>

section \<open>State\<close>

record 'e gpio_hw =
  gh_BSHR :: "nat \<Rightarrow> u32 \<Rightarrow> 'e \<Rightarrow> 'e"
  gh_BCR :: "nat \<Rightarrow> u32 \<Rightarrow> 'e \<Rightarrow> 'e"
  gh_INDR :: "nat \<Rightarrow> 'e \<Rightarrow> u32"
  gh_INTFR :: "'e \<Rightarrow> u32"
  gh_clear_INTFR :: "u32 \<Rightarrow> 'e \<Rightarrow> 'e"

record rt_pin_irq_hdr =
  ih_pin :: "16 word"
  ih_mode :: u16
  ih_hdr :: "nat option"
  ih_args :: nat

record 'e pin_state =
  ps_CFGLR :: "nat \<Rightarrow> u32"
  ps_CFGHR :: "nat \<Rightarrow> u32"
  ps_EXTICR :: "nat \<Rightarrow> u32"
  ps_EXTI :: "nat \<Rightarrow> u32"
  ps_NVIC :: "nat \<Rightarrow> bool"
  ps_IPRIOR :: "nat \<Rightarrow> u8"
  ps_hdr_tab :: "rt_pin_irq_hdr list"
  ps_enable_mask :: u32
  ps_env :: 'e

abbreviation Bit_RESET :: int where "Bit_RESET \<equiv> 0"
abbreviation PIN_LOW :: int where "PIN_LOW \<equiv> 0"
abbreviation PIN_HIGH :: int where "PIN_HIGH \<equiv> 1"

section \<open>The chip library\<close>

record GPIO_InitTypeDef =
  GPIO_Pin :: u16
  GPIO_Speed :: u32
  GPIO_Mode :: u32

abbreviation GPIO_Mode_AIN :: u32 where "GPIO_Mode_AIN \<equiv> 0x0"
abbreviation GPIO_Mode_IN_FLOATING :: u32 where "GPIO_Mode_IN_FLOATING \<equiv> 0x04"
abbreviation GPIO_Mode_IPD :: u32 where "GPIO_Mode_IPD \<equiv> 0x28"
abbreviation GPIO_Mode_IPU :: u32 where "GPIO_Mode_IPU \<equiv> 0x48"
abbreviation GPIO_Mode_Out_OD :: u32 where "GPIO_Mode_Out_OD \<equiv> 0x14"
abbreviation GPIO_Mode_Out_PP :: u32 where "GPIO_Mode_Out_PP \<equiv> 0x10"
abbreviation GPIO_Speed_50MHz :: u32 where "GPIO_Speed_50MHz \<equiv> 3"

text \<open>The mode and speed of a pin as they go into the four bits of the register.\<close>

definition currentmode :: "GPIO_InitTypeDef \<Rightarrow> u32" where
  "currentmode ini = (GPIO_Mode ini AND 0x0F) OR (if GPIO_Mode ini AND 0x10 \<noteq> 0 then GPIO_Speed ini else 0)"

text \<open>One round of the loops over eight pins; \<open>off\<close> is 0 for the low and 8 for the high register.\<close>

definition gpio_init_pin :: "'e gpio_hw \<Rightarrow> nat \<Rightarrow> GPIO_InitTypeDef \<Rightarrow> nat \<Rightarrow> nat \<Rightarrow> u32 \<times> 'e \<Rightarrow> u32 \<times> 'e" where
  "gpio_init_pin g port ini off pinpos = (\<lambda>(tmpreg, e).
     let pos = push_bit (pinpos + off) (1 :: u32);
         currentpin = ucast (GPIO_Pin ini) AND pos
     in if currentpin = pos then
          let pinmask = push_bit (pinpos * 4) 0x0F;
              tmpreg = tmpreg AND NOT pinmask;
              tmpreg = tmpreg OR push_bit (pinpos * 4) (currentmode ini)
          in (tmpreg,
              if GPIO_Mode ini = GPIO_Mode_IPD then gh_BCR g port (push_bit (pinpos + off) 1) e
              else if GPIO_Mode ini = GPIO_Mode_IPU then gh_BSHR g port (push_bit (pinpos + off) 1) e
              else e)
        else (tmpreg, e))"

definition GPIO_Init :: "'e gpio_hw \<Rightarrow> nat \<Rightarrow> GPIO_InitTypeDef \<Rightarrow> 'e pin_state \<Rightarrow> 'e pin_state" where
  "GPIO_Init g port ini s =
     (let s = (if GPIO_Pin ini AND 0x00FF \<noteq> 0 then
                 let (tmpreg, e) = fold (gpio_init_pin g port ini 0) [0..<8] (ps_CFGLR s port, ps_env s)
                 in s\<lparr>ps_CFGLR := (ps_CFGLR s)(port := tmpreg), ps_env := e\<rparr>
               else s)
      in if GPIO_Pin ini > 0x00FF then
           let (tmpreg, e) = fold (gpio_init_pin g port ini 8) [0..<8] (ps_CFGHR s port, ps_env s)
           in s\<lparr>ps_CFGHR := (ps_CFGHR s)(port := tmpreg), ps_env := e\<rparr>
         else s)"

definition GPIO_ReadInputDataBit :: "'e gpio_hw \<Rightarrow> nat \<Rightarrow> u16 \<Rightarrow> 'e pin_state \<Rightarrow> int" where
  "GPIO_ReadInputDataBit g port pin s = (if gh_INDR g port (ps_env s) AND ucast pin \<noteq> 0 then 1 else 0)"

definition GPIO_WriteBit :: "'e gpio_hw \<Rightarrow> nat \<Rightarrow> u16 \<Rightarrow> int \<Rightarrow> 'e pin_state \<Rightarrow> 'e pin_state" where
  "GPIO_WriteBit g port pin val s =
     (if val \<noteq> Bit_RESET then s\<lparr>ps_env := gh_BSHR g port (ucast pin) (ps_env s)\<rparr>
      else s\<lparr>ps_env := gh_BCR g port (ucast pin) (ps_env s)\<rparr>)"

definition GPIO_EXTILineConfig :: "u8 \<Rightarrow> u8 \<Rightarrow> 'e pin_state \<Rightarrow> 'e pin_state" where
  "GPIO_EXTILineConfig port_source pin_source s =
     (let sh = 4 * unat (pin_source AND 3); r = unat (drop_bit 2 pin_source);
          tmp = push_bit sh 0x0F;
          v = ps_EXTICR s r AND NOT tmp
      in s\<lparr>ps_EXTICR := (ps_EXTICR s)(r := v OR push_bit sh (ucast port_source))\<rparr>)"

record EXTI_InitTypeDef =
  EXTI_Line :: u32
  EXTI_Mode :: nat
  EXTI_Trigger :: nat
  EXTI_LineCmd :: bool

abbreviation INTENR :: nat where "INTENR \<equiv> 0x00"
abbreviation EVENR :: nat where "EVENR \<equiv> 0x04"
abbreviation RTENR :: nat where "RTENR \<equiv> 0x08"
abbreviation FTENR :: nat where "FTENR \<equiv> 0x0C"
abbreviation EXTI_Mode_Interrupt :: nat where "EXTI_Mode_Interrupt \<equiv> 0x00"
abbreviation EXTI_Trigger_Rising :: nat where "EXTI_Trigger_Rising \<equiv> 0x08"
abbreviation EXTI_Trigger_Falling :: nat where "EXTI_Trigger_Falling \<equiv> 0x0C"
abbreviation EXTI_Trigger_Rising_Falling :: nat where "EXTI_Trigger_Rising_Falling \<equiv> 0x10"

definition exti_set :: "nat \<Rightarrow> u32 \<Rightarrow> (nat \<Rightarrow> u32) \<Rightarrow> nat \<Rightarrow> u32" where
  "exti_set reg line r = r(reg := r reg OR line)"

definition exti_reset :: "nat \<Rightarrow> u32 \<Rightarrow> (nat \<Rightarrow> u32) \<Rightarrow> nat \<Rightarrow> u32" where
  "exti_reset reg line r = r(reg := r reg AND NOT line)"

definition EXTI_Init :: "EXTI_InitTypeDef \<Rightarrow> 'e pin_state \<Rightarrow> 'e pin_state" where
  "EXTI_Init ini s =
     (let line = EXTI_Line ini; r = ps_EXTI s in
      s\<lparr>ps_EXTI :=
        (if EXTI_LineCmd ini then
           let r = exti_reset INTENR line r;
               r = exti_reset EVENR line r;
               r = exti_set (EXTI_Mode ini) line r;
               r = exti_reset RTENR line r;
               r = exti_reset FTENR line r
           in if EXTI_Trigger ini = EXTI_Trigger_Rising_Falling then exti_set FTENR line (exti_set RTENR line r)
              else exti_set (EXTI_Trigger ini) line r
         else exti_reset (EXTI_Mode ini) line r)\<rparr>)"

definition EXTI_GetITStatus :: "'e gpio_hw \<Rightarrow> u32 \<Rightarrow> 'e pin_state \<Rightarrow> bool" where
  "EXTI_GetITStatus g line s =
     (let enablestatus = ps_EXTI s INTENR AND line in gh_INTFR g (ps_env s) AND line \<noteq> 0 \<and> enablestatus \<noteq> 0)"

definition EXTI_ClearITPendingBit :: "'e gpio_hw \<Rightarrow> u32 \<Rightarrow> 'e pin_state \<Rightarrow> 'e pin_state" where
  "EXTI_ClearITPendingBit g line s = s\<lparr>ps_env := gh_clear_INTFR g line (ps_env s)\<rparr>"

section \<open>The driver\<close>

text \<open>The table of the pins: number, port and bit.\<close>

definition pins :: "(int \<times> nat \<times> u32) list" where
  "pins = map (\<lambda>i. (int i, i div 16, push_bit (i mod 16) 1)) [0..<80]"

definition pin_irq_map :: "(u16 \<times> nat) list" where
  "pin_irq_map = zip (map (\<lambda>i. push_bit i 1) [0..<16])
     [22, 23, 24, 25, 26, 39, 39, 39, 39, 39, 56, 56, 56, 56, 56, 56]"

text \<open>The parameter is a \<^verbatim>\<open>uint8_t\<close>: the number is cut to eight bits.\<close>

definition get_pin :: "int \<Rightarrow> (int \<times> nat \<times> u32) option" where
  "get_pin pin =
     (let i = unat (word_of_int pin :: u8) in
      if i < length pins then (if fst (pins ! i) = -1 then None else Some (pins ! i)) else None)"

definition ch32_pin_write :: "'e gpio_hw \<Rightarrow> int \<Rightarrow> int \<Rightarrow> 'e pin_state \<Rightarrow> 'e pin_state" where
  "ch32_pin_write g pin val s =
     (case get_pin pin of None \<Rightarrow> s | Some (index, port, pinbit) \<Rightarrow> GPIO_WriteBit g port (ucast pinbit) val s)"

definition ch32_pin_read :: "'e gpio_hw \<Rightarrow> int \<Rightarrow> 'e pin_state \<Rightarrow> int" where
  "ch32_pin_read g pin s =
     (case get_pin pin of None \<Rightarrow> PIN_LOW | Some (index, port, pinbit) \<Rightarrow> GPIO_ReadInputDataBit g port (ucast pinbit) s)"

definition ch32_pin_mode :: "'e gpio_hw \<Rightarrow> int \<Rightarrow> int \<Rightarrow> 'e pin_state \<Rightarrow> 'e pin_state" where
  "ch32_pin_mode g pin mode s =
     (case get_pin pin of
        None \<Rightarrow> s
      | Some (index, port, pinbit) \<Rightarrow>
          let ini = \<lparr>GPIO_Pin = ucast pinbit, GPIO_Speed = GPIO_Speed_50MHz, GPIO_Mode = GPIO_Mode_Out_PP\<rparr>;
              ini = (if mode = 0 then ini\<lparr>GPIO_Mode := GPIO_Mode_Out_PP\<rparr>
                     else if mode = 1 then ini\<lparr>GPIO_Mode := GPIO_Mode_IN_FLOATING\<rparr>
                     else if mode = 2 then ini\<lparr>GPIO_Mode := GPIO_Mode_IPU\<rparr>
                     else if mode = 3 then ini\<lparr>GPIO_Mode := GPIO_Mode_IPD\<rparr>
                     else if mode = 4 then ini\<lparr>GPIO_Mode := GPIO_Mode_Out_OD\<rparr>
                     else ini)
          in GPIO_Init g port ini s)"

definition bit2bitno :: "u32 \<Rightarrow> int" where
  "bit2bitno b = (case find (\<lambda>i. push_bit i 1 = b) [0..<32] of Some i \<Rightarrow> int i | None \<Rightarrow> -1)"

definition get_pin_irq_map :: "u32 \<Rightarrow> (u16 \<times> nat) option" where
  "get_pin_irq_map pinbit =
     (let mapindex = bit2bitno pinbit in
      if mapindex < 0 \<or> mapindex \<ge> int (length pin_irq_map) then None else Some (pin_irq_map ! nat mapindex))"

text \<open>
  What attaching, detaching and enabling start with: the number of the line.  The functions report \<^verbatim>\<open>RT_ENOSYS\<close> and \<^verbatim>\<open>RT_EBUSY\<close>
  without the minus sign.
\<close>

definition irq_line :: "int \<Rightarrow> (nat \<times> u32 \<times> nat) option" where
  "irq_line pin =
     (case get_pin pin of
        None \<Rightarrow> None
      | Some (index, port, pinbit) \<Rightarrow>
          let irqindex = bit2bitno pinbit in
          if irqindex < 0 \<or> irqindex \<ge> int (length pin_irq_map) then None else Some (port, pinbit, nat irqindex))"

definition ch32_pin_attach_irq :: "int \<Rightarrow> u32 \<Rightarrow> nat option \<Rightarrow> nat \<Rightarrow> 'e pin_state \<Rightarrow> int \<times> 'e pin_state" where
  "ch32_pin_attach_irq pin mode hdr args s =
     (case irq_line pin of
        None \<Rightarrow> (RT_ENOSYS, s)
      | Some (port, pinbit, i) \<Rightarrow>
          let h = ps_hdr_tab s ! i in
          if sint (ih_pin h) = pin \<and> ih_hdr h = hdr \<and> ucast (ih_mode h) = mode \<and> ih_args h = args then (RT_EOK, s)
          else if sint (ih_pin h) \<noteq> -1 then (RT_EBUSY, s)
          else (RT_EOK, s\<lparr>ps_hdr_tab := (ps_hdr_tab s)[i := \<lparr>ih_pin = word_of_int pin, ih_mode = ucast mode, ih_hdr = hdr, ih_args = args\<rparr>]\<rparr>))"

definition no_hdr :: rt_pin_irq_hdr where
  "no_hdr = \<lparr>ih_pin = -1, ih_mode = 0, ih_hdr = None, ih_args = 0\<rparr>"

definition ch32_pin_dettach_irq :: "int \<Rightarrow> 'e pin_state \<Rightarrow> int \<times> 'e pin_state" where
  "ch32_pin_dettach_irq pin s =
     (case irq_line pin of
        None \<Rightarrow> (RT_ENOSYS, s)
      | Some (port, pinbit, i) \<Rightarrow>
          if sint (ih_pin (ps_hdr_tab s ! i)) = -1 then (RT_EOK, s)
          else (RT_EOK, s\<lparr>ps_hdr_tab := (ps_hdr_tab s)[i := no_hdr]\<rparr>))"

text \<open>Enabling the interrupt of a line, once the line is known to have a handler.\<close>

definition pin_irq_on :: "'e gpio_hw \<Rightarrow> nat \<Rightarrow> u32 \<Rightarrow> nat \<Rightarrow> 'e pin_state \<Rightarrow> 'e pin_state" where
  "pin_irq_on g port pinbit i s =
     (let (mapbit, irqno) = pin_irq_map ! i;
          ini = \<lparr>GPIO_Pin = ucast pinbit, GPIO_Speed = GPIO_Speed_50MHz, GPIO_Mode = 0\<rparr>;
          ex = \<lparr>EXTI_Line = pinbit, EXTI_Mode = EXTI_Mode_Interrupt, EXTI_Trigger = 0, EXTI_LineCmd = True\<rparr>;
          mode = ih_mode (ps_hdr_tab s ! i);
          (ini, ex) =
            (if mode = 0 then (ini\<lparr>GPIO_Mode := GPIO_Mode_IPD\<rparr>, ex\<lparr>EXTI_Trigger := EXTI_Trigger_Rising\<rparr>)
             else if mode = 1 then (ini\<lparr>GPIO_Mode := GPIO_Mode_IPU\<rparr>, ex\<lparr>EXTI_Trigger := EXTI_Trigger_Falling\<rparr>)
             else if mode = 2 then (ini\<lparr>GPIO_Mode := GPIO_Mode_IN_FLOATING\<rparr>, ex\<lparr>EXTI_Trigger := EXTI_Trigger_Rising_Falling\<rparr>)
             else (ini, ex));
          s = GPIO_Init g port ini s;
          s = GPIO_EXTILineConfig (of_nat port) (of_nat i) s;
          s = EXTI_Init ex s
      in s\<lparr>ps_IPRIOR := (ps_IPRIOR s)(irqno := 80), ps_NVIC := (ps_NVIC s)(irqno := True),
          ps_enable_mask := ps_enable_mask s OR ucast mapbit\<rparr>)"

text \<open>Disabling: a vector that several lines share is only disabled with the last of them.\<close>

definition pin_irq_off :: "u16 \<times> nat \<Rightarrow> 'e pin_state \<Rightarrow> 'e pin_state" where
  "pin_irq_off irqmap s =
     (let (pinbit, irqno) = irqmap;
          s = s\<lparr>ps_enable_mask := ps_enable_mask s AND NOT (ucast pinbit)\<rparr>;
          disabled = s\<lparr>ps_NVIC := (ps_NVIC s)(irqno := False)\<rparr>
      in if pinbit \<ge> 0x0020 \<and> pinbit \<le> 0x0200 then (if ps_enable_mask s AND 0x03E0 = 0 then disabled else s)
         else if pinbit \<ge> 0x0400 \<and> pinbit \<le> 0x8000 then (if ps_enable_mask s AND 0xFC00 = 0 then disabled else s)
         else disabled)"

definition ch32_pin_irq_enable :: "'e gpio_hw \<Rightarrow> int \<Rightarrow> u32 \<Rightarrow> 'e pin_state \<Rightarrow> int \<times> 'e pin_state" where
  "ch32_pin_irq_enable g pin enabled s =
     (case get_pin pin of
        None \<Rightarrow> (RT_ENOSYS, s)
      | Some (index, port, pinbit) \<Rightarrow>
          if enabled = 1 then
            (case irq_line pin of
               None \<Rightarrow> (RT_ENOSYS, s)
             | Some (port, pinbit, i) \<Rightarrow>
                 if sint (ih_pin (ps_hdr_tab s ! i)) = -1 then (RT_ENOSYS, s) else (RT_EOK, pin_irq_on g port pinbit i s))
          else if enabled = 0 then
            (case get_pin_irq_map pinbit of None \<Rightarrow> (RT_ENOSYS, s) | Some irqmap \<Rightarrow> (RT_EOK, pin_irq_off irqmap s))
          else (- RT_ENOSYS, s))"

section \<open>Interrupts\<close>

text \<open>The attached handlers are the argument \<open>call\<close>, functions on the kernel and the pins.\<close>

type_synonym 'e pin_handlers = "nat \<Rightarrow> nat \<Rightarrow> kernel \<times> 'e pin_state \<Rightarrow> (kernel \<times> 'e pin_state) option"

definition pin_irq_hdr :: "'e pin_handlers \<Rightarrow> int \<Rightarrow> kernel \<times> 'e pin_state \<Rightarrow> (kernel \<times> 'e pin_state) option" where
  "pin_irq_hdr call irqno s =
     (let h = ps_hdr_tab (snd s) ! nat irqno in case ih_hdr h of None \<Rightarrow> Some s | Some f \<Rightarrow> call f (ih_args h) s)"

definition HAL_GPIO_EXTI_Callback :: "'e pin_handlers \<Rightarrow> u16 \<Rightarrow> kernel \<times> 'e pin_state \<Rightarrow> (kernel \<times> 'e pin_state) option" where
  "HAL_GPIO_EXTI_Callback call pin s = pin_irq_hdr call (bit2bitno (ucast pin)) s"

text \<open>\<^verbatim>\<open>EXTI0_IRQHandler\<close> to \<^verbatim>\<open>EXTI4_IRQHandler\<close>, for the line \<open>n\<close>, and \<^verbatim>\<open>EXTI9_5_IRQHandler\<close>.\<close>

definition EXTIn_IRQHandler :: "'e gpio_hw \<Rightarrow> 'e pin_handlers \<Rightarrow> nat \<Rightarrow> kernel \<times> 'e pin_state \<Rightarrow> (kernel \<times> 'e pin_state) option" where
  "EXTIn_IRQHandler g call n s = do {
     s \<leftarrow> Some (rt_interrupt_enter (fst s), snd s);
     s \<leftarrow> (if EXTI_GetITStatus g (push_bit n 1) (snd s) then do {
            (k, p) \<leftarrow> HAL_GPIO_EXTI_Callback call (push_bit n 1) s;
            Some (k, EXTI_ClearITPendingBit g (push_bit n 1) p)
          } else Some s);
     Some (rt_interrupt_leave (fst s), snd s)
   }"

definition EXTI9_5_IRQHandler :: "'e gpio_hw \<Rightarrow> 'e pin_handlers \<Rightarrow> kernel \<times> 'e pin_state \<Rightarrow> (kernel \<times> 'e pin_state) option" where
  "EXTI9_5_IRQHandler g call s = do {
     s \<leftarrow> Some (rt_interrupt_enter (fst s), snd s);
     s \<leftarrow> (if EXTI_GetITStatus g 0x20 (snd s) \<or> EXTI_GetITStatus g 0x40 (snd s) \<or> EXTI_GetITStatus g 0x80 (snd s) \<or>
            EXTI_GetITStatus g 0x100 (snd s) \<or> EXTI_GetITStatus g 0x200 (snd s) then do {
            s \<leftarrow> HAL_GPIO_EXTI_Callback call 0x20 s;
            s \<leftarrow> HAL_GPIO_EXTI_Callback call 0x40 s;
            s \<leftarrow> HAL_GPIO_EXTI_Callback call 0x80 s;
            s \<leftarrow> HAL_GPIO_EXTI_Callback call 0x100 s;
            (k, p) \<leftarrow> HAL_GPIO_EXTI_Callback call 0x200 s;
            Some (k, EXTI_ClearITPendingBit g 0x3E0 p)
          } else Some s);
     Some (rt_interrupt_leave (fst s), snd s)
   }"

section \<open>The framework (pin.c)\<close>

text \<open>The operations a driver registers; \<open>None\<close> while none is registered, which every call asserts.\<close>

record 'e rt_pin_ops =
  op_mode :: "int \<Rightarrow> int \<Rightarrow> 'e pin_state \<Rightarrow> 'e pin_state"
  op_write :: "int \<Rightarrow> int \<Rightarrow> 'e pin_state \<Rightarrow> 'e pin_state"
  op_read :: "int \<Rightarrow> 'e pin_state \<Rightarrow> int"
  op_attach_irq :: "(int \<Rightarrow> u32 \<Rightarrow> nat option \<Rightarrow> nat \<Rightarrow> 'e pin_state \<Rightarrow> int \<times> 'e pin_state) option"
  op_detach_irq :: "(int \<Rightarrow> 'e pin_state \<Rightarrow> int \<times> 'e pin_state) option"
  op_irq_enable :: "(int \<Rightarrow> u32 \<Rightarrow> 'e pin_state \<Rightarrow> int \<times> 'e pin_state) option"

definition ch32_pin_ops :: "'e gpio_hw \<Rightarrow> 'e rt_pin_ops" where
  "ch32_pin_ops g = \<lparr>op_mode = ch32_pin_mode g, op_write = ch32_pin_write g, op_read = ch32_pin_read g,
     op_attach_irq = Some ch32_pin_attach_irq, op_detach_irq = Some ch32_pin_dettach_irq, op_irq_enable = Some (ch32_pin_irq_enable g)\<rparr>"

definition rt_pin_mode :: "'e rt_pin_ops option \<Rightarrow> int \<Rightarrow> int \<Rightarrow> 'e pin_state \<Rightarrow> 'e pin_state option" where
  "rt_pin_mode ops pin mode s = map_option (\<lambda>d. op_mode d pin mode s) ops"

definition rt_pin_write :: "'e rt_pin_ops option \<Rightarrow> int \<Rightarrow> int \<Rightarrow> 'e pin_state \<Rightarrow> 'e pin_state option" where
  "rt_pin_write ops pin val s = map_option (\<lambda>d. op_write d pin val s) ops"

definition rt_pin_read :: "'e rt_pin_ops option \<Rightarrow> int \<Rightarrow> 'e pin_state \<Rightarrow> int option" where
  "rt_pin_read ops pin s = map_option (\<lambda>d. op_read d pin s) ops"

definition rt_pin_attach_irq ::
  "'e rt_pin_ops option \<Rightarrow> int \<Rightarrow> u32 \<Rightarrow> nat option \<Rightarrow> nat \<Rightarrow> 'e pin_state \<Rightarrow> (int \<times> 'e pin_state) option" where
  "rt_pin_attach_irq ops pin mode hdr args s =
     map_option (\<lambda>d. case op_attach_irq d of Some f \<Rightarrow> f pin mode hdr args s | None \<Rightarrow> (- RT_ENOSYS, s)) ops"

definition rt_pin_detach_irq :: "'e rt_pin_ops option \<Rightarrow> int \<Rightarrow> 'e pin_state \<Rightarrow> (int \<times> 'e pin_state) option" where
  "rt_pin_detach_irq ops pin s = map_option (\<lambda>d. case op_detach_irq d of Some f \<Rightarrow> f pin s | None \<Rightarrow> (- RT_ENOSYS, s)) ops"

definition rt_pin_irq_enable :: "'e rt_pin_ops option \<Rightarrow> int \<Rightarrow> u32 \<Rightarrow> 'e pin_state \<Rightarrow> (int \<times> 'e pin_state) option" where
  "rt_pin_irq_enable ops pin enabled s =
     map_option (\<lambda>d. case op_irq_enable d of Some f \<Rightarrow> f pin enabled s | None \<Rightarrow> (- RT_ENOSYS, s)) ops"

section \<open>Configuring pins\<close>

lemma bit_nibble: "bit (push_bit (k * 4) (0x0F :: u32)) m \<longleftrightarrow> m < 32 \<and> m div 4 = k"
proof -
  have f: "(0x0F :: u32) = mask 4" by (simp add: mask_eq_exp_minus_1)
  have "bit (push_bit (k * 4) (0x0F :: u32)) m \<longleftrightarrow> m < 32 \<and> k * 4 \<le> m \<and> m - k * 4 < 4"
    unfolding f by (auto simp: bit_simps)
  then show ?thesis by auto
qed

lemma currentmode_bits:
  assumes "GPIO_Speed ini < 4" and "bit (currentmode ini) m"
  shows "m < 4"
proof -
  have f: "(0x0F :: u32) = mask 4" by (simp add: mask_eq_exp_minus_1)
  have "\<not> bit (GPIO_Speed ini) m" if "2 \<le> m"
  proof -
    have "(4 :: nat) \<le> 2 ^ m" using power_increasing [OF that, of "2 :: nat"] by simp
    then have "unat (GPIO_Speed ini) div 2 ^ m = 0" using assms(1) by (simp add: word_less_nat_alt)
    then have "\<not> bit (unat (GPIO_Speed ini)) m" by (simp add: bit_iff_odd)
    then show ?thesis by (auto simp: bit_unsigned_iff dest: bit_imp_le_length)
  qed
  then have "bit (GPIO_Speed ini) m \<Longrightarrow> m < 2" by (meson not_le)
  then show ?thesis using assms(2) unfolding currentmode_def f by (auto simp: bit_simps split: if_splits)
qed

text \<open>The loop over the pins of one register.\<close>

lemma gpio_init_loop:
  assumes sp: "GPIO_Speed ini < 4" and off: "off = 0 \<or> off = 8" and m: "m < 32"
  shows "n \<le> 8 \<Longrightarrow> bit (fst (fold (gpio_init_pin g port ini off) [0..<n] (t, e))) m \<longleftrightarrow>
    (if m div 4 < n \<and> bit (GPIO_Pin ini) (m div 4 + off) then bit (currentmode ini) (m mod 4) else bit t m)"
proof (induction n)
  case (Suc n)
  obtain t1 e1 where f: "fold (gpio_init_pin g port ini off) [0..<n] (t, e) = (t1, e1)" by fastforce
  have b: "n + off < 16" using Suc.prems off by auto
  have sel: "ucast (GPIO_Pin ini) AND push_bit (n + off) 1 = (push_bit (n + off) 1 :: u32) \<longleftrightarrow> bit (GPIO_Pin ini) (n + off)"
  proof -
    have "ucast (GPIO_Pin ini) AND push_bit (n + off) 1 = (push_bit (n + off) (of_bool (bit (GPIO_Pin ini) (n + off))) :: u32)"
      by (rule bit_word_eqI) (use b in \<open>auto simp: bit_simps\<close>)
    then show ?thesis using b shifted_one_nonzero [where 'a = 32, of "n + off"] by auto
  qed
  have c: "bit (currentmode ini) (m - n * 4) \<longleftrightarrow> bit (currentmode ini) (m mod 4)" if "m div 4 = n"
    using that by (metis minus_div_mult_eq_mod)
  have nc: "\<not> (n * 4 \<le> m \<and> bit (currentmode ini) (m - n * 4))" if "m div 4 \<noteq> n"
    using currentmode_bits [OF sp, of "m - n * 4"] that by (auto simp: div_nat_eqI)
  have st: "bit (fst (gpio_init_pin g port ini off n (t1, e1))) m \<longleftrightarrow>
      (if m div 4 = n \<and> bit (GPIO_Pin ini) (n + off) then bit (currentmode ini) (m mod 4) else bit t1 m)"
  proof -
    define M where "M = push_bit (n * 4) (0x0F :: u32)"
    have M: "bit M m \<longleftrightarrow> m div 4 = n" unfolding M_def bit_nibble using m by simp
    show ?thesis
      unfolding gpio_init_pin_def Let_def prod.case sel M_def [symmetric]
      using c nc m M by (auto simp: bit_simps)
  qed
  show ?case
    using Suc st unfolding upt_Suc_append [OF le0] fold_append o_apply f
    by (auto simp: f less_Suc_eq)
qed simp

lemma low_pins:
  fixes p :: u16
  assumes "p AND 0x00FF = 0" and "j < 8"
  shows "\<not> bit p j"
proof -
  have "(0x00FF :: u16) = mask 8" by (simp add: mask_eq_exp_minus_1)
  then have "\<not> bit (p AND mask 8) j" using assms(1) by simp
  then show ?thesis using assms(2) by (simp add: bit_simps)
qed

lemma high_pins:
  fixes p :: u16
  assumes "\<not> p > 0x00FF" and "bit p j"
  shows "j < 8"
proof (rule ccontr)
  assume "\<not> j < 8"
  then have "(256 :: nat) \<le> 2 ^ j" using power_increasing [of 8 j "2 :: nat"] by simp
  moreover have "unat p < 256" using assms(1) by (simp add: word_less_nat_alt not_less)
  ultimately have "unat p div 2 ^ j = 0" by simp
  then have "\<not> bit (unat p) j" by (simp add: bit_iff_odd)
  then show False using assms(2) by (auto simp: bit_unsigned_iff dest: bit_imp_le_length)
qed

lemma gpio_init_regs:
  assumes sp: "GPIO_Speed ini < 4" and n: "n < 32"
  shows "bit (ps_CFGLR (GPIO_Init g port ini s) port) n \<longleftrightarrow>
      (if bit (GPIO_Pin ini) (n div 4) then bit (currentmode ini) (n mod 4) else bit (ps_CFGLR s port) n)"
    and "bit (ps_CFGHR (GPIO_Init g port ini s) port) n \<longleftrightarrow>
      (if bit (GPIO_Pin ini) (n div 4 + 8) then bit (currentmode ini) (n mod 4) else bit (ps_CFGHR s port) n)"
proof -
  have d: "n div 4 < 8" using n by (simp add: div_less_iff_less_mult)
  note lo = gpio_init_loop [OF sp disjI1 [OF refl] n order.refl, of g port "ps_CFGLR s port"]
  note hi = gpio_init_loop [OF sp disjI2 [OF refl] n order.refl, of g port "ps_CFGHR s port"]
  show "bit (ps_CFGLR (GPIO_Init g port ini s) port) n \<longleftrightarrow>
      (if bit (GPIO_Pin ini) (n div 4) then bit (currentmode ini) (n mod 4) else bit (ps_CFGLR s port) n)"
    using lo low_pins [of "GPIO_Pin ini" "n div 4"] d
    by (cases "GPIO_Pin ini AND 0x00FF = 0") (auto simp: GPIO_Init_def Let_def case_prod_unfold simp del: upt_rec_numeral)
  show "bit (ps_CFGHR (GPIO_Init g port ini s) port) n \<longleftrightarrow>
      (if bit (GPIO_Pin ini) (n div 4 + 8) then bit (currentmode ini) (n mod 4) else bit (ps_CFGHR s port) n)"
    using hi high_pins [of "GPIO_Pin ini" "n div 4 + 8"] d
    by (cases "GPIO_Pin ini > 0x00FF") (auto simp: GPIO_Init_def Let_def case_prod_unfold simp del: upt_rec_numeral)
qed

lemma GPIO_Init_frame [simp]:
  "q \<noteq> port \<Longrightarrow> ps_CFGLR (GPIO_Init g port ini s) q = ps_CFGLR s q"
  "q \<noteq> port \<Longrightarrow> ps_CFGHR (GPIO_Init g port ini s) q = ps_CFGHR s q"
  "ps_hdr_tab (GPIO_Init g port ini s) = ps_hdr_tab s" "ps_NVIC (GPIO_Init g port ini s) = ps_NVIC s"
  "ps_enable_mask (GPIO_Init g port ini s) = ps_enable_mask s"
  by (simp_all add: GPIO_Init_def Let_def case_prod_unfold)

text \<open>
  \<^verbatim>\<open>GPIO_Init\<close> with a valid speed sets the four configuration bits of exactly the selected pins of the port, low and high
  register alike, to the mode and speed, and leaves every other pin and port as it was.
\<close>

theorem GPIO_Init_selected:
  assumes "GPIO_Speed ini < 4" and "n < 32"
  shows "let s' = GPIO_Init g port ini s in
    (bit (ps_CFGLR s' port) n \<longleftrightarrow>
      (if bit (GPIO_Pin ini) (n div 4) then bit (currentmode ini) (n mod 4) else bit (ps_CFGLR s port) n)) \<and>
    (bit (ps_CFGHR s' port) n \<longleftrightarrow>
      (if bit (GPIO_Pin ini) (n div 4 + 8) then bit (currentmode ini) (n mod 4) else bit (ps_CFGHR s port) n)) \<and>
    (\<forall>q. q \<noteq> port \<longrightarrow> ps_CFGLR s' q = ps_CFGLR s q \<and> ps_CFGHR s' q = ps_CFGHR s q)"
  unfolding Let_def using gpio_init_regs [OF assms] GPIO_Init_frame by blast

section \<open>Shared interrupt vectors\<close>

text \<open>The lines 5 to 9 share a vector, and so do the lines 10 to 15.  A vector is enabled exactly when one of its lines is.\<close>

definition line_irq :: "nat \<Rightarrow> nat" where
  "line_irq i = snd (pin_irq_map ! i)"

definition nvic_ok :: "'e pin_state \<Rightarrow> bool" where
  "nvic_ok s \<longleftrightarrow> (\<forall>i < 16. ps_NVIC s (line_irq i) \<longleftrightarrow> (\<exists>j < 16. line_irq j = line_irq i \<and> bit (ps_enable_mask s) j))"

lemma pin_irq_map_nth: "i < 16 \<Longrightarrow> pin_irq_map ! i = (push_bit i 1, line_irq i)"
  by (rule prod_eqI) (simp_all add: line_irq_def pin_irq_map_def)

lemma length_pin_irq_map [simp]: "length pin_irq_map = 16"
  by (simp add: pin_irq_map_def)

lemma line_irq_eq: "i < 16 \<Longrightarrow> line_irq i = (if i < 5 then 22 + i else if i < 10 then 39 else 56)"
  unfolding line_irq_def pin_irq_map_def numeral_eq_Suc
  by (auto simp: less_Suc_eq nth_Cons' upt_rec)

lemma bit2bitno_shift: "n < 32 \<Longrightarrow> bit2bitno (push_bit n 1) = int n"
proof -
  assume n: "n < 32"
  have "find (\<lambda>i. push_bit i 1 = (push_bit n 1 :: u32)) [0..<32] = Some n"
    unfolding find_Some_iff
  proof (intro exI conjI allI impI)
    show "n < length [0..<32]" "push_bit ([0..<32] ! n) 1 = (push_bit n 1 :: u32)" "n = [0..<32] ! n" using n by simp_all
    fix j assume j: "j < n"
    then have "bit (push_bit n (1 :: u32)) n \<noteq> bit (push_bit j (1 :: u32)) n" using n by (simp add: bit_shifted_one del: push_bit_of_1)
    then have "push_bit j 1 \<noteq> (push_bit n 1 :: u32)" by metis
    then show "push_bit ([0..<32] ! j) 1 \<noteq> (push_bit n 1 :: u32)" using j n by simp
  qed
  then show ?thesis by (simp add: bit2bitno_def)
qed

lemma get_pin_cases:
  obtains (none) "get_pin pin = None"
  | (pin) i where "i < 80" and "get_pin pin = Some (int i, i div 16, push_bit (i mod 16) 1)"
proof -
  let ?i = "unat (word_of_int pin :: u8)"
  have l: "length pins = 80" by (simp add: pins_def)
  show thesis
  proof (cases "?i < 80")
    case True
    then have "pins ! ?i = (int ?i, ?i div 16, push_bit (?i mod 16) 1)" unfolding pins_def by (subst nth_map) simp_all
    moreover have "int ?i \<noteq> -1" by linarith
    ultimately have "get_pin pin = Some (int ?i, ?i div 16, push_bit (?i mod 16) 1)"
      using True unfolding get_pin_def Let_def l by (simp only: if_True fst_conv if_False simp_thms)
    then show thesis using pin True by blast
  next
    case False
    then show thesis using none unfolding get_pin_def Let_def l by simp
  qed
qed

lemma irq_line_cases:
  obtains (none) "get_pin pin = None" and "irq_line pin = None"
  | (line) i port where "get_pin pin = Some (int (16 * port + i), port, push_bit i 1)" and "port < 5"
    and "irq_line pin = Some (port, push_bit i 1, i)" and "i < 16"
proof (cases rule: get_pin_cases [of pin])
  case none
  then show thesis using that(1) by (simp add: irq_line_def)
next
  case (pin i)
  have "i mod 16 < 16" "i div 16 < 5" "i = 16 * (i div 16) + i mod 16" using pin(1) by (simp_all add: div_less_iff_less_mult)
  then show thesis using that(2) [of "i div 16" "i mod 16"] pin(2) bit2bitno_shift [of "i mod 16"] by (simp add: irq_line_def)
qed

lemma irq_on_nvic:
  assumes "i < 16"
  shows "ps_NVIC (pin_irq_on g port pinbit i s) = (ps_NVIC s)(line_irq i := True)"
    and "ps_enable_mask (pin_irq_on g port pinbit i s) = ps_enable_mask s OR push_bit i 1"
proof -
  have "(ucast (push_bit i 1 :: u16) :: u32) = push_bit i 1"
    by (rule bit_word_eqI) (use assms in \<open>auto simp: bit_simps\<close>)
  then show "ps_NVIC (pin_irq_on g port pinbit i s) = (ps_NVIC s)(line_irq i := True)"
    "ps_enable_mask (pin_irq_on g port pinbit i s) = ps_enable_mask s OR push_bit i 1"
    by (simp_all add: pin_irq_on_def pin_irq_map_nth [OF assms] Let_def EXTI_Init_def GPIO_EXTILineConfig_def case_prod_unfold)
qed

lemma irq_on_nvic_ok:
  assumes "nvic_ok s" and "i < 16"
  shows "nvic_ok (pin_irq_on g port pinbit i s)"
  using assms unfolding nvic_ok_def irq_on_nvic [OF assms(2)]
  by (auto simp: bit_or_iff bit_shifted_one simp del: push_bit_of_1)

lemma word_and_eq_0_bits: "(w AND v :: u32) = 0 \<longleftrightarrow> (\<forall>j. bit v j \<longrightarrow> \<not> bit w j)"
proof -
  have "(w AND v) = 0 \<longleftrightarrow> (\<forall>j < 32. \<not> bit (w AND v) j)" by (simp add: word_eq_0_iff_bits)
  then show ?thesis using bit_imp_le_length [of v] by (auto simp: bit_and_iff)
qed

lemma group_bits:
  "bit (0x03E0 :: u32) j \<longleftrightarrow> 5 \<le> j \<and> j < 10" "bit (0xFC00 :: u32) j \<longleftrightarrow> 10 \<le> j \<and> j < 16"
proof -
  have e: "(0x03E0 :: u32) = push_bit 5 (mask 5)" "(0xFC00 :: u32) = push_bit 10 (mask 6)"
    by (simp_all add: mask_eq_exp_minus_1 push_bit_eq_mult)
  show "bit (0x03E0 :: u32) j \<longleftrightarrow> 5 \<le> j \<and> j < 10" unfolding e(1) by (auto simp: bit_push_bit_iff bit_mask_iff)
  show "bit (0xFC00 :: u32) j \<longleftrightarrow> 10 \<le> j \<and> j < 16" unfolding e(2) by (auto simp: bit_push_bit_iff bit_mask_iff)
qed

lemma pinbit_groups:
  assumes "i < 16"
  shows "push_bit i 1 \<ge> (0x0020 :: u16) \<longleftrightarrow> 5 \<le> i" "push_bit i 1 \<le> (0x0200 :: u16) \<longleftrightarrow> i \<le> 9"
    "push_bit i 1 \<ge> (0x0400 :: u16) \<longleftrightarrow> 10 \<le> i" "push_bit i 1 \<le> (0x8000 :: u16)"
proof -
  have "(2 :: nat) ^ i < 2 ^ 16" using assms by (simp only: power_strict_increasing_iff)
  moreover have "unat (push_bit i 1 :: u16) = take_bit 16 (push_bit i 1)"
    unfolding unsigned_push_bit_eq unsigned_1 by simp
  ultimately have u: "unat (push_bit i 1 :: u16) = 2 ^ i" using assms by (simp add: take_bit_nat_eq_self push_bit_of_1)
  have p: "(2 :: nat) ^ m \<le> 2 ^ i \<longleftrightarrow> m \<le> i" "(2 :: nat) ^ i \<le> 2 ^ m \<longleftrightarrow> i \<le> m" for m by simp_all
  show "push_bit i 1 \<ge> (0x0020 :: u16) \<longleftrightarrow> 5 \<le> i" "push_bit i 1 \<le> (0x0200 :: u16) \<longleftrightarrow> i \<le> 9"
    "push_bit i 1 \<ge> (0x0400 :: u16) \<longleftrightarrow> 10 \<le> i" "push_bit i 1 \<le> (0x8000 :: u16)"
    unfolding word_le_nat_alt u using p(1) [of 5] p(2) [of 9] p(1) [of 10] p(2) [of 15] assms by simp_all
qed

lemma irq_off_nvic_ok:
  assumes ok: "nvic_ok s" and i: "i < 16"
  shows "nvic_ok (pin_irq_off (pin_irq_map ! i) s)"
proof -
  let ?mask = "ps_enable_mask s AND NOT (push_bit i 1)"
  let ?s = "s\<lparr>ps_enable_mask := ?mask\<rparr>"
  let ?off = "?s\<lparr>ps_NVIC := (ps_NVIC s)(line_irq i := False)\<rparr>"
  have u: "(ucast (push_bit i 1 :: u16) :: u32) = push_bit i 1" by (rule bit_word_eqI) (use i in \<open>auto simp: bit_simps\<close>)
  have m: "bit ?mask j \<longleftrightarrow> bit (ps_enable_mask s) j \<and> j \<noteq> i" for j
    using i by (auto simp: bit_and_iff bit_not_iff bit_shifted_one dest: bit_imp_le_length simp del: push_bit_of_1)
  have e: "pin_irq_off (pin_irq_map ! i) s = (if (\<exists>j < 16. line_irq j = line_irq i \<and> bit ?mask j) then ?s else ?off)"
  proof -
    have l: "line_irq j = line_irq i \<longleftrightarrow> (if 5 \<le> i \<and> i \<le> 9 then 5 \<le> j \<and> j < 10 else if 10 \<le> i then 10 \<le> j else j = i)"
      if "j < 16" for j using i that by (simp add: line_irq_eq)
    have g: "(\<exists>j < 16. line_irq j = line_irq i \<and> bit ?mask j) \<longleftrightarrow>
        (if 5 \<le> i \<and> i \<le> 9 then ?mask AND 0x03E0 \<noteq> 0 else if 10 \<le> i then ?mask AND 0xFC00 \<noteq> 0 else False)"
    proof -
      have nb: "\<not> bit ?mask i" unfolding m by simp
      consider "5 \<le> i" "i \<le> 9" | "10 \<le> i" | "i < 5" by linarith
      then show ?thesis
      proof cases
        case 1
        have "(\<exists>j < 16. line_irq j = line_irq i \<and> bit ?mask j) \<longleftrightarrow> (\<exists>j. (5 \<le> j \<and> j < 10) \<and> bit ?mask j)"
        proof
          assume "\<exists>j < 16. line_irq j = line_irq i \<and> bit ?mask j"
          then obtain j where j: "j < 16" "line_irq j = line_irq i" "bit ?mask j" by blast
          have "5 \<le> j \<and> j < 10" using l [OF j(1)] j(1,2) 1 by simp
          then show "\<exists>j. (5 \<le> j \<and> j < 10) \<and> bit ?mask j" using j(3) by blast
        next
          assume "\<exists>j. (5 \<le> j \<and> j < 10) \<and> bit ?mask j"
          then obtain j where j: "5 \<le> j" "j < 10" "bit ?mask j" by blast
          then have "j < 16" by simp
          moreover from this have "line_irq j = line_irq i" using l [of j] j(1,2) 1 by simp
          ultimately show "\<exists>j < 16. line_irq j = line_irq i \<and> bit ?mask j" using j(3) by blast
        qed
        then show ?thesis using 1 unfolding word_and_eq_0_bits group_bits by simp
      next
        case 2
        have "(\<exists>j < 16. line_irq j = line_irq i \<and> bit ?mask j) \<longleftrightarrow> (\<exists>j. (10 \<le> j \<and> j < 16) \<and> bit ?mask j)"
        proof
          assume "\<exists>j < 16. line_irq j = line_irq i \<and> bit ?mask j"
          then obtain j where j: "j < 16" "line_irq j = line_irq i" "bit ?mask j" by blast
          have "10 \<le> j \<and> j < 16" using l [OF j(1)] j(1,2) 2 by simp
          then show "\<exists>j. (10 \<le> j \<and> j < 16) \<and> bit ?mask j" using j(3) by blast
        next
          assume "\<exists>j. (10 \<le> j \<and> j < 16) \<and> bit ?mask j"
          then obtain j where j: "10 \<le> j" "j < 16" "bit ?mask j" by blast
          then have "j < 16" by simp
          moreover from this have "line_irq j = line_irq i" using l [of j] j(1,2) 2 by simp
          ultimately show "\<exists>j < 16. line_irq j = line_irq i \<and> bit ?mask j" using j(3) by blast
        qed
        then show ?thesis using 2 unfolding word_and_eq_0_bits group_bits by simp
      next
        case 3
        have "\<not> (\<exists>j < 16. line_irq j = line_irq i \<and> bit ?mask j)" using 3 l nb by auto
        then show ?thesis using 3 by simp
      qed
    qed
    show ?thesis
      unfolding g pin_irq_map_nth [OF i] pin_irq_off_def Let_def prod.case u pinbit_groups [OF i] using i pinbit_groups(4) [OF i] by simp
  qed
  have r: "ps_NVIC ?s = ps_NVIC s" "ps_enable_mask ?s = ?mask" "ps_NVIC ?off = (ps_NVIC s)(line_irq i := False)" "ps_enable_mask ?off = ?mask"
    by simp_all
  have n: "ps_NVIC s (line_irq n) \<longleftrightarrow> (\<exists>j < 16. line_irq j = line_irq n \<and> bit (ps_enable_mask s) j)" if "n < 16" for n
    using ok that by (simp add: nvic_ok_def)
  have "nvic_ok ?s" if E: "\<exists>j < 16. line_irq j = line_irq i \<and> bit ?mask j"
    unfolding nvic_ok_def r m
  proof (intro allI impI)
    fix k assume k: "k < (16 :: nat)"
    have "\<exists>j < 16. line_irq j = line_irq k \<and> bit (ps_enable_mask s) j \<and> j \<noteq> i"
      if j: "j < 16" "line_irq j = line_irq k" "bit (ps_enable_mask s) j" for j
      using j E unfolding m by (cases "j = i") auto
    then show "ps_NVIC s (line_irq k) \<longleftrightarrow> (\<exists>j < 16. line_irq j = line_irq k \<and> bit (ps_enable_mask s) j \<and> j \<noteq> i)"
      unfolding n [OF k] by blast
  qed
  moreover have "nvic_ok ?off" if E: "\<not> (\<exists>j < 16. line_irq j = line_irq i \<and> bit ?mask j)"
    unfolding nvic_ok_def r m
  proof (intro allI impI)
    fix k assume k: "k < (16 :: nat)"
    show "((ps_NVIC s)(line_irq i := False)) (line_irq k) \<longleftrightarrow> (\<exists>j < 16. line_irq j = line_irq k \<and> bit (ps_enable_mask s) j \<and> j \<noteq> i)"
    proof (cases "line_irq k = line_irq i")
      case True
      then show ?thesis using E unfolding m by simp
    next
      case False
      then have "((ps_NVIC s)(line_irq i := False)) (line_irq k) = ps_NVIC s (line_irq k)" by simp
      then show ?thesis using False unfolding n [OF k] by auto
    qed
  qed
  ultimately show ?thesis unfolding e by simp
qed

text \<open>Any sequence of calls of the driver.\<close>

datatype pin_req = Pin_mode int int | Pin_write int int | Attach_irq int u32 "nat option" nat | Detach_irq int | Irq_enable int u32

primrec pin_call :: "'e gpio_hw \<Rightarrow> pin_req \<Rightarrow> 'e pin_state \<Rightarrow> 'e pin_state option" where
  "pin_call g (Pin_mode pin mode) s = rt_pin_mode (Some (ch32_pin_ops g)) pin mode s"
| "pin_call g (Pin_write pin val) s = rt_pin_write (Some (ch32_pin_ops g)) pin val s"
| "pin_call g (Attach_irq pin mode hdr args) s = map_option snd (rt_pin_attach_irq (Some (ch32_pin_ops g)) pin mode hdr args s)"
| "pin_call g (Detach_irq pin) s = map_option snd (rt_pin_detach_irq (Some (ch32_pin_ops g)) pin s)"
| "pin_call g (Irq_enable pin enabled) s = map_option snd (rt_pin_irq_enable (Some (ch32_pin_ops g)) pin enabled s)"

primrec pin_calls :: "'e gpio_hw \<Rightarrow> pin_req list \<Rightarrow> 'e pin_state \<Rightarrow> 'e pin_state option" where
  "pin_calls g [] s = Some s"
| "pin_calls g (c # cs) s = Option.bind (pin_call g c s) (pin_calls g cs)"

lemma nvic_ok_same: "ps_NVIC s' = ps_NVIC s \<Longrightarrow> ps_enable_mask s' = ps_enable_mask s \<Longrightarrow> nvic_ok s \<Longrightarrow> nvic_ok s'"
  by (simp add: nvic_ok_def)

lemma irq_enable_nvic_ok:
  assumes "nvic_ok s"
  shows "nvic_ok (snd (ch32_pin_irq_enable g pin enabled s))"
proof (cases rule: irq_line_cases [of pin])
  case (line i port)
  have "get_pin_irq_map (push_bit i 1) = Some (pin_irq_map ! i)"
    using line(4) bit2bitno_shift [of i] by (simp add: get_pin_irq_map_def Let_def)
  then show ?thesis
    using assms line irq_on_nvic_ok [OF assms line(4)] irq_off_nvic_ok [OF assms line(4)]
    unfolding ch32_pin_irq_enable_def line(1,3) option.case prod.case by simp
qed (use assms in \<open>simp add: ch32_pin_irq_enable_def\<close>)

lemma pin_call_nvic_ok: "nvic_ok s \<Longrightarrow> returns (pin_call g c s) nvic_ok"
proof (cases c)
  case (Irq_enable pin enabled)
  assume "nvic_ok s"
  then show ?thesis using irq_enable_nvic_ok Irq_enable by (simp add: rt_pin_irq_enable_def ch32_pin_ops_def)
qed (auto simp: rt_pin_mode_def rt_pin_write_def rt_pin_attach_irq_def rt_pin_detach_irq_def ch32_pin_ops_def ch32_pin_mode_def
    ch32_pin_write_def ch32_pin_attach_irq_def ch32_pin_dettach_irq_def GPIO_WriteBit_def Let_def
    elim!: nvic_ok_same [rotated 2] split: option.split)

text \<open>
  C36. Interrupt vectors shared by several pins: after any sequence of calls of the pin functions, with any pins and arguments,
  a vector is enabled exactly when one of its lines is marked as enabled; disabling one pin never cuts off another pin
  of the same vector, and disabling the last one disables the vector.
\<close>

theorem pin_calls_vectors:
  assumes "nvic_ok s"
  shows "returns (pin_calls g cs s) nvic_ok"
  using assms by (induction cs arbitrary: s) (auto intro: returns_bindI [OF pin_call_nvic_ok] simp del: returns_simps(3))

section \<open>A sample board\<close>

text \<open>Ports that read back what was written to them; nothing is pending.\<close>

definition port_hw :: "(nat \<Rightarrow> u32) gpio_hw" where
  "port_hw = \<lparr>gh_BSHR = (\<lambda>port m e. e(port := e port OR m)), gh_BCR = (\<lambda>port m e. e(port := e port AND NOT m)),
     gh_INDR = (\<lambda>port e. e port), gh_INTFR = (\<lambda>e. 0), gh_clear_INTFR = (\<lambda>m e. e)\<rparr>"

definition sample_pins :: "(nat \<Rightarrow> u32) pin_state" where
  "sample_pins = \<lparr>ps_CFGLR = (\<lambda>port. 0x44444444), ps_CFGHR = (\<lambda>port. 0x44444444), ps_EXTICR = (\<lambda>r. 0), ps_EXTI = (\<lambda>r. 0),
     ps_NVIC = (\<lambda>irq. False), ps_IPRIOR = (\<lambda>irq. 0), ps_hdr_tab = replicate 16 no_hdr, ps_enable_mask = 0, ps_env = (\<lambda>port. 0)\<rparr>"

theorem GPIO_Init_selected_witness:
  "let ini = \<lparr>GPIO_Pin = 0x0201, GPIO_Speed = GPIO_Speed_50MHz, GPIO_Mode = GPIO_Mode_Out_PP\<rparr>; s' = GPIO_Init port_hw 1 ini sample_pins in
    bit (ps_CFGLR s' 1) 0 \<and> \<not> bit (ps_CFGLR s' 1) 2 \<and> bit (ps_CFGLR s' 1) 6 \<and> \<not> bit (ps_CFGHR s' 1) 6 \<and> ps_CFGLR s' 2 = 0x44444444"
  unfolding Let_def
proof -
  let ?ini = "\<lparr>GPIO_Pin = 0x0201, GPIO_Speed = GPIO_Speed_50MHz, GPIO_Mode = GPIO_Mode_Out_PP\<rparr>"
  have "GPIO_Speed ?ini < 4" by simp
  note x = GPIO_Init_selected [OF this, of _ port_hw 1 sample_pins, unfolded Let_def]
  show "bit (ps_CFGLR (GPIO_Init port_hw 1 ?ini sample_pins) 1) 0 \<and> \<not> bit (ps_CFGLR (GPIO_Init port_hw 1 ?ini sample_pins) 1) 2 \<and>
      bit (ps_CFGLR (GPIO_Init port_hw 1 ?ini sample_pins) 1) 6 \<and> \<not> bit (ps_CFGHR (GPIO_Init port_hw 1 ?ini sample_pins) 1) 6 \<and>
      ps_CFGLR (GPIO_Init port_hw 1 ?ini sample_pins) 2 = 0x44444444"
    using x [of 0] x [of 2] x [of 6] by (simp add: sample_pins_def currentmode_def)
qed

lemma sample_pins_ok: "nvic_ok sample_pins"
  by (simp add: nvic_ok_def sample_pins_def)

theorem pin_calls_vectors_witness:
  "returns (pin_calls port_hw [Attach_irq 7 0 (Some 1) 0, Attach_irq 24 1 (Some 2) 0, Irq_enable 7 1, Irq_enable 24 1, Irq_enable 7 0] sample_pins) nvic_ok"
  by (rule pin_calls_vectors [OF sample_pins_ok])

end
