(* ===== verification/KeyboardBus.thy ===== *)
theory KeyboardBus
  imports SpiBoard Gpio Keyboard
begin

text \<open>
  The keyboard's side of the hardware (\<^verbatim>\<open>input/keyboard.c\<close>, \<^verbatim>\<open>rt_hw_spi_device_attach\<close> of \<^verbatim>\<open>drv_spi.c\<close>): the transfer of the LED
  and button bytes and the set-up of the bus, over the models of the SPI stack and the pins.

  The shift registers hang on the bus at address \<open>b\<close> and on the latch pin, so both see one hardware state: the pin functions
  run on the state of the wire of that bus.  The address of the temporary buffer on the stack is the argument \<open>tmp\<close>.
\<close>

section \<open>Pins and bus\<close>

type_synonym 'e machine = "'e ch32_spi spi_state \<times> 'e pin_state"

definition on_pins :: "nat \<Rightarrow> ('e pin_state \<Rightarrow> 'e pin_state option) \<Rightarrow> 'e machine \<Rightarrow> 'e machine option" where
  "on_pins b f = (\<lambda>((k, io), ps). do {
     ps \<leftarrow> f (ps\<lparr>ps_env := ch_wire (io_drv io b)\<rparr>);
     Some ((k, io\<lparr>io_drv := (io_drv io)(b := (io_drv io b)\<lparr>ch_wire := ps_env ps\<rparr>)\<rparr>), ps)
   })"

abbreviation KB_LATCH_PIN :: int where "KB_LATCH_PIN \<equiv> 3"

definition latch_write :: "'e gpio_hw \<Rightarrow> nat \<Rightarrow> int \<Rightarrow> 'e machine \<Rightarrow> 'e machine option" where
  "latch_write g b level = on_pins b (rt_pin_write (Some (ch32_pin_ops g)) KB_LATCH_PIN level)"

section \<open>The transfer\<close>

definition kb_invert :: "nat \<Rightarrow> nat \<Rightarrow> memory \<Rightarrow> memory" where
  "kb_invert tmp button_data m = fold (\<lambda>i m. m(button_data + i := NOT (m (tmp + i)))) [0..<KB_CHAIN_LENGTH] m"

text \<open>What follows the transfer; its failure is only printed.\<close>

definition kb_transfer_end :: "nat \<Rightarrow> nat \<Rightarrow> 'e machine \<Rightarrow> 'e machine" where
  "kb_transfer_end tmp button_data = (\<lambda>((k, io), ps). ((k, io\<lparr>io_mem := kb_invert tmp button_data (io_mem io)\<rparr>), ps))"

definition kb_transfer :: "env \<Rightarrow> 'e gpio_hw \<Rightarrow> 'e spi_wire \<Rightarrow> nat \<Rightarrow> nat \<Rightarrow> nat \<Rightarrow> nat \<Rightarrow> nat \<Rightarrow> 'e machine \<Rightarrow>
    ((unit, nat) outcome \<times> 'e machine) option" where
  "kb_transfer env g p b kb_spi_dev tmp led_data button_data s = do {
     s \<leftarrow> latch_write g b PIN_LOW s;
     ((k, io), ps) \<leftarrow> latch_write g b PIN_HIGH s;
     io \<leftarrow> Some (io\<lparr>io_mem := bytes_at tmp (replicate KB_CHAIN_LENGTH 0) (io_mem io)\<rparr>);
     (o1, k, io) \<leftarrow> rt_spi_transfer env (ch_spi_ops p) kb_spi_dev (Some led_data) (Some tmp) (of_nat KB_CHAIN_LENGTH) (k, io);
     case o1 of
       Wait t \<Rightarrow> Some (Wait t, (k, io), ps)
     | Done n \<Rightarrow> Some (Done (), kb_transfer_end tmp button_data ((k, io), ps))
   }"

section \<open>Set-up\<close>

text \<open>\<^verbatim>\<open>rt_hw_spi_device_attach\<close>: the device (84 bytes) and the description of its chip select pin (8 bytes) come from the heap.\<close>

definition rt_hw_spi_device_attach :: "'e gpio_hw \<Rightarrow> nat \<Rightarrow> u8 list \<Rightarrow> u8 list \<Rightarrow> nat \<Rightarrow> u16 \<Rightarrow> 'e machine \<Rightarrow> (int \<times> 'e machine) option" where
  "rt_hw_spi_device_attach g b bus_name device_name cs_gpiox cs_gpio_pin s = do {
     s \<leftarrow> on_pins b (\<lambda>ps. Some (GPIO_Init g cs_gpiox \<lparr>GPIO_Pin = cs_gpio_pin, GPIO_Speed = GPIO_Speed_50MHz, GPIO_Mode = GPIO_Mode_Out_PP\<rparr> ps)) s;
     ((k, io), ps) \<leftarrow> on_pins b (\<lambda>ps. Some (GPIO_WriteBit g cs_gpiox cs_gpio_pin 1 ps)) s;
     (spi_device, h) \<leftarrow> rt_malloc 84 (k_irq_nest k) (k_heap k);
     d \<leftarrow> spi_device;
     (cs_pin, h) \<leftarrow> rt_malloc 8 (k_irq_nest k) h;
     cs \<leftarrow> cs_pin;
     (result, k, io) \<leftarrow> rt_spi_bus_attach_device d device_name bus_name cs (k\<lparr>k_heap := h\<rparr>, io);
     rt_assert (result = RT_EOK);
     Some (result, (k, io), ps)
   }"

abbreviation KB_SPI_DEV_NAME :: "u8 list" where "KB_SPI_DEV_NAME \<equiv> [115, 112, 105, 49, 48]"
abbreviation KB_SPI_BUS :: "u8 list" where "KB_SPI_BUS \<equiv> [115, 112, 105, 49]"

definition kb_config :: rt_spi_configuration where
  "kb_config = \<lparr>cfg_mode = RT_SPI_MSB OR RT_SPI_NO_CS, cfg_data_width = 8, cfg_max_hz = 115200\<rparr>"

definition kb_init_end :: "'e gpio_hw \<Rightarrow> nat \<Rightarrow> 'e machine \<Rightarrow> 'e machine option" where
  "kb_init_end g b s = do {
     s \<leftarrow> on_pins b (rt_pin_mode (Some (ch32_pin_ops g)) KB_LATCH_PIN 0) s;
     latch_write g b PIN_HIGH s
   }"

text \<open>The result is the pointer \<^verbatim>\<open>kb_spi_dev\<close>; the function returns no value.  Failures are only printed.\<close>

definition kbInit :: "env \<Rightarrow> 'e gpio_hw \<Rightarrow> 'e spi_wire \<Rightarrow> nat \<Rightarrow> 'e machine \<Rightarrow> ((nat, nat) outcome \<times> 'e machine) option" where
  "kbInit env g p b s = do {
     (result, (k, io), ps) \<leftarrow> rt_hw_spi_device_attach g b KB_SPI_BUS KB_SPI_DEV_NAME 0 0x0010 s;
     (kb_spi_dev, k) \<leftarrow> rt_device_find KB_SPI_DEV_NAME k;
     d \<leftarrow> kb_spi_dev;
     (o1, k, io) \<leftarrow> rt_spi_configure env (ch_spi_ops p) d kb_config (k, io);
     case o1 of
       Wait t \<Rightarrow> Some (Wait t, (k, io), ps)
     | Done r \<Rightarrow> do {
         s \<leftarrow> kb_init_end g b ((k, io), ps);
         Some (Done d, s)
       }
   }"

section \<open>The transfer is the exchange the parser of the buttons relies on\<close>

text \<open>What the latch pulse does to the hardware: pin 3 of the first port goes low and high again.\<close>

definition latch_pulse :: "'e gpio_hw \<Rightarrow> 'e \<Rightarrow> 'e" where
  "latch_pulse g e = gh_BSHR g 0 8 (gh_BCR g 0 8 e)"

lemma get_latch_pin: "get_pin KB_LATCH_PIN = Some (3, 0, 8)"
proof -
  have "pins ! 3 = (3, 0, 8)" unfolding pins_def by (subst nth_map) simp_all
  moreover have "length pins = 80" by (simp add: pins_def)
  ultimately show ?thesis by (simp add: get_pin_def)
qed

lemma latch_write_eq:
  "latch_write g b level ((k, io), ps) =
    (let e = (if level = 0 then gh_BCR else gh_BSHR) g 0 8 (ch_wire (io_drv io b)) in
     Some ((k, io\<lparr>io_drv := (io_drv io)(b := (io_drv io b)\<lparr>ch_wire := e\<rparr>)\<rparr>), ps\<lparr>ps_env := e\<rparr>))"
  by (simp add: latch_write_def on_pins_def rt_pin_write_def ch32_pin_ops_def ch32_pin_write_def get_latch_pin GPIO_WriteBit_def Let_def)

text \<open>The registers and the owner of a bus are not affected by the pins.\<close>

lemma spi_state_ok_wire:
  assumes "spi_state_ok t (k, io)"
  shows "spi_state_ok t (k, io\<lparr>io_mem := m, io_drv := (io_drv io)(b := (io_drv io b)\<lparr>ch_wire := e\<rparr>)\<rparr>)"
proof -
  have "spi_programmed c (((io_drv io)(b := (io_drv io b)\<lparr>ch_wire := e\<rparr>)) d) = spi_programmed c (io_drv io d)" for c d
    by (rule spi_programmed_cong) simp_all
  then show ?thesis using assms by (simp add: spi_state_ok_def buses_free_def)
qed

lemma spi_state_ok_mem: "spi_state_ok t (k, io\<lparr>io_mem := m\<rparr>) = spi_state_ok t (k, io)"
  by (simp add: spi_state_ok_def buses_free_def)

lemma kb_invert_eq:
  assumes "btn + 3 \<le> tmp \<or> tmp + 3 \<le> btn"
  shows "kb_invert tmp btn m = bytes_at btn [NOT (m tmp), NOT (m (tmp + 1)), NOT (m (tmp + 2))] m"
  using assms by (auto simp: kb_invert_def upt_3 bytes_at_Cons numeral_2_eq_2)

lemma map_bytes_at: "map (bytes_at a xs m) [a..<a + length xs] = xs"
  by (rule nth_equalityI) (auto simp: bytes_at_def)

lemma map_3: "map f [a..<a + 3] = [f a, f (a + 1), f (a + 2 :: nat)]"
  by (simp add: numeral_eq_Suc upt_rec)

text \<open>The bytes the SPI transfer moves for the keyboard.\<close>

lemma kb_received:
  assumes "led + 3 \<le> tmp \<or> tmp + 3 \<le> led"
  shows "sent_bytes (Some led) 0 3 (bytes_at tmp [0, 0, 0] m) = map m [led..<led + 3]"
  using assms unfolding sent_bytes_def option.case add_0_right map_3 by (auto simp: bytes_at_def nth_Cons')

lemma kb_transfer_exchange:
  assumes s: "spi_state_ok t (k, io)"
    and d: "io_devs io d = Some dev" "sd_bus dev = Some b" "k_devices k d = Some dv"
    and cfg: "spi_accepted (sd_config dev)" "cfg_mode (sd_config dev) AND RT_SPI_NO_CS \<noteq> 0"
    and buf: "led + 3 \<le> tmp \<or> tmp + 3 \<le> led" "btn + 3 \<le> tmp \<or> tmp + 3 \<le> btn"
    and w: "wire_exchange p (map (io_mem io) [led..<led + 3]) (latch_pulse g (ch_wire (io_drv io b))) = (rs, e)"
  shows "returns (kb_transfer env g p b d tmp led btn ((k, io), ps)) (\<lambda>(r, (k', io'), ps'). r = Done () \<and>
    io_mem io' = bytes_at btn (map (\<lambda>x. NOT x) rs) (bytes_at tmp rs (io_mem io)) \<and> ch_wire (io_drv io' b) = e \<and> spi_state_ok t (k', io'))"
proof -
  let ?m = "bytes_at tmp [0, 0, 0] (io_mem io)"
  let ?io = "io\<lparr>io_mem := ?m, io_drv := (io_drv io)(b := (io_drv io b)\<lparr>ch_wire := latch_pulse g (ch_wire (io_drv io b))\<rparr>)\<rparr>"
  let ?ps = "ps\<lparr>ps_env := latch_pulse g (ch_wire (io_drv io b))\<rparr>"
  have r0: "replicate KB_CHAIN_LENGTH (0 :: u8) = [0, 0, 0]" by (simp add: numeral_3_eq_3)
  have e: "kb_transfer env g p b d tmp led btn ((k, io), ps) = Option.bind (rt_spi_transfer env (ch_spi_ops p) d (Some led) (Some tmp) 3 (k, ?io))
      (\<lambda>(o1, k, io). case o1 of Wait t \<Rightarrow> Some (Wait t, (k, io), ?ps) | Done n \<Rightarrow> Some (Done (), kb_transfer_end tmp btn ((k, io), ?ps)))"
  proof -
    let ?e = "gh_BCR g 0 8 (ch_wire (io_drv io b))"
    let ?io1 = "io\<lparr>io_drv := (io_drv io)(b := (io_drv io b)\<lparr>ch_wire := ?e\<rparr>)\<rparr>"
    let ?io2 = "io\<lparr>io_drv := (io_drv io)(b := (io_drv io b)\<lparr>ch_wire := latch_pulse g (ch_wire (io_drv io b))\<rparr>)\<rparr>"
    have s1: "latch_write g b PIN_LOW ((k, io), ps) = Some ((k, ?io1), ps\<lparr>ps_env := ?e\<rparr>)" by (simp add: latch_write_eq Let_def)
    have s2: "latch_write g b PIN_HIGH ((k, ?io1), ps\<lparr>ps_env := ?e\<rparr>) = Some ((k, ?io2), ?ps)"
      by (simp add: latch_write_eq Let_def latch_pulse_def)
    have m: "?io2\<lparr>io_mem := bytes_at tmp [0, 0, 0] (io_mem ?io2)\<rparr> = ?io" "(of_nat KB_CHAIN_LENGTH :: u32) = 3" by simp_all
    show ?thesis unfolding kb_transfer_def r0 s1 Option.bind.bind_lunit s2 prod.case m ..
  qed
  have l: "length rs = 3" using length_wire_exchange [of p "map (io_mem io) [led..<led + 3]"] w by (metis fst_conv length_map length_upt diff_add_inverse)
  have b: "buffers_ok (Some led) (Some tmp) (unat (3 :: u32))" "0 < (3 :: u32)" using buf(1) by (auto simp: buffers_ok_def)
  have u: "unat (3 :: u32) = 3" by simp
  have d': "io_devs ?io d = Some dev" "ch_wire (io_drv ?io b) = latch_pulse g (ch_wire (io_drv io b))" "io_mem ?io = ?m"
    using d(1) by simp_all
  have x: "returns (rt_spi_transfer env (ch_spi_ops p) d (Some led) (Some tmp) 3 (k, ?io)) (\<lambda>(r, k', io'). r = Done 3 \<and>
      io_mem io' = received (Some tmp) 0 rs ?m \<and> ch_wire (io_drv io' b) = e \<and> spi_state_ok t (k', io'))"
    using rt_spi_transfer_moves [OF spi_state_ok_wire [OF s] d'(1) d(2,3) cfg(1) b, of p env] cfg(2)
    unfolding d' u kb_received [OF buf(1)] Let_def if_not_P [OF cfg(2)] w by (auto elim!: returns_mono)
  show ?thesis
    unfolding e
  proof (rule returns_bind_pair [OF x])
    fix r and s' :: "'a ch32_spi spi_state"
    assume "case s' of (k', io') \<Rightarrow> r = Done 3 \<and> io_mem io' = received (Some tmp) 0 rs ?m \<and> ch_wire (io_drv io' b) = e \<and> spi_state_ok t (k', io')"
    then obtain k' io' where s': "s' = (k', io')" "r = Done 3" "ch_wire (io_drv io' b) = e" "spi_state_ok t (k', io')"
      and m: "io_mem io' = received (Some tmp) 0 rs ?m" by (cases s') auto
    have m': "io_mem io' = bytes_at tmp rs (io_mem io)"
      unfolding m by (rule ext) (use l in \<open>auto simp: received_def bytes_at_def\<close>)
    obtain x y z where rs: "rs = [x, y, z]" by (rule length_3E [OF l])
    have "kb_invert tmp btn (io_mem io') = bytes_at btn (map (\<lambda>x. NOT x) rs) (bytes_at tmp rs (io_mem io))"
      unfolding kb_invert_eq [OF buf(2)] m' by (simp add: rs bytes_at_def)
    then show "returns (case s' of (k, io) \<Rightarrow> case r of Wait t \<Rightarrow> Some (Wait t, (k, io), ?ps)
          | Done n \<Rightarrow> Some (Done (), kb_transfer_end tmp btn ((k, io), ?ps)))
        (\<lambda>(r, (k', io'), ps'). r = Done () \<and> io_mem io' = bytes_at btn (map (\<lambda>x. NOT x) rs) (bytes_at tmp rs (io_mem io)) \<and>
          ch_wire (io_drv io' b) = e \<and> spi_state_ok t (k', io'))"
      using s' by (simp add: kb_transfer_end_def spi_state_ok_mem)
  qed
qed

text \<open>
  C5. The transfer of the keyboard over the pins, the SPI core and the driver refines the exchange of bytes that the model of
  the input task uses: on a free bus it returns without waiting, the three button bytes are the inverted bytes that
  come back for the three LED bytes after one latch pulse, no memory but the button bytes and the temporary buffer changes, and the
  state of the SPI stack stays well-formed.
\<close>

theorem kbTransferData_refines:
  assumes "spi_state_ok t (k, io)" and "io_devs io d = Some dev" and "sd_bus dev = Some b" and "k_devices k d = Some dv"
    and "spi_accepted (sd_config dev)" and "cfg_mode (sd_config dev) AND RT_SPI_NO_CS \<noteq> 0"
    and "led + 3 \<le> tmp \<or> tmp + 3 \<le> led" and "btn + 3 \<le> tmp \<or> tmp + 3 \<le> btn"
  shows "let bus = (\<lambda>out temp. (3, fst (wire_exchange p out (latch_pulse g (ch_wire (io_drv io b)))))) in
    returns (kb_transfer env g p b d tmp led btn ((k, io), ps)) (\<lambda>(r, (k', io'), ps'). r = Done () \<and>
      map (io_mem io') [btn..<btn + 3] = kbTransferData bus (map (io_mem io) [led..<led + 3]) (map (io_mem io) [btn..<btn + 3]) \<and>
      (\<forall>a. (a < btn \<or> btn + 3 \<le> a) \<and> (a < tmp \<or> tmp + 3 \<le> a) \<longrightarrow> io_mem io' a = io_mem io a) \<and> spi_state_ok t (k', io'))"
proof -
  obtain rs e where w: "wire_exchange p (map (io_mem io) [led..<led + 3]) (latch_pulse g (ch_wire (io_drv io b))) = (rs, e)" by fastforce
  let ?bus = "\<lambda>out temp :: u8 list. (3, fst (wire_exchange p out (latch_pulse g (ch_wire (io_drv io b)))))"
  have l: "length rs = 3" using length_wire_exchange [of p "map (io_mem io) [led..<led + 3]"] w by (metis fst_conv length_map length_upt diff_add_inverse)
  obtain x y z where rs: "rs = [x, y, z]" by (rule length_3E [OF l])
  have a: "kbTransferData ?bus (map (io_mem io) [led..<led + 3]) (map (io_mem io) [btn..<btn + 3]) = map (\<lambda>x. NOT x) rs"
    by (subst kbTransferData_eq) (simp_all add: w rs)
  show ?thesis
    unfolding Let_def a
  proof (rule returns_mono [OF kb_transfer_exchange [OF assms w]], clarify)
    fix k' io' assume s: "spi_state_ok t (k', io')" and m: "io_mem io' = bytes_at btn (map (\<lambda>x. NOT x) rs) (bytes_at tmp rs (io_mem io))"
    show "Done () = Done () \<and> map (io_mem io') [btn..<btn + 3] = map (\<lambda>x. NOT x) rs \<and>
      (\<forall>a. (a < btn \<or> btn + 3 \<le> a) \<and> (a < tmp \<or> tmp + 3 \<le> a) \<longrightarrow> io_mem io' a = io_mem io a) \<and> spi_state_ok t (k', io')"
      using s map_bytes_at [of btn "map (\<lambda>x. NOT x) rs"] l unfolding m by (simp add: bytes_at_def)
  qed
qed

text \<open>A chain of three shift registers: the latch loads the buttons, every byte sent pushes one out.\<close>

definition chain_hw :: "(u8 list \<times> u8 list \<times> u8) gpio_hw" where
  "chain_hw = \<lparr>gh_BSHR = (\<lambda>port m e. e), gh_BCR = (\<lambda>port m (buttons, chain, r). if port = 0 \<and> m = 8 then (buttons, buttons, r) else (buttons, chain, r)),
     gh_INDR = (\<lambda>port e. 0), gh_INTFR = (\<lambda>e. 0), gh_clear_INTFR = (\<lambda>m e. e)\<rparr>"

definition chain_wire :: "(u8 list \<times> u8 list \<times> u8) spi_wire" where
  "chain_wire = \<lparr>spi_txe = (\<lambda>e. (True, e)), spi_rxne = (\<lambda>e. (True, e)),
     spi_send_data = (\<lambda>x (buttons, chain, r). (buttons, tl chain @ [x], hd chain)),
     spi_receive_data = (\<lambda>(buttons, chain, r). (r, (buttons, chain, r))), gpio_write = (\<lambda>cs level e. e)\<rparr>"

lemma chain_byte: "SPIx_ReadWriteByte chain_wire x (buttons, b # chain, r) = (b, (buttons, chain @ [x], b))"
  by (simp add: SPIx_ReadWriteByte_def wait_flag.simps chain_wire_def)

definition chain_io :: "(u8 list \<times> u8 list \<times> u8) ch32_spi spi_io" where
  "chain_io = \<lparr>io_mem = (\<lambda>a. 0), io_buses = [124 \<mapsto> \<lparr>sb_mode = RT_SPI_BUS_MODE_SPI, sb_owner = None\<rparr>],
     io_devs = [500 \<mapsto> \<lparr>sd_bus = Some 124, sd_config = kb_config\<rparr>], io_msgs = Map.empty,
     io_drv = (\<lambda>b. sample_spi ([0xFE, 0xFF, 0x7F], [0, 0, 0], 0))\<rparr>"

lemma chain_ok: "spi_state_ok 10 (board_kernel, chain_io)"
  using board_free by (auto simp: spi_state_ok_def buses_free_def chain_io_def kb_config_def not_3wire_def split: if_splits)

theorem kbTransferData_refines_witness:
  "\<forall>env ps. returns (kb_transfer env chain_hw chain_wire 124 500 100 200 300 ((board_kernel, chain_io), ps))
     (\<lambda>(r, (k', io'), ps'). map (io_mem io') [300..<303] = [0x01, 0x00, 0x80])"
proof (intro allI)
  fix env and ps :: "(u8 list \<times> u8 list \<times> u8) pin_state"
  let ?dev = "\<lparr>sd_bus = Some 124, sd_config = kb_config\<rparr>"
  have d: "io_devs chain_io 500 = Some ?dev" "sd_bus ?dev = Some 124" "spi_accepted (sd_config ?dev)"
    "cfg_mode (sd_config ?dev) AND RT_SPI_NO_CS \<noteq> 0" "(200 :: nat) + 3 \<le> 100 \<or> 100 + 3 \<le> (200 :: nat)" "(300 :: nat) + 3 \<le> 100 \<or> 100 + 3 \<le> (300 :: nat)"
    by (simp_all add: chain_io_def kb_config_def spi_accepted_def)
  have l: "latch_pulse chain_hw (ch_wire (io_drv chain_io 124)) = ([0xFE, 0xFF, 0x7F], [0xFE, 0xFF, 0x7F], 0)"
    by (simp add: latch_pulse_def chain_hw_def chain_io_def sample_spi_def)
  note x = kbTransferData_refines [OF chain_ok d(1,2) board_kernel_simps(2) d(3-6), of chain_wire chain_hw env ps]
  have m: "map f [200..<203] = [f 200, f 201, f 202]" "map f [300..<303] = [f 300, f 301, f (302 :: nat)]" for f :: "nat \<Rightarrow> u8"
    by (simp_all add: upt_rec)
  show "returns (kb_transfer env chain_hw chain_wire 124 500 100 200 300 ((board_kernel, chain_io), ps))
     (\<lambda>(r, (k', io'), ps'). map (io_mem io') [300..<303] = [0x01, 0x00, 0x80])"
    using x by (simp add: Let_def l m kbTransferData_eq chain_byte) (auto elim!: returns_mono)
qed

section \<open>Set-up on an unknown bus\<close>

lemma obj_header_heap [simp]: "obj_header obj (k\<lparr>k_heap := h\<rparr>) = obj_header obj k"
  by (cases obj) simp_all

text \<open>
  Attaching a device to a bus that is not registered never returns: the attachment fails and the assertion on its result
  stops the system, so that the error message of \<^verbatim>\<open>kbInit\<close> is never printed and no input task runs without its bus.
\<close>

theorem rt_hw_spi_device_attach_unknown:
  fixes g :: "'e gpio_hw"
  assumes "kinv k" and "k_irq_nest k = 0" and "k_lock_nest k < 0x7fff" and "device_named bus_name k = None"
  shows "rt_hw_spi_device_attach g b bus_name name port pin ((k, io), ps) = None"
proof -
  have "\<forall>d cs h (io' :: 'e ch32_spi spi_io) r k' io''. rt_spi_bus_attach_device d name bus_name cs (k\<lparr>k_heap := h\<rparr>, io') = Some (r, k', io'') \<longrightarrow> r \<noteq> RT_EOK"
  proof (intro allI impI)
    fix d cs h r k' and io' io'' :: "'e ch32_spi spi_io"
    assume a: "rt_spi_bus_attach_device d name bus_name cs (k\<lparr>k_heap := h\<rparr>, io') = Some (r, k', io'')"
    have dn: "device_named bus_name (k\<lparr>k_heap := h\<rparr>) = device_named bus_name k"
      by (simp add: device_named_def named_def [abs_def] obj_header_heap)
    have "returns (rt_device_find bus_name (k\<lparr>k_heap := h\<rparr>)) (\<lambda>(r, k'). r = None)"
      using rt_device_find_returns [of "k\<lparr>k_heap := h\<rparr>" bus_name] assms dn by (auto elim!: returns_mono simp: kinvx_def)
    then show "r \<noteq> RT_EOK" using a by (auto simp: rt_spi_bus_attach_device_def returns_def)
  qed
  note fails = this
  show ?thesis
  proof (rule ccontr)
    assume "rt_hw_spi_device_attach g b bus_name name port pin ((k, io), ps) \<noteq> None"
    then show False
      using fails unfolding rt_hw_spi_device_attach_def on_pins_def by (fastforce simp: bind_eq_Some_conv split: if_splits)
  qed
qed

theorem rt_hw_spi_device_attach_unknown_witness:
  "\<forall>(g :: (u8 list \<times> u8 list \<times> u8) gpio_hw) ps. rt_hw_spi_device_attach g 124 KB_SPI_BUS KB_SPI_DEV_NAME 0 0x0010 ((sample_kernel, chain_io), ps) = None"
proof (intro allI)
  fix g :: "(u8 list \<times> u8 list \<times> u8) gpio_hw" and ps
  have "k_irq_nest sample_kernel = 0" "k_lock_nest sample_kernel < 0x7fff" "device_named KB_SPI_BUS sample_kernel = None"
    by (simp_all add: device_named_def sample_kernel_def)
  from rt_hw_spi_device_attach_unknown [OF sample_kinv this]
  show "rt_hw_spi_device_attach g 124 KB_SPI_BUS KB_SPI_DEV_NAME 0 0x0010 ((sample_kernel, chain_io), ps) = None" .
qed

end
