(* ===== verification/BootKeyboard.thy ===== *)
theory BootKeyboard
  imports Startup KeyboardBus
begin

text \<open>
  \<^verbatim>\<open>kbInit\<close> as the start of the program calls it: the set-up of the keyboard on the SPI stack keeps what \<^verbatim>\<open>main\<close> asks of it, when
  the locks of the buses are free.
\<close>

text \<open>The kernel after \<^verbatim>\<open>kbInit\<close>, on a state of the SPI stack and the pins.\<close>

definition kb_kernel :: "env \<Rightarrow> 'e gpio_hw \<Rightarrow> 'e spi_wire \<Rightarrow> nat \<Rightarrow> 'e ch32_spi spi_io \<Rightarrow> 'e pin_state \<Rightarrow> kernel \<Rightarrow> kernel option" where
  "kb_kernel env g p b io ps k = do {
     (_, (k, _), _) \<leftarrow> kbInit env g p b ((k, io), ps);
     Some k
   }"

text \<open>The locks of the buses that are registered, or that a device is attached to, are free.\<close>

definition locks_free :: "'h spi_io \<Rightarrow> kernel \<Rightarrow> bool" where
  "locks_free io k \<longleftrightarrow> (\<forall>b dv. k_devices k b = Some dv \<longrightarrow> dv_type dv = RT_Device_Class_SPIBUS \<longrightarrow> lock_free b k) \<and>
     (\<forall>d dev b. io_devs io d = Some dev \<longrightarrow> sd_bus dev = Some b \<longrightarrow> lock_free b k)"

lemma lock_free_cong:
  "k_mutexes k' = k_mutexes k \<Longrightarrow> (\<And>m. k_lists k' (MutexQ m) = k_lists k (MutexQ m)) \<Longrightarrow> lock_free b k' = lock_free b k"
  by (simp add: lock_free_def mutex_free_def)

lemma boot_only_error:
  assumes i: "boot_inv bs k" and o: "only_error t b k k'"
  shows "boot_inv bs k'" "dom (k_threads k') = dom (k_threads k)" "k_current k' = k_current k" "below_current k q \<Longrightarrow> below_current k' q"
proof -
  note b = boot_invD [OF i]
  obtain th e mu where k': "k_threads k t = Some th"
    "k' = k\<lparr>k_threads := (k_threads k)(t \<mapsto> th\<lparr>th_error := e\<rparr>), k_mutexes := (k_mutexes k)(bus_lock b \<mapsto> mu)\<rparr>"
    using o by (auto simp: only_error_def)
  have "same_sched th (th\<lparr>th_error := e\<rparr>)" by (simp add: same_sched_def prio_def is_thread_object_def thread_stat_def)
  from kinvx_upd_same [OF b(1) k'(1) this] have "kinv k'" by (simp add: k'(2) kinvx_def)
  moreover have "calm k'" using b(2) k'(1) by (auto simp: k'(2) calm_def prio_def split: option.splits)
  moreover have "placed bs k'" using b(5) k'(1) unfolding placed_def by (auto simp: k'(2))
  ultimately show "boot_inv bs k'" using b by (simp add: boot_invx_def) (simp add: k'(2))
  show "dom (k_threads k') = dom (k_threads k)" "k_current k' = k_current k" using k'(1) by (auto simp: k'(2))
  show "below_current k' q" if "below_current k q" using that k'(1) by (auto simp: k'(2) below_current_def prio_def)
qed

text \<open>\<^verbatim>\<open>rt_spi_configure\<close> on a free bus returns to its caller with the lock released.\<close>

lemma configure_only_error:
  assumes c: "k_current k = Some t" "k_irq_nest k = 0" "k_threads k t \<noteq> None"
    and l: "\<forall>dev b. io_devs io d = Some dev \<longrightarrow> sd_bus dev = Some b \<longrightarrow> lock_free b k"
    and r: "rt_spi_configure env (ch_spi_ops p) d cfg (k, io) = Some (o1, k', io')"
  shows "k' = k \<or> (\<exists>b. only_error t b k k')" "\<exists>x. o1 = Done x"
proof -
  obtain dev where dev: "io_devs io d = Some dev" using r by (auto simp: rt_spi_configure_def bind_eq_Some_conv)
  have "(k' = k \<or> (\<exists>b. only_error t b k k')) \<and> (\<exists>x. o1 = Done x)"
  proof (cases "sd_bus dev")
    case None
    then show ?thesis using r dev by (auto simp: rt_spi_configure_def)
  next
    case (Some b)
    obtain th where th: "k_threads k t = Some th" using c(3) by auto
    have lk: "lock_free b k" using l dev Some by blast
    define io1 where "io1 = io\<lparr>io_devs := (io_devs io)(d \<mapsto> dev\<lparr>sd_config := \<lparr>cfg_mode = cfg_mode cfg AND RT_SPI_MODE_MASK,
      cfg_data_width = cfg_data_width cfg, cfg_max_hz = cfg_max_hz cfg\<rparr>\<rparr>)\<rparr>"
    obtain k1 where k1: "bus_held t b k1" "only_error t b k k1"
      "bus_take env b (spi_configure_locked env (ch_spi_ops p) d) (k, io1) = spi_configure_locked env (ch_spi_ops p) d RT_EOK (k1, io1)"
      by (rule bus_take_free [OF c(1,2) th lk])
    have r1: "spi_configure_locked env (ch_spi_ops p) d RT_EOK (k1, io1) = Some (o1, k', io')"
      using r dev Some k1(3) by (simp add: rt_spi_configure_def io1_def)
    obtain dev2 b2 ud where d2: "spi_device d (k1, io1) = Some (dev2, b2, ud)"
      using r1 by (cases "spi_device d (k1, io1)") (auto simp: spi_configure_locked_def)
    have b2: "b2 = b" using d2 Some by (auto simp: spi_device_def io1_def bind_eq_Some_conv)
    obtain bus where bus: "io_buses io1 b = Some bus"
      using r1 d2 b2 by (cases "io_buses io1 b") (auto simp: spi_configure_locked_def)
    define io2 where "io2 = (if sb_owner bus = Some d then snd (bus_configure (ch_spi_ops p) b (sd_config dev2) io1) else io1)"
    have rel: "bus_release env b RT_EOK (k1, io2) = Some (o1, k', io')"
      using r1 d2 b2 bus unfolding spi_configure_locked_def io2_def by (cases "sb_owner bus = Some d") simp_all
    obtain k2 where "bus_release env b RT_EOK (k1, io2) = Some (Done RT_EOK, k2, io2)" "only_error t b k k2"
      by (rule bus_release_held [OF k1(1,2)])
    then show ?thesis using rel by auto
  qed
  then show "k' = k \<or> (\<exists>b. only_error t b k k')" "\<exists>x. o1 = Done x" by simp_all
qed

text \<open>Finding a device changes nothing, and attaching one takes its memory and registers it.\<close>

lemma device_find_boot:
  assumes i: "boot_inv bs k" and r: "rt_device_find name k = Some (q, k')"
  shows "k' = k"
proof -
  note b = boot_invD [OF i]
  have x: "\<And>c. k_current k = Some c \<Longrightarrow> c \<notin> {}" by simp
  show ?thesis
    using r b(6) calm_critical [OF b(1,2) x] device_information by (auto simp: rt_device_find_def rt_object_find_def)
qed

lemma bus_attach_boot:
  fixes io :: "'h spi_io"
  assumes i: "boot_inv bs k" and l: "locks_free io k" and r: "rt_spi_bus_attach_device d name bus_name ud (k, io) = Some (RT_EOK, k', io')"
  shows "boot_inv bs k'" "k_threads k' = k_threads k" "k_current k' = k_current k"
    "\<And>d dev b. io_devs io' d = Some dev \<Longrightarrow> sd_bus dev = Some b \<Longrightarrow> lock_free b k'"
proof -
  obtain q k1 where q: "rt_device_find bus_name k = Some (q, k1)" using r by (cases "rt_device_find bus_name k") (auto simp: rt_spi_bus_attach_device_def)
  have k1: "k1 = k" by (rule device_find_boot [OF i q])
  obtain b where b: "q = Some b" using r q by (cases q) (auto simp: rt_spi_bus_attach_device_def)
  obtain bdev where bd: "k_devices k b = Some bdev" "dv_type bdev = RT_Device_Class_SPIBUS"
    using r q k1 b by (cases "k_devices k b") (auto simp: rt_spi_bus_attach_device_def split: if_splits)
  define k2 where "k2 = spi_device_setup d RT_Device_Class_SPIDevice SPIDEV_DEVICE_READ SPIDEV_DEVICE_WRITE SPIDEV_DEVICE_CONTROL k"
  obtain res k3 where sp: "rt_spidev_device_init d name k = Some (res, k3)"
    using r q k1 b bd by (cases "rt_spidev_device_init d name k") (auto simp: rt_spi_bus_attach_device_def)
  then have g: "rt_device_register (Some d) name RT_DEVICE_FLAG_RDWR k2 = Some (res, k3)" by (simp add: rt_spidev_device_init_def k2_def)
  have res: "res = RT_EOK" using r q k1 b bd sp by (auto simp: rt_spi_bus_attach_device_def split: if_splits)
  obtain dv where dv: "k_devices k3 d = Some dv"
    using r q k1 b bd sp res by (cases "k_devices k3 d") (auto simp: rt_spi_bus_attach_device_def mod_device_def)
  have e: "k' = k3\<lparr>k_devices := (k_devices k3)(d \<mapsto> dv\<lparr>dv_user_data := ud\<rparr>)\<rparr>" "io_devs io' = (io_devs io)(d \<mapsto> \<lparr>sd_bus = Some b, sd_config = zero_config\<rparr>)"
    using r q k1 b bd sp res dv by (auto simp: rt_spi_bus_attach_device_def mod_device_def)
  have i2: "boot_inv bs k2"
    by (rule boot_invx_cong [OF i]) (use boot_invD(1) [OF i] in \<open>simp_all add: k2_def spi_device_setup_def kinvx_def\<close>)
  note k3 = device_register_boot [OF i2 g]
  show "boot_inv bs k'" by (rule boot_invx_cong [OF k3(1)]) (use boot_invD(1) [OF k3(1)] in \<open>simp_all add: e kinvx_def\<close>)
  show "k_threads k' = k_threads k" "k_current k' = k_current k" using k3 by (simp_all add: e k2_def spi_device_setup_def)
  have m: "k_mutexes k' = k_mutexes k" "k_lists k' = k_lists k" using k3(5,6) by (simp_all add: e k2_def spi_device_setup_def)
  show "lock_free c k'" if "io_devs io' x = Some dev" "sd_bus dev = Some c" for x dev c
    using that l bd lock_free_cong [of k' k c] m by (auto simp: e locks_free_def split: if_splits)
qed

text \<open>The two blocks of memory for the device and its chip select pin.\<close>

lemma two_blocks_boot:
  assumes i: "boot_inv bs k" and m: "rt_malloc 84 (k_irq_nest k) (k_heap k) = Some (Some d, h1)" "rt_malloc 8 (k_irq_nest k) h1 = Some (Some cs, h2)"
  shows "\<exists>bs2. boot_inv bs2 (k\<lparr>k_heap := h2\<rparr>) \<and> spends (need 84 + need 8) bs bs2"
proof -
  note b = boot_invD [OF i]
  obtain bs1 where n1: "new_block bs k bs1 h1 d" "spends (need 84) bs bs1"
    using returnsD [OF malloc_new [OF b(4,6), of 84] m(1)] by (auto simp: malloc_result_def)
  note k1 = boot_new_block [OF i n1(1)]
  have "rt_malloc 8 (k_irq_nest (k\<lparr>k_heap := h1\<rparr>)) (k_heap (k\<lparr>k_heap := h1\<rparr>)) = Some (Some cs, h2)" using m(2) by simp
  from returnsD [OF malloc_new [OF boot_invD(4,6) [OF k1], of 8] this] obtain bs2 where n2: "new_block bs1 (k\<lparr>k_heap := h1\<rparr>) bs2 h2 cs" "spends (need 8) bs1 bs2"
    by (auto simp: malloc_result_def)
  from boot_new_block [OF k1 n2(1)] show ?thesis using spends_trans [OF n1(2) n2(2)] by auto
qed

lemma attach_boot:
  fixes g :: "'e gpio_hw"
  assumes i: "boot_inv bs k" and l: "locks_free io k"
    and r: "rt_hw_spi_device_attach g b bus_name name port pin ((k, io), ps) = Some (res, (k', io'), ps')"
  shows "\<exists>bs2. boot_inv bs2 k' \<and> spends (need 84 + need 8) bs bs2" "k_threads k' = k_threads k" "k_current k' = k_current k"
    "\<And>d dev b. io_devs io' d = Some dev \<Longrightarrow> sd_bus dev = Some b \<Longrightarrow> lock_free b k'"
proof -
  let ?ini = "\<lparr>GPIO_Pin = pin, GPIO_Speed = GPIO_Speed_50MHz, GPIO_Mode = GPIO_Mode_Out_PP\<rparr>"
  obtain io1 ps1 where s1: "on_pins b (\<lambda>ps. Some (GPIO_Init g port ?ini ps)) ((k, io), ps) = Some ((k, io1), ps1)" "io_devs io1 = io_devs io"
    by (simp add: on_pins_def)
  obtain io2 ps2 where s2: "on_pins b (\<lambda>ps. Some (GPIO_WriteBit g port pin 1 ps)) ((k, io1), ps1) = Some ((k, io2), ps2)" "io_devs io2 = io_devs io"
    using s1(2) by (simp add: on_pins_def)
  obtain q h1 where m1: "rt_malloc 84 (k_irq_nest k) (k_heap k) = Some (q, h1)"
    using r s1 s2 by (cases "rt_malloc 84 (k_irq_nest k) (k_heap k)") (auto simp: rt_hw_spi_device_attach_def)
  obtain d where d: "q = Some d" using r s1 s2 m1 by (cases q) (auto simp: rt_hw_spi_device_attach_def)
  obtain q2 h2 where m2: "rt_malloc 8 (k_irq_nest k) h1 = Some (q2, h2)"
    using r s1 s2 m1 d by (cases "rt_malloc 8 (k_irq_nest k) h1") (auto simp: rt_hw_spi_device_attach_def)
  obtain cs where cs: "q2 = Some cs" using r s1 s2 m1 d m2 by (cases q2) (auto simp: rt_hw_spi_device_attach_def)
  obtain bs2 where h: "boot_inv bs2 (k\<lparr>k_heap := h2\<rparr>)" "spends (need 84 + need 8) bs bs2"
    using two_blocks_boot [OF i m1 [unfolded d] m2 [unfolded cs]] by blast
  obtain res2 k3 io3 where a: "rt_spi_bus_attach_device d name bus_name cs (k\<lparr>k_heap := h2\<rparr>, io2) = Some (res2, k3, io3)"
    using r s1 s2 m1 d m2 cs by (cases "rt_spi_bus_attach_device d name bus_name cs (k\<lparr>k_heap := h2\<rparr>, io2)") (auto simp: rt_hw_spi_device_attach_def)
  have e: "res2 = RT_EOK" "k' = k3" "io' = io3"
    using r s1 s2 m1 d m2 cs a by (auto simp: rt_hw_spi_device_attach_def split: if_splits)
  have l2: "locks_free io2 (k\<lparr>k_heap := h2\<rparr>)" using l s2(2) by (simp add: locks_free_def lock_free_def mutex_free_def)
  note at = bus_attach_boot [OF h(1) l2 a [unfolded e(1)]]
  show "\<exists>bs2. boot_inv bs2 k' \<and> spends (need 84 + need 8) bs bs2" using at(1) h(2) e by auto
  show "k_threads k' = k_threads k" "k_current k' = k_current k" using at(2,3) e by simp_all
  show "\<And>d dev b. io_devs io' d = Some dev \<Longrightarrow> sd_bus dev = Some b \<Longrightarrow> lock_free b k'" using at(4) e by simp
qed

lemma kbInit_boot:
  assumes i: "boot_inv bs k" and c: "k_current k = Some t" and l: "locks_free io k"
    and r: "kbInit env g p b ((k, io), ps) = Some (o1, (k', io'), ps')"
  shows "\<exists>bs'. boot_inv bs' k' \<and> spends (need 84 + need 8) bs bs'" "dom (k_threads k') = dom (k_threads k)" "k_current k' = k_current k"
    "below_current k q \<Longrightarrow> below_current k' q" "\<exists>d. o1 = Done d"
proof -
  obtain res k1 io1 ps1 where a: "rt_hw_spi_device_attach g b KB_SPI_BUS KB_SPI_DEV_NAME 0 0x0010 ((k, io), ps) = Some (res, (k1, io1), ps1)"
    using r by (cases "rt_hw_spi_device_attach g b KB_SPI_BUS KB_SPI_DEV_NAME 0 0x0010 ((k, io), ps)") (auto simp: kbInit_def)
  note at = attach_boot [OF i l a]
  obtain bs1 where b1: "boot_inv bs1 k1" "spends (need 84 + need 8) bs bs1" using at(1) by blast
  obtain x k2 where f: "rt_device_find KB_SPI_DEV_NAME k1 = Some (x, k2)"
    using r a by (cases "rt_device_find KB_SPI_DEV_NAME k1") (auto simp: kbInit_def)
  have k2: "k2 = k1" by (rule device_find_boot [OF b1(1) f])
  obtain d where d: "x = Some d" using r a f by (cases x) (auto simp: kbInit_def)
  obtain o2 k3 io3 where cf: "rt_spi_configure env (ch_spi_ops p) d kb_config (k1, io1) = Some (o2, k3, io3)"
    using r a f k2 d by (cases "rt_spi_configure env (ch_spi_ops p) d kb_config (k1, io1)") (auto simp: kbInit_def)
  have t: "k_current k1 = Some t" "k_threads k1 t \<noteq> None"
    using c at(3) boot_invD(2) [OF b1(1)] by (auto simp: calm_def)
  have lf: "\<forall>dev b. io_devs io1 d = Some dev \<longrightarrow> sd_bus dev = Some b \<longrightarrow> lock_free b k1" using at(4) by blast
  note cfg = configure_only_error [OF t(1) boot_invD(6) [OF b1(1)] t(2) lf cf]
  obtain y where y: "o2 = Done y" using cfg(2) by blast
  have e: "k' = k3 \<and> o1 = Done d"
  proof (cases "kb_init_end g b ((k3, io3), ps1)")
    case None
    then show ?thesis using r a f k2 d cf y by (simp add: kbInit_def)
  next
    case (Some z)
    have "fst (fst z) = k3"
      using Some by (cases "rt_pin_mode (Some (ch32_pin_ops g)) KB_LATCH_PIN 0 (ps1\<lparr>ps_env := ch_wire (io_drv io3 b)\<rparr>)")
        (auto simp: kb_init_end_def latch_write_def on_pins_def bind_eq_Some_conv)
    then show ?thesis using r a f k2 d cf y Some by (auto simp: kbInit_def)
  qed
  have keep: "boot_inv bs1 k'" "dom (k_threads k') = dom (k_threads k1)" "k_current k' = k_current k1" "below_current k1 q \<Longrightarrow> below_current k' q"
  proof -
    consider "k3 = k1" | c where "only_error t c k1 k3" using cfg(1) by blast
    then have "boot_inv bs1 k3 \<and> dom (k_threads k3) = dom (k_threads k1) \<and> k_current k3 = k_current k1 \<and> (below_current k1 q \<longrightarrow> below_current k3 q)"
    proof cases
      case (2 c)
      then show ?thesis using boot_only_error [OF b1(1) 2] by blast
    qed (use b1(1) in simp)
    then show "boot_inv bs1 k'" "dom (k_threads k') = dom (k_threads k1)" "k_current k' = k_current k1" "below_current k1 q \<Longrightarrow> below_current k' q"
      using e by simp_all
  qed
  show "\<exists>bs'. boot_inv bs' k' \<and> spends (need 84 + need 8) bs bs'" using keep(1) b1(2) by blast
  show "dom (k_threads k') = dom (k_threads k)" "k_current k' = k_current k" using keep at(2,3) by simp_all
  show "below_current k' q" if "below_current k q"
  proof -
    have "below_current k1 q" using that at(2,3) by (simp add: below_current_def)
    then show ?thesis by (rule keep(4))
  qed
  show "\<exists>d. o1 = Done d" using e by blast
qed

section \<open>When the keyboard is there\<close>

text \<open>
  What \<^verbatim>\<open>kbInit\<close> needs to return: the bus \<^verbatim>\<open>spi1\<close> is registered and its lock is free, no device has the name \<^verbatim>\<open>spi10\<close>, and the
  structures of the registered devices \<open>xs\<close> are variables of the program.
\<close>

definition keyboard_ready :: "nat \<Rightarrow> 'h spi_io \<Rightarrow> (nat \<times> u8 list) list \<Rightarrow> kernel \<Rightarrow> bool" where
  "keyboard_ready b io xs k \<longleftrightarrow> device_table xs k \<and> named_in KB_SPI_BUS xs = Some b \<and> named_in KB_SPI_DEV_NAME xs = None \<and>
     (\<forall>d \<in> fst ` set xs. outside (k_heap k) d) \<and> (\<exists>dv. k_devices k b = Some dv \<and> dv_type dv = RT_Device_Class_SPIBUS) \<and>
     io_buses io b \<noteq> None \<and> lock_free b k"

lemma room_serves:
  assumes "malloc_result sz bs k r h" and "room R bs" and "need sz + (SIZEOF_STRUCT_MEM + MIN_SIZE_ALIGNED) \<le> R"
  obtains a bs1 where "r = Some a" "new_block bs k bs1 h a" "room (R - need sz) bs1"
proof (cases r)
  case None
  then show ?thesis using assms by (auto simp: malloc_result_def scarce_def)
next
  case (Some a)
  then show ?thesis using assms that unfolding malloc_result_def spends_def by auto
qed

lemma bus_attach_returns:
  fixes io :: "'h spi_io"
  assumes i: "boot_inv bs k" and y: "keyboard_ready b io xs k" and d: "d \<notin> fst ` set xs"
  obtains k' io' where "rt_spi_bus_attach_device d KB_SPI_DEV_NAME KB_SPI_BUS ud (k, io) = Some (RT_EOK, k', io')" "boot_inv bs k'"
    "device_table ((d, KB_SPI_DEV_NAME) # xs) k'" "k_devices k' d \<noteq> None" "io_devs io' d = Some \<lparr>sd_bus = Some b, sd_config = zero_config\<rparr>"
    "io_buses io' = io_buses io" "k_current k' = k_current k" "k_threads k' = k_threads k" "lock_free b k'"
proof -
  note y' = y [unfolded keyboard_ready_def]
  obtain bdev where bd: "k_devices k b = Some bdev" "dv_type bdev = RT_Device_Class_SPIBUS" using y' by blast
  have f: "rt_device_find KB_SPI_BUS k = Some (Some b, k)" using table_find [OF i, of xs KB_SPI_BUS] y' by simp
  define dev where "dev = (storage zero_device (k_devices k d))\<lparr>dv_type := RT_Device_Class_SPIDevice, dv_init := None, dv_open := None,
    dv_close := None, dv_read := Some SPIDEV_DEVICE_READ, dv_write := Some SPIDEV_DEVICE_WRITE, dv_control := Some SPIDEV_DEVICE_CONTROL\<rparr>"
  define k1 where "k1 = k\<lparr>k_devices := (k_devices k)(d \<mapsto> dev)\<rparr>"
  have su: "spi_device_setup d RT_Device_Class_SPIDevice SPIDEV_DEVICE_READ SPIDEV_DEVICE_WRITE SPIDEV_DEVICE_CONTROL k = k1"
    by (simp add: spi_device_setup_def k1_def dev_def)
  have i1: "boot_inv bs k1" unfolding k1_def by (rule boot_devices [OF i])
  have t1: "device_table xs k1" using y' d by (force simp: k1_def device_table_def)
  have d1: "k_devices k1 d = Some dev" by (simp add: k1_def)
  have nn: "named_in KB_SPI_DEV_NAME xs = None" using y' by blast
  obtain k2 where k2: "rt_device_register (Some d) KB_SPI_DEV_NAME RT_DEVICE_FLAG_RDWR k1 = Some (RT_EOK, k2)" "boot_inv bs k2"
    "device_table ((d, KB_SPI_DEV_NAME) # xs) k2"
    "k2 = k1\<lparr>k_devices := (k_devices k1)(d \<mapsto> registered KB_SPI_DEV_NAME RT_DEVICE_FLAG_RDWR dev),
       k_objects := (k_objects k1)(RT_Object_Class_Device := ODevice d # k_objects k1 RT_Object_Class_Device)\<rparr>"
    by (rule table_register [OF i1 t1 nn d d1])
  define dv where "dv = registered KB_SPI_DEV_NAME RT_DEVICE_FLAG_RDWR dev"
  have dv: "k_devices k2 d = Some dv" by (simp add: k2(4) dv_def)
  define k3 where "k3 = k2\<lparr>k_devices := (k_devices k2)(d \<mapsto> dv\<lparr>dv_user_data := ud\<rparr>)\<rparr>"
  define io3 where "io3 = io\<lparr>io_devs := (io_devs io)(d \<mapsto> \<lparr>sd_bus = Some b, sd_config = zero_config\<rparr>)\<rparr>"
  have "rt_spi_bus_attach_device d KB_SPI_DEV_NAME KB_SPI_BUS ud (k, io) = Some (RT_EOK, k3, io3)"
    using f bd k2(1) dv by (simp add: rt_spi_bus_attach_device_def rt_spidev_device_init_def su mod_device_def k3_def io3_def)
  moreover have "boot_inv bs k3" unfolding k3_def by (rule boot_devices [OF k2(2)])
  moreover have "device_table ((d, KB_SPI_DEV_NAME) # xs) k3"
    using k2(3) d dv by (fastforce simp: device_table_def k3_def)
  moreover have "lock_free b k3" using y' lock_free_cong [of k3 k b] by (simp add: k3_def k2(4) k1_def)
  ultimately show thesis using that by (simp add: k3_def k2(4) k1_def io3_def)
qed

lemma configure_returns:
  assumes c: "k_current k = Some t" "k_irq_nest k = 0" "k_threads k t = Some th" and l: "lock_free b k"
    and d: "io_devs io d = Some dev" "sd_bus dev = Some b" "k_devices k d \<noteq> None" "io_buses io b \<noteq> None"
  shows "\<exists>k' io'. rt_spi_configure env ops d cfg (k, io) = Some (Done RT_EOK, k', io')"
proof -
  define dev1 where "dev1 = dev\<lparr>sd_config := \<lparr>cfg_mode = cfg_mode cfg AND RT_SPI_MODE_MASK,
      cfg_data_width = cfg_data_width cfg, cfg_max_hz = cfg_max_hz cfg\<rparr>\<rparr>"
  define io1 where "io1 = io\<lparr>io_devs := (io_devs io)(d \<mapsto> dev1)\<rparr>"
  obtain k1 where k1: "bus_held t b k1" "only_error t b k k1"
    "bus_take env b (spi_configure_locked env ops d) (k, io1) = spi_configure_locked env ops d RT_EOK (k1, io1)"
    by (rule bus_take_free [OF c l])
  have dv: "k_devices k1 d \<noteq> None" using d(3) k1(2) by (auto simp: only_error_def)
  obtain bus where bus: "io_buses io1 b = Some bus" using d(4) by (auto simp: io1_def)
  obtain dv where sd: "spi_device d (k1, io1) = Some (dev1, b, dv)"
    using dv d(2) by (auto simp: spi_device_def io1_def dev1_def)
  define io2 where "io2 = (if sb_owner bus = Some d then snd (bus_configure ops b (sd_config dev1) io1) else io1)"
  obtain k2 where "bus_release env b RT_EOK (k1, io2) = Some (Done RT_EOK, k2, io2)" by (rule bus_release_held [OF k1(1,2)])
  then have "spi_configure_locked env ops d RT_EOK (k1, io1) = Some (Done RT_EOK, k2, io2)"
    by (cases "sb_owner bus = Some d") (simp_all add: spi_configure_locked_def sd bus io2_def)
  then show ?thesis using d(1,2) k1(3) by (simp add: rt_spi_configure_def io1_def dev1_def)
qed

lemma kbInit_returns:
  fixes g :: "'e gpio_hw"
  assumes i: "boot_inv bs k" and c: "k_current k = Some t" and y: "keyboard_ready b io xs k" and R: "room R bs" "144 \<le> R"
  shows "\<exists>d s'. kbInit env g p b ((k, io), ps) = Some (Done d, s')"
proof -
  note bi = boot_invD [OF i]
  have n: "need 84 = 96" "need 8 = 24" by (simp_all add: need_def request_def rt_align_def)
  let ?ini = "\<lparr>GPIO_Pin = 0x0010, GPIO_Speed = GPIO_Speed_50MHz, GPIO_Mode = GPIO_Mode_Out_PP\<rparr>"
  obtain io1 ps1 where s1: "on_pins b (\<lambda>ps. Some (GPIO_Init g 0 ?ini ps)) ((k, io), ps) = Some ((k, io1), ps1)" "io_devs io1 = io_devs io" "io_buses io1 = io_buses io"
    by (simp add: on_pins_def)
  obtain io2 ps2 where s2: "on_pins b (\<lambda>ps. Some (GPIO_WriteBit g 0 0x0010 1 ps)) ((k, io1), ps1) = Some ((k, io2), ps2)" "io_devs io2 = io_devs io" "io_buses io2 = io_buses io"
    using s1(2,3) by (simp add: on_pins_def)
  obtain q h1 where m1: "rt_malloc 84 (k_irq_nest k) (k_heap k) = Some (q, h1)" "malloc_result 84 bs k q h1"
    using malloc_new [OF bi(4,6), of 84] by (auto simp: returns_def)
  obtain d bs1 where d: "q = Some d" "new_block bs k bs1 h1 d" "room (R - 96) bs1"
    by (rule room_serves [OF m1(2) R(1)]) (use R(2) n in simp_all)
  let ?k1 = "k\<lparr>k_heap := h1\<rparr>"
  have i1: "boot_inv bs1 ?k1" by (rule boot_new_block [OF i d(2)])
  obtain q2 h2 where m2: "rt_malloc 8 (k_irq_nest ?k1) (k_heap ?k1) = Some (q2, h2)" "malloc_result 8 bs1 ?k1 q2 h2"
    using malloc_new [OF boot_invD(4,6) [OF i1], of 8] by (auto simp: returns_def)
  obtain cs bs2 where cs: "q2 = Some cs" "new_block bs1 ?k1 bs2 h2 cs"
    by (rule room_serves [OF m2(2) d(3)]) (use R(2) n in simp_all)
  let ?k2 = "k\<lparr>k_heap := h2\<rparr>"
  have i2: "boot_inv bs2 ?k2" using boot_new_block [OF i1 cs(2)] by simp
  have hp: "outside h2 x = outside (k_heap k) x" for x using d(2) cs(2) by (simp add: new_block_def outside_def)
  have new: "d \<notin> fst ` set xs" using d(2) y by (auto simp: new_block_def keyboard_ready_def)
  have y2: "keyboard_ready b io2 xs ?k2"
    using y s2(3) hp lock_free_cong [of ?k2 k b] by (simp add: keyboard_ready_def device_table_def)
  obtain k3 io3 where a: "rt_spi_bus_attach_device d KB_SPI_DEV_NAME KB_SPI_BUS cs (?k2, io2) = Some (RT_EOK, k3, io3)" "boot_inv bs2 k3"
    "device_table ((d, KB_SPI_DEV_NAME) # xs) k3" "k_devices k3 d \<noteq> None" "io_devs io3 d = Some \<lparr>sd_bus = Some b, sd_config = zero_config\<rparr>"
    "io_buses io3 = io_buses io2" "k_current k3 = k_current ?k2" "k_threads k3 = k_threads ?k2" "lock_free b k3"
    by (rule bus_attach_returns [OF i2 y2 new])
  have at: "rt_hw_spi_device_attach g b KB_SPI_BUS KB_SPI_DEV_NAME 0 0x0010 ((k, io), ps) = Some (RT_EOK, (k3, io3), ps2)"
    using s1(1) s2(1) m1(1) d(1) m2(1) cs(1) a(1) by (simp add: rt_hw_spi_device_attach_def)
  have f: "rt_device_find KB_SPI_DEV_NAME k3 = Some (Some d, k3)" using table_find [OF a(2,3)] by (simp add: named_in_def)
  obtain th where th: "k_threads k3 t = Some th" using bi(2) c a(8) by (auto simp: calm_def)
  have cur: "k_current k3 = Some t" using a(7) c by simp
  have bus: "io_buses io3 b \<noteq> None" using y s2(3) a(6) by (simp add: keyboard_ready_def)
  obtain k4 io4 where cf: "rt_spi_configure env (ch_spi_ops p) d kb_config (k3, io3) = Some (Done RT_EOK, k4, io4)"
    using configure_returns [OF cur boot_invD(6) [OF a(2)] th a(9) a(5) _ a(4) bus] by fastforce
  obtain s' where "kb_init_end g b ((k4, io4), ps2) = Some s'"
    by (auto simp: kb_init_end_def on_pins_def rt_pin_mode_def latch_write_eq Let_def)
  then show ?thesis using at f cf by (simp add: kbInit_def)
qed

lemma kb_kernel_ok:
  assumes "k_current k = Some t" and "locks_free io k"
  shows "kb_init_ok 120 (kb_kernel env g p b io ps) k"
  unfolding kb_init_ok_def
  proof (intro allI impI)
  fix bs k1 k2 assume k1: "boot_inv bs k1" "same_io k k1" "k_threads k1 = k_threads k" "k_current k1 = k_current k" and r: "kb_kernel env g p b io ps k1 = Some k2"
  obtain o1 io2 ps2 where kb: "kbInit env g p b ((k1, io), ps) = Some (o1, (k2, io2), ps2)"
    using r by (cases "kbInit env g p b ((k1, io), ps)") (auto simp: kb_kernel_def)
  have c: "k_current k1 = Some t" using k1(4) assms(1) by simp
  have l: "locks_free io k1" using assms(2) k1(2) lock_free_cong [of k1 k] by (simp add: locks_free_def same_io_def)
  have n: "need 84 + need 8 = 120" by (simp add: need_def request_def rt_align_def)
  note s = kbInit_boot [OF k1(1) c l kb]
  have bc: "\<forall>p. below_current k p \<longrightarrow> below_current k2 p"
  proof (intro allI impI)
    fix q assume "below_current k q"
    then have "below_current k1 q" using k1(3,4) by (simp add: below_current_def)
    then show "below_current k2 q" by (rule s(4))
  qed
  have d: "dom (k_threads k2) = dom (k_threads k)" "k_current k2 = k_current k" using s(2,3) unfolding k1(3,4) by blast+
  show "dom (k_threads k2) = dom (k_threads k) \<and> k_current k2 = k_current k \<and> (\<forall>p. below_current k p \<longrightarrow> below_current k2 p) \<and>
      (\<exists>bs'. boot_inv bs' k2 \<and> spends 120 bs bs')"
    using d bc s(1) unfolding n by blast
  qed

text \<open>
  C6. \<^verbatim>\<open>kbInit\<close> meets the demand of the start of the program: run by a thread while the locks of the SPI buses are free, whatever
  the chip answers, it keeps the invariant of the start and every thread, takes 120 bytes of the heap, and does not wait for
  the lock when it sets up the bus.  And it returns when the bus \<^verbatim>\<open>spi1\<close> is registered, no device is named \<^verbatim>\<open>spi10\<close> and
  144 bytes are free at the end of the heap.
\<close>

theorem kbInit_keeps_boot:
  assumes "k_current k = Some t" and "locks_free io k"
  shows "kb_init_ok 120 (kb_kernel env g p b io ps) k \<and>
    (\<forall>bs o1 s'. boot_inv bs k \<longrightarrow> kbInit env g p b ((k, io), ps) = Some (o1, s') \<longrightarrow> (\<exists>d. o1 = Done d)) \<and>
    (\<forall>bs xs R. boot_inv bs k \<longrightarrow> keyboard_ready b io xs k \<longrightarrow> room R bs \<longrightarrow> 144 \<le> R \<longrightarrow>
      (\<exists>d s'. kbInit env g p b ((k, io), ps) = Some (Done d, s')))"
proof (intro conjI allI impI)
  show "\<exists>d. o1 = Done d" if "boot_inv bs k" "kbInit env g p b ((k, io), ps) = Some (o1, s')" for bs o1 s'
    using kbInit_boot(5) [OF that(1) assms] that(2) by (cases s') auto
  show "\<exists>d s'. kbInit env g p b ((k, io), ps) = Some (Done d, s')" if "boot_inv bs k" "keyboard_ready b io xs k" "room R bs" "144 \<le> R" for bs xs R
    by (rule kbInit_returns [OF that(1) assms(1) that(2-4)])
  show "kb_init_ok 120 (kb_kernel env g p b io ps) k" by (rule kb_kernel_ok [OF assms])
qed

end
