(* ===== verification/BootMachine.thy ===== *)
theory BootMachine
  imports BootSerial BootKeyboard
begin

text \<open>
  The start of the configured machine: beside the serial port, the console and the pins, the SPI buses are registered before the
  scheduler runs (\<^verbatim>\<open>rt_hw_spi_init\<close> of \<^verbatim>\<open>drv_spi.c\<close>), the main thread starts the shell, and \<^verbatim>\<open>kbInit\<close> finds its bus.  With
  these initialisers the hypotheses of the promises about the start hold.
\<close>

section \<open>The initialiser of the SPI buses\<close>

text \<open>The part of \<^verbatim>\<open>rt_hw_spi_init\<close> on the kernel, and the buses it leaves.\<close>

definition spi_kernel :: "(nat \<times> u8 list \<times> nat) list \<Rightarrow> 'h spi_io \<Rightarrow> initialiser" where
  "spi_kernel cs io k = do {
     (result, k, _) \<leftarrow> rt_hw_spi_init cs (k, io);
     Some (result, k)
   }"

definition spi_buses :: "(nat \<times> u8 list \<times> nat) list \<Rightarrow> 'h spi_io \<Rightarrow> 'h spi_io" where
  "spi_buses cs io = fold (\<lambda>(b, _) io. io\<lparr>io_buses := (io_buses io)(b \<mapsto> \<lparr>sb_mode = RT_SPI_BUS_MODE_SPI, sb_owner = None\<rparr>)\<rparr>) cs io"

lemma mutex_information: "rt_object_get_information RT_Object_Class_Mutex \<noteq> None"
  by (simp add: rt_object_get_information_def rt_object_container_def)

lemma mutex_init_boot:
  assumes i: "boot_inv bs k" and r: "rt_mutex_init m name flag k = Some (x, k')"
  shows "boot_inv bs k'" "k_threads k' = k_threads k" "k_current k' = k_current k" "k_heap k' = k_heap k"
proof -
  note b = boot_invD [OF i]
  obtain k1 where o: "rt_object_init (OMutex m) RT_Object_Class_Mutex name k = Some k1" "mod_mutex m mutex_reset (rt_ipc_object_init (MutexQ m) k1) = Some k'"
    using r by (auto simp: rt_mutex_init_def bind_eq_Some_conv)
  have "OMutex m \<notin> set (k_objects k RT_Object_Class_Mutex)"
    using o(1) by (auto simp: rt_object_init_def rt_enter_critical_def split: if_splits)
  from calm_object_init [OF b(1,2) _ mutex_information this, of name] o(1)
  have k1: "boot_inv bs k1" "k_threads k1 = k_threads k" "k_current k1 = k_current k" "k_heap k1 = k_heap k"
    using b by (auto simp: kinvx_def intro!: boot_invx_cong [OF i])
  have k2: "boot_inv bs (rt_ipc_object_init (MutexQ m) k1)" by (rule boot_wait_init [OF k1(1)]) (simp add: wait_head_def)
  obtain M where k': "k' = rt_ipc_object_init (MutexQ m) k1\<lparr>k_mutexes := M\<rparr>" using o(2) by (auto simp: mod_mutex_def bind_eq_Some_conv)
  show "boot_inv bs k'"
    unfolding k' by (rule boot_invx_cong [OF k2]) (use boot_invD(1) [OF k2] in \<open>simp_all add: kinvx_def\<close>)
  show "k_threads k' = k_threads k" "k_current k' = k_current k" "k_heap k' = k_heap k" using k1 by (simp_all add: k' rt_ipc_object_init_def)
qed

lemma spi_register_boot:
  assumes i: "boot_inv bs k" and r: "rt_spi_bus_register b name (k, io) = Some (x, k', io')"
  shows "boot_inv bs k' \<and> k_threads k' = k_threads k \<and> k_current k' = k_current k \<and> k_heap k' = k_heap k"
proof -
  obtain D where s: "spi_device_setup b RT_Device_Class_SPIBUS SPI_BUS_DEVICE_READ SPI_BUS_DEVICE_WRITE SPI_BUS_DEVICE_CONTROL k = k\<lparr>k_devices := D\<rparr>"
    by (simp add: spi_device_setup_def)
  obtain y k1 where k1: "rt_device_register (Some b) name RT_DEVICE_FLAG_RDWR (k\<lparr>k_devices := D\<rparr>) = Some (y, k1)"
    "if y \<noteq> RT_EOK then k' = k1 else (\<exists>z. rt_mutex_init (bus_lock b) name RT_IPC_FLAG_FIFO k1 = Some (z, k'))"
    using r unfolding rt_spi_bus_register_def rt_spi_bus_device_init_def fst_conv s by (force simp: bind_eq_Some_conv split: if_splits)
  note d = device_register_boot [OF boot_devices [OF i] k1(1)]
  show ?thesis using k1(2) d mutex_init_boot [OF d(1)] by (auto split: if_splits)
qed

lemma spi_init_boot:
  "rt_hw_spi_bus_init cs r (k, io) = Some (r', k', io') \<Longrightarrow> boot_inv bs k \<Longrightarrow>
    boot_inv bs k' \<and> k_threads k' = k_threads k \<and> k_current k' = k_current k \<and> k_heap k' = k_heap k"
proof (induction cs arbitrary: r k io)
  case (Cons c cs)
  obtain b name config where c: "c = (b, name, config)" by (cases c)
  obtain D q k1 io1 where 1: "rt_spi_bus_register b name (k\<lparr>k_devices := D\<rparr>, io) = Some (q, k1, io1)"
    "rt_hw_spi_bus_init cs q (k1, io1) = Some (r', k', io')"
    using Cons.prems(1) by (auto simp: c bind_eq_Some_conv split: if_splits)
  note reg = spi_register_boot [OF boot_devices [OF Cons.prems(2)] 1(1)]
  show ?case using Cons.IH [OF 1(2)] reg by simp
qed simp

lemma spi_ok: "board_ok idle 0 (spi_kernel cs io)"
  unfolding board_ok_def spi_kernel_def rt_hw_spi_init_def boot_from_def empty_kernel_def
  by (fastforce simp: bind_eq_Some_conv dest: spi_init_boot)

text \<open>Registering a bus with a new name and a lock that is not in use.\<close>

definition buses_ready :: "nat list \<Rightarrow> kernel \<Rightarrow> bool" where
  "buses_ready bs k \<longleftrightarrow> k_objects k RT_Object_Class_Mutex = map (\<lambda>b. OMutex (bus_lock b)) bs \<and>
     (\<forall>b \<in> set bs. lock_free b k \<and> (\<exists>dv. k_devices k b = Some dv \<and> dv_type dv = RT_Device_Class_SPIBUS))"

lemma spi_register_ready:
  assumes i: "boot_inv bs k" and t: "device_table xs k" and n: "named_in name xs = None" "b \<notin> fst ` set xs"
    and bl: "buses_ready bl k" "b \<notin> set bl"
  obtains k' dv where "rt_spi_bus_register b name (k, io) = Some (RT_EOK, k', spi_buses [(b, name, config)] io)" "boot_inv bs k'"
    "device_table ((b, name) # xs) k'" "buses_ready (b # bl) k'" "k_devices k' = (k_devices k)(b \<mapsto> dv)" "dv_type dv = RT_Device_Class_SPIBUS"
    "k_objects k' = (k_objects k)(RT_Object_Class_Device := ODevice b # k_objects k RT_Object_Class_Device,
       RT_Object_Class_Mutex := OMutex (bus_lock b) # k_objects k RT_Object_Class_Mutex)"
proof -
  define dev where "dev = (storage zero_device (k_devices k b))\<lparr>dv_type := RT_Device_Class_SPIBUS, dv_init := None, dv_open := None,
    dv_close := None, dv_read := Some SPI_BUS_DEVICE_READ, dv_write := Some SPI_BUS_DEVICE_WRITE, dv_control := Some SPI_BUS_DEVICE_CONTROL\<rparr>"
  define k1 where "k1 = k\<lparr>k_devices := (k_devices k)(b \<mapsto> dev)\<rparr>"
  have su: "spi_device_setup b RT_Device_Class_SPIBUS SPI_BUS_DEVICE_READ SPI_BUS_DEVICE_WRITE SPI_BUS_DEVICE_CONTROL k = k1"
    by (simp add: spi_device_setup_def k1_def dev_def)
  have i1: "boot_inv bs k1" unfolding k1_def by (rule boot_devices [OF i])
  have t1: "device_table xs k1" using t n(2) by (force simp: k1_def device_table_def)
  have d1: "k_devices k1 b = Some dev" by (simp add: k1_def)
  obtain k2 where k2: "rt_device_register (Some b) name RT_DEVICE_FLAG_RDWR k1 = Some (RT_EOK, k2)" "boot_inv bs k2"
    "device_table ((b, name) # xs) k2"
    "k2 = k1\<lparr>k_devices := (k_devices k1)(b \<mapsto> registered name RT_DEVICE_FLAG_RDWR dev),
       k_objects := (k_objects k1)(RT_Object_Class_Device := ODevice b # k_objects k1 RT_Object_Class_Device)\<rparr>"
    by (rule table_register [OF i1 t1 n d1])
  note b2 = boot_invD [OF k2(2)]
  have "OMutex (bus_lock b) \<notin> set (k_objects k2 RT_Object_Class_Mutex)"
    using bl by (auto simp: k2(4) k1_def buses_ready_def bus_lock_def)
  note oi = calm_object_init [OF b2(1,2) _ mutex_information this, of name]
  define mu where "mu = mutex_reset ((storage zero_mutex (k_mutexes k2 (bus_lock b)))
    \<lparr>mu_parent := (mu_parent (storage zero_mutex (k_mutexes k2 (bus_lock b))))\<lparr>ob_type := RT_Object_Class_Mutex OR RT_Object_Class_Static,
       ob_name := rt_strncpy RT_NAME_MAX name\<rparr>\<rparr>)"
  define k3 where "k3 = k2\<lparr>k_mutexes := (k_mutexes k2)(bus_lock b \<mapsto> mu), k_lists := (k_lists k2)(MutexQ (bus_lock b) := []),
    k_objects := (k_objects k2)(RT_Object_Class_Mutex := OMutex (bus_lock b) # k_objects k2 RT_Object_Class_Mutex)\<rparr>"
  have m: "rt_mutex_init (bus_lock b) name RT_IPC_FLAG_FIFO k2 = Some (RT_EOK, k3)"
    using oi b2(8) by (simp add: rt_mutex_init_def mod_mutex_def rt_ipc_object_init_def k3_def mu_def)
  have r: "rt_spi_bus_register b name (k, io) = Some (RT_EOK, k3, spi_buses [(b, name, config)] io)"
    unfolding rt_spi_bus_register_def rt_spi_bus_device_init_def fst_conv su k2(1) using m by (simp add: spi_buses_def)
  have mu: "mutex_ok mu" "mu_owner mu = None" "mu_value mu = 1" "mu_hold mu = 0"
    by (simp_all add: mu_def mutex_reset_def mutex_ok_def rt_object_get_type_def)
  have e: "k_devices k3 = (k_devices k)(b \<mapsto> registered name RT_DEVICE_FLAG_RDWR dev)" "k_mutexes k3 = (k_mutexes k)(bus_lock b \<mapsto> mu)"
    "k_lists k3 = (k_lists k)(MutexQ (bus_lock b) := [])"
    "k_objects k3 = (k_objects k)(RT_Object_Class_Device := ODevice b # k_objects k RT_Object_Class_Device,
       RT_Object_Class_Mutex := OMutex (bus_lock b) # k_objects k RT_Object_Class_Mutex)"
    by (simp_all add: k3_def k2(4) k1_def)
  have "device_table ((b, name) # xs) k3" using k2(3) by (simp add: device_table_def k3_def)
  moreover have "buses_ready (b # bl) k3"
    using bl mu by (auto simp: buses_ready_def e lock_free_def mutex_free_def dev_def bus_lock_def)
  ultimately show thesis
    using that [OF r mutex_init_boot(1) [OF k2(2) m] _ _ e(1)] e(4) by (simp add: dev_def)
qed

section \<open>The shell leaves the devices alone\<close>

definition io_kept :: "kernel \<Rightarrow> kernel \<Rightarrow> bool" where
  "io_kept k k' \<longleftrightarrow> same_io k k' \<and> hp_ptr (k_heap k') = hp_ptr (k_heap k) \<and> hp_end (k_heap k') = hp_end (k_heap k)"

lemma io_kept_refl [simp]: "io_kept k k"
  by (simp add: io_kept_def same_io_def)

lemma io_kept_trans: "io_kept k1 k2 \<Longrightarrow> io_kept k2 k3 \<Longrightarrow> io_kept k1 k3"
  by (simp add: io_kept_def same_io_def)

lemma io_kept_other:
  assumes "other_objects k k'" and "\<forall>ob \<in> set (k_objects k RT_Object_Class_Device). \<forall>t. ob \<noteq> OThread t"
    and "\<And>m. k_lists k' (MutexQ m) = k_lists k (MutexQ m)"
  shows "io_kept k k'"
  using other_objects_eq [OF assms(1) _ _ assms(2)] assms(1,3) by (simp add: io_kept_def same_io_def other_objects_def)

lemma sem_init_starts:
  assumes i: "boot_inv bs k" and o: "OSem s \<notin> set (k_objects k RT_Object_Class_Semaphore)"
  obtains k' where "rt_sem_init s name 0 0 k = Some (RT_EOK, k')" "io_kept k k'"
proof -
  note b = boot_invD [OF i]
  have t: "rt_object_get_information RT_Object_Class_Semaphore \<noteq> None"
    by (simp add: rt_object_get_information_def rt_object_container_def)
  have x: "\<And>c. k_current k = Some c \<Longrightarrow> c \<notin> {}" by simp
  from calm_object_init [OF b(1,2) x t o, of name] show thesis
    using that by (simp add: rt_sem_init_def mod_sem_def rt_ipc_object_init_def io_kept_def same_io_def)
qed

lemma finsh_starts:
  assumes i: "boot_inv bs k" "below_current k 6" and s: "k_objects k RT_Object_Class_Semaphore = []"
    and d: "\<forall>ob \<in> set (k_objects k RT_Object_Class_Device). \<forall>t. ob \<noteq> OThread t"
  obtains r k' where "finsh_system_init entry k = Some (r, k')" "io_kept k k'"
proof -
  note b = boot_invD [OF i(1)]
  obtain q h where m: "rt_malloc 532 (k_irq_nest k) (k_heap k) = Some (q, h)" "malloc_result 532 bs k q h"
    using malloc_new [OF b(4,6), of 532] by (auto simp: returns_def)
  show thesis
  proof (cases q)
    case None
    then have "finsh_system_init entry k = Some (-1, k)" using m by (simp add: finsh_system_init_def rt_calloc_def malloc_result_def)
    then show ?thesis using that by simp
  next
    case (Some shell)
    then obtain bs1 where n1: "new_block bs k bs1 h shell" using m(2) by (auto simp: malloc_result_def)
    let ?k1 = "k\<lparr>k_heap := h\<rparr>"
    have k1: "boot_inv bs1 ?k1" by (rule boot_new_block [OF i(1) n1])
    have io1: "io_kept k ?k1" using n1 by (simp add: io_kept_def same_io_def new_block_def)
    obtain tid k2 where c: "rt_thread_create (c_string ''tshell'') entry 0 2048 11 10 ?k1 = Some (tid, k2)"
        "thread_made (need 128 + need 2048) (init_thread 11) bs1 ?k1 tid k2" "k_lists k2 = k_lists k"
      using thread_create_boot [OF k1, of 11 2048 "c_string ''tshell''" entry 0 10] by (auto simp: returns_def)
    have oo: "other_objects ?k1 k2" using c(2) by (simp add: thread_made_def same_rest_def)
    have io2: "io_kept ?k1 k2" by (rule io_kept_other [OF oo]) (use d c(3) in simp_all)
    have sem: "k_objects k2 RT_Object_Class_Semaphore = []" using other_objects_eq [OF oo, of RT_Object_Class_Semaphore] s by simp
    obtain bs2 where k2: "boot_inv bs2 k2" using c(2) by (auto simp: thread_made_def)
    obtain k3 where k3: "rt_sem_init shell (c_string ''shrx'') 0 0 k2 = Some (RT_EOK, k3)" "io_kept k2 k3"
      by (rule sem_init_starts [OF k2]) (simp add: sem)
    note k3i = sem_init_boot [OF k2 k3(1)]
    have f: "finsh_system_init entry k = (case tid of None \<Rightarrow> Some (0, k3) | Some t \<Rightarrow> do { (_, k) \<leftarrow> rt_thread_startup t k3; Some (0, k) })"
      using m(1) Some c(1) k3(1) by (simp add: finsh_system_init_def rt_calloc_def)
    have io3: "io_kept k k3" using io_kept_trans [OF io_kept_trans [OF io1 io2] k3(2)] .
    show ?thesis
    proof (cases tid)
      case None
      then show ?thesis using f that io3 by simp
    next
      case (Some t)
      obtain th where th: "k_threads k2 t = Some th" "init_thread 11 th" using c(2) Some by (auto simp: thread_made_def)
      have "below_current ?k1 6" using i(2) by (simp add: below_current_def)
      from thread_made_below [OF c(2) k1 this] have "below_current k3 6" using k3i(2,3) by (simp add: below_current_def)
      then have bc: "below_current k3 (unat (th_init_priority th))" using th(2) by (fastforce simp: init_thread_def below_current_def)
      obtain k4 where k4: "rt_thread_startup t k3 = Some (RT_EOK, k4)" "other_objects k3 k4"
          "k_lists k4 = lists_insert_before (Ready (unat (th_init_priority th))) t (k_lists k3)"
        using thread_startup_boot [OF k3i(1) _ _ bc] th k3i(2) by (auto simp: returns_def init_thread_def)
      have d3: "\<forall>ob \<in> set (k_objects k3 RT_Object_Class_Device). \<forall>t. ob \<noteq> OThread t" using d io3 by (simp add: io_kept_def same_io_def)
      have "io_kept k3 k4" by (rule io_kept_other [OF k4(2) d3]) (simp add: k4(3) lists_insert_before_def)
      then show ?thesis using f Some k4(1) that io_kept_trans [OF io3] by simp
    qed
  qed
qed

section \<open>The configured machine\<close>

lemma spi_init_step:
  assumes i: "boot_inv bs k" and t: "device_table xs k" and n: "named_in name xs = None" "b \<notin> fst ` set xs"
    and bl: "buses_ready bl k" "b \<notin> set bl"
  obtains k' dv where "\<And>cs r. rt_hw_spi_bus_init ((b, name, config) # cs) r (k, io) = rt_hw_spi_bus_init cs RT_EOK (k', spi_buses [(b, name, config)] io)"
    "boot_inv bs k'" "device_table ((b, name) # xs) k'" "buses_ready (b # bl) k'" "k_devices k' = (k_devices k)(b \<mapsto> dv)" "dv_type dv = RT_Device_Class_SPIBUS"
    "k_objects k' = (k_objects k)(RT_Object_Class_Device := ODevice b # k_objects k RT_Object_Class_Device,
       RT_Object_Class_Mutex := OMutex (bus_lock b) # k_objects k RT_Object_Class_Mutex)" "k_heap k' = k_heap k"
proof -
  define k1 where "k1 = k\<lparr>k_devices := (k_devices k)(b \<mapsto> (storage zero_device (k_devices k b))\<lparr>dv_user_data := config\<rparr>)\<rparr>"
  have i1: "boot_inv bs k1" unfolding k1_def by (rule boot_devices [OF i])
  have t1: "device_table xs k1" using t n(2) by (force simp: k1_def device_table_def)
  have b1: "buses_ready bl k1" using bl lock_free_cong [of k1 k] by (auto simp: buses_ready_def k1_def)
  obtain k' dv where r: "rt_spi_bus_register b name (k1, io) = Some (RT_EOK, k', spi_buses [(b, name, config)] io)" "boot_inv bs k'"
    "device_table ((b, name) # xs) k'" "buses_ready (b # bl) k'" "k_devices k' = (k_devices k1)(b \<mapsto> dv)" "dv_type dv = RT_Device_Class_SPIBUS"
    "k_objects k' = (k_objects k1)(RT_Object_Class_Device := ODevice b # k_objects k1 RT_Object_Class_Device,
       RT_Object_Class_Mutex := OMutex (bus_lock b) # k_objects k1 RT_Object_Class_Mutex)"
    by (rule spi_register_ready [OF i1 t1 n b1 bl(2)])
  have "rt_hw_spi_bus_init ((b, name, config) # cs) q (k, io) = rt_hw_spi_bus_init cs RT_EOK (k', spi_buses [(b, name, config)] io)" for cs q
    using r(1) by (simp add: k1_def)
  from that [OF this r(2-4) _ r(6)] r(5,7) spi_register_boot [OF i1 r(1)] show thesis by (simp add: k1_def)
qed

text \<open>The serial port \<^verbatim>\<open>uart1\<close>, the pins, the two SPI buses of the configuration and their devices' addresses.\<close>

abbreviation machine_uart :: "(nat \<times> u8 list \<times> nat) list" where
  "machine_uart \<equiv> [(700, c_string ''uart1'', 680)]"

abbreviation machine_buses :: "(nat \<times> u8 list \<times> nat) list" where
  "machine_buses \<equiv> [(124, c_string ''spi1'', 50), (324, c_string ''spi2'', 60)]"

abbreviation machine_devices :: "(nat \<times> u8 list) list" where
  "machine_devices \<equiv> [(324, c_string ''spi2''), (124, c_string ''spi1''), (600, c_string ''pin''), (700, c_string ''uart1'')]"

definition machine_spi :: "(u8 list \<times> u8 list \<times> u8) ch32_spi spi_io" where
  "machine_spi = chain_io\<lparr>io_buses := Map.empty, io_devs := Map.empty\<rparr>"

definition machine_inits :: "initialiser list" where
  "machine_inits = [rti_board_start, rt_hw_pin_init 600, spi_kernel machine_buses machine_spi]"

definition machine_comps :: "initialiser list" where
  "machine_comps = [rti_board_end, finsh_system_init 7, rti_end]"

abbreviation machine_board_init :: "kernel \<Rightarrow> kernel option" where
  "machine_board_init \<equiv> rt_hw_board_init 0x20001000 0x20005000 (usart_kernel machine_uart (SerialBoard.sample_io []))
     (console_kernel (ch32_uart_ops sample_wire) (c_string ''uart1'') (usart_ports machine_uart (SerialBoard.sample_io []))) machine_inits"

lemma machine_names:
  "named_in (c_string ''pin'') [(700, c_string ''uart1'')] = None"
  "named_in (c_string ''spi1'') [(600, c_string ''pin''), (700, c_string ''uart1'')] = None"
  "named_in (c_string ''spi2'') [(124, c_string ''spi1''), (600, c_string ''pin''), (700, c_string ''uart1'')] = None"
  "named_in KB_SPI_BUS machine_devices = Some 124" "named_in KB_SPI_DEV_NAME machine_devices = None"
  by code_simp+

definition machine_ready :: "kernel \<Rightarrow> bool" where
  "machine_ready k \<longleftrightarrow> device_table machine_devices k \<and> (\<forall>b \<in> {124, 324}. lock_free b k) \<and>
     (\<forall>d dv. k_devices k d = Some dv \<longrightarrow> (dv_type dv = RT_Device_Class_SPIBUS \<longleftrightarrow> d \<in> {124, 324})) \<and> (\<forall>d < 1000. outside (k_heap k) d)"

lemma machine_board:
  obtains k0 where "machine_board_init reset_kernel = Some k0" "machine_ready k0" "k_objects k0 RT_Object_Class_Semaphore = []"
proof -
  define kr where "kr = reset_kernel\<lparr>k_heap := rt_system_heap_init 0x20001000 0x20005000 (k_heap reset_kernel)\<rparr>"
  have h: "(0x20001000 + 3) div 4 * 4 + 36 \<le> 0x20005000 div 4 * (4 :: nat)" "0x20005000 < (2 :: nat) ^ 32"
    "0x20000100 < (0x20001000 :: nat) \<or> 0x20005000 \<le> (0x20000100 :: nat)" by simp_all
  obtain bs where i: "boot_inv bs kr" unfolding kr_def by (rule reset_boot [OF h])
  have t: "device_table [] kr" by (simp add: device_table_def kr_def reset_kernel_def)
  have hp: "hp_ptr (k_heap kr) = 0x20001000" by (simp add: kr_def rt_system_heap_init_def Let_def)
  have c: "uo_configure (ch32_uart_ops sample_wire) = Some ch32_configure" "\<And>cfg h. fst (ch32_configure cfg h) = RT_EOK"
    by (simp_all add: ch32_uart_ops_def ch32_configure_def Let_def)
  obtain k1 dev k2 io2 where s: "rt_hw_usart_init machine_uart 0 (kr, SerialBoard.sample_io []) = Some (RT_EOK, k1, usart_ports machine_uart (SerialBoard.sample_io []))"
    "rt_console_set_device (serial_fns (ch32_uart_ops sample_wire)) (c_string ''uart1'') None (k1, usart_ports machine_uart (SerialBoard.sample_io [])) =
      Some (None, Some 700, k2, io2)"
    "boot_inv bs k2" "device_table [(700, c_string ''uart1'')] k2"
    "k2 = kr\<lparr>k_devices := (k_devices kr)(700 \<mapsto> dev), k_objects := (k_objects kr)(RT_Object_Class_Device := [ODevice 700])\<rparr>"
    "dv_type dev = RT_Device_Class_Char"
    using serial_board_init [OF i t c refl] by metis
  obtain k3 pin where p: "rt_hw_pin_init 600 k2 = Some (0, k3)" "boot_inv bs k3" "device_table [(600, c_string ''pin''), (700, c_string ''uart1'')] k3"
    "k3 = k2\<lparr>k_devices := (k_devices k2)(600 \<mapsto> pin), k_objects := (k_objects k2)(RT_Object_Class_Device :=
       ODevice 600 # k_objects k2 RT_Object_Class_Device)\<rparr>" "dv_type pin = RT_Device_Class_Miscellaneous"
    by (rule pin_table_starts [where hw_pin = 600, OF s(3,4) machine_names(1)]) simp_all
  have r3: "buses_ready [] k3" by (simp add: buses_ready_def p(4) s(5) kr_def reset_kernel_def)
  obtain k4 dv4 where k4: "\<And>cs r. rt_hw_spi_bus_init ((124, c_string ''spi1'', 50) # cs) r (k3, machine_spi) =
      rt_hw_spi_bus_init cs RT_EOK (k4, spi_buses [(124, c_string ''spi1'', 50)] machine_spi)"
    "boot_inv bs k4" "device_table [(124, c_string ''spi1''), (600, c_string ''pin''), (700, c_string ''uart1'')] k4" "buses_ready [124] k4"
    "k_devices k4 = (k_devices k3)(124 \<mapsto> dv4)" "dv_type dv4 = RT_Device_Class_SPIBUS"
    "k_objects k4 = (k_objects k3)(RT_Object_Class_Device := ODevice 124 # k_objects k3 RT_Object_Class_Device,
       RT_Object_Class_Mutex := OMutex (bus_lock 124) # k_objects k3 RT_Object_Class_Mutex)" "k_heap k4 = k_heap k3"
    by (rule spi_init_step [where b = 124 and config = 50 and io = machine_spi, OF p(2,3) machine_names(2) _ r3]) auto
  obtain k5 dv5 where k5: "\<And>cs r. rt_hw_spi_bus_init ((324, c_string ''spi2'', 60) # cs) r (k4, spi_buses [(124, c_string ''spi1'', 50)] machine_spi) =
      rt_hw_spi_bus_init cs RT_EOK (k5, spi_buses [(324, c_string ''spi2'', 60)] (spi_buses [(124, c_string ''spi1'', 50)] machine_spi))"
    "boot_inv bs k5" "device_table machine_devices k5" "buses_ready [324, 124] k5"
    "k_devices k5 = (k_devices k4)(324 \<mapsto> dv5)" "dv_type dv5 = RT_Device_Class_SPIBUS"
    "k_objects k5 = (k_objects k4)(RT_Object_Class_Device := ODevice 324 # k_objects k4 RT_Object_Class_Device,
       RT_Object_Class_Mutex := OMutex (bus_lock 324) # k_objects k4 RT_Object_Class_Mutex)" "k_heap k5 = k_heap k4"
    by (rule spi_init_step [where b = 324 and config = 60 and io = "spi_buses [(124, c_string ''spi1'', 50)] machine_spi",
      OF k4(2,3) machine_names(3) _ k4(4)]) auto
  have spi: "spi_kernel machine_buses machine_spi k3 = Some (RT_EOK, k5)"
    by (simp add: spi_kernel_def rt_hw_spi_init_def k4(1) k5(1) del: rt_hw_spi_bus_init.simps(2))
  have u: "usart_kernel machine_uart (SerialBoard.sample_io []) kr = Some (RT_EOK, k1)" using s(1) by (simp only: usart_kernel_def Option.bind.bind_lunit prod.case)
  have w: "console_kernel (ch32_uart_ops sample_wire) (c_string ''uart1'') (usart_ports machine_uart (SerialBoard.sample_io [])) k1 = Some (0, k2)"
    using s(2) by (simp only: console_kernel_def Option.bind.bind_lunit prod.case)
  have b: "rt_components_board_init machine_inits k2 = Some k5" by (simp add: machine_inits_def rti_board_start_def p(1) spi)
  have "machine_board_init reset_kernel = Some k5"
    unfolding rt_hw_board_init_def kr_def [symmetric] Option.bind.bind_lunit u w prod.case b ..
  moreover have "machine_ready k5"
    using k5 k4 p s hp by (auto simp: machine_ready_def buses_ready_def outside_def kr_def reset_kernel_def split: if_splits)
  moreover have "k_objects k5 RT_Object_Class_Semaphore = []"
    by (simp add: k5(7) k4(7) p(4) s(5) kr_def reset_kernel_def)
  ultimately show thesis by (rule that)
qed

lemma machine_table_ok: "list_all2 (board_ok idle) [0, 0, 0, 0, 0] (usart_kernel machine_uart (SerialBoard.sample_io []) #
    console_kernel (ch32_uart_ops sample_wire) (c_string ''uart1'') (usart_ports machine_uart (SerialBoard.sample_io [])) # machine_inits)"
  by (simp add: machine_inits_def usart_ok console_ok rti_ok pin_init_ok spi_ok)

lemma machine_comps_ok: "list_all2 component_ok [0, 2744, 0] machine_comps"
  by (simp add: machine_comps_def rti_ok finsh_ok)

lemma machine_ready_kept: "machine_ready k \<Longrightarrow> io_kept k k' \<Longrightarrow> machine_ready k'"
  using lock_free_cong [of k' k] by (auto simp: machine_ready_def io_kept_def same_io_def device_table_def outside_def)

lemma machine_devices_only: "machine_ready k \<Longrightarrow> \<forall>ob \<in> set (k_objects k RT_Object_Class_Device). \<forall>t. ob \<noteq> OThread t"
  by (auto simp: machine_ready_def device_table_def)

lemma machine_startup:
  obtains tmain k1 bs where "rtthread_startup machine_board_init 1 0x20000100 2 3 reset_kernel = Some (tmain, k1)" "boot_inv bs k1"
    "room 14172 bs" "k_current k1 = Some tmain" "below_current k1 6" "machine_ready k1" "k_objects k1 RT_Object_Class_Semaphore = []"
proof -
  obtain k0 where k0: "machine_board_init reset_kernel = Some k0" "machine_ready k0" "k_objects k0 RT_Object_Class_Semaphore = []"
    by (rule machine_board)
  have ne: "machine_board_init reset_kernel \<noteq> None" using k0(1) by simp
  have h: "(0x20001000 + 3) div 4 * 4 + 36 \<le> 0x20005000 div 4 * (4 :: nat)" "0x20005000 < (2 :: nat) ^ 32"
    "0x20000100 < (0x20001000 :: nat) \<or> 0x20005000 \<le> (0x20000100 :: nat)"
    "sum_list [0 :: nat, 0, 0, 0, 0] + main_bytes + (SIZEOF_STRUCT_MEM + MIN_SIZE_ALIGNED) \<le> heap_bytes 0x20001000 0x20005000"
    by (simp_all add: heap_bytes_def bytes)
  obtain tmain k1 where s: "rtthread_startup machine_board_init 1 0x20000100 2 3 reset_kernel = Some (tmain, k1)" "main_running 0x20000100 tmain k1"
    "\<exists>bs0. room (heap_bytes 0x20001000 0x20005000) bs0 \<and> boot_from (sum_list [0 :: nat, 0, 0, 0, 0] + main_bytes) bs0 k1" "other_objects k0 k1"
    using startup_returns [OF h(1-3) machine_table_ok ne h(4), of 1 2 3] k0(1) by (auto simp: returns_def)
  obtain bs0 bs where b: "room 16372 bs0" "boot_inv bs k1" "spends 2200 bs0 bs"
    using s(3) by (auto simp: heap_bytes_def bytes boot_from_def)
  have r: "room 14172 bs" using b(1,3) unfolding spends_def by force
  have "k_mutexes k1 = k_mutexes k0" using s(4) by (simp add: other_objects_def)
  moreover have "k_lists k1 (MutexQ m) = []" for m using s(2) by (simp add: main_running_def)
  ultimately have "lock_free b k1" if "lock_free b k0" for b using that by (auto simp: lock_free_def mutex_free_def)
  moreover have "k_objects k1 RT_Object_Class_Device = k_objects k0 RT_Object_Class_Device"
    by (rule other_objects_eq [OF s(4) _ _ machine_devices_only [OF k0(2)]]) simp_all
  ultimately have m: "machine_ready k1" using k0(2) s(4) by (auto simp: machine_ready_def other_objects_def device_table_def outside_def)
  have "k_objects k1 RT_Object_Class_Semaphore = []"
    using other_objects_eq [OF s(4), of RT_Object_Class_Semaphore] k0(3) by simp
  then show thesis
    using that [OF s(1) b(2) r _ _ m] s(2) by (auto simp: main_running_def running_def below_current_def)
qed

lemma machine_keyboard:
  assumes "machine_ready k"
  shows "locks_free (spi_buses machine_buses machine_spi) k" "keyboard_ready 124 (spi_buses machine_buses machine_spi) machine_devices k"
proof -
  have e: "io_devs (spi_buses machine_buses machine_spi) = Map.empty" "io_buses (spi_buses machine_buses machine_spi) 124 \<noteq> None"
    by (simp_all add: spi_buses_def machine_spi_def)
  have t: "device_table machine_devices k" "lock_free 124 k" using assms by (simp_all add: machine_ready_def)
  then obtain dv where "k_devices k 124 = Some dv" by (auto simp: device_table_def)
  then have "\<exists>dv. k_devices k 124 = Some dv \<and> dv_type dv = RT_Device_Class_SPIBUS" using assms by (auto simp: machine_ready_def)
  then show "keyboard_ready 124 (spi_buses machine_buses machine_spi) machine_devices k"
    using assms t e machine_names(4,5) by (simp add: keyboard_ready_def machine_ready_def)
  show "locks_free (spi_buses machine_buses machine_spi) k" using assms e by (auto simp: locks_free_def machine_ready_def)
qed

text \<open>The main thread's entry returns from the set-up of \<^verbatim>\<open>main\<close>: the shell is started, and \<^verbatim>\<open>kbInit\<close> finds its bus and its memory.\<close>

lemma machine_main:
  fixes env :: env and ps :: "(u8 list \<times> u8 list \<times> u8) pin_state"
  assumes i: "boot_inv bs k1" "room 14172 bs" and c: "k_current k1 = Some tm" "below_current k1 6"
    and m: "machine_ready k1" "k_objects k1 RT_Object_Class_Semaphore = []"
  defines "kb \<equiv> kb_kernel env chain_hw chain_wire 124 (spi_buses machine_buses machine_spi) ps"
  shows "main_thread_entry machine_comps kb junk entry1 entry2 k1 \<noteq> None"
    "\<forall>k2. rt_components_init machine_comps k1 = Some k2 \<longrightarrow> kb_init_ok 120 kb k2"
proof -
  obtain r k2 where f: "finsh_system_init 7 k1 = Some (r, k2)" "io_kept k1 k2"
    by (rule finsh_starts [OF i(1) c(2) m(2) machine_devices_only [OF m(1)]])
  have e: "rt_components_init machine_comps k1 = Some k2" by (simp add: machine_comps_def rti_board_end_def rti_end_def f(1))
  obtain bs2 where b2: "boot_inv bs2 k2" "spends 2744 bs bs2" "k_current k2 = Some tm" "below_current k2 6"
    using finsh_ok i(1) c f(1) unfolding component_ok_def boot_from_def by metis
  have R: "room 11428 bs2" using b2(2) i(2) unfolding spends_def by force
  have m2: "machine_ready k2" by (rule machine_ready_kept [OF m(1) f(2)])
  have ok: "kb_init_ok 120 kb k2" unfolding kb_def by (rule kb_kernel_ok [OF b2(3) machine_keyboard(1) [OF m2]])
  then show "\<forall>k2. rt_components_init machine_comps k1 = Some k2 \<longrightarrow> kb_init_ok 120 kb k2" using e by simp
  have "main_init kb junk entry1 entry2 k2 \<noteq> None"
  proof
    assume "main_init kb junk entry1 entry2 k2 = None"
    then obtain bs3 k3 where k3: "boot_inv bs3 k3" "kb k3 = None" "same_io k2 k3" "k_current k3 = k_current k2"
      "hp_ptr (k_heap k3) = hp_ptr (k_heap k2)" "hp_end (k_heap k3) = hp_end (k_heap k2)" "scarce (need 32) bs2 \<or> spends (need 32) bs2 bs3"
      using main_init_boot [OF b2(1,4) ok, of junk entry1 entry2] by auto
    have n: "need 32 = 44" by (simp add: need_def request_def rt_align_def)
    have "\<not> scarce (need 32) bs2" using R n by (auto simp: scarce_def)
    then have R3: "room 11384 bs3" using k3(7) R n unfolding spends_def by force
    have "io_kept k2 k3" using k3(3,5,6) by (simp add: io_kept_def)
    from machine_keyboard(2) [OF machine_ready_kept [OF m2 this]]
    have "\<exists>d s'. kbInit env chain_hw chain_wire 124 ((k3, spi_buses machine_buses machine_spi), ps) = Some (Done d, s')"
      by (intro kbInit_returns [OF k3(1) _ _ R3, of tm]) (use k3(4) b2(3) in simp_all)
    then show False using k3(2) by (auto simp: kb_def kb_kernel_def)
  qed
  then show "main_thread_entry machine_comps kb junk entry1 entry2 k1 \<noteq> None" using e by (simp add: main_thread_entry_def)
qed

section \<open>The promises on the configured machine\<close>

theorem kbInit_keeps_boot_witness:
  "\<forall>env ps. \<exists>tmain k1 d s'. rtthread_startup machine_board_init 1 0x20000100 2 3 reset_kernel = Some (tmain, k1) \<and>
    kb_init_ok 120 (kb_kernel env chain_hw chain_wire 124 (spi_buses machine_buses machine_spi) ps) k1 \<and>
    kbInit env chain_hw chain_wire 124 ((k1, spi_buses machine_buses machine_spi), ps) = Some (Done d, s')"
proof (intro allI)
  fix env and ps :: "(u8 list \<times> u8 list \<times> u8) pin_state"
  obtain tmain k1 bs where s: "rtthread_startup machine_board_init 1 0x20000100 2 3 reset_kernel = Some (tmain, k1)" "boot_inv bs k1"
    "room 14172 bs" "k_current k1 = Some tmain" "below_current k1 6" "machine_ready k1" "k_objects k1 RT_Object_Class_Semaphore = []"
    by (rule machine_startup)
  note y = machine_keyboard [OF s(6)]
  show "\<exists>tmain k1 d s'. rtthread_startup machine_board_init 1 0x20000100 2 3 reset_kernel = Some (tmain, k1) \<and>
    kb_init_ok 120 (kb_kernel env chain_hw chain_wire 124 (spi_buses machine_buses machine_spi) ps) k1 \<and>
    kbInit env chain_hw chain_wire 124 ((k1, spi_buses machine_buses machine_spi), ps) = Some (Done d, s')"
    using kbInit_keeps_boot [OF s(4) y(1), of env chain_hw chain_wire 124 ps] s(1,2,3) y(2) by fastforce
qed

theorem drum_machine_boots_witness:
  "\<forall>env ps. \<exists>tmain k1 b ti ts ev k3. rtthread_startup machine_board_init 1 0x20000100 2 3 reset_kernel = Some (tmain, k1) \<and>
    main_thread_entry machine_comps (kb_kernel env chain_hw chain_wire 124 (spi_buses machine_buses machine_spi) ps) (\<lambda>_. 0) 4 5 k1 =
      Some ((ev, Some b, Some ti, Some ts), k3) \<and> kinv k3 \<and> queue_events (drum_boot (Some b) zero_events k3) = []"
proof (intro allI)
  fix env and ps :: "(u8 list \<times> u8 list \<times> u8) pin_state"
  let ?kb = "kb_kernel env chain_hw chain_wire 124 (spi_buses machine_buses machine_spi) ps"
  obtain tmain k1 bs where s: "rtthread_startup machine_board_init 1 0x20000100 2 3 reset_kernel = Some (tmain, k1)" "boot_inv bs k1"
    "room 14172 bs" "k_current k1 = Some tmain" "below_current k1 6" "machine_ready k1" "k_objects k1 RT_Object_Class_Semaphore = []"
    by (rule machine_startup)
  have kb: "\<forall>k2. rt_components_init machine_comps k1 = Some k2 \<longrightarrow> kb_init_ok 120 ?kb k2" by (rule machine_main(2) [OF s(2-7)])
  have "main_thread_entry machine_comps ?kb (\<lambda>_. 0) 4 5 k1 \<noteq> None" by (rule machine_main(1) [OF s(2-7)])
  then obtain ev mq tin tseq k3 where e: "main_thread_entry machine_comps ?kb (\<lambda>_. 0) 4 5 k1 = Some ((ev, mq, tin, tseq), k3)" by auto
  have s1: "rtthread_startup (rt_hw_board_init 0x20001000 (0x20001000 + 4 * RT_HEAP_SIZE) (usart_kernel machine_uart (SerialBoard.sample_io []))
      (console_kernel (ch32_uart_ops sample_wire) (c_string ''uart1'') (usart_ports machine_uart (SerialBoard.sample_io []))) machine_inits)
      1 0x20000100 2 3 reset_kernel = Some (tmain, k1)" using s(1) by simp
  have h: "4 dvd (0x20001000 :: nat)" "(0x20001000 :: nat) + 4 * RT_HEAP_SIZE < 2 ^ 32"
    "(0x20000100 :: nat) < 0x20001000 \<or> 0x20001000 + 4 * RT_HEAP_SIZE \<le> (0x20000100 :: nat)"
    "sum_list [0 :: nat, 0, 0, 0, 0] + sum_list [0 :: nat, 2744, 0] + 120 \<le> 5332" by simp_all
  obtain b ti ts where r: "mq = Some b" "tin = Some ti" "tseq = Some ts"
    "\<forall>evs es m. runs (drum_step ti ts tmain) (drum_boot (Some b) evs k3) es m \<longrightarrow> kinv (mc_kernel m) \<and> Failed \<notin> set es \<and>
      sent es = got es @ queue_events m \<and> kb_led_data m = leds_of (played (got es))"
    using drum_machine_boots [OF h(1-3) machine_table_ok machine_comps_ok s1 kb h(4) e] by blast
  have mk: "mc_kernel (drum_boot (Some b) zero_events k3) = k3" by (simp add: drum_boot_def seq_enter_def input_enter_def)
  have "kinv k3" "queue_events (drum_boot (Some b) zero_events k3) = []"
    using r(4) [rule_format, OF runs.Start, of zero_events] mk by simp_all
  then show "\<exists>tmain k1 b ti ts ev k3. rtthread_startup machine_board_init 1 0x20000100 2 3 reset_kernel = Some (tmain, k1) \<and>
    main_thread_entry machine_comps ?kb (\<lambda>_. 0) 4 5 k1 =
      Some ((ev, Some b, Some ti, Some ts), k3) \<and> kinv k3 \<and> queue_events (drum_boot (Some b) zero_events k3) = []"
    using s(1) e r(1-3) by blast
qed

end
