(* ===== verification/DataQueue.thy ===== *)
theory DataQueue
  imports Ipc Fifo SampleKernel
begin

text \<open>
  Data queues (\<^verbatim>\<open>components/drivers/src/dataqueue.c\<close>): a ring of items, each the address and the size of data of the user, with
  waiting receivers on \<open>DqPopQ\<close> and waiting senders on \<open>DqPushQ\<close>, a low water mark below which senders are woken, and a
  function of the user that is told of events.  That function is the argument \<open>notify\<close> of the definitions, applied to its
  address.  A call that gives the processor away stops there with \<open>Wait\<close>; its continuation is the definition with
  \<open>resume\<close> or \<open>end\<close> in its name.
\<close>

section \<open>The ring\<close>

abbreviation DATAQUEUE_MAGIC :: u32 where "DATAQUEUE_MAGIC \<equiv> 0xbead0e0e"
abbreviation RT_DATAQUEUE_EVENT_POP :: u32 where "RT_DATAQUEUE_EVENT_POP \<equiv> 1"
abbreviation RT_DATAQUEUE_EVENT_PUSH :: u32 where "RT_DATAQUEUE_EVENT_PUSH \<equiv> 2"
abbreviation RT_DATAQUEUE_EVENT_LWM :: u32 where "RT_DATAQUEUE_EVENT_LWM \<equiv> 3"

type_synonym dq_callback = "nat \<Rightarrow> nat \<Rightarrow> u32 \<Rightarrow> kernel \<Rightarrow> kernel option"

definition get_dq :: "nat \<Rightarrow> kernel \<Rightarrow> rt_data_queue option" where
  "get_dq q k = do {
     dq \<leftarrow> k_data_queues k q;
     rt_assert (dq_magic dq = DATAQUEUE_MAGIC);
     Some dq
   }"

definition put_dq :: "nat \<Rightarrow> rt_data_queue \<Rightarrow> kernel \<Rightarrow> kernel" where
  "put_dq q dq k = k\<lparr>k_data_queues := (k_data_queues k)(q \<mapsto> dq)\<rparr>"

text \<open>The indices are bit fields of 15 bits, the size has 16.\<close>

definition dq_next :: "u16 \<Rightarrow> 15 word \<Rightarrow> 15 word" where
  "dq_next sz i = (let i = i + 1 in if unat i = unat sz then 0 else i)"

definition dq_in :: "nat \<Rightarrow> u32 \<Rightarrow> rt_data_queue \<Rightarrow> rt_data_queue option" where
  "dq_in data_ptr data_size dq = do {
     rt_assert (unat (dq_put_index dq) < length (dq_queue dq));
     dq \<leftarrow> Some (dq\<lparr>dq_queue := (dq_queue dq)[unat (dq_put_index dq) := \<lparr>di_data_ptr = data_ptr, di_data_size = data_size\<rparr>]\<rparr>);
     dq \<leftarrow> Some (dq\<lparr>dq_put_index := dq_next (dq_size dq) (dq_put_index dq), dq_is_empty := False\<rparr>);
     Some (if dq_put_index dq = dq_get_index dq then dq\<lparr>dq_is_full := True\<rparr> else dq)
   }"

definition dq_front :: "rt_data_queue \<Rightarrow> rt_data_item option" where
  "dq_front dq = (if unat (dq_get_index dq) < length (dq_queue dq) then Some (dq_queue dq ! unat (dq_get_index dq)) else None)"

definition dq_out :: "rt_data_queue \<Rightarrow> (rt_data_item \<times> rt_data_queue) option" where
  "dq_out dq = do {
     it \<leftarrow> dq_front dq;
     dq \<leftarrow> Some (dq\<lparr>dq_get_index := dq_next (dq_size dq) (dq_get_index dq), dq_is_full := False\<rparr>);
     Some (it, if dq_put_index dq = dq_get_index dq then dq\<lparr>dq_is_empty := True\<rparr> else dq)
   }"

definition dq_len :: "rt_data_queue \<Rightarrow> u16" where
  "dq_len dq = (if dq_is_empty dq then 0
     else if dq_put_index dq > dq_get_index dq then ucast (dq_put_index dq) - ucast (dq_get_index dq)
     else dq_size dq + ucast (dq_put_index dq) - ucast (dq_get_index dq))"

section \<open>The operations\<close>

definition rt_data_queue_len :: "nat \<Rightarrow> kernel \<Rightarrow> u16 option" where
  "rt_data_queue_len q k = do {
     dq \<leftarrow> get_dq q k;
     Some (dq_len dq)
   }"

text \<open>\<open>junk\<close> is what the allocated ring happens to hold.\<close>

definition rt_data_queue_init :: "(nat \<Rightarrow> rt_data_item) \<Rightarrow> nat \<Rightarrow> u16 \<Rightarrow> u16 \<Rightarrow> nat option \<Rightarrow> kernel \<Rightarrow> (int \<times> kernel) option" where
  "rt_data_queue_init junk q sz lwm evt_notify k = do {
     rt_assert (sz > 0);
     dq \<leftarrow> Some \<lparr>dq_magic = DATAQUEUE_MAGIC, dq_size = sz, dq_lwm = lwm, dq_get_index = 0, dq_is_empty = True, dq_put_index = 0,
       dq_is_full = False, dq_queue = [], dq_addr = None, dq_evt_notify = evt_notify\<rparr>;
     k \<leftarrow> Some (rt_ipc_object_init (DqPopQ q) (rt_ipc_object_init (DqPushQ q) k));
     (addr, h) \<leftarrow> rt_malloc (8 * ucast sz) (k_irq_nest k) (k_heap k);
     k \<leftarrow> Some (k\<lparr>k_heap := h\<rparr>);
     (case addr of
        None \<Rightarrow> Some (- RT_ENOMEM, put_dq q dq k)
      | Some a \<Rightarrow> Some (RT_EOK, put_dq q (dq\<lparr>dq_queue := map junk [0..<unat sz], dq_addr := Some a\<rparr>) k))
   }"

definition dq_notify :: "dq_callback \<Rightarrow> nat \<Rightarrow> u32 \<Rightarrow> kernel \<Rightarrow> kernel option" where
  "dq_notify notify q event k = do {
     dq \<leftarrow> k_data_queues k q;
     (case dq_evt_notify dq of None \<Rightarrow> Some k | Some f \<Rightarrow> notify f q event k)
   }"

text \<open>
  One round of the loop of a sender, \<open>thread\<close> being \<^verbatim>\<open>rt_thread_self()\<close>.  The waiting time of a later round is the whole time
  again.
\<close>

definition dq_push_round :: "dq_callback \<Rightarrow> nat \<Rightarrow> nat \<Rightarrow> u32 \<Rightarrow> nat option \<Rightarrow> int \<Rightarrow> kernel \<Rightarrow> ((int, nat) outcome \<times> kernel) option" where
  "dq_push_round notify q data_ptr data_size thread timeout k = do {
     dq \<leftarrow> k_data_queues k q;
     if dq_is_full dq then
       (if timeout = 0 then Some (Done (- RT_ETIMEOUT), k)
        else do {
          rt_assert (k_irq_nest k = 0);
          t \<leftarrow> thread;
          k \<leftarrow> mod_thread t (\<lambda>th. th\<lparr>th_error := RT_EOK\<rparr>) k;
          k \<leftarrow> ipc_block (DqPushQ q) t RT_IPC_FLAG_FIFO timeout k;
          k \<leftarrow> rt_schedule k;
          Some (Wait t, k)
        })
     else do {
       dq \<leftarrow> dq_in data_ptr data_size dq;
       k \<leftarrow> Some (put_dq q dq k);
       if \<not> tlist_isempty (DqPopQ q) k then do {
         k \<leftarrow> ipc_wake (DqPopQ q) k;
         Some (Done RT_EOK, k)
       }
       else do {
         k \<leftarrow> dq_notify notify q RT_DATAQUEUE_EVENT_PUSH k;
         Some (Done RT_EOK, k)
       }
     }
   }"

definition rt_data_queue_push :: "dq_callback \<Rightarrow> nat \<Rightarrow> nat \<Rightarrow> u32 \<Rightarrow> int \<Rightarrow> kernel \<Rightarrow> ((int, nat) outcome \<times> kernel) option" where
  "rt_data_queue_push notify q data_ptr data_size timeout k = do {
     _ \<leftarrow> get_dq q k;
     dq_push_round notify q data_ptr data_size (rt_thread_self k) timeout k
   }"

definition rt_data_queue_push_resume :: "dq_callback \<Rightarrow> nat \<Rightarrow> nat \<Rightarrow> u32 \<Rightarrow> int \<Rightarrow> nat \<Rightarrow> kernel \<Rightarrow> ((int, nat) outcome \<times> kernel) option" where
  "rt_data_queue_push_resume notify q data_ptr data_size timeout t k = do {
     th \<leftarrow> get_thread t k;
     if th_error th \<noteq> RT_EOK then Some (Done (th_error th), k)
     else dq_push_round notify q data_ptr data_size (Some t) timeout k
   }"

text \<open>A receiver gives the processor away before it has an item, or with its item after it woke a sender.\<close>

datatype dq_waiter = Retry nat | Notify_lwm rt_data_item

definition dq_pop_round :: "dq_callback \<Rightarrow> nat \<Rightarrow> nat option \<Rightarrow> int \<Rightarrow> kernel \<Rightarrow> ((int \<times> rt_data_item option, dq_waiter) outcome \<times> kernel) option" where
  "dq_pop_round notify q thread timeout k = do {
     dq \<leftarrow> k_data_queues k q;
     if dq_is_empty dq then
       (if timeout = 0 then Some (Done (- RT_ETIMEOUT, None), k)
        else do {
          rt_assert (k_irq_nest k = 0);
          t \<leftarrow> thread;
          k \<leftarrow> mod_thread t (\<lambda>th. th\<lparr>th_error := RT_EOK\<rparr>) k;
          k \<leftarrow> ipc_block (DqPopQ q) t RT_IPC_FLAG_FIFO timeout k;
          k \<leftarrow> rt_schedule k;
          Some (Wait (Retry t), k)
        })
     else do {
       (it, dq) \<leftarrow> dq_out dq;
       k \<leftarrow> Some (put_dq q dq k);
       len \<leftarrow> rt_data_queue_len q k;
       if len \<le> dq_lwm dq then
         (if \<not> tlist_isempty (DqPushQ q) k then do {
            k \<leftarrow> ipc_wake (DqPushQ q) k;
            Some (Wait (Notify_lwm it), k)
          }
          else do {
            k \<leftarrow> dq_notify notify q RT_DATAQUEUE_EVENT_LWM k;
            Some (Done (RT_EOK, Some it), k)
          })
       else do {
         k \<leftarrow> dq_notify notify q RT_DATAQUEUE_EVENT_POP k;
         Some (Done (RT_EOK, Some it), k)
       }
     }
   }"

definition rt_data_queue_pop :: "dq_callback \<Rightarrow> nat \<Rightarrow> int \<Rightarrow> kernel \<Rightarrow> ((int \<times> rt_data_item option, dq_waiter) outcome \<times> kernel) option" where
  "rt_data_queue_pop notify q timeout k = do {
     _ \<leftarrow> get_dq q k;
     dq_pop_round notify q (rt_thread_self k) timeout k
   }"

definition rt_data_queue_pop_resume :: "dq_callback \<Rightarrow> nat \<Rightarrow> int \<Rightarrow> dq_waiter \<Rightarrow> kernel \<Rightarrow> ((int \<times> rt_data_item option, dq_waiter) outcome \<times> kernel) option" where
  "rt_data_queue_pop_resume notify q timeout w k =
     (case w of
        Retry t \<Rightarrow> do {
          th \<leftarrow> get_thread t k;
          if th_error th \<noteq> RT_EOK then Some (Done (th_error th, None), k)
          else dq_pop_round notify q (Some t) timeout k
        }
      | Notify_lwm it \<Rightarrow> do {
          k \<leftarrow> dq_notify notify q RT_DATAQUEUE_EVENT_LWM k;
          Some (Done (RT_EOK, Some it), k)
        })"

definition rt_data_queue_peek :: "nat \<Rightarrow> kernel \<Rightarrow> (int \<times> rt_data_item option) option" where
  "rt_data_queue_peek q k = do {
     dq \<leftarrow> get_dq q k;
     if dq_is_empty dq then Some (- RT_EEMPTY, None)
     else do {
       it \<leftarrow> dq_front dq;
       Some (RT_EOK, Some it)
     }
   }"

text \<open>Leaving the critical section may already switch to a woken thread; the call of the scheduler after it then finds nothing to do.\<close>

definition rt_data_queue_reset :: "nat \<Rightarrow> kernel \<Rightarrow> kernel option" where
  "rt_data_queue_reset q k = do {
     dq \<leftarrow> get_dq q k;
     k \<leftarrow> Some (put_dq q (dq\<lparr>dq_get_index := 0, dq_put_index := 0, dq_is_empty := True, dq_is_full := False\<rparr>) k);
     k \<leftarrow> Some (rt_enter_critical k);
     k \<leftarrow> rt_ipc_list_resume_all (DqPopQ q) k;
     k \<leftarrow> rt_ipc_list_resume_all (DqPushQ q) k;
     k \<leftarrow> rt_exit_critical k;
     rt_schedule k
   }"

text \<open>The deinitialisation up to the end of the reset, and what the thread does when it runs again.\<close>

definition rt_data_queue_deinit :: "nat \<Rightarrow> kernel \<Rightarrow> kernel option" where
  "rt_data_queue_deinit q k = do {
     _ \<leftarrow> get_dq q k;
     rt_data_queue_reset q k
   }"

definition rt_data_queue_deinit_end :: "nat \<Rightarrow> kernel \<Rightarrow> (int \<times> kernel) option" where
  "rt_data_queue_deinit_end q k = do {
     dq \<leftarrow> k_data_queues k q;
     k \<leftarrow> Some (put_dq q (dq\<lparr>dq_magic := 0\<rparr>) k);
     h \<leftarrow> rt_free (dq_addr dq) (k_irq_nest k) (k_heap k);
     Some (RT_EOK, k\<lparr>k_heap := h\<rparr>)
   }"

section \<open>The ring is a queue\<close>

text \<open>The number of items, and the condition that the indices and flags agree; the indices cover sizes up to 32768.\<close>

definition dq_count :: "rt_data_queue \<Rightarrow> nat" where
  "dq_count dq = (let p = unat (dq_put_index dq); g = unat (dq_get_index dq) in
     if dq_is_empty dq then 0 else if g < p then p - g else unat (dq_size dq) + p - g)"

definition dq_ring :: "rt_data_queue \<Rightarrow> bool" where
  "dq_ring dq \<longleftrightarrow> unat (dq_size dq) \<le> 0x8000 \<and> unat (dq_size dq) \<le> length (dq_queue dq) \<and>
     unat (dq_get_index dq) < unat (dq_size dq) \<and> unat (dq_put_index dq) < unat (dq_size dq) \<and>
     (dq_is_empty dq \<longrightarrow> dq_put_index dq = dq_get_index dq) \<and>
     (dq_is_full dq \<longleftrightarrow> dq_put_index dq = dq_get_index dq \<and> \<not> dq_is_empty dq)"

definition dq_contents :: "rt_data_queue \<Rightarrow> rt_data_item list" where
  "dq_contents dq = ring (dq_queue dq) (unat (dq_size dq)) (unat (dq_get_index dq)) (dq_count dq)"

definition dq_put :: "rt_data_item \<Rightarrow> rt_data_queue \<Rightarrow> rt_data_queue option" where
  "dq_put it dq = (if dq_is_full dq then None else dq_in (di_data_ptr it) (di_data_size it) dq)"

definition dq_get :: "rt_data_queue \<Rightarrow> (rt_data_item \<times> rt_data_queue) option" where
  "dq_get dq = (if dq_is_empty dq then None else dq_out dq)"

lemma dq_ringD:
  assumes "dq_ring dq"
  shows "unat (dq_size dq) \<le> 0x8000" "unat (dq_size dq) \<le> length (dq_queue dq)"
    "unat (dq_get_index dq) < unat (dq_size dq)" "unat (dq_put_index dq) < unat (dq_size dq)"
    "dq_is_empty dq \<Longrightarrow> dq_put_index dq = dq_get_index dq"
    "dq_is_full dq \<longleftrightarrow> dq_put_index dq = dq_get_index dq \<and> \<not> dq_is_empty dq"
  using assms by (simp_all add: dq_ring_def)

lemma unat_dq_next:
  assumes "unat i < unat sz" and "unat sz \<le> 0x8000"
  shows "unat (dq_next sz i) = (unat i + 1) mod unat sz"
proof (cases "unat i + 1 = unat sz")
  case True
  then have "unat (i + 1) = unat sz \<or> unat (i + 1) = 0"
    using assms(2) by (cases "unat sz = 0x8000") (simp_all add: unat_word_ariths)
  then show ?thesis using True by (auto simp: dq_next_def Let_def unat_eq_zero)
next
  case False
  then have "unat (i + 1) = unat i + 1" using assms by (simp add: unat_word_ariths)
  then show ?thesis using False assms(1) by (simp add: dq_next_def Let_def)
qed

lemma dq_count_put:
  assumes "dq_ring dq"
  shows "unat (dq_put_index dq) = (unat (dq_get_index dq) + dq_count dq) mod unat (dq_size dq)"
    and "dq_count dq \<le> unat (dq_size dq)" and "dq_count dq = unat (dq_size dq) \<longleftrightarrow> dq_is_full dq"
    and "dq_count dq = 0 \<longleftrightarrow> dq_is_empty dq"
proof -
  note d = dq_ringD [OF assms]
  have ne: "unat (dq_put_index dq) \<noteq> unat (dq_get_index dq)" if "dq_put_index dq \<noteq> dq_get_index dq"
    using that by (simp add: word_unat_eq_iff)
  show "unat (dq_put_index dq) = (unat (dq_get_index dq) + dq_count dq) mod unat (dq_size dq)"
    using d by (auto simp: dq_count_def Let_def)
  show "dq_count dq \<le> unat (dq_size dq)" using d by (auto simp: dq_count_def Let_def)
  show "dq_count dq = unat (dq_size dq) \<longleftrightarrow> dq_is_full dq"
    using d ne by (cases "dq_put_index dq = dq_get_index dq") (auto simp: dq_count_def Let_def)
  show "dq_count dq = 0 \<longleftrightarrow> dq_is_empty dq" using d by (auto simp: dq_count_def Let_def)
qed

text \<open>The indices and flags determine the count.\<close>

lemma dq_count_unique:
  assumes "dq_ring dq" and "n \<le> unat (dq_size dq)" and "n = 0 \<longleftrightarrow> dq_is_empty dq"
    and "unat (dq_put_index dq) = (unat (dq_get_index dq) + n) mod unat (dq_size dq)"
  shows "dq_count dq = n"
proof -
  let ?N = "unat (dq_size dq)" and ?g = "unat (dq_get_index dq)"
  have g: "?g < ?N" by (rule dq_ringD(3) [OF assms(1)])
  have "unat (dq_put_index dq) = (if ?g + n < ?N then ?g + n else ?g + n - ?N)"
    using assms(2,4) g by (auto simp: mod_if)
  then show ?thesis using assms(2,3) g by (auto simp: dq_count_def Let_def split: if_splits)
qed

lemma unat_dq_len:
  assumes "dq_ring dq"
  shows "unat (dq_len dq) = length (dq_contents dq)"
proof -
  note d = dq_ringD [OF assms]
  have up: "unat (ucast (i :: 15 word) :: u16) = unat i" for i
  proof -
    have "unat i < 2 ^ 16" by (rule less_trans [OF unsigned_less]) simp
    then have "take_bit 16 (unat i) = unat i" by (rule take_bit_nat_eq_self)
    then show ?thesis by (simp add: unsigned_ucast_eq)
  qed
  note p = up [of "dq_put_index dq"] and g = up [of "dq_get_index dq"]
  show ?thesis
    using d p g by (auto simp: dq_len_def dq_contents_def dq_count_def Let_def unat_word_ariths unat_sub_if' word_less_nat_alt)
qed

text \<open>What no ring operation changes.\<close>

definition dq_same :: "rt_data_queue \<Rightarrow> rt_data_queue \<Rightarrow> bool" where
  "dq_same dq dq' \<longleftrightarrow> dq_magic dq' = dq_magic dq \<and> dq_size dq' = dq_size dq \<and> dq_lwm dq' = dq_lwm dq \<and>
     dq_addr dq' = dq_addr dq \<and> dq_evt_notify dq' = dq_evt_notify dq"

lemma dq_put_room:
  assumes r: "dq_ring dq" and f: "\<not> dq_is_full dq"
  shows "\<exists>dq'. dq_in p n dq = Some dq' \<and> dq_ring dq' \<and> dq_same dq dq' \<and>
    dq_contents dq' = dq_contents dq @ [\<lparr>di_data_ptr = p, di_data_size = n\<rparr>]"
proof -
  note d = dq_ringD [OF r] and c = dq_count_put [OF r]
  let ?it = "\<lparr>di_data_ptr = p, di_data_size = n\<rparr>"
  let ?i = "dq_put_index dq"
  let ?q = "(dq_queue dq)[unat ?i := ?it]"
  let ?j = "dq_next (dq_size dq) ?i"
  let ?dq = "dq\<lparr>dq_queue := ?q, dq_put_index := ?j, dq_is_empty := False, dq_is_full := (?j = dq_get_index dq)\<rparr>"
  have lt: "dq_count dq < unat (dq_size dq)" using c(2,3) f by linarith
  have b: "unat ?i < length (dq_queue dq)" using d(2,4) by linarith
  have j: "unat ?j = (unat ?i + 1) mod unat (dq_size dq)" by (rule unat_dq_next [OF d(4,1)])
  have "dq_in p n dq = Some ?dq" using b f by (cases dq) (simp add: dq_in_def)
  moreover have ring: "dq_ring ?dq" using d j by (auto simp: dq_ring_def)
  moreover have "dq_count ?dq = Suc (dq_count dq)"
  proof (rule dq_count_unique [OF ring])
    have "unat ?j = (unat (dq_get_index dq) + Suc (dq_count dq)) mod unat (dq_size dq)"
      unfolding j c(1) by (simp add: mod_simps)
    then show "unat (dq_put_index ?dq) = (unat (dq_get_index ?dq) + Suc (dq_count dq)) mod unat (dq_size ?dq)" by simp
  qed (use lt in simp_all)
  then have "dq_contents ?dq = dq_contents dq @ [?it]"
    using ring_push [OF lt d(2), of "unat (dq_get_index dq)" ?it] by (simp add: dq_contents_def flip: c(1))
  ultimately show ?thesis by (intro exI [of _ ?dq]) (simp add: dq_same_def)
qed

lemma dq_get_first:
  assumes r: "dq_ring dq" and e: "\<not> dq_is_empty dq"
  shows "\<exists>it dq'. dq_out dq = Some (it, dq') \<and> dq_ring dq' \<and> dq_same dq dq' \<and>
    dq_contents dq = it # dq_contents dq' \<and> dq_front dq = Some it"
proof -
  note d = dq_ringD [OF r] and c = dq_count_put [OF r]
  let ?i = "dq_get_index dq"
  let ?it = "dq_queue dq ! unat ?i"
  let ?j = "dq_next (dq_size dq) ?i"
  let ?dq = "dq\<lparr>dq_get_index := ?j, dq_is_full := False, dq_is_empty := (dq_put_index dq = ?j)\<rparr>"
  obtain n where n: "dq_count dq = Suc n" using c(4) e not0_implies_Suc by auto
  have b: "unat ?i < length (dq_queue dq)" using d(2,3) by linarith
  have j: "unat ?j = (unat ?i + 1) mod unat (dq_size dq)" by (rule unat_dq_next [OF d(3,1)])
  have "dq_out dq = Some (?it, ?dq)" using b e by (cases dq) (simp add: dq_out_def dq_front_def)
  moreover have ring: "dq_ring ?dq" using d j by (auto simp: dq_ring_def)
  moreover have "dq_count ?dq = n"
  proof (rule dq_count_unique [OF ring])
    have p: "unat (dq_put_index dq) = (unat ?j + n) mod unat (dq_size dq)"
      unfolding j c(1) n by (simp add: mod_simps)
    then show "unat (dq_put_index ?dq) = (unat (dq_get_index ?dq) + n) mod unat (dq_size ?dq)" by simp
    show "n \<le> unat (dq_size ?dq)" using c(2) n by simp
    have lt: "n < unat (dq_size dq)" "unat ?j < unat (dq_size dq)" using c(2) n j d(3) by simp_all
    have "dq_put_index dq = ?j \<longleftrightarrow> (unat ?j + n) mod unat (dq_size dq) = unat ?j" by (simp add: word_unat_eq_iff p)
    also have "\<dots> \<longleftrightarrow> n = 0" using lt by (auto simp: mod_if split: if_splits)
    finally show "n = 0 \<longleftrightarrow> dq_is_empty ?dq" by simp
  qed
  then have "dq_contents dq = ?it # dq_contents ?dq"
    using ring_pop [of "dq_queue dq" "unat (dq_size dq)" "unat ?i" n] n d(3) by (simp add: dq_contents_def j)
  ultimately show ?thesis using b by (intro exI [of _ ?it] exI [of _ ?dq]) (simp add: dq_same_def dq_front_def)
qed

interpretation dq: bounded_fifo dq_ring dq_contents "\<lambda>dq. unat (dq_size dq)" "\<lambda>_ _. True" dq_put dq_get
proof
  fix s :: rt_data_queue and x :: rt_data_item and xs
  assume r: "dq_ring s"
  note c = dq_count_put [OF r]
  have len: "length (dq_contents s) = dq_count s" by (simp add: dq_contents_def)
  show "length (dq_contents s) \<le> unat (dq_size s)" using c(2) len by simp
  show "dq_put x s = None" if "length (dq_contents s) = unat (dq_size s)" using that len c(3) by (simp add: dq_put_def)
  show "\<exists>s'. dq_put x s = Some s' \<and> dq_ring s' \<and> dq_contents s' = dq_contents s @ [x] \<and>
      unat (dq_size s') = unat (dq_size s) \<and> (\<lambda>_. True) = (\<lambda>_. True)" if "length (dq_contents s) < unat (dq_size s)"
  proof -
    have f: "\<not> dq_is_full s" using that len c(3) by simp
    from dq_put_room [OF r f, of "di_data_ptr x" "di_data_size x"] f show ?thesis by (auto simp: dq_put_def dq_same_def)
  qed
  show "dq_get s = None" if "dq_contents s = []" using that len c(4) by (simp add: dq_get_def)
  show "\<exists>s'. dq_get s = Some (x, s') \<and> dq_ring s' \<and> dq_contents s' = xs \<and>
      unat (dq_size s') = unat (dq_size s) \<and> (\<lambda>_. True) = (\<lambda>_. True)" if "dq_contents s = x # xs"
  proof -
    have e: "\<not> dq_is_empty s" using that len c(4) by auto
    from dq_get_first [OF r e] e that show ?thesis by (auto simp: dq_get_def dq_same_def)
  qed
qed

section \<open>The operations on the kernel state\<close>

definition dq_ok :: "rt_data_queue \<Rightarrow> bool" where
  "dq_ok dq \<longleftrightarrow> dq_magic dq = DATAQUEUE_MAGIC \<and> dq_ring dq"

text \<open>
  \<open>dq_moved q h f k k'\<close>: the contents \<open>xs\<close> of queue \<open>q\<close> became \<open>f xs\<close> and the first thread waiting on \<open>h\<close>, if any, was woken;
  no other thread left a waiting list and no other object changed.
\<close>

definition dq_moved :: "nat \<Rightarrow> lhead \<Rightarrow> (rt_data_item list \<Rightarrow> rt_data_item list) \<Rightarrow> kernel \<Rightarrow> kernel \<Rightarrow> bool" where
  "dq_moved q h f k k' \<longleftrightarrow>
     (\<exists>dq dq'. k_data_queues k q = Some dq \<and> k_data_queues k' = (k_data_queues k)(q \<mapsto> dq') \<and> dq_ok dq' \<and> dq_same dq dq' \<and>
        dq_contents dq' = f (dq_contents dq)) \<and>
     k_lists k' h = tl (k_lists k h) \<and> (\<forall>g. wait_head g \<longrightarrow> g \<noteq> h \<longrightarrow> k_lists k' g = k_lists k g) \<and>
     (\<forall>t ts. k_lists k h = t # ts \<longrightarrow> (\<exists>th. k_threads k' t = Some th \<and> thread_stat th \<noteq> RT_THREAD_SUSPEND))"

text \<open>What the functions of users that are told of events have to keep.\<close>

definition notify_ok :: "dq_callback \<Rightarrow> bool" where
  "notify_ok notify \<longleftrightarrow> (\<forall>f q event k. kinv k \<longrightarrow> returns (notify f q event k) kinv)"

lemma kinvx_put_dq [simp]: "kinvx X (put_dq q dq k) = kinvx X k"
  by (simp add: kinvx_def put_dq_def)

lemma put_dq_fields [simp]:
  "k_current (put_dq q dq k) = k_current k" "k_lists (put_dq q dq k) = k_lists k" "k_threads (put_dq q dq k) = k_threads k"
  "k_data_queues (put_dq q dq k) = (k_data_queues k)(q \<mapsto> dq)" "k_lock_nest (put_dq q dq k) = k_lock_nest k"
  by (simp_all add: put_dq_def)

lemma dq_ok_same: "dq_ok dq \<Longrightarrow> dq_ring dq' \<Longrightarrow> dq_same dq dq' \<Longrightarrow> dq_ok dq'"
  by (simp add: dq_ok_def dq_same_def)

lemma dq_wake:
  assumes i: "kinv k" and c: "k_current k = Some c" and h: "wait_head h"
    and dq: "k_data_queues k q = Some dq" "dq_ok dq'" "dq_same dq dq'" "dq_contents dq' = f (dq_contents dq)"
  shows "returns (ipc_wake h (put_dq q dq' k)) (\<lambda>k'. kinv k' \<and> dq_moved q h f k k')"
proof -
  have k: "kinv (put_dq q dq' k)" "k_current (put_dq q dq' k) = Some c" using i c by simp_all
  show ?thesis
    by (rule returns_mono [OF ipc_wake_kinvx [OF k(1) h k(2)]])
      (use dq in \<open>auto simp: dq_moved_def fields_frame_def\<close>)
qed

text \<open>With nobody waiting the same, and the user is told.\<close>

lemma dq_told:
  assumes i: "kinv k" and nt: "notify_ok notify" and l: "k_lists k h = []"
    and dq: "k_data_queues k q = Some dq" "dq_ok dq'" "dq_same dq dq'" "dq_contents dq' = f (dq_contents dq)"
  shows "returns (dq_notify notify q event (put_dq q dq' k)) (\<lambda>k'. kinv k' \<and>
    (\<exists>k1. kinv k1 \<and> dq_moved q h f k k1 \<and> dq_notify notify q event k1 = Some k'))"
proof -
  have k: "kinv (put_dq q dq' k)" using i by simp
  have m: "dq_moved q h f k (put_dq q dq' k)" using dq l by (auto simp: dq_moved_def)
  have "returns (dq_notify notify q event (put_dq q dq' k)) kinv"
    using nt k by (cases "dq_evt_notify dq'") (auto simp: dq_notify_def notify_ok_def)
  then obtain k' where "dq_notify notify q event (put_dq q dq' k) = Some k'" "kinv k'" by (auto simp: returns_def)
  then show ?thesis using k m unfolding returns_def by blast
qed

lemma dq_blocks:
  assumes i: "kinv k" and c: "k_current k = Some t" "k_threads k t = Some th" "thread_stat th = RT_THREAD_RUNNING"
    and h: "wait_head h" and n: "timeout < 2 ^ 31 - 1"
  shows "returns (do {
      k \<leftarrow> mod_thread t (\<lambda>th. th\<lparr>th_error := RT_EOK\<rparr>) k;
      k \<leftarrow> ipc_block h t RT_IPC_FLAG_FIFO timeout k;
      k \<leftarrow> rt_schedule k;
      Some (r, k)
    }) (\<lambda>(r', k'). kinv k' \<and> r' = r \<and> k_data_queues k' = k_data_queues k \<and> t \<in> set (k_lists k' h) \<and>
       (0 < timeout \<longleftrightarrow> Thread_timer t \<in> set (k_timer_list k')))"
  using block_cleared [OF i c h _ n, of RT_IPC_FLAG_FIFO r] c
  by (simp add: mod_thread_def) (elim returns_mono, auto simp: fields_frame_def)

section \<open>What data queues promise\<close>

text \<open>
  Refinement: the ring of a data queue - the pool with its two 15-bit indices and the two flags - implements a bounded queue:
  every sequence of pushes and pops gives the items the queue of the same capacity gives and ends in a ring with the
  contents of that queue, and \<^verbatim>\<open>rt_data_queue_len\<close> is its length, for sizes up to 32768.
\<close>

theorem dq_refines_queue:
  assumes "dq_ring dq" and "\<And>x. Urgent x \<notin> set ops"
  shows "dq_ring (snd (dq.run ops dq)) \<and> queue_spec (unat (dq_size dq)) ops (dq_contents dq) =
      (fst (dq.run ops dq), dq_contents (snd (dq.run ops dq))) \<and>
    unat (dq_len (snd (dq.run ops dq))) = length (dq_contents (snd (dq.run ops dq)))"
  using dq.run_refines [OF assms(1) _ assms(2)] unat_dq_len by blast

text \<open>
  \<^verbatim>\<open>rt_data_queue_push\<close> by the running thread, on every branch: with room the item goes to the end of the queue, and the first
  waiting receiver is made runnable or, when there is none, the user is told of the item; a full queue gives
  \<open>-RT_ETIMEOUT\<close> without a change when there is no waiting time, and otherwise the sender waits.  The kernel invariant is kept
  if the function of the user keeps it.
\<close>

theorem rt_data_queue_push_correct:
  assumes i: "kinv k" and c: "k_current k = Some t" "k_threads k t = Some th" "thread_stat th = RT_THREAD_RUNNING"
    and irq: "k_irq_nest k = 0" and dq: "k_data_queues k q = Some dq" "dq_ok dq" and n: "timeout < 2 ^ 31 - 1"
    and nt: "notify_ok notify"
  shows "returns (rt_data_queue_push notify q p sz timeout k) (\<lambda>(r, k'). kinv k' \<and>
    (if length (dq_contents dq) < unat (dq_size dq) then r = Done RT_EOK \<and>
       (\<exists>k1. kinv k1 \<and> dq_moved q (DqPopQ q) (\<lambda>xs. xs @ [\<lparr>di_data_ptr = p, di_data_size = sz\<rparr>]) k k1 \<and>
          (if k_lists k (DqPopQ q) = [] then dq_notify notify q RT_DATAQUEUE_EVENT_PUSH k1 = Some k' else k' = k1))
     else if timeout = 0 then r = Done (- RT_ETIMEOUT) \<and> k' = k
     else r = Wait t \<and> k_data_queues k' = k_data_queues k \<and> t \<in> set (k_lists k' (DqPushQ q)) \<and>
       (0 < timeout \<longleftrightarrow> Thread_timer t \<in> set (k_timer_list k'))))"
proof -
  have ring: "dq_ring dq" and mg: "dq_magic dq = DATAQUEUE_MAGIC" using dq(2) by (simp_all add: dq_ok_def)
  have len: "length (dq_contents dq) = dq_count dq" by (simp add: dq_contents_def)
  note cnt = dq_count_put [OF ring]
  have g: "get_dq q k = Some dq" using dq mg by (simp add: get_dq_def)
  show ?thesis
  proof (cases "dq_is_full dq")
    case True
    then have full: "\<not> length (dq_contents dq) < unat (dq_size dq)" using cnt(3) len by simp
    show ?thesis
    proof (cases "timeout = 0")
      case True
      then show ?thesis using \<open>dq_is_full dq\<close> full i g dq(1) by (simp add: rt_data_queue_push_def dq_push_round_def)
    next
      case False
      then show ?thesis using \<open>dq_is_full dq\<close> full g dq(1) irq c(1) dq_blocks [OF i c _ n, of "DqPushQ q" "Wait t"]
        by (simp add: rt_data_queue_push_def dq_push_round_def rt_thread_self_def)
    qed
  next
    case False
    have room: "length (dq_contents dq) < unat (dq_size dq)" using False cnt(2,3) len by linarith
    let ?it = "\<lparr>di_data_ptr = p, di_data_size = sz\<rparr>"
    obtain dq' where dq': "dq_in p sz dq = Some dq'" "dq_ring dq'" "dq_same dq dq'" "dq_contents dq' = dq_contents dq @ [?it]"
      using dq_put_room [OF ring False] by blast
    have ok: "dq_ok dq'" by (rule dq_ok_same [OF dq(2) dq'(2,3)])
    show ?thesis
    proof (cases "k_lists k (DqPopQ q) = []")
      case True
      show ?thesis
        using False room True g dq(1) dq'(1) dq_told [OF i nt True dq(1) ok dq'(3), of "\<lambda>xs. xs @ [?it]" RT_DATAQUEUE_EVENT_PUSH] dq'(4)
        by (auto simp: rt_data_queue_push_def dq_push_round_def tlist_isempty_def elim!: returns_mono)
    next
      case ne: False
      have w: "wait_head (DqPopQ q)" by simp
      show ?thesis
        using False room ne g dq(1) dq'(1) dq_wake [OF i c(1) w dq(1) ok dq'(3), of "\<lambda>xs. xs @ [?it]"] dq'(4)
        by (auto simp: rt_data_queue_push_def dq_push_round_def tlist_isempty_def elim!: returns_mono)
    qed
  qed
qed

text \<open>
  \<^verbatim>\<open>rt_data_queue_pop\<close> by the running thread, on every branch: the oldest item is taken; if the queue is then down to the
  low water mark and a sender waits, the sender is made runnable and the caller returns its item, and tells the user of
  the low level, when it runs again; without a sender or above the mark the user is told at once; an empty queue gives
  \<open>-RT_ETIMEOUT\<close> without a change when there is no waiting time, and otherwise the receiver waits.
\<close>

theorem rt_data_queue_pop_correct:
  assumes i: "kinv k" and c: "k_current k = Some t" "k_threads k t = Some th" "thread_stat th = RT_THREAD_RUNNING"
    and irq: "k_irq_nest k = 0" and dq: "k_data_queues k q = Some dq" "dq_ok dq" and n: "timeout < 2 ^ 31 - 1"
    and nt: "notify_ok notify"
  shows "returns (rt_data_queue_pop notify q timeout k) (\<lambda>(r, k'). kinv k' \<and>
    (case dq_contents dq of
       it # its \<Rightarrow>
         if length its \<le> unat (dq_lwm dq) \<and> k_lists k (DqPushQ q) \<noteq> [] then
           r = Wait (Notify_lwm it) \<and> dq_moved q (DqPushQ q) tl k k'
         else r = Done (RT_EOK, Some it) \<and> (\<exists>dq'. dq_ok dq' \<and> dq_same dq dq' \<and> dq_contents dq' = its \<and>
           dq_notify notify q (if length its \<le> unat (dq_lwm dq) then RT_DATAQUEUE_EVENT_LWM else RT_DATAQUEUE_EVENT_POP)
             (put_dq q dq' k) = Some k')
     | [] \<Rightarrow> if timeout = 0 then r = Done (- RT_ETIMEOUT, None) \<and> k' = k
            else r = Wait (Retry t) \<and> k_data_queues k' = k_data_queues k \<and> t \<in> set (k_lists k' (DqPopQ q)) \<and>
              (0 < timeout \<longleftrightarrow> Thread_timer t \<in> set (k_timer_list k'))))"
proof -
  have ring: "dq_ring dq" and mg: "dq_magic dq = DATAQUEUE_MAGIC" using dq(2) by (simp_all add: dq_ok_def)
  have len: "length (dq_contents dq) = dq_count dq" by (simp add: dq_contents_def)
  note cnt = dq_count_put [OF ring]
  have g: "get_dq q k = Some dq" using dq mg by (simp add: get_dq_def)
  show ?thesis
  proof (cases "dq_is_empty dq")
    case True
    then have e: "dq_contents dq = []" using cnt(4) len by simp
    show ?thesis
    proof (cases "timeout = 0")
      case True
      then show ?thesis using \<open>dq_is_empty dq\<close> e i g dq(1) by (simp add: rt_data_queue_pop_def dq_pop_round_def)
    next
      case False
      then show ?thesis using \<open>dq_is_empty dq\<close> e g dq(1) irq c(1) dq_blocks [OF i c _ n, of "DqPopQ q" "Wait (Retry t)"]
        by (simp add: rt_data_queue_pop_def dq_pop_round_def rt_thread_self_def)
    qed
  next
    case False
    obtain it dq' where dq': "dq_out dq = Some (it, dq')" "dq_ring dq'" "dq_same dq dq'" "dq_contents dq = it # dq_contents dq'"
      using dq_get_first [OF ring False] by blast
    have ok: "dq_ok dq'" by (rule dq_ok_same [OF dq(2) dq'(2,3)])
    have lw: "rt_data_queue_len q (put_dq q dq' k) = Some (dq_len dq')" using ok by (simp add: rt_data_queue_len_def get_dq_def dq_ok_def)
    have le: "dq_len dq' \<le> dq_lwm dq' \<longleftrightarrow> length (dq_contents dq') \<le> unat (dq_lwm dq)"
      using unat_dq_len [OF dq'(2)] dq'(3) by (simp add: word_le_nat_alt dq_same_def)
    have ev: "returns (dq_notify notify q event (put_dq q dq' k)) (\<lambda>k'. kinv k' \<and> (\<exists>d. dq_ok d \<and> dq_same dq d \<and>
        dq_contents d = dq_contents dq' \<and> dq_notify notify q event (put_dq q d k) = Some k'))" for event
    proof -
      have "returns (dq_notify notify q event (put_dq q dq' k)) kinv"
        using nt i by (cases "dq_evt_notify dq'") (auto simp: dq_notify_def notify_ok_def)
      then obtain k' where "dq_notify notify q event (put_dq q dq' k) = Some k'" "kinv k'" by (auto simp: returns_def)
      then show ?thesis using ok dq'(3) unfolding returns_def by blast
    qed
    have e: "rt_data_queue_pop notify q timeout k = (if dq_len dq' \<le> dq_lwm dq' then
         (if \<not> tlist_isempty (DqPushQ q) (put_dq q dq' k) then Option.bind (ipc_wake (DqPushQ q) (put_dq q dq' k)) (\<lambda>k. Some (Wait (Notify_lwm it), k))
          else Option.bind (dq_notify notify q RT_DATAQUEUE_EVENT_LWM (put_dq q dq' k)) (\<lambda>k. Some (Done (RT_EOK, Some it), k)))
       else Option.bind (dq_notify notify q RT_DATAQUEUE_EVENT_POP (put_dq q dq' k)) (\<lambda>k. Some (Done (RT_EOK, Some it), k)))"
      using False g dq(1) dq'(1) lw by (simp add: rt_data_queue_pop_def dq_pop_round_def)
    show ?thesis
    proof (cases "length (dq_contents dq') \<le> unat (dq_lwm dq) \<and> k_lists k (DqPushQ q) \<noteq> []")
      case True
      have w: "wait_head (DqPushQ q)" by simp
      have "returns (ipc_wake (DqPushQ q) (put_dq q dq' k)) (\<lambda>k'. kinv k' \<and> dq_moved q (DqPushQ q) tl k k')"
        by (rule dq_wake [OF i c(1) w dq(1) ok dq'(3)]) (simp add: dq'(4))
      then show ?thesis unfolding e dq'(4) using True le by (auto simp: tlist_isempty_def elim!: returns_mono)
    next
      case nw: False
      have e2: "rt_data_queue_pop notify q timeout k =
          Option.bind (dq_notify notify q (if length (dq_contents dq') \<le> unat (dq_lwm dq) then RT_DATAQUEUE_EVENT_LWM else RT_DATAQUEUE_EVENT_POP)
            (put_dq q dq' k)) (\<lambda>k. Some (Done (RT_EOK, Some it), k))"
        unfolding e using nw le by (auto simp: tlist_isempty_def)
      show ?thesis unfolding e2 dq'(4) list.case if_not_P [OF nw]
        by (rule returns_bindI [OF ev]) (auto simp: returns_def)
    qed
  qed
qed

text \<open>A thread that waited for queue \<open>q\<close> is runnable with the error \<open>-RT_ERROR\<close>, and its call returns it.\<close>

definition released :: "nat \<Rightarrow> nat \<Rightarrow> kernel \<Rightarrow> bool" where
  "released q u k \<longleftrightarrow> (\<exists>th. k_threads k u = Some th \<and> thread_stat th \<noteq> RT_THREAD_SUSPEND) \<and>
     (\<forall>notify p sz timeout. rt_data_queue_push_resume notify q p sz timeout u k = Some (Done (- RT_ERROR), k) \<and>
        rt_data_queue_pop_resume notify q timeout (Retry u) k = Some (Done (- RT_ERROR, None), k))"

lemma released_sched:
  assumes "\<exists>th. k_threads k u = Some th \<and> thread_stat th \<noteq> RT_THREAD_SUSPEND \<and> th_error th = - RT_ERROR" and s: "sched_rel k k'"
  shows "released q u k'"
proof -
  obtain th where th: "k_threads k u = Some th" "thread_stat th \<noteq> RT_THREAD_SUSPEND" "th_error th = - RT_ERROR" using assms(1) by blast
  have "\<exists>th'. k_threads k' u = Some th' \<and> thread_stat th' \<noteq> RT_THREAD_SUSPEND \<and> th_error th' = - RT_ERROR"
    by (rule sched_rel_cases [OF s th(1)]) (use th in \<open>auto dest: restatD(2)\<close>)
  then show ?thesis by (auto simp: released_def rt_data_queue_push_resume_def rt_data_queue_pop_resume_def get_thread_def)
qed

lemma rt_exit_critical_queues:
  assumes "rt_exit_critical k = Some k'"
  shows "k_data_queues k' = k_data_queues k"
proof -
  have "k_data_queues k2 = k_data_queues k1" if "rt_schedule k1 = Some k2" for k1 k2
    using core_frameD(15) [OF framesD [OF frames_schedule [OF core_frame_refl] that]] .
  then show ?thesis using assms by (auto simp: rt_exit_critical_def Let_def split: if_splits)
qed

lemma sched_rel_trans:
  assumes a: "sched_rel k k1" and b: "sched_rel k1 k2"
  shows "sched_rel k k2"
proof -
  let ?S = "{RT_THREAD_READY, RT_THREAD_RUNNING}"
  have "k_threads k2 t = k_threads k t \<or> (\<exists>th th'. k_threads k t = Some th \<and> k_threads k2 t = Some th' \<and> restat th th' \<and>
      thread_stat th \<in> ?S \<and> thread_stat th' \<in> ?S)" for t
  proof -
    consider "k_threads k1 t = k_threads k t"
      | th th1 where "k_threads k t = Some th" "k_threads k1 t = Some th1" "restat th th1" "thread_stat th \<in> ?S" "thread_stat th1 \<in> ?S"
      using a unfolding sched_rel_def by metis
    then show ?thesis
    proof cases
      case 1
      then show ?thesis using b unfolding sched_rel_def by metis
    next
      case (2 th th1)
      obtain th2 where th2: "k_threads k2 t = Some th2" "restat th1 th2" "thread_stat th2 \<in> ?S"
        by (rule sched_rel_cases [OF b 2(2)]) (use 2(5) in \<open>simp_all\<close>)
      have "restat th th2" using 2(3) th2(2) by (auto simp: restat_def)
      then show ?thesis using 2(1,4) th2(1,3) by blast
    qed
  qed
  moreover have "\<forall>h. (\<forall>p. h \<noteq> Ready p) \<longrightarrow> k_lists k2 h = k_lists k h" using a b unfolding sched_rel_def by metis
  ultimately show ?thesis using sched_relD(1-4) [OF a] sched_relD(1-4) [OF b] unfolding sched_rel_def by simp
qed

lemma exit_schedule_kinvx:
  assumes i: "kinv k" and c: "k_current k = Some t"
  shows "returns (Option.bind (rt_exit_critical k) rt_schedule) (\<lambda>k'. kinv k' \<and> sched_rel k k' \<and> k_data_queues k' = k_data_queues k)"
proof -
  obtain k1 where k1: "rt_exit_critical k = Some k1" "kinv k1" "sched_rel k k1"
    using rt_exit_critical_returns [OF i] by (auto simp: returns_def)
  obtain c1 where c1: "k_current k1 = Some c1" using sched_relD(4) [OF k1(3)] c by auto
  have "returns (rt_schedule k1) (\<lambda>k'. (kinv k' \<and> sched_rel k1 k') \<and> core_frame k1 k')"
    by (rule returns_frame [OF schedule_after [OF k1(2) c1]]) (auto intro: frame)
  then show ?thesis
    using k1 rt_exit_critical_queues [OF k1(1)] by (auto dest: core_frameD(15) intro: sched_rel_trans elim!: returns_mono)
qed

text \<open>
  Resetting a data queue by a running thread terminates: the queue is empty, no thread waits on it any more, and every
  thread that waited for an item or for room is runnable again with the error \<open>-RT_ERROR\<close>, which its call returns.
\<close>

theorem rt_data_queue_reset_releases:
  assumes i: "kinv k" and c: "k_current k = Some t" and dq: "k_data_queues k q = Some dq" "dq_ok dq"
  shows "returns (rt_data_queue_reset q k) (\<lambda>k'. kinv k' \<and> k_lists k' (DqPopQ q) = [] \<and> k_lists k' (DqPushQ q) = [] \<and>
    (\<exists>dq'. k_data_queues k' = (k_data_queues k)(q \<mapsto> dq') \<and> dq_ok dq' \<and> dq_same dq dq' \<and> dq_contents dq' = []) \<and>
    (\<forall>u \<in> set (k_lists k (DqPopQ q)) \<union> set (k_lists k (DqPushQ q)). released q u k'))"
proof -
  let ?dq = "dq\<lparr>dq_get_index := 0, dq_put_index := 0, dq_is_empty := True, dq_is_full := False\<rparr>"
  let ?k = "rt_enter_critical (put_dq q ?dq k)"
  let ?H = "DqPopQ q" and ?G = "DqPushQ q"
  have k: "kinv ?k" "k_lists ?k = k_lists k" "k_current ?k = Some t" "k_data_queues ?k = (k_data_queues k)(q \<mapsto> ?dq)"
    using i c by (simp_all add: rt_enter_critical_def)
  have d: "dq_ok ?dq" "dq_same dq ?dq" "dq_contents ?dq = []"
    using dq(2) by (auto simp: dq_ok_def dq_ring_def dq_same_def dq_contents_def dq_count_def)
  have e: "rt_data_queue_reset q k = Option.bind (rt_ipc_list_resume_all ?H ?k) (\<lambda>k. Option.bind (rt_ipc_list_resume_all ?G k)
      (\<lambda>k. Option.bind (rt_exit_critical k) rt_schedule))"
    using dq by (simp add: rt_data_queue_reset_def get_dq_def dq_ok_def)
  have h: "wait_head ?H" "wait_head ?G" by simp_all
  show ?thesis unfolding e
  proof (rule returns_bindI [OF rt_ipc_list_resume_all_kinvx [OF k(1) h(1)]], elim conjE)
    fix k1 assume k1: "kinv k1" "core_frame ?k k1" "all_resumed ?H ?k k1" "k_current k1 = k_current ?k"
    show "returns (Option.bind (rt_ipc_list_resume_all ?G k1) (\<lambda>k. Option.bind (rt_exit_critical k) rt_schedule))
      (\<lambda>k'. kinv k' \<and> k_lists k' ?H = [] \<and> k_lists k' ?G = [] \<and>
        (\<exists>dq'. k_data_queues k' = (k_data_queues k)(q \<mapsto> dq') \<and> dq_ok dq' \<and> dq_same dq dq' \<and> dq_contents dq' = []) \<and>
        (\<forall>u \<in> set (k_lists k ?H) \<union> set (k_lists k ?G). released q u k'))"
    proof (rule returns_bindI [OF rt_ipc_list_resume_all_kinvx [OF k1(1) h(2)]], elim conjE)
      fix k2 assume k2: "kinv k2" "core_frame k1 k2" "all_resumed ?G k1 k2" "k_current k2 = k_current k1"
      have u2: "\<exists>th. k_threads k2 u = Some th \<and> thread_stat th \<noteq> RT_THREAD_SUSPEND \<and> th_error th = - RT_ERROR"
        if "u \<in> set (k_lists k ?H) \<union> set (k_lists k ?G)" for u
        using k1(3) k2(3) that k(2) h unfolding all_resumed_def by (cases "u \<in> set (k_lists k ?G)") auto
      have l2: "k_lists k2 ?H = []" "k_lists k2 ?G = []" using k1(3) k2(3) h by (auto simp: all_resumed_def)
      have q2: "k_data_queues k2 = (k_data_queues k)(q \<mapsto> ?dq)"
        using core_frameD(15) [OF k1(2)] core_frameD(15) [OF k2(2)] k(4) by simp
      have c2: "k_current k2 = Some t" using k1(4) k2(4) k(3) by simp
      show "returns (Option.bind (rt_exit_critical k2) rt_schedule) (\<lambda>k'. kinv k' \<and> k_lists k' ?H = [] \<and> k_lists k' ?G = [] \<and>
          (\<exists>dq'. k_data_queues k' = (k_data_queues k)(q \<mapsto> dq') \<and> dq_ok dq' \<and> dq_same dq dq' \<and> dq_contents dq' = []) \<and>
          (\<forall>u \<in> set (k_lists k ?H) \<union> set (k_lists k ?G). released q u k'))"
      proof (rule returns_mono [OF exit_schedule_kinvx [OF k2(1) c2]], elim conjE, intro conjI)
        fix k' assume k': "kinv k'" "sched_rel k2 k'" "k_data_queues k' = k_data_queues k2"
        show "kinv k'" by (rule k')
        show "k_lists k' ?H = []" "k_lists k' ?G = []" using sched_relD(5) [OF k'(2)] l2 by simp_all
        show "\<exists>dq'. k_data_queues k' = (k_data_queues k)(q \<mapsto> dq') \<and> dq_ok dq' \<and> dq_same dq dq' \<and> dq_contents dq' = []"
          using d q2 k'(3) by (intro exI [of _ ?dq]) simp
        show "\<forall>u \<in> set (k_lists k ?H) \<union> set (k_lists k ?G). released q u k'"
          using released_sched [OF u2 k'(2)] by blast
      qed
    qed
  qed
qed

section \<open>The theorems on a concrete queue\<close>

text \<open>A ring of three items of which two are used, across its end, with low water mark 1.\<close>

definition sample_item :: "nat \<Rightarrow> rt_data_item" where
  "sample_item n = \<lparr>di_data_ptr = 0x2000 + 16 * n, di_data_size = 16\<rparr>"

definition sample_dq :: rt_data_queue where
  "sample_dq = \<lparr>dq_magic = DATAQUEUE_MAGIC, dq_size = 3, dq_lwm = 1, dq_get_index = 2, dq_is_empty = False, dq_put_index = 1,
     dq_is_full = False, dq_queue = [sample_item 1, sample_item 9, sample_item 0], dq_addr = Some 0x1000, dq_evt_notify = Some 5\<rparr>"

definition dq_kernel :: kernel where
  "dq_kernel = sample_kernel\<lparr>k_data_queues := [700 \<mapsto> sample_dq]\<rparr>"

text \<open>A function of the user that records the event.\<close>

definition record_event :: dq_callback where
  "record_event f q event k = Some (k\<lparr>k_errno := uint event\<rparr>)"

lemma sample_dq_simps [simp]:
  "dq_ring sample_dq" "dq_ok sample_dq" "dq_contents sample_dq = [sample_item 0, sample_item 1]" "dq_size sample_dq = 3" "dq_lwm sample_dq = 1"
  by (simp_all add: dq_ok_def dq_ring_def sample_dq_def dq_contents_def dq_count_def ring_def upt_rec)

lemma kinvx_data_queues [simp]: "kinvx X (k\<lparr>k_data_queues := D\<rparr>) = kinvx X k" "kinvx X (k\<lparr>k_errno := e\<rparr>) = kinvx X k"
  by (simp_all add: kinvx_def)

lemma dq_kernel_simps [simp]:
  "kinv dq_kernel" "k_current dq_kernel = Some 10" "k_threads dq_kernel = sample_threads" "k_irq_nest dq_kernel = 0"
  "k_data_queues dq_kernel = [700 \<mapsto> sample_dq]" "k_lists dq_kernel (DqPopQ q) = []" "k_lists dq_kernel (DqPushQ q) = []"
  using sample_kinv by (simp_all add: dq_kernel_def sample_lists_def)

lemma record_event_ok: "notify_ok record_event"
  by (simp add: notify_ok_def record_event_def)

theorem dq_refines_queue_witness:
  "fst (dq.run [Put (sample_item 2), Get, Get, Put (sample_item 3), Put (sample_item 4)] sample_dq) = [sample_item 0, sample_item 1] \<and>
   dq_contents (snd (dq.run [Put (sample_item 2), Get, Get, Put (sample_item 3), Put (sample_item 4)] sample_dq)) =
     [sample_item 2, sample_item 3, sample_item 4]"
proof -
  let ?ops = "[Put (sample_item 2), Get, Get, Put (sample_item 3), Put (sample_item 4)]"
  have "queue_spec (unat (3 :: u16)) ?ops [sample_item 0, sample_item 1] =
      ([sample_item 0, sample_item 1], [sample_item 2, sample_item 3, sample_item 4])" by simp
  moreover have "\<And>x. Urgent x \<notin> set ?ops" by simp
  from dq_refines_queue [OF sample_dq_simps(1) this]
  have "queue_spec (unat (dq_size sample_dq)) ?ops (dq_contents sample_dq) =
      (fst (dq.run ?ops sample_dq), dq_contents (snd (dq.run ?ops sample_dq)))" by (elim conjE)
  ultimately show ?thesis by (simp only: sample_dq_simps prod.inject simp_thms)
qed

theorem rt_data_queue_push_correct_witness:
  "returns (rt_data_queue_push record_event 700 0x3000 8 0 dq_kernel) (\<lambda>(r, k'). kinv k' \<and> r = Done RT_EOK)"
proof -
  have h: "k_data_queues dq_kernel 700 = Some sample_dq" "k_threads dq_kernel 10 = Some (sample_thread RT_THREAD_RUNNING 10)"
    "thread_stat (sample_thread RT_THREAD_RUNNING 10) = RT_THREAD_RUNNING" "(0 :: int) < 2 ^ 31 - 1" by simp_all
  from rt_data_queue_push_correct [OF dq_kernel_simps(1,2) h(2,3) dq_kernel_simps(4) h(1) sample_dq_simps(2) h(4) record_event_ok,
      where p = "0x3000" and sz = 8] show ?thesis
    by (rule returns_mono_pair) simp
qed

theorem rt_data_queue_pop_correct_witness:
  "returns (rt_data_queue_pop record_event 700 0 dq_kernel) (\<lambda>(r, k'). kinv k' \<and> r = Done (RT_EOK, Some (sample_item 0)))"
proof -
  have h: "k_data_queues dq_kernel 700 = Some sample_dq" "k_threads dq_kernel 10 = Some (sample_thread RT_THREAD_RUNNING 10)"
    "thread_stat (sample_thread RT_THREAD_RUNNING 10) = RT_THREAD_RUNNING" "(0 :: int) < 2 ^ 31 - 1" by simp_all
  from rt_data_queue_pop_correct [OF dq_kernel_simps(1,2) h(2,3) dq_kernel_simps(4) h(1) sample_dq_simps(2) h(4) record_event_ok]
  show ?thesis by (rule returns_mono_pair) simp
qed

theorem rt_data_queue_reset_releases_witness:
  "returns (rt_data_queue_reset 700 dq_kernel) (\<lambda>k'. kinv k' \<and> (\<exists>dq'. k_data_queues k' 700 = Some dq' \<and> dq_contents dq' = []))"
proof -
  have h: "k_data_queues dq_kernel 700 = Some sample_dq" by simp
  from rt_data_queue_reset_releases [OF dq_kernel_simps(1,2) h sample_dq_simps(2)] show ?thesis
    by (rule returns_mono) auto
qed

end
