(* ===== verification/ObjectTypes.thy ===== *)
theory ObjectTypes
  imports Boot
begin

text \<open>
  The object containers are typed.  The kernel keeps objects of every class as bare headers and casts what it finds in the container
  of a class to the structure of that class; here each sequence of initialising, detaching, creating and deleting keeps
  the invariant that makes this cast right.  Threads and timers, whose headers the kernel invariant already types, are left
  to it.
\<close>

section \<open>Typed containers\<close>

fun class_of :: "oid \<Rightarrow> u8" where
  "class_of (OThread _) = RT_Object_Class_Thread"
| "class_of (OSem _) = RT_Object_Class_Semaphore"
| "class_of (OMutex _) = RT_Object_Class_Mutex"
| "class_of (OEvent _) = RT_Object_Class_Event"
| "class_of (OMailbox _) = RT_Object_Class_MailBox"
| "class_of (OMq _) = RT_Object_Class_MessageQueue"
| "class_of (OTimer _) = RT_Object_Class_Timer"
| "class_of (ODevice _) = RT_Object_Class_Device"

definition ipc_classes :: "u8 set" where
  "ipc_classes = {RT_Object_Class_Semaphore, RT_Object_Class_Mutex, RT_Object_Class_Event, RT_Object_Class_MailBox,
     RT_Object_Class_MessageQueue, RT_Object_Class_Device}"

lemma class_of_ipc: "ipc_object obj \<longleftrightarrow> class_of obj \<in> ipc_classes"
  by (cases obj) (simp_all add: ipc_classes_def)

text \<open>
  The containers \<open>C\<close> with the headers \<open>H\<close> and the heap: a registered object is of the class of its container, in its structure and
  in its header; an object without the static flag is the only one in an allocated block, any other lies outside the heap.
\<close>

definition typed_object :: "rt_heap \<Rightarrow> blk list \<Rightarrow> (oid \<Rightarrow> rt_object option) \<Rightarrow> u8 \<Rightarrow> oid \<Rightarrow> bool" where
  "typed_object h bs H c obj \<longleftrightarrow> class_of obj = c \<and> (\<exists>ob. H obj = Some ob \<and> rt_object_get_type ob = c \<and>
     (if rt_object_is_systemobject ob then outside h (obj_addr obj) else at_block h bs (obj_addr obj)))"

definition typed_containers :: "rt_heap \<Rightarrow> blk list \<Rightarrow> (u8 \<Rightarrow> oid list) \<Rightarrow> (oid \<Rightarrow> rt_object option) \<Rightarrow> bool" where
  "typed_containers h bs C H \<longleftrightarrow> heap_rep h bs \<and> (\<forall>c \<in> ipc_classes. distinct (C c) \<and> (\<forall>obj \<in> set (C c). typed_object h bs H c obj)) \<and>
     (\<forall>c \<in> ipc_classes. \<forall>c' \<in> ipc_classes. \<forall>x \<in> set (C c). \<forall>y \<in> set (C c'). obj_addr x = obj_addr y \<longrightarrow>
        at_block h bs (obj_addr x) \<longrightarrow> x = y)"

definition objects_typed :: "kernel \<Rightarrow> bool" where
  "objects_typed k \<longleftrightarrow> kinv k \<and> k_irq_nest k = 0 \<and> k_lock_nest k < 0x7fff \<and>
     (\<exists>bs. typed_containers (k_heap k) bs (k_objects k) (\<lambda>obj. obj_header obj k))"

lemma outside_not_block: "heap_rep h bs \<Longrightarrow> outside h a \<Longrightarrow> \<not> at_block h bs a"
  using allocated_end [of h bs] by (fastforce simp: outside_def at_block_def)

text \<open>A new object, in the heap or outside of it.\<close>

lemma typed_add:
  assumes t: "typed_containers h bs C H" and c: "c \<in> ipc_classes" and new: "obj \<notin> set (C c)"
    and h': "heap_rep h' bs'" "\<And>a. outside h' a \<longleftrightarrow> outside h a" "\<And>a. at_block h bs a \<Longrightarrow> at_block h' bs' a"
      "\<And>a. at_block h' bs' a \<Longrightarrow> a \<noteq> obj_addr obj \<Longrightarrow> at_block h bs a"
    and fresh: "\<not> at_block h bs (obj_addr obj)" "outside h (obj_addr obj) \<or> \<not> outside h (obj_addr obj) \<and> at_block h' bs' (obj_addr obj)"
    and H: "\<And>x. x \<noteq> obj \<Longrightarrow> ipc_object x \<Longrightarrow> H' x = H x" and o: "typed_object h' bs' H' c obj"
  shows "typed_containers h' bs' (C(c := obj # C c)) H'"
proof -
  have old: "typed_object h bs H d x" "distinct (C d)" if "d \<in> ipc_classes" "x \<in> set (C d)" for d x
    using t that by (auto simp: typed_containers_def)
  have keep: "typed_object h' bs' H' d x" if "d \<in> ipc_classes" "typed_object h bs H d x" "x \<noteq> obj" for d x
  proof -
    have "ipc_object x" using that(1,2) by (auto simp: typed_object_def class_of_ipc)
    note e = H [OF that(3) this]
    show ?thesis using that(2) unfolding typed_object_def e h'(2) using h'(3) by metis
  qed
  have other: "obj_addr x \<noteq> obj_addr obj \<or> \<not> at_block h' bs' (obj_addr x)" if "d \<in> ipc_classes" "x \<in> set (C d)" "x \<noteq> obj" for d x
    using old(1) [OF that(1,2)] fresh outside_not_block [OF h'(1)] h'(2) by (auto simp: typed_object_def split: if_splits)
  have "x \<noteq> obj" if "d \<in> ipc_classes" "x \<in> set (C d)" for d x
    using old(1) [OF that] o new that(2) by (auto simp: typed_object_def)
  note ne = this
  have inj: "x = y" if "d \<in> ipc_classes" "e \<in> ipc_classes" "x \<in> set (C d)" "y \<in> set (C e)" "obj_addr x = obj_addr y" "at_block h' bs' (obj_addr x)" for d e x y
  proof -
    have "at_block h bs (obj_addr x)" using h'(4) [OF that(6)] other [OF that(1,3) ne [OF that(1,3)]] that(6) by auto
    then show ?thesis using t that by (auto simp: typed_containers_def)
  qed
  have d: "distinct ((C(c := obj # C c)) e)" if "e \<in> ipc_classes" for e
    using t that new by (auto simp: typed_containers_def)
  have m: "typed_object h' bs' H' e x" if "e \<in> ipc_classes" "x \<in> set ((C(c := obj # C c)) e)" for e x
    using that o keep [OF _ old(1) ne] ne by (auto split: if_splits)
  have "x = y" if "d \<in> ipc_classes" "e \<in> ipc_classes" "x \<in> set ((C(c := obj # C c)) d)" "y \<in> set ((C(c := obj # C c)) e)"
    "obj_addr x = obj_addr y" "at_block h' bs' (obj_addr x)" for d e x y
    using that inj other [OF _ _ ne] c by (auto split: if_splits) (metis+)
  then show ?thesis using h'(1) d m unfolding typed_containers_def by blast
qed

lemma typed_remove:
  assumes t: "typed_containers h bs C H" and h': "heap_rep h' bs'" "\<And>a. outside h' a \<longleftrightarrow> outside h a" "\<And>a. at_block h' bs' a \<Longrightarrow> at_block h bs a"
      "\<And>c x. c \<in> ipc_classes \<Longrightarrow> x \<in> set (C c) \<Longrightarrow> x \<noteq> obj \<Longrightarrow> at_block h bs (obj_addr x) \<Longrightarrow> at_block h' bs' (obj_addr x)"
    and H: "\<And>x. x \<noteq> obj \<Longrightarrow> ipc_object x \<Longrightarrow> H' x = H x"
  shows "typed_containers h' bs' (\<lambda>c. removeAll obj (C c)) H'"
proof -
  have "typed_object h' bs' H' c x" if "c \<in> ipc_classes" "x \<in> set (C c)" "x \<noteq> obj" for c x
  proof -
    have "typed_object h bs H c x" using t that(1,2) by (simp add: typed_containers_def)
    moreover from this have "ipc_object x" using that(1) by (auto simp: typed_object_def class_of_ipc)
    note e = H [OF that(3) this]
    ultimately show ?thesis
      unfolding typed_object_def e h'(2) using h'(4) [OF that] by metis
  qed
  then show ?thesis using t h'(1,3) unfolding typed_containers_def by (auto simp: distinct_removeAll)
qed

section \<open>Headers\<close>

lemma header_other: "x \<noteq> obj \<Longrightarrow> obj_header x (upd_header obj f k) = obj_header x k" "x \<noteq> obj \<Longrightarrow> obj_header x (drop_object obj k) = obj_header x k"
  by (cases x; cases obj; simp)+

lemma header_heap: "obj_header x (k\<lparr>k_heap := h\<rparr>) = obj_header x k"
  by (cases x) simp_all

lemma header_frames: "k_heap (upd_header obj f k) = k_heap k" "k_heap (drop_object obj k) = k_heap k" "k_irq_nest (drop_object obj k) = k_irq_nest k"
  "k_lock_nest (drop_object obj k) = k_lock_nest k" "k_objects (drop_object obj k) = k_objects k"
  by (cases obj; simp)+

lemma kinvx_drop: "ipc_object obj \<Longrightarrow> kinvx X (drop_object obj k) = kinvx X k"
  by (cases obj) (simp_all add: kinvx_def)

lemma class_bits:
  assumes "ipc_object obj"
  shows "(class_of obj OR RT_Object_Class_Static) AND NOT RT_Object_Class_Static = class_of obj" "(class_of obj OR RT_Object_Class_Static) AND RT_Object_Class_Static \<noteq> 0"
    "class_of obj AND NOT RT_Object_Class_Static = class_of obj" "class_of obj AND RT_Object_Class_Static = 0"
    "rt_object_get_information (class_of obj) \<noteq> None" "\<exists>sz. rt_object_get_information (class_of obj) = Some sz \<and> sz \<noteq> 0"
  using assms by (cases obj; simp add: rt_object_get_information_def rt_object_container_def)+

section \<open>The operations\<close>

datatype obj_op = Obj_init oid "u8 list" | Obj_detach oid | Obj_allocate u8 "u8 list" | Obj_delete oid

fun obj_step :: "obj_op \<Rightarrow> kernel \<Rightarrow> kernel option" where
  "obj_step (Obj_init obj name) k = rt_object_init obj (class_of obj) name k"
| "obj_step (Obj_detach obj) k = rt_object_detach obj k"
| "obj_step (Obj_allocate c name) k = map_option snd (rt_object_allocate c name k)"
| "obj_step (Obj_delete obj) k = rt_object_delete obj k"

definition registered :: "oid \<Rightarrow> kernel \<Rightarrow> bool" where
  "registered obj k \<longleftrightarrow> ipc_object obj \<and> obj \<in> set (k_objects k (class_of obj))"

text \<open>What the callers keep to: static storage is not taken from the heap, and only created objects are deleted.\<close>

fun admissible :: "obj_op \<Rightarrow> kernel \<Rightarrow> bool" where
  "admissible (Obj_init obj name) k = (ipc_object obj \<and> \<not> registered obj k \<and> outside (k_heap k) (obj_addr obj))"
| "admissible (Obj_detach obj) k = registered obj k"
| "admissible (Obj_allocate c name) k = (c \<in> ipc_classes)"
| "admissible (Obj_delete obj) k = (registered obj k \<and> (\<exists>ob. obj_header obj k = Some ob \<and> \<not> rt_object_is_systemobject ob))"

fun obj_run :: "obj_op list \<Rightarrow> kernel \<Rightarrow> kernel option" where
  "obj_run [] k = Some k"
| "obj_run (x # xs) k = Option.bind (obj_step x k) (obj_run xs)"

fun admissible_run :: "obj_op list \<Rightarrow> kernel \<Rightarrow> bool" where
  "admissible_run [] k = True"
| "admissible_run (x # xs) k = (admissible x k \<and> (case obj_step x k of None \<Rightarrow> True | Some k' \<Rightarrow> admissible_run xs k'))"

lemma objects_typedD:
  assumes "objects_typed k" and "registered obj k"
  shows "\<exists>ob. obj_header obj k = Some ob \<and> rt_object_get_type ob = class_of obj"
proof -
  obtain bs where "typed_containers (k_heap k) bs (k_objects k) (\<lambda>obj. obj_header obj k)" using assms(1) by (auto simp: objects_typed_def)
  moreover have "class_of obj \<in> ipc_classes" "obj \<in> set (k_objects k (class_of obj))" using assms(2) by (simp_all add: registered_def class_of_ipc)
  ultimately have "typed_object (k_heap k) bs (\<lambda>obj. obj_header obj k) (class_of obj) obj" unfolding typed_containers_def by blast
  then show ?thesis unfolding typed_object_def by blast
qed

lemma init_typed:
  assumes k: "objects_typed k" and a: "admissible (Obj_init obj name) k"
  shows "returns (rt_object_init obj (class_of obj) name k) objects_typed"
proof -
  obtain bs where i: "kinv k" "k_irq_nest k = 0" "k_lock_nest k < 0x7fff" and
    t: "typed_containers (k_heap k) bs (k_objects k) (\<lambda>obj. obj_header obj k)" using k by (auto simp: objects_typed_def)
  have o: "ipc_object obj" "obj \<notin> set (k_objects k (class_of obj))" "outside (k_heap k) (obj_addr obj)" using a by (auto simp: registered_def)
  note cl = class_bits [OF o(1)] and c = o(1) [unfolded class_of_ipc]
  let ?f = "\<lambda>ob. ob\<lparr>ob_type := class_of obj OR RT_Object_Class_Static, ob_name := rt_strncpy RT_NAME_MAX name\<rparr>"
  let ?c = "class_of obj"
  have h: "heap_rep (k_heap k) bs" using t by (simp add: typed_containers_def)
  have "objects_typed ((upd_header obj ?f k1)\<lparr>k_objects := (k_objects (upd_header obj ?f k1))(?c := obj # k_objects (upd_header obj ?f k1) ?c)\<rparr>)"
    if k1: "kinv k1" "core_frame k k1" for k1
  proof -
    note fr = core_frameD [OF k1(2)]
    obtain ob where ob: "obj_header obj (upd_header obj ?f k1) = Some (?f ob)" using obj_header_upd_header [of obj ?f k1] by auto
    have n: "typed_object (k_heap k) bs (\<lambda>x. obj_header x (upd_header obj ?f k1)) ?c obj"
      using ob cl(1,2) o(3) by (simp add: typed_object_def rt_object_get_type_def rt_object_is_systemobject_def)
    have H: "obj_header x (upd_header obj ?f k1) = obj_header x k" if "x \<noteq> obj" "ipc_object x" for x
      using that header_other(1) obj_header_frame [OF k1(2)] by simp
    have "typed_containers (k_heap k) bs ((k_objects k)(?c := obj # k_objects k ?c)) (\<lambda>x. obj_header x (upd_header obj ?f k1))"
      by (rule typed_add [OF t c o(2) h refl _ _ outside_not_block [OF h o(3)] _ H n]) (simp_all add: o(3))
    then show ?thesis using k1(1) i(2,3) fr o(1) by (auto simp: objects_typed_def header_frames)
  qed
  note st = this
  have n: "obj \<notin> set (k_objects (rt_enter_critical k) ?c)" using o(2) by (simp add: rt_enter_critical_def)
  show ?thesis
    unfolding rt_object_init_def using cl(5) n
    by (simp del: upd_header_frame) (rule returns_mono [OF critical_pair_returns [OF i(1,3)]], rule st, simp_all)
qed

lemma detach_typed:
  assumes k: "objects_typed k" and a: "admissible (Obj_detach obj) k"
  shows "returns (rt_object_detach obj k) objects_typed"
proof -
  obtain bs where i: "kinv k" "k_irq_nest k = 0" "k_lock_nest k < 0x7fff" and
    t: "typed_containers (k_heap k) bs (k_objects k) (\<lambda>obj. obj_header obj k)" using k by (auto simp: objects_typed_def)
  have o: "ipc_object obj" using a by (simp add: registered_def)
  obtain ob where ob: "obj_header obj k = Some ob" using objects_typedD [OF k] a by auto
  have h: "heap_rep (k_heap k) bs" using t by (simp add: typed_containers_def)
  have "typed_containers (k_heap k) bs (\<lambda>c. removeAll obj (k_objects k c)) (\<lambda>x. obj_header x (upd_header obj (\<lambda>ob. ob\<lparr>ob_type := 0\<rparr>) k))"
    by (rule typed_remove [OF t h refl]) (simp_all add: header_other)
  then show ?thesis using ob i o by (auto simp: rt_object_detach_def objects_typed_def header_frames)
qed

lemma delete_typed:
  assumes k: "objects_typed k" and a: "admissible (Obj_delete obj) k"
  shows "returns (rt_object_delete obj k) objects_typed"
proof -
  obtain bs where i: "kinv k" "k_irq_nest k = 0" "k_lock_nest k < 0x7fff" and
    t: "typed_containers (k_heap k) bs (k_objects k) (\<lambda>obj. obj_header obj k)" using k by (auto simp: objects_typed_def)
  obtain ob where ob: "obj_header obj k = Some ob" "\<not> rt_object_is_systemobject ob" and r: "registered obj k" using a by auto
  have o: "class_of obj \<in> ipc_classes" "obj \<in> set (k_objects k (class_of obj))" "ipc_object obj" using r by (simp_all add: registered_def class_of_ipc)
  have h: "heap_rep (k_heap k) bs" using t by (simp add: typed_containers_def)
  have "typed_object (k_heap k) bs (\<lambda>obj. obj_header obj k) (class_of obj) obj" using t o unfolding typed_containers_def by blast
  then have at: "at_block (k_heap k) bs (obj_addr obj)" using ob by (simp add: typed_object_def)
  let ?C = "\<lambda>c. removeAll obj (k_objects k c)"
  have "objects_typed (drop_object obj (k\<lparr>k_objects := ?C, k_heap := h'\<rparr>))"
    if h': "heap_rep h' bs'" "hp_ptr h' = hp_ptr (k_heap k)" "hp_end h' = hp_end (k_heap k)" "\<forall>b. at_block h' bs' b \<longleftrightarrow> at_block (k_heap k) bs b \<and> b \<noteq> obj_addr obj" for h' bs'
  proof -
    have "typed_containers h' bs' ?C (\<lambda>x. obj_header x (drop_object obj (k\<lparr>k_objects := ?C, k_heap := h'\<rparr>)))"
    proof (rule typed_remove [OF t h'(1)])
      show "at_block h' bs' (obj_addr x)" if "c \<in> ipc_classes" "x \<in> set (k_objects k c)" "x \<noteq> obj" "at_block (k_heap k) bs (obj_addr x)" for c x
      proof -
        have "obj_addr x \<noteq> obj_addr obj" using t that o(1,2) unfolding typed_containers_def by blast
        then show ?thesis using h'(4) that(4) by simp
      qed
    qed (use h' in \<open>simp_all add: outside_def header_other header_heap\<close>)
    then show ?thesis using i o(3) by (auto simp: objects_typed_def header_frames kinvx_drop)
  qed
  note st = this
  show ?thesis
    unfolding rt_object_delete_def using ob i(2)
    by (simp add: rt_object_is_systemobject_def) (rule returns_mono [OF free_block [OF h at]], use st in auto)
qed

lemma allocate_typed:
  assumes k: "objects_typed k" and c: "c \<in> ipc_classes"
  shows "returns (rt_object_allocate c name k) (\<lambda>(r, k'). objects_typed k')"
proof -
  obtain bs where i: "kinv k" "k_irq_nest k = 0" "k_lock_nest k < 0x7fff" and
    t: "typed_containers (k_heap k) bs (k_objects k) (\<lambda>obj. obj_header obj k)" using k by (auto simp: objects_typed_def)
  have h: "heap_rep (k_heap k) bs" using t by (simp add: typed_containers_def)
  obtain mk where mk: "\<And>a. obj_at c a = Some (mk a)" "\<And>a. class_of (mk a) = c" "\<And>a. obj_addr (mk a) = a" "\<And>a. ipc_object (mk a)"
    using c unfolding ipc_classes_def
    by (auto simp: obj_at_def intro: that [of OSem] that [of OMutex] that [of OEvent] that [of OMailbox] that [of OMq] that [of ODevice])
  obtain sz where sz: "rt_object_get_information c = Some sz" "sz \<noteq> 0" using class_bits(6) [OF mk(4)] mk(2) by auto
  obtain r h' where m: "rt_malloc sz (k_irq_nest k) (k_heap k) = Some (r, h')" "malloc_result sz bs k r h'"
    using malloc_new [OF h i(2) sz(2)] by (auto simp: returns_def)
  show ?thesis
  proof (cases r)
    case None
    then show ?thesis using m i(2) sz(1) k by (simp add: rt_object_allocate_def malloc_result_def)
  next
    case (Some a)
    then obtain bs' where n: "new_block bs k bs' h' a" using m(2) by (auto simp: malloc_result_def)
    let ?o = "mk a" and ?ob = "\<lparr>ob_name = rt_strncpy RT_NAME_MAX name, ob_type = c, ob_flag = 0\<rparr>"
    let ?k = "fresh_object c ?o name (k\<lparr>k_heap := h'\<rparr>)"
    have fr: "\<not> at_block (k_heap k) bs a" "\<not> outside (k_heap k) a" "at_block h' bs' a" using n by (simp_all add: new_block_def)
    have new: "?o \<notin> set (k_objects k c)"
    proof
      assume "?o \<in> set (k_objects k c)"
      then have "typed_object (k_heap k) bs (\<lambda>obj. obj_header obj k) c ?o" using t c unfolding typed_containers_def by blast
      then show False using fr by (auto simp: typed_object_def mk split: if_splits)
    qed
    have b: "c AND NOT RT_Object_Class_Static = c" "c AND RT_Object_Class_Static = 0" using class_bits(3,4) [OF mk(4) [of a]] mk(2) by simp_all
    obtain x where "obj_header ?o ?k = Some x" "x = ?ob"
      using obj_header_upd_header [of ?o "\<lambda>_. ?ob" "drop_object ?o (k\<lparr>k_heap := h'\<rparr>)"] by (auto simp: fresh_object_def)
    then have o: "typed_object h' bs' (\<lambda>x. obj_header x ?k) c ?o"
      using fr b by (simp add: typed_object_def mk rt_object_get_type_def rt_object_is_systemobject_def)
    have "typed_containers h' bs' ((k_objects k)(c := ?o # k_objects k c)) (\<lambda>x. obj_header x ?k)"
    proof (rule typed_add [OF t c new _ _ _ _ _ _ _ o])
      show "obj_header x ?k = obj_header x k" if "x \<noteq> ?o" for x using that by (simp add: fresh_object_def header_other header_heap)
    qed (use n fr in \<open>auto simp: new_block_def outside_def mk\<close>)
    then have "objects_typed ?k"
      using i mk(4) by (auto simp: objects_typed_def fresh_object_def header_frames kinvx_drop)
    then show ?thesis using Some m(1) sz(1) i(2) by (simp add: rt_object_allocate_def mk fresh_object_def fresh_objects)
  qed
qed

lemma step_typed:
  assumes "objects_typed k" and "admissible x k"
  shows "returns (obj_step x k) objects_typed"
proof (cases x)
  case (Obj_allocate c name)
  then show ?thesis using allocate_typed [OF assms(1), of c name] assms(2) by (force simp: returns_def)
qed (use assms init_typed detach_typed delete_typed in auto)

lemma run_typed: "objects_typed k \<Longrightarrow> admissible_run ops k \<Longrightarrow> returns (obj_run ops k) objects_typed"
proof (induction ops arbitrary: k)
  case (Cons x xs)
  obtain k' where "obj_step x k = Some k'" "objects_typed k'" using step_typed [OF Cons.prems(1), of x] Cons.prems(2) by (auto simp: returns_def)
  then show ?case using Cons.IH [of k'] Cons.prems(2) by simp
qed simp

section \<open>Finding objects\<close>

lemma find_typed:
  assumes k: "objects_typed k" and c: "c \<in> ipc_classes"
  shows "returns (rt_object_find name c k) (\<lambda>(r, k'). objects_typed k' \<and>
    (\<forall>obj. r = Some obj \<longrightarrow> class_of obj = c \<and> (\<exists>ob. obj_header obj k' = Some ob \<and> rt_object_get_type ob = c \<and>
      rt_strncmp (ob_name ob) name RT_NAME_MAX = 0)))"
proof -
  obtain bs where i: "kinv k" "k_irq_nest k = 0" "k_lock_nest k < 0x7fff" and
    t: "typed_containers (k_heap k) bs (k_objects k) (\<lambda>obj. obj_header obj k)" using k by (auto simp: objects_typed_def)
  have inf: "rt_object_get_information c \<noteq> None" using c by (auto simp: ipc_classes_def rt_object_get_information_def rt_object_container_def)
  show ?thesis
  proof (rule returns_mono_pair [OF rt_object_find_returns [OF i inf, of name]], elim conjE)
    fix r k' assume r: "r = find (named name k) (k_objects k c)" and k': "kinv k'" "core_frame k k'"
    have H: "obj_header x k' = obj_header x k" if "ipc_object x" for x using obj_header_frame [OF k'(2) that] .
    have T: "typed_object (k_heap k) bs (\<lambda>obj. obj_header obj k') d x \<longleftrightarrow> typed_object (k_heap k) bs (\<lambda>obj. obj_header obj k) d x" if "d \<in> ipc_classes" for d x
      using that H class_of_ipc by (auto simp: typed_object_def)
    have "typed_containers (k_heap k) bs (k_objects k) (\<lambda>obj. obj_header obj k')" using t T unfolding typed_containers_def by blast
    then have "objects_typed k'" using k'(1) i(2,3) core_frameD [OF k'(2)] by (auto simp: objects_typed_def)
    moreover have "class_of obj = c \<and> (\<exists>ob. obj_header obj k' = Some ob \<and> rt_object_get_type ob = c \<and> rt_strncmp (ob_name ob) name RT_NAME_MAX = 0)" if "r = Some obj" for obj
    proof -
      have f: "obj \<in> set (k_objects k c)" "named name k obj" using that r by (auto simp: find_Some_iff)
      then have ty: "typed_object (k_heap k) bs (\<lambda>obj. obj_header obj k) c obj" using t c unfolding typed_containers_def by blast
      then have "ipc_object obj" using c by (auto simp: typed_object_def class_of_ipc)
      then show ?thesis using ty f(2) H by (auto simp: typed_object_def named_def rt_strncmp_eq)
    qed
    ultimately show "objects_typed k' \<and> (\<forall>obj. r = Some obj \<longrightarrow> class_of obj = c \<and> (\<exists>ob. obj_header obj k' = Some ob \<and>
        rt_object_get_type ob = c \<and> rt_strncmp (ob_name ob) name RT_NAME_MAX = 0))" by blast
  qed
qed

text \<open>
  C37. Objects are of the class they are registered under: after every sequence of initialising, detaching, creating and deleting
  semaphores, mutexes, events, mailboxes, message queues and devices - static ones outside the heap, deletion of created
  ones only - all the calls have returned, and \<^verbatim>\<open>rt_object_find\<close> for a class returns nothing or an object whose structure and
  whose header are of that class and whose name is the one asked for; the created objects are in allocated blocks of their own.
\<close>

theorem object_run_typed:
  assumes "objects_typed k" and "admissible_run ops k" and "c \<in> ipc_classes"
  shows "returns (Option.bind (obj_run ops k) (rt_object_find name c)) (\<lambda>(r, k'). objects_typed k' \<and>
    (\<forall>obj. r = Some obj \<longrightarrow> class_of obj = c \<and> (\<exists>ob. obj_header obj k' = Some ob \<and> rt_object_get_type ob = c \<and>
      rt_strncmp (ob_name ob) name RT_NAME_MAX = 0)))"
  by (rule returns_bindI [OF run_typed [OF assms(1,2)]]) (rule find_typed [OF _ assms(3)])

text \<open>A static semaphore, a created event, and a search for an event of that name.\<close>

lemma sample_objects_typed: "objects_typed (sample_kernel\<lparr>k_heap := sample_heap\<rparr>)"
proof -
  have "typed_containers sample_heap [(0, 4084, False)] (\<lambda>_. []) H" for H using sample_heap_rep by (simp add: typed_containers_def)
  then show ?thesis using sample_kinv by (auto simp: objects_typed_def sample_kernel_def kinvx_def)
qed

theorem object_run_typed_witness:
  "\<exists>r k'. Option.bind (obj_run [Obj_init (OSem 102) [115], Obj_allocate RT_Object_Class_Event [115]] (sample_kernel\<lparr>k_heap := sample_heap\<rparr>))
      (rt_object_find [115] RT_Object_Class_Event) = Some (r, k') \<and> objects_typed k' \<and> (\<forall>obj. r = Some obj \<longrightarrow> class_of obj = RT_Object_Class_Event)"
proof -
  have a: "admissible_run [Obj_init (OSem 102) [115], Obj_allocate RT_Object_Class_Event [115]] (sample_kernel\<lparr>k_heap := sample_heap\<rparr>)"
    by (simp add: registered_def outside_def sample_heap_fields ipc_classes_def split: option.split) (simp add: sample_kernel_def)
  have c: "RT_Object_Class_Event \<in> ipc_classes" by (simp add: ipc_classes_def)
  show ?thesis using object_run_typed [OF sample_objects_typed a c, of "[115]"] by (fastforce simp: returns_def)
qed

end
