(* ===== verification/ContextSwitch.thy ===== *)
theory ContextSwitch
  imports Prelude
begin

text \<open>
  The context switch of the port (\<^verbatim>\<open>libcpu/cpu/cpuport.c\<close>, \<^verbatim>\<open>context_gcc.S\<close>, \<^verbatim>\<open>interrupt_gcc.S\<close>) on the registers and the memory of the
  processor: what the scheduler's choice of a current thread means for the code that runs.  Memory is a map of the aligned
  addresses to words; the three variables of the port are components of their own.  The addresses that \<^verbatim>\<open>la\<close> loads are
  left out, since the register is overwritten before it is used otherwise; the floating point registers are switched off in \<^verbatim>\<open>cpuport.h\<close>.
  The hardware's part - entering a trap and \<^verbatim>\<open>mret\<close> - is that of the RISC-V privileged architecture.
\<close>

unbundle bit_operations_syntax

section \<open>The processor\<close>

text \<open>\<open>mc_regs\<close> is indexed by the numbers of the registers, 2 is \<^verbatim>\<open>sp\<close>.\<close>

record processor =
  mc_regs :: "nat \<Rightarrow> u32"
  mc_pc :: u32
  mc_mode :: u32
  mc_mstatus :: u32
  mc_mepc :: u32
  mc_mscratch :: u32
  mc_intsyscr :: u32
  mc_systick_ctlr :: u32
  mc_mem :: "u32 \<Rightarrow> u32"
  rt_interrupt_from_thread :: u32
  rt_interrupt_to_thread :: u32
  rt_thread_switch_interrupt_flag :: u32

abbreviation MSTATUS_MIE :: u32 where "MSTATUS_MIE \<equiv> 0x8"
abbreviation MSTATUS_MPIE :: u32 where "MSTATUS_MPIE \<equiv> 0x80"
abbreviation MSTATUS_MPP :: u32 where "MSTATUS_MPP \<equiv> 0x1800"
abbreviation ra :: nat where "ra \<equiv> 1"
abbreviation sp :: nat where "sp \<equiv> 2"
abbreviation t0 :: nat where "t0 \<equiv> 5"
abbreviation s1 :: nat where "s1 \<equiv> 9"
abbreviation a0 :: nat where "a0 \<equiv> 10"
abbreviation a1 :: nat where "a1 \<equiv> 11"
abbreviation s2 :: nat where "s2 \<equiv> 18"

abbreviation set_reg :: "nat \<Rightarrow> u32 \<Rightarrow> processor \<Rightarrow> processor" where
  "set_reg i v m \<equiv> m\<lparr>mc_regs := (mc_regs m)(i := v)\<rparr>"

text \<open>Word \<open>k\<close> of the frame at \<open>f\<close>; \<^verbatim>\<open>STORE\<close> and \<^verbatim>\<open>LOAD\<close> of register \<open>i\<close> relative to \<^verbatim>\<open>sp\<close>.\<close>

definition word_of :: "u32 \<Rightarrow> nat \<Rightarrow> u32" where
  "word_of f k = f + 4 * of_nat k"

definition store_reg :: "nat \<Rightarrow> nat \<Rightarrow> processor \<Rightarrow> processor" where
  "store_reg i k m = m\<lparr>mc_mem := (mc_mem m)(word_of (mc_regs m sp) k := mc_regs m i)\<rparr>"

definition load_reg :: "nat \<Rightarrow> nat \<Rightarrow> processor \<Rightarrow> processor" where
  "load_reg i k m = set_reg i (mc_mem m (word_of (mc_regs m sp) k)) m"

definition trap_entry :: "processor \<Rightarrow> processor" where
  "trap_entry m = m\<lparr>mc_mepc := mc_pc m, mc_mode := 3,
     mc_mstatus := (mc_mstatus m AND NOT (MSTATUS_MIE OR MSTATUS_MPIE OR MSTATUS_MPP)) OR
       (if mc_mstatus m AND MSTATUS_MIE \<noteq> 0 then MSTATUS_MPIE else 0) OR push_bit 11 (mc_mode m AND 3)\<rparr>"

definition mret :: "processor \<Rightarrow> processor" where
  "mret m = m\<lparr>mc_pc := mc_mepc m, mc_mode := drop_bit 11 (mc_mstatus m) AND 3,
     mc_mstatus := (mc_mstatus m AND NOT (MSTATUS_MIE OR MSTATUS_MPP)) OR MSTATUS_MPIE OR
       (if mc_mstatus m AND MSTATUS_MPIE \<noteq> 0 then MSTATUS_MIE else 0)\<rparr>"

section \<open>cpuport.c\<close>

definition FRAME_SIZE :: u32 where
  "FRAME_SIZE = 128"

text \<open>The loop of \<^verbatim>\<open>rt_hw_stack_init\<close> fills the words of the frame; the result is the value for the thread's \<^verbatim>\<open>sp\<close>.\<close>

definition rt_hw_stack_init :: "u32 \<Rightarrow> u32 \<Rightarrow> u32 \<Rightarrow> u32 \<Rightarrow> processor \<Rightarrow> u32 \<times> processor" where
  "rt_hw_stack_init tentry parameter stack_addr texit m =
     (let stk = ((stack_addr + 4) AND NOT 3) - FRAME_SIZE;
          mem = fold (\<lambda>i mem. mem(word_of stk i := 0xdeadbeef)) [0..<32] (mc_mem m);
          mem = mem(word_of stk 1 := texit);
          mem = mem(word_of stk 10 := parameter);
          mem = mem(word_of stk 0 := tentry);
          mem = mem(word_of stk 2 := 0x00007880)
      in (stk, m\<lparr>mc_mem := mem\<rparr>))"

definition sw_setpend :: "processor \<Rightarrow> processor" where
  "sw_setpend m = m\<lparr>mc_systick_ctlr := mc_systick_ctlr m OR push_bit 31 1\<rparr>"

definition sw_clearpend :: "processor \<Rightarrow> processor" where
  "sw_clearpend m = m\<lparr>mc_systick_ctlr := mc_systick_ctlr m AND NOT (push_bit 31 1)\<rparr>"

definition rt_hw_interrupt_disable :: "processor \<Rightarrow> u32 \<times> processor" where
  "rt_hw_interrupt_disable m = (mc_mstatus m, m\<lparr>mc_mstatus := 0x7800\<rparr>)"

definition rt_hw_interrupt_enable :: "u32 \<Rightarrow> processor \<Rightarrow> processor" where
  "rt_hw_interrupt_enable level m = m\<lparr>mc_mstatus := level\<rparr>"

definition rt_hw_context_switch_interrupt :: "u32 \<Rightarrow> u32 \<Rightarrow> processor \<Rightarrow> processor" where
  "rt_hw_context_switch_interrupt from to m =
     (let m = (if rt_thread_switch_interrupt_flag m = 0 then m\<lparr>rt_interrupt_from_thread := from\<rparr> else m);
          m = m\<lparr>rt_interrupt_to_thread := to\<rparr>;
          m = m\<lparr>rt_thread_switch_interrupt_flag := 1\<rparr>
      in sw_setpend m)"

section \<open>context_gcc.S and interrupt_gcc.S\<close>

definition rt_hw_context_switch_exit :: "processor \<Rightarrow> processor" where
  "rt_hw_context_switch_exit m =
     (let m = load_reg a0 0 m;
          m = m\<lparr>mc_mepc := mc_regs m a0\<rparr>;
          m = load_reg ra 1 m;
          m = set_reg a0 0x7800 m;
          m = m\<lparr>mc_mstatus := mc_mstatus m OR mc_regs m a0\<rparr>;
          m = load_reg a0 2 m;
          m = m\<lparr>mc_mstatus := mc_mstatus m OR mc_regs m a0\<rparr>;
          m = fold (\<lambda>i. load_reg i i) [4..<32] m;
          m = set_reg sp (mc_regs m sp + 32 * 4) m
      in mret m)"

definition rt_hw_context_switch_to :: "u32 \<Rightarrow> processor \<Rightarrow> processor" where
  "rt_hw_context_switch_to eusrstack m =
     (let m = set_reg t0 eusrstack m;
          m = set_reg t0 (mc_regs m t0 + - 512) m;
          m = m\<lparr>mc_mscratch := mc_regs m t0\<rparr>;
          m = set_reg sp (mc_mem m (mc_regs m a0)) m;
          m = load_reg a0 2 m;
          m = m\<lparr>mc_mstatus := mc_regs m a0\<rparr>
      in rt_hw_context_switch_exit m)"

definition rt_hw_context_switch :: "processor \<Rightarrow> processor" where
  "rt_hw_context_switch m =
     (let m = set_reg sp (mc_regs m sp + - 32 * 4) m;
          m = m\<lparr>mc_mem := (mc_mem m)(mc_regs m a0 := mc_regs m sp)\<rparr>;
          m = store_reg ra 0 m;
          m = store_reg ra 1 m;
          m = store_reg t0 5 m;
          m = set_reg t0 (mc_mstatus m) m;
          m = set_reg t0 (mc_regs m t0 AND 8) m;
          m = (if mc_regs m t0 = 0 then m else set_reg t0 0x80 m);
          m = store_reg t0 2 m;
          m = store_reg 4 4 m;
          m = fold (\<lambda>i. store_reg i i) [6..<32] m;
          m = set_reg sp (mc_mem m (mc_regs m a1)) m
      in rt_hw_context_switch_exit m)"

text \<open>
  The handler of the software interrupt.  \<open>call n\<close> is what the compiled code of its \<open>n\<close>th call (\<^verbatim>\<open>rt_interrupt_enter\<close>,
  \<^verbatim>\<open>sw_clearpend\<close>, \<^verbatim>\<open>rt_interrupt_leave\<close>) does to the registers and to the stack of the interrupts.
\<close>

definition swap_sp :: "processor \<Rightarrow> processor" where
  "swap_sp m = (set_reg sp (mc_mscratch m) m)\<lparr>mc_mscratch := mc_regs m sp\<rparr>"

definition SW_save :: "processor \<Rightarrow> processor" where
  "SW_save m =
     (let m = set_reg sp (mc_regs m sp + - 32 * 4) m;
          m = store_reg t0 5 m;
          m = set_reg t0 0x80 m;
          m = store_reg t0 2 m;
          m = set_reg t0 0x20 m;
          m = m\<lparr>mc_intsyscr := mc_intsyscr m OR mc_regs m t0\<rparr>;
          m = store_reg ra 1 m;
          m = store_reg 4 4 m
      in fold (\<lambda>i. store_reg i i) [6..<32] m)"

definition SW_calls :: "(nat \<Rightarrow> processor \<Rightarrow> processor) \<Rightarrow> processor \<Rightarrow> processor" where
  "SW_calls call m =
     (let m = swap_sp m;
          m = call 0 m;
          m = call 1 (sw_clearpend m);
          m = call 2 m
      in swap_sp m)"

definition SW_switch :: "processor \<Rightarrow> processor" where
  "SW_switch m =
     (let m = set_reg s2 (rt_thread_switch_interrupt_flag m) m in
      if mc_regs m s2 = 0 then m
      else
        let m = m\<lparr>rt_thread_switch_interrupt_flag := 0\<rparr>;
            m = set_reg a0 (mc_mepc m) m;
            m = store_reg a0 0 m;
            m = set_reg s1 (rt_interrupt_from_thread m) m;
            m = m\<lparr>mc_mem := (mc_mem m)(mc_regs m s1 := mc_regs m sp)\<rparr>;
            m = set_reg s1 (rt_interrupt_to_thread m) m;
            m = set_reg sp (mc_mem m (mc_regs m s1)) m;
            m = load_reg a0 0 m
        in m\<lparr>mc_mepc := mc_regs m a0\<rparr>)"

definition SW_restore :: "processor \<Rightarrow> processor" where
  "SW_restore m =
     (let m = load_reg ra 1 m;
          m = set_reg t0 0x7800 m;
          m = m\<lparr>mc_mstatus := mc_mstatus m OR mc_regs m t0\<rparr>;
          m = load_reg t0 2 m;
          m = m\<lparr>mc_mstatus := mc_mstatus m OR mc_regs m t0\<rparr>;
          m = fold (\<lambda>i. load_reg i i) [4..<32] m;
          m = set_reg sp (mc_regs m sp + 32 * 4) m
      in mret m)"

definition SW_handler :: "(nat \<Rightarrow> processor \<Rightarrow> processor) \<Rightarrow> processor \<Rightarrow> processor" where
  "SW_handler call m = SW_restore (SW_switch (SW_calls call (SW_save m)))"

section \<open>Frames\<close>

definition frame :: "u32 \<Rightarrow> u32 set" where
  "frame f = word_of f ` {..<32}"

lemma word_of_inj: "i < 32 \<Longrightarrow> j < 32 \<Longrightarrow> word_of f i = word_of f j \<longleftrightarrow> i = j"
proof -
  have u: "unat (4 * of_nat k :: u32) = 4 * k" if "k < 32" for k
    using that by (simp add: unat_word_ariths unat_of_nat)
  assume "i < 32" "j < 32"
  then show ?thesis unfolding word_of_def by (metis add_left_cancel mult_cancel_left u zero_neq_numeral)
qed

lemma word_of_0 [simp]: "word_of f 0 = f"
  by (simp add: word_of_def)

lemma word_of_frame [simp]: "i < 32 \<Longrightarrow> word_of f i \<in> frame f"
  by (simp add: frame_def)

lemma frame_self [simp]: "f \<in> frame f"
  using word_of_frame [of 0 f] by simp

lemma frame_bounds: "a \<in> frame f \<Longrightarrow> unat f + 128 \<le> 2 ^ 32 \<Longrightarrow> unat f \<le> unat a \<and> unat a < unat f + 128"
  by (auto simp: frame_def word_of_def unat_word_ariths unat_of_nat)

text \<open>The registers that a context switch saves: all but \<^verbatim>\<open>zero\<close>, \<^verbatim>\<open>sp\<close> and \<^verbatim>\<open>gp\<close>, which is the same for all threads.\<close>

definition saved_reg :: "nat \<Rightarrow> bool" where
  "saved_reg i \<longleftrightarrow> i = ra \<or> 4 \<le> i \<and> i < 32"

lemma fold_store:
  assumes "distinct is" and "set is \<subseteq> {3..<32}"
  obtains mem where "fold (\<lambda>i. store_reg i i) is m = m\<lparr>mc_mem := mem\<rparr>"
    "\<And>i. i < 32 \<Longrightarrow> mem (word_of (mc_regs m sp) i) = (if i \<in> set is then mc_regs m i else mc_mem m (word_of (mc_regs m sp) i))"
    "\<And>a. a \<notin> frame (mc_regs m sp) \<Longrightarrow> mem a = mc_mem m a"
  using assms
proof (induction "is" arbitrary: thesis rule: rev_induct)
  case Nil
  show ?case by (rule Nil.prems(1) [of "mc_mem m"]) simp_all
next
  case (snoc k ks)
  have k: "k < 32" "k \<notin> set ks" using snoc.prems by auto
  obtain mem where m: "fold (\<lambda>i. store_reg i i) ks m = m\<lparr>mc_mem := mem\<rparr>"
    "\<And>i. i < 32 \<Longrightarrow> mem (word_of (mc_regs m sp) i) = (if i \<in> set ks then mc_regs m i else mc_mem m (word_of (mc_regs m sp) i))"
    "\<And>a. a \<notin> frame (mc_regs m sp) \<Longrightarrow> mem a = mc_mem m a" using snoc.IH snoc.prems by auto
  show ?case
  proof (rule snoc.prems(1))
    show "fold (\<lambda>i. store_reg i i) (ks @ [k]) m = m\<lparr>mc_mem := mem(word_of (mc_regs m sp) k := mc_regs m k)\<rparr>"
      by (simp add: m(1) store_reg_def)
  qed (use m(2,3) k word_of_inj [OF _ k(1)] in auto)
qed

lemma fold_load:
  assumes "sp \<notin> set is"
  shows "fold (\<lambda>i. load_reg i i) is m = m\<lparr>mc_regs := (\<lambda>i. if i \<in> set is then mc_mem m (word_of (mc_regs m sp) i) else mc_regs m i)\<rparr>"
  using assms
proof (induction "is" rule: rev_induct)
  case (snoc k ks)
  let ?g = "\<lambda>i. if i \<in> set ks then mc_mem m (word_of (mc_regs m sp) i) else mc_regs m i"
  have "fold (\<lambda>i. load_reg i i) ks m = m\<lparr>mc_regs := ?g\<rparr>" using snoc by simp
  then have "fold (\<lambda>i. load_reg i i) (ks @ [k]) m = m\<lparr>mc_regs := ?g(k := mc_mem m (word_of (?g sp) k))\<rparr>" by (simp add: load_reg_def)
  moreover have "?g sp = mc_regs m sp" using snoc.prems by simp
  moreover have "?g(k := mc_mem m (word_of (mc_regs m sp) k)) = (\<lambda>i. if i \<in> set (ks @ [k]) then mc_mem m (word_of (mc_regs m sp) i) else mc_regs m i)"
    by (auto simp: fun_eq_iff)
  ultimately show ?case by simp
qed simp

lemma load_all: "fold (\<lambda>i. load_reg i i) [4..<32] m =
    m\<lparr>mc_regs := (\<lambda>i. if 4 \<le> i \<and> i < 32 then mc_mem m (word_of (mc_regs m sp) i) else mc_regs m i)\<rparr>"
  using fold_load [of "[4..<32]" m] by (simp del: upt_conv_Cons_Cons upt_Suc upt_rec_numeral)

section \<open>Contexts of threads\<close>

text \<open>What a thread computes with, in the registers and in a frame.\<close>

record ctx =
  cx_regs :: "nat \<Rightarrow> u32"
  cx_sp :: u32
  cx_pc :: u32

definition live_ctx :: "processor \<Rightarrow> ctx" where
  "live_ctx m = \<lparr>cx_regs = (\<lambda>i. if saved_reg i then mc_regs m i else 0), cx_sp = mc_regs m sp, cx_pc = mc_pc m\<rparr>"

definition stored :: "(u32 \<Rightarrow> u32) \<Rightarrow> u32 \<Rightarrow> ctx" where
  "stored mem f = \<lparr>cx_regs = (\<lambda>i. if saved_reg i then mem (word_of f i) else 0), cx_sp = f + FRAME_SIZE, cx_pc = mem (word_of f 0)\<rparr>"

definition returned :: "ctx \<Rightarrow> ctx" where
  "returned c = c\<lparr>cx_pc := cx_regs c ra\<rparr>"

lemma stored_cong:
  assumes "\<And>a. a \<in> frame f \<Longrightarrow> mem' a = mem a"
  shows "stored mem' f = stored mem f"
proof -
  have "mem' (word_of f i) = mem (word_of f i)" if "i < 32" for i using assms that by simp
  then show ?thesis by (auto simp: stored_def saved_reg_def fun_eq_iff simp del: word_of_0)
qed

lemma exit_live: "live_ctx (rt_hw_context_switch_exit m) = stored (mc_mem m) (mc_regs m sp)"
  unfolding rt_hw_context_switch_exit_def Let_def load_all
  by (auto simp: load_reg_def mret_def live_ctx_def stored_def saved_reg_def FRAME_SIZE_def fun_eq_iff)

text \<open>The first switch starts the thread from its frame, with the stack of the interrupts at the end of the memory.\<close>

lemma switch_to_starts:
  "live_ctx (rt_hw_context_switch_to eusrstack m) = stored (mc_mem m) (mc_mem m (mc_regs m a0))"
  "mc_mscratch (rt_hw_context_switch_to eusrstack m) = eusrstack - 512"
  unfolding rt_hw_context_switch_to_def Let_def
  by (simp_all add: exit_live load_reg_def) (simp add: rt_hw_context_switch_exit_def Let_def load_all load_reg_def mret_def)

section \<open>Where the threads are\<close>

text \<open>The field \<^verbatim>\<open>sp\<close> of each thread, its stack and the stack of the interrupts, as sets of addresses.\<close>

record thread_layout =
  ly_threads :: "nat set"
  ly_slot :: "nat \<Rightarrow> u32"
  ly_stack :: "nat \<Rightarrow> u32 set"
  ly_istack :: "u32 set"

definition layout_ok :: "thread_layout \<Rightarrow> bool" where
  "layout_ok L \<longleftrightarrow> inj_on (ly_slot L) (ly_threads L) \<and>
     (\<forall>t \<in> ly_threads L. ly_slot L t \<notin> ly_istack L \<and> ly_stack L t \<inter> ly_istack L = {} \<and>
        (\<forall>u \<in> ly_threads L. ly_slot L t \<notin> ly_stack L u \<and> (t \<noteq> u \<longrightarrow> ly_stack L t \<inter> ly_stack L u = {})))"

definition cpu_ok :: "thread_layout \<Rightarrow> nat \<Rightarrow> processor \<Rightarrow> bool" where
  "cpu_ok L cur m \<longleftrightarrow> layout_ok L \<and> cur \<in> ly_threads L \<and> frame (mc_regs m sp - FRAME_SIZE) \<subseteq> ly_stack L cur \<and>
     (\<forall>t \<in> ly_threads L. t \<noteq> cur \<longrightarrow> frame (mc_mem m (ly_slot L t)) \<subseteq> ly_stack L t) \<and>
     rt_thread_switch_interrupt_flag m = 0 \<and> mc_mode m = 3"

definition context_of :: "thread_layout \<Rightarrow> nat \<Rightarrow> processor \<Rightarrow> nat \<Rightarrow> ctx" where
  "context_of L cur m t = (if t = cur then live_ctx m else stored (mc_mem m) (mc_mem m (ly_slot L t)))"

text \<open>The memory of a thread: its stack and its \<^verbatim>\<open>sp\<close>.\<close>

definition same_memory :: "thread_layout \<Rightarrow> nat set \<Rightarrow> (u32 \<Rightarrow> u32) \<Rightarrow> (u32 \<Rightarrow> u32) \<Rightarrow> bool" where
  "same_memory L T mem mem' \<longleftrightarrow> (\<forall>t \<in> T. mem' (ly_slot L t) = mem (ly_slot L t) \<and> (\<forall>a \<in> ly_stack L t. mem' a = mem a))"

lemma same_memory_stored:
  assumes "same_memory L T mem mem'" and "t \<in> T" and "frame (mem (ly_slot L t)) \<subseteq> ly_stack L t"
  shows "stored mem' (mem' (ly_slot L t)) = stored mem (mem (ly_slot L t))"
  using assms stored_cong [of "mem (ly_slot L t)" mem' mem] unfolding same_memory_def by (metis subsetD)

text \<open>
  Every switch ends like this: the frame of the thread that loses the processor is at \<open>f\<close> in its stack, with the contents \<open>c\<close>, and the
  thread \<open>t\<close> gets the processor with what is in its frame.
\<close>

lemma switch_contexts:
  assumes ok: "cpu_ok L cur m" and t: "t \<in> ly_threads L" and f: "f = mc_regs m sp - FRAME_SIZE"
    and mem: "same_memory L (ly_threads L - {cur}) (mc_mem m) mem" "mem (ly_slot L cur) = f" "stored mem f = c"
    and m': "live_ctx m' = stored mem (mem (ly_slot L t))" "mc_mem m' = mem" "rt_thread_switch_interrupt_flag m' = 0" "mc_mode m' = 3"
  shows "cpu_ok L t m' \<and> (\<forall>u \<in> ly_threads L. context_of L t m' u = (if u = cur then c else context_of L cur m u))"
proof -
  have o: "layout_ok L" "cur \<in> ly_threads L" "frame f \<subseteq> ly_stack L cur"
    "\<And>t. t \<in> ly_threads L \<Longrightarrow> t \<noteq> cur \<Longrightarrow> frame (mc_mem m (ly_slot L t)) \<subseteq> ly_stack L t" using ok f by (simp_all add: cpu_ok_def)
  have eq: "mem (ly_slot L u) = mc_mem m (ly_slot L u)" if "u \<in> ly_threads L" "u \<noteq> cur" for u using mem(1) that by (simp add: same_memory_def)
  have fr: "frame (mem (ly_slot L u)) \<subseteq> ly_stack L u" if "u \<in> ly_threads L" for u
    using that o(3,4) eq mem(2) by (cases "u = cur") auto
  have st: "stored mem (mem (ly_slot L u)) = (if u = cur then c else context_of L cur m u)" if "u \<in> ly_threads L" for u
    using that mem(2,3) o(4) same_memory_stored [OF mem(1), of u] by (simp add: context_of_def)
  have "mc_regs m' sp - FRAME_SIZE = mem (ly_slot L t)" using m'(1) by (simp add: live_ctx_def stored_def)
  then have "cpu_ok L t m'" using o(1) t fr m'(2-4) by (simp add: cpu_ok_def)
  then show ?thesis using st m'(1,2) t by (simp add: context_of_def)
qed

lemma stack_other:
  assumes "layout_ok L" and "t \<in> ly_threads L" and "cur \<in> ly_threads L" and "frame f \<subseteq> ly_stack L cur"
  shows "ly_slot L t \<notin> frame f" "t \<noteq> cur \<Longrightarrow> a \<in> ly_stack L t \<Longrightarrow> a \<notin> frame f" "t \<noteq> cur \<Longrightarrow> ly_slot L t \<noteq> ly_slot L cur"
    "a \<in> ly_stack L t \<Longrightarrow> a \<noteq> ly_slot L cur"
  using assms unfolding layout_ok_def by (blast, blast, meson inj_onD, blast)

lemma same_memory_out:
  assumes "layout_ok L" and "cur \<in> ly_threads L" and "frame f \<subseteq> ly_stack L cur"
    and eq: "\<And>a. a \<noteq> ly_slot L cur \<Longrightarrow> a \<notin> frame f \<Longrightarrow> mem' a = mem a"
  shows "same_memory L (ly_threads L - {cur}) mem mem'"
  unfolding same_memory_def
proof (intro ballI conjI)
  fix t assume t: "t \<in> ly_threads L - {cur}"
  then have t': "t \<in> ly_threads L" "t \<noteq> cur" by auto
  note other = stack_other [OF assms(1) t'(1) assms(2,3)]
  show "mem' (ly_slot L t) = mem (ly_slot L t)" by (rule eq [OF other(3) [OF t'(2)] other(1)])
  show "mem' a = mem a" if "a \<in> ly_stack L t" for a by (rule eq [OF other(4) [OF that] other(2) [OF t'(2) that]])
qed

section \<open>The switch in a thread\<close>

lemma switch_mode:
  assumes "mc_mstatus m AND 0x1800 = 0x1800"
  shows "mc_mode (mret m) = 3"
proof -
  have "drop_bit 11 (mc_mstatus m) AND 3 = drop_bit 11 (mc_mstatus m AND 0x1800)" by (simp add: drop_bit_and)
  then show ?thesis using assms by (simp add: mret_def)
qed

lemma mask_or: "a AND k = k \<Longrightarrow> (a OR b) AND k = k" "b AND k = k \<Longrightarrow> (a OR b) AND k = (k :: u32)"
  by (simp_all add: bit.conj_disj_distrib2)

lemma mode_bits: "((x OR 0x7800) OR y) AND 0x1800 = (0x1800 :: u32)"
  by (rule mask_or(1), rule mask_or(2)) simp

lemma exit_mode: "mc_mode (rt_hw_context_switch_exit m) = 3"
  unfolding rt_hw_context_switch_exit_def Let_def load_all by (rule switch_mode) (simp add: load_reg_def mode_bits)

lemma exit_frame: "mc_mem (rt_hw_context_switch_exit m) = mc_mem m"
  "rt_thread_switch_interrupt_flag (rt_hw_context_switch_exit m) = rt_thread_switch_interrupt_flag m"
  unfolding rt_hw_context_switch_exit_def Let_def load_all by (simp_all add: load_reg_def mret_def)

text \<open>The frame that \<^verbatim>\<open>rt_hw_context_switch\<close> leaves: the thread goes on where it called it.\<close>

lemma switch_saves:
  assumes slot: "mc_regs m a0 \<notin> frame f" and f: "f = mc_regs m sp - FRAME_SIZE"
  obtains m1 where "rt_hw_context_switch m = rt_hw_context_switch_exit m1" "mc_regs m1 sp = mc_mem m1 (mc_regs m a1)"
    "stored (mc_mem m1) f = returned (live_ctx m)" "mc_mem m1 (mc_regs m a0) = f" "\<And>a. a \<noteq> mc_regs m a0 \<Longrightarrow> a \<notin> frame f \<Longrightarrow> mc_mem m1 a = mc_mem m a"
    "rt_thread_switch_interrupt_flag m1 = rt_thread_switch_interrupt_flag m"
proof -
  have f': "mc_regs m sp + - 32 * 4 = f" by (simp add: f FRAME_SIZE_def)
  define v where "v = (if mc_mstatus m AND 8 = 0 then 0 else 0x80 :: u32)"
  define mem where "mem = (mc_mem m)(mc_regs m a0 := f, word_of f 0 := mc_regs m ra, word_of f 1 := mc_regs m ra, word_of f 5 := mc_regs m t0, word_of f 2 := v,
    word_of f 4 := mc_regs m 4)"
  define m0 where "m0 = m\<lparr>mc_regs := (mc_regs m)(sp := f, t0 := v), mc_mem := mem\<rparr>"
  define S where "S = fold (\<lambda>i. store_reg i i) [6..<32]"
  have m0: "rt_hw_context_switch m = rt_hw_context_switch_exit (set_reg sp (mc_mem (S m0) (mc_regs (S m0) a1)) (S m0))"
    unfolding rt_hw_context_switch_def Let_def f' S_def [symmetric]
    by (cases "mc_mstatus m AND 8 = 0") (simp_all add: store_reg_def m0_def mem_def v_def)
  obtain mem' where s: "S m0 = m0\<lparr>mc_mem := mem'\<rparr>"
    "\<And>i. i < 32 \<Longrightarrow> mem' (word_of f i) = (if i \<in> set [6..<32] then mc_regs m0 i else mem (word_of f i))" "\<And>a. a \<notin> frame f \<Longrightarrow> mem' a = mem a"
    by (rule fold_store [of "[6..<32]" m0]) (simp_all add: m0_def S_def)
  let ?m1 = "m0\<lparr>mc_mem := mem', mc_regs := (mc_regs m0)(sp := mem' (mc_regs m a1))\<rparr>"
  have fr: "word_of f i \<in> frame f" if "i < 32" for i using that by simp
  have w: "mem' (word_of f i) = (if i = 0 then mc_regs m ra else mc_regs m i)" if "i = 0 \<or> saved_reg i" for i
  proof (cases "6 \<le> i")
    case True
    then show ?thesis using that s(2) [of i] by (auto simp: saved_reg_def m0_def simp del: upt_rec_numeral)
  next
    case False
    then have "i \<in> {0, 1, 4, 5}" using that by (auto simp: saved_reg_def)
    then show ?thesis using s(2) [of i] by (auto simp: mem_def word_of_inj simp del: upt_rec_numeral word_of_0)
  qed
  have out: "mem' a = (if a = mc_regs m a0 then f else mc_mem m a)" if "a \<notin> frame f" for a
    using that s(3) [OF that] fr by (auto simp: mem_def simp del: word_of_0)
  show thesis
  proof (rule that [of ?m1])
    show "stored (mc_mem ?m1) f = returned (live_ctx m)"
      using w by (auto simp: stored_def returned_def live_ctx_def f saved_reg_def fun_eq_iff simp del: word_of_0)
    show "rt_hw_context_switch m = rt_hw_context_switch_exit ?m1" unfolding m0 s(1) by (simp add: m0_def)
  qed (use out slot in \<open>auto simp: m0_def\<close>)
qed

lemma switch_thread:
  assumes ok: "cpu_ok L cur m" and t: "t \<in> ly_threads L" and args: "mc_regs m a0 = ly_slot L cur" "mc_regs m a1 = ly_slot L t"
  shows "cpu_ok L t (rt_hw_context_switch m) \<and>
    (\<forall>u \<in> ly_threads L. context_of L t (rt_hw_context_switch m) u = (if u = cur then returned (live_ctx m) else context_of L cur m u))"
proof -
  let ?f = "mc_regs m sp - FRAME_SIZE"
  have o: "layout_ok L" "cur \<in> ly_threads L" "frame ?f \<subseteq> ly_stack L cur" "rt_thread_switch_interrupt_flag m = 0" using ok by (simp_all add: cpu_ok_def)
  note other = stack_other [OF o(1) _ o(2,3)]
  have "mc_regs m a0 \<notin> frame ?f" using other(1) [OF o(2)] args(1) by simp
  then obtain m1 where m1: "rt_hw_context_switch m = rt_hw_context_switch_exit m1" "mc_regs m1 sp = mc_mem m1 (ly_slot L t)"
    "stored (mc_mem m1) ?f = returned (live_ctx m)" "mc_mem m1 (ly_slot L cur) = ?f" "\<And>a. a \<noteq> ly_slot L cur \<Longrightarrow> a \<notin> frame ?f \<Longrightarrow> mc_mem m1 a = mc_mem m a"
    "rt_thread_switch_interrupt_flag m1 = 0"
    using switch_saves [of m ?f] args o(4) by metis
  have "same_memory L (ly_threads L - {cur}) (mc_mem m) (mc_mem m1)"
    by (rule same_memory_out [OF o(1-3) m1(5)])
  from switch_contexts [OF ok t refl this m1(4,3), of "rt_hw_context_switch m"] show ?thesis
    using m1(2,6) by (simp add: m1(1) exit_live exit_frame exit_mode)
qed

section \<open>The switch in an interrupt\<close>

text \<open>What an interrupt handler and the compiled code of a call leave alone.\<close>

definition port_same :: "thread_layout \<Rightarrow> processor \<Rightarrow> processor \<Rightarrow> bool" where
  "port_same L m m' \<longleftrightarrow> same_memory L (ly_threads L) (mc_mem m) (mc_mem m') \<and> mc_mode m' = mc_mode m \<and> mc_mscratch m' = mc_mscratch m \<and>
     mc_mepc m' = mc_mepc m \<and> rt_interrupt_from_thread m' = rt_interrupt_from_thread m \<and> rt_interrupt_to_thread m' = rt_interrupt_to_thread m \<and>
     rt_thread_switch_interrupt_flag m' = rt_thread_switch_interrupt_flag m"

definition abi_ok :: "thread_layout \<Rightarrow> (processor \<Rightarrow> processor) \<Rightarrow> bool" where
  "abi_ok L g \<longleftrightarrow> (\<forall>m. port_same L m (g m) \<and> mc_regs (g m) sp = mc_regs m sp \<and> mc_mstatus (g m) = mc_mstatus m)"

lemma same_memory_refl [simp]: "same_memory L T mem mem"
  by (simp add: same_memory_def)

lemma same_memory_trans: "same_memory L T mem mem' \<Longrightarrow> same_memory L T mem' mem'' \<Longrightarrow> same_memory L T mem mem''"
  by (simp add: same_memory_def)

lemma same_memory_subset: "same_memory L T mem mem' \<Longrightarrow> S \<subseteq> T \<Longrightarrow> same_memory L S mem mem'"
  by (auto simp: same_memory_def)

text \<open>The requests for a switch that come before the software interrupt: the thread that ran is left for the last one.\<close>

fun requests :: "thread_layout \<Rightarrow> nat \<Rightarrow> nat list \<Rightarrow> processor \<Rightarrow> processor" where
  "requests L cur [] m = m"
| "requests L cur (t # ts) m = requests L t ts (rt_hw_context_switch_interrupt (ly_slot L cur) (ly_slot L t) m)"

definition same_cpu :: "processor \<Rightarrow> processor \<Rightarrow> bool" where
  "same_cpu m m' \<longleftrightarrow> mc_regs m' = mc_regs m \<and> mc_pc m' = mc_pc m \<and> mc_mode m' = mc_mode m \<and> mc_mstatus m' = mc_mstatus m \<and>
     mc_mepc m' = mc_mepc m \<and> mc_mscratch m' = mc_mscratch m \<and> mc_intsyscr m' = mc_intsyscr m \<and> mc_mem m' = mc_mem m"

lemma requests_last:
  "ts \<noteq> [] \<Longrightarrow> rt_interrupt_from_thread (requests L cur ts m) =
      (if rt_thread_switch_interrupt_flag m = 0 then ly_slot L cur else rt_interrupt_from_thread m) \<and>
    rt_interrupt_to_thread (requests L cur ts m) = ly_slot L (last ts) \<and> rt_thread_switch_interrupt_flag (requests L cur ts m) = 1"
proof (induction ts arbitrary: cur m)
  case (Cons t ts)
  show ?case
  proof (cases "ts = []")
    case True
    then show ?thesis by (simp add: rt_hw_context_switch_interrupt_def sw_setpend_def Let_def)
  next
    case False
    then show ?thesis using Cons.IH by (simp add: rt_hw_context_switch_interrupt_def sw_setpend_def Let_def)
  qed
qed simp

lemma requests_cpu: "same_cpu m (requests L cur ts m)"
proof (induction ts arbitrary: cur m)
  case (Cons t ts)
  show ?case using Cons.IH [of "rt_hw_context_switch_interrupt (ly_slot L cur) (ly_slot L t) m" t]
    by (simp add: rt_hw_context_switch_interrupt_def sw_setpend_def Let_def same_cpu_def)
qed (simp add: same_cpu_def)

text \<open>The frame that the handler makes is complete up to the place where the thread goes on.\<close>

lemma SW_save_frame:
  assumes f: "f = mc_regs m sp - FRAME_SIZE"
  obtains mem v x where "SW_save m = m\<lparr>mc_regs := (mc_regs m)(sp := f, t0 := v), mc_intsyscr := x, mc_mem := mem\<rparr>"
    "stored (mem(word_of f 0 := pc)) f = \<lparr>cx_regs = cx_regs (live_ctx m), cx_sp = mc_regs m sp, cx_pc = pc\<rparr>"
    "mem (word_of f 2) = 0x80" "\<And>a. a \<notin> frame f \<Longrightarrow> mem a = mc_mem m a"
proof -
  have f': "mc_regs m sp + - 32 * 4 = f" by (simp add: f FRAME_SIZE_def)
  define mem where "mem = (mc_mem m)(word_of f 5 := mc_regs m t0, word_of f 2 := 0x80, word_of f 1 := mc_regs m ra, word_of f 4 := mc_regs m 4)"
  define m0 where "m0 = m\<lparr>mc_regs := (mc_regs m)(sp := f, t0 := 0x20), mc_intsyscr := mc_intsyscr m OR 0x20, mc_mem := mem\<rparr>"
  define S where "S = fold (\<lambda>i. store_reg i i) [6..<32]"
  have m0: "SW_save m = S m0"
    unfolding SW_save_def Let_def f' S_def [symmetric] by (simp add: store_reg_def m0_def mem_def)
  obtain mem' where s: "S m0 = m0\<lparr>mc_mem := mem'\<rparr>"
    "\<And>i. i < 32 \<Longrightarrow> mem' (word_of f i) = (if i \<in> set [6..<32] then mc_regs m0 i else mem (word_of f i))" "\<And>a. a \<notin> frame f \<Longrightarrow> mem' a = mem a"
    by (rule fold_store [of "[6..<32]" m0]) (simp_all add: m0_def S_def)
  have fr: "word_of f i \<in> frame f" if "i < 32" for i using that by simp
  have w: "mem' (word_of f i) = mc_regs m i \<and> word_of f i \<noteq> word_of f 0" if "saved_reg i" for i
  proof (cases "6 \<le> i")
    case True
    then show ?thesis using that s(2) [of i] by (auto simp: saved_reg_def m0_def word_of_inj simp del: upt_rec_numeral word_of_0)
  next
    case False
    then have "i \<in> {1, 4, 5}" using that by (auto simp: saved_reg_def)
    then show ?thesis using s(2) [of i] by (auto simp: mem_def word_of_inj simp del: upt_rec_numeral word_of_0)
  qed
  have "SW_save m = m\<lparr>mc_regs := (mc_regs m)(sp := f, t0 := 0x20), mc_intsyscr := mc_intsyscr m OR 0x20, mc_mem := mem'\<rparr>"
    unfolding m0 s(1) by (simp add: m0_def)
  then show thesis
  proof (rule that)
    show "stored (mem'(word_of f 0 := pc)) f = \<lparr>cx_regs = cx_regs (live_ctx m), cx_sp = mc_regs m sp, cx_pc = pc\<rparr>"
      using w by (auto simp: stored_def live_ctx_def f fun_eq_iff simp del: word_of_0)
    show "mem' (word_of f 2) = 0x80" using s(2) [of 2] by (simp add: mem_def word_of_inj del: word_of_0)
    show "mem' a = mc_mem m a" if "a \<notin> frame f" for a
      using that s(3) [OF that] fr by (auto simp: mem_def simp del: word_of_0)
  qed
qed

lemma SW_calls_same:
  assumes "\<And>n. abi_ok L (call n)"
  shows "port_same L m (SW_calls call m)" "mc_regs (SW_calls call m) sp = mc_regs m sp" "mc_mstatus (SW_calls call m) = mc_mstatus m"
proof -
  define m0 where "m0 = swap_sp m"
  define m1 where "m1 = call 0 m0"
  define m2 where "m2 = call 1 (sw_clearpend m1)"
  define m3 where "m3 = call 2 m2"
  have "SW_calls call m = swap_sp m3" by (simp add: SW_calls_def m0_def m1_def m2_def m3_def Let_def)
  moreover have "port_same L m0 m1" "port_same L (sw_clearpend m1) m2" "port_same L m2 m3" "mc_regs m1 sp = mc_regs m0 sp" "mc_mstatus m1 = mc_mstatus m0"
    "mc_regs m2 sp = mc_regs m1 sp" "mc_mstatus m2 = mc_mstatus m1" "mc_regs m3 sp = mc_regs m2 sp" "mc_mstatus m3 = mc_mstatus m2"
    using assms by (simp_all add: abi_ok_def m1_def m2_def m3_def) (simp_all add: sw_clearpend_def)
  ultimately show "port_same L m (SW_calls call m)" "mc_regs (SW_calls call m) sp = mc_regs m sp" "mc_mstatus (SW_calls call m) = mc_mstatus m"
    by (simp_all add: port_same_def m0_def swap_sp_def sw_clearpend_def same_memory_def)
qed

lemma SW_restore_live:
  "live_ctx (SW_restore m) = (stored (mc_mem m) (mc_regs m sp))\<lparr>cx_pc := mc_mepc m\<rparr>" "mc_mode (SW_restore m) = 3" "mc_mem (SW_restore m) = mc_mem m"
  "rt_thread_switch_interrupt_flag (SW_restore m) = rt_thread_switch_interrupt_flag m"
proof -
  show "mc_mode (SW_restore m) = 3"
    unfolding SW_restore_def Let_def load_all by (rule switch_mode) (simp add: load_reg_def mode_bits)
  show "live_ctx (SW_restore m) = (stored (mc_mem m) (mc_regs m sp))\<lparr>cx_pc := mc_mepc m\<rparr>"
    unfolding SW_restore_def Let_def load_all
    by (auto simp: load_reg_def mret_def live_ctx_def stored_def saved_reg_def FRAME_SIZE_def fun_eq_iff)
qed (unfold SW_restore_def Let_def load_all, simp_all add: load_reg_def mret_def)

lemma SW_switch_cases:
  "SW_switch m = (if rt_thread_switch_interrupt_flag m = 0 then set_reg s2 0 m
    else let mem = (mc_mem m)(word_of (mc_regs m sp) 0 := mc_mepc m, rt_interrupt_from_thread m := mc_regs m sp); f = mem (rt_interrupt_to_thread m) in
      m\<lparr>mc_regs := (mc_regs m)(s2 := rt_thread_switch_interrupt_flag m, s1 := rt_interrupt_to_thread m, sp := f, a0 := mem (word_of f 0)),
        rt_thread_switch_interrupt_flag := 0, mc_mem := mem, mc_mepc := mem (word_of f 0)\<rparr>)"
  by (auto simp: SW_switch_def Let_def store_reg_def load_reg_def fun_upd_twist)

lemma switch_interrupt:
  assumes ok: "cpu_ok L cur m" and ts: "set ts \<subseteq> ly_threads L" and call: "\<And>n. abi_ok L (call n)"
    and m1: "port_same L m m1" "mc_regs m1 = mc_regs m" "mc_pc m1 = mc_pc m"
  shows "cpu_ok L (last (cur # ts)) (SW_handler call (trap_entry (requests L cur ts m1))) \<and>
    (\<forall>u \<in> ly_threads L. context_of L (last (cur # ts)) (SW_handler call (trap_entry (requests L cur ts m1))) u = context_of L cur m u)"
proof -
  define f where "f = mc_regs m sp - FRAME_SIZE"
  define m3 where "m3 = trap_entry (requests L cur ts m1)"
  have o: "layout_ok L" "cur \<in> ly_threads L" "frame f \<subseteq> ly_stack L cur" "rt_thread_switch_interrupt_flag m1 = 0"
    using ok m1(1) by (simp_all add: cpu_ok_def f_def port_same_def)
  note other = stack_other [OF o(1) _ o(2,3)]
  have r: "mc_regs m3 = mc_regs m" "mc_mem m3 = mc_mem m1" "mc_mepc m3 = mc_pc m"
    using requests_cpu [of m1 L cur ts] m1 by (simp_all add: m3_def trap_entry_def same_cpu_def)
  have q: "if ts = [] then rt_thread_switch_interrupt_flag m3 = 0 else rt_interrupt_from_thread m3 = ly_slot L cur \<and>
      rt_interrupt_to_thread m3 = ly_slot L (last ts) \<and> rt_thread_switch_interrupt_flag m3 = 1"
    using requests_last [of ts L cur m1] o(4) by (auto simp: m3_def trap_entry_def)
  obtain mem v x where s: "SW_save m3 = m3\<lparr>mc_regs := (mc_regs m3)(sp := f, t0 := v), mc_intsyscr := x, mc_mem := mem\<rparr>"
    "stored (mem(word_of f 0 := mc_pc m)) f = \<lparr>cx_regs = cx_regs (live_ctx m3), cx_sp = mc_regs m3 sp, cx_pc = mc_pc m\<rparr>"
    "\<And>a. a \<notin> frame f \<Longrightarrow> mem a = mc_mem m1 a"
    using SW_save_frame [of f m3 "mc_pc m"] unfolding r f_def by metis
  have lv: "stored (mem(word_of f 0 := mc_pc m)) f = live_ctx m" unfolding s(2) by (simp add: live_ctx_def r(1) fun_eq_iff)
  define m5 where "m5 = SW_calls call (SW_save m3)"
  have c: "port_same L (SW_save m3) m5" "mc_regs m5 sp = f" using SW_calls_same [where call = call and L = L and m = "SW_save m3", OF call] by (simp_all add: m5_def s(1))
  have p: "same_memory L (ly_threads L) mem (mc_mem m5)" "mc_mepc m5 = mc_pc m" "rt_interrupt_from_thread m5 = rt_interrupt_from_thread m3"
    "rt_interrupt_to_thread m5 = rt_interrupt_to_thread m3" "rt_thread_switch_interrupt_flag m5 = rt_thread_switch_interrupt_flag m3"
    using c(1) r(3) by (simp_all add: port_same_def s(1))
  have mm: "same_memory L (ly_threads L - {cur}) (mc_mem m1) mem" by (rule same_memory_out [OF o(1-3) s(3)])
  have "same_memory L (ly_threads L) (mc_mem m) (mc_mem m1)" using m1(1) by (simp add: port_same_def)
  then have sm: "same_memory L (ly_threads L - {cur}) (mc_mem m) (mc_mem m5)"
    using mm p(1) same_memory_trans same_memory_subset by (metis Diff_subset)
  have st: "stored ((mc_mem m5)(word_of f 0 := mc_pc m)) f = live_ctx m"
    unfolding lv [symmetric] by (rule stored_cong) (use p(1) o(2,3) in \<open>auto simp: same_memory_def\<close>)
  have h: "SW_handler call m3 = SW_restore (SW_switch m5)" by (simp add: SW_handler_def m5_def)
  show ?thesis
  proof (cases "ts = []")
    case True
    have m': "SW_handler call m3 = SW_restore (set_reg s2 0 m5)" using q True p(5) by (simp add: h SW_switch_cases)
    have "live_ctx (SW_handler call m3) = (stored (mc_mem m5) f)\<lparr>cx_pc := mc_pc m\<rparr>" using c(2) p(2) by (simp add: m' SW_restore_live)
    also have "\<dots> = stored ((mc_mem m5)(word_of f 0 := mc_pc m)) f"
      by (auto simp: stored_def saved_reg_def word_of_inj fun_eq_iff simp del: word_of_0)
    finally have l: "live_ctx (SW_handler call m3) = live_ctx m" using st by simp
    have "mc_mem (SW_handler call m3) = mc_mem m5" "rt_thread_switch_interrupt_flag (SW_handler call m3) = 0" "mc_mode (SW_handler call m3) = 3"
      using q True p(5) by (simp_all add: m' SW_restore_live)
    moreover have "stored (mc_mem m5) (mc_mem m5 (ly_slot L t)) = stored (mc_mem m) (mc_mem m (ly_slot L t))" if "t \<in> ly_threads L" "t \<noteq> cur" for t
      using same_memory_stored [OF sm, of t] that ok by (simp add: cpu_ok_def)
    moreover have "mc_regs (SW_handler call m3) sp = mc_regs m sp" using l by (simp add: live_ctx_def)
    moreover have "mc_mem m5 (ly_slot L t) = mc_mem m (ly_slot L t)" if "t \<in> ly_threads L" "t \<noteq> cur" for t using sm that by (simp add: same_memory_def)
    ultimately show ?thesis unfolding m3_def [symmetric] using l ok by (simp add: True cpu_ok_def context_of_def)
  next
    case False
    let ?mem = "(mc_mem m5)(word_of f 0 := mc_pc m, ly_slot L cur := f)" and ?t = "last ts"
    have m': "SW_switch m5 = m5\<lparr>mc_regs := (mc_regs m5)(s2 := 1, s1 := ly_slot L ?t, sp := ?mem (ly_slot L ?t), a0 := ?mem (word_of (?mem (ly_slot L ?t)) 0)),
        rt_thread_switch_interrupt_flag := 0, mc_mem := ?mem, mc_mepc := ?mem (word_of (?mem (ly_slot L ?t)) 0)\<rparr>"
      unfolding SW_switch_cases Let_def using q False p(2-5) c(2) by simp
    have t: "?t \<in> ly_threads L" using ts False last_in_set by blast
    have "same_memory L (ly_threads L - {cur}) (mc_mem m5) ?mem" by (rule same_memory_out [OF o(1-3)]) auto
    then have 1: "same_memory L (ly_threads L - {cur}) (mc_mem m) ?mem" using sm same_memory_trans by blast
    have 2: "stored ?mem f = live_ctx m"
      unfolding st [symmetric] by (rule stored_cong) (use other(1) [OF o(2)] in auto)
    have "live_ctx (SW_handler call m3) = (stored ?mem (?mem (ly_slot L ?t)))\<lparr>cx_pc := ?mem (word_of (?mem (ly_slot L ?t)) 0)\<rparr>"
      by (simp add: h m' SW_restore_live)
    then have 3: "live_ctx (SW_handler call m3) = stored ?mem (?mem (ly_slot L ?t))" by (simp add: stored_def)
    have "cpu_ok L ?t (SW_handler call m3) \<and> (\<forall>u \<in> ly_threads L. context_of L ?t (SW_handler call m3) u = (if u = cur then live_ctx m else context_of L cur m u))"
      by (rule switch_contexts [OF ok t f_def 1 _ 2 3]) (simp_all add: h m' SW_restore_live)
    then show ?thesis unfolding m3_def [symmetric] using False by (simp add: context_of_def)
  qed
qed

section \<open>Threads as processors of their own\<close>

text \<open>A new thread starts at its entry, with its parameter, and returns to \<open>texit\<close>.\<close>

definition initial :: "u32 \<Rightarrow> u32 \<Rightarrow> u32 \<Rightarrow> u32 \<Rightarrow> ctx" where
  "initial tentry parameter stack_addr texit = \<lparr>cx_regs = (\<lambda>i. if i = ra then texit else if i = a0 then parameter else if saved_reg i then 0xdeadbeef else 0),
     cx_sp = (stack_addr + 4) AND NOT 3, cx_pc = tentry\<rparr>"

lemma fill_frame:
  "fold (\<lambda>i mem. mem(word_of f i := x)) is mem = (\<lambda>a. if a \<in> word_of f ` set is then x else mem a)"
  by (induction "is" arbitrary: mem) (auto simp: fun_eq_iff)

lemma stack_init_frame:
  assumes "rt_hw_stack_init tentry parameter stack_addr texit m = (stk, m')"
  shows "m' = m\<lparr>mc_mem := mc_mem m'\<rparr>" "stored (mc_mem m') stk = initial tentry parameter stack_addr texit" "a \<notin> frame stk \<Longrightarrow> mc_mem m' a = mc_mem m a"
proof -
  let ?mem = "(\<lambda>a. if a \<in> frame stk then 0xdeadbeef else mc_mem m a)(word_of stk 1 := texit, word_of stk 10 := parameter, word_of stk 0 := tentry, word_of stk 2 := 0x7880)"
  have e: "stk = ((stack_addr + 4) AND NOT 3) - FRAME_SIZE" "m' = m\<lparr>mc_mem := ?mem\<rparr>"
    using assms unfolding rt_hw_stack_init_def Let_def fill_frame frame_def set_upt atLeast0LessThan by auto
  then show "m' = m\<lparr>mc_mem := mc_mem m'\<rparr>" by simp
  have w: "?mem (word_of stk i) = (if i = 0 then tentry else cx_regs (initial tentry parameter stack_addr texit) i)" if "i = 0 \<or> saved_reg i" for i
  proof -
    have "i < 32" "i \<noteq> 2" using that by (auto simp: saved_reg_def)
    then show ?thesis using that by (auto simp: word_of_inj initial_def simp del: word_of_0)
  qed
  have "stored ?mem stk = initial tentry parameter stack_addr texit"
    using w e(1) by (auto simp: stored_def initial_def saved_reg_def fun_eq_iff simp del: word_of_0)
  then show "stored (mc_mem m') stk = initial tentry parameter stack_addr texit" by (simp add: e(2))
  show "mc_mem m' a = mc_mem m a" if "a \<notin> frame stk"
    using that word_of_frame [of _ stk] unfolding e(2) by (auto simp del: word_of_0 word_of_frame)
qed

text \<open>
  What can happen.  (A thread whose stack is not aligned or overflows is outside of this.)  The current thread computes anything that leaves the memory of the others alone and keeps room for a frame
  on its stack; it calls \<^verbatim>\<open>rt_hw_context_switch\<close>; it makes a thread and enters the result of \<^verbatim>\<open>rt_hw_stack_init\<close> in its \<^verbatim>\<open>sp\<close>; or an interrupt
  handler runs and asks for switches, which the software interrupt carries out.
\<close>

datatype cpu_event = Ran nat ctx | Yielded nat | Created nat ctx | Interrupted

inductive cpu_step :: "thread_layout \<Rightarrow> nat \<times> processor \<Rightarrow> cpu_event \<Rightarrow> nat \<times> processor \<Rightarrow> bool" for L where
  run: "frame (mc_regs m' sp - FRAME_SIZE) \<subseteq> ly_stack L cur \<Longrightarrow> same_memory L (ly_threads L - {cur}) (mc_mem m) (mc_mem m') \<Longrightarrow>
    rt_thread_switch_interrupt_flag m' = rt_thread_switch_interrupt_flag m \<Longrightarrow> mc_mode m' = mc_mode m \<Longrightarrow> cpu_step L (cur, m) (Ran cur (live_ctx m')) (cur, m')"
| yield: "t \<in> ly_threads L \<Longrightarrow> mc_regs m a0 = ly_slot L cur \<Longrightarrow> mc_regs m a1 = ly_slot L t \<Longrightarrow>
    cpu_step L (cur, m) (Yielded cur) (t, rt_hw_context_switch m)"
| create: "t \<in> ly_threads L \<Longrightarrow> t \<noteq> cur \<Longrightarrow> rt_hw_stack_init tentry parameter stack_addr texit m = (stk, m') \<Longrightarrow> frame stk \<subseteq> ly_stack L t \<Longrightarrow>
    cpu_step L (cur, m) (Created t (initial tentry parameter stack_addr texit)) (cur, m'\<lparr>mc_mem := (mc_mem m')(ly_slot L t := stk)\<rparr>)"
| interrupt: "set ts \<subseteq> ly_threads L \<Longrightarrow> (\<And>n. abi_ok L (call n)) \<Longrightarrow> port_same L m m1 \<Longrightarrow> mc_regs m1 = mc_regs m \<Longrightarrow> mc_pc m1 = mc_pc m \<Longrightarrow>
    cpu_step L (cur, m) Interrupted (last (cur # ts), SW_handler call (trap_entry (requests L cur ts m1)))"

fun replay :: "cpu_event \<Rightarrow> (nat \<Rightarrow> ctx) \<Rightarrow> nat \<Rightarrow> ctx" where
  "replay (Ran t c) V = V(t := c)"
| "replay (Yielded t) V = V(t := returned (V t))"
| "replay (Created t c) V = V(t := c)"
| "replay Interrupted V = V"

inductive cpu_run :: "thread_layout \<Rightarrow> nat \<times> processor \<Rightarrow> cpu_event list \<Rightarrow> nat \<times> processor \<Rightarrow> bool" for L where
  none: "cpu_run L s [] s"
| more: "cpu_step L s e s' \<Longrightarrow> cpu_run L s' es s'' \<Longrightarrow> cpu_run L s (e # es) s''"

lemma create_contexts:
  assumes ok: "cpu_ok L cur m" and t: "t \<in> ly_threads L" "t \<noteq> cur" and i: "rt_hw_stack_init tentry parameter stack_addr texit m = (stk, m')" and fr: "frame stk \<subseteq> ly_stack L t"
  defines "m2 \<equiv> m'\<lparr>mc_mem := (mc_mem m')(ly_slot L t := stk)\<rparr>"
  shows "cpu_ok L cur m2 \<and> (\<forall>u \<in> ly_threads L. context_of L cur m2 u = (if u = t then initial tentry parameter stack_addr texit else context_of L cur m u))"
proof -
  note s = stack_init_frame [OF i]
  have o: "layout_ok L" "cur \<in> ly_threads L" "\<And>u. u \<in> ly_threads L \<Longrightarrow> u \<noteq> cur \<Longrightarrow> frame (mc_mem m (ly_slot L u)) \<subseteq> ly_stack L u" using ok by (simp_all add: cpu_ok_def)
  note other = stack_other [OF o(1) _ t(1) fr]
  have m2: "m2 = m\<lparr>mc_mem := (mc_mem m')(ly_slot L t := stk)\<rparr>" unfolding m2_def by (subst s(1)) simp
  have sm: "same_memory L (ly_threads L - {t}) (mc_mem m) ((mc_mem m')(ly_slot L t := stk))"
    by (rule same_memory_out [OF o(1) t(1) fr]) (simp add: s(3))
  have new: "stored ((mc_mem m')(ly_slot L t := stk)) stk = initial tentry parameter stack_addr texit"
    unfolding s(2) [symmetric] by (rule stored_cong) (use other(1) [OF t(1)] in auto)
  have old: "mc_mem m2 (ly_slot L u) = mc_mem m (ly_slot L u)" "stored (mc_mem m2) (mc_mem m2 (ly_slot L u)) = stored (mc_mem m) (mc_mem m (ly_slot L u))"
    if "u \<in> ly_threads L" "u \<noteq> t" "u \<noteq> cur" for u
    using that sm same_memory_stored [OF sm, of u] o(3) by (simp_all add: m2 same_memory_def)
  have new2: "mc_mem m2 (ly_slot L t) = stk" "stored (mc_mem m2) stk = initial tentry parameter stack_addr texit" "live_ctx m2 = live_ctx m"
    using new by (simp_all add: m2 live_ctx_def fun_eq_iff)
  have "frame (mc_mem m2 (ly_slot L u)) \<subseteq> ly_stack L u" if "u \<in> ly_threads L" "u \<noteq> cur" for u
    using that old(1) new2(1) fr o(3) by (cases "u = t") auto
  then have "cpu_ok L cur m2" using ok by (simp add: cpu_ok_def m2)
  moreover have "context_of L cur m2 u = (if u = t then initial tentry parameter stack_addr texit else context_of L cur m u)" if "u \<in> ly_threads L" for u
    using that old(2) new2 t(2) by (cases "u = t"; cases "u = cur") (simp_all add: context_of_def)
  ultimately show ?thesis by blast
qed

lemma step_contexts:
  assumes "cpu_step L s e s'" and "cpu_ok L (fst s) (snd s)"
  shows "cpu_ok L (fst s') (snd s') \<and> (\<forall>u \<in> ly_threads L. context_of L (fst s') (snd s') u = replay e (context_of L (fst s) (snd s)) u)"
  using assms
proof cases
  case (run m' cur m)
  have "stored (mc_mem m') (mc_mem m' (ly_slot L u)) = stored (mc_mem m) (mc_mem m (ly_slot L u))" "mc_mem m' (ly_slot L u) = mc_mem m (ly_slot L u)"
    if "u \<in> ly_threads L" "u \<noteq> cur" for u
    using that run(5) same_memory_stored [OF run(5), of u] assms(2) by (simp_all add: run(1) cpu_ok_def same_memory_def)
  then show ?thesis using run assms(2) by (simp add: cpu_ok_def context_of_def)
next
  case (yield t m cur)
  then show ?thesis using switch_thread [of L cur m t] assms(2) by (simp add: context_of_def)
next
  case (create t cur tentry parameter stack_addr texit m stk m')
  then show ?thesis using create_contexts [of L cur m t] assms(2) by simp
next
  case (interrupt ts call m m1 cur)
  then show ?thesis using switch_interrupt [of L cur m ts call m1] assms(2) by simp
qed

lemma replay_cong: "(\<And>u. u \<in> T \<Longrightarrow> V u = W u) \<Longrightarrow> u \<in> T \<Longrightarrow> replay e V u = replay e W u"
  by (cases e) auto

lemma replays_cong: "(\<And>u. u \<in> T \<Longrightarrow> V u = W u) \<Longrightarrow> u \<in> T \<Longrightarrow> fold replay es V u = fold replay es W u"
proof (induction es arbitrary: V W)
  case (Cons e es)
  show ?case using Cons.IH [of "replay e V" "replay e W"] Cons.prems replay_cong [of T V W _ e] by simp
qed simp

text \<open>
  C18. Each thread has a processor of its own: in every run of computing threads, calls of \<^verbatim>\<open>rt_hw_context_switch\<close>, new threads and
  interrupts that ask for any number of switches, the registers, stack pointer and place of each thread - in the
  registers while it is current, in its frame while it is not - are what its own computing made them; a switch by a call is a
  return from the call, an interrupt is not noticed, and a new thread is at its entry with its parameter.
\<close>

theorem context_switch_transparent:
  assumes "cpu_run L s es s'" and "cpu_ok L (fst s) (snd s)"
  shows "cpu_ok L (fst s') (snd s') \<and> (\<forall>t \<in> ly_threads L. context_of L (fst s') (snd s') t = fold replay es (context_of L (fst s) (snd s)) t)"
  using assms
proof induction
  case (more s e s' es s'')
  note st = step_contexts [OF more.hyps(1) more.prems]
  have "fold replay es (context_of L (fst s') (snd s')) t = fold replay es (replay e (context_of L (fst s) (snd s))) t" if "t \<in> ly_threads L" for t
    by (rule replays_cong [of "ly_threads L"]) (use st that in auto)
  then show ?case using more.IH st by simp
qed simp

text \<open>Two threads: the first calls the switch to the second, an interrupt switches back.\<close>

definition sample_layout :: thread_layout where
  "sample_layout = \<lparr>ly_threads = {1, 2}, ly_slot = (\<lambda>t. if t = 1 then 0x100 else 0x104), ly_stack = (\<lambda>t. if t = 1 then frame 0x1000 else frame 0x2000),
     ly_istack = {}\<rparr>"

definition sample_processor :: processor where
  "sample_processor = \<lparr>mc_regs = (\<lambda>i. of_nat i)(sp := 0x1080, a0 := 0x100, a1 := 0x104), mc_pc = 0x400, mc_mode = 3, mc_mstatus = 0x7800, mc_mepc = 0,
     mc_mscratch = 0x3000, mc_intsyscr = 0, mc_systick_ctlr = 15, mc_mem = (\<lambda>_. 7)(0x104 := 0x2000), rt_interrupt_from_thread = 0,
     rt_interrupt_to_thread = 0, rt_thread_switch_interrupt_flag = 0\<rparr>"

lemma sample_cpu_ok: "cpu_ok sample_layout 1 sample_processor"
proof -
  have d: "frame 0x1000 \<inter> frame 0x2000 = {}" using frame_bounds [of _ "0x1000"] frame_bounds [of _ "0x2000"] by fastforce
  have n: "a \<notin> frame 0x1000" "a \<notin> frame 0x2000" if "unat a < 0x1000" for a
    using that frame_bounds [of a "0x1000"] frame_bounds [of a "0x2000"] by auto
  have "layout_ok sample_layout"
    using d n [of "0x100"] n [of "0x104"] by (auto simp: layout_ok_def sample_layout_def)
  then show ?thesis by (simp add: cpu_ok_def) (simp add: sample_layout_def sample_processor_def FRAME_SIZE_def)
qed

theorem context_switch_transparent_witness:
  "\<exists>m'. cpu_run sample_layout (1, sample_processor) [Yielded 1, Interrupted] (1, m') \<and> live_ctx m' = returned (live_ctx sample_processor)"
proof -
  let ?m1 = "rt_hw_context_switch sample_processor" and ?call = "\<lambda>_ m. m"
  have y: "cpu_step sample_layout (1, sample_processor) (Yielded 1) (2, ?m1)"
    by (rule cpu_step.yield) (simp_all add: sample_layout_def sample_processor_def)
  have "cpu_step sample_layout (2, ?m1) Interrupted (last (2 # [1]), SW_handler ?call (trap_entry (requests sample_layout 2 [1] ?m1)))"
    by (rule cpu_step.interrupt) (simp_all add: abi_ok_def port_same_def, simp add: sample_layout_def)
  then obtain m' where i: "cpu_step sample_layout (2, ?m1) Interrupted (1, m')" by auto
  have r: "cpu_run sample_layout (1, sample_processor) [Yielded 1, Interrupted] (1, m')"
    by (rule cpu_run.more [OF y cpu_run.more [OF i cpu_run.none]])
  have "1 \<in> ly_threads sample_layout" by (simp add: sample_layout_def)
  then have "context_of sample_layout 1 m' 1 = returned (context_of sample_layout 1 sample_processor 1)"
    using context_switch_transparent [OF r] sample_cpu_ok by auto
  then show ?thesis using r by (auto simp: context_of_def)
qed

section \<open>Interrupts after a switch\<close>

text \<open>
  \<^verbatim>\<open>csrs\<close> only sets bits: the thread that the software interrupt switches to has interrupts enabled also when its frame says that
  it gave up the processor with interrupts disabled.
\<close>

lemma SW_handler_enables:
  assumes "\<And>n. abi_ok L (call n)" and "mc_mstatus m AND MSTATUS_MIE \<noteq> 0"
  shows "mc_mstatus (SW_handler call (trap_entry m)) AND MSTATUS_MIE \<noteq> 0"
proof -
  have b: "x AND 0x80 \<noteq> 0 \<longleftrightarrow> bit x 7" "x AND 8 \<noteq> 0 \<longleftrightarrow> bit x 3" for x :: u32
    using and_exp_eq_0_iff_not_bit [of x 7] and_exp_eq_0_iff_not_bit [of x 3] by simp_all
  define k where "k = SW_switch (SW_calls call (SW_save (trap_entry m)))"
  have "mc_mstatus (fold (\<lambda>i. store_reg i i) is j) = mc_mstatus j" for "is" j
    by (induction "is" arbitrary: j) (simp_all add: store_reg_def)
  then have "mc_mstatus (SW_save (trap_entry m)) = mc_mstatus (trap_entry m)"
    unfolding SW_save_def Let_def by (simp add: store_reg_def)
  then have "mc_mstatus k = mc_mstatus (trap_entry m)"
    using SW_calls_same(3) [where call = call, OF assms(1)] by (simp add: k_def SW_switch_cases Let_def)
  then have "bit (mc_mstatus k) 7" using assms(2) by (simp add: trap_entry_def bit_simps)
  then have "bit ((mc_mstatus k OR 0x7800) OR y) 7" for y by (simp add: bit_simps)
  then have "((mc_mstatus k OR 0x7800) OR y) AND MSTATUS_MPIE \<noteq> 0" for y unfolding b .
  then have "mc_mstatus (SW_restore k) AND MSTATUS_MIE \<noteq> 0"
    unfolding SW_restore_def Let_def load_all by (simp add: load_reg_def mret_def) (simp add: b bit_simps)
  then show ?thesis by (simp add: SW_handler_def k_def)
qed

end
