(* ===== verification/Spec2Isabelle.thy ===== *)
theory Spec2Isabelle
  imports Idle Semaphore Mutex RingBuffer DrumMachine Printf Realloc BootMachine BootSerial DataQueue ObjectTypes ContextSwitch
begin

text \<open>
  \<^bold>\<open>A verification of the CH32V307 drum machine and of the RT-Thread kernel it runs on.\<close>

  \<^bold>\<open>The program.\<close>  Under \<^verbatim>\<open>src/software\<close> a drum machine is built from three threads (\<^verbatim>\<open>applications\<close>) on the RT-Thread
  real-time kernel (\<^verbatim>\<open>rt-thread/src\<close>).  The input task scans the keyboard over the serial bus, turns changes of the
  keys into an event and sends it to a message queue; the sequencer task waits on that queue, toggles the steps of the
  current page and renders them on the key LEDs; the main thread creates both and blinks.  The keyboard is a device on an SPI bus and the console one on a serial port: the SPI core serialises the
  devices of a bus with a mutex, and the board's driver (\<^verbatim>\<open>libraries/hal_drivers\<close>) moves the bytes.  They interact through the
  message queue, the shared LED bytes and the kernel: every wait suspends a thread on a list and starts its timer, the tick
  interrupt (\<^verbatim>\<open>board.c\<close>) wakes the threads whose time is over, and the scheduler runs the highest priority.

  \<^bold>\<open>The model.\<close>  The kernel's global variables are one record \<open>kernel\<close>; threads, timers and IPC objects are records with
  the fields of \<^verbatim>\<open>rtdef.h\<close>, kept in maps keyed by their addresses; 8-, 16- and 32-bit values are words.  A kernel function
  is a function of the state that returns an option: \<open>None\<close> is a failed \<^verbatim>\<open>RT_ASSERT\<close> or an access outside the objects
  there are, so that a theorem that a call \<open>returns\<close> says that it does not stop.  Error codes are integers, as in the code.
  A function that blocks is two definitions: the part up to the call of \<^verbatim>\<open>rt_schedule\<close>, after which another thread is
  current, and the part the thread runs when it is current again (\<^verbatim>\<open>rt_sem_take\<close> and \<open>rt_sem_take_end\<close>, or a round and a
  resume for the loops of mailboxes and message queues).  The part between an \<^verbatim>\<open>rt_hw_interrupt_disable\<close> and its enable is
  atomic in the code; the model makes a whole call up to its blocking point atomic, so the tick interrupt comes between
  calls.  The functions of users (thread entries, cleanup and timeout functions, idle hooks, notifications) and the behaviour
  of the hardware - what comes back over the wire, the levels of input pins - are arguments of the definitions; the state of the
  drivers is a second component of the state of their definitions, next to the kernel.  Loops that may fail to end are \<^theory_text>\<open>partial_function (option)\<close>, \<open>None\<close> when they do not
  end, and the theorems about them state that they return; there is no fuel anywhere.

  \<^bold>\<open>The theories.\<close>
  \<^item> \<open>Prelude\<close>: widths, error codes, assertions, the predicate \<open>returns\<close> with its rules, the collection \<open>kstep\<close>.
  \<^item> \<open>Fifo\<close>: the interfaces \<open>bounded_fifo\<close> and \<open>urgent_fifo\<close>, with the theorem that every sequence of operations behaves as on a
    list; interpreted on the mailbox ring, the message queue, the ring buffer and the data queue.
  \<^item> \<open>RtList\<close> (\<^verbatim>\<open>include/rtservice.h\<close>): the circular doubly linked lists on an explicit store of next and prev pointers, and
    the interface \<open>intrusive_lists\<close> that they implement families of disjoint lists.  It justifies that the kernel state has
    lists of threads and timers in place of pointers.
  \<^item> \<open>Ffs\<close> (\<^verbatim>\<open>kservice.c\<close>): the find-first-set table and routine.
  \<^item> \<open>Mem\<close> and \<open>Heap\<close> (\<^verbatim>\<open>mem.c\<close>): the allocator, and its correctness against the list of blocks that tile the heap: allocated blocks
    are disjoint, aligned, large enough; freeing joins neighbours; allocating and freeing restores the layout.
  \<^item> \<open>KState\<close> (\<^verbatim>\<open>rtdef.h\<close>, the variables of \<^verbatim>\<open>scheduler.c\<close>, \<^verbatim>\<open>thread.c\<close>, \<^verbatim>\<open>timer.c\<close>, \<^verbatim>\<open>idle.c\<close>): the state and the kernel invariant
    \<open>kinv\<close>: each thread is on the list its state demands and on no other, the ready bitmap agrees with the ready queues, the
    current thread runs, the active timers are listed once and belong to suspended threads.  \<open>SampleKernel\<close> is a state that
    satisfies it, for the concrete instances of the theorems.
  \<^item> \<open>Scheduler\<close> (\<^verbatim>\<open>scheduler.c\<close>): refinement of an election of the most urgent thread; no ready thread has a higher priority than the
    running one; critical sections.
  \<^item> \<open>Object\<close> (\<^verbatim>\<open>object.c\<close>): containers and names.  \<open>Timer\<close> (\<^verbatim>\<open>timer.c\<close>): the timer list stays ordered across the
    wrap-around of the tick.  \<open>Thread\<close> (\<^verbatim>\<open>thread.c\<close>): life cycle, sleeping, yielding, change of priority.
    \<open>Idle\<close> (\<^verbatim>\<open>idle.c\<close>): hooks and the reclaiming of ended threads.
  \<^item> \<open>Clock\<close> (\<^verbatim>\<open>clock.c\<close>, \<^verbatim>\<open>irq.c\<close>, \<^verbatim>\<open>rt_timer_check\<close>, \<^verbatim>\<open>SysTick_Handler\<close>): a tick wakes exactly the threads that are due; the
    conversion of milliseconds.
  \<^item> \<open>Ipc\<close>, \<open>Semaphore\<close>, \<open>Mutex\<close>, \<open>Event\<close>, \<open>Mailbox\<close>, \<open>MessageQueue\<close> (\<^verbatim>\<open>ipc.c\<close>): the waiting lists and the five kinds of IPC
    objects; every operation on its branches with the invariant of the object (no lost wake-up, priority inheritance,
    the buffers as queues).
  \<^item> \<open>KMemory\<close>, \<open>Printf\<close>, \<open>Realloc\<close> (\<^verbatim>\<open>kservice.c\<close>, \<^verbatim>\<open>mem.c\<close>): the memory and string routines against byte-wise references whatever
    the alignment and overlap; formatting, which writes the text of the format into every buffer and never behind its end, as long as
    the 32-bit pointer does not wrap around; changing the size of an allocated block with its contents, and aligned
    allocation, on the block layout of \<open>Heap\<close> and a byte memory.
  \<^item> \<open>Device\<close> (\<^verbatim>\<open>device.c\<close>): devices with the callbacks of their drivers as an argument, and the interface \<open>device_driver\<close> of what
    callbacks keep, under which opening and closing is reference counting.
  \<^item> \<open>Spi\<close> (\<^verbatim>\<open>spi_core.c\<close>, \<^verbatim>\<open>spi_dev.c\<close>), \<open>SpiDriver\<close> (\<^verbatim>\<open>drv_spi.c\<close>, \<^verbatim>\<open>ch32v30x_spi.c\<close>), \<open>SpiBoard\<close>: the bus and its lock over any
    driver, the board's driver on its control register, and both together: a transfer is the exchange of the bytes in order with
    whatever is connected to a working wire (\<open>spi_wire_ok\<close>), any sequence of calls leaves each bus free and set up for its owner, transfers on one bus exclude each other.
  \<^item> \<open>Gpio\<close> (\<^verbatim>\<open>pin.c\<close>, \<^verbatim>\<open>drv_gpio.c\<close>, \<^verbatim>\<open>ch32v30x_gpio.c\<close>, \<^verbatim>\<open>ch32v30x_exti.c\<close>): pins on the port registers, and their interrupts:
    a vector shared by several pins is enabled exactly while one of them is.
  \<^item> \<open>Completion\<close>, \<open>DataQueue\<close> (\<^verbatim>\<open>completion.c\<close>, \<^verbatim>\<open>dataqueue.c\<close>): the waiting objects of device drivers: no lost wake-up, the ring of
    a data queue as a bounded queue, its reset.
  \<^item> \<open>RingBuffer\<close> (\<^verbatim>\<open>components/drivers/src/ringbuffer.c\<close>): the byte ring with mirror bits.
  \<^item> \<open>Keyboard\<close>, \<open>Sequencer\<close> (\<^verbatim>\<open>applications/input\<close>, \<^verbatim>\<open>applications/logic\<close>): the key edges, the pattern as an exclusive or, the
    LED bytes.  \<open>KeyboardBus\<close>: the keyboard's transfer over latch pin, SPI core and driver refines the exchange of bytes that
    the model of the input task has.
  \<^item> \<open>TaskFrame\<close>: what a kernel call of one thread leaves alone of the others, as the interface \<open>call_frame\<close>, so that the proofs about
    one task do not look into the calls of another.
  \<^item> \<open>DrumMachine\<close> (\<^verbatim>\<open>input.c\<close>, \<^verbatim>\<open>sequencer.c\<close>, \<^verbatim>\<open>main.c\<close>): the three threads and the tick as a step relation in which the running
    thread makes a round or the tick occurs; the interface \<open>history_invariant\<close> carries an invariant of state and history
    through every run.  The whole program: no round faults, every queued event is taken once and in order, the pattern is
    the exclusive or of the keys of the taken events and the LEDs show it.
  \<^item> \<open>Boot\<close>: the calls that create threads and objects while the system starts, on \<open>boot_inv\<close>: the kernel invariant, no time-outs,
    and the objects on the heap inside allocated blocks, with an account of the bytes each call takes.
  \<^item> \<open>Startup\<close> (\<^verbatim>\<open>components.c\<close>, \<^verbatim>\<open>rt_hw_board_init\<close> of \<^verbatim>\<open>board.c\<close>): from the zeroed variables after a reset to the first switch,
    and from there through the component initialisers to the loops of the machine, whose start state it establishes; the
    interface \<open>initialisers\<close> carries an invariant over a table of initialisers.  \<open>BootKeyboard\<close>: \<^verbatim>\<open>kbInit\<close> keeps what the start asks
    of it, and returns when its bus is there.
  \<^item> \<open>Serial\<close> (\<^verbatim>\<open>components/drivers/serial/serial.c\<close>): the serial framework over any driver; \<open>SerialQueue\<close>: its receive buffer as a queue
    of the newest characters (interface \<open>lossy_fifo\<close>); \<open>SerialPort\<close>: sending and receiving over a driver that keeps the interface
    \<open>uart\<close>.  \<open>SerialBoard\<close> (\<^verbatim>\<open>drv_usart.c\<close>, \<^verbatim>\<open>ch32v30x_usart.c\<close>, the console of \<^verbatim>\<open>kservice.c\<close>): the board's driver keeps that
    interface on hardware that behaves as its manual says, \<^verbatim>\<open>rt_kprintf\<close> reaches the wire, the receive interrupt, the baud rate.
    \<open>BootSerial\<close>: the start with the initialisers of the port and the console.  \<open>BootMachine\<close>: the start of the configured
    machine, with the pins, the SPI buses and the shell (\<^verbatim>\<open>finsh_system_init\<close>) beside them, meets the conditions of the theorems
    about the start.
  \<^item> \<open>ContextSwitch\<close> (\<^verbatim>\<open>libcpu/cpu\<close>): the C and assembly code of the context switch on registers and memory: each thread keeps its registers,
    stack pointer and place through any switches of the others and of itself.  The theorems about the kernel speak of the current
    thread of the record \<open>kernel\<close>; this one says that the code of that thread runs undisturbed.
  \<^item> \<open>ObjectTypes\<close>: the containers are typed: what is found under a class is an object of that class, for every sequence of
    operations on objects.

  \<^bold>\<open>Bounds.\<close>  The sizes are those of \<^verbatim>\<open>rtconfig.h\<close>: 32 priorities, names of 8 bytes, 1000 ticks a second, 4 idle hooks.
  The drum machine theorems hold for runs of any length; the clock may be at any tick, and the timer theorems carry the
  condition that timeouts are less than half of the range of the tick ahead.

  SPI transfers have any length of 32 bits; data queues have at most 32768 items, the range of their indices.  The heap of the
  board has 16384 bytes: the main thread takes 2200 of them, the event, the queue and the two tasks 8816, and 5332 are left for
  the initialisers and \<^verbatim>\<open>kbInit\<close>, which takes 120.

  \<^bold>\<open>Not modelled.\<close>  Of the chip library and the drivers (\<^verbatim>\<open>libraries\<close>) all but the pins, the SPI bus and the serial port, and there the enabling
  of clocks; the DMA mode and the POSIX layer of the serial framework, which are not compiled; the register set-up in \<^verbatim>\<open>board.c\<close> and \<^verbatim>\<open>encInit\<close>; the initialisers of the board other than those of
  the pin device, the serial port, the console, the SPI buses and the shell (the linker lays out their table; they are arguments with contracts); the start-up code in assembly; multi-core,
  soft timers, memory pools, slab and signals, which \<^verbatim>\<open>rtconfig.h\<close> switches off; the hooks for tracing, which nothing sets;
  the shell behind its start, the file systems, the network stacks and the other vendored components.  Interleaving inside a kernel call, at
  the places where it enables interrupts, is not modelled.
\<close>

end
